(* ===== verification/Prelude.thy ===== *)
theory Prelude
  imports Main "HOL-Library.Word"
begin

text \<open>
  The shared vocabulary of the development: Go's fixed-width integers, byte slices,
  errors and panics as values, the big-endian codecs of \<^verbatim>\<open>encoding/binary\<close>,
  checked slicing and indexing, and the list of start values of a counting loop.

  Go's \<^verbatim>\<open>int\<close> is 64 bits wide. The quantities the program keeps in it (offsets into
  pixel buffers, lengths read from 16- and 32-bit fields, tile coordinates) are sums and
  products that stay below \<open>2 ^ 63\<close>, so they are modelled as \<^typ>\<open>nat\<close> (or
  \<^typ>\<open>int\<close> where the source can go negative). Conversions to 8-, 16-, 32- and 64-bit
  types are kept as conversions to words, which wrap.
\<close>

unbundle bit_operations_syntax

named_theorems codec_simps \<open>decoding after encoding\<close>
named_theorems conn_simps \<open>symbolic execution of connection programs\<close>
named_theorems tile_simps \<open>loops over tiles\<close>

type_synonym u8 = "8 word"
type_synonym u16 = "16 word"
type_synonym u32 = "32 word"
type_synonym u64 = "64 word"
type_synonym i32 = "32 word"
type_synonym bytes = "8 word list"

section \<open>Words\<close>

lemma unat_ucast_up:
  assumes "LENGTH('a::len) \<le> LENGTH('b::len)"
  shows "unat (ucast (x :: 'a word) :: 'b word) = unat x"
proof -
  have "unat x < 2 ^ LENGTH('a)" by (rule unsigned_less)
  also have "\<dots> \<le> 2 ^ LENGTH('b)" using assms by simp
  finally show ?thesis by (simp add: unsigned_ucast_eq take_bit_nat_eq_self)
qed

lemma unat_ucast_simps [simp]:
  "unat (ucast (x :: u8) :: u16) = unat x"
  "unat (ucast (x :: u8) :: u32) = unat x"
  "unat (ucast (y :: u16) :: u32) = unat y"
  "unat (ucast (z :: u32) :: u64) = unat z"
  by (simp_all add: unat_ucast_up)

lemma unat_u8_less [simp]: "unat (x :: u8) < 256"
  using unsigned_less [of x] by simp

lemma unat_u16_less [simp]: "unat (x :: u16) < 65536"
  using unsigned_less [of x] by simp

lemma unat_u32_less [simp]: "unat (x :: u32) < 4294967296"
  using unsigned_less [of x] by simp

lemma unat_of_nat_small: "n < 2 ^ LENGTH('a::len) \<Longrightarrow> unat (of_nat n :: 'a word) = n"
  by (simp add: unat_of_nat take_bit_nat_eq_self)

lemma unat_of_nat16 [simp]: "n < 65536 \<Longrightarrow> unat (of_nat n :: u16) = n"
  by (simp add: unat_of_nat_small)

lemma unat_of_nat32 [simp]: "n < 4294967296 \<Longrightarrow> unat (of_nat n :: u32) = n"
  by (simp add: unat_of_nat_small)

section \<open>Errors as values\<close>

text \<open>
  An \<^verbatim>\<open>error\<close> of the program. \<open>Errorf\<close> is \<^verbatim>\<open>fmt.Errorf\<close> with its format and its numeric
  arguments, \<open>ErrorfS\<close> the same with a byte string, \<open>ErrorfW\<close> an error that wraps another
  one (\<^verbatim>\<open>%w\<close>). \<open>Ext\<close> is an error value returned by a library. \<open>GoPanic\<close> is not an
  error value of the program but a run-time panic, which unwinds the goroutine: it is
  never wrapped and never handled by the code modelled here.
\<close>

datatype goerr =
    EOF
  | UnexpectedEOF
  | WriteErr
  | Errorf string "int list"
  | ErrorfS string bytes
  | ErrorfW string "int list" goerr
  | Ext string
  | GoPanic string

type_synonym 'a res = "goerr + 'a"

fun is_panic :: "'a res \<Rightarrow> bool" where
  "is_panic (Inl (GoPanic _)) = True"
| "is_panic _ = False"

fun rbind :: "'a res \<Rightarrow> ('a \<Rightarrow> 'b res) \<Rightarrow> 'b res" where
  "rbind (Inl e) f = Inl e"
| "rbind (Inr x) f = f x"

fun wrap_err :: "string \<Rightarrow> int list \<Rightarrow> goerr \<Rightarrow> goerr" where
  "wrap_err s a (GoPanic p) = GoPanic p"
| "wrap_err s a e = ErrorfW s a e"

fun rwrap :: "string \<Rightarrow> int list \<Rightarrow> 'a res \<Rightarrow> 'a res" where
  "rwrap s a (Inl e) = Inl (wrap_err s a e)"
| "rwrap s a (Inr x) = Inr x"

text \<open>A loop whose body may return early with an error.\<close>

fun foldM :: "('x \<Rightarrow> 's \<Rightarrow> 's res) \<Rightarrow> 'x list \<Rightarrow> 's \<Rightarrow> 's res" where
  "foldM f [] s = Inr s"
| "foldM f (x # xs) s = rbind (f x s) (foldM f xs)"

fun mapM :: "('x \<Rightarrow> 'y res) \<Rightarrow> 'x list \<Rightarrow> 'y list res" where
  "mapM f [] = Inr []"
| "mapM f (x # xs) = rbind (f x) (\<lambda>y. rbind (mapM f xs) (\<lambda>ys. Inr (y # ys)))"

lemma rbind_Inr_iff: "rbind r f = Inr y \<longleftrightarrow> (\<exists>x. r = Inr x \<and> f x = Inr y)"
  by (cases r) auto

lemma rbind_Inl_iff: "rbind r f = Inl e \<longleftrightarrow> r = Inl e \<or> (\<exists>x. r = Inr x \<and> f x = Inl e)"
  by (cases r) auto

lemma rwrap_Inr_iff [simp]: "rwrap s a r = Inr y \<longleftrightarrow> r = Inr y"
  by (cases r) auto

lemma rbind_cong [fundef_cong]:
  "r = r' \<Longrightarrow> (\<And>x. r' = Inr x \<Longrightarrow> f x = f' x) \<Longrightarrow> rbind r f = rbind r' f'"
  by (cases r') auto

text \<open>Computations that return or panic, but never yield an error value.\<close>

definition no_err :: "'a res \<Rightarrow> bool" where
  "no_err r \<longleftrightarrow> (\<exists>x. r = Inr x) \<or> is_panic r"

lemma is_panic_iff: "is_panic r \<longleftrightarrow> (\<exists>p. r = Inl (GoPanic p))"
  by (cases r rule: is_panic.cases) auto

lemma is_panic_rbind: "is_panic r \<Longrightarrow> is_panic (rbind r f)"
  by (auto simp: is_panic_iff)

lemma is_panic_rbind_iff:
  "is_panic (rbind r f) \<longleftrightarrow> is_panic r \<or> (\<exists>x. r = Inr x \<and> is_panic (f x))"
  by (cases r) (auto simp: is_panic_iff)

lemma no_err_Inr [simp]: "no_err (Inr x)"
  by (simp add: no_err_def)

lemma no_err_panic: "is_panic r \<Longrightarrow> no_err r"
  by (simp add: no_err_def)

lemma no_err_rbind: "no_err r \<Longrightarrow> (\<And>x. r = Inr x \<Longrightarrow> no_err (f x)) \<Longrightarrow> no_err (rbind r f)"
  by (cases r) (auto simp: no_err_def is_panic_iff)

lemma no_err_if: "(P \<Longrightarrow> no_err a) \<Longrightarrow> (\<not> P \<Longrightarrow> no_err b) \<Longrightarrow> no_err (if P then a else b)"
  by simp

lemma mapM_panic:
  assumes "x \<in> set xs" and "is_panic (f x)" and "\<And>x. x \<in> set xs \<Longrightarrow> no_err (f x)"
  shows "is_panic (mapM f xs)"
  using assms
proof (induction xs)
  case Nil
  then show ?case by simp
next
  case (Cons a as)
  show ?case
  proof (cases "f a")
    case (Inl e)
    with Cons.prems(3) [of a] show ?thesis by (auto simp: no_err_def is_panic_iff)
  next
    case (Inr y)
    then have "x \<in> set as" using Cons.prems(1,2) by auto
    then have "is_panic (mapM f as)" using Cons by auto
    then show ?thesis using Inr by (simp add: is_panic_rbind)
  qed
qed

lemma foldM_append: "foldM f (xs @ ys) s = rbind (foldM f xs s) (foldM f ys)"
proof (induction xs arbitrary: s)
  case Nil
  then show ?case by simp
next
  case (Cons x xs)
  then show ?case by (cases "f x s") auto
qed

lemma foldM_inv:
  assumes "foldM f xs s = Inr s'" and "P s"
    and "\<And>x s s'. x \<in> set xs \<Longrightarrow> P s \<Longrightarrow> f x s = Inr s' \<Longrightarrow> P s'"
  shows "P s'"
  using assms
proof (induction xs arbitrary: s)
  case Nil
  then show ?case by simp
next
  case (Cons x xs)
  from Cons.prems(1) obtain t where t: "f x s = Inr t" "foldM f xs t = Inr s'"
    by (auto simp: rbind_Inr_iff)
  have "P t" using Cons.prems(2,3) t(1) by auto
  then show ?case using Cons.IH t(2) Cons.prems(3) by auto
qed

lemma mapM_Inr_iff: "mapM f xs = Inr ys \<longleftrightarrow> list_all2 (\<lambda>x y. f x = Inr y) xs ys"
proof (induction xs arbitrary: ys)
  case Nil
  then show ?case by auto
next
  case (Cons x xs)
  then show ?case by (cases ys) (auto simp: rbind_Inr_iff)
qed

lemma mapM_length: "mapM f xs = Inr ys \<Longrightarrow> length ys = length xs"
  by (auto simp: mapM_Inr_iff dest: list_all2_lengthD)

lemma mapM_total: "(\<And>x. x \<in> set xs \<Longrightarrow> f x = Inr (g x)) \<Longrightarrow> mapM f xs = Inr (map g xs)"
  by (induction xs) auto

lemma mapM_ex: "(\<And>x. x \<in> set xs \<Longrightarrow> \<exists>y. f x = Inr y) \<Longrightarrow> \<exists>ys. mapM f xs = Inr ys"
proof (induction xs)
  case Nil
  then show ?case by simp
next
  case (Cons x xs)
  then obtain y ys where "f x = Inr y" "mapM f xs = Inr ys" by fastforce
  then show ?case by simp
qed

lemma mapM_nth: "mapM f xs = Inr ys \<Longrightarrow> i < length xs \<Longrightarrow> f (xs ! i) = Inr (ys ! i)"
  by (auto simp: mapM_Inr_iff list_all2_conv_all_nth)

text \<open>Blocks of equal length inside a concatenation.\<close>

lemma concat_const_length: "(\<And>x. x \<in> set xs \<Longrightarrow> length x = n) \<Longrightarrow> length (concat xs) = length xs * n"
  by (induction xs) auto

lemma concat_block:
  assumes "\<And>x. x \<in> set xs \<Longrightarrow> length x = n" and "i < length xs"
  shows "take n (drop (i * n) (concat xs)) = xs ! i"
  using assms
proof (induction xs arbitrary: i)
  case Nil
  then show ?case by simp
next
  case (Cons x xs)
  then show ?case by (cases i) (auto simp: add.commute drop_drop [symmetric] simp del: drop_drop)
qed

lemma concat_nth_block:
  assumes "\<And>x. x \<in> set xs \<Longrightarrow> length x = n" and "i < length xs" and "k < n"
  shows "concat xs ! (i * n + k) = xs ! i ! k"
proof -
  have "length (concat xs) = length xs * n" using assms(1) by (rule concat_const_length)
  moreover have "i * n + n \<le> length xs * n" using assms(2) by (metis Suc_leI mult_le_mono1 mult_Suc add.commute)
  ultimately have "i * n \<le> length (concat xs)" by linarith
  then have "concat xs ! (i * n + k) = take n (drop (i * n) (concat xs)) ! k"
    using assms(3) by (simp only: nth_take nth_drop)
  then show ?thesis using concat_block [OF assms(1,2)] by simp
qed

lemma concat_concat_map: "concat (concat xss) = concat (map concat xss)"
  by (induction xss) auto

section \<open>Slices\<close>

text \<open>
  \<^verbatim>\<open>xs[a:b]\<close> and \<^verbatim>\<open>xs[i]\<close> panic out of range. For the slices used here the capacity
  equals the length, so the upper bound of a slice expression is the length.
\<close>

definition gslice :: "nat \<Rightarrow> nat \<Rightarrow> 'a list \<Rightarrow> 'a list res" where
  "gslice a b xs =
     (if a \<le> b \<and> b \<le> length xs then Inr (take (b - a) (drop a xs))
      else Inl (GoPanic ''slice bounds out of range''))"

definition index :: "'a list \<Rightarrow> nat \<Rightarrow> 'a res" where
  "index xs i = (if i < length xs then Inr (xs ! i) else Inl (GoPanic ''index out of range''))"

definition set_at :: "nat \<Rightarrow> 'a \<Rightarrow> 'a list \<Rightarrow> 'a list res" where
  "set_at i x xs = (if i < length xs then Inr (xs[i := x]) else Inl (GoPanic ''index out of range''))"

text \<open>\<^verbatim>\<open>copy(dst, src)\<close> copies the shorter of the two lengths.\<close>

definition copy :: "'a list \<Rightarrow> 'a list \<Rightarrow> 'a list" where
  "copy dst src = take (length dst) src @ drop (length src) dst"

text \<open>\<^verbatim>\<open>copy(dst[a:b], src)\<close>, through a slice that aliases \<^verbatim>\<open>dst\<close>.\<close>

definition copy_at :: "nat \<Rightarrow> nat \<Rightarrow> 'a list \<Rightarrow> 'a list \<Rightarrow> 'a list res" where
  "copy_at a b dst src =
     rbind (gslice a b dst) (\<lambda>d. Inr (take a dst @ copy d src @ drop b dst))"

lemma length_copy [simp]: "length (copy d s) = length d"
  by (simp add: copy_def)

lemma copy_same [simp]: "length d = length s \<Longrightarrow> copy d s = s"
  by (simp add: copy_def)

lemma gslice_Inr_iff:
  "gslice a b xs = Inr ys \<longleftrightarrow> a \<le> b \<and> b \<le> length xs \<and> ys = take (b - a) (drop a xs)"
  by (auto simp: gslice_def)

lemma gslice_length: "gslice a b xs = Inr ys \<Longrightarrow> length ys = b - a"
  by (auto simp: gslice_Inr_iff)

lemma length_copy_at: "copy_at a b dst src = Inr d \<Longrightarrow> length d = length dst"
  by (auto simp: copy_at_def rbind_Inr_iff gslice_Inr_iff)

lemma gslice_prefix [simp]: "gslice 0 (length xs) (xs @ ys) = Inr xs"
  by (simp add: gslice_def)

lemma index_Inr_iff: "index xs i = Inr x \<longleftrightarrow> i < length xs \<and> x = xs ! i"
  by (auto simp: index_def)

lemma no_err_slices [intro, simp]:
  "no_err (index xs i)" "no_err (gslice a b xs)" "no_err (set_at i x xs)"
  by (simp_all add: no_err_def index_def gslice_def set_at_def)

section \<open>Counting loops\<close>

text \<open>
  \<open>loop_steps t n ts\<close> lists the values of the loop variable of
  \<^verbatim>\<open>for t := t; t < n; t += ts\<close>. With \<^verbatim>\<open>ts = 0\<close> the Go loop does not end; the step is a
  positive constant wherever the program uses such a loop.
\<close>

function loop_steps :: "nat \<Rightarrow> nat \<Rightarrow> nat \<Rightarrow> nat list" where
  "loop_steps t n ts = (if t < n \<and> 0 < ts then t # loop_steps (t + ts) n ts else [])"
  by pat_completeness auto
termination
  by (relation "measure (\<lambda>(t, n, ts). n - t)") auto

declare loop_steps.simps [simp del]

lemma loop_steps_done [simp]: "n \<le> t \<Longrightarrow> loop_steps t n ts = []"
  by (simp add: loop_steps.simps)

lemma loop_steps_bounds: "u \<in> set (loop_steps t n ts) \<Longrightarrow> t \<le> u \<and> u < n"
proof (induction t n ts rule: loop_steps.induct)
  case (1 t n ts)
  then show ?case by (auto simp: loop_steps.simps [of t n ts] split: if_splits)
qed

text \<open>The tiles \<open>[u, u + min ts (n - u))\<close> cover the range.\<close>

lemma loop_steps_cover:
  assumes "0 < ts" and "t \<le> y" and "y < n"
  shows "\<exists>u \<in> set (loop_steps t n ts). u \<le> y \<and> y < u + min ts (n - u)"
  using assms
proof (induction t n ts rule: loop_steps.induct)
  case (1 t n ts)
  show ?case
  proof (cases "y < t + ts")
    case True
    with "1.prems" show ?thesis by (auto simp: loop_steps.simps [of t n ts])
  next
    case False
    with "1.prems" have "\<exists>u \<in> set (loop_steps (t + ts) n ts). u \<le> y \<and> y < u + min ts (n - u)"
      by (intro "1.IH") auto
    with "1.prems" show ?thesis by (auto simp: loop_steps.simps [of t n ts])
  qed
qed

text \<open>Distinct tiles do not overlap.\<close>

lemma loop_steps_gap:
  "u \<in> set (loop_steps t n ts) \<Longrightarrow> v \<in> set (loop_steps t n ts) \<Longrightarrow> u < v \<Longrightarrow> u + ts \<le> v"
proof (induction t n ts rule: loop_steps.induct)
  case (1 t n ts)
  then show ?case
    by (auto simp: loop_steps.simps [of t n ts] dest: loop_steps_bounds split: if_splits)
qed

lemma loop_steps_unique:
  assumes "u \<in> set (loop_steps t n ts)" and "v \<in> set (loop_steps t n ts)"
    and "u \<le> x" and "x < u + min ts (n - u)" and "v \<le> x" and "x < v + min ts (n - v)"
  shows "u = v"
proof (rule ccontr)
  assume "u \<noteq> v"
  then consider "u < v" | "v < u" by linarith
  then show False
    using assms(3-6) loop_steps_gap [OF assms(1,2)] loop_steps_gap [OF assms(2,1)]
    by cases linarith+
qed

lemma loop_steps_sorted: "sorted_wrt (<) (loop_steps t n ts)"
proof (induction t n ts rule: loop_steps.induct)
  case (1 t n ts)
  then show ?case
    by (auto simp: loop_steps.simps [of t n ts] dest!: loop_steps_bounds)
qed

end
