(* ===== verification/Wire.thy ===== *)
theory Wire
  imports Prelude
begin

text \<open>
  What the sources use of Go's \<^verbatim>\<open>encoding/binary\<close>, \<^verbatim>\<open>io\<close>, \<^verbatim>\<open>bufio\<close> and \<^verbatim>\<open>net\<close>: the
  big- and little-endian codecs and a byte-stream connection with reads that stop at the
  end of the stream and writes that fail once the connection is broken.
\<close>

section \<open>Codecs\<close>

text \<open>\<^verbatim>\<open>binary.BigEndian.PutUint16\<close> / \<^verbatim>\<open>Uint16\<close> and their 32- and 64-bit forms.\<close>

definition be16 :: "u16 \<Rightarrow> bytes" where
  "be16 v = [ucast (drop_bit 8 v), ucast v]"

definition be32 :: "u32 \<Rightarrow> bytes" where
  "be32 v = [ucast (drop_bit 24 v), ucast (drop_bit 16 v), ucast (drop_bit 8 v), ucast v]"

definition be64 :: "u64 \<Rightarrow> bytes" where
  "be64 v = be32 (ucast (drop_bit 32 v)) @ be32 (ucast v)"

definition le16 :: "u16 \<Rightarrow> bytes" where
  "le16 v = rev (be16 v)"

definition le32 :: "u32 \<Rightarrow> bytes" where
  "le32 v = rev (be32 v)"

fun un16 :: "bytes \<Rightarrow> u16" where
  "un16 (a # b # _) = push_bit 8 (ucast a) OR ucast b"
| "un16 _ = 0"

fun un32 :: "bytes \<Rightarrow> u32" where
  "un32 (a # b # c # d # _) =
     push_bit 24 (ucast a) OR push_bit 16 (ucast b) OR push_bit 8 (ucast c) OR ucast d"
| "un32 _ = 0"

definition un64 :: "bytes \<Rightarrow> u64" where
  "un64 bs = push_bit 32 (ucast (un32 bs)) OR ucast (un32 (drop 4 bs))"

text \<open>The little-endian readers take the first two (four) bytes of a slice.\<close>

definition unle16 :: "bytes \<Rightarrow> u16" where
  "unle16 bs = un16 (rev (take 2 bs))"

definition unle32 :: "bytes \<Rightarrow> u32" where
  "unle32 bs = un32 (rev (take 4 bs))"

lemma length_be16 [simp]: "length (be16 v) = 2"
  by (simp add: be16_def)

lemma length_be32 [simp]: "length (be32 v) = 4"
  by (simp add: be32_def)

lemma length_be64 [simp]: "length (be64 v) = 8"
  by (simp add: be64_def)

lemma length_le16 [simp]: "length (le16 v) = 2"
  by (simp add: le16_def)

lemma length_le32 [simp]: "length (le32 v) = 4"
  by (simp add: le32_def)

lemma un16_be16 [simp, codec_simps]: "un16 (be16 v @ r) = v"
  unfolding be16_def
  by (rule bit_word_eqI) (auto simp: bit_simps)

lemma un16_be16_Nil [simp, codec_simps]: "un16 (be16 v) = v"
  using un16_be16 [of v "[]"] by simp

lemma un32_be32 [simp, codec_simps]: "un32 (be32 v @ r) = v"
proof (rule bit_word_eqI)
  fix n
  assume "n < LENGTH(32)"
  then have n: "n < 32" by simp
  consider "n < 8" | "8 \<le> n" "n < 16" | "16 \<le> n" "n < 24" | "24 \<le> n"
    by linarith
  then show "bit (un32 (be32 v @ r)) n = bit v n"
    using n by cases (auto simp: be32_def bit_simps)
qed

lemma un32_be32_Nil [simp, codec_simps]: "un32 (be32 v) = v"
  using un32_be32 [of v "[]"] by simp

lemma un64_be64 [simp, codec_simps]: "un64 (be64 v @ r) = v"
  unfolding be64_def un64_def
  by (rule bit_word_eqI) (auto simp: bit_simps)

lemma unle16_le16 [simp, codec_simps]: "unle16 (le16 v @ r) = v"
  by (simp add: unle16_def le16_def)

lemma unle32_le32 [simp, codec_simps]: "unle32 (le32 v @ r) = v"
  by (simp add: unle32_def le32_def)

text \<open>The other direction: the bytes of a decoded word are the bytes read.\<close>

lemma be16_un16: "length bs = 2 \<Longrightarrow> be16 (un16 bs) = bs"
proof -
  assume "length bs = 2"
  then obtain a b where bs: "bs = [a, b]"
    by (auto simp: numeral_2_eq_2 length_Suc_conv)
  show ?thesis
    unfolding bs be16_def un16.simps
    by (intro arg_cong2 [where f = Cons] refl bit_word_eqI)
      (auto simp: bit_simps dest: bit_imp_le_length)
qed

lemma be32_un32: "length bs = 4 \<Longrightarrow> be32 (un32 bs) = bs"
proof -
  assume "length bs = 4"
  then obtain a b c d where bs: "bs = [a, b, c, d]"
    by (auto simp: eval_nat_numeral length_Suc_conv)
  show ?thesis
    unfolding bs be32_def un32.simps
    by (intro arg_cong2 [where f = Cons] refl bit_word_eqI)
      (auto simp: bit_simps dest: bit_imp_le_length)
qed

section \<open>Connections\<close>

text \<open>
  A connection seen from one end: \<open>cin\<close> the bytes the peer delivers before it closes its
  side, \<open>cout\<close> the bytes written so far, \<open>climit\<close> how many more bytes the connection
  accepts before it breaks (\<open>None\<close>: it never does), \<open>cbroken\<close> whether a write has failed.
  A \<^verbatim>\<open>bufio.Writer\<close> keeps its first error and reports it on every later write and flush;
  when its buffer is handed on is not observable here.
\<close>

record conn =
  cin :: bytes
  cout :: bytes
  climit :: "nat option"
  cbroken :: bool

text \<open>
  A program over a state \<open>'s\<close>: it returns a result or an error, and the new state either
  way. A program over one connection has the connection as its state.
\<close>

type_synonym ('s, 'a) prog = "'s \<Rightarrow> 'a res \<times> 's"
type_synonym 'a io = "(conn, 'a) prog"

abbreviation live :: "bytes \<Rightarrow> bytes \<Rightarrow> conn" where
  "live i out \<equiv> \<lparr>cin = i, cout = out, climit = None, cbroken = False\<rparr>"

definition ret :: "'a \<Rightarrow> ('s, 'a) prog" where
  "ret x c = (Inr x, c)"

definition fail :: "goerr \<Rightarrow> ('s, 'a) prog" where
  "fail e c = (Inl e, c)"

definition bind_io :: "('s, 'a) prog \<Rightarrow> ('a \<Rightarrow> ('s, 'b) prog) \<Rightarrow> ('s, 'b) prog" where
  "bind_io m f c = (case m c of (Inl e, c') \<Rightarrow> (Inl e, c') | (Inr x, c') \<Rightarrow> f x c')"

text \<open>\<^verbatim>\<open>if err := m; err != nil { return fmt.Errorf(s, err) }\<close>\<close>

definition wrap :: "string \<Rightarrow> ('s, 'a) prog \<Rightarrow> ('s, 'a) prog" where
  "wrap s m c = (case m c of (r, c') \<Rightarrow> (rwrap s [] r, c'))"

definition wrapD :: "string \<Rightarrow> int list \<Rightarrow> ('s, 'a) prog \<Rightarrow> ('s, 'a) prog" where
  "wrapD s a m c = (case m c of (r, c') \<Rightarrow> (rwrap s a r, c'))"

text \<open>\<^verbatim>\<open>if err := m; err != nil { return fmt.Errorf(s) }\<close>: the cause is dropped.\<close>

definition replace_err :: "goerr \<Rightarrow> ('s, 'a) prog \<Rightarrow> ('s, 'a) prog" where
  "replace_err e m c =
     (case m c of (Inl (GoPanic p), c') \<Rightarrow> (Inl (GoPanic p), c')
                | (Inl _, c') \<Rightarrow> (Inl e, c') | (Inr x, c') \<Rightarrow> (Inr x, c'))"

definition lift_res :: "'a res \<Rightarrow> ('s, 'a) prog" where
  "lift_res r c = (r, c)"

definition get_state :: "('s, 's) prog" where
  "get_state s = (Inr s, s)"

definition modify :: "('s \<Rightarrow> 's) \<Rightarrow> ('s, unit) prog" where
  "modify f s = (Inr (), f s)"

text \<open>\<^verbatim>\<open>io.ReadFull\<close> into a buffer of \<open>n\<close> bytes.\<close>

definition readFull :: "nat \<Rightarrow> bytes io" where
  "readFull n c =
     (if n \<le> length (cin c) then (Inr (take n (cin c)), c\<lparr>cin := drop n (cin c)\<rparr>)
      else if cin c = [] then (Inl EOF, c)
      else (Inl UnexpectedEOF, c\<lparr>cin := []\<rparr>))"

text \<open>\<^verbatim>\<open>binary.Read\<close> of one fixed-size value.\<close>

definition read_u8 :: "u8 io" where
  "read_u8 = bind_io (readFull 1) (\<lambda>b. ret (hd b))"

definition read_u16 :: "u16 io" where
  "read_u16 = bind_io (readFull 2) (\<lambda>b. ret (un16 b))"

definition read_u32 :: "u32 io" where
  "read_u32 = bind_io (readFull 4) (\<lambda>b. ret (un32 b))"

definition writeB :: "bytes \<Rightarrow> unit io" where
  "writeB p c =
     (if cbroken c then (Inl WriteErr, c)
      else case climit c of
        None \<Rightarrow> (Inr (), c\<lparr>cout := cout c @ p\<rparr>)
      | Some n \<Rightarrow>
          if length p \<le> n then (Inr (), c\<lparr>cout := cout c @ p, climit := Some (n - length p)\<rparr>)
          else (Inl WriteErr, c\<lparr>cout := cout c @ take n p, climit := Some 0, cbroken := True\<rparr>))"

definition flush :: "unit io" where
  "flush c = (if cbroken c then (Inl WriteErr, c) else (Inr (), c))"

fun seq_io :: "('s, unit) prog list \<Rightarrow> ('s, unit) prog" where
  "seq_io [] = ret ()"
| "seq_io (m # ms) = bind_io m (\<lambda>_. seq_io ms)"

text \<open>\<^verbatim>\<open>for i := range xs { xs[i] = m }\<close>\<close>

fun replicate_io :: "nat \<Rightarrow> ('s, 'a) prog \<Rightarrow> ('s, 'a list) prog" where
  "replicate_io 0 m = ret []"
| "replicate_io (Suc n) m = bind_io m (\<lambda>x. bind_io (replicate_io n m) (\<lambda>xs. ret (x # xs)))"

subsection \<open>Symbolic execution\<close>

lemma ret_simp [conn_simps]: "ret x c = (Inr x, c)"
  by (simp add: ret_def)

lemma fail_simp [conn_simps]: "fail e c = (Inl e, c)"
  by (simp add: fail_def)

lemma lift_res_simp [conn_simps]: "lift_res r c = (r, c)"
  by (simp add: lift_res_def)

lemma get_state_simp [conn_simps]: "get_state s = (Inr s, s)"
  by (simp add: get_state_def)

lemma modify_simp [conn_simps]: "modify f s = (Inr (), f s)"
  by (simp add: modify_def)

lemma bind_io_Inr [conn_simps]: "m c = (Inr x, c') \<Longrightarrow> bind_io m f c = f x c'"
  by (simp add: bind_io_def)

lemma bind_io_Inl [conn_simps]: "m c = (Inl e, c') \<Longrightarrow> bind_io m f c = (Inl e, c')"
  by (simp add: bind_io_def)

lemma wrap_Inr [conn_simps]: "m c = (Inr x, c') \<Longrightarrow> wrap s m c = (Inr x, c')"
  by (simp add: wrap_def)

lemma wrap_Inl [conn_simps]: "m c = (Inl e, c') \<Longrightarrow> wrap s m c = (Inl (wrap_err s [] e), c')"
  by (simp add: wrap_def)

lemma wrapD_Inr [conn_simps]: "m c = (Inr x, c') \<Longrightarrow> wrapD s a m c = (Inr x, c')"
  by (simp add: wrapD_def)

lemma wrapD_Inl [conn_simps]: "m c = (Inl e, c') \<Longrightarrow> wrapD s a m c = (Inl (wrap_err s a e), c')"
  by (simp add: wrapD_def)

lemma replace_err_Inr [conn_simps]: "m c = (Inr x, c') \<Longrightarrow> replace_err e m c = (Inr x, c')"
  by (simp add: replace_err_def)

lemma readFull_append [conn_simps]:
  "length xs = n \<Longrightarrow> readFull n \<lparr>cin = xs @ ys, cout = out, climit = l, cbroken = k\<rparr>
     = (Inr xs, \<lparr>cin = ys, cout = out, climit = l, cbroken = k\<rparr>)"
  by (auto simp: readFull_def)

lemma readFull_all [conn_simps]:
  "length xs = n \<Longrightarrow> readFull n \<lparr>cin = xs, cout = out, climit = l, cbroken = k\<rparr>
     = (Inr xs, \<lparr>cin = [], cout = out, climit = l, cbroken = k\<rparr>)"
  using readFull_append [of xs n "[]"] by simp

lemma readFull_short:
  "length (cin c) < n \<Longrightarrow>
     readFull n c = (Inl (if cin c = [] then EOF else UnexpectedEOF), c\<lparr>cin := []\<rparr>)"
  by (auto simp: readFull_def)

lemma read_u8_Cons [conn_simps]:
  "read_u8 \<lparr>cin = x # ys, cout = out, climit = l, cbroken = k\<rparr>
     = (Inr x, \<lparr>cin = ys, cout = out, climit = l, cbroken = k\<rparr>)"
  by (simp add: read_u8_def bind_io_def readFull_def ret_def)

lemma read_u16_be16 [conn_simps]:
  "read_u16 \<lparr>cin = be16 v @ ys, cout = out, climit = l, cbroken = k\<rparr>
     = (Inr v, \<lparr>cin = ys, cout = out, climit = l, cbroken = k\<rparr>)"
  by (simp add: read_u16_def conn_simps)

lemma read_u32_be32 [conn_simps]:
  "read_u32 \<lparr>cin = be32 v @ ys, cout = out, climit = l, cbroken = k\<rparr>
     = (Inr v, \<lparr>cin = ys, cout = out, climit = l, cbroken = k\<rparr>)"
  by (simp add: read_u32_def conn_simps)

lemma read_u32_be32_all [conn_simps]:
  "read_u32 \<lparr>cin = be32 v, cout = out, climit = l, cbroken = k\<rparr>
     = (Inr v, \<lparr>cin = [], cout = out, climit = l, cbroken = k\<rparr>)"
  using read_u32_be32 [of v "[]"] by simp

lemma writeB_live [conn_simps]: "writeB p (live i out) = (Inr (), live i (out @ p))"
  by (simp add: writeB_def)

lemma flush_live [conn_simps]: "flush (live i out) = (Inr (), live i out)"
  by (simp add: flush_def)

subsection \<open>Laws of sequencing\<close>

lemma bind_io_assoc: "bind_io (bind_io m f) g = bind_io m (\<lambda>x. bind_io (f x) g)"
  by (rule ext) (auto simp: bind_io_def split: prod.splits sum.splits)

lemma bind_ret_left: "bind_io (ret x) f = f x"
  by (rule ext) (simp add: conn_simps)

subsection \<open>Inversion of programs that succeeded\<close>

lemma bind_io_Inr_iff:
  "bind_io m f c = (Inr y, c') \<longleftrightarrow> (\<exists>x d. m c = (Inr x, d) \<and> f x d = (Inr y, c'))"
  by (auto simp: bind_io_def split: prod.splits sum.splits)

lemma wrap_Inr_iff: "wrap s m c = (Inr y, c') \<longleftrightarrow> m c = (Inr y, c')"
  by (auto simp: wrap_def split: prod.splits)

lemma wrapD_Inr_iff: "wrapD s a m c = (Inr y, c') \<longleftrightarrow> m c = (Inr y, c')"
  by (auto simp: wrapD_def split: prod.splits)

lemma replace_err_Inr_iff: "replace_err e m c = (Inr y, c') \<longleftrightarrow> m c = (Inr y, c')"
  by (auto simp: replace_err_def split: prod.splits sum.splits goerr.splits)

lemma lift_res_Inr_iff: "lift_res r c = (Inr y, c') \<longleftrightarrow> r = Inr y \<and> c' = c"
  by (auto simp: lift_res_def)

lemma ret_Inr_iff: "ret x c = (Inr y, c') \<longleftrightarrow> y = x \<and> c' = c"
  by (auto simp: ret_def)

lemma get_state_Inr_iff: "get_state c = (Inr y, c') \<longleftrightarrow> y = c \<and> c' = c"
  by (auto simp: get_state_def)

lemma modify_Inr_iff: "modify f c = (Inr y, c') \<longleftrightarrow> c' = f c"
  by (auto simp: modify_def)

lemma fail_Inr_iff: "fail e c = (Inr y, c') \<longleftrightarrow> False"
  by (auto simp: fail_def)

lemma readFull_Inr_iff:
  "readFull n c = (Inr b, c') \<longleftrightarrow>
     n \<le> length (cin c) \<and> b = take n (cin c) \<and> c' = c\<lparr>cin := drop n (cin c)\<rparr>"
  by (auto simp: readFull_def)

lemma writeB_Inr: "writeB p c = (Inr (), c') \<Longrightarrow> cout c' = cout c @ p \<and> cin c' = cin c"
  by (auto simp: writeB_def split: option.splits if_splits)

lemmas io_Inr_iffs = bind_io_Inr_iff wrap_Inr_iff wrapD_Inr_iff replace_err_Inr_iff
  lift_res_Inr_iff ret_Inr_iff fail_Inr_iff readFull_Inr_iff get_state_Inr_iff modify_Inr_iff

subsection \<open>What every connection program does to its connection\<close>

text \<open>
  \<open>io_ok m\<close>: \<open>m\<close> consumes a prefix of the input and appends to the output, and it never
  touches the failure budget except downwards. Every program built from the operations
  above has this property.
\<close>

definition io_ok :: "'a io \<Rightarrow> bool" where
  "io_ok m \<longleftrightarrow>
     (\<forall>c r c'. m c = (r, c') \<longrightarrow>
        (\<exists>xs. cin c = xs @ cin c') \<and> (\<exists>ys. cout c' = cout c @ ys) \<and>
        (climit c = None \<longrightarrow> climit c' = None) \<and> (\<not> cbroken c \<and> climit c = None \<longrightarrow> \<not> cbroken c'))"

lemma io_okI:
  assumes "\<And>c r c'. m c = (r, c') \<Longrightarrow>
        (\<exists>xs. cin c = xs @ cin c') \<and> (\<exists>ys. cout c' = cout c @ ys) \<and>
        (climit c = None \<longrightarrow> climit c' = None) \<and> (\<not> cbroken c \<and> climit c = None \<longrightarrow> \<not> cbroken c')"
  shows "io_ok m"
  using assms by (auto simp: io_ok_def)

lemma io_ok_input: "io_ok m \<Longrightarrow> m c = (r, c') \<Longrightarrow> \<exists>xs. cin c = xs @ cin c'"
  by (auto simp: io_ok_def)

lemma io_ok_output: "io_ok m \<Longrightarrow> m c = (r, c') \<Longrightarrow> \<exists>ys. cout c' = cout c @ ys"
  by (auto simp: io_ok_def)

lemma io_ok_ret [intro, simp]: "io_ok (ret x)"
  by (rule io_okI) (auto simp: ret_def)

lemma io_ok_fail [intro, simp]: "io_ok (fail e)"
  by (rule io_okI) (auto simp: fail_def)

lemma io_ok_lift_res [intro, simp]: "io_ok (lift_res r)"
  by (rule io_okI) (auto simp: lift_res_def)

lemma io_ok_readFull [intro, simp]: "io_ok (readFull n)"
  by (rule io_okI) (auto simp: readFull_def split: if_splits intro: append_take_drop_id [symmetric])

lemma io_ok_writeB [intro, simp]: "io_ok (writeB p)"
  by (rule io_okI) (auto simp: writeB_def split: if_splits option.splits)

lemma io_ok_flush [intro, simp]: "io_ok flush"
  by (rule io_okI) (auto simp: flush_def split: if_splits)

lemma io_ok_bind [intro]:
  assumes m: "io_ok m" and f: "\<And>x. io_ok (f x)"
  shows "io_ok (bind_io m f)"
proof (rule io_okI)
  fix c r c'
  assume run: "bind_io m f c = (r, c')"
  obtain q d where q: "m c = (q, d)" by force
  show "(\<exists>xs. cin c = xs @ cin c') \<and> (\<exists>ys. cout c' = cout c @ ys) \<and>
        (climit c = None \<longrightarrow> climit c' = None) \<and> (\<not> cbroken c \<and> climit c = None \<longrightarrow> \<not> cbroken c')"
  proof (cases q)
    case (Inl e)
    with run q m show ?thesis by (auto simp: bind_io_def io_ok_def)
  next
    case (Inr x)
    with run q have "f x d = (r, c')" by (simp add: bind_io_def)
    with f [of x] m q show ?thesis
      unfolding io_ok_def by (metis append.assoc)
  qed
qed

lemma io_ok_wrap [intro]: "io_ok m \<Longrightarrow> io_ok (wrap s m)"
  by (auto simp: io_ok_def wrap_def split: prod.splits)

lemma io_ok_wrapD [intro]: "io_ok m \<Longrightarrow> io_ok (wrapD s a m)"
  by (auto simp: io_ok_def wrapD_def split: prod.splits)

lemma io_ok_replace_err [intro]: "io_ok m \<Longrightarrow> io_ok (replace_err e m)"
proof (rule io_okI)
  fix c r c'
  assume m: "io_ok m" and run: "replace_err e m c = (r, c')"
  obtain q d where q: "m c = (q, d)" by force
  with run have "c' = d"
    by (auto simp: replace_err_def split: sum.splits goerr.splits)
  with m q show "(\<exists>xs. cin c = xs @ cin c') \<and> (\<exists>ys. cout c' = cout c @ ys) \<and>
        (climit c = None \<longrightarrow> climit c' = None) \<and> (\<not> cbroken c \<and> climit c = None \<longrightarrow> \<not> cbroken c')"
    by (auto simp: io_ok_def)
qed

lemma io_ok_read_u8 [intro, simp]: "io_ok read_u8"
  unfolding read_u8_def by blast

lemma io_ok_read_u16 [intro, simp]: "io_ok read_u16"
  unfolding read_u16_def by blast

lemma io_ok_read_u32 [intro, simp]: "io_ok read_u32"
  unfolding read_u32_def by blast

lemma io_ok_replicate [intro]: "io_ok m \<Longrightarrow> io_ok (replicate_io n m)"
  by (induction n) auto

lemma io_ok_seq: "(\<And>m. m \<in> set ms \<Longrightarrow> io_ok m) \<Longrightarrow> io_ok (seq_io ms)"
  by (induction ms) auto

lemma io_ok_if [intro]: "io_ok a \<Longrightarrow> io_ok b \<Longrightarrow> io_ok (if P then a else b)"
  by simp

end
