(* ===== verification/Protocol.thy ===== *)
theory Protocol
  imports Wire
begin

text \<open>
  \<^verbatim>\<open>rfb/protocol.go\<close>: the wire types and constants of the RFB protocol, the readers of the
  client-to-server messages and the writers of the server-to-client messages. A struct is
  a record, a reader or writer a program over a connection. \<^verbatim>\<open>binary.Read\<close> of a struct
  reads all its bytes at once and decodes the fields in order; blank padding fields are
  skipped on reading and written as zero bytes.
\<close>

section \<open>Constants\<close>

definition str :: "string \<Rightarrow> bytes" where
  "str s = map of_char s"

definition VersionString3_3 :: bytes where "VersionString3_3 = str ''RFB 003.003'' @ [10]"
definition VersionString3_7 :: bytes where "VersionString3_7 = str ''RFB 003.007'' @ [10]"
definition VersionString3_8 :: bytes where "VersionString3_8 = str ''RFB 003.008'' @ [10]"

definition SecurityNone :: u8 where "SecurityNone = 1"
definition SecurityVNCAuth :: u8 where "SecurityVNCAuth = 2"

definition MsgSetPixelFormat :: u8 where "MsgSetPixelFormat = 0"
definition MsgSetEncodings :: u8 where "MsgSetEncodings = 2"
definition MsgFramebufferUpdateRequest :: u8 where "MsgFramebufferUpdateRequest = 3"
definition MsgKeyEvent :: u8 where "MsgKeyEvent = 4"
definition MsgPointerEvent :: u8 where "MsgPointerEvent = 5"
definition MsgClientCutText :: u8 where "MsgClientCutText = 6"

definition MsgFramebufferUpdate :: u8 where "MsgFramebufferUpdate = 0"
definition MsgSetColourMapEntry :: u8 where "MsgSetColourMapEntry = 1"
definition MsgBell :: u8 where "MsgBell = 2"
definition MsgServerCutText :: u8 where "MsgServerCutText = 3"

definition EncodingRaw :: i32 where "EncodingRaw = 0"
definition EncodingCopyRect :: i32 where "EncodingCopyRect = 1"
definition EncodingRRE :: i32 where "EncodingRRE = 2"
definition EncodingZlib :: i32 where "EncodingZlib = 6"
definition EncodingTight :: i32 where "EncodingTight = 7"
definition EncodingZRLE :: i32 where "EncodingZRLE = 16"
definition EncodingH264 :: i32 where "EncodingH264 = 50"
definition EncodingCursor :: i32 where "EncodingCursor = -239"
definition EncodingDesktopSize :: i32 where "EncodingDesktopSize = -223"

lemmas sec_defs = SecurityNone_def SecurityVNCAuth_def
lemmas client_msg_defs = MsgSetPixelFormat_def MsgSetEncodings_def MsgFramebufferUpdateRequest_def
  MsgKeyEvent_def MsgPointerEvent_def MsgClientCutText_def
lemmas server_msg_defs = MsgFramebufferUpdate_def MsgSetColourMapEntry_def MsgBell_def
  MsgServerCutText_def
lemmas enc_defs = EncodingRaw_def EncodingCopyRect_def EncodingRRE_def EncodingZlib_def
  EncodingTight_def EncodingZRLE_def EncodingH264_def EncodingCursor_def EncodingDesktopSize_def

lemma length_VersionString3_8 [simp]: "length VersionString3_8 = 12"
  by (simp add: VersionString3_8_def str_def)

section \<open>Pixel formats and ServerInit\<close>

record PixelFormat =
  BitsPerPixel :: u8
  Depth :: u8
  BigEndian :: u8
  TrueColour :: u8
  RedMax :: u16
  GreenMax :: u16
  BlueMax :: u16
  RedShift :: u8
  GreenShift :: u8
  BlueShift :: u8

definition DefaultPixelFormat :: PixelFormat where
  "DefaultPixelFormat =
     \<lparr>BitsPerPixel = 32, Depth = 24, BigEndian = 0, TrueColour = 1,
      RedMax = 255, GreenMax = 255, BlueMax = 255,
      RedShift = 16, GreenShift = 8, BlueShift = 0\<rparr>"

text \<open>The 16 bytes of \<^verbatim>\<open>binary.Write(w, binary.BigEndian, pf)\<close>, and their decoding.\<close>

definition enc_PixelFormat :: "PixelFormat \<Rightarrow> bytes" where
  "enc_PixelFormat pf =
     [BitsPerPixel pf, Depth pf, BigEndian pf, TrueColour pf]
     @ be16 (RedMax pf) @ be16 (GreenMax pf) @ be16 (BlueMax pf)
     @ [RedShift pf, GreenShift pf, BlueShift pf] @ [0, 0, 0]"

definition dec_PixelFormat :: "bytes \<Rightarrow> PixelFormat" where
  "dec_PixelFormat b =
     \<lparr>BitsPerPixel = b ! 0, Depth = b ! 1, BigEndian = b ! 2, TrueColour = b ! 3,
      RedMax = un16 (drop 4 b), GreenMax = un16 (drop 6 b), BlueMax = un16 (drop 8 b),
      RedShift = b ! 10, GreenShift = b ! 11, BlueShift = b ! 12\<rparr>"

lemma length_enc_PixelFormat [simp]: "length (enc_PixelFormat pf) = 16"
  by (simp add: enc_PixelFormat_def)

lemma dec_enc_PixelFormat_append:
  "dec_PixelFormat (enc_PixelFormat pf @ r) = pf"
  by (simp add: dec_PixelFormat_def enc_PixelFormat_def nth_append nth_Cons')

lemma dec_enc_PixelFormat [simp, codec_simps]: "dec_PixelFormat (enc_PixelFormat pf) = pf"
  using dec_enc_PixelFormat_append [of pf "[]"] by simp

record ServerInit =
  si_Width :: u16
  si_Height :: u16
  si_PixelFormat :: PixelFormat
  si_NameLength :: u32
  si_Name :: bytes

definition WriteServerInit :: "ServerInit \<Rightarrow> unit io" where
  "WriteServerInit init =
     bind_io (wrap ''write width: %w'' (writeB (be16 (si_Width init)))) (\<lambda>_.
     bind_io (wrap ''write height: %w'' (writeB (be16 (si_Height init)))) (\<lambda>_.
     bind_io (wrap ''write pixel format: %w'' (writeB (enc_PixelFormat (si_PixelFormat init)))) (\<lambda>_.
     bind_io (wrap ''write name length: %w'' (writeB (be32 (of_nat (length (si_Name init)))))) (\<lambda>_.
     wrap ''write name: %w'' (writeB (si_Name init))))))"

definition enc_ServerInit :: "ServerInit \<Rightarrow> bytes" where
  "enc_ServerInit init =
     be16 (si_Width init) @ be16 (si_Height init) @ enc_PixelFormat (si_PixelFormat init)
     @ be32 (of_nat (length (si_Name init))) @ si_Name init"

lemma WriteServerInit_live [conn_simps]:
  "WriteServerInit init (live i out) = (Inr (), live i (out @ enc_ServerInit init))"
  by (simp add: WriteServerInit_def enc_ServerInit_def conn_simps)

section \<open>Client-to-server messages\<close>

text \<open>In each reader the message type byte has already been consumed.\<close>

record FramebufferUpdateRequest =
  req_Incremental :: u8
  req_X :: u16
  req_Y :: u16
  req_Width :: u16
  req_Height :: u16

definition ReadFramebufferUpdateRequest :: "FramebufferUpdateRequest io" where
  "ReadFramebufferUpdateRequest =
     bind_io (wrap ''read framebuffer update request: %w'' (readFull 9)) (\<lambda>b.
     ret \<lparr>req_Incremental = b ! 0, req_X = un16 (drop 1 b), req_Y = un16 (drop 3 b),
          req_Width = un16 (drop 5 b), req_Height = un16 (drop 7 b)\<rparr>)"

record KeyEvent =
  key_DownFlag :: u8
  key_Key :: u32

definition ReadKeyEvent :: "KeyEvent io" where
  "ReadKeyEvent =
     bind_io (wrap ''read key event: %w'' (readFull 7)) (\<lambda>b.
     ret \<lparr>key_DownFlag = b ! 0, key_Key = un32 (drop 3 b)\<rparr>)"

record PointerEvent =
  ptr_ButtonMask :: u8
  ptr_X :: u16
  ptr_Y :: u16

definition ReadPointerEvent :: "PointerEvent io" where
  "ReadPointerEvent =
     bind_io (wrap ''read pointer event: %w'' (readFull 5)) (\<lambda>b.
     ret \<lparr>ptr_ButtonMask = b ! 0, ptr_X = un16 (drop 1 b), ptr_Y = un16 (drop 3 b)\<rparr>)"

definition ReadSetPixelFormat :: "PixelFormat io" where
  "ReadSetPixelFormat =
     bind_io (wrap ''read set pixel format: %w'' (readFull 19)) (\<lambda>b.
     ret (dec_PixelFormat (drop 3 b)))"

text \<open>The loop of \<^verbatim>\<open>ReadSetEncodings\<close>: \<open>i\<close> is the index of the next encoding.\<close>

fun readEncodings :: "nat \<Rightarrow> nat \<Rightarrow> i32 list io" where
  "readEncodings i 0 = ret []"
| "readEncodings i (Suc n) =
     bind_io (wrapD ''read encoding %d: %w'' [int i] read_u32) (\<lambda>e.
     bind_io (readEncodings (Suc i) n) (\<lambda>es. ret (e # es)))"

definition ReadSetEncodings :: "i32 list io" where
  "ReadSetEncodings =
     bind_io (wrap ''read padding: %w'' read_u8) (\<lambda>_.
     bind_io (wrap ''read encoding count: %w'' read_u16) (\<lambda>count.
     readEncodings 0 (unat count)))"

definition ReadClientCutText :: "bytes io" where
  "ReadClientCutText =
     bind_io (wrap ''read padding: %w'' (readFull 3)) (\<lambda>_.
     bind_io (wrap ''read text length: %w'' read_u32) (\<lambda>len.
     if len > 10 * 1024 * 1024
     then fail (Errorf ''cut text too large: %d bytes'' [uint len])
     else wrap ''read text: %w'' (readFull (unat len))))"

section \<open>Server-to-client messages\<close>

record RectHeader =
  hdr_X :: u16
  hdr_Y :: u16
  hdr_Width :: u16
  hdr_Height :: u16
  hdr_Encoding :: i32

record Rectangle =
  rect_Header :: RectHeader
  rect_Data :: bytes

definition enc_RectHeader :: "RectHeader \<Rightarrow> bytes" where
  "enc_RectHeader h =
     be16 (hdr_X h) @ be16 (hdr_Y h) @ be16 (hdr_Width h) @ be16 (hdr_Height h)
     @ be32 (hdr_Encoding h)"

definition Rectangle_Write :: "Rectangle \<Rightarrow> unit io" where
  "Rectangle_Write r =
     bind_io (wrap ''write rect header: %w'' (writeB (enc_RectHeader (rect_Header r)))) (\<lambda>_.
     wrap ''write rect data: %w'' (writeB (rect_Data r)))"

fun writeRects :: "nat \<Rightarrow> Rectangle list \<Rightarrow> unit io" where
  "writeRects i [] = ret ()"
| "writeRects i (r # rs) =
     bind_io (wrapD ''write rect %d: %w'' [int i] (Rectangle_Write r)) (\<lambda>_. writeRects (Suc i) rs)"

definition WriteFramebufferUpdate :: "Rectangle list \<Rightarrow> unit io" where
  "WriteFramebufferUpdate rects =
     bind_io (wrap ''write message type: %w'' (writeB [MsgFramebufferUpdate])) (\<lambda>_.
     bind_io (wrap ''write padding: %w'' (writeB [0])) (\<lambda>_.
     bind_io (wrap ''write rect count: %w'' (writeB (be16 (of_nat (length rects))))) (\<lambda>_.
     writeRects 0 rects)))"

definition enc_Rectangle :: "Rectangle \<Rightarrow> bytes" where
  "enc_Rectangle r = enc_RectHeader (rect_Header r) @ rect_Data r"

definition enc_FramebufferUpdate :: "Rectangle list \<Rightarrow> bytes" where
  "enc_FramebufferUpdate rects =
     [MsgFramebufferUpdate, 0] @ be16 (of_nat (length rects)) @ concat (map enc_Rectangle rects)"

definition EncodeDesktopSizeRect :: "u16 \<Rightarrow> u16 \<Rightarrow> Rectangle" where
  "EncodeDesktopSizeRect width height =
     \<lparr>rect_Header = \<lparr>hdr_X = 0, hdr_Y = 0, hdr_Width = width, hdr_Height = height,
                     hdr_Encoding = EncodingDesktopSize\<rparr>,
      rect_Data = []\<rparr>"

record CursorImage =
  cur_Width :: u16
  cur_Height :: u16
  cur_HotspotX :: u16
  cur_HotspotY :: u16
  cur_Pixels :: bytes
  cur_Mask :: bytes

definition WriteServerCutText :: "bytes \<Rightarrow> unit io" where
  "WriteServerCutText text =
     bind_io (writeB [MsgServerCutText]) (\<lambda>_.
     bind_io (writeB [0, 0, 0]) (\<lambda>_.
     bind_io (writeB (be32 (of_nat (length text)))) (\<lambda>_.
     writeB text)))"

definition enc_ServerCutText :: "bytes \<Rightarrow> bytes" where
  "enc_ServerCutText text = [MsgServerCutText, 0, 0, 0] @ be32 (of_nat (length text)) @ text"

definition WriteBell :: "unit io" where
  "WriteBell = writeB [MsgBell]"

lemma length_enc_RectHeader [simp]: "length (enc_RectHeader h) = 12"
  by (simp add: enc_RectHeader_def)

lemma Rectangle_Write_live [conn_simps]:
  "Rectangle_Write r (live i out) = (Inr (), live i (out @ enc_Rectangle r))"
  by (simp add: Rectangle_Write_def enc_Rectangle_def conn_simps)

lemma writeRects_live [conn_simps]:
  "writeRects k rs (live i out) = (Inr (), live i (out @ concat (map enc_Rectangle rs)))"
  by (induction rs arbitrary: k out) (simp_all add: conn_simps)

lemma WriteFramebufferUpdate_live [conn_simps]:
  "WriteFramebufferUpdate rects (live i out)
     = (Inr (), live i (out @ enc_FramebufferUpdate rects))"
  by (simp add: WriteFramebufferUpdate_def enc_FramebufferUpdate_def conn_simps)

lemma WriteServerCutText_live [conn_simps]:
  "WriteServerCutText text (live i out) = (Inr (), live i (out @ enc_ServerCutText text))"
  by (simp add: WriteServerCutText_def enc_ServerCutText_def conn_simps)

lemma WriteBell_live [conn_simps]: "WriteBell (live i out) = (Inr (), live i (out @ [MsgBell]))"
  by (simp add: WriteBell_def conn_simps)

subsection \<open>A broken connection only ever truncates a message\<close>

text \<open>
  \<open>emits m p\<close>: on a connection that has not failed yet, \<open>m\<close> leaves the connection as the
  single write of \<open>p\<close> does, and it succeeds exactly when that write does. So the peer has
  received all of \<open>p\<close>, or a proper prefix of it and \<open>m\<close> reports an error.
\<close>

definition emits :: "unit io \<Rightarrow> bytes \<Rightarrow> bool" where
  "emits m p \<longleftrightarrow>
     (\<forall>c. \<not> cbroken c \<longrightarrow>
        snd (m c) = snd (writeB p c) \<and> (fst (m c) = Inr () \<longleftrightarrow> fst (writeB p c) = Inr ()))"

lemma emitsD:
  "emits m p \<Longrightarrow> \<not> cbroken c \<Longrightarrow>
     snd (m c) = snd (writeB p c) \<and> (fst (m c) = Inr () \<longleftrightarrow> fst (writeB p c) = Inr ())"
  by (auto simp: emits_def)

lemma emits_writeB: "emits (writeB p) p"
  by (simp add: emits_def)

lemma emits_ret: "emits (ret ()) []"
  by (auto simp: emits_def ret_def writeB_def split: option.splits)

lemma emits_flush: "emits flush []"
  by (auto simp: emits_def flush_def writeB_def split: option.splits)

lemma emits_wrapD: "emits m p \<Longrightarrow> emits (wrapD s a m) p"
  by (auto simp: emits_def wrapD_def split_beta)

lemma emits_wrap: "emits m p \<Longrightarrow> emits (wrap s m) p"
  by (auto simp: emits_def wrap_def split_beta)

text \<open>One write of two pieces is the write of the first and then of the second.\<close>

lemma writeB_append:
  "\<not> cbroken c \<Longrightarrow>
     snd (bind_io (writeB p) (\<lambda>_. writeB q) c) = snd (writeB (p @ q) c) \<and>
     (fst (bind_io (writeB p) (\<lambda>_. writeB q) c) = Inr () \<longleftrightarrow> fst (writeB (p @ q) c) = Inr ())"
  by (auto simp: bind_io_def writeB_def split: option.splits)

lemma writeB_not_broken: "fst (writeB p c) = Inr () \<Longrightarrow> \<not> cbroken (snd (writeB p c))"
  by (auto simp: writeB_def split: option.splits if_splits)

lemma bind_io_eq:
  fixes m :: "unit io"
  shows "bind_io m (\<lambda>_. k) c =
     (if fst (m c) = Inr () then k (snd (m c)) else (Inl (projl (fst (m c))), snd (m c)))"
  by (cases "m c"; cases "fst (m c)") (auto simp: bind_io_def)

lemma emits_bind:
  assumes m: "emits m p" and k: "emits k q"
  shows "emits (bind_io m (\<lambda>_. k)) (p @ q)"
  unfolding emits_def
proof (intro allI impI)
  fix c :: conn
  assume nb: "\<not> cbroken c"
  let ?w = "writeB p c" and ?d = "snd (writeB p c)"
  have ma: "snd (m c) = ?d" "fst (m c) = Inr () \<longleftrightarrow> fst ?w = Inr ()"
    using emitsD [OF m nb] by auto
  have kd: "fst ?w = Inr () \<Longrightarrow>
      snd (k ?d) = snd (writeB q ?d) \<and> (fst (k ?d) = Inr () \<longleftrightarrow> fst (writeB q ?d) = Inr ())"
    using emitsD [OF k] writeB_not_broken by blast
  have "snd (bind_io m (\<lambda>_. k) c) = snd (bind_io (writeB p) (\<lambda>_. writeB q) c) \<and>
      (fst (bind_io m (\<lambda>_. k) c) = Inr () \<longleftrightarrow> fst (bind_io (writeB p) (\<lambda>_. writeB q) c) = Inr ())"
    unfolding bind_io_eq [of m k] bind_io_eq [of "writeB p" "writeB q"] using ma kd by auto
  then show "snd (bind_io m (\<lambda>_. k) c) = snd (writeB (p @ q) c) \<and>
      (fst (bind_io m (\<lambda>_. k) c) = Inr () \<longleftrightarrow> fst (writeB (p @ q) c) = Inr ())"
    using writeB_append [OF nb, of p q] by simp
qed

lemma emits_Rectangle: "emits (Rectangle_Write r) (enc_Rectangle r)"
  unfolding Rectangle_Write_def enc_Rectangle_def
  by (intro emits_bind emits_wrap emits_writeB)

lemma emits_writeRects: "emits (writeRects k rs) (concat (map enc_Rectangle rs))"
proof (induction rs arbitrary: k)
  case Nil
  then show ?case by (simp add: emits_ret)
next
  case (Cons r rs)
  have "emits (bind_io (wrapD ''write rect %d: %w'' [int k] (Rectangle_Write r)) (\<lambda>_. writeRects (Suc k) rs))
              (enc_Rectangle r @ concat (map enc_Rectangle rs))"
    by (intro emits_bind emits_wrapD emits_Rectangle Cons.IH)
  then show ?case by simp
qed

lemma emits_live: "emits m p \<Longrightarrow> m (live i out) = (Inr (), live i (out @ p))"
  using emitsD [of m p "live i out"] by (cases "m (live i out)") (auto simp: writeB_def)

section \<open>The contract between a message writer and its reader\<close>

text \<open>
  One side of the protocol sends a message as its type byte and a body; the other side
  reads the type byte and then calls the reader. \<open>valid\<close> says which messages the writer
  can express.
\<close>

locale message_codec =
  fixes ty :: u8
    and body :: "'a \<Rightarrow> bytes"
    and send :: "'a \<Rightarrow> unit io"
    and recv :: "'a io"
    and valid :: "'a \<Rightarrow> bool"
  assumes send_emits: "emits (send x) (ty # body x)"
    and recv_body: "valid x \<Longrightarrow> recv (live (body x @ r) out) = (Inr x, live r out)"
begin

lemma send_live: "send x (live i out) = (Inr (), live i (out @ ty # body x))"
  using emits_live [OF send_emits] .

text \<open>Bodies are self-delimiting: no two different messages can be confused.\<close>

lemma body_prefix_free:
  assumes "valid x" and "valid y" and "body x @ r = body y @ s"
  shows "x = y \<and> r = s"
proof -
  have "(Inr x, live r []) = recv (live (body x @ r) [])" using recv_body [OF assms(1)] by simp
  also have "\<dots> = recv (live (body y @ s) [])" using assms(3) by simp
  also have "\<dots> = (Inr y, live s [])" using recv_body [OF assms(2)] by simp
  finally show ?thesis by simp
qed

text \<open>A sequence of messages arrives as the same sequence, and nothing more is consumed.\<close>

lemma stream_send:
  "seq_io (map send xs) (live i out) = (Inr (), live i (out @ concat (map (\<lambda>x. ty # body x) xs)))"
proof (induction xs arbitrary: out)
  case Nil
  then show ?case by (simp add: conn_simps)
next
  case (Cons x xs)
  then show ?case by (simp add: conn_simps send_live)
qed

lemma stream_recv:
  assumes "\<And>x. x \<in> set xs \<Longrightarrow> valid x"
  shows "replicate_io (length xs) (bind_io read_u8 (\<lambda>_. recv))
           (live (concat (map (\<lambda>x. ty # body x) xs) @ r) out) = (Inr xs, live r out)"
  using assms
proof (induction xs)
  case Nil
  then show ?case by (simp add: conn_simps)
next
  case (Cons x xs)
  then show ?case by (simp add: conn_simps recv_body)
qed

end

end
