(* ===== verification/Pixconv.thy ===== *)
theory Pixconv
  imports Protocol
begin

text \<open>
  \<^verbatim>\<open>rfb/pixconv.go\<close>: conversion of a packed pixel buffer from one true-colour format to
  another, and \<^verbatim>\<open>EncodeCursorRect\<close> of \<^verbatim>\<open>rfb/protocol.go\<close>, its other caller. Reads past
  the end of the buffer and division by a zero colour maximum are run-time panics.
\<close>

section \<open>One pixel\<close>

definition bytesPerPixel :: "PixelFormat \<Rightarrow> nat" where
  "bytesPerPixel pf = unat (BitsPerPixel pf) div 8"

text \<open>\<^verbatim>\<open>pixels[srcOff:]\<close> is a slice expression, so it panics when the offset is too large.\<close>

definition tail_slice :: "nat \<Rightarrow> bytes \<Rightarrow> bytes res" where
  "tail_slice a xs = gslice a (length xs) xs"

definition need :: "nat \<Rightarrow> bytes \<Rightarrow> bytes res" where
  "need n xs = (if n \<le> length xs then Inr xs else Inl (GoPanic ''index out of range''))"

definition load_pixel :: "PixelFormat \<Rightarrow> bytes \<Rightarrow> nat \<Rightarrow> u32 res" where
  "load_pixel src pixels off =
     (if bytesPerPixel src = 1 then rbind (index pixels off) (\<lambda>b. Inr (ucast b))
      else if bytesPerPixel src = 2 then
        rbind (tail_slice off pixels) (\<lambda>t. rbind (need 2 t) (\<lambda>t.
        Inr (ucast (if BigEndian src \<noteq> 0 then un16 t else unle16 t))))
      else if bytesPerPixel src = 4 then
        rbind (tail_slice off pixels) (\<lambda>t. rbind (need 4 t) (\<lambda>t.
        Inr (if BigEndian src \<noteq> 0 then un32 t else unle32 t)))
      else Inr 0)"

text \<open>\<^verbatim>\<open>(srcPixel >> shift) & uint32(max)\<close>\<close>

definition channel :: "u32 \<Rightarrow> u8 \<Rightarrow> u16 \<Rightarrow> u32" where
  "channel p shift mx = drop_bit (unat shift) p AND ucast mx"

definition scale_channel :: "u16 \<Rightarrow> u16 \<Rightarrow> u32 \<Rightarrow> u32 res" where
  "scale_channel smax dmax v =
     (if smax \<noteq> dmax
      then if smax = 0 then Inl (GoPanic ''integer divide by zero'')
           else Inr (v * ucast dmax div ucast smax)
      else Inr v)"

definition pack_pixel :: "PixelFormat \<Rightarrow> u32 \<Rightarrow> u32 \<Rightarrow> u32 \<Rightarrow> u32" where
  "pack_pixel dst r g b =
     push_bit (unat (RedShift dst)) r OR push_bit (unat (GreenShift dst)) g
     OR push_bit (unat (BlueShift dst)) b"

definition store_pixel :: "PixelFormat \<Rightarrow> u32 \<Rightarrow> bytes" where
  "store_pixel dst p =
     (if bytesPerPixel dst = 1 then [ucast p]
      else if bytesPerPixel dst = 2 then
        (if BigEndian dst \<noteq> 0 then be16 (ucast p) else le16 (ucast p))
      else if bytesPerPixel dst = 4 then
        (if BigEndian dst \<noteq> 0 then be32 p else le32 p)
      else replicate (bytesPerPixel dst) 0)"

definition convert_pixel :: "PixelFormat \<Rightarrow> PixelFormat \<Rightarrow> u32 \<Rightarrow> u32 res" where
  "convert_pixel dst src p =
     rbind (scale_channel (RedMax src) (RedMax dst) (channel p (RedShift src) (RedMax src))) (\<lambda>r.
     rbind (scale_channel (GreenMax src) (GreenMax dst) (channel p (GreenShift src) (GreenMax src))) (\<lambda>g.
     rbind (scale_channel (BlueMax src) (BlueMax dst) (channel p (BlueShift src) (BlueMax src))) (\<lambda>b.
     Inr (pack_pixel dst r g b))))"

section \<open>The loop\<close>

text \<open>
  Iteration \<open>i\<close> writes the bytes \<open>[i * dstBpp, (i + 1) * dstBpp)\<close> of the fresh output
  buffer, so the buffer is the concatenation of the pixels written.
\<close>

definition convert_at :: "PixelFormat \<Rightarrow> PixelFormat \<Rightarrow> bytes \<Rightarrow> nat \<Rightarrow> bytes res" where
  "convert_at dst src pixels i =
     rbind (load_pixel src pixels (i * bytesPerPixel src)) (\<lambda>p.
     rbind (convert_pixel dst src p) (\<lambda>q. Inr (store_pixel dst q)))"

definition ConvertPixels :: "PixelFormat \<Rightarrow> PixelFormat \<Rightarrow> bytes \<Rightarrow> nat \<Rightarrow> nat \<Rightarrow> bytes res" where
  "ConvertPixels dst src pixels width height =
     (if dst = src then Inr pixels
      else rbind (mapM (convert_at dst src pixels) [0..<width * height]) (\<lambda>ps. Inr (concat ps)))"

definition EncodeCursorRect :: "CursorImage \<Rightarrow> PixelFormat \<Rightarrow> PixelFormat \<Rightarrow> Rectangle res" where
  "EncodeCursorRect cursor pf serverPf =
     rbind (ConvertPixels pf serverPf (cur_Pixels cursor)
              (unat (cur_Width cursor)) (unat (cur_Height cursor))) (\<lambda>pixels.
     Inr \<lparr>rect_Header = \<lparr>hdr_X = cur_HotspotX cursor, hdr_Y = cur_HotspotY cursor,
                         hdr_Width = cur_Width cursor, hdr_Height = cur_Height cursor,
                         hdr_Encoding = EncodingCursor\<rparr>,
          rect_Data = pixels @ cur_Mask cursor\<rparr>)"

section \<open>Sizes and panics\<close>

lemma length_store_pixel [simp]: "length (store_pixel dst p) = bytesPerPixel dst"
  by (simp add: store_pixel_def)

lemma convert_at_length: "convert_at dst src pixels i = Inr y \<Longrightarrow> length y = bytesPerPixel dst"
  by (auto simp: convert_at_def rbind_Inr_iff)

lemma ConvertPixels_Inr_length:
  assumes "ConvertPixels dst src pixels w h = Inr out" and "dst \<noteq> src"
  shows "length out = w * h * bytesPerPixel dst"
proof -
  from assms obtain ps where out: "out = concat ps"
    and ps: "list_all2 (\<lambda>i y. convert_at dst src pixels i = Inr y) [0..<w * h] ps"
    by (auto simp: ConvertPixels_def rbind_Inr_iff mapM_Inr_iff)
  from ps have len: "length ps = w * h" by (auto dest: list_all2_lengthD)
  have "length y = bytesPerPixel dst" if "y \<in> set ps" for y
    using that ps convert_at_length by (fastforce simp: list_all2_conv_all_nth in_set_conv_nth)
  then show ?thesis using out len concat_const_length by metis
qed

text \<open>Every offset in range and no zero maximum: the conversion returns.\<close>

definition full_range :: "PixelFormat \<Rightarrow> bool" where
  "full_range pf \<longleftrightarrow> RedMax pf \<noteq> 0 \<and> GreenMax pf \<noteq> 0 \<and> BlueMax pf \<noteq> 0"

lemma load_pixel_total:
  assumes "off + bytesPerPixel src \<le> length pixels"
  shows "\<exists>p. load_pixel src pixels off = Inr p"
  using assms
  by (auto simp: load_pixel_def index_def tail_slice_def gslice_def need_def)

lemma convert_pixel_total: "full_range src \<Longrightarrow> \<exists>q. convert_pixel dst src p = Inr q"
  by (auto simp: convert_pixel_def scale_channel_def full_range_def)

lemma nth_pixel_in_range:
  fixes i n b :: nat
  assumes "i < n"
  shows "i * b + b \<le> n * b"
proof -
  have "i * b + b = (i + 1) * b" by simp
  also have "\<dots> \<le> n * b" using assms by (intro mult_le_mono1) simp
  finally show ?thesis .
qed

lemma convert_at_total:
  assumes "i < n" and "n * bytesPerPixel src \<le> length pixels" and fr: "full_range src"
  shows "\<exists>y. convert_at dst src pixels i = Inr y"
proof -
  have "i * bytesPerPixel src + bytesPerPixel src \<le> length pixels"
    using nth_pixel_in_range [OF assms(1), of "bytesPerPixel src"] assms(2) by linarith
  then obtain p where "load_pixel src pixels (i * bytesPerPixel src) = Inr p"
    using load_pixel_total by blast
  moreover obtain q where "convert_pixel dst src p = Inr q"
    using convert_pixel_total [OF fr] by blast
  ultimately show ?thesis by (simp add: convert_at_def)
qed

lemma ConvertPixels_total:
  assumes "w * h * bytesPerPixel src \<le> length pixels" and "full_range src"
  shows "\<exists>out. ConvertPixels dst src pixels w h = Inr out"
proof -
  have "\<exists>ps. mapM (convert_at dst src pixels) [0..<w * h] = Inr ps"
    by (intro mapM_ex) (simp add: convert_at_total [OF _ assms])
  then show ?thesis by (auto simp: ConvertPixels_def)
qed

text \<open>A buffer that is too short panics as soon as the formats differ.\<close>

lemma load_pixel_short:
  assumes "bytesPerPixel src \<in> {1, 2, 4}" and "length pixels < off + bytesPerPixel src"
  shows "is_panic (load_pixel src pixels off)"
  using assms
  by (auto simp: load_pixel_def index_def tail_slice_def gslice_def need_def)

lemma no_err_convert_at: "no_err (convert_at dst src pixels i)"
  unfolding convert_at_def load_pixel_def tail_slice_def need_def convert_pixel_def scale_channel_def
  by (intro no_err_rbind no_err_if) (auto intro: no_err_panic)

lemma no_err_EncodeCursorRect: "no_err (EncodeCursorRect img pf serverPf)"
proof -
  have "no_err (mapM (convert_at pf serverPf px) is)" for px "is"
    by (induction "is") (auto intro!: no_err_rbind no_err_convert_at)
  then show ?thesis by (auto simp: EncodeCursorRect_def ConvertPixels_def intro!: no_err_rbind no_err_if)
qed

lemma ConvertPixels_short_panics:
  assumes "dst \<noteq> src" and "bytesPerPixel src \<in> {1, 2, 4}"
    and short: "length pixels < w * h * bytesPerPixel src"
  shows "is_panic (ConvertPixels dst src pixels w h)"
proof -
  let ?b = "bytesPerPixel src" and ?i = "w * h - 1"
  have wh: "0 < w * h" using short by (cases "w * h") auto
  have "?i * ?b + ?b = w * h * ?b"
    using wh by (metis Suc_diff_1 add.commute mult_Suc)
  then have "is_panic (load_pixel src pixels (?i * ?b))"
    using assms by (intro load_pixel_short) auto
  then have "is_panic (convert_at dst src pixels ?i)"
    by (simp add: convert_at_def is_panic_rbind)
  then have "is_panic (mapM (convert_at dst src pixels) [0..<w * h])"
    using wh no_err_convert_at by (intro mapM_panic [where x = ?i]) auto
  then show ?thesis using assms(1) by (simp add: ConvertPixels_def is_panic_rbind)
qed

section \<open>What a converted pixel means\<close>

text \<open>
  \<open>packs pf kr kg kb\<close>: the channels of \<open>pf\<close> are \<open>kr\<close>, \<open>kg\<close> and \<open>kb\<close> bits wide, do not
  overlap and lie inside the bytes of a pixel.
\<close>

definition disjoint_fields :: "u8 \<Rightarrow> nat \<Rightarrow> u8 \<Rightarrow> nat \<Rightarrow> bool" where
  "disjoint_fields s k t l \<longleftrightarrow> unat s + k \<le> unat t \<or> unat t + l \<le> unat s"

definition packs :: "PixelFormat \<Rightarrow> nat \<Rightarrow> nat \<Rightarrow> nat \<Rightarrow> bool" where
  "packs pf kr kg kb \<longleftrightarrow>
     RedMax pf = mask kr \<and> GreenMax pf = mask kg \<and> BlueMax pf = mask kb \<and>
     kr \<le> 16 \<and> kg \<le> 16 \<and> kb \<le> 16 \<and>
     bytesPerPixel pf \<in> {1, 2, 4} \<and>
     unat (RedShift pf) + kr \<le> 8 * bytesPerPixel pf \<and>
     unat (GreenShift pf) + kg \<le> 8 * bytesPerPixel pf \<and>
     unat (BlueShift pf) + kb \<le> 8 * bytesPerPixel pf \<and>
     disjoint_fields (RedShift pf) kr (GreenShift pf) kg \<and>
     disjoint_fields (RedShift pf) kr (BlueShift pf) kb \<and>
     disjoint_fields (GreenShift pf) kg (BlueShift pf) kb"

lemma channel_pack_field:
  fixes r g b :: u32 and shift :: u8
  assumes "k \<le> 16" and "unat s + k \<le> m" and "m \<le> 32"
    and "r = take_bit k r" and "g = take_bit l g" and "b = take_bit n b"
    and "disjoint_fields s k t l" and "disjoint_fields s k u n"
  shows "channel (take_bit m (push_bit (unat s) r OR push_bit (unat t) g OR push_bit (unat u) b)) s (mask k) = r"
proof (rule bit_word_eqI)
  fix i
  assume "i < LENGTH(32)"
  have g: "bit g j \<Longrightarrow> j < l" for j using assms(5) by (metis bit_take_bit_iff)
  have b: "bit b j \<Longrightarrow> j < n" for j using assms(6) by (metis bit_take_bit_iff)
  have r: "bit r j \<Longrightarrow> j < k" for j using assms(4) by (metis bit_take_bit_iff)
  show "bit (channel (take_bit m (push_bit (unat s) r OR push_bit (unat t) g OR push_bit (unat u) b)) s (mask k)) i
      = bit r i"
    using assms(1-3,7,8) g b r
    by (fastforce simp: channel_def bit_simps disjoint_fields_def)
qed

lemma unat_channel_le: "unat (channel p s mx) \<le> unat mx"
proof -
  have "channel p s mx \<le> ucast mx" unfolding channel_def by (rule word_and_le1)
  then have "unat (channel p s mx) \<le> unat (ucast mx :: u32)" by (rule word_le_nat_alt [THEN iffD1])
  then show ?thesis by simp
qed

text \<open>Scaling does not overflow: two 16-bit factors fit in 32 bits.\<close>

lemma scale_channel_value:
  assumes "smax \<noteq> 0" and v: "unat v \<le> unat smax"
  obtains w where "scale_channel smax dmax v = Inr w"
    and "unat w = unat v * unat dmax div unat smax" and "unat w \<le> unat dmax"
proof -
  have pos: "0 < unat smax" using assms(1) by (simp add: unat_gt_0)
  have "unat v * unat dmax \<le> 65535 * 65535"
    using v unat_u16_less [of smax] unat_u16_less [of dmax] by (intro mult_le_mono) linarith+
  then have nov: "unat (v * ucast dmax) = unat v * unat dmax"
    by (simp add: unat_word_ariths)
  have le: "unat v * unat dmax div unat smax \<le> unat dmax"
    using v pos by (metis div_le_mono div_mult_self1_is_m mult_le_mono1)
  show ?thesis
  proof (cases "smax = dmax")
    case True
    with pos v show ?thesis by (intro that [of v]) (simp_all add: scale_channel_def)
  next
    case False
    with assms(1) nov le show ?thesis
      by (intro that [of "v * ucast dmax div ucast smax"]) (simp_all add: scale_channel_def unat_div)
  qed
qed

lemma unat_mask16: "k \<le> 16 \<Longrightarrow> unat (mask k :: u16) = 2 ^ k - 1"
proof -
  assume "k \<le> 16"
  then have "uint (mask k :: u16) = mask k" by (simp add: uint_mask_eq min_def)
  then have "int (unat (mask k :: u16)) = 2 ^ k - 1" by (simp add: mask_eq_exp_minus_1)
  then show ?thesis by (metis nat_int of_nat_1 of_nat_numeral of_nat_power one_le_numeral one_le_power of_nat_diff)
qed

lemma le_mask_take_bit:
  fixes w :: u32
  assumes "unat w \<le> unat (mask k :: u16)" and "k \<le> 16"
  shows "w = take_bit k w"
proof -
  have "unat w < 2 ^ k" using assms unat_mask16 [OF assms(2)]
    by (metis Suc_pred' le_imp_less_Suc zero_less_numeral zero_less_power)
  then have "uint w < 2 ^ k" by (metis of_nat_less_iff of_nat_numeral of_nat_power uint_nat)
  then show ?thesis by (metis mask_eq_iff take_bit_eq_mask)
qed

lemma ucast_ucast_take_bit:
  "ucast (ucast (p :: u32) :: u8) = take_bit 8 p"
  "ucast (ucast (p :: u32) :: u16) = take_bit 16 p"
  "take_bit 32 p = p"
  by (rule bit_word_eqI; auto simp: bit_simps)+

lemma load_store_pixel:
  assumes "bytesPerPixel pf \<in> {1, 2, 4}" and "take (bytesPerPixel pf) (drop off out) = store_pixel pf p"
    and "off + bytesPerPixel pf \<le> length out"
  shows "load_pixel pf out off = Inr (take_bit (8 * bytesPerPixel pf) p)"
proof -
  obtain r where r: "drop off out = store_pixel pf p @ r"
    using assms(2) by (metis append_take_drop_id)
  consider "bytesPerPixel pf = 1" | "bytesPerPixel pf = 2" | "bytesPerPixel pf = 4"
    using assms(1) by auto
  then show ?thesis
  proof cases
    case 1
    then have "off < length out" using assms(3) by simp
    moreover have "hd (drop off out) = ucast p" using r 1 by (simp add: store_pixel_def)
    ultimately show ?thesis
      using 1 by (simp add: load_pixel_def index_def hd_drop_conv_nth ucast_ucast_take_bit)
  next
    case 2
    then show ?thesis using assms(3) r
      by (simp add: load_pixel_def store_pixel_def tail_slice_def gslice_def need_def
          ucast_ucast_take_bit)
  next
    case 3
    then show ?thesis using assms(3) r
      by (simp add: load_pixel_def store_pixel_def tail_slice_def gslice_def need_def
          ucast_ucast_take_bit)
  qed
qed

text \<open>The value of a converted channel.\<close>

definition scaled :: "u16 \<Rightarrow> u16 \<Rightarrow> u32 \<Rightarrow> nat" where
  "scaled smax dmax v = unat v * unat dmax div unat smax"

definition pixel_scaled :: "PixelFormat \<Rightarrow> PixelFormat \<Rightarrow> u32 \<Rightarrow> u32 \<Rightarrow> bool" where
  "pixel_scaled dst src p q \<longleftrightarrow>
     unat (channel q (RedShift dst) (RedMax dst))
       = scaled (RedMax src) (RedMax dst) (channel p (RedShift src) (RedMax src)) \<and>
     unat (channel q (GreenShift dst) (GreenMax dst))
       = scaled (GreenMax src) (GreenMax dst) (channel p (GreenShift src) (GreenMax src)) \<and>
     unat (channel q (BlueShift dst) (BlueMax dst))
       = scaled (BlueMax src) (BlueMax dst) (channel p (BlueShift src) (BlueMax src))"

lemma disjoint_fields_sym: "disjoint_fields s k t l \<Longrightarrow> disjoint_fields t l s k"
  by (auto simp: disjoint_fields_def)

lemma convert_pixel_scaled:
  assumes pk: "packs dst kr kg kb" and fr: "full_range src"
  obtains q where "convert_pixel dst src p = Inr q"
    and "pixel_scaled dst src p (take_bit (8 * bytesPerPixel dst) q)"
proof -
  from fr have nz: "RedMax src \<noteq> 0" "GreenMax src \<noteq> 0" "BlueMax src \<noteq> 0"
    by (auto simp: full_range_def)
  obtain r where r: "scale_channel (RedMax src) (RedMax dst) (channel p (RedShift src) (RedMax src)) = Inr r"
      "unat r = scaled (RedMax src) (RedMax dst) (channel p (RedShift src) (RedMax src))"
      "unat r \<le> unat (RedMax dst)"
    using scale_channel_value [OF nz(1) unat_channel_le] unfolding scaled_def by metis
  obtain g where g: "scale_channel (GreenMax src) (GreenMax dst) (channel p (GreenShift src) (GreenMax src)) = Inr g"
      "unat g = scaled (GreenMax src) (GreenMax dst) (channel p (GreenShift src) (GreenMax src))"
      "unat g \<le> unat (GreenMax dst)"
    using scale_channel_value [OF nz(2) unat_channel_le] unfolding scaled_def by metis
  obtain b where b: "scale_channel (BlueMax src) (BlueMax dst) (channel p (BlueShift src) (BlueMax src)) = Inr b"
      "unat b = scaled (BlueMax src) (BlueMax dst) (channel p (BlueShift src) (BlueMax src))"
      "unat b \<le> unat (BlueMax dst)"
    using scale_channel_value [OF nz(3) unat_channel_le] unfolding scaled_def by metis
  have tb: "r = take_bit kr r" "g = take_bit kg g" "b = take_bit kb b"
    using r(3) g(3) b(3) pk by (auto simp: packs_def intro: le_mask_take_bit)
  let ?m = "8 * bytesPerPixel dst"
  have m: "?m \<le> 32" using pk by (auto simp: packs_def)
  have red: "channel (take_bit ?m (pack_pixel dst r g b)) (RedShift dst) (RedMax dst) = r"
    using channel_pack_field [of kr "RedShift dst" ?m r g kg b kb "GreenShift dst" "BlueShift dst"] pk m tb
    by (simp add: packs_def pack_pixel_def)
  have green: "channel (take_bit ?m (pack_pixel dst r g b)) (GreenShift dst) (GreenMax dst) = g"
    using channel_pack_field [of kg "GreenShift dst" ?m g r kr b kb "RedShift dst" "BlueShift dst"] pk m tb
    by (simp add: packs_def pack_pixel_def disjoint_fields_sym or.left_commute)
  have blue: "channel (take_bit ?m (pack_pixel dst r g b)) (BlueShift dst) (BlueMax dst) = b"
    using channel_pack_field [of kb "BlueShift dst" ?m b r kr g kg "RedShift dst" "GreenShift dst"] pk m tb
    by (simp add: packs_def pack_pixel_def disjoint_fields_sym or.left_commute or.commute)
  show ?thesis
    using r g b red green blue
    by (intro that [of "pack_pixel dst r g b"]) (simp_all add: convert_pixel_def pixel_scaled_def)
qed

text \<open>
  C29: Pixel conversion is correct. For a destination format whose channels are disjoint bit
  fields inside the pixel, a source format without zero maxima and a buffer that holds all
  its pixels, \<open>ConvertPixels\<close> returns a buffer of exactly \<open>w * h\<close> destination pixels, and
  reading pixel \<open>i\<close> back in the destination format gives channel values that are the
  source channels scaled to the destination range, without overflow in 32 bits.
\<close>

theorem ConvertPixels_correct:
  assumes "packs dst kr kg kb" and "full_range src" and "dst \<noteq> src"
    and "w * h * bytesPerPixel src \<le> length pixels" and "i < w * h"
  shows "\<exists>out p q. ConvertPixels dst src pixels w h = Inr out \<and>
           length out = w * h * bytesPerPixel dst \<and>
           load_pixel src pixels (i * bytesPerPixel src) = Inr p \<and>
           load_pixel dst out (i * bytesPerPixel dst) = Inr q \<and> pixel_scaled dst src p q"
proof -
  obtain out where out: "ConvertPixels dst src pixels w h = Inr out"
    using ConvertPixels_total assms(2,4) by blast
  then obtain ps where ps: "mapM (convert_at dst src pixels) [0..<w * h] = Inr ps" "out = concat ps"
    using assms(3) by (auto simp: ConvertPixels_def rbind_Inr_iff)
  have len: "length out = w * h * bytesPerPixel dst"
    using ConvertPixels_Inr_length out assms(3) by blast
  obtain y where y: "convert_at dst src pixels i = Inr y"
    using convert_at_total [OF assms(5,4,2)] by blast
  then obtain p where p: "load_pixel src pixels (i * bytesPerPixel src) = Inr p"
    by (auto simp: convert_at_def rbind_Inr_iff)
  obtain q where q: "convert_pixel dst src p = Inr q"
      "pixel_scaled dst src p (take_bit (8 * bytesPerPixel dst) q)"
    using convert_pixel_scaled [OF assms(1,2)] by metis
  have "ps ! i = store_pixel dst q"
    using mapM_nth [OF ps(1), of i] assms(5) y p q(1) by (simp add: convert_at_def)
  moreover have "take (bytesPerPixel dst) (drop (i * bytesPerPixel dst) out) = ps ! i"
  proof -
    have "length z = bytesPerPixel dst" if "z \<in> set ps" for z
      using that ps(1) convert_at_length
      by (fastforce simp: mapM_Inr_iff list_all2_conv_all_nth in_set_conv_nth)
    then have "take (bytesPerPixel dst) (drop (i * bytesPerPixel dst) (concat ps)) = ps ! i"
      using mapM_length [OF ps(1)] assms(5) by (intro concat_block) auto
    then show ?thesis using ps(2) by simp
  qed
  moreover have "i * bytesPerPixel dst + bytesPerPixel dst \<le> length out"
    using nth_pixel_in_range [OF assms(5)] len by simp
  ultimately have "load_pixel dst out (i * bytesPerPixel dst) = Inr (take_bit (8 * bytesPerPixel dst) q)"
    using assms(1) by (intro load_store_pixel) (auto simp: packs_def)
  then show ?thesis using out len p q(2) by blast
qed

definition pf565 :: PixelFormat where
  "pf565 = \<lparr>BitsPerPixel = 16, Depth = 16, BigEndian = 0, TrueColour = 1,
      RedMax = 31, GreenMax = 63, BlueMax = 31,
      RedShift = 11, GreenShift = 5, BlueShift = 0\<rparr>"

theorem ConvertPixels_correct_witness:
  "\<exists>out p q. ConvertPixels pf565 DefaultPixelFormat [10, 20, 30, 255, 40, 50, 60, 255] 2 1 = Inr out \<and>
     length out = 2 * 1 * bytesPerPixel pf565 \<and>
     load_pixel DefaultPixelFormat [10, 20, 30, 255, 40, 50, 60, 255]
       (1 * bytesPerPixel DefaultPixelFormat) = Inr p \<and>
     load_pixel pf565 out (1 * bytesPerPixel pf565) = Inr q \<and> pixel_scaled pf565 DefaultPixelFormat p q"
  by (rule ConvertPixels_correct [of pf565 5 6 5])
    (simp_all add: packs_def full_range_def pf565_def DefaultPixelFormat_def bytesPerPixel_def
      disjoint_fields_def mask_eq_decr_exp)

end
