(* ===== verification/Geometry.thy ===== *)
theory Geometry
  imports Prelude
begin

text \<open>
  What the sources use of Go's \<^verbatim>\<open>image\<close> package (rectangles with integer corners), the
  division of an area into tiles that the encoders, the decoders and the frame differ
  share, and pixels inside a packed frame.
\<close>

section \<open>Rectangles\<close>

record rect =
  minX :: int
  minY :: int
  maxX :: int
  maxY :: int

definition image_Rect :: "int \<Rightarrow> int \<Rightarrow> int \<Rightarrow> int \<Rightarrow> rect" where
  "image_Rect x0 y0 x1 y1 =
     \<lparr>minX = min x0 x1, minY = min y0 y1, maxX = max x0 x1, maxY = max y0 y1\<rparr>"

definition Dx :: "rect \<Rightarrow> int" where "Dx r = maxX r - minX r"
definition Dy :: "rect \<Rightarrow> int" where "Dy r = maxY r - minY r"

definition Empty :: "rect \<Rightarrow> bool" where
  "Empty r \<longleftrightarrow> minX r \<ge> maxX r \<or> minY r \<ge> maxY r"

definition Intersect :: "rect \<Rightarrow> rect \<Rightarrow> rect" where
  "Intersect r s =
     (let t = \<lparr>minX = max (minX r) (minX s), minY = max (minY r) (minY s),
               maxX = min (maxX r) (maxX s), maxY = min (maxY r) (maxY s)\<rparr>
      in if Empty t then \<lparr>minX = 0, minY = 0, maxX = 0, maxY = 0\<rparr> else t)"

definition inside :: "rect \<Rightarrow> int \<Rightarrow> int \<Rightarrow> bool" where
  "inside r x y \<longleftrightarrow> minX r \<le> x \<and> x < maxX r \<and> minY r \<le> y \<and> y < maxY r"

definition covered :: "rect list \<Rightarrow> int \<Rightarrow> int \<Rightarrow> bool" where
  "covered rs x y \<longleftrightarrow> (\<exists>r \<in> set rs. inside r x y)"

lemma inside_Intersect: "inside (Intersect r s) x y \<longleftrightarrow> inside r x y \<and> inside s x y"
  by (auto simp: Intersect_def Let_def inside_def Empty_def)

lemma Empty_iff: "Empty r \<longleftrightarrow> (\<forall>x y. \<not> inside r x y)"
proof
  assume "Empty r"
  then show "\<forall>x y. \<not> inside r x y" by (auto simp: Empty_def inside_def)
next
  assume "\<forall>x y. \<not> inside r x y"
  then have "\<not> inside r (minX r) (minY r)" by blast
  then show "Empty r" by (auto simp: Empty_def inside_def)
qed

text \<open>A rectangle that is not inverted and lies in a screen of the given size.\<close>

definition on_screen :: "nat \<Rightarrow> nat \<Rightarrow> rect \<Rightarrow> bool" where
  "on_screen w h r \<longleftrightarrow>
     0 \<le> minX r \<and> minX r \<le> maxX r \<and> maxX r \<le> int w \<and> 0 \<le> minY r \<and> minY r \<le> maxY r \<and> maxY r \<le> int h"

section \<open>Tiles\<close>

text \<open>The tiles of a rectangle in reading order, with their sizes.\<close>

definition rect_tiles :: "nat \<Rightarrow> nat \<Rightarrow> nat \<Rightarrow> (nat \<times> nat \<times> nat \<times> nat) list" where
  "rect_tiles ts width height =
     concat (map (\<lambda>tileY. map (\<lambda>tileX. (tileX, tileY, min ts (width - tileX), min ts (height - tileY)))
       (loop_steps 0 width ts)) (loop_steps 0 height ts))"

definition tile_rect :: "nat \<times> nat \<times> nat \<times> nat \<Rightarrow> rect" where
  "tile_rect t = (case t of (x, y, w, h) \<Rightarrow>
     image_Rect (int x) (int y) (int (x + w)) (int (y + h)))"

lemma inside_tile_rect:
  "inside (tile_rect (tx, ty, tw, th)) (int x) (int y) \<longleftrightarrow>
     tx \<le> x \<and> x < tx + tw \<and> ty \<le> y \<and> y < ty + th"
  by (auto simp: tile_rect_def image_Rect_def inside_def)

lemma rect_tiles_iff:
  "(tx, ty, tw, th) \<in> set (rect_tiles ts w h) \<longleftrightarrow>
     tx \<in> set (loop_steps 0 w ts) \<and> ty \<in> set (loop_steps 0 h ts) \<and>
     tw = min ts (w - tx) \<and> th = min ts (h - ty)"
  by (auto simp: rect_tiles_def)

text \<open>Every point of the area lies in exactly one tile, and tiles stay inside it.\<close>

lemma rect_tiles_cover:
  assumes "0 < ts" and "x < w" and "y < h"
  shows "\<exists>t \<in> set (rect_tiles ts w h). inside (tile_rect t) (int x) (int y)"
proof -
  obtain tx where tx: "tx \<in> set (loop_steps 0 w ts)" "tx \<le> x" "x < tx + min ts (w - tx)"
    using loop_steps_cover [OF assms(1), of 0 x w] assms(2) by auto
  obtain ty where ty: "ty \<in> set (loop_steps 0 h ts)" "ty \<le> y" "y < ty + min ts (h - ty)"
    using loop_steps_cover [OF assms(1), of 0 y h] assms(3) by auto
  have "(tx, ty, min ts (w - tx), min ts (h - ty)) \<in> set (rect_tiles ts w h)"
    using tx ty by (simp add: rect_tiles_iff)
  then show ?thesis using tx ty by (intro bexI) (auto simp: inside_tile_rect)
qed

lemma rect_tiles_within:
  assumes "(tx, ty, tw, th) \<in> set (rect_tiles ts w h)"
  shows "tx + tw \<le> w \<and> ty + th \<le> h \<and> tx < w \<and> ty < h"
  using assms by (auto simp: rect_tiles_iff dest: loop_steps_bounds)

lemma rect_tiles_on_screen: "t \<in> set (rect_tiles ts w h) \<Longrightarrow> on_screen w h (tile_rect t)"
proof -
  assume t: "t \<in> set (rect_tiles ts w h)"
  obtain tx ty tw th where e: "t = (tx, ty, tw, th)" by (metis prod_cases4)
  show ?thesis using rect_tiles_within [of tx ty tw th ts w h] t e
    by (auto simp: on_screen_def tile_rect_def image_Rect_def)
qed

lemma rect_tiles_disjoint:
  assumes "s \<in> set (rect_tiles ts w h)" and "t \<in> set (rect_tiles ts w h)"
    and "inside (tile_rect s) (int x) (int y)" and "inside (tile_rect t) (int x) (int y)"
  shows "s = t"
proof -
  obtain sx sy sw sh tx ty tw th where st: "s = (sx, sy, sw, sh)" "t = (tx, ty, tw, th)"
    by (metis prod_cases4)
  have "sx = tx" and "sy = ty"
    using assms st by (auto simp: inside_tile_rect rect_tiles_iff intro: loop_steps_unique)
  then show ?thesis using assms(1,2) st by (simp add: rect_tiles_iff)
qed

lemma rect_tiles_distinct: "distinct (rect_tiles ts w h)"
proof -
  have d: "distinct (loop_steps 0 n ts)" for n
    using loop_steps_sorted [of 0 n ts] strict_sorted_iff by blast
  let ?f = "\<lambda>(ty, tx). (tx, ty, min ts (w - tx), min ts (h - ty))"
  have "rect_tiles ts w h = map ?f (List.product (loop_steps 0 h ts) (loop_steps 0 w ts))"
    by (simp add: rect_tiles_def product_concat_map map_concat o_def)
  moreover have "inj_on ?f A" for A by (auto simp: inj_on_def)
  ultimately show ?thesis using d by (simp add: distinct_map distinct_product)
qed

section \<open>Frames\<close>

text \<open>
  A frame is a byte buffer with a stride; pixel \<open>(x, y)\<close> is the four bytes at
  \<open>y * stride + x * 4\<close>.
\<close>

definition pixel_at :: "nat \<Rightarrow> bytes \<Rightarrow> nat \<Rightarrow> nat \<Rightarrow> bytes" where
  "pixel_at stride px x y = take 4 (drop (y * stride + x * 4) px)"

text \<open>A picture gives the bytes shown at each position.\<close>

type_synonym picture = "nat \<Rightarrow> nat \<Rightarrow> bytes"

text \<open>The frame holds all rows of the region at \<open>(x, y)\<close> of size \<open>w\<close> by \<open>h\<close>.\<close>

definition frame_has :: "bytes \<Rightarrow> nat \<Rightarrow> nat \<Rightarrow> nat \<Rightarrow> nat \<Rightarrow> nat \<Rightarrow> bool" where
  "frame_has pixels stride x y w h \<longleftrightarrow>
     (\<forall>row \<in> set [0..<h]. (y + row) * stride + x * 4 + w * 4 \<le> length pixels)"

text \<open>The packed bytes of a region, row after row.\<close>

definition region_bytes :: "bytes \<Rightarrow> nat \<Rightarrow> nat \<Rightarrow> nat \<Rightarrow> nat \<Rightarrow> nat \<Rightarrow> bytes" where
  "region_bytes pixels stride x y w h =
     concat (map (\<lambda>row. take (w * 4) (drop ((y + row) * stride + x * 4) pixels)) [0..<h])"

lemma frame_hasD: "frame_has pixels stride x y w h \<Longrightarrow> row < h \<Longrightarrow>
    (y + row) * stride + x * 4 + w * 4 \<le> length pixels"
  by (simp add: frame_has_def)

lemma frame_has_sub:
  assumes "frame_has pixels stride x y w h" and "tx + tw \<le> w" and "ty + th \<le> h"
  shows "frame_has pixels stride (x + tx) (y + ty) tw th"
proof -
  have "(y + ty + row) * stride + (x + tx) * 4 + tw * 4 \<le> length pixels" if "row < th" for row
    using frame_hasD [OF assms(1), of "ty + row"] assms(2,3) that by (simp add: add.assoc)
  then show ?thesis by (simp add: frame_has_def)
qed

lemma frame_row_length:
  assumes "frame_has pixels stride x y w h" and "row < h"
  shows "length (take (w * 4) (drop ((y + row) * stride + x * 4) pixels)) = w * 4"
  using frame_hasD [OF assms] unfolding length_take length_drop by (simp only: min_def) auto

lemma frame_rows_length:
  assumes "frame_has pixels stride x y w h"
    and "r \<in> set (map (\<lambda>row. take (w * 4) (drop ((y + row) * stride + x * 4) pixels)) [0..<h])"
  shows "length r = w * 4"
proof -
  from assms(2) obtain row where "row < h" "r = take (w * 4) (drop ((y + row) * stride + x * 4) pixels)"
    by auto
  then show ?thesis using frame_row_length [OF assms(1)] by blast
qed

lemma length_region_bytes:
  assumes "frame_has pixels stride x y w h"
  shows "length (region_bytes pixels stride x y w h) = h * (w * 4)"
  unfolding region_bytes_def
  by (rule trans [OF concat_const_length]) (erule frame_rows_length [OF assms], simp)

lemma region_bytes_pixel:
  assumes "frame_has pixels stride x y w h" and "i < w" and "j < h"
  shows "pixel_at (w * 4) (region_bytes pixels stride x y w h) i j = pixel_at stride pixels (x + i) (y + j)"
proof -
  let ?row = "\<lambda>row. take (w * 4) (drop ((y + row) * stride + x * 4) pixels)"
  let ?R = "region_bytes pixels stride x y w h"
  have "take (w * 4) (drop (j * (w * 4)) ?R) = ?row j"
    unfolding region_bytes_def
    by (rule trans [OF concat_block]) (erule frame_rows_length [OF assms(1)], use assms(3) in simp_all)
  then have "take 4 (drop (i * 4) (take (w * 4) (drop (j * (w * 4)) ?R))) = take 4 (drop (i * 4) (?row j))"
    by simp
  moreover have "4 \<le> w * 4 - i * 4" using assms(2) by simp
  ultimately show ?thesis
    by (simp add: pixel_at_def drop_take take_take min_def algebra_simps)
qed

text \<open>Equal row slices have equal pixels.\<close>

lemma row_slice_pixel:
  assumes "take (tw * 4) (drop (y * stride + tx * 4) p) = take (tw * 4) (drop (y * stride + tx * 4) q)"
    and "tx \<le> x" and "x < tx + tw"
  shows "pixel_at stride p x y = pixel_at stride q x y"
proof -
  let ?o = "y * stride + tx * 4" and ?d = "(x - tx) * 4"
  have sub: "take 4 (drop ?d (take (tw * 4) (drop ?o r))) = pixel_at stride r x y" for r :: bytes
  proof -
    have "?d + 4 \<le> tw * 4" using assms(2,3) by (simp add: algebra_simps)
    then have "take 4 (drop ?d (take (tw * 4) (drop ?o r))) = take 4 (drop (?d + ?o) r)"
      by (simp add: drop_take take_take min_def)
    moreover have "?d + ?o = y * stride + x * 4" using assms(2) by (simp add: diff_mult_distrib)
    ultimately show ?thesis by (simp add: pixel_at_def)
  qed
  show ?thesis using sub [of p] sub [of q] assms(1) by simp
qed

lemma pixel_at_take:
  assumes "h * stride \<le> n" and "w * 4 \<le> stride" and "x < w" and "y < h"
  shows "pixel_at stride (take n p) x y = pixel_at stride p x y"
proof -
  have "y * stride + x * 4 + 4 \<le> Suc y * stride" using assms(2,3) by simp
  also have "\<dots> \<le> h * stride" using assms(4) by (intro mult_le_mono) auto
  finally show ?thesis using assms(1) by (simp add: pixel_at_def drop_take take_take min_def)
qed

end
