(* ===== verification/Encodings.thy ===== *)
theory Encodings
  imports Protocol Geometry
begin

text \<open>
  \<^verbatim>\<open>rfb/encodings/encodings.go\<close>: the \<^verbatim>\<open>Encoder\<close> interface and its Raw, CopyRect and Zlib
  implementations, with the persistent zlib writer all compressing encoders share. The
  interface is the locale \<open>rect_encoder\<close>: what a viewer that decodes and paints the produced
  rectangles gets to see.
\<close>

section \<open>Persistent zlib streams\<close>

text \<open>
  A \<^verbatim>\<open>zlib.Writer\<close> over a \<^verbatim>\<open>bytes.Buffer\<close>. The compressor is a parameter \<open>z\<close>: after the
  operations \<open>h\<close> the operation \<open>op\<close> appends \<open>z h op\<close> to the buffer. The writer's state is
  the list of operations performed on it since \<^verbatim>\<open>NewWriter\<close>, \<open>None\<close> while it is nil. A
  buffer in memory never refuses a write.
\<close>

datatype zop = ZWrite bytes | ZFlush | ZClose

type_synonym deflater = "zop list \<Rightarrow> zop \<Rightarrow> bytes"

record zlibStream =
  zs_buf :: bytes
  zs_writer :: "zop list option"

definition zdo :: "deflater \<Rightarrow> zop \<Rightarrow> (zlibStream, unit) prog" where
  "zdo z op s =
     (case zs_writer s of
        None \<Rightarrow> (Inl (GoPanic ''nil pointer dereference''), s)
      | Some h \<Rightarrow> (Inr (), s\<lparr>zs_buf := zs_buf s @ z h op, zs_writer := Some (h @ [op])\<rparr>))"

definition zopen :: "(zlibStream, unit) prog" where
  "zopen = modify (\<lambda>s. if zs_writer s = None then s\<lparr>zs_writer := Some []\<rparr> else s)"

definition zclear :: "(zlibStream, unit) prog" where
  "zclear = modify (\<lambda>s. s\<lparr>zs_buf := []\<rparr>)"

definition zlibStream_reset :: "deflater \<Rightarrow> (zlibStream, unit) prog" where
  "zlibStream_reset z =
     bind_io get_state (\<lambda>s.
     bind_io (if zs_writer s \<noteq> None
              then bind_io (zdo z ZClose) (\<lambda>_. modify (\<lambda>s. s\<lparr>zs_writer := None\<rparr>))
              else ret ()) (\<lambda>_.
     zclear))"

definition zlibStream_new :: zlibStream where
  "zlibStream_new = \<lparr>zs_buf = [], zs_writer = None\<rparr>"

section \<open>Rectangles\<close>

abbreviation mkRect :: "u16 \<Rightarrow> u16 \<Rightarrow> u16 \<Rightarrow> u16 \<Rightarrow> i32 \<Rightarrow> bytes \<Rightarrow> Rectangle" where
  "mkRect x y width height enc data \<equiv>
     \<lparr>rect_Header = \<lparr>hdr_X = x, hdr_Y = y, hdr_Width = width, hdr_Height = height, hdr_Encoding = enc\<rparr>,
      rect_Data = data\<rparr>"

section \<open>Raw\<close>

definition Raw_Type :: i32 where "Raw_Type = EncodingRaw"

text \<open>The bytes of one row of the region, with the bounds check of the Go loops.\<close>

definition src_row ::
  "string \<Rightarrow> nat \<Rightarrow> nat \<Rightarrow> nat \<Rightarrow> bytes \<Rightarrow> nat \<Rightarrow> nat \<Rightarrow> bytes res" where
  "src_row msg x y width pixels stride row =
     (let srcY = y + row; srcOffset = srcY * stride + x * 4; srcEnd = srcOffset + width * 4 in
      if srcEnd > length pixels then Inl (Errorf msg [int row])
      else gslice srcOffset srcEnd pixels)"

definition Raw_Encode ::
  "u16 \<Rightarrow> u16 \<Rightarrow> u16 \<Rightarrow> u16 \<Rightarrow> bytes \<Rightarrow> nat \<Rightarrow> Rectangle res" where
  "Raw_Encode x y width height pixels stride =
     rbind (foldM (\<lambda>row rectData.
        rbind (src_row ''raw encode: pixel data out of bounds at row'' (unat x) (unat y) (unat width)
                 pixels stride row)
          (\<lambda>b. Inr (rectData @ b))) [0..<unat height] []) (\<lambda>rectData.
     Inr (mkRect x y width height EncodingRaw (rectData)))"

section \<open>CopyRect\<close>

definition CopyRect_Type :: i32 where "CopyRect_Type = EncodingCopyRect"

definition EncodeCopyRect :: "u16 \<Rightarrow> u16 \<Rightarrow> u16 \<Rightarrow> u16 \<Rightarrow> u16 \<Rightarrow> u16 \<Rightarrow> Rectangle" where
  "EncodeCopyRect x y width height srcX srcY =
     (mkRect x y width height EncodingCopyRect (be16 srcX @ be16 srcY))"

definition CopyRect_Encode ::
  "u16 \<Rightarrow> u16 \<Rightarrow> u16 \<Rightarrow> u16 \<Rightarrow> bytes \<Rightarrow> nat \<Rightarrow> Rectangle res" where
  "CopyRect_Encode x y width height pixels stride =
     Inl (Errorf ''copyrect: use EncodeCopyRect instead'' [])"

section \<open>Zlib\<close>

definition Zlib_Type :: i32 where "Zlib_Type = EncodingZlib"

definition Zlib_Encode ::
  "deflater \<Rightarrow> u16 \<Rightarrow> u16 \<Rightarrow> u16 \<Rightarrow> u16 \<Rightarrow> bytes \<Rightarrow> nat \<Rightarrow> (zlibStream, Rectangle) prog" where
  "Zlib_Encode z x y width height pixels stride =
     bind_io zopen (\<lambda>_.
     bind_io zclear (\<lambda>_.
     bind_io (seq_io (map (\<lambda>row.
        bind_io (lift_res (src_row ''zlib encode: pixel data out of bounds at row'' (unat x) (unat y)
                   (unat width) pixels stride row)) (\<lambda>b.
        wrap ''zlib write'' (zdo z (ZWrite b)))) [0..<unat height])) (\<lambda>_.
     bind_io (wrap ''zlib flush'' (zdo z ZFlush)) (\<lambda>_.
     bind_io get_state (\<lambda>s.
     ret (mkRect x y width height EncodingZlib (be32 (of_nat (length (zs_buf s))) @ zs_buf s)))))))"

definition Zlib_Reset :: "deflater \<Rightarrow> (zlibStream, unit) prog" where
  "Zlib_Reset z = zlibStream_reset z"

section \<open>What a viewer sees\<close>

text \<open>
  A decoder with state \<open>'d\<close> turns a rectangle into its pixels, which the viewer paints into
  the area the header names.
\<close>

type_synonym 'd decoder = "'d \<Rightarrow> Rectangle \<Rightarrow> picture \<times> 'd"

definition area :: "Rectangle \<Rightarrow> rect" where
  "area r = (let h = rect_Header r in
     tile_rect (unat (hdr_X h), unat (hdr_Y h), unat (hdr_Width h), unat (hdr_Height h)))"

definition paint :: "Rectangle \<Rightarrow> picture \<Rightarrow> picture \<Rightarrow> picture" where
  "paint r img pic i j =
     (if inside (area r) (int i) (int j)
      then img (i - unat (hdr_X (rect_Header r))) (j - unat (hdr_Y (rect_Header r))) else pic i j)"

fun view_rects :: "'d decoder \<Rightarrow> 'd \<Rightarrow> Rectangle list \<Rightarrow> picture \<Rightarrow> picture \<times> 'd" where
  "view_rects dec d [] pic = (pic, d)"
| "view_rects dec d (r # rs) pic = (case dec d r of (img, d') \<Rightarrow> view_rects dec d' rs (paint r img pic))"

lemma view_rects_append:
  "view_rects dec d (rs @ ss) pic =
     (case view_rects dec d rs pic of (pic', d') \<Rightarrow> view_rects dec d' ss pic')"
  by (induction rs arbitrary: d pic) (auto split: prod.splits)

text \<open>
  \<open>shows_region shows pixels stride R pic' pic\<close>: inside \<open>R\<close> the new picture shows the frame,
  outside it is the old one. \<open>shows q p\<close> says that the decoded pixel \<open>q\<close> stands for \<open>p\<close>.
\<close>

definition shows_region ::
  "(bytes \<Rightarrow> bytes \<Rightarrow> bool) \<Rightarrow> bytes \<Rightarrow> nat \<Rightarrow> (int \<Rightarrow> int \<Rightarrow> bool) \<Rightarrow> picture \<Rightarrow> picture \<Rightarrow> bool" where
  "shows_region shows pixels stride R pic' pic \<longleftrightarrow>
     (\<forall>i j. if R (int i) (int j) then shows (pic' i j) (pixel_at stride pixels i j)
            else pic' i j = pic i j)"

lemma shows_region_seq:
  assumes "shows_region shows pixels stride R p q" and "shows_region shows pixels stride S r p"
  shows "shows_region shows pixels stride (\<lambda>i j. R i j \<or> S i j) r q"
  using assms unfolding shows_region_def by metis

lemma shows_region_empty: "shows_region shows pixels stride (\<lambda>i j. False) p p"
  by (simp add: shows_region_def)

lemma shows_region_cong:
  "shows_region shows pixels stride R p q \<Longrightarrow> (\<And>i j. R (int i) (int j) = S (int i) (int j)) \<Longrightarrow>
     shows_region shows pixels stride S p q"
  by (simp add: shows_region_def)

text \<open>A region of the screen: position and size.\<close>

type_synonym area16 = "u16 \<times> u16 \<times> u16 \<times> u16"

definition area_rect :: "area16 \<Rightarrow> rect" where
  "area_rect a = (case a of (x, y, w, h) \<Rightarrow> tile_rect (unat x, unat y, unat w, unat h))"

definition area_ok :: "bytes \<Rightarrow> nat \<Rightarrow> area16 \<Rightarrow> bool" where
  "area_ok pixels stride a \<longleftrightarrow> (case a of (x, y, w, h) \<Rightarrow>
     frame_has pixels stride (unat x) (unat y) (unat w) (unat h) \<and>
     unat x + unat w \<le> 65536 \<and> unat y + unat h \<le> 65536)"

text \<open>Encoding several regions of one frame, one after the other.\<close>

fun encode_areas ::
  "(area16 \<Rightarrow> bytes \<Rightarrow> nat \<Rightarrow> ('s, Rectangle list) prog) \<Rightarrow> area16 list \<Rightarrow> bytes \<Rightarrow> nat \<Rightarrow>
   ('s, Rectangle list) prog" where
  "encode_areas encode [] pixels stride = ret []"
| "encode_areas encode (a # as) pixels stride =
     bind_io (encode a pixels stride) (\<lambda>rs.
     bind_io (encode_areas encode as pixels stride) (\<lambda>ss. ret (rs @ ss)))"

fun encode_updates ::
  "(area16 \<Rightarrow> bytes \<Rightarrow> nat \<Rightarrow> ('s, Rectangle list) prog) \<Rightarrow> (area16 list \<times> bytes \<times> nat) list \<Rightarrow>
   ('s, Rectangle list list) prog" where
  "encode_updates encode [] = ret []"
| "encode_updates encode ((as, pixels, stride) # us) =
     bind_io (encode_areas encode as pixels stride) (\<lambda>rs.
     bind_io (encode_updates encode us) (\<lambda>rss. ret (rs # rss)))"

fun view_updates :: "'d decoder \<Rightarrow> 'd \<Rightarrow> Rectangle list list \<Rightarrow> picture \<Rightarrow> picture list" where
  "view_updates dec d [] pic = []"
| "view_updates dec d (rs # rss) pic =
     (case view_rects dec d rs pic of (pic', d') \<Rightarrow> pic' # view_updates dec d' rss pic')"

fun updates_shown ::
  "(bytes \<Rightarrow> bytes \<Rightarrow> bool) \<Rightarrow> (area16 list \<times> bytes \<times> nat) list \<Rightarrow> picture list \<Rightarrow> picture \<Rightarrow> bool" where
  "updates_shown shows_px [] pics pic \<longleftrightarrow> pics = []"
| "updates_shown shows_px ((as, px, st) # us) pics pic \<longleftrightarrow>
     (case pics of [] \<Rightarrow> False
      | pic' # pics' \<Rightarrow> shows_region shows_px px st (covered (map area_rect as)) pic' pic \<and>
          updates_shown shows_px us pics' pic')"

text \<open>
  The contract of an encoder of regions: \<open>sync s d\<close> relates its state to the state of a
  decoder that has received everything produced so far. Encoding a region that lies in the
  frame succeeds, and painting what is decoded shows the frame there and changes nothing
  else. An implementation of \<^verbatim>\<open>Encoder\<close> (\<open>rect_encoder\<close>) answers a region with rows outside the
  frame with an error value, not a panic.
\<close>

locale region_encoder =
  fixes encode :: "area16 \<Rightarrow> bytes \<Rightarrow> nat \<Rightarrow> ('s, Rectangle list) prog"
    and dec :: "'d decoder"
    and sync :: "'s \<Rightarrow> 'd \<Rightarrow> bool"
    and shows_px :: "bytes \<Rightarrow> bytes \<Rightarrow> bool"
  assumes encode_shows:
      "sync s d \<Longrightarrow> area_ok pixels stride a \<Longrightarrow>
         \<exists>rects s' pic' d'. encode a pixels stride s = (Inr rects, s') \<and>
           view_rects dec d rects pic = (pic', d') \<and> sync s' d' \<and>
           shows_region shows_px pixels stride (inside (area_rect a)) pic' pic"
begin

lemma encode_areas_shows:
  assumes "sync s d" and "\<And>a. a \<in> set as \<Longrightarrow> area_ok pixels stride a"
  shows "\<exists>rects s' pic' d'. encode_areas encode as pixels stride s = (Inr rects, s') \<and>
           view_rects dec d rects pic = (pic', d') \<and> sync s' d' \<and>
           shows_region shows_px pixels stride (covered (map area_rect as)) pic' pic"
  using assms
proof (induction as arbitrary: s d pic)
  case Nil
  then show ?case using shows_region_empty by (auto simp: conn_simps covered_def)
next
  case (Cons a as)
  obtain rects s1 pic1 d1 where 1: "encode a pixels stride s = (Inr rects, s1)"
      "view_rects dec d rects pic = (pic1, d1)" "sync s1 d1"
      "shows_region shows_px pixels stride (inside (area_rect a)) pic1 pic"
    using encode_shows [OF Cons.prems(1)] Cons.prems(2) by (metis list.set_intros(1))
  obtain rects' s2 pic2 d2 where 2: "encode_areas encode as pixels stride s1 = (Inr rects', s2)"
      "view_rects dec d1 rects' pic1 = (pic2, d2)" "sync s2 d2"
      "shows_region shows_px pixels stride (covered (map area_rect as)) pic2 pic1"
    using Cons.IH [OF 1(3)] Cons.prems(2) by (metis list.set_intros(2))
  have "encode_areas encode (a # as) pixels stride s = (Inr (rects @ rects'), s2)"
    using 1(1) 2(1) by (simp add: conn_simps)
  moreover have "view_rects dec d (rects @ rects') pic = (pic2, d2)"
    using 1(2) 2(2) by (simp add: view_rects_append)
  moreover have "shows_region shows_px pixels stride (covered (map area_rect (a # as))) pic2 pic"
    by (rule shows_region_cong [OF shows_region_seq [OF 1(4) 2(4)]]) (simp add: covered_def)
  ultimately show ?case using 2(3) by blast
qed

text \<open>
  A sequence of updates, each of some regions of its own frame: every update is decoded, with
  the one decoder state, into a picture that shows its frame in its regions.
\<close>

lemma encode_updates_show:
  assumes "sync s d" and "\<And>as px st. (as, px, st) \<in> set us \<Longrightarrow> \<forall>a \<in> set as. area_ok px st a"
  shows "\<exists>rss s'. encode_updates encode us s = (Inr rss, s') \<and>
           updates_shown shows_px us (view_updates dec d rss pic) pic"
  using assms
proof (induction us arbitrary: s d pic)
  case Nil
  then show ?case by (simp add: conn_simps)
next
  case (Cons u us)
  obtain as px st where u: "u = (as, px, st)" by (cases u)
  have ok: "area_ok px st a" if "a \<in> set as" for a
    using Cons.prems(2) [of as px st] that u by simp
  obtain rects s1 pic1 d1 where 1: "encode_areas encode as px st s = (Inr rects, s1)"
      "view_rects dec d rects pic = (pic1, d1)" "sync s1 d1"
      "shows_region shows_px px st (covered (map area_rect as)) pic1 pic"
    using encode_areas_shows [OF Cons.prems(1) ok] by blast
  obtain rss s2 where 2: "encode_updates encode us s1 = (Inr rss, s2)"
      "updates_shown shows_px us (view_updates dec d1 rss pic1) pic1"
    using Cons.IH [OF 1(3) Cons.prems(2)] by (meson list.set_intros(2))
  have "encode_updates encode (u # us) s = (Inr (rects # rss), s2)"
    using 1(1) 2(1) u by (simp add: conn_simps)
  then show ?case using 1 2 u by auto
qed

end

locale rect_encoder = region_encoder +
  assumes encode_oob:
      "sync s d \<Longrightarrow> 0 < unat w \<Longrightarrow> \<not> frame_has pixels stride (unat x) (unat y) (unat w) (unat h) \<Longrightarrow>
         \<exists>e s'. encode (x, y, w, h) pixels stride s = (Inl e, s') \<and> \<not> is_panic (Inl e :: unit res)"

section \<open>Raw implements the contract\<close>

lemma src_row_Inr:
  assumes "frame_has pixels stride x y w h" and "row < h"
  shows "src_row msg x y w pixels stride row = Inr (take (w * 4) (drop ((y + row) * stride + x * 4) pixels))"
  using frame_hasD [OF assms] by (simp add: src_row_def Let_def gslice_def)

lemma src_row_Inl:
  "(y + row) * stride + x * 4 + w * 4 > length pixels \<Longrightarrow>
     src_row msg x y w pixels stride row = Inl (Errorf msg [int row])"
  by (simp add: src_row_def Let_def)

lemma src_row_cases:
  "(\<exists>b. src_row msg x y w pixels stride row = Inr b) \<or>
   src_row msg x y w pixels stride row = Inl (Errorf msg [int row])"
  by (auto simp: src_row_def Let_def gslice_def)

lemma foldM_rows:
  assumes "\<And>row. row \<in> set rows \<Longrightarrow> f row = Inr (g row)"
  shows "foldM (\<lambda>row acc. rbind (f row) (\<lambda>b. Inr (acc @ b))) rows acc = Inr (acc @ concat (map g rows))"
  using assms by (induction rows arbitrary: acc) auto

lemma foldM_rows_fail:
  assumes "row \<in> set rows" and "\<exists>e. f row = Inl e \<and> P e" and "\<And>r e. f r = Inl e \<Longrightarrow> P e"
  shows "\<exists>e. foldM (\<lambda>row acc. rbind (f row) (\<lambda>b. Inr (acc @ b))) rows acc = Inl e \<and> P e"
  using assms(1)
proof (induction rows arbitrary: acc)
  case Nil
  then show ?case by simp
next
  case (Cons r rows)
  then show ?case using assms(2,3) by (cases "f r") auto
qed

lemma Raw_Encode_Inr:
  assumes "frame_has pixels stride (unat x) (unat y) (unat w) (unat h)"
  shows "Raw_Encode x y w h pixels stride =
     Inr (mkRect x y w h EncodingRaw (region_bytes pixels stride (unat x) (unat y) (unat w) (unat h)))"
  unfolding Raw_Encode_def
  by (subst foldM_rows [OF src_row_Inr [OF assms]]) (simp_all add: region_bytes_def)

lemma Raw_Encode_Inl:
  assumes "\<not> frame_has pixels stride (unat x) (unat y) (unat w) (unat h)"
  shows "\<exists>row. Raw_Encode x y w h pixels stride =
     Inl (Errorf ''raw encode: pixel data out of bounds at row'' [int row])"
proof -
  let ?m = "''raw encode: pixel data out of bounds at row''"
  let ?f = "src_row ?m (unat x) (unat y) (unat w) pixels stride"
  let ?P = "\<lambda>e. \<exists>row. e = Errorf ?m [int row]"
  obtain row where row: "row \<in> set [0..<unat h]" "\<exists>e. ?f row = Inl e \<and> ?P e"
    using assms src_row_Inl [where msg = ?m] unfolding frame_has_def by (metis not_less)
  have "\<exists>e. foldM (\<lambda>row acc. rbind (?f row) (\<lambda>b. Inr (acc @ b))) [0..<unat h] [] = Inl e \<and> ?P e"
  proof (rule foldM_rows_fail [where f = ?f and P = ?P, OF row])
    fix r e
    assume "?f r = Inl e"
    then show "?P e" using src_row_cases [of ?m "unat x" "unat y" "unat w" pixels stride r] by auto
  qed
  then show ?thesis by (auto simp: Raw_Encode_def)
qed

definition Raw_encode :: "area16 \<Rightarrow> bytes \<Rightarrow> nat \<Rightarrow> (unit, Rectangle list) prog" where
  "Raw_encode a pixels stride =
     (case a of (x, y, w, h) \<Rightarrow>
        bind_io (lift_res (Raw_Encode x y w h pixels stride)) (\<lambda>r. ret [r]))"

text \<open>The decoder of Raw rectangles: the data are the rows of the rectangle.\<close>

definition raw_picture :: "Rectangle \<Rightarrow> bytes \<Rightarrow> picture" where
  "raw_picture r b = pixel_at (unat (hdr_Width (rect_Header r)) * 4) b"

definition raw_decoder :: "unit decoder" where
  "raw_decoder d r = (raw_picture r (rect_Data r), d)"

lemma paint_region_shows:
  assumes "frame_has pixels stride (unat x) (unat y) (unat w) (unat h)"
    and "\<And>i j. i < unat w \<Longrightarrow> j < unat h \<Longrightarrow>
           shows_px (img i j) (pixel_at stride pixels (unat x + i) (unat y + j))"
  shows "shows_region shows_px pixels stride (inside (area_rect (x, y, w, h)))
           (paint (mkRect x y w h enc data) img pic) pic"
proof -
  have "shows_px (img (i - unat x) (j - unat y)) (pixel_at stride pixels i j)"
    if "unat x \<le> i" "i < unat x + unat w" "unat y \<le> j" "j < unat y + unat h" for i j
    using assms(2) [of "i - unat x" "j - unat y"] that by simp
  then show ?thesis
    by (auto simp: shows_region_def area_rect_def paint_def area_def inside_tile_rect)
qed

interpretation raw: rect_encoder Raw_encode raw_decoder "\<lambda>_ _. True" "(=)"
proof
  fix s d :: unit and pixels stride a and pic :: picture
  assume "area_ok pixels stride a"
  then obtain x y w h where a: "a = (x, y, w, h)"
    and f: "frame_has pixels stride (unat x) (unat y) (unat w) (unat h)"
    by (cases a) (auto simp: area_ok_def)
  let ?b = "region_bytes pixels stride (unat x) (unat y) (unat w) (unat h)"
  have "shows_region (=) pixels stride (inside (area_rect (x, y, w, h)))
      (paint (mkRect x y w h EncodingRaw ?b) (pixel_at (unat w * 4) ?b) pic) pic"
    by (rule paint_region_shows [OF f]) (rule region_bytes_pixel [OF f])
  then show "\<exists>rects s' pic' d'. Raw_encode a pixels stride s = (Inr rects, s') \<and>
      view_rects raw_decoder d rects pic = (pic', d') \<and> True \<and>
      shows_region (=) pixels stride (inside (area_rect a)) pic' pic"
    by (simp add: a Raw_encode_def Raw_Encode_Inr [OF f] conn_simps raw_decoder_def raw_picture_def)
next
  fix s d :: unit and x y w h :: u16 and pixels stride
  assume "\<not> frame_has pixels stride (unat x) (unat y) (unat w) (unat h)"
  from Raw_Encode_Inl [OF this] obtain e where "Raw_Encode x y w h pixels stride = Inl e" "\<not> is_panic (Inl e :: unit res)"
    by (metis is_panic.simps(5))
  then show "\<exists>e s'. Raw_encode (x, y, w, h) pixels stride s = (Inl e, s') \<and> \<not> is_panic (Inl e :: unit res)"
    by (simp add: Raw_encode_def conn_simps)
qed

section \<open>Compressed streams\<close>

text \<open>All bytes the operations produce, and the data written by them.\<close>

fun zout :: "deflater \<Rightarrow> zop list \<Rightarrow> zop list \<Rightarrow> bytes" where
  "zout z h [] = []"
| "zout z h (op # ops) = z h op @ zout z (h @ [op]) ops"

fun zplain :: "zop list \<Rightarrow> bytes" where
  "zplain [] = []"
| "zplain (ZWrite b # ops) = b @ zplain ops"
| "zplain (op # ops) = zplain ops"

text \<open>
  What the sources rely on of \<^verbatim>\<open>compress/zlib\<close>: after a flush everything written can be
  decompressed from the bytes produced so far. \<open>inflate\<close> gives all data a decompressor gets
  out of a stream.
\<close>

definition zlib_ok :: "deflater \<Rightarrow> (bytes \<Rightarrow> bytes) \<Rightarrow> bool" where
  "zlib_ok z inflate \<longleftrightarrow>
     inflate [] = [] \<and>
     (\<forall>ops. ZClose \<notin> set ops \<longrightarrow> inflate (zout z [] (ops @ [ZFlush])) = zplain ops)"

text \<open>A decompressor that has received \<open>d\<close> gets the next part \<open>b\<close> of the stream.\<close>

definition inflate_next :: "(bytes \<Rightarrow> bytes) \<Rightarrow> bytes \<Rightarrow> bytes \<Rightarrow> bytes" where
  "inflate_next inflate d b = drop (length (inflate d)) (inflate (d @ b))"

definition zsync :: "deflater \<Rightarrow> (bytes \<Rightarrow> bytes) \<Rightarrow> zlibStream \<Rightarrow> bytes \<Rightarrow> bool" where
  "zsync z inflate s d \<longleftrightarrow> zlib_ok z inflate \<and>
     (case zs_writer s of
        None \<Rightarrow> d = []
      | Some h \<Rightarrow> ZClose \<notin> set h \<and> (h = [] \<or> last h = ZFlush) \<and> d = zout z [] h)"

lemma zlib_okD: "zlib_ok z inflate \<Longrightarrow> ZClose \<notin> set ops \<Longrightarrow>
    inflate (zout z [] (ops @ [ZFlush])) = zplain ops"
  by (simp add: zlib_ok_def)

lemma zout_append: "zout z h (xs @ ys) = zout z h xs @ zout z (h @ xs) ys"
  by (induction xs arbitrary: h) auto

lemma zplain_append: "zplain (xs @ ys) = zplain xs @ zplain ys"
  by (induction xs rule: zplain.induct) auto

lemma zplain_writes: "zplain (map ZWrite ws) = concat ws"
  by (induction ws) auto

lemma inflate_synced:
  assumes "zlib_ok z inflate" and "ZClose \<notin> set h" and "h = [] \<or> last h = ZFlush"
  shows "inflate (zout z [] h) = zplain h"
proof (cases "h = []")
  case True
  then show ?thesis using assms(1) by (simp add: zlib_ok_def)
next
  case False
  then have h: "h = butlast h @ [ZFlush]" using assms(3) by (metis append_butlast_last_id)
  then have "ZClose \<notin> set (butlast h)" using assms(2) by (metis in_set_butlastD)
  then have "inflate (zout z [] (butlast h @ [ZFlush])) = zplain (butlast h)"
    using assms(1) by (simp add: zlib_ok_def)
  also have "\<dots> = zplain (butlast h @ [ZFlush])" by (simp add: zplain_append)
  finally show ?thesis using h by simp
qed

lemma zdo_seq:
  "seq_io (map (zdo z) ops) \<lparr>zs_buf = b, zs_writer = Some h\<rparr> =
     (Inr (), \<lparr>zs_buf = b @ zout z h ops, zs_writer = Some (h @ ops)\<rparr>)"
proof (induction ops arbitrary: b h)
  case Nil
  then show ?case by (simp add: conn_simps)
next
  case (Cons op ops)
  have "zdo z op \<lparr>zs_buf = b, zs_writer = Some h\<rparr> =
      (Inr (), \<lparr>zs_buf = b @ z h op, zs_writer = Some (h @ [op])\<rparr>)" by (simp add: zdo_def)
  then show ?case using Cons.IH [of "b @ z h op" "h @ [op]"] by (simp add: conn_simps)
qed

text \<open>One rectangle of a persistent stream: open, clear the buffer, write, flush.\<close>

definition zframe :: "deflater \<Rightarrow> bytes list \<Rightarrow> (zlibStream, bytes) prog" where
  "zframe z ws =
     bind_io zopen (\<lambda>_. bind_io zclear (\<lambda>_.
     bind_io (seq_io (map (zdo z) (map ZWrite ws))) (\<lambda>_.
     bind_io (zdo z ZFlush) (\<lambda>_. bind_io get_state (\<lambda>s. ret (zs_buf s))))))"

lemma zframe_sync:
  assumes "zsync z inflate s d"
  shows "\<exists>b s'. zframe z ws s = (Inr b, s') \<and> zs_buf s' = b \<and> zsync z inflate s' (d @ b) \<and>
           inflate_next inflate d b = concat ws \<and>
           (\<exists>h. (h = [] \<or> last h = ZFlush) \<and> b = zout z h (map ZWrite ws @ [ZFlush]))"
proof -
  obtain h where h: "ZClose \<notin> set h" "h = [] \<or> last h = ZFlush" "d = zout z [] h"
      "zs_writer s = Some h \<or> (zs_writer s = None \<and> h = [])"
    using assms by (cases "zs_writer s") (auto simp: zsync_def)
  have ok: "zlib_ok z inflate" using assms by (simp add: zsync_def)
  let ?ops = "map ZWrite ws @ [ZFlush]"
  let ?s' = "\<lparr>zs_buf = zout z h ?ops, zs_writer = Some (h @ ?ops)\<rparr>"
  let ?w = "map ZWrite ws"
  have start: "zopen s = (Inr (), s\<lparr>zs_writer := Some h\<rparr>)"
      "zclear (s\<lparr>zs_writer := Some h\<rparr>) = (Inr (), \<lparr>zs_buf = [], zs_writer = Some h\<rparr>)"
    using h(4) by (cases s, auto simp: zopen_def zclear_def conn_simps)
  have fl: "zdo z ZFlush \<lparr>zs_buf = zout z h ?w, zs_writer = Some (h @ ?w)\<rparr> = (Inr (), ?s')"
    by (simp add: zdo_def zout_append)
  have run: "zframe z ws s = (Inr (zout z h ?ops), ?s')"
    using start fl zdo_seq [of z ?w "[]" h] by (simp add: zframe_def conn_simps del: map_map)
  have h': "ZClose \<notin> set (h @ ?ops)" "last (h @ ?ops) = ZFlush" using h(1) by auto
  have all: "d @ zout z h ?ops = zout z [] (h @ ?ops)" using h(3) zout_append [of z "[]" h ?ops] by simp
  have "inflate (d @ zout z h ?ops) = zplain (h @ ?ops)"
    unfolding all using inflate_synced [OF ok h'(1)] h'(2) by blast
  moreover have "inflate d = zplain h" using inflate_synced [OF ok h(1,2)] h(3) by simp
  ultimately have "inflate_next inflate d (zout z h ?ops) = concat ws"
    by (simp add: inflate_next_def zplain_append zplain_writes)
  moreover have "zsync z inflate ?s' (d @ zout z h ?ops)"
    unfolding all using ok h' by (simp add: zsync_def)
  ultimately show ?thesis using run h(2) by auto
qed

section \<open>Zlib implements the contract\<close>

lemma seq_io_cong:
  "(\<And>x. x \<in> set xs \<Longrightarrow> f x = g x) \<Longrightarrow> seq_io (map f xs) = seq_io (map g xs)"
  by (induction xs) auto

lemma wrap_zdo_Some: "wrap m (zdo z op) = zdo z op"
proof
  fix s
  show "wrap m (zdo z op) s = zdo z op s"
    by (cases "zs_writer s") (auto simp: wrap_def zdo_def)
qed

lemma bind_lift_Inr: "bind_io (lift_res (Inr x)) f = f x"
  by (rule ext) (simp add: conn_simps)

lemma Zlib_Encode_zframe:
  assumes "frame_has pixels stride (unat x) (unat y) (unat w) (unat h)"
  shows "Zlib_Encode z x y w h pixels stride =
     bind_io (zframe z (map (\<lambda>row. take (unat w * 4) (drop ((unat y + row) * stride + unat x * 4) pixels))
        [0..<unat h])) (\<lambda>b. ret (mkRect x y w h EncodingZlib (be32 (of_nat (length b)) @ b)))"
proof -
  let ?row = "\<lambda>row. take (unat w * 4) (drop ((unat y + row) * stride + unat x * 4) pixels)"
  have "seq_io (map (\<lambda>row. bind_io (lift_res (src_row ''zlib encode: pixel data out of bounds at row''
            (unat x) (unat y) (unat w) pixels stride row)) (\<lambda>b. wrap ''zlib write'' (zdo z (ZWrite b)))) [0..<unat h])
      = seq_io (map (\<lambda>row. zdo z (ZWrite (?row row))) [0..<unat h])"
    by (rule seq_io_cong) (simp add: src_row_Inr [OF assms] bind_lift_Inr wrap_zdo_Some)
  then show ?thesis
    by (simp add: Zlib_Encode_def zframe_def wrap_zdo_Some bind_io_assoc bind_ret_left comp_def)
qed

definition Zlib_encode :: "deflater \<Rightarrow> area16 \<Rightarrow> bytes \<Rightarrow> nat \<Rightarrow> (zlibStream, Rectangle list) prog" where
  "Zlib_encode z a pixels stride =
     (case a of (x, y, w, h) \<Rightarrow> bind_io (Zlib_Encode z x y w h pixels stride) (\<lambda>r. ret [r]))"

text \<open>The decoder of Zlib rectangles feeds the data after the length to its one decompressor.\<close>

definition zlib_decoder :: "(bytes \<Rightarrow> bytes) \<Rightarrow> bytes decoder" where
  "zlib_decoder inflate d r =
     (let b = drop 4 (rect_Data r) in (raw_picture r (inflate_next inflate d b), d @ b))"

lemma seq_rows_fail:
  assumes "row \<in> set rows" and "\<And>r. (\<exists>b. f r = Inr b) \<or> f r = Inl (e r)" and "f row = Inl (e row)"
    and "zs_writer s \<noteq> None"
  shows "\<exists>r s'. seq_io (map (\<lambda>row. bind_io (lift_res (f row)) (\<lambda>b. wrap m (zdo z (ZWrite b)))) rows) s
     = (Inl (e r), s')"
  using assms(1,4)
proof (induction rows arbitrary: s)
  case Nil
  then show ?case by simp
next
  case (Cons r rows)
  show ?case
  proof (cases "f r")
    case (Inl e')
    then show ?thesis using assms(2) [of r] by (auto simp: conn_simps)
  next
    case (Inr b)
    with Cons.prems assms(3) have "row \<in> set rows" by auto
    moreover obtain s1 where "zdo z (ZWrite b) s = (Inr (), s1)" "zs_writer s1 \<noteq> None"
      using Cons.prems(2) by (auto simp: zdo_def)
    ultimately show ?thesis using Cons.IH Inr by (simp add: conn_simps wrap_zdo_Some)
  qed
qed

interpretation zlib: rect_encoder "Zlib_encode z" "zlib_decoder inflate" "zsync z inflate" "(=)"
  for z inflate
proof
  fix s d pixels stride a and pic :: picture
  assume sync: "zsync z inflate s d" and "area_ok pixels stride a"
  then obtain x y w h where a: "a = (x, y, w, h)"
    and f: "frame_has pixels stride (unat x) (unat y) (unat w) (unat h)"
    by (cases a) (auto simp: area_ok_def)
  let ?rows = "map (\<lambda>row. take (unat w * 4) (drop ((unat y + row) * stride + unat x * 4) pixels)) [0..<unat h]"
  obtain b s' where b: "zframe z ?rows s = (Inr b, s')" "zsync z inflate s' (d @ b)"
      "inflate_next inflate d b = region_bytes pixels stride (unat x) (unat y) (unat w) (unat h)"
    using zframe_sync [OF sync, of ?rows] by (auto simp: region_bytes_def)
  let ?r = "mkRect x y w h EncodingZlib (be32 (of_nat (length b)) @ b)"
  have run: "Zlib_encode z a pixels stride s = (Inr [?r], s')"
    using b(1) by (simp add: a Zlib_encode_def Zlib_Encode_zframe [OF f] conn_simps)
  have "shows_region (=) pixels stride (inside (area_rect (x, y, w, h)))
      (paint ?r (pixel_at (unat w * 4) (inflate_next inflate d b)) pic) pic"
    unfolding b(3) by (rule paint_region_shows [OF f]) (rule region_bytes_pixel [OF f])
  then show "\<exists>rects s' pic' d'. Zlib_encode z a pixels stride s = (Inr rects, s') \<and>
      view_rects (zlib_decoder inflate) d rects pic = (pic', d') \<and> zsync z inflate s' d' \<and>
      shows_region (=) pixels stride (inside (area_rect a)) pic' pic"
    using run b(2) by (auto simp: a zlib_decoder_def raw_picture_def Let_def)
next
  fix s :: zlibStream and d :: bytes and x y w h :: u16 and pixels stride
  let ?m = "''zlib encode: pixel data out of bounds at row''"
  let ?f = "src_row ?m (unat x) (unat y) (unat w) pixels stride"
  assume "\<not> frame_has pixels stride (unat x) (unat y) (unat w) (unat h)"
  then obtain row where row: "row \<in> set [0..<unat h]" "?f row = Inl (Errorf ?m [int row])"
    using src_row_Inl [where msg = ?m] unfolding frame_has_def by (metis not_less)
  let ?s = "(if zs_writer s = None then s\<lparr>zs_writer := Some []\<rparr> else s)\<lparr>zs_buf := []\<rparr>"
  have "zs_writer ?s \<noteq> None" by simp
  from seq_rows_fail [where f = ?f and e = "\<lambda>r. Errorf ?m [int r]", OF row(1) src_row_cases row(2) this,
      of "''zlib write''" z]
  obtain r s' where
    "seq_io (map (\<lambda>row. bind_io (lift_res (?f row)) (\<lambda>b. wrap ''zlib write'' (zdo z (ZWrite b)))) [0..<unat h]) ?s
       = (Inl (Errorf ?m [int r]), s')" by blast
  then have "Zlib_encode z (x, y, w, h) pixels stride s = (Inl (Errorf ?m [int r]), s')"
    by (simp add: Zlib_encode_def Zlib_Encode_def zopen_def zclear_def conn_simps)
  then show "\<exists>e s'. Zlib_encode z (x, y, w, h) pixels stride s = (Inl e, s') \<and> \<not> is_panic (Inl e :: unit res)"
    by (intro exI [of _ "Errorf ?m [int r]"] exI [of _ s']) simp
qed

section \<open>Properties\<close>

text \<open>The stored-block compressor: nothing until a flush, then everything not yet produced.\<close>

fun zpending :: "zop list \<Rightarrow> bytes" where
  "zpending [] = []"
| "zpending (ZFlush # rev_ops) = []"
| "zpending (ZWrite b # rev_ops) = zpending rev_ops @ b"
| "zpending (ZClose # rev_ops) = []"

definition stored :: deflater where
  "stored h op = (if op = ZFlush then zpending (rev h) else [])"

lemma stored_out: "ZClose \<notin> set ops \<Longrightarrow> zout stored [] ops @ zpending (rev ops) = zplain ops"
proof (induction ops rule: rev_induct)
  case Nil
  then show ?case by simp
next
  case (snoc op ops)
  then show ?case by (cases op) (auto simp: zout_append zplain_append stored_def)
qed

lemma stored_ok: "zlib_ok stored (\<lambda>b. b)"
proof -
  have "zout stored [] (ops @ [ZFlush]) = zplain ops" if "ZClose \<notin> set ops" for ops
    using stored_out [of "ops @ [ZFlush]"] that by (simp add: zplain_append)
  then show ?thesis by (simp add: zlib_ok_def)
qed

text \<open>
  One Zlib encoder and one client decompressor stay in step over any sequence of updates:
  when every update asks for regions that lie in its frame, every \<^verbatim>\<open>Encode\<close> call succeeds, and
  the client, decompressing the rectangles with the one persistent stream and painting them,
  shows after each update exactly that update's frame in the regions and its previous picture
  elsewhere.
\<close>

lemma Zlib_stream_shows_updates:
  assumes "zlib_ok z inflate"
    and "\<And>as px st. (as, px, st) \<in> set updates \<Longrightarrow> \<forall>a \<in> set as. area_ok px st a"
  shows "\<exists>rects s'. encode_updates (Zlib_encode z) updates zlibStream_new = (Inr rects, s') \<and>
           updates_shown (=) updates (view_updates (zlib_decoder inflate) [] rects pic) pic"
  by (rule zlib.encode_updates_show) (use assms in \<open>auto simp: zsync_def zlibStream_new_def\<close>)

lemma Zlib_stream_shows_updates_witness:
  "\<exists>rects s'. encode_updates (Zlib_encode stored)
       [([(0, 0, 1, 1)], [1,2,3,4], 4), ([(0, 0, 1, 1)], [5,6,7,8], 4)] zlibStream_new = (Inr rects, s') \<and>
     updates_shown (=) [([(0, 0, 1, 1)], [1,2,3,4], 4), ([(0, 0, 1, 1)], [5,6,7,8], 4)]
       (view_updates (zlib_decoder (\<lambda>b. b)) [] rects (\<lambda>i j. [])) (\<lambda>i j. [])"
  by (rule Zlib_stream_shows_updates [OF stored_ok]) (auto simp: area_ok_def frame_has_def)

text \<open>
  A Zlib \<^verbatim>\<open>Encode\<close> that fails because a row lies outside the frame leaves the rows before it
  in the compressor: on a new encoder a two-row request on the one-row frame \<open>a\<close> fails, and the
  next, successful, one-row request on the frame \<open>b\<close> delivers \<open>a\<close> followed by \<open>b\<close> where the
  client expects \<open>b\<close> alone (for a compressor that, like Go's, produces nothing before the
  flush for a small write).
\<close>

lemma Zlib_failed_Encode_leaves_rows:
  assumes "zlib_ok z inflate" and "z [] (ZWrite a) = []" and "length a = 4" and "length b = 4"
  shows "\<exists>e s1 r s2. Zlib_Encode z 0 0 1 2 a 4 zlibStream_new = (Inl e, s1) \<and>
     Zlib_Encode z 0 0 1 1 b 4 s1 = (Inr r, s2) \<and> inflate (drop 4 (rect_Data r)) = a @ b"
proof -
  let ?s1 = "\<lparr>zs_buf = [], zs_writer = Some [ZWrite a]\<rparr>"
  have two: "[0..<2] = [0, 1 :: nat]" by (simp add: upt_rec)
  let ?out = "zout z [] ([ZWrite a, ZWrite b] @ [ZFlush])"
  have 1: "Zlib_Encode z 0 0 1 2 a 4 zlibStream_new =
      (Inl (Errorf ''zlib encode: pixel data out of bounds at row'' [1]), ?s1)"
    using assms(2,3)
    by (simp add: Zlib_Encode_def zlibStream_new_def zopen_def zclear_def zdo_def src_row_def gslice_def
        two conn_simps)
  have 2: "\<exists>s2. Zlib_Encode z 0 0 1 1 b 4 ?s1 =
      (Inr (mkRect 0 0 1 1 EncodingZlib (be32 (of_nat (length ?out)) @ ?out)), s2)"
    using assms(2,4)
    by (simp add: Zlib_Encode_def zopen_def zclear_def zdo_def src_row_def gslice_def upt_rec conn_simps)
  have "inflate ?out = zplain [ZWrite a, ZWrite b]"
    by (rule zlib_okD [OF assms(1)]) simp
  with 1 2 show ?thesis by fastforce
qed

end
