(* ===== verification/Security.thy ===== *)
theory Security
  imports Protocol
begin

text \<open>
  \<^verbatim>\<open>rfb/security/security.go\<close>: the two security types and the client side of VNC
  authentication. DES (\<^verbatim>\<open>crypto/des\<close>) is the parameter \<open>des\<close>, a function of an 8-byte key
  and an 8-byte block; the random challenge is the parameter \<open>rnd\<close>, the result of
  \<^verbatim>\<open>rand.Read\<close>.
\<close>

section \<open>Key preparation\<close>

fun reverse_loop :: "nat \<Rightarrow> u8 \<Rightarrow> u8 \<Rightarrow> u8" where
  "reverse_loop 0 result b = result"
| "reverse_loop (Suc n) result b =
     reverse_loop n (push_bit 1 result OR (b AND 1)) (drop_bit 1 b)"

definition reverseBits :: "u8 \<Rightarrow> u8" where
  "reverseBits b = reverse_loop 8 0 b"

definition cipher_Encrypt :: "(bytes \<Rightarrow> bytes \<Rightarrow> bytes) \<Rightarrow> bytes \<Rightarrow> bytes \<Rightarrow> bytes res" where
  "cipher_Encrypt des key src =
     (if length src < 8 then Inl (GoPanic ''crypto/des: input not full block'')
      else Inr (des key (take 8 src)))"

text \<open>\<^verbatim>\<open>des.NewCipher\<close> rejects keys that are not 8 bytes long.\<close>

definition vncKey :: "bytes \<Rightarrow> bytes" where
  "vncKey password = map reverseBits (copy (replicate 8 0) password)"

definition vncEncrypt :: "(bytes \<Rightarrow> bytes \<Rightarrow> bytes) \<Rightarrow> bytes \<Rightarrow> bytes \<Rightarrow> bytes res" where
  "vncEncrypt des challenge password =
     (let key = vncKey password in
      if length key \<noteq> 8 then Inl (ErrorfW ''des.NewCipher: %w'' [] (Ext ''KeySizeError''))
      else
        rbind (gslice 0 8 challenge) (\<lambda>c1.
        rbind (cipher_Encrypt des key c1) (\<lambda>r1.
        rbind (gslice 8 (length challenge) challenge) (\<lambda>c2.
        rbind (cipher_Encrypt des key c2) (\<lambda>r2.
        Inr (r1 @ r2))))))"

section \<open>Handshakes\<close>

definition None_Type :: u8 where "None_Type = 1"

definition None_Handshake :: "unit io" where
  "None_Handshake = writeB (be32 0)"

definition VNCAuth_Type :: u8 where "VNCAuth_Type = 2"

text \<open>The failure answer: SecurityResult \<open>1\<close>, then the reason.\<close>

definition VNCAuth_reject :: "unit io" where
  "VNCAuth_reject =
     (let reason = str ''authentication failed'' in
      bind_io (writeB (be32 1)) (\<lambda>_.
      bind_io (writeB (be32 (of_nat (length reason)))) (\<lambda>_.
      bind_io (writeB reason) (\<lambda>_.
      fail (ErrorfS ''vnc auth: %s'' reason)))))"

definition VNCAuth_Handshake ::
  "(bytes \<Rightarrow> bytes \<Rightarrow> bytes) \<Rightarrow> bytes res \<Rightarrow> bytes \<Rightarrow> unit io" where
  "VNCAuth_Handshake des rnd password =
     bind_io (wrap ''generate challenge: %w'' (lift_res rnd)) (\<lambda>challenge.
     bind_io (wrap ''send challenge: %w'' (writeB challenge)) (\<lambda>_.
     bind_io (wrap ''read response: %w'' (readFull 16)) (\<lambda>response.
     bind_io (wrap ''vnc auth encrypt: %w'' (lift_res (vncEncrypt des challenge password))) (\<lambda>expected.
     bind_io (lift_res (mapM (index response) [0..<length expected])) (\<lambda>got.
     if got \<noteq> expected then VNCAuth_reject
     else writeB (be32 0))))))"

definition VNCAuthClient :: "(bytes \<Rightarrow> bytes \<Rightarrow> bytes) \<Rightarrow> bytes \<Rightarrow> unit io" where
  "VNCAuthClient des password =
     bind_io (wrap ''read challenge: %w'' (readFull 16)) (\<lambda>challenge.
     bind_io (wrap ''vnc auth encrypt: %w'' (lift_res (vncEncrypt des challenge password))) (\<lambda>response.
     wrap ''send response: %w'' (writeB response)))"

section \<open>Bit reversal\<close>

lemma bit_reverse_loop:
  "i < 8 \<Longrightarrow> bit (reverse_loop n r b) i = (if i < n then bit b (n - 1 - i) else bit r (i - n))"
proof (induction n arbitrary: r b)
  case 0
  then show ?case by simp
next
  case (Suc n)
  define r' where "r' = push_bit 1 r OR (b AND 1)"
  have bits: "bit r' j = (if j = 0 then bit b 0 else j < 8 \<and> bit r (j - 1))" for j
    unfolding r'_def bit_or_iff bit_push_bit_iff bit_and_iff bit_1_iff by auto
  have "reverse_loop (Suc n) r b = reverse_loop n r' (drop_bit 1 b)"
    by (simp only: reverse_loop.simps r'_def)
  then show ?case
    using Suc.IH [OF Suc.prems, of r' "drop_bit 1 b"] Suc.prems
    by (auto simp: bits bit_drop_bit_eq Suc_diff_Suc)
qed

lemma bit_reverseBits: "i < 8 \<Longrightarrow> bit (reverseBits b) i = bit b (7 - i)"
  by (simp add: reverseBits_def bit_reverse_loop)

lemma reverseBits_reverseBits [simp]: "reverseBits (reverseBits b) = b"
  by (rule bit_word_eqI) (simp add: bit_reverseBits)

lemma length_vncKey [simp]: "length (vncKey p) = 8"
  by (simp add: vncKey_def)

lemma vncKey_prefix: "vncKey p = vncKey (take 8 p)"
  by (cases "length p \<le> 8") (simp_all add: vncKey_def copy_def)

text \<open>With a full challenge the response is one cipher block per half.\<close>

lemma vncEncrypt_full:
  assumes "length challenge = 16"
  shows "vncEncrypt des challenge p =
     Inr (des (vncKey p) (take 8 challenge) @ des (vncKey p) (drop 8 challenge))"
  using assms by (simp add: vncEncrypt_def Let_def gslice_def cipher_Encrypt_def)

section \<open>The contract of a security handler\<close>

text \<open>
  What \<^verbatim>\<open>ClientConn.handshake\<close> relies on: a handler only consumes input and appends
  output, and when it reports success the last thing it sent is the SecurityResult \<open>0\<close>
  that the client waits for.
\<close>

locale security_handler =
  fixes hs :: "unit io"
  assumes hs_io_ok: "io_ok hs"
    and hs_success: "hs c = (Inr (), c') \<Longrightarrow> \<exists>p. cout c' = cout c @ p @ be32 0"
begin

lemma success_result_last:
  "hs c = (Inr (), c') \<Longrightarrow> un32 (drop (length (cout c') - 4) (cout c')) = 0"
  using hs_success [of c c'] by (auto simp: diff_add_assoc)

lemma success_sends_at_least_result:
  "hs c = (Inr (), c') \<Longrightarrow> length (cout c) + 4 \<le> length (cout c')"
  using hs_success [of c c'] by auto

end

lemma io_ok_None_Handshake: "io_ok None_Handshake"
  by (simp add: None_Handshake_def)

interpretation none_sec: security_handler None_Handshake
  by unfold_locales (auto simp: None_Handshake_def dest: writeB_Inr)

lemma io_ok_VNCAuth_reject [intro, simp]: "io_ok VNCAuth_reject"
  unfolding VNCAuth_reject_def Let_def
  by (intro io_ok_bind io_ok_writeB io_ok_fail)

lemma VNCAuth_reject_fails [simp]: "VNCAuth_reject c \<noteq> (Inr (), c')"
  by (simp add: VNCAuth_reject_def Let_def io_Inr_iffs)

lemma io_ok_VNCAuth_Handshake: "io_ok (VNCAuth_Handshake des rnd p)"
  unfolding VNCAuth_Handshake_def
  by (intro io_ok_bind io_ok_wrap io_ok_if io_ok_lift_res io_ok_writeB io_ok_readFull io_ok_VNCAuth_reject)

lemma mapM_index_prefix:
  assumes "mapM (index xs) [0..<n] = Inr ys"
  shows "ys = take n xs \<and> n \<le> length xs"
proof -
  have nth: "i < length xs \<and> ys ! i = xs ! i" if "i < n" for i
    using mapM_nth [OF assms, of i] that by (auto simp: index_Inr_iff)
  then have "n \<le> length xs" by (meson not_less order.irrefl)
  then show ?thesis using nth mapM_length [OF assms] by (auto intro: nth_equalityI)
qed

lemma VNCAuth_Handshake_success:
  assumes "VNCAuth_Handshake des rnd p c = (Inr (), c')"
  shows "\<exists>ch resp. rnd = Inr ch \<and> vncEncrypt des ch p = Inr resp \<and>
           cout c' = cout c @ ch @ be32 0 \<and> take (length resp) (cin c) = resp"
proof -
  from assms obtain ch c1 resp c2 where ch: "rnd = Inr ch" "writeB ch c = (Inr (), c1)"
    and enc: "16 \<le> length (cin c1)" "vncEncrypt des ch p = Inr resp"
    and got: "mapM (index (take 16 (cin c1))) [0..<length resp] = Inr resp"
    and fin: "writeB (be32 0) (c1\<lparr>cin := drop 16 (cin c1)\<rparr>) = (Inr (), c')"
    by (auto simp: VNCAuth_Handshake_def io_Inr_iffs split: if_splits)
  have "take (length resp) (cin c) = resp"
    using mapM_index_prefix [OF got] writeB_Inr [OF ch(2)] by (simp add: min_def split: if_splits)
  then show ?thesis using ch enc writeB_Inr [OF ch(2)] writeB_Inr [OF fin] by auto
qed

interpretation vnc_sec: security_handler "VNCAuth_Handshake des rnd p" for des rnd p
  by unfold_locales (auto intro: io_ok_VNCAuth_Handshake dest: VNCAuth_Handshake_success)

section \<open>Authentication\<close>

lemma mapM_index_all: "mapM (index xs) [0..<length xs] = Inr xs"
  by (subst mapM_total [where g = "(!) xs"]) (auto simp: index_def map_nth)

lemma VNCAuth_Handshake_live:
  assumes "length resp = 16" and enc: "vncEncrypt des ch p = Inr expected" and "length expected = 16"
  shows "VNCAuth_Handshake des (Inr ch) p (live (resp @ r) out) =
     (if resp = expected then (Inr (), live r (out @ ch @ be32 0))
      else (Inl (ErrorfS ''vnc auth: %s'' (str ''authentication failed'')),
            live r (out @ ch @ be32 1 @ be32 21 @ str ''authentication failed'')))"
proof -
  have "mapM (index resp) [0..<16] = Inr resp" using mapM_index_all [of resp] assms(1) by simp
  then show ?thesis
    using assms by (simp add: VNCAuth_Handshake_def VNCAuth_reject_def Let_def conn_simps str_def)
qed

text \<open>
  C19: The server's VNC authentication accepts a 16-byte response exactly when it is the
  encryption of the challenge it sent under the key made from its password; otherwise it
  answers SecurityResult 1 with the reason and reports an error.
\<close>

theorem VNCAuth_accepts_iff:
  assumes "\<And>k b. length (des k b) = 8" and "length ch = 16" and "length resp = 16"
  shows "VNCAuth_Handshake des (Inr ch) p (live (resp @ r) out) =
     (if resp = des (vncKey p) (take 8 ch) @ des (vncKey p) (drop 8 ch)
      then (Inr (), live r (out @ ch @ be32 0))
      else (Inl (ErrorfS ''vnc auth: %s'' (str ''authentication failed'')),
            live r (out @ ch @ be32 1 @ be32 21 @ str ''authentication failed'')))"
  using VNCAuth_Handshake_live [OF assms(3) vncEncrypt_full [OF assms(2)]] assms(1) by simp

text \<open>A block function that satisfies the hypothesis on \<open>des\<close>.\<close>

definition xor_block :: "bytes \<Rightarrow> bytes \<Rightarrow> bytes" where
  "xor_block k b =
     map2 (XOR) (take 8 (k @ replicate 8 0)) (take 8 (b @ replicate 8 0))"

lemma length_xor_block [simp]: "length (xor_block k b) = 8"
  by (simp add: xor_block_def)

theorem VNCAuth_accepts_iff_witness:
  "VNCAuth_Handshake xor_block (Inr (replicate 16 7)) [104, 105] (live (replicate 16 0 @ [9]) []) =
     (Inl (ErrorfS ''vnc auth: %s'' (str ''authentication failed'')),
      live [9] (replicate 16 7 @ be32 1 @ be32 21 @ str ''authentication failed''))"
proof -
  have "hd (xor_block (vncKey [104, 105]) (take 8 (replicate 16 7))) \<noteq> 0" by code_simp
  then have "replicate 16 0 \<noteq> xor_block (vncKey [104, 105]) (take 8 (replicate 16 7))
      @ xor_block (vncKey [104, 105]) (drop 8 (replicate 16 7))"
    by (metis append_Cons hd_append2 length_xor_block list.sel(1) list.size(3) numeral_eq_Suc
        replicate_Suc zero_neq_numeral)
  then show ?thesis
    using VNCAuth_accepts_iff [of xor_block "replicate 16 7" "replicate 16 0" "[104, 105]" "[9]" "[]"]
    by simp
qed

text \<open>
  Both sides of VNC authentication agree. A client whose password has the same first
  eight bytes as the server's answers the server's challenge with 16 bytes that the server
  accepts, whatever block cipher is used and whatever follows on the connection.
\<close>

theorem VNCAuth_roundtrip:
  assumes "\<And>k b. length (des k b) = 8" and "length ch = 16" and "take 8 p = take 8 q"
  shows "\<exists>resp. length resp = 16 \<and>
           VNCAuthClient des q (live (ch @ r) out1) = (Inr (), live r (out1 @ resp)) \<and>
           VNCAuth_Handshake des (Inr ch) p (live (resp @ s) out2)
             = (Inr (), live s (out2 @ ch @ be32 0))"
proof -
  let ?resp = "des (vncKey q) (take 8 ch) @ des (vncKey q) (drop 8 ch)"
  have key: "vncKey p = vncKey q" using assms(3) vncKey_prefix by metis
  have "VNCAuthClient des q (live (ch @ r) out1) = (Inr (), live r (out1 @ ?resp))"
    using assms(2) by (simp add: VNCAuthClient_def vncEncrypt_full conn_simps)
  moreover have "VNCAuth_Handshake des (Inr ch) p (live (?resp @ s) out2)
      = (Inr (), live s (out2 @ ch @ be32 0))"
    using VNCAuth_Handshake_live [OF _ vncEncrypt_full [OF assms(2), of des p], of ?resp s out2]
      assms(1) key by simp
  ultimately show ?thesis using assms(1) by (intro exI [of _ ?resp]) simp
qed

theorem VNCAuth_roundtrip_witness:
  "\<exists>resp. length resp = 16 \<and>
     VNCAuthClient xor_block (str ''password123'') (live (replicate 16 7 @ [1]) [])
       = (Inr (), live [1] ([] @ resp)) \<and>
     VNCAuth_Handshake xor_block (Inr (replicate 16 7)) (str ''password'') (live (resp @ [2]) [])
       = (Inr (), live [2] ([] @ replicate 16 7 @ be32 0))"
  by (rule VNCAuth_roundtrip) (simp_all add: str_def)

end
