(* ===== verification/Client.thy ===== *)
theory Client
  imports Security Geometry
begin

text \<open>
  \<^verbatim>\<open>rfb/client.go\<close>: the VNC client. Its state is the connection and the server properties
  learned during the handshake. The libraries it calls are parameters: DES, the JPEG
  decoder (width, height and the 16-bit colour channels of a pixel), and
  \<^verbatim>\<open>zlib.NewReader\<close> followed by \<^verbatim>\<open>io.ReadAll\<close> on one complete buffer (the outer result is
  that of \<^verbatim>\<open>NewReader\<close>, the inner one that of \<^verbatim>\<open>ReadAll\<close>).
\<close>

record ClientConfig =
  cfg_Password :: bytes
  cfg_Shared :: bool
  cfg_Encodings :: "i32 list"

record Client =
  cl_conn :: conn
  cl_config :: ClientConfig
  cl_Width :: u16
  cl_Height :: u16
  cl_PixelFormat :: PixelFormat
  cl_Name :: bytes

record client_libs =
  lib_des :: "bytes \<Rightarrow> bytes \<Rightarrow> bytes"
  lib_jpeg :: "bytes \<Rightarrow> (nat \<times> nat \<times> (nat \<Rightarrow> nat \<Rightarrow> u32 \<times> u32 \<times> u32)) res"
  lib_zlib :: "bytes \<Rightarrow> bytes res res"

type_synonym 'a client = "(Client, 'a) prog"

definition on_conn :: "'a io \<Rightarrow> 'a client" where
  "on_conn m c = (case m (cl_conn c) of (r, d) \<Rightarrow> (r, c\<lparr>cl_conn := d\<rparr>))"

lemma on_conn_simp [conn_simps]:
  "m (cl_conn c) = (r, d) \<Longrightarrow> on_conn m c = (r, c\<lparr>cl_conn := d\<rparr>)"
  by (simp add: on_conn_def)

section \<open>Handshake\<close>

definition zeroPixelFormat :: PixelFormat where
  "zeroPixelFormat =
     \<lparr>BitsPerPixel = 0, Depth = 0, BigEndian = 0, TrueColour = 0, RedMax = 0, GreenMax = 0,
      BlueMax = 0, RedShift = 0, GreenShift = 0, BlueShift = 0\<rparr>"

definition newClient :: "conn \<Rightarrow> ClientConfig \<Rightarrow> Client" where
  "newClient conn config =
     \<lparr>cl_conn = conn, cl_config = config, cl_Width = 0, cl_Height = 0,
      cl_PixelFormat = zeroPixelFormat, cl_Name = []\<rparr>"

definition chooseSecurityType :: "bytes \<Rightarrow> u8 list \<Rightarrow> u8 res" where
  "chooseSecurityType password available =
     (if password \<noteq> [] \<and> SecurityVNCAuth \<in> set available then Inr SecurityVNCAuth
      else if SecurityNone \<in> set available then Inr SecurityNone
      else index available 0)"

fun clientReverse_loop :: "nat \<Rightarrow> u8 \<Rightarrow> u8 \<Rightarrow> u8" where
  "clientReverse_loop 0 result b = result"
| "clientReverse_loop (Suc i) result b =
     clientReverse_loop i (push_bit 1 result OR (b AND 1)) (drop_bit 1 b)"

definition clientReverseBits :: "u8 \<Rightarrow> u8" where
  "clientReverseBits b = clientReverse_loop 8 0 b"

definition performVNCAuth :: "(bytes \<Rightarrow> bytes \<Rightarrow> bytes) \<Rightarrow> unit client" where
  "performVNCAuth des =
     bind_io (wrap ''read vnc auth challenge: %w'' (on_conn (readFull 16))) (\<lambda>challenge.
     bind_io get_state (\<lambda>c.
     let key = map clientReverseBits (copy (replicate 8 0) (cfg_Password (cl_config c))) in
     if length key \<noteq> 8 then fail (ErrorfW ''create des cipher: %w'' [] (Ext ''KeySizeError''))
     else
       bind_io (lift_res (
         rbind (gslice 0 8 challenge) (\<lambda>c1.
         rbind (cipher_Encrypt des key c1) (\<lambda>r1.
         rbind (gslice 8 (length challenge) challenge) (\<lambda>c2.
         rbind (cipher_Encrypt des key c2) (\<lambda>r2. Inr (r1 @ r2))))))) (\<lambda>response.
       bind_io (wrap ''write vnc auth response: %w'' (on_conn (writeB response))) (\<lambda>_.
       on_conn flush))))"

text \<open>\<^verbatim>\<open>sendSetEncodings\<close> and the other client-to-server messages.\<close>

fun writeEncodings :: "i32 list \<Rightarrow> unit io" where
  "writeEncodings [] = ret ()"
| "writeEncodings (e # es) = bind_io (writeB (be32 e)) (\<lambda>_. writeEncodings es)"

definition sendSetEncodings :: "i32 list \<Rightarrow> unit io" where
  "sendSetEncodings encodings =
     bind_io (writeB [MsgSetEncodings]) (\<lambda>_.
     bind_io (writeB [0]) (\<lambda>_.
     bind_io (writeB (be16 (of_nat (length encodings)))) (\<lambda>_.
     bind_io (writeEncodings encodings) (\<lambda>_.
     flush))))"

definition RequestFramebufferUpdate :: "bool \<Rightarrow> u16 \<Rightarrow> u16 \<Rightarrow> u16 \<Rightarrow> u16 \<Rightarrow> unit io" where
  "RequestFramebufferUpdate incremental x y width height =
     (let inc = (if incremental then 1 else 0) in
      bind_io (writeB [MsgFramebufferUpdateRequest]) (\<lambda>_.
      bind_io (writeB [inc]) (\<lambda>_.
      bind_io (writeB (be16 x)) (\<lambda>_.
      bind_io (writeB (be16 y)) (\<lambda>_.
      bind_io (writeB (be16 width)) (\<lambda>_.
      bind_io (writeB (be16 height)) (\<lambda>_.
      flush)))))))"

definition SendKeyEvent :: "bool \<Rightarrow> u32 \<Rightarrow> unit io" where
  "SendKeyEvent down key =
     (let downFlag = (if down then 1 else 0) in
      bind_io (writeB [MsgKeyEvent]) (\<lambda>_.
      bind_io (writeB [downFlag]) (\<lambda>_.
      bind_io (writeB [0, 0]) (\<lambda>_.
      bind_io (writeB (be32 key)) (\<lambda>_.
      flush)))))"

definition SendPointerEvent :: "u8 \<Rightarrow> u16 \<Rightarrow> u16 \<Rightarrow> unit io" where
  "SendPointerEvent buttonMask x y =
     bind_io (writeB [MsgPointerEvent]) (\<lambda>_.
     bind_io (writeB [buttonMask]) (\<lambda>_.
     bind_io (writeB (be16 x)) (\<lambda>_.
     bind_io (writeB (be16 y)) (\<lambda>_.
     flush))))"

text \<open>The first part of the handshake: versions and the choice of a security type.\<close>

definition handshake_security_type :: "u8 client" where
  "handshake_security_type =
     bind_io (wrap ''read server version: %w'' (on_conn (readFull 12))) (\<lambda>serverVersion.
     bind_io (wrap ''write version: %w'' (on_conn (writeB VersionString3_8))) (\<lambda>_.
     bind_io (on_conn flush) (\<lambda>_.
     bind_io (wrap ''read security type count: %w'' (on_conn read_u8)) (\<lambda>numTypes.
     if numTypes = 0 then
       bind_io (wrap ''read failure reason length: %w'' (on_conn read_u32)) (\<lambda>reasonLen.
       bind_io (wrap ''read failure reason: %w'' (on_conn (readFull (unat reasonLen)))) (\<lambda>reason.
       fail (ErrorfS ''server refused connection: %s'' reason)))
     else
       bind_io (replicate_io (unat numTypes) (wrap ''read security type: %w'' (on_conn read_u8))) (\<lambda>secTypes.
       bind_io get_state (\<lambda>c.
       bind_io (lift_res (chooseSecurityType (cfg_Password (cl_config c)) secTypes)) (\<lambda>chosenType.
       bind_io (wrap ''write security choice: %w'' (on_conn (writeB [chosenType]))) (\<lambda>_.
       bind_io (on_conn flush) (\<lambda>_.
       ret chosenType)))))))))"

text \<open>The security handshake and the SecurityResult.\<close>

definition handshake_authenticate :: "(bytes \<Rightarrow> bytes \<Rightarrow> bytes) \<Rightarrow> u8 \<Rightarrow> unit client" where
  "handshake_authenticate des chosenType =
     bind_io (if chosenType = SecurityNone then ret ()
              else if chosenType = SecurityVNCAuth then performVNCAuth des
              else fail (Errorf ''unsupported security type: %d'' [uint chosenType])) (\<lambda>_.
     bind_io (wrap ''read security result: %w'' (on_conn read_u32)) (\<lambda>secResult.
     if secResult \<noteq> 0 then
       bind_io (replace_err (Errorf ''authentication failed (could not read reason)'' [])
                  (on_conn read_u32)) (\<lambda>reasonLen.
       bind_io (replace_err (Errorf ''authentication failed (could not read reason text)'' [])
                  (on_conn (readFull (unat reasonLen)))) (\<lambda>reason.
       fail (ErrorfS ''authentication failed: %s'' reason)))
     else ret ()))"

text \<open>ClientInit, ServerInit and the first SetEncodings.\<close>

definition handshake_init :: "unit client" where
  "handshake_init =
     bind_io get_state (\<lambda>c.
     let sharedFlag = (if cfg_Shared (cl_config c) then 1 else 0) in
     bind_io (wrap ''write client init: %w'' (on_conn (writeB [sharedFlag]))) (\<lambda>_.
     bind_io (on_conn flush) (\<lambda>_.
     bind_io (wrap ''read width: %w'' (on_conn read_u16)) (\<lambda>w.
     bind_io (modify (\<lambda>c. c\<lparr>cl_Width := w\<rparr>)) (\<lambda>_.
     bind_io (wrap ''read height: %w'' (on_conn read_u16)) (\<lambda>h.
     bind_io (modify (\<lambda>c. c\<lparr>cl_Height := h\<rparr>)) (\<lambda>_.
     bind_io (wrap ''read pixel format: %w'' (on_conn (readFull 16))) (\<lambda>pf.
     bind_io (modify (\<lambda>c. c\<lparr>cl_PixelFormat := dec_PixelFormat pf\<rparr>)) (\<lambda>_.
     bind_io (wrap ''read name length: %w'' (on_conn read_u32)) (\<lambda>nameLen.
     if nameLen > 1024 then fail (Errorf ''server name too long: %d'' [uint nameLen])
     else
       bind_io (wrap ''read name: %w'' (on_conn (readFull (unat nameLen)))) (\<lambda>nameBytes.
       bind_io (modify (\<lambda>c. c\<lparr>cl_Name := nameBytes\<rparr>)) (\<lambda>_.
       on_conn (sendSetEncodings
         (if cfg_Encodings (cl_config c) = [] then [EncodingRaw] else cfg_Encodings (cl_config c)))))))))))))))"

definition Client_handshake :: "(bytes \<Rightarrow> bytes \<Rightarrow> bytes) \<Rightarrow> unit client" where
  "Client_handshake des =
     bind_io handshake_security_type (\<lambda>chosenType.
     bind_io (handshake_authenticate des chosenType) (\<lambda>_.
     handshake_init))"

text \<open>
  \<^verbatim>\<open>Connect\<close> after a successful dial: the client is returned only when the handshake
  succeeds.
\<close>

definition Connect :: "(bytes \<Rightarrow> bytes \<Rightarrow> bytes) \<Rightarrow> conn \<Rightarrow> ClientConfig \<Rightarrow> Client res \<times> conn" where
  "Connect des conn config =
     (case Client_handshake des (newClient conn config) of
        (Inl e, c) \<Rightarrow> (Inl e, cl_conn c)
      | (Inr _, c) \<Rightarrow> (Inr c, cl_conn c))"

section \<open>Tight tiles\<close>

definition readCompactLen :: "nat io" where
  "readCompactLen =
     bind_io (readFull 1) (\<lambda>b.
     let n = unat (hd b) AND 0x7F in
     if hd b AND 0x80 = 0 then ret n
     else
       bind_io (readFull 1) (\<lambda>b.
       let n = n OR push_bit 7 (unat (hd b) AND 0x7F) in
       if hd b AND 0x80 = 0 then ret n
       else
         bind_io (readFull 1) (\<lambda>b.
         ret (n OR push_bit 14 (unat (hd b))))))"

text \<open>RGB triples to BGRA pixels.\<close>

definition bgra :: "u8 \<Rightarrow> u8 \<Rightarrow> u8 \<Rightarrow> bytes" where
  "bgra r g b = [b, g, r, 255]"

definition rgb_to_bgra :: "bytes \<Rightarrow> bytes" where
  "rgb_to_bgra rgb =
     concat (map (\<lambda>i. bgra (rgb ! (i * 3)) (rgb ! (i * 3 + 1)) (rgb ! (i * 3 + 2)))
       [0..<length rgb div 3])"

definition jpeg_to_bgra :: "nat \<times> nat \<times> (nat \<Rightarrow> nat \<Rightarrow> u32 \<times> u32 \<times> u32) \<Rightarrow> bytes" where
  "jpeg_to_bgra img =
     (case img of (dx, dy, at) \<Rightarrow>
        concat (map (\<lambda>y. concat (map (\<lambda>x.
          case at x y of (r, g, b) \<Rightarrow>
            bgra (ucast (drop_bit 8 r)) (ucast (drop_bit 8 g)) (ucast (drop_bit 8 b)))
          [0..<dx])) [0..<dy]))"

definition readTightTile :: "client_libs \<Rightarrow> nat \<Rightarrow> nat \<Rightarrow> bytes io" where
  "readTightTile L tileW tileH =
     bind_io (wrap ''read tight control byte: %w'' read_u8) (\<lambda>controlByte.
     let subEncoding = controlByte AND 0x0F in
     if subEncoding = 0x08 then
       bind_io (wrap ''read tight fill color: %w'' (readFull 3)) (\<lambda>rgb.
       ret (concat (replicate (tileW * tileH) (bgra (rgb ! 0) (rgb ! 1) (rgb ! 2)))))
     else if subEncoding = 0x09 then
       bind_io (wrap ''read tight jpeg length: %w'' readCompactLen) (\<lambda>len.
       bind_io (wrap ''read tight jpeg data: %w'' (readFull len)) (\<lambda>jpegData.
       bind_io (wrap ''decode tight jpeg: %w'' (lift_res (lib_jpeg L jpegData))) (\<lambda>img.
       ret (jpeg_to_bgra img))))
     else
       bind_io (wrap ''read tight basic length: %w'' readCompactLen) (\<lambda>len.
       bind_io (wrap ''read tight basic data: %w'' (readFull len)) (\<lambda>compressed.
       bind_io (wrap ''zlib reader: %w'' (lift_res (lib_zlib L compressed))) (\<lambda>reader.
       bind_io (wrap ''decompress tight basic: %w'' (lift_res reader)) (\<lambda>rgb.
       ret (rgb_to_bgra rgb))))))"

text \<open>\<^verbatim>\<open>copy(result[dstOff:dstOff+tileW*4], tileData[srcOff:srcOff+tileW*4])\<close> for every row.\<close>

definition blit_tile :: "nat \<Rightarrow> nat \<Rightarrow> nat \<Rightarrow> nat \<Rightarrow> nat \<Rightarrow> bytes \<Rightarrow> bytes \<Rightarrow> bytes res" where
  "blit_tile width tileX tileY tileW tileH tileData result =
     foldM (\<lambda>row result.
       let dstOff = ((tileY + row) * width + tileX) * 4; srcOff = row * tileW * 4 in
       rbind (gslice srcOff (srcOff + tileW * 4) tileData) (\<lambda>src.
       copy_at dstOff (dstOff + tileW * 4) result src))
       [0..<tileH] result"

fun readTightTiles :: "client_libs \<Rightarrow> nat \<Rightarrow> (nat \<times> nat \<times> nat \<times> nat) list \<Rightarrow> bytes \<Rightarrow> bytes io" where
  "readTightTiles L width [] result = ret result"
| "readTightTiles L width ((tileX, tileY, tileW, tileH) # ts) result =
     bind_io (wrapD ''tight tile (%d,%d): %w'' [int tileX, int tileY] (readTightTile L tileW tileH)) (\<lambda>tileData.
     bind_io (lift_res (blit_tile width tileX tileY tileW tileH tileData result)) (\<lambda>result'.
     readTightTiles L width ts result'))"

definition readTightRect :: "client_libs \<Rightarrow> nat \<Rightarrow> nat \<Rightarrow> bytes io" where
  "readTightRect L width height =
     readTightTiles L width (rect_tiles 64 width height) (replicate (width * height * 4) 0)"

section \<open>Server messages\<close>

record ReceivedRect =
  rr_X :: u16
  rr_Y :: u16
  rr_Width :: u16
  rr_Height :: u16
  rr_Encoding :: i32
  rr_Data :: bytes

datatype server_msg = FramebufferUpdate "ReceivedRect list" | Bell | CutText bytes

text \<open>The data of one rectangle; a DesktopSize rectangle also updates the client.\<close>

definition readRectData :: "client_libs \<Rightarrow> u16 \<Rightarrow> u16 \<Rightarrow> i32 \<Rightarrow> bytes client" where
  "readRectData L w h enc =
     (if enc = EncodingRaw then
        wrap ''read raw rect data: %w'' (on_conn (readFull (unat w * unat h * 4)))
      else if enc = EncodingCopyRect then
        wrap ''read copyrect data: %w'' (on_conn (readFull 4))
      else if enc = EncodingZlib then
        bind_io (wrap ''read zlib length: %w'' (on_conn read_u32)) (\<lambda>compressedLen.
        wrap ''read zlib data: %w'' (on_conn (readFull (unat compressedLen))))
      else if enc = EncodingTight then
        wrap ''read tight rect: %w'' (on_conn (readTightRect L (unat w) (unat h)))
      else if enc = EncodingCursor then
        bind_io get_state (\<lambda>c.
        let bpp = unat (BitsPerPixel (cl_PixelFormat c)) div 8;
            pixelDataLen = unat w * unat h * bpp;
            maskLen = ((unat w + 7) div 8) * unat h in
        wrap ''read cursor data: %w'' (on_conn (readFull (pixelDataLen + maskLen))))
      else if enc = EncodingDesktopSize then
        bind_io (modify (\<lambda>c. c\<lparr>cl_Width := w, cl_Height := h\<rparr>)) (\<lambda>_. ret [])
      else fail (Errorf ''unsupported encoding: %d'' [sint enc]))"

definition readRect :: "client_libs \<Rightarrow> ReceivedRect client" where
  "readRect L =
     bind_io (on_conn read_u16) (\<lambda>x.
     bind_io (on_conn read_u16) (\<lambda>y.
     bind_io (on_conn read_u16) (\<lambda>w.
     bind_io (on_conn read_u16) (\<lambda>h.
     bind_io (on_conn read_u32) (\<lambda>enc.
     bind_io (readRectData L w h enc) (\<lambda>data.
     ret \<lparr>rr_X = x, rr_Y = y, rr_Width = w, rr_Height = h, rr_Encoding = enc, rr_Data = data\<rparr>))))))"

definition readFramebufferUpdate :: "client_libs \<Rightarrow> ReceivedRect list client" where
  "readFramebufferUpdate L =
     bind_io (on_conn read_u8) (\<lambda>padding.
     bind_io (on_conn read_u16) (\<lambda>numRects.
     replicate_io (unat numRects) (readRect L)))"

definition readServerCutText :: "bytes io" where
  "readServerCutText =
     bind_io (readFull 3) (\<lambda>padding.
     bind_io read_u32 (\<lambda>len.
     if len > 10 * 1024 * 1024 then fail (Errorf ''server cut text too large: %d'' [uint len])
     else readFull (unat len)))"

definition ReadMessage :: "client_libs \<Rightarrow> (u8 \<times> server_msg) client" where
  "ReadMessage L =
     bind_io (wrap ''read message type: %w'' (on_conn read_u8)) (\<lambda>msgType.
     if msgType = MsgFramebufferUpdate then
       bind_io (readFramebufferUpdate L) (\<lambda>rs. ret (msgType, FramebufferUpdate rs))
     else if msgType = MsgBell then ret (msgType, Bell)
     else if msgType = MsgServerCutText then
       bind_io (on_conn readServerCutText) (\<lambda>t. ret (msgType, CutText t))
     else if msgType = MsgSetColourMapEntry then
       fail (Errorf ''SetColourMapEntry not implemented'' [])
     else fail (Errorf ''unknown server message type: %d'' [uint msgType]))"

section \<open>Every message written is read back\<close>

lemma emits_app: "emits m p \<Longrightarrow> p = q \<Longrightarrow> emits m q"
  by simp

lemma emits_writeEncodings: "emits (writeEncodings es) (concat (map be32 es))"
  by (induction es) (auto intro: emits_ret emits_bind emits_writeB)

lemma readEncodings_live:
  "readEncodings i (length es) (live (concat (map be32 es) @ r) out) = (Inr es, live r out)"
  by (induction es arbitrary: i) (simp_all add: conn_simps)

lemmas send_defs = sendSetEncodings_def RequestFramebufferUpdate_def SendKeyEvent_def
  SendPointerEvent_def WriteServerCutText_def Let_def

lemmas emits_intros = emits_bind emits_writeB emits_flush emits_writeEncodings

definition body_SetEncodings :: "i32 list \<Rightarrow> bytes" where
  "body_SetEncodings es = 0 # be16 (of_nat (length es)) @ concat (map be32 es)"

definition body_FramebufferUpdateRequest :: "FramebufferUpdateRequest \<Rightarrow> bytes" where
  "body_FramebufferUpdateRequest q =
     [if req_Incremental q \<noteq> 0 then 1 else 0] @ be16 (req_X q) @ be16 (req_Y q)
     @ be16 (req_Width q) @ be16 (req_Height q)"

definition body_KeyEvent :: "KeyEvent \<Rightarrow> bytes" where
  "body_KeyEvent e = [if key_DownFlag e \<noteq> 0 then 1 else 0, 0, 0] @ be32 (key_Key e)"

definition body_PointerEvent :: "PointerEvent \<Rightarrow> bytes" where
  "body_PointerEvent e = [ptr_ButtonMask e] @ be16 (ptr_X e) @ be16 (ptr_Y e)"

definition body_CutText :: "bytes \<Rightarrow> bytes" where
  "body_CutText t = [0, 0, 0] @ be32 (of_nat (length t)) @ t"

interpretation set_encodings: message_codec MsgSetEncodings body_SetEncodings sendSetEncodings
  ReadSetEncodings "\<lambda>es. length es < 65536"
proof
  fix es
  show "emits (sendSetEncodings es) (MsgSetEncodings # body_SetEncodings es)"
    unfolding send_defs body_SetEncodings_def
    by (rule emits_app, (rule emits_intros)+) simp
next
  fix es :: "i32 list" and r out
  assume "length es < 65536"
  then show "ReadSetEncodings (live (body_SetEncodings es @ r) out) = (Inr es, live r out)"
    by (simp add: ReadSetEncodings_def body_SetEncodings_def conn_simps readEncodings_live)
qed

lemma readFull_Cons [conn_simps]:
  "0 < n \<Longrightarrow> readFull n \<lparr>cin = x # ys, cout = out, climit = l, cbroken = k\<rparr> =
     (case readFull (n - 1) \<lparr>cin = ys, cout = out, climit = l, cbroken = k\<rparr> of
        (Inl e, c) \<Rightarrow> (Inl UnexpectedEOF, c) | (Inr b, c) \<Rightarrow> (Inr (x # b), c))"
  by (cases n) (auto simp: readFull_def)

interpretation fbu_request: message_codec MsgFramebufferUpdateRequest body_FramebufferUpdateRequest
  "\<lambda>q. RequestFramebufferUpdate (req_Incremental q \<noteq> 0) (req_X q) (req_Y q) (req_Width q) (req_Height q)"
  ReadFramebufferUpdateRequest "\<lambda>q. req_Incremental q \<in> {0, 1}"
proof
  fix q
  show "emits (RequestFramebufferUpdate (req_Incremental q \<noteq> 0) (req_X q) (req_Y q) (req_Width q) (req_Height q))
      (MsgFramebufferUpdateRequest # body_FramebufferUpdateRequest q)"
    unfolding send_defs body_FramebufferUpdateRequest_def
    by (rule emits_app, (rule emits_intros)+) simp
next
  fix q :: FramebufferUpdateRequest and r out
  assume v: "req_Incremental q \<in> {0, 1}"
  let ?b = "body_FramebufferUpdateRequest q"
  have "length ?b = 9" by (simp add: body_FramebufferUpdateRequest_def)
  then have "ReadFramebufferUpdateRequest (live (?b @ r) out) =
      (Inr \<lparr>req_Incremental = ?b ! 0, req_X = un16 (drop 1 ?b), req_Y = un16 (drop 3 ?b),
            req_Width = un16 (drop 5 ?b), req_Height = un16 (drop 7 ?b)\<rparr>, live r out)"
    by (simp add: ReadFramebufferUpdateRequest_def conn_simps)
  also have "\<dots> = (Inr q, live r out)"
    using v by (cases q) (auto simp: body_FramebufferUpdateRequest_def)
  finally show "ReadFramebufferUpdateRequest (live (?b @ r) out) = (Inr q, live r out)" .
qed

interpretation key_event: message_codec MsgKeyEvent body_KeyEvent
  "\<lambda>e. SendKeyEvent (key_DownFlag e \<noteq> 0) (key_Key e)" ReadKeyEvent "\<lambda>e. key_DownFlag e \<in> {0, 1}"
proof
  fix e
  show "emits (SendKeyEvent (key_DownFlag e \<noteq> 0) (key_Key e)) (MsgKeyEvent # body_KeyEvent e)"
    unfolding send_defs body_KeyEvent_def
    by (rule emits_app, (rule emits_intros)+) simp
next
  fix e :: KeyEvent and r out
  assume v: "key_DownFlag e \<in> {0, 1}"
  let ?b = "body_KeyEvent e"
  have "length ?b = 7" by (simp add: body_KeyEvent_def)
  then have "ReadKeyEvent (live (?b @ r) out) =
      (Inr \<lparr>key_DownFlag = ?b ! 0, key_Key = un32 (drop 3 ?b)\<rparr>, live r out)"
    by (simp add: ReadKeyEvent_def conn_simps)
  also have "\<dots> = (Inr e, live r out)"
    using v by (cases e) (auto simp: body_KeyEvent_def)
  finally show "ReadKeyEvent (live (?b @ r) out) = (Inr e, live r out)" .
qed

interpretation pointer_event: message_codec MsgPointerEvent body_PointerEvent
  "\<lambda>e. SendPointerEvent (ptr_ButtonMask e) (ptr_X e) (ptr_Y e)" ReadPointerEvent "\<lambda>_. True"
proof
  fix e
  show "emits (SendPointerEvent (ptr_ButtonMask e) (ptr_X e) (ptr_Y e)) (MsgPointerEvent # body_PointerEvent e)"
    unfolding send_defs body_PointerEvent_def
    by (rule emits_app, (rule emits_intros)+) simp
next
  fix e :: PointerEvent and r out
  let ?b = "body_PointerEvent e"
  have "length ?b = 5" by (simp add: body_PointerEvent_def)
  then have "ReadPointerEvent (live (?b @ r) out) =
      (Inr \<lparr>ptr_ButtonMask = ?b ! 0, ptr_X = un16 (drop 1 ?b), ptr_Y = un16 (drop 3 ?b)\<rparr>, live r out)"
    by (simp add: ReadPointerEvent_def conn_simps)
  also have "\<dots> = (Inr e, live r out)"
    by (cases e) (auto simp: body_PointerEvent_def)
  finally show "ReadPointerEvent (live (?b @ r) out) = (Inr e, live r out)" .
qed

lemma cut_text_length_ok:
  assumes "length (t :: bytes) \<le> 10485760"
  shows "unat (of_nat (length t) :: u32) = length t" and "\<not> (10485760 :: u32) < of_nat (length t)"
  using assms by (simp_all add: word_less_nat_alt)

interpretation server_cut_text: message_codec MsgServerCutText body_CutText WriteServerCutText
  readServerCutText "\<lambda>t. length t \<le> 10485760"
proof
  fix t
  show "emits (WriteServerCutText t) (MsgServerCutText # body_CutText t)"
    unfolding send_defs body_CutText_def
    by (rule emits_app, (rule emits_intros)+) simp
next
  fix t r out :: bytes
  assume v: "length t \<le> 10485760"
  have "readFull 3 (live (body_CutText t @ r) out)
      = (Inr [0, 0, 0], live (be32 (of_nat (length t)) @ t @ r) out)"
    using readFull_append [of "[0, 0, 0]" 3] by (simp add: body_CutText_def)
  then show "readServerCutText (live (body_CutText t @ r) out) = (Inr t, live r out)"
    using cut_text_length_ok [OF v] by (simp add: readServerCutText_def conn_simps)
qed

interpretation client_cut_text_reader: message_codec MsgClientCutText body_CutText
  "\<lambda>t. writeB (MsgClientCutText # body_CutText t)" ReadClientCutText "\<lambda>t. length t \<le> 10485760"
proof
  fix t
  show "emits (writeB (MsgClientCutText # body_CutText t)) (MsgClientCutText # body_CutText t)"
    by (rule emits_writeB)
next
  fix t r out :: bytes
  assume v: "length t \<le> 10485760"
  have "readFull 3 (live (body_CutText t @ r) out)
      = (Inr [0, 0, 0], live (be32 (of_nat (length t)) @ t @ r) out)"
    using readFull_append [of "[0, 0, 0]" 3] by (simp add: body_CutText_def)
  then show "ReadClientCutText (live (body_CutText t @ r) out) = (Inr t, live r out)"
    using cut_text_length_ok [OF v] by (simp add: ReadClientCutText_def conn_simps)
qed

end
