(* ===== verification/Tight.thy ===== *)
theory Tight
  imports Complex_Main Encodings Client
begin

text \<open>
  \<^verbatim>\<open>rfb/encodings/tight.go\<close>: the Tight encoder. A region is cut into tiles of 64 by 64; a tile
  is sent as one colour, as JPEG, or as zlib-compressed RGB on one of four persistent streams.
  \<^verbatim>\<open>jpeg.Encode\<close> is the parameter \<open>jpeg\<close> (quality, width, height, RGB triples row by row).
\<close>

definition tileSize :: nat where "tileSize = 64"

record Tight =
  t_streams :: "zlibStream list"
  t_jpegQuality :: int

definition NewTight :: "int \<Rightarrow> Tight" where
  "NewTight jpegQuality =
     (let q = if jpegQuality \<le> 0 then 75 else jpegQuality;
          q = if q > 100 then 100 else q
      in \<lparr>t_streams = replicate 4 zlibStream_new, t_jpegQuality = q\<rparr>)"

definition Tight_Type :: i32 where "Tight_Type = EncodingTight"

section \<open>Lengths\<close>

definition byte :: "nat \<Rightarrow> u8" where "byte n = of_nat n"

definition compactLen :: "nat \<Rightarrow> bytes" where
  "compactLen n =
     (if n < 128 then [byte n]
      else if n < 16384 then [byte (n AND 0x7F) OR 0x80, byte (drop_bit 7 n)]
      else [byte (n AND 0x7F) OR 0x80, byte (drop_bit 7 n AND 0x7F) OR 0x80, byte (drop_bit 14 n)])"

section \<open>Looking at a tile\<close>

fun solid_loop :: "bytes \<Rightarrow> u8 \<Rightarrow> u8 \<Rightarrow> u8 \<Rightarrow> nat list \<Rightarrow> bool res" where
  "solid_loop pixels b0 g0 r0 [] = Inr True"
| "solid_loop pixels b0 g0 r0 (i # is) =
     rbind (index pixels (i * 4)) (\<lambda>b. if b \<noteq> b0 then Inr False else
     rbind (index pixels (i * 4 + 1)) (\<lambda>g. if g \<noteq> g0 then Inr False else
     rbind (index pixels (i * 4 + 2)) (\<lambda>r. if r \<noteq> r0 then Inr False else
     solid_loop pixels b0 g0 r0 is)))"

definition isSolidColor :: "bytes \<Rightarrow> nat \<Rightarrow> nat \<Rightarrow> (u8 \<times> u8 \<times> u8) option res" where
  "isSolidColor pixels w h =
     (if length pixels < 4 then Inr None
      else rbind (index pixels 0) (\<lambda>b0. rbind (index pixels 1) (\<lambda>g0. rbind (index pixels 2) (\<lambda>r0.
           rbind (solid_loop pixels b0 g0 r0 [1..<w * h]) (\<lambda>ok.
           Inr (if ok then Some (r0, g0, b0) else None))))))"

text \<open>
  The variance of the sampled pixels. The code computes it in \<^verbatim>\<open>float64\<close>; it is called on
  tiles of 4096 pixels only, where 16 samples make every intermediate value a multiple of
  \<open>1/256\<close> below \<open>2 ^ 24\<close>, so that the floating-point result is exact.
\<close>

definition sample_index :: "nat \<Rightarrow> nat \<Rightarrow> nat \<Rightarrow> nat" where
  "sample_index npix sampleCount i = (i * npix div sampleCount) * 4"

definition samples :: "bytes \<Rightarrow> nat \<Rightarrow> nat \<Rightarrow> nat \<Rightarrow> rat list res" where
  "samples pixels npix sampleCount c =
     mapM (\<lambda>i. rbind (index pixels (sample_index npix sampleCount i + c)) (\<lambda>b. Inr (of_nat (unat b))))
       [0..<sampleCount]"

definition deviation :: "rat list \<Rightarrow> rat" where
  "deviation vs = (let avg = sum_list vs / of_nat (length vs) in sum_list (map (\<lambda>v. (v - avg) * (v - avg)) vs))"

definition colorVariance :: "bytes \<Rightarrow> nat \<Rightarrow> nat \<Rightarrow> rat res" where
  "colorVariance pixels w h =
     (let npix = w * h; sampleCount = if npix < 16 then npix else 16 in
      rbind (samples pixels npix sampleCount 0) (\<lambda>bs.
      rbind (samples pixels npix sampleCount 1) (\<lambda>gs.
      rbind (samples pixels npix sampleCount 2) (\<lambda>rs.
      Inr (deviation rs + deviation gs + deviation bs)))))"

section \<open>Encoding a tile\<close>

text \<open>The RGB triples of BGRA pixels.\<close>

definition rgb_at :: "bytes \<Rightarrow> nat \<Rightarrow> (u8 \<times> u8 \<times> u8) res" where
  "rgb_at pixels i =
     rbind (index pixels (i * 4 + 2)) (\<lambda>r. rbind (index pixels (i * 4 + 1)) (\<lambda>g.
     rbind (index pixels (i * 4)) (\<lambda>b. Inr (r, g, b))))"

type_synonym jpeg_encoder = "int \<Rightarrow> nat \<Rightarrow> nat \<Rightarrow> (u8 \<times> u8 \<times> u8) list \<Rightarrow> bytes res"

definition encodeJPEG :: "jpeg_encoder \<Rightarrow> int \<Rightarrow> bytes \<Rightarrow> nat \<Rightarrow> nat \<Rightarrow> bytes res" where
  "encodeJPEG jpeg jpegQuality pixels w h =
     rbind (mapM (rgb_at pixels) [0..<h * w]) (\<lambda>img.
     rbind (rwrap ''tight jpeg encode: %w'' [] (jpeg jpegQuality w h img)) (\<lambda>jpegData.
     Inr ([0x09] @ compactLen (length jpegData) @ jpegData)))"

definition encodeBasic :: "deflater \<Rightarrow> bytes \<Rightarrow> nat \<Rightarrow> nat \<Rightarrow> nat \<Rightarrow> (zlibStream, bytes) prog" where
  "encodeBasic z pixels w h streamIdx =
     bind_io (lift_res (mapM (rgb_at pixels) [0..<w * h])) (\<lambda>img.
     let rgb = concat (map (\<lambda>(r, g, b). [r, g, b]) img) in
     bind_io zclear (\<lambda>_.
     bind_io zopen (\<lambda>_.
     bind_io (wrap ''tight basic zlib write: %w'' (zdo z (ZWrite rgb))) (\<lambda>_.
     bind_io (wrap ''tight basic zlib flush: %w'' (zdo z ZFlush)) (\<lambda>_.
     bind_io get_state (\<lambda>s.
     ret ([byte (streamIdx AND 0x03)] @ compactLen (length (zs_buf s)) @ zs_buf s)))))))"

section \<open>EncodeMulti\<close>

record tileInfo =
  ti_absX :: nat
  ti_absY :: nat
  ti_tileW :: nat
  ti_tileH :: nat
  ti_pixels :: bytes
  ti_solid :: "(u8 \<times> u8 \<times> u8) option"
  ti_isJPEG :: bool
  ti_streamIdx :: nat

text \<open>Phase 1: cutting and classifying. \<open>ti_solid\<close> holds the colour when \<^verbatim>\<open>isSolid\<close>.\<close>

definition tile_pixels ::
  "nat \<Rightarrow> nat \<Rightarrow> bytes \<Rightarrow> nat \<Rightarrow> nat \<times> nat \<times> nat \<times> nat \<Rightarrow> bytes res" where
  "tile_pixels x y pixels stride t =
     (case t of (tileX, tileY, tileW, tileH) \<Rightarrow>
        foldM (\<lambda>row tilePixels.
          let srcY = y + tileY + row; srcX = x + tileX; srcOffset = srcY * stride + srcX * 4;
              srcEnd = srcOffset + tileW * 4 in
          if srcEnd > length pixels
          then Inl (Errorf ''tight encode: pixel data out of bounds at tile (%d,%d) row %d''
                     [int tileX, int tileY, int row])
          else rbind (gslice srcOffset srcEnd pixels) (\<lambda>b.
               copy_at (row * tileW * 4) (length tilePixels) tilePixels b))
          [0..<tileH] (replicate (tileW * tileH * 4) 0))"

definition classify_tile ::
  "nat \<Rightarrow> nat \<Rightarrow> bytes \<Rightarrow> nat \<Rightarrow> nat \<times> nat \<times> nat \<times> nat \<Rightarrow> tileInfo list \<times> nat \<Rightarrow> (tileInfo list \<times> nat) res" where
  "classify_tile x y pixels stride t acc =
     (case (t, acc) of ((tileX, tileY, tileW, tileH), (tiles, basicCount)) \<Rightarrow>
        rbind (tile_pixels x y pixels stride t) (\<lambda>tilePixels.
        let ti = \<lparr>ti_absX = x + tileX, ti_absY = y + tileY, ti_tileW = tileW, ti_tileH = tileH,
                  ti_pixels = tilePixels, ti_solid = None, ti_isJPEG = False, ti_streamIdx = 0\<rparr> in
        rbind (isSolidColor tilePixels tileW tileH) (\<lambda>solid.
        if solid \<noteq> None then Inr (tiles @ [ti\<lparr>ti_solid := solid\<rparr>], basicCount)
        else rbind (if tileW * tileH \<ge> 4096
                    then rbind (colorVariance tilePixels tileW tileH) (\<lambda>v. Inr (v > 512))
                    else Inr False) (\<lambda>isJPEG.
          if isJPEG then Inr (tiles @ [ti\<lparr>ti_isJPEG := True\<rparr>], basicCount)
          else Inr (tiles @ [ti\<lparr>ti_streamIdx := basicCount mod 4\<rparr>], basicCount + 1)))))"

definition classify_tiles :: "nat \<Rightarrow> nat \<Rightarrow> nat \<Rightarrow> nat \<Rightarrow> bytes \<Rightarrow> nat \<Rightarrow> tileInfo list res" where
  "classify_tiles x y w h pixels stride =
     rbind (foldM (classify_tile x y pixels stride) (rect_tiles tileSize w h) ([], 0)) (\<lambda>(tiles, n). Inr tiles)"

text \<open>
  Phase 2. Solid and JPEG tiles depend on nothing but the tile. Each of the four stream
  goroutines runs through its tiles in order and stops at its first error. A worker's state is
  its stream and whether it has stopped; \<open>run_tasks\<close> executes basic tiles \<open>(i, tile)\<close> in the
  order given, each on its worker.
\<close>

definition isBasic :: "tileInfo \<Rightarrow> bool" where
  "isBasic ti \<longleftrightarrow> ti_solid ti = None \<and> \<not> ti_isJPEG ti"

type_synonym task = "nat \<times> tileInfo"
type_synonym worker = "zlibStream \<times> bool"

definition basic_task :: "deflater \<Rightarrow> task \<Rightarrow> worker \<Rightarrow> bytes res option \<times> worker" where
  "basic_task z t w =
     (case (t, w) of ((i, ti), (s, stopped)) \<Rightarrow>
        if stopped then (None, w)
        else case encodeBasic z (ti_pixels ti) (ti_tileW ti) (ti_tileH ti) (ti_streamIdx ti) s of
               (r, s') \<Rightarrow> (Some r, (s', isl r)))"

fun run_tasks ::
  "('t \<Rightarrow> nat) \<Rightarrow> ('t \<Rightarrow> 'w \<Rightarrow> 'r \<times> 'w) \<Rightarrow> 't list \<Rightarrow> (nat \<Rightarrow> 'w) \<Rightarrow> ('t \<times> 'r) list \<times> (nat \<Rightarrow> 'w)" where
  "run_tasks wk f [] ws = ([], ws)"
| "run_tasks wk f (t # ts) ws =
     (case f t (ws (wk t)) of (r, w') \<Rightarrow>
        case run_tasks wk f ts (ws(wk t := w')) of (out, ws') \<Rightarrow> ((t, r) # out, ws'))"

definition task_stream :: "task \<Rightarrow> nat" where
  "task_stream t = ti_streamIdx (snd t)"

definition basic_tasks :: "tileInfo list \<Rightarrow> task list" where
  "basic_tasks tiles = filter (\<lambda>(i, ti). isBasic ti) (enumerate 0 tiles)"

text \<open>The work lists of the four goroutines, and the order that runs one after the other.\<close>

definition streamWork :: "tileInfo list \<Rightarrow> nat \<Rightarrow> task list" where
  "streamWork tiles s = filter (\<lambda>t. task_stream t = s) (basic_tasks tiles)"

definition tile_result ::
  "jpeg_encoder \<Rightarrow> int \<Rightarrow> (nat \<Rightarrow> bytes res option) \<Rightarrow> task \<Rightarrow> bytes res" where
  "tile_result jpeg q basic t =
     (case t of (i, ti) \<Rightarrow>
        case ti_solid ti of
          Some (r, g, b) \<Rightarrow> Inr [0x08, r, g, b]
        | None \<Rightarrow> if ti_isJPEG ti then encodeJPEG jpeg q (ti_pixels ti) (ti_tileW ti) (ti_tileH ti)
                  else case basic i of None \<Rightarrow> Inr [] | Some r \<Rightarrow> r)"

text \<open>Phase 3: the rectangles in row-major order, or the first error.\<close>

definition tile_rectangle :: "tileInfo \<Rightarrow> bytes \<Rightarrow> Rectangle" where
  "tile_rectangle ti data =
     mkRect (of_nat (ti_absX ti)) (of_nat (ti_absY ti)) (of_nat (ti_tileW ti)) (of_nat (ti_tileH ti))
       EncodingTight data"

definition assemble_tile :: "(task \<Rightarrow> bytes res) \<Rightarrow> task \<Rightarrow> Rectangle res" where
  "assemble_tile result t =
     rbind (rwrap ''tight encode tile (%d,%d): %w'' [int (ti_absX (snd t)), int (ti_absY (snd t))] (result t))
       (\<lambda>data. Inr (tile_rectangle (snd t) data))"

text \<open>\<^verbatim>\<open>results[i]\<close> and \<^verbatim>\<open>errs[i]\<close> as left by the workers; \<open>None\<close> when both are still nil.\<close>

fun result_of :: "(task \<times> bytes res option) list \<Rightarrow> nat \<Rightarrow> bytes res option" where
  "result_of [] i = None"
| "result_of (((j, ti), r) # out) i = (if j = i then r else result_of out i)"

text \<open>\<open>order\<close> is the order in which the basic tiles take effect.\<close>

definition encode_tiles ::
  "deflater \<Rightarrow> jpeg_encoder \<Rightarrow> task list \<Rightarrow> tileInfo list \<Rightarrow> (Tight, Rectangle list) prog" where
  "encode_tiles z jpeg order tiles t =
     (case run_tasks task_stream (basic_task z) order (\<lambda>s. (t_streams t ! s, False)) of (out, ws) \<Rightarrow>
        (mapM (assemble_tile (tile_result jpeg (t_jpegQuality t) (result_of out))) (enumerate 0 tiles),
         t\<lparr>t_streams := map (\<lambda>s. fst (ws s)) [0..<4]\<rparr>))"

definition EncodeMulti_order ::
  "deflater \<Rightarrow> jpeg_encoder \<Rightarrow> (tileInfo list \<Rightarrow> task list) \<Rightarrow> area16 \<Rightarrow> bytes \<Rightarrow> nat \<Rightarrow>
   (Tight, Rectangle list) prog" where
  "EncodeMulti_order z jpeg order a pixels stride =
     (case a of (x, y, width, height) \<Rightarrow>
        bind_io (lift_res (classify_tiles (unat x) (unat y) (unat width) (unat height) pixels stride)) (\<lambda>tiles.
        encode_tiles z jpeg (order tiles) tiles))"

definition EncodeMulti :: "deflater \<Rightarrow> jpeg_encoder \<Rightarrow> area16 \<Rightarrow> bytes \<Rightarrow> nat \<Rightarrow> (Tight, Rectangle list) prog" where
  "EncodeMulti z jpeg = EncodeMulti_order z jpeg (\<lambda>tiles. concat (map (streamWork tiles) [0..<4]))"

definition Tight_Encode ::
  "deflater \<Rightarrow> jpeg_encoder \<Rightarrow> u16 \<Rightarrow> u16 \<Rightarrow> u16 \<Rightarrow> u16 \<Rightarrow> bytes \<Rightarrow> nat \<Rightarrow> (Tight, Rectangle) prog" where
  "Tight_Encode z jpeg x y width height pixels stride =
     bind_io (EncodeMulti z jpeg (x, y, width, height) pixels stride) (\<lambda>rects.
     case rects of
       [r] \<Rightarrow> ret r
     | _ \<Rightarrow> ret (mkRect x y width height EncodingTight (concat (map rect_Data rects))))"

fun reset_streams :: "deflater \<Rightarrow> zlibStream list \<Rightarrow> zlibStream list" where
  "reset_streams z [] = []"
| "reset_streams z (s # ss) = snd (zlibStream_reset z s) # reset_streams z ss"

definition Tight_Reset :: "deflater \<Rightarrow> (Tight, unit) prog" where
  "Tight_Reset z = modify (\<lambda>t. t\<lparr>t_streams := reset_streams z (t_streams t)\<rparr>)"

section \<open>Schedules\<close>

fun run_worker :: "('t \<Rightarrow> 'w \<Rightarrow> 'r \<times> 'w) \<Rightarrow> 't list \<Rightarrow> 'w \<Rightarrow> ('t \<times> 'r) list \<times> 'w" where
  "run_worker f [] w = ([], w)"
| "run_worker f (t # ts) w =
     (case f t w of (r, w') \<Rightarrow> case run_worker f ts w' of (out, w'') \<Rightarrow> ((t, r) # out, w''))"

lemma run_tasks_worker:
  assumes "run_tasks wk f ts ws = (out, ws')"
  shows "run_worker f (filter (\<lambda>t. wk t = s) ts) (ws s) = (filter (\<lambda>x. wk (fst x) = s) out, ws' s)"
  using assms
proof (induction ts arbitrary: ws out)
  case Nil
  then show ?case by auto
next
  case (Cons t ts)
  obtain r w' where f: "f t (ws (wk t)) = (r, w')" by force
  obtain out1 ws1 where rest: "run_tasks wk f ts (ws(wk t := w')) = (out1, ws1)" by force
  with Cons.prems f have o: "out = (t, r) # out1" and w: "ws1 = ws'" by auto
  show ?case using Cons.IH [OF rest [unfolded w]] f o by (auto split: prod.splits)
qed

lemma run_tasks_tasks: "run_tasks wk f ts ws = (out, ws') \<Longrightarrow> map fst out = ts"
  by (induction ts arbitrary: ws out) (auto split: prod.splits)

text \<open>Two orders that agree for every worker have the same results and final states.\<close>

lemma run_tasks_interleave:
  assumes "\<And>s. filter (\<lambda>t. wk t = s) ts = filter (\<lambda>t. wk t = s) us"
    and "run_tasks wk f ts ws = (out, ws1)" and "run_tasks wk f us ws = (out', ws2)"
  shows "set out = set out' \<and> ws1 = ws2"
proof -
  have w: "(filter (\<lambda>x. wk (fst x) = s) out, ws1 s) = (filter (\<lambda>x. wk (fst x) = s) out', ws2 s)" for s
    using run_tasks_worker [OF assms(2), of s] run_tasks_worker [OF assms(3), of s] assms(1) [of s] by simp
  have "x \<in> set out \<longleftrightarrow> x \<in> set out'" for x
  proof -
    have "x \<in> set (filter (\<lambda>y. wk (fst y) = wk (fst x)) out) \<longleftrightarrow> x \<in> set (filter (\<lambda>y. wk (fst y) = wk (fst x)) out')"
      using w [of "wk (fst x)"] by simp
    then show ?thesis by (auto split: prod.splits)
  qed
  moreover have "ws1 = ws2" using w by auto
  ultimately show ?thesis by blast
qed

lemma result_of_unique:
  assumes "distinct (map (fst \<circ> fst) out)" and "((i, ti), r) \<in> set out"
  shows "result_of out i = r"
  using assms
proof (induction out i rule: result_of.induct)
  case (1 i)
  then show ?case by simp
next
  case (2 j tj r' out i)
  show ?case
  proof (cases "j = i")
    case True
    then have "((i, ti), r) \<notin> set out" using 2(2) by force
    then show ?thesis using 2(3) True by simp
  next
    case False
    then show ?thesis using 2 by simp
  qed
qed

lemma result_of_None: "i \<notin> fst ` fst ` set out \<Longrightarrow> result_of out i = None"
  by (induction out i rule: result_of.induct) auto

lemma result_of_cong:
  assumes "set out = set out'" and "distinct (map (fst \<circ> fst) out)" and "distinct (map (fst \<circ> fst) out')"
  shows "result_of out = result_of out'"
proof
  fix i
  show "result_of out i = result_of out' i"
  proof (cases "i \<in> fst ` fst ` set out")
    case True
    then obtain ti r where "((i, ti), r) \<in> set out" by force
    then show ?thesis using result_of_unique assms by metis
  next
    case False
    then show ?thesis using result_of_None assms(1) by metis
  qed
qed

section \<open>The compact length\<close>

lemma and_127: "(n::nat) AND 127 = n mod 128"
  using take_bit_eq_mask [of 7 n] take_bit_eq_mod [of 7 n] by (simp add: mask_eq_exp_minus_1)

lemma unat_byte: "m < 256 \<Longrightarrow> unat (byte m) = m"
  by (simp add: byte_def unat_of_nat_small)

lemma and_128: "m AND 128 = 0 \<longleftrightarrow> even (m div 128 :: nat)"
  using and_exp_eq_0_iff_not_bit [of m 7] by (simp add: bit_iff_odd)

lemma or_128: "m < 128 \<Longrightarrow> (m OR 128 :: nat) = m + 128"
  using disjunctive_add_eq_or [of m 128] by (simp add: and_128)

lemma byte_more: "m < 128 \<Longrightarrow> unat (byte m OR 0x80) = m + 128"
  by (simp add: unsigned_or_eq unat_byte or_128)

lemma and_80: "(b::u8) AND 0x80 = 0 \<longleftrightarrow> unat b < 128"
proof -
  have "unat (b AND 0x80) = unat b AND 128" by (simp add: unsigned_and_eq)
  then have "b AND 0x80 = 0 \<longleftrightarrow> unat b AND 128 = 0" by (metis unat_eq_zero unsigned_0)
  also have "\<dots> \<longleftrightarrow> even (unat b div 128)" by (rule and_128)
  also have "\<dots> \<longleftrightarrow> unat b < 128"
  proof (cases "unat b < 128")
    case False
    then have "unat b div 128 = 1" using unat_u8_less [of b] by (intro div_nat_eqI) auto
    with False show ?thesis by simp
  qed simp
  finally show ?thesis .
qed

lemma or_push: "m < 2 ^ k \<Longrightarrow> (m OR push_bit k n :: nat) = m + n * 2 ^ k"
proof -
  assume m: "m < 2 ^ k"
  have "\<not> (bit m j \<and> bit (push_bit k n) j)" for j
    using bit_take_bit_iff [of k m j] take_bit_nat_eq_self [OF m] by (auto simp: bit_push_bit_iff)
  then have "m AND push_bit k n = 0" by (intro bit_eqI) (simp add: bit_and_iff)
  then show ?thesis using disjunctive_add_eq_or [of m "push_bit k n"] by (simp add: push_bit_eq_mult)
qed

lemma readCompactLen_compactLen:
  assumes "n < 4194304"
  shows "readCompactLen (live (compactLen n @ r) out) = (Inr n, live r out)"
proof -
  consider (a) "n < 128" | (b) "128 \<le> n" "n < 16384" | (c) "16384 \<le> n" by linarith
  then show ?thesis
  proof cases
    case a
    then show ?thesis
      by (simp add: compactLen_def readCompactLen_def conn_simps readFull_def Let_def and_127 and_80 unat_byte)
  next
    case b
    have "n mod 128 OR push_bit 7 (n div 128) = n" by (subst or_push) auto
    moreover have "n div 128 < 128" using b by (simp add: less_mult_imp_div_less)
    ultimately show ?thesis using b
      by (simp add: compactLen_def readCompactLen_def conn_simps readFull_def Let_def and_127 and_80
          unat_byte byte_more drop_bit_eq_div)
  next
    case c
    have "n mod 128 OR push_bit 7 (n div 128 mod 128) = n mod 128 + n div 128 mod 128 * 128"
      by (subst or_push) auto
    moreover have "\<dots> = n mod 16384" using mod_mult2_eq [of n 128 128] by simp
    moreover have "n mod 16384 OR push_bit 14 (n div 16384) = n" by (subst or_push) auto
    moreover have "n div 16384 < 256" using assms by (simp add: less_mult_imp_div_less)
    ultimately show ?thesis using c
      by (simp add: compactLen_def readCompactLen_def conn_simps readFull_def Let_def and_127 and_80
          unat_byte byte_more drop_bit_eq_div)
  qed
qed

section \<open>Tiles of a frame\<close>

text \<open>Rows copied one after the other into a buffer of zeroes.\<close>

lemma copy_rows:
  assumes "\<And>row. row < k \<Longrightarrow> f row = Inr (g row)" and "\<And>row. row < k \<Longrightarrow> length (g row) = n" and "k \<le> h"
  shows "foldM (\<lambda>row tp. rbind (f row) (\<lambda>b. copy_at (row * n) (length tp) tp b)) [0..<k] (replicate (h * n) 0)
     = Inr (concat (map g [0..<k]) @ replicate ((h - k) * n) (0 :: u8))"
  using assms
proof (induction k)
  case 0
  then show ?case by simp
next
  case (Suc k)
  have len: "length (concat (map g [0..<k])) = k * n"
    by (rule trans [OF concat_const_length]) (use Suc.prems in auto)
  have eq: "(h - k) * n = n + (h - Suc k) * n" using Suc.prems(3) by (simp add: Suc_diff_Suc flip: mult_Suc)
  have "copy_at (k * n) (k * n + (h - k) * n) (concat (map g [0..<k]) @ replicate ((h - k) * n) 0) (g k)
     = Inr (concat (map g [0..<k]) @ g k @ replicate ((h - Suc k) * n) 0)"
    using len Suc.prems(2) [of k] by (simp add: copy_at_def gslice_def copy_def eq)
  then show ?case using Suc len by (simp add: foldM_append)
qed

lemma tile_rows_prefix:
  assumes "frame_has pixels stride (x + tx) (y + ty) tw k" and "k \<le> th"
  shows "foldM (\<lambda>row tilePixels.
          let srcY = y + ty + row; srcX = x + tx; srcOffset = srcY * stride + srcX * 4;
              srcEnd = srcOffset + tw * 4 in
          if srcEnd > length pixels
          then Inl (Errorf ''tight encode: pixel data out of bounds at tile (%d,%d) row %d''
                     [int tx, int ty, int row])
          else rbind (gslice srcOffset srcEnd pixels) (\<lambda>b.
               copy_at (row * tw * 4) (length tilePixels) tilePixels b))
       [0..<k] (replicate (tw * th * 4) 0)
     = Inr (region_bytes pixels stride (x + tx) (y + ty) tw k @ replicate ((th - k) * (tw * 4)) 0)"
proof -
  let ?f = "\<lambda>row. if (y + ty + row) * stride + (x + tx) * 4 + tw * 4 > length pixels
     then Inl (Errorf ''tight encode: pixel data out of bounds at tile (%d,%d) row %d'' [int tx, int ty, int row])
     else gslice ((y + ty + row) * stride + (x + tx) * 4) ((y + ty + row) * stride + (x + tx) * 4 + tw * 4) pixels"
  let ?g = "\<lambda>row. take (tw * 4) (drop ((y + ty + row) * stride + (x + tx) * 4) pixels)"
  have f: "?f row = Inr (?g row)" if "row < k" for row
    using frame_hasD [OF assms(1) that] by (simp add: gslice_def)
  have g: "length (?g row) = tw * 4" if "row < k" for row
    by (rule frame_row_length [OF assms(1) that])
  have "(\<lambda>row tp. rbind (?f row) (\<lambda>b. copy_at (row * (tw * 4)) (length tp) tp b)) =
    (\<lambda>row tilePixels.
          let srcY = y + ty + row; srcX = x + tx; srcOffset = srcY * stride + srcX * 4;
              srcEnd = srcOffset + tw * 4 in
          if srcEnd > length pixels
          then Inl (Errorf ''tight encode: pixel data out of bounds at tile (%d,%d) row %d''
                     [int tx, int ty, int row])
          else rbind (gslice srcOffset srcEnd pixels) (\<lambda>b.
               copy_at (row * tw * 4) (length tilePixels) tilePixels b))"
    by (intro ext) (simp add: Let_def mult.assoc)
  moreover have "tw * th * 4 = th * (tw * 4)" by simp
  ultimately show ?thesis
    using copy_rows [of k ?f ?g "tw * 4" th, OF f g assms(2)] by (simp only: region_bytes_def)
qed

lemma tile_pixels_Inr:
  assumes "frame_has pixels stride (x + tx) (y + ty) tw th"
  shows "tile_pixels x y pixels stride (tx, ty, tw, th) = Inr (region_bytes pixels stride (x + tx) (y + ty) tw th)"
  using tile_rows_prefix [OF assms le_refl] by (simp add: tile_pixels_def)

lemma solid_loop_total:
  assumes "\<And>i. i \<in> set is \<Longrightarrow> i * 4 + 3 < length pixels"
  shows "\<exists>ok. solid_loop pixels b0 g0 r0 is = Inr ok \<and>
    (ok \<longrightarrow> (\<forall>i \<in> set is. pixels ! (i * 4) = b0 \<and> pixels ! (i * 4 + 1) = g0 \<and> pixels ! (i * 4 + 2) = r0))"
  using assms
proof (induction "is")
  case Nil
  show ?case by (intro exI [of _ True]) simp
next
  case (Cons i "is")
  have "i * 4 + 3 < length pixels" using Cons.prems by simp
  then have ix: "index pixels (i * 4) = Inr (pixels ! (i * 4))"
      "index pixels (i * 4 + 1) = Inr (pixels ! (i * 4 + 1))"
      "index pixels (i * 4 + 2) = Inr (pixels ! (i * 4 + 2))"
    by (simp_all add: index_def)
  obtain ok where "solid_loop pixels b0 g0 r0 is = Inr ok"
    and ok: "ok \<longrightarrow> (\<forall>i \<in> set is. pixels ! (i * 4) = b0 \<and> pixels ! (i * 4 + 1) = g0 \<and> pixels ! (i * 4 + 2) = r0)"
    using Cons by auto
  then have "solid_loop pixels b0 g0 r0 (i # is) =
      Inr (pixels ! (i * 4) = b0 \<and> pixels ! (i * 4 + 1) = g0 \<and> pixels ! (i * 4 + 2) = r0 \<and> ok)"
    using ix by simp
  then show ?case using ok by (simp del: solid_loop.simps)
qed

lemma isSolidColor_total:
  assumes "length pixels = w * h * 4" and "0 < w * h"
  shows "\<exists>c. isSolidColor pixels w h = Inr c \<and>
    (\<forall>r g b. c = Some (r, g, b) \<longrightarrow>
       (\<forall>i < w * h. pixels ! (i * 4) = b \<and> pixels ! (i * 4 + 1) = g \<and> pixels ! (i * 4 + 2) = r))"
proof -
  let ?n = "w * h"
  have len: "4 \<le> length pixels" using assms by (simp add: Suc_le_eq)
  obtain ok where ok: "solid_loop pixels (pixels ! 0) (pixels ! 1) (pixels ! 2) [1..<?n] = Inr ok"
    "ok \<longrightarrow> (\<forall>i \<in> set [1..<?n]. pixels ! (i * 4) = pixels ! 0 \<and> pixels ! (i * 4 + 1) = pixels ! 1 \<and> pixels ! (i * 4 + 2) = pixels ! 2)"
    using solid_loop_total [of "[1..<?n]" pixels "pixels ! 0" "pixels ! 1" "pixels ! 2"] assms by auto
  have "isSolidColor pixels w h = Inr (if ok then Some (pixels ! 2, pixels ! 1, pixels ! 0) else None)"
    using ok(1) len by (auto simp: isSolidColor_def index_def)
  moreover have "pixels ! (i * 4) = pixels ! 0 \<and> pixels ! (i * 4 + 1) = pixels ! 1 \<and> pixels ! (i * 4 + 2) = pixels ! 2"
    if ok "i < ?n" for i
    using ok(2) that by (cases "i = 0") (auto simp: numeral_2_eq_2)
  ultimately show ?thesis by auto
qed

lemma colorVariance_total:
  assumes "length pixels = w * h * 4" and "0 < w * h"
  shows "\<exists>v. colorVariance pixels w h = Inr v"
proof -
  let ?n = "w * h" and ?k = "if w * h < 16 then w * h else 16"
  have "\<exists>vs. samples pixels ?n ?k c = Inr vs" if "c < 3" for c
    unfolding samples_def
  proof (rule mapM_ex)
    fix i
    assume "i \<in> set [0..<?k]"
    then have "i < ?k" by simp
    then have "i * ?n < ?k * ?n" using assms(2) by (simp only: mult_less_cancel2) 
    then have "i * ?n div ?k < ?n" by (metis less_mult_imp_div_less mult.commute)
    then have "sample_index ?n ?k i + c < length pixels"
      using assms(1) that unfolding sample_index_def by linarith
    then show "\<exists>y. rbind (index pixels (sample_index ?n ?k i + c)) (\<lambda>b. Inr (of_nat (unat b))) = Inr y"
      by (simp add: index_def)
  qed
  from this [of 0] this [of 1] this [of 2] obtain a b c
    where "samples pixels ?n ?k 0 = Inr a" "samples pixels ?n ?k 1 = Inr b" "samples pixels ?n ?k 2 = Inr c"
    by auto
  then show ?thesis by (simp add: colorVariance_def Let_def)
qed

lemma rgb_at_total:
  assumes "length pixels = n * 4"
  shows "mapM (rgb_at pixels) [0..<n] = Inr (map (\<lambda>i. (pixels ! (i * 4 + 2), pixels ! (i * 4 + 1), pixels ! (i * 4))) [0..<n])"
  by (rule mapM_total) (use assms in \<open>simp add: rgb_at_def index_def\<close>)


section \<open>A client with persistent decompressors\<close>

text \<open>
  The viewer of Tight rectangles is \<^verbatim>\<open>readTightTile\<close> of \<^verbatim>\<open>client.go\<close> on the data of one
  rectangle, with \<^verbatim>\<open>zlib.NewReader\<close> replaced by the persistent decompressor of the stream the
  control byte names.
\<close>

definition tile_libs :: "client_libs \<Rightarrow> (bytes \<Rightarrow> bytes) \<Rightarrow> bytes \<Rightarrow> client_libs" where
  "tile_libs L inflate d = L\<lparr>lib_zlib := \<lambda>b. Inr (Inr (inflate_next inflate d b))\<rparr>"

definition tile_stream_data :: "bytes \<Rightarrow> bytes" where
  "tile_stream_data data =
     (case readCompactLen (live (tl data) []) of (Inr n, c) \<Rightarrow> take n (cin c) | _ \<Rightarrow> [])"

definition tight_decoder :: "client_libs \<Rightarrow> (bytes \<Rightarrow> bytes) \<Rightarrow> bytes list decoder" where
  "tight_decoder L inflate d r =
     (let data = rect_Data r; hdr = rect_Header r; k = unat (hd data AND 3) in
      case readTightTile (tile_libs L inflate (d ! k)) (unat (hdr_Width hdr)) (unat (hdr_Height hdr)) (live data []) of
        (Inr px, _) \<Rightarrow>
          (raw_picture r px,
           if hd data AND 0x0F = 0x08 \<or> hd data AND 0x0F = 0x09 then d
           else d[k := d ! k @ tile_stream_data data])
      | (Inl _, _) \<Rightarrow> (\<lambda>i j. [], d))"

text \<open>What is relied on of \<^verbatim>\<open>image/jpeg\<close>: a tile is encoded, and decodes to an image of the same
  size whose pixels are \<open>close\<close> to the original ones.\<close>

definition chan8 :: "u32 \<times> u32 \<times> u32 \<Rightarrow> u8 \<times> u8 \<times> u8" where
  "chan8 c = (case c of (r, g, b) \<Rightarrow> (ucast (drop_bit 8 r), ucast (drop_bit 8 g), ucast (drop_bit 8 b)))"

definition jpeg_ok ::
  "jpeg_encoder \<Rightarrow> client_libs \<Rightarrow> (u8 \<times> u8 \<times> u8 \<Rightarrow> u8 \<times> u8 \<times> u8 \<Rightarrow> bool) \<Rightarrow> bool" where
  "jpeg_ok jpeg L close \<longleftrightarrow>
     (\<forall>c. close c c) \<and>
     (\<forall>q w h img. 0 < w \<and> w \<le> 64 \<and> 0 < h \<and> h \<le> 64 \<and> length img = w * h \<longrightarrow>
        (\<exists>b px. jpeg q w h img = Inr b \<and> length b < 4194304 \<and> lib_jpeg L b = Inr (w, h, px) \<and>
           (\<forall>x < w. \<forall>y < h. close (img ! (y * w + x)) (chan8 (px x y)))))"

text \<open>A tile of at most 64 by 64 pixels does not compress to 4 MB or more.\<close>

definition zlib_small :: "deflater \<Rightarrow> bool" where
  "zlib_small z \<longleftrightarrow> (\<forall>h b. (h = [] \<or> last h = ZFlush) \<and> length b \<le> 12288 \<longrightarrow>
     length (zout z h [ZWrite b, ZFlush]) < 4194304)"

definition shows_close :: "(u8 \<times> u8 \<times> u8 \<Rightarrow> u8 \<times> u8 \<times> u8 \<Rightarrow> bool) \<Rightarrow> bytes \<Rightarrow> bytes \<Rightarrow> bool" where
  "shows_close close q p \<longleftrightarrow>
     (case (q, p) of ([b', g', r', a'], [b, g, r, a]) \<Rightarrow> a' = 255 \<and> close (r, g, b) (r', g', b') | _ \<Rightarrow> False)"

section \<open>Decoding a tile\<close>

text \<open>Pixel \<open>(i, j)\<close> of four-byte blocks in row-major order.\<close>

lemma block_pixel:
  assumes "\<And>b. b \<in> set blocks \<Longrightarrow> length b = 4" and "j * w + i < length blocks"
  shows "pixel_at (w * 4) (concat blocks) i j = blocks ! (j * w + i)"
  using concat_block [OF assms] by (simp add: pixel_at_def algebra_simps)

lemma pixel_at_nth:
  assumes "(j * w + i) * 4 + 4 \<le> length px"
  shows "pixel_at (w * 4) px i j =
     [px ! ((j * w + i) * 4), px ! ((j * w + i) * 4 + 1), px ! ((j * w + i) * 4 + 2), px ! ((j * w + i) * 4 + 3)]"
proof -
  let ?k = "(j * w + i) * 4"
  have "take 4 (drop ?k px) = map (\<lambda>m. px ! (?k + m)) [0..<4]"
    using assms by (intro nth_equalityI) auto
  then show ?thesis by (simp add: pixel_at_def algebra_simps upt_rec numeral_3_eq_3)
qed

lemma grid_nth:
  assumes "i < w" and "j < h"
  shows "concat (map (\<lambda>y. map (f y) [0..<w]) [0..<h]) ! (j * w + i) = f j i"
proof -
  have "concat (map (\<lambda>y. map (f y) [0..<w]) [0..<h]) ! (j * w + i) = map (\<lambda>y. map (f y) [0..<w]) [0..<h] ! j ! i"
    by (rule concat_nth_block) (use assms in auto)
  then show ?thesis using assms by simp
qed

lemma grid_length: "length (concat (map (\<lambda>y. map (f y) [0..<w]) [0..<h])) = h * w"
  by (rule trans [OF concat_const_length]) auto

lemma grid_index: "i < w \<Longrightarrow> j < h \<Longrightarrow> j * w + i < w * (h :: nat)"
proof -
  assume "i < w" "j < h"
  then have "j * w + i < Suc j * w" by simp
  also have "\<dots> \<le> h * w" using \<open>j < h\<close> by (intro mult_le_mono) auto
  finally show ?thesis by (simp add: mult.commute)
qed

text \<open>The decoded forms of the three kinds of tiles.\<close>

lemma read_solid:
  "readTightTile L w h (live [0x08, r, g, b] []) = (Inr (concat (replicate (w * h) (bgra r g b))), live [] [])"
  by (simp add: readTightTile_def conn_simps readFull_def read_u8_def)

lemma read_jpeg:
  assumes "length b < 4194304" and "lib_jpeg L b = Inr img"
  shows "readTightTile L w h (live ([0x09] @ compactLen (length b) @ b) []) = (Inr (jpeg_to_bgra img), live [] [])"
  using assms by (simp add: readTightTile_def conn_simps readCompactLen_compactLen)

lemma idx4: "k < 4 \<Longrightarrow> (k :: nat) = 0 \<or> k = 1 \<or> k = 2 \<or> k = 3"
  by auto

lemma basic_control:
  assumes "k < 4"
  shows "byte (k AND 3) AND 0x0F \<noteq> 0x08 \<and> byte (k AND 3) AND 0x0F \<noteq> 0x09 \<and> unat (byte (k AND 3) AND 3) = k"
  using idx4 [OF assms] by (auto simp: byte_def)

lemma read_basic:
  assumes "length b < 4194304" and "k < 4"
  shows "readTightTile (tile_libs L inflate d) w h (live ([byte (k AND 3)] @ compactLen (length b) @ b) []) =
     (Inr (rgb_to_bgra (inflate_next inflate d b)), live [] [])"
  using assms basic_control [OF assms(2)]
  by (simp add: readTightTile_def conn_simps readCompactLen_compactLen tile_libs_def)

lemma basic_stream_data:
  "length b < 4194304 \<Longrightarrow> tile_stream_data ([c] @ compactLen (length b) @ b) = b"
  by (simp add: tile_stream_data_def readCompactLen_compactLen)

lemma rgb_to_bgra_concat:
  "rgb_to_bgra (concat (map (\<lambda>(r, g, b). [r, g, b]) img)) = concat (map (\<lambda>(r, g, b). bgra r g b) img)"
proof -
  let ?t = "\<lambda>(r, g, b). [r, g, b]" and ?x = "concat (map (\<lambda>(r, g, b). [r, g, b]) img)"
  have l: "length x = 3" if "x \<in> set (map ?t img)" for x :: bytes using that by auto
  have len: "length ?x = length img * 3" by (rule trans [OF concat_const_length [OF l]]) auto
  have n: "?x ! (i * 3 + k) = ?t (img ! i) ! k" if "i < length img" "k < 3" for i k
    by (rule trans [OF concat_nth_block [OF l]]) (use that in auto)
  have "map (\<lambda>i. bgra (?x ! (i * 3)) (?x ! (i * 3 + 1)) (?x ! (i * 3 + 2))) [0..<length img] =
        map (\<lambda>(r, g, b). bgra r g b) img"
    by (rule nth_equalityI) (auto simp: n [of _ 0, simplified] n [of _ 1, simplified] n [of _ 2, simplified] split: prod.splits)
  then show ?thesis by (simp add: rgb_to_bgra_def len)
qed

lemma jpeg_pixel:
  assumes "i < w" and "j < h"
  shows "pixel_at (w * 4) (jpeg_to_bgra (w, h, px)) i j = (case chan8 (px i j) of (r, g, b) \<Rightarrow> bgra r g b)"
proof -
  let ?f = "\<lambda>y x. case chan8 (px x y) of (r, g, b) \<Rightarrow> bgra r g b"
  let ?B = "concat (map (\<lambda>y. map (?f y) [0..<w]) [0..<h])"
  have "jpeg_to_bgra (w, h, px) = concat ?B"
    by (simp add: jpeg_to_bgra_def chan8_def concat_concat_map split_def comp_def)
  moreover have "pixel_at (w * 4) (concat ?B) i j = ?B ! (j * w + i)"
    by (rule block_pixel) (use grid_index [OF assms] in \<open>auto simp: bgra_def grid_length mult.commute split: prod.splits\<close>)
  ultimately show ?thesis using grid_nth [OF assms, of ?f] by simp
qed


section \<open>A tile and its rectangle\<close>

definition tile_wf :: "bytes \<Rightarrow> nat \<Rightarrow> tileInfo \<Rightarrow> bool" where
  "tile_wf pixels stride ti \<longleftrightarrow>
     frame_has pixels stride (ti_absX ti) (ti_absY ti) (ti_tileW ti) (ti_tileH ti) \<and>
     ti_pixels ti = region_bytes pixels stride (ti_absX ti) (ti_absY ti) (ti_tileW ti) (ti_tileH ti) \<and>
     0 < ti_tileW ti \<and> ti_tileW ti \<le> 64 \<and> 0 < ti_tileH ti \<and> ti_tileH ti \<le> 64 \<and>
     ti_absX ti + ti_tileW ti \<le> 65536 \<and> ti_absY ti + ti_tileH ti \<le> 65536 \<and> ti_streamIdx ti < 4 \<and>
     (\<forall>r g b. ti_solid ti = Some (r, g, b) \<longrightarrow>
        (\<forall>i < ti_tileW ti * ti_tileH ti. ti_pixels ti ! (i * 4) = b \<and> ti_pixels ti ! (i * 4 + 1) = g \<and>
           ti_pixels ti ! (i * 4 + 2) = r))"

definition tile_area :: "tileInfo \<Rightarrow> rect" where
  "tile_area ti = tile_rect (ti_absX ti, ti_absY ti, ti_tileW ti, ti_tileH ti)"

lemma tile_wf_length:
  "tile_wf pixels stride ti \<Longrightarrow> length (ti_pixels ti) = ti_tileW ti * ti_tileH ti * 4"
  using length_region_bytes by (auto simp: tile_wf_def)

text \<open>A decoded image that is close to the tile, painted, shows the frame in the tile's area.\<close>

lemma paint_tile_shows:
  assumes wf: "tile_wf pixels stride ti"
    and img: "\<And>i j. i < ti_tileW ti \<Longrightarrow> j < ti_tileH ti \<Longrightarrow>
        \<exists>r g b. img i j = bgra r g b \<and>
          close (ti_pixels ti ! ((j * ti_tileW ti + i) * 4 + 2), ti_pixels ti ! ((j * ti_tileW ti + i) * 4 + 1),
                 ti_pixels ti ! ((j * ti_tileW ti + i) * 4)) (r, g, b)"
  shows "shows_region (shows_close close) pixels stride (inside (tile_area ti))
           (paint (tile_rectangle ti data) img pic) pic"
proof -
  let ?w = "ti_tileW ti" and ?h = "ti_tileH ti" and ?p = "ti_pixels ti"
  have f: "frame_has pixels stride (ti_absX ti) (ti_absY ti) ?w ?h"
    and p: "?p = region_bytes pixels stride (ti_absX ti) (ti_absY ti) ?w ?h"
    and lim: "ti_absX ti < 65536" "ti_absY ti < 65536" "?w < 65536" "?h < 65536"
    using wf by (auto simp: tile_wf_def)
  have "shows_close close (img i j) (pixel_at stride pixels (ti_absX ti + i) (ti_absY ti + j))"
    if ij: "i < ?w" "j < ?h" for i j
  proof -
    let ?k = "j * ?w + i"
    have "?k < ?w * ?h" by (rule grid_index [OF ij])
    then have len: "?k * 4 + 4 \<le> length ?p" using tile_wf_length [OF wf] by simp
    have "pixel_at stride pixels (ti_absX ti + i) (ti_absY ti + j) = pixel_at (?w * 4) ?p i j"
      using region_bytes_pixel [OF f ij] p by simp
    also have "\<dots> = [?p ! (?k * 4), ?p ! (?k * 4 + 1), ?p ! (?k * 4 + 2), ?p ! (?k * 4 + 3)]"
      by (rule pixel_at_nth [OF len])
    finally show ?thesis using img [OF ij] by (auto simp: shows_close_def bgra_def)
  qed
  then have "shows_region (shows_close close) pixels stride
      (inside (area_rect (of_nat (ti_absX ti), of_nat (ti_absY ti), of_nat ?w, of_nat ?h)))
      (paint (tile_rectangle ti data) img pic) pic"
    unfolding tile_rectangle_def by (intro paint_region_shows) (use lim f in simp_all)
  then show ?thesis using lim by (simp add: tile_area_def area_rect_def)
qed

lemma zclear_zopen: "bind_io zclear (\<lambda>_. bind_io zopen m) = bind_io zopen (\<lambda>_. bind_io zclear m)"
proof
  fix x :: zlibStream
  show "bind_io zclear (\<lambda>_. bind_io zopen m) x = bind_io zopen (\<lambda>_. bind_io zclear m) x"
    by (cases x) (simp add: zclear_def zopen_def conn_simps)
qed

lemma encodeBasic_sync:
  assumes "zsync z inflate s d" and "zlib_small z" and "length pixels = w * h * 4" and "w * h \<le> 4096"
  shows "\<exists>b s'. encodeBasic z pixels w h k s = (Inr ([byte (k AND 3)] @ compactLen (length b) @ b), s') \<and>
     zsync z inflate s' (d @ b) \<and> length b < 4194304 \<and>
     rgb_to_bgra (inflate_next inflate d b) =
       concat (map (\<lambda>i. bgra (pixels ! (i * 4 + 2)) (pixels ! (i * 4 + 1)) (pixels ! (i * 4))) [0..<w * h])"
proof -
  let ?img = "map (\<lambda>i. (pixels ! (i * 4 + 2), pixels ! (i * 4 + 1), pixels ! (i * 4))) [0..<w * h]"
  let ?rgb = "concat (map (\<lambda>(r, g, b). [r, g, b]) ?img)"
  have img: "mapM (rgb_at pixels) [0..<w * h] = Inr ?img" by (rule rgb_at_total [OF assms(3)])
  have "length ?rgb = length (map (\<lambda>(r, g, b). [r, g, b]) ?img) * 3" by (rule concat_const_length) auto
  then have len: "length ?rgb \<le> 12288" using assms(4) by (simp only: length_map length_upt)
  obtain b s' hh where b: "zframe z [?rgb] s = (Inr b, s')" "zs_buf s' = b" "zsync z inflate s' (d @ b)"
      "inflate_next inflate d b = ?rgb" "hh = [] \<or> last hh = ZFlush" "b = zout z hh [ZWrite ?rgb, ZFlush]"
    using zframe_sync [OF assms(1), of "[?rgb]"] by (auto simp del: zout.simps)
  have "length b < 4194304" using assms(2) b(5,6) len by (simp add: zlib_small_def del: zout.simps)
  moreover have "encodeBasic z pixels w h k =
      bind_io (zframe z [?rgb]) (\<lambda>b. ret ([byte (k AND 3)] @ compactLen (length b) @ b))"
    unfolding encodeBasic_def img bind_lift_Inr Let_def zclear_zopen zframe_def wrap_zdo_Some
    by (simp add: bind_io_assoc bind_ret_left)
  moreover from this have "encodeBasic z pixels w h k s = (Inr ([byte (k AND 3)] @ compactLen (length b) @ b), s')"
    using b(1) by (simp only: bind_io_def ret_simp prod.case sum.case)
  moreover have "rgb_to_bgra (inflate_next inflate d b) =
       concat (map (\<lambda>i. bgra (pixels ! (i * 4 + 2)) (pixels ! (i * 4 + 1)) (pixels ! (i * 4))) [0..<w * h])"
    unfolding b(4) rgb_to_bgra_concat by (simp add: comp_def)
  ultimately show ?thesis using b(3) by blast
qed

text \<open>The decoder's state: what each of the four decompressors has received.\<close>

definition streams_sync :: "deflater \<Rightarrow> (bytes \<Rightarrow> bytes) \<Rightarrow> (nat \<Rightarrow> worker) \<Rightarrow> bytes list \<Rightarrow> bool" where
  "streams_sync z inflate ws d \<longleftrightarrow>
     length d = 4 \<and> (\<forall>k < 4. zsync z inflate (fst (ws k)) (d ! k) \<and> \<not> snd (ws k))"

lemma tight_decoder_picture:
  assumes "readTightTile (tile_libs L inflate (d ! unat (hd data AND 3))) (ti_tileW ti) (ti_tileH ti) (live data [])
       = (Inr px, c)" and "tile_wf pixels stride ti"
  shows "tight_decoder L inflate d (tile_rectangle ti data) =
     (pixel_at (ti_tileW ti * 4) px,
      if hd data AND 0x0F = 0x08 \<or> hd data AND 0x0F = 0x09 then d
      else d[unat (hd data AND 3) := d ! unat (hd data AND 3) @ tile_stream_data data])"
  using assms by (simp add: tight_decoder_def tile_rectangle_def raw_picture_def tile_wf_def Let_def)

lemma solid_view:
  assumes "tile_wf pixels stride ti" and "ti_solid ti = Some (r, g, b)" and "\<And>c. close c c"
  shows "\<exists>img. tight_decoder L inflate d (tile_rectangle ti [0x08, r, g, b]) = (img, d) \<and>
     shows_region (shows_close close) pixels stride (inside (tile_area ti))
       (paint (tile_rectangle ti [0x08, r, g, b]) img pic) pic"
proof -
  let ?w = "ti_tileW ti" and ?h = "ti_tileH ti"
  let ?px = "concat (replicate (?w * ?h) (bgra r g b))"
  have dec: "tight_decoder L inflate d (tile_rectangle ti [0x08, r, g, b]) = (pixel_at (?w * 4) ?px, d)"
    using tight_decoder_picture [OF read_solid assms(1)] by simp
  have "pixel_at (?w * 4) ?px i j = bgra r g b" if "i < ?w" "j < ?h" for i j
    using grid_index [OF that] by (subst block_pixel) (auto simp: bgra_def)
  note px = this
  have "shows_region (shows_close close) pixels stride (inside (tile_area ti))
       (paint (tile_rectangle ti [0x08, r, g, b]) (pixel_at (?w * 4) ?px) pic) pic"
  proof (rule paint_tile_shows [OF assms(1)])
    fix i j
    assume ij: "i < ?w" "j < ?h"
    let ?k = "j * ?w + i"
    have "ti_pixels ti ! (?k * 4) = b \<and> ti_pixels ti ! (?k * 4 + 1) = g \<and> ti_pixels ti ! (?k * 4 + 2) = r"
      using assms(1,2) grid_index [OF ij] unfolding tile_wf_def by blast
    then show "\<exists>r' g' b'. pixel_at (?w * 4) ?px i j = bgra r' g' b' \<and>
        close (ti_pixels ti ! (?k * 4 + 2), ti_pixels ti ! (?k * 4 + 1), ti_pixels ti ! (?k * 4)) (r', g', b')"
      using px [OF ij] assms(3) by metis
  qed
  then show ?thesis using dec by blast
qed

lemma jpeg_okD:
  assumes "jpeg_ok jpeg L close" and "0 < w" and "w \<le> 64" and "0 < h" and "h \<le> 64" and "length img = w * h"
  shows "\<exists>b px. jpeg q w h img = Inr b \<and> length b < 4194304 \<and> lib_jpeg L b = Inr (w, h, px) \<and>
           (\<forall>x < w. \<forall>y < h. close (img ! (y * w + x)) (chan8 (px x y)))"
  using assms unfolding jpeg_ok_def by blast

lemma jpeg_view:
  assumes wf: "tile_wf pixels stride ti" and ok: "jpeg_ok jpeg L close"
  shows "\<exists>data img. encodeJPEG jpeg q (ti_pixels ti) (ti_tileW ti) (ti_tileH ti) = Inr data \<and>
     tight_decoder L inflate d (tile_rectangle ti data) = (img, d) \<and>
     shows_region (shows_close close) pixels stride (inside (tile_area ti))
       (paint (tile_rectangle ti data) img pic) pic"
proof -
  let ?w = "ti_tileW ti" and ?h = "ti_tileH ti" and ?p = "ti_pixels ti"
  let ?img = "map (\<lambda>i. (?p ! (i * 4 + 2), ?p ! (i * 4 + 1), ?p ! (i * 4))) [0..<?w * ?h]"
  have lim: "0 < ?w" "?w \<le> 64" "0 < ?h" "?h \<le> 64" using wf by (auto simp: tile_wf_def)
  have img: "mapM (rgb_at ?p) [0..<?h * ?w] = Inr ?img"
    using rgb_at_total [OF tile_wf_length [OF wf]] by (simp only: mult.commute [of ?h])
  have "length ?img = ?w * ?h" by simp
  then obtain b px where b: "jpeg q ?w ?h ?img = Inr b" "length b < 4194304" "lib_jpeg L b = Inr (?w, ?h, px)"
    and cl: "\<forall>x < ?w. \<forall>y < ?h. close (?img ! (y * ?w + x)) (chan8 (px x y))"
    using jpeg_okD [OF ok lim] by blast
  let ?data = "[0x09] @ compactLen (length b) @ b"
  have enc: "encodeJPEG jpeg q ?p ?w ?h = Inr ?data" using img b(1) by (simp add: encodeJPEG_def)
  have "lib_jpeg (tile_libs L inflate d') b = Inr (?w, ?h, px)" for d' using b(3) by (simp add: tile_libs_def)
  then have dec: "tight_decoder L inflate d (tile_rectangle ti ?data) = (pixel_at (?w * 4) (jpeg_to_bgra (?w, ?h, px)), d)"
    using tight_decoder_picture [OF read_jpeg [OF b(2)] wf] by simp
  have "shows_region (shows_close close) pixels stride (inside (tile_area ti))
       (paint (tile_rectangle ti ?data) (pixel_at (?w * 4) (jpeg_to_bgra (?w, ?h, px))) pic) pic"
  proof (rule paint_tile_shows [OF wf])
    fix i j
    assume ij: "i < ?w" "j < ?h"
    obtain r g b where c: "chan8 (px i j) = (r, g, b)" by (cases "chan8 (px i j)")
    have "?img ! (j * ?w + i) = (?p ! ((j * ?w + i) * 4 + 2), ?p ! ((j * ?w + i) * 4 + 1), ?p ! ((j * ?w + i) * 4))"
      using grid_index [OF ij] by (subst nth_map) simp_all
    note img_at = this
    have "close (?img ! (j * ?w + i)) (r, g, b)" using cl [rule_format, OF ij] unfolding c .
    then have "close (?p ! ((j * ?w + i) * 4 + 2), ?p ! ((j * ?w + i) * 4 + 1), ?p ! ((j * ?w + i) * 4)) (r, g, b)"
      unfolding img_at .
    moreover have "pixel_at (?w * 4) (jpeg_to_bgra (?w, ?h, px)) i j = bgra r g b"
      using jpeg_pixel [OF ij, of px] c by simp
    ultimately show "\<exists>r g b. pixel_at (?w * 4) (jpeg_to_bgra (?w, ?h, px)) i j = bgra r g b \<and>
        close (?p ! ((j * ?w + i) * 4 + 2), ?p ! ((j * ?w + i) * 4 + 1), ?p ! ((j * ?w + i) * 4)) (r, g, b)"
      by blast
  qed
  then show ?thesis using enc dec by blast
qed

lemma basic_view:
  assumes wf: "tile_wf pixels stride ti" and s: "streams_sync z inflate ws d" and "zlib_small z" and "\<And>c. close c c"
  shows "\<exists>data s' d' img. basic_task z (i, ti) (ws (ti_streamIdx ti)) = (Some (Inr data), (s', False)) \<and>
     tight_decoder L inflate d (tile_rectangle ti data) = (img, d') \<and>
     streams_sync z inflate (ws(ti_streamIdx ti := (s', False))) d' \<and>
     shows_region (shows_close close) pixels stride (inside (tile_area ti))
       (paint (tile_rectangle ti data) img pic) pic"
proof -
  let ?w = "ti_tileW ti" and ?h = "ti_tileH ti" and ?p = "ti_pixels ti" and ?k = "ti_streamIdx ti"
  have k: "?k < 4" and wh: "?w * ?h \<le> 4096"
    using wf mult_le_mono [of ?w 64 ?h 64] by (auto simp: tile_wf_def)
  obtain st where ws: "ws ?k = (st, False)" "zsync z inflate st (d ! ?k)"
    using s k by (cases "ws ?k") (auto simp: streams_sync_def)
  let ?B = "map (\<lambda>i. bgra (?p ! (i * 4 + 2)) (?p ! (i * 4 + 1)) (?p ! (i * 4))) [0..<?w * ?h]"
  obtain b s' where b: "encodeBasic z ?p ?w ?h ?k st = (Inr ([byte (?k AND 3)] @ compactLen (length b) @ b), s')"
      "zsync z inflate s' (d ! ?k @ b)" "length b < 4194304"
      "rgb_to_bgra (inflate_next inflate (d ! ?k) b) = concat ?B"
    using encodeBasic_sync [OF ws(2) assms(3) tile_wf_length [OF wf] wh] by blast
  let ?data = "[byte (?k AND 3)] @ compactLen (length b) @ b"
  have dec: "tight_decoder L inflate d (tile_rectangle ti ?data) = (pixel_at (?w * 4) (concat ?B), d[?k := d ! ?k @ b])"
    using tight_decoder_picture [OF read_basic [OF b(3) k] wf] basic_control [OF k] basic_stream_data [OF b(3)] b(4)
    by simp
  have "shows_region (shows_close close) pixels stride (inside (tile_area ti))
       (paint (tile_rectangle ti ?data) (pixel_at (?w * 4) (concat ?B)) pic) pic"
  proof (rule paint_tile_shows [OF wf])
    fix i j
    assume ij: "i < ?w" "j < ?h"
    have "pixel_at (?w * 4) (concat ?B) i j = ?B ! (j * ?w + i)"
      by (rule block_pixel) (use grid_index [OF ij] in \<open>auto simp: bgra_def\<close>)
    moreover have "?B ! (j * ?w + i) = bgra (?p ! ((j * ?w + i) * 4 + 2)) (?p ! ((j * ?w + i) * 4 + 1)) (?p ! ((j * ?w + i) * 4))"
      using grid_index [OF ij] by (subst nth_map) simp_all
    ultimately have "pixel_at (?w * 4) (concat ?B) i j =
        bgra (?p ! ((j * ?w + i) * 4 + 2)) (?p ! ((j * ?w + i) * 4 + 1)) (?p ! ((j * ?w + i) * 4))" by (rule trans)
    then show "\<exists>r g b. pixel_at (?w * 4) (concat ?B) i j = bgra r g b \<and>
        close (?p ! ((j * ?w + i) * 4 + 2), ?p ! ((j * ?w + i) * 4 + 1), ?p ! ((j * ?w + i) * 4)) (r, g, b)"
      using assms(4) by blast
  qed
  moreover have "streams_sync z inflate (ws(?k := (s', False))) (d[?k := d ! ?k @ b])"
    using s k b(2) by (auto simp: streams_sync_def nth_list_update)
  ultimately show ?thesis using ws(1) b(1) dec by (auto simp: basic_task_def)
qed
section \<open>All tiles\<close>

lemma tile_view:
  assumes "tile_wf pixels stride ti" and "streams_sync z inflate ws d"
    and "zlib_small z" and "jpeg_ok jpeg L close"
    and "run_tasks task_stream (basic_task z) (if isBasic ti then [(i, ti)] else []) ws = (out, ws')"
    and "\<And>t r. (t, r) \<in> set out \<Longrightarrow> basic (fst t) = r"
  shows "\<exists>data img d'. tile_result jpeg q basic (i, ti) = Inr data \<and>
     tight_decoder L inflate d (tile_rectangle ti data) = (img, d') \<and> streams_sync z inflate ws' d' \<and>
     shows_region (shows_close close) pixels stride (inside (tile_area ti))
       (paint (tile_rectangle ti data) img pic) pic"
proof -
  have refl: "\<And>c. close c c" using assms(4) unfolding jpeg_ok_def by blast
  consider (solid) r g b where "ti_solid ti = Some (r, g, b)" | (jpeg) "ti_solid ti = None" "ti_isJPEG ti"
    | (basic) "isBasic ti" by (cases "ti_solid ti") (auto simp: isBasic_def)
  then show ?thesis
  proof cases
    case solid
    then show ?thesis using solid_view [where close = close and L = L and inflate = inflate and d = d and pic = pic, OF assms(1) solid refl] assms(2,5)
      by (auto simp: tile_result_def isBasic_def)
  next
    case jpeg
    then show ?thesis using jpeg_view [where q = q and inflate = inflate and d = d and pic = pic, OF assms(1,4)] assms(2,5)
      by (auto simp: tile_result_def isBasic_def)
  next
    case basic
    obtain data s' d' img where b: "basic_task z (i, ti) (ws (ti_streamIdx ti)) = (Some (Inr data), (s', False))"
        "tight_decoder L inflate d (tile_rectangle ti data) = (img, d')"
        "streams_sync z inflate (ws(ti_streamIdx ti := (s', False))) d'"
        "shows_region (shows_close close) pixels stride (inside (tile_area ti)) (paint (tile_rectangle ti data) img pic) pic"
      using basic_view [where i = i and L = L and close = close and pic = pic, OF assms(1,2,3) refl] by blast
    have "out = [((i, ti), Some (Inr data))]" "ws' = ws(ti_streamIdx ti := (s', False))"
      using assms(5) basic b(1) by (auto simp: task_stream_def)
    moreover from this have "tile_result jpeg q basic (i, ti) = Inr data"
      using assms(6) [of "(i, ti)" "Some (Inr data)"] basic by (auto simp: tile_result_def isBasic_def)
    ultimately show ?thesis using b by auto
  qed
qed

lemma run_tasks_append:
  "run_tasks wk f (ts @ us) ws =
     (case run_tasks wk f ts ws of (out, ws1) \<Rightarrow> case run_tasks wk f us ws1 of (out', ws2) \<Rightarrow> (out @ out', ws2))"
  by (induction ts arbitrary: ws) (auto split: prod.splits)

lemma tiles_view:
  assumes "\<And>t. t \<in> set tls \<Longrightarrow> tile_wf pixels stride (snd t)" and "streams_sync z inflate ws d"
    and "zlib_small z" and "jpeg_ok jpeg L close"
    and "run_tasks task_stream (basic_task z) (filter (\<lambda>(i, ti). isBasic ti) tls) ws = (out, ws')"
    and "\<And>t r. (t, r) \<in> set out \<Longrightarrow> basic (fst t) = r"
  shows "\<exists>rects pic' d'. mapM (assemble_tile (tile_result jpeg q basic)) tls = Inr rects \<and>
     view_rects (tight_decoder L inflate) d rects pic = (pic', d') \<and> streams_sync z inflate ws' d' \<and>
     shows_region (shows_close close) pixels stride (covered (map (tile_area \<circ> snd) tls)) pic' pic"
  using assms(1,2,5,6)
proof (induction tls arbitrary: ws d out pic)
  case Nil
  then show ?case using shows_region_empty by (auto simp: covered_def)
next
  case (Cons t tls)
  obtain i ti where t: "t = (i, ti)" by force
  have wf: "tile_wf pixels stride ti" using Cons.prems(1) [of t] t by simp
  obtain out1 ws1 where r1: "run_tasks task_stream (basic_task z) (if isBasic ti then [(i, ti)] else []) ws = (out1, ws1)"
    by force
  obtain out2 where r2: "run_tasks task_stream (basic_task z) (filter (\<lambda>(i, ti). isBasic ti) tls) ws1 = (out2, ws')"
      "out = out1 @ out2"
    using Cons.prems(3) r1 t run_tasks_append [of task_stream "basic_task z" "if isBasic ti then [(i, ti)] else []"
        "filter (\<lambda>(i, ti). isBasic ti) tls" ws]
    by (cases "run_tasks task_stream (basic_task z) (filter (\<lambda>(i, ti). isBasic ti) tls) ws1") (auto split: if_splits)
  obtain data img d1 where 1: "tile_result jpeg q basic (i, ti) = Inr data"
      "tight_decoder L inflate d (tile_rectangle ti data) = (img, d1)" "streams_sync z inflate ws1 d1"
      "shows_region (shows_close close) pixels stride (inside (tile_area ti)) (paint (tile_rectangle ti data) img pic) pic"
    using tile_view [OF wf Cons.prems(2) assms(3,4) r1, of basic q pic] Cons.prems(4) r2(2) by auto
  obtain rects pic' d' where 2: "mapM (assemble_tile (tile_result jpeg q basic)) tls = Inr rects"
      "view_rects (tight_decoder L inflate) d1 rects (paint (tile_rectangle ti data) img pic) = (pic', d')"
      "streams_sync z inflate ws' d'"
      "shows_region (shows_close close) pixels stride (covered (map (tile_area \<circ> snd) tls)) pic' (paint (tile_rectangle ti data) img pic)"
    using Cons.IH [OF Cons.prems(1) 1(3) r2(1)] Cons.prems(4) r2(2) by (metis UnCI list.set_intros(2) set_append)
  have "mapM (assemble_tile (tile_result jpeg q basic)) (t # tls) = Inr (tile_rectangle ti data # rects)"
    using 1(1) 2(1) t by (simp add: assemble_tile_def)
  moreover have "view_rects (tight_decoder L inflate) d (tile_rectangle ti data # rects) pic = (pic', d')"
    using 1(2) 2(2) by simp
  moreover have "shows_region (shows_close close) pixels stride (covered (map (tile_area \<circ> snd) (t # tls))) pic' pic"
    by (rule shows_region_cong [OF shows_region_seq [OF 1(4) 2(4)]]) (simp add: covered_def t)
  ultimately show ?case using 2(3) by blast
qed

section \<open>Classification\<close>

lemma classify_tile_Inr:
  assumes f: "frame_has pixels stride (x + tx) (y + ty) tw th" and pos: "0 < tw * th"
  shows "\<exists>ti n'. classify_tile x y pixels stride (tx, ty, tw, th) (tiles, n) = Inr (tiles @ [ti], n') \<and>
     ti_absX ti = x + tx \<and> ti_absY ti = y + ty \<and> ti_tileW ti = tw \<and> ti_tileH ti = th \<and>
     ti_pixels ti = region_bytes pixels stride (x + tx) (y + ty) tw th \<and> ti_streamIdx ti < 4 \<and>
     (\<forall>r g b. ti_solid ti = Some (r, g, b) \<longrightarrow> (\<forall>i < tw * th. ti_pixels ti ! (i * 4) = b \<and>
        ti_pixels ti ! (i * 4 + 1) = g \<and> ti_pixels ti ! (i * 4 + 2) = r))"
proof -
  let ?p = "region_bytes pixels stride (x + tx) (y + ty) tw th"
  have len: "length ?p = tw * th * 4" using length_region_bytes [OF f] by simp
  obtain c where c: "isSolidColor ?p tw th = Inr c"
    "\<forall>r g b. c = Some (r, g, b) \<longrightarrow> (\<forall>i < tw * th. ?p ! (i * 4) = b \<and> ?p ! (i * 4 + 1) = g \<and> ?p ! (i * 4 + 2) = r)"
    using isSolidColor_total [OF len pos] by blast
  obtain v where v: "colorVariance ?p tw th = Inr v" using colorVariance_total [OF len pos] by blast
  let ?ti = "\<lparr>ti_absX = x + tx, ti_absY = y + ty, ti_tileW = tw, ti_tileH = th, ti_pixels = ?p,
     ti_solid = c, ti_isJPEG = c = None \<and> tw * th \<ge> 4096 \<and> v > 512,
     ti_streamIdx = if c \<noteq> None \<or> tw * th \<ge> 4096 \<and> v > 512 then 0 else n mod 4\<rparr>"
  have "\<exists>n'. classify_tile x y pixels stride (tx, ty, tw, th) (tiles, n) = Inr (tiles @ [?ti], n')"
    using c(1) v tile_pixels_Inr [OF f] by (cases c) (auto simp: classify_tile_def Let_def)
  then obtain n' where "classify_tile x y pixels stride (tx, ty, tw, th) (tiles, n) = Inr (tiles @ [?ti], n')" ..
  then show ?thesis using c(2) by (intro exI [of _ ?ti] exI [of _ n']) simp
qed

lemma classify_tile_ok:
  assumes "frame_has pixels stride x y w h" and "x + w \<le> 65536" and "y + h \<le> 65536"
    and "tx + tw \<le> w" and "ty + th \<le> h" and "0 < tw" and "tw \<le> 64" and "0 < th" and "th \<le> 64"
  shows "\<exists>ti n'. classify_tile x y pixels stride (tx, ty, tw, th) (tiles, n) = Inr (tiles @ [ti], n') \<and>
     tile_wf pixels stride ti \<and> tile_area ti = tile_rect (x + tx, y + ty, tw, th)"
proof -
  have f: "frame_has pixels stride (x + tx) (y + ty) tw th" by (rule frame_has_sub [OF assms(1,4,5)])
  have pos: "0 < tw * th" using assms by simp
  obtain ti n' where ti: "classify_tile x y pixels stride (tx, ty, tw, th) (tiles, n) = Inr (tiles @ [ti], n')"
    "ti_absX ti = x + tx" "ti_absY ti = y + ty" "ti_tileW ti = tw" "ti_tileH ti = th"
    "ti_pixels ti = region_bytes pixels stride (x + tx) (y + ty) tw th" "ti_streamIdx ti < 4"
    "\<forall>r g b. ti_solid ti = Some (r, g, b) \<longrightarrow> (\<forall>i < tw * th. ti_pixels ti ! (i * 4) = b \<and>
        ti_pixels ti ! (i * 4 + 1) = g \<and> ti_pixels ti ! (i * 4 + 2) = r)"
    using classify_tile_Inr [OF f pos] by blast
  have "tile_wf pixels stride ti" unfolding tile_wf_def using f assms ti(7,8) by (simp add: ti(2-6))
  then show ?thesis using ti by (auto simp: tile_area_def)
qed

lemma classify_fold:
  assumes "frame_has pixels stride x y w h" and "x + w \<le> 65536" and "y + h \<le> 65536"
    and "\<And>tx ty tw th. (tx, ty, tw, th) \<in> set tls \<Longrightarrow>
       tx + tw \<le> w \<and> ty + th \<le> h \<and> 0 < tw \<and> tw \<le> 64 \<and> 0 < th \<and> th \<le> 64"
  shows "\<exists>tiles' n'. foldM (classify_tile x y pixels stride) tls (tiles, n) = Inr (tiles @ tiles', n') \<and>
     (\<forall>ti \<in> set tiles'. tile_wf pixels stride ti) \<and>
     map tile_area tiles' = map (\<lambda>(tx, ty, tw, th). tile_rect (x + tx, y + ty, tw, th)) tls"
  using assms(4)
proof (induction tls arbitrary: tiles n)
  case Nil
  then show ?case by simp
next
  case (Cons t tls)
  obtain tx ty tw th where t: "t = (tx, ty, tw, th)" by (metis prod_cases4)
  obtain ti n1 where 1: "classify_tile x y pixels stride t (tiles, n) = Inr (tiles @ [ti], n1)"
      "tile_wf pixels stride ti" "tile_area ti = tile_rect (x + tx, y + ty, tw, th)"
    using classify_tile_ok [OF assms(1,2,3)] Cons.prems [of tx ty tw th] t by (metis list.set_intros(1))
  obtain tiles' n' where 2: "foldM (classify_tile x y pixels stride) tls (tiles @ [ti], n1) = Inr ((tiles @ [ti]) @ tiles', n')"
      "\<forall>ti \<in> set tiles'. tile_wf pixels stride ti"
      "map tile_area tiles' = map (\<lambda>(tx, ty, tw, th). tile_rect (x + tx, y + ty, tw, th)) tls"
    using Cons.IH [of "tiles @ [ti]" n1] Cons.prems by (metis list.set_intros(2))
  show ?case using 1 2 t by (intro exI [of _ "ti # tiles'"] exI [of _ n']) auto
qed

lemma classify_tiles_ok:
  assumes "frame_has pixels stride x y w h" and "x + w \<le> 65536" and "y + h \<le> 65536"
  shows "\<exists>tiles. classify_tiles x y w h pixels stride = Inr tiles \<and>
     (\<forall>ti \<in> set tiles. tile_wf pixels stride ti) \<and>
     (\<forall>i j. covered (map tile_area tiles) (int i) (int j) \<longleftrightarrow> inside (tile_rect (x, y, w, h)) (int i) (int j))"
proof -
  let ?T = "rect_tiles tileSize w h"
  have b: "tx + tw \<le> w \<and> ty + th \<le> h \<and> 0 < tw \<and> tw \<le> 64 \<and> 0 < th \<and> th \<le> 64"
    if "(tx, ty, tw, th) \<in> set ?T" for tx ty tw th
    using rect_tiles_within [OF that] that by (auto simp: rect_tiles_iff tileSize_def)
  obtain tiles n where t: "foldM (classify_tile x y pixels stride) ?T ([], 0) = Inr (tiles, n)"
      "\<forall>ti \<in> set tiles. tile_wf pixels stride ti"
      "map tile_area tiles = map (\<lambda>(tx, ty, tw, th). tile_rect (x + tx, y + ty, tw, th)) ?T"
    using classify_fold [where tls = ?T and tiles = "[]" and n = 0, OF assms b] by auto
  have "covered (map tile_area tiles) (int i) (int j) \<longleftrightarrow> inside (tile_rect (x, y, w, h)) (int i) (int j)" for i j
  proof
    assume "covered (map tile_area tiles) (int i) (int j)"
    then obtain tx ty tw th where "(tx, ty, tw, th) \<in> set ?T" "inside (tile_rect (x + tx, y + ty, tw, th)) (int i) (int j)"
      unfolding covered_def t(3) by auto
    then show "inside (tile_rect (x, y, w, h)) (int i) (int j)" using b by (fastforce simp: inside_tile_rect)
  next
    assume "inside (tile_rect (x, y, w, h)) (int i) (int j)"
    then have ij: "x \<le> i" "i - x < w" "y \<le> j" "j - y < h" by (auto simp: inside_tile_rect)
    have "0 < tileSize" by (simp add: tileSize_def)
    from rect_tiles_cover [OF this ij(2,4)] obtain tx ty tw th
      where "(tx, ty, tw, th) \<in> set ?T" "inside (tile_rect (tx, ty, tw, th)) (int (i - x)) (int (j - y))"
      by (metis prod_cases4)
    moreover from this(2) ij have "inside (tile_rect (x + tx, y + ty, tw, th)) (int i) (int j)"
      unfolding inside_tile_rect by auto
    ultimately show "covered (map tile_area tiles) (int i) (int j)"
      unfolding covered_def t(3) by force
  qed
  then show ?thesis using t by (auto simp: classify_tiles_def)
qed

section \<open>The order of the stream workers does not matter\<close>

lemma classify_tile_stream:
  assumes "classify_tile x y pixels stride t acc = Inr acc'" and "\<forall>ti \<in> set (fst acc). ti_streamIdx ti < 4"
  shows "\<forall>ti \<in> set (fst acc'). ti_streamIdx ti < 4"
  using assms by (cases t; cases acc) (auto simp: classify_tile_def Let_def rbind_Inr_iff split: if_splits)

lemma classify_tiles_stream:
  "classify_tiles x y w h pixels stride = Inr tiles \<Longrightarrow> ti \<in> set tiles \<Longrightarrow> ti_streamIdx ti < 4"
proof -
  assume "classify_tiles x y w h pixels stride = Inr tiles" and ti: "ti \<in> set tiles"
  then obtain n where "foldM (classify_tile x y pixels stride) (rect_tiles tileSize w h) ([], 0) = Inr (tiles, n)"
    by (auto simp: classify_tiles_def rbind_Inr_iff)
  then have "\<forall>ti \<in> set (fst (tiles, n)). ti_streamIdx ti < 4"
    by (rule foldM_inv) (use classify_tile_stream in auto)
  then show ?thesis using ti by simp
qed

lemma distinct_by_worker:
  assumes "\<And>s. distinct (filter (\<lambda>t. wk t = s) ts)"
  shows "distinct ts"
  using assms
proof (induction ts)
  case Nil
  then show ?case by simp
next
  case (Cons t ts)
  have "distinct (filter (\<lambda>u. wk u = s) ts)" for s
    using Cons.prems [of s] by (auto split: if_splits)
  moreover have "t \<notin> set ts" using Cons.prems [of "wk t"] by auto
  ultimately show ?case using Cons.IH by simp
qed

lemma basic_tasks_index: "distinct (map fst (basic_tasks tiles))"
  unfolding basic_tasks_def by (rule distinct_map_filter) (simp add: enumerate_eq_zip)

lemma interleaving_tasks:
  assumes "\<And>s. filter (\<lambda>t. task_stream t = s) order = streamWork tiles s"
  shows "distinct (map fst order) \<and> set order = set (basic_tasks tiles)"
proof -
  have "distinct (streamWork tiles s)" for s
    using basic_tasks_index [of tiles] by (simp add: streamWork_def distinct_map)
  then have d: "distinct order" using distinct_by_worker assms by metis
  have "t \<in> set order \<longleftrightarrow> t \<in> set (basic_tasks tiles)" for t
  proof -
    have "t \<in> set (filter (\<lambda>u. task_stream u = task_stream t) order) \<longleftrightarrow> t \<in> set (streamWork tiles (task_stream t))"
      using assms by simp
    then show ?thesis by (simp add: streamWork_def)
  qed
  then have s: "set order = set (basic_tasks tiles)" by blast
  have "inj_on fst (set order)" using basic_tasks_index s by (simp add: distinct_map)
  then show ?thesis using d s by (simp add: distinct_map)
qed

lemma encode_tiles_interleave:
  assumes "\<And>s. filter (\<lambda>t. task_stream t = s) order = streamWork tiles s"
    and "\<And>s. filter (\<lambda>t. task_stream t = s) order' = streamWork tiles s"
  shows "encode_tiles z jpeg order tiles t = encode_tiles z jpeg order' tiles t"
proof -
  let ?ws = "\<lambda>s. (t_streams t ! s, False)"
  obtain out ws1 where 1: "run_tasks task_stream (basic_task z) order ?ws = (out, ws1)" by force
  obtain out' ws2 where 2: "run_tasks task_stream (basic_task z) order' ?ws = (out', ws2)" by force
  have "set out = set out' \<and> ws1 = ws2"
    by (rule run_tasks_interleave [OF _ 1 2]) (simp add: assms)
  moreover have "distinct (map (fst \<circ> fst) out)" "distinct (map (fst \<circ> fst) out')"
    using run_tasks_tasks [OF 1] run_tasks_tasks [OF 2] interleaving_tasks [OF assms(1)] interleaving_tasks [OF assms(2)]
    by (simp_all flip: map_map)
  ultimately show ?thesis using result_of_cong [of out out'] 1 2 by (simp add: encode_tiles_def)
qed

lemma filter_concat_streams:
  assumes "\<And>ti. ti \<in> set tiles \<Longrightarrow> ti_streamIdx ti < 4"
  shows "filter (\<lambda>t. task_stream t = s) (concat (map (streamWork tiles) [0..<4])) = streamWork tiles s"
proof -
  have f: "filter (\<lambda>t. task_stream t = s) (streamWork tiles k) = (if k = s then streamWork tiles k else [])" for k
    by (auto simp: streamWork_def intro!: filter_cong filter_False)
  have "streamWork tiles s = []" if "\<not> s < 4"
    using assms that by (auto simp: streamWork_def basic_tasks_def task_stream_def enumerate_eq_zip
        dest!: set_zip_rightD intro!: filter_False)
  then show ?thesis
    using idx4 [of s] by (cases "s < 4") (auto simp: filter_concat f upt_rec comp_def numeral_2_eq_2 numeral_3_eq_3)
qed


section \<open>Regions outside the frame\<close>

lemma tile_pixels_Inl:
  assumes "\<not> frame_has pixels stride (x + tx) (y + ty) tw th"
  shows "\<exists>a. tile_pixels x y pixels stride (tx, ty, tw, th) =
     Inl (Errorf ''tight encode: pixel data out of bounds at tile (%d,%d) row %d'' a)"
proof -
  let ?bad = "\<lambda>row. (y + ty + row) * stride + (x + tx) * 4 + tw * 4 > length pixels"
  obtain row where row: "row < th" "?bad row" using assms by (auto simp: frame_has_def)
  define k where "k = (LEAST r. ?bad r)"
  have k: "k < th" "?bad k"
    using Least_le [of ?bad, OF row(2)] row(1) LeastI [of ?bad, OF row(2)] unfolding k_def by linarith+
  have least: "\<not> ?bad r" if "r < k" for r
    using not_less_Least [of r ?bad] that unfolding k_def by blast
  let ?body = "\<lambda>row tilePixels.
          let srcY = y + ty + row; srcX = x + tx; srcOffset = srcY * stride + srcX * 4;
              srcEnd = srcOffset + tw * 4 in
          if srcEnd > length pixels
          then Inl (Errorf ''tight encode: pixel data out of bounds at tile (%d,%d) row %d''
                     [int tx, int ty, int row])
          else rbind (gslice srcOffset srcEnd pixels) (\<lambda>b.
               copy_at (row * tw * 4) (length tilePixels) tilePixels b)"
  have "frame_has pixels stride (x + tx) (y + ty) tw k"
    using least by (auto simp: frame_has_def not_less)
  then have pre: "\<exists>tp. foldM ?body [0..<k] (replicate (tw * th * 4) 0) = Inr tp"
    using tile_rows_prefix [of pixels stride x tx y ty tw k th] k(1) by simp
  have split: "[0..<th] = [0..<k] @ k # [Suc k..<th]"
    using k(1) by (metis less_imp_le upt_add_eq_append upt_conv_Cons le_add_diff_inverse le0)
  have "?body k tp = Inl (Errorf ''tight encode: pixel data out of bounds at tile (%d,%d) row %d''
                     [int tx, int ty, int k])" for tp
    using k(2) by (simp add: Let_def)
  then show ?thesis using pre unfolding tile_pixels_def prod.case split foldM_append by auto
qed

lemma classify_fold_fail:
  assumes "(tx, ty, tw, th) \<in> set tls" and "\<not> frame_has pixels stride (x + tx) (y + ty) tw th"
    and "\<And>tx ty tw th. (tx, ty, tw, th) \<in> set tls \<Longrightarrow> 0 < tw * th"
  shows "\<exists>m a. foldM (classify_tile x y pixels stride) tls acc = Inl (Errorf m a)"
  using assms(1,3)
proof (induction tls arbitrary: acc)
  case Nil
  then show ?case by simp
next
  case (Cons t tls)
  obtain a b c d where t: "t = (a, b, c, d)" by (metis prod_cases4)
  obtain tiles n where acc: "acc = (tiles, n)" by force
  show ?case
  proof (cases "frame_has pixels stride (x + a) (y + b) c d")
    case False
    then show ?thesis using tile_pixels_Inl [OF False] t acc by (auto simp: classify_tile_def)
  next
    case True
    then have "(tx, ty, tw, th) \<in> set tls" using Cons.prems(1) t assms(2) by auto
    moreover obtain acc' where "classify_tile x y pixels stride t acc = Inr acc'"
      using classify_tile_Inr [OF True, of tiles n] Cons.prems(2) [of a b c d] t acc by auto
    ultimately show ?thesis using Cons.IH Cons.prems(2) by (simp del: nat_0_less_mult_iff) (metis)
  qed
qed

lemma classify_tiles_fail:
  assumes "\<not> frame_has pixels stride x y w h" and "0 < w"
  shows "\<exists>m a. classify_tiles x y w h pixels stride = Inl (Errorf m a)"
proof -
  obtain r where r: "r < h" "(y + r) * stride + x * 4 + w * 4 > length pixels"
    using assms(1) by (auto simp: frame_has_def not_le)
  have "0 < tileSize" by (simp add: tileSize_def)
  from rect_tiles_cover [OF this, of "w - 1" w r h] assms(2) r(1) obtain tx ty tw th
    where t: "(tx, ty, tw, th) \<in> set (rect_tiles tileSize w h)"
      "inside (tile_rect (tx, ty, tw, th)) (int (w - 1)) (int r)"
    by (metis prod_cases4 diff_less zero_less_one)
  have b: "tx + tw \<le> w" using rect_tiles_within [OF t(1)] by simp
  have i: "tx \<le> w - 1" "w - 1 < tx + tw" "ty \<le> r" "r < ty + th" using t(2) unfolding inside_tile_rect by auto
  then have "tx + tw = w" using b by linarith
  then have "(y + ty + (r - ty)) * stride + (x + tx) * 4 + tw * 4 = (y + r) * stride + x * 4 + w * 4"
    using i(3) by auto
  then have "\<not> frame_has pixels stride (x + tx) (y + ty) tw th"
    using frame_hasD [of pixels stride "x + tx" "y + ty" tw th "r - ty"] r(2) i(3,4) by (metis less_diff_conv2 not_less add.commute)
  moreover have "0 < tw' * th'" if "(tx', ty', tw', th') \<in> set (rect_tiles tileSize w h)" for tx' ty' tw' th'
    using rect_tiles_within [OF that] that by (auto simp: rect_tiles_iff tileSize_def)
  ultimately show ?thesis
    using classify_fold_fail [OF t(1), of pixels stride x y "([], 0)"] by (auto simp: classify_tiles_def)
qed

section \<open>The contract of the encoder interface\<close>

definition tight_sync ::
  "deflater \<Rightarrow> (bytes \<Rightarrow> bytes) \<Rightarrow> jpeg_encoder \<Rightarrow> client_libs \<Rightarrow> (u8 \<times> u8 \<times> u8 \<Rightarrow> u8 \<times> u8 \<times> u8 \<Rightarrow> bool) \<Rightarrow>
   Tight \<Rightarrow> bytes list \<Rightarrow> bool" where
  "tight_sync z inflate jpeg L close t d \<longleftrightarrow>
     zlib_small z \<and> jpeg_ok jpeg L close \<and> length (t_streams t) = 4 \<and>
     streams_sync z inflate (\<lambda>s. (t_streams t ! s, False)) d"

lemma EncodeMulti_shows:
  assumes "tight_sync z inflate jpeg L close t d" and "area_ok pixels stride a"
  shows "\<exists>rects t' pic' d'. EncodeMulti z jpeg a pixels stride t = (Inr rects, t') \<and>
     view_rects (tight_decoder L inflate) d rects pic = (pic', d') \<and> tight_sync z inflate jpeg L close t' d' \<and>
     shows_region (shows_close close) pixels stride (inside (area_rect a)) pic' pic"
proof -
  obtain x y w h where a: "a = (x, y, w, h)" by (metis prod_cases4)
  have f: "frame_has pixels stride (unat x) (unat y) (unat w) (unat h)" "unat x + unat w \<le> 65536" "unat y + unat h \<le> 65536"
    using assms(2) a by (auto simp: area_ok_def)
  obtain tiles where t: "classify_tiles (unat x) (unat y) (unat w) (unat h) pixels stride = Inr tiles"
      "\<forall>ti \<in> set tiles. tile_wf pixels stride ti"
      "\<And>i j. covered (map tile_area tiles) (int i) (int j) \<longleftrightarrow> inside (tile_rect (unat x, unat y, unat w, unat h)) (int i) (int j)"
    using classify_tiles_ok [OF f] by blast
  let ?ws = "\<lambda>s. (t_streams t ! s, False)" and ?tl = "enumerate 0 tiles"
  obtain out ws' where run: "run_tasks task_stream (basic_task z) (basic_tasks tiles) ?ws = (out, ws')" by force
  have "distinct (map (fst \<circ> fst) out)"
    using run_tasks_tasks [OF run] basic_tasks_index [of tiles] by (simp flip: map_map)
  then have res: "result_of out (fst u) = r" if "(u, r) \<in> set out" for u r
    using result_of_unique [of out "fst u" "snd u" r] that by simp
  have wf: "tile_wf pixels stride (snd u)" if "u \<in> set ?tl" for u
    using that t(2) set_zip_rightD [of "fst u" "snd u" "[0..<length tiles]" tiles]
    by (simp add: enumerate_eq_zip)
  have ss: "streams_sync z inflate ?ws d" and lib: "zlib_small z" "jpeg_ok jpeg L close"
    using assms(1) by (auto simp: tight_sync_def)
  obtain rects pic' d' where v: "mapM (assemble_tile (tile_result jpeg (t_jpegQuality t) (result_of out))) ?tl = Inr rects"
      "view_rects (tight_decoder L inflate) d rects pic = (pic', d')" "streams_sync z inflate ws' d'"
      "shows_region (shows_close close) pixels stride (covered (map (tile_area \<circ> snd) ?tl)) pic' pic"
    using tiles_view [where tls = ?tl and ws = ?ws and basic = "result_of out",
        OF wf ss lib run [unfolded basic_tasks_def] res] by blast
  let ?t' = "t\<lparr>t_streams := map (\<lambda>s. fst (ws' s)) [0..<4]\<rparr>"
  have seq: "encode_tiles z jpeg (basic_tasks tiles) tiles t = (Inr rects, ?t')"
    using run v(1) by (simp add: encode_tiles_def)
  have "encode_tiles z jpeg (concat (map (streamWork tiles) [0..<4])) tiles t = encode_tiles z jpeg (basic_tasks tiles) tiles t"
    by (rule encode_tiles_interleave)
      (use filter_concat_streams classify_tiles_stream [OF t(1)] in \<open>auto simp: streamWork_def\<close>)
  then have "EncodeMulti z jpeg a pixels stride t = (Inr rects, ?t')"
    using t(1) seq by (simp add: a EncodeMulti_def EncodeMulti_order_def conn_simps)
  moreover have "tight_sync z inflate jpeg L close ?t' d'"
    using v(3) lib by (auto simp: tight_sync_def streams_sync_def)
  moreover have "shows_region (shows_close close) pixels stride (inside (area_rect a)) pic' pic"
    by (rule shows_region_cong [OF v(4)]) (use t(3) in \<open>simp add: a area_rect_def enumerate_eq_zip flip: map_map\<close>)
  ultimately show ?thesis using v(2) by blast
qed

interpretation tight: rect_encoder "EncodeMulti z jpeg" "tight_decoder L inflate"
  "tight_sync z inflate jpeg L close" "shows_close close" for z jpeg L inflate close
proof
  fix s d pixels stride a and pic :: picture
  assume "tight_sync z inflate jpeg L close s d" "area_ok pixels stride a"
  then show "\<exists>rects s' pic' d'. EncodeMulti z jpeg a pixels stride s = (Inr rects, s') \<and>
      view_rects (tight_decoder L inflate) d rects pic = (pic', d') \<and> tight_sync z inflate jpeg L close s' d' \<and>
      shows_region (shows_close close) pixels stride (inside (area_rect a)) pic' pic"
    by (rule EncodeMulti_shows)
next
  fix s d pixels stride and x y w h :: u16
  assume "\<not> frame_has pixels stride (unat x) (unat y) (unat w) (unat h)" "0 < unat w"
  then obtain m a where "classify_tiles (unat x) (unat y) (unat w) (unat h) pixels stride = Inl (Errorf m a)"
    using classify_tiles_fail by blast
  then show "\<exists>e s'. EncodeMulti z jpeg (x, y, w, h) pixels stride s = (Inl e, s') \<and> \<not> is_panic (Inl e :: unit res)"
    by (simp add: EncodeMulti_def EncodeMulti_order_def conn_simps)
qed

section \<open>Properties\<close>

text \<open>
  The compact length of the Tight encoder is read back by the client's \<^verbatim>\<open>readCompactLen\<close>,
  and nothing after it is consumed, for every length below \<open>2 ^ 22\<close> (a third byte holds eight
  bits; longer lengths are cut).
\<close>

theorem compactLen_roundtrip:
  "readCompactLen (live (compactLen n @ rest) out) = (Inr n, live rest out) \<or> n \<ge> 2 ^ 22"
  using readCompactLen_compactLen [of n rest out] by (cases "n < 4194304") auto

text \<open>
  \<^verbatim>\<open>EncodeMulti\<close> gives the same rectangles and leaves the same zlib streams in whatever order
  the goroutines run: for every order of the basic tiles in which each stream's tiles keep
  their order, the result is that of running the streams one after the other.
\<close>

lemma EncodeMulti_schedule_independent:
  assumes "\<And>tiles s. filter (\<lambda>t. task_stream t = s) (order tiles) = streamWork tiles s"
  shows "EncodeMulti_order z jpeg order a pixels stride t = EncodeMulti z jpeg a pixels stride t"
proof -
  obtain x y w h where a: "a = (x, y, w, h)" by (metis prod_cases4)
  show ?thesis
  proof (cases "classify_tiles (unat x) (unat y) (unat w) (unat h) pixels stride")
    case (Inl e)
    then show ?thesis by (simp add: a EncodeMulti_def EncodeMulti_order_def conn_simps)
  next
    case (Inr tiles)
    have "encode_tiles z jpeg (order tiles) tiles t = encode_tiles z jpeg (concat (map (streamWork tiles) [0..<4])) tiles t"
      by (rule encode_tiles_interleave)
        (use assms filter_concat_streams classify_tiles_stream [OF Inr] in auto)
    then show ?thesis using Inr by (simp add: a EncodeMulti_def EncodeMulti_order_def conn_simps)
  qed
qed

lemma EncodeMulti_schedule_independent_witness:
  "EncodeMulti_order stored (\<lambda>q w h img. Inr []) basic_tasks (0, 0, 1, 1) [1,2,3,4] 4 (NewTight 75)
     = EncodeMulti stored (\<lambda>q w h img. Inr []) (0, 0, 1, 1) [1,2,3,4] 4 (NewTight 75)"
  by (rule EncodeMulti_schedule_independent) (simp add: streamWork_def)

text \<open>
  C2: A new Tight encoder and a client that decodes with \<^verbatim>\<open>readTightTile\<close> on four persistent
  decompressors stay in step over any sequence of updates: every \<^verbatim>\<open>EncodeMulti\<close> call on regions
  inside its frame succeeds, and after each update the client shows that frame in the regions
  (colours exact up to what JPEG loses, alpha opaque) and its previous picture elsewhere.
\<close>

theorem Tight_shows_updates:
  assumes "zlib_ok z inflate" and "zlib_small z" and "jpeg_ok jpeg L close"
    and "\<And>as px st. (as, px, st) \<in> set updates \<Longrightarrow> \<forall>a \<in> set as. area_ok px st a"
  shows "\<exists>rects t'. encode_updates (EncodeMulti z jpeg) updates (NewTight q) = (Inr rects, t') \<and>
           updates_shown (shows_close close) updates
             (view_updates (tight_decoder L inflate) (replicate 4 []) rects pic) pic"
proof (rule tight.encode_updates_show [where L = L and close = close and inflate = inflate, OF _ assms(4)])
  have "zsync z inflate zlibStream_new []" using assms(1) by (simp add: zsync_def zlibStream_new_def)
  then show "tight_sync z inflate jpeg L close (NewTight q) (replicate 4 [])"
    using assms(2,3) by (simp add: tight_sync_def streams_sync_def NewTight_def Let_def)
qed

text \<open>Concrete libraries: stored blocks, and uncompressed images with their size in front.\<close>

definition plain_jpeg :: jpeg_encoder where
  "plain_jpeg q w h img = Inr ([byte w, byte h] @ concat (map (\<lambda>(r, g, b). [r, g, b]) img))"

definition plain_libs :: client_libs where
  "plain_libs = \<lparr>lib_des = \<lambda>k b. b,
     lib_jpeg = \<lambda>b. Inr (unat (b ! 0), unat (b ! 1), \<lambda>x y.
       let i = 2 + (y * unat (b ! 0) + x) * 3 in
       (push_bit 8 (ucast (b ! i)), push_bit 8 (ucast (b ! (i + 1))), push_bit 8 (ucast (b ! (i + 2))))),
     lib_zlib = \<lambda>b. Inr (Inr b)\<rparr>"

lemma high_byte: "ucast (drop_bit 8 (push_bit 8 (ucast (x :: u8)) :: u32)) = x"
  by (rule bit_word_eqI) (simp add: bit_simps)

lemma plain_jpeg_ok: "jpeg_ok plain_jpeg plain_libs (=)"
proof -
  have "\<exists>b px. plain_jpeg q w h img = Inr b \<and> length b < 4194304 \<and> lib_jpeg plain_libs b = Inr (w, h, px) \<and>
           (\<forall>x < w. \<forall>y < h. img ! (y * w + x) = chan8 (px x y))"
    if lim: "0 < w" "w \<le> 64" "0 < h" "h \<le> 64" and len: "length img = w * h" for q w h img
  proof -
    let ?t = "\<lambda>(r, g, b). [r, g, b]" and ?x = "concat (map (\<lambda>(r, g, b). [r, g, b]) img)"
    let ?b = "[byte w, byte h] @ ?x"
    let ?px = "\<lambda>x y. let i = 2 + (y * w + x) * 3 in
       (push_bit 8 (ucast (?b ! i)), push_bit 8 (ucast (?b ! (i + 1))), push_bit 8 (ucast (?b ! (i + 2))))"
    have l: "length v = 3" if "v \<in> set (map ?t img)" for v :: bytes using that by auto
    have "length ?x = length (map ?t img) * 3" by (rule concat_const_length [OF l])
    then have "length ?b < 4194304" using len lim mult_le_mono [of w 64 h 64] by simp
    moreover have "img ! (y * w + x) = chan8 (?px x y)" if "x < w" "y < h" for x y
    proof -
      let ?i = "y * w + x"
      have i: "?i < length img" using grid_index [OF that] len by simp
      have "?b ! (2 + ?i * 3 + k) = ?t (img ! ?i) ! k" if "k < 3" for k
      proof -
        have "?x ! (?i * 3 + k) = map ?t img ! ?i ! k" by (rule concat_nth_block [OF l]) (use i that in auto)
        then show ?thesis using i by (simp add: numeral_2_eq_2)
      qed
      from this [of 0] this [of 1] this [of 2] show ?thesis
        by (cases "img ! ?i") (simp add: Let_def chan8_def high_byte add.assoc)
    qed
    moreover have "lib_jpeg plain_libs ?b = Inr (w, h, ?px)"
      using lim by (simp add: plain_libs_def unat_byte)
    ultimately show ?thesis by (auto simp: plain_jpeg_def)
  qed
  then show ?thesis unfolding jpeg_ok_def by blast
qed

lemma stored_small: "zlib_small stored"
proof -
  have "zpending (rev h) = []" if "h = [] \<or> last h = ZFlush" for h :: "zop list"
    using that by (cases h rule: rev_cases) auto
  then show ?thesis by (auto simp: zlib_small_def stored_def)
qed

theorem Tight_shows_updates_witness:
  "\<exists>rects t'. encode_updates (EncodeMulti stored plain_jpeg)
       [([(0, 0, 2, 1)], [1,2,3,4,5,6,7,8], 8), ([(1, 0, 1, 1)], [1,2,3,4,9,6,7,8], 8)] (NewTight 75) = (Inr rects, t') \<and>
     updates_shown (shows_close (=)) [([(0, 0, 2, 1)], [1,2,3,4,5,6,7,8], 8), ([(1, 0, 1, 1)], [1,2,3,4,9,6,7,8], 8)]
       (view_updates (tight_decoder plain_libs (\<lambda>b. b)) (replicate 4 []) rects (\<lambda>i j. [])) (\<lambda>i j. [])"
  by (rule Tight_shows_updates [OF stored_ok stored_small plain_jpeg_ok]) (auto simp: area_ok_def frame_has_def)

end
