(* ===== verification/Server.thy ===== *)
theory Server
  imports Pixconv Tight
begin

text \<open>
  \<^verbatim>\<open>rfb/server.go\<close>: the VNC server. Encoders behind \<^verbatim>\<open>MultiEncoder\<close>, security handlers, the
  input handler and the cursor provider are interfaces: an encoder is a record of its
  operations over its own state, a handler a program on the connection, the input handler and
  the clipboard are logs of the calls made. Logging and time measurement are left out.
\<close>

section \<open>Configuration\<close>

record SecurityHandler =
  sh_Type :: u8
  sh_Handshake :: "unit io"

record 'e MultiEncoder =
  me_new :: 'e
  me_EncodeMulti :: "area16 \<Rightarrow> bytes \<Rightarrow> nat \<Rightarrow> ('e, Rectangle list) prog"
  me_Reset :: "'e \<Rightarrow> 'e"

record ('t, 'h) ServerConfig =
  sc_Width :: u16
  sc_Height :: u16
  sc_Name :: bytes
  sc_Security :: "SecurityHandler list"
  sc_PixelFormat :: PixelFormat
  sc_NewTightEncoder :: "'t MultiEncoder option"
  sc_NewH264Encoder :: "'h MultiEncoder option"
  sc_hasCapturer :: bool
  sc_hasInput :: bool
  sc_hasClipboard :: bool
  sc_hasCursorProvider :: bool
  sc_MaxFPS :: int

definition noneSecurity :: SecurityHandler where
  "noneSecurity = \<lparr>sh_Type = SecurityNone, sh_Handshake = writeB (be32 0)\<rparr>"

text \<open>\<open>bounds\<close> is \<^verbatim>\<open>Capturer.Bounds()\<close>.\<close>

definition NewServer :: "u16 \<times> u16 \<Rightarrow> ('t, 'h) ServerConfig \<Rightarrow> ('t, 'h) ServerConfig" where
  "NewServer bounds config =
     (let config = if sc_Name config = [] then config\<lparr>sc_Name := str ''redvnc''\<rparr> else config;
          config = if BitsPerPixel (sc_PixelFormat config) = 0
                   then config\<lparr>sc_PixelFormat := DefaultPixelFormat\<rparr> else config;
          config = if length (sc_Security config) = 0
                   then config\<lparr>sc_Security := [noneSecurity]\<rparr> else config;
          config = if sc_MaxFPS config \<le> 0 then config\<lparr>sc_MaxFPS := 30\<rparr> else config;
          config = if sc_hasCapturer config
                   then config\<lparr>sc_Width := fst bounds, sc_Height := snd bounds\<rparr> else config;
          config = if sc_Width config = 0 then config\<lparr>sc_Width := 1024\<rparr> else config;
          config = if sc_Height config = 0 then config\<lparr>sc_Height := 768\<rparr> else config
      in config)"

section \<open>Connections\<close>

text \<open>Calls of the input handler and of the clipboard.\<close>

datatype input_call = InKey bool u32 | InPointer u8 u16 u16 | InClipboard bytes

text \<open>
  \<open>cc_fbReqCh\<close> is the channel of capacity one to the framebuffer writer, \<open>cc_errCh\<close> the
  channel of its errors, \<open>cc_lastCursor\<close> the address of the cursor image sent last.
\<close>

record ('t, 'h) ClientConn =
  cc_conn :: conn
  cc_pixelFormat :: PixelFormat
  cc_encodings :: "i32 list"
  cc_fbReqCh :: "FramebufferUpdateRequest option"
  cc_errCh :: "goerr option"
  cc_tightEnc :: "'t option"
  cc_h264Enc :: "'h option"
  cc_zlib :: zlibStream
  cc_zrle :: zlibStream
  cc_lastCursor :: "nat option"
  cc_input :: "input_call list"

text \<open>One connection and the server it belongs to.\<close>

record ('t, 'h) session =
  ses_config :: "('t, 'h) ServerConfig"
  ses_client :: "('t, 'h) ClientConn"

definition newClientConn :: "('t, 'h) ServerConfig \<Rightarrow> conn \<Rightarrow> ('t, 'h) ClientConn" where
  "newClientConn config conn =
     \<lparr>cc_conn = conn, cc_pixelFormat = sc_PixelFormat config, cc_encodings = [], cc_fbReqCh = None,
      cc_errCh = None, cc_tightEnc = None, cc_h264Enc = None, cc_zlib = zlibStream_new,
      cc_zrle = zlibStream_new, cc_lastCursor = None, cc_input = []\<rparr>"

type_synonym ('t, 'h, 'a) sprog = "(('t, 'h) session, 'a) prog"

text \<open>Running a part of the state: the connection, one of the zlib streams.\<close>

definition upd_client :: "(('t, 'h) ClientConn \<Rightarrow> ('t, 'h) ClientConn) \<Rightarrow> ('t, 'h) session \<Rightarrow> ('t, 'h) session" where
  "upd_client f s = s\<lparr>ses_client := f (ses_client s)\<rparr>"

definition on_wire :: "'a io \<Rightarrow> ('t, 'h, 'a) sprog" where
  "on_wire m s = (case m (cc_conn (ses_client s)) of (r, d) \<Rightarrow> (r, upd_client (\<lambda>c. c\<lparr>cc_conn := d\<rparr>) s))"

definition on_zlib :: "(zlibStream, 'a) prog \<Rightarrow> ('t, 'h, 'a) sprog" where
  "on_zlib m s = (case m (cc_zlib (ses_client s)) of (r, d) \<Rightarrow> (r, upd_client (\<lambda>c. c\<lparr>cc_zlib := d\<rparr>) s))"

definition on_zrle :: "(zlibStream, 'a) prog \<Rightarrow> ('t, 'h, 'a) sprog" where
  "on_zrle m s = (case m (cc_zrle (ses_client s)) of (r, d) \<Rightarrow> (r, upd_client (\<lambda>c. c\<lparr>cc_zrle := d\<rparr>) s))"

section \<open>Handshake\<close>

text \<open>A handler that fails: the buffered output is flushed, its error returned.\<close>

definition run_handler :: "unit io \<Rightarrow> unit io" where
  "run_handler h c = (case h c of (Inl e, c') \<Rightarrow> (Inl e, snd (flush c')) | (Inr u, c') \<Rightarrow> (Inr u, c'))"

definition find_handler :: "u8 \<Rightarrow> SecurityHandler list \<Rightarrow> SecurityHandler option" where
  "find_handler chosenType secTypes = find (\<lambda>sec. sh_Type sec = chosenType) secTypes"

definition server_security_type :: "('t, 'h) ServerConfig \<Rightarrow> SecurityHandler io" where
  "server_security_type config =
     bind_io (wrap ''write version: %w'' (writeB VersionString3_8)) (\<lambda>_.
     bind_io (wrap ''flush version: %w'' flush) (\<lambda>_.
     bind_io (wrap ''read client version: %w'' (readFull 12)) (\<lambda>clientVersion.
     let secTypes = sc_Security config in
     bind_io (wrap ''write security count: %w'' (writeB [of_nat (length secTypes)])) (\<lambda>_.
     bind_io (seq_io (map (\<lambda>sec. wrap ''write security type: %w'' (writeB [sh_Type sec])) secTypes)) (\<lambda>_.
     bind_io (wrap ''flush security types: %w'' flush) (\<lambda>_.
     bind_io (wrap ''read security choice: %w'' read_u8) (\<lambda>chosenType.
     case find_handler chosenType secTypes of
       None \<Rightarrow> fail (Errorf ''client chose unsupported security type: %d'' [uint chosenType])
     | Some handler \<Rightarrow> ret handler)))))))"

definition server_init :: "('t, 'h) ServerConfig \<Rightarrow> unit io" where
  "server_init config =
     bind_io (wrap ''read client init: %w'' read_u8) (\<lambda>sharedFlag.
     bind_io (wrap ''write server init: %w''
       (WriteServerInit \<lparr>si_Width = sc_Width config, si_Height = sc_Height config,
          si_PixelFormat = sc_PixelFormat config, si_NameLength = 0, si_Name = sc_Name config\<rparr>)) (\<lambda>_.
     flush))"

definition server_handshake :: "('t, 'h) ServerConfig \<Rightarrow> unit io" where
  "server_handshake config =
     bind_io (server_security_type config) (\<lambda>handler.
     bind_io (run_handler (sh_Handshake handler)) (\<lambda>_.
     bind_io (wrap ''flush security result: %w'' flush) (\<lambda>_.
     server_init config)))"

section \<open>Client messages\<close>

definition add_input :: "input_call \<Rightarrow> ('t, 'h, unit) sprog" where
  "add_input i = modify (upd_client (\<lambda>c. c\<lparr>cc_input := cc_input c @ [i]\<rparr>))"

text \<open>\<^verbatim>\<open>select { case c.fbReqCh <- req: default: }\<close>\<close>

definition offer_request :: "FramebufferUpdateRequest \<Rightarrow> ('t, 'h, unit) sprog" where
  "offer_request req =
     modify (upd_client (\<lambda>c. if cc_fbReqCh c = None then c\<lparr>cc_fbReqCh := Some req\<rparr> else c))"

definition dispatch_message :: "u8 \<Rightarrow> ('t, 'h, unit) sprog" where
  "dispatch_message msgType =
     (if msgType = MsgSetPixelFormat then
        bind_io (on_wire ReadSetPixelFormat) (\<lambda>pf. modify (upd_client (\<lambda>c. c\<lparr>cc_pixelFormat := pf\<rparr>)))
      else if msgType = MsgSetEncodings then
        bind_io (on_wire ReadSetEncodings) (\<lambda>encs. modify (upd_client (\<lambda>c. c\<lparr>cc_encodings := encs\<rparr>)))
      else if msgType = MsgFramebufferUpdateRequest then
        bind_io (on_wire ReadFramebufferUpdateRequest) offer_request
      else if msgType = MsgKeyEvent then
        bind_io (on_wire ReadKeyEvent) (\<lambda>evt.
        bind_io get_state (\<lambda>s.
        if sc_hasInput (ses_config s) then add_input (InKey (key_DownFlag evt \<noteq> 0) (key_Key evt)) else ret ()))
      else if msgType = MsgPointerEvent then
        bind_io (on_wire ReadPointerEvent) (\<lambda>evt.
        bind_io get_state (\<lambda>s.
        if sc_hasInput (ses_config s) then add_input (InPointer (ptr_ButtonMask evt) (ptr_X evt) (ptr_Y evt)) else ret ()))
      else if msgType = MsgClientCutText then
        bind_io (on_wire ReadClientCutText) (\<lambda>text.
        bind_io get_state (\<lambda>s.
        if sc_hasClipboard (ses_config s) then add_input (InClipboard text) else ret ()))
      else fail (Errorf ''unknown message type: %d'' [uint msgType]))"

text \<open>One iteration of the loop of \<^verbatim>\<open>serveMessages\<close>.\<close>

definition serve_message :: "('t, 'h, unit) sprog" where
  "serve_message =
     bind_io get_state (\<lambda>s.
     case cc_errCh (ses_client s) of
       Some err \<Rightarrow> bind_io (modify (upd_client (\<lambda>c. c\<lparr>cc_errCh := None\<rparr>))) (\<lambda>_. fail err)
     | None \<Rightarrow> bind_io (wrap ''read message type: %w'' (on_wire read_u8)) dispatch_message)"

text \<open>
  The loop ends with an error only; \<open>n\<close> bounds the number of iterations. An iteration that
  returns has read at least one byte, so that more iterations than bytes are enough.
\<close>

fun serve_loop :: "nat \<Rightarrow> ('t, 'h) session \<Rightarrow> (goerr \<times> ('t, 'h) session) option" where
  "serve_loop 0 s = None"
| "serve_loop (Suc n) s = (case serve_message s of (Inl e, s') \<Rightarrow> Some (e, s') | (Inr _, s') \<Rightarrow> serve_loop n s')"

definition serveMessages :: "('t, 'h) session \<Rightarrow> (goerr \<times> ('t, 'h) session) option" where
  "serveMessages s = serve_loop (Suc (length (cin (cc_conn (ses_client s))))) s"

section \<open>What the client supports\<close>

definition bestEncoding :: "('t, 'h) ServerConfig \<Rightarrow> i32 list \<Rightarrow> i32" where
  "bestEncoding config encodings =
     (case find (\<lambda>pref. \<not> (pref = EncodingH264 \<and> sc_NewH264Encoder config = None) \<and>
                        \<not> (pref = EncodingTight \<and> sc_NewTightEncoder config = None) \<and>
                        pref \<in> set encodings)
            [EncodingH264, EncodingTight, EncodingZlib, EncodingZRLE, EncodingRaw] of
        Some pref \<Rightarrow> pref
      | None \<Rightarrow> EncodingRaw)"

definition supportsCursor :: "i32 list \<Rightarrow> bool" where
  "supportsCursor encodings \<longleftrightarrow> EncodingCursor \<in> set encodings"

definition supportsDesktopSize :: "i32 list \<Rightarrow> bool" where
  "supportsDesktopSize encodings \<longleftrightarrow> EncodingDesktopSize \<in> set encodings"

section \<open>Regions\<close>

definition req_rect :: "FramebufferUpdateRequest \<Rightarrow> rect" where
  "req_rect req =
     image_Rect (uint (req_X req)) (uint (req_Y req)) (uint (req_X req) + uint (req_Width req))
       (uint (req_Y req) + uint (req_Height req))"

text \<open>\<open>None\<close> is the nil list of dirty rectangles.\<close>

definition encodeRegions :: "FramebufferUpdateRequest \<Rightarrow> rect list option \<Rightarrow> rect list" where
  "encodeRegions req dirtyRects =
     (case dirtyRects of
        None \<Rightarrow> [req_rect req]
      | Some drs \<Rightarrow> filter (\<lambda>ix. \<not> Empty ix) (map (\<lambda>dr. Intersect dr (req_rect req)) drs))"

text \<open>
  Regions lie inside the request, so their coordinates are natural numbers: position, width
  and height, and the 16-bit values put into a rectangle header.
\<close>

definition reg_x :: "rect \<Rightarrow> nat" where "reg_x r = nat (minX r)"
definition reg_y :: "rect \<Rightarrow> nat" where "reg_y r = nat (minY r)"
definition reg_w :: "rect \<Rightarrow> nat" where "reg_w r = nat (Dx r)"
definition reg_h :: "rect \<Rightarrow> nat" where "reg_h r = nat (Dy r)"

definition reg_area :: "rect \<Rightarrow> area16" where
  "reg_area r = (of_nat (reg_x r), of_nat (reg_y r), of_nat (reg_w r), of_nat (reg_h r))"

definition region_rect :: "rect \<Rightarrow> i32 \<Rightarrow> bytes \<Rightarrow> Rectangle" where
  "region_rect r enc data =
     (case reg_area r of (x, y, w, h) \<Rightarrow> mkRect x y w h enc data)"

text \<open>The rows of a region up to the first one outside the frame, where the loop breaks.\<close>

fun region_rows :: "bytes \<Rightarrow> nat \<Rightarrow> nat \<Rightarrow> nat \<Rightarrow> nat \<Rightarrow> nat list \<Rightarrow> bytes res" where
  "region_rows pixels stride x y rw [] = Inr []"
| "region_rows pixels stride x y rw (row # rows) =
     (let srcOffset = (y + row) * stride + x * 4; srcEnd = srcOffset + rw * 4 in
      if srcEnd > length pixels then Inr []
      else rbind (gslice srcOffset srcEnd pixels) (\<lambda>b.
           rbind (region_rows pixels stride x y rw rows) (\<lambda>bs. Inr (b @ bs))))"

definition region_data :: "bytes \<Rightarrow> nat \<Rightarrow> rect \<Rightarrow> bytes res" where
  "region_data pixels stride r = region_rows pixels stride (reg_x r) (reg_y r) (reg_w r) [0..<reg_h r]"

subsection \<open>Raw and Zlib\<close>

definition raw_region :: "PixelFormat \<Rightarrow> PixelFormat \<Rightarrow> bytes \<Rightarrow> nat \<Rightarrow> rect \<Rightarrow> Rectangle res" where
  "raw_region pf serverPf pixels stride r =
     rbind (region_data pixels stride r) (\<lambda>regionData.
     rbind (ConvertPixels pf serverPf regionData (reg_w r) (reg_h r)) (\<lambda>regionData.
     Inr (region_rect r EncodingRaw regionData)))"

definition zlib_region ::
  "deflater \<Rightarrow> PixelFormat \<Rightarrow> PixelFormat \<Rightarrow> bytes \<Rightarrow> nat \<Rightarrow> rect \<Rightarrow> (zlibStream, Rectangle) prog" where
  "zlib_region z pf serverPf pixels stride r =
     bind_io (lift_res (rbind (region_data pixels stride r) (\<lambda>regionData.
        ConvertPixels pf serverPf regionData (reg_w r) (reg_h r)))) (\<lambda>regionData.
     bind_io zclear (\<lambda>_.
     bind_io (wrap ''zlib write: %w'' (zdo z (ZWrite regionData))) (\<lambda>_.
     bind_io (wrap ''zlib flush: %w'' (zdo z ZFlush)) (\<lambda>_.
     bind_io get_state (\<lambda>s.
     ret (region_rect r EncodingZlib (be32 (of_nat (length (zs_buf s))) @ zs_buf s)))))))"

subsection \<open>ZRLE\<close>

fun bitLen_loop :: "nat \<Rightarrow> u32 \<Rightarrow> u32 \<Rightarrow> u32" where
  "bitLen_loop 0 x n = n"
| "bitLen_loop (Suc k) x n = (if x > 0 then bitLen_loop k (drop_bit 1 x) (n + 1) else n)"

text \<open>The loop of \<^verbatim>\<open>bitLen\<close> halves a 16-bit value; 17 rounds are enough to see zero.\<close>

definition bitLen :: "u16 \<Rightarrow> u32" where
  "bitLen v = bitLen_loop 17 (ucast v) 0"

definition zrleCPixel :: "PixelFormat \<Rightarrow> nat \<times> nat" where
  "zrleCPixel pf =
     (if BitsPerPixel pf = 32 \<and> Depth pf \<le> 24 then
        let rEnd = ucast (RedShift pf) + bitLen (RedMax pf);
            gEnd = ucast (GreenShift pf) + bitLen (GreenMax pf);
            bEnd = ucast (BlueShift pf) + bitLen (BlueMax pf);
            maxEnd = max rEnd (max gEnd bEnd);
            minShift = min (ucast (RedShift pf)) (min (ucast (GreenShift pf)) (ucast (BlueShift pf))) :: u32 in
        if maxEnd \<le> 24 then (if BigEndian pf \<noteq> 0 then (3, 1) else (3, 0))
        else if minShift \<ge> 8 then (if BigEndian pf \<noteq> 0 then (3, 0) else (3, 1))
        else (unat (BitsPerPixel pf) div 8, 0)
      else (unat (BitsPerPixel pf) div 8, 0))"

text \<open>Filling the packed buffer of a region, row by row until one lies outside the frame.\<close>

fun fill_rows :: "bytes \<Rightarrow> nat \<Rightarrow> nat \<Rightarrow> nat \<Rightarrow> nat \<Rightarrow> nat list \<Rightarrow> bytes \<Rightarrow> bytes res" where
  "fill_rows pixels stride x y rw [] clientPixels = Inr clientPixels"
| "fill_rows pixels stride x y rw (row # rows) clientPixels =
     (let srcOffset = (y + row) * stride + x * 4; srcEnd = srcOffset + rw * 4 in
      if srcEnd > length pixels then Inr clientPixels
      else rbind (gslice srcOffset srcEnd pixels) (\<lambda>b.
           rbind (copy_at (row * rw * 4) ((row + 1) * rw * 4) clientPixels b) (\<lambda>cp.
           fill_rows pixels stride x y rw rows cp)))"

definition zrle_client_pixels :: "PixelFormat \<Rightarrow> PixelFormat \<Rightarrow> bytes \<Rightarrow> nat \<Rightarrow> rect \<Rightarrow> bytes res" where
  "zrle_client_pixels pf serverPf pixels stride r =
     (let clientBpp = unat (BitsPerPixel pf) div 8 in
      rbind (fill_rows pixels stride (reg_x r) (reg_y r) (reg_w r) [0..<reg_h r]
               (replicate (reg_w r * reg_h r * clientBpp) 0)) (\<lambda>clientPixels.
      ConvertPixels pf serverPf clientPixels (reg_w r) (reg_h r)))"

definition zrle_tile_pixels ::
  "nat \<Rightarrow> nat \<Rightarrow> nat \<Rightarrow> nat \<Rightarrow> bytes \<Rightarrow> nat \<times> nat \<times> nat \<times> nat \<Rightarrow> bytes res" where
  "zrle_tile_pixels rw clientBpp cpixelSize cpixelOff clientPixels t =
     (case t of (tileX, tileY, tileW, tileH) \<Rightarrow>
        rbind (mapM (\<lambda>(row, col).
           let srcOff = ((tileY + row) * rw + (tileX + col)) * clientBpp in
           gslice (srcOff + cpixelOff) (srcOff + cpixelOff + cpixelSize) clientPixels)
           (List.product [0..<tileH] [0..<tileW])) (\<lambda>px. Inr (concat px)))"

definition bytesEqual :: "bytes \<Rightarrow> bytes \<Rightarrow> bool" where
  "bytesEqual a b \<longleftrightarrow> length a = length b \<and> (\<forall>i \<in> set [0..<length a]. a ! i = b ! i)"

fun zrle_solid :: "nat \<Rightarrow> bytes \<Rightarrow> nat list \<Rightarrow> bool res" where
  "zrle_solid cpixelSize tilePixels [] = Inr True"
| "zrle_solid cpixelSize tilePixels (i # is) =
     rbind (gslice i (i + cpixelSize) tilePixels) (\<lambda>a.
     rbind (gslice 0 cpixelSize tilePixels) (\<lambda>b.
     if \<not> bytesEqual a b then Inr False else zrle_solid cpixelSize tilePixels is))"

text \<open>The bytes one tile puts into the stream: subencoding 1 with one pixel, or 0 with all.\<close>

definition zrle_tile_writes :: "nat \<Rightarrow> bytes \<Rightarrow> bytes list res" where
  "zrle_tile_writes cpixelSize tilePixels =
     rbind (zrle_solid cpixelSize tilePixels (loop_steps cpixelSize (length tilePixels) cpixelSize)) (\<lambda>solid.
     if solid then rbind (gslice 0 cpixelSize tilePixels) (\<lambda>p. Inr [[1], p])
     else Inr [[0], tilePixels])"

fun zrle_tiles ::
  "deflater \<Rightarrow> nat \<Rightarrow> nat \<Rightarrow> nat \<Rightarrow> nat \<Rightarrow> bytes \<Rightarrow> (nat \<times> nat \<times> nat \<times> nat) list \<Rightarrow> (zlibStream, unit) prog" where
  "zrle_tiles z rw clientBpp cpixelSize cpixelOff clientPixels [] = ret ()"
| "zrle_tiles z rw clientBpp cpixelSize cpixelOff clientPixels (t # ts) =
     bind_io (lift_res (rbind (zrle_tile_pixels rw clientBpp cpixelSize cpixelOff clientPixels t)
       (zrle_tile_writes cpixelSize))) (\<lambda>ws.
     bind_io (seq_io (map (zdo z) (map ZWrite ws))) (\<lambda>_.
     zrle_tiles z rw clientBpp cpixelSize cpixelOff clientPixels ts))"

definition zrle_region ::
  "deflater \<Rightarrow> PixelFormat \<Rightarrow> PixelFormat \<Rightarrow> bytes \<Rightarrow> nat \<Rightarrow> rect \<Rightarrow> (zlibStream, Rectangle) prog" where
  "zrle_region z pf serverPf pixels stride r =
     (let clientBpp = unat (BitsPerPixel pf) div 8; cp = zrleCPixel pf in
      bind_io (lift_res (zrle_client_pixels pf serverPf pixels stride r)) (\<lambda>clientPixels.
      bind_io zclear (\<lambda>_.
      bind_io (zrle_tiles z (reg_w r) clientBpp (fst cp) (snd cp) clientPixels
                 (rect_tiles 64 (reg_w r) (reg_h r))) (\<lambda>_.
      bind_io (wrap ''zrle zlib flush: %w'' (zdo z ZFlush)) (\<lambda>_.
      bind_io get_state (\<lambda>s.
      ret (region_rect r EncodingZRLE (be32 (of_nat (length (zs_buf s))) @ zs_buf s))))))))"

section \<open>Sending a frame\<close>

fun for_regions :: "(rect \<Rightarrow> ('s, 'a list) prog) \<Rightarrow> rect list \<Rightarrow> ('s, 'a list) prog" where
  "for_regions f [] = ret []"
| "for_regions f (r # rs) = bind_io (f r) (\<lambda>xs. bind_io (for_regions f rs) (\<lambda>ys. ret (xs @ ys)))"

definition send_update :: "Rectangle list \<Rightarrow> ('t, 'h, unit) sprog" where
  "send_update rects = bind_io (on_wire (WriteFramebufferUpdate rects)) (\<lambda>_. on_wire flush)"

definition desktop_size_rects :: "u16 \<times> u16 \<Rightarrow> ('t, 'h, Rectangle list) sprog" where
  "desktop_size_rects bounds =
     bind_io get_state (\<lambda>s.
     if supportsDesktopSize (cc_encodings (ses_client s)) \<and>
        (fst bounds \<noteq> sc_Width (ses_config s) \<or> snd bounds \<noteq> sc_Height (ses_config s))
     then bind_io (modify (\<lambda>s. s\<lparr>ses_config := (ses_config s)\<lparr>sc_Width := fst bounds, sc_Height := snd bounds\<rparr>\<rparr>))
            (\<lambda>_. ret [EncodeDesktopSizeRect (fst bounds) (snd bounds)])
     else ret [])"

text \<open>\<open>cursor\<close> is what \<^verbatim>\<open>CursorProvider.Cursor()\<close> returns: nil, or the address of an image.\<close>

definition cursor_rects :: "(nat \<times> CursorImage) option \<Rightarrow> ('t, 'h, Rectangle list) sprog" where
  "cursor_rects cursor =
     bind_io get_state (\<lambda>s.
     let c = ses_client s; config = ses_config s in
     if supportsCursor (cc_encodings c) \<and> sc_hasCursorProvider config then
       case cursor of
         None \<Rightarrow> ret []
       | Some (addr, img) \<Rightarrow>
           if cc_lastCursor c = Some addr then ret []
           else bind_io (lift_res (EncodeCursorRect img (cc_pixelFormat c) (sc_PixelFormat config))) (\<lambda>r.
                bind_io (modify (upd_client (\<lambda>c. c\<lparr>cc_lastCursor := Some addr\<rparr>))) (\<lambda>_. ret [r]))
     else ret [])"

definition on_tight :: "'t MultiEncoder \<Rightarrow> ('t, 'a) prog \<Rightarrow> ('t, 'h, 'a) sprog" where
  "on_tight me m s =
     (let e = (case cc_tightEnc (ses_client s) of None \<Rightarrow> me_new me | Some e \<Rightarrow> e) in
      case m e of (r, e') \<Rightarrow> (r, upd_client (\<lambda>c. c\<lparr>cc_tightEnc := Some e'\<rparr>) s))"

definition on_h264 :: "'h MultiEncoder \<Rightarrow> ('h, 'a) prog \<Rightarrow> ('t, 'h, 'a) sprog" where
  "on_h264 me m s =
     (let e = (case cc_h264Enc (ses_client s) of None \<Rightarrow> me_new me | Some e \<Rightarrow> e) in
      case m e of (r, e') \<Rightarrow> (r, upd_client (\<lambda>c. c\<lparr>cc_h264Enc := Some e'\<rparr>) s))"

text \<open>The rectangles of the frame, per encoding.\<close>

definition encode_regions ::
  "deflater \<Rightarrow> i32 \<Rightarrow> u16 \<times> u16 \<Rightarrow> bytes \<Rightarrow> nat \<Rightarrow> rect list \<Rightarrow> ('t, 'h, Rectangle list) sprog" where
  "encode_regions z bestEnc bounds pixels stride regions =
     bind_io get_state (\<lambda>s.
     let pf = cc_pixelFormat (ses_client s); serverPf = sc_PixelFormat (ses_config s) in
     if bestEnc = EncodingH264 then
       case sc_NewH264Encoder (ses_config s) of
         None \<Rightarrow> fail (GoPanic ''nil pointer dereference'')
       | Some me \<Rightarrow> wrap ''h264 encode: %w'' (on_h264 me (me_EncodeMulti me (0, 0, fst bounds, snd bounds) pixels stride))
     else if bestEnc = EncodingTight then
       case sc_NewTightEncoder (ses_config s) of
         None \<Rightarrow> fail (GoPanic ''nil pointer dereference'')
       | Some me \<Rightarrow> on_tight me (for_regions (\<lambda>r.
           wrap ''tight encode: %w'' (me_EncodeMulti me (reg_area r) pixels stride)) regions)
     else if bestEnc = EncodingZRLE then
       on_zrle (bind_io zopen (\<lambda>_.
         for_regions (\<lambda>r. bind_io (zrle_region z pf serverPf pixels stride r) (\<lambda>x. ret [x])) regions))
     else if bestEnc = EncodingZlib then
       on_zlib (bind_io zopen (\<lambda>_.
         for_regions (\<lambda>r. bind_io (zlib_region z pf serverPf pixels stride r) (\<lambda>x. ret [x])) regions))
     else lift_res (mapM (raw_region pf serverPf pixels stride) regions))"

definition encodeAndSendFrame ::
  "deflater \<Rightarrow> u16 \<times> u16 \<Rightarrow> (nat \<times> CursorImage) option \<Rightarrow> FramebufferUpdateRequest \<Rightarrow> bytes \<Rightarrow> nat \<Rightarrow>
   rect list option \<Rightarrow> ('t, 'h, unit) sprog" where
  "encodeAndSendFrame z bounds cursor req pixels stride dirtyRects =
     bind_io (desktop_size_rects bounds) (\<lambda>desktop.
     bind_io (cursor_rects cursor) (\<lambda>curs.
     let pseudoRects = desktop @ curs in
     bind_io get_state (\<lambda>s.
     let bestEnc = bestEncoding (ses_config s) (cc_encodings (ses_client s));
         dirty = if bestEnc = EncodingH264 then None else dirtyRects in
     if dirty = Some [] then send_update pseudoRects
     else
       let regions = encodeRegions req dirty in
       if regions = [] then send_update pseudoRects
       else bind_io (encode_regions z bestEnc bounds pixels stride regions) (\<lambda>rects.
            send_update (pseudoRects @ rects)))))"

definition sendBlankFrame :: "FramebufferUpdateRequest \<Rightarrow> ('t, 'h, unit) sprog" where
  "sendBlankFrame req =
     bind_io get_state (\<lambda>s.
     let bpp = unat (BitsPerPixel (cc_pixelFormat (ses_client s))) div 8 in
     send_update [mkRect (req_X req) (req_Y req) (req_Width req) (req_Height req) EncodingRaw
       (replicate (unat (req_Width req) * unat (req_Height req) * bpp) 0)])"

text \<open>
  What the capturer gives for one request: the bounds, the frame or an error, and the dirty
  rectangles (\<open>None\<close> also when the capturer does not report them).
\<close>

record capture_result =
  cap_bounds :: "u16 \<times> u16"
  cap_frame :: "(bytes \<times> nat) res"
  cap_dirty :: "rect list option"

definition handleFramebufferRequest ::
  "deflater \<Rightarrow> capture_result \<Rightarrow> (nat \<times> CursorImage) option \<Rightarrow> FramebufferUpdateRequest \<Rightarrow> ('t, 'h, unit) sprog" where
  "handleFramebufferRequest z cap cursor req =
     bind_io get_state (\<lambda>s.
     if \<not> sc_hasCapturer (ses_config s) then sendBlankFrame req
     else
       bind_io (lift_res (rwrap ''capture: %w'' [] (cap_frame cap))) (\<lambda>(pixels, stride).
       let dirtyRects = if req_Incremental req = 0 then None else cap_dirty cap in
       encodeAndSendFrame z (cap_bounds cap) cursor req pixels stride dirtyRects))"

section \<open>Messages to all clients\<close>

text \<open>
  The clients by address. Each broadcast visits every client once; what it does to one client
  depends on that client alone, so that the order in which Go's map iteration visits them does
  not matter.
\<close>

record ('t, 'h) Server =
  srv_config :: "('t, 'h) ServerConfig"
  srv_clients :: "nat \<Rightarrow> ('t, 'h) ClientConn option"

definition addClient :: "nat \<Rightarrow> ('t, 'h) ClientConn \<Rightarrow> ('t, 'h) Server \<Rightarrow> ('t, 'h) Server" where
  "addClient a c s = s\<lparr>srv_clients := (srv_clients s)(a \<mapsto> c)\<rparr>"

definition removeClient :: "nat \<Rightarrow> ('t, 'h) Server \<Rightarrow> ('t, 'h) Server" where
  "removeClient a s = s\<lparr>srv_clients := (srv_clients s)(a := None)\<rparr>"

definition for_clients :: "(('t, 'h) ClientConn \<Rightarrow> ('t, 'h) ClientConn) \<Rightarrow> ('t, 'h) Server \<Rightarrow> ('t, 'h) Server" where
  "for_clients f s = s\<lparr>srv_clients := \<lambda>a. map_option f (srv_clients s a)\<rparr>"

definition notify_client :: "u16 \<Rightarrow> u16 \<Rightarrow> ('t, 'h) ClientConn \<Rightarrow> ('t, 'h) ClientConn" where
  "notify_client width height c =
     (if supportsDesktopSize (cc_encodings c)
      then c\<lparr>cc_conn := snd (bind_io (WriteFramebufferUpdate [EncodeDesktopSizeRect width height]) (\<lambda>_. flush) (cc_conn c))\<rparr>
      else c)"

definition NotifyDesktopResize :: "u16 \<Rightarrow> u16 \<Rightarrow> ('t, 'h) Server \<Rightarrow> ('t, 'h) Server" where
  "NotifyDesktopResize width height s =
     for_clients (notify_client width height)
       (s\<lparr>srv_config := (srv_config s)\<lparr>sc_Width := width, sc_Height := height\<rparr>\<rparr>)"

text \<open>A panic of \<^verbatim>\<open>EncodeCursorRect\<close> ends the whole program.\<close>

definition cursor_client :: "PixelFormat \<Rightarrow> nat \<Rightarrow> CursorImage \<Rightarrow> ('t, 'h) ClientConn \<Rightarrow> ('t, 'h) ClientConn res" where
  "cursor_client serverPf addr cursor c =
     (if supportsCursor (cc_encodings c) then
        rbind (EncodeCursorRect cursor (cc_pixelFormat c) serverPf) (\<lambda>rect.
        case bind_io (WriteFramebufferUpdate [rect]) (\<lambda>_. flush) (cc_conn c) of
          (Inl e, conn) \<Rightarrow> Inr (c\<lparr>cc_conn := conn\<rparr>)
        | (Inr _, conn) \<Rightarrow> Inr (c\<lparr>cc_conn := conn, cc_lastCursor := Some addr\<rparr>))
      else Inr c)"

definition SendCursorUpdate :: "nat \<Rightarrow> CursorImage \<Rightarrow> nat list \<Rightarrow> ('t, 'h) Server \<Rightarrow> ('t, 'h) Server res" where
  "SendCursorUpdate addr cursor addrs s =
     foldM (\<lambda>a s. case srv_clients s a of None \<Rightarrow> Inr s
        | Some c \<Rightarrow> rbind (cursor_client (sc_PixelFormat (srv_config s)) addr cursor c) (\<lambda>c'. Inr (addClient a c' s)))
       addrs s"

definition clipboard_client :: "bytes \<Rightarrow> ('t, 'h) ClientConn \<Rightarrow> ('t, 'h) ClientConn" where
  "clipboard_client text c =
     c\<lparr>cc_conn := snd (bind_io (WriteServerCutText text) (\<lambda>_. flush) (cc_conn c))\<rparr>"

definition SendClipboard :: "bytes \<Rightarrow> ('t, 'h) Server \<Rightarrow> ('t, 'h) Server" where
  "SendClipboard text s = for_clients (clipboard_client text) s"

end
