(* ===== verification/Diff.thy ===== *)
theory Diff
  imports Geometry
begin

text \<open>
  \<^verbatim>\<open>capture/diff.go\<close> and the same algorithm in \<^verbatim>\<open>rfb/pipelined_capturer.go\<close>: detection of
  changed screen regions by comparing consecutive frames tile by tile. The stored frame is
  a Go slice: a backing array and a length, since \<^verbatim>\<open>prev[:n]\<close> and \<^verbatim>\<open>prev[off:end]\<close> are
  bounded by the capacity. \<open>None\<close> is the nil slice. A result \<open>None\<close> is the nil list of
  rectangles (everything changed), \<open>Some []\<close> the empty one (nothing changed).
\<close>

section \<open>The comparison of two frames\<close>

text \<open>One row of a tile: changed when it is out of range or differs.\<close>

definition row_changed :: "bytes \<Rightarrow> bytes \<Rightarrow> nat \<Rightarrow> nat \<Rightarrow> nat \<Rightarrow> nat \<Rightarrow> bool res" where
  "row_changed pixels back stride tileX tileW y =
     (let off = y * stride + tileX * 4; end = off + tileW * 4 in
      if end > length pixels then Inr True
      else rbind (gslice off end pixels) (\<lambda>a. rbind (gslice off end back) (\<lambda>b. Inr (a \<noteq> b))))"

fun rows_changed :: "(nat \<Rightarrow> bool res) \<Rightarrow> nat list \<Rightarrow> bool res" where
  "rows_changed f [] = Inr False"
| "rows_changed f (y # ys) = rbind (f y) (\<lambda>c. if c then Inr True else rows_changed f ys)"

definition tile_changed :: "bytes \<Rightarrow> bytes \<Rightarrow> nat \<Rightarrow> nat \<times> nat \<times> nat \<times> nat \<Rightarrow> bool res" where
  "tile_changed pixels back stride t =
     (case t of (tileX, tileY, tileW, tileH) \<Rightarrow>
        rows_changed (row_changed pixels back stride tileX tileW)
          (map (\<lambda>row. tileY + row) [0..<tileH]))"

definition dirty_tiles :: "nat \<Rightarrow> bytes \<Rightarrow> bytes \<Rightarrow> nat \<Rightarrow> nat \<Rightarrow> nat \<Rightarrow> rect list res" where
  "dirty_tiles ts pixels back w h stride =
     foldM (\<lambda>t dirty. rbind (tile_changed pixels back stride t) (\<lambda>c.
        Inr (if c then dirty @ [tile_rect t] else dirty))) (rect_tiles ts w h) []"

section \<open>FrameDiffer\<close>

record frame_store =
  fs_prev :: "(bytes \<times> nat) option"
  fs_prevW :: u16
  fs_prevH :: u16

definition defaultTileSize :: nat where "defaultTileSize = 64"

record FrameDiffer =
  fd_store :: frame_store
  fd_tileSize :: nat

definition NewFrameDiffer :: FrameDiffer where
  "NewFrameDiffer =
     \<lparr>fd_store = \<lparr>fs_prev = None, fs_prevW = 0, fs_prevH = 0\<rparr>, fd_tileSize = defaultTileSize\<rparr>"

text \<open>Storing the first frame, or the first after a change of resolution.\<close>

definition reset_prev :: "(bytes \<times> nat) option \<Rightarrow> bytes \<Rightarrow> (bytes \<times> nat) option" where
  "reset_prev prev pixels =
     (let n = length pixels in
      case prev of
        None \<Rightarrow> if 0 < n then Some (pixels, n) else None
      | Some (back, len) \<Rightarrow>
          if len < n then Some (pixels, n) else Some (copy (take n back) pixels @ drop n back, n))"

text \<open>\<^verbatim>\<open>copy(d.prev, pixels)\<close>\<close>

definition update_prev :: "bytes \<times> nat \<Rightarrow> bytes \<Rightarrow> bytes \<times> nat" where
  "update_prev prev pixels =
     (case prev of (back, len) \<Rightarrow> (copy (take len back) pixels @ drop len back, len))"

definition diff_frames ::
  "nat \<Rightarrow> frame_store \<Rightarrow> bytes \<Rightarrow> u16 \<Rightarrow> u16 \<Rightarrow> nat \<Rightarrow> (rect list option \<times> frame_store) res" where
  "diff_frames ts d pixels width height stride =
     (case fs_prev d of
        None \<Rightarrow> Inr (None, \<lparr>fs_prev = reset_prev None pixels, fs_prevW = width, fs_prevH = height\<rparr>)
      | Some prev \<Rightarrow>
          if fs_prevW d \<noteq> width \<or> fs_prevH d \<noteq> height
          then Inr (None, \<lparr>fs_prev = reset_prev (Some prev) pixels, fs_prevW = width, fs_prevH = height\<rparr>)
          else rbind (dirty_tiles ts pixels (fst prev) (unat width) (unat height) stride) (\<lambda>dirty.
               Inr (Some dirty, d\<lparr>fs_prev := Some (update_prev prev pixels)\<rparr>)))"

definition FrameDiffer_Diff ::
  "FrameDiffer \<Rightarrow> bytes \<Rightarrow> u16 \<Rightarrow> u16 \<Rightarrow> nat \<Rightarrow> (rect list option \<times> FrameDiffer) res" where
  "FrameDiffer_Diff d pixels width height stride =
     rbind (diff_frames (fd_tileSize d) (fd_store d) pixels width height stride) (\<lambda>(r, st).
     Inr (r, d\<lparr>fd_store := st\<rparr>))"

section \<open>What an unchanged tile means\<close>

lemma rows_changed_False:
  "rows_changed f ys = Inr False \<Longrightarrow> y \<in> set ys \<Longrightarrow> f y = Inr False"
  by (induction ys) (auto simp: rbind_Inr_iff split: if_splits)

lemma rows_changed_True:
  "rows_changed f ys = Inr True \<Longrightarrow> \<exists>y \<in> set ys. f y = Inr True"
  by (induction ys) (auto simp: rbind_Inr_iff split: if_splits)

lemma row_changed_False:
  assumes "row_changed pixels back stride tx tw y = Inr False"
  shows "take (tw * 4) (drop (y * stride + tx * 4) pixels) = take (tw * 4) (drop (y * stride + tx * 4) back)"
  using assms by (auto simp: row_changed_def Let_def rbind_Inr_iff gslice_Inr_iff split: if_splits)

text \<open>Unchanged rows lie inside the new frame, so only that much of the old one matters.\<close>

lemma row_changed_in_range:
  "row_changed pixels back stride tx tw y = Inr False \<Longrightarrow> y * stride + tx * 4 + tw * 4 \<le> length pixels"
  by (auto simp: row_changed_def Let_def split: if_splits)

lemma row_slice_prefix:
  assumes "off + n \<le> length (p :: bytes)"
  shows "take n (drop off (take (length p) q)) = take n (drop off q)"
  using assms by (simp add: drop_take take_take min_def)

lemma tile_unchanged_pixels:
  assumes "tile_changed pixels back stride t = Inr False" and "inside (tile_rect t) (int x) (int y)"
  shows "pixel_at stride pixels x y = pixel_at stride (take (length pixels) back) x y"
proof -
  obtain tx ty tw th where t: "t = (tx, ty, tw, th)" by (metis prod_cases4)
  with assms(2) have xy: "tx \<le> x" "x < tx + tw" "ty \<le> y" "y < ty + th"
    by (auto simp: inside_tile_rect)
  then have "y \<in> set (map (\<lambda>row. ty + row) [0..<th])"
    by (auto intro!: image_eqI [of _ _ "y - ty"])
  with assms(1) t have "row_changed pixels back stride tx tw y = Inr False"
    using rows_changed_False by (auto simp: tile_changed_def)
  then have "take (tw * 4) (drop (y * stride + tx * 4) pixels)
      = take (tw * 4) (drop (y * stride + tx * 4) (take (length pixels) back))"
    using row_changed_False row_changed_in_range row_slice_prefix by metis
  then show ?thesis using row_slice_pixel xy by blast
qed

lemma dirty_tiles_iff:
  assumes "dirty_tiles ts pixels back w h stride = Inr dirty"
  shows "r \<in> set dirty \<longleftrightarrow>
           (\<exists>t \<in> set (rect_tiles ts w h). r = tile_rect t \<and> tile_changed pixels back stride t = Inr True)"
    and "t \<in> set (rect_tiles ts w h) \<Longrightarrow> \<exists>c. tile_changed pixels back stride t = Inr c"
proof -
  have gen: "(r \<in> set d' \<longleftrightarrow> r \<in> set d \<or>
        (\<exists>t \<in> set tl. r = tile_rect t \<and> tile_changed pixels back stride t = Inr True)) \<and>
      (\<forall>t \<in> set tl. \<exists>c. tile_changed pixels back stride t = Inr c)"
    if "foldM (\<lambda>t dirty. rbind (tile_changed pixels back stride t) (\<lambda>c.
        Inr (if c then dirty @ [tile_rect t] else dirty))) tl d = Inr d'" for tl d d'
    using that
  proof (induction tl arbitrary: d)
    case Nil
    then show ?case by simp
  next
    case (Cons t tl)
    from Cons.prems obtain c where c: "tile_changed pixels back stride t = Inr c"
      and rest: "foldM (\<lambda>t dirty. rbind (tile_changed pixels back stride t) (\<lambda>c.
        Inr (if c then dirty @ [tile_rect t] else dirty))) tl
        (if c then d @ [tile_rect t] else d) = Inr d'"
      by (auto simp: rbind_Inr_iff)
    from Cons.IH [OF rest] c show ?case by (auto split: if_splits)
  qed
  from gen [OF assms [unfolded dirty_tiles_def]]
  show "r \<in> set dirty \<longleftrightarrow>
           (\<exists>t \<in> set (rect_tiles ts w h). r = tile_rect t \<and> tile_changed pixels back stride t = Inr True)"
    and "t \<in> set (rect_tiles ts w h) \<Longrightarrow> \<exists>c. tile_changed pixels back stride t = Inr c"
    by auto
qed

lemma dirty_tiles_clean_prefix:
  assumes "dirty_tiles ts pixels back w h stride = Inr dirty" and "0 < ts"
    and "x < w" and "y < h" and "\<not> covered dirty (int x) (int y)"
  shows "pixel_at stride pixels x y = pixel_at stride (take (length pixels) back) x y"
proof -
  obtain t where t: "t \<in> set (rect_tiles ts w h)" "inside (tile_rect t) (int x) (int y)"
    using rect_tiles_cover [OF assms(2,3,4)] by blast
  then obtain c where c: "tile_changed pixels back stride t = Inr c"
    using dirty_tiles_iff(2) [OF assms(1)] by blast
  have "\<not> c"
  proof
    assume c
    with c t have "tile_rect t \<in> set dirty" using dirty_tiles_iff(1) [OF assms(1)] by auto
    with t assms(5) show False by (auto simp: covered_def)
  qed
  with c have "tile_changed pixels back stride t = Inr False" by simp
  then show ?thesis using tile_unchanged_pixels t(2) by blast
qed

lemma dirty_tiles_total:
  assumes "length pixels \<le> length back"
  shows "\<exists>dirty. dirty_tiles ts pixels back w h stride = Inr dirty"
proof -
  have row: "\<exists>c. row_changed pixels back stride tx tw y = Inr c" for tx tw y
  proof -
    let ?o = "y * stride + tx * 4"
    have "row_changed pixels back stride tx tw y = Inr (?o + tw * 4 > length pixels \<or>
        take (tw * 4) (drop ?o pixels) \<noteq> take (tw * 4) (drop ?o back))"
      using assms by (simp add: row_changed_def Let_def gslice_def)
    then show ?thesis by blast
  qed
  have rows: "\<exists>c. rows_changed (row_changed pixels back stride tx tw) ys = Inr c" for tx tw ys
  proof (induction ys)
    case Nil
    have "rows_changed (row_changed pixels back stride tx tw) [] = Inr False" by simp
    then show ?case by blast
  next
    case (Cons y ys)
    then obtain b c where "row_changed pixels back stride tx tw y = Inr b"
        "rows_changed (row_changed pixels back stride tx tw) ys = Inr c" using row by blast
    then have "rows_changed (row_changed pixels back stride tx tw) (y # ys) = Inr (b \<or> c)" by simp
    then show ?case by blast
  qed
  have tile: "\<exists>c. tile_changed pixels back stride t = Inr c" for t
    using rows by (cases t) (simp add: tile_changed_def)
  have "\<exists>d'. foldM (\<lambda>t dirty. rbind (tile_changed pixels back stride t) (\<lambda>c.
        Inr (if c then dirty @ [tile_rect t] else dirty))) tl d = Inr d'" for tl d
  proof (induction tl arbitrary: d)
    case Nil
    then show ?case by simp
  next
    case (Cons t tl)
    then show ?case using tile [of t] by auto
  qed
  then show ?thesis by (simp add: dirty_tiles_def)
qed

section \<open>The contract of a frame differ\<close>

text \<open>
  \<open>stored d\<close> is the frame the consumer of the reports has seen last, with its size. The
  first frame and a frame of another size are reported as a full change; a frame of the
  same size as the stored one is reported as rectangles outside of which nothing visible
  changed.
\<close>

locale frame_differ =
  fixes diff :: "'d \<Rightarrow> bytes \<Rightarrow> u16 \<Rightarrow> u16 \<Rightarrow> nat \<Rightarrow> (rect list option \<times> 'd) res"
    and stored :: "'d \<Rightarrow> (bytes \<times> u16 \<times> u16) option"
    and inv :: "'d \<Rightarrow> bool"
  assumes diff_full:
      "inv d \<Longrightarrow> px \<noteq> [] \<Longrightarrow> (\<And>p. stored d \<noteq> Some (p, w, h)) \<Longrightarrow>
         \<exists>d'. diff d px w h st = Inr (None, d') \<and> inv d' \<and> stored d' = Some (px, w, h)"
    and diff_partial:
      "inv d \<Longrightarrow> stored d = Some (p, w, h) \<Longrightarrow> length px = length p \<Longrightarrow>
         \<exists>rs d'. diff d px w h st = Inr (Some rs, d') \<and> inv d' \<and> stored d' = Some (px, w, h) \<and>
           (\<forall>r \<in> set rs. on_screen (unat w) (unat h) r) \<and>
           (\<forall>x < unat w. \<forall>y < unat h. \<not> covered rs (int x) (int y) \<longrightarrow>
              pixel_at st px x y = pixel_at st p x y)"

text \<open>
  A viewer that repaints what a report says: everything for nil, the listed rectangles
  otherwise.
\<close>

definition repaint :: "rect list option \<Rightarrow> picture \<Rightarrow> picture \<Rightarrow> picture" where
  "repaint report new old x y =
     (case report of
        None \<Rightarrow> new x y
      | Some rs \<Rightarrow> if covered rs (int x) (int y) then new x y else old x y)"

fun view_frames ::
  "('d \<Rightarrow> bytes \<Rightarrow> u16 \<Rightarrow> u16 \<Rightarrow> nat \<Rightarrow> (rect list option \<times> 'd) res) \<Rightarrow>
   u16 \<Rightarrow> u16 \<Rightarrow> nat \<Rightarrow> 'd \<Rightarrow> picture \<Rightarrow> bytes list \<Rightarrow> (picture \<times> 'd) res" where
  "view_frames diff w h st d pic [] = Inr (pic, d)"
| "view_frames diff w h st d pic (px # pxs) =
     rbind (diff d px w h st) (\<lambda>(report, d').
     view_frames diff w h st d' (repaint report (pixel_at st px) pic) pxs)"

definition shows_frame :: "u16 \<Rightarrow> u16 \<Rightarrow> nat \<Rightarrow> picture \<Rightarrow> bytes \<Rightarrow> bool" where
  "shows_frame w h st pic px \<longleftrightarrow> (\<forall>x < unat w. \<forall>y < unat h. pic x y = pixel_at st px x y)"

context frame_differ
begin

lemma step_shows:
  assumes "inv d" and "px \<noteq> []"
    and "\<And>p. stored d = Some (p, w, h) \<Longrightarrow> length px = length p \<and> shows_frame w h st pic p"
  shows "\<exists>report d'. diff d px w h st = Inr (report, d') \<and> inv d' \<and> stored d' = Some (px, w, h) \<and>
           shows_frame w h st (repaint report (pixel_at st px) pic) px"
proof (cases "\<exists>p. stored d = Some (p, w, h)")
  case False
  then obtain d' where "diff d px w h st = Inr (None, d')" "inv d'" "stored d' = Some (px, w, h)"
    using diff_full [OF assms(1,2), of w h st] by blast
  then show ?thesis by (auto simp: shows_frame_def repaint_def)
next
  case True
  then obtain p where p: "stored d = Some (p, w, h)" by blast
  with assms(3) have len: "length px = length p" and view: "shows_frame w h st pic p" by auto
  obtain rs d' where "diff d px w h st = Inr (Some rs, d')" "inv d'" "stored d' = Some (px, w, h)"
    and "\<forall>x < unat w. \<forall>y < unat h. \<not> covered rs (int x) (int y) \<longrightarrow>
              pixel_at st px x y = pixel_at st p x y"
    using diff_partial [OF assms(1) p len, of st] by blast
  then show ?thesis using view by (auto simp: shows_frame_def repaint_def)
qed

text \<open>After any sequence of frames of one size the viewer shows the last frame.\<close>

lemma view_last_frame:
  assumes "inv d" and "pxs \<noteq> []" and "0 < n" and "\<And>px. px \<in> set pxs \<Longrightarrow> length px = n"
    and "\<And>p. stored d = Some (p, w, h) \<Longrightarrow> length p = n \<and> shows_frame w h st pic p"
  shows "\<exists>pic' d'. view_frames diff w h st d pic pxs = Inr (pic', d') \<and>
           shows_frame w h st pic' (last pxs)"
  using assms
proof (induction pxs arbitrary: d pic)
  case Nil
  then show ?case by simp
next
  case (Cons px pxs)
  have ne: "px \<noteq> []" using Cons.prems(3,4) by auto
  obtain report d' where step: "diff d px w h st = Inr (report, d')" "inv d'"
      "stored d' = Some (px, w, h)" "shows_frame w h st (repaint report (pixel_at st px) pic) px"
    using step_shows [OF Cons.prems(1) ne, of w h st pic] Cons.prems(4,5) by auto
  show ?case
  proof (cases "pxs = []")
    case True
    with step show ?thesis by auto
  next
    case False
    then show ?thesis
      using Cons.IH [OF step(2) False Cons.prems(3), of "repaint report (pixel_at st px) pic"]
        Cons.prems(4) step by auto
  qed
qed

end

section \<open>FrameDiffer implements the contract\<close>

definition store_wf :: "frame_store \<Rightarrow> bool" where
  "store_wf d \<longleftrightarrow> (case fs_prev d of None \<Rightarrow> True | Some (back, len) \<Rightarrow> len \<le> length back)"

definition store_frame :: "frame_store \<Rightarrow> (bytes \<times> u16 \<times> u16) option" where
  "store_frame d =
     (case fs_prev d of None \<Rightarrow> None | Some (back, len) \<Rightarrow> Some (take len back, fs_prevW d, fs_prevH d))"

lemma diff_frames_full:
  assumes "store_wf d" and "px \<noteq> []" and "\<And>p. store_frame d \<noteq> Some (p, w, h)"
  shows "\<exists>d'. diff_frames ts d px w h st = Inr (None, d') \<and> store_wf d' \<and> store_frame d' = Some (px, w, h)"
  using assms
  by (auto simp: diff_frames_def store_frame_def store_wf_def reset_prev_def Let_def copy_def
      split: option.splits)

lemma diff_frames_partial:
  assumes "0 < ts" and "store_wf d" and "store_frame d = Some (p, w, h)" and "length px = length p"
  shows "\<exists>rs d'. diff_frames ts d px w h st = Inr (Some rs, d') \<and> store_wf d' \<and>
           store_frame d' = Some (px, w, h) \<and>
           (\<forall>r \<in> set rs. on_screen (unat w) (unat h) r) \<and>
           (\<forall>x < unat w. \<forall>y < unat h. \<not> covered rs (int x) (int y) \<longrightarrow>
              pixel_at st px x y = pixel_at st p x y)"
proof -
  from assms(2,3) obtain bk len where bl: "fs_prev d = Some (bk, len)" "len \<le> length bk"
      "p = take len bk" "fs_prevW d = w" "fs_prevH d = h"
    by (auto simp: store_frame_def store_wf_def split: option.splits)
  then have len: "length px = len" using assms(4) by simp
  obtain dirty where dirty: "dirty_tiles ts px bk (unat w) (unat h) st = Inr dirty"
    using dirty_tiles_total [of px bk ts "unat w" "unat h" st] bl len by auto
  let ?d' = "d\<lparr>fs_prev := Some (update_prev (bk, len) px)\<rparr>"
  have run: "diff_frames ts d px w h st = Inr (Some dirty, ?d')"
    using bl dirty by (simp add: diff_frames_def)
  have "update_prev (bk, len) px = (px @ drop len bk, len)"
    using bl len by (simp add: update_prev_def copy_def)
  then have st: "store_wf ?d'" "store_frame ?d' = Some (px, w, h)"
    using bl len by (auto simp: store_wf_def store_frame_def)
  have "pixel_at st px x y = pixel_at st p x y"
    if "x < unat w" "y < unat h" "\<not> covered dirty (int x) (int y)" for x y
    using dirty_tiles_clean_prefix [OF dirty assms(1) that] len bl by simp
  moreover have "on_screen (unat w) (unat h) r" if "r \<in> set dirty" for r
    using dirty_tiles_iff(1) [OF dirty, of r] that rect_tiles_on_screen by blast
  ultimately show ?thesis using run st by blast
qed

interpretation frame_differ_store: frame_differ
  "diff_frames defaultTileSize" store_frame store_wf
  by unfold_locales
    (auto simp: defaultTileSize_def intro: diff_frames_full diff_frames_partial)

lemma FrameDiffer_Diff_eq:
  "FrameDiffer_Diff d px w h st =
     (case diff_frames (fd_tileSize d) (fd_store d) px w h st of
        Inl e \<Rightarrow> Inl e | Inr (r, s) \<Rightarrow> Inr (r, d\<lparr>fd_store := s\<rparr>))"
  by (auto simp: FrameDiffer_Diff_def split: sum.splits)

interpretation frame_differ_go: frame_differ FrameDiffer_Diff "\<lambda>d. store_frame (fd_store d)"
  "\<lambda>d. store_wf (fd_store d) \<and> 0 < fd_tileSize d"
proof
  fix d :: FrameDiffer and px :: bytes and w h st
  assume "store_wf (fd_store d) \<and> 0 < fd_tileSize d" and "px \<noteq> []"
    and "\<And>p. store_frame (fd_store d) \<noteq> Some (p, w, h)"
  then show "\<exists>d'. FrameDiffer_Diff d px w h st = Inr (None, d') \<and>
      (store_wf (fd_store d') \<and> 0 < fd_tileSize d') \<and> store_frame (fd_store d') = Some (px, w, h)"
    using diff_frames_full [of "fd_store d" px w h "fd_tileSize d" st]
    by (auto simp: FrameDiffer_Diff_eq)
next
  fix d :: FrameDiffer and p px :: bytes and w h st
  assume "store_wf (fd_store d) \<and> 0 < fd_tileSize d"
    and "store_frame (fd_store d) = Some (p, w, h)" and "length px = length p"
  then show "\<exists>rs d'. FrameDiffer_Diff d px w h st = Inr (Some rs, d') \<and>
      (store_wf (fd_store d') \<and> 0 < fd_tileSize d') \<and> store_frame (fd_store d') = Some (px, w, h) \<and>
      (\<forall>r \<in> set rs. on_screen (unat w) (unat h) r) \<and>
      (\<forall>x < unat w. \<forall>y < unat h. \<not> covered rs (int x) (int y) \<longrightarrow>
         pixel_at st px x y = pixel_at st p x y)"
    using diff_frames_partial [of "fd_tileSize d" "fd_store d" p w h px st]
    by (auto simp: FrameDiffer_Diff_eq)
qed

section \<open>Properties\<close>

text \<open>
  A viewer that starts from a new \<^verbatim>\<open>FrameDiffer\<close> and, for each captured frame, repaints
  only what \<^verbatim>\<open>Diff\<close> reports (everything for nil, otherwise the listed rectangles) shows
  exactly the last frame after any non-empty sequence of frames of one size, whatever it
  showed before: no change is missed and no call panics.
\<close>

lemma FrameDiffer_view_last_frame:
  assumes "frames \<noteq> []" and "0 < n" and "\<And>px. px \<in> set frames \<Longrightarrow> length px = n"
  shows "\<exists>pic' d'. view_frames FrameDiffer_Diff w h stride NewFrameDiffer pic frames = Inr (pic', d') \<and>
           shows_frame w h stride pic' (last frames)"
  using frame_differ_go.view_last_frame [of NewFrameDiffer frames n w h stride pic] assms
  by (simp add: NewFrameDiffer_def defaultTileSize_def store_wf_def store_frame_def)

lemma FrameDiffer_view_last_frame_witness:
  "\<exists>pic' d'. view_frames FrameDiffer_Diff 2 1 8 NewFrameDiffer (\<lambda>x y. [])
       [[1,2,3,4,5,6,7,8], [1,2,3,4,5,6,7,9]] = Inr (pic', d') \<and>
     shows_frame 2 1 8 pic' [1,2,3,4,5,6,7,9]"
  using FrameDiffer_view_last_frame
      [of "[[1,2,3,4,5,6,7,8], [1,2,3,4,5,6,7,9]]" 8 2 1 8 "\<lambda>x y. []"]
  by (simp only: last.simps list.set insert_iff empty_iff list.size) fastforce

text \<open>A tile whose rows all lie inside both frames is reported only when a pixel of it differs.\<close>

lemma row_changed_True:
  assumes "row_changed pixels bk stride tx tw y = Inr True"
    and "y * stride + tx * 4 + tw * 4 \<le> length pixels"
  shows "\<exists>x. tx \<le> x \<and> x < tx + tw \<and> pixel_at stride pixels x y \<noteq> pixel_at stride bk x y"
proof (rule ccontr)
  let ?o = "y * stride + tx * 4"
  assume "\<not> ?thesis"
  then have same: "pixel_at stride pixels (tx + i) y = pixel_at stride bk (tx + i) y" if "i < tw" for i
    using that by auto
  have diff: "take (tw * 4) (drop ?o pixels) \<noteq> take (tw * 4) (drop ?o bk)"
    using assms by (auto simp: row_changed_def Let_def rbind_Inr_iff gslice_Inr_iff)
  have "take (n * 4) (drop ?o pixels) = take (n * 4) (drop ?o bk)" if "n \<le> tw" for n
    using that
  proof (induction n)
    case 0
    show ?case by simp
  next
    case (Suc n)
    have "take 4 (drop (n * 4) (drop ?o pixels)) = take 4 (drop (n * 4) (drop ?o bk))"
      using same [of n] Suc.prems by (simp add: pixel_at_def algebra_simps)
    with Suc show ?case by (simp add: add.commute [of 4] take_add)
  qed
  with diff show False by blast
qed

lemma tile_changed_True:
  assumes "tile_changed pixels bk stride t = Inr True" and "t \<in> set (rect_tiles ts w h)"
    and "h * stride \<le> length pixels" and "w * 4 \<le> stride"
  shows "\<exists>x y. x < w \<and> y < h \<and> inside (tile_rect t) (int x) (int y) \<and>
           pixel_at stride pixels x y \<noteq> pixel_at stride bk x y"
proof -
  obtain tx ty tw th where t: "t = (tx, ty, tw, th)" by (metis prod_cases4)
  have b: "tx + tw \<le> w" "ty + th \<le> h" using rect_tiles_within assms(2) t by auto
  obtain y where y: "ty \<le> y" "y < ty + th" and row: "row_changed pixels bk stride tx tw y = Inr True"
    using rows_changed_True [OF assms(1) [unfolded t tile_changed_def prod.case]] by auto
  have "y * stride + w * 4 \<le> Suc y * stride" using assms(4) by simp
  also have "\<dots> \<le> h * stride" using y b by (intro mult_le_mono) auto
  finally have "y * stride + tx * 4 + tw * 4 \<le> length pixels" using b assms(3) by linarith
  then obtain x where "tx \<le> x" "x < tx + tw" "pixel_at stride pixels x y \<noteq> pixel_at stride bk x y"
    using row_changed_True row by blast
  then have "x < w \<and> y < h \<and> inside (tile_rect t) (int x) (int y) \<and>
      pixel_at stride pixels x y \<noteq> pixel_at stride bk x y"
    using y b by (simp add: t inside_tile_rect)
  then show ?thesis by blast
qed

text \<open>The rectangles are exactly the changed tiles, in reading order.\<close>

lemma dirty_tiles_filter:
  assumes "dirty_tiles ts pixels bk w h stride = Inr dirty"
  shows "dirty = map tile_rect
           (filter (\<lambda>t. tile_changed pixels bk stride t = Inr True) (rect_tiles ts w h))"
proof -
  have "d' = d @ map tile_rect (filter (\<lambda>t. tile_changed pixels bk stride t = Inr True) tl)"
    if "foldM (\<lambda>t dirty. rbind (tile_changed pixels bk stride t) (\<lambda>c.
        Inr (if c then dirty @ [tile_rect t] else dirty))) tl d = Inr d'" for tl d d'
    using that
  proof (induction tl arbitrary: d)
    case Nil
    then show ?case by simp
  next
    case (Cons t tl)
    from Cons.prems obtain c where c: "tile_changed pixels bk stride t = Inr c"
      and rest: "foldM (\<lambda>t dirty. rbind (tile_changed pixels bk stride t) (\<lambda>c.
        Inr (if c then dirty @ [tile_rect t] else dirty))) tl
        (if c then d @ [tile_rect t] else d) = Inr d'"
      by (auto simp: rbind_Inr_iff)
    from Cons.IH [OF rest] c show ?case by simp
  qed
  from this [OF assms [unfolded dirty_tiles_def]] show ?thesis by simp
qed

text \<open>
  Every rectangle that \<^verbatim>\<open>Diff\<close> lists is a tile that really contains a changed pixel of
  the screen, and the list names no area twice: two listed rectangles with a common point are
  the same entry. (The frame has all its rows, and the stored frame is of the same size.)
\<close>

lemma diff_frames_precise:
  assumes "diff_frames ts d px w h stride = Inr (Some rs, d')"
    and "store_frame d = Some (p, w, h)" and "store_wf d"
    and "length px = length p" and "unat h * stride \<le> length px" and "unat w * 4 \<le> stride"
  shows "(\<forall>r \<in> set rs. \<exists>x y. x < unat w \<and> y < unat h \<and> inside r (int x) (int y) \<and>
            pixel_at stride px x y \<noteq> pixel_at stride p x y) \<and>
         (\<forall>i j x y. i < length rs \<longrightarrow> j < length rs \<longrightarrow> inside (rs ! i) (int x) (int y) \<longrightarrow>
            inside (rs ! j) (int x) (int y) \<longrightarrow> i = j)"
proof -
  from assms(2,3) obtain bk n where bl: "fs_prev d = Some (bk, n)" "n \<le> length bk"
      "p = take n bk" "fs_prevW d = w" "fs_prevH d = h"
    by (auto simp: store_frame_def store_wf_def split: option.splits)
  let ?ch = "\<lambda>t. tile_changed px bk stride t = Inr True" and ?ts = "rect_tiles ts (unat w) (unat h)"
  have dirty: "dirty_tiles ts px bk (unat w) (unat h) stride = Inr rs"
    using assms(1) bl by (auto simp: diff_frames_def rbind_Inr_iff)
  have rs: "rs = map tile_rect (filter ?ch ?ts)" by (rule dirty_tiles_filter [OF dirty])
  have px: "pixel_at stride p x y = pixel_at stride bk x y" if "x < unat w" "y < unat h" for x y
    using pixel_at_take [OF _ assms(6) that, of n bk] assms(4,5) bl(2,3) by simp
  have dist: "distinct (filter ?ch ?ts)" by (simp add: rect_tiles_distinct)
  have "i = j" if ij: "i < length rs" "j < length rs" "inside (rs ! i) (int x) (int y)"
      "inside (rs ! j) (int x) (int y)" for i j x y
  proof -
    have l: "i < length (filter ?ch ?ts)" "j < length (filter ?ch ?ts)" using ij rs by auto
    have "filter ?ch ?ts ! i \<in> set ?ts" "filter ?ch ?ts ! j \<in> set ?ts"
      using nth_mem [OF l(1)] nth_mem [OF l(2)] by (simp_all only: set_filter mem_Collect_eq)
    moreover have "inside (tile_rect (filter ?ch ?ts ! i)) (int x) (int y)"
        "inside (tile_rect (filter ?ch ?ts ! j)) (int x) (int y)"
      using ij(3,4) l unfolding rs by (simp_all only: nth_map)
    ultimately have "filter ?ch ?ts ! i = filter ?ch ?ts ! j" by (rule rect_tiles_disjoint)
    then show ?thesis using dist l nth_eq_iff_index_eq by blast
  qed
  moreover have "\<exists>x y. x < unat w \<and> y < unat h \<and> inside r (int x) (int y) \<and>
            pixel_at stride px x y \<noteq> pixel_at stride p x y" if "r \<in> set rs" for r
  proof -
    from that rs obtain t where t: "r = tile_rect t" "t \<in> set ?ts" "?ch t" by auto
    show ?thesis using tile_changed_True [OF t(3,2) assms(5,6)] px t(1) by metis
  qed
  ultimately show ?thesis by blast
qed

lemma diff_frames_precise_witness:
  "let d = \<lparr>fs_prev = Some ([1,2,3,4,5,6,7,8], 8), fs_prevW = 2, fs_prevH = 1\<rparr>;
       rs = [\<lparr>minX = 1, minY = 0, maxX = 2, maxY = 1\<rparr>]
   in (\<forall>r \<in> set rs. \<exists>x y. x < unat (2::u16) \<and> y < unat (1::u16) \<and> inside r (int x) (int y) \<and>
        pixel_at 8 [1,2,3,4,5,6,7,9] x y \<noteq> pixel_at 8 [1,2,3,4,5,6,7,8] x y) \<and>
      (\<forall>i j x y. i < length rs \<longrightarrow> j < length rs \<longrightarrow> inside (rs ! i) (int x) (int y) \<longrightarrow>
            inside (rs ! j) (int x) (int y) \<longrightarrow> i = j)"
  unfolding Let_def
  by (rule diff_frames_precise [where ts = 1 and
        d = "\<lparr>fs_prev = Some ([1,2,3,4,5,6,7,8], 8), fs_prevW = 2, fs_prevH = 1\<rparr>" and
        d' = "\<lparr>fs_prev = Some ([1,2,3,4,5,6,7,9], 8), fs_prevW = 2, fs_prevH = 1\<rparr>"])
    code_simp+

end
