(* ===== verification/ServerFrames.thy ===== *)
theory ServerFrames
  imports Server Diff
begin

text \<open>
  What the client gets to see of a frame (\<^verbatim>\<open>encodeAndSendFrame\<close> of \<^verbatim>\<open>rfb/server.go\<close>): the
  regions the server encodes, its Raw and Zlib branches as implementations of the encoder
  interface, and the whole path from the captured frames over the differ and the encoder to
  the client's screen.
\<close>

section \<open>Regions\<close>

lemma req_rect_tile:
  "req_rect q = tile_rect (unat (req_X q), unat (req_Y q), unat (req_Width q), unat (req_Height q))"
  by (simp add: req_rect_def tile_rect_def)

lemma encodeRegions_points:
  "covered (encodeRegions req dirty) x y \<longleftrightarrow>
     inside (req_rect req) x y \<and> (case dirty of None \<Rightarrow> True | Some drs \<Rightarrow> covered drs x y)"
proof (cases dirty)
  case None
  then show ?thesis by (simp add: encodeRegions_def covered_def)
next
  case (Some drs)
  have e: "inside r x y \<Longrightarrow> \<not> Empty r" for r by (auto simp: inside_def Empty_def)
  have "covered (encodeRegions req dirty) x y \<longleftrightarrow>
      (\<exists>dr \<in> set drs. \<not> Empty (Intersect dr (req_rect req)) \<and> inside (Intersect dr (req_rect req)) x y)"
    using Some by (auto simp: encodeRegions_def covered_def)
  also have "\<dots> \<longleftrightarrow> (\<exists>dr \<in> set drs. inside (Intersect dr (req_rect req)) x y)" using e by blast
  finally show ?thesis using Some by (auto simp: covered_def inside_Intersect)
qed

lemma reg_area_rect:
  assumes "on_screen w h r" and "w \<le> 65535" and "h \<le> 65535"
  shows "area_rect (reg_area r) = r" and "reg_x r + reg_w r \<le> w" and "reg_y r + reg_h r \<le> h"
proof -
  have b: "reg_x r + reg_w r \<le> w" "reg_y r + reg_h r \<le> h"
    using assms(1) by (auto simp: on_screen_def reg_x_def reg_y_def reg_w_def reg_h_def Dx_def Dy_def)
  then show "reg_x r + reg_w r \<le> w" "reg_y r + reg_h r \<le> h" by auto
  have "unat (of_nat (reg_x r) :: u16) = reg_x r" "unat (of_nat (reg_y r) :: u16) = reg_y r"
    "unat (of_nat (reg_w r) :: u16) = reg_w r" "unat (of_nat (reg_h r) :: u16) = reg_h r"
    using b assms(2,3) by auto
  then have "area_rect (reg_area r) = tile_rect (reg_x r, reg_y r, reg_w r, reg_h r)"
    by (simp add: area_rect_def reg_area_def)
  also have "\<dots> = r"
    using assms(1) by (cases r)
      (simp add: tile_rect_def image_Rect_def on_screen_def reg_x_def reg_y_def reg_w_def reg_h_def Dx_def Dy_def)
  finally show "area_rect (reg_area r) = r" .
qed

lemma area_rect_reg:
  "reg_x (area_rect (x, y, w, h)) = unat x" "reg_y (area_rect (x, y, w, h)) = unat y"
  "reg_w (area_rect (x, y, w, h)) = unat w" "reg_h (area_rect (x, y, w, h)) = unat h"
  "reg_area (area_rect (x, y, w, h)) = (x, y, w, h)"
  by (simp_all add: area_rect_def tile_rect_def image_Rect_def reg_x_def reg_y_def reg_w_def reg_h_def reg_area_def Dx_def Dy_def)

section \<open>Pixels in the client's format\<close>

text \<open>\<open>shows_as pf serverPf q p\<close>: \<open>q\<close> is the server pixel \<open>p\<close> in the client's format.\<close>

definition shows_as :: "PixelFormat \<Rightarrow> PixelFormat \<Rightarrow> bytes \<Rightarrow> bytes \<Rightarrow> bool" where
  "shows_as pf serverPf q p \<longleftrightarrow>
     (if pf = serverPf then q = p else convert_at pf serverPf p 0 = Inr q)"

definition server_ok :: "PixelFormat \<Rightarrow> bool" where
  "server_ok serverPf \<longleftrightarrow> bytesPerPixel serverPf = 4 \<and> full_range serverPf"

definition pf_picture :: "PixelFormat \<Rightarrow> Rectangle \<Rightarrow> bytes \<Rightarrow> picture" where
  "pf_picture pf r b i j =
     (let n = bytesPerPixel pf in
      take n (drop ((j * unat (hdr_Width (rect_Header r)) + i) * n) b))"

lemma un32_take: "un32 (take 4 t) = un32 t"
proof (cases "4 \<le> length t")
  case True
  then obtain a b c d r where "t = a # b # c # d # r"
    by (auto simp: numeral_eq_Suc Suc_le_length_iff)
  then show ?thesis by simp
next
  case False
  then show ?thesis by simp
qed

lemma load_pixel_local:
  assumes "bytesPerPixel src = 4" and "off + 4 \<le> length px"
  shows "load_pixel src px off = load_pixel src (take 4 (drop off px)) 0"
proof -
  have "unle32 (take 4 t) = unle32 t" for t by (simp add: unle32_def)
  then show ?thesis using assms un32_take
    by (auto simp: load_pixel_def tail_slice_def need_def gslice_def)
qed

lemma convert_at_local:
  assumes "bytesPerPixel src = 4" and "i * 4 + 4 \<le> length px"
  shows "convert_at dst src px i = convert_at dst src (take 4 (drop (i * 4) px)) 0"
  using load_pixel_local [OF assms(1), of "i * 4" px] assms by (simp add: convert_at_def)

text \<open>A converted region shows every pixel in the client's format.\<close>

lemma ConvertPixels_shows:
  assumes "server_ok serverPf" and "length px = w * h * 4"
  shows "\<exists>out. ConvertPixels pf serverPf px w h = Inr out \<and>
     (\<forall>i < w. \<forall>j < h. shows_as pf serverPf
        (take (bytesPerPixel pf) (drop ((j * w + i) * bytesPerPixel pf) out)) (pixel_at (w * 4) px i j))"
proof (cases "pf = serverPf")
  case True
  then show ?thesis using assms(1)
    by (simp add: ConvertPixels_def shows_as_def server_ok_def pixel_at_def algebra_simps)
next
  case False
  have b4: "bytesPerPixel serverPf = 4" and fr: "full_range serverPf" using assms(1) by (auto simp: server_ok_def)
  have "\<exists>ps. mapM (convert_at pf serverPf px) [0..<w * h] = Inr ps"
    by (rule mapM_ex) (use convert_at_total [where n = "w * h"] assms(2) b4 fr in auto)
  then obtain ps where ps: "mapM (convert_at pf serverPf px) [0..<w * h] = Inr ps" ..
  have len: "length ps = w * h" using mapM_length [OF ps] by simp
  have at: "convert_at pf serverPf px k = Inr (ps ! k)" if "k < w * h" for k
    using mapM_nth [OF ps, of k] that by simp
  have blk: "length y = bytesPerPixel pf" if "y \<in> set ps" for y
    using that at convert_at_length len by (metis in_set_conv_nth)
  have "shows_as pf serverPf (take (bytesPerPixel pf) (drop ((j * w + i) * bytesPerPixel pf) (concat ps)))
      (pixel_at (w * 4) px i j)" if ij: "i < w" "j < h" for i j
  proof -
    let ?k = "j * w + i"
    have k: "?k < w * h" by (rule grid_index [OF ij])
    then have l4: "?k * 4 + 4 \<le> length px" using assms(2) by simp
    have "take (bytesPerPixel pf) (drop (?k * bytesPerPixel pf) (concat ps)) = ps ! ?k"
      by (rule concat_block [OF blk]) (use k len in auto)
    moreover have "pixel_at (w * 4) px i j = take 4 (drop (?k * 4) px)" by (simp add: pixel_at_def algebra_simps)
    ultimately show ?thesis
      using at [OF k] convert_at_local [OF b4 l4, of pf] False by (simp add: shows_as_def)
  qed
  then show ?thesis using ps False by (auto simp: ConvertPixels_def)
qed

section \<open>Raw and Zlib regions\<close>

lemma region_rows_full:
  assumes "\<And>row. row \<in> set rows \<Longrightarrow> (y + row) * stride + x * 4 + w * 4 \<le> length pixels"
  shows "region_rows pixels stride x y w rows =
     Inr (concat (map (\<lambda>row. take (w * 4) (drop ((y + row) * stride + x * 4) pixels)) rows))"
  using assms
proof (induction rows)
  case Nil
  then show ?case by simp
next
  case (Cons row rows)
  have "(y + row) * stride + x * 4 + w * 4 \<le> length pixels" using Cons.prems by simp
  moreover have "region_rows pixels stride x y w rows =
      Inr (concat (map (\<lambda>row. take (w * 4) (drop ((y + row) * stride + x * 4) pixels)) rows))"
    using Cons by simp
  ultimately show ?case by (simp add: Let_def gslice_def)
qed

lemma region_data_full:
  assumes "frame_has pixels stride (unat x) (unat y) (unat w) (unat h)"
  shows "region_data pixels stride (area_rect (x, y, w, h)) =
     Inr (region_bytes pixels stride (unat x) (unat y) (unat w) (unat h))"
  unfolding region_data_def area_rect_reg region_bytes_def
  by (rule region_rows_full) (use frame_hasD [OF assms] in auto)

lemma region_shows:
  assumes "server_ok serverPf" and "frame_has pixels stride (unat x) (unat y) (unat w) (unat h)"
  shows "\<exists>out. rbind (region_data pixels stride (area_rect (x, y, w, h)))
       (\<lambda>d. ConvertPixels pf serverPf d (unat w) (unat h)) = Inr out \<and>
     shows_region (shows_as pf serverPf) pixels stride (inside (area_rect (x, y, w, h)))
       (paint (mkRect x y w h enc data) (pf_picture pf (mkRect x y w h enc data) out) pic) pic"
proof -
  let ?px = "region_bytes pixels stride (unat x) (unat y) (unat w) (unat h)"
  have len: "length ?px = unat w * unat h * 4" using length_region_bytes [OF assms(2)] by simp
  obtain out where out: "ConvertPixels pf serverPf ?px (unat w) (unat h) = Inr out"
    and sh: "\<forall>i < unat w. \<forall>j < unat h. shows_as pf serverPf
        (take (bytesPerPixel pf) (drop ((j * unat w + i) * bytesPerPixel pf) out)) (pixel_at (unat w * 4) ?px i j)"
    using ConvertPixels_shows [OF assms(1) len] by blast
  have "shows_region (shows_as pf serverPf) pixels stride (inside (area_rect (x, y, w, h)))
       (paint (mkRect x y w h enc data) (pf_picture pf (mkRect x y w h enc data) out) pic) pic"
    by (rule paint_region_shows [OF assms(2)])
      (use sh region_bytes_pixel [OF assms(2)] in \<open>auto simp: pf_picture_def Let_def\<close>)
  then show ?thesis using out region_data_full [OF assms(2)] by simp
qed

definition srv_raw :: "PixelFormat \<Rightarrow> PixelFormat \<Rightarrow> area16 \<Rightarrow> bytes \<Rightarrow> nat \<Rightarrow> (unit, Rectangle list) prog" where
  "srv_raw pf serverPf a pixels stride =
     bind_io (lift_res (raw_region pf serverPf pixels stride (area_rect a))) (\<lambda>r. ret [r])"

definition srv_zlib ::
  "deflater \<Rightarrow> PixelFormat \<Rightarrow> PixelFormat \<Rightarrow> area16 \<Rightarrow> bytes \<Rightarrow> nat \<Rightarrow> (zlibStream, Rectangle list) prog" where
  "srv_zlib z pf serverPf a pixels stride =
     bind_io (zlib_region z pf serverPf pixels stride (area_rect a)) (\<lambda>r. ret [r])"

definition pf_decoder :: "PixelFormat \<Rightarrow> unit decoder" where
  "pf_decoder pf d r = (pf_picture pf r (rect_Data r), d)"

definition pf_zlib_decoder :: "PixelFormat \<Rightarrow> (bytes \<Rightarrow> bytes) \<Rightarrow> bytes decoder" where
  "pf_zlib_decoder pf inflate d r =
     (let b = drop 4 (rect_Data r) in (pf_picture pf r (inflate_next inflate d b), d @ b))"

interpretation srv_raw: region_encoder "srv_raw pf serverPf" "pf_decoder pf" "\<lambda>_ _. server_ok serverPf"
  "shows_as pf serverPf" for pf serverPf
proof
  fix s d :: unit and pixels stride a and pic :: picture
  assume ok: "server_ok serverPf" and "area_ok pixels stride a"
  then obtain x y w h where a: "a = (x, y, w, h)"
    and f: "frame_has pixels stride (unat x) (unat y) (unat w) (unat h)"
    by (cases a) (auto simp: area_ok_def)
  obtain out where out: "rbind (region_data pixels stride (area_rect (x, y, w, h)))
       (\<lambda>d. ConvertPixels pf serverPf d (unat w) (unat h)) = Inr out"
    using region_shows [OF ok f] by blast
  then have run: "srv_raw pf serverPf a pixels stride s = (Inr [mkRect x y w h EncodingRaw out], s)"
    by (auto simp: a srv_raw_def raw_region_def rbind_Inr_iff area_rect_reg region_rect_def conn_simps)
  have "shows_region (shows_as pf serverPf) pixels stride (inside (area_rect a))
       (paint (mkRect x y w h EncodingRaw out) (pf_picture pf (mkRect x y w h EncodingRaw out) out) pic) pic"
    using region_shows [OF ok f, of pf EncodingRaw out pic] out a by auto
  then show "\<exists>rects s' pic' d'. srv_raw pf serverPf a pixels stride s = (Inr rects, s') \<and>
      view_rects (pf_decoder pf) d rects pic = (pic', d') \<and> server_ok serverPf \<and>
      shows_region (shows_as pf serverPf) pixels stride (inside (area_rect a)) pic' pic"
    using run ok by (simp add: pf_decoder_def)
qed

definition srv_zsync :: "deflater \<Rightarrow> (bytes \<Rightarrow> bytes) \<Rightarrow> PixelFormat \<Rightarrow> zlibStream \<Rightarrow> bytes \<Rightarrow> bool" where
  "srv_zsync z inflate serverPf s d \<longleftrightarrow> server_ok serverPf \<and> zsync z inflate s d \<and> zs_writer s \<noteq> None"

lemma zopen_open: "zs_writer s \<noteq> None \<Longrightarrow> zopen s = (Inr (), s)"
  by (simp add: zopen_def conn_simps)

lemma zlib_region_zframe:
  assumes "rbind (region_data pixels stride r) (\<lambda>d. ConvertPixels pf serverPf d (reg_w r) (reg_h r)) = Inr out"
    and "zs_writer s \<noteq> None"
  shows "zlib_region z pf serverPf pixels stride r s =
     bind_io (zframe z [out]) (\<lambda>b. ret (region_rect r EncodingZlib (be32 (of_nat (length b)) @ b))) s"
proof -
  have "bind_io zopen k s = k () s" for k :: "unit \<Rightarrow> (zlibStream, Rectangle) prog"
    using zopen_open [OF assms(2)] by (simp add: bind_io_def)
  then show ?thesis
    unfolding zlib_region_def assms(1) bind_lift_Inr zframe_def wrap_zdo_Some
    by (simp add: bind_io_assoc bind_ret_left)
qed

lemma zframe_open:
  assumes "zframe z ws s = (Inr b, s')" and "zs_writer s \<noteq> None"
  shows "zs_writer s' \<noteq> None"
proof -
  obtain h where h: "zs_writer s = Some h" using assms(2) by blast
  have "zopen s = (Inr (), s)" "zclear s = (Inr (), s\<lparr>zs_buf := []\<rparr>)"
    using zopen_open [OF assms(2)] by (auto simp: zclear_def conn_simps)
  moreover have "s\<lparr>zs_buf := []\<rparr> = \<lparr>zs_buf = [], zs_writer = Some h\<rparr>" using h by (cases s) simp
  ultimately show ?thesis using assms(1) zdo_seq [of z "map ZWrite ws" "[]" h]
    by (auto simp: zframe_def bind_io_def zdo_def conn_simps simp del: map_map)
qed

interpretation srv_zlib: region_encoder "srv_zlib z pf serverPf" "pf_zlib_decoder pf inflate"
  "srv_zsync z inflate serverPf" "shows_as pf serverPf" for z pf serverPf inflate
proof
  fix s d pixels stride a and pic :: picture
  assume sync: "srv_zsync z inflate serverPf s d" and "area_ok pixels stride a"
  then obtain x y w h where a: "a = (x, y, w, h)"
    and f: "frame_has pixels stride (unat x) (unat y) (unat w) (unat h)"
    by (cases a) (auto simp: area_ok_def)
  have ok: "server_ok serverPf" and zs: "zsync z inflate s d" and op: "zs_writer s \<noteq> None"
    using sync by (auto simp: srv_zsync_def)
  obtain out where out: "rbind (region_data pixels stride (area_rect (x, y, w, h)))
       (\<lambda>d. ConvertPixels pf serverPf d (unat w) (unat h)) = Inr out"
    using region_shows [OF ok f] by blast
  obtain b s' where b: "zframe z [out] s = (Inr b, s')" "zsync z inflate s' (d @ b)" "inflate_next inflate d b = out"
    using zframe_sync [OF zs, of "[out]"] by auto
  let ?r = "mkRect x y w h EncodingZlib (be32 (of_nat (length b)) @ b)"
  have run: "srv_zlib z pf serverPf a pixels stride s = (Inr [?r], s')"
    using zlib_region_zframe [where r = "area_rect (x, y, w, h)" and pf = pf, unfolded area_rect_reg, OF out op] b(1)
    by (simp add: a srv_zlib_def bind_io_def conn_simps region_rect_def area_rect_reg)
  have "shows_region (shows_as pf serverPf) pixels stride (inside (area_rect a)) (paint ?r (pf_picture pf ?r out) pic) pic"
    using region_shows [OF ok f, of pf EncodingZlib "be32 (of_nat (length b)) @ b" pic] out a by auto
  then show "\<exists>rects s' pic' d'. srv_zlib z pf serverPf a pixels stride s = (Inr rects, s') \<and>
      view_rects (pf_zlib_decoder pf inflate) d rects pic = (pic', d') \<and> srv_zsync z inflate serverPf s' d' \<and>
      shows_region (shows_as pf serverPf) pixels stride (inside (area_rect a)) pic' pic"
    using run b ok zframe_open [OF b(1) op] by (simp add: pf_zlib_decoder_def Let_def srv_zsync_def)
qed

end
