(* ===== verification/Display.thy ===== *)
theory Display
  imports ServerFrames
begin

text \<open>
  The way of a frame from the capturer to the client's screen: the frame differ and the
  encoders composed (\<open>display_pipeline\<close>), and \<^verbatim>\<open>encodeAndSendFrame\<close> of the server, which sends one
  framebuffer update that shows the requested and changed part of the frame.
\<close>

section \<open>From the captured frames to the client's screen\<close>

text \<open>
  A frame differ and an encoder together: each frame is compared with the one before, the
  reported areas (the whole screen for nil) are encoded, and the client decodes and paints.
\<close>

definition report_areas :: "u16 \<Rightarrow> u16 \<Rightarrow> rect list option \<Rightarrow> area16 list" where
  "report_areas w h report = (case report of None \<Rightarrow> [(0, 0, w, h)] | Some rs \<Rightarrow> map reg_area rs)"

fun pipe_frames ::
  "('f \<Rightarrow> bytes \<Rightarrow> u16 \<Rightarrow> u16 \<Rightarrow> nat \<Rightarrow> (rect list option \<times> 'f) res) \<Rightarrow>
   (area16 \<Rightarrow> bytes \<Rightarrow> nat \<Rightarrow> ('s, Rectangle list) prog) \<Rightarrow> 'd decoder \<Rightarrow> u16 \<Rightarrow> u16 \<Rightarrow> nat \<Rightarrow>
   'f \<Rightarrow> 's \<Rightarrow> 'd \<Rightarrow> picture \<Rightarrow> bytes list \<Rightarrow> picture res" where
  "pipe_frames diff encode dec w h st f s d pic [] = Inr pic"
| "pipe_frames diff encode dec w h st f s d pic (px # pxs) =
     rbind (diff f px w h st) (\<lambda>(report, f').
     case encode_areas encode (report_areas w h report) px st s of
       (Inl e, s') \<Rightarrow> Inl e
     | (Inr rects, s') \<Rightarrow>
         (case view_rects dec d rects pic of (pic', d') \<Rightarrow>
            pipe_frames diff encode dec w h st f' s' d' pic' pxs))"

definition shows_screen :: "(bytes \<Rightarrow> bytes \<Rightarrow> bool) \<Rightarrow> u16 \<Rightarrow> u16 \<Rightarrow> nat \<Rightarrow> picture \<Rightarrow> bytes \<Rightarrow> bool" where
  "shows_screen shows_px w h st pic px \<longleftrightarrow>
     (\<forall>x < unat w. \<forall>y < unat h. shows_px (pic x y) (pixel_at st px x y))"

lemma full_frame:
  fixes w h :: u16
  assumes "unat h * st \<le> length px" and "unat w * 4 \<le> st" and "x + rw \<le> unat w" and "y + rh \<le> unat h"
  shows "frame_has px st x y rw rh"
proof -
  have "(y + row) * st + x * 4 + rw * 4 \<le> length px" if "row < rh" for row
  proof -
    have "(y + row) * st + x * 4 + rw * 4 \<le> (y + row) * st + st" using assms(2,3) by linarith
    also have "\<dots> = Suc (y + row) * st" by simp
    also have "\<dots> \<le> unat h * st" using assms(4) that by (intro mult_le_mono) auto
    finally show ?thesis using assms(1) by linarith
  qed
  then show ?thesis by (simp add: frame_has_def)
qed

lemma unat16_le: "unat (x :: u16) \<le> 65535"
  using unat_u16_less [of x] by linarith

lemma screen_area_ok:
  fixes w h :: u16
  assumes "unat h * st \<le> length px" and "unat w * 4 \<le> st" and "on_screen (unat w) (unat h) r"
  shows "area_ok px st (reg_area r) \<and> area_rect (reg_area r) = r"
proof -
  note b = reg_area_rect [OF assms(3) unat16_le unat16_le]
  have "unat (of_nat (reg_x r) :: u16) = reg_x r" "unat (of_nat (reg_y r) :: u16) = reg_y r"
    "unat (of_nat (reg_w r) :: u16) = reg_w r" "unat (of_nat (reg_h r) :: u16) = reg_h r"
    using b unat16_le [of w] unat16_le [of h] by auto
  then show ?thesis
    using b full_frame [OF assms(1,2) b(2,3)] unat16_le [of w] unat16_le [of h]
    by (simp add: area_ok_def reg_area_def)
qed

lemma whole_area: "area_rect (0, 0, w, h) = tile_rect (0, 0, unat w, unat h)"
  by (simp add: area_rect_def)

locale display_pipeline = frame_differ diff stored inv + region_encoder encode dec sync shows_px
  for diff :: "'f \<Rightarrow> bytes \<Rightarrow> u16 \<Rightarrow> u16 \<Rightarrow> nat \<Rightarrow> (rect list option \<times> 'f) res"
    and stored :: "'f \<Rightarrow> (bytes \<times> u16 \<times> u16) option"
    and inv :: "'f \<Rightarrow> bool"
    and encode :: "area16 \<Rightarrow> bytes \<Rightarrow> nat \<Rightarrow> ('s, Rectangle list) prog"
    and dec :: "'d decoder"
    and sync :: "'s \<Rightarrow> 'd \<Rightarrow> bool"
    and shows_px :: "bytes \<Rightarrow> bytes \<Rightarrow> bool"
begin

lemma pipe_step:
  assumes "inv f" and "sync s d" and "unat h * st = length px" and "unat w * 4 \<le> st" and "px \<noteq> []"
    and "\<And>p. stored f = Some (p, w, h) \<Longrightarrow> length p = length px \<and> shows_screen shows_px w h st pic p"
  shows "\<exists>report f' rects s' pic' d'. diff f px w h st = Inr (report, f') \<and>
     encode_areas encode (report_areas w h report) px st s = (Inr rects, s') \<and>
     view_rects dec d rects pic = (pic', d') \<and> inv f' \<and> sync s' d' \<and> stored f' = Some (px, w, h) \<and>
     shows_screen shows_px w h st pic' px"
proof (cases "\<exists>p. stored f = Some (p, w, h)")
  case False
  then obtain f' where f': "diff f px w h st = Inr (None, f')" "inv f'" "stored f' = Some (px, w, h)"
    using diff_full [OF assms(1,5), of w h st] by blast
  have "area_ok px st (0, 0, w, h)"
    using full_frame [of h st px w 0 "unat w" 0 "unat h"] assms(3,4) unat16_le [of w] unat16_le [of h]
    by (simp add: area_ok_def)
  then obtain rects s' pic' d' where e: "encode_areas encode [(0, 0, w, h)] px st s = (Inr rects, s')"
      "view_rects dec d rects pic = (pic', d')" "sync s' d'"
      "shows_region shows_px px st (covered (map area_rect [(0, 0, w, h)])) pic' pic"
    using encode_areas_shows [OF assms(2), of "[(0, 0, w, h)]" px st pic] by auto
  have "shows_screen shows_px w h st pic' px"
    unfolding shows_screen_def
  proof (intro allI impI)
    fix x y
    assume "x < unat w" "y < unat h"
    then have "covered (map area_rect [(0, 0, w, h)]) (int x) (int y)"
      by (simp add: covered_def whole_area inside_tile_rect)
    then show "shows_px (pic' x y) (pixel_at st px x y)" using e(4) unfolding shows_region_def by metis
  qed
  then show ?thesis using f' e by (auto simp: report_areas_def)
next
  case True
  then obtain p where p: "stored f = Some (p, w, h)" by blast
  with assms(6) have len: "length px = length p" and view: "shows_screen shows_px w h st pic p" by auto
  obtain rs f' where f': "diff f px w h st = Inr (Some rs, f')" "inv f'" "stored f' = Some (px, w, h)"
      "\<forall>r \<in> set rs. on_screen (unat w) (unat h) r"
      "\<forall>x < unat w. \<forall>y < unat h. \<not> covered rs (int x) (int y) \<longrightarrow> pixel_at st px x y = pixel_at st p x y"
    using diff_partial [OF assms(1) p len, of st] by blast
  have ok: "area_ok px st (reg_area r) \<and> area_rect (reg_area r) = r" if "r \<in> set rs" for r
    using screen_area_ok [of h st px w r] assms(3,4) f'(4) that by simp
  have aok: "area_ok px st a" if "a \<in> set (map reg_area rs)" for a
    using that ok by fastforce
  have areas: "map area_rect (map reg_area rs) = rs" using ok by (simp add: map_idI)
  obtain rects s' pic' d' where e: "encode_areas encode (map reg_area rs) px st s = (Inr rects, s')"
      "view_rects dec d rects pic = (pic', d')" "sync s' d'"
      "shows_region shows_px px st (covered (map area_rect (map reg_area rs))) pic' pic"
    using encode_areas_shows [OF assms(2) aok] by blast
  have "shows_screen shows_px w h st pic' px"
    unfolding shows_screen_def
  proof (intro allI impI)
    fix x y
    assume xy: "x < unat w" "y < unat h"
    show "shows_px (pic' x y) (pixel_at st px x y)"
    proof (cases "covered rs (int x) (int y)")
      case True
      then show ?thesis using e(4) unfolding shows_region_def areas by metis
    next
      case False
      then have "pic' x y = pic x y" using e(4) unfolding shows_region_def areas by metis
      moreover have "pixel_at st px x y = pixel_at st p x y" using f'(5) xy False by blast
      ultimately show ?thesis using view xy unfolding shows_screen_def by metis
    qed
  qed
  then show ?thesis using f' e by (auto simp: report_areas_def)
qed

lemma pipe_last_frame:
  assumes "inv f" and "sync s d" and "pxs \<noteq> []" and "0 < unat h * st" and "unat w * 4 \<le> st"
    and "\<And>px. px \<in> set pxs \<Longrightarrow> length px = unat h * st"
    and "\<And>p. stored f = Some (p, w, h) \<Longrightarrow> length p = unat h * st \<and> shows_screen shows_px w h st pic p"
  shows "\<exists>pic'. pipe_frames diff encode dec w h st f s d pic pxs = Inr pic' \<and>
     shows_screen shows_px w h st pic' (last pxs)"
  using assms(1,2,3,6,7)
proof (induction pxs arbitrary: f s d pic)
  case Nil
  then show ?case by simp
next
  case (Cons px pxs)
  have len: "length px = unat h * st" using Cons.prems(4) by simp
  then have "px \<noteq> []" using assms(4) by auto
  then obtain report f' rects s' pic' d' where 1: "diff f px w h st = Inr (report, f')"
     "encode_areas encode (report_areas w h report) px st s = (Inr rects, s')"
     "view_rects dec d rects pic = (pic', d')" "inv f'" "sync s' d'" "stored f' = Some (px, w, h)"
     "shows_screen shows_px w h st pic' px"
    using pipe_step [OF Cons.prems(1,2) len [symmetric] assms(5)] Cons.prems(5) len by metis
  show ?case
  proof (cases "pxs = []")
    case True
    then show ?thesis using 1 by simp
  next
    case False
    have "\<exists>pic''. pipe_frames diff encode dec w h st f' s' d' pic' pxs = Inr pic'' \<and>
        shows_screen shows_px w h st pic'' (last pxs)"
      by (rule Cons.IH) (use 1 False Cons.prems(4) len in auto)
    then show ?thesis using 1 False by auto
  qed
qed

end

interpretation pipe_raw: display_pipeline "diff_frames defaultTileSize" store_frame store_wf
  "srv_raw pf serverPf" "pf_decoder pf" "\<lambda>_ _. server_ok serverPf" "shows_as pf serverPf" for pf serverPf ..

interpretation pipe_zlib: display_pipeline "diff_frames defaultTileSize" store_frame store_wf
  "srv_zlib z pf serverPf" "pf_zlib_decoder pf inflate" "srv_zsync z inflate serverPf" "shows_as pf serverPf"
  for z pf serverPf inflate ..

interpretation pipe_tight: display_pipeline "diff_frames defaultTileSize" store_frame store_wf
  "EncodeMulti z jpeg" "tight_decoder L inflate" "tight_sync z inflate jpeg L close" "shows_close close"
  for z jpeg L inflate close ..

section \<open>Sending a frame\<close>

lemma for_regions_areas:
  assumes "encode_areas encode (map reg_area rs) px st s = (Inr rects, s')"
    and "\<And>r s x s'. r \<in> set rs \<Longrightarrow> encode (reg_area r) px st s = (Inr x, s') \<Longrightarrow> f r s = (Inr x, s')"
  shows "for_regions f rs s = (Inr rects, s')"
  using assms
proof (induction rs arbitrary: s rects)
  case Nil
  then show ?case by (simp add: conn_simps)
next
  case (Cons r rs)
  then obtain x s1 ys where "encode (reg_area r) px st s = (Inr x, s1)"
      "encode_areas encode (map reg_area rs) px st s1 = (Inr ys, s')" "rects = x @ ys"
    by (auto simp: io_Inr_iffs)
  moreover have "f r s = (Inr x, s1)" using Cons.prems(2) calculation(1) by simp
  moreover have "for_regions f rs s1 = (Inr ys, s')" using Cons.IH [OF calculation(2)] Cons.prems(2) by simp
  ultimately show ?case by (simp add: conn_simps)
qed

lemma raw_regions_areas:
  assumes "\<And>r. r \<in> set rs \<Longrightarrow> area_rect (reg_area r) = r"
  shows "encode_areas (srv_raw pf serverPf) (map reg_area rs) px st s = (mapM (raw_region pf serverPf px st) rs, s)"
  using assms
proof (induction rs)
  case Nil
  then show ?case by (simp add: conn_simps)
next
  case (Cons r rs)
  then show ?case
    by (cases "raw_region pf serverPf px st r"; cases "mapM (raw_region pf serverPf px st) rs")
      (simp_all add: srv_raw_def conn_simps)
qed

text \<open>The part of the frame a request asks for and that may have changed.\<close>

definition wanted :: "FramebufferUpdateRequest \<Rightarrow> rect list option \<Rightarrow> int \<Rightarrow> int \<Rightarrow> bool" where
  "wanted req dirty x y \<longleftrightarrow>
     inside (req_rect req) x y \<and> (case dirty of None \<Rightarrow> True | Some drs \<Rightarrow> covered drs x y)"

lemma on_screen_Intersect:
  "on_screen w h r \<Longrightarrow> on_screen w h s \<Longrightarrow> on_screen w h (Intersect r s)"
  by (auto simp: on_screen_def Intersect_def Let_def Empty_def)

lemma encodeRegions_on_screen:
  assumes "on_screen w h (req_rect req)" and "\<And>drs r. dirty = Some drs \<Longrightarrow> r \<in> set drs \<Longrightarrow> on_screen w h r"
    and "r \<in> set (encodeRegions req dirty)"
  shows "on_screen w h r"
  using assms on_screen_Intersect by (cases dirty) (auto simp: encodeRegions_def)

text \<open>
  A session in which no pseudo-rectangle is due: the client supports neither the cursor nor
  the desktop-size encoding.
\<close>

definition plain_session :: "('t, 'h) session \<Rightarrow> bytes \<Rightarrow> bytes \<Rightarrow> bool" where
  "plain_session s i out \<longleftrightarrow>
     cc_conn (ses_client s) = live i out \<and> \<not> supportsDesktopSize (cc_encodings (ses_client s)) \<and>
     \<not> supportsCursor (cc_encodings (ses_client s))"

text \<open>What an answer leaves as it was: the configuration, and what the client has set.\<close>

definition same_setting :: "('t, 'h) session \<Rightarrow> ('t, 'h) session \<Rightarrow> bool" where
  "same_setting s s' \<longleftrightarrow> ses_config s' = ses_config s \<and> cc_encodings (ses_client s') = cc_encodings (ses_client s) \<and>
     cc_pixelFormat (ses_client s') = cc_pixelFormat (ses_client s)"

lemma send_update_live:
  "cc_conn (ses_client s) = live i out \<Longrightarrow>
     send_update rects s = (Inr (), upd_client (\<lambda>c. c\<lparr>cc_conn := live i (out @ enc_FramebufferUpdate rects)\<rparr>) s)"
  by (simp add: send_update_def on_wire_def conn_simps upd_client_def)

lemma encodeAndSendFrame_plain:
  assumes "plain_session s i out"
    and "bestEncoding (ses_config s) (cc_encodings (ses_client s)) = enc" and "enc \<noteq> EncodingH264"
    and "encode_regions z enc bounds px st (encodeRegions req dirty) s = (Inr rects, s1)"
    and "encodeRegions req dirty = [] \<longrightarrow> rects = [] \<and> s1 = s"
    and "cc_conn (ses_client s1) = live i out"
  shows "encodeAndSendFrame z bounds cursor req px st dirty s =
     (Inr (), upd_client (\<lambda>c. c\<lparr>cc_conn := live i (out @ enc_FramebufferUpdate rects)\<rparr>) s1)"
proof -
  have p: "desktop_size_rects bounds s = (Inr [], s)" "cursor_rects cursor s = (Inr [], s)"
    using assms(1) by (simp_all add: plain_session_def desktop_size_rects_def cursor_rects_def conn_simps)
  show ?thesis
  proof (cases "encodeRegions req dirty = []")
    case True
    then have "rects = []" "s1 = s" using assms(5) by auto
    then show ?thesis using p assms(2,3,6) True send_update_live
      by (auto simp: encodeAndSendFrame_def conn_simps Let_def)
  next
    case False
    then have "dirty \<noteq> Some []" by (auto simp: encodeRegions_def)
    then show ?thesis using p assms(2,3,4,6) False send_update_live
      by (simp add: encodeAndSendFrame_def conn_simps Let_def)
  qed
qed

text \<open>A frame that fills the screen, and a request and dirty rectangles that lie on it.\<close>

definition screen_frame :: "u16 \<Rightarrow> u16 \<Rightarrow> bytes \<Rightarrow> nat \<Rightarrow> bool" where
  "screen_frame w h px st \<longleftrightarrow> unat h * st \<le> length px \<and> unat w * 4 \<le> st"

definition valid_request :: "u16 \<Rightarrow> u16 \<Rightarrow> FramebufferUpdateRequest \<Rightarrow> rect list option \<Rightarrow> bool" where
  "valid_request w h req dirty \<longleftrightarrow> on_screen (unat w) (unat h) (req_rect req) \<and>
     (case dirty of None \<Rightarrow> True | Some drs \<Rightarrow> list_all (on_screen (unat w) (unat h)) drs)"

lemma wanted_covered: "covered (encodeRegions req dirty) x y = wanted req dirty x y"
  using encodeRegions_points by (simp add: wanted_def)

lemma no_regions_shown:
  "encodeRegions req dirty = [] \<Longrightarrow> shows_region shows_px px st (wanted req dirty) pic pic"
  by (rule shows_region_cong [OF shows_region_empty]) (simp flip: wanted_covered add: covered_def)

lemma request_regions:
  assumes "screen_frame w h px st" and "valid_request w h req dirty"
  shows "\<And>r. r \<in> set (encodeRegions req dirty) \<Longrightarrow> area_ok px st (reg_area r) \<and> area_rect (reg_area r) = r"
    and "\<And>a. a \<in> set (map reg_area (encodeRegions req dirty)) \<Longrightarrow> area_ok px st a"
    and "map area_rect (map reg_area (encodeRegions req dirty)) = encodeRegions req dirty"
proof -
  have f: "unat h * st \<le> length px" "unat w * 4 \<le> st" using assms(1) by (auto simp: screen_frame_def)
  have q: "on_screen (unat w) (unat h) (req_rect req)" using assms(2) by (simp add: valid_request_def)
  have d: "on_screen (unat w) (unat h) r" if "dirty = Some drs" "r \<in> set drs" for drs r
    using assms(2) that by (simp add: valid_request_def list_all_iff)
  have *: "area_ok px st (reg_area r) \<and> area_rect (reg_area r) = r" if "r \<in> set (encodeRegions req dirty)" for r
    by (rule screen_area_ok [OF f], rule encodeRegions_on_screen [OF q _ that], rule d)
  then show "\<And>r. r \<in> set (encodeRegions req dirty) \<Longrightarrow> area_ok px st (reg_area r) \<and> area_rect (reg_area r) = r"
    by blast
  show "area_ok px st a" if a: "a \<in> set (map reg_area (encodeRegions req dirty))" for a
  proof -
    from a obtain r where "r \<in> set (encodeRegions req dirty)" "a = reg_area r" unfolding set_map by (rule imageE)
    then show ?thesis using * by simp
  qed
  show "map area_rect (map reg_area (encodeRegions req dirty)) = encodeRegions req dirty"
    unfolding map_map by (rule map_idI) (simp add: *)
qed

context region_encoder
begin

lemma regions_show:
  assumes "sync s d" and "screen_frame w h px st" and "valid_request w h req dirty"
  shows "\<exists>rects s' pic' d'. encode_areas encode (map reg_area (encodeRegions req dirty)) px st s = (Inr rects, s') \<and>
     view_rects dec d rects pic = (pic', d') \<and> sync s' d' \<and>
     shows_region shows_px px st (wanted req dirty) pic' pic"
proof -
  note r = request_regions [OF assms(2,3)]
  obtain rects s' pic' d' where e: "encode_areas encode (map reg_area (encodeRegions req dirty)) px st s = (Inr rects, s')"
      "view_rects dec d rects pic = (pic', d')" "sync s' d'"
      "shows_region shows_px px st (covered (map area_rect (map reg_area (encodeRegions req dirty)))) pic' pic"
    using encode_areas_shows [OF assms(1) r(2)] by blast
  have "shows_region shows_px px st (wanted req dirty) pic' pic"
    by (rule shows_region_cong [OF e(4)[unfolded r(3)]]) (rule wanted_covered)
  with e show ?thesis by blast
qed

end

text \<open>
  For a client whose best encoding is Raw the server answers a request on the screen with
  exactly one framebuffer update, and a client that paints its rectangles shows, in the
  client's own pixel format, the captured frame where it was requested and has changed, and
  its previous picture everywhere else.
\<close>

lemma raw_frame_sent:
  assumes "plain_session s i out" and "bestEncoding (ses_config s) (cc_encodings (ses_client s)) = EncodingRaw"
    and "server_ok (sc_PixelFormat (ses_config s))"
    and "screen_frame w h px st" and "valid_request w h req dirty"
  shows "\<exists>rects s' pic'. encodeAndSendFrame z bounds cursor req px st dirty s = (Inr (), s') \<and> same_setting s s' \<and>
     cc_conn (ses_client s') = live i (out @ enc_FramebufferUpdate rects) \<and>
     view_rects (pf_decoder (cc_pixelFormat (ses_client s))) () rects pic = (pic', ()) \<and>
     shows_region (shows_as (cc_pixelFormat (ses_client s)) (sc_PixelFormat (ses_config s))) px st (wanted req dirty) pic' pic"
proof -
  let ?pf = "cc_pixelFormat (ses_client s)" and ?sp = "sc_PixelFormat (ses_config s)"
  obtain rects s' pic' where e: "encode_areas (srv_raw ?pf ?sp) (map reg_area (encodeRegions req dirty)) px st () = (Inr rects, s')"
      "view_rects (pf_decoder ?pf) () rects pic = (pic', ())"
      "shows_region (shows_as ?pf ?sp) px st (wanted req dirty) pic' pic"
    using srv_raw.regions_show [OF assms(3-5), where pf = ?pf and pic = pic] by auto
  have r: "mapM (raw_region ?pf ?sp px st) (encodeRegions req dirty) = Inr rects"
    using e(1) raw_regions_areas [of "encodeRegions req dirty" ?pf ?sp px st "()"] request_regions(1) [OF assms(4,5)]
    by simp
  have "encodeAndSendFrame z bounds cursor req px st dirty s =
     (Inr (), upd_client (\<lambda>c. c\<lparr>cc_conn := live i (out @ enc_FramebufferUpdate rects)\<rparr>) s)"
  proof (rule encodeAndSendFrame_plain [OF assms(1,2)])
    show "EncodingRaw \<noteq> EncodingH264" by (simp add: enc_defs)
    show "encode_regions z EncodingRaw bounds px st (encodeRegions req dirty) s = (Inr rects, s)"
      using r by (simp add: encode_regions_def conn_simps Let_def enc_defs)
    show "encodeRegions req dirty = [] \<longrightarrow> rects = [] \<and> s = s" using r by auto
    show "cc_conn (ses_client s) = live i out" using assms(1) by (simp add: plain_session_def)
  qed
  then show ?thesis using e(2,3) by (auto simp: upd_client_def same_setting_def)
qed

lemma nothing_to_send:
  assumes "plain_session s i out" and "encodeRegions req dirty = []"
    and "bestEncoding (ses_config s) (cc_encodings (ses_client s)) \<noteq> EncodingH264"
  shows "encodeAndSendFrame z bounds cursor req px st dirty s =
     (Inr (), upd_client (\<lambda>c. c\<lparr>cc_conn := live i (out @ enc_FramebufferUpdate [])\<rparr>) s)"
proof -
  have "desktop_size_rects bounds s = (Inr [], s)" "cursor_rects cursor s = (Inr [], s)" "cc_conn (ses_client s) = live i out"
    using assms(1) by (simp_all add: plain_session_def desktop_size_rects_def cursor_rects_def conn_simps)
  then show ?thesis using assms(2,3) send_update_live [of s i out "[]"]
    by (simp add: encodeAndSendFrame_def conn_simps Let_def)
qed

lemma zopen_sync:
  assumes "zsync z inflate s d"
  obtains s' where "zopen s = (Inr (), s')" "zsync z inflate s' d" "zs_writer s' \<noteq> None"
  using assms by (cases "zs_writer s") (auto simp: zopen_def zsync_def conn_simps)

text \<open>
  For a client whose best encoding is Zlib the answer is one framebuffer update whose
  rectangles, decompressed with the one stream of the connection, show the captured frame
  where it was requested and has changed; the compressor of the connection and the client's
  decompressor are still in step afterwards, so the same holds of the next answer.
\<close>

lemma zlib_frame_sent:
  assumes "plain_session s i out" and "bestEncoding (ses_config s) (cc_encodings (ses_client s)) = EncodingZlib"
    and "server_ok (sc_PixelFormat (ses_config s))" and "zsync z inflate (cc_zlib (ses_client s)) d"
    and "screen_frame w h px st" and "valid_request w h req dirty"
  shows "\<exists>rects s' pic' d'. encodeAndSendFrame z bounds cursor req px st dirty s = (Inr (), s') \<and> same_setting s s' \<and>
     cc_conn (ses_client s') = live i (out @ enc_FramebufferUpdate rects) \<and>
     view_rects (pf_zlib_decoder (cc_pixelFormat (ses_client s)) inflate) d rects pic = (pic', d') \<and>
     zsync z inflate (cc_zlib (ses_client s')) d' \<and>
     shows_region (shows_as (cc_pixelFormat (ses_client s)) (sc_PixelFormat (ses_config s))) px st (wanted req dirty) pic' pic"
proof (cases "encodeRegions req dirty = []")
  case True
  have "encodeAndSendFrame z bounds cursor req px st dirty s =
     (Inr (), upd_client (\<lambda>c. c\<lparr>cc_conn := live i (out @ enc_FramebufferUpdate [])\<rparr>) s)"
    using nothing_to_send [OF assms(1) True] assms(2) by (simp add: enc_defs)
  then show ?thesis using no_regions_shown [OF True] assms(4) by (auto simp: upd_client_def same_setting_def)
next
  case False
  let ?pf = "cc_pixelFormat (ses_client s)" and ?sp = "sc_PixelFormat (ses_config s)"
  obtain zs where zs: "zopen (cc_zlib (ses_client s)) = (Inr (), zs)" "srv_zsync z inflate ?sp zs d"
    using zopen_sync [OF assms(4)] assms(3) unfolding srv_zsync_def by metis
  obtain rects zs' pic' d' where
    e: "encode_areas (srv_zlib z ?pf ?sp) (map reg_area (encodeRegions req dirty)) px st zs = (Inr rects, zs')"
      "view_rects (pf_zlib_decoder ?pf inflate) d rects pic = (pic', d')" "srv_zsync z inflate ?sp zs' d'"
      "shows_region (shows_as ?pf ?sp) px st (wanted req dirty) pic' pic"
    using srv_zlib.regions_show [OF zs(2) assms(5,6)] by blast
  let ?s1 = "upd_client (\<lambda>c. c\<lparr>cc_zlib := zs'\<rparr>) s"
  have run: "for_regions (\<lambda>r. bind_io (zlib_region z ?pf ?sp px st r) (\<lambda>x. ret [x])) (encodeRegions req dirty) zs = (Inr rects, zs')"
    by (rule for_regions_areas [OF e(1)]) (use request_regions(1) [OF assms(5,6)] in \<open>simp add: srv_zlib_def\<close>)
  have "encodeAndSendFrame z bounds cursor req px st dirty s =
     (Inr (), upd_client (\<lambda>c. c\<lparr>cc_conn := live i (out @ enc_FramebufferUpdate rects)\<rparr>) ?s1)"
  proof (rule encodeAndSendFrame_plain [OF assms(1,2)])
    show "EncodingZlib \<noteq> EncodingH264" by (simp add: enc_defs)
    show "encode_regions z EncodingZlib bounds px st (encodeRegions req dirty) s = (Inr rects, ?s1)"
      using run zs(1) by (simp add: encode_regions_def conn_simps Let_def enc_defs on_zlib_def)
    show "encodeRegions req dirty = [] \<longrightarrow> rects = [] \<and> ?s1 = s" using False by simp
    show "cc_conn (ses_client ?s1) = live i out" using assms(1) by (simp add: plain_session_def upd_client_def)
  qed
  then show ?thesis using e(2-4) by (auto simp: upd_client_def same_setting_def srv_zsync_def)
qed

text \<open>The Tight encoder a connection has, or will create for its first frame.\<close>

definition tight_state :: "'t MultiEncoder \<Rightarrow> ('t, 'h) session \<Rightarrow> 't" where
  "tight_state me s = (case cc_tightEnc (ses_client s) of None \<Rightarrow> me_new me | Some e \<Rightarrow> e)"

text \<open>
  For a client whose best encoding is Tight the answer is one framebuffer update whose tile
  rectangles show the captured frame (up to the loss \<open>close\<close> of JPEG) where it was requested
  and has changed, whether the connection's encoder exists already or is created by this
  request; the four streams stay in step with the client's decompressors.
\<close>

lemma tight_frame_sent:
  assumes "plain_session s i out" and "bestEncoding (ses_config s) (cc_encodings (ses_client s)) = EncodingTight"
    and "sc_NewTightEncoder (ses_config s) = Some me" and "me_EncodeMulti me = EncodeMulti z jpeg"
    and "tight_sync z inflate jpeg L close (tight_state me s) d"
    and "screen_frame w h px st" and "valid_request w h req dirty"
  shows "\<exists>rects s' pic' d'. encodeAndSendFrame z bounds cursor req px st dirty s = (Inr (), s') \<and> same_setting s s' \<and>
     cc_conn (ses_client s') = live i (out @ enc_FramebufferUpdate rects) \<and>
     view_rects (tight_decoder L inflate) d rects pic = (pic', d') \<and>
     tight_sync z inflate jpeg L close (tight_state me s') d' \<and>
     shows_region (shows_close close) px st (wanted req dirty) pic' pic"
proof (cases "encodeRegions req dirty = []")
  case True
  have "encodeAndSendFrame z bounds cursor req px st dirty s =
     (Inr (), upd_client (\<lambda>c. c\<lparr>cc_conn := live i (out @ enc_FramebufferUpdate [])\<rparr>) s)"
    using nothing_to_send [OF assms(1) True] assms(2) by (simp add: enc_defs)
  then show ?thesis using no_regions_shown [OF True] assms(5) by (auto simp: upd_client_def same_setting_def tight_state_def)
next
  case False
  obtain rects t' pic' d' where
    e: "encode_areas (EncodeMulti z jpeg) (map reg_area (encodeRegions req dirty)) px st (tight_state me s) = (Inr rects, t')"
      "view_rects (tight_decoder L inflate) d rects pic = (pic', d')" "tight_sync z inflate jpeg L close t' d'"
      "shows_region (shows_close close) px st (wanted req dirty) pic' pic"
    using tight.regions_show [OF assms(5-7)] by blast
  let ?s1 = "upd_client (\<lambda>c. c\<lparr>cc_tightEnc := Some t'\<rparr>) s"
  have run: "for_regions (\<lambda>r. wrap ''tight encode: %w'' (me_EncodeMulti me (reg_area r) px st)) (encodeRegions req dirty)
      (tight_state me s) = (Inr rects, t')"
    by (rule for_regions_areas [OF e(1)]) (simp add: assms(4) conn_simps)
  have "encodeAndSendFrame z bounds cursor req px st dirty s =
     (Inr (), upd_client (\<lambda>c. c\<lparr>cc_conn := live i (out @ enc_FramebufferUpdate rects)\<rparr>) ?s1)"
  proof (rule encodeAndSendFrame_plain [OF assms(1,2)])
    show "EncodingTight \<noteq> EncodingH264" by (simp add: enc_defs)
    show "encode_regions z EncodingTight bounds px st (encodeRegions req dirty) s = (Inr rects, ?s1)"
      using run assms(3) by (simp add: encode_regions_def conn_simps Let_def enc_defs on_tight_def tight_state_def)
    show "encodeRegions req dirty = [] \<longrightarrow> rects = [] \<and> ?s1 = s" using False by simp
    show "cc_conn (ses_client ?s1) = live i out" using assms(1) by (simp add: plain_session_def upd_client_def)
  qed
  then show ?thesis using e(2-4) by (auto simp: upd_client_def same_setting_def tight_state_def)
qed


section \<open>Concrete sessions\<close>

definition demo_config :: "(Tight, unit) ServerConfig" where
  "demo_config =
     \<lparr>sc_Width = 2, sc_Height = 1, sc_Name = str ''demo'', sc_Security = [noneSecurity],
      sc_PixelFormat = DefaultPixelFormat,
      sc_NewTightEncoder = Some \<lparr>me_new = NewTight 75, me_EncodeMulti = EncodeMulti stored plain_jpeg, me_Reset = \<lambda>t. t\<rparr>,
      sc_NewH264Encoder = None, sc_hasCapturer = True, sc_hasInput = False, sc_hasClipboard = False,
      sc_hasCursorProvider = False, sc_MaxFPS = 30\<rparr>"

definition demo_session :: "i32 list \<Rightarrow> (Tight, unit) session" where
  "demo_session encs = \<lparr>ses_config = demo_config,
     ses_client = (newClientConn demo_config (live [] []))\<lparr>cc_encodings := encs\<rparr>\<rparr>"

definition demo_request :: FramebufferUpdateRequest where
  "demo_request = \<lparr>req_Incremental = 1, req_X = 0, req_Y = 0, req_Width = 2, req_Height = 1\<rparr>"

lemma demo_ok:
  "screen_frame 2 1 [1,2,3,4,5,6,7,8] 8"
  "valid_request 2 1 demo_request (Some [tile_rect (1, 0, 1, 1)])"
  "server_ok DefaultPixelFormat"
  "zsync stored (\<lambda>b. b) zlibStream_new []"
  by (simp_all add: screen_frame_def valid_request_def demo_request_def req_rect_def on_screen_def tile_rect_def
      image_Rect_def server_ok_def bytesPerPixel_def full_range_def DefaultPixelFormat_def zsync_def zlibStream_new_def stored_ok)

lemma demo_session_simps:
  "ses_config (demo_session encs) = demo_config" "cc_encodings (ses_client (demo_session encs)) = encs"
  "cc_pixelFormat (ses_client (demo_session encs)) = DefaultPixelFormat"
  "cc_zlib (ses_client (demo_session encs)) = zlibStream_new"
  "cc_conn (ses_client (demo_session encs)) = live [] []" "sc_PixelFormat demo_config = DefaultPixelFormat"
  "cc_tightEnc (ses_client (demo_session encs)) = None"
  by (simp_all add: demo_session_def newClientConn_def demo_config_def)

lemma demo_plain: "e \<in> {EncodingRaw, EncodingZlib, EncodingTight} \<Longrightarrow>
    plain_session (demo_session [e]) [] [] \<and> bestEncoding demo_config [e] = e"
  by (auto simp: plain_session_def demo_session_simps supportsDesktopSize_def supportsCursor_def bestEncoding_def
      demo_config_def enc_defs)

lemma raw_frame_sent_witness:
  "\<exists>rects s' pic'. encodeAndSendFrame stored (2, 1) None demo_request [1,2,3,4,5,6,7,8] 8
       (Some [tile_rect (1, 0, 1, 1)]) (demo_session [EncodingRaw]) = (Inr (), s') \<and>
     cc_conn (ses_client s') = live [] (enc_FramebufferUpdate rects) \<and>
     view_rects (pf_decoder DefaultPixelFormat) () rects (\<lambda>i j. []) = (pic', ()) \<and>
     shows_region (shows_as DefaultPixelFormat DefaultPixelFormat) [1,2,3,4,5,6,7,8] 8
       (wanted demo_request (Some [tile_rect (1, 0, 1, 1)])) pic' (\<lambda>i j. [])"
  using raw_frame_sent [of "demo_session [EncodingRaw]" "[]" "[]" 2 1 "[1,2,3,4,5,6,7,8]" 8 demo_request
      "Some [tile_rect (1, 0, 1, 1)]" stored "(2, 1)" None "\<lambda>i j. []"] demo_plain [of EncodingRaw] demo_ok
  by (simp add: demo_session_simps) blast

lemma zlib_frame_sent_witness:
  "\<exists>rects s' pic' d'. encodeAndSendFrame stored (2, 1) None demo_request [1,2,3,4,5,6,7,8] 8
       (Some [tile_rect (1, 0, 1, 1)]) (demo_session [EncodingZlib]) = (Inr (), s') \<and>
     cc_conn (ses_client s') = live [] (enc_FramebufferUpdate rects) \<and>
     view_rects (pf_zlib_decoder DefaultPixelFormat (\<lambda>b. b)) [] rects (\<lambda>i j. []) = (pic', d') \<and>
     zsync stored (\<lambda>b. b) (cc_zlib (ses_client s')) d' \<and>
     shows_region (shows_as DefaultPixelFormat DefaultPixelFormat) [1,2,3,4,5,6,7,8] 8
       (wanted demo_request (Some [tile_rect (1, 0, 1, 1)])) pic' (\<lambda>i j. [])"
  using zlib_frame_sent [of "demo_session [EncodingZlib]" "[]" "[]" stored "\<lambda>b. b" "[]" 2 1 "[1,2,3,4,5,6,7,8]" 8 demo_request
      "Some [tile_rect (1, 0, 1, 1)]" "(2, 1)" None "\<lambda>i j. []"] demo_plain [of EncodingZlib] demo_ok
  by (simp add: demo_session_simps) blast

lemma demo_tight_sync:
  "tight_sync stored (\<lambda>b. b) plain_jpeg plain_libs (=) (tight_state me (demo_session encs)) (replicate 4 [])"
  if "me_new me = NewTight 75"
  using that demo_ok(4) stored_small plain_jpeg_ok
  by (simp add: tight_sync_def streams_sync_def NewTight_def Let_def tight_state_def demo_session_simps)

lemma tight_frame_sent_witness:
  "\<exists>rects s' pic' d'. encodeAndSendFrame stored (2, 1) None demo_request [1,2,3,4,5,6,7,8] 8
       (Some [tile_rect (1, 0, 1, 1)]) (demo_session [EncodingTight]) = (Inr (), s') \<and>
     cc_conn (ses_client s') = live [] (enc_FramebufferUpdate rects) \<and>
     view_rects (tight_decoder plain_libs (\<lambda>b. b)) (replicate 4 []) rects (\<lambda>i j. []) = (pic', d') \<and>
     shows_region (shows_close (=)) [1,2,3,4,5,6,7,8] 8
       (wanted demo_request (Some [tile_rect (1, 0, 1, 1)])) pic' (\<lambda>i j. [])"
proof -
  let ?me = "\<lparr>me_new = NewTight 75, me_EncodeMulti = EncodeMulti stored plain_jpeg, me_Reset = \<lambda>t. t\<rparr>"
  have me: "sc_NewTightEncoder (ses_config (demo_session [EncodingTight])) = Some ?me"
    by (simp add: demo_session_simps demo_config_def)
  have pl: "plain_session (demo_session [EncodingTight]) [] []"
    "bestEncoding (ses_config (demo_session [EncodingTight])) (cc_encodings (ses_client (demo_session [EncodingTight]))) = EncodingTight"
    using demo_plain [of EncodingTight] by (simp_all add: demo_session_simps)
  have eq: "me_EncodeMulti ?me = EncodeMulti stored plain_jpeg" by simp
  have sync: "tight_sync stored (\<lambda>b. b) plain_jpeg plain_libs (=) (tight_state ?me (demo_session [EncodingTight])) (replicate 4 [])"
    by (rule demo_tight_sync) simp
  show ?thesis
    using tight_frame_sent [OF pl me eq sync demo_ok(1,2), of "(2, 1)" None "\<lambda>i j. []"] unfolding append_Nil by blast
qed

section \<open>Properties of the whole way\<close>

text \<open>
  Frame differ, server encoding (Zlib) and client composed: after any non-empty sequence of
  frames of one size, each compared with the one before and only the reported tiles encoded,
  the client's picture shows the last frame, in the client's pixel format, on the whole screen.
\<close>

lemma zlib_pipeline_last_frame:
  assumes "zlib_ok z inflate" and "server_ok serverPf" and "pxs \<noteq> []" and "0 < unat h * st" and "unat w * 4 \<le> st"
    and "list_all (\<lambda>px. length px = unat h * st) pxs"
  shows "\<exists>pic'. pipe_frames (diff_frames defaultTileSize) (srv_zlib z pf serverPf) (pf_zlib_decoder pf inflate) w h st
       (fd_store NewFrameDiffer) \<lparr>zs_buf = [], zs_writer = Some []\<rparr> [] pic pxs = Inr pic' \<and>
     shows_screen (shows_as pf serverPf) w h st pic' (last pxs)"
  by (rule pipe_zlib.pipe_last_frame)
    (use assms in \<open>auto simp: store_wf_def store_frame_def NewFrameDiffer_def srv_zsync_def zsync_def list_all_iff\<close>)

lemma zlib_pipeline_last_frame_witness:
  "\<exists>pic'. pipe_frames (diff_frames defaultTileSize) (srv_zlib stored DefaultPixelFormat DefaultPixelFormat)
       (pf_zlib_decoder DefaultPixelFormat (\<lambda>b. b)) 2 1 8
       (fd_store NewFrameDiffer) \<lparr>zs_buf = [], zs_writer = Some []\<rparr> [] (\<lambda>i j. [])
       [[1,2,3,4,5,6,7,8], [1,2,3,4,9,6,7,8]] = Inr pic' \<and>
     shows_screen (shows_as DefaultPixelFormat DefaultPixelFormat) 2 1 8 pic' [1,2,3,4,9,6,7,8]"
  using zlib_pipeline_last_frame [OF stored_ok demo_ok(3), of "[[1,2,3,4,5,6,7,8], [1,2,3,4,9,6,7,8]]" 1 8 2
      DefaultPixelFormat "\<lambda>i j. []"] by (simp del: pipe_frames.simps)

text \<open>
  The same with the Tight encoder, up to the loss of JPEG: after any non-empty sequence of
  frames the client's picture shows the last frame on the whole screen.
\<close>

lemma tight_pipeline_last_frame:
  assumes "zlib_ok z inflate" and "zlib_small z" and "jpeg_ok jpeg L close"
    and "pxs \<noteq> []" and "0 < unat h * st" and "unat w * 4 \<le> st"
    and "list_all (\<lambda>px. length px = unat h * st) pxs"
  shows "\<exists>pic'. pipe_frames (diff_frames defaultTileSize) (EncodeMulti z jpeg) (tight_decoder L inflate) w h st
       (fd_store NewFrameDiffer) (NewTight q) (replicate 4 []) pic pxs = Inr pic' \<and>
     shows_screen (shows_close close) w h st pic' (last pxs)"
proof (rule pipe_tight.pipe_last_frame [OF _ _ assms(4-6)])
  have "zsync z inflate zlibStream_new []" using assms(1) by (simp add: zsync_def zlibStream_new_def)
  then show "tight_sync z inflate jpeg L close (NewTight q) (replicate 4 [])"
    using assms(2,3) by (simp add: tight_sync_def streams_sync_def NewTight_def Let_def)
qed (use assms(7) in \<open>simp_all add: store_wf_def store_frame_def NewFrameDiffer_def list_all_iff\<close>)

lemma tight_pipeline_last_frame_witness:
  "\<exists>pic'. pipe_frames (diff_frames defaultTileSize) (EncodeMulti stored plain_jpeg) (tight_decoder plain_libs (\<lambda>b. b)) 2 1 8
       (fd_store NewFrameDiffer) (NewTight 75) (replicate 4 []) (\<lambda>i j. [])
       [[1,2,3,4,5,6,7,8], [1,2,3,4,9,6,7,8]] = Inr pic' \<and>
     shows_screen (shows_close (=)) 2 1 8 pic' [1,2,3,4,9,6,7,8]"
  using tight_pipeline_last_frame [OF stored_ok stored_small plain_jpeg_ok,
      of "[[1,2,3,4,5,6,7,8], [1,2,3,4,9,6,7,8]]" 1 8 2 75 "\<lambda>i j. []"] by (simp del: pipe_frames.simps)

end
