(* ===== verification/ServerLimits.thy ===== *)
theory ServerLimits
  imports Display
begin

text \<open>
  Where the framebuffer answers of the server reach their limits: requests that leave the
  captured frame, and ZRLE clients whose pixels are smaller than the 32-bit pixels of the frame.
\<close>

lemma region_rows_short:
  assumes "row \<in> set rows" and "length pixels < (y + row) * stride + x * 4 + w * 4" and "0 < w"
  shows "\<exists>b. region_rows pixels stride x y w rows = Inr b \<and> length b < length rows * (w * 4)"
  using assms(1)
proof (induction rows)
  case Nil
  then show ?case by simp
next
  case (Cons r rows)
  show ?case
  proof (cases "length pixels < (y + r) * stride + x * 4 + w * 4")
    case True
    then show ?thesis using assms(3) by (simp add: Let_def)
  next
    case False
    with Cons.prems assms(2) have "row \<in> set rows" by auto
    then obtain b where b: "region_rows pixels stride x y w rows = Inr b" "length b < length rows * (w * 4)"
      using Cons.IH by blast
    then show ?thesis using False by (simp add: Let_def gslice_def)
  qed
qed

lemma region_data_short:
  assumes "\<not> frame_has pixels stride (reg_x r) (reg_y r) (reg_w r) (reg_h r)" and "0 < reg_w r"
  shows "\<exists>b. region_data pixels stride r = Inr b \<and> length b < reg_w r * reg_h r * 4"
proof -
  obtain row where "row \<in> set [0..<reg_h r]" "length pixels < (reg_y r + row) * stride + reg_x r * 4 + reg_w r * 4"
    using assms(1) unfolding frame_has_def by (metis not_less)
  from region_rows_short [OF this assms(2)] show ?thesis
    by (simp add: region_data_def mult.commute mult.left_commute)
qed




text \<open>In the format of the server nothing is converted, and the rectangle announces more pixels than it carries.\<close>

lemma raw_region_short_same_format:
  assumes "\<not> frame_has pixels stride (reg_x r) (reg_y r) (reg_w r) (reg_h r)" and "0 < reg_w r"
  shows "\<exists>rect. raw_region pf pf pixels stride r = Inr rect \<and> length (rect_Data rect) < reg_w r * reg_h r * 4"
  using region_data_short [OF assms] by (auto simp: raw_region_def ConvertPixels_def region_rect_def reg_area_def)











lemma fill_rows_panics:
  assumes "\<forall>row \<in> set rows. (y + row) * stride + x * 4 + w * 4 \<le> length pixels"
    and "row \<in> set rows" and "length cp < (row + 1) * w * 4"
  shows "is_panic (fill_rows pixels stride x y w rows cp)"
  using assms
proof (induction rows arbitrary: cp)
  case Nil
  then show ?case by simp
next
  case (Cons r rows)
  have f: "(y + r) * stride + x * 4 + w * 4 \<le> length pixels" using Cons.prems(1) by simp
  obtain b where b: "gslice ((y + r) * stride + x * 4) ((y + r) * stride + x * 4 + w * 4) pixels = Inr b"
    using f by (simp add: gslice_def)
  show ?case
  proof (cases "copy_at (r * w * 4) ((r + 1) * w * 4) cp b")
    case (Inl e)
    then have "is_panic (copy_at (r * w * 4) ((r + 1) * w * 4) cp b)"
      by (auto simp: copy_at_def gslice_def split: if_splits)
    then show ?thesis using f b by (simp add: Let_def is_panic_rbind)
  next
    case (Inr cp')
    then have len: "length cp' = length cp" and "(r + 1) * w * 4 \<le> length cp"
      using length_copy_at by (auto simp: copy_at_def rbind_Inr_iff gslice_Inr_iff)
    then have "row \<in> set rows" using Cons.prems(2,3) by auto
    then have "is_panic (fill_rows pixels stride x y w rows cp')"
      using Cons.IH [of cp'] Cons.prems(1,3) len by simp
    then show ?thesis using f b Inr by (simp add: Let_def)
  qed
qed

text \<open>
  Every ZRLE region for a client with fewer than 32 bits per pixel (8 or 16 bits are legal in
  RFB) that lies in the frame is a run-time panic of the server: the buffer is sized by the
  client's pixels and filled with the 4-byte pixels of the frame.
\<close>

lemma zrle_small_pixels_panic:
  assumes "unat (BitsPerPixel pf) div 8 < 4" and "0 < reg_w r" and "0 < reg_h r"
    and "frame_has pixels stride (reg_x r) (reg_y r) (reg_w r) (reg_h r)"
  shows "is_panic (fst (zrle_region z pf serverPf pixels stride r s))"
proof -
  let ?n = "reg_w r * reg_h r * (unat (BitsPerPixel pf) div 8)"
  have "is_panic (fill_rows pixels stride (reg_x r) (reg_y r) (reg_w r) [0..<reg_h r] (replicate ?n 0))"
  proof (rule fill_rows_panics [where row = "reg_h r - 1"])
    have "?n < reg_w r * reg_h r * 4" using assms(1-3) by simp
    then show "length (replicate ?n 0) < (reg_h r - 1 + 1) * reg_w r * 4"
      using assms(3) by (simp add: mult.commute)
  qed (use assms(3,4) in \<open>auto simp: frame_has_def\<close>)
  then have "is_panic (zrle_client_pixels pf serverPf pixels stride r)"
    by (simp add: zrle_client_pixels_def Let_def is_panic_rbind)
  then show ?thesis by (auto simp: zrle_region_def Let_def is_panic_iff conn_simps)
qed

definition RGB565_PixelFormat :: PixelFormat where
  "RGB565_PixelFormat =
     \<lparr>BitsPerPixel = 16, Depth = 16, BigEndian = 0, TrueColour = 1, RedMax = 31, GreenMax = 63, BlueMax = 31,
      RedShift = 11, GreenShift = 5, BlueShift = 0\<rparr>"

lemma zrle_small_pixels_panic_witness:
  "is_panic (fst (zrle_region stored RGB565_PixelFormat DefaultPixelFormat [1,2,3,4] 4 (tile_rect (0, 0, 1, 1)) zlibStream_new))"
  by (rule zrle_small_pixels_panic)
    (simp_all add: tile_rect_def image_Rect_def reg_x_def reg_y_def reg_w_def reg_h_def Dx_def Dy_def frame_has_def
      RGB565_PixelFormat_def upt_rec)

end
