(* ===== verification/Pipelined.thy ===== *)
theory Pipelined
  imports Diff
begin

text \<open>
  \<^verbatim>\<open>rfb/pipelined_capturer.go\<close>: the capturer that runs in the background with two buffers. The
  capture goroutine, \<^verbatim>\<open>Stop\<close> and any number of calls of \<^verbatim>\<open>Capture\<close> are interleaved; what one of
  them does under the mutex is one step.
\<close>

section \<open>State\<close>

text \<open>
  The two buffers and strides, the index of the current one, the channel \<^verbatim>\<open>notify\<close> (full or
  empty) and \<^verbatim>\<open>done\<close> (closed or not), the state of the differencing, and the goroutine
  with its rate and its local variable \<^verbatim>\<open>next\<close>.
\<close>

datatype capture_loop = NotStarted | Running (loop_fps: int) (loop_next: nat) | Ended

record PipelinedCapturer =
  pc_bufs :: "bytes list"
  pc_strides :: "nat list"
  pc_cur :: nat
  pc_notify :: bool
  pc_done :: bool
  pc_loop :: capture_loop
  pc_diff :: frame_store
  pc_dirtyRects :: "rect list option"
  pc_dirtyComputed :: bool

definition NewPipelinedCapturer :: PipelinedCapturer where
  "NewPipelinedCapturer =
     \<lparr>pc_bufs = [[], []], pc_strides = [0, 0], pc_cur = 0, pc_notify = False, pc_done = False,
      pc_loop = NotStarted, pc_diff = \<lparr>fs_prev = None, fs_prevW = 0, fs_prevH = 0\<rparr>,
      pc_dirtyRects = None, pc_dirtyComputed = False\<rparr>"

text \<open>\<^verbatim>\<open>once\<close> guards the start: a goroutine that runs, or has ended, is not started again.\<close>

definition PipelinedCapturer_Start :: "int \<Rightarrow> PipelinedCapturer \<Rightarrow> PipelinedCapturer" where
  "PipelinedCapturer_Start maxFPS p =
     (let fps = if maxFPS \<le> 0 then 30 else maxFPS in
      if pc_loop p = NotStarted then p\<lparr>pc_loop := Running fps 1\<rparr> else p)"

definition PipelinedCapturer_Stop :: "PipelinedCapturer \<Rightarrow> PipelinedCapturer res" where
  "PipelinedCapturer_Stop p =
     (if pc_done p then Inl (GoPanic ''close of closed channel'') else Inr (p\<lparr>pc_done := True\<rparr>))"

section \<open>The capture goroutine\<close>

text \<open>
  One round of the loop: leave it when \<^verbatim>\<open>done\<close> is closed, otherwise store the frame of the inner
  capturer (unless it failed or is empty) in the buffer \<^verbatim>\<open>next\<close>, make that the current one, and
  notify without waiting.
\<close>

definition store_frame_at :: "nat \<Rightarrow> bytes \<Rightarrow> nat \<Rightarrow> PipelinedCapturer \<Rightarrow> PipelinedCapturer" where
  "store_frame_at next pixels stride p =
     (let buf = if length (pc_bufs p ! next) < length pixels then replicate (length pixels) 0
                else pc_bufs p ! next in
      p\<lparr>pc_bufs := (pc_bufs p)[next := copy buf pixels], pc_strides := (pc_strides p)[next := stride],
        pc_cur := next, pc_notify := True\<rparr>)"

definition captureLoop_round :: "(bytes \<times> nat) res \<Rightarrow> PipelinedCapturer \<Rightarrow> PipelinedCapturer" where
  "captureLoop_round inner p =
     (case pc_loop p of
        Running fps next \<Rightarrow>
          if pc_done p then p\<lparr>pc_loop := Ended\<rparr>
          else (case inner of
            Inl e \<Rightarrow> p
          | Inr (pixels, stride) \<Rightarrow>
              if 0 < length pixels
              then (store_frame_at next pixels stride p)\<lparr>pc_loop := Running fps (1 - next)\<rparr> else p)
      | _ \<Rightarrow> p)"

section \<open>Capture\<close>

definition diffTileSize :: nat where "diffTileSize = 64"

text \<open>
  \<^verbatim>\<open>frameDiff\<close> is the same code as \<^verbatim>\<open>FrameDiffer.Diff\<close> on the fields \<^verbatim>\<open>diffPrev\<close>, \<^verbatim>\<open>diffPrevW\<close> and
  \<^verbatim>\<open>diffPrevH\<close>.
\<close>

definition frameDiff ::
  "frame_store \<Rightarrow> bytes \<Rightarrow> u16 \<Rightarrow> u16 \<Rightarrow> nat \<Rightarrow> (rect list option \<times> frame_store) res" where
  "frameDiff = diff_frames diffTileSize"

definition Capture_copy :: "PipelinedCapturer \<Rightarrow> bytes \<times> nat" where
  "Capture_copy p = (pc_bufs p ! pc_cur p, pc_strides p ! pc_cur p)"

definition Capture_diff :: "u16 \<times> u16 \<Rightarrow> bytes \<Rightarrow> nat \<Rightarrow> PipelinedCapturer \<Rightarrow> PipelinedCapturer res" where
  "Capture_diff bounds out stride p =
     rbind (frameDiff (pc_diff p) out (fst bounds) (snd bounds) stride) (\<lambda>(dirty, st).
     Inr (p\<lparr>pc_diff := st, pc_dirtyRects := dirty, pc_dirtyComputed := True\<rparr>))"

text \<open>
  A call that is not interrupted: \<open>None\<close> when it would wait for the first frame, the nil frame
  once the capturer has been stopped.
\<close>

definition PipelinedCapturer_Capture ::
  "u16 \<times> u16 \<Rightarrow> PipelinedCapturer \<Rightarrow> ((bytes \<times> nat) \<times> PipelinedCapturer) res option" where
  "PipelinedCapturer_Capture bounds p =
     (if length (pc_bufs p ! pc_cur p) = 0
      then (if pc_done p then Some (Inr (([], 0), p)) else None)
      else (case Capture_copy p of (out, stride) \<Rightarrow>
            Some (rbind (Capture_diff bounds out stride p) (\<lambda>p'. Inr ((out, stride), p')))))"

definition LastDirtyRects :: "PipelinedCapturer \<Rightarrow> rect list option \<times> PipelinedCapturer" where
  "LastDirtyRects p =
     (if \<not> pc_dirtyComputed p then (None, p) else (pc_dirtyRects p, p\<lparr>pc_dirtyComputed := False\<rparr>))"

section \<open>Interleavings\<close>

text \<open>
  A caller of \<^verbatim>\<open>Capture\<close>: not in a call, about to test the buffer under the lock, waiting in the
  \<^verbatim>\<open>select\<close>, or with its copy, before the differencing.
\<close>

datatype caller = Outside | Testing | Waiting | Copied bytes nat

text \<open>
  The state of the system also records the last frame the inner capturer delivered. The
  callers are the members of \<open>K\<close>, the sizes of the frames those of \<open>N\<close>. A round of the goroutine is one step, at the moment at which it has the lock;
  the notification that follows is part of it. \<open>late\<close> is a round that found \<^verbatim>\<open>done\<close> open and stores its frame
  after a \<^verbatim>\<open>Stop\<close> that came while the inner capturer was at work.
\<close>

type_synonym pc_state = "PipelinedCapturer \<times> (bytes \<times> nat) option \<times> (nat \<Rightarrow> caller)"

definition delivered :: "PipelinedCapturer \<Rightarrow> (bytes \<times> nat) res \<Rightarrow> (bytes \<times> nat) option \<Rightarrow> (bytes \<times> nat) option" where
  "delivered p inner f =
     (case inner of Inl e \<Rightarrow> f
      | Inr (pixels, stride) \<Rightarrow> if pc_done p \<or> pixels = [] then f else Some (pixels, stride))"

inductive pc_step :: "nat set \<Rightarrow> nat set \<Rightarrow> pc_state \<Rightarrow> pc_state \<Rightarrow> bool" for K N where
  round: "pc_loop p = Running fps next \<Longrightarrow> (\<And>pixels stride. inner = Inr (pixels, stride) \<Longrightarrow> length pixels \<in> N) \<Longrightarrow>
     pc_step K N (p, f, cs) (captureLoop_round inner p, delivered p inner f, cs)"
| late: "pc_loop p = Running fps next \<Longrightarrow> pc_done p \<Longrightarrow> pixels \<noteq> [] \<Longrightarrow> length pixels \<in> N \<Longrightarrow>
     pc_step K N (p, f, cs) ((store_frame_at next pixels stride p)\<lparr>pc_loop := Running fps (1 - next)\<rparr>, Some (pixels, stride), cs)"
| stop: "PipelinedCapturer_Stop p = Inr p' \<Longrightarrow> pc_step K N (p, f, cs) (p', f, cs)"
| call: "i \<in> K \<Longrightarrow> cs i = Outside \<Longrightarrow> pc_step K N (p, f, cs) (p, f, cs(i := Testing))"
| wait: "i \<in> K \<Longrightarrow> cs i = Testing \<Longrightarrow> pc_bufs p ! pc_cur p = [] \<Longrightarrow> pc_step K N (p, f, cs) (p, f, cs(i := Waiting))"
| notified: "i \<in> K \<Longrightarrow> cs i = Waiting \<Longrightarrow> pc_notify p \<Longrightarrow>
     pc_step K N (p, f, cs) (p\<lparr>pc_notify := False\<rparr>, f, cs(i := Testing))"
| stopped: "i \<in> K \<Longrightarrow> cs i = Waiting \<Longrightarrow> pc_done p \<Longrightarrow> pc_step K N (p, f, cs) (p, f, cs(i := Outside))"
| copied: "i \<in> K \<Longrightarrow> cs i = Testing \<Longrightarrow> pc_bufs p ! pc_cur p \<noteq> [] \<Longrightarrow>
     pc_step K N (p, f, cs) (p, f, cs(i := (case Capture_copy p of (out, stride) \<Rightarrow> Copied out stride)))"
| returned: "i \<in> K \<Longrightarrow> cs i = Copied out stride \<Longrightarrow> Capture_diff bounds out stride p = Inr p' \<Longrightarrow>
     pc_step K N (p, f, cs) (p', f, cs(i := Outside))"

inductive_cases pc_stepE: "pc_step K N a b"

definition pc_init :: "int \<Rightarrow> pc_state" where
  "pc_init fps = (PipelinedCapturer_Start fps NewPipelinedCapturer, None, \<lambda>_. Outside)"

section \<open>The current buffer holds the last frame\<close>

definition pc_ok :: "nat set \<Rightarrow> PipelinedCapturer \<Rightarrow> (bytes \<times> nat) option \<Rightarrow> bool" where
  "pc_ok N p f \<longleftrightarrow>
     length (pc_bufs p) = 2 \<and> length (pc_strides p) = 2 \<and> pc_cur p < 2 \<and> pc_loop p \<noteq> NotStarted \<and>
     (case pc_loop p of Running fps next \<Rightarrow> 0 < fps \<and> next < 2 \<and> (f \<noteq> None \<longrightarrow> next \<noteq> pc_cur p) | _ \<Rightarrow> True) \<and>
     (\<forall>b \<in> set (pc_bufs p). b = [] \<or> length b \<in> N) \<and>
     (case f of None \<Rightarrow> pc_bufs p ! pc_cur p = []
      | Some (px, st) \<Rightarrow> px \<noteq> [] \<and> length px \<in> N \<and> take (length px) (pc_bufs p ! pc_cur p) = px \<and>
          pc_strides p ! pc_cur p = st)"

lemma Capture_diff_fields:
  assumes "Capture_diff bounds out stride p = Inr p'"
  shows "pc_bufs p' = pc_bufs p" "pc_strides p' = pc_strides p" "pc_cur p' = pc_cur p" "pc_notify p' = pc_notify p"
    "pc_done p' = pc_done p" "pc_loop p' = pc_loop p"
  using assms by (auto simp: Capture_diff_def rbind_Inr_iff)

lemma round_idle:
  assumes "pc_loop p = Running fps nx" and "pc_done p \<or> (\<exists>e. inner = Inl e) \<or> (\<exists>st. inner = Inr ([], st))"
  shows "captureLoop_round inner p = (if pc_done p then p\<lparr>pc_loop := Ended\<rparr> else p) \<and> delivered p inner f = f"
  using assms by (auto simp: captureLoop_round_def delivered_def split: sum.splits)

lemma round_frame:
  assumes "pc_loop p = Running fps nx" and "\<not> pc_done p" and "px \<noteq> []"
  shows "captureLoop_round (Inr (px, st)) p = (store_frame_at nx px st p)\<lparr>pc_loop := Running fps (1 - nx)\<rparr>"
    and "delivered p (Inr (px, st)) f = Some (px, st)"
  using assms by (simp_all add: captureLoop_round_def delivered_def)

lemma pc_ok_store:
  assumes "pc_ok N p f" and "pc_loop p = Running fps nx" and "px \<noteq> []" and "length px \<in> N"
  shows "pc_ok N ((store_frame_at nx px st p)\<lparr>pc_loop := Running fps (1 - nx)\<rparr>) (Some (px, st))"
proof -
  let ?b = "if length (pc_bufs p ! nx) < length px then replicate (length px) 0 else pc_bufs p ! nx"
  have len: "length (pc_bufs p) = 2" "length (pc_strides p) = 2" "0 < fps" "nx < 2"
    and sized: "\<forall>b \<in> set (pc_bufs p). b = [] \<or> length b \<in> N"
    using assms(1,2) by (auto simp: pc_ok_def)
  have "pc_bufs p ! nx \<in> set (pc_bufs p)" using len by simp
  then have "pc_bufs p ! nx = [] \<or> length (pc_bufs p ! nx) \<in> N" using sized by blast
  then have "length (copy ?b px) \<in> N" using assms(3,4) by auto
  then have "\<forall>b \<in> set ((pc_bufs p)[nx := copy ?b px]). b = [] \<or> length b \<in> N"
    using sized set_update_subset_insert [of "pc_bufs p" nx "copy ?b px"] by auto
  moreover have "take (length px) (copy ?b px) = px" by (simp add: copy_def)
  moreover have "1 - nx \<noteq> nx" using len(4) by arith
  ultimately show ?thesis using len assms(3,4)
    by (auto simp: pc_ok_def store_frame_at_def Let_def)
qed

lemma pc_ok_round:
  assumes "pc_ok N p f" and "pc_loop p = Running fps nx" and "\<And>px st. inner = Inr (px, st) \<Longrightarrow> length px \<in> N"
  shows "pc_ok N (captureLoop_round inner p) (delivered p inner f)"
proof (cases "pc_done p \<or> (\<exists>e. inner = Inl e) \<or> (\<exists>st. inner = Inr ([], st))")
  case True
  then show ?thesis using assms(1) round_idle [OF assms(2) True, of f] assms(2)
    by (auto simp: pc_ok_def split: option.splits)
next
  case False
  then obtain px st where i: "inner = Inr (px, st)" "px \<noteq> []" "\<not> pc_done p"
    by (metis sum.exhaust surj_pair)
  then show ?thesis using pc_ok_store [OF assms(1,2) i(2)] assms(3) round_frame [OF assms(2) i(3,2)] by simp
qed

lemma pc_ok_fields:
  "pc_ok N p f \<Longrightarrow> pc_bufs q = pc_bufs p \<Longrightarrow> pc_strides q = pc_strides p \<Longrightarrow> pc_cur q = pc_cur p \<Longrightarrow>
     pc_loop q = pc_loop p \<Longrightarrow> pc_ok N q f"
  by (auto simp: pc_ok_def split: option.splits capture_loop.splits)

lemma pc_ok_step: "pc_step K N a b \<Longrightarrow> pc_ok N (fst a) (fst (snd a)) \<Longrightarrow> pc_ok N (fst b) (fst (snd b))"
proof (induction rule: pc_step.induct)
  case (round p fps nx inner f cs)
  then show ?case by (simp add: pc_ok_round)
next
  case (late p fps nx px f cs st)
  then show ?case using pc_ok_store [of N p f fps nx px st] by simp
next
  case (stop p p' f cs)
  then show ?case using pc_ok_fields [of N p f p'] by (auto simp: PipelinedCapturer_Stop_def split: if_splits)
next
  case (returned i cs out stride bounds p p' f)
  then show ?case using Capture_diff_fields [OF returned(3)] pc_ok_fields [of N p f p'] by simp
next
  case (notified i cs p f)
  then show ?case using pc_ok_fields [of N p f "p\<lparr>pc_notify := False\<rparr>"] by simp
qed simp_all

lemma pc_ok_start: "pc_ok N (PipelinedCapturer_Start fps NewPipelinedCapturer) None"
  by (auto simp: pc_ok_def PipelinedCapturer_Start_def NewPipelinedCapturer_def Let_def)

lemma pc_ok_reachable: "(pc_step K N)\<^sup>*\<^sup>* (pc_init fps) a \<Longrightarrow> pc_ok N (fst a) (fst (snd a))"
proof (induction rule: rtranclp_induct)
  case base
  show ?case by (simp add: pc_init_def pc_ok_start)
next
  case (step y z)
  then show ?case using pc_ok_step by blast
qed

lemma pc_ok_exact:
  assumes "pc_ok {n} p (Some (px, st))"
  shows "pc_bufs p ! pc_cur p = px"
proof -
  have b: "pc_bufs p ! pc_cur p \<in> set (pc_bufs p)" and px: "px \<noteq> []" "length px = n"
      "take (length px) (pc_bufs p ! pc_cur p) = px"
    using assms by (auto simp: pc_ok_def)
  then have "pc_bufs p ! pc_cur p \<noteq> []" by auto
  then have "length (pc_bufs p ! pc_cur p) = n" using assms b unfolding pc_ok_def by auto
  then show ?thesis using px by simp
qed

text \<open>
  C13: In every interleaving of the capture goroutine, \<^verbatim>\<open>Stop\<close> and any number of callers, what
  \<^verbatim>\<open>Capture\<close> copies is the last frame the inner capturer delivered, with its stride, and the
  goroutine writes its next frame into the other buffer. (When a frame is shorter than an
  earlier one the copy has a rest of that one behind it; frames of one size are copied
  exactly.) Before the first frame there is nothing to copy.
\<close>

theorem Capture_copies_last_frame:
  assumes "(pc_step K N)\<^sup>*\<^sup>* (pc_init fps) (p, f, cs)"
  shows "(f = None \<and> fst (Capture_copy p) = []) \<or>
     (\<exists>px st tail. f = Some (px, st) \<and> Capture_copy p = (px @ tail, st) \<and> (\<forall>n. N = {n} \<longrightarrow> tail = []) \<and>
        (\<forall>fps nx. pc_loop p = Running fps nx \<longrightarrow> nx \<noteq> pc_cur p))"
proof (cases f)
  case None
  then show ?thesis using pc_ok_reachable [OF assms] by (simp add: pc_ok_def Capture_copy_def)
next
  case (Some fr)
  obtain px st where f: "f = Some (px, st)" using Some by (cases fr) simp
  have ok: "pc_ok N p (Some (px, st))" using pc_ok_reachable [OF assms] f by simp
  let ?b = "pc_bufs p ! pc_cur p"
  have "take (length px) ?b = px" "pc_strides p ! pc_cur p = st" using ok by (auto simp: pc_ok_def)
  then have "Capture_copy p = (px @ drop (length px) ?b, st)"
    by (metis Capture_copy_def append_take_drop_id)
  moreover have "drop (length px) ?b = []" if "N = {n}" for n
    using pc_ok_exact [of n p px st] ok that by simp
  moreover have "nx \<noteq> pc_cur p" if "pc_loop p = Running fps' nx" for fps' nx
    using ok that by (simp add: pc_ok_def)
  ultimately show ?thesis using f by blast
qed

section \<open>No lost notification\<close>

definition pc_live :: "nat \<Rightarrow> pc_state \<Rightarrow> bool" where
  "pc_live c a = (case a of (p, f, cs) \<Rightarrow> cs c = Waiting \<and> f \<noteq> None \<longrightarrow> pc_notify p)"

lemma pc_live_step:
  "pc_step {c} N a b \<Longrightarrow> pc_ok N (fst a) (fst (snd a)) \<Longrightarrow> pc_live c a \<Longrightarrow> pc_live c b"
proof (induction rule: pc_step.induct)
  case (round p fps nx inner f cs)
  then show ?case
    by (cases inner) (auto simp: pc_live_def captureLoop_round_def delivered_def store_frame_at_def Let_def split: if_splits)
next
  case (wait i cs p f)
  then have "f = None" by (auto simp: pc_ok_def split: option.splits)
  then show ?case by (simp add: pc_live_def)
next
  case (returned i cs out stride bounds p p' f)
  then show ?case by (simp add: pc_live_def)
qed (auto simp: pc_live_def PipelinedCapturer_Stop_def store_frame_at_def Let_def split: if_splits prod.splits)

text \<open>
  No notification is lost: with one caller, whenever it waits inside \<^verbatim>\<open>Capture\<close> and a frame has
  been delivered, or the capturer was stopped, it can leave the \<^verbatim>\<open>select\<close>; it is never stuck
  waiting while a frame is there.
\<close>

lemma Capture_not_stuck:
  assumes "(pc_step {c} N)\<^sup>*\<^sup>* (pc_init fps) (p, f, cs)" and "cs c = Waiting" and "f \<noteq> None \<or> pc_done p"
  shows "\<exists>p' cs'. pc_step {c} N (p, f, cs) (p', f, cs') \<and> cs' c \<in> {Testing, Outside}"
proof -
  have "pc_ok N (fst a) (fst (snd a)) \<and> pc_live c a" if "(pc_step {c} N)\<^sup>*\<^sup>* (pc_init fps) a" for a
    using that
  proof (induction rule: rtranclp_induct)
    case base
    show ?case by (simp add: pc_init_def pc_ok_start pc_live_def)
  next
    case (step y z)
    then show ?case using pc_ok_step pc_live_step by blast
  qed
  from this [OF assms(1)] have live: "f \<noteq> None \<longrightarrow> pc_notify p" using assms(2) by (simp add: pc_live_def)
  have c: "c \<in> {c}" by simp
  show ?thesis
  proof (cases "pc_done p")
    case True
    from pc_step.stopped [where K = "{c}" and N = N and f = f and i = c and cs = cs and p = p, OF c assms(2) True]
    have "pc_step {c} N (p, f, cs) (p, f, cs(c := Outside)) \<and> (cs(c := Outside)) c \<in> {Testing, Outside}" by simp
    then show ?thesis by blast
  next
    case False
    then have "pc_notify p" using assms(3) live by blast
    from pc_step.notified [where K = "{c}" and N = N and f = f and i = c and cs = cs and p = p, OF c assms(2) this]
    have "pc_step {c} N (p, f, cs) (p\<lparr>pc_notify := False\<rparr>, f, cs(c := Testing)) \<and>
        (cs(c := Testing)) c \<in> {Testing, Outside}" by simp
    then show ?thesis by blast
  qed
qed

section \<open>Differencing\<close>

interpretation pipelined_diff: frame_differ frameDiff store_frame store_wf
  unfolding frameDiff_def
  by unfold_locales (auto simp: diffTileSize_def intro: diff_frames_full diff_frames_partial)

text \<open>
  What one client sees: rounds of the capture goroutine, and requests of the client, each of
  which captures, asks for the dirty rectangles and repaints them. A request before the first
  frame waits, that is, it happens later.
\<close>

datatype cap_event = Round "(bytes \<times> nat) res" | Request

fun run_events ::
  "u16 \<Rightarrow> u16 \<Rightarrow> cap_event list \<Rightarrow> PipelinedCapturer \<Rightarrow> picture \<Rightarrow> (PipelinedCapturer \<times> picture) res" where
  "run_events w h [] p pic = Inr (p, pic)"
| "run_events w h (Round inner # es) p pic = run_events w h es (captureLoop_round inner p) pic"
| "run_events w h (Request # es) p pic =
     (case PipelinedCapturer_Capture (w, h) p of
        None \<Rightarrow> run_events w h es p pic
      | Some r \<Rightarrow> rbind r (\<lambda>((out, stride), p').
          case LastDirtyRects p' of (report, p'') \<Rightarrow>
            run_events w h es p'' (repaint report (pixel_at stride out) pic)))"

fun last_frame :: "cap_event list \<Rightarrow> (bytes \<times> nat) option \<Rightarrow> (bytes \<times> nat) option" where
  "last_frame [] f = f"
| "last_frame (Round (Inr (px, st)) # es) f = last_frame es (Some (px, st))"
| "last_frame (e # es) f = last_frame es f"

fun frame_event :: "nat \<Rightarrow> nat \<Rightarrow> cap_event \<Rightarrow> bool" where
  "frame_event n st (Round (Inr (px, s))) \<longleftrightarrow> length px = n \<and> s = st"
| "frame_event n st e \<longleftrightarrow> True"

definition seen_ok :: "nat \<Rightarrow> nat \<Rightarrow> u16 \<Rightarrow> u16 \<Rightarrow> PipelinedCapturer \<Rightarrow> picture \<Rightarrow> bool" where
  "seen_ok n st w h p pic \<longleftrightarrow> store_wf (pc_diff p) \<and>
     (\<forall>q. store_frame (pc_diff p) = Some (q, w, h) \<longrightarrow> length q = n \<and> shows_frame w h st pic q)"

definition running_ok :: "nat \<Rightarrow> nat \<Rightarrow> PipelinedCapturer \<Rightarrow> (bytes \<times> nat) option \<Rightarrow> bool" where
  "running_ok n st p f \<longleftrightarrow> pc_ok {n} p f \<and> \<not> pc_done p \<and> (\<exists>fps nx. pc_loop p = Running fps nx) \<and>
     (f = None \<or> (\<exists>px. f = Some (px, st)))"

lemma running_round:
  assumes "running_ok n st p f" and "0 < n" and "frame_event n st (Round inner)"
  shows "running_ok n st (captureLoop_round inner p) (last_frame [Round inner] f)"
    and "pc_diff (captureLoop_round inner p) = pc_diff p"
proof -
  from assms(1) obtain fps nx where l: "pc_loop p = Running fps nx" "pc_ok {n} p f" "\<not> pc_done p"
    "f = None \<or> (\<exists>px. f = Some (px, st))"
    by (auto simp: running_ok_def)
  show "pc_diff (captureLoop_round inner p) = pc_diff p"
    using l by (auto simp: captureLoop_round_def store_frame_at_def Let_def split: sum.splits)
  show "running_ok n st (captureLoop_round inner p) (last_frame [Round inner] f)"
  proof (cases inner)
    case (Inl e)
    then show ?thesis using assms(1) l by (auto simp: captureLoop_round_def)
  next
    case (Inr fr)
    then obtain px where px: "inner = Inr (px, st)" "length px = n" using assms(3) by (cases fr) auto
    then have ne: "px \<noteq> []" using assms(2) by auto
    show ?thesis using pc_ok_store [OF l(2,1) ne, of st] px l round_frame [OF l(1,3) ne]
      by (auto simp: running_ok_def store_frame_at_def Let_def)
  qed
qed

lemma request_shows:
  assumes "running_ok n st p (Some (px, st))" and "seen_ok n st w h p pic"
  shows "\<exists>p' report p''. PipelinedCapturer_Capture (w, h) p = Some (Inr ((px, st), p')) \<and>
     LastDirtyRects p' = (report, p'') \<and> running_ok n st p'' (Some (px, st)) \<and>
     seen_ok n st w h p'' (repaint report (pixel_at st px) pic) \<and>
     store_frame (pc_diff p'') = Some (px, w, h) \<and>
     shows_frame w h st (repaint report (pixel_at st px) pic) px"
proof -
  have ok: "pc_ok {n} p (Some (px, st))" "\<not> pc_done p" "\<exists>fps nx. pc_loop p = Running fps nx"
    using assms(1) by (auto simp: running_ok_def)
  then have px: "px \<noteq> []" "length px = n" "pc_bufs p ! pc_cur p = px" "pc_strides p ! pc_cur p = st"
    using pc_ok_exact [OF ok(1)] by (auto simp: pc_ok_def)
  obtain report d' where d: "frameDiff (pc_diff p) px w h st = Inr (report, d')" "store_wf d'"
      "store_frame d' = Some (px, w, h)" "shows_frame w h st (repaint report (pixel_at st px) pic) px"
    using pipelined_diff.step_shows [of "pc_diff p" px w h st pic] assms(2) px by (auto simp: seen_ok_def)
  let ?p' = "p\<lparr>pc_diff := d', pc_dirtyRects := report, pc_dirtyComputed := True\<rparr>"
  let ?p'' = "?p'\<lparr>pc_dirtyComputed := False\<rparr>"
  have "PipelinedCapturer_Capture (w, h) p = Some (Inr ((px, st), ?p'))"
    using px(1,3,4) d(1) by (simp add: PipelinedCapturer_Capture_def Capture_copy_def Capture_diff_def)
  moreover have "LastDirtyRects ?p' = (report, ?p'')" by (simp add: LastDirtyRects_def)
  moreover have "running_ok n st ?p'' (Some (px, st))"
    using pc_ok_fields [OF ok(1), of ?p''] ok(2,3) by (simp add: running_ok_def)
  moreover have "seen_ok n st w h ?p'' (repaint report (pixel_at st px) pic)"
    using d(2-4) px(2) by (simp add: seen_ok_def)
  moreover have "store_frame (pc_diff ?p'') = Some (px, w, h)" using d(3) by simp
  ultimately show ?thesis using d(4) by blast
qed

lemma run_events_ok:
  assumes "running_ok n st p f" and "seen_ok n st w h p pic" and "0 < n" and "list_all (frame_event n st) es"
  shows "\<exists>p' pic'. run_events w h es p pic = Inr (p', pic') \<and> running_ok n st p' (last_frame es f) \<and>
     seen_ok n st w h p' pic'"
  using assms(1,2,4)
proof (induction es arbitrary: p f pic)
  case Nil
  then show ?case by simp
next
  case (Cons e es)
  show ?case
  proof (cases e)
    case (Round inner)
    have "last_frame (Round inner # es) f = last_frame es (last_frame [Round inner] f)"
      by (cases inner) auto
    then show ?thesis
      using Cons.IH [OF running_round(1) [OF Cons.prems(1) assms(3), of inner], of pic] Cons.prems(2,3) Round
        running_round(2) [OF Cons.prems(1) assms(3), of inner] by (simp add: seen_ok_def)
  next
    case Request
    show ?thesis
    proof (cases f)
      case None
      then have "PipelinedCapturer_Capture (w, h) p = None"
        using Cons.prems(1) by (auto simp: running_ok_def pc_ok_def PipelinedCapturer_Capture_def)
      then show ?thesis using Cons.IH [OF Cons.prems(1,2)] Cons.prems(3) Request by simp
    next
      case (Some fr)
      then obtain px where f: "f = Some (px, st)" using Cons.prems(1) by (auto simp: running_ok_def)
      obtain p' report p'' where r: "PipelinedCapturer_Capture (w, h) p = Some (Inr ((px, st), p'))"
          "LastDirtyRects p' = (report, p'')" "running_ok n st p'' f"
          "seen_ok n st w h p'' (repaint report (pixel_at st px) pic)"
        using request_shows [of n st p px w h pic] Cons.prems(1,2) f by blast
      then show ?thesis using Cons.IH [OF r(3,4)] Cons.prems(3) Request by simp
    qed
  qed
qed

lemma started_ok: "running_ok n st (PipelinedCapturer_Start fps NewPipelinedCapturer) None \<and>
    seen_ok n st w h (PipelinedCapturer_Start fps NewPipelinedCapturer) pic"
  using pc_ok_start
  by (auto simp: running_ok_def seen_ok_def PipelinedCapturer_Start_def NewPipelinedCapturer_def Let_def store_wf_def
      store_frame_def)

lemma run_events_append:
  "run_events w h (es @ es') p pic = rbind (run_events w h es p pic) (\<lambda>(p', pic'). run_events w h es' p' pic')"
proof (induction es arbitrary: p pic)
  case Nil
  then show ?case by simp
next
  case (Cons e es)
  show ?case
  proof (cases e)
    case (Round inner)
    then show ?thesis using Cons.IH by simp
  next
    case Request
    show ?thesis
    proof (cases "PipelinedCapturer_Capture (w, h) p")
      case None
      then show ?thesis using Cons.IH Request by simp
    next
      case (Some r)
      then show ?thesis using Cons.IH Request by (cases r) (auto simp: split_beta)
    qed
  qed
qed

text \<open>
  One client of a started capturer: after any interleaving of captures (failed ones
  included) and requests that ends with a request, a client that repaints only the reported
  tiles shows the last frame that was captured; no step panics.
\<close>

lemma Pipelined_client_shows_last_frame:
  assumes "0 < n" and "list_all (frame_event n st) es" and "last_frame es None = Some (px, st)"
  shows "\<exists>p' pic'. run_events w h (es @ [Request]) (PipelinedCapturer_Start fps NewPipelinedCapturer) pic = Inr (p', pic') \<and>
     shows_frame w h st pic' px"
proof -
  let ?p = "PipelinedCapturer_Start fps NewPipelinedCapturer"
  obtain p1 pic1 where 1: "run_events w h es ?p pic = Inr (p1, pic1)"
      "running_ok n st p1 (Some (px, st))" "seen_ok n st w h p1 pic1"
    using run_events_ok [OF conjunct1 [OF started_ok] conjunct2 [OF started_ok] assms(1,2), where pic = pic] assms(3)
    by metis
  from request_shows [OF 1(2,3)] show ?thesis using 1(1) by (auto simp: run_events_append)
qed

lemma Pipelined_client_shows_last_frame_witness:
  "\<exists>p' pic'. run_events 1 1 ([Round (Inr ([1,2,3,4], 4)), Request, Round (Inl EOF), Round (Inr ([5,6,7,8], 4))] @ [Request])
       (PipelinedCapturer_Start 30 NewPipelinedCapturer) (\<lambda>i j. []) = Inr (p', pic') \<and>
     shows_frame 1 1 4 pic' [5,6,7,8]"
  by (rule Pipelined_client_shows_last_frame [where n = 4]) simp_all

section \<open>One stored frame for all clients\<close>

lemma diff_same_frame:
  assumes "store_wf d" and "store_frame d = Some (px, w, h)" and "unat h * st \<le> length px" and "unat w * 4 \<le> st"
  shows "\<exists>d'. frameDiff d px w h st = Inr (Some [], d')"
proof -
  obtain bk len where d: "fs_prev d = Some (bk, len)" "len \<le> length bk" "px = take len bk" "fs_prevW d = w" "fs_prevH d = h"
    using assms(1,2) by (auto simp: store_frame_def store_wf_def split: option.splits)
  obtain dirty where dirty: "dirty_tiles diffTileSize px bk (unat w) (unat h) st = Inr dirty"
    using dirty_tiles_total [of px bk diffTileSize "unat w" "unat h" st] d by auto
  have "tile_changed px bk st t \<noteq> Inr True" if "t \<in> set (rect_tiles diffTileSize (unat w) (unat h))" for t
  proof
    assume "tile_changed px bk st t = Inr True"
    from tile_changed_True [OF this that assms(3,4)] obtain x y where
      xy: "x < unat w" "y < unat h" "pixel_at st px x y \<noteq> pixel_at st bk x y" by blast
    have "Suc y * st \<le> unat h * st" using xy(2) by (intro mult_le_mono) auto
    then have "y * st + x * 4 + 4 \<le> len" using xy(1) assms(3,4) d(2,3) by simp
    then have "pixel_at st px x y = pixel_at st bk x y" using d(3) by (simp add: pixel_at_def drop_take take_take min_def)
    then show False using xy(3) by simp
  qed
  then have "dirty = []" using dirty_tiles_filter [OF dirty] by simp
  then show ?thesis using d dirty by (simp add: frameDiff_def diff_frames_def)
qed

text \<open>
  The capturer of the server is shared by all its clients, and so is the frame it compares
  with. When two clients request an update after a change, the first \<^verbatim>\<open>Capture\<close> reports it and
  stores the new frame, and the second one reports that nothing has changed, whatever the
  second client has on its screen.
\<close>

lemma second_client_misses_change:
  assumes "running_ok n st p (Some (px, st))" and "seen_ok n st w h p pic"
    and "unat h * st \<le> n" and "unat w * 4 \<le> st"
  shows "\<exists>p1 report q1 p2. PipelinedCapturer_Capture (w, h) p = Some (Inr ((px, st), p1)) \<and>
     LastDirtyRects p1 = (report, q1) \<and>
     PipelinedCapturer_Capture (w, h) q1 = Some (Inr ((px, st), p2)) \<and> fst (LastDirtyRects p2) = Some []"
proof -
  obtain p1 report q1 where 1: "PipelinedCapturer_Capture (w, h) p = Some (Inr ((px, st), p1))"
      "LastDirtyRects p1 = (report, q1)" "running_ok n st q1 (Some (px, st))"
      "seen_ok n st w h q1 (repaint report (pixel_at st px) pic)"
      "store_frame (pc_diff q1) = Some (px, w, h)"
    using request_shows [OF assms(1,2)] by blast
  have ok: "pc_ok {n} q1 (Some (px, st))" using 1(3) by (simp add: running_ok_def)
  then have px: "px \<noteq> []" "length px = n" "pc_bufs q1 ! pc_cur q1 = px" "pc_strides q1 ! pc_cur q1 = st"
    using pc_ok_exact [OF ok] by (auto simp: pc_ok_def)
  obtain d' where "frameDiff (pc_diff q1) px w h st = Inr (Some [], d')"
    using diff_same_frame [of "pc_diff q1" px w h st] 1(4,5) assms(3,4) px(2) by (auto simp: seen_ok_def)
  then have "\<exists>p2. PipelinedCapturer_Capture (w, h) q1 = Some (Inr ((px, st), p2)) \<and> fst (LastDirtyRects p2) = Some []"
    using px(1,3,4) by (simp add: PipelinedCapturer_Capture_def Capture_copy_def Capture_diff_def LastDirtyRects_def)
  then show ?thesis using 1(1,2) by blast
qed

lemma demo_capturer:
  "running_ok 4 4 (captureLoop_round (Inr ([1,2,3,4], 4)) (PipelinedCapturer_Start 30 NewPipelinedCapturer)) (Some ([1,2,3,4], 4))"
  "seen_ok 4 4 1 1 (captureLoop_round (Inr ([1,2,3,4], 4)) (PipelinedCapturer_Start 30 NewPipelinedCapturer)) pic"
proof -
  let ?p = "PipelinedCapturer_Start 30 NewPipelinedCapturer"
  have r: "running_ok 4 4 ?p None" and o: "seen_ok 4 4 1 1 ?p pic" using started_ok by blast+
  note rr = running_round [OF r, of "Inr ([1,2,3,4], 4)"]
  show "running_ok 4 4 (captureLoop_round (Inr ([1,2,3,4], 4)) ?p) (Some ([1,2,3,4], 4))" using rr(1) by simp
  show "seen_ok 4 4 1 1 (captureLoop_round (Inr ([1,2,3,4], 4)) ?p) pic" using rr(2) o by (simp add: seen_ok_def)
qed

lemma second_client_misses_change_witness:
  "\<exists>p1 report q1 p2. PipelinedCapturer_Capture (1, 1)
       (captureLoop_round (Inr ([1,2,3,4], 4)) (PipelinedCapturer_Start 30 NewPipelinedCapturer)) = Some (Inr (([1,2,3,4], 4), p1)) \<and>
     LastDirtyRects p1 = (report, q1) \<and>
     PipelinedCapturer_Capture (1, 1) q1 = Some (Inr (([1,2,3,4], 4), p2)) \<and> fst (LastDirtyRects p2) = Some []"
  by (rule second_client_misses_change [OF demo_capturer]) simp_all

lemma demo_reachable:
  assumes "(pc_step {c} N)\<^sup>*\<^sup>* (pc_init 30) (PipelinedCapturer_Start 30 NewPipelinedCapturer, None, cs)" and "4 \<in> N"
  shows "(pc_step {c} N)\<^sup>*\<^sup>* (pc_init 30)
    (captureLoop_round (Inr ([1,2,3,4], 4)) (PipelinedCapturer_Start 30 NewPipelinedCapturer), Some ([1,2,3,4], 4), cs)"
proof -
  let ?p = "PipelinedCapturer_Start 30 NewPipelinedCapturer"
  have l: "pc_loop ?p = Running 30 1" by (simp add: PipelinedCapturer_Start_def NewPipelinedCapturer_def)
  have "pc_step {c} N (?p, None, cs) (captureLoop_round (Inr ([1,2,3,4], 4)) ?p, delivered ?p (Inr ([1,2,3,4], 4)) None, cs)"
    by (rule pc_step.round [OF l]) (use assms(2) in \<open>auto simp: numeral_eq_Suc\<close>)
  moreover have "delivered ?p (Inr ([1,2,3,4], 4)) None = Some ([1,2,3,4], 4)"
    by (simp add: delivered_def PipelinedCapturer_Start_def NewPipelinedCapturer_def)
  ultimately have "pc_step {c} N (?p, None, cs) (captureLoop_round (Inr ([1,2,3,4], 4)) ?p, Some ([1,2,3,4], 4), cs)"
    by simp
  with assms(1) show ?thesis by (rule rtranclp.rtrancl_into_rtrancl)
qed

theorem Capture_copies_last_frame_witness:
  "\<exists>tail. Capture_copy (captureLoop_round (Inr ([1,2,3,4], 4)) (PipelinedCapturer_Start 30 NewPipelinedCapturer)) =
     ([1,2,3,4] @ tail, 4) \<and> tail = []"
proof -
  have "(pc_step {0} {4})\<^sup>*\<^sup>* (pc_init 30) (PipelinedCapturer_Start 30 NewPipelinedCapturer, None, \<lambda>_. Outside)"
    by (simp add: pc_init_def)
  from Capture_copies_last_frame [OF demo_reachable [OF this]] show ?thesis by auto
qed

lemma Capture_not_stuck_witness:
  "\<exists>p' cs'. pc_step {0} {4} (captureLoop_round (Inr ([1,2,3,4], 4)) (PipelinedCapturer_Start 30 NewPipelinedCapturer),
       Some ([1,2,3,4], 4), (\<lambda>_. Outside)(0 := Waiting)) (p', Some ([1,2,3,4], 4), cs') \<and> cs' 0 \<in> {Testing, Outside}"
proof (rule Capture_not_stuck [OF demo_reachable])
  let ?p = "PipelinedCapturer_Start 30 NewPipelinedCapturer"
  have "pc_step {0} {4} (?p, None, \<lambda>_. Outside) (?p, None, (\<lambda>_. Outside)(0 := Testing))"
    by (rule pc_step.call) simp_all
  moreover have "pc_step {0} {4} (?p, None, (\<lambda>_. Outside)(0 := Testing)) (?p, None, ((\<lambda>_. Outside)(0 := Testing))(0 := Waiting))"
    by (rule pc_step.wait) (simp_all add: PipelinedCapturer_Start_def NewPipelinedCapturer_def)
  ultimately show "(pc_step {0} {4})\<^sup>*\<^sup>* (pc_init 30) (?p, None, (\<lambda>_. Outside)(0 := Waiting))"
    by (simp add: pc_init_def)
qed simp_all

end
