(* ===== verification/Screenflow.thy ===== *)
theory Screenflow
  imports Display Pipelined
begin

text \<open>
  A screen on its way to a client: the capture goroutine of \<^verbatim>\<open>rfb/pipelined_capturer.go\<close>, the frame writer of a connection in
  \<^verbatim>\<open>rfb/server.go\<close>, which captures, asks for the dirty rectangles, encodes and sends, and a client that decodes what it reads from the wire. The locale
  \<open>answering_server\<close> is what a connection promises for one answer; it is interpreted for the Zlib and the
  Tight encoding, and the theorem on whole sessions is proved once in it.
\<close>

section \<open>The frame writer on a pipelined capturer\<close>

text \<open>
  One request, \<^verbatim>\<open>handleFramebufferRequestTimed\<close> with the capturer of the server: \<open>None\<close> when \<^verbatim>\<open>Capture\<close> waits for the first frame. The dirty
  rectangles are asked for only when the request is incremental.
\<close>

definition answer_request :: "deflater \<Rightarrow> u16 \<times> u16 \<Rightarrow> (nat \<times> CursorImage) option \<Rightarrow> FramebufferUpdateRequest \<Rightarrow>
    PipelinedCapturer \<Rightarrow> ('t, 'h) session \<Rightarrow> (PipelinedCapturer \<times> ('t, 'h) session) res option" where
  "answer_request z bounds cursor req p s =
     map_option (\<lambda>captured. rbind captured (\<lambda>(frame, p').
       let (dirty, p'') = (if req_Incremental req = 0 then (None, p') else LastDirtyRects p') in
       case handleFramebufferRequest z \<lparr>cap_bounds = bounds, cap_frame = Inr frame, cap_dirty = dirty\<rparr> cursor req s of
         (Inl e, s') \<Rightarrow> Inl e
       | (Inr _, s') \<Rightarrow> Inr (p'', s')))
     (PipelinedCapturer_Capture bounds p)"

text \<open>
  The capture goroutine and the frame writer of one connection, in the order in which their turns come. A request that would wait for the first frame
  has its turn later.
\<close>

datatype srv_event = Captured "(bytes \<times> nat) res" | Asked FramebufferUpdateRequest

fun serve_events :: "deflater \<Rightarrow> u16 \<times> u16 \<Rightarrow> (nat \<times> CursorImage) option \<Rightarrow> srv_event list \<Rightarrow>
    PipelinedCapturer \<Rightarrow> ('t, 'h) session \<Rightarrow> (PipelinedCapturer \<times> ('t, 'h) session) res" where
  "serve_events z bounds cursor [] p s = Inr (p, s)"
| "serve_events z bounds cursor (Captured inner # es) p s = serve_events z bounds cursor es (captureLoop_round inner p) s"
| "serve_events z bounds cursor (Asked req # es) p s =
     (case answer_request z bounds cursor req p s of
        None \<Rightarrow> serve_events z bounds cursor es p s
      | Some r \<Rightarrow> rbind r (\<lambda>(p', s'). serve_events z bounds cursor es p' s'))"

fun last_captured :: "srv_event list \<Rightarrow> (bytes \<times> nat) option \<Rightarrow> (bytes \<times> nat) option" where
  "last_captured [] f = f"
| "last_captured (Captured (Inr frame) # es) f = last_captured es (Some frame)"
| "last_captured (e # es) f = last_captured es f"

text \<open>Frames fill the screen, requests ask for all of it.\<close>

definition full_request :: "u16 \<Rightarrow> u16 \<Rightarrow> FramebufferUpdateRequest \<Rightarrow> bool" where
  "full_request w h req \<longleftrightarrow> req_X req = 0 \<and> req_Y req = 0 \<and> req_Width req = w \<and> req_Height req = h"

fun srv_event_ok :: "u16 \<Rightarrow> u16 \<Rightarrow> nat \<Rightarrow> srv_event \<Rightarrow> bool" where
  "srv_event_ok w h st (Captured (Inr (px, stride))) \<longleftrightarrow> length px = unat h * st \<and> stride = st"
| "srv_event_ok w h st (Captured (Inl e)) \<longleftrightarrow> True"
| "srv_event_ok w h st (Asked req) \<longleftrightarrow> full_request w h req"

section \<open>What a connection promises\<close>

lemma full_request_wanted:
  assumes "full_request w h req"
  shows "wanted req dirty (int x) (int y) \<longleftrightarrow> x < unat w \<and> y < unat h \<and> (case dirty of None \<Rightarrow> True | Some rs \<Rightarrow> covered rs (int x) (int y))"
proof -
  have "uint v = int (unat v)" for v :: u16 by simp
  then have "req_rect req = tile_rect (0, 0, unat w, unat h)"
    using assms by (simp add: full_request_def req_rect_def tile_rect_def)
  then show ?thesis using inside_tile_rect [of 0 0 "unat w" "unat h" x y] by (simp add: wanted_def)
qed

lemma full_request_valid:
  assumes "full_request w h req" and "\<And>rs. dirty = Some rs \<Longrightarrow> \<forall>r \<in> set rs. on_screen (unat w) (unat h) r"
  shows "valid_request w h req dirty"
  using assms by (auto simp: valid_request_def full_request_def req_rect_def image_Rect_def on_screen_def list_all_iff split: option.split)

locale answering_server =
  fixes z :: deflater
    and ready :: "('t, 'h) session \<Rightarrow> bytes \<Rightarrow> bytes \<Rightarrow> 'd \<Rightarrow> bool"
    and dec :: "'d decoder"
    and shows_px :: "bytes \<Rightarrow> bytes \<Rightarrow> bool"
  assumes ready_conn: "ready s i out d \<Longrightarrow> cc_conn (ses_client s) = live i out \<and> sc_hasCapturer (ses_config s)"
    and answers: "ready s i out d \<Longrightarrow> screen_frame w h px st \<Longrightarrow> valid_request w h req dirty \<Longrightarrow>
      \<exists>rects s' pic' d'. encodeAndSendFrame z bounds cursor req px st dirty s = (Inr (), s') \<and>
        ready s' i (out @ enc_FramebufferUpdate rects) d' \<and> view_rects dec d rects pic = (pic', d') \<and>
        shows_region shows_px px st (wanted req dirty) pic' pic"
begin

text \<open>
  Between the answers: the picture of the client shows the frame with which the capturer will compare the next one.
\<close>

definition in_step :: "u16 \<Rightarrow> u16 \<Rightarrow> nat \<Rightarrow> PipelinedCapturer \<Rightarrow> picture \<Rightarrow> bool" where
  "in_step w h st p pic \<longleftrightarrow> store_wf (pc_diff p) \<and>
     (\<forall>q. store_frame (pc_diff p) = Some (q, w, h) \<longrightarrow> length q = unat h * st \<and> shows_screen shows_px w h st pic q)"

text \<open>The report of the capturer covers what the picture does not show yet.\<close>

definition report_ok :: "u16 \<Rightarrow> u16 \<Rightarrow> nat \<Rightarrow> bytes \<Rightarrow> picture \<Rightarrow> rect list option \<Rightarrow> bool" where
  "report_ok w h st px pic report \<longleftrightarrow>
     (case report of None \<Rightarrow> True | Some rs \<Rightarrow> (\<forall>r \<in> set rs. on_screen (unat w) (unat h) r) \<and>
        (\<forall>x < unat w. \<forall>y < unat h. \<not> covered rs (int x) (int y) \<longrightarrow> shows_px (pic x y) (pixel_at st px x y)))"

lemma capture_reports:
  assumes "running_ok n st p (Some (px, st))" and "n = unat h * st" and "in_step w h st p pic"
  shows "\<exists>report d'. PipelinedCapturer_Capture (w, h) p =
      Some (Inr ((px, st), p\<lparr>pc_diff := d', pc_dirtyRects := report, pc_dirtyComputed := True\<rparr>)) \<and>
    store_wf d' \<and> store_frame d' = Some (px, w, h) \<and> report_ok w h st px pic report"
proof -
  have ok: "pc_ok {n} p (Some (px, st))" using assms(1) by (auto simp: running_ok_def)
  then have px: "px \<noteq> []" "length px = n" "pc_bufs p ! pc_cur p = px" "pc_strides p ! pc_cur p = st"
    using pc_ok_exact [OF ok] by (auto simp: pc_ok_def)
  have wf: "store_wf (pc_diff p)" using assms(3) by (simp add: in_step_def)
  have cap: "PipelinedCapturer_Capture (w, h) p =
      Some (Inr ((px, st), p\<lparr>pc_diff := d', pc_dirtyRects := report, pc_dirtyComputed := True\<rparr>))"
    if "frameDiff (pc_diff p) px w h st = Inr (report, d')" for report d'
    using px(1,3,4) that by (simp add: PipelinedCapturer_Capture_def Capture_copy_def Capture_diff_def)
  show ?thesis
  proof (cases "\<exists>q. store_frame (pc_diff p) = Some (q, w, h)")
    case False
    then obtain d' where "frameDiff (pc_diff p) px w h st = Inr (None, d')" "store_wf d'" "store_frame d' = Some (px, w, h)"
      using pipelined_diff.diff_full [OF wf px(1), of w h st] by blast
    moreover have "report_ok w h st px pic None" by (simp add: report_ok_def)
    ultimately show ?thesis using cap by blast
  next
    case True
    then obtain q where q: "store_frame (pc_diff p) = Some (q, w, h)" by blast
    then have view: "length px = length q" "shows_screen shows_px w h st pic q" using assms(2,3) px(2) by (auto simp: in_step_def)
    obtain rs d' where d: "frameDiff (pc_diff p) px w h st = Inr (Some rs, d')" "store_wf d'" "store_frame d' = Some (px, w, h)"
        "\<forall>r \<in> set rs. on_screen (unat w) (unat h) r"
        "\<forall>x < unat w. \<forall>y < unat h. \<not> covered rs (int x) (int y) \<longrightarrow> pixel_at st px x y = pixel_at st q x y"
      using pipelined_diff.diff_partial [OF wf q view(1), of st] by blast
    have "report_ok w h st px pic (Some rs)" using d(4,5) view(2) by (auto simp: report_ok_def shows_screen_def)
    then show ?thesis using cap d(1-3) by blast
  qed
qed

lemma painted_screen:
  assumes "full_request w h req" and "report_ok w h st px pic dirty" and "shows_region shows_px px st (wanted req dirty) pic' pic"
  shows "shows_screen shows_px w h st pic' px"
  unfolding shows_screen_def
proof (intro allI impI)
  fix x y
  assume xy: "x < unat w" "y < unat h"
  show "shows_px (pic' x y) (pixel_at st px x y)"
  proof (cases "wanted req dirty (int x) (int y)")
    case True
    then show ?thesis using assms(3) unfolding shows_region_def by metis
  next
    case False
    then have "pic' x y = pic x y" using assms(3) unfolding shows_region_def by metis
    moreover have "shows_px (pic x y) (pixel_at st px x y)"
      using False xy assms(2) by (auto simp: full_request_wanted [OF assms(1)] report_ok_def split: option.splits)
    ultimately show ?thesis by simp
  qed
qed

lemma answer_shows:
  assumes "running_ok n st p (Some (px, st))" and "n = unat h * st" and "unat w * 4 \<le> st" and "in_step w h st p pic"
    and "ready s i out d" and "full_request w h req"
  shows "\<exists>p' s' rects pic' d'. answer_request z (w, h) cursor req p s = Some (Inr (p', s')) \<and>
    running_ok n st p' (Some (px, st)) \<and> in_step w h st p' pic' \<and> ready s' i (out @ enc_FramebufferUpdate rects) d' \<and>
    view_rects dec d rects pic = (pic', d') \<and> shows_screen shows_px w h st pic' px"
proof -
  obtain report sd where c: "PipelinedCapturer_Capture (w, h) p =
      Some (Inr ((px, st), p\<lparr>pc_diff := sd, pc_dirtyRects := report, pc_dirtyComputed := True\<rparr>))"
    and sd: "store_wf sd" "store_frame sd = Some (px, w, h)" and rep: "report_ok w h st px pic report"
    using capture_reports [OF assms(1,2,4)] by blast
  define dirty where "dirty = (if req_Incremental req = 0 then None else report)"
  define p' where "p' = p\<lparr>pc_diff := sd, pc_dirtyRects := report, pc_dirtyComputed := (req_Incremental req = 0)\<rparr>"
  have dirty: "report_ok w h st px pic dirty" using rep by (simp add: dirty_def report_ok_def)
  have "pc_ok {n} p (Some (px, st))" using assms(1) by (simp add: running_ok_def)
  then have len: "length px = n" by (simp add: pc_ok_def)
  have "screen_frame w h px st" using len assms(2,3) by (simp add: screen_frame_def)
  moreover have "valid_request w h req dirty"
    by (rule full_request_valid [OF assms(6)]) (use dirty in \<open>simp add: report_ok_def\<close>)
  ultimately obtain rects s' pic' d' where e: "encodeAndSendFrame z (w, h) cursor req px st dirty s = (Inr (), s')"
      "ready s' i (out @ enc_FramebufferUpdate rects) d'" "view_rects dec d rects pic = (pic', d')"
      "shows_region shows_px px st (wanted req dirty) pic' pic"
    using answers [OF assms(5)] by blast
  have h: "handleFramebufferRequest z \<lparr>cap_bounds = (w, h), cap_frame = Inr (px, st), cap_dirty = dirty\<rparr> cursor req s = (Inr (), s')"
    using e(1) ready_conn [OF assms(5)]
    by (simp add: handleFramebufferRequest_def bind_io_def get_state_def lift_res_def Let_def dirty_def split: if_splits)
  have l: "(if req_Incremental req = 0 then (None, p\<lparr>pc_diff := sd, pc_dirtyRects := report, pc_dirtyComputed := True\<rparr>)
      else LastDirtyRects (p\<lparr>pc_diff := sd, pc_dirtyRects := report, pc_dirtyComputed := True\<rparr>)) = (dirty, p')"
    by (simp add: LastDirtyRects_def dirty_def p'_def)
  have "answer_request z (w, h) cursor req p s = Some (Inr (p', s'))"
    unfolding answer_request_def c option.map(2) rbind.simps(2) prod.case l Let_def h sum.case ..
  moreover have "running_ok n st p' (Some (px, st))"
    using assms(1) pc_ok_fields [of "{n}" p "Some (px, st)" p'] by (auto simp: running_ok_def p'_def)
  moreover have shown: "shows_screen shows_px w h st pic' px" by (rule painted_screen [OF assms(6) dirty e(4)])
  moreover have "in_step w h st p' pic'" using sd shown len assms(2) by (simp add: in_step_def p'_def)
  ultimately show ?thesis using e(2,3) by blast
qed

lemma serve_events_ok:
  assumes "running_ok n st p f" and "in_step w h st p pic" and "ready s i out d" and "n = unat h * st" and "0 < n" and "unat w * 4 \<le> st"
    and "list_all (srv_event_ok w h st) es"
  shows "\<exists>p' s' updates pic' d'. serve_events z (w, h) cursor es p s = Inr (p', s') \<and> running_ok n st p' (last_captured es f) \<and>
    in_step w h st p' pic' \<and> ready s' i (out @ concat (map enc_FramebufferUpdate updates)) d' \<and>
    view_rects dec d (concat updates) pic = (pic', d')"
  using assms(1-3,7)
proof (induction es arbitrary: p f pic s out d)
  case Nil
  then have "ready s i (out @ concat (map enc_FramebufferUpdate [])) d" "view_rects dec d (concat []) pic = (pic, d)" by simp_all
  then show ?case using Nil by (auto intro!: exI [of _ "[]"])
next
  case (Cons e es)
  show ?case
  proof (cases e)
    case (Captured inner)
    have ev: "frame_event n st (Round inner)" using Cons.prems(4) Captured assms(4) by (cases inner) auto
    have "last_captured (Captured inner # es) f = last_captured es (last_frame [Round inner] f)" by (cases inner) auto
    then show ?thesis
      using Cons.IH [OF running_round(1) [OF Cons.prems(1) assms(5) ev] _ Cons.prems(3), of pic] Cons.prems(2,4) Captured
        running_round(2) [OF Cons.prems(1) assms(5) ev] by (simp add: in_step_def)
  next
    case (Asked req)
    have full: "full_request w h req" using Cons.prems(4) Asked by simp
    show ?thesis
    proof (cases f)
      case None
      then have "PipelinedCapturer_Capture (w, h) p = None"
        using Cons.prems(1) by (auto simp: running_ok_def pc_ok_def PipelinedCapturer_Capture_def)
      then show ?thesis using Cons.IH [OF Cons.prems(1-3)] Cons.prems(4) Asked by (simp add: answer_request_def)
    next
      case (Some fr)
      then obtain px where f: "f = Some (px, st)" using Cons.prems(1) by (auto simp: running_ok_def)
      obtain p1 s1 rects pic1 d1 where a: "answer_request z (w, h) cursor req p s = Some (Inr (p1, s1))"
          "running_ok n st p1 f" "in_step w h st p1 pic1" "ready s1 i (out @ enc_FramebufferUpdate rects) d1"
          "view_rects dec d rects pic = (pic1, d1)"
        using answer_shows [OF Cons.prems(1) [unfolded f] assms(4,6) Cons.prems(2,3) full] f by blast
      obtain p' s' updates pic' d' where b: "serve_events z (w, h) cursor es p1 s1 = Inr (p', s')" "running_ok n st p' (last_captured es f)"
          "in_step w h st p' pic'" "ready s' i ((out @ enc_FramebufferUpdate rects) @ concat (map enc_FramebufferUpdate updates)) d'"
          "view_rects dec d1 (concat updates) pic1 = (pic', d')"
        using Cons.IH [OF a(2,3,4)] Cons.prems(4) by auto
      show ?thesis
        by (rule exI [of _ p'], rule exI [of _ s'], rule exI [of _ "rects # updates"], rule exI [of _ pic'], rule exI [of _ d'])
          (use a b Asked in \<open>simp add: view_rects_append\<close>)
    qed
  qed
qed

text \<open>A session with a capturer that has just been started.\<close>

lemma session_shows_last_frame:
  assumes "ready s i out d" and "0 < unat h * st" and "unat w * 4 \<le> st" and "list_all (srv_event_ok w h st) (es @ [Asked req])"
    and "last_captured es None = Some (px, st)"
  shows "\<exists>p' s' updates pic' d'.
    serve_events z (w, h) cursor (es @ [Asked req]) (PipelinedCapturer_Start fps NewPipelinedCapturer) s = Inr (p', s') \<and>
    cc_conn (ses_client s') = live i (out @ concat (map enc_FramebufferUpdate updates)) \<and>
    view_rects dec d (concat updates) pic = (pic', d') \<and> shows_screen shows_px w h st pic' px"
proof -
  let ?p = "PipelinedCapturer_Start fps NewPipelinedCapturer"
  have start: "running_ok (unat h * st) st ?p None" "in_step w h st ?p pic"
    using conjunct1 [OF started_ok, of "unat h * st" st fps]
    by (simp_all add: in_step_def PipelinedCapturer_Start_def NewPipelinedCapturer_def Let_def store_wf_def store_frame_def)
  have split: "serve_events z b c (es @ es') p s = rbind (serve_events z b c es p s) (\<lambda>(p', s'). serve_events z b c es' p' s')" for b c es es' p s
  proof (induction es arbitrary: p s)
    case (Cons e es)
    show ?case
    proof (cases e)
      case (Asked r)
      show ?thesis
      proof (cases "answer_request z b c r p s")
        case (Some a)
        then show ?thesis using Cons.IH Asked by (cases a) (auto simp: split_beta)
      qed (use Cons.IH Asked in simp)
    qed (use Cons.IH in simp)
  qed simp
  obtain p1 s1 updates pic1 d1 where 1: "serve_events z (w, h) cursor es ?p s = Inr (p1, s1)" "running_ok (unat h * st) st p1 (Some (px, st))"
      "in_step w h st p1 pic1" "ready s1 i (out @ concat (map enc_FramebufferUpdate updates)) d1" "view_rects dec d (concat updates) pic = (pic1, d1)"
    using serve_events_ok [OF start assms(1) refl assms(2,3)] assms(4,5) by fastforce
  obtain p2 s2 rects pic2 d2 where 2: "answer_request z (w, h) cursor req p1 s1 = Some (Inr (p2, s2))"
      "ready s2 i ((out @ concat (map enc_FramebufferUpdate updates)) @ enc_FramebufferUpdate rects) d2" "view_rects dec d1 rects pic1 = (pic2, d2)"
      "shows_screen shows_px w h st pic2 px"
    using answer_shows [OF 1(2) refl assms(3) 1(3,4)] assms(4) by fastforce
  have "cc_conn (ses_client s2) = live i (out @ concat (map enc_FramebufferUpdate (updates @ [rects])))"
    using ready_conn [OF 2(2)] by simp
  moreover have "view_rects dec d (concat (updates @ [rects])) pic = (pic2, d2)" using 1(5) 2(3) by (simp add: view_rects_append)
  moreover have "serve_events z (w, h) cursor (es @ [Asked req]) ?p s = Inr (p2, s2)" using 1(1) 2(1) by (simp add: split)
  ultimately show ?thesis using 2(4) by blast
qed

end

section \<open>The encodings\<close>

text \<open>
  A connection whose best encoding is Tight, or Zlib, with the streams of its encoder in step with those of the client.
\<close>

definition tight_ready :: "deflater \<Rightarrow> (bytes \<Rightarrow> bytes) \<Rightarrow> jpeg_encoder \<Rightarrow> client_libs \<Rightarrow> (u8 \<times> u8 \<times> u8 \<Rightarrow> u8 \<times> u8 \<times> u8 \<Rightarrow> bool) \<Rightarrow>
    (Tight, 'h) session \<Rightarrow> bytes \<Rightarrow> bytes \<Rightarrow> bytes list \<Rightarrow> bool" where
  "tight_ready z inflate jpeg L close s i out d \<longleftrightarrow> plain_session s i out \<and> sc_hasCapturer (ses_config s) \<and>
     bestEncoding (ses_config s) (cc_encodings (ses_client s)) = EncodingTight \<and>
     (\<exists>me. sc_NewTightEncoder (ses_config s) = Some me \<and> me_EncodeMulti me = EncodeMulti z jpeg \<and>
       tight_sync z inflate jpeg L close (tight_state me s) d)"

definition zlib_ready :: "deflater \<Rightarrow> (bytes \<Rightarrow> bytes) \<Rightarrow> PixelFormat \<Rightarrow> PixelFormat \<Rightarrow>
    ('t, 'h) session \<Rightarrow> bytes \<Rightarrow> bytes \<Rightarrow> bytes \<Rightarrow> bool" where
  "zlib_ready z inflate pf serverPf s i out d \<longleftrightarrow> plain_session s i out \<and> sc_hasCapturer (ses_config s) \<and>
     bestEncoding (ses_config s) (cc_encodings (ses_client s)) = EncodingZlib \<and> cc_pixelFormat (ses_client s) = pf \<and>
     sc_PixelFormat (ses_config s) = serverPf \<and> server_ok serverPf \<and> zsync z inflate (cc_zlib (ses_client s)) d"

lemma same_setting_plain:
  "plain_session s i out \<Longrightarrow> same_setting s s' \<Longrightarrow> cc_conn (ses_client s') = live i out' \<Longrightarrow> plain_session s' i out'"
  by (simp add: plain_session_def same_setting_def)

interpretation srv_tight_session: answering_server z "tight_ready z inflate jpeg L close" "tight_decoder L inflate" "shows_close close"
  for z inflate jpeg L close
proof
  fix s :: "(Tight, 'h) session" and i out d w h px st req dirty bounds cursor and pic :: picture
  assume r: "tight_ready z inflate jpeg L close s i out d"
  then show "cc_conn (ses_client s) = live i out \<and> sc_hasCapturer (ses_config s)" by (simp add: tight_ready_def plain_session_def)
  assume f: "screen_frame w h px st" "valid_request w h req dirty"
  obtain me where me: "sc_NewTightEncoder (ses_config s) = Some me" "me_EncodeMulti me = EncodeMulti z jpeg"
      "tight_sync z inflate jpeg L close (tight_state me s) d" and pl: "plain_session s i out" "sc_hasCapturer (ses_config s)"
      "bestEncoding (ses_config s) (cc_encodings (ses_client s)) = EncodingTight"
    using r by (auto simp: tight_ready_def)
  obtain rects s' pic' d' where e: "encodeAndSendFrame z bounds cursor req px st dirty s = (Inr (), s')" "same_setting s s'"
      "cc_conn (ses_client s') = live i (out @ enc_FramebufferUpdate rects)" "view_rects (tight_decoder L inflate) d rects pic = (pic', d')"
      "tight_sync z inflate jpeg L close (tight_state me s') d'" "shows_region (shows_close close) px st (wanted req dirty) pic' pic"
    using tight_frame_sent [OF pl(1,3) me f] by blast
  have "tight_ready z inflate jpeg L close s' i (out @ enc_FramebufferUpdate rects) d'"
    using same_setting_plain [OF pl(1) e(2,3)] pl(2,3) me e(2,5) by (simp add: tight_ready_def same_setting_def)
  then show "\<exists>rects s' pic' d'. encodeAndSendFrame z bounds cursor req px st dirty s = (Inr (), s') \<and>
      tight_ready z inflate jpeg L close s' i (out @ enc_FramebufferUpdate rects) d' \<and>
      view_rects (tight_decoder L inflate) d rects pic = (pic', d') \<and> shows_region (shows_close close) px st (wanted req dirty) pic' pic"
    using e(1,4,6) by blast
qed

interpretation srv_zlib_session: answering_server z "zlib_ready z inflate pf serverPf" "pf_zlib_decoder pf inflate" "shows_as pf serverPf"
  for z inflate pf serverPf
proof
  fix s :: "('t, 'h) session" and i out d w h px st req dirty bounds cursor and pic :: picture
  assume r: "zlib_ready z inflate pf serverPf s i out d"
  then show "cc_conn (ses_client s) = live i out \<and> sc_hasCapturer (ses_config s)" by (simp add: zlib_ready_def plain_session_def)
  assume f: "screen_frame w h px st" "valid_request w h req dirty"
  have pl: "plain_session s i out" "sc_hasCapturer (ses_config s)" "bestEncoding (ses_config s) (cc_encodings (ses_client s)) = EncodingZlib"
    and pf: "cc_pixelFormat (ses_client s) = pf" "sc_PixelFormat (ses_config s) = serverPf"
    and ok: "server_ok (sc_PixelFormat (ses_config s))" "zsync z inflate (cc_zlib (ses_client s)) d"
    using r by (auto simp: zlib_ready_def)
  obtain rects s' pic' d' where e: "encodeAndSendFrame z bounds cursor req px st dirty s = (Inr (), s')" "same_setting s s'"
      "cc_conn (ses_client s') = live i (out @ enc_FramebufferUpdate rects)" "view_rects (pf_zlib_decoder pf inflate) d rects pic = (pic', d')"
      "zsync z inflate (cc_zlib (ses_client s')) d'" "shows_region (shows_as pf serverPf) px st (wanted req dirty) pic' pic"
    using zlib_frame_sent [OF pl(1,3) ok f] unfolding pf by blast
  have "zlib_ready z inflate pf serverPf s' i (out @ enc_FramebufferUpdate rects) d'"
    using same_setting_plain [OF pl(1) e(2,3)] pl(2,3) pf ok(1) e(2,5) by (simp add: zlib_ready_def same_setting_def)
  then show "\<exists>rects s' pic' d'. encodeAndSendFrame z bounds cursor req px st dirty s = (Inr (), s') \<and>
      zlib_ready z inflate pf serverPf s' i (out @ enc_FramebufferUpdate rects) d' \<and>
      view_rects (pf_zlib_decoder pf inflate) d rects pic = (pic', d') \<and> shows_region (shows_as pf serverPf) px st (wanted req dirty) pic' pic"
    using e(1,4,6) by blast
qed

section \<open>Properties\<close>

text \<open>A connection after the handshake and the client's choice of encodings.\<close>

definition new_session :: "('t, 'h) ServerConfig \<Rightarrow> i32 list \<Rightarrow> PixelFormat \<Rightarrow> bytes \<Rightarrow> bytes \<Rightarrow> ('t, 'h) session" where
  "new_session c encs pf i out =
     \<lparr>ses_config = c, ses_client = (newClientConn c (live i out))\<lparr>cc_encodings := encs, cc_pixelFormat := pf\<rparr>\<rparr>"

text \<open>
  C10: A client with the Tight encoding shows the screen of the server. The capture goroutine and the frame writer of a connection take turns in any order;
  captures may fail; requests, incremental or not, ask for the whole screen. When the writer has answered a request, everything it has sent since the connection began, and
  nothing else, is a sequence of framebuffer updates, and a client that decodes their rectangles one after the other with the four decompressors of Tight shows, on the whole screen and up to the loss
  of JPEG, the last frame that was captured. The comparison of frames, the choice of regions, the tiles, the four streams and the sending are those of the server. The client supports neither the cursor nor
  the desktop-size encoding, and the size of the screen stays the same.
\<close>

theorem tight_session_shows_last_frame:
  assumes "zlib_ok z inflate" and "zlib_small z" and "jpeg_ok jpeg L close"
    and "sc_hasCapturer c" and "sc_NewTightEncoder c = Some me" and "me_new me = NewTight quality" and "me_EncodeMulti me = EncodeMulti z jpeg"
    and "bestEncoding c encs = EncodingTight" and "\<not> supportsDesktopSize encs" and "\<not> supportsCursor encs"
    and "0 < unat h * st" and "unat w * 4 \<le> st" and "list_all (srv_event_ok w h st) (es @ [Asked req])" and "last_captured es None = Some (px, st)"
  shows "\<exists>p' s' updates pic' d'.
    serve_events z (w, h) cursor (es @ [Asked req]) (PipelinedCapturer_Start fps NewPipelinedCapturer) (new_session c encs pf i out) = Inr (p', s') \<and>
    cc_conn (ses_client s') = live i (out @ concat (map enc_FramebufferUpdate updates)) \<and>
    view_rects (tight_decoder L inflate) (replicate 4 []) (concat updates) pic = (pic', d') \<and>
    (\<forall>x y. x < unat w \<and> y < unat h \<longrightarrow> shows_close close (pic' x y) (pixel_at st px x y))"
proof -
  have "zsync z inflate zlibStream_new []" using assms(1) by (simp add: zsync_def zlibStream_new_def)
  then have "tight_sync z inflate jpeg L close (NewTight quality) (replicate 4 [])"
    using assms(2,3) by (simp add: tight_sync_def streams_sync_def NewTight_def Let_def)
  then have "tight_ready z inflate jpeg L close (new_session c encs pf i out) i out (replicate 4 [])"
    using assms(4-10) by (simp add: tight_ready_def new_session_def plain_session_def newClientConn_def tight_state_def)
  from srv_tight_session.session_shows_last_frame [OF this assms(11-14), of cursor fps pic] show ?thesis
    unfolding shows_screen_def by blast
qed

theorem tight_session_shows_last_frame_witness:
  "\<exists>p' s' updates pic' d'.
    serve_events stored (2, 1) None ([Captured (Inr ([1,2,3,4,5,6,7,8], 8)), Asked demo_request, Captured (Inl EOF),
        Captured (Inr ([1,2,3,4,9,6,7,8], 8))] @ [Asked demo_request])
      (PipelinedCapturer_Start 30 NewPipelinedCapturer) (new_session demo_config [EncodingTight] DefaultPixelFormat [] []) = Inr (p', s') \<and>
    cc_conn (ses_client s') = live [] ([] @ concat (map enc_FramebufferUpdate updates)) \<and>
    view_rects (tight_decoder plain_libs (\<lambda>b. b)) (replicate 4 []) (concat updates) (\<lambda>i j. []) = (pic', d') \<and>
    (\<forall>x y. x < unat (2 :: u16) \<and> y < unat (1 :: u16) \<longrightarrow> shows_close (=) (pic' x y) (pixel_at 8 [1,2,3,4,9,6,7,8] x y))"
  by (rule tight_session_shows_last_frame [OF stored_ok stored_small plain_jpeg_ok, where
        me = "\<lparr>me_new = NewTight 75, me_EncodeMulti = EncodeMulti stored plain_jpeg, me_Reset = \<lambda>t. t\<rparr>" and quality = 75])
    (use demo_plain [of EncodingTight] in \<open>simp_all add: demo_config_def demo_request_def full_request_def plain_session_def demo_session_simps\<close>)

text \<open>
  C15: A client with the Zlib encoding shows the screen of the server exactly. The capture goroutine and the frame writer take turns in any order, captures may fail, requests ask for
  the whole screen. When the writer has answered a request, all it has sent since the connection began is a sequence of framebuffer updates, and their rectangles, decompressed with the one stream of the
  connection, give a picture that shows the last captured frame on the whole screen, every pixel in the format the client has chosen. The client supports neither the cursor nor
  the desktop-size encoding, and the size of the screen stays the same.
\<close>

theorem zlib_session_shows_last_frame:
  assumes "zlib_ok z inflate" and "server_ok (sc_PixelFormat c)"
    and "sc_hasCapturer c" and "bestEncoding c encs = EncodingZlib" and "\<not> supportsDesktopSize encs" and "\<not> supportsCursor encs"
    and "0 < unat h * st" and "unat w * 4 \<le> st" and "list_all (srv_event_ok w h st) (es @ [Asked req])" and "last_captured es None = Some (px, st)"
  shows "\<exists>p' s' updates pic' d'.
    serve_events z (w, h) cursor (es @ [Asked req]) (PipelinedCapturer_Start fps NewPipelinedCapturer) (new_session c encs pf i out) = Inr (p', s') \<and>
    cc_conn (ses_client s') = live i (out @ concat (map enc_FramebufferUpdate updates)) \<and>
    view_rects (pf_zlib_decoder pf inflate) [] (concat updates) pic = (pic', d') \<and>
    (\<forall>x y. x < unat w \<and> y < unat h \<longrightarrow> shows_as pf (sc_PixelFormat c) (pic' x y) (pixel_at st px x y))"
proof -
  have "zsync z inflate zlibStream_new []" using assms(1) by (simp add: zsync_def zlibStream_new_def)
  then have "zlib_ready z inflate pf (sc_PixelFormat c) (new_session c encs pf i out) i out []"
    using assms(2-6) by (simp add: zlib_ready_def new_session_def plain_session_def newClientConn_def)
  from srv_zlib_session.session_shows_last_frame [OF this assms(7-10), of cursor fps pic] show ?thesis
    unfolding shows_screen_def by blast
qed

theorem zlib_session_shows_last_frame_witness:
  "\<exists>p' s' updates pic' d'.
    serve_events stored (2, 1) None ([Captured (Inr ([1,2,3,4,5,6,7,8], 8)), Asked demo_request, Captured (Inr ([1,2,3,4,9,6,7,8], 8))] @ [Asked demo_request])
      (PipelinedCapturer_Start 30 NewPipelinedCapturer)
      (new_session demo_config [EncodingZlib] (DefaultPixelFormat\<lparr>RedShift := 0, BlueShift := 16\<rparr>) [] []) = Inr (p', s') \<and>
    cc_conn (ses_client s') = live [] ([] @ concat (map enc_FramebufferUpdate updates)) \<and>
    view_rects (pf_zlib_decoder (DefaultPixelFormat\<lparr>RedShift := 0, BlueShift := 16\<rparr>) (\<lambda>b. b)) [] (concat updates) (\<lambda>i j. []) = (pic', d') \<and>
    (\<forall>x y. x < unat (2 :: u16) \<and> y < unat (1 :: u16) \<longrightarrow>
      shows_as (DefaultPixelFormat\<lparr>RedShift := 0, BlueShift := 16\<rparr>) (sc_PixelFormat demo_config) (pic' x y) (pixel_at 8 [1,2,3,4,9,6,7,8] x y))"
  by (rule zlib_session_shows_last_frame [OF stored_ok])
    (use demo_plain [of EncodingZlib] demo_ok(3) in \<open>simp_all add: demo_config_def demo_request_def full_request_def plain_session_def demo_session_simps\<close>)

end
