(* ===== verification/Zrle.thy ===== *)
theory Zrle
  imports Encodings
begin

text \<open>
  \<^verbatim>\<open>rfb/encodings/zrle.go\<close>: the ZRLE encoder of the encodings package, with solid, palette and raw
  tiles, and a decoder after the description of the encoding (RFC 6143, 7.7.6).
\<close>

section \<open>Tiles\<close>

definition zrleTileSize :: nat where "zrleTileSize = 64"

definition ZRLE_Type :: i32 where "ZRLE_Type = EncodingZRLE"

text \<open>The tiles in the order of the loops, in the coordinates of the frame.\<close>

definition zrle_tile_list :: "nat \<Rightarrow> nat \<Rightarrow> nat \<Rightarrow> nat \<Rightarrow> (nat \<times> nat \<times> nat \<times> nat) list" where
  "zrle_tile_list x y w h = map (\<lambda>(tx, ty, tw, th). (x + tx, y + ty, tw, th)) (rect_tiles zrleTileSize w h)"

text \<open>The pixels of a tile without their fourth byte.\<close>

definition zrle_cpixel :: "bytes \<Rightarrow> nat \<Rightarrow> nat \<Rightarrow> nat \<Rightarrow> bytes res" where
  "zrle_cpixel pixels stride srcX srcY =
     (let srcOff = srcY * stride + srcX * 4 in
      if srcOff + 3 \<ge> length pixels then Inl (Errorf ''pixel data out of bounds'' [])
      else Inr [pixels ! srcOff, pixels ! (srcOff + 1), pixels ! (srcOff + 2)])"

definition tile_cpixels :: "bytes \<Rightarrow> nat \<Rightarrow> nat \<times> nat \<times> nat \<times> nat \<Rightarrow> bytes res" where
  "tile_cpixels pixels stride t =
     (case t of (tileX, tileY, tileW, tileH) \<Rightarrow>
        rbind (mapM (\<lambda>(row, col). zrle_cpixel pixels stride (tileX + col) (tileY + row))
                (List.product [0..<tileH] [0..<tileW])) (\<lambda>cs. Inr (concat cs)))"

definition colour_at :: "bytes \<Rightarrow> nat \<Rightarrow> bytes" where
  "colour_at tilePixels i = take 3 (drop (i * 3) tilePixels)"

text \<open>
  The map from a colour to its number, as the list of the colours in the order of their numbers;
  the loop breaks when a 129th colour is met.
\<close>

fun count_colours :: "bytes list \<Rightarrow> bytes list \<Rightarrow> bytes list" where
  "count_colours [] colorSet = colorSet"
| "count_colours (c # cs) colorSet =
     (if c \<in> set colorSet then count_colours cs colorSet
      else if length colorSet \<ge> 128 then colorSet
      else count_colours cs (colorSet @ [c]))"

fun colour_index :: "bytes list \<Rightarrow> bytes \<Rightarrow> nat" where
  "colour_index [] c = 0"
| "colour_index (d # ds) c = (if c = d then 0 else Suc (colour_index ds c))"

definition bitsPerIndex :: "nat \<Rightarrow> nat" where
  "bitsPerIndex paletteSize = (if paletteSize = 2 then 1 else if paletteSize \<le> 4 then 2 else 4)"

text \<open>The bytes of one row of indices; the last byte is padded.\<close>

fun pack_row :: "nat \<Rightarrow> u8 list \<Rightarrow> u8 \<Rightarrow> nat \<Rightarrow> bytes" where
  "pack_row bits [] currentByte bitsUsed =
     (if bitsUsed > 0 then [push_bit (8 - bitsUsed) currentByte] else [])"
| "pack_row bits (idx # rest) currentByte bitsUsed =
     (let currentByte = push_bit bits currentByte OR (idx AND (push_bit bits 1 - 1));
          bitsUsed = bitsUsed + bits in
      if bitsUsed = 8 then currentByte # pack_row bits rest 0 0
      else pack_row bits rest currentByte bitsUsed)"

definition row_indices :: "bytes \<Rightarrow> nat \<Rightarrow> bytes list \<Rightarrow> nat \<Rightarrow> u8 list" where
  "row_indices tilePixels tileW colorSet row =
     map (\<lambda>col. of_nat (colour_index colorSet (colour_at tilePixels (row * tileW + col)))) [0..<tileW]"

text \<open>What each kind of tile writes to the compressor, write by write.\<close>

definition encodeSolid :: "bytes \<Rightarrow> bytes list" where
  "encodeSolid tilePixels = [[1], take 3 tilePixels]"

definition encodeRaw :: "bytes \<Rightarrow> nat \<Rightarrow> bytes list" where
  "encodeRaw tilePixels numPixels = [[0], take (numPixels * 3) tilePixels]"

definition encodePackedPalette :: "bytes \<Rightarrow> nat \<Rightarrow> nat \<Rightarrow> bytes list \<Rightarrow> bytes list" where
  "encodePackedPalette tilePixels tileW tileH colorSet =
     [[of_nat (length colorSet)]] @ colorSet @
     concat (map (\<lambda>row. map (\<lambda>b. [b]) (pack_row (bitsPerIndex (length colorSet)) (row_indices tilePixels tileW colorSet row) 0 0))
       [0..<tileH])"

definition tile_writes :: "bytes \<Rightarrow> nat \<Rightarrow> nat \<Rightarrow> bytes list" where
  "tile_writes tilePixels tileW tileH =
     (let colorSet = count_colours (map (colour_at tilePixels) [0..<tileW * tileH]) [];
          uniqueColors = length colorSet in
      if uniqueColors = 1 then encodeSolid tilePixels
      else if 2 \<le> uniqueColors \<and> uniqueColors \<le> 16 then encodePackedPalette tilePixels tileW tileH colorSet
      else encodeRaw tilePixels (tileW * tileH))"

definition zrle_encodeTile :: "deflater \<Rightarrow> bytes \<Rightarrow> nat \<Rightarrow> nat \<times> nat \<times> nat \<times> nat \<Rightarrow> (zlibStream, unit) prog" where
  "zrle_encodeTile z pixels stride t =
     bind_io (lift_res (tile_cpixels pixels stride t)) (\<lambda>tilePixels.
     case t of (tileX, tileY, tileW, tileH) \<Rightarrow>
       seq_io (map (\<lambda>b. zdo z (ZWrite b)) (tile_writes tilePixels tileW tileH)))"

definition ZRLE_Encode ::
  "deflater \<Rightarrow> u16 \<Rightarrow> u16 \<Rightarrow> u16 \<Rightarrow> u16 \<Rightarrow> bytes \<Rightarrow> nat \<Rightarrow> (zlibStream, Rectangle) prog" where
  "ZRLE_Encode z x y width height pixels stride =
     bind_io zopen (\<lambda>_.
     bind_io zclear (\<lambda>_.
     bind_io (seq_io (map (\<lambda>t. wrap ''zrle encode tile: %w'' (zrle_encodeTile z pixels stride t))
        (zrle_tile_list (unat x) (unat y) (unat width) (unat height)))) (\<lambda>_.
     bind_io (wrap ''zrle zlib flush: %w'' (zdo z ZFlush)) (\<lambda>_.
     bind_io get_state (\<lambda>s.
     ret (mkRect x y width height EncodingZRLE (be32 (of_nat (length (zs_buf s))) @ zs_buf s)))))))"

definition ZRLE_Reset :: "deflater \<Rightarrow> (zlibStream, unit) prog" where
  "ZRLE_Reset z = zlibStream_reset z"

section \<open>A decoder\<close>

text \<open>The numbers of one row, of \<open>bits\<close> bits each, from the most significant bit of each byte on.\<close>

definition unpack_row :: "nat \<Rightarrow> nat \<Rightarrow> bytes \<Rightarrow> nat list" where
  "unpack_row bits w row =
     map (\<lambda>col. unat (drop_bit (8 - bits - col * bits mod 8) (row ! (col * bits div 8)) AND (push_bit bits 1 - 1))) [0..<w]"

definition row_bytes :: "nat \<Rightarrow> nat \<Rightarrow> nat" where
  "row_bytes bits w = (w * bits + 7) div 8"

text \<open>The colours of a tile and what follows it; \<open>None\<close> for a subencoding the encoder does not use.\<close>

definition zrle_decode_tile :: "nat \<Rightarrow> nat \<Rightarrow> bytes \<Rightarrow> (bytes list \<times> bytes) option" where
  "zrle_decode_tile w h bs =
     (case bs of
        [] \<Rightarrow> None
      | s # bs \<Rightarrow>
          let n = unat s in
          if n = 0 then Some (map (colour_at bs) [0..<w * h], drop (w * h * 3) bs)
          else if n = 1 then Some (replicate (w * h) (take 3 bs), drop 3 bs)
          else if n \<le> 16 then
            let palette = map (colour_at bs) [0..<n]; bits = bitsPerIndex n; k = row_bytes bits w; data = drop (n * 3) bs in
            Some (concat (map (\<lambda>row. map ((!) palette) (unpack_row bits w (take k (drop (row * k) data)))) [0..<h]), drop (h * k) data)
          else None)"

fun zrle_decode_tiles :: "(nat \<times> nat \<times> nat \<times> nat) list \<Rightarrow> bytes \<Rightarrow> bytes list list option" where
  "zrle_decode_tiles [] bs = (if bs = [] then Some [] else None)"
| "zrle_decode_tiles ((tx, ty, w, h) # ts) bs =
     (case zrle_decode_tile w h bs of
        None \<Rightarrow> None
      | Some (cs, rest) \<Rightarrow> map_option ((#) cs) (zrle_decode_tiles ts rest))"

section \<open>Packed rows\<close>

text \<open>A byte as its bits, the most significant one first, and a packed index likewise.\<close>

definition low_bits :: "nat \<Rightarrow> u8 \<Rightarrow> bool list" where
  "low_bits n b = map (bit b) (rev [0..<n])"

lemma length_low_bits [simp]: "length (low_bits n b) = n"
  by (simp add: low_bits_def)

lemma low_bits_nth: "k < n \<Longrightarrow> low_bits n b ! k = bit b (n - 1 - k)"
  by (simp add: low_bits_def rev_nth)

lemma bit_mask8: "bit (2 ^ n - 1 :: u8) k \<longleftrightarrow> k < n \<and> k < 8"
  by (simp add: mask_eq_exp_minus_1 [symmetric] bit_mask_iff) auto

lemma low_bits_push:
  assumes "used + bits \<le> 8"
  shows "low_bits (used + bits) (push_bit bits cur OR (idx AND (push_bit bits 1 - 1))) = low_bits used cur @ low_bits bits idx"
proof (rule nth_equalityI)
  fix k
  assume "k < length (low_bits (used + bits) (push_bit bits cur OR (idx AND (push_bit bits 1 - 1))))"
  then have k: "k < used + bits" by simp
  then have "used + bits - 1 - k < 8" using assms by simp
  then show "low_bits (used + bits) (push_bit bits cur OR (idx AND (push_bit bits 1 - 1))) ! k = (low_bits used cur @ low_bits bits idx) ! k"
    using k by (cases "k < used") (auto simp: low_bits_nth nth_append bit_or_iff bit_and_iff bit_push_bit_iff bit_mask8 algebra_simps)
qed simp

lemma low_bits_pad:
  assumes "used \<le> 8"
  shows "low_bits 8 (push_bit (8 - used) cur) = low_bits used cur @ replicate (8 - used) False"
proof (rule nth_equalityI)
  fix k
  assume "k < length (low_bits 8 (push_bit (8 - used) cur))"
  then have k: "k < 8" by simp
  then show "low_bits 8 (push_bit (8 - used) cur) ! k = (low_bits used cur @ replicate (8 - used) False) ! k"
    using assms by (cases "k < used") (auto simp: low_bits_nth nth_append bit_push_bit_iff algebra_simps)
qed (use assms in simp)

abbreviation index_width :: "nat \<Rightarrow> bool" where
  "index_width bits \<equiv> bits \<in> {1, 2, 4}"

lemma used_step:
  assumes "index_width bits" and "used mod bits = 0" and "used < 8"
  shows "used + bits \<le> 8" "(used + bits) mod bits = 0"
proof -
  have "used \<in> {0, 1, 2, 3, 4, 5, 6, 7}" using assms(3) by auto
  then show "used + bits \<le> 8" using assms(1,2) by auto
  show "(used + bits) mod bits = 0" using assms(2) by simp
qed

lemma pack_row_bits:
  assumes "index_width bits" and "used mod bits = 0" and "used < 8"
  shows "\<exists>pad. concat (map (low_bits 8) (pack_row bits xs cur used)) = low_bits used cur @ concat (map (low_bits bits) xs) @ pad \<and> length pad < 8"
  using assms
proof (induction xs arbitrary: cur used)
  case Nil
  then show ?case using low_bits_pad [of used cur] by (cases "used = 0") (auto simp: low_bits_def)
next
  case (Cons i xs)
  define cur' where "cur' = push_bit bits cur OR (i AND (push_bit bits 1 - 1))"
  note u = used_step [OF Cons.prems]
  have low: "low_bits (used + bits) cur' = low_bits used cur @ low_bits bits i" unfolding cur'_def by (rule low_bits_push [OF u(1)])
  show ?case
  proof (cases "used + bits = 8")
    case True
    then have "pack_row bits (i # xs) cur used = cur' # pack_row bits xs 0 0" by (simp add: cur'_def Let_def)
    moreover obtain pad where "concat (map (low_bits 8) (pack_row bits xs 0 0)) = low_bits 0 0 @ concat (map (low_bits bits) xs) @ pad" "length pad < 8"
      using Cons.IH [of 0 0] Cons.prems(1) by auto
    ultimately show ?thesis using low True by (intro exI [of _ pad]) (simp add: low_bits_def [of 0])
  next
    case False
    then have step: "pack_row bits (i # xs) cur used = pack_row bits xs cur' (used + bits)" by (simp add: cur'_def Let_def)
    obtain pad where "concat (map (low_bits 8) (pack_row bits xs cur' (used + bits))) =
        low_bits (used + bits) cur' @ concat (map (low_bits bits) xs) @ pad" "length pad < 8"
      using Cons.IH [OF Cons.prems(1) u(2), of cur'] u(1) False by auto
    then show ?thesis using low step by auto
  qed
qed

text \<open>The bits of the bytes, in turn, are those of the indices, in turn.\<close>

lemma concat_map_length: "(\<And>x. length (f x) = n) \<Longrightarrow> length (concat (map f xs)) = n * length xs"
  by (induction xs) auto

lemma pack_row_length:
  assumes "index_width bits"
  shows "length (pack_row bits xs 0 0) = row_bytes bits (length xs)"
proof -
  obtain pad where pad: "concat (map (low_bits 8) (pack_row bits xs 0 0)) = low_bits 0 0 @ concat (map (low_bits bits) xs) @ pad" "length pad < 8"
    using pack_row_bits [OF assms, of 0 xs 0] by auto
  have "8 * length (pack_row bits xs 0 0) = bits * length xs + length pad"
    using arg_cong [OF pad(1), of length] by (simp add: concat_map_length)
  then show ?thesis using pad(2) by (simp add: row_bytes_def mult.commute)
qed

lemma unpack_pack:
  assumes "index_width bits" and "\<And>i. i \<in> set xs \<Longrightarrow> unat i < 2 ^ bits"
  shows "unpack_row bits (length xs) (pack_row bits xs 0 0) = map unat xs"
proof (rule nth_equalityI)
  show "length (unpack_row bits (length xs) (pack_row bits xs 0 0)) = length (map unat xs)" by (simp add: unpack_row_def)
next
  fix col
  assume "col < length (unpack_row bits (length xs) (pack_row bits xs 0 0))"
  then have col: "col < length xs" by (simp add: unpack_row_def)
  let ?row = "pack_row bits xs 0 0" and ?q = "col * bits div 8" and ?r = "col * bits mod 8"
  obtain pad where pad: "concat (map (low_bits 8) ?row) = concat (map (low_bits bits) xs) @ pad"
    using pack_row_bits [OF assms(1), of 0 xs 0] by (auto simp: low_bits_def [of 0])
  have r: "?r + bits \<le> 8"
    by (rule used_step(1) [OF assms(1)]) (use assms(1) in \<open>auto simp: mod_mod_cancel\<close>)
  have q: "?q < length ?row"
  proof -
    have "(col + 1) * bits \<le> length xs * bits" using col by (intro mult_le_mono1) simp
    then have "col * bits < length xs * bits" using assms(1) by auto
    then show ?thesis unfolding pack_row_length [OF assms(1)] row_bytes_def by linarith
  qed
  have "drop_bit (8 - bits - ?r) (?row ! ?q) AND (push_bit bits 1 - 1) = xs ! col"
  proof (rule bit_word_eqI)
    fix n
    assume "n < LENGTH(8)"
    then have n: "n < 8" by simp
    show "bit (drop_bit (8 - bits - ?r) (?row ! ?q) AND (push_bit bits 1 - 1)) n = bit (xs ! col) n"
    proof (cases "n < bits")
      case True
      have "bit (?row ! ?q) (8 - bits - ?r + n) = low_bits 8 (?row ! ?q) ! (?r + (bits - 1 - n))"
      proof -
        have "8 - 1 - (?r + (bits - 1 - n)) = 8 - bits - ?r + n" using r True by linarith
        moreover have "?r + (bits - 1 - n) < 8" using r True by linarith
        ultimately show ?thesis using low_bits_nth by metis
      qed
      also have "\<dots> = concat (map (low_bits 8) ?row) ! (?q * 8 + (?r + (bits - 1 - n)))"
        using q r True by (subst concat_nth_block [where n = 8]) auto
      also have "\<dots> = concat (map (low_bits bits) xs) ! (col * bits + (bits - 1 - n))"
      proof -
        have "col * bits + (bits - 1 - n) < length (concat (map (low_bits bits) xs))"
        proof -
          have "(col + 1) * bits \<le> length xs * bits" using col by (intro mult_le_mono1) simp
          then show ?thesis using True by (simp add: concat_map_length algebra_simps)
        qed
        moreover have "?q * 8 + (?r + (bits - 1 - n)) = col * bits + (bits - 1 - n)" by simp
        ultimately show ?thesis unfolding pad by (simp add: nth_append)
      qed
      also have "\<dots> = bit (xs ! col) n"
        using col True by (subst concat_nth_block [where n = bits]) (auto simp: low_bits_nth)
      finally show ?thesis using True n by (simp add: bit_and_iff bit_drop_bit_eq bit_mask8)
    next
      case False
      have "unat (xs ! col) < 2 ^ bits" using assms(2) col by simp
      then have "take_bit bits (unat (xs ! col)) = unat (xs ! col)" by (simp add: take_bit_nat_eq_self)
      then have "\<not> bit (unat (xs ! col)) n" using False by (metis bit_take_bit_iff)
      then show ?thesis using False by (simp add: bit_and_iff bit_mask8 bit_unsigned_iff n)
    qed
  qed
  then show "unpack_row bits (length xs) ?row ! col = map unat xs ! col" using col by (simp add: unpack_row_def)
qed


section \<open>Tiles are decoded\<close>

lemma concat_block_append:
  assumes "\<And>x. x \<in> set xs \<Longrightarrow> length x = n" and "i < length xs"
  shows "take n (drop (i * n) (concat xs @ rest)) = xs ! i"
proof -
  have "length (concat xs) = length xs * n" using assms(1) by (rule concat_const_length)
  moreover have "i * n + n \<le> length xs * n" using assms(2) by (metis Suc_leI mult_le_mono1 mult_Suc add.commute)
  ultimately have "i * n + n \<le> length (concat xs)" by linarith
  then show ?thesis using concat_block [OF assms] by simp
qed

lemma concat_rows: "concat (map (\<lambda>row. map (\<lambda>col. f (row * w + col)) [0..<w]) [0..<h]) = map f [0..<w * h]"
proof (induction h)
  case 0
  then show ?case by simp
next
  case (Suc h)
  have "map (\<lambda>col. f (h * w + col)) [0..<w] = map f [w * h..<w * h + w]"
    by (rule nth_equalityI) (simp_all add: mult.commute)
  moreover have "[0..<w * Suc h] = [0..<w * h] @ [w * h..<w * h + w]"
    using upt_add_eq_append [of 0 "w * h" w] by (simp add: add.commute)
  ultimately show ?case using Suc by simp
qed

lemma count_colours_subset: "set (count_colours cs acc) \<subseteq> set cs \<union> set acc"
  by (induction cs acc rule: count_colours.induct) auto

lemma count_colours_all: "length (count_colours cs acc) < 128 \<Longrightarrow> set (count_colours cs acc) = set cs \<union> set acc"
  by (induction cs acc rule: count_colours.induct) (auto split: if_splits)

lemma colour_index_in: "c \<in> set cs \<Longrightarrow> colour_index cs c < length cs \<and> cs ! colour_index cs c = c"
  by (induction cs) auto

lemma bitsPerIndex_width: "2 \<le> n \<Longrightarrow> n \<le> 16 \<Longrightarrow> index_width (bitsPerIndex n) \<and> n \<le> 2 ^ bitsPerIndex n"
  by (auto simp: bitsPerIndex_def)

lemma row_indices_decoded:
  assumes "2 \<le> length cs" and "length cs \<le> 16" and "\<And>col. col < w \<Longrightarrow> colour_at px (row * w + col) \<in> set cs"
  shows "map ((!) cs) (unpack_row (bitsPerIndex (length cs)) w (pack_row (bitsPerIndex (length cs)) (row_indices px w cs row) 0 0)) =
    map (\<lambda>col. colour_at px (row * w + col)) [0..<w]"
proof -
  let ?ix = "\<lambda>col. colour_index cs (colour_at px (row * w + col))"
  have ix: "?ix col < length cs" "cs ! ?ix col = colour_at px (row * w + col)" if "col < w" for col
    using colour_index_in [OF assms(3) [OF that]] by auto
  have un: "unat (of_nat (?ix col) :: u8) = ?ix col" if "col < w" for col
    using ix(1) [OF that] assms(2) by (simp add: unat_of_nat)
  have "unpack_row (bitsPerIndex (length cs)) (length (row_indices px w cs row))
      (pack_row (bitsPerIndex (length cs)) (row_indices px w cs row) 0 0) = map unat (row_indices px w cs row)"
  proof (rule unpack_pack)
    show "index_width (bitsPerIndex (length cs))" using bitsPerIndex_width assms(1,2) by blast
    fix i assume "i \<in> set (row_indices px w cs row)"
    then obtain col where "col < w" "i = of_nat (?ix col)" by (auto simp: row_indices_def)
    then have "unat i < length cs" using un ix(1) by simp
    then show "unat i < 2 ^ bitsPerIndex (length cs)" using bitsPerIndex_width [OF assms(1,2)] by linarith
  qed
  then show ?thesis using un ix(2) by (simp add: row_indices_def)
qed

lemma palette_decoded:
  fixes px w h
  defines "cs \<equiv> count_colours (map (colour_at px) [0..<w * h]) []"
  assumes "length px = w * h * 3" and "2 \<le> length cs" and "length cs \<le> 16"
  shows "zrle_decode_tile w h (concat (encodePackedPalette px w h cs) @ rest) = Some (map (colour_at px) [0..<w * h], rest)"
proof -
  let ?n = "length cs" and ?bits = "bitsPerIndex (length cs)"
  let ?k = "row_bytes ?bits w" and ?row = "\<lambda>row. pack_row ?bits (row_indices px w cs row) 0 0"
  let ?data = "concat (map ?row [0..<h])"
  have all: "set cs = set (map (colour_at px) [0..<w * h])"
    unfolding cs_def by (subst count_colours_all) (use assms(4) in \<open>auto simp: cs_def\<close>)
  have three: "length c = 3" if c: "c \<in> set cs" for c
  proof -
    obtain i where "i < w * h" "c = colour_at px i" using c unfolding all by auto
    then show ?thesis using assms(2) by (simp add: colour_at_def)
  qed
  have n: "unat (of_nat ?n :: u8) = ?n" using assms(4) by (simp add: unat_of_nat)
  have width: "index_width ?bits" using bitsPerIndex_width assms(3,4) by blast
  have rows: "length (?row row) = ?k" for row using pack_row_length [OF width] by (simp add: row_indices_def)
  have pal: "map (colour_at (concat cs @ ?data @ rest)) [0..<?n] = cs"
  proof (rule nth_equalityI)
    fix i assume "i < length (map (colour_at (concat cs @ ?data @ rest)) [0..<?n])"
    then have i: "i < ?n" by simp
    then show "map (colour_at (concat cs @ ?data @ rest)) [0..<?n] ! i = cs ! i"
      using concat_block_append [OF three i] by (simp add: colour_at_def del: drop_append take_append)
  qed simp
  have lc: "length (concat cs) = ?n * 3" using three by (rule concat_const_length)
  have ld: "length ?data = h * ?k" using rows by (subst concat_const_length [where n = ?k]) auto
  have row: "take ?k (drop (row * ?k) (?data @ rest)) = ?row row" if "row < h" for row
    using concat_block_append [of "map ?row [0..<h]" ?k row rest] rows that by auto
  have "colour_at px (row * w + col) \<in> set cs" if "row < h" "col < w" for row col
  proof -
    have "(row + 1) * w \<le> h * w" using that(1) by (intro mult_le_mono1) simp
    then show ?thesis using that(2) unfolding all by (auto simp: algebra_simps)
  qed
  then have "map (\<lambda>row. map ((!) cs) (unpack_row ?bits w (take ?k (drop (row * ?k) (?data @ rest))))) [0..<h] =
      map (\<lambda>row. map (\<lambda>col. colour_at px (row * w + col)) [0..<w]) [0..<h]"
    using row row_indices_decoded [OF assms(3,4)] by auto
  then have "concat (map (\<lambda>row. map ((!) cs) (unpack_row ?bits w (take ?k (drop (row * ?k) (?data @ rest))))) [0..<h]) =
      map (colour_at px) [0..<w * h]" by (simp only: concat_rows [of "colour_at px" w h])
  moreover have "concat (encodePackedPalette px w h cs) = of_nat ?n # concat cs @ ?data"
    by (simp add: encodePackedPalette_def concat_concat_map comp_def concat_map_singleton)
  moreover have "drop (h * ?k) (?data @ rest) = rest" using ld by simp
  moreover have "cs \<noteq> []" using assms(3) by auto
  ultimately show ?thesis using n pal lc assms(3,4) by (simp add: zrle_decode_tile_def Let_def)
qed

lemma tile_decoded:
  assumes "length px = w * h * 3" and "0 < w * h"
  shows "zrle_decode_tile w h (concat (tile_writes px w h) @ rest) = Some (map (colour_at px) [0..<w * h], rest)"
proof -
  let ?cols = "map (colour_at px) [0..<w * h]"
  let ?cs = "count_colours ?cols []"
  consider (solid) "length ?cs = 1" | (palette) "2 \<le> length ?cs" "length ?cs \<le> 16"
    | (raw) "length ?cs \<noteq> 1" "\<not> (2 \<le> length ?cs \<and> length ?cs \<le> 16)" by blast
  then show ?thesis
  proof cases
    case solid
    then obtain c where c: "?cs = [c]" by (auto simp: length_Suc_conv)
    then have "set ?cols = {c}" using count_colours_all [of ?cols "[]"] by auto
    moreover have "colour_at px i \<in> set ?cols" if "i < w * h" for i using that by simp
    ultimately have all: "colour_at px i = c" if "i < w * h" for i using that by blast
    have "colour_at px 0 = c" by (rule all) (use assms(2) in simp)
    then have "take 3 px = c" by (simp add: colour_at_def)
    moreover from this have "length c = 3" using assms by (cases "w * h") auto
    moreover have "?cols = replicate (w * h) c" using all by (intro nth_equalityI) auto
    ultimately show ?thesis using solid by (simp add: tile_writes_def encodeSolid_def zrle_decode_tile_def Let_def)
  next
    case palette
    then show ?thesis using palette_decoded [OF assms(1)] by (simp add: tile_writes_def Let_def)
  next
    case raw
    have "colour_at (px @ rest) i = colour_at px i" if "i < w * h" for i
      using that assms(1) by (simp add: colour_at_def)
    moreover have "tile_writes px w h = encodeRaw px (w * h)" using raw by (auto simp: tile_writes_def Let_def)
    ultimately show ?thesis using assms(1) by (simp add: encodeRaw_def zrle_decode_tile_def)
  qed
qed

section \<open>The pixels of a tile\<close>

definition tile_px :: "bytes \<Rightarrow> nat \<Rightarrow> nat \<times> nat \<times> nat \<times> nat \<Rightarrow> bytes" where
  "tile_px pixels stride = (\<lambda>(tx, ty, tw, th). concat (map (\<lambda>(row, col). take 3 (pixel_at stride pixels (tx + col) (ty + row)))
     (List.product [0..<th] [0..<tw])))"

lemma frame_pixel_bound:
  assumes "frame_has pixels stride tx ty tw th" and "row < th" and "col < tw"
  shows "(ty + row) * stride + (tx + col) * 4 + 4 \<le> length pixels"
  using frame_hasD [OF assms(1,2)] assms(3) by (simp add: algebra_simps)

lemma zrle_cpixel_Inr:
  assumes "y * stride + x * 4 + 4 \<le> length pixels"
  shows "zrle_cpixel pixels stride x y = Inr (take 3 (pixel_at stride pixels x y))"
proof -
  have "take 3 (pixel_at stride pixels x y) = map ((!) pixels) [y * stride + x * 4..<y * stride + x * 4 + 3]"
    using assms by (intro nth_equalityI) (auto simp: pixel_at_def)
  also have "\<dots> = [pixels ! (y * stride + x * 4), pixels ! (y * stride + x * 4 + 1), pixels ! (y * stride + x * 4 + 2)]"
    by (simp add: upt_conv_Cons numeral_3_eq_3)
  finally show ?thesis using assms by (simp add: zrle_cpixel_def Let_def)
qed

lemma tile_cpixels_Inr:
  assumes "frame_has pixels stride tx ty tw th"
  shows "tile_cpixels pixels stride (tx, ty, tw, th) = Inr (tile_px pixels stride (tx, ty, tw, th))"
proof -
  have "mapM (\<lambda>(row, col). zrle_cpixel pixels stride (tx + col) (ty + row)) (List.product [0..<th] [0..<tw]) =
      Inr (map (\<lambda>(row, col). take 3 (pixel_at stride pixels (tx + col) (ty + row))) (List.product [0..<th] [0..<tw]))"
    by (rule mapM_total) (auto intro!: zrle_cpixel_Inr frame_pixel_bound [OF assms])
  then show ?thesis by (simp add: tile_cpixels_def tile_px_def)
qed

lemma tile_px_colours:
  assumes "frame_has pixels stride tx ty tw th"
  shows "length (tile_px pixels stride (tx, ty, tw, th)) = tw * th * 3"
    and "i < tw \<Longrightarrow> j < th \<Longrightarrow>
      colour_at (tile_px pixels stride (tx, ty, tw, th)) (j * tw + i) = take 3 (pixel_at stride pixels (tx + i) (ty + j))"
proof -
  let ?f = "\<lambda>(row, col). take 3 (pixel_at stride pixels (tx + col) (ty + row))" and ?ps = "List.product [0..<th] [0..<tw]"
  have three: "length c = 3" if "c \<in> set (map ?f ?ps)" for c
    using that frame_pixel_bound [OF assms] by (fastforce simp: pixel_at_def)
  then have "length (concat (map ?f ?ps)) = length (map ?f ?ps) * 3" by (rule concat_const_length)
  then show "length (tile_px pixels stride (tx, ty, tw, th)) = tw * th * 3" by (simp add: tile_px_def length_product mult.commute)
  assume ij: "i < tw" "j < th"
  have "(j + 1) * tw \<le> th * tw" using ij(2) by (intro mult_le_mono1) simp
  then have n: "j * tw + i < th * tw" using ij(1) by simp
  then have "colour_at (concat (map ?f ?ps)) (j * tw + i) = map ?f ?ps ! (j * tw + i)"
    unfolding colour_at_def by (intro concat_block three) (simp_all add: length_product)
  also have "\<dots> = ?f (j, i)" using n ij by (simp add: product_nth length_product)
  finally show "colour_at (tile_px pixels stride (tx, ty, tw, th)) (j * tw + i) = take 3 (pixel_at stride pixels (tx + i) (ty + j))"
    by (simp add: tile_px_def)
qed

section \<open>ZRLE implements the contract\<close>

lemma seq_io_append: "seq_io (ms @ ns) = bind_io (seq_io ms) (\<lambda>_. seq_io ns)"
  by (induction ms) (simp_all add: bind_ret_left bind_io_assoc)

lemma seq_io_concat: "seq_io (map (\<lambda>t. seq_io (g t)) ts) = seq_io (concat (map g ts))"
  by (induction ts) (simp_all add: seq_io_append)

lemma wrap_zdo_seq: "wrap m (seq_io (map (zdo z) ops)) = seq_io (map (zdo z) ops)"
proof
  fix s
  show "wrap m (seq_io (map (zdo z) ops)) s = seq_io (map (zdo z) ops) s"
  proof (cases "zs_writer s")
    case None
    then show ?thesis by (cases ops) (auto simp: wrap_def ret_def bind_io_def zdo_def)
  next
    case (Some h)
    then show ?thesis using zdo_seq [of z ops "zs_buf s" h] by (cases s) (auto simp: wrap_def)
  qed
qed

definition tile_ops :: "bytes \<Rightarrow> nat \<Rightarrow> nat \<times> nat \<times> nat \<times> nat \<Rightarrow> bytes list" where
  "tile_ops pixels stride t = (case t of (tx, ty, tw, th) \<Rightarrow> tile_writes (tile_px pixels stride t) tw th)"

definition tile_colours :: "bytes \<Rightarrow> nat \<Rightarrow> nat \<times> nat \<times> nat \<times> nat \<Rightarrow> bytes list" where
  "tile_colours pixels stride t = (case t of (tx, ty, tw, th) \<Rightarrow> map (colour_at (tile_px pixels stride t)) [0..<tw * th])"

lemma zrle_tile_in:
  assumes "frame_has pixels stride x y w h" and "(tx, ty, tw, th) \<in> set (rect_tiles zrleTileSize w h)"
  shows "frame_has pixels stride (x + tx) (y + ty) tw th" and "0 < tw * th"
proof -
  have b: "tx + tw \<le> w" "ty + th \<le> h" "tx < w" "ty < h" using rect_tiles_within [OF assms(2)] by auto
  then show "frame_has pixels stride (x + tx) (y + ty) tw th" using frame_has_sub [OF assms(1)] by blast
  show "0 < tw * th" using assms(2) b by (auto simp: rect_tiles_iff zrleTileSize_def)
qed

lemma ZRLE_Encode_zframe:
  assumes "frame_has pixels stride (unat x) (unat y) (unat w) (unat h)"
  shows "ZRLE_Encode z x y w h pixels stride =
     bind_io (zframe z (concat (map (tile_ops pixels stride) (zrle_tile_list (unat x) (unat y) (unat w) (unat h)))))
       (\<lambda>b. ret (mkRect x y w h EncodingZRLE (be32 (of_nat (length b)) @ b)))"
proof -
  let ?ts = "zrle_tile_list (unat x) (unat y) (unat w) (unat h)"
  have "wrap ''zrle encode tile: %w'' (zrle_encodeTile z pixels stride t) = seq_io (map (zdo z) (map ZWrite (tile_ops pixels stride t)))"
    if tin: "t \<in> set ?ts" for t
  proof -
    obtain tx ty tw th where t: "t = (unat x + tx, unat y + ty, tw, th)" "(tx, ty, tw, th) \<in> set (rect_tiles zrleTileSize (unat w) (unat h))"
      using tin by (auto simp: zrle_tile_list_def)
    have "zrle_encodeTile z pixels stride t = seq_io (map (zdo z) (map ZWrite (tile_ops pixels stride t)))"
      using tile_cpixels_Inr [OF zrle_tile_in(1) [OF assms t(2)]] t(1)
      by (simp add: zrle_encodeTile_def bind_lift_Inr tile_ops_def comp_def)
    then show ?thesis by (simp only: wrap_zdo_seq)
  qed
  then have "seq_io (map (\<lambda>t. wrap ''zrle encode tile: %w'' (zrle_encodeTile z pixels stride t)) ?ts) =
      seq_io (map (\<lambda>t. seq_io (map (zdo z) (map ZWrite (tile_ops pixels stride t)))) ?ts)" by (rule seq_io_cong)
  also have "\<dots> = seq_io (map (zdo z) (map ZWrite (concat (map (tile_ops pixels stride) ?ts))))"
    by (simp add: seq_io_concat map_concat comp_def)
  finally show ?thesis
    by (simp add: ZRLE_Encode_def zframe_def wrap_zdo_Some bind_io_assoc bind_ret_left)
qed

lemma zrle_tiles_decoded:
  assumes "frame_has pixels stride x y w h" and "set ts \<subseteq> set (rect_tiles zrleTileSize w h)"
  shows "zrle_decode_tiles ts (concat (concat (map (\<lambda>(tx, ty, tw, th). tile_ops pixels stride (x + tx, y + ty, tw, th)) ts))) =
     Some (map (\<lambda>(tx, ty, tw, th). tile_colours pixels stride (x + tx, y + ty, tw, th)) ts)"
  using assms(2)
proof (induction ts)
  case Nil
  then show ?case by simp
next
  case (Cons t ts)
  obtain tx ty tw th where t: "t = (tx, ty, tw, th)" by (metis prod_cases4)
  note f = zrle_tile_in [OF assms(1), of tx ty tw th]
  have "(tx, ty, tw, th) \<in> set (rect_tiles zrleTileSize w h)" using Cons.prems t by simp
  then show ?case using Cons tile_decoded [OF tile_px_colours(1) [OF f(1)] f(2)]
    by (simp add: t tile_ops_def tile_colours_def)
qed

text \<open>A viewer of ZRLE rectangles, with one decompressor; it finds the tile of a point.\<close>

definition zrle_picture :: "(nat \<times> nat \<times> nat \<times> nat) list \<Rightarrow> bytes list list \<Rightarrow> picture" where
  "zrle_picture ts cs i j =
     (case find (\<lambda>(t, c). inside (tile_rect t) (int i) (int j)) (zip ts cs) of
        None \<Rightarrow> []
      | Some ((tx, ty, tw, th), c) \<Rightarrow> c ! ((j - ty) * tw + (i - tx)))"

definition zrle_decoder :: "(bytes \<Rightarrow> bytes) \<Rightarrow> bytes decoder" where
  "zrle_decoder inflate d r =
     (let b = drop 4 (rect_Data r);
          ts = rect_tiles zrleTileSize (unat (hdr_Width (rect_Header r))) (unat (hdr_Height (rect_Header r))) in
      (case zrle_decode_tiles ts (inflate_next inflate d b) of
         None \<Rightarrow> (\<lambda>i j. [])
       | Some cs \<Rightarrow> zrle_picture ts cs, d @ b))"

lemma find_SomeD: "find P xs = Some x \<Longrightarrow> x \<in> set xs \<and> P x"
  by (auto simp: find_Some_iff)

lemma zrle_picture_pixel:
  assumes "frame_has pixels stride x y w h" and "i < w" and "j < h"
  shows "zrle_picture (rect_tiles zrleTileSize w h)
     (map (\<lambda>(tx, ty, tw, th). tile_colours pixels stride (x + tx, y + ty, tw, th)) (rect_tiles zrleTileSize w h)) i j =
     take 3 (pixel_at stride pixels (x + i) (y + j))"
proof -
  let ?ts = "rect_tiles zrleTileSize w h" and ?c = "\<lambda>(tx, ty, tw, th). tile_colours pixels stride (x + tx, y + ty, tw, th)"
  let ?P = "\<lambda>(t, c). inside (tile_rect t) (int i) (int j)"
  have zip: "zip ?ts (map ?c ?ts) = map (\<lambda>t. (t, ?c t)) ?ts" by (simp add: zip_map2 zip_same_conv_map)
  obtain t0 where "t0 \<in> set ?ts" "inside (tile_rect t0) (int i) (int j)"
    using rect_tiles_cover [of zrleTileSize i w j h] assms(2,3) by (auto simp: zrleTileSize_def)
  then have "(t0, ?c t0) \<in> set (map (\<lambda>t. (t, ?c t)) ?ts)" "?P (t0, ?c t0)" by simp_all
  then have "find ?P (map (\<lambda>t. (t, ?c t)) ?ts) \<noteq> None" using find_None_iff [of ?P "map (\<lambda>t. (t, ?c t)) ?ts"] by blast
  then obtain p where p: "find ?P (map (\<lambda>t. (t, ?c t)) ?ts) = Some p" by blast
  obtain tx ty tw th where t: "p = ((tx, ty, tw, th), ?c (tx, ty, tw, th))" "(tx, ty, tw, th) \<in> set ?ts"
      "inside (tile_rect (tx, ty, tw, th)) (int i) (int j)"
    using find_SomeD [OF p] by auto
  note ft = zrle_tile_in(1) [OF assms(1) t(2)]
  have ij: "tx \<le> i" "i - tx < tw" "ty \<le> j" "j - ty < th" using t(3) by (auto simp: inside_tile_rect)
  have "(j - ty + 1) * tw \<le> th * tw" using ij(4) by (intro mult_le_mono1) simp
  then have "(j - ty) * tw + (i - tx) < tw * th" using ij(2) by (simp add: algebra_simps)
  then have "tile_colours pixels stride (x + tx, y + ty, tw, th) ! ((j - ty) * tw + (i - tx)) = take 3 (pixel_at stride pixels (x + i) (y + j))"
    using tile_px_colours(2) [OF ft ij(2,4)] ij(1,3) by (simp add: tile_colours_def)
  then show ?thesis unfolding zrle_picture_def zip p t(1) by simp
qed

definition ZRLE_encode :: "deflater \<Rightarrow> area16 \<Rightarrow> bytes \<Rightarrow> nat \<Rightarrow> (zlibStream, Rectangle list) prog" where
  "ZRLE_encode z a pixels stride =
     (case a of (x, y, w, h) \<Rightarrow> bind_io (ZRLE_Encode z x y w h pixels stride) (\<lambda>r. ret [r]))"

text \<open>Outside the frame: some tile has a pixel that is missing, and the tiles before it succeed.\<close>

abbreviation oob :: goerr where
  "oob \<equiv> Errorf ''pixel data out of bounds'' []"

lemma mapM_error: "x \<in> set xs \<Longrightarrow> f x = Inl e \<Longrightarrow> (\<And>x. (\<exists>y. f x = Inr y) \<or> f x = Inl e) \<Longrightarrow> mapM f xs = Inl e"
proof (induction xs)
  case Nil
  then show ?case by simp
next
  case (Cons a xs)
  show ?case using Cons.prems(3) [of a] Cons by (cases "f a") auto
qed

lemma tile_cpixels_cases: "(\<exists>px. tile_cpixels pixels stride t = Inr px) \<or> tile_cpixels pixels stride t = Inl oob"
proof -
  obtain tx ty tw th where t: "t = (tx, ty, tw, th)" by (metis prod_cases4)
  let ?f = "\<lambda>(row, col). zrle_cpixel pixels stride (tx + col) (ty + row)" and ?ps = "List.product [0..<th] [0..<tw]"
  have c: "(\<exists>y. ?f x = Inr y) \<or> ?f x = Inl oob" for x by (cases x) (simp add: zrle_cpixel_def Let_def)
  show ?thesis
  proof (cases "\<exists>x \<in> set ?ps. ?f x = Inl oob")
    case True
    then obtain x where "x \<in> set ?ps" "?f x = Inl oob" by blast
    then have "mapM ?f ?ps = Inl oob" by (rule mapM_error) (rule c)
    then show ?thesis by (simp add: t tile_cpixels_def)
  next
    case False
    then obtain ys where "mapM ?f ?ps = Inr ys" using mapM_ex [of ?ps ?f] c by blast
    then show ?thesis by (simp add: t tile_cpixels_def)
  qed
qed

lemma seq_tiles_fail:
  assumes "t \<in> set ts" and "tile_cpixels pixels stride t = Inl oob" and "zs_writer s \<noteq> None"
  shows "\<exists>s'. seq_io (map (\<lambda>t. wrap m (zrle_encodeTile z pixels stride t)) ts) s = (Inl (wrap_err m [] oob), s')"
  using assms(1,3)
proof (induction ts arbitrary: s)
  case Nil
  then show ?case by simp
next
  case (Cons u ts)
  from tile_cpixels_cases [of pixels stride u] show ?case
  proof
    assume "tile_cpixels pixels stride u = Inl oob"
    then show ?thesis by (simp add: zrle_encodeTile_def wrap_def bind_io_def lift_res_def)
  next
    assume "\<exists>px. tile_cpixels pixels stride u = Inr px"
    then obtain px where px: "tile_cpixels pixels stride u = Inr px" by blast
    then have t: "t \<in> set ts" using Cons.prems(1) assms(2) by auto
    obtain tx ty tw th where u: "u = (tx, ty, tw, th)" by (metis prod_cases4)
    have "wrap m (zrle_encodeTile z pixels stride u) = seq_io (map (zdo z) (map ZWrite (tile_writes px tw th)))"
      using px by (simp add: u zrle_encodeTile_def bind_lift_Inr comp_def wrap_zdo_seq [of m z "map ZWrite (tile_writes px tw th)", simplified, unfolded comp_def])
    moreover obtain h where "zs_writer s = Some h" using Cons.prems(2) by blast
    ultimately obtain s1 where "wrap m (zrle_encodeTile z pixels stride u) s = (Inr (), s1)" "zs_writer s1 \<noteq> None"
      using zdo_seq [of z "map ZWrite (tile_writes px tw th)" "zs_buf s" h] by (cases s) auto
    then show ?thesis using Cons.IH [OF t] by (simp add: bind_io_def)
  qed
qed

lemma zrle_oob_tile:
  assumes "\<not> frame_has pixels stride x y w h" and "0 < w"
  shows "\<exists>t \<in> set (zrle_tile_list x y w h). tile_cpixels pixels stride t = Inl oob"
proof -
  obtain row where row: "row < h" "length pixels < (y + row) * stride + x * 4 + w * 4"
    using assms(1) by (auto simp: frame_has_def not_le)
  obtain t where t: "t \<in> set (rect_tiles zrleTileSize w h)" "inside (tile_rect t) (int (w - 1)) (int row)"
    using rect_tiles_cover [of zrleTileSize "w - 1" w row h] row(1) assms(2) by (auto simp: zrleTileSize_def)
  obtain tx ty tw th where e: "t = (tx, ty, tw, th)" by (metis prod_cases4)
  have b: "tx \<le> w - 1" "w - 1 < tx + tw" "ty \<le> row" "row < ty + th" using t(2) unfolding e inside_tile_rect by auto
  let ?f = "\<lambda>(r, c). zrle_cpixel pixels stride (x + tx + c) (y + ty + r)"
  have "length pixels \<le> (y + ty + (row - ty)) * stride + (x + tx + (w - 1 - tx)) * 4 + 3"
    using row(2) b assms(2) by (simp add: algebra_simps)
  then have "?f (row - ty, w - 1 - tx) = Inl oob" by (simp add: zrle_cpixel_def Let_def)
  moreover have "(row - ty, w - 1 - tx) \<in> set (List.product [0..<th] [0..<tw])" using b by auto
  ultimately have "mapM ?f (List.product [0..<th] [0..<tw]) = Inl oob"
    by (intro mapM_error [where x = "(row - ty, w - 1 - tx)"]) (auto simp: zrle_cpixel_def Let_def)
  then have "tile_cpixels pixels stride (x + tx, y + ty, tw, th) = Inl oob" by (simp add: tile_cpixels_def)
  moreover have "(x + tx, y + ty, tw, th) \<in> set (zrle_tile_list x y w h)" using t(1) e by (force simp: zrle_tile_list_def)
  ultimately show ?thesis by blast
qed

interpretation zrle: rect_encoder "ZRLE_encode z" "zrle_decoder inflate" "zsync z inflate" "\<lambda>q p. q = take 3 p"
  for z inflate
proof
  fix s d pixels stride a and pic :: picture
  assume sync: "zsync z inflate s d" and "area_ok pixels stride a"
  then obtain x y w h where a: "a = (x, y, w, h)"
    and f: "frame_has pixels stride (unat x) (unat y) (unat w) (unat h)"
    by (cases a) (auto simp: area_ok_def)
  let ?ts = "rect_tiles zrleTileSize (unat w) (unat h)"
  let ?ws = "concat (map (tile_ops pixels stride) (zrle_tile_list (unat x) (unat y) (unat w) (unat h)))"
  obtain b s' where b: "zframe z ?ws s = (Inr b, s')" "zsync z inflate s' (d @ b)" "inflate_next inflate d b = concat ?ws"
    using zframe_sync [OF sync, of ?ws] by blast
  let ?r = "mkRect x y w h EncodingZRLE (be32 (of_nat (length b)) @ b)"
  let ?cs = "map (\<lambda>(tx, ty, tw, th). tile_colours pixels stride (unat x + tx, unat y + ty, tw, th)) ?ts"
  have run: "ZRLE_encode z a pixels stride s = (Inr [?r], s')"
    using b(1) by (simp add: a ZRLE_encode_def ZRLE_Encode_zframe [OF f] conn_simps)
  have "?ws = concat (map (\<lambda>(tx, ty, tw, th). tile_ops pixels stride (unat x + tx, unat y + ty, tw, th)) ?ts)"
    by (simp add: zrle_tile_list_def comp_def case_prod_beta')
  then have "zrle_decode_tiles ?ts (inflate_next inflate d b) = Some ?cs"
    using zrle_tiles_decoded [OF f, of ?ts] b(3) by simp
  moreover have "shows_region (\<lambda>q p. q = take 3 p) pixels stride (inside (area_rect (x, y, w, h)))
      (paint ?r (zrle_picture ?ts ?cs) pic) pic"
    by (rule paint_region_shows [OF f]) (rule zrle_picture_pixel [OF f])
  ultimately show "\<exists>rects s' pic' d'. ZRLE_encode z a pixels stride s = (Inr rects, s') \<and>
      view_rects (zrle_decoder inflate) d rects pic = (pic', d') \<and> zsync z inflate s' d' \<and>
      shows_region (\<lambda>q p. q = take 3 p) pixels stride (inside (area_rect a)) pic' pic"
    using run b(2) by (auto simp: a zrle_decoder_def Let_def)
next
  fix s :: zlibStream and d :: bytes and x y w h :: u16 and pixels stride
  let ?m = "''zrle encode tile: %w''"
  assume "0 < unat w" and "\<not> frame_has pixels stride (unat x) (unat y) (unat w) (unat h)"
  then obtain t where t: "t \<in> set (zrle_tile_list (unat x) (unat y) (unat w) (unat h))" "tile_cpixels pixels stride t = Inl oob"
    using zrle_oob_tile by blast
  let ?s = "(if zs_writer s = None then s\<lparr>zs_writer := Some []\<rparr> else s)\<lparr>zs_buf := []\<rparr>"
  have "zs_writer ?s \<noteq> None" by simp
  from seq_tiles_fail [OF t this, of ?m z] obtain s' where
    "seq_io (map (\<lambda>t. wrap ?m (zrle_encodeTile z pixels stride t)) (zrle_tile_list (unat x) (unat y) (unat w) (unat h))) ?s
      = (Inl (wrap_err ?m [] oob), s')" by blast
  then have "ZRLE_encode z (x, y, w, h) pixels stride s = (Inl (wrap_err ?m [] oob), s')"
    by (simp add: ZRLE_encode_def ZRLE_Encode_def zopen_def zclear_def conn_simps)
  then show "\<exists>e s'. ZRLE_encode z (x, y, w, h) pixels stride s = (Inl e, s') \<and> \<not> is_panic (Inl e :: unit res)"
    by (intro exI [of _ "wrap_err ?m [] oob"] exI [of _ s']) simp
qed

section \<open>Properties\<close>

text \<open>
  C22: One ZRLE encoder and one client decompressor stay in step over any sequence of updates: every
  tile, whether solid, packed with a palette of up to sixteen colours or raw, is decoded to the
  three colour bytes of the pixels of the frame, and the client shows after each update exactly
  that update's frame in the regions and its previous picture elsewhere.
\<close>

theorem ZRLE_stream_shows_updates:
  assumes "zlib_ok z inflate"
    and "\<And>as px st. (as, px, st) \<in> set updates \<Longrightarrow> \<forall>a \<in> set as. area_ok px st a"
  shows "\<exists>rects s'. encode_updates (ZRLE_encode z) updates zlibStream_new = (Inr rects, s') \<and>
           updates_shown (\<lambda>q p. q = take 3 p) updates (view_updates (zrle_decoder inflate) [] rects pic) pic"
  by (rule zrle.encode_updates_show) (use assms in \<open>auto simp: zsync_def zlibStream_new_def\<close>)

theorem ZRLE_stream_shows_updates_witness:
  "\<exists>rects s'. encode_updates (ZRLE_encode stored)
       [([(0, 0, 2, 1)], [1,2,3,4,5,6,7,8], 8), ([(1, 0, 1, 1)], [5,6,7,8,9,9,9,9], 8)] zlibStream_new = (Inr rects, s') \<and>
     updates_shown (\<lambda>q p. q = take 3 p) [([(0, 0, 2, 1)], [1,2,3,4,5,6,7,8], 8), ([(1, 0, 1, 1)], [5,6,7,8,9,9,9,9], 8)]
       (view_updates (zrle_decoder (\<lambda>b. b)) [] rects (\<lambda>i j. [])) (\<lambda>i j. [])"
  by (rule ZRLE_stream_shows_updates [OF stored_ok]) (auto simp: area_ok_def frame_has_def)

end
