(* ===== verification/Ownership.thy ===== *)
theory Ownership
  imports Prelude "HOL-Library.Multiset"
begin

text \<open>
  Programs that hold references to objects of another system: COM interfaces, device contexts,
  X images, shared memory. A program runs in the multiset of the references held at the moment and
  is stuck, \<^const>\<open>None\<close>, when it gives back or uses a reference that is not held, or accesses memory outside a block.
  \<open>own_runs\<close> is the weakest precondition of such a program for a property of its result and the
  references held afterwards. The locale \<open>lifecycle_owner\<close> is the contract of an object that is initialised,
  used and closed; what it holds is a function of its fields.
\<close>

named_theorems own_simps \<open>preconditions of programs with references\<close>

section \<open>Programs\<close>

type_synonym ('r, 'a) own = "'r multiset \<Rightarrow> ('a \<times> 'r multiset) option"

definition own_ret :: "'a \<Rightarrow> ('r, 'a) own" where
  "own_ret x = (\<lambda>m. Some (x, m))"

definition own_bind :: "('r, 'a) own \<Rightarrow> ('a \<Rightarrow> ('r, 'b) own) \<Rightarrow> ('r, 'b) own" where
  "own_bind c f = (\<lambda>m. case c m of None \<Rightarrow> None | Some (x, m') \<Rightarrow> f x m')"

definition own_seq :: "('r, unit) own \<Rightarrow> ('r, 'b) own \<Rightarrow> ('r, 'b) own" where
  "own_seq c d = own_bind c (\<lambda>_. d)"

definition own_lift :: "'a option \<Rightarrow> ('r, 'a) own" where
  "own_lift v = (\<lambda>m. map_option (\<lambda>x. (x, m)) v)"

definition acquire :: "'r \<Rightarrow> ('r, unit) own" where
  "acquire r = (\<lambda>m. Some ((), add_mset r m))"

definition release :: "'r \<Rightarrow> ('r, unit) own" where
  "release r = (\<lambda>m. if r \<in># m then Some ((), m - {#r#}) else None)"

definition touch :: "'r \<Rightarrow> ('r, unit) own" where
  "touch r = (\<lambda>m. if r \<in># m then Some ((), m) else None)"

text \<open>\<^verbatim>\<open>defer\<close>: the first program runs when the function returns.\<close>

definition own_defer :: "('r, unit) own \<Rightarrow> ('r, 'a) own \<Rightarrow> ('r, 'a) own" where
  "own_defer fin c = own_bind c (\<lambda>x. own_seq fin (own_ret x))"

section \<open>Weakest preconditions\<close>

definition own_runs :: "('r, 'a) own \<Rightarrow> 'r multiset \<Rightarrow> ('a \<Rightarrow> 'r multiset \<Rightarrow> bool) \<Rightarrow> bool" where
  "own_runs c m Q \<longleftrightarrow> (case c m of None \<Rightarrow> False | Some (x, m') \<Rightarrow> Q x m')"

lemma runs_ret [own_simps]: "own_runs (own_ret x) m Q \<longleftrightarrow> Q x m"
  by (simp add: own_runs_def own_ret_def)

lemma own_runs_bind [own_simps]: "own_runs (own_bind c f) m Q \<longleftrightarrow> own_runs c m (\<lambda>x m'. own_runs (f x) m' Q)"
  by (auto simp: own_runs_def own_bind_def split: option.splits)

lemma runs_seq [own_simps]: "own_runs (own_seq c d) m Q \<longleftrightarrow> own_runs c m (\<lambda>_ m'. own_runs d m' Q)"
  by (simp add: own_seq_def own_runs_bind)

lemma runs_lift [own_simps]: "own_runs (own_lift v) m Q \<longleftrightarrow> (case v of None \<Rightarrow> False | Some x \<Rightarrow> Q x m)"
  by (auto simp: own_runs_def own_lift_def split: option.splits)

lemma runs_acquire [own_simps]: "own_runs (acquire r) m Q \<longleftrightarrow> Q () (add_mset r m)"
  by (simp add: own_runs_def acquire_def)

lemma runs_release [own_simps]: "own_runs (release r) m Q \<longleftrightarrow> r \<in># m \<and> Q () (m - {#r#})"
  by (simp add: own_runs_def release_def)

lemma runs_touch [own_simps]: "own_runs (touch r) m Q \<longleftrightarrow> r \<in># m \<and> Q () m"
  by (simp add: own_runs_def touch_def)

lemma runs_defer [own_simps]: "own_runs (own_defer fin c) m Q \<longleftrightarrow> own_runs c m (\<lambda>x m'. own_runs fin m' (\<lambda>_. Q x))"
  by (simp add: own_defer_def own_runs_bind runs_seq runs_ret)

lemma runs_if [own_simps]: "own_runs (if b then c else d) m Q \<longleftrightarrow> (if b then own_runs c m Q else own_runs d m Q)"
  by simp

lemma runs_mono: "own_runs c m Q \<Longrightarrow> (\<And>x m'. Q x m' \<Longrightarrow> Q' x m') \<Longrightarrow> own_runs c m Q'"
  by (auto simp: own_runs_def split: option.splits)

lemma runs_conj: "own_runs c m Q \<Longrightarrow> own_runs c m Q' \<Longrightarrow> own_runs c m (\<lambda>x m'. Q x m' \<and> Q' x m')"
  by (auto simp: own_runs_def split: option.splits)

lemma runs_result: "own_runs c m Q \<Longrightarrow> \<exists>x m'. c m = Some (x, m') \<and> Q x m'"
  by (auto simp: own_runs_def split: option.splits)

text \<open>Every result of the program has the property, wherever it runs.\<close>

definition gives :: "('r, 'a) own \<Rightarrow> ('a \<Rightarrow> bool) \<Rightarrow> bool" where
  "gives c P \<longleftrightarrow> (\<forall>m x m'. c m = Some (x, m') \<longrightarrow> P x)"

lemma gives_ret: "P x \<Longrightarrow> gives (own_ret x) P"
  by (simp add: gives_def own_ret_def)

lemma gives_bind: "gives c R \<Longrightarrow> (\<And>x. R x \<Longrightarrow> gives (f x) P) \<Longrightarrow> gives (own_bind c f) P"
  unfolding gives_def own_bind_def by (fastforce split: option.splits)

lemma gives_seq: "gives d P \<Longrightarrow> gives (own_seq c d) P"
  by (auto simp: gives_def own_seq_def own_bind_def split: option.splits)

lemma gives_defer: "gives c P \<Longrightarrow> gives (own_defer fin c) P"
  unfolding own_defer_def by (erule gives_bind) (rule gives_seq, rule gives_ret)

section \<open>Initialise, use, close\<close>

text \<open>
  A client of such an object: it initialises it, uses it as often as it likes while that succeeded, and
  closes it. Every use returns its value and the object.
\<close>

fun uses :: "('u \<Rightarrow> 's \<Rightarrow> ('r, 'a \<times> 's) own) \<Rightarrow> 'u list \<Rightarrow> 's \<Rightarrow> ('r, 'a list \<times> 's) own" where
  "uses use [] s = own_ret ([], s)"
| "uses use (u # us) s =
     own_bind (use u s) (\<lambda>(a, s'). own_bind (uses use us s') (\<lambda>(as, s''). own_ret (a # as, s'')))"

definition lifecycle :: "('e \<Rightarrow> 's \<Rightarrow> ('r, unit res \<times> 's) own) \<Rightarrow> ('u \<Rightarrow> 's \<Rightarrow> ('r, 'a \<times> 's) own) \<Rightarrow>
    ('s \<Rightarrow> ('r, 's) own) \<Rightarrow> 'e \<Rightarrow> 'u list \<Rightarrow> 's \<Rightarrow> ('r, 'a list res \<times> 's) own" where
  "lifecycle init use close e us s =
     own_bind (init e s) (\<lambda>(r, s').
       case r of
         Inl err \<Rightarrow> own_ret (Inl err, s')
       | Inr _ \<Rightarrow> own_bind (uses use us s') (\<lambda>(as, s''). own_bind (close s'') (\<lambda>s3. own_ret (Inr as, s3))))"

locale lifecycle_owner =
  fixes held :: "'s \<Rightarrow> 'r multiset"
    and env_ok :: "'e \<Rightarrow> bool" and use_ok :: "'u \<Rightarrow> 's \<Rightarrow> bool" and ready :: "'s \<Rightarrow> bool"
    and init :: "'e \<Rightarrow> 's \<Rightarrow> ('r, unit res \<times> 's) own"
    and use :: "'u \<Rightarrow> 's \<Rightarrow> ('r, 'a \<times> 's) own"
    and close :: "'s \<Rightarrow> ('r, 's) own"
    and fresh :: 's
  assumes fresh_held: "held fresh = {#}"
    and init_law: "env_ok e \<Longrightarrow> own_runs (init e fresh) m (\<lambda>(r, s) m'. m' = m + held s \<and> (case r of Inl _ \<Rightarrow> held s = {#} | Inr _ \<Rightarrow> ready s))"
    and use_law: "ready s \<Longrightarrow> use_ok u s \<Longrightarrow>
      own_runs (use u s) (m + held s) (\<lambda>(a, s') m'. m' = m + held s' \<and> ready s' \<and> (\<forall>u. use_ok u s' \<longleftrightarrow> use_ok u s))"
    and close_law: "ready s \<Longrightarrow> own_runs (close s) (m + held s) (\<lambda>s' m'. m' = m \<and> held s' = {#})"
begin

lemma uses_law:
  assumes "ready s" and "\<And>u. u \<in> set us \<Longrightarrow> use_ok u s"
  shows "own_runs (uses use us s) (m + held s) (\<lambda>(as, s') m'. m' = m + held s' \<and> ready s' \<and> length as = length us)"
  using assms
proof (induction us arbitrary: s)
  case Nil
  then show ?case by (simp add: own_simps)
next
  case (Cons u us)
  have "own_runs (use u s) (m + held s) (\<lambda>(a, s') m'. m' = m + held s' \<and> ready s' \<and> (\<forall>u. use_ok u s' \<longleftrightarrow> use_ok u s))"
    using Cons.prems by (intro use_law) auto
  then show ?case
  proof (subst uses.simps, subst own_runs_bind, elim runs_mono, clarify)
    fix a s' m'
    assume "ready s'" and "\<forall>u. use_ok u s' \<longleftrightarrow> use_ok u s"
    then have "own_runs (uses use us s') (m + held s') (\<lambda>(as, s'') m''. m'' = m + held s'' \<and> ready s'' \<and> length as = length us)"
      using Cons.prems by (intro Cons.IH) auto
    then show "own_runs (own_bind (uses use us s') (\<lambda>(as, s''). own_ret (a # as, s''))) (m + held s')
        (\<lambda>(as, s') m'. m' = m + held s' \<and> ready s' \<and> length as = length (u # us))"
      by (subst own_runs_bind, elim runs_mono) (auto simp: own_simps)
  qed
qed

text \<open>Whatever the environment answers, the client is never stuck and ends with the references it started with.\<close>

lemma no_leak:
  assumes "env_ok e" and "\<And>r s m'. init e fresh m = Some ((r, s), m') \<Longrightarrow> \<forall>u \<in> set us. use_ok u s"
  shows "own_runs (lifecycle init use close e us fresh) m (\<lambda>(r, s) m'. m' = m \<and> held s = {#})"
proof -
  obtain r s where i: "init e fresh m = Some ((r, s), m + held s)" and r: "case r of Inl _ \<Rightarrow> held s = {#} | Inr _ \<Rightarrow> ready s"
    using runs_result [OF init_law [OF assms(1)]] by blast
  have run: "own_runs (init e fresh) m Q \<longleftrightarrow> Q (r, s) (m + held s)" for Q by (simp add: own_runs_def i)
  show ?thesis
  proof (cases r)
    case (Inl err)
    then show ?thesis using r by (simp add: lifecycle_def own_runs_bind run runs_ret)
  next
    case (Inr x)
    have "own_runs (uses use us s) (m + held s) (\<lambda>(as, s') m'. m' = m + held s' \<and> ready s' \<and> length as = length us)"
      using r Inr assms(2) [of r s] i by (intro uses_law) auto
    then have "own_runs (uses use us s) (m + held s) (\<lambda>x m'. own_runs (case x of (as, s'') \<Rightarrow> own_bind (close s'') (\<lambda>s3. own_ret (Inr as, s3))) m'
        (\<lambda>(r, s) m'. m' = m \<and> held s = {#}))"
      by (elim runs_mono) (auto simp: own_runs_bind runs_ret intro: close_law)
    then show ?thesis using Inr by (simp add: lifecycle_def own_runs_bind run)
  qed
qed

end

end
