(* ===== verification/Memory.thy ===== *)
theory Memory
  imports Prelude
begin

text \<open>
  The memory operations that the screen capturers share: block copies, copies of rows between two
  strides, and the loop that makes the picture opaque. An access outside a block is the result
  \<^const>\<open>None\<close>; the lemmas give the bytes of the destination after a copy that stays inside.
\<close>

section \<open>Memory\<close>

definition memcpy :: "nat \<Rightarrow> bytes \<Rightarrow> nat \<Rightarrow> nat \<Rightarrow> bytes \<Rightarrow> bytes option" where
  "memcpy doff src soff n dst =
     (if doff + n \<le> length dst \<and> soff + n \<le> length src
      then Some (take doff dst @ take n (drop soff src) @ drop (doff + n) dst) else None)"

text \<open>\<^verbatim>\<open>for (y = 0; y < rows; y++) memcpy(dst + y*dstride, src + y*sstride, n)\<close>\<close>

fun copy_rows :: "nat \<Rightarrow> bytes \<Rightarrow> nat \<Rightarrow> nat \<Rightarrow> nat \<Rightarrow> nat \<Rightarrow> bytes \<Rightarrow> bytes option" where
  "copy_rows dstride src soff sstride n 0 dst = Some dst"
| "copy_rows dstride src soff sstride n (Suc rows) dst =
     Option.bind (copy_rows dstride src soff sstride n rows dst) (memcpy (rows * dstride) src (soff + rows * sstride) n)"

text \<open>\<^verbatim>\<open>for (i = 3; i < size; i += 4) dst[i] = 255\<close>\<close>

definition set_alpha :: "nat \<Rightarrow> bytes \<Rightarrow> bytes option" where
  "set_alpha size' dst =
     fold (\<lambda>i d. Option.bind d (\<lambda>d. if i < length d then Some (d[i := 255]) else None)) (loop_steps 3 size' 4) (Some dst)"

section \<open>Copying\<close>

lemma memcpy_nth:
  assumes "doff + n \<le> length dst" and "soff + n \<le> length src"
  obtains d where "memcpy doff src soff n dst = Some d" and "length d = length dst"
    and "\<And>i. i < length dst \<Longrightarrow> d ! i = (if doff \<le> i \<and> i < doff + n then src ! (soff + (i - doff)) else dst ! i)"
proof
  show "memcpy doff src soff n dst = Some (take doff dst @ take n (drop soff src) @ drop (doff + n) dst)"
    using assms by (simp add: memcpy_def)
  have len: "length (take n (drop soff src)) = n" "length (take doff dst) = doff" using assms by simp_all
  show "\<And>i. i < length dst \<Longrightarrow> (take doff dst @ take n (drop soff src) @ drop (doff + n) dst) ! i =
      (if doff \<le> i \<and> i < doff + n then src ! (soff + (i - doff)) else dst ! i)"
    using assms by (auto simp: nth_append len simp del: length_take)
qed (use assms in simp)

lemma copy_rows_nth:
  assumes "n \<le> dstride" and "0 < dstride" and "\<And>y. y < rows \<Longrightarrow> y * dstride + n \<le> length dst \<and> soff + y * sstride + n \<le> length src"
  obtains d where "copy_rows dstride src soff sstride n rows dst = Some d" and "length d = length dst"
    and "\<And>i. i < length dst \<Longrightarrow> d ! i =
      (if i div dstride < rows \<and> i mod dstride < n then src ! (soff + i div dstride * sstride + i mod dstride) else dst ! i)"
  using assms(3)
proof (induction rows arbitrary: thesis)
  case 0
  then show ?case by simp
next
  case (Suc rows)
  obtain d where d: "copy_rows dstride src soff sstride n rows dst = Some d" "length d = length dst"
    "\<And>i. i < length dst \<Longrightarrow> d ! i =
      (if i div dstride < rows \<and> i mod dstride < n then src ! (soff + i div dstride * sstride + i mod dstride) else dst ! i)"
    using Suc.IH Suc.prems(2) by (metis less_Suc_eq)
  obtain e where e: "memcpy (rows * dstride) src (soff + rows * sstride) n d = Some e" "length e = length d"
    "\<And>i. i < length d \<Longrightarrow> e ! i = (if rows * dstride \<le> i \<and> i < rows * dstride + n
       then src ! (soff + rows * sstride + (i - rows * dstride)) else d ! i)"
    using memcpy_nth [of "rows * dstride" n d "soff + rows * sstride" src] Suc.prems(2) [of rows] d(2) by auto
  have row: "rows * dstride \<le> i \<and> i < rows * dstride + n \<longleftrightarrow> i div dstride = rows \<and> i mod dstride < n" for i
  proof
    assume "rows * dstride \<le> i \<and> i < rows * dstride + n"
    then obtain k where "i = rows * dstride + k" "k < n" by (metis less_eqE nat_add_left_cancel_less)
    then show "i div dstride = rows \<and> i mod dstride < n" using assms(1,2) by simp
  next
    assume "i div dstride = rows \<and> i mod dstride < n"
    then show "rows * dstride \<le> i \<and> i < rows * dstride + n"
      by (metis add_less_cancel_left div_mult_mod_eq le_add1)
  qed
  have "e ! i = (if i div dstride < Suc rows \<and> i mod dstride < n then src ! (soff + i div dstride * sstride + i mod dstride) else dst ! i)"
    if "i < length dst" for i
  proof (cases "i div dstride = rows \<and> i mod dstride < n")
    case True
    then have "i - rows * dstride = i mod dstride" by (metis minus_div_mult_eq_mod)
    then show ?thesis using True e(3) [of i] row [of i] that d(2) by simp
  next
    case False
    then show ?thesis using e(3) [of i] row [of i] that d(2,3) by (auto simp: less_Suc_eq)
  qed
  then show ?case using Suc.prems(1) [of e] d e by simp
qed

text \<open>One copy of all rows is the loop for equal strides.\<close>

lemma memcpy_rows_nth:
  assumes "0 < stride" and "stride * rows \<le> length dst" and "soff + stride * rows \<le> length src"
  obtains d where "memcpy 0 src soff (stride * rows) dst = Some d" and "length d = length dst"
    and "\<And>i. i < length dst \<Longrightarrow> d ! i =
      (if i div stride < rows \<and> i mod stride < stride then src ! (soff + i div stride * stride + i mod stride) else dst ! i)"
proof -
  obtain d where "memcpy 0 src soff (stride * rows) dst = Some d" "length d = length dst"
    "\<And>i. i < length dst \<Longrightarrow> d ! i = (if i < stride * rows then src ! (soff + i) else dst ! i)"
    by (rule memcpy_nth [of 0 "stride * rows" dst soff src]) (use assms(2,3) in simp_all)
  moreover have "i < stride * rows \<longleftrightarrow> i div stride < rows" for i
    using assms(1) by (simp add: div_less_iff_less_mult mult.commute)
  ultimately show thesis using that assms(1) by (simp add: add.assoc)
qed

lemma loop_steps_set: "0 < ts \<Longrightarrow> set (loop_steps t n ts) = {u. u < n \<and> (\<exists>k. u = t + k * ts)}"
proof (induction t n ts rule: loop_steps.induct)
  case (1 t n ts)
  show ?case
  proof (cases "t < n")
    case True
    have "(\<exists>k. u = t + k * ts) \<longleftrightarrow> u = t \<or> (\<exists>k. u = t + ts + k * ts)" for u
    proof
      assume "\<exists>k. u = t + k * ts"
      then obtain k where "u = t + k * ts" by blast
      then show "u = t \<or> (\<exists>k. u = t + ts + k * ts)" by (cases k) auto
    next
      assume "u = t \<or> (\<exists>k. u = t + ts + k * ts)"
      then show "\<exists>k. u = t + k * ts" by (metis add.assoc add.right_neutral mult_0 mult_Suc)
    qed
    then show ?thesis using 1 True by (subst loop_steps.simps) auto
  qed auto
qed

lemma alpha_steps: "set (loop_steps 3 n 4) = {i. i < n \<and> i mod 4 = 3}"
proof -
  have "(\<exists>k. i = 3 + k * 4) \<longleftrightarrow> i mod 4 = 3" for i :: nat by presburger
  then show ?thesis by (simp add: loop_steps_set)
qed

lemma set_alpha_nth:
  assumes "size' \<le> length dst"
  obtains d where "set_alpha size' dst = Some d" and "length d = length dst"
    and "\<And>i. i < length dst \<Longrightarrow> d ! i = (if i < size' \<and> i mod 4 = 3 then 255 else dst ! i)"
proof -
  let ?f = "\<lambda>i d. Option.bind d (\<lambda>d. if i < length d then Some (d[i := (255 :: u8)]) else None)"
  have "\<exists>d. fold ?f is (Some dst) = Some d \<and> length d = length dst \<and>
      (\<forall>i < length dst. d ! i = (if i \<in> set is then 255 else dst ! i))" if "\<forall>i \<in> set is. i < length dst" for "is"
    using that
  proof (induction "is" rule: rev_induct)
    case (snoc j "is")
    then obtain d where "fold ?f is (Some dst) = Some d" "length d = length dst"
      "\<forall>i < length dst. d ! i = (if i \<in> set is then 255 else dst ! i)" by auto
    then show ?case using snoc.prems by (auto simp: nth_list_update)
  qed simp
  from this [of "loop_steps 3 size' 4"] assms show thesis using that unfolding set_alpha_def by (auto simp: alpha_steps)
qed

lemma row_in: "y < h \<Longrightarrow> n \<le> s \<Longrightarrow> y * s + n \<le> s * (h :: nat)"
  by (metis Suc_leI add.commute add_le_mono le_refl mult.commute mult_Suc mult_le_mono2 order_trans)

text \<open>Both ways of copying a picture: one block when the strides agree, row by row otherwise.\<close>

lemma copy_picture_nth:
  assumes "0 < s" and "s * h \<le> length dst" and "off + t * h \<le> length src"
  obtains d where "(if t = s then memcpy 0 src off (s * h) dst else copy_rows s src off t (min t s) h dst) = Some d"
    and "length d = length dst" and "\<And>i. i < length dst \<Longrightarrow> d ! i =
      (if i div s < h \<and> i mod s < min t s then src ! (off + i div s * t + i mod s) else dst ! i)"
proof (cases "t = s")
  case True
  then have "off + s * h \<le> length src" using assms(3) by simp
  from memcpy_rows_nth [OF assms(1,2) this] obtain g where "memcpy 0 src off (s * h) dst = Some g" "length g = length dst"
    "\<And>i. i < length dst \<Longrightarrow> g ! i = (if i div s < h \<and> i mod s < s then src ! (off + i div s * s + i mod s) else dst ! i)"
    by blast
  then show thesis by (intro that [of g]) (simp_all only: True min.idem if_True simp_thms)
next
  case False
  have "y * s + min t s \<le> length dst \<and> off + y * t + min t s \<le> length src" if "y < h" for y
    using row_in [OF that, of "min t s" s] row_in [OF that, of "min t s" t] assms(2,3) by auto
  then obtain g where "copy_rows s src off t (min t s) h dst = Some g" "length g = length dst"
    "\<And>i. i < length dst \<Longrightarrow> g ! i = (if i div s < h \<and> i mod s < min t s then src ! (off + i div s * t + i mod s) else dst ! i)"
    using copy_rows_nth [of "min t s" s h dst off t src] assms(1) by (metis min.cobounded2)
  then show thesis using False by (intro that [of g]) simp_all
qed

lemma memcpy_length: "memcpy doff src soff n dst = Some d \<Longrightarrow> length d = length dst"
  by (auto simp: memcpy_def split: if_splits)

lemma copy_rows_length: "copy_rows ds src so ss n rows dst = Some d \<Longrightarrow> length d = length dst"
proof (induction rows arbitrary: d)
  case (Suc rows)
  then obtain e where "copy_rows ds src so ss n rows dst = Some e" "memcpy (rows * ds) src (so + rows * ss) n e = Some d"
    by (auto simp: bind_eq_Some_conv)
  then show ?case using Suc.IH memcpy_length by metis
qed simp

end
