(* ===== verification/Gdicapture.thy ===== *)
theory Gdicapture
  imports Ownership Memory
begin

text \<open>
  \<^verbatim>\<open>capture_windows.go\<close>: screen capture with GDI. Handles and pointers are numbers, 0 is none. What the
  functions of Windows answer is an argument. A bitmap that is selected into a device context is a reference of
  its own kind: it cannot be deleted before another one is selected, \<^verbatim>\<open>DeleteObject\<close> then fails and
  the bitmap stays. The memory of the section after \<^verbatim>\<open>BitBlt\<close> is an argument of a capture.
\<close>

section \<open>Handles of Windows\<close>

datatype win_ref =
    Dc nat | Bitmap nat | Selected nat
  | Com nat | DuplFrame nat | Mapped nat

record bitmapInfoHeader =
  bi_Size :: u32
  bi_Width :: i32
  bi_Height :: i32
  bi_Planes :: u16
  bi_BitCount :: u16
  bi_Compression :: u32

definition smCXScreen :: nat where "smCXScreen = 0"
definition smCYScreen :: nat where "smCYScreen = 1"
definition biRGB :: u32 where "biRGB = 0"

text \<open>A section with 32 bits per pixel whose first row is the upper one: its height is negative.\<close>

definition screen_header :: "nat \<Rightarrow> nat \<Rightarrow> bitmapInfoHeader" where
  "screen_header w h =
     \<lparr>bi_Size = 40, bi_Width = of_nat w, bi_Height = - of_nat h, bi_Planes = 1, bi_BitCount = 32, bi_Compression = biRGB\<rparr>"

record gdi_env =
  ge_GetSystemMetrics :: "nat \<Rightarrow> nat"
  ge_GetDC :: nat
  ge_CreateCompatibleDC :: "nat \<Rightarrow> nat"
  ge_CreateDIBSection :: "nat \<Rightarrow> bitmapInfoHeader \<Rightarrow> nat \<times> nat"
  ge_SelectObject :: "nat \<Rightarrow> nat \<Rightarrow> nat"

text \<open>\<^verbatim>\<open>SelectObject\<close> of the new bitmap, and of the old one in its place; \<^verbatim>\<open>DeleteObject\<close>.\<close>

definition select_bitmap :: "nat \<Rightarrow> nat \<Rightarrow> nat \<Rightarrow> (win_ref, nat) own" where
  "select_bitmap dc b answer =
     own_seq (touch (Dc dc))
       (if answer = 0 then own_ret 0
        else own_seq (release (Bitmap b)) (own_seq (acquire (Selected b)) (own_ret answer)))"

definition deselect_bitmap :: "nat \<Rightarrow> nat \<Rightarrow> (win_ref, unit) own" where
  "deselect_bitmap dc b = own_seq (touch (Dc dc)) (own_seq (release (Selected b)) (acquire (Bitmap b)))"

definition delete_object :: "nat \<Rightarrow> (win_ref, unit) own" where
  "delete_object b = (\<lambda>m. Some ((), if Bitmap b \<in># m then m - {#Bitmap b#} else m))"

lemma runs_delete_object [own_simps]:
  "own_runs (delete_object b) m Q \<longleftrightarrow> Q () (if Bitmap b \<in># m then m - {#Bitmap b#} else m)"
  by (simp add: own_runs_def delete_object_def)

section \<open>The capturer\<close>

record GDICapture =
  gc_screenDC :: nat
  gc_memDC :: nat
  gc_hBitmap :: nat
  gc_oldBitmap :: nat
  gc_bits :: nat
  gc_width :: u16
  gc_height :: u16
  gc_pixels :: bytes

definition GDICapture_zero :: GDICapture where
  "GDICapture_zero =
     \<lparr>gc_screenDC = 0, gc_memDC = 0, gc_hBitmap = 0, gc_oldBitmap = 0, gc_bits = 0, gc_width = 0, gc_height = 0, gc_pixels = []\<rparr>"

definition GDICapture_Init :: "gdi_env \<Rightarrow> GDICapture \<Rightarrow> (win_ref, unit res \<times> GDICapture) own" where
  "GDICapture_Init e g =
     (let w = ge_GetSystemMetrics e smCXScreen; h = ge_GetSystemMetrics e smCYScreen in
      if w = 0 \<or> h = 0 then own_ret (Inl (Errorf ''GetSystemMetrics returned zero screen size'' []), g)
      else
      let screenDC = ge_GetDC e in
      if screenDC = 0 then own_ret (Inl (Errorf ''GetDC(NULL) failed'' []), g)
      else own_seq (acquire (Dc screenDC)) (own_seq (touch (Dc screenDC))
      (let memDC = ge_CreateCompatibleDC e screenDC in
      if memDC = 0 then own_seq (release (Dc screenDC)) (own_ret (Inl (Errorf ''CreateCompatibleDC failed'' []), g))
      else own_seq (acquire (Dc memDC)) (own_seq (touch (Dc memDC))
      (case ge_CreateDIBSection e memDC (screen_header w h) of (hBitmap, bits) \<Rightarrow>
      own_seq (if hBitmap = 0 then own_ret () else acquire (Bitmap hBitmap))
      (if hBitmap = 0 \<or> bits = 0
       then own_seq (release (Dc memDC)) (own_seq (release (Dc screenDC)) (own_ret (Inl (Errorf ''CreateDIBSection failed'' []), g)))
       else own_bind (select_bitmap memDC hBitmap (ge_SelectObject e memDC hBitmap)) (\<lambda>oldBitmap.
         own_ret (Inr (),
           g\<lparr>gc_screenDC := screenDC, gc_memDC := memDC, gc_hBitmap := hBitmap, gc_oldBitmap := oldBitmap, gc_bits := bits,
             gc_width := of_nat w, gc_height := of_nat h, gc_pixels := replicate (w * h * 4) 0\<rparr>))))))))"

definition GDICapture_Bounds :: "GDICapture \<Rightarrow> u16 \<times> u16" where
  "GDICapture_Bounds g = (gc_width g, gc_height g)"

text \<open>The first argument is what \<^verbatim>\<open>BitBlt\<close> leaves in the section, or its failure.\<close>

definition GDICapture_Capture :: "bytes option \<Rightarrow> GDICapture \<Rightarrow> (win_ref, (bytes \<times> nat) res \<times> GDICapture) own" where
  "GDICapture_Capture blt g =
     (if gc_bits g = 0 then own_ret (Inl (Errorf ''GDI capture not initialized'' []), g)
      else
      let w = unat (gc_width g); h = unat (gc_height g) in
      own_seq (touch (Dc (gc_memDC g))) (own_seq (touch (Dc (gc_screenDC g)))
      (case blt of
         None \<Rightarrow> own_ret (Inl (Errorf ''BitBlt failed'' []), g)
       | Some section \<Rightarrow>
           let stride = w * 4; size' = stride * h in
           own_bind (own_lift (if size' \<le> length section then Some (take size' section) else None)) (\<lambda>src.
           own_bind (own_lift (set_alpha size' (copy (gc_pixels g) src))) (\<lambda>pixels.
           own_ret (Inr (pixels, stride), g\<lparr>gc_pixels := pixels\<rparr>))))))"

definition GDICapture_Close :: "GDICapture \<Rightarrow> (win_ref, GDICapture) own" where
  "GDICapture_Close g =
     own_bind (if gc_oldBitmap g \<noteq> 0
       then own_seq (deselect_bitmap (gc_memDC g) (gc_hBitmap g)) (own_ret (g\<lparr>gc_oldBitmap := 0\<rparr>)) else own_ret g) (\<lambda>g.
     own_bind (if gc_hBitmap g \<noteq> 0 then own_seq (delete_object (gc_hBitmap g)) (own_ret (g\<lparr>gc_hBitmap := 0\<rparr>)) else own_ret g) (\<lambda>g.
     own_bind (if gc_memDC g \<noteq> 0 then own_seq (release (Dc (gc_memDC g))) (own_ret (g\<lparr>gc_memDC := 0\<rparr>)) else own_ret g) (\<lambda>g.
     own_bind (if gc_screenDC g \<noteq> 0 then own_seq (release (Dc (gc_screenDC g))) (own_ret (g\<lparr>gc_screenDC := 0\<rparr>)) else own_ret g) (\<lambda>g.
     own_ret (g\<lparr>gc_bits := 0\<rparr>)))))"

section \<open>What it holds\<close>

definition dc_ref :: "nat \<Rightarrow> win_ref multiset" where
  "dc_ref d = (if d = 0 then {#} else {#Dc d#})"

definition gdi_held :: "GDICapture \<Rightarrow> win_ref multiset" where
  "gdi_held g = dc_ref (gc_screenDC g) + dc_ref (gc_memDC g) +
     (if gc_hBitmap g = 0 then {#} else if gc_oldBitmap g = 0 then {#Bitmap (gc_hBitmap g)#} else {#Selected (gc_hBitmap g)#})"

text \<open>The section is made together with its memory, and the screen has a size of 16 bits.\<close>

definition gdi_env_ok :: "gdi_env \<Rightarrow> bool" where
  "gdi_env_ok e \<longleftrightarrow>
     (let w = ge_GetSystemMetrics e smCXScreen; h = ge_GetSystemMetrics e smCYScreen;
          p = ge_CreateDIBSection e (ge_CreateCompatibleDC e (ge_GetDC e)) (screen_header w h)
      in w < 65536 \<and> h < 65536 \<and> (snd p = 0 \<longrightarrow> fst p = 0))"

definition screen_size :: "gdi_env \<Rightarrow> u16 \<times> u16" where
  "screen_size e = (of_nat (ge_GetSystemMetrics e smCXScreen), of_nat (ge_GetSystemMetrics e smCYScreen))"

text \<open>The fields agree with each other, and the buffer has the size of the announced picture.\<close>

definition gdi_ready :: "GDICapture \<Rightarrow> bool" where
  "gdi_ready g \<longleftrightarrow> (gc_oldBitmap g \<noteq> 0 \<longrightarrow> gc_memDC g \<noteq> 0 \<and> gc_hBitmap g \<noteq> 0) \<and>
     (gc_bits g \<noteq> 0 \<longrightarrow> gc_memDC g \<noteq> 0 \<and> gc_screenDC g \<noteq> 0 \<and> length (gc_pixels g) = unat (gc_width g) * 4 * unat (gc_height g))"

definition gdi_use_ok :: "bytes option \<Rightarrow> GDICapture \<Rightarrow> bool" where
  "gdi_use_ok blt g \<longleftrightarrow> (case blt of None \<Rightarrow> True | Some s \<Rightarrow> unat (gc_width g) * 4 * unat (gc_height g) \<le> length s)"

lemma GDI_Init_owns:
  assumes "gdi_env_ok e"
  shows "own_runs (GDICapture_Init e GDICapture_zero) m (\<lambda>(r, g) m'. m' = m + gdi_held g \<and>
    (case r of Inl _ \<Rightarrow> gdi_held g = {#}
     | Inr _ \<Rightarrow> gdi_ready g \<and> gc_bits g \<noteq> 0 \<and> GDICapture_Bounds g = screen_size e \<and> 0 < unat (gc_width g) \<and> 0 < unat (gc_height g)))"
  using assms
  by (auto simp: GDICapture_Init_def GDICapture_zero_def own_simps Let_def select_bitmap_def gdi_held_def dc_ref_def gdi_ready_def
      gdi_env_ok_def GDICapture_Bounds_def screen_size_def split: prod.splits)

text \<open>One capture: the picture has the announced size and is opaque; only the buffer changes.\<close>

lemma GDI_Capture_runs:
  assumes "gdi_ready g" and "gdi_use_ok blt g"
  shows "own_runs (GDICapture_Capture blt g) (m + gdi_held g) (\<lambda>(r, g') m'. m' = m + gdi_held g \<and> g' = g\<lparr>gc_pixels := gc_pixels g'\<rparr> \<and>
    length (gc_pixels g') = length (gc_pixels g) \<and>
    (case r of
       Inr (pixels, stride) \<Rightarrow> gc_bits g \<noteq> 0 \<and> pixels = gc_pixels g' \<and> stride = unat (gc_width g) * 4 \<and>
         length pixels = stride * unat (gc_height g) \<and> (\<exists>s. blt = Some s \<and>
           (\<forall>i < length pixels. pixels ! i = (if i mod 4 = 3 then 255 else s ! i)))
     | Inl _ \<Rightarrow> gc_bits g = 0 \<or> blt = None))"
proof -
  have dcs: "Dc (gc_memDC g) \<in># m + gdi_held g" "Dc (gc_screenDC g) \<in># m + gdi_held g" if "gc_bits g \<noteq> 0"
    using that assms(1) by (simp_all add: gdi_held_def dc_ref_def gdi_ready_def)
  show ?thesis
  proof (cases "gc_bits g = 0 \<or> blt = None")
    case True
    then show ?thesis using dcs by (cases "gc_bits g = 0") (simp_all add: GDICapture_Capture_def own_simps Let_def)
  next
    case False
    then obtain s where s: "blt = Some s" and b: "gc_bits g \<noteq> 0" by auto
    let ?n = "unat (gc_width g) * 4 * unat (gc_height g)"
    have len: "length (gc_pixels g) = ?n" "?n \<le> length s" using assms b s by (auto simp: gdi_ready_def gdi_use_ok_def)
    then have c: "copy (gc_pixels g) (take ?n s) = take ?n s" by simp
    obtain d where d: "set_alpha ?n (take ?n s) = Some d" "length d = ?n"
      "\<And>i. i < ?n \<Longrightarrow> d ! i = (if i mod 4 = 3 then 255 else s ! i)"
    proof (rule set_alpha_nth [of ?n "take ?n s"])
      show "?n \<le> length (take ?n s)" using len(2) by simp
      fix d
      assume "set_alpha ?n (take ?n s) = Some d" "length d = length (take ?n s)"
        and "\<And>i. i < length (take ?n s) \<Longrightarrow> d ! i = (if i < ?n \<and> i mod 4 = 3 then 255 else take ?n s ! i)"
      then show thesis using len(2) by (intro that [of d]) simp_all
    qed
    show ?thesis using dcs [OF b] b s len c d by (simp add: GDICapture_Capture_def own_simps Let_def)
  qed
qed

lemma GDI_Close_owns:
  assumes "gdi_ready g"
  shows "own_runs (GDICapture_Close g) (m + gdi_held g) (\<lambda>g' m'. m' = m \<and> gdi_held g' = {#} \<and> gc_bits g' = 0)"
  using assms
  by (auto simp: GDICapture_Close_def own_simps gdi_held_def dc_ref_def deselect_bitmap_def gdi_ready_def)

end
