(* ===== verification/Dxgicapture.thy ===== *)
theory Dxgicapture
  imports Gdicapture Geometry Wire
begin

text \<open>
  \<^verbatim>\<open>capture_windows_dxgi.go\<close>: screen capture with DXGI Desktop Duplication. COM objects are pointers; a
  reference to one is \<open>Com p\<close>, counted, so that an object may be held several times. A frame of the duplication that has been
  acquired and a mapped texture are references, too. A call of a method requires a reference
  to its object. The answers of the methods (result codes, out parameters, the memory of a
  mapped texture) are arguments: an environment for every initialisation and for every capture.
  \<^const>\<open>None\<close> is a fault or a panic of the run-time system.
\<close>

section \<open>COM\<close>

record comGUID =
  Data1 :: u32
  Data2 :: u16
  Data3 :: u16
  Data4 :: bytes

definition iidIDXGIDevice :: comGUID where
  "iidIDXGIDevice = \<lparr>Data1 = 0x54ec77fa, Data2 = 0x1377, Data3 = 0x44e6, Data4 = [0x8c, 0x32, 0x88, 0xfd, 0x5f, 0x44, 0xc8, 0x4c]\<rparr>"

definition iidIDXGIOutput1 :: comGUID where
  "iidIDXGIOutput1 = \<lparr>Data1 = 0x00cddea8, Data2 = 0x939b, Data3 = 0x4b83, Data4 = [0xa3, 0x40, 0xa6, 0x85, 0x22, 0x66, 0x66, 0xcc]\<rparr>"

definition iidID3D11Texture2D :: comGUID where
  "iidID3D11Texture2D = \<lparr>Data1 = 0x6f15aaf2, Data2 = 0xd208, Data3 = 0x4e89, Data4 = [0x9a, 0xb4, 0x48, 0x95, 0x35, 0xd3, 0x4f, 0x9c]\<rparr>"

definition dxgiErrorWaitTimeout :: nat where "dxgiErrorWaitTimeout = 0x887A0027"
definition dxgiErrorAccessLost :: nat where "dxgiErrorAccessLost = 0x887A0026"

record d3d11Texture2DDesc =
  td_Width :: u32
  td_Height :: u32
  td_MipLevels :: u32
  td_ArraySize :: u32
  td_Format :: u32
  td_SampleCount :: u32
  td_SampleQuality :: u32
  td_Usage :: u32
  td_BindFlags :: u32
  td_CPUAccessFlags :: u32
  td_MiscFlags :: u32

definition staging_desc :: "nat \<Rightarrow> nat \<Rightarrow> d3d11Texture2DDesc" where
  "staging_desc w h =
     \<lparr>td_Width = of_nat w, td_Height = of_nat h, td_MipLevels = 1, td_ArraySize = 1, td_Format = 87, td_SampleCount = 1,
      td_SampleQuality = 0, td_Usage = 3, td_BindFlags = 0, td_CPUAccessFlags = 0x20000, td_MiscFlags = 0\<rparr>"

text \<open>An out parameter that received a reference.\<close>

definition com_acquire :: "nat \<Rightarrow> (win_ref, unit) own" where
  "com_acquire p = (if p = 0 then own_ret () else acquire (Com p))"

definition comRelease :: "nat \<Rightarrow> (win_ref, unit) own" where
  "comRelease p = (if p = 0 then own_ret () else release (Com p))"

text \<open>A method with one out parameter: its answer is the result code and the object.\<close>

definition com_out :: "string \<Rightarrow> nat \<Rightarrow> nat \<times> nat \<Rightarrow> (win_ref, nat res) own" where
  "com_out msg obj ans =
     own_seq (touch (Com obj))
       (if fst ans = 0 then own_seq (com_acquire (snd ans)) (own_ret (Inr (snd ans)))
        else own_ret (Inl (Errorf msg [int (fst ans)])))"

definition comQueryInterface :: "(nat \<Rightarrow> comGUID \<Rightarrow> nat \<times> nat) \<Rightarrow> nat \<Rightarrow> comGUID \<Rightarrow> (win_ref, nat res) own" where
  "comQueryInterface query obj iid = com_out ''QueryInterface failed: 0x%08X'' obj (query obj iid)"

section \<open>The capturer\<close>

record DXGICapture =
  dx_device :: nat
  dx_ctx :: nat
  dx_dupl :: nat
  dx_staging :: nat
  dx_width :: u16
  dx_height :: u16
  dx_stride :: nat
  dx_pixels :: bytes
  dx_lastDirtyRects :: "rect list option"
  dx_metaBuf :: bytes
  dx_gdi :: "GDICapture option"

definition DXGICapture_zero :: DXGICapture where
  "DXGICapture_zero =
     \<lparr>dx_device = 0, dx_ctx = 0, dx_dupl = 0, dx_staging = 0, dx_width = 0, dx_height = 0, dx_stride = 0, dx_pixels = [],
      dx_lastDirtyRects = None, dx_metaBuf = [], dx_gdi = None\<rparr>"

record dxgi_env =
  de_Find :: "goerr option"
  de_CreateDevice :: "nat \<times> nat \<times> nat"
  de_QueryInterface :: "nat \<Rightarrow> comGUID \<Rightarrow> nat \<times> nat"
  de_GetAdapter :: "nat \<Rightarrow> nat \<times> nat"
  de_EnumOutputs :: "nat \<Rightarrow> nat \<times> nat"
  de_DuplicateOutput :: "nat \<Rightarrow> nat \<Rightarrow> nat \<times> nat"
  de_CreateTexture2D :: "nat \<Rightarrow> d3d11Texture2DDesc \<Rightarrow> nat \<times> nat"
  de_gdi :: gdi_env

text \<open>\<^verbatim>\<open>comRelease\<close> of several objects, then the return of an error.\<close>

fun release_all :: "nat list \<Rightarrow> 'a \<Rightarrow> (win_ref, 'a) own" where
  "release_all [] x = own_ret x"
| "release_all (p # ps) x = own_seq (comRelease p) (release_all ps x)"

text \<open>The size of the screen, the staging texture and the fields; the last step of the initialisation.\<close>

definition make_staging :: "dxgi_env \<Rightarrow> nat \<Rightarrow> nat \<Rightarrow> nat \<Rightarrow> DXGICapture \<Rightarrow> (win_ref, unit res \<times> DXGICapture) own" where
  "make_staging e device ctx dupl d =
     (let w = ge_GetSystemMetrics (de_gdi e) smCXScreen; h = ge_GetSystemMetrics (de_gdi e) smCYScreen in
      if w = 0 \<or> h = 0
      then release_all [dupl, ctx, device] (Inl (Errorf ''GetSystemMetrics returned zero screen size'' []), d)
      else
      own_bind (com_out ''ID3D11Device::CreateTexture2D(staging): 0x%08X'' device (de_CreateTexture2D e device (staging_desc w h))) (\<lambda>r.
      case r of
        Inl err \<Rightarrow> release_all [dupl, ctx, device] (Inl err, d)
      | Inr staging \<Rightarrow>
      own_bind (own_lift (set_alpha (w * h * 4) (replicate (w * h * 4) 0))) (\<lambda>pixels.
      own_ret (Inr (),
        d\<lparr>dx_device := device, dx_ctx := ctx, dx_dupl := dupl, dx_staging := staging, dx_width := of_nat w, dx_height := of_nat h,
          dx_stride := w * 4, dx_pixels := pixels\<rparr>))))"

text \<open>From the device to the duplication of the first output.\<close>

definition open_duplication :: "dxgi_env \<Rightarrow> nat \<Rightarrow> nat \<Rightarrow> DXGICapture \<Rightarrow> (win_ref, unit res \<times> DXGICapture) own" where
  "open_duplication e device ctx d =
     own_bind (comQueryInterface (de_QueryInterface e) device iidIDXGIDevice) (\<lambda>r.
      case r of
        Inl err \<Rightarrow> release_all [ctx, device] (Inl (wrap_err ''QueryInterface(IDXGIDevice): %w'' [] err), d)
      | Inr dxgiDev \<Rightarrow> own_defer (comRelease dxgiDev)
     (own_bind (com_out ''IDXGIDevice::GetAdapter: 0x%08X'' dxgiDev (de_GetAdapter e dxgiDev)) (\<lambda>r.
      case r of
        Inl err \<Rightarrow> release_all [ctx, device] (Inl err, d)
      | Inr adapter \<Rightarrow> own_defer (comRelease adapter)
     (own_bind (com_out ''IDXGIAdapter::EnumOutputs(0): 0x%08X'' adapter (de_EnumOutputs e adapter)) (\<lambda>r.
      case r of
        Inl err \<Rightarrow> release_all [ctx, device] (Inl err, d)
      | Inr output \<Rightarrow> own_defer (comRelease output)
     (own_bind (comQueryInterface (de_QueryInterface e) output iidIDXGIOutput1) (\<lambda>r.
      case r of
        Inl err \<Rightarrow> release_all [ctx, device] (Inl (wrap_err ''QueryInterface(IDXGIOutput1): %w'' [] err), d)
      | Inr output1 \<Rightarrow> own_defer (comRelease output1)
     (own_bind (own_seq (touch (Com device))
        (com_out ''IDXGIOutput1::DuplicateOutput: 0x%08X'' output1 (de_DuplicateOutput e output1 device))) (\<lambda>r.
      case r of
        Inl err \<Rightarrow> release_all [ctx, device] (Inl err, d)
      | Inr dupl \<Rightarrow>
      make_staging e device ctx dupl d)))))))))"

definition initDXGI :: "dxgi_env \<Rightarrow> DXGICapture \<Rightarrow> (win_ref, unit res \<times> DXGICapture) own" where
  "initDXGI e d =
     (case de_Find e of
        Some err \<Rightarrow> own_ret (Inl (wrap_err ''d3d11.dll not available: %w'' [] err), d)
      | None \<Rightarrow>
     (case de_CreateDevice e of (hr, device, ctx) \<Rightarrow>
      if hr \<noteq> 0 then own_ret (Inl (Errorf ''D3D11CreateDevice: 0x%08X'' [int hr]), d)
      else own_seq (com_acquire device) (own_seq (com_acquire ctx) (open_duplication e device ctx d))))"

definition DXGICapture_Init :: "dxgi_env \<Rightarrow> DXGICapture \<Rightarrow> (win_ref, unit res \<times> DXGICapture) own" where
  "DXGICapture_Init e d =
     own_bind (initDXGI e d) (\<lambda>(r, d).
       case r of
         Inl _ \<Rightarrow> own_bind (GDICapture_Init (de_gdi e) GDICapture_zero) (\<lambda>(r', g). own_ret (r', d\<lparr>dx_gdi := Some g\<rparr>))
       | Inr _ \<Rightarrow> own_ret (Inr (), d))"

definition DXGICapture_Bounds :: "DXGICapture \<Rightarrow> u16 \<times> u16" where
  "DXGICapture_Bounds d = (case dx_gdi d of Some g \<Rightarrow> GDICapture_Bounds g | None \<Rightarrow> (dx_width d, dx_height d))"

text \<open>The duplication is made again through the same interfaces; a failure leaves the capturer without one.\<close>

definition duplicate_again :: "dxgi_env \<Rightarrow> DXGICapture \<Rightarrow> (win_ref, DXGICapture) own" where
  "duplicate_again e d =
     own_bind (comQueryInterface (de_QueryInterface e) (dx_device d) iidIDXGIDevice) (\<lambda>r.
      case r of Inl _ \<Rightarrow> own_ret d | Inr dxgiDev \<Rightarrow> own_defer (comRelease dxgiDev)
     (own_bind (com_out ''GetAdapter failed: 0x%08X'' dxgiDev (de_GetAdapter e dxgiDev)) (\<lambda>r.
      case r of Inl _ \<Rightarrow> own_ret d | Inr adapter \<Rightarrow> own_defer (comRelease adapter)
     (own_bind (com_out ''EnumOutputs failed: 0x%08X'' adapter (de_EnumOutputs e adapter)) (\<lambda>r.
      case r of Inl _ \<Rightarrow> own_ret d | Inr output \<Rightarrow> own_defer (comRelease output)
     (own_bind (comQueryInterface (de_QueryInterface e) output iidIDXGIOutput1) (\<lambda>r.
      case r of Inl _ \<Rightarrow> own_ret d | Inr output1 \<Rightarrow> own_defer (comRelease output1)
     (own_bind (own_seq (touch (Com (dx_device d)))
        (com_out ''DuplicateOutput failed: 0x%08X'' output1 (de_DuplicateOutput e output1 (dx_device d)))) (\<lambda>r.
      case r of Inl _ \<Rightarrow> own_ret d | Inr dupl \<Rightarrow> own_ret (d\<lparr>dx_dupl := dupl\<rparr>))))))))))"

definition recreateDuplication :: "dxgi_env \<Rightarrow> DXGICapture \<Rightarrow> (win_ref, DXGICapture) own" where
  "recreateDuplication e d =
     own_bind (if dx_dupl d \<noteq> 0 then own_seq (comRelease (dx_dupl d)) (own_ret (d\<lparr>dx_dupl := 0\<rparr>)) else own_ret d) (duplicate_again e)"

section \<open>Dirty rectangles\<close>

definition win_rect :: "bytes \<Rightarrow> rect" where
  "win_rect b = image_Rect (sint (unle32 b)) (sint (unle32 (drop 4 b))) (sint (unle32 (drop 8 b))) (sint (unle32 (drop 12 b)))"

definition rect_at :: "nat \<Rightarrow> bytes \<Rightarrow> nat \<Rightarrow> rect option" where
  "rect_at metaSize buf i =
     (if i * 16 < metaSize \<and> i * 16 + 16 \<le> length buf then Some (win_rect (take 16 (drop (i * 16) buf))) else None)"

text \<open>
  The answer of \<^verbatim>\<open>GetFrameDirtyRects\<close>: its code, what it wrote to the buffer, and the size of it. The field
  \<open>dx_metaBuf\<close> is the array behind the buffer.
\<close>

definition queryDirtyRects :: "nat \<times> bytes \<times> u32 \<Rightarrow> u32 \<Rightarrow> DXGICapture \<Rightarrow> (win_ref, rect list option \<times> DXGICapture) own" where
  "queryDirtyRects ans metaSize d =
     (if metaSize = 0 then own_ret (None, d)
      else
      let buf = (if length (dx_metaBuf d) < unat metaSize then replicate (unat metaSize) 0 else dx_metaBuf d) in
      own_seq (touch (Com (dx_dupl d))) (own_seq (touch (DuplFrame (dx_dupl d)))
      (case ans of (hr, written, sizeRequired) \<Rightarrow>
      own_bind (own_lift (if length written \<le> unat metaSize then Some (copy buf written) else None)) (\<lambda>buf.
      let d = d\<lparr>dx_metaBuf := buf\<rparr> in
      if hr \<noteq> 0 then own_ret (None, d)
      else
      let count = unat sizeRequired div 16 in
      if count = 0 then own_ret (map_option (\<lambda>_. []) (dx_lastDirtyRects d), d)
      else own_bind (own_lift (those (map (rect_at (unat metaSize) buf) [0..<count]))) (\<lambda>rects. own_ret (Some rects, d))))))"

definition DXGI_LastDirtyRects :: "DXGICapture \<Rightarrow> rect list option" where
  "DXGI_LastDirtyRects d = dx_lastDirtyRects d"

section \<open>Capture and Close\<close>

text \<open>
  What the system answers during one capture: \<^verbatim>\<open>AcquireNextFrame\<close> (code, resource, size of the metadata), the texture behind
  the resource, the dirty rectangles, \<^verbatim>\<open>Map\<close> (code, memory of the texture, row pitch), a new
  duplication, and the result of \<^verbatim>\<open>BitBlt\<close> for the fallback.
\<close>

record dxgi_frame =
  fr_AcquireNextFrame :: "nat \<times> nat \<times> u32"
  fr_QueryInterface :: "nat \<Rightarrow> comGUID \<Rightarrow> nat \<times> nat"
  fr_GetFrameDirtyRects :: "nat \<times> bytes \<times> u32"
  fr_Map :: "nat \<times> bytes \<times> u32"
  fr_again :: dxgi_env
  fr_BitBlt :: "bytes option"

definition copy_mapped :: "nat \<Rightarrow> nat \<Rightarrow> bytes \<Rightarrow> nat \<Rightarrow> bytes \<Rightarrow> bytes option" where
  "copy_mapped w h mem srcPitch pixels =
     (let rowBytes = w * 4 in
      if srcPitch = rowBytes
      then if h * srcPitch \<le> length mem then Some (copy pixels (take (h * srcPitch) mem)) else None
      else copy_rows rowBytes mem 0 srcPitch rowBytes h pixels)"

definition release_frame :: "nat \<Rightarrow> (win_ref, unit) own" where
  "release_frame dupl = own_seq (touch (Com dupl)) (release (DuplFrame dupl))"

text \<open>From the acquired texture on.\<close>

definition read_texture :: "dxgi_frame \<Rightarrow> u32 \<Rightarrow> nat \<Rightarrow> DXGICapture \<Rightarrow> (win_ref, (bytes \<times> nat) res \<times> DXGICapture) own" where
  "read_texture fr metaSize desktopTex d =
     own_seq (touch (Com (dx_ctx d))) (own_seq (touch (Com (dx_staging d))) (own_seq (touch (Com desktopTex))
     (own_seq (touch (DuplFrame (dx_dupl d)))
     (own_seq (comRelease desktopTex)
     (own_bind (queryDirtyRects (fr_GetFrameDirtyRects fr) metaSize d) (\<lambda>(rects, d).
      let d = d\<lparr>dx_lastDirtyRects := rects\<rparr> in
      own_seq (release_frame (dx_dupl d))
     (own_seq (touch (Com (dx_ctx d))) (own_seq (touch (Com (dx_staging d)))
     (case fr_Map fr of (hr, mem, pitch) \<Rightarrow>
      if hr \<noteq> 0 then own_ret (Inl (Errorf ''Map(staging): 0x%08X'' [int hr]), d)
      else own_seq (acquire (Mapped (dx_staging d)))
     (own_bind (own_lift (copy_mapped (unat (dx_width d)) (unat (dx_height d)) mem (unat pitch) (dx_pixels d))) (\<lambda>pixels.
      own_seq (touch (Com (dx_ctx d))) (own_seq (release (Mapped (dx_staging d)))
     (own_ret (Inr (pixels, dx_stride d), d\<lparr>dx_pixels := pixels\<rparr>))))))))))))))"

definition DXGICapture_Capture :: "dxgi_frame \<Rightarrow> DXGICapture \<Rightarrow> (win_ref, (bytes \<times> nat) res \<times> DXGICapture) own" where
  "DXGICapture_Capture fr d =
     (case dx_gdi d of
        Some g \<Rightarrow> own_bind (GDICapture_Capture (fr_BitBlt fr) g) (\<lambda>(r, g'). own_ret (r, d\<lparr>dx_gdi := Some g'\<rparr>))
      | None \<Rightarrow>
      if dx_dupl d = 0 then own_ret (Inl (Errorf ''DXGI capture not initialized'' []), d)
      else own_seq (touch (Com (dx_dupl d)))
     (case fr_AcquireNextFrame fr of (hr, desktopResource, metaSize) \<Rightarrow>
      if hr = dxgiErrorWaitTimeout
      then own_ret (Inr (dx_pixels d, dx_stride d), d\<lparr>dx_lastDirtyRects := map_option (\<lambda>_. []) (dx_lastDirtyRects d)\<rparr>)
      else if hr = dxgiErrorAccessLost
      then own_bind (recreateDuplication (fr_again fr) d) (\<lambda>d. own_ret (Inr (dx_pixels d, dx_stride d), d))
      else if hr \<noteq> 0 then own_ret (Inl (Errorf ''AcquireNextFrame: 0x%08X'' [int hr]), d)
      else own_seq (acquire (DuplFrame (dx_dupl d))) (own_seq (com_acquire desktopResource)
     (own_bind (comQueryInterface (fr_QueryInterface fr) desktopResource iidID3D11Texture2D) (\<lambda>r.
      own_seq (comRelease desktopResource)
     (case r of
        Inl err \<Rightarrow>
          own_seq (release_frame (dx_dupl d)) (own_ret (Inl (wrap_err ''QueryInterface(ID3D11Texture2D): %w'' [] err), d))
      | Inr desktopTex \<Rightarrow> read_texture fr metaSize desktopTex d))))))"

definition DXGICapture_Close :: "DXGICapture \<Rightarrow> (win_ref, DXGICapture) own" where
  "DXGICapture_Close d =
     (case dx_gdi d of
        Some g \<Rightarrow> own_bind (GDICapture_Close g) (\<lambda>g'. own_ret (d\<lparr>dx_gdi := Some g'\<rparr>))
      | None \<Rightarrow>
     own_bind (if dx_staging d \<noteq> 0 then own_seq (comRelease (dx_staging d)) (own_ret (d\<lparr>dx_staging := 0\<rparr>)) else own_ret d) (\<lambda>d.
     own_bind (if dx_dupl d \<noteq> 0 then own_seq (comRelease (dx_dupl d)) (own_ret (d\<lparr>dx_dupl := 0\<rparr>)) else own_ret d) (\<lambda>d.
     own_bind (if dx_ctx d \<noteq> 0 then own_seq (comRelease (dx_ctx d)) (own_ret (d\<lparr>dx_ctx := 0\<rparr>)) else own_ret d) (\<lambda>d.
     own_bind (if dx_device d \<noteq> 0 then own_seq (comRelease (dx_device d)) (own_ret (d\<lparr>dx_device := 0\<rparr>)) else own_ret d) (\<lambda>d.
     own_ret (d\<lparr>dx_pixels := []\<rparr>))))))"

section \<open>References\<close>

definition com_ref :: "nat \<Rightarrow> win_ref multiset" where
  "com_ref p = (if p = 0 then {#} else {#Com p#})"

definition dxgi_held :: "DXGICapture \<Rightarrow> win_ref multiset" where
  "dxgi_held d = com_ref (dx_device d) + com_ref (dx_ctx d) + com_ref (dx_dupl d) + com_ref (dx_staging d) +
     (case dx_gdi d of None \<Rightarrow> {#} | Some g \<Rightarrow> gdi_held g)"

text \<open>A method that succeeds has set its out parameter.\<close>

definition com_ok :: "nat \<times> nat \<Rightarrow> bool" where
  "com_ok ans \<longleftrightarrow> (fst ans = 0 \<longrightarrow> snd ans \<noteq> 0)"

definition dxgi_env_ok :: "dxgi_env \<Rightarrow> bool" where
  "dxgi_env_ok e \<longleftrightarrow> (case de_CreateDevice e of (hr, device, ctx) \<Rightarrow> hr = 0 \<longrightarrow> device \<noteq> 0 \<and> ctx \<noteq> 0) \<and>
     (\<forall>p i. com_ok (de_QueryInterface e p i)) \<and> (\<forall>p. com_ok (de_GetAdapter e p)) \<and> (\<forall>p. com_ok (de_EnumOutputs e p)) \<and>
     (\<forall>p q. com_ok (de_DuplicateOutput e p q)) \<and> (\<forall>p t. com_ok (de_CreateTexture2D e p t)) \<and> gdi_env_ok (de_gdi e)"

text \<open>Either the fallback is in use, or the fields belong to each other and the buffer has the announced size.\<close>

definition dxgi_ready :: "DXGICapture \<Rightarrow> bool" where
  "dxgi_ready d \<longleftrightarrow>
     (case dx_gdi d of
        Some g \<Rightarrow> gdi_ready g \<and> dx_device d = 0 \<and> dx_ctx d = 0 \<and> dx_dupl d = 0 \<and> dx_staging d = 0
      | None \<Rightarrow> (dx_dupl d \<noteq> 0 \<longrightarrow> dx_device d \<noteq> 0 \<and> dx_ctx d \<noteq> 0 \<and> dx_staging d \<noteq> 0) \<and> 0 < unat (dx_width d) \<and>
          dx_stride d = unat (dx_width d) * 4 \<and> length (dx_pixels d) = unat (dx_width d) * 4 * unat (dx_height d))"

text \<open>
  The answers during a capture for a screen of the given size: the rectangles fit in the buffer for them, and the mapped
  texture has the rows of the screen at its pitch.
\<close>

definition dxgi_frame_ok :: "nat \<Rightarrow> nat \<Rightarrow> dxgi_frame \<Rightarrow> bool" where
  "dxgi_frame_ok w h fr \<longleftrightarrow>
     dxgi_env_ok (fr_again fr) \<and> (\<forall>p i. com_ok (fr_QueryInterface fr p i)) \<and>
     (case fr_AcquireNextFrame fr of (hr, res, metaSize) \<Rightarrow> com_ok (hr, res) \<and>
       (case fr_GetFrameDirtyRects fr of (hr', written, sizeRequired) \<Rightarrow>
         length written \<le> unat metaSize \<and> (hr' = 0 \<longrightarrow> unat sizeRequired \<le> length written))) \<and>
     (case fr_Map fr of (hr, mem, pitch) \<Rightarrow> hr = 0 \<longrightarrow> w * 4 \<le> unat pitch \<and> unat pitch * h \<le> length mem) \<and>
     (case fr_BitBlt fr of None \<Rightarrow> True | Some s \<Rightarrow> w * 4 * h \<le> length s)"

definition dxgi_use_ok :: "dxgi_frame \<Rightarrow> DXGICapture \<Rightarrow> bool" where
  "dxgi_use_ok fr d \<longleftrightarrow> (case DXGICapture_Bounds d of (w, h) \<Rightarrow> dxgi_frame_ok (unat w) (unat h) fr)"

lemma runs_com_out [own_simps]:
  "own_runs (com_out msg obj ans) m Q \<longleftrightarrow> Com obj \<in># m \<and>
     (if fst ans = 0 then Q (Inr (snd ans)) (m + com_ref (snd ans)) else Q (Inl (Errorf msg [int (fst ans)])) m)"
  by (auto simp: com_out_def com_acquire_def com_ref_def own_simps)

lemma runs_comQueryInterface [own_simps]:
  "own_runs (comQueryInterface q obj iid) m Q \<longleftrightarrow> Com obj \<in># m \<and>
     (if fst (q obj iid) = 0 then Q (Inr (snd (q obj iid))) (m + com_ref (snd (q obj iid)))
      else Q (Inl (Errorf ''QueryInterface failed: 0x%08X'' [int (fst (q obj iid))])) m)"
  by (simp add: comQueryInterface_def runs_com_out)

lemma runs_com_acquire [own_simps]: "own_runs (com_acquire p) m Q \<longleftrightarrow> Q () (m + com_ref p)"
  by (simp add: com_acquire_def com_ref_def own_simps)

lemma runs_comRelease [own_simps]: "own_runs (comRelease p) m Q \<longleftrightarrow> com_ref p \<subseteq># m \<and> Q () (m - com_ref p)"
  by (simp add: comRelease_def com_ref_def own_simps)

lemma com_ref_zero [simp]: "com_ref 0 = {#}"
  by (simp add: com_ref_def)

lemma com_ref_nonzero: "p \<noteq> 0 \<Longrightarrow> com_ref p = {#Com p#}"
  by (simp add: com_ref_def)

text \<open>
  One step along the chain of interfaces: the reference that the method returns is given back when the
  function returns, so what the rest of the function leaves is left.
\<close>

lemma com_step:
  assumes "com_ok ans" and "Com obj \<in># m"
    and "\<And>err. own_runs (bad err) m (\<lambda>x m'. m' = base + H x \<and> P x)"
    and "\<And>p. p \<noteq> 0 \<Longrightarrow> own_runs (ok p) (add_mset (Com p) m) (\<lambda>x m'. m' = add_mset (Com p) base + H x \<and> P x)"
  shows "own_runs (own_bind (com_out msg obj ans) (\<lambda>r. case r of Inl err \<Rightarrow> bad err | Inr p \<Rightarrow> own_defer (comRelease p) (ok p)))
    m (\<lambda>x m'. m' = base + H x \<and> P x)"
proof (cases "fst ans = 0")
  case True
  then have "snd ans \<noteq> 0" using assms(1) by (simp add: com_ok_def)
  then show ?thesis using runs_mono [OF assms(4)] assms(2) True by (simp add: own_simps com_ref_def)
next
  case False
  then show ?thesis using assms(2,3) by (simp add: own_simps)
qed

text \<open>From the device to the output: the chain of interfaces that initialisation and re-creation share.\<close>

lemma com_chain:
  assumes ok: "\<And>p i. com_ok (de_QueryInterface e p i)" "\<And>p. com_ok (de_GetAdapter e p)" "\<And>p. com_ok (de_EnumOutputs e p)"
    and dev: "Com device \<in># m"
    and bad: "\<And>base err. own_runs (bad1 err) (base + m) (\<lambda>x m'. m' = base + b + H x \<and> P x)"
      "\<And>base err. own_runs (bad2 err) (base + m) (\<lambda>x m'. m' = base + b + H x \<and> P x)"
      "\<And>base err. own_runs (bad3 err) (base + m) (\<lambda>x m'. m' = base + b + H x \<and> P x)"
      "\<And>base err. own_runs (bad4 err) (base + m) (\<lambda>x m'. m' = base + b + H x \<and> P x)"
    and final: "\<And>base output1. output1 \<noteq> 0 \<Longrightarrow> Com output1 \<in># base \<Longrightarrow> own_runs (k output1) (base + m) (\<lambda>x m'. m' = base + b + H x \<and> P x)"
  shows "own_runs (own_bind (comQueryInterface (de_QueryInterface e) device iidIDXGIDevice) (\<lambda>r.
      case r of Inl err \<Rightarrow> bad1 err | Inr dxgiDev \<Rightarrow> own_defer (comRelease dxgiDev)
     (own_bind (com_out msg2 dxgiDev (de_GetAdapter e dxgiDev)) (\<lambda>r.
      case r of Inl err \<Rightarrow> bad2 err | Inr adapter \<Rightarrow> own_defer (comRelease adapter)
     (own_bind (com_out msg3 adapter (de_EnumOutputs e adapter)) (\<lambda>r.
      case r of Inl err \<Rightarrow> bad3 err | Inr out \<Rightarrow> own_defer (comRelease out)
     (own_bind (comQueryInterface (de_QueryInterface e) out iidIDXGIOutput1) (\<lambda>r.
      case r of Inl err \<Rightarrow> bad4 err | Inr output1 \<Rightarrow> own_defer (comRelease output1) (k output1)))))))))
    m (\<lambda>x m'. m' = b + H x \<and> P x)"
  unfolding comQueryInterface_def
proof (rule com_step [OF ok(1) dev])
  show "own_runs (bad1 err) m (\<lambda>x m'. m' = b + H x \<and> P x)" for err using bad(1) [of err "{#}"] by simp
next
  fix q1 :: nat assume q1: "q1 \<noteq> 0"
  let ?b1 = "{#Com q1#}"
  show "own_runs (own_bind (com_out msg2 q1 (de_GetAdapter e q1)) (\<lambda>r.
      case r of Inl err \<Rightarrow> bad2 err | Inr adapter \<Rightarrow> own_defer (comRelease adapter)
     (own_bind (com_out msg3 adapter (de_EnumOutputs e adapter)) (\<lambda>r.
      case r of Inl err \<Rightarrow> bad3 err | Inr out \<Rightarrow> own_defer (comRelease out)
     (own_bind (com_out ''QueryInterface failed: 0x%08X'' out (de_QueryInterface e out iidIDXGIOutput1)) (\<lambda>r.
      case r of Inl err \<Rightarrow> bad4 err | Inr output1 \<Rightarrow> own_defer (comRelease output1) (k output1)))))))
    (add_mset (Com q1) m) (\<lambda>x m'. m' = add_mset (Com q1) b + H x \<and> P x)"
  proof (rule com_step [OF ok(2)])
    show "own_runs (bad2 err) (add_mset (Com q1) m) (\<lambda>x m'. m' = add_mset (Com q1) b + H x \<and> P x)" for err
      using bad(2) [of err ?b1] by simp
  next
    fix q2 :: nat assume q2: "q2 \<noteq> 0"
    let ?b2 = "{#Com q2, Com q1#}"
    show "own_runs (own_bind (com_out msg3 q2 (de_EnumOutputs e q2)) (\<lambda>r.
      case r of Inl err \<Rightarrow> bad3 err | Inr out \<Rightarrow> own_defer (comRelease out)
     (own_bind (com_out ''QueryInterface failed: 0x%08X'' out (de_QueryInterface e out iidIDXGIOutput1)) (\<lambda>r.
      case r of Inl err \<Rightarrow> bad4 err | Inr output1 \<Rightarrow> own_defer (comRelease output1) (k output1)))))
      (add_mset (Com q2) (add_mset (Com q1) m)) (\<lambda>x m'. m' = add_mset (Com q2) (add_mset (Com q1) b) + H x \<and> P x)"
    proof (rule com_step [OF ok(3)])
      show "own_runs (bad3 err) (add_mset (Com q2) (add_mset (Com q1) m)) (\<lambda>x m'. m' = add_mset (Com q2) (add_mset (Com q1) b) + H x \<and> P x)"
        for err using bad(3) [of err ?b2] by simp
    next
      fix q3 :: nat assume q3: "q3 \<noteq> 0"
      let ?b3 = "{#Com q3, Com q2, Com q1#}"
      show "own_runs (own_bind (com_out ''QueryInterface failed: 0x%08X'' q3 (de_QueryInterface e q3 iidIDXGIOutput1)) (\<lambda>r.
        case r of Inl err \<Rightarrow> bad4 err | Inr output1 \<Rightarrow> own_defer (comRelease output1) (k output1)))
        (add_mset (Com q3) (add_mset (Com q2) (add_mset (Com q1) m)))
        (\<lambda>x m'. m' = add_mset (Com q3) (add_mset (Com q2) (add_mset (Com q1) b)) + H x \<and> P x)"
      proof (rule com_step [OF ok(1)])
        show "own_runs (bad4 err) (add_mset (Com q3) (add_mset (Com q2) (add_mset (Com q1) m)))
          (\<lambda>x m'. m' = add_mset (Com q3) (add_mset (Com q2) (add_mset (Com q1) b)) + H x \<and> P x)" for err
          using bad(4) [of err ?b3] by simp
        show "own_runs (k q4) (add_mset (Com q4) (add_mset (Com q3) (add_mset (Com q2) (add_mset (Com q1) m))))
          (\<lambda>x m'. m' = add_mset (Com q4) (add_mset (Com q3) (add_mset (Com q2) (add_mset (Com q1) b))) + H x \<and> P x)"
          if "q4 \<noteq> 0" for q4 using final [OF that, of "{#Com q4, Com q3, Com q2, Com q1#}"] by simp
      qed simp
    qed simp
  qed simp
qed

lemma release_all_runs [own_simps]:
  "(\<And>p. p \<in> set ps \<Longrightarrow> p \<noteq> 0) \<Longrightarrow> own_runs (release_all ps x) m Q \<longleftrightarrow> mset (map Com ps) \<subseteq># m \<and> Q x (m - mset (map Com ps))"
proof (induction ps arbitrary: m)
  case Nil
  then show ?case by (simp add: own_simps)
next
  case (Cons p ps)
  have "p \<noteq> 0" and rest: "\<And>q. q \<in> set ps \<Longrightarrow> q \<noteq> 0" using Cons.prems by auto
  then have "own_runs (release_all (p # ps) x) m Q \<longleftrightarrow>
      Com p \<in># m \<and> mset (map Com ps) \<subseteq># m - {#Com p#} \<and> Q x (m - {#Com p#} - mset (map Com ps))"
    using Cons.IH [OF rest] by (simp add: own_simps com_ref_def)
  also have "\<dots> \<longleftrightarrow> mset (map Com (p # ps)) \<subseteq># m \<and> Q x (m - mset (map Com (p # ps)))"
    by (auto simp: insert_subset_eq_iff)
  finally show ?case .
qed

text \<open>Initialisation holds exactly what its fields name; on every failing branch nothing is left.\<close>

text \<open>An opaque black picture.\<close>

definition black :: "nat \<Rightarrow> bytes" where
  "black n = map (\<lambda>i. if i mod 4 = 3 then 255 else 0) [0..<n]"

definition dxgi_init_post :: "dxgi_env \<Rightarrow> unit res \<times> DXGICapture \<Rightarrow> bool" where
  "dxgi_init_post e x \<longleftrightarrow>
     (case x of (r, d) \<Rightarrow>
       (case r of Inl _ \<Rightarrow> d = DXGICapture_zero
        | Inr _ \<Rightarrow> dxgi_ready d \<and> dx_gdi d = None \<and> dx_dupl d \<noteq> 0 \<and> (dx_width d, dx_height d) = screen_size (de_gdi e) \<and>
            dx_lastDirtyRects d = None \<and> dx_pixels d = black (unat (dx_width d) * unat (dx_height d) * 4)))"

lemma dxgi_zero_held [simp]: "dxgi_held DXGICapture_zero = {#}"
  by (simp add: dxgi_held_def DXGICapture_zero_def com_ref_def)

lemma black_pixels: "set_alpha n (replicate n 0) = Some (black n)"
proof (rule set_alpha_nth [of n "replicate n 0"])
  fix d
  assume "set_alpha n (replicate n 0) = Some d" "length d = length (replicate n (0 :: u8))"
    and "\<And>i. i < length (replicate n (0 :: u8)) \<Longrightarrow> d ! i = (if i < n \<and> i mod 4 = 3 then 255 else replicate n 0 ! i)"
  then show ?thesis by (auto simp: black_def intro!: nth_equalityI)
qed simp

lemma make_staging_owns:
  assumes "dxgi_env_ok e" and "device \<noteq> 0" and "ctx \<noteq> 0" and "dupl \<noteq> 0"
  shows "own_runs (make_staging e device ctx dupl DXGICapture_zero) (base + {#Com dupl, Com ctx, Com device#})
    (\<lambda>x m'. m' = base + dxgi_held (snd x) \<and> dxgi_init_post e x)"
proof -
  let ?w = "ge_GetSystemMetrics (de_gdi e) smCXScreen" and ?h = "ge_GetSystemMetrics (de_gdi e) smCYScreen"
  have size': "?w < 65536" "?h < 65536" using assms(1) by (simp_all add: dxgi_env_ok_def gdi_env_ok_def Let_def)
  note p = black_pixels [of "?w * ?h * 4"]
  have ok: "com_ok (de_CreateTexture2D e device (staging_desc ?w ?h))" using assms(1) by (simp add: dxgi_env_ok_def)
  show ?thesis
  proof (cases "?w = 0 \<or> ?h = 0 \<or> fst (de_CreateTexture2D e device (staging_desc ?w ?h)) \<noteq> 0")
    case True
    then show ?thesis using assms(2-4) by (auto simp: make_staging_def own_simps Let_def dxgi_init_post_def com_ref_nonzero)
  next
    case False
    then show ?thesis using assms(2-4) p size' ok
      by (simp add: make_staging_def own_simps Let_def dxgi_init_post_def dxgi_ready_def DXGICapture_zero_def dxgi_held_def
          com_ref_nonzero com_ok_def screen_size_def black_def)
  qed
qed

lemma initDXGI_owns:
  assumes "dxgi_env_ok e"
  shows "own_runs (initDXGI e DXGICapture_zero) m (\<lambda>x m'. m' = m + dxgi_held (snd x) \<and> dxgi_init_post e x)"
proof (cases "de_Find e = None \<and> fst (de_CreateDevice e) = 0")
  case False
  then show ?thesis by (auto simp: initDXGI_def own_simps dxgi_init_post_def split: option.split prod.split)
next
  case True
  then obtain device ctx where dev: "de_Find e = None" "de_CreateDevice e = (0, device, ctx)" by (cases "de_CreateDevice e") auto
  have nz: "device \<noteq> 0" "ctx \<noteq> 0" and ok: "\<And>p i. com_ok (de_QueryInterface e p i)" "\<And>p. com_ok (de_GetAdapter e p)"
    "\<And>p. com_ok (de_EnumOutputs e p)" "\<And>p q. com_ok (de_DuplicateOutput e p q)"
    using assms dev by (simp_all add: dxgi_env_ok_def)
  let ?Q = "\<lambda>base x m'. m' = base + m + dxgi_held (snd x) \<and> dxgi_init_post e x"
  have fails: "own_runs (release_all [ctx, device] (Inl err, DXGICapture_zero)) (base + (m + {#Com ctx, Com device#})) (?Q base)" for err base
    using nz by (simp add: own_simps dxgi_init_post_def com_ref_nonzero)
  have "own_runs (own_bind (own_seq (touch (Com device))
        (com_out ''IDXGIOutput1::DuplicateOutput: 0x%08X'' output1 (de_DuplicateOutput e output1 device))) (\<lambda>r.
      case r of
        Inl err \<Rightarrow> release_all [ctx, device] (Inl err, DXGICapture_zero)
      | Inr dupl \<Rightarrow> make_staging e device ctx dupl DXGICapture_zero)) (base + (m + {#Com ctx, Com device#})) (?Q base)"
    if "Com output1 \<in># base" for base output1
  proof (cases "fst (de_DuplicateOutput e output1 device) = 0")
    case True
    then have "snd (de_DuplicateOutput e output1 device) \<noteq> 0" using ok(4) [of output1 device] by (simp add: com_ok_def)
    then show ?thesis using make_staging_owns [OF assms nz, of "snd (de_DuplicateOutput e output1 device)" "base + m"] True that
      by (simp add: own_runs_bind runs_seq runs_touch runs_com_out com_ref_nonzero add_mset_commute)
  next
    case False
    then show ?thesis using fails [of _ base] that by (simp add: own_runs_bind runs_seq runs_touch runs_com_out)
  qed
  note final = this
  have "own_runs (open_duplication e device ctx DXGICapture_zero) (m + {#Com ctx, Com device#})
      (\<lambda>x m'. m' = m + dxgi_held (snd x) \<and> dxgi_init_post e x)"
    unfolding open_duplication_def
    by (rule com_chain [where H = "\<lambda>x. dxgi_held (snd x)" and P = "dxgi_init_post e", OF ok(1-3)], (rule fails final | assumption | simp)+)
  then show ?thesis using dev nz by (simp add: initDXGI_def runs_seq runs_com_acquire com_ref_nonzero)
qed

lemma DXGI_Init_runs:
  assumes "dxgi_env_ok e"
  shows "own_runs (DXGICapture_Init e DXGICapture_zero) m (\<lambda>(r, d) m'. m' = m + dxgi_held d \<and>
    (case r of Inl _ \<Rightarrow> dxgi_held d = {#}
     | Inr _ \<Rightarrow> dxgi_ready d \<and> DXGICapture_Bounds d = screen_size (de_gdi e) \<and> (dx_gdi d = None \<longrightarrow> dxgi_init_post e (Inr (), d))))"
    (is "own_runs _ _ ?Q")
proof -
  note g = GDI_Init_owns [of "de_gdi e" m]
  have ok: "gdi_env_ok (de_gdi e)" using assms by (simp add: dxgi_env_ok_def)
  have h: "dxgi_held (DXGICapture_zero\<lparr>dx_gdi := Some g\<rparr>) = gdi_held g"
    "dxgi_ready (DXGICapture_zero\<lparr>dx_gdi := Some g\<rparr>) \<longleftrightarrow> gdi_ready g"
    "DXGICapture_Bounds (DXGICapture_zero\<lparr>dx_gdi := Some g\<rparr>) = GDICapture_Bounds g" for g
    by (simp_all add: dxgi_held_def dxgi_ready_def DXGICapture_zero_def com_ref_def DXGICapture_Bounds_def)
  show ?thesis unfolding DXGICapture_Init_def own_runs_bind
  proof (rule runs_mono [OF initDXGI_owns [OF assms]])
    fix x m'
    assume x: "m' = m + dxgi_held (snd x) \<and> dxgi_init_post e x"
    obtain r d where rd: "x = (r, d)" by (cases x)
    show "own_runs (case x of (Inl _, d) \<Rightarrow> own_bind (GDICapture_Init (de_gdi e) GDICapture_zero) (\<lambda>(r', g). own_ret (r', d\<lparr>dx_gdi := Some g\<rparr>))
        | (Inr _, d) \<Rightarrow> own_ret (Inr (), d)) m' ?Q"
    proof (cases r)
      case (Inl err)
      then have "d = DXGICapture_zero" "m' = m" using x rd by (auto simp: dxgi_init_post_def)
      then show ?thesis using rd Inl runs_mono [OF g [OF ok]] by (auto simp: own_runs_bind runs_ret h split: sum.splits)
    next
      case (Inr u)
      then show ?thesis using x rd by (auto simp: dxgi_init_post_def runs_ret DXGICapture_Bounds_def)
    qed
  qed
qed

lemma recreate_owns:
  assumes "dxgi_env_ok e" and "dx_device d \<noteq> 0" and "dx_gdi d = None"
  shows "own_runs (recreateDuplication e d) (m + dxgi_held d)
    (\<lambda>d' m'. m' = m + dxgi_held d' \<and> d' = d\<lparr>dx_dupl := dx_dupl d'\<rparr>)"
proof -
  let ?d = "d\<lparr>dx_dupl := 0\<rparr>"
  have ok: "\<And>p i. com_ok (de_QueryInterface e p i)" "\<And>p. com_ok (de_GetAdapter e p)"
    "\<And>p. com_ok (de_EnumOutputs e p)" "\<And>p q. com_ok (de_DuplicateOutput e p q)"
    using assms by (simp_all add: dxgi_env_ok_def)
  let ?Q = "\<lambda>base x m'. m' = base + m + dxgi_held x \<and> x = d\<lparr>dx_dupl := dx_dupl x\<rparr>"
  have fails: "own_runs (own_ret ?d) (base + (m + dxgi_held ?d)) (?Q base)" for base by (simp add: own_simps)
  have final: "own_runs (own_bind (own_seq (touch (Com (dx_device ?d)))
        (com_out ''DuplicateOutput failed: 0x%08X'' output1 (de_DuplicateOutput e output1 (dx_device ?d)))) (\<lambda>r.
      case r of Inl _ \<Rightarrow> own_ret ?d | Inr dupl \<Rightarrow> own_ret (?d\<lparr>dx_dupl := dupl\<rparr>))) (base + (m + dxgi_held ?d)) (?Q base)"
    if "Com output1 \<in># base" for base output1
    using that assms(2) by (simp add: own_simps dxgi_held_def com_ref_nonzero)
  have "own_runs (duplicate_again e ?d) (m + dxgi_held ?d) (\<lambda>x m'. m' = m + dxgi_held x \<and> x = d\<lparr>dx_dupl := dx_dupl x\<rparr>)"
    unfolding duplicate_again_def
  proof (rule com_chain [where H = dxgi_held and P = "\<lambda>x. x = d\<lparr>dx_dupl := dx_dupl x\<rparr>", OF ok(1-3)])
    show "Com (dx_device ?d) \<in># m + dxgi_held ?d" using assms(2) by (simp add: dxgi_held_def com_ref_nonzero)
  qed (rule fails final | assumption)+
  moreover have "m + dxgi_held d - com_ref (dx_dupl d) = m + dxgi_held ?d" "com_ref (dx_dupl d) \<subseteq># m + dxgi_held d"
    by (simp_all add: dxgi_held_def com_ref_def)
  moreover have "?d = d" if "dx_dupl d = 0" using that by (cases d) simp
  ultimately show ?thesis
    by (cases "dx_dupl d = 0") (simp_all add: recreateDuplication_def own_runs_bind runs_seq runs_ret runs_comRelease)
qed


section \<open>One capture\<close>

text \<open>The rows of the screen in a mapped texture.\<close>

definition mapped_picture :: "nat \<Rightarrow> nat \<Rightarrow> bytes \<Rightarrow> nat \<Rightarrow> bytes" where
  "mapped_picture w h mem pitch = concat (map (\<lambda>y. take (w * 4) (drop (y * pitch) mem)) [0..<h])"

lemma mapped_picture_rows:
  assumes "w * 4 \<le> pitch" and "pitch * h \<le> length mem" and "x \<in> set (map (\<lambda>y. take (w * 4) (drop (y * pitch) mem)) [0..<h])"
  shows "length x = w * 4"
proof -
  obtain y where y: "y < h" "x = take (w * 4) (drop (y * pitch) mem)" using assms(3) by auto
  have "y * pitch + w * 4 \<le> pitch * h" by (rule row_in [OF y(1) assms(1)])
  then show ?thesis using y(2) assms(2) by simp
qed

lemma mapped_picture_length:
  assumes "w * 4 \<le> pitch" and "pitch * h \<le> length mem"
  shows "length (mapped_picture w h mem pitch) = h * (w * 4)"
proof -
  let ?rows = "map (\<lambda>y. take (w * 4) (drop (y * pitch) mem)) [0..<h]"
  have "length (concat ?rows) = length ?rows * (w * 4)" by (rule concat_const_length) (rule mapped_picture_rows [OF assms])
  then show ?thesis by (simp add: mapped_picture_def)
qed

lemma mapped_picture_nth:
  assumes "w * 4 \<le> pitch" and "pitch * h \<le> length mem" and "0 < w" and "i < h * (w * 4)"
  shows "mapped_picture w h mem pitch ! i = mem ! (i div (w * 4) * pitch + i mod (w * 4))"
proof -
  have y: "i div (w * 4) < h" and k: "i mod (w * 4) < w * 4" using assms(3,4) by (simp_all add: less_mult_imp_div_less)
  have "mapped_picture w h mem pitch ! (i div (w * 4) * (w * 4) + i mod (w * 4)) =
      map (\<lambda>y. take (w * 4) (drop (y * pitch) mem)) [0..<h] ! (i div (w * 4)) ! (i mod (w * 4))"
    unfolding mapped_picture_def
    by (rule concat_nth_block) (rule mapped_picture_rows [OF assms(1,2)], use y k in simp_all)
  moreover have "i div (w * 4) * pitch + w * 4 \<le> length mem" using row_in [OF y assms(1)] assms(2) by simp
  ultimately show ?thesis using y k by (simp add: div_mult_mod_eq)
qed

text \<open>Both branches of the copy yield that picture.\<close>

lemma copy_mapped_picture:
  assumes "w * 4 \<le> pitch" and "pitch * h \<le> length mem" and "0 < w" and "length pixels = w * 4 * h"
  shows "copy_mapped w h mem pitch pixels = Some (mapped_picture w h mem pitch)"
proof -
  have "0 + pitch * h \<le> length mem" using assms(2) by simp
  then obtain d where d: "(if pitch = w * 4 then memcpy 0 mem 0 (w * 4 * h) pixels else copy_rows (w * 4) mem 0 pitch (min pitch (w * 4)) h pixels) = Some d"
    "length d = length pixels" "\<And>i. i < length pixels \<Longrightarrow> d ! i =
      (if i div (w * 4) < h \<and> i mod (w * 4) < min pitch (w * 4) then mem ! (0 + i div (w * 4) * pitch + i mod (w * 4)) else pixels ! i)"
    using copy_picture_nth [of "w * 4" h pixels 0 pitch mem] assms(3,4) by auto
  have "d = mapped_picture w h mem pitch"
  proof (rule nth_equalityI)
    show "length d = length (mapped_picture w h mem pitch)" using d(2) assms(4) mapped_picture_length [OF assms(1,2)] by simp
    fix i assume "i < length d"
    then have i: "i < h * (w * 4)" using d(2) assms(4) by (simp add: mult.commute)
    then have "i div (w * 4) < h" "i mod (w * 4) < w * 4" using assms(3) by (simp_all add: less_mult_imp_div_less)
    then show "d ! i = mapped_picture w h mem pitch ! i"
      using d(3) [of i] mapped_picture_nth [OF assms(1-3) i] i assms(1,4) by (simp add: mult.commute min_absorb2)
  qed
  moreover have "copy_mapped w h mem pitch pixels = Some d"
  proof (cases "pitch = w * 4")
    case True
    then show ?thesis using d(1,2) assms(2,4) by (auto simp: copy_mapped_def memcpy_def mult.commute)
  next
    case False
    then show ?thesis using d(1) assms(1) by (simp add: copy_mapped_def min_absorb2)
  qed
  ultimately show ?thesis by simp
qed

text \<open>The rectangles that a frame reports, given those of the frame before.\<close>

definition reported_rects :: "nat \<times> bytes \<times> u32 \<Rightarrow> u32 \<Rightarrow> rect list option \<Rightarrow> rect list option" where
  "reported_rects ans metaSize before =
     (case ans of (hr, written, sizeRequired) \<Rightarrow>
       if metaSize = 0 \<or> hr \<noteq> 0 then None
       else if unat sizeRequired div 16 = 0 then map_option (\<lambda>_. []) before
       else Some (map (\<lambda>i. win_rect (take 16 (drop (i * 16) written))) [0..<unat sizeRequired div 16]))"

lemma those_total: "(\<And>x. x \<in> set xs \<Longrightarrow> f x = Some (g x)) \<Longrightarrow> those (map f xs) = Some (map g xs)"
  by (induction xs) auto

lemma query_runs:
  assumes "ans = (hr, written, sizeRequired)" and "length written \<le> unat metaSize" and "hr = 0 \<longrightarrow> unat sizeRequired \<le> length written"
    and "Com (dx_dupl d) \<in># m" and "DuplFrame (dx_dupl d) \<in># m"
  shows "own_runs (queryDirtyRects ans metaSize d) m (\<lambda>(r, d') m'. m' = m \<and> d' = d\<lparr>dx_metaBuf := dx_metaBuf d'\<rparr> \<and>
    r = reported_rects ans metaSize (dx_lastDirtyRects d))"
proof -
  define buf where "buf = copy (if length (dx_metaBuf d) < unat metaSize then replicate (unat metaSize) 0 else dx_metaBuf d) written"
  have buf: "unat metaSize \<le> length buf" "take (length written) buf = written"
    using assms(2) by (auto simp: buf_def copy_def)
  have "rect_at (unat metaSize) buf i = Some (win_rect (take 16 (drop (i * 16) written)))"
    if "i \<in> set [0..<unat sizeRequired div 16]" and "hr = 0" for i
  proof -
    have "i * 16 + 16 \<le> length written" using that assms(3) by auto
    moreover from this have "take 16 (drop (i * 16) buf) = take 16 (drop (i * 16) (take (length written) buf))"
      by (simp add: drop_take)
    ultimately show ?thesis using buf assms(2) by (simp add: rect_at_def)
  qed
  then have "hr = 0 \<Longrightarrow> those (map (rect_at (unat metaSize) buf) [0..<unat sizeRequired div 16]) =
      Some (map (\<lambda>i. win_rect (take 16 (drop (i * 16) written))) [0..<unat sizeRequired div 16])"
    by (intro those_total) blast
  then show ?thesis using assms(1,2,4,5)
    by (simp add: queryDirtyRects_def own_simps Let_def reported_rects_def buf_def [symmetric])
qed


text \<open>
  What a capture does to the picture: a frame that was acquired and mapped replaces it, everything else leaves it.
\<close>

definition frame_delivered :: "dxgi_frame \<Rightarrow> (bytes \<times> nat) option" where
  "frame_delivered fr =
     (case (fr_AcquireNextFrame fr, fr_Map fr) of ((hr, res, metaSize), (hr', mem, pitch)) \<Rightarrow>
       if hr = 0 \<and> fst (fr_QueryInterface fr res iidID3D11Texture2D) = 0 \<and> hr' = 0 then Some (mem, unat pitch) else None)"

definition frame_unchanged :: "dxgi_frame \<Rightarrow> bool" where
  "frame_unchanged fr \<longleftrightarrow> fst (fr_AcquireNextFrame fr) \<in> {dxgiErrorWaitTimeout, dxgiErrorAccessLost}"

definition picture_after :: "nat \<Rightarrow> nat \<Rightarrow> dxgi_frame \<Rightarrow> bytes \<Rightarrow> bytes" where
  "picture_after w h fr p = (case frame_delivered fr of None \<Rightarrow> p | Some (mem, pitch) \<Rightarrow> mapped_picture w h mem pitch)"

definition report_after :: "dxgi_frame \<Rightarrow> rect list option \<Rightarrow> rect list option" where
  "report_after fr before =
     (case fr_AcquireNextFrame fr of (hr, res, metaSize) \<Rightarrow>
       if hr = dxgiErrorWaitTimeout then map_option (\<lambda>_. []) before
       else if hr = 0 \<and> fst (fr_QueryInterface fr res iidID3D11Texture2D) = 0
       then reported_rects (fr_GetFrameDirtyRects fr) metaSize before else before)"

text \<open>The duplication after a capture: a lost one is made again, or is none.\<close>

definition duplication_again :: "dxgi_env \<Rightarrow> nat \<Rightarrow> nat" where
  "duplication_again e device =
     (let q = de_QueryInterface e device iidIDXGIDevice; a = de_GetAdapter e (snd q); p = de_EnumOutputs e (snd a);
          q1 = de_QueryInterface e (snd p) iidIDXGIOutput1; u = de_DuplicateOutput e (snd q1) device in
      if fst q = 0 \<and> fst a = 0 \<and> fst p = 0 \<and> fst q1 = 0 \<and> fst u = 0 then snd u else 0)"

definition dupl_after :: "dxgi_frame \<Rightarrow> nat \<Rightarrow> nat \<Rightarrow> nat" where
  "dupl_after fr device dupl =
     (if fst (fr_AcquireNextFrame fr) = dxgiErrorAccessLost then duplication_again (fr_again fr) device else dupl)"

text \<open>The outcome of a capture by duplication; the fields it does not touch.\<close>

definition dxgi_fixed :: "DXGICapture \<Rightarrow> nat \<times> nat \<times> nat \<times> u16 \<times> u16 \<times> nat \<times> GDICapture option" where
  "dxgi_fixed d = (dx_device d, dx_ctx d, dx_staging d, dx_width d, dx_height d, dx_stride d, dx_gdi d)"

definition capture_post :: "dxgi_frame \<Rightarrow> DXGICapture \<Rightarrow> (bytes \<times> nat) res \<times> DXGICapture \<Rightarrow> bool" where
  "capture_post fr d x \<longleftrightarrow>
     (case x of (r, d') \<Rightarrow>
       dxgi_fixed d' = dxgi_fixed d \<and>
       dx_dupl d' = dupl_after fr (dx_device d) (dx_dupl d) \<and> dx_lastDirtyRects d' = report_after fr (dx_lastDirtyRects d) \<and>
       dx_pixels d' = picture_after (unat (dx_width d)) (unat (dx_height d)) fr (dx_pixels d) \<and>
       (case r of Inr v \<Rightarrow> v = (dx_pixels d', dx_stride d) \<and> (frame_unchanged fr \<or> frame_delivered fr \<noteq> None)
        | Inl _ \<Rightarrow> \<not> frame_unchanged fr \<and> frame_delivered fr = None))"

lemma dxgi_held_running:
  "dxgi_ready d \<Longrightarrow> dx_gdi d = None \<Longrightarrow> dx_dupl d \<noteq> 0 \<Longrightarrow>
     dxgi_held d = {#Com (dx_device d), Com (dx_ctx d), Com (dx_dupl d), Com (dx_staging d)#}"
  by (simp add: dxgi_held_def dxgi_ready_def com_ref_nonzero)

lemma dxgi_held_fields [simp]:
  "dxgi_held (d\<lparr>dx_pixels := p\<rparr>) = dxgi_held d" "dxgi_held (d\<lparr>dx_lastDirtyRects := l\<rparr>) = dxgi_held d"
  "dxgi_held (d\<lparr>dx_metaBuf := b\<rparr>) = dxgi_held d"
  by (simp_all add: dxgi_held_def)

lemma gives_com_out:
  assumes "\<And>err. fst ans \<noteq> 0 \<Longrightarrow> gives (bad err) P" and "fst ans = 0 \<Longrightarrow> gives (ok (snd ans)) P"
  shows "gives (own_bind (com_out msg obj ans) (\<lambda>r. case r of Inl err \<Rightarrow> bad err | Inr p \<Rightarrow> ok p)) P"
  using assms by (auto simp: gives_def own_bind_def com_out_def own_seq_def touch_def own_ret_def com_acquire_def acquire_def
      split: option.splits if_splits)

lemma gives_com_out_touch:
  assumes "gives (own_bind (com_out msg obj ans) f) P"
  shows "gives (own_bind (own_seq (touch r) (com_out msg obj ans)) f) P"
  using assms by (auto simp: gives_def own_bind_def own_seq_def touch_def split: option.splits if_splits)

lemma duplicate_again_result:
  assumes "duplicate_again e d m = Some (d', m')" and "dx_dupl d = 0"
  shows "d' = d\<lparr>dx_dupl := duplication_again e (dx_device d)\<rparr>"
proof -
  have same: "d\<lparr>dx_dupl := 0\<rparr> = d" using assms(2) by (cases d) simp
  have "gives (duplicate_again e d) (\<lambda>d'. d' = d\<lparr>dx_dupl := duplication_again e (dx_device d)\<rparr>)"
    unfolding duplicate_again_def comQueryInterface_def
    by (intro gives_com_out gives_com_out_touch gives_defer gives_ret) (simp_all add: duplication_again_def Let_def same)
  then show ?thesis using assms(1) unfolding gives_def by blast
qed

lemma recreate_result:
  "recreateDuplication e d m = Some (d', m') \<Longrightarrow> d' = d\<lparr>dx_dupl := duplication_again e (dx_device d)\<rparr>"
  by (auto simp: recreateDuplication_def own_bind_def own_seq_def own_ret_def split: if_splits option.splits
      dest!: duplicate_again_result)

lemma read_texture_runs:
  assumes "dxgi_ready d" and "dx_gdi d = None" and "dx_dupl d \<noteq> 0" and "dxgi_use_ok fr d" and "tex \<noteq> 0"
    and "fr_AcquireNextFrame fr = (0, res, metaSize)" and "fst (fr_QueryInterface fr res iidID3D11Texture2D) = 0"
  shows "own_runs (read_texture fr metaSize tex d) (add_mset (Com tex) (add_mset (DuplFrame (dx_dupl d)) (m + dxgi_held d)))
    (\<lambda>x m'. m' = m + dxgi_held (snd x) \<and> capture_post fr d x)"
proof -
  obtain hr' written sizeRequired where q: "fr_GetFrameDirtyRects fr = (hr', written, sizeRequired)"
    by (cases "fr_GetFrameDirtyRects fr")
  obtain hr'' mem pitch where mp: "fr_Map fr = (hr'', mem, pitch)" by (cases "fr_Map fr")
  have b: "DXGICapture_Bounds d = (dx_width d, dx_height d)" using assms(2) by (simp add: DXGICapture_Bounds_def)
  have ok: "length written \<le> unat metaSize" "hr' = 0 \<longrightarrow> unat sizeRequired \<le> length written"
    "hr'' = 0 \<Longrightarrow> unat (dx_width d) * 4 \<le> unat pitch \<and> unat pitch * unat (dx_height d) \<le> length mem"
    using assms(4,6) q mp b by (simp_all add: dxgi_use_ok_def dxgi_frame_ok_def)
  let ?M = "add_mset (DuplFrame (dx_dupl d)) (m + dxgi_held d)"
  note held = dxgi_held_running [OF assms(1-3)]
  have "own_runs (queryDirtyRects (fr_GetFrameDirtyRects fr) metaSize d) ?M (\<lambda>(r, d') m'. m' = ?M \<and> d' = d\<lparr>dx_metaBuf := dx_metaBuf d'\<rparr> \<and>
      r = reported_rects (fr_GetFrameDirtyRects fr) metaSize (dx_lastDirtyRects d))"
    by (rule query_runs [OF q ok(1,2)]) (simp_all add: held)
  then obtain r' b' where run: "queryDirtyRects (fr_GetFrameDirtyRects fr) metaSize d ?M = Some ((r', d\<lparr>dx_metaBuf := b'\<rparr>), ?M)"
    and r': "r' = reported_rects (fr_GetFrameDirtyRects fr) metaSize (dx_lastDirtyRects d)"
    by (fastforce dest!: runs_result)
  have run: "own_runs (queryDirtyRects (fr_GetFrameDirtyRects fr) metaSize d) ?M Q \<longleftrightarrow> Q (r', d\<lparr>dx_metaBuf := b'\<rparr>) ?M" for Q
    by (simp add: own_runs_def run)
  have after: "dupl_after fr (dx_device d) (dx_dupl d) = dx_dupl d" "report_after fr (dx_lastDirtyRects d) = r'"
    using assms(6,7) r' by (simp_all add: dupl_after_def report_after_def dxgiErrorWaitTimeout_def dxgiErrorAccessLost_def)
  have nu: "\<not> frame_unchanged fr" using assms(6) by (simp add: frame_unchanged_def dxgiErrorWaitTimeout_def dxgiErrorAccessLost_def)
  show ?thesis
  proof (cases "hr'' = 0")
    case True
    have c: "copy_mapped (unat (dx_width d)) (unat (dx_height d)) mem (unat pitch) (dx_pixels d) =
        Some (mapped_picture (unat (dx_width d)) (unat (dx_height d)) mem (unat pitch))"
      using ok(3) [OF True] assms(1,2) by (intro copy_mapped_picture) (simp_all add: dxgi_ready_def)
    have "frame_delivered fr = Some (mem, unat pitch)" using True mp assms(6,7) by (simp add: frame_delivered_def)
    then show ?thesis using assms(5) True mp c run nu after
      by (simp add: read_texture_def own_simps release_frame_def Let_def com_ref_nonzero capture_post_def picture_after_def held dxgi_fixed_def)
  next
    case False
    then have "frame_delivered fr = None" using mp assms(6) by (simp add: frame_delivered_def)
    then show ?thesis using assms(5) False mp run nu after
      by (simp add: read_texture_def own_simps release_frame_def Let_def com_ref_nonzero capture_post_def picture_after_def held dxgi_fixed_def)
  qed
qed


lemma DXGI_Capture_runs:
  assumes "dxgi_ready d" and "dx_gdi d = None" and "dx_dupl d \<noteq> 0" and "dxgi_use_ok fr d"
  shows "own_runs (DXGICapture_Capture fr d) (m + dxgi_held d) (\<lambda>x m'. m' = m + dxgi_held (snd x) \<and> capture_post fr d x)"
proof -
  obtain hr res metaSize where a: "fr_AcquireNextFrame fr = (hr, res, metaSize)" by (cases "fr_AcquireNextFrame fr")
  note held = dxgi_held_running [OF assms(1-3)]
  have ok: "hr = 0 \<Longrightarrow> res \<noteq> 0" "com_ok (fr_QueryInterface fr res iidID3D11Texture2D)" "dxgi_env_ok (fr_again fr)"
    using assms(4) a by (auto simp: dxgi_use_ok_def dxgi_frame_ok_def com_ok_def split: prod.splits)
  have codes: "dxgiErrorWaitTimeout \<noteq> 0" "dxgiErrorAccessLost \<noteq> 0" "dxgiErrorWaitTimeout \<noteq> dxgiErrorAccessLost"
    by (simp_all add: dxgiErrorWaitTimeout_def dxgiErrorAccessLost_def)
  have same: "picture_after w h fr p = p" if "hr \<noteq> 0" for w h p using that a
    by (simp add: picture_after_def frame_delivered_def split: prod.split)
  have none: "frame_delivered fr = None" if "hr \<noteq> 0" using that a by (simp add: frame_delivered_def split: prod.split)
  consider (timeout) "hr = dxgiErrorWaitTimeout" | (lost) "hr = dxgiErrorAccessLost"
    | (fault) "hr \<noteq> dxgiErrorWaitTimeout" "hr \<noteq> dxgiErrorAccessLost" "hr \<noteq> 0"
    | (query) "hr = 0" "fst (fr_QueryInterface fr res iidID3D11Texture2D) \<noteq> 0"
    | (frame) "hr = 0" "fst (fr_QueryInterface fr res iidID3D11Texture2D) = 0" by blast
  then show ?thesis
  proof cases
    case timeout
    then show ?thesis using assms(2,3) a codes same
      by (simp add: DXGICapture_Capture_def own_simps held capture_post_def dxgi_fixed_def dupl_after_def report_after_def frame_unchanged_def)
  next
    case lost
    let ?d = "d\<lparr>dx_dupl := duplication_again (fr_again fr) (dx_device d)\<rparr>"
    have "own_runs (recreateDuplication (fr_again fr) d) (m + dxgi_held d) (\<lambda>d' m'. m' = m + dxgi_held d' \<and> d' = d\<lparr>dx_dupl := dx_dupl d'\<rparr>)"
      using assms(1-3) ok(3) by (intro recreate_owns) (simp_all add: dxgi_ready_def)
    from runs_result [OF this] obtain d' where "recreateDuplication (fr_again fr) d (m + dxgi_held d) = Some (d', m + dxgi_held d')" by blast
    then have "recreateDuplication (fr_again fr) d (m + dxgi_held d) = Some (?d, m + dxgi_held ?d)" using recreate_result by blast
    then have run: "own_runs (recreateDuplication (fr_again fr) d) (m + dxgi_held d) Q \<longleftrightarrow> Q ?d (m + dxgi_held ?d)" for Q
      by (simp add: own_runs_def)
    have "Com (dx_dupl d) \<in># m + dxgi_held d" by (simp add: held)
    then show ?thesis using lost assms(2,3) a codes same run
      by (simp add: DXGICapture_Capture_def runs_seq runs_touch own_runs_bind runs_ret capture_post_def dxgi_fixed_def dupl_after_def report_after_def frame_unchanged_def)
  next
    case fault
    then show ?thesis using assms(2,3) a same none
      by (simp add: DXGICapture_Capture_def own_simps held capture_post_def dxgi_fixed_def dupl_after_def report_after_def frame_unchanged_def)
  next
    case query
    then have "frame_delivered fr = None" using a by (simp add: frame_delivered_def split: prod.split)
    then show ?thesis using query assms(2,3) a codes ok(1)
      by (simp add: DXGICapture_Capture_def own_simps held capture_post_def dxgi_fixed_def dupl_after_def report_after_def frame_unchanged_def picture_after_def release_frame_def com_ref_nonzero)
  next
    case frame
    have tex: "snd (fr_QueryInterface fr res iidID3D11Texture2D) \<noteq> 0" using ok(2) frame(2) by (simp add: com_ok_def)
    let ?t = "snd (fr_QueryInterface fr res iidID3D11Texture2D)"
    have "own_runs (read_texture fr metaSize ?t d) (add_mset (Com ?t) (add_mset (DuplFrame (dx_dupl d)) (m + dxgi_held d)))
        (\<lambda>x m'. m' = m + dxgi_held (snd x) \<and> capture_post fr d x)"
      by (rule read_texture_runs [OF assms tex]) (use frame a in simp_all)
    then show ?thesis using frame assms(2,3) a codes ok(1) tex
      by (simp add: DXGICapture_Capture_def runs_seq runs_touch own_runs_bind runs_acquire runs_com_acquire runs_comRelease
          runs_comQueryInterface held com_ref_nonzero)
  qed
qed

lemma capture_post_ready:
  assumes "dxgi_ready d" and "dx_gdi d = None" and "dx_dupl d \<noteq> 0" and "dxgi_use_ok fr d" and "capture_post fr d x"
  shows "dxgi_ready (snd x)" and "dx_gdi (snd x) = None" and "DXGICapture_Bounds (snd x) = DXGICapture_Bounds d"
proof -
  obtain r d' where x: "x = (r, d')" by (cases x)
  have fields: "dx_gdi d' = dx_gdi d" "dx_width d' = dx_width d" "dx_height d' = dx_height d" "dx_stride d' = dx_stride d"
    "dx_device d' = dx_device d" "dx_ctx d' = dx_ctx d" "dx_staging d' = dx_staging d"
    and p: "dx_pixels d' = picture_after (unat (dx_width d)) (unat (dx_height d)) fr (dx_pixels d)"
    using assms(5) x by (simp_all add: capture_post_def dxgi_fixed_def)
  show "dx_gdi (snd x) = None" "DXGICapture_Bounds (snd x) = DXGICapture_Bounds d"
    using fields assms(2) x by (simp_all add: DXGICapture_Bounds_def)
  have "length (dx_pixels d') = length (dx_pixels d)"
  proof (cases "frame_delivered fr")
    case (Some a)
    obtain mem pitch where a: "a = (mem, pitch)" by (cases a)
    have "unat (dx_width d) * 4 \<le> pitch" "pitch * unat (dx_height d) \<le> length mem"
      using Some a assms(2,4) by (auto simp: frame_delivered_def dxgi_use_ok_def dxgi_frame_ok_def DXGICapture_Bounds_def split: prod.splits if_splits)
    then show ?thesis using Some a p assms(1,2) mapped_picture_length
      by (simp add: picture_after_def dxgi_ready_def)
  qed (simp add: p picture_after_def)
  then show "dxgi_ready (snd x)" using assms(1-3) fields x by (simp add: dxgi_ready_def)
qed

lemma dxgi_capture_law:
  assumes "dxgi_ready d" and "dxgi_use_ok fr d"
  shows "own_runs (DXGICapture_Capture fr d) (m + dxgi_held d) (\<lambda>(r, d') m'. m' = m + dxgi_held d' \<and> dxgi_ready d' \<and>
    (\<forall>u. dxgi_use_ok u d' \<longleftrightarrow> dxgi_use_ok u d))"
proof (cases "dx_gdi d")
  case (Some g)
  have "gdi_ready g" "gdi_use_ok (fr_BitBlt fr) g"
    using assms Some by (auto simp: dxgi_ready_def dxgi_use_ok_def dxgi_frame_ok_def gdi_use_ok_def DXGICapture_Bounds_def GDICapture_Bounds_def)
  from GDI_Capture_runs [OF this, of m] obtain r p where
    run: "GDICapture_Capture (fr_BitBlt fr) g (m + gdi_held g) = Some ((r, g\<lparr>gc_pixels := p\<rparr>), m + gdi_held g)"
    and len: "length p = length (gc_pixels g)" by (fastforce dest!: runs_result)
  have "dxgi_held d = gdi_held g" "dxgi_held (d\<lparr>dx_gdi := Some (g\<lparr>gc_pixels := p\<rparr>)\<rparr>) = gdi_held g"
    using assms(1) Some by (simp_all add: dxgi_ready_def dxgi_held_def com_ref_def gdi_held_def)
  moreover have "own_runs (GDICapture_Capture (fr_BitBlt fr) g) (m + gdi_held g) Q \<longleftrightarrow> Q (r, g\<lparr>gc_pixels := p\<rparr>) (m + gdi_held g)" for Q
    by (simp add: own_runs_def run)
  moreover have "dxgi_ready (d\<lparr>dx_gdi := Some (g\<lparr>gc_pixels := p\<rparr>)\<rparr>)"
    using Some len assms(1) by (simp add: dxgi_ready_def gdi_ready_def)
  moreover have "dxgi_use_ok u (d\<lparr>dx_gdi := Some (g\<lparr>gc_pixels := p\<rparr>)\<rparr>) \<longleftrightarrow> dxgi_use_ok u d" for u
    using Some by (simp add: dxgi_use_ok_def DXGICapture_Bounds_def GDICapture_Bounds_def)
  ultimately show ?thesis using Some by (simp add: DXGICapture_Capture_def own_runs_bind runs_ret)
next
  case None
  show ?thesis
  proof (cases "dx_dupl d = 0")
    case True
    then show ?thesis using None assms(1) by (simp add: DXGICapture_Capture_def own_simps)
  next
    case False
    show ?thesis
      by (rule runs_mono [OF DXGI_Capture_runs [OF assms(1) None False assms(2)]])
        (use capture_post_ready [OF assms(1) None False assms(2)] in \<open>auto simp: dxgi_use_ok_def\<close>)
  qed
qed

lemma dxgi_close_law: "dxgi_ready d \<Longrightarrow> own_runs (DXGICapture_Close d) (m + dxgi_held d) (\<lambda>d' m'. m' = m \<and> dxgi_held d' = {#})"
proof (cases "dx_gdi d")
  case (Some g)
  assume "dxgi_ready d"
  then have "gdi_ready g" and h: "dxgi_held d = gdi_held g" "\<And>g'. dxgi_held (d\<lparr>dx_gdi := Some g'\<rparr>) = gdi_held g'"
    using Some by (simp_all add: dxgi_ready_def dxgi_held_def com_ref_def)
  from runs_mono [OF GDI_Close_owns [OF this(1), of m]] show ?thesis
    using Some h by (simp add: DXGICapture_Close_def own_runs_bind runs_ret)
next
  case None
  assume "dxgi_ready d"
  then show ?thesis using None by (simp add: DXGICapture_Close_def own_simps dxgi_held_def)
qed

interpretation gdi: lifecycle_owner gdi_held gdi_env_ok gdi_use_ok gdi_ready GDICapture_Init GDICapture_Capture GDICapture_Close GDICapture_zero
proof
  show "gdi_held GDICapture_zero = {#}" by (simp add: gdi_held_def GDICapture_zero_def dc_ref_def)
  show "gdi_env_ok e \<Longrightarrow> own_runs (GDICapture_Init e GDICapture_zero) m (\<lambda>(r, s) m'. m' = m + gdi_held s \<and>
      (case r of Inl _ \<Rightarrow> gdi_held s = {#} | Inr _ \<Rightarrow> gdi_ready s))" for e m
    by (rule runs_mono [OF GDI_Init_owns]) (auto split: sum.splits)
  show "own_runs (GDICapture_Capture u g) (m + gdi_held g) (\<lambda>(a, g') m'. m' = m + gdi_held g' \<and> gdi_ready g' \<and>
      (\<forall>u. gdi_use_ok u g' \<longleftrightarrow> gdi_use_ok u g))" if "gdi_ready g" "gdi_use_ok u g" for u g m
  proof (rule runs_mono [OF GDI_Capture_runs [OF that]], clarify)
    fix r g'
    assume g': "g' = g\<lparr>gc_pixels := gc_pixels g'\<rparr>" and len: "length (gc_pixels g') = length (gc_pixels g)"
    from g' obtain p where p: "g' = g\<lparr>gc_pixels := p\<rparr>" by blast
    show "m + gdi_held g = m + gdi_held g' \<and> gdi_ready g' \<and> (\<forall>u. gdi_use_ok u g' = gdi_use_ok u g)"
      using that(1) len unfolding p by (simp add: gdi_held_def gdi_ready_def gdi_use_ok_def split: option.split)
  qed
  show "gdi_ready g \<Longrightarrow> own_runs (GDICapture_Close g) (m + gdi_held g) (\<lambda>g' m'. m' = m \<and> gdi_held g' = {#})" for g m
    by (rule runs_mono [OF GDI_Close_owns]) auto
qed

interpretation dxgi: lifecycle_owner dxgi_held dxgi_env_ok dxgi_use_ok dxgi_ready DXGICapture_Init DXGICapture_Capture DXGICapture_Close
  DXGICapture_zero
proof
  show "dxgi_env_ok e \<Longrightarrow> own_runs (DXGICapture_Init e DXGICapture_zero) m (\<lambda>(r, s) m'. m' = m + dxgi_held s \<and>
      (case r of Inl _ \<Rightarrow> dxgi_held s = {#} | Inr _ \<Rightarrow> dxgi_ready s))" for e m
    by (rule runs_mono [OF DXGI_Init_runs]) (auto split: sum.splits)
qed (simp_all add: dxgi_capture_law dxgi_close_law)


section \<open>Sequences of captures\<close>

text \<open>A caller that asks for the picture and then for the rectangles that changed.\<close>

definition capture_and_report :: "dxgi_frame \<Rightarrow> DXGICapture \<Rightarrow> (win_ref, ((bytes \<times> nat) res \<times> rect list option) \<times> DXGICapture) own" where
  "capture_and_report fr d = own_bind (DXGICapture_Capture fr d) (\<lambda>(r, d'). own_ret ((r, DXGI_LastDirtyRects d'), d'))"

text \<open>
  What the caller sees, without buffers, pointers and references: the picture is the one of the last frame that was
  delivered, a capture fails when a frame could not be read and forever after the duplication was lost for good.
\<close>

fun dxgi_spec :: "nat \<Rightarrow> nat \<Rightarrow> nat \<Rightarrow> nat \<Rightarrow> bytes \<Rightarrow> rect list option \<Rightarrow> dxgi_frame list \<Rightarrow> (bytes option \<times> rect list option) list" where
  "dxgi_spec w h device dupl p rep [] = []"
| "dxgi_spec w h device dupl p rep (fr # frs) =
     (if dupl = 0 then (None, rep) # dxgi_spec w h device 0 p rep frs
      else
      let p' = picture_after w h fr p; rep' = report_after fr rep in
      (if frame_unchanged fr \<or> frame_delivered fr \<noteq> None then Some p' else None, rep')
        # dxgi_spec w h device (dupl_after fr device dupl) p' rep' frs)"

definition seen :: "nat \<Rightarrow> (bytes \<times> nat) res \<times> rect list option \<Rightarrow> (bytes option \<times> rect list option) option" where
  "seen stride x =
     (case x of (Inl _, rep) \<Rightarrow> Some (None, rep) | (Inr (p, st), rep) \<Rightarrow> if st = stride then Some (Some p, rep) else None)"

lemma captures_spec:
  assumes "dxgi_ready d" and "dx_gdi d = None" and "\<And>fr. fr \<in> set frs \<Longrightarrow> dxgi_use_ok fr d"
  shows "own_runs (uses capture_and_report frs d) (m + dxgi_held d) (\<lambda>(as, d') m'. m' = m + dxgi_held d' \<and>
    map (seen (unat (dx_width d) * 4)) as =
      map Some (dxgi_spec (unat (dx_width d)) (unat (dx_height d)) (dx_device d) (dx_dupl d) (dx_pixels d) (dx_lastDirtyRects d) frs))"
  using assms
proof (induction frs arbitrary: d)
  case Nil
  then show ?case by (simp add: own_simps)
next
  case (Cons fr frs)
  let ?spec = "dxgi_spec (unat (dx_width d)) (unat (dx_height d)) (dx_device d)"
  have "\<exists>r d'. DXGICapture_Capture fr d (m + dxgi_held d) = Some ((r, d'), m + dxgi_held d') \<and> dxgi_ready d' \<and> dxgi_fixed d' = dxgi_fixed d \<and>
      map Some (?spec (dx_dupl d) (dx_pixels d) (dx_lastDirtyRects d) (fr # frs)) =
      seen (unat (dx_width d) * 4) (r, dx_lastDirtyRects d') # map Some (?spec (dx_dupl d') (dx_pixels d') (dx_lastDirtyRects d') frs)"
  proof (cases "dx_dupl d = 0")
    case True
    then show ?thesis using Cons.prems(1,2) by (simp add: DXGICapture_Capture_def own_ret_def seen_def)
  next
    case False
    have ok: "dxgi_use_ok fr d" using Cons.prems(3) by simp
    from runs_result [OF DXGI_Capture_runs [OF Cons.prems(1,2) False ok, of m]] obtain x
      where x: "DXGICapture_Capture fr d (m + dxgi_held d) = Some (x, m + dxgi_held (snd x))" "capture_post fr d x" by blast
    obtain r d' where rd: "x = (r, d')" by (cases x)
    have "dx_stride d = unat (dx_width d) * 4" using Cons.prems(1,2) by (simp add: dxgi_ready_def)
    then have "seen (unat (dx_width d) * 4) (r, dx_lastDirtyRects d') =
        Some (if frame_unchanged fr \<or> frame_delivered fr \<noteq> None then Some (dx_pixels d') else None, dx_lastDirtyRects d')"
      using x(2) rd by (auto simp: capture_post_def seen_def split: sum.splits)
    then show ?thesis using x rd False capture_post_ready(1) [OF Cons.prems(1,2) False ok x(2)]
      by (auto simp: capture_post_def Let_def)
  qed
  then obtain r d' where run: "DXGICapture_Capture fr d (m + dxgi_held d) = Some ((r, d'), m + dxgi_held d')" and rdy: "dxgi_ready d'"
    and fixed: "dxgi_fixed d' = dxgi_fixed d" and sp: "map Some (?spec (dx_dupl d) (dx_pixels d) (dx_lastDirtyRects d) (fr # frs)) =
      seen (unat (dx_width d) * 4) (r, dx_lastDirtyRects d') # map Some (?spec (dx_dupl d') (dx_pixels d') (dx_lastDirtyRects d') frs)"
    by (elim exE conjE) (rule that)
  have f: "dx_gdi d' = None" "dx_width d' = dx_width d" "dx_height d' = dx_height d" "dx_device d' = dx_device d"
    using fixed Cons.prems(2) by (simp_all add: dxgi_fixed_def)
  then have "\<And>u. dxgi_use_ok u d' \<longleftrightarrow> dxgi_use_ok u d" using Cons.prems(2) by (simp add: dxgi_use_ok_def DXGICapture_Bounds_def)
  with Cons.IH [OF rdy f(1)] Cons.prems(3) have ih: "own_runs (uses capture_and_report frs d') (m + dxgi_held d') (\<lambda>(as, d'') m'.
      m' = m + dxgi_held d'' \<and> map (seen (unat (dx_width d) * 4)) as = map Some (?spec (dx_dupl d') (dx_pixels d') (dx_lastDirtyRects d') frs))"
    using f by simp
  have head: "own_runs (DXGICapture_Capture fr d) (m + dxgi_held d) Q \<longleftrightarrow> Q (r, d') (m + dxgi_held d')" for Q by (simp add: own_runs_def run)
  show ?case unfolding uses.simps capture_and_report_def own_runs_bind head prod.case runs_ret DXGI_LastDirtyRects_def sp
    by (rule runs_mono [OF ih [unfolded capture_and_report_def DXGI_LastDirtyRects_def]]) (auto simp: runs_ret)
qed


section \<open>Properties\<close>

text \<open>
  C4: Screen capture on Windows neither leaks nor misuses a reference. Whatever the system answers to the initialisation (also
  when Desktop Duplication fails half-way and GDI takes over, or fails as well) and to every capture (timeouts, lost
  duplications that are made again or not, frames that cannot be read), as long as its methods set their out parameters when they
  succeed and the memory they hand out has the documented size: no object is
  used or given back without a reference to it, no memory is accessed outside its block, and after \<^verbatim>\<open>Close\<close>, or after an initialisation that
  failed, exactly the references from before are held.
\<close>

theorem dxgi_no_leak:
  assumes "dxgi_env_ok e"
    and "\<forall>fr \<in> set frs. dxgi_frame_ok (ge_GetSystemMetrics (de_gdi e) smCXScreen) (ge_GetSystemMetrics (de_gdi e) smCYScreen) fr"
  shows "\<exists>r d. lifecycle DXGICapture_Init DXGICapture_Capture DXGICapture_Close e frs DXGICapture_zero m = Some ((r, d), m)"
proof -
  have small: "ge_GetSystemMetrics (de_gdi e) smCXScreen < 65536" "ge_GetSystemMetrics (de_gdi e) smCYScreen < 65536"
    using assms(1) by (simp_all add: dxgi_env_ok_def gdi_env_ok_def Let_def)
  have "own_runs (DXGICapture_Init e DXGICapture_zero) m (\<lambda>(r, d) m'. m' = m + dxgi_held d \<and>
      (case r of Inl _ \<Rightarrow> dxgi_held d = {#} | Inr _ \<Rightarrow> DXGICapture_Bounds d = screen_size (de_gdi e)))"
    by (rule runs_mono [OF DXGI_Init_runs [OF assms(1)]]) (auto split: sum.splits)
  from runs_result [OF this] obtain r d where init: "DXGICapture_Init e DXGICapture_zero m = Some ((r, d), m + dxgi_held d)"
    and b: "case r of Inl _ \<Rightarrow> dxgi_held d = {#} | Inr _ \<Rightarrow> DXGICapture_Bounds d = screen_size (de_gdi e)"
    by auto
  have "own_runs (lifecycle DXGICapture_Init DXGICapture_Capture DXGICapture_Close e frs DXGICapture_zero) m (\<lambda>(r, s) m'. m' = m \<and> dxgi_held s = {#})"
  proof (cases r)
    case (Inl err)
    then show ?thesis using init b by (simp add: lifecycle_def own_runs_def own_bind_def own_ret_def)
  next
    case (Inr u)
    then have "\<forall>fr \<in> set frs. dxgi_use_ok fr d" using b assms(2) small by (simp add: dxgi_use_ok_def screen_size_def)
    then show ?thesis using assms(1) init by (intro dxgi.no_leak) auto
  qed
  from runs_result [OF this] show ?thesis by auto
qed

text \<open>Windows with a screen of two pixels, and frames for it: nothing new, a new picture, a lost duplication, a picture that cannot be mapped.\<close>

definition demo_windows :: dxgi_env where
  "demo_windows =
     \<lparr>de_Find = None, de_CreateDevice = (0, 11, 12), de_QueryInterface = (\<lambda>p i. if p = 11 then (0, 13) else (0, 16)),
      de_GetAdapter = (\<lambda>p. (0, 14)), de_EnumOutputs = (\<lambda>p. (0, 15)), de_DuplicateOutput = (\<lambda>p q. (0, 17)), de_CreateTexture2D = (\<lambda>p t. (0, 18)),
      de_gdi = \<lparr>ge_GetSystemMetrics = (\<lambda>i. if i = smCXScreen then 2 else 1), ge_GetDC = 1, ge_CreateCompatibleDC = (\<lambda>d. 2),
        ge_CreateDIBSection = (\<lambda>d hd. (3, 4)), ge_SelectObject = (\<lambda>d b. 5)\<rparr>\<rparr>"

definition demo_frame :: "nat \<Rightarrow> nat \<Rightarrow> bytes \<Rightarrow> dxgi_frame" where
  "demo_frame hr hr' mem =
     \<lparr>fr_AcquireNextFrame = (hr, 21, 0), fr_QueryInterface = (\<lambda>p i. (0, 22)), fr_GetFrameDirtyRects = (0, [], 0),
      fr_Map = (hr', mem, 12), fr_again = demo_windows, fr_BitBlt = None\<rparr>"

lemma demo_windows_ok:
  "dxgi_env_ok demo_windows" "length mem = 12 \<Longrightarrow> dxgi_frame_ok 2 1 (demo_frame hr hr' mem)"
  by (simp_all add: dxgi_env_ok_def dxgi_frame_ok_def demo_windows_def demo_frame_def com_ok_def gdi_env_ok_def smCXScreen_def smCYScreen_def Let_def)

lemma demo_windows_size:
  "ge_GetSystemMetrics (de_gdi demo_windows) smCXScreen = 2" "ge_GetSystemMetrics (de_gdi demo_windows) smCYScreen = 1"
  by (simp_all add: demo_windows_def smCXScreen_def smCYScreen_def)

theorem dxgi_no_leak_witness:
  "\<exists>r d. lifecycle DXGICapture_Init DXGICapture_Capture DXGICapture_Close demo_windows
     [demo_frame dxgiErrorWaitTimeout 0 (replicate 12 0), demo_frame 0 0 (replicate 12 7), demo_frame dxgiErrorAccessLost 0 (replicate 12 0),
      demo_frame 0 5 (replicate 12 0)] DXGICapture_zero {#Com 11#} = Some ((r, d), {#Com 11#})"
  by (rule dxgi_no_leak) (simp_all add: demo_windows_ok demo_windows_size del: One_nat_def)

text \<open>
  C5: After an initialisation by Desktop Duplication, every sequence of captures, each followed by the question for the changed
  rectangles, shows what the abstract view of the duplication says: at first an opaque black picture; each capture returns, at the stride of
  the announced width, the rows of the last frame that was delivered, whatever the row pitch of its texture; a timeout or a
  lost duplication returns the same picture again; a frame that cannot be read is reported as an error; the
  rectangles are those of the frame. A duplication that is lost and cannot be made again at once is never
  made again.
\<close>

theorem dxgi_capture_refines:
  assumes "dxgi_env_ok e" and "DXGICapture_Init e DXGICapture_zero m = Some ((Inr (), d), m1)" and "dx_gdi d = None"
    and "w = ge_GetSystemMetrics (de_gdi e) smCXScreen" and "h = ge_GetSystemMetrics (de_gdi e) smCYScreen"
    and "\<forall>fr \<in> set frs. dxgi_frame_ok w h fr"
  shows "DXGICapture_Bounds d = (of_nat w, of_nat h) \<and>
    (\<exists>as d'. uses capture_and_report frs d m1 = Some ((as, d'), m + dxgi_held d') \<and>
      map (seen (w * 4)) as = map Some (dxgi_spec w h (dx_device d) (dx_dupl d) (black (w * h * 4)) None frs))"
proof -
  have small: "w < 65536" "h < 65536" using assms(1,4,5) by (simp_all add: dxgi_env_ok_def gdi_env_ok_def Let_def)
  have post: "m1 = m + dxgi_held d" "dxgi_init_post e (Inr (), d)"
    using runs_result [OF DXGI_Init_runs [OF assms(1), of m]] assms(2,3) by auto
  have d: "dxgi_ready d" "dx_width d = of_nat w" "dx_height d = of_nat h" "dx_lastDirtyRects d = None" "dx_pixels d = black (w * h * 4)"
    using post(2) small assms(4,5) by (auto simp: dxgi_init_post_def screen_size_def)
  have b: "DXGICapture_Bounds d = (of_nat w, of_nat h)" using assms(3) d by (simp add: DXGICapture_Bounds_def)
  then have "\<And>fr. fr \<in> set frs \<Longrightarrow> dxgi_use_ok fr d" using assms(6) small by (simp add: dxgi_use_ok_def)
  from runs_result [OF captures_spec [OF d(1) assms(3) this, of frs m]] show ?thesis using b post(1) d small by (auto simp: unat_of_nat16)
qed

theorem dxgi_capture_refines_witness:
  "\<exists>d m1 as d'. DXGICapture_Init demo_windows DXGICapture_zero {#} = Some ((Inr (), d), m1) \<and>
     uses capture_and_report [demo_frame 0 0 (map of_nat [0..<12])] d m1 = Some ((as, d'), {#} + dxgi_held d') \<and>
     map (seen 8) as = [Some (Some [0, 1, 2, 3, 4, 5, 6, 7], None)]"
proof -
  have "own_runs (DXGICapture_Init demo_windows DXGICapture_zero) {#} (\<lambda>(r, d) m'. r = Inr () \<and> dx_gdi d = None \<and> dx_dupl d = 17)"
    by (simp add: DXGICapture_Init_def initDXGI_def open_duplication_def make_staging_def own_simps demo_windows_def com_ref_nonzero
        black_pixels Let_def smCXScreen_def smCYScreen_def DXGICapture_zero_def)
  from runs_result [OF this] obtain d m1 where init: "DXGICapture_Init demo_windows DXGICapture_zero {#} = Some ((Inr (), d), m1)"
    and d: "dx_gdi d = None" "dx_dupl d = 17" by auto
  let ?fr = "demo_frame 0 0 (map of_nat [0..<12])"
  have spec: "dxgi_spec 2 1 (dx_device d) (dx_dupl d) (black 8) None [?fr] = [(Some [0, 1, 2, 3, 4, 5, 6, 7], None)]"
    by (simp add: d Let_def frame_unchanged_def frame_delivered_def picture_after_def report_after_def reported_rects_def demo_frame_def
        dxgiErrorWaitTimeout_def dxgiErrorAccessLost_def mapped_picture_def upt_rec)
  show ?thesis
    using dxgi_capture_refines [OF demo_windows_ok(1) init d(1) demo_windows_size [symmetric], of "[?fr]"] init spec
    by (simp add: demo_windows_ok del: dxgi_spec.simps One_nat_def)
qed

end
