(* ===== verification/Mfbackend.thy ===== *)
theory Mfbackend
  imports Dxgicapture
begin

text \<open>
  \<^verbatim>\<open>h264/mf_windows.go\<close>: the H.264 backend of Windows, the encoder transform of Media Foundation. COM objects are counted references as in
  \<open>Dxgicapture\<close>. The answers of Media Foundation are arguments: an environment for opening a backend, and for every frame the
  answers to the calls made for it, with a list of answers to \<^verbatim>\<open>ProcessOutput\<close>. The record \<open>mf_world\<close> has the variables
  of the package (the result of the one initialisation, the count of users), the number of times the platform is started, and what the
  transform was told. \<^const>\<open>None\<close> is a fault, or a transform that never stops delivering output.
\<close>

section \<open>Identifiers\<close>

definition mediaGUID :: "u32 \<Rightarrow> comGUID" where
  "mediaGUID d = \<lparr>Data1 = d, Data2 = 0x0000, Data3 = 0x0010, Data4 = [0x80, 0x00, 0x00, 0xaa, 0x00, 0x38, 0x9b, 0x71]\<rparr>"

definition mfMediaTypeVideo :: comGUID where "mfMediaTypeVideo = mediaGUID 0x73646976"
definition mfVideoFormatH264 :: comGUID where "mfVideoFormatH264 = mediaGUID 0x34363248"
definition mfVideoFormatNV12 :: comGUID where "mfVideoFormatNV12 = mediaGUID 0x3231564e"

definition mfMTMajorType :: comGUID where
  "mfMTMajorType = \<lparr>Data1 = 0x48eba18e, Data2 = 0xf8c9, Data3 = 0x4687, Data4 = [0xbf, 0x11, 0x0a, 0x74, 0xc9, 0xf9, 0x6a, 0x8f]\<rparr>"
definition mfMTSubtype :: comGUID where
  "mfMTSubtype = \<lparr>Data1 = 0xf7e34c9a, Data2 = 0x42e8, Data3 = 0x4714, Data4 = [0xb7, 0x4b, 0xcb, 0x29, 0xd7, 0x2c, 0x35, 0xe5]\<rparr>"
definition mfMTAvgBitrate :: comGUID where
  "mfMTAvgBitrate = \<lparr>Data1 = 0x20332624, Data2 = 0xfb0d, Data3 = 0x4d9e, Data4 = [0xbd, 0x0d, 0xcb, 0xf6, 0x78, 0x6c, 0x10, 0x2e]\<rparr>"
definition mfMTInterlaceMode :: comGUID where
  "mfMTInterlaceMode = \<lparr>Data1 = 0xe2724bb8, Data2 = 0xe676, Data3 = 0x4806, Data4 = [0xb4, 0xb2, 0xa8, 0xd6, 0xef, 0xb4, 0x4c, 0xcd]\<rparr>"
definition mfMTFrameSize :: comGUID where
  "mfMTFrameSize = \<lparr>Data1 = 0x1652c33d, Data2 = 0xd6b2, Data3 = 0x4012, Data4 = [0xb8, 0x34, 0x72, 0x03, 0x08, 0x49, 0xa3, 0x7d]\<rparr>"
definition mfMTFrameRate :: comGUID where
  "mfMTFrameRate = \<lparr>Data1 = 0xc459a2e8, Data2 = 0x3d2c, Data3 = 0x4e44, Data4 = [0xb1, 0x32, 0xfe, 0xe5, 0x15, 0x6c, 0x7b, 0xb0]\<rparr>"
definition mfMTMPEG2Profile :: comGUID where
  "mfMTMPEG2Profile = \<lparr>Data1 = 0xad76a80b, Data2 = 0x2d5c, Data3 = 0x4e0b, Data4 = [0xb3, 0x75, 0x64, 0xe5, 0x20, 0x13, 0x70, 0x36]\<rparr>"
definition mfLowLatency :: comGUID where
  "mfLowLatency = \<lparr>Data1 = 0x9c27891a, Data2 = 0xed7a, Data3 = 0x40e1, Data4 = [0x88, 0xe8, 0xb2, 0x27, 0x27, 0xa0, 0x24, 0xee]\<rparr>"
definition codecapiAVEncCommonRateControlMode :: comGUID where
  "codecapiAVEncCommonRateControlMode =
     \<lparr>Data1 = 0x1c0608e9, Data2 = 0x370c, Data3 = 0x4710, Data4 = [0x8a, 0x58, 0xcb, 0x61, 0x81, 0xc4, 0x24, 0x23]\<rparr>"
definition codecapiAVEncH264CABACEnable :: comGUID where
  "codecapiAVEncH264CABACEnable =
     \<lparr>Data1 = 0xee6cad62, Data2 = 0xd305, Data3 = 0x4248, Data4 = [0xa5, 0x0e, 0xe1, 0xb2, 0x55, 0xf7, 0xca, 0xf8]\<rparr>"
definition codecapiAVEncVideoForceKeyFrame :: comGUID where
  "codecapiAVEncVideoForceKeyFrame =
     \<lparr>Data1 = 0x398c1b98, Data2 = 0x8353, Data3 = 0x475a, Data4 = [0x9e, 0xf2, 0x8f, 0x26, 0x5d, 0x26, 0x03, 0x45]\<rparr>"

definition mfETransformNeedMoreInput :: nat where "mfETransformNeedMoreInput = 0xC00D6D72"
definition mftMessageNotifyBeginStreaming :: nat where "mftMessageNotifyBeginStreaming = 0x10000000"
definition mftMessageNotifyStartOfStream :: nat where "mftMessageNotifyStartOfStream = 0x10000003"
definition mftMessageCommandFlush :: nat where "mftMessageCommandFlush = 0x20000000"
definition mftOutputStreamProvidesSamples :: u32 where "mftOutputStreamProvidesSamples = 0x100"

definition pack64 :: "u32 \<Rightarrow> u32 \<Rightarrow> u64" where
  "pack64 hi lo = push_bit 32 (ucast hi) OR ucast lo"

section \<open>Attributes\<close>

text \<open>The attributes of a media type, in the order they are set.\<close>

datatype mf_attr = AGuid comGUID | A32 u32 | A64 u64

definition output_attrs :: "nat \<Rightarrow> nat \<Rightarrow> (comGUID \<times> mf_attr) list" where
  "output_attrs width height =
     [(mfMTMajorType, AGuid mfMediaTypeVideo), (mfMTSubtype, AGuid mfVideoFormatH264), (mfMTAvgBitrate, A32 5000000),
      (mfMTInterlaceMode, A32 2), (mfMTFrameSize, A64 (pack64 (of_nat width) (of_nat height))), (mfMTFrameRate, A64 (pack64 30 1)),
      (mfMTMPEG2Profile, A32 66)]"

definition input_attrs :: "nat \<Rightarrow> nat \<Rightarrow> (comGUID \<times> mf_attr) list" where
  "input_attrs width height =
     [(mfMTMajorType, AGuid mfMediaTypeVideo), (mfMTSubtype, AGuid mfVideoFormatNV12), (mfMTInterlaceMode, A32 2),
      (mfMTFrameSize, A64 (pack64 (of_nat width) (of_nat height))), (mfMTFrameRate, A64 (pack64 30 1))]"

text \<open>\<^verbatim>\<open>VARIANT\<close>: the type in the first two bytes, the value in the eighth to the eleventh.\<close>

definition variant_ui4 :: "u32 \<Rightarrow> bytes" where
  "variant_ui4 val = le16 19 @ replicate 6 0 @ le32 val @ replicate 12 0"

section \<open>The platform\<close>

datatype mf_event =
    SetOutputType "(comGUID \<times> mf_attr) list" | SetInputType "(comGUID \<times> mf_attr) list" | SetAttribute comGUID mf_attr
  | CodecSetValue comGUID bytes | ProcessMessage nat | ProcessInput int int bytes

record mf_world =
  mw_once :: bool
  mw_initErr :: "goerr option"
  mw_refCount :: i32
  mw_started :: int
  mw_log :: "mf_event list"

record mf_env =
  me_CoInitializeEx :: nat
  me_MFStartup :: nat
  me_CoCreateInstance :: "nat \<times> nat"
  me_QueryCodecAPI :: "nat \<times> nat"
  me_CreateOutputType :: "nat \<times> nat"
  me_SetOutputType :: "(comGUID \<times> mf_attr) list \<Rightarrow> nat"
  me_CreateInputType :: "nat \<times> nat"
  me_SetInputType :: "(comGUID \<times> mf_attr) list \<Rightarrow> nat"
  me_GetAttributes :: "nat \<times> nat"
  me_GetOutputStreamInfo :: "nat \<times> u32 \<times> u32"

definition mf_told :: "mf_event \<Rightarrow> mf_world \<Rightarrow> mf_world" where
  "mf_told ev w = w\<lparr>mw_log := mw_log w @ [ev]\<rparr>"

text \<open>The function given to \<^verbatim>\<open>sync.Once\<close>.\<close>

definition mf_startup :: "mf_env \<Rightarrow> mf_world \<Rightarrow> mf_world" where
  "mf_startup e w =
     (let w = w\<lparr>mw_once := True\<rparr>; hr = me_CoInitializeEx e; hr2 = me_MFStartup e in
      if hr \<noteq> 0 \<and> hr \<noteq> 1 then w\<lparr>mw_initErr := Some (Errorf ''CoInitializeEx: 0x%08X'' [int hr])\<rparr>
      else if hr2 \<noteq> 0 then w\<lparr>mw_initErr := Some (Errorf ''MFStartup: 0x%08X'' [int hr2])\<rparr>
      else w\<lparr>mw_started := mw_started w + 1\<rparr>)"

definition mfEnsureInit :: "mf_env \<Rightarrow> mf_world \<Rightarrow> unit res \<times> mf_world" where
  "mfEnsureInit e w =
     (let w = (if mw_once w then w else mf_startup e w) in
      case mw_initErr w of
        None \<Rightarrow> (Inr (), w\<lparr>mw_refCount := mw_refCount w + 1\<rparr>)
      | Some err \<Rightarrow> (Inl err, w))"

definition mfRelease :: "mf_world \<Rightarrow> mf_world" where
  "mfRelease w =
     (let c = mw_refCount w - 1; w = w\<lparr>mw_refCount := c\<rparr> in
      if sint c \<le> 0 then w\<lparr>mw_started := mw_started w - 1\<rparr> else w)"

section \<open>Opening and closing\<close>

record mfBackend =
  mb_transform :: nat
  mb_codecAPI :: nat
  mb_width :: nat
  mb_height :: nat
  mb_sampleDur :: int
  mb_pts :: int
  mb_mftProvidesSamples :: bool
  mb_outputBufSize :: nat

definition mfBackend_zero :: mfBackend where
  "mfBackend_zero =
     \<lparr>mb_transform = 0, mb_codecAPI = 0, mb_width = 0, mb_height = 0, mb_sampleDur = 0, mb_pts = 0, mb_mftProvidesSamples = False,
      mb_outputBufSize = 0\<rparr>"

text \<open>A function that creates an object without needing one.\<close>

definition mf_create :: "string \<Rightarrow> nat \<times> nat \<Rightarrow> (win_ref, nat res) own" where
  "mf_create msg ans =
     (if fst ans = 0 then own_seq (com_acquire (snd ans)) (own_ret (Inr (snd ans))) else own_ret (Inl (Errorf msg [int (fst ans)])))"

definition mfComQueryInterface :: "nat \<Rightarrow> nat \<times> nat \<Rightarrow> (win_ref, nat res) own" where
  "mfComQueryInterface obj ans = com_out ''QueryInterface: 0x%08X'' obj ans"

definition mf_message :: "nat \<Rightarrow> mfBackend \<Rightarrow> mf_world \<Rightarrow> (win_ref, mf_world) own" where
  "mf_message msg b w = own_seq (touch (Com (mb_transform b))) (own_ret (mf_told (ProcessMessage msg) w))"

definition mfBackend_Close :: "mfBackend \<times> mf_world \<Rightarrow> (win_ref, mfBackend \<times> mf_world) own" where
  "mfBackend_Close = (\<lambda>(b, w).
     own_bind (if mb_transform b \<noteq> 0
       then own_bind (mf_message mftMessageCommandFlush b w) (\<lambda>w.
         own_seq (comRelease (mb_transform b)) (own_ret (b\<lparr>mb_transform := 0\<rparr>, w)))
       else own_ret (b, w)) (\<lambda>(b, w).
     own_bind (if mb_codecAPI b \<noteq> 0 then own_seq (comRelease (mb_codecAPI b)) (own_ret (b\<lparr>mb_codecAPI := 0\<rparr>)) else own_ret b) (\<lambda>b.
     own_ret (b, mfRelease w))))"

definition setOutputType :: "mf_env \<Rightarrow> mfBackend \<Rightarrow> mf_world \<Rightarrow> (win_ref, unit res \<times> mf_world) own" where
  "setOutputType e b w =
     own_bind (mf_create ''MFCreateMediaType: 0x%08X'' (me_CreateOutputType e)) (\<lambda>r.
     case r of
       Inl err \<Rightarrow> own_ret (Inl err, w)
     | Inr mediaType \<Rightarrow> own_defer (comRelease mediaType)
        (let attrs = output_attrs (mb_width b) (mb_height b); hr = me_SetOutputType e attrs in
         own_seq (touch (Com mediaType)) (own_seq (touch (Com (mb_transform b)))
         (own_ret (if hr \<noteq> 0 then Inl (Errorf ''SetOutputType: 0x%08X'' [int hr]) else Inr (), mf_told (SetOutputType attrs) w)))))"

definition setInputType :: "mf_env \<Rightarrow> mfBackend \<Rightarrow> mf_world \<Rightarrow> (win_ref, unit res \<times> mf_world) own" where
  "setInputType e b w =
     own_bind (mf_create ''MFCreateMediaType: 0x%08X'' (me_CreateInputType e)) (\<lambda>r.
     case r of
       Inl err \<Rightarrow> own_ret (Inl err, w)
     | Inr mediaType \<Rightarrow> own_defer (comRelease mediaType)
        (let attrs = input_attrs (mb_width b) (mb_height b); hr = me_SetInputType e attrs in
         own_seq (touch (Com mediaType)) (own_seq (touch (Com (mb_transform b)))
         (own_ret (if hr \<noteq> 0 then Inl (Errorf ''SetInputType: 0x%08X'' [int hr]) else Inr (), mf_told (SetInputType attrs) w)))))"

definition setLowLatency :: "mf_env \<Rightarrow> mfBackend \<Rightarrow> mf_world \<Rightarrow> (win_ref, mf_world) own" where
  "setLowLatency e b w =
     own_bind (com_out ''GetAttributes: 0x%08X'' (mb_transform b) (me_GetAttributes e)) (\<lambda>r.
     case r of
       Inl _ \<Rightarrow> own_ret w
     | Inr attrs \<Rightarrow>
         if attrs = 0 then own_ret w
         else own_defer (comRelease attrs) (own_seq (touch (Com attrs)) (own_ret (mf_told (SetAttribute mfLowLatency (A32 1)) w))))"

definition setCodecAPIUINT32 :: "comGUID \<Rightarrow> u32 \<Rightarrow> mfBackend \<Rightarrow> mf_world \<Rightarrow> (win_ref, mf_world) own" where
  "setCodecAPIUINT32 guid val b w =
     (if mb_codecAPI b = 0 then own_ret w
      else own_seq (touch (Com (mb_codecAPI b))) (own_ret (mf_told (CodecSetValue guid (variant_ui4 val)) w)))"

text \<open>The part of \<^verbatim>\<open>init\<close> after the types have been set.\<close>

definition mf_configure :: "mf_env \<Rightarrow> mfBackend \<Rightarrow> mf_world \<Rightarrow> (win_ref, unit res \<times> mfBackend \<times> mf_world) own" where
  "mf_configure e b w =
     own_bind (setLowLatency e b w) (\<lambda>w.
     own_bind (setCodecAPIUINT32 codecapiAVEncH264CABACEnable 0 b w) (\<lambda>w.
     own_bind (setCodecAPIUINT32 codecapiAVEncCommonRateControlMode 0 b w) (\<lambda>w.
     own_seq (touch (Com (mb_transform b)))
     (let b = (case me_GetOutputStreamInfo e of (hr, flags, size') \<Rightarrow>
        if hr = 0
        then b\<lparr>mb_mftProvidesSamples := (flags AND mftOutputStreamProvidesSamples) \<noteq> 0,
               mb_outputBufSize := if size' > 0 then unat size' else mb_outputBufSize b\<rparr>
        else b) in
      own_bind (mf_message mftMessageNotifyBeginStreaming b w) (\<lambda>w.
      own_bind (mf_message mftMessageNotifyStartOfStream b w) (\<lambda>w.
      own_ret (Inr (), b, w)))))))"

definition mf_set_types :: "mf_env \<Rightarrow> mfBackend \<Rightarrow> mf_world \<Rightarrow> (win_ref, unit res \<times> mfBackend \<times> mf_world) own" where
  "mf_set_types e b w =
     own_bind (setOutputType e b w) (\<lambda>(r, w).
     case r of
       Inl err \<Rightarrow> own_bind (mfBackend_Close (b, w)) (\<lambda>(b, w). own_ret (Inl (wrap_err ''set output type: %w'' [] err), b, w))
     | Inr _ \<Rightarrow>
     own_bind (setInputType e b w) (\<lambda>(r, w).
     case r of
       Inl err \<Rightarrow> own_bind (mfBackend_Close (b, w)) (\<lambda>(b, w). own_ret (Inl (wrap_err ''set input type: %w'' [] err), b, w))
     | Inr _ \<Rightarrow> mf_configure e b w))"

definition mf_init :: "mf_env \<Rightarrow> mfBackend \<Rightarrow> mf_world \<Rightarrow> (win_ref, unit res \<times> mfBackend \<times> mf_world) own" where
  "mf_init e b w =
     own_bind (mf_create ''CoCreateInstance(H264 MFT): 0x%08X'' (me_CoCreateInstance e)) (\<lambda>r.
     case r of
       Inl err \<Rightarrow> own_ret (Inl err, b, w)
     | Inr transform \<Rightarrow>
     let b = b\<lparr>mb_transform := transform\<rparr> in
     own_bind (mfComQueryInterface transform (me_QueryCodecAPI e)) (\<lambda>q.
     let b = (case q of Inr codecAPI \<Rightarrow> b\<lparr>mb_codecAPI := codecAPI\<rparr> | Inl _ \<Rightarrow> b) in
     mf_set_types e b w))"

definition mf_newBackend :: "mf_env \<Rightarrow> nat \<Rightarrow> nat \<Rightarrow> mf_world \<Rightarrow> (win_ref, unit res \<times> mfBackend \<times> mf_world) own" where
  "mf_newBackend e width height w =
     (case mfEnsureInit e w of
        (Inl err, w) \<Rightarrow> own_ret (Inl err, mfBackend_zero, w)
      | (Inr _, w) \<Rightarrow>
          own_bind (mf_init e (mfBackend_zero\<lparr>mb_width := width, mb_height := height, mb_sampleDur := 333333\<rparr>) w) (\<lambda>(r, b, w).
          case r of
            Inl err \<Rightarrow> own_ret (Inl err, b, mfRelease w)
          | Inr _ \<Rightarrow> own_ret (Inr (), b, w)))"

section \<open>Key frames\<close>

text \<open>\<^verbatim>\<open>isIDRFrame\<close>: the start code at a position, and the scan.\<close>

definition nal_start :: "bytes \<Rightarrow> nat \<Rightarrow> nat option" where
  "nal_start data i =
     (if data ! i = 0 \<and> data ! (i + 1) = 0
      then if data ! (i + 2) = 1 then Some (i + 3)
        else if data ! (i + 2) = 0 \<and> i + 3 < length data \<and> data ! (i + 3) = 1 then Some (i + 4) else None
      else None)"

definition idr_at :: "bytes \<Rightarrow> nat \<Rightarrow> bool" where
  "idr_at data i =
     (case nal_start data i of None \<Rightarrow> False | Some n \<Rightarrow> n < length data \<and> data ! n AND 0x1F = 5)"

function idr_scan :: "bytes \<Rightarrow> nat \<Rightarrow> bool" where
  "idr_scan data i = (if i + 4 < length data then idr_at data i \<or> idr_scan data (i + 1) else False)"
  by pat_completeness auto
termination by (relation "measure (\<lambda>(data, i). length data - i)") auto

declare idr_scan.simps [simp del]

definition isIDRFrame :: "bytes \<Rightarrow> bool" where
  "isIDRFrame data = idr_scan data 0"

section \<open>Encoding\<close>

text \<open>The answers to one call of \<^verbatim>\<open>processOneOutput\<close>.\<close>

record mf_output =
  mo_CreateSample :: "nat \<times> nat"
  mo_CreateBuffer :: "nat \<times> nat"
  mo_AddBuffer :: nat
  mo_ProcessOutput :: "nat \<times> nat \<times> nat"
  mo_Contiguous :: "nat \<times> nat"
  mo_memory :: bytes
  mo_curLen :: u32

definition output_sample :: "mf_output \<Rightarrow> mfBackend \<Rightarrow> (win_ref, nat res) own" where
  "output_sample a b =
     (if mb_mftProvidesSamples b then own_ret (Inr 0)
      else
      own_bind (mf_create ''MFCreateSample (output): 0x%08X'' (mo_CreateSample a)) (\<lambda>r.
      case r of
        Inl err \<Rightarrow> own_ret (Inl err)
      | Inr s \<Rightarrow>
      own_bind (mf_create ''MFCreateMemoryBuffer (output): 0x%08X'' (mo_CreateBuffer a)) (\<lambda>r.
      case r of
        Inl err \<Rightarrow> own_seq (comRelease s) (own_ret (Inl err))
      | Inr buf \<Rightarrow>
          own_seq (touch (Com s)) (own_seq (comRelease buf)
          (if mo_AddBuffer a \<noteq> 0
           then own_seq (comRelease s) (own_ret (Inl (Errorf ''AddBuffer (output): 0x%08X'' [int (mo_AddBuffer a)])))
           else own_ret (Inr s))))))"

text \<open>From the sample on: the data of its buffer, whether it has a key frame.\<close>

definition read_sample :: "mf_output \<Rightarrow> nat \<Rightarrow> (win_ref, (bytes \<times> bool \<times> bool) res) own" where
  "read_sample a resultSample =
     own_bind (com_out ''ConvertToContiguousBuffer: 0x%08X'' resultSample (mo_Contiguous a)) (\<lambda>r.
     case r of
       Inl err \<Rightarrow> own_ret (Inl err)
     | Inr outBuf \<Rightarrow> own_defer (comRelease outBuf)
         (own_seq (touch (Com outBuf))
         (own_bind (own_lift (if unat (mo_curLen a) \<le> length (mo_memory a) then Some (take (unat (mo_curLen a)) (mo_memory a)) else None)) (\<lambda>nalData.
          own_seq (touch (Com outBuf)) (own_ret (Inr (nalData, length nalData > 4 \<and> isIDRFrame nalData, True)))))))"

definition processOneOutput :: "mf_output \<Rightarrow> mfBackend \<Rightarrow> (win_ref, (bytes \<times> bool \<times> bool) res) own" where
  "processOneOutput a b =
     own_bind (output_sample a b) (\<lambda>r.
     case r of
       Inl err \<Rightarrow> own_ret (Inl err)
     | Inr outSample \<Rightarrow>
     own_seq (touch (Com (mb_transform b)))
     (case mo_ProcessOutput a of (hr, provided, events) \<Rightarrow>
      if hr = mfETransformNeedMoreInput then own_seq (comRelease outSample) (own_ret (Inr ([], False, False)))
      else if hr \<noteq> 0 then own_seq (comRelease outSample) (own_ret (Inl (Errorf ''ProcessOutput: 0x%08X'' [int hr])))
      else
      own_seq (if mb_mftProvidesSamples b then com_acquire provided else own_ret ()) (own_seq (com_acquire events)
      (let resultSample = (if mb_mftProvidesSamples b then provided else outSample) in
       if resultSample = 0 then own_ret (Inr ([], False, False))
       else own_defer (comRelease (if mb_mftProvidesSamples b then resultSample else outSample))
         (own_seq (comRelease events) (read_sample a resultSample))))))"

text \<open>The drain loop over the answers of the transform.\<close>

fun mf_drain :: "mfBackend \<Rightarrow> mf_output list \<Rightarrow> bytes \<Rightarrow> bool \<Rightarrow> (win_ref, (bytes option \<times> bool) res) own" where
  "mf_drain b [] allNAL anyKeyframe = own_lift None"
| "mf_drain b (a # as) allNAL anyKeyframe =
     own_bind (processOneOutput a b) (\<lambda>r.
     case r of
       Inl err \<Rightarrow> own_ret (if length allNAL > 0 then Inr (Some allNAL, anyKeyframe) else Inl err)
     | Inr (nal, isKey, hasOutput) \<Rightarrow>
         if \<not> hasOutput then own_ret (Inr (if length allNAL = 0 then (None, False) else (Some allNAL, anyKeyframe)))
         else mf_drain b as (allNAL @ nal) (if isKey then True else anyKeyframe))"

record mf_frame =
  mf_CreateBuffer :: "nat \<times> nat"
  mf_locked :: nat
  mf_CreateSample :: "nat \<times> nat"
  mf_ProcessInput :: nat
  mf_outputs :: "mf_output list"

text \<open>
  The sample with its time, the input, and the drain loop. The calls that fill the sample (the length of the buffer, the buffer, time and duration) return
  codes the source ignores; they are setters on fresh objects and are taken to succeed.
\<close>

definition mf_submit :: "bytes \<Rightarrow> mf_frame \<Rightarrow> mfBackend \<Rightarrow> mf_world \<Rightarrow> (win_ref, (bytes option \<times> bool) res \<times> mfBackend \<times> mf_world) own" where
  "mf_submit nv12 fr b w =
     own_bind (mf_create ''MFCreateSample: 0x%08X'' (mf_CreateSample fr)) (\<lambda>r.
     case r of
       Inl err \<Rightarrow> own_ret (Inl err, b, w)
     | Inr sample \<Rightarrow> own_defer (comRelease sample)
        (own_seq (touch (Com sample))
        (let w = mf_told (ProcessInput (mb_pts b) (mb_sampleDur b) nv12) w; b = b\<lparr>mb_pts := mb_pts b + mb_sampleDur b\<rparr> in
         own_seq (touch (Com (mb_transform b)))
         (if mf_ProcessInput fr \<noteq> 0 then own_ret (Inl (Errorf ''ProcessInput: 0x%08X'' [int (mf_ProcessInput fr)]), b, w)
          else own_bind (mf_drain b (mf_outputs fr) [] False) (\<lambda>r. own_ret (r, b, w))))))"

definition mfBackend_Encode ::
  "(bytes \<times> bool) \<times> mf_frame \<Rightarrow> mfBackend \<times> mf_world \<Rightarrow> (win_ref, (bytes option \<times> bool) res \<times> mfBackend \<times> mf_world) own" where
  "mfBackend_Encode = (\<lambda>((nv12, forceIDR), fr) (b, w).
     own_bind (if forceIDR \<and> mb_codecAPI b \<noteq> 0 then setCodecAPIUINT32 codecapiAVEncVideoForceKeyFrame 1 b w else own_ret w) (\<lambda>w.
     own_bind (mf_create ''MFCreateMemoryBuffer: 0x%08X'' (mf_CreateBuffer fr)) (\<lambda>r.
     case r of
       Inl err \<Rightarrow> own_ret (Inl err, b, w)
     | Inr buffer \<Rightarrow> own_defer (comRelease buffer)
         (own_seq (touch (Com buffer))
         (own_bind (own_lift (if length nv12 \<le> mf_locked fr then Some () else None)) (\<lambda>_. mf_submit nv12 fr b w))))))"

section \<open>References\<close>

definition mf_held :: "mfBackend \<times> mf_world \<Rightarrow> win_ref multiset" where
  "mf_held = (\<lambda>(b, w). com_ref (mb_transform b) + com_ref (mb_codecAPI b))"

definition mf_ready :: "mfBackend \<times> mf_world \<Rightarrow> bool" where
  "mf_ready = (\<lambda>(b, w). mb_transform b \<noteq> 0)"

text \<open>Calls that succeed return an object.\<close>

definition mf_env_ok :: "mf_env \<Rightarrow> bool" where
  "mf_env_ok e \<longleftrightarrow> com_ok (me_CoCreateInstance e) \<and> com_ok (me_QueryCodecAPI e) \<and> com_ok (me_CreateOutputType e) \<and> com_ok (me_CreateInputType e)"

text \<open>
  A transform that provides samples sets the sample or no events; memory has the length that is announced.
\<close>

definition mf_output_ok :: "bool \<Rightarrow> mf_output \<Rightarrow> bool" where
  "mf_output_ok provides a \<longleftrightarrow> com_ok (mo_CreateSample a) \<and> com_ok (mo_CreateBuffer a) \<and> com_ok (mo_Contiguous a) \<and>
     (case mo_ProcessOutput a of (hr, provided, events) \<Rightarrow> provides \<and> provided = 0 \<longrightarrow> events = 0) \<and>
     unat (mo_curLen a) \<le> length (mo_memory a)"

lemma runs_mf_create [own_simps]:
  "own_runs (mf_create msg ans) m Q \<longleftrightarrow>
     (if fst ans = 0 then Q (Inr (snd ans)) (m + com_ref (snd ans)) else Q (Inl (Errorf msg [int (fst ans)])) m)"
  by (auto simp: mf_create_def own_simps)

lemma runs_mf_message [own_simps]:
  "own_runs (mf_message msg b w) m Q \<longleftrightarrow> Com (mb_transform b) \<in># m \<and> Q (mf_told (ProcessMessage msg) w) m"
  by (simp add: mf_message_def own_simps)

lemma mf_close_runs:
  "own_runs (mfBackend_Close (b, w)) (m + mf_held (b, w)) (\<lambda>(b', w') m'. m' = m \<and> mb_transform b' = 0 \<and> mb_codecAPI b' = 0 \<and>
     mw_refCount w' = mw_refCount w - 1 \<and> mw_once w' = mw_once w \<and> mw_initErr w' = mw_initErr w \<and>
     mw_started w' = (if sint (mw_refCount w - 1) \<le> 0 then mw_started w - 1 else mw_started w))"
  by (simp add: mfBackend_Close_def own_simps mf_held_def mfRelease_def Let_def mf_told_def com_ref_nonzero)

text \<open>What is said to the transform leaves the variables of the package alone.\<close>

definition mf_vars :: "mf_world \<Rightarrow> bool \<times> goerr option \<times> i32 \<times> int" where
  "mf_vars w = (mw_once w, mw_initErr w, mw_refCount w, mw_started w)"

lemma mf_vars_told [simp]: "mf_vars (mf_told ev w) = mf_vars w"
  by (simp add: mf_vars_def mf_told_def)

lemma mf_log_told: "mw_log (mf_told ev w) = mw_log w @ [ev]"
  by (simp add: mf_told_def)

lemma set_types_run:
  assumes "mf_env_ok e" and "Com (mb_transform b) \<in># m"
  shows "own_runs (setOutputType e b w) m (\<lambda>(r, w') m'. m' = m \<and> mf_vars w' = mf_vars w \<and>
      (r = Inr () \<longleftrightarrow> fst (me_CreateOutputType e) = 0 \<and> me_SetOutputType e (output_attrs (mb_width b) (mb_height b)) = 0))"
    and "own_runs (setInputType e b w) m (\<lambda>(r, w') m'. m' = m \<and> mf_vars w' = mf_vars w \<and>
      (r = Inr () \<longleftrightarrow> fst (me_CreateInputType e) = 0 \<and> me_SetInputType e (input_attrs (mb_width b) (mb_height b)) = 0))"
  using assms by (auto simp: setOutputType_def setInputType_def own_simps Let_def mf_env_ok_def com_ok_def com_ref_nonzero)

lemma mf_configure_runs:
  assumes "mb_transform b \<noteq> 0"
  shows "own_runs (mf_configure e b w) (m + mf_held (b, w)) (\<lambda>(r, b', w') m'. r = Inr () \<and> m' = m + mf_held (b', w') \<and>
    mb_transform b' = mb_transform b \<and> mb_codecAPI b' = mb_codecAPI b \<and> mf_vars w' = mf_vars w \<and>
    mb_width b' = mb_width b \<and> mb_height b' = mb_height b \<and> mb_sampleDur b' = mb_sampleDur b \<and> mb_pts b' = mb_pts b)"
  using assms
  by (auto simp: mf_configure_def setLowLatency_def setCodecAPIUINT32_def own_simps mf_held_def com_ref_nonzero Let_def split: prod.splits)


text \<open>Whether the types are accepted, and how often a failing initialisation takes off the count.\<close>

definition types_accepted :: "mf_env \<Rightarrow> nat \<Rightarrow> nat \<Rightarrow> bool" where
  "types_accepted e width height \<longleftrightarrow> fst (me_CreateOutputType e) = 0 \<and> me_SetOutputType e (output_attrs width height) = 0 \<and>
     fst (me_CreateInputType e) = 0 \<and> me_SetInputType e (input_attrs width height) = 0"

definition released :: "mf_world \<Rightarrow> mf_world" where
  "released w = w\<lparr>mw_refCount := mw_refCount w - 1,
     mw_started := if sint (mw_refCount w - 1) \<le> 0 then mw_started w - 1 else mw_started w\<rparr>"

lemma mfRelease_eq: "mfRelease w = released w"
  by (simp add: mfRelease_def released_def Let_def)

lemma mf_close_law:
  "own_runs (mfBackend_Close (b, w)) (m + mf_held (b, w)) (\<lambda>(b', w') m'. m' = m \<and> mb_transform b' = 0 \<and> mb_codecAPI b' = 0 \<and>
     mf_vars w' = mf_vars (released w))"
  by (rule runs_mono [OF mf_close_runs]) (auto simp: mf_vars_def released_def)

definition mf_init_post :: "mf_env \<Rightarrow> mfBackend \<Rightarrow> mf_world \<Rightarrow> unit res \<times> mfBackend \<times> mf_world \<Rightarrow> bool" where
  "mf_init_post e b w = (\<lambda>(r, b', w').
     (r = Inr () \<longleftrightarrow> fst (me_CoCreateInstance e) = 0 \<and> types_accepted e (mb_width b) (mb_height b)) \<and>
     (if r = Inr ()
      then mb_transform b' \<noteq> 0 \<and> mf_vars w' = mf_vars w \<and> mb_sampleDur b' = mb_sampleDur b \<and> mb_pts b' = mb_pts b
      else mb_transform b' = 0 \<and> mb_codecAPI b' = 0 \<and> mf_vars w' = (if fst (me_CoCreateInstance e) = 0 then mf_vars (released w) else mf_vars w)))"

lemma mf_vars_released: "mf_vars w = mf_vars w' \<Longrightarrow> mf_vars (released w) = mf_vars (released w')"
  by (simp add: mf_vars_def released_def)

lemma mf_close_failed:
  assumes "mf_vars w1 = mf_vars w" and "fst (me_CoCreateInstance e) = 0" and "\<not> types_accepted e (mb_width b0) (mb_height b0)"
  shows "own_runs (own_bind (mfBackend_Close (b, w1)) (\<lambda>(b, w). own_ret (Inl err, b, w))) (m + mf_held (b, w0))
    (\<lambda>x m'. m' = m + mf_held (snd x) \<and> mf_init_post e b0 w x)"
proof -
  have h: "mf_held (b, w0) = mf_held (b, w1)" by (simp add: mf_held_def)
  show ?thesis unfolding own_runs_bind h
    by (rule runs_mono [OF mf_close_law])
      (use assms mf_vars_released [OF assms(1)] in \<open>auto simp: runs_ret mf_init_post_def mf_held_def\<close>)
qed

lemma mf_set_types_runs:
  assumes "mf_env_ok e" and "mb_transform b \<noteq> 0" and "fst (me_CoCreateInstance e) = 0" and "mb_width b0 = mb_width b" and "mb_height b0 = mb_height b"
    and "mb_sampleDur b0 = mb_sampleDur b" and "mb_pts b0 = mb_pts b"
  shows "own_runs (mf_set_types e b w) (m + mf_held (b, w)) (\<lambda>x m'. m' = m + mf_held (snd x) \<and> mf_init_post e b0 w x)"
proof -
  have mem: "Com (mb_transform b) \<in># m + mf_held (b, w)" using assms(2) by (simp add: mf_held_def com_ref_nonzero)
  have same: "mf_held (b, w1) = mf_held (b, w2)" for w1 w2 by (simp add: mf_held_def)
  show ?thesis unfolding mf_set_types_def own_runs_bind
  proof (rule runs_mono [OF set_types_run(1) [OF assms(1) mem]], clarify)
    fix r :: "unit res" and w1
    assume w1: "mf_vars w1 = mf_vars w"
      and r: "r = Inr () \<longleftrightarrow> fst (me_CreateOutputType e) = 0 \<and> me_SetOutputType e (output_attrs (mb_width b) (mb_height b)) = 0"
    let ?Q = "\<lambda>x m'. m' = m + mf_held (snd x) \<and> mf_init_post e b0 w x"
    show "own_runs (case r of Inl err \<Rightarrow> own_bind (mfBackend_Close (b, w1)) (\<lambda>(b, w). own_ret (Inl (wrap_err ''set output type: %w'' [] err), b, w))
       | Inr _ \<Rightarrow> own_bind (setInputType e b w1) (\<lambda>(r, w). case r of
           Inl err \<Rightarrow> own_bind (mfBackend_Close (b, w)) (\<lambda>(b, w). own_ret (Inl (wrap_err ''set input type: %w'' [] err), b, w))
         | Inr _ \<Rightarrow> mf_configure e b w)) (m + mf_held (b, w)) ?Q"
    proof (cases r)
      case (Inl err)
      then have "\<not> types_accepted e (mb_width b0) (mb_height b0)" using r assms(4,5) by (auto simp: types_accepted_def)
      then show ?thesis using mf_close_failed [OF w1 assms(3)] Inl by simp
    next
      case (Inr u)
      have "own_runs (own_bind (setInputType e b w1) (\<lambda>(r, w). case r of
           Inl err \<Rightarrow> own_bind (mfBackend_Close (b, w)) (\<lambda>(b, w). own_ret (Inl (wrap_err ''set input type: %w'' [] err), b, w))
         | Inr _ \<Rightarrow> mf_configure e b w)) (m + mf_held (b, w)) ?Q"
        unfolding own_runs_bind
      proof (rule runs_mono [OF set_types_run(2) [OF assms(1) mem]], clarify)
        fix r2 :: "unit res" and w2
        assume w2: "mf_vars w2 = mf_vars w1"
          and r2: "r2 = Inr () \<longleftrightarrow> fst (me_CreateInputType e) = 0 \<and> me_SetInputType e (input_attrs (mb_width b) (mb_height b)) = 0"
        show "own_runs (case r2 of Inl err \<Rightarrow> own_bind (mfBackend_Close (b, w2)) (\<lambda>(b, w). own_ret (Inl (wrap_err ''set input type: %w'' [] err), b, w))
          | Inr _ \<Rightarrow> mf_configure e b w2) (m + mf_held (b, w)) ?Q"
        proof (cases r2)
          case (Inl err)
          then have "\<not> types_accepted e (mb_width b0) (mb_height b0)" using r2 assms(4,5) by (auto simp: types_accepted_def)
          then show ?thesis using mf_close_failed [OF trans [OF w2 w1] assms(3)] Inl by simp
        next
          case Inr2: (Inr u2)
          then have "types_accepted e (mb_width b0) (mb_height b0)" using r r2 Inr assms(4,5) by (simp add: types_accepted_def)
          then show ?thesis using Inr2 runs_mono [OF mf_configure_runs [OF assms(2), of e w2 m]] w1 w2 assms(2,3,6,7)
            by (auto simp: same [of w w2] mf_init_post_def)
        qed
      qed
      then show ?thesis using Inr by simp
    qed
  qed
qed

lemma mf_init_runs:
  assumes "mf_env_ok e" and "mb_transform b = 0" and "mb_codecAPI b = 0"
  shows "own_runs (mf_init e b w) m (\<lambda>x m'. m' = m + mf_held (snd x) \<and> mf_init_post e b w x)"
proof (cases "fst (me_CoCreateInstance e) = 0")
  case False
  then show ?thesis using assms(2,3) by (simp add: mf_init_def own_simps mf_init_post_def mf_held_def)
next
  case True
  let ?t = "snd (me_CoCreateInstance e)" and ?q = "me_QueryCodecAPI e"
  have t: "?t \<noteq> 0" using True assms(1) by (simp add: mf_env_ok_def com_ok_def)
  note st = mf_set_types_runs [OF assms(1) _ True, of _ b w m]
  show ?thesis
  proof (cases "fst ?q = 0")
    case ok: True
    then show ?thesis using st [of "b\<lparr>mb_transform := ?t, mb_codecAPI := snd ?q\<rparr>"] True t
      by (simp add: mf_init_def own_runs_bind runs_mf_create mfComQueryInterface_def runs_com_out com_ref_nonzero Let_def mf_held_def)
  next
    case False
    then show ?thesis using st [of "b\<lparr>mb_transform := ?t\<rparr>"] True t assms(3)
      by (simp add: mf_init_def own_runs_bind runs_mf_create mfComQueryInterface_def runs_com_out com_ref_nonzero Let_def mf_held_def)
  qed
qed

lemma mf_newBackend_runs:
  assumes "mf_env_ok e"
  shows "own_runs (mf_newBackend e width height w) m (\<lambda>(r, b, w') m'. m' = m + mf_held (b, w') \<and>
    (case mfEnsureInit e w of
       (Inl err, w1) \<Rightarrow> r = Inl err \<and> b = mfBackend_zero \<and> w' = w1
     | (Inr _, w1) \<Rightarrow>
         if fst (me_CoCreateInstance e) = 0 \<and> types_accepted e width height
         then r = Inr () \<and> mb_transform b \<noteq> 0 \<and> mb_sampleDur b = 333333 \<and> mb_pts b = 0 \<and> mf_vars w' = mf_vars w1
         else (\<exists>err. r = Inl err) \<and> mb_transform b = 0 \<and> mb_codecAPI b = 0 \<and>
           mf_vars w' = mf_vars (released (if fst (me_CoCreateInstance e) = 0 then released w1 else w1))))"
proof (cases "mfEnsureInit e w")
  case (Pair r w1)
  show ?thesis
  proof (cases r)
    case (Inl err)
    then show ?thesis using Pair by (simp add: mf_newBackend_def runs_ret mf_held_def mfBackend_zero_def)
  next
    case (Inr u)
    let ?b = "mfBackend_zero\<lparr>mb_width := width, mb_height := height, mb_sampleDur := 333333\<rparr>"
    have "own_runs (mf_init e ?b w1) m (\<lambda>x m'. m' = m + mf_held (snd x) \<and> mf_init_post e ?b w1 x)"
      by (rule mf_init_runs [OF assms]) (simp_all add: mfBackend_zero_def)
    then have "own_runs (mf_init e ?b w1) m (\<lambda>x m'. own_runs (case x of (r, b, w) \<Rightarrow> case r of
        Inl err \<Rightarrow> own_ret (Inl err, b, mfRelease w) | Inr _ \<Rightarrow> own_ret (Inr (), b, w)) m' (\<lambda>(r, b, w') m'. m' = m + mf_held (b, w') \<and>
         (if fst (me_CoCreateInstance e) = 0 \<and> types_accepted e width height
         then r = Inr () \<and> mb_transform b \<noteq> 0 \<and> mb_sampleDur b = 333333 \<and> mb_pts b = 0 \<and> mf_vars w' = mf_vars w1
         else (\<exists>err. r = Inl err) \<and> mb_transform b = 0 \<and> mb_codecAPI b = 0 \<and>
           mf_vars w' = mf_vars (released (if fst (me_CoCreateInstance e) = 0 then released w1 else w1)))))"
    proof (rule runs_mono, clarify)
      fix r b w'
      assume "mf_init_post e ?b w1 (r, b, w')"
      then show "own_runs (case r of Inl err \<Rightarrow> own_ret (Inl err, b, mfRelease w') | Inr _ \<Rightarrow> own_ret (Inr (), b, w')) (m + mf_held (snd (r, b, w')))
        (\<lambda>(r, b, w') m'. m' = m + mf_held (b, w') \<and>
         (if fst (me_CoCreateInstance e) = 0 \<and> types_accepted e width height
         then r = Inr () \<and> mb_transform b \<noteq> 0 \<and> mb_sampleDur b = 333333 \<and> mb_pts b = 0 \<and> mf_vars w' = mf_vars w1
         else (\<exists>err. r = Inl err) \<and> mb_transform b = 0 \<and> mb_codecAPI b = 0 \<and>
           mf_vars w' = mf_vars (released (if fst (me_CoCreateInstance e) = 0 then released w1 else w1))))"
        by (cases r) (auto simp: mf_init_post_def runs_ret mf_held_def mfBackend_zero_def mfRelease_eq intro: mf_vars_released)
    qed
    then show ?thesis using Pair Inr by (simp add: mf_newBackend_def own_runs_bind)
  qed
qed

section \<open>Draining\<close>

text \<open>What one call yields: nothing more, an error, or the data of a sample.\<close>

datatype drained = Finished | Broken | Sample bytes

definition output_of :: "bool \<Rightarrow> mf_output \<Rightarrow> drained" where
  "output_of provides a =
     (if \<not> provides \<and> (fst (mo_CreateSample a) \<noteq> 0 \<or> fst (mo_CreateBuffer a) \<noteq> 0 \<or> mo_AddBuffer a \<noteq> 0) then Broken
      else case mo_ProcessOutput a of (hr, provided, events) \<Rightarrow>
        if hr = mfETransformNeedMoreInput then Finished
        else if hr \<noteq> 0 then Broken
        else if provides \<and> provided = 0 then Finished
        else if fst (mo_Contiguous a) \<noteq> 0 then Broken
        else Sample (take (unat (mo_curLen a)) (mo_memory a)))"

lemma processOneOutput_runs:
  assumes "mf_output_ok (mb_mftProvidesSamples b) a" and "Com (mb_transform b) \<in># m"
  shows "own_runs (processOneOutput a b) m (\<lambda>r m'. m' = m \<and>
    (case output_of (mb_mftProvidesSamples b) a of
       Finished \<Rightarrow> r = Inr ([], False, False)
     | Broken \<Rightarrow> (\<exists>err. r = Inl err)
     | Sample d \<Rightarrow> r = Inr (d, length d > 4 \<and> isIDRFrame d, True)))"
proof -
  obtain hr provided events where p: "mo_ProcessOutput a = (hr, provided, events)" by (cases "mo_ProcessOutput a")
  have ok: "com_ok (mo_CreateSample a)" "com_ok (mo_CreateBuffer a)" "com_ok (mo_Contiguous a)" "unat (mo_curLen a) \<le> length (mo_memory a)"
    "mb_mftProvidesSamples b \<and> provided = 0 \<longrightarrow> events = 0"
    using assms(1) p by (simp_all add: mf_output_ok_def)
  show ?thesis
  proof (cases "mb_mftProvidesSamples b")
    case True
    then show ?thesis using assms(2) p ok
      by (auto simp: processOneOutput_def output_sample_def read_sample_def own_simps output_of_def com_ok_def com_ref_nonzero Let_def)
  next
    case False
    then show ?thesis using assms(2) p ok
      by (auto simp: processOneOutput_def output_sample_def read_sample_def own_simps output_of_def com_ok_def com_ref_nonzero Let_def)
  qed
qed


fun is_sample :: "drained \<Rightarrow> bool" where
  "is_sample (Sample d) = True"
| "is_sample _ = False"

fun sample_data :: "drained \<Rightarrow> bytes" where
  "sample_data (Sample d) = d"
| "sample_data _ = []"

definition samples_before :: "bool \<Rightarrow> mf_output list \<Rightarrow> bytes list" where
  "samples_before provides outs = map sample_data (takeWhile is_sample (map (output_of provides) outs))"

definition stops_with :: "bool \<Rightarrow> mf_output list \<Rightarrow> drained" where
  "stops_with provides outs = hd (dropWhile is_sample (map (output_of provides) outs))"

text \<open>The result of a drain: everything before the end, a key frame if one of the samples has one; an error only when there is nothing.\<close>

definition drain_result :: "bool \<Rightarrow> mf_output list \<Rightarrow> bytes \<Rightarrow> bool \<Rightarrow> (bytes option \<times> bool) res \<Rightarrow> bool" where
  "drain_result provides outs nal key r \<longleftrightarrow>
     (let all = nal @ concat (samples_before provides outs);
          k = (key \<or> (\<exists>d \<in> set (samples_before provides outs). length d > 4 \<and> isIDRFrame d)) in
      if all \<noteq> [] then r = Inr (Some all, k)
      else if stops_with provides outs = Finished then r = Inr (None, False) else (\<exists>err. r = Inl err))"

lemma mf_drain_runs:
  assumes "\<forall>a \<in> set outs. mf_output_ok (mb_mftProvidesSamples b) a" and "\<exists>a \<in> set outs. \<not> is_sample (output_of (mb_mftProvidesSamples b) a)"
    and "Com (mb_transform b) \<in># m"
  shows "own_runs (mf_drain b outs nal key) m (\<lambda>r m'. m' = m \<and> drain_result (mb_mftProvidesSamples b) outs nal key r)"
  using assms(1,2)
proof (induction outs arbitrary: nal key)
  case Nil
  then show ?case by simp
next
  case (Cons a as)
  have one: "own_runs (processOneOutput a b) m (\<lambda>r m'. m' = m \<and> (case output_of (mb_mftProvidesSamples b) a of
       Finished \<Rightarrow> r = Inr ([], False, False) | Broken \<Rightarrow> (\<exists>err. r = Inl err)
     | Sample d \<Rightarrow> r = Inr (d, length d > 4 \<and> isIDRFrame d, True)))"
    by (rule processOneOutput_runs) (use Cons.prems(1) assms(3) in simp_all)
  show ?case unfolding mf_drain.simps own_runs_bind
  proof (rule runs_mono [OF one], clarify)
    fix r :: "(bytes \<times> bool \<times> bool) res"
    assume r: "case output_of (mb_mftProvidesSamples b) a of Finished \<Rightarrow> r = Inr ([], False, False) | Broken \<Rightarrow> (\<exists>err. r = Inl err)
       | Sample d \<Rightarrow> r = Inr (d, length d > 4 \<and> isIDRFrame d, True)"
    show "own_runs (case r of Inl err \<Rightarrow> own_ret (if length nal > 0 then Inr (Some nal, key) else Inl err)
       | Inr (nal', isKey, hasOutput) \<Rightarrow>
         if \<not> hasOutput then own_ret (Inr (if length nal = 0 then (None, False) else (Some nal, key)))
         else mf_drain b as (nal @ nal') (if isKey then True else key)) m
       (\<lambda>r m'. m' = m \<and> drain_result (mb_mftProvidesSamples b) (a # as) nal key r)"
    proof (cases "output_of (mb_mftProvidesSamples b) a")
      case (Sample d)
      let ?k = "if length d > 4 \<and> isIDRFrame d then True else key"
      have "own_runs (mf_drain b as (nal @ d) ?k) m (\<lambda>r m'. m' = m \<and> drain_result (mb_mftProvidesSamples b) as (nal @ d) ?k r)"
        using Cons.prems Sample by (intro Cons.IH) auto
      moreover have "drain_result (mb_mftProvidesSamples b) as (nal @ d) ?k r' \<longleftrightarrow> drain_result (mb_mftProvidesSamples b) (a # as) nal key r'" for r'
        using Sample by (auto simp: drain_result_def samples_before_def stops_with_def Let_def)
      ultimately show ?thesis using r Sample by simp
    qed (use r in \<open>auto simp: runs_ret drain_result_def samples_before_def stops_with_def\<close>)
  qed
qed

definition mf_frame_ok :: "bool \<Rightarrow> (bytes \<times> bool) \<times> mf_frame \<Rightarrow> bool" where
  "mf_frame_ok provides = (\<lambda>((nv12, idr), fr). com_ok (mf_CreateBuffer fr) \<and> com_ok (mf_CreateSample fr) \<and> length nv12 \<le> mf_locked fr \<and>
     (\<forall>a \<in> set (mf_outputs fr). mf_output_ok provides a) \<and> (\<exists>a \<in> set (mf_outputs fr). \<not> is_sample (output_of provides a)))"

definition mf_use_ok :: "(bytes \<times> bool) \<times> mf_frame \<Rightarrow> mfBackend \<times> mf_world \<Rightarrow> bool" where
  "mf_use_ok u s = mf_frame_ok (mb_mftProvidesSamples (fst s)) u"

text \<open>The events of a frame that reaches the transform.\<close>

definition frame_events :: "bool \<Rightarrow> bytes \<Rightarrow> mfBackend \<Rightarrow> mf_event list" where
  "frame_events idr nv12 b =
     (if idr \<and> mb_codecAPI b \<noteq> 0 then [CodecSetValue codecapiAVEncVideoForceKeyFrame (variant_ui4 1)] else []) @
     [ProcessInput (mb_pts b) (mb_sampleDur b) nv12]"

lemma mf_submit_runs:
  assumes "com_ok (mf_CreateSample fr)" and "\<forall>a \<in> set (mf_outputs fr). mf_output_ok (mb_mftProvidesSamples b) a"
    and "\<exists>a \<in> set (mf_outputs fr). \<not> is_sample (output_of (mb_mftProvidesSamples b) a)" and "Com (mb_transform b) \<in># M"
  shows "own_runs (mf_submit nv12 fr b w) M (\<lambda>(r, b', w') m'. m' = M \<and>
    (if fst (mf_CreateSample fr) = 0
     then b' = b\<lparr>mb_pts := mb_pts b + mb_sampleDur b\<rparr> \<and> w' = mf_told (ProcessInput (mb_pts b) (mb_sampleDur b) nv12) w \<and>
       (if mf_ProcessInput fr = 0 then drain_result (mb_mftProvidesSamples b) (mf_outputs fr) [] False r else (\<exists>err. r = Inl err))
     else b' = b \<and> w' = w \<and> (\<exists>err. r = Inl err)))"
proof (cases "fst (mf_CreateSample fr) = 0 \<and> mf_ProcessInput fr = 0")
  case False
  then show ?thesis using assms(1,4) by (auto simp: mf_submit_def own_simps com_ok_def com_ref_nonzero Let_def)
next
  case True
  let ?s = "snd (mf_CreateSample fr)" and ?b = "b\<lparr>mb_pts := mb_pts b + mb_sampleDur b\<rparr>"
  have nz: "?s \<noteq> 0" using True assms(1) by (simp add: com_ok_def)
  have "own_runs (mf_drain ?b (mf_outputs fr) [] False) (add_mset (Com ?s) M) (\<lambda>r m'. m' = add_mset (Com ?s) M \<and>
      drain_result (mb_mftProvidesSamples b) (mf_outputs fr) [] False r)"
    using mf_drain_runs [of "mf_outputs fr" ?b "add_mset (Com ?s) M" "[]" False] assms(2-4) by simp
  from runs_mono [OF this] show ?thesis using True nz assms(4)
    by (simp add: mf_submit_def own_runs_bind runs_defer runs_seq runs_touch runs_mf_create runs_comRelease runs_ret com_ref_nonzero Let_def)
qed

lemma mf_Encode_runs:
  assumes "mb_transform b \<noteq> 0" and "mf_frame_ok (mb_mftProvidesSamples b) ((nv12, idr), fr)"
  shows "own_runs (mfBackend_Encode ((nv12, idr), fr) (b, w)) (m + mf_held (b, w)) (\<lambda>(r, b', w') m'. m' = m + mf_held (b', w') \<and>
    mf_vars w' = mf_vars w \<and>
    (if fst (mf_CreateBuffer fr) = 0 \<and> fst (mf_CreateSample fr) = 0
     then b' = b\<lparr>mb_pts := mb_pts b + mb_sampleDur b\<rparr> \<and> mw_log w' = mw_log w @ frame_events idr nv12 b \<and>
       (if mf_ProcessInput fr = 0 then drain_result (mb_mftProvidesSamples b) (mf_outputs fr) [] False r else (\<exists>err. r = Inl err))
     else (\<exists>err. r = Inl err) \<and> b' = b))"
proof -
  have ok: "com_ok (mf_CreateBuffer fr)" "com_ok (mf_CreateSample fr)" "length nv12 \<le> mf_locked fr"
    "\<forall>a \<in> set (mf_outputs fr). mf_output_ok (mb_mftProvidesSamples b) a"
    "\<exists>a \<in> set (mf_outputs fr). \<not> is_sample (output_of (mb_mftProvidesSamples b) a)"
    using assms(2) by (simp_all add: mf_frame_ok_def)
  define w1 where "w1 = (if idr \<and> mb_codecAPI b \<noteq> 0 then mf_told (CodecSetValue codecapiAVEncVideoForceKeyFrame (variant_ui4 1)) w else w)"
  have w1: "mf_vars w1 = mf_vars w" "mw_log w1 @ [ProcessInput (mb_pts b) (mb_sampleDur b) nv12] = mw_log w @ frame_events idr nv12 b"
    by (simp_all add: w1_def frame_events_def mf_told_def mf_vars_def)
  have mem: "Com (mb_transform b) \<in># m + mf_held (b, w)" "mb_codecAPI b \<noteq> 0 \<Longrightarrow> Com (mb_codecAPI b) \<in># m + mf_held (b, w)"
    using assms(1) by (simp_all add: mf_held_def com_ref_nonzero)
  have start: "own_runs (mfBackend_Encode ((nv12, idr), fr) (b, w)) (m + mf_held (b, w)) Q \<longleftrightarrow>
      (if fst (mf_CreateBuffer fr) = 0
       then own_runs (mf_submit nv12 fr b w1) (add_mset (Com (snd (mf_CreateBuffer fr))) (m + mf_held (b, w)))
         (\<lambda>x m'. Com (snd (mf_CreateBuffer fr)) \<in># m' \<and> Q x (m' - {#Com (snd (mf_CreateBuffer fr))#}))
       else Q (Inl (Errorf ''MFCreateMemoryBuffer: 0x%08X'' [int (fst (mf_CreateBuffer fr))]), b, w1) (m + mf_held (b, w)))" for Q
    using ok(1,3) mem
    by (simp add: mfBackend_Encode_def own_runs_bind runs_defer runs_seq runs_touch runs_mf_create runs_comRelease runs_ret runs_lift
        setCodecAPIUINT32_def com_ref_nonzero com_ok_def w1_def)
  show ?thesis
  proof (cases "fst (mf_CreateBuffer fr) = 0")
    case True
    have "Com (mb_transform b) \<in># add_mset (Com (snd (mf_CreateBuffer fr))) (m + mf_held (b, w))" using mem(1) by simp
    note sub = mf_submit_runs [OF ok(2,4,5) this, of nv12 w1]
    show ?thesis unfolding start using True
      by (simp, intro runs_mono [OF sub]) (auto simp: w1 mf_held_def mf_log_told split: if_splits)
  next
    case False
    then show ?thesis unfolding start by (simp add: w1 mf_held_def)
  qed
qed

section \<open>Properties\<close>

text \<open>Opening as the initialisation of an object: the result of \<^verbatim>\<open>newBackend\<close> with the variables of the package.\<close>

definition mf_open :: "mf_env \<times> nat \<times> nat \<Rightarrow> mfBackend \<times> mf_world \<Rightarrow> (win_ref, unit res \<times> mfBackend \<times> mf_world) own" where
  "mf_open = (\<lambda>(e, width, height) (b, w). mf_newBackend e width height w)"

interpretation mf: lifecycle_owner mf_held "\<lambda>(e, width, height). mf_env_ok e" mf_use_ok mf_ready mf_open mfBackend_Encode mfBackend_Close
  "(mfBackend_zero, w)" for w
proof
  show "mf_held (mfBackend_zero, w) = {#}" by (simp add: mf_held_def mfBackend_zero_def)
  show "own_runs (mf_open e (mfBackend_zero, w)) m (\<lambda>(r, s) m'. m' = m + mf_held s \<and> (case r of Inl _ \<Rightarrow> mf_held s = {#} | Inr _ \<Rightarrow> mf_ready s))"
    if "case e of (e, width, height) \<Rightarrow> mf_env_ok e" for e m
  proof -
    obtain e' width height where e: "e = (e', width, height)" by (cases e)
    show ?thesis using that unfolding e mf_open_def
      by (simp, intro runs_mono [OF mf_newBackend_runs])
        (auto simp: mf_ready_def mf_held_def mfBackend_zero_def split: prod.splits sum.splits if_splits)
  qed
  show "own_runs (mfBackend_Encode u s) (m + mf_held s) (\<lambda>(a, s') m'. m' = m + mf_held s' \<and> mf_ready s' \<and> (\<forall>u. mf_use_ok u s' \<longleftrightarrow> mf_use_ok u s))"
    if "mf_ready s" "mf_use_ok u s" for s u m
  proof -
    obtain b w' nv12 idr fr where s: "s = (b, w')" "u = ((nv12, idr), fr)" by (cases s, cases u) auto
    show ?thesis using that unfolding s
      by (intro runs_mono [OF mf_Encode_runs]) (auto simp: mf_ready_def mf_use_ok_def split: if_splits)
  qed
  show "own_runs (mfBackend_Close s) (m + mf_held s) (\<lambda>s' m'. m' = m \<and> mf_held s' = {#})" if "mf_ready s" for s m
    by (cases s) (simp, rule runs_mono [OF mf_close_runs], auto simp: mf_held_def)
qed

text \<open>
  C34: One call of \<^verbatim>\<open>Encode\<close> of the Media Foundation backend: the transform gets exactly the frame, at the time of the frame number, with
  a key frame forced first when one is asked for, and everything it has queued is drained: the result is the concatenation of all
  output samples up to the answer that ends the loop, marked as a key frame exactly when one of the samples has an IDR slice; nothing
  yet while there is no output, an error only when nothing could be drained. No reference is lost or used after it was given back.
\<close>

theorem mf_Encode_drains:
  assumes "mb_transform b \<noteq> 0" and "mf_frame_ok (mb_mftProvidesSamples b) ((nv12, idr), fr)"
    and "fst (mf_CreateBuffer fr) = 0" and "fst (mf_CreateSample fr) = 0" and "mf_ProcessInput fr = 0"
    and "samples = samples_before (mb_mftProvidesSamples b) (mf_outputs fr)"
  shows "\<exists>r b' w'. mfBackend_Encode ((nv12, idr), fr) (b, w) (m + mf_held (b, w)) = Some ((r, b', w'), m + mf_held (b', w')) \<and>
    mb_pts b' = mb_pts b + mb_sampleDur b \<and> mw_log w' = mw_log w @ frame_events idr nv12 b \<and>
    (if concat samples \<noteq> [] then r = Inr (Some (concat samples), \<exists>d \<in> set samples. length d > 4 \<and> isIDRFrame d)
     else if stops_with (mb_mftProvidesSamples b) (mf_outputs fr) = Finished then r = Inr (None, False)
     else (\<exists>err. r = Inl err))"
proof -
  from runs_result [OF mf_Encode_runs [OF assms(1,2), of w m]] obtain r b' w' where
    "mfBackend_Encode ((nv12, idr), fr) (b, w) (m + mf_held (b, w)) = Some ((r, b', w'), m + mf_held (b', w'))"
    "b' = b\<lparr>mb_pts := mb_pts b + mb_sampleDur b\<rparr>" "mw_log w' = mw_log w @ frame_events idr nv12 b"
    "drain_result (mb_mftProvidesSamples b) (mf_outputs fr) [] False r"
    using assms(3-5) by (auto split: if_splits)
  then show ?thesis using assms(6) by (auto simp: drain_result_def Let_def)
qed

text \<open>A transform that provides its samples: two of them, the second with an IDR slice, then nothing more.\<close>

definition demo_output :: "bytes \<Rightarrow> nat \<Rightarrow> mf_output" where
  "demo_output d hr =
     \<lparr>mo_CreateSample = (0, 31), mo_CreateBuffer = (0, 32), mo_AddBuffer = 0, mo_ProcessOutput = (hr, 33, 0), mo_Contiguous = (0, 34),
      mo_memory = d, mo_curLen = of_nat (length d)\<rparr>"

definition demo_mf_frame :: mf_frame where
  "demo_mf_frame =
     \<lparr>mf_CreateBuffer = (0, 41), mf_locked = 6, mf_CreateSample = (0, 42), mf_ProcessInput = 0,
      mf_outputs = [demo_output [0, 0, 0, 1, 0x67, 9] 0, demo_output [0, 0, 1, 0x65, 7] 0, demo_output [] mfETransformNeedMoreInput]\<rparr>"

definition demo_mf :: mfBackend where
  "demo_mf = mfBackend_zero\<lparr>mb_transform := 51, mb_codecAPI := 52, mb_width := 2, mb_height := 2, mb_sampleDur := 333333, mb_mftProvidesSamples := True\<rparr>"

definition demo_mf_world :: mf_world where
  "demo_mf_world = \<lparr>mw_once = True, mw_initErr = None, mw_refCount = 1, mw_started = 1, mw_log = []\<rparr>"

lemma demo_samples:
  "samples_before True (mf_outputs demo_mf_frame) = [[0, 0, 0, 1, 0x67, 9], [0, 0, 1, 0x65, 7]]"
  by (simp add: samples_before_def demo_mf_frame_def output_of_def demo_output_def mfETransformNeedMoreInput_def)

lemma demo_idr: "isIDRFrame [0, 0, 1, 0x65, 7]"
  by (simp add: isIDRFrame_def idr_scan.simps idr_at_def nal_start_def)

theorem mf_Encode_drains_witness:
  "\<exists>b' w'. mfBackend_Encode ((replicate 6 5, True), demo_mf_frame) (demo_mf, demo_mf_world) ({#} + mf_held (demo_mf, demo_mf_world)) =
     Some ((Inr (Some [0, 0, 0, 1, 0x67, 9, 0, 0, 1, 0x65, 7], True), b', w'), {#} + mf_held (b', w'))"
proof -
  have "mf_frame_ok (mb_mftProvidesSamples demo_mf) ((replicate 6 5, True), demo_mf_frame)"
    by (simp add: mf_frame_ok_def demo_mf_def demo_mf_frame_def demo_output_def com_ok_def mf_output_ok_def output_of_def mfETransformNeedMoreInput_def)
  then show ?thesis
    using mf_Encode_drains [of demo_mf "replicate 6 5" True demo_mf_frame _ demo_mf_world "{#}", OF _ _ _ _ _ refl] demo_samples demo_idr
    by (auto simp: demo_mf_def) (auto simp: demo_mf_frame_def)
qed


text \<open>
  An encoder that cannot be opened takes the platform away from the others. When the transform exists but does not accept the
  types of the new size, \<^verbatim>\<open>init\<close> closes the backend, which gives back its use of Media Foundation, and \<^verbatim>\<open>newBackend\<close> gives it back again:
  with one other encoder in use, which counts one, the call returns an error and the platform is shut down under that encoder.
\<close>

lemma mf_failed_open_shuts_down:
  assumes "mf_env_ok e" and "mw_once w" and "mw_initErr w = None" and "mw_refCount w = 1" and "mw_started w = 1"
    and "fst (me_CoCreateInstance e) = 0" and "\<not> types_accepted e width height"
  shows "\<exists>err b w'. mf_newBackend e width height w m = Some ((Inl err, b, w'), m) \<and> mw_refCount w' = 0 \<and> mw_started w' = 0"
proof -
  have i: "mfEnsureInit e w = (Inr (), w\<lparr>mw_refCount := 2\<rparr>)" using assms(2-4) by (simp add: mfEnsureInit_def)
  from runs_result [OF mf_newBackend_runs [OF assms(1), of width height w m]] obtain err b w' where
    "mf_newBackend e width height w m = Some ((Inl err, b, w'), m + mf_held (b, w'))" "mb_transform b = 0" "mb_codecAPI b = 0"
    "mf_vars w' = mf_vars (released (released (w\<lparr>mw_refCount := 2\<rparr>)))"
    using assms(6,7) i by auto
  then show ?thesis using assms(5) by (simp add: mf_held_def mf_vars_def released_def)
qed

definition demo_mf_env :: "nat \<Rightarrow> mf_env" where
  "demo_mf_env hr =
     \<lparr>me_CoInitializeEx = 0, me_MFStartup = 0, me_CoCreateInstance = (0, 51), me_QueryCodecAPI = (0, 52), me_CreateOutputType = (0, 53),
      me_SetOutputType = (\<lambda>a. hr), me_CreateInputType = (0, 54), me_SetInputType = (\<lambda>a. 0), me_GetAttributes = (0, 55), me_GetOutputStreamInfo = (0, 0x100, 0)\<rparr>"

lemma demo_mf_env_ok: "mf_env_ok (demo_mf_env hr)"
  by (simp add: mf_env_ok_def demo_mf_env_def com_ok_def)

lemma mf_failed_open_shuts_down_witness:
  "\<exists>err b w'. mf_newBackend (demo_mf_env 5) 3 3 demo_mf_world {#} = Some ((Inl err, b, w'), {#}) \<and> mw_refCount w' = 0 \<and> mw_started w' = 0"
  by (rule mf_failed_open_shuts_down [OF demo_mf_env_ok]) (simp_all add: demo_mf_world_def demo_mf_env_def types_accepted_def)

text \<open>
  The platform is started by the first encoder only: after the last one has been closed, which shuts it down, a new encoder opens without it.
\<close>

lemma mf_not_restarted:
  assumes "mf_env_ok e" and "mw_once w" and "mw_initErr w = None" and "mw_refCount w = 1" and "mw_started w = 1"
    and "fst (me_CoCreateInstance e) = 0" and "types_accepted e width height"
    and "mfBackend_Close (b, w) (m + mf_held (b, w)) = Some ((b1, w1), m1)"
  shows "\<exists>b2 w2 m2. mf_newBackend e width height w1 m1 = Some ((Inr (), b2, w2), m2) \<and> mw_refCount w2 = 1 \<and> mw_started w2 = 0"
proof -
  have "m1 = m \<and> mf_vars w1 = mf_vars (released w)" using mf_close_law [of b w m] assms(8) by (simp add: own_runs_def)
  then have w1: "mw_once w1" "mw_initErr w1 = None" "mw_refCount w1 = 0" "mw_started w1 = 0"
    using assms(2-5) by (simp_all add: mf_vars_def released_def)
  then have "mfEnsureInit e w1 = (Inr (), w1\<lparr>mw_refCount := 1\<rparr>)" by (simp add: mfEnsureInit_def)
  with runs_result [OF mf_newBackend_runs [OF assms(1), of width height w1 m1]] assms(6,7) show ?thesis
    using w1 by (fastforce simp: mf_vars_def)
qed

text \<open>
  C36: \<^verbatim>\<open>isIDRFrame\<close> finds key frames: it is true exactly when somewhere in the data a start code of three or four bytes is
  followed by the head of an IDR slice, except for a slice head right after a three byte start code that is the very last byte.
\<close>

theorem isIDRFrame_iff:
  "isIDRFrame data \<longleftrightarrow>
     (\<exists>p. 3 \<le> p \<and> p < length data \<and> data ! (p - 3) = 0 \<and> data ! (p - 2) = 0 \<and> data ! (p - 1) = 1 \<and> data ! p AND 0x1F = 5 \<and>
       (p + 1 < length data \<or> 4 \<le> p \<and> data ! (p - 4) = 0))"
proof -
  have scan: "idr_scan data i \<longleftrightarrow> (\<exists>j \<ge> i. j + 4 < length data \<and> idr_at data j)" for i
  proof (induction data i rule: idr_scan.induct)
    case (1 data i)
    show ?case
    proof (cases "i + 4 < length data")
      case True
      have "(\<exists>j \<ge> i. j + 4 < length data \<and> idr_at data j) \<longleftrightarrow> idr_at data i \<or> (\<exists>j \<ge> i + 1. j + 4 < length data \<and> idr_at data j)"
      proof -
        have "i \<le> j \<longleftrightarrow> j = i \<or> i + 1 \<le> j" for j by auto
        then show ?thesis using True by auto
      qed
      then show ?thesis using 1 True by (simp add: idr_scan.simps [of data i])
    next
      case False
      then show ?thesis by (subst idr_scan.simps) auto
    qed
  qed
  have "(\<exists>j. j + 4 < length data \<and> idr_at data j) \<longleftrightarrow>
     (\<exists>p. 3 \<le> p \<and> p < length data \<and> data ! (p - 3) = 0 \<and> data ! (p - 2) = 0 \<and> data ! (p - 1) = 1 \<and> data ! p AND 0x1F = 5 \<and>
       (p + 1 < length data \<or> 4 \<le> p \<and> data ! (p - 4) = 0))" (is "?l = ?r")
  proof
    assume ?l
    then obtain j where j: "j + 4 < length data" "idr_at data j" by blast
    then consider "data ! j = 0" "data ! (j + 1) = 0" "data ! (j + 2) = 1" "data ! (j + 3) AND 0x1F = 5"
      | "data ! j = 0" "data ! (j + 1) = 0" "data ! (j + 2) = 0" "data ! (j + 3) = 1" "data ! (j + 4) AND 0x1F = 5"
      by (auto simp: idr_at_def nal_start_def split: if_splits)
    then show ?r
    proof cases
      case 1
      then show ?r using j by (intro exI [of _ "j + 3"]) auto
    next
      case 2
      then show ?r using j by (intro exI [of _ "j + 4"]) (auto simp: numeral_eq_Suc)
    qed
  next
    assume ?r
    then obtain p where p: "3 \<le> p" "p < length data" "data ! (p - 3) = 0" "data ! (p - 2) = 0" "data ! (p - 1) = 1" "data ! p AND 0x1F = 5"
      "p + 1 < length data \<or> 4 \<le> p \<and> data ! (p - 4) = 0" by blast
    show ?l
    proof (cases "p + 1 < length data")
      case True
      have "p - 3 + 1 = p - 2" "p - 3 + 2 = p - 1" "p - 3 + 3 = p" using p(1) by simp_all
      then show ?l using p True by (intro exI [of _ "p - 3"]) (simp add: idr_at_def nal_start_def)
    next
      case False
      then have q: "4 \<le> p" "data ! (p - 4) = 0" using p(7) by auto
      then have "p - 4 + 1 = p - 3" "p - 4 + 2 = p - 2" "p - 4 + 3 = p - 1" "p - 4 + 4 = p" by simp_all
      then show ?l using p q by (intro exI [of _ "p - 4"]) (simp add: idr_at_def nal_start_def)
    qed
  qed
  then show ?thesis using scan [of 0] by (simp add: isIDRFrame_def)
qed

text \<open>The two halves of a packed attribute.\<close>

lemma pack64_halves: "ucast (pack64 hi lo) = lo" "ucast (drop_bit 32 (pack64 hi lo)) = hi"
  by (rule bit_word_eqI, auto simp: pack64_def bit_simps dest: bit_imp_le_length)+


end
