(* ===== verification/H264.thy ===== *)
theory H264
  imports Geometry Encodings
begin

text \<open>
  \<^verbatim>\<open>h264/encoder.go\<close>: the conversion of BGRA pixels to NV12 and the H.264 encoder around it. The
  backend (x264 or Media Foundation) is a parameter: how it is opened and closed, and what it
  makes of a frame.
\<close>

section \<open>Conversion\<close>

definition clamp :: "int \<Rightarrow> u8" where
  "clamp v = of_int (if v > 255 then 255 else if v < 0 then 0 else v)"

text \<open>
  \<^verbatim>\<open>>>\<close> on a signed number rounds down, as \<open>div\<close> does. The coefficients are those of BT.601 for the limited range (luma
  from 16 to 235), although the comment in the source says full range.
\<close>

definition luma :: "u8 \<Rightarrow> u8 \<Rightarrow> u8 \<Rightarrow> u8" where
  "luma r g b = clamp ((66 * uint r + 129 * uint g + 25 * uint b + 128) div 256 + 16)"

definition chromaU :: "u8 \<Rightarrow> u8 \<Rightarrow> u8 \<Rightarrow> u8" where
  "chromaU r g b = clamp ((- 38 * uint r - 74 * uint g + 112 * uint b + 128) div 256 + 128)"

definition chromaV :: "u8 \<Rightarrow> u8 \<Rightarrow> u8 \<Rightarrow> u8" where
  "chromaV r g b = clamp ((112 * uint r - 94 * uint g - 18 * uint b + 128) div 256 + 128)"

text \<open>The body of the loops, on the two planes that are slices of the buffer.\<close>

definition nv12_pixel ::
  "bytes \<Rightarrow> nat \<Rightarrow> nat \<Rightarrow> nat \<Rightarrow> nat \<Rightarrow> nat \<times> nat \<Rightarrow> bytes \<times> bytes \<Rightarrow> (bytes \<times> bytes) res" where
  "nv12_pixel bgra w stride srcX srcY = (\<lambda>(y, x) (yPlane, uvPlane).
     let rowOff = (srcY + y) * stride + srcX * 4; off = rowOff + x * 4 in
     rbind (index bgra off) (\<lambda>b.
     rbind (index bgra (off + 1)) (\<lambda>g.
     rbind (index bgra (off + 2)) (\<lambda>r.
     rbind (set_at (y * w + x) (luma r g b) yPlane) (\<lambda>yPlane.
     if y mod 2 = 0 \<and> x mod 2 = 0 then
       let uvOff = (y div 2) * w + (x div 2) * 2 in
       rbind (set_at uvOff (chromaU r g b) uvPlane) (\<lambda>uvPlane.
       rbind (set_at (uvOff + 1) (chromaV r g b) uvPlane) (\<lambda>uvPlane.
       Inr (yPlane, uvPlane)))
     else Inr (yPlane, uvPlane))))))"

definition pixel_order :: "nat \<Rightarrow> nat \<Rightarrow> (nat \<times> nat) list" where
  "pixel_order w h = List.product [0..<h] [0..<w]"

definition bgraToNV12 :: "bytes \<Rightarrow> nat \<Rightarrow> nat \<Rightarrow> nat \<Rightarrow> nat \<Rightarrow> nat \<Rightarrow> bytes \<Rightarrow> bytes res" where
  "bgraToNV12 bgra w h stride srcX srcY nv12 =
     rbind (gslice 0 (w * h) nv12) (\<lambda>yPlane.
     rbind (gslice (w * h) (length nv12) nv12) (\<lambda>uvPlane.
     rbind (foldM (nv12_pixel bgra w stride srcX srcY) (pixel_order w h) (yPlane, uvPlane)) (\<lambda>(yPlane, uvPlane).
     Inr (yPlane @ uvPlane))))"

section \<open>The encoder\<close>

text \<open>A backend: opening for a size, encoding a frame (data unless there is none yet, key frame or not), closing.\<close>

record 'b backend =
  be_new :: "nat \<Rightarrow> nat \<Rightarrow> 'b res"
  be_Encode :: "bytes \<Rightarrow> bool \<Rightarrow> 'b \<Rightarrow> (bytes option \<times> bool) res \<times> 'b"
  be_Close :: "'b \<Rightarrow> 'b"

record 'b H264Encoder =
  he_backend :: "'b option"
  he_width :: nat
  he_height :: nat
  he_nv12Buf :: bytes
  he_frameCount :: int
  he_keyintMax :: int

definition H264_NewEncoder :: "'b backend \<Rightarrow> nat \<Rightarrow> nat \<Rightarrow> 'b H264Encoder res" where
  "H264_NewEncoder be width height =
     rbind (rwrap ''h264: %w'' [] (be_new be width height)) (\<lambda>backend.
     Inr \<lparr>he_backend = Some backend, he_width = width, he_height = height,
          he_nv12Buf = replicate (width * height + width * height div 2) 0, he_frameCount = 0, he_keyintMax = 150\<rparr>)"

definition H264_Type :: i32 where "H264_Type = EncodingH264"

text \<open>A change of the resolution; a method call on the nil backend of an encoder that was reset panics.\<close>

definition H264_resize :: "'b backend \<Rightarrow> nat \<Rightarrow> nat \<Rightarrow> ('b H264Encoder, unit) prog" where
  "H264_resize be w h e =
     (if w = he_width e \<and> h = he_height e then (Inr (), e)
      else case he_backend e of
        None \<Rightarrow> (Inl (GoPanic ''nil pointer dereference''), e)
      | Some b \<Rightarrow>
          let e = e\<lparr>he_backend := Some (be_Close be b)\<rparr> in
          (case be_new be w h of
             Inl er \<Rightarrow> (Inl (wrap_err ''h264 reinit: %w'' [] er), e)
           | Inr b' \<Rightarrow>
               let nv12Size = w * h + w * h div 2;
                   buf = if length (he_nv12Buf e) < nv12Size then replicate nv12Size 0 else he_nv12Buf e in
               (Inr (), e\<lparr>he_backend := Some b', he_width := w, he_height := h,
                          he_nv12Buf := take nv12Size buf, he_frameCount := 0\<rparr>)))"

definition H264_encode :: "'b backend \<Rightarrow> ('b H264Encoder, bytes option \<times> bool) prog" where
  "H264_encode be e =
     (case he_backend e of
        None \<Rightarrow> (Inl (GoPanic ''nil pointer dereference''), e)
      | Some b \<Rightarrow>
          (case be_Encode be (he_nv12Buf e) (he_frameCount e = 0) b of
             (Inl er, b') \<Rightarrow> (Inl (wrap_err ''h264 encode: %w'' [] er), e\<lparr>he_backend := Some b'\<rparr>)
           | (Inr r, b') \<Rightarrow> (Inr r, e\<lparr>he_backend := Some b', he_frameCount := he_frameCount e + 1\<rparr>)))"

definition H264_EncodeMulti ::
  "'b backend \<Rightarrow> u16 \<Rightarrow> u16 \<Rightarrow> u16 \<Rightarrow> u16 \<Rightarrow> bytes \<Rightarrow> nat \<Rightarrow> ('b H264Encoder, Rectangle list) prog" where
  "H264_EncodeMulti be x y width height pixels stride =
     bind_io (H264_resize be (unat width) (unat height)) (\<lambda>_.
     bind_io get_state (\<lambda>e.
     bind_io (lift_res (bgraToNV12 pixels (unat width) (unat height) stride (unat x) (unat y) (he_nv12Buf e))) (\<lambda>nv12.
     bind_io (modify (\<lambda>e. e\<lparr>he_nv12Buf := nv12\<rparr>)) (\<lambda>_.
     bind_io (H264_encode be) (\<lambda>(nalData, isKeyframe).
     case nalData of
       None \<Rightarrow> ret []
     | Some nal \<Rightarrow>
         let flags = if isKeyframe then 1 else 0 in
         ret [mkRect x y width height EncodingH264 (be32 flags @ be32 (of_nat (length nal)) @ nal)])))))"

text \<open>The result is the backend that was closed, which nothing refers to any more, and the encoder.\<close>

definition H264_Reset :: "'b backend \<Rightarrow> 'b H264Encoder \<Rightarrow> 'b option \<times> 'b H264Encoder" where
  "H264_Reset be e =
     (case he_backend e of None \<Rightarrow> (None, e) | Some b \<Rightarrow> (Some (be_Close be b), e\<lparr>he_backend := None\<rparr>))"

text \<open>The invariant: the buffer has the size of a frame.\<close>

definition h264_wf :: "'b H264Encoder \<Rightarrow> bool" where
  "h264_wf e \<longleftrightarrow> length (he_nv12Buf e) = he_width e * he_height e + he_width e * he_height e div 2"

section \<open>The planes\<close>

text \<open>What the planes hold at each index: every index stands for one pixel of the source.\<close>

definition src_byte :: "bytes \<Rightarrow> nat \<Rightarrow> nat \<Rightarrow> nat \<Rightarrow> nat \<Rightarrow> nat \<Rightarrow> nat \<Rightarrow> u8" where
  "src_byte bgra stride srcX srcY y x c = bgra ! ((srcY + y) * stride + srcX * 4 + x * 4 + c)"

definition y_value :: "(nat \<Rightarrow> nat \<Rightarrow> nat \<Rightarrow> u8) \<Rightarrow> nat \<Rightarrow> nat \<Rightarrow> u8" where
  "y_value src y x = luma (src y x 2) (src y x 1) (src y x 0)"

definition uv_value :: "(nat \<Rightarrow> nat \<Rightarrow> nat \<Rightarrow> u8) \<Rightarrow> nat \<Rightarrow> nat \<Rightarrow> u8" where
  "uv_value src q c =
     (if even c then chromaU (src (2 * q) c 2) (src (2 * q) c 1) (src (2 * q) c 0)
      else chromaV (src (2 * q) (c - 1) 2) (src (2 * q) (c - 1) 1) (src (2 * q) (c - 1) 0))"

definition planes_ok :: "(nat \<Rightarrow> nat \<Rightarrow> nat \<Rightarrow> u8) \<Rightarrow> nat \<Rightarrow> nat \<Rightarrow> (nat \<times> nat) set \<Rightarrow> bytes \<times> bytes \<Rightarrow> bool" where
  "planes_ok src w h ps = (\<lambda>(yp, uv). length yp = w * h \<and> length uv = w * h div 2 \<and>
     (\<forall>(y, x) \<in> ps. yp ! (y * w + x) = y_value src y x) \<and>
     (\<forall>(y, x) \<in> ps. even y \<and> even x \<longrightarrow>
        uv ! (y div 2 * w + x) = uv_value src (y div 2) x \<and> uv ! (y div 2 * w + x + 1) = uv_value src (y div 2) (x + 1)))"

lemma grid_inj:
  assumes "x < w" and "x' < w" and "y * w + x = y' * w + (x' :: nat)"
  shows "y = y' \<and> x = x'"
proof -
  have "y = (y * w + x) div w" "y' = (y' * w + x') div w" using assms(1,2) by simp_all
  then have "y = y'" using assms(3) by metis
  then show ?thesis using assms(3) by simp
qed

lemma uv_bound:
  assumes "even w" and "even (h :: nat)" and "y < h" and "x < w" and "even y" and "even x"
  shows "y div 2 * w + x + 1 < w * h div 2"
proof -
  obtain k where k: "h = 2 * k" using assms(2) by (elim evenE)
  have "x + 1 < w" using assms(1,4,6) by presburger
  moreover have "y div 2 < k" using assms(3) k by simp
  then have "(y div 2 + 1) * w \<le> k * w" by (intro mult_le_mono1) simp
  ultimately show ?thesis using k by (simp add: algebra_simps)
qed

lemma nv12_pixel_step:
  assumes "planes_ok (src_byte bgra stride srcX srcY) w h ps s" and "even w" and "even h" and "y < h" and "x < w"
    and "frame_has bgra stride srcX srcY w h" and "ps \<subseteq> {0..<h} \<times> {0..<w}"
  shows "\<exists>s'. nv12_pixel bgra w stride srcX srcY (y, x) s = Inr s' \<and>
     planes_ok (src_byte bgra stride srcX srcY) w h (insert (y, x) ps) s'"
proof -
  let ?src = "src_byte bgra stride srcX srcY"
  obtain yp uv where s: "s = (yp, uv)" by (cases s)
  have len: "length yp = w * h" "length uv = w * h div 2" using assms(1) s by (auto simp: planes_ok_def)
  have row: "(srcY + y) * stride + srcX * 4 + w * 4 \<le> length bgra" using frame_hasD [OF assms(6,4)] by simp
  have px: "index bgra ((srcY + y) * stride + srcX * 4 + x * 4 + c) = Inr (?src y x c)" if "c < 4" for c
    using row assms(5) that by (simp add: index_def src_byte_def)
  have yi: "y * w + x < w * h"
  proof -
    have "(y + 1) * w \<le> h * w" using assms(4) by (intro mult_le_mono1) simp
    then show ?thesis using assms(5) by (simp add: algebra_simps)
  qed
  define yp' where "yp' = yp[y * w + x := y_value ?src y x]"
  have old: "yp' ! (b * w + a) = y_value ?src b a" if "(b, a) \<in> insert (y, x) ps" for b a
  proof (cases "(b, a) = (y, x)")
    case False
    then have "(b, a) \<in> ps" using that by auto
    then have "a < w" "yp ! (b * w + a) = y_value ?src b a" using assms(1,7) s by (auto simp: planes_ok_def)
    then show ?thesis using grid_inj [OF assms(5), of a y b] len(1) yi by (auto simp: yp'_def nth_list_update)
  qed (use len yi in \<open>simp add: yp'_def\<close>)
  show ?thesis
  proof (cases "even y \<and> even x")
    case False
    then have "nv12_pixel bgra w stride srcX srcY (y, x) s = Inr (yp', uv)"
      using px [of 0] px [of 1] px [of 2] yi len s
      by (auto simp: nv12_pixel_def Let_def set_at_def yp'_def y_value_def even_iff_mod_2_eq_zero)
    moreover have "planes_ok ?src w h (insert (y, x) ps) (yp', uv)"
      using assms(1) s len old False by (auto simp: planes_ok_def yp'_def)
    ultimately show ?thesis by blast
  next
    case True
    define k where "k = y div 2 * w + x"
    define uv' where "uv' = uv[k := uv_value ?src (y div 2) x, k + 1 := uv_value ?src (y div 2) (x + 1)]"
    have kb: "k + 1 < length uv" using uv_bound [OF assms(2-5)] True len by (simp add: k_def)
    have xw: "x + 1 < w" using True assms(2,5) by (metis Suc_eq_plus1 Suc_lessI even_Suc)
    have "nv12_pixel bgra w stride srcX srcY (y, x) s = Inr (yp', uv')"
      using px [of 0] px [of 1] px [of 2] yi len s True kb
      by (auto simp: nv12_pixel_def Let_def set_at_def yp'_def uv'_def y_value_def uv_value_def k_def even_iff_mod_2_eq_zero)
    moreover have uvs: "uv' ! (b div 2 * w + a + d) = uv_value ?src (b div 2) (a + d)"
      if ba: "(b, a) \<in> insert (y, x) ps" "even b" "even a" and d: "d \<in> {0, 1}" for b a d
    proof -
      have "a < w" using ba assms(5,7) by auto
      then have aw: "a + 1 < w" using ba(3) assms(2) by (metis Suc_eq_plus1 Suc_lessI even_Suc)
      consider "b div 2 = y div 2" "a = x" | "(b, a) \<in> ps" "\<not> (b div 2 = y div 2 \<and> a = x)" using ba by auto
      then show ?thesis
      proof cases
        case 1
        then show ?thesis using d kb by (auto simp: uv'_def k_def)
      next
        case 2
        have "b div 2 * w + (a + d) \<noteq> y div 2 * w + x" "b div 2 * w + (a + d) \<noteq> y div 2 * w + (x + 1)"
          using grid_inj [of "a + d" w x "b div 2" "y div 2"] grid_inj [of "a + d" w "x + 1" "b div 2" "y div 2"]
            aw xw d 2(2) ba(3) True by auto
        moreover have "uv ! (b div 2 * w + a + d) = uv_value ?src (b div 2) (a + d)"
          using assms(1) s 2(1) ba(2,3) d by (auto simp: planes_ok_def)
        ultimately show ?thesis using kb by (simp add: uv'_def k_def nth_list_update add.assoc)
      qed
    qed
    have "planes_ok ?src w h (insert (y, x) ps) (yp', uv')"
      using len old uvs [where d = 0] uvs [where d = 1] by (auto simp: planes_ok_def yp'_def uv'_def)
    ultimately show ?thesis by blast
  qed
qed
lemma nv12_pixels:
  assumes "planes_ok (src_byte bgra stride srcX srcY) w h ps s" and "even w" and "even h"
    and "frame_has bgra stride srcX srcY w h" and "ps \<subseteq> {0..<h} \<times> {0..<w}" and "set qs \<subseteq> {0..<h} \<times> {0..<w}"
  shows "\<exists>s'. foldM (nv12_pixel bgra w stride srcX srcY) qs s = Inr s' \<and>
     planes_ok (src_byte bgra stride srcX srcY) w h (ps \<union> set qs) s'"
  using assms
proof (induction qs arbitrary: s ps)
  case (Cons q qs)
  obtain y x where q: "q = (y, x)" by (cases q)
  then have yx: "y < h" "x < w" using Cons.prems(6) by auto
  obtain s1 where s1: "nv12_pixel bgra w stride srcX srcY q s = Inr s1"
      "planes_ok (src_byte bgra stride srcX srcY) w h (insert q ps) s1"
    using nv12_pixel_step [OF Cons.prems(1-3) yx Cons.prems(4,5)] q by auto
  have "\<exists>s'. foldM (nv12_pixel bgra w stride srcX srcY) qs s1 = Inr s' \<and>
     planes_ok (src_byte bgra stride srcX srcY) w h (insert q ps \<union> set qs) s'"
    by (rule Cons.IH [OF s1(2)]) (use Cons.prems q in auto)
  then show ?case using s1(1) by simp
qed auto

section \<open>Properties\<close>

text \<open>
  What an NV12 buffer holds: the luma of every pixel, and for every square of two by two pixels
  the two chroma values of its upper left one.
\<close>

definition nv12_image :: "(nat \<Rightarrow> nat \<Rightarrow> nat \<Rightarrow> u8) \<Rightarrow> nat \<Rightarrow> nat \<Rightarrow> bytes \<Rightarrow> bool" where
  "nv12_image src w h out \<longleftrightarrow> length out = w * h + w * h div 2 \<and>
     (\<forall>y x. y < h \<and> x < w \<longrightarrow> out ! (y * w + x) = y_value src y x) \<and>
     (\<forall>y x. y < h \<and> x < w \<and> even y \<and> even x \<longrightarrow>
        out ! (w * h + (y div 2 * w + x)) = uv_value src (y div 2) x \<and>
        out ! (w * h + (y div 2 * w + x + 1)) = uv_value src (y div 2) (x + 1))"

lemma bgraToNV12_even:
  assumes "even w" and "even h" and "frame_has bgra stride srcX srcY w h" and "length nv12 = w * h + w * h div 2"
  shows "\<exists>out. bgraToNV12 bgra w h stride srcX srcY nv12 = Inr out \<and> nv12_image (src_byte bgra stride srcX srcY) w h out"
proof -
  let ?src = "src_byte bgra stride srcX srcY"
  have "planes_ok ?src w h {} (take (w * h) nv12, drop (w * h) nv12)" using assms(4) by (simp add: planes_ok_def)
  then obtain yp uv where f: "foldM (nv12_pixel bgra w stride srcX srcY) (pixel_order w h) (take (w * h) nv12, drop (w * h) nv12) = Inr (yp, uv)"
      "planes_ok ?src w h ({0..<h} \<times> {0..<w}) (yp, uv)"
    using nv12_pixels [of bgra stride srcX srcY w h "{}" _ "pixel_order w h"] assms(1-3) by (fastforce simp: pixel_order_def)
  have len: "length yp = w * h" "length uv = w * h div 2" using f(2) by (simp_all add: planes_ok_def)
  have "bgraToNV12 bgra w h stride srcX srcY nv12 = Inr (yp @ uv)"
    using f(1) assms(4) by (simp add: bgraToNV12_def gslice_def)
  moreover have "(yp @ uv) ! (y * w + x) = y_value ?src y x" if "y < h" "x < w" for y x
  proof -
    have "(y + 1) * w \<le> h * w" using that(1) by (intro mult_le_mono1) simp
    then have "y * w + x < w * h" using that(2) by (simp add: algebra_simps)
    then show ?thesis using f(2) that len(1) by (auto simp: planes_ok_def nth_append)
  qed
  moreover have "(yp @ uv) ! (w * h + k) = uv ! k" "(yp @ uv) ! Suc (w * h + k) = uv ! Suc k" for k
    using len(1) by (simp_all add: nth_append)
  ultimately show ?thesis using f(2) assms(4) len by (intro exI [of _ "yp @ uv"]) (auto simp: planes_ok_def nv12_image_def)
qed

text \<open>The conversion fails only by a panic.\<close>

lemma no_err_nv12_pixel: "no_err (nv12_pixel bgra w stride srcX srcY p s)"
  by (cases p; cases s)
    (auto simp: nv12_pixel_def Let_def intro!: no_err_rbind no_err_if no_err_slices)

lemma foldM_no_err: "(\<And>x s. no_err (f x s)) \<Longrightarrow> no_err (foldM f xs s)"
  by (induction xs arbitrary: s) (auto intro: no_err_rbind)

lemma foldM_reaches:
  assumes "foldM f xs s = Inr t" and "P s" and "\<And>x s s'. P s \<Longrightarrow> f x s = Inr s' \<Longrightarrow> P s'" and "x \<in> set xs"
  shows "\<exists>s s'. P s \<and> f x s = Inr s'"
  using assms
proof (induction xs arbitrary: s)
  case (Cons a as)
  then obtain u where u: "f a s = Inr u" "foldM f as u = Inr t" by (auto simp: rbind_Inr_iff)
  show ?case
  proof (cases "x = a")
    case True
    then show ?thesis using Cons.prems(2) u(1) by blast
  next
    case False
    then show ?thesis using Cons.IH [OF u(2) Cons.prems(3) [OF Cons.prems(2) u(1)]] Cons.prems(3,4) by auto
  qed
qed simp

lemma nv12_pixel_uv:
  assumes "nv12_pixel bgra w stride srcX srcY (y, x) (yp, uv) = Inr (yp', uv')"
  shows "length uv' = length uv \<and> (even y \<and> even x \<longrightarrow> y div 2 * w + x + 1 < length uv)"
  using assms
  by (auto simp: nv12_pixel_def Let_def rbind_Inr_iff set_at_def even_iff_mod_2_eq_zero split: if_splits)

text \<open>With an odd size one even pixel has its chroma behind the end of the plane.\<close>

lemma odd_size_pixel:
  assumes "0 < w" and "0 < h" and "odd w \<or> odd (h :: nat)"
  shows "\<exists>y x. y < h \<and> x < w \<and> even y \<and> even x \<and> w * h div 2 \<le> y div 2 * w + x + 1"
proof (cases "odd w")
  case True
  define k where "k = (h - 1) div 2"
  have "w * h \<le> w * (2 * (k + 1))" using assms(2) by (intro mult_le_mono2) (simp add: k_def)
  then have "w * h div 2 \<le> k * w + (w - 1) + 1" using assms(1) by (simp add: algebra_simps div_le_mono)
  then show ?thesis using True assms(1,2)
    by (intro exI [of _ "2 * k"] exI [of _ "w - 1"]) (auto simp: k_def)
next
  case False
  then have h: "odd h" using assms(3) by simp
  define k where "k = (h - 1) div 2"
  have "h = 2 * k + 1" using h by (simp add: k_def)
  then have "w * h div 2 = k * w + w div 2" by (simp add: algebra_simps)
  moreover have "w div 2 \<le> w - 2 + 1" using False assms(1) by presburger
  ultimately show ?thesis using False assms(1) \<open>h = 2 * k + 1\<close>
    by (intro exI [of _ "2 * k"] exI [of _ "w - 2"]) auto
qed

lemma bgraToNV12_odd_panics:
  assumes "odd w \<or> odd h" and "0 < w" and "0 < h" and "length nv12 = w * h + w * h div 2"
  shows "is_panic (bgraToNV12 bgra w h stride srcX srcY nv12)"
proof (rule ccontr)
  let ?f = "nv12_pixel bgra w stride srcX srcY" and ?s = "(take (w * h) nv12, drop (w * h) nv12)"
  assume "\<not> ?thesis"
  then have "\<not> is_panic (foldM ?f (pixel_order w h) ?s)"
    using assms(4) by (auto simp: bgraToNV12_def gslice_def is_panic_rbind)
  then obtain t where t: "foldM ?f (pixel_order w h) ?s = Inr t"
    using foldM_no_err [of ?f "pixel_order w h" ?s, OF no_err_nv12_pixel] by (auto simp: no_err_def)
  obtain y x where yx: "y < h" "x < w" "even y" "even x" "w * h div 2 \<le> y div 2 * w + x + 1"
    using odd_size_pixel [OF assms(2,3,1)] by blast
  have "\<exists>s s'. length (snd s) = w * h div 2 \<and> ?f (y, x) s = Inr s'"
  proof (rule foldM_reaches [OF t])
    show "length (snd ?s) = w * h div 2" using assms(4) by simp
    show "length (snd s') = w * h div 2" if "length (snd s) = w * h div 2" "?f q s = Inr s'" for q s s'
      using that nv12_pixel_uv by (cases q; cases s; cases s') fastforce
    show "(y, x) \<in> set (pixel_order w h)" using yx by (simp add: pixel_order_def)
  qed
  then show False using nv12_pixel_uv yx by fastforce
qed

text \<open>The encoder after the check for a new size, when the backend can be opened for it.\<close>

definition h264_ready :: "'b backend \<Rightarrow> nat \<Rightarrow> nat \<Rightarrow> 'b H264Encoder \<Rightarrow> 'b \<Rightarrow> bool \<Rightarrow> bool" where
  "h264_ready be w h e b idr \<longleftrightarrow>
     (if w = he_width e \<and> h = he_height e then he_backend e = Some b \<and> idr = (he_frameCount e = 0)
      else he_backend e \<noteq> None \<and> be_new be w h = Inr b \<and> idr)"

lemma H264_resize_ready:
  assumes "h264_wf e" and "h264_ready be w h e b idr"
  shows "\<exists>e'. H264_resize be w h e = (Inr (), e') \<and> h264_wf e' \<and> he_backend e' = Some b \<and>
     he_width e' = w \<and> he_height e' = h \<and> (he_frameCount e' = 0) = idr"
  using assms by (auto simp: H264_resize_def h264_ready_def h264_wf_def Let_def split: if_splits)

text \<open>A change of the size that fails leaves the closed backend in place: the next frame of the old size is encoded with it.\<close>

lemma H264_failed_reinit_keeps_closed:
  assumes "he_backend e = Some b" and "(w, h) \<noteq> (he_width e, he_height e)" and "be_new be w h = Inl er"
  shows "\<exists>e'. H264_resize be w h e = (Inl (wrap_err ''h264 reinit: %w'' [] er), e') \<and>
    h264_ready be (he_width e) (he_height e) e' (be_Close be b) (he_frameCount e = 0)"
  using assms by (auto simp: H264_resize_def h264_ready_def)

lemma H264_NewEncoder_wf: "H264_NewEncoder be w h = Inr e \<Longrightarrow> h264_wf e"
  by (cases "be_new be w h") (auto simp: H264_NewEncoder_def h264_wf_def)

text \<open>
  C33: On a region of even size inside the frame the backend receives, whatever was encoded before,
  the NV12 image of exactly that region, with a key frame forced for the first frame of a size; what
  it answers goes out as one rectangle with the flags, the length and the data, or as none while
  it has no output, its error is handed on, and the buffer keeps the size of a frame.
\<close>

theorem H264_EncodeMulti_frame:
  assumes "h264_wf e" and "h264_ready be (unat width) (unat height) e b idr"
    and "even (unat width)" and "even (unat height)" and "frame_has pixels stride (unat x) (unat y) (unat width) (unat height)"
  shows "\<exists>img e'. nv12_image (src_byte pixels stride (unat x) (unat y)) (unat width) (unat height) img \<and>
     h264_wf e' \<and> he_nv12Buf e' = img \<and> he_backend e' = Some (snd (be_Encode be img idr b)) \<and>
     H264_EncodeMulti be x y width height pixels stride e =
       (case fst (be_Encode be img idr b) of
          Inl er \<Rightarrow> Inl (wrap_err ''h264 encode: %w'' [] er)
        | Inr (None, key) \<Rightarrow> Inr []
        | Inr (Some nal, key) \<Rightarrow>
            Inr [mkRect x y width height EncodingH264 (be32 (if key then 1 else 0) @ be32 (of_nat (length nal)) @ nal)], e')"
proof -
  obtain e1 where e1: "H264_resize be (unat width) (unat height) e = (Inr (), e1)" "h264_wf e1" "he_backend e1 = Some b"
      "he_width e1 = unat width" "he_height e1 = unat height" "(he_frameCount e1 = 0) = idr"
    using H264_resize_ready [OF assms(1,2)] by blast
  obtain img where img: "bgraToNV12 pixels (unat width) (unat height) stride (unat x) (unat y) (he_nv12Buf e1) = Inr img"
      "nv12_image (src_byte pixels stride (unat x) (unat y)) (unat width) (unat height) img"
    using bgraToNV12_even [OF _ _ assms(5)] assms(3,4) e1(2,4,5) by (auto simp: h264_wf_def)
  have len: "h264_wf (e1\<lparr>he_nv12Buf := img\<rparr>)" using img(2) e1(4,5) by (simp add: h264_wf_def nv12_image_def)
  obtain r b' where r: "be_Encode be img idr b = (r, b')" by fastforce
  show ?thesis
    using e1(1,3,6) img r len
    by (intro exI [of _ img] exI [of _ "snd (H264_EncodeMulti be x y width height pixels stride e)"])
      (auto simp: H264_EncodeMulti_def H264_encode_def bind_io_def get_state_def lift_res_def modify_def ret_def
        h264_wf_def Let_def split: sum.splits option.splits)
qed

text \<open>
  On a region with an odd width or an odd height the encoder panics, whatever the pixels and the
  backend are: the buffer has no room for the last chroma values.
\<close>

lemma H264_EncodeMulti_odd_panics:
  assumes "h264_wf e" and "h264_ready be (unat width) (unat height) e b idr"
    and "odd (unat width) \<or> odd (unat height)" and "width \<noteq> 0" and "height \<noteq> 0"
  shows "is_panic (fst (H264_EncodeMulti be x y width height pixels stride e))"
proof -
  obtain e1 where e1: "H264_resize be (unat width) (unat height) e = (Inr (), e1)" "h264_wf e1"
      "he_width e1 = unat width" "he_height e1 = unat height"
    using H264_resize_ready [OF assms(1,2)] by blast
  have "is_panic (bgraToNV12 pixels (unat width) (unat height) stride (unat x) (unat y) (he_nv12Buf e1))"
    using assms(3-5) e1(2-4) by (intro bgraToNV12_odd_panics) (auto simp: h264_wf_def unat_gt_0)
  then obtain p where "bgraToNV12 pixels (unat width) (unat height) stride (unat x) (unat y) (he_nv12Buf e1) = Inl (GoPanic p)"
    by (auto elim: is_panic.elims)
  then show ?thesis using e1(1) by (simp add: H264_EncodeMulti_def bind_io_def get_state_def lift_res_def)
qed

text \<open>A backend that returns the frame it is given, and an encoder for frames of two by two pixels.\<close>

definition echo_backend :: "unit backend" where
  "echo_backend = \<lparr>be_new = (\<lambda>_ _. Inr ()), be_Encode = (\<lambda>d idr u. (Inr (Some d, idr), u)), be_Close = (\<lambda>u. u)\<rparr>"

definition echo_encoder :: "unit H264Encoder" where
  "echo_encoder = \<lparr>he_backend = Some (), he_width = 2, he_height = 2, he_nv12Buf = replicate 6 0, he_frameCount = 0, he_keyintMax = 150\<rparr>"

theorem H264_EncodeMulti_frame_witness:
  "\<exists>img. nv12_image (src_byte (replicate 64 9) 16 2 2) 2 2 img \<and>
     fst (H264_EncodeMulti echo_backend 2 2 2 2 (replicate 64 9) 16 echo_encoder) =
       Inr [mkRect 2 2 2 2 EncodingH264 (be32 1 @ be32 (of_nat (length img)) @ img)]"
  using H264_EncodeMulti_frame [of echo_encoder echo_backend 2 2 "()" True "replicate 64 9" 16 2 2]
  by (auto simp: echo_encoder_def echo_backend_def h264_wf_def h264_ready_def frame_has_def)

lemma H264_EncodeMulti_odd_panics_witness:
  "is_panic (fst (H264_EncodeMulti echo_backend 0 0 3 2 (replicate 24 9) 12 echo_encoder))"
  using H264_EncodeMulti_odd_panics [of echo_encoder echo_backend 3 2 "()" True]
  by (simp add: echo_encoder_def echo_backend_def h264_wf_def h264_ready_def)

end
