(* ===== verification/X264.thy ===== *)
theory X264
  imports Ownership H264
begin

text \<open>
  \<^verbatim>\<open>h264/x264_cgo.go\<close> and \<^verbatim>\<open>h264/encoder_stub.go\<close>: the H.264 backends other than the one of Windows. The functions of x264 are
  arguments through their results. The pictures handed to the encoder are recorded. A picture is read at the size and the strides of
  the context; \<^const>\<open>None\<close> is an access outside the buffer of the caller or through a null pointer.
\<close>

section \<open>The C part\<close>

datatype x264_ref = X264Mem nat | X264Enc nat

record x264_param =
  xp_preset :: string
  xp_tune :: string
  xp_profile :: string
  xp_width :: nat
  xp_height :: nat
  xp_csp :: string
  xp_rc_method :: string
  xp_rf_constant :: nat
  xp_keyint_max :: nat
  xp_keyint_min :: nat
  xp_bframe :: nat
  xp_threads :: nat
  xp_repeat_headers :: bool
  xp_annexb :: bool

text \<open>What x264 answers when a context is opened: the memory, the parameters of a preset, those of a profile, the encoder.\<close>

record x264_env =
  xl_calloc :: nat
  xl_default_preset :: "string \<Rightarrow> string \<Rightarrow> x264_param"
  xl_apply_profile :: "string \<Rightarrow> x264_param \<Rightarrow> x264_param"
  xl_encoder_open :: "x264_param \<Rightarrow> nat"

definition x264_configure :: "x264_env \<Rightarrow> nat \<Rightarrow> nat \<Rightarrow> x264_param" where
  "x264_configure e width height =
     (xl_apply_profile e ''baseline''
       ((xl_default_preset e ''ultrafast'' ''zerolatency'')\<lparr>xp_width := width, xp_height := height, xp_csp := ''NV12''\<rparr>))
     \<lparr>xp_rc_method := ''CRF'', xp_rf_constant := 23, xp_keyint_max := 150, xp_keyint_min := 1, xp_bframe := 0, xp_threads := 0,
      xp_repeat_headers := True, xp_annexb := True\<rparr>"

record x264_ctx_t =
  x4_addr :: nat
  x4_enc :: nat
  x4_stride0 :: nat
  x4_stride1 :: nat
  x4_width :: nat
  x4_height :: nat
  x4_pts :: int

definition x264_ctx_open :: "x264_env \<Rightarrow> nat \<Rightarrow> nat \<Rightarrow> (x264_ref, x264_ctx_t option) own" where
  "x264_ctx_open e width height =
     (if xl_calloc e = 0 then own_ret None
      else own_seq (acquire (X264Mem (xl_calloc e)))
     (let enc = xl_encoder_open e (x264_configure e width height) in
      if enc = 0 then own_seq (release (X264Mem (xl_calloc e))) (own_ret None)
      else own_seq (acquire (X264Enc enc))
        (own_ret (Some \<lparr>x4_addr = xl_calloc e, x4_enc = enc, x4_stride0 = width, x4_stride1 = width, x4_width = width, x4_height = height,
           x4_pts = 0\<rparr>))))"

text \<open>A picture as the encoder reads it: both planes, whether a key frame is asked for, the time.\<close>

record x264_picture =
  pi_y :: bytes
  pi_uv :: bytes
  pi_idr :: bool
  pi_pts :: int

record x264_answer =
  xr_frame_size :: int
  xr_nals :: "bytes list"
  xr_idr :: bool

definition read_picture :: "x264_ctx_t \<Rightarrow> bytes \<Rightarrow> bool \<Rightarrow> x264_picture option" where
  "read_picture c nv12 force_idr =
     (let uv = x4_width c * x4_height c; ysize = x4_stride0 c * x4_height c; uvsize = x4_stride1 c * (x4_height c div 2) in
      if ysize \<le> length nv12 \<and> uv + uvsize \<le> length nv12
      then Some \<lparr>pi_y = take ysize nv12, pi_uv = take uvsize (drop uv nv12), pi_idr = force_idr, pi_pts = x4_pts c + 1\<rparr>
      else None)"

text \<open>The result: the size or \<open>-1\<close>, the memory from the first payload on unless there is none, the flag, the context and the picture.\<close>

definition x264_ctx_encode ::
  "x264_answer \<Rightarrow> x264_ctx_t option \<Rightarrow> bytes \<Rightarrow> bool \<Rightarrow> (x264_ref, int \<times> bytes option \<times> bool \<times> x264_ctx_t \<times> x264_picture) own" where
  "x264_ctx_encode a ctx nv12 force_idr =
     own_bind (own_lift ctx) (\<lambda>c.
     own_seq (touch (X264Mem (x4_addr c))) (own_seq (touch (X264Enc (x4_enc c)))
     (own_bind (own_lift (read_picture c nv12 force_idr)) (\<lambda>pic.
      let c = c\<lparr>x4_pts := x4_pts c + 1\<rparr> in
      if xr_frame_size a < 0 then own_ret (- 1, None, False, c, pic)
      else if xr_frame_size a = 0 \<or> xr_nals a = [] then own_ret (0, None, xr_idr a, c, pic)
      else own_ret (xr_frame_size a, Some (concat (xr_nals a)), xr_idr a, c, pic)))))"

definition x264_ctx_close :: "x264_ctx_t option \<Rightarrow> (x264_ref, unit) own" where
  "x264_ctx_close ctx =
     (case ctx of None \<Rightarrow> own_ret ()
      | Some c \<Rightarrow> own_seq (if x4_enc c \<noteq> 0 then release (X264Enc (x4_enc c)) else own_ret ()) (release (X264Mem (x4_addr c))))"

section \<open>The Go part\<close>

text \<open>The backend, and the pictures the encoder has got.\<close>

type_synonym x264_state = "x264_ctx_t option \<times> x264_picture list"

definition x264_newBackend :: "x264_env \<times> nat \<times> nat \<Rightarrow> x264_state \<Rightarrow> (x264_ref, unit res \<times> x264_state) own" where
  "x264_newBackend = (\<lambda>(e, width, height) (_, pics).
     own_bind (x264_ctx_open e width height) (\<lambda>ctx.
     case ctx of
       None \<Rightarrow> own_ret (Inl (Errorf ''x264_encoder_open failed'' []), None, pics)
     | Some c \<Rightarrow> own_ret (Inr (), Some c, pics)))"

definition x264_Encode :: "(bytes \<times> bool) \<times> x264_answer \<Rightarrow> x264_state \<Rightarrow> (x264_ref, (bytes option \<times> bool) res \<times> x264_state) own" where
  "x264_Encode = (\<lambda>((nv12, forceIDR), a) (ctx, pics).
     if nv12 = [] then own_ret (Inl (GoPanic ''index out of range''), ctx, pics)
     else own_bind (x264_ctx_encode a ctx nv12 forceIDR) (\<lambda>(frameSize, outNAL, isKeyframe, c, pic).
       let s = (Some c, pics @ [pic]) in
       if frameSize < 0 then own_ret (Inl (Errorf ''x264_encoder_encode failed'' []), s)
       else case outNAL of
         None \<Rightarrow> own_ret (Inr (None, False), s)
       | Some mem \<Rightarrow>
           if frameSize = 0 then own_ret (Inr (None, False), s)
           else own_bind (own_lift (if nat frameSize \<le> length mem then Some (take (nat frameSize) mem) else None)) (\<lambda>nalData.
             own_ret (Inr (Some nalData, isKeyframe), s))))"

definition x264_Close :: "x264_state \<Rightarrow> (x264_ref, x264_state) own" where
  "x264_Close = (\<lambda>(ctx, pics).
     case ctx of None \<Rightarrow> own_ret (ctx, pics) | Some c \<Rightarrow> own_seq (x264_ctx_close (Some c)) (own_ret (None, pics)))"

text \<open>The backend of a build without either.\<close>

definition stub_newBackend :: "nat \<Rightarrow> nat \<Rightarrow> unit res" where
  "stub_newBackend width height = Inl (Errorf ''not available (built without CGo and not on Windows)'' [])"

section \<open>References\<close>

definition x264_held :: "x264_state \<Rightarrow> x264_ref multiset" where
  "x264_held = (\<lambda>(ctx, pics). case ctx of None \<Rightarrow> {#} | Some c \<Rightarrow> {#X264Mem (x4_addr c), X264Enc (x4_enc c)#})"

text \<open>The strides are the width, and the encoder exists.\<close>

definition x264_ready :: "x264_state \<Rightarrow> bool" where
  "x264_ready = (\<lambda>(ctx, pics). case ctx of None \<Rightarrow> False
     | Some c \<Rightarrow> x4_enc c \<noteq> 0 \<and> x4_stride0 c = x4_width c \<and> x4_stride1 c = x4_width c)"

text \<open>The buffer has the size \<^verbatim>\<open>EncodeMulti\<close> gives it; the payloads are one block of the announced size.\<close>

definition x264_use_ok :: "(bytes \<times> bool) \<times> x264_answer \<Rightarrow> x264_state \<Rightarrow> bool" where
  "x264_use_ok = (\<lambda>((nv12, idr), a) (ctx, pics). xr_frame_size a \<le> int (length (concat (xr_nals a))) \<and>
     (case ctx of None \<Rightarrow> True | Some c \<Rightarrow> length nv12 = x4_width c * x4_height c + x4_width c * x4_height c div 2))"

lemma uv_fits: "w * (h div 2) \<le> w * h div (2 :: nat)"
  by (metis div_mult2_eq less_eq_div_iff_mult_less_eq mult.assoc mult_le_mono2 times_div_less_eq_dividend mult.commute zero_less_numeral)

lemma read_picture_ready:
  assumes "x4_stride0 c = x4_width c" and "x4_stride1 c = x4_width c"
    and "length nv12 = x4_width c * x4_height c + x4_width c * x4_height c div 2"
  shows "read_picture c nv12 idr = Some \<lparr>pi_y = take (x4_width c * x4_height c) nv12,
    pi_uv = take (x4_width c * (x4_height c div 2)) (drop (x4_width c * x4_height c) nv12), pi_idr = idr, pi_pts = x4_pts c + 1\<rparr>"
  using uv_fits [of "x4_width c" "x4_height c"] by (simp add: read_picture_def Let_def assms)

text \<open>An empty slice has no first element; every other call hands one picture over and gets the payloads of one frame at most.\<close>

lemma x264_Encode_runs:
  assumes "x264_ready (Some c, pics)" and "x264_use_ok ((nv12, idr), a) (Some c, pics)" and "x264_held (Some c, pics) \<subseteq># m"
    and "nv12 \<noteq> []"
  shows "x264_Encode ((nv12, idr), a) (Some c, pics) m =
    Some ((if xr_frame_size a < 0 then Inl (Errorf ''x264_encoder_encode failed'' [])
           else if xr_frame_size a = 0 \<or> xr_nals a = [] then Inr (None, False)
           else Inr (Some (take (nat (xr_frame_size a)) (concat (xr_nals a))), xr_idr a),
         Some (c\<lparr>x4_pts := x4_pts c + 1\<rparr>),
         pics @ [\<lparr>pi_y = take (x4_width c * x4_height c) nv12,
           pi_uv = take (x4_width c * (x4_height c div 2)) (drop (x4_width c * x4_height c) nv12), pi_idr = idr, pi_pts = x4_pts c + 1\<rparr>]), m)"
proof -
  have "X264Mem (x4_addr c) \<in># m" and "X264Enc (x4_enc c) \<in># m"
    using assms(3) by (auto simp: x264_held_def dest: mset_subset_eqD)
  moreover have "read_picture c nv12 idr = Some \<lparr>pi_y = take (x4_width c * x4_height c) nv12,
    pi_uv = take (x4_width c * (x4_height c div 2)) (drop (x4_width c * x4_height c) nv12), pi_idr = idr, pi_pts = x4_pts c + 1\<rparr>"
    using assms(1,2) by (intro read_picture_ready) (auto simp: x264_ready_def x264_use_ok_def)
  moreover have "xr_frame_size a \<le> int (length (concat (xr_nals a)))" using assms(2) by (simp add: x264_use_ok_def)
  ultimately show ?thesis
    using assms(4)
    by (auto simp: x264_Encode_def x264_ctx_encode_def own_seq_def own_bind_def own_lift_def own_ret_def touch_def Let_def nat_le_iff)
qed

lemma x264_Encode_law:
  assumes "x264_ready s" and "x264_use_ok u s"
  shows "own_runs (x264_Encode u s) (m + x264_held s)
    (\<lambda>(r, s') m'. m' = m + x264_held s' \<and> x264_ready s' \<and> (\<forall>u. x264_use_ok u s' \<longleftrightarrow> x264_use_ok u s))"
proof -
  obtain c pics nv12 idr a where s: "s = (Some c, pics)" and u: "u = ((nv12, idr), a)"
    using assms(1) by (cases s; cases u) (auto simp: x264_ready_def split: option.splits)
  show ?thesis
  proof (cases "nv12 = []")
    case True
    then show ?thesis using assms by (simp add: s u x264_Encode_def own_simps)
  next
    case False
    show ?thesis
      using assms x264_Encode_runs [OF assms(1) [unfolded s] assms(2) [unfolded s u] _ False, of "m + x264_held s"]
      by (simp add: s u own_runs_def x264_held_def x264_ready_def x264_use_ok_def split_beta)
  qed
qed

interpretation x264: lifecycle_owner x264_held "\<lambda>_. True" x264_use_ok x264_ready x264_newBackend x264_Encode x264_Close "(None, pics)" for pics
proof unfold_locales
  show "x264_held (None, pics) = {#}" by (simp add: x264_held_def)
  show "own_runs (x264_newBackend e (None, pics)) m
      (\<lambda>(r, s) m'. m' = m + x264_held s \<and> (case r of Inl _ \<Rightarrow> x264_held s = {#} | Inr _ \<Rightarrow> x264_ready s))" for e m
    by (cases e) (auto simp: x264_newBackend_def x264_ctx_open_def x264_held_def x264_ready_def own_simps Let_def)
  show "own_runs (x264_Close s) (m + x264_held s) (\<lambda>s' m'. m' = m \<and> x264_held s' = {#})" if "x264_ready s" for s m
    using that by (cases s) (auto simp: x264_Close_def x264_ctx_close_def x264_held_def x264_ready_def own_simps split: option.splits)
qed (rule x264_Encode_law)

text \<open>Any sequence of frames, and whatever x264 answers: no access outside a buffer or to a closed encoder, and nothing is left behind.\<close>

lemma x264_no_leak:
  assumes "\<And>r s m'. x264_newBackend e (None, pics) m = Some ((r, s), m') \<Longrightarrow> \<forall>u \<in> set us. x264_use_ok u s"
  shows "\<exists>r s. lifecycle x264_newBackend x264_Encode x264_Close e us (None, pics) m = Some ((r, s), m)"
proof -
  have "own_runs (lifecycle x264_newBackend x264_Encode x264_Close e us (None, pics)) m (\<lambda>(r, s) m'. m' = m \<and> x264_held s = {#})"
    by (rule x264.no_leak [OF TrueI]) (rule assms)
  from runs_result [OF this] show ?thesis by auto
qed


section \<open>A stream\<close>

text \<open>What the encoder gets for the frames of a stream, counted from \<open>n\<close>, and what the caller gets for an answer of the encoder.\<close>

definition x264_pictures :: "nat \<Rightarrow> nat \<Rightarrow> nat \<Rightarrow> (bytes \<times> bool) list \<Rightarrow> x264_picture list" where
  "x264_pictures w h n frames = map (\<lambda>(i, nv12, idr).
     \<lparr>pi_y = take (w * h) nv12, pi_uv = take (w * (h div 2)) (drop (w * h) nv12), pi_idr = idr, pi_pts = int i\<rparr>)
     (enumerate (Suc n) frames)"

definition x264_result :: "x264_answer \<Rightarrow> (bytes option \<times> bool) res" where
  "x264_result a = (if xr_frame_size a < 0 then Inl (Errorf ''x264_encoder_encode failed'' [])
     else if xr_frame_size a = 0 \<or> xr_nals a = [] then Inr (None, False)
     else Inr (Some (take (nat (xr_frame_size a)) (concat (xr_nals a))), xr_idr a))"

lemma x264_pictures_Cons: "x264_pictures w h n (f # fs) = x264_pictures w h n [f] @ x264_pictures w h (Suc n) fs"
  by (simp add: x264_pictures_def)

lemma x264_uses:
  assumes "x264_ready (Some c, pics)" and "\<forall>u \<in> set us. x264_use_ok u (Some c, pics) \<and> fst (fst u) \<noteq> []"
    and "x264_held (Some c, pics) \<subseteq># m" and "x4_pts c = int n"
  shows "uses x264_Encode us (Some c, pics) m = Some ((map (x264_result \<circ> snd) us, Some (c\<lparr>x4_pts := int (n + length us)\<rparr>),
    pics @ x264_pictures (x4_width c) (x4_height c) n (map fst us)), m)"
  using assms
proof (induction us arbitrary: c pics n)
  case Nil
  then show ?case by (simp add: own_ret_def x264_pictures_def)
next
  case (Cons u us)
  obtain nv12 idr a where u: "u = ((nv12, idr), a)" by (metis prod.collapse)
  define c' where "c' = c\<lparr>x4_pts := int (Suc n)\<rparr>"
  define pics' where "pics' = pics @ x264_pictures (x4_width c) (x4_height c) n [(nv12, idr)]"
  have "x264_Encode u (Some c, pics) m = Some ((x264_result a, Some c', pics'), m)"
    using x264_Encode_runs [of c pics nv12 idr a m] Cons.prems
    by (simp add: u c'_def pics'_def x264_result_def x264_pictures_def add.commute)
  moreover have "uses x264_Encode us (Some c', pics') m = Some ((map (x264_result \<circ> snd) us, Some (c'\<lparr>x4_pts := int (Suc n + length us)\<rparr>),
      pics' @ x264_pictures (x4_width c') (x4_height c') (Suc n) (map fst us)), m)"
    using Cons.prems by (intro Cons.IH) (auto simp: c'_def x264_ready_def x264_use_ok_def x264_held_def)
  ultimately show ?case
    by (simp add: own_bind_def own_ret_def u c'_def pics'_def x264_pictures_Cons [of _ _ _ _ "map fst us"])
qed

text \<open>
  C35: A stream through the x264 backend, opened for a size and closed at the end: the encoder gets, in order and each at a time of
  its own, exactly the luma plane and the chroma plane of every frame of that size, with a key frame where the caller asks for one;
  the caller gets for each the payloads of all units of the frame, nothing while there are none, or an error; no read leaves
  the buffer of a frame or uses a closed encoder, and memory and encoder are released.
\<close>

theorem x264_plays_stream:
  assumes "xl_calloc e \<noteq> 0" and "\<And>p. xl_encoder_open e p \<noteq> 0"
    and "\<And>u. u \<in> set us \<Longrightarrow> fst (fst u) \<noteq> [] \<and> length (fst (fst u)) = w * h + w * h div 2 \<and>
      xr_frame_size (snd u) \<le> int (length (concat (xr_nals (snd u))))"
  shows "lifecycle x264_newBackend x264_Encode x264_Close (e, w, h) us (None, []) m =
    Some ((Inr (map (x264_result \<circ> snd) us), None, x264_pictures w h 0 (map fst us)), m)"
proof -
  define c where "c = \<lparr>x4_addr = xl_calloc e, x4_enc = xl_encoder_open e (x264_configure e w h), x4_stride0 = w, x4_stride1 = w,
    x4_width = w, x4_height = h, x4_pts = 0\<rparr>"
  have "x264_newBackend (e, w, h) (None, []) m = Some ((Inr (), Some c, []), m + x264_held (Some c, []))"
    using assms(1) assms(2) [of "x264_configure e w h"]
    by (simp add: x264_newBackend_def x264_ctx_open_def x264_held_def c_def own_seq_def own_bind_def own_ret_def acquire_def Let_def)
  moreover have "uses x264_Encode us (Some c, []) (m + x264_held (Some c, [])) = Some ((map (x264_result \<circ> snd) us,
      Some (c\<lparr>x4_pts := int (0 + length us)\<rparr>), [] @ x264_pictures (x4_width c) (x4_height c) 0 (map fst us)), m + x264_held (Some c, []))"
    using assms by (intro x264_uses) (auto simp: c_def x264_ready_def x264_use_ok_def)
  moreover have "x264_Close (Some (c\<lparr>x4_pts := t\<rparr>), ps) (m + x264_held (Some c, [])) = Some ((None, ps), m)" for t ps
    using assms(2) [of "x264_configure e w h"]
    by (simp add: x264_Close_def x264_ctx_close_def x264_held_def c_def own_seq_def own_bind_def own_ret_def release_def)
  ultimately show ?thesis by (simp add: lifecycle_def own_bind_def own_ret_def c_def)
qed

definition x264_example :: "x264_env" where
  "x264_example = \<lparr>xl_calloc = 4096,
     xl_default_preset = (\<lambda>preset tune. \<lparr>xp_preset = preset, xp_tune = tune, xp_profile = '''', xp_width = 0, xp_height = 0,
       xp_csp = '''', xp_rc_method = '''', xp_rf_constant = 0, xp_keyint_max = 0, xp_keyint_min = 0, xp_bframe = 0, xp_threads = 0,
       xp_repeat_headers = False, xp_annexb = False\<rparr>),
     xl_apply_profile = (\<lambda>profile p. p\<lparr>xp_profile := profile\<rparr>),
     xl_encoder_open = (\<lambda>p. 8192)\<rparr>"

theorem x264_plays_stream_witness:
  "lifecycle x264_newBackend x264_Encode x264_Close (x264_example, 2, 2)
     [(([1, 2, 3, 4, 5, 6], True), \<lparr>xr_frame_size = 3, xr_nals = [[7, 8], [9]], xr_idr = True\<rparr>),
      (([6, 5, 4, 3, 2, 1], False), \<lparr>xr_frame_size = 0, xr_nals = [], xr_idr = False\<rparr>)] (None, []) {#} =
   Some ((Inr [Inr (Some [7, 8, 9], True), Inr (None, False)], None,
     [\<lparr>pi_y = [1, 2, 3, 4], pi_uv = [5, 6], pi_idr = True, pi_pts = 1\<rparr>, \<lparr>pi_y = [6, 5, 4, 3], pi_uv = [2, 1], pi_idr = False, pi_pts = 2\<rparr>]),
     {#})"
  using x264_plays_stream [of x264_example
     "[(([1, 2, 3, 4, 5, 6], True), \<lparr>xr_frame_size = 3, xr_nals = [[7, 8], [9]], xr_idr = True\<rparr>),
      (([6, 5, 4, 3, 2, 1], False), \<lparr>xr_frame_size = 0, xr_nals = [], xr_idr = False\<rparr>)]" 2 2 "{#}"]
  by (simp add: x264_example_def x264_pictures_def x264_result_def; force)

text \<open>After a reset or a failed change of the size the context is null, and a frame is encoded through it.\<close>

lemma x264_closed_crashes: "nv12 \<noteq> [] \<Longrightarrow> x264_Encode ((nv12, idr), a) (None, pics) m = None"
  by (simp add: x264_Encode_def x264_ctx_encode_def own_bind_def own_lift_def)


end
