(* ===== verification/ServerMessages.thy ===== *)
theory ServerMessages
  imports Server "HOL-Library.Sublist"
begin

text \<open>
  What the server does with the messages of a client (\<^verbatim>\<open>serveMessages\<close> of
  \<^verbatim>\<open>rfb/server.go\<close>), and the reader and writer goroutines of one connection as a step
  relation, with what the client can receive on the wire.
\<close>

section \<open>The message loop\<close>

lemma on_wire_simp [conn_simps]:
  "m (cc_conn (ses_client s)) = (r, d) \<Longrightarrow> on_wire m s = (r, upd_client (\<lambda>c. c\<lparr>cc_conn := d\<rparr>) s)"
  by (simp add: on_wire_def)

abbreviation wire :: "('t, 'h) session \<Rightarrow> conn" where
  "wire s \<equiv> cc_conn (ses_client s)"

text \<open>Every client message with its type byte.\<close>

datatype client_msg =
    CSetPixelFormat PixelFormat
  | CSetEncodings "i32 list"
  | CUpdateRequest FramebufferUpdateRequest
  | CKey KeyEvent
  | CPointer PointerEvent
  | CCutText bytes

fun enc_client_msg :: "client_msg \<Rightarrow> bytes" where
  "enc_client_msg (CSetPixelFormat pf) = MsgSetPixelFormat # [0, 0, 0] @ enc_PixelFormat pf"
| "enc_client_msg (CSetEncodings es) = MsgSetEncodings # body_SetEncodings es"
| "enc_client_msg (CUpdateRequest q) = MsgFramebufferUpdateRequest # body_FramebufferUpdateRequest q"
| "enc_client_msg (CKey k) = MsgKeyEvent # body_KeyEvent k"
| "enc_client_msg (CPointer p) = MsgPointerEvent # body_PointerEvent p"
| "enc_client_msg (CCutText t) = MsgClientCutText # body_CutText t"

fun valid_client_msg :: "client_msg \<Rightarrow> bool" where
  "valid_client_msg (CSetEncodings es) \<longleftrightarrow> length es < 65536"
| "valid_client_msg (CUpdateRequest q) \<longleftrightarrow> req_Incremental q \<in> {0, 1}"
| "valid_client_msg (CKey k) \<longleftrightarrow> key_DownFlag k \<in> {0, 1}"
| "valid_client_msg (CCutText t) \<longleftrightarrow> length t \<le> 10485760"
| "valid_client_msg _ \<longleftrightarrow> True"

text \<open>What each message does to the connection's state, as the protocol describes it.\<close>

fun client_effect :: "('t, 'h) ServerConfig \<Rightarrow> client_msg \<Rightarrow> ('t, 'h) ClientConn \<Rightarrow> ('t, 'h) ClientConn" where
  "client_effect cfg (CSetPixelFormat pf) c = c\<lparr>cc_pixelFormat := pf\<rparr>"
| "client_effect cfg (CSetEncodings es) c = c\<lparr>cc_encodings := es\<rparr>"
| "client_effect cfg (CUpdateRequest q) c = (if cc_fbReqCh c = None then c\<lparr>cc_fbReqCh := Some q\<rparr> else c)"
| "client_effect cfg (CKey k) c =
     (if sc_hasInput cfg then c\<lparr>cc_input := cc_input c @ [InKey (key_DownFlag k \<noteq> 0) (key_Key k)]\<rparr> else c)"
| "client_effect cfg (CPointer p) c =
     (if sc_hasInput cfg then c\<lparr>cc_input := cc_input c @ [InPointer (ptr_ButtonMask p) (ptr_X p) (ptr_Y p)]\<rparr> else c)"
| "client_effect cfg (CCutText t) c =
     (if sc_hasClipboard cfg then c\<lparr>cc_input := cc_input c @ [InClipboard t]\<rparr> else c)"

lemmas msg_types = MsgSetPixelFormat_def MsgSetEncodings_def MsgFramebufferUpdateRequest_def
  MsgKeyEvent_def MsgPointerEvent_def MsgClientCutText_def

lemma ReadSetPixelFormat_live:
  "ReadSetPixelFormat (live ([0, 0, 0] @ enc_PixelFormat pf @ r) out) = (Inr pf, live r out)"
proof -
  have "readFull 19 (live (([0, 0, 0] @ enc_PixelFormat pf) @ r) out) = (Inr ([0, 0, 0] @ enc_PixelFormat pf), live r out)"
    by (rule readFull_append) simp
  then show ?thesis by (simp add: ReadSetPixelFormat_def conn_simps)
qed

lemma serve_message_live:
  assumes "wire s = live (enc_client_msg m @ r) out" and "cc_errCh (ses_client s) = None" and "valid_client_msg m"
  shows "serve_message s = (Inr (), upd_client (\<lambda>c. client_effect (ses_config s) m (c\<lparr>cc_conn := live r out\<rparr>)) s)"
  using assms
  by (cases m)
    (simp_all add: serve_message_def dispatch_message_def conn_simps msg_types upd_client_def add_input_def
      offer_request_def ReadSetPixelFormat_live [simplified] set_encodings.recv_body fbu_request.recv_body key_event.recv_body
      pointer_event.recv_body client_cut_text_reader.recv_body)

lemma client_effect_frame:
  "cc_conn (client_effect cfg m c) = cc_conn c \<and> cc_errCh (client_effect cfg m c) = cc_errCh c"
  by (cases m) auto

lemma client_effect_conn:
  "client_effect cfg m (c\<lparr>cc_conn := d\<rparr>) = (client_effect cfg m c)\<lparr>cc_conn := d\<rparr>"
  by (cases m) auto

lemma enc_client_msg_length: "0 < length (enc_client_msg m)"
  by (cases m) auto

lemma serve_loop_msgs:
  assumes "wire s = live (concat (map enc_client_msg ms)) out" and "cc_errCh (ses_client s) = None"
    and "\<And>m. m \<in> set ms \<Longrightarrow> valid_client_msg m" and "length ms < n"
  shows "serve_loop n s = Some (ErrorfW ''read message type: %w'' [] EOF,
     upd_client (\<lambda>c. fold (client_effect (ses_config s)) ms (c\<lparr>cc_conn := live [] out\<rparr>)) s)"
  using assms
proof (induction ms arbitrary: s n)
  case Nil
  then obtain k where n: "n = Suc k" by (cases n) auto
  have "read_u8 (wire s) = (Inl EOF, wire s)"
    using Nil(1) by (simp add: read_u8_def bind_io_def readFull_def)
  then show ?case using Nil n
    by (cases s) (simp add: serve_message_def conn_simps upd_client_def)
next
  case (Cons m ms)
  then obtain k where n: "n = Suc k" by (cases n) auto
  let ?s' = "upd_client (\<lambda>c. client_effect (ses_config s) m (c\<lparr>cc_conn := live (concat (map enc_client_msg ms)) out\<rparr>)) s"
  have step: "serve_message s = (Inr (), ?s')"
    by (rule serve_message_live) (use Cons.prems in auto)
  have "serve_loop k ?s' = Some (ErrorfW ''read message type: %w'' [] EOF,
     upd_client (\<lambda>c. fold (client_effect (ses_config ?s')) ms (c\<lparr>cc_conn := live [] out\<rparr>)) ?s')"
    by (rule Cons.IH) (use Cons.prems n in \<open>auto simp: upd_client_def client_effect_frame\<close>)
  then show ?case using step n by (simp add: upd_client_def client_effect_conn)
qed

lemma concat_enc_length: "length ms \<le> length (concat (map enc_client_msg ms))"
proof (induction ms)
  case (Cons m ms)
  then show ?case using enc_client_msg_length [of m] by (simp del: length_greater_0_conv)
qed simp

text \<open>
  C17: The server processes any sequence of well-formed client messages completely and in order:
  when the client's input is the encoding of a list of messages, \<^verbatim>\<open>serveMessages\<close> returns (at
  the end of the input) with the state in which every message has had exactly its effect, one
  after the other: input events reach the handler in the order sent, the pixel format and the
  encodings are the last ones set, and an update request is queued unless one is waiting.
\<close>

theorem serveMessages_effects:
  assumes "wire s = live (concat (map enc_client_msg ms)) out" and "cc_errCh (ses_client s) = None"
    and "\<And>m. m \<in> set ms \<Longrightarrow> valid_client_msg m"
  shows "serveMessages s = Some (ErrorfW ''read message type: %w'' [] EOF,
     upd_client (\<lambda>c. fold (client_effect (ses_config s)) ms (c\<lparr>cc_conn := live [] out\<rparr>)) s)"
  unfolding serveMessages_def
  by (rule serve_loop_msgs [OF assms]) (use assms(1) concat_enc_length [of ms] in \<open>auto simp: less_Suc_eq_le simp del: length_concat\<close>)

definition example_config :: "(unit, unit) ServerConfig" where
  "example_config =
     \<lparr>sc_Width = 2, sc_Height = 1, sc_Name = str ''demo'', sc_Security = [noneSecurity],
      sc_PixelFormat = DefaultPixelFormat, sc_NewTightEncoder = None, sc_NewH264Encoder = None,
      sc_hasCapturer = True, sc_hasInput = True, sc_hasClipboard = True, sc_hasCursorProvider = False, sc_MaxFPS = 30\<rparr>"

theorem serveMessages_effects_witness:
  "let k = \<lparr>key_DownFlag = 1, key_Key = 65\<rparr>; p = \<lparr>ptr_ButtonMask = 1, ptr_X = 3, ptr_Y = 4\<rparr>;
       ms = [CKey k, CSetEncodings [7, 0], CPointer p];
       s = \<lparr>ses_config = example_config,
             ses_client = newClientConn example_config (live (concat (map enc_client_msg ms)) [])\<rparr>
   in serveMessages s = Some (ErrorfW ''read message type: %w'' [] EOF,
        upd_client (\<lambda>c. fold (client_effect (ses_config s)) ms (c\<lparr>cc_conn := live [] []\<rparr>)) s)"
  unfolding Let_def by (rule serveMessages_effects) (auto simp: newClientConn_def)

section \<open>The loop always ends\<close>

lemma io_ok_readEncodings [intro, simp]: "io_ok (readEncodings i n)"
  by (induction i n rule: readEncodings.induct) auto

lemma io_ok_readers [intro, simp]:
  "io_ok ReadSetPixelFormat" "io_ok ReadSetEncodings" "io_ok ReadFramebufferUpdateRequest"
  "io_ok ReadKeyEvent" "io_ok ReadPointerEvent" "io_ok ReadClientCutText"
  unfolding ReadSetPixelFormat_def ReadSetEncodings_def ReadFramebufferUpdateRequest_def ReadKeyEvent_def
    ReadPointerEvent_def ReadClientCutText_def
  by (intro io_ok_bind io_ok_wrap io_ok_ret io_ok_readFull io_ok_if io_ok_fail io_ok_read_u32 io_ok_read_u16 io_ok_read_u8 io_ok_readEncodings)+

text \<open>A session program that only reads: what is left of the input is a suffix.\<close>

definition reads :: "('t, 'h, 'a) sprog \<Rightarrow> bool" where
  "reads m \<longleftrightarrow> (\<forall>s r s'. m s = (r, s') \<longrightarrow> length (cin (wire s')) \<le> length (cin (wire s)))"

lemma reads_on_wire: "io_ok m \<Longrightarrow> reads (on_wire m)"
  unfolding reads_def on_wire_def by (fastforce simp: upd_client_def dest: io_ok_input split: prod.splits)

lemma reads_bind: "reads m \<Longrightarrow> (\<And>x. reads (f x)) \<Longrightarrow> reads (bind_io m f)"
  unfolding reads_def bind_io_def by (fastforce split: prod.splits sum.splits intro: le_trans)

lemma reads_modify: "(\<And>c. cc_conn (f c) = cc_conn c) \<Longrightarrow> reads (modify (upd_client f))"
  by (simp add: reads_def modify_def upd_client_def)

lemma reads_simple: "reads (ret x)" "reads (fail e)" "reads get_state"
  by (simp_all add: reads_def ret_def fail_def get_state_def)

lemma reads_if: "reads a \<Longrightarrow> reads b \<Longrightarrow> reads (if P then a else b)"
  by simp

lemma reads_dispatch: "reads (dispatch_message t)"
  unfolding dispatch_message_def add_input_def offer_request_def
  by (intro reads_if reads_bind reads_on_wire reads_modify reads_simple io_ok_readers) (auto split: if_splits)

lemma serve_message_shrinks:
  assumes "serve_message s = (Inr u, s')"
  shows "length (cin (wire s')) < length (cin (wire s))"
proof -
  from assms have err: "cc_errCh (ses_client s) = None"
    by (auto simp: serve_message_def io_Inr_iffs split: option.splits)
  with assms obtain t s1 where t: "on_wire read_u8 s = (Inr t, s1)" "dispatch_message t s1 = (Inr u, s')"
    by (auto simp: serve_message_def io_Inr_iffs)
  from t(1) obtain d where "read_u8 (wire s) = (Inr t, d)" "wire s1 = d"
    by (auto simp: on_wire_def upd_client_def split: prod.splits)
  then have "length (cin (wire s1)) < length (cin (wire s))"
    by (auto simp: read_u8_def io_Inr_iffs)
  moreover have "length (cin (wire s')) \<le> length (cin (wire s1))"
    using reads_dispatch [of t] t(2) unfolding reads_def by blast
  ultimately show ?thesis by linarith
qed

lemma serve_loop_ends: "length (cin (wire s)) < n \<Longrightarrow> serve_loop n s \<noteq> None"
proof (induction n arbitrary: s)
  case 0
  then show ?case by simp
next
  case (Suc n)
  show ?case
  proof (cases "serve_message s")
    case (Pair r s')
    show ?thesis
    proof (cases r)
      case (Inl e)
      then show ?thesis using Pair by simp
    next
      case (Inr u)
      then show ?thesis using serve_message_shrinks [of s u s'] Suc Pair by simp
    qed
  qed
qed

text \<open>
  C31: The message loop of a connection ends on every finite input, whatever bytes the client
  sends: \<^verbatim>\<open>serveMessages\<close> returns an error (which closes the connection).
\<close>

theorem serveMessages_terminates: "\<exists>e s'. serveMessages s = Some (e, s')"
  using serve_loop_ends [of s "Suc (length (cin (wire s)))"] by (auto simp: serveMessages_def)

section \<open>The goroutines of a connection\<close>

text \<open>
  The reader goroutine runs \<^verbatim>\<open>serveMessages\<close>; the writer goroutine takes requests from the
  channel, answers them, and stops after its first error; broadcasts of the server write to
  the same connection. Writing is done under the connection's mutex, so each of these is one
  step. A panic ends the program and is no step.
\<close>

datatype writer = Idle | Busy FramebufferUpdateRequest | Stopped

inductive conn_step ::
  "deflater \<Rightarrow> ('t, 'h) session \<times> writer \<Rightarrow> ('t, 'h) session \<times> writer \<Rightarrow> bool" for z where
  reader: "serve_message s = (Inr u, s') \<Longrightarrow> conn_step z (s, w) (s', w)"
| take: "cc_fbReqCh (ses_client s) = Some q \<Longrightarrow>
     conn_step z (s, Idle) (upd_client (\<lambda>c. c\<lparr>cc_fbReqCh := None\<rparr>) s, Busy q)"
| answer: "handleFramebufferRequest z cap cur q s = (Inr u, s') \<Longrightarrow> conn_step z (s, Busy q) (s', Idle)"
| abort: "handleFramebufferRequest z cap cur q s = (Inl e, s') \<Longrightarrow> \<not> is_panic (Inl e :: unit res) \<Longrightarrow>
     conn_step z (s, Busy q) (upd_client (\<lambda>c. c\<lparr>cc_errCh := Some e\<rparr>) s', Stopped)"
| clipboard: "conn_step z (s, w) (upd_client (clipboard_client text) s, w)"
| resize: "conn_step z (s, w)
     (upd_client (notify_client width height) (s\<lparr>ses_config := (ses_config s)\<lparr>sc_Width := width, sc_Height := height\<rparr>\<rparr>), w)"
| cursor: "cursor_client (sc_PixelFormat (ses_config s)) addr img (ses_client s) = Inr c' \<Longrightarrow>
     conn_step z (s, w) (s\<lparr>ses_client := c'\<rparr>, w)"

inductive_cases conn_stepE: "conn_step z a b"

section \<open>What is on the wire\<close>

datatype server_out = OutUpdate "Rectangle list" | OutCutText bytes

fun enc_server_out :: "server_out \<Rightarrow> bytes" where
  "enc_server_out (OutUpdate rects) = enc_FramebufferUpdate rects"
| "enc_server_out (OutCutText text) = enc_ServerCutText text"

text \<open>
  \<open>whole out c\<close>: since \<open>out\<close> the connection carries complete messages, followed by a proper
  prefix of one more only when a write has failed.
\<close>

definition whole :: "bytes \<Rightarrow> conn \<Rightarrow> bool" where
  "whole out c \<longleftrightarrow>
     (\<exists>msgs p. cout c = out @ concat (map enc_server_out msgs) @ p \<and>
        (if cbroken c then \<exists>m. strict_prefix p (enc_server_out m) else p = []))"

text \<open>A program that writes nothing once a write has failed.\<close>

definition quiet :: "'a io \<Rightarrow> bool" where
  "quiet m \<longleftrightarrow> (\<forall>c. cbroken c \<longrightarrow> snd (m c) = c)"

lemma quiet_writeB: "quiet (writeB p)"
  by (simp add: quiet_def writeB_def)

lemma quiet_simple: "quiet (ret x)" "quiet flush"
  by (simp_all add: quiet_def ret_def flush_def)

lemma quiet_bind: "quiet m \<Longrightarrow> (\<And>x. quiet (f x)) \<Longrightarrow> quiet (bind_io m f)"
  unfolding quiet_def bind_io_def by (force split: prod.splits sum.splits)

lemma quiet_wrap: "quiet m \<Longrightarrow> quiet (wrap s m)"
  by (simp add: quiet_def wrap_def split_beta)

lemma quiet_wrapD: "quiet m \<Longrightarrow> quiet (wrapD s a m)"
  by (simp add: quiet_def wrapD_def split_beta)

lemmas quiet_intros = quiet_bind quiet_wrap quiet_wrapD quiet_writeB quiet_simple

lemma quiet_writeRects: "quiet (writeRects i rs)"
  by (induction rs arbitrary: i) (auto simp: Rectangle_Write_def intro!: quiet_intros)

lemma quiet_update: "quiet (bind_io (WriteFramebufferUpdate rects) (\<lambda>_. flush))"
  unfolding WriteFramebufferUpdate_def by (intro quiet_intros quiet_writeRects)

lemma quiet_cut_text: "quiet (bind_io (WriteServerCutText text) (\<lambda>_. flush))"
  unfolding WriteServerCutText_def by (intro quiet_intros)

lemma emits_update: "emits (bind_io (WriteFramebufferUpdate rects) (\<lambda>_. flush)) (enc_FramebufferUpdate rects)"
proof -
  have "emits (WriteFramebufferUpdate rects) (enc_FramebufferUpdate rects)"
    unfolding WriteFramebufferUpdate_def enc_FramebufferUpdate_def
    by (rule emits_app, (rule emits_bind emits_wrap emits_writeB emits_writeRects)+) simp
  from emits_bind [OF this emits_flush] show ?thesis by simp
qed

lemma emits_cut_text: "emits (bind_io (WriteServerCutText text) (\<lambda>_. flush)) (enc_ServerCutText text)"
proof -
  have "emits (WriteServerCutText text) (enc_ServerCutText text)"
    unfolding WriteServerCutText_def enc_ServerCutText_def
    by (rule emits_app, (rule emits_bind emits_wrap emits_writeB)+) simp
  from emits_bind [OF this emits_flush] show ?thesis by simp
qed

lemma whole_send:
  assumes "whole out c" and "emits m (enc_server_out msg)" and "quiet m"
  shows "whole out (snd (m c))"
proof (cases "cbroken c")
  case True
  then show ?thesis using assms(1,3) by (simp add: quiet_def)
next
  case False
  then obtain msgs where out: "cout c = out @ concat (map enc_server_out msgs)"
    using assms(1) by (auto simp: whole_def)
  have w: "snd (m c) = snd (writeB (enc_server_out msg) c)" using emitsD [OF assms(2) False] by simp
  show ?thesis
  proof (cases "fst (writeB (enc_server_out msg) c) = Inr ()")
    case True
    then have "cout (snd (m c)) = out @ concat (map enc_server_out (msgs @ [msg]))" "\<not> cbroken (snd (m c))"
      using w out False by (auto simp: writeB_def split: option.splits if_splits)
    then show ?thesis unfolding whole_def by (intro exI [of _ "msgs @ [msg]"] exI [of _ "[]"]) simp
  next
    case fail: False
    then obtain n where "n < length (enc_server_out msg)"
        "cout (snd (m c)) = out @ concat (map enc_server_out msgs) @ take n (enc_server_out msg)" "cbroken (snd (m c))"
      using w out False fail that by (auto simp: writeB_def not_le split: option.splits if_splits)
    moreover from this have "strict_prefix (take n (enc_server_out msg)) (enc_server_out msg)"
      by (simp add: strict_prefix_def take_is_prefix)
    ultimately show ?thesis unfolding whole_def by auto
  qed
qed

section \<open>Programs that leave the wire alone\<close>

text \<open>Readers do not write; encoding does not touch the connection at all.\<close>

definition silent :: "'a io \<Rightarrow> bool" where
  "silent m \<longleftrightarrow> (\<forall>c r c'. m c = (r, c') \<longrightarrow> cout c' = cout c \<and> cbroken c' = cbroken c)"

lemma silent_simple: "silent (ret x)" "silent (fail e)" "silent (readFull n)"
  by (auto simp: silent_def ret_def fail_def readFull_def split: if_splits)

lemma silent_bind: "silent m \<Longrightarrow> (\<And>x. silent (f x)) \<Longrightarrow> silent (bind_io m f)"
  unfolding silent_def bind_io_def by (fastforce split: prod.splits sum.splits)

lemma silent_wrap: "silent m \<Longrightarrow> silent (wrap s m)"
  by (auto simp: silent_def wrap_def split: prod.splits)

lemma silent_wrapD: "silent m \<Longrightarrow> silent (wrapD s a m)"
  by (auto simp: silent_def wrapD_def split: prod.splits)

lemma silent_if: "silent a \<Longrightarrow> silent b \<Longrightarrow> silent (if P then a else b)"
  by simp

lemmas silent_intros = silent_bind silent_wrap silent_wrapD silent_simple silent_if

lemma silent_reads: "silent read_u8" "silent read_u16" "silent read_u32"
  unfolding read_u8_def read_u16_def read_u32_def by (intro silent_intros)+

lemma silent_readEncodings: "silent (readEncodings i n)"
  by (induction i n rule: readEncodings.induct) (auto intro!: silent_intros silent_reads)

lemma silent_readers:
  "silent ReadSetPixelFormat" "silent ReadSetEncodings" "silent ReadFramebufferUpdateRequest"
  "silent ReadKeyEvent" "silent ReadPointerEvent" "silent ReadClientCutText"
  unfolding ReadSetPixelFormat_def ReadSetEncodings_def ReadFramebufferUpdateRequest_def ReadKeyEvent_def
    ReadPointerEvent_def ReadClientCutText_def
  by (intro silent_intros silent_reads silent_readEncodings)+

definition no_out :: "('t, 'h, 'a) sprog \<Rightarrow> bool" where
  "no_out m \<longleftrightarrow> (\<forall>s r s'. m s = (r, s') \<longrightarrow>
     cout (wire s') = cout (wire s) \<and> cbroken (wire s') = cbroken (wire s))"

lemma no_out_on_wire: "silent m \<Longrightarrow> no_out (on_wire m)"
  by (auto simp: no_out_def silent_def on_wire_def upd_client_def split: prod.splits)

lemma no_out_bind: "no_out m \<Longrightarrow> (\<And>x. no_out (f x)) \<Longrightarrow> no_out (bind_io m f)"
  unfolding no_out_def bind_io_def by (fastforce split: prod.splits sum.splits)

lemma no_out_wrap: "no_out m \<Longrightarrow> no_out (wrap s m)"
  by (auto simp: no_out_def wrap_def split: prod.splits)

lemma no_out_modify: "(\<And>c. cc_conn (f c) = cc_conn c) \<Longrightarrow> no_out (modify (upd_client f))"
  by (simp add: no_out_def modify_def upd_client_def)

lemma no_out_simple: "no_out (ret x)" "no_out (fail e)" "no_out get_state" "no_out (lift_res r)"
  by (simp_all add: no_out_def ret_def fail_def get_state_def lift_res_def)

lemma no_out_dispatch: "no_out (dispatch_message t)"
  unfolding dispatch_message_def add_input_def offer_request_def
  by (auto intro!: no_out_bind no_out_simple no_out_on_wire no_out_modify silent_readers)

lemma no_out_serve: "no_out serve_message"
  unfolding serve_message_def
  by (auto intro!: no_out_bind no_out_wrap no_out_simple no_out_on_wire no_out_modify no_out_dispatch silent_reads
      split: option.splits)

text \<open>Encoding keeps the connection; answering a request sends at most one update.\<close>

definition keeps_wire :: "('t, 'h, 'a) sprog \<Rightarrow> bool" where
  "keeps_wire m \<longleftrightarrow> (\<forall>s. wire (snd (m s)) = wire s)"

definition one_update :: "('t, 'h, unit) sprog \<Rightarrow> bool" where
  "one_update m \<longleftrightarrow> (\<forall>s. wire (snd (m s)) = wire s \<or>
     (\<exists>rects. wire (snd (m s)) = snd (bind_io (WriteFramebufferUpdate rects) (\<lambda>_. flush) (wire s))))"

lemma keeps_simple: "keeps_wire (ret x)" "keeps_wire (fail e)" "keeps_wire get_state" "keeps_wire (lift_res r)"
  "keeps_wire (on_zlib m1)" "keeps_wire (on_zrle m2)" "keeps_wire (on_tight t m3)" "keeps_wire (on_h264 h m4)"
  by (auto simp: keeps_wire_def ret_def fail_def get_state_def lift_res_def on_zlib_def on_zrle_def on_tight_def
      on_h264_def upd_client_def Let_def split: prod.splits)

lemma keeps_modify: "(\<And>s. wire (f s) = wire s) \<Longrightarrow> keeps_wire (modify f)"
  by (simp add: keeps_wire_def modify_def)

lemma keeps_bind: "keeps_wire m \<Longrightarrow> (\<And>x. keeps_wire (f x)) \<Longrightarrow> keeps_wire (bind_io m f)"
proof -
  assume m: "keeps_wire m" and f: "\<And>x. keeps_wire (f x)"
  have "wire (snd (bind_io m f s)) = wire s" for s
  proof -
    obtain r s' where r: "m s = (r, s')" by force
    then have w: "wire s' = wire s" using m by (metis keeps_wire_def snd_conv)
    show ?thesis using r w f by (cases r) (simp_all add: bind_io_def keeps_wire_def)
  qed
  then show ?thesis by (simp add: keeps_wire_def)
qed

lemma keeps_wrap: "keeps_wire m \<Longrightarrow> keeps_wire (wrap s m)"
  by (simp add: keeps_wire_def wrap_def split_beta)

lemma one_update_bind: 
  assumes m: "keeps_wire m" and f: "\<And>x. one_update (f x)"
  shows "one_update (bind_io m f)"
  unfolding one_update_def
proof
  fix s
  obtain r s' where r: "m s = (r, s')" by force
  then have w: "wire s' = wire s" using m by (metis keeps_wire_def snd_conv)
  show "wire (snd (bind_io m f s)) = wire s \<or>
     (\<exists>rects. wire (snd (bind_io m f s)) = snd (bind_io (WriteFramebufferUpdate rects) (\<lambda>_. flush) (wire s)))"
  proof (cases r)
    case (Inl e)
    then show ?thesis using r w by (simp add: bind_io_def)
  next
    case (Inr x)
    then have "bind_io m f s = f x s'" using r by (simp add: bind_io_def)
    then show ?thesis using f [of x] w unfolding one_update_def by metis
  qed
qed

lemma one_update_send: "one_update (send_update rects)"
proof -
  have "wire (snd (send_update rects s)) = snd (bind_io (WriteFramebufferUpdate rects) (\<lambda>_. flush) (wire s))" for s
    by (auto simp: send_update_def bind_io_def on_wire_def upd_client_def split: prod.splits sum.splits)
  then show ?thesis unfolding one_update_def by blast
qed

lemma keeps_pseudo: "keeps_wire (desktop_size_rects bounds)" "keeps_wire (cursor_rects cursor)"
  unfolding desktop_size_rects_def cursor_rects_def Let_def
  by (auto intro!: keeps_bind keeps_simple keeps_modify simp: upd_client_def split: option.splits prod.splits)

lemma keeps_encode: "keeps_wire (encode_regions z enc bounds pixels stride regions)"
  unfolding encode_regions_def Let_def
  by (auto intro!: keeps_bind keeps_simple keeps_wrap split: option.splits)

lemma one_update_frame: "one_update (encodeAndSendFrame z bounds cursor req pixels stride dirty)"
  unfolding encodeAndSendFrame_def Let_def
  by (auto intro!: one_update_bind one_update_send keeps_encode keeps_pseudo keeps_simple)

lemma one_update_request: "one_update (handleFramebufferRequest z cap cursor req)"
  unfolding handleFramebufferRequest_def sendBlankFrame_def Let_def
  by (auto intro!: one_update_bind one_update_send one_update_frame keeps_simple split: prod.splits)

section \<open>The invariant\<close>

lemma whole_same: "whole out c \<Longrightarrow> cout c' = cout c \<Longrightarrow> cbroken c' = cbroken c \<Longrightarrow> whole out c'"
  by (simp add: whole_def)

lemma whole_update: "whole out c \<Longrightarrow> whole out (snd (bind_io (WriteFramebufferUpdate rects) (\<lambda>_. flush) c))"
  by (rule whole_send [where msg = "OutUpdate rects"]) (simp_all add: emits_update quiet_update)

lemma whole_cut_text: "whole out c \<Longrightarrow> whole out (snd (bind_io (WriteServerCutText text) (\<lambda>_. flush) c))"
  by (rule whole_send [where msg = "OutCutText text"]) (simp_all add: emits_cut_text quiet_cut_text)

lemma whole_request:
  assumes "handleFramebufferRequest z cap cur q s = (r, s')" and "whole out (wire s)"
  shows "whole out (wire s')"
  using one_update_request [of z cap cur q] assms whole_update unfolding one_update_def by (metis snd_conv)

lemma whole_cursor:
  assumes "cursor_client pf addr img c = Inr c'" and "whole out (cc_conn c)"
  shows "whole out (cc_conn c')"
proof (cases "supportsCursor (cc_encodings c)")
  case False
  then show ?thesis using assms by (simp add: cursor_client_def)
next
  case True
  with assms(1) obtain rect where e: "EncodeCursorRect img (cc_pixelFormat c) pf = Inr rect"
    by (auto simp: cursor_client_def rbind_Inr_iff)
  obtain r d where "bind_io (WriteFramebufferUpdate [rect]) (\<lambda>_. flush) (cc_conn c) = (r, d)" by force
  moreover from this have "cc_conn c' = d"
    using assms(1) True e by (cases r) (auto simp: cursor_client_def)
  ultimately show ?thesis using whole_update [OF assms(2), of "[rect]"] by simp
qed

lemma conn_step_whole:
  assumes "conn_step z (s, w) (s', w')" and "whole out (wire s)"
  shows "whole out (wire s')"
  using assms(1)
proof (cases rule: conn_step.cases)
  case (reader u)
  then have "cout (wire s') = cout (wire s) \<and> cbroken (wire s') = cbroken (wire s)"
    using no_out_serve unfolding no_out_def by blast
  then show ?thesis using whole_same [OF assms(2)] by blast
next
  case (take q)
  then show ?thesis using assms(2) by (simp add: upd_client_def)
next
  case (answer cap cur q u)
  then show ?thesis using whole_request assms(2) by blast
next
  case (abort cap cur q e s1)
  then show ?thesis using whole_request [of z cap cur q s "Inl e" s1 out] assms(2) by (simp add: upd_client_def)
next
  case (clipboard t)
  then show ?thesis using whole_cut_text [OF assms(2)] by (simp add: upd_client_def clipboard_client_def)
next
  case (resize width height)
  then show ?thesis using whole_update [OF assms(2)] assms(2) by (simp add: upd_client_def notify_client_def)
next
  case (cursor addr img c')
  then show ?thesis using whole_cursor assms(2) by auto
qed

text \<open>
  Whatever the client sends and however the reader goroutine, the writer goroutine and the
  server's broadcasts are interleaved, the bytes on a connection after the handshake are a
  sequence of complete FramebufferUpdate and ServerCutText messages, followed by a proper
  prefix of one more message only when a write on the connection has failed.
\<close>

lemma connection_output_whole:
  assumes "(conn_step z)\<^sup>*\<^sup>* (s0, Idle) (s, w)" and "\<not> cbroken (wire s0)"
  shows "whole (cout (wire s0)) (wire s)"
proof -
  have init: "whole (cout (wire s0)) (wire s0)"
    using assms(2) unfolding whole_def by (intro exI [of _ "[]"]) simp
  from assms(1) have "whole (cout (wire s0)) (wire (fst (s, w)))"
  proof (induction rule: rtranclp_induct)
    case base
    then show ?case using init by simp
  next
    case (step a b)
    then show ?case using conn_step_whole by (metis prod.collapse)
  qed
  then show ?thesis by simp
qed

lemma connection_output_whole_witness:
  "let s = \<lparr>ses_config = example_config, ses_client = newClientConn example_config (live [] [1])\<rparr>;
       s' = upd_client (clipboard_client [65]) s
   in (conn_step stored)\<^sup>*\<^sup>* (s, Idle) (s', Idle) \<and> whole [1] (wire s')"
proof -
  let ?s = "\<lparr>ses_config = example_config, ses_client = newClientConn example_config (live [] [1])\<rparr>"
  let ?s' = "upd_client (clipboard_client [65]) ?s"
  have run: "(conn_step stored)\<^sup>*\<^sup>* (?s, Idle) (?s', Idle)"
    by (rule r_into_rtranclp, rule conn_step.clipboard)
  then have "whole (cout (wire ?s)) (wire ?s')"
    by (rule connection_output_whole) (simp add: newClientConn_def)
  then show ?thesis using run by (simp add: newClientConn_def)
qed

end
