(* ===== verification/Rfbreader.thy ===== *)
theory Rfbreader
  imports ServerMessages
begin

text \<open>
  \<^verbatim>\<open>wsproxy/rfbreader.go\<close>: the reader that cuts the byte stream of a VNC server into complete
  messages, so that the proxy can pass each on as one WebSocket message. The bytes a function
  of the source appends to its buffer are the result here.
\<close>

section \<open>Model\<close>

record rfbReader =
  rr_bpp :: nat
  rr_tightCPixel :: nat

definition newRFBReader :: "u8 \<Rightarrow> u8 \<Rightarrow> u8 \<Rightarrow> rfbReader" where
  "newRFBReader bitsPerPixel depth trueColour =
     (let bytesPerPixel = unat bitsPerPixel div 8;
          bytesPerPixel = if bytesPerPixel < 1 then 4 else bytesPerPixel;
          cpixel = if bitsPerPixel = 32 \<and> depth = 24 \<and> trueColour \<noteq> 0 then 3 else bytesPerPixel
      in \<lparr>rr_bpp = bytesPerPixel, rr_tightCPixel = cpixel\<rparr>)"

definition UpdatePixelFormat :: "u8 \<Rightarrow> u8 \<Rightarrow> u8 \<Rightarrow> rfbReader \<Rightarrow> rfbReader" where
  "UpdatePixelFormat bitsPerPixel depth trueColour r =
     (let bpp = unat bitsPerPixel div 8;
          bpp = if bpp < 1 then 4 else bpp;
          r = r\<lparr>rr_bpp := bpp\<rparr>;
          r = r\<lparr>rr_tightCPixel := bpp\<rparr>
      in if bitsPerPixel = 32 \<and> depth = 24 \<and> trueColour \<noteq> 0 then r\<lparr>rr_tightCPixel := 3\<rparr> else r)"

definition readExact :: "nat \<Rightarrow> bytes io" where
  "readExact n = (if n = 0 then ret [] else readFull n)"

definition readRRE :: "nat \<Rightarrow> bytes io" where
  "readRRE bpp =
     bind_io (readFull 4) (\<lambda>hdr.
     bind_io (readExact (bpp + unat (un32 hdr) * (bpp + 8))) (\<lambda>d. ret (hdr @ d)))"

definition readLengthPrefixed32 :: "bytes io" where
  "readLengthPrefixed32 =
     bind_io (readFull 4) (\<lambda>lenBuf.
     bind_io (readExact (unat (un32 lenBuf))) (\<lambda>d. ret (lenBuf @ d)))"

definition readH264 :: "bytes io" where
  "readH264 =
     bind_io (readFull 8) (\<lambda>hdr.
     bind_io (readExact (unat (un32 (drop 4 hdr)))) (\<lambda>d. ret (hdr @ d)))"

text \<open>The length, and the one to three bytes it was read from.\<close>

definition readCompactLength :: "(nat \<times> bytes) io" where
  "readCompactLength =
     bind_io (readFull 1) (\<lambda>b1.
     let len = unat (hd b1) AND 0x7F in
     if hd b1 AND 0x80 \<noteq> 0 then
       bind_io (readFull 1) (\<lambda>b2.
       let len = len OR push_bit 7 (unat (hd b2) AND 0x7F) in
       if hd b2 AND 0x80 \<noteq> 0 then
         bind_io (readFull 1) (\<lambda>b3.
         ret (len OR push_bit 14 (unat (hd b3)), b1 @ b2 @ b3))
       else ret (len, b1 @ b2))
     else ret (len, b1))"

definition readCompactPrefixed :: "bytes io" where
  "readCompactPrefixed =
     bind_io readCompactLength (\<lambda>(len, b).
     bind_io (readExact len) (\<lambda>d. ret (b @ d)))"

text \<open>The size of the pixel data of a basic tile, with the bytes of the filter read for it.\<close>

definition readTightFilter :: "nat \<Rightarrow> nat \<Rightarrow> nat \<Rightarrow> u8 \<Rightarrow> (nat \<times> bytes) io" where
  "readTightFilter tileW tileH cpixel filterID =
     (if filterID = 0 then ret (tileW * tileH * cpixel, [])
      else if filterID = 1 then
        bind_io (readFull 1) (\<lambda>ps.
        let paletteSize = unat (hd ps) + 1 in
        bind_io (readExact (paletteSize * cpixel)) (\<lambda>pal.
        ret (if paletteSize = 2 then ((tileW + 7) div 8) * tileH else tileW * tileH, ps @ pal)))
      else if filterID = 2 then ret (tileW * tileH * cpixel, [])
      else fail (Errorf ''unknown tight filter: %d'' [uint filterID]))"

definition readTightBasic :: "nat \<Rightarrow> nat \<Rightarrow> nat \<Rightarrow> u8 \<Rightarrow> bytes io" where
  "readTightBasic tileW tileH cpixel subType =
     bind_io (if subType AND 0x04 \<noteq> 0 then readFull 1 else ret []) (\<lambda>f.
     let filterID = (case f of [] \<Rightarrow> 0 | b # _ \<Rightarrow> b) in
     bind_io (readTightFilter tileW tileH cpixel filterID) (\<lambda>(rawDataSize, pal).
     if rawDataSize < 12
     then bind_io (readExact rawDataSize) (\<lambda>d. ret (f @ pal @ d))
     else bind_io readCompactPrefixed (\<lambda>d. ret (f @ pal @ d))))"

definition readTightTileData :: "nat \<Rightarrow> nat \<times> nat \<times> nat \<times> nat \<Rightarrow> bytes io" where
  "readTightTileData cpixel t =
     (case t of (tx, ty, tileW, tileH) \<Rightarrow>
        bind_io (readFull 1) (\<lambda>control. bind_io
          (let subType = hd control AND 0x0F in
           if subType = 0x08 then readExact cpixel
           else if subType = 0x09 then readCompactPrefixed
           else if subType \<le> 0x07 then readTightBasic tileW tileH cpixel subType
           else fail (Errorf ''unsupported tight subtype 0x%02x'' [uint subType])) (\<lambda>d. ret (control @ d))))"

fun readTightTilesData :: "nat \<Rightarrow> (nat \<times> nat \<times> nat \<times> nat) list \<Rightarrow> bytes io" where
  "readTightTilesData cpixel [] = ret []"
| "readTightTilesData cpixel (t # ts) =
     bind_io (readTightTileData cpixel t) (\<lambda>a. bind_io (readTightTilesData cpixel ts) (\<lambda>b. ret (a @ b)))"

definition readTightData :: "nat \<Rightarrow> nat \<Rightarrow> nat \<Rightarrow> bytes io" where
  "readTightData w h cpixel = readTightTilesData cpixel (rect_tiles 64 w h)"

definition readEncodingData :: "nat \<Rightarrow> nat \<Rightarrow> i32 \<Rightarrow> nat \<Rightarrow> nat \<Rightarrow> bytes io" where
  "readEncodingData w h enc bpp cpixel =
     (if enc = 0 then readExact (w * h * bpp)
      else if enc = 1 then readExact 4
      else if enc = 2 then readRRE bpp
      else if enc = 6 then readLengthPrefixed32
      else if enc = 7 then readTightData w h cpixel
      else if enc = 16 then readLengthPrefixed32
      else if enc = 50 then readH264
      else if enc = -239 then readExact (w * h * bpp + ((w + 7) div 8) * h)
      else if enc = -223 then ret []
      else fail (Errorf ''unsupported encoding %d'' [sint enc]))"

fun readRectsData :: "nat \<Rightarrow> nat \<Rightarrow> nat \<Rightarrow> nat \<Rightarrow> nat \<Rightarrow> bytes io" where
  "readRectsData bpp cpixel numRects i 0 = ret []"
| "readRectsData bpp cpixel numRects i (Suc n) =
     bind_io (wrapD ''rect header %d/%d: %w'' [int i, int numRects] (readFull 12)) (\<lambda>hdr.
     let w = unat (un16 (drop 4 hdr)); h = unat (un16 (drop 6 hdr)); enc = un32 (drop 8 hdr) in
     bind_io (wrapD ''encoding data rect %d/%d enc=%d: %w'' [int i, int numRects, sint enc]
       (readEncodingData w h enc bpp cpixel)) (\<lambda>d.
     bind_io (readRectsData bpp cpixel numRects (i + 1) n) (\<lambda>rest. ret (hdr @ d @ rest))))"

definition rfbReader_readFramebufferUpdate :: "nat \<Rightarrow> nat \<Rightarrow> bytes io" where
  "rfbReader_readFramebufferUpdate bpp cpixel =
     bind_io (wrap ''fbu header: %w'' (readFull 3)) (\<lambda>hdr.
     let numRects = unat (un16 (drop 1 hdr)) in
     bind_io (readRectsData bpp cpixel numRects 0 numRects) (\<lambda>d. ret ([0] @ hdr @ d)))"

definition rfbReader_readServerCutText :: "bytes io" where
  "rfbReader_readServerCutText =
     bind_io (readFull 7) (\<lambda>hdr.
     let textLen = unat (un32 (drop 3 hdr)) in
     bind_io (if 0 < textLen then readFull textLen else ret []) (\<lambda>d. ret ([3] @ hdr @ d)))"

definition readSetColourMapEntries :: "bytes io" where
  "readSetColourMapEntries =
     bind_io (readFull 5) (\<lambda>hdr.
     let dataLen = unat (un16 (drop 3 hdr)) * 6 in
     bind_io (if 0 < dataLen then readFull dataLen else ret []) (\<lambda>d. ret ([1] @ hdr @ d)))"

definition rfbReader_ReadMessage :: "rfbReader \<Rightarrow> bytes io" where
  "rfbReader_ReadMessage r =
     bind_io (readFull 1) (\<lambda>b.
     let msgType = hd b in
     if msgType = 0 then rfbReader_readFramebufferUpdate (rr_bpp r) (rr_tightCPixel r)
     else if msgType = 1 then readSetColourMapEntries
     else if msgType = 2 then ret [2]
     else if msgType = 3 then rfbReader_readServerCutText
     else fail (Errorf ''unknown RFB server message type: %d'' [uint msgType]))"

section \<open>Reading exactly\<close>

text \<open>\<open>takes m xs\<close>: \<open>m\<close> reads \<open>xs\<close> off the input, returns it and leaves the rest.\<close>

definition takes :: "bytes io \<Rightarrow> bytes \<Rightarrow> bool" where
  "takes m xs \<longleftrightarrow> (\<forall>rest out. m (live (xs @ rest) out) = (Inr xs, live rest out))"

lemma takesD: "takes m xs \<Longrightarrow> m (live (xs @ rest) out) = (Inr xs, live rest out)"
  by (simp add: takes_def)

lemma takesI: "(\<And>rest out. m (live (xs @ rest) out) = (Inr xs, live rest out)) \<Longrightarrow> takes m xs"
  by (simp add: takes_def)

lemma takes_readFull: "length xs = n \<Longrightarrow> takes (readFull n) xs"
  by (simp add: takes_def conn_simps)

lemma takes_readExact: "length xs = n \<Longrightarrow> takes (readExact n) xs"
  by (auto simp: takes_def readExact_def conn_simps)

lemma takes_bind:
  assumes "takes m xs" and "takes (f xs) ys"
  shows "takes (bind_io m (\<lambda>a. bind_io (f a) (\<lambda>b. ret (a @ b)))) (xs @ ys)"
  using assms by (simp add: takes_def conn_simps)

lemma takes_wrapD: "takes m xs \<Longrightarrow> takes (wrapD s a m) xs"
  by (simp add: takes_def conn_simps)

lemma takes_ret_Nil: "takes (ret []) []"
  by (simp add: takes_def conn_simps)

lemma takes_readLengthPrefixed32:
  "length d < 4294967296 \<Longrightarrow> takes readLengthPrefixed32 (be32 (of_nat (length d)) @ d)"
  unfolding readLengthPrefixed32_def
  by (rule takes_bind [OF takes_readFull takes_readExact]) simp_all

lemma takes_readH264:
  assumes "length f = 4" and "length d < 4294967296"
  shows "takes readH264 (f @ be32 (of_nat (length d)) @ d)"
proof -
  have "takes readH264 ((f @ be32 (of_nat (length d))) @ d)"
    unfolding readH264_def by (rule takes_bind [OF takes_readFull takes_readExact]) (use assms in simp_all)
  then show ?thesis by simp
qed

lemma take1_drop: "take (Suc 0) (drop k xs) @ drop (Suc k) xs = drop k xs"
proof -
  have "drop (Suc k) xs = drop (Suc 0) (drop k xs)" by simp
  then show ?thesis by (metis append_take_drop_id)
qed

lemma readCompactLength_eq:
  "readCompactLen c = (Inr n, c') \<Longrightarrow> \<exists>b. readCompactLength c = (Inr (n, b), c') \<and> cin c = b @ cin c'"
  using take1_drop [of 0 "cin c"] take1_drop [of "Suc 0" "cin c"] take1_drop [of "Suc (Suc 0)" "cin c"]
  by (auto simp: readCompactLen_def readCompactLength_def io_Inr_iffs Let_def readFull_Inr_iff bind_io_def ret_def
      split: if_splits sum.splits prod.splits)

lemma takes_readCompactPrefixed:
  assumes "length d < 4194304"
  shows "takes readCompactPrefixed (compactLen (length d) @ d)"
proof (rule takesI)
  fix rest out
  have "readCompactLen (live (compactLen (length d) @ d @ rest) out) = (Inr (length d), live (d @ rest) out)"
    using readCompactLen_compactLen [OF assms] .
  then obtain b where b: "readCompactLength (live (compactLen (length d) @ d @ rest) out) = (Inr (length d, b), live (d @ rest) out)"
      "compactLen (length d) @ d @ rest = b @ d @ rest"
    using readCompactLength_eq [of "live (compactLen (length d) @ d @ rest) out" "length d" "live (d @ rest) out"] by auto
  then show "readCompactPrefixed (live ((compactLen (length d) @ d) @ rest) out) =
      (Inr (compactLen (length d) @ d), live rest out)"
    using takesD [OF takes_readExact [of d "length d"]] by (simp add: readCompactPrefixed_def conn_simps)
qed

section \<open>Framed rectangles\<close>

text \<open>
  The data of a rectangle as the encodings lay it out. A Tight rectangle is one tile here, as
  the server sends it: a filled tile, a JPEG image, or a compressed tile of one of the four
  streams with at least twelve bytes of pixels.
\<close>

definition tight_tile_framed :: "nat \<Rightarrow> nat \<Rightarrow> nat \<Rightarrow> bytes \<Rightarrow> bool" where
  "tight_tile_framed cpixel w h d \<longleftrightarrow>
     (\<exists>p. d = 0x08 # p \<and> length p = cpixel) \<or>
     (\<exists>b. d = 0x09 # compactLen (length b) @ b \<and> length b < 4194304) \<or>
     (\<exists>s b. s \<in> {0, 1, 2, 3} \<and> d = s # compactLen (length b) @ b \<and> length b < 4194304 \<and> 12 \<le> w * h * cpixel)"

definition well_framed :: "nat \<Rightarrow> nat \<Rightarrow> Rectangle \<Rightarrow> bool" where
  "well_framed bpp cpixel r \<longleftrightarrow>
     (let w = unat (hdr_Width (rect_Header r)); h = unat (hdr_Height (rect_Header r));
          enc = hdr_Encoding (rect_Header r); d = rect_Data r in
      enc = EncodingRaw \<and> length d = w * h * bpp \<or>
      enc = EncodingCopyRect \<and> length d = 4 \<or>
      (enc = EncodingZlib \<or> enc = EncodingZRLE) \<and> (\<exists>b. d = be32 (of_nat (length b)) @ b \<and> length b < 4294967296) \<or>
      enc = EncodingH264 \<and> (\<exists>f b. d = f @ be32 (of_nat (length b)) @ b \<and> length f = 4 \<and> length b < 4294967296) \<or>
      enc = EncodingCursor \<and> length d = w * h * bpp + ((w + 7) div 8) * h \<or>
      enc = EncodingDesktopSize \<and> d = [] \<or>
      enc = EncodingTight \<and> 0 < w \<and> w \<le> 64 \<and> 0 < h \<and> h \<le> 64 \<and> tight_tile_framed cpixel w h d)"

lemma takes_one: "takes (f [b]) ys \<Longrightarrow> takes (bind_io (readFull 1) (\<lambda>a. bind_io (f a) (\<lambda>d. ret (a @ d)))) (b # ys)"
  using takes_bind [OF takes_readFull [of "[b]" 1], of f ys] by simp

lemma takes_tight_tile:
  assumes "tight_tile_framed cpixel w h d"
  shows "takes (readTightTileData cpixel (0, 0, w, h)) d"
proof -
  note unf = readTightTileData_def [of cpixel "(0, 0, w, h)", unfolded prod.case]
  from assms consider p where "d = 0x08 # p" "length p = cpixel"
    | b where "d = 0x09 # compactLen (length b) @ b" "length b < 4194304"
    | s b where "s \<in> {0, 1, 2, 3 :: u8}" "d = s # compactLen (length b) @ b" "length b < 4194304" "12 \<le> w * h * cpixel"
    unfolding tight_tile_framed_def by blast
  then show ?thesis
  proof cases
    case 1
    show ?thesis unfolding unf 1(1) by (rule takes_one) (simp add: takes_readExact 1(2))
  next
    case 2
    show ?thesis unfolding unf 2(1) by (rule takes_one) (simp add: takes_readCompactPrefixed 2(2))
  next
    case (3 s b)
    have basic: "readTightBasic w h cpixel s = bind_io readCompactPrefixed ret"
      using 3(1,4) by (auto simp: readTightBasic_def readTightFilter_def fun_eq_iff bind_io_def ret_def split: sum.splits prod.splits)
    have t: "takes (readTightBasic w h cpixel s) (compactLen (length b) @ b)"
      unfolding basic using takes_readCompactPrefixed [OF 3(3)] by (simp add: takes_def conn_simps)
    have sub: "s AND 0x0F = s" "s \<noteq> 8" "s \<noteq> 9" "s \<le> 7" using 3(1) by auto
    show ?thesis unfolding unf 3(2) by (rule takes_one) (simp add: sub t)
  qed
qed

lemma rect_tiles_one: "0 < w \<Longrightarrow> w \<le> 64 \<Longrightarrow> 0 < h \<Longrightarrow> h \<le> 64 \<Longrightarrow> rect_tiles 64 w h = [(0, 0, w, h)]"
  by (simp add: rect_tiles_def loop_steps.simps [of 0])

lemma takes_encoding_data:
  assumes "well_framed bpp cpixel r"
  shows "takes (readEncodingData (unat (hdr_Width (rect_Header r))) (unat (hdr_Height (rect_Header r)))
     (hdr_Encoding (rect_Header r)) bpp cpixel) (rect_Data r)"
  using assms unfolding well_framed_def Let_def
proof (elim disjE conjE exE, goal_cases)
  case (3 b)
  then show ?case using takes_readLengthPrefixed32 [OF 3(3)] by (simp add: readEncodingData_def enc_defs)
next
  case (4 b)
  then show ?case using takes_readLengthPrefixed32 [OF 4(3)] by (simp add: readEncodingData_def enc_defs)
next
  case (5 f b)
  then show ?case using takes_readH264 [OF 5(3,4)] by (simp add: readEncodingData_def enc_defs)
next
  case 8
  let ?w = "unat (hdr_Width (rect_Header r))" and ?h = "unat (hdr_Height (rect_Header r))"
  have "takes (readTightData ?w ?h cpixel) (rect_Data r @ [])"
    unfolding readTightData_def rect_tiles_one [OF 8(2-5)] readTightTilesData.simps
    by (rule takes_bind [OF takes_tight_tile [OF 8(6)] takes_ret_Nil])
  then show ?case using 8(1) by (simp add: readEncodingData_def enc_defs)
qed (simp_all add: readEncodingData_def enc_defs takes_readExact takes_ret_Nil)

section \<open>Whole messages\<close>

definition rect_read :: "nat \<Rightarrow> nat \<Rightarrow> Rectangle \<Rightarrow> bool" where
  "rect_read bpp cpixel r \<longleftrightarrow>
     takes (readEncodingData (unat (hdr_Width (rect_Header r))) (unat (hdr_Height (rect_Header r)))
       (hdr_Encoding (rect_Header r)) bpp cpixel) (rect_Data r)"

lemma takes_rects:
  assumes "\<forall>r \<in> set rects. rect_read bpp cpixel r"
  shows "takes (readRectsData bpp cpixel n i (length rects)) (concat (map enc_Rectangle rects))"
  using assms
proof (induction rects arbitrary: i)
  case Nil
  then show ?case by (simp add: takes_ret_Nil)
next
  case (Cons r rects)
  let ?h = "rect_Header r"
  have hdr: "un16 (drop 4 (enc_RectHeader ?h)) = hdr_Width ?h" "un16 (drop 6 (enc_RectHeader ?h)) = hdr_Height ?h"
    "un32 (drop 8 (enc_RectHeader ?h)) = hdr_Encoding ?h"
    by (simp_all add: enc_RectHeader_def)
  have d: "takes (readEncodingData (unat (hdr_Width ?h)) (unat (hdr_Height ?h)) (hdr_Encoding ?h) bpp cpixel) (rect_Data r)"
    using Cons.prems by (simp add: rect_read_def)
  have rest: "takes (readRectsData bpp cpixel n (i + 1) (length rects)) (concat (map enc_Rectangle rects))"
    using Cons.IH Cons.prems by simp
  show ?case
  proof (rule takesI)
    fix tail out
    have 1: "readFull 12 (live (enc_RectHeader ?h @ xs) out) = (Inr (enc_RectHeader ?h), live xs out)" for xs
      using takesD [OF takes_readFull [of "enc_RectHeader ?h" 12]] by simp
    show "readRectsData bpp cpixel n i (length (r # rects)) (live (concat (map enc_Rectangle (r # rects)) @ tail) out) =
        (Inr (concat (map enc_Rectangle (r # rects))), live tail out)"
      using takesD [OF d] takesD [OF rest, of tail out] by (simp add: enc_Rectangle_def 1 hdr conn_simps Let_def)
  qed
qed

lemma readFull_hdr:
  "readFull (Suc 0) (live (b # xs) out) = (Inr [b], live xs out)"
  "readFull 3 (live (b # be16 v @ xs) out) = (Inr (b # be16 v), live xs out)"
  "readFull 7 (live (b # b' # b'' # be32 u @ xs) out) = (Inr (b # b' # b'' # be32 u), live xs out)"
  using takesD [OF takes_readFull [of "[b]" 1]] takesD [OF takes_readFull [of "b # be16 v" 3]]
    takesD [OF takes_readFull [of "b # b' # b'' # be32 u" 7]]
  by simp_all

lemma takes_update:
  assumes "length rects < 65536" and "\<forall>x \<in> set rects. rect_read (rr_bpp r) (rr_tightCPixel r) x"
  shows "takes (rfbReader_ReadMessage r) (enc_FramebufferUpdate rects)"
proof -
  have "un16 (drop 1 (0 # be16 (of_nat (length rects)))) = of_nat (length rects)" by simp
  then show ?thesis using takesD [OF takes_rects [OF assms(2), of "length rects" 0]] assms(1)
    by (simp add: takes_def rfbReader_ReadMessage_def rfbReader_readFramebufferUpdate_def
        enc_FramebufferUpdate_def server_msg_defs readFull_hdr conn_simps Let_def)
qed

text \<open>The reader follows the client's pixel format, with which the rectangles are framed.\<close>

fun framed_msg :: "rfbReader \<Rightarrow> server_out \<Rightarrow> bool" where
  "framed_msg r (OutUpdate rects) \<longleftrightarrow>
     length rects < 65536 \<and> (\<forall>x \<in> set rects. well_framed (rr_bpp r) (rr_tightCPixel r) x)"
| "framed_msg r (OutCutText text) \<longleftrightarrow> length text < 4294967296"

lemma takes_message:
  assumes "framed_msg r m"
  shows "takes (rfbReader_ReadMessage r) (enc_server_out m)"
proof (cases m)
  case (OutUpdate rects)
  then show ?thesis using assms takes_update takes_encoding_data by (simp add: rect_read_def)
next
  case (OutCutText t)
  then show ?thesis using assms
    by (auto simp: takes_def rfbReader_ReadMessage_def rfbReader_readServerCutText_def enc_ServerCutText_def
        server_msg_defs readFull_hdr conn_simps Let_def)
qed

section \<open>Properties\<close>

text \<open>
  The reader returns every framed server message whole and unchanged, and leaves the bytes
  behind it in the stream, whatever they are: for updates with rectangles in any of the
  encodings the server uses, and for clipboard texts.
\<close>

theorem ReadMessage_returns_message:
  assumes "framed_msg r m"
  shows "rfbReader_ReadMessage r (live (enc_server_out m @ rest) out) = (Inr (enc_server_out m), live rest out)"
  by (rule takesD [OF takes_message [OF assms]])

theorem ReadMessage_returns_message_witness:
  "rfbReader_ReadMessage (newRFBReader 32 24 1)
     (live (enc_server_out (OutUpdate [mkRect 0 0 1 1 EncodingRaw [1,2,3,4], mkRect 0 0 2 1 EncodingTight [8, 1, 2, 3]]) @ [3]) []) =
   (Inr (enc_server_out (OutUpdate [mkRect 0 0 1 1 EncodingRaw [1,2,3,4], mkRect 0 0 2 1 EncodingTight [8, 1, 2, 3]])), live [3] [])"
  by (rule ReadMessage_returns_message)
    (simp add: newRFBReader_def well_framed_def tight_tile_framed_def enc_defs)

text \<open>
  A Tight tile of fewer than four pixels that is neither filled nor JPEG is cut in the wrong
  place: the server sends its compressed data with a length in front, the reader takes the
  pixel bytes as uncompressed. The message it returns ends inside the data, and the rest of
  the data is read as the next message.
\<close>

lemma ReadMessage_cuts_small_tiles:
  assumes "hdr_Encoding (rect_Header x) = EncodingTight" and "w = unat (hdr_Width (rect_Header x))"
    and "h = unat (hdr_Height (rect_Header x))" and "0 < w" and "w \<le> 64" and "0 < h" and "h \<le> 64"
    and "rect_Data x = s # b" and "s \<in> {0, 1, 2, 3}" and "w * h * rr_tightCPixel r < 12" and "w * h * rr_tightCPixel r \<le> length b"
  shows "rfbReader_ReadMessage r (live (enc_FramebufferUpdate [x] @ rest) out) =
     (Inr (take (17 + w * h * rr_tightCPixel r) (enc_FramebufferUpdate [x])),
      live (drop (17 + w * h * rr_tightCPixel r) (enc_FramebufferUpdate [x]) @ rest) out)"
proof -
  let ?c = "rr_tightCPixel r" and ?n = "w * h * rr_tightCPixel r"
  let ?x = "x\<lparr>rect_Data := s # take ?n b\<rparr>"
  have basic: "readTightBasic w h ?c s = bind_io (readExact ?n) ret"
    using assms(9,10) by (auto simp: readTightBasic_def readTightFilter_def fun_eq_iff bind_io_def ret_def split: sum.splits prod.splits)
  have t: "takes (readTightBasic w h ?c s) (take ?n b)"
    unfolding basic using takes_readExact [of "take ?n b" ?n] assms(11) by (simp add: takes_def conn_simps)
  have sub: "s AND 0x0F = s" "s \<noteq> 8" "s \<noteq> 9" "s \<le> 7" using assms(9) by auto
  have tile: "takes (readTightTileData ?c (0, 0, w, h)) (s # take ?n b)"
    unfolding readTightTileData_def prod.case by (rule takes_one) (simp add: sub t)
  have "takes (readTightData w h ?c) ((s # take ?n b) @ [])"
    unfolding readTightData_def rect_tiles_one [OF assms(4-7)] readTightTilesData.simps
    by (rule takes_bind [OF tile takes_ret_Nil])
  then have "rect_read (rr_bpp r) ?c ?x"
    using assms(1-3) by (simp add: rect_read_def readEncodingData_def enc_defs)
  then have read: "takes (rfbReader_ReadMessage r) (enc_FramebufferUpdate [?x])" by (intro takes_update) auto
  have split: "enc_FramebufferUpdate [x] = enc_FramebufferUpdate [?x] @ drop ?n b"
    using assms(8) by (simp add: enc_FramebufferUpdate_def enc_Rectangle_def)
  have len: "length (enc_FramebufferUpdate [?x]) = 17 + ?n"
    using assms(11) by (simp add: enc_FramebufferUpdate_def enc_Rectangle_def)
  show ?thesis unfolding split using takesD [OF read, of "drop ?n b @ rest" out] len by simp
qed

lemma ReadMessage_cuts_small_tiles_witness:
  "let x = mkRect 0 0 2 1 EncodingTight [0, 6, 1, 2, 3, 4, 5, 6] in
   rfbReader_ReadMessage (newRFBReader 32 24 1) (live (enc_FramebufferUpdate [x] @ []) []) =
     (Inr (take 23 (enc_FramebufferUpdate [x])), live (drop 23 (enc_FramebufferUpdate [x]) @ []) [])"
  unfolding Let_def
  using ReadMessage_cuts_small_tiles [of "mkRect 0 0 2 1 EncodingTight [0, 6, 1, 2, 3, 4, 5, 6]" 2 1 0 "[6, 1, 2, 3, 4, 5, 6]"
      "newRFBReader 32 24 1" "[]" "[]"]
  by (simp add: newRFBReader_def)

end
