(* ===== verification/Session.thy ===== *)
theory Session
  imports Prelude "HOL-Library.AList"
begin

text \<open>
  \<^verbatim>\<open>wsproxy/session.go\<close>: the sessions of the proxy with their uploads, and the connection manager
  that keeps their number within the limits. Go maps are association lists with distinct
  keys; the time is an argument.
\<close>

section \<open>Sessions\<close>

text \<open>An open file is a handle; \<^verbatim>\<open>File\<close> and \<^verbatim>\<open>Closer\<close> of an upload are the same file.\<close>

record uploadState =
  us_ID :: u32
  us_FileName :: bytes
  us_FilePath :: bytes
  us_FileSize :: u64
  us_BytesWritten :: u64
  us_File :: nat

record Session =
  s_ID :: string
  s_ClientAddr :: string
  s_Target :: string
  s_CreatedAt :: int
  s_LastActivity :: int
  s_Password :: string
  s_BytesToClient :: u64
  s_BytesFromClient :: u64
  s_uploads :: "(u32 \<times> uploadState) list"

definition NewSession :: "string \<Rightarrow> int \<Rightarrow> string \<Rightarrow> string \<Rightarrow> string \<Rightarrow> Session" where
  "NewSession uuid now clientAddr target password =
     \<lparr>s_ID = uuid, s_ClientAddr = clientAddr, s_Target = target, s_CreatedAt = now, s_LastActivity = now,
      s_Password = password, s_BytesToClient = 0, s_BytesFromClient = 0, s_uploads = []\<rparr>"

definition TouchActivity :: "int \<Rightarrow> Session \<Rightarrow> Session" where
  "TouchActivity now s = s\<lparr>s_LastActivity := now\<rparr>"

definition AddUpload :: "uploadState \<Rightarrow> Session \<Rightarrow> Session" where
  "AddUpload u s = s\<lparr>s_uploads := AList.update (us_ID u) u (s_uploads s)\<rparr>"

definition GetUpload :: "u32 \<Rightarrow> Session \<Rightarrow> uploadState option" where
  "GetUpload i s = map_of (s_uploads s) i"

definition RemoveUpload :: "u32 \<Rightarrow> Session \<Rightarrow> uploadState option \<times> Session" where
  "RemoveUpload i s = (map_of (s_uploads s) i, s\<lparr>s_uploads := AList.delete i (s_uploads s)\<rparr>)"

definition ActiveUploadCount :: "Session \<Rightarrow> nat" where
  "ActiveUploadCount s = length (s_uploads s)"

text \<open>The files that are closed, and the session without uploads.\<close>

definition CleanupUploads :: "Session \<Rightarrow> nat list \<times> Session" where
  "CleanupUploads s = (map (us_File \<circ> snd) (s_uploads s), s\<lparr>s_uploads := []\<rparr>)"

section \<open>The connection manager\<close>

record ConnectionManager =
  cm_sessions :: "(string \<times> Session) list"
  cm_targetCounts :: "(string \<times> int) list"
  cm_maxConnections :: int
  cm_maxPerTarget :: int

definition NewConnectionManager :: "int \<Rightarrow> int \<Rightarrow> ConnectionManager" where
  "NewConnectionManager maxConnections maxPerTarget =
     (let maxConnections = if maxConnections \<le> 0 then 100 else maxConnections;
          maxPerTarget = if maxPerTarget \<le> 0 then 10 else maxPerTarget in
      \<lparr>cm_sessions = [], cm_targetCounts = [], cm_maxConnections = maxConnections, cm_maxPerTarget = maxPerTarget\<rparr>)"

definition targetCount :: "ConnectionManager \<Rightarrow> string \<Rightarrow> int" where
  "targetCount cm t = (case map_of (cm_targetCounts cm) t of None \<Rightarrow> 0 | Some n \<Rightarrow> n)"

definition TryAdd :: "Session \<Rightarrow> ConnectionManager \<Rightarrow> bool \<times> ConnectionManager" where
  "TryAdd s cm =
     (if int (length (cm_sessions cm)) \<ge> cm_maxConnections cm then (False, cm)
      else if targetCount cm (s_Target s) \<ge> cm_maxPerTarget cm then (False, cm)
      else (True, cm\<lparr>cm_sessions := AList.update (s_ID s) s (cm_sessions cm),
             cm_targetCounts := AList.update (s_Target s) (targetCount cm (s_Target s) + 1) (cm_targetCounts cm)\<rparr>))"

definition Remove :: "Session \<Rightarrow> ConnectionManager \<Rightarrow> ConnectionManager" where
  "Remove s cm =
     (if map_of (cm_sessions cm) (s_ID s) = None then cm
      else
        let n = targetCount cm (s_Target s) - 1;
            counts = AList.update (s_Target s) n (cm_targetCounts cm) in
        cm\<lparr>cm_sessions := AList.delete (s_ID s) (cm_sessions cm),
           cm_targetCounts := if n \<le> 0 then AList.delete (s_Target s) counts else counts\<rparr>)"

definition All :: "ConnectionManager \<Rightarrow> Session list" where
  "All cm = map snd (cm_sessions cm)"

definition Count :: "ConnectionManager \<Rightarrow> nat" where
  "Count cm = length (cm_sessions cm)"

section \<open>Association lists\<close>

lemma filter_update_new:
  "map_of m k = None \<Longrightarrow> length (filter P (map snd (AList.update k v m))) =
     length (filter P (map snd m)) + (if P v then 1 else 0)"
  by (induction m) (auto split: if_splits)

lemma filter_delete_key:
  assumes "distinct (map fst m)" and "map_of m k = Some v"
  shows "length (filter P (map snd m)) = length (filter P (map snd (AList.delete k m))) + (if P v then 1 else 0)"
  using assms
proof (induction m)
  case (Cons p m)
  obtain a b where p: "p = (a, b)" by (cases p)
  show ?case
  proof (cases "a = k")
    case True
    then have "k \<notin> fst ` set m" using Cons.prems(1) p by auto
    then have "AList.delete k m = m" by (rule delete_id)
    then show ?thesis using True Cons.prems(2) p by simp
  next
    case False
    then have "length (filter P (map snd m)) = length (filter P (map snd (AList.delete k m))) + (if P v then 1 else 0)"
      using Cons.IH Cons.prems p by simp
    then show ?thesis using False p by simp
  qed
qed simp

lemma length_update_key:
  "length (AList.update k v m) = (if map_of m k = None then Suc (length m) else length m)"
  by (induction m) auto

lemma length_delete_key:
  "distinct (map fst m) \<Longrightarrow> map_of m k = Some v \<Longrightarrow> Suc (length (AList.delete k m)) = length m"
  using filter_delete_key [of m k v "\<lambda>_. True"] by simp

lemma set_update_subset: "set (AList.update k v m) \<subseteq> insert (k, v) (set m)"
  by (induction m) auto

lemma set_delete_subset: "set (AList.delete k m) \<subseteq> set m"
  by (auto simp: AList.delete_eq)

section \<open>The limits hold\<close>

definition sessions_to :: "string \<Rightarrow> ConnectionManager \<Rightarrow> nat" where
  "sessions_to t cm = length (filter (\<lambda>s. s_Target s = t) (All cm))"

definition cm_ok :: "ConnectionManager \<Rightarrow> bool" where
  "cm_ok cm \<longleftrightarrow> distinct (map fst (cm_sessions cm)) \<and> distinct (map fst (cm_targetCounts cm)) \<and>
     (\<forall>(k, s) \<in> set (cm_sessions cm). s_ID s = k) \<and>
     (\<forall>t. targetCount cm t = int (sessions_to t cm)) \<and>
     int (Count cm) \<le> cm_maxConnections cm \<and> (\<forall>t. int (sessions_to t cm) \<le> cm_maxPerTarget cm)"

lemma TryAdd_True:
  assumes "TryAdd s cm = (True, cm')" and "map_of (cm_sessions cm) (s_ID s) = None"
  shows "int (Count cm) < cm_maxConnections cm" "targetCount cm (s_Target s) < cm_maxPerTarget cm"
    "cm_maxConnections cm' = cm_maxConnections cm" "cm_maxPerTarget cm' = cm_maxPerTarget cm"
    "Count cm' = Suc (Count cm)"
    "targetCount cm' t = targetCount cm t + (if t = s_Target s then 1 else 0)"
    "sessions_to t cm' = sessions_to t cm + (if t = s_Target s then 1 else 0)"
    "cm_sessions cm' = AList.update (s_ID s) s (cm_sessions cm)"
    "map fst (cm_targetCounts cm') = map fst (AList.update (s_Target s) 0 (cm_targetCounts cm))"
proof -
  have *: "int (length (cm_sessions cm)) < cm_maxConnections cm" "targetCount cm (s_Target s) < cm_maxPerTarget cm"
    "cm' = cm\<lparr>cm_sessions := AList.update (s_ID s) s (cm_sessions cm),
       cm_targetCounts := AList.update (s_Target s) (targetCount cm (s_Target s) + 1) (cm_targetCounts cm)\<rparr>"
    using assms(1) by (auto simp: TryAdd_def split: if_splits)
  then show "int (Count cm) < cm_maxConnections cm" "targetCount cm (s_Target s) < cm_maxPerTarget cm"
    "cm_maxConnections cm' = cm_maxConnections cm" "cm_maxPerTarget cm' = cm_maxPerTarget cm"
    "cm_sessions cm' = AList.update (s_ID s) s (cm_sessions cm)"
    "Count cm' = Suc (Count cm)"
    using assms(2) by (simp_all add: Count_def length_update_key)
  show "targetCount cm' t = targetCount cm t + (if t = s_Target s then 1 else 0)"
    using * by (simp add: targetCount_def update_conv')
  show "sessions_to t cm' = sessions_to t cm + (if t = s_Target s then 1 else 0)"
    using * filter_update_new [OF assms(2), of "\<lambda>s. s_Target s = t" s] by (simp add: sessions_to_def All_def)
  show "map fst (cm_targetCounts cm') = map fst (AList.update (s_Target s) 0 (cm_targetCounts cm))"
    using * by (simp add: update_keys)
qed

lemma cm_ok_TryAdd:
  assumes "cm_ok cm" and "map_of (cm_sessions cm) (s_ID s) = None"
  shows "cm_ok (snd (TryAdd s cm))"
proof (cases "fst (TryAdd s cm)")
  case False
  then have "snd (TryAdd s cm) = cm" by (auto simp: TryAdd_def split: if_splits)
  then show ?thesis using assms(1) by simp
next
  case True
  define cm' where "cm' = snd (TryAdd s cm)"
  then have add: "TryAdd s cm = (True, cm')" using True by (metis prod.collapse)
  note a = TryAdd_True [OF add assms(2)]
  have d: "distinct (map fst (cm_sessions cm'))" "distinct (map fst (cm_targetCounts cm'))"
    using assms(1) distinct_update a(8,9) by (auto simp: cm_ok_def)
  have ids: "\<forall>(k, x) \<in> set (cm_sessions cm'). s_ID x = k"
    using assms(1) a(8) set_update_subset [of "s_ID s" s "cm_sessions cm"] by (fastforce simp: cm_ok_def)
  have counts: "targetCount cm' t = int (sessions_to t cm')" "int (sessions_to t cm') \<le> cm_maxPerTarget cm'" for t
    using assms(1) a(2,4) a(6,7) [of t] by (auto simp: cm_ok_def)
  have "int (Count cm') \<le> cm_maxConnections cm'" using a(1,3,5) by simp
  then have "cm_ok cm'" using d ids counts by (simp add: cm_ok_def)
  then show ?thesis by (simp add: cm'_def)
qed

text \<open>A session that is removed has the target it was added with.\<close>

lemma Remove_present:
  assumes "cm_ok cm" and "map_of (cm_sessions cm) (s_ID s) = Some s'" and "s_Target s' = s_Target s"
  shows "Suc (Count (Remove s cm)) = Count cm"
    "targetCount (Remove s cm) t = targetCount cm t - (if t = s_Target s then 1 else 0)"
    "sessions_to t cm = sessions_to t (Remove s cm) + (if t = s_Target s then 1 else 0)"
    "cm_sessions (Remove s cm) = AList.delete (s_ID s) (cm_sessions cm)"
    "distinct (map fst (cm_targetCounts (Remove s cm)))"
proof -
  have d: "distinct (map fst (cm_sessions cm))" "distinct (map fst (cm_targetCounts cm))" using assms(1) by (auto simp: cm_ok_def)
  show sess: "cm_sessions (Remove s cm) = AList.delete (s_ID s) (cm_sessions cm)"
    using assms(2) by (simp add: Remove_def Let_def)
  show "Suc (Count (Remove s cm)) = Count cm" using length_delete_key [OF d(1) assms(2)] sess by (simp add: Count_def)
  show one: "sessions_to t cm = sessions_to t (Remove s cm) + (if t = s_Target s then 1 else 0)" for t
    using filter_delete_key [OF d(1) assms(2), of "\<lambda>s. s_Target s = t"] sess assms(3)
    by (auto simp: sessions_to_def All_def)
  have pos: "0 < targetCount cm (s_Target s)"
    using assms(1) one [of "s_Target s"] by (simp add: cm_ok_def)
  show "targetCount (Remove s cm) t = targetCount cm t - (if t = s_Target s then 1 else 0)"
    using assms(2) pos by (simp add: Remove_def Let_def targetCount_def update_conv' delete_conv')
  show "distinct (map fst (cm_targetCounts (Remove s cm)))"
    using assms(2) d(2) by (simp add: Remove_def Let_def distinct_update distinct_delete)
qed

lemma cm_ok_Remove:
  assumes "cm_ok cm" and "\<And>s'. map_of (cm_sessions cm) (s_ID s) = Some s' \<Longrightarrow> s_Target s' = s_Target s"
  shows "cm_ok (Remove s cm)"
proof (cases "map_of (cm_sessions cm) (s_ID s)")
  case None
  then show ?thesis using assms(1) by (simp add: Remove_def)
next
  case (Some s')
  note r = Remove_present [OF assms(1) Some assms(2) [OF Some]]
  have lim: "cm_maxConnections (Remove s cm) = cm_maxConnections cm" "cm_maxPerTarget (Remove s cm) = cm_maxPerTarget cm"
    by (simp_all add: Remove_def Let_def)
  have "distinct (map fst (cm_sessions (Remove s cm)))" using assms(1) r(4) by (simp add: cm_ok_def distinct_delete)
  moreover have "\<forall>(k, x) \<in> set (cm_sessions (Remove s cm)). s_ID x = k"
    using assms(1) r(4) set_delete_subset [of "s_ID s" "cm_sessions cm"] by (fastforce simp: cm_ok_def)
  moreover have "targetCount (Remove s cm) t = int (sessions_to t (Remove s cm))"
      "int (sessions_to t (Remove s cm)) \<le> cm_maxPerTarget (Remove s cm)" for t
  proof -
    have c: "targetCount cm t = int (sessions_to t cm)" "int (sessions_to t cm) \<le> cm_maxPerTarget cm"
      using assms(1) by (auto simp: cm_ok_def)
    show "targetCount (Remove s cm) t = int (sessions_to t (Remove s cm))"
      using r(2,3) [of t] c(1) by (simp split: if_splits)
    show "int (sessions_to t (Remove s cm)) \<le> cm_maxPerTarget (Remove s cm)"
      using r(3) [of t] c(2) lim by (simp split: if_splits)
  qed
  moreover have "int (Count (Remove s cm)) \<le> cm_maxConnections (Remove s cm)"
    using assms(1) r(1) lim by (simp add: cm_ok_def)
  ultimately show ?thesis using r(5) by (simp add: cm_ok_def)
qed

lemma cm_ok_new: "cm_ok (NewConnectionManager m n)"
  by (simp add: cm_ok_def NewConnectionManager_def Let_def targetCount_def sessions_to_def All_def Count_def)

text \<open>
  The calls of the server: a new session (with a new identifier, the uuid library's promise)
  is tried, and a session that ends is removed, also when it was refused.
\<close>

inductive cm_step :: "ConnectionManager \<Rightarrow> ConnectionManager \<Rightarrow> bool" where
  tried: "map_of (cm_sessions cm) (s_ID s) = None \<Longrightarrow> cm_step cm (snd (TryAdd s cm))"
| removed: "(\<And>s'. map_of (cm_sessions cm) (s_ID s) = Some s' \<Longrightarrow> s_Target s' = s_Target s) \<Longrightarrow>
     cm_step cm (Remove s cm)"

lemma TryAdd_limits:
  "cm_maxConnections (snd (TryAdd s cm)) = cm_maxConnections cm" "cm_maxPerTarget (snd (TryAdd s cm)) = cm_maxPerTarget cm"
  "cm_maxConnections (Remove s cm) = cm_maxConnections cm" "cm_maxPerTarget (Remove s cm) = cm_maxPerTarget cm"
  by (simp_all add: TryAdd_def Remove_def Let_def)

lemma cm_reachable:
  assumes "cm_step\<^sup>*\<^sup>* (NewConnectionManager m n) cm"
  shows "cm_ok cm \<and> cm_maxConnections cm = cm_maxConnections (NewConnectionManager m n) \<and>
     cm_maxPerTarget cm = cm_maxPerTarget (NewConnectionManager m n)"
  using assms
proof (induction rule: rtranclp_induct)
  case base
  then show ?case by (simp add: cm_ok_new)
next
  case (step cm cm')
  from step.hyps(2) step.IH show ?case
    by (cases rule: cm_step.cases) (auto simp: TryAdd_limits intro: cm_ok_TryAdd cm_ok_Remove)
qed

section \<open>Properties\<close>

text \<open>
  In every state the proxy reaches by admitting and removing sessions, the counter of each
  target is the number of sessions to it, no target has more than its limit and there are
  never more sessions than the limit (the defaults 100 and 10 when none is configured); a
  session is admitted exactly when both limits leave room.
\<close>

lemma connection_limits_hold:
  assumes "cm_step\<^sup>*\<^sup>* (NewConnectionManager m n) cm"
  shows "int (Count cm) \<le> (if m \<le> 0 then 100 else m) \<and>
     (\<forall>t. targetCount cm t = int (sessions_to t cm) \<and> int (sessions_to t cm) \<le> (if n \<le> 0 then 10 else n)) \<and>
     (fst (TryAdd s cm) \<longleftrightarrow>
        int (Count cm) < (if m \<le> 0 then 100 else m) \<and> int (sessions_to (s_Target s) cm) < (if n \<le> 0 then 10 else n))"
proof -
  have ok: "cm_ok cm" and lim: "cm_maxConnections cm = (if m \<le> 0 then 100 else m)" "cm_maxPerTarget cm = (if n \<le> 0 then 10 else n)"
    using cm_reachable [OF assms] by (auto simp: NewConnectionManager_def Let_def)
  have "fst (TryAdd s cm) \<longleftrightarrow> int (Count cm) < cm_maxConnections cm \<and> targetCount cm (s_Target s) < cm_maxPerTarget cm"
    by (auto simp: TryAdd_def Count_def)
  then show ?thesis using ok lim by (auto simp: cm_ok_def)
qed

lemma connection_limits_hold_witness:
  "let cm = snd (TryAdd (NewSession ''a'' 0 ''c'' ''vnc:5900'' []) (NewConnectionManager 1 0)) in
     int (Count cm) \<le> 1 \<and> \<not> fst (TryAdd (NewSession ''b'' 0 ''c'' ''vnc:5901'' []) cm)"
proof -
  let ?cm = "snd (TryAdd (NewSession ''a'' 0 ''c'' ''vnc:5900'' []) (NewConnectionManager 1 0))"
  have "cm_step (NewConnectionManager 1 0) ?cm"
    by (rule cm_step.tried) (simp add: NewConnectionManager_def)
  then have "cm_step\<^sup>*\<^sup>* (NewConnectionManager 1 0) ?cm" by blast
  from connection_limits_hold [OF this, of "NewSession ''b'' 0 ''c'' ''vnc:5901'' []"]
  have l: "int (Count ?cm) \<le> 1" and f: "fst (TryAdd (NewSession ''b'' 0 ''c'' ''vnc:5901'' []) ?cm) \<longrightarrow> int (Count ?cm) < 1"
    by auto
  have "Count ?cm = 1"
    by (simp add: TryAdd_def NewConnectionManager_def targetCount_def NewSession_def Count_def)
  then show ?thesis using l f by (simp add: Let_def)
qed

end
