(* ===== verification/Paths.thy ===== *)
theory Paths
  imports Protocol "HOL-Library.Sublist"
begin

text \<open>
  The paths of uploaded files, \<^verbatim>\<open>wsproxy/server.go\<close>: sanitised names, allowed directories and
  names that are not in use, with the functions of \<^verbatim>\<open>path/filepath\<close> (on Unix) and \<^verbatim>\<open>unicode/utf8\<close>
  they use. Go strings are byte lists.
\<close>

section \<open>path/filepath\<close>

abbreviation slash :: u8 where "slash \<equiv> 47"
abbreviation dot :: u8 where "dot \<equiv> 46"

fun split_slash :: "bytes \<Rightarrow> bytes list" where
  "split_slash [] = [[]]"
| "split_slash (c # cs) =
     (if c = slash then [] # split_slash cs
      else case split_slash cs of [] \<Rightarrow> [[c]] | p # ps \<Rightarrow> (c # p) # ps)"

fun join_slash :: "bytes list \<Rightarrow> bytes" where
  "join_slash [] = []"
| "join_slash [p] = p"
| "join_slash (p # ps) = p @ slash # join_slash ps"

text \<open>
  The components left by \<^verbatim>\<open>Clean\<close>, innermost first: empty ones and \<open>.\<close> go away, \<open>..\<close> removes the
  component before it, and at the root it goes away too.
\<close>

definition clean_step :: "bool \<Rightarrow> bytes \<Rightarrow> bytes list \<Rightarrow> bytes list" where
  "clean_step rooted p acc =
     (if p = [] \<or> p = [dot] then acc
      else if p = [dot, dot] then
        (case acc of [] \<Rightarrow> if rooted then [] else [p]
         | q # qs \<Rightarrow> if q = [dot, dot] then p # acc else qs)
      else p # acc)"

definition is_rooted :: "bytes \<Rightarrow> bool" where
  "is_rooted path \<longleftrightarrow> path \<noteq> [] \<and> hd path = slash"

definition clean_parts :: "bytes \<Rightarrow> bytes list" where
  "clean_parts path = rev (fold (clean_step (is_rooted path)) (split_slash path) [])"

definition filepath_Clean :: "bytes \<Rightarrow> bytes" where
  "filepath_Clean path =
     (if is_rooted path then slash # join_slash (clean_parts path)
      else if clean_parts path = [] then [dot] else join_slash (clean_parts path))"

definition filepath_Join :: "bytes \<Rightarrow> bytes \<Rightarrow> bytes" where
  "filepath_Join a b =
     (if a \<noteq> [] then filepath_Clean (a @ slash # b)
      else if b \<noteq> [] then filepath_Clean b else [])"

definition filepath_Base :: "bytes \<Rightarrow> bytes" where
  "filepath_Base path =
     (if path = [] then [dot]
      else
        let stripped = rev (dropWhile (\<lambda>c. c = slash) (rev path));
            base = rev (takeWhile (\<lambda>c. c \<noteq> slash) (rev stripped))
        in if base = [] then [slash] else base)"

text \<open>The extension: from the last dot of the last component on.\<close>

definition filepath_Ext :: "bytes \<Rightarrow> bytes" where
  "filepath_Ext path =
     (let last = takeWhile (\<lambda>c. c \<noteq> slash) (rev path);
          suff = takeWhile (\<lambda>c. c \<noteq> dot) last
      in if suff = last then [] else dot # rev suff)"

definition TrimSuffix :: "bytes \<Rightarrow> bytes \<Rightarrow> bytes" where
  "TrimSuffix s suff =
     (if length suff \<le> length s \<and> drop (length s - length suff) s = suff
      then take (length s - length suff) s else s)"

definition HasPrefix :: "bytes \<Rightarrow> bytes \<Rightarrow> bool" where
  "HasPrefix s p \<longleftrightarrow> take (length p) s = p"

fun Contains :: "bytes \<Rightarrow> bytes \<Rightarrow> bool" where
  "Contains [] p \<longleftrightarrow> p = []"
| "Contains (c # cs) p \<longleftrightarrow> HasPrefix (c # cs) p \<or> Contains cs p"

text \<open>\<^verbatim>\<open>%d\<close> of a number that is not negative.\<close>

function decimal :: "nat \<Rightarrow> bytes" where
  "decimal n = (if n < 10 then [of_nat (48 + n)] else decimal (n div 10) @ [of_nat (48 + n mod 10)])"
  by auto
termination by (relation "measure id") auto

declare decimal.simps [simp del]

section \<open>Runes\<close>

abbreviation in_range :: "u8 \<Rightarrow> u8 \<Rightarrow> u8 \<Rightarrow> bool" where
  "in_range lo hi b \<equiv> lo \<le> b \<and> b \<le> hi"

abbreviation is_cont :: "u8 \<Rightarrow> bool" where
  "is_cont b \<equiv> in_range 0x80 0xBF b"

text \<open>The length of the well-formed UTF-8 sequence at the head, if there is one.\<close>

definition utf8_len :: "bytes \<Rightarrow> nat option" where
  "utf8_len s =
     (case s of
        [] \<Rightarrow> None
      | a # s \<Rightarrow>
          if a < 0x80 then Some 1
          else if in_range 0xC2 0xDF a then
            (case s of b # _ \<Rightarrow> if is_cont b then Some 2 else None | _ \<Rightarrow> None)
          else if in_range 0xE0 0xEF a then
            (case s of b # c # _ \<Rightarrow>
               if in_range (if a = 0xE0 then 0xA0 else 0x80) (if a = 0xED then 0x9F else 0xBF) b \<and> is_cont c
               then Some 3 else None | _ \<Rightarrow> None)
          else if in_range 0xF0 0xF4 a then
            (case s of b # c # d # _ \<Rightarrow>
               if in_range (if a = 0xF0 then 0x90 else 0x80) (if a = 0xF4 then 0x8F else 0xBF) b \<and> is_cont c \<and> is_cont d
               then Some 4 else None | _ \<Rightarrow> None)
          else None)"

text \<open>
  \<^verbatim>\<open>for _, r := range name\<close>: the runes as \<^verbatim>\<open>WriteRune\<close> writes them back, the replacement
  character for every byte that starts no well-formed sequence. The first argument bounds the
  number of runes; a string has no more runes than bytes.
\<close>

fun range_runes :: "nat \<Rightarrow> bytes \<Rightarrow> bytes list" where
  "range_runes 0 s = []"
| "range_runes (Suc k) s =
     (if s = [] then []
      else case utf8_len s of
        None \<Rightarrow> [0xEF, 0xBF, 0xBD] # range_runes k (drop 1 s)
      | Some n \<Rightarrow> take n s # range_runes k (drop n s))"

definition runes :: "bytes \<Rightarrow> bytes list" where
  "runes s = range_runes (length s) s"

section \<open>SanitizeFilename\<close>

text \<open>A rune below 32 or a path separator is one byte.\<close>

definition keep_rune :: "bytes \<Rightarrow> bool" where
  "keep_rune r \<longleftrightarrow> \<not> (length r = 1 \<and> (hd r < 32 \<or> hd r = slash \<or> hd r = 92))"

definition SanitizeFilename :: "bytes \<Rightarrow> bytes res" where
  "SanitizeFilename name =
     (let name = filepath_Base name in
      if name = [dot] \<or> name = [dot, dot] \<or> name = [] then Inl (Errorf ''invalid filename'' [])
      else
        let result = concat (filter keep_rune (runes name)) in
        if result = [] \<or> result = [dot] \<or> result = [dot, dot]
        then Inl (Errorf ''invalid filename after sanitization'' [])
        else Inr result)"

section \<open>UniqueFilePath\<close>

text \<open>\<open>missing\<close> says of which paths \<^verbatim>\<open>os.Stat\<close> reports that they do not exist.\<close>

definition candidate_name :: "bytes \<Rightarrow> nat \<Rightarrow> bytes" where
  "candidate_name name i =
     (let ext = filepath_Ext name; base = TrimSuffix name ext in base @ [40] @ decimal i @ [41] @ ext)"

fun unique_loop :: "(bytes \<Rightarrow> bool) \<Rightarrow> bytes \<Rightarrow> bytes \<Rightarrow> nat list \<Rightarrow> bytes \<Rightarrow> bytes" where
  "unique_loop missing dir name [] path = path"
| "unique_loop missing dir name (i # is) path =
     (let path = filepath_Join dir (candidate_name name i) in
      if missing path then path else unique_loop missing dir name is path)"

definition UniqueFilePath :: "(bytes \<Rightarrow> bool) \<Rightarrow> bytes \<Rightarrow> bytes \<Rightarrow> bytes" where
  "UniqueFilePath missing dir name =
     (let path = filepath_Join dir name in
      if missing path then path else unique_loop missing dir name [1..<10000] path)"

section \<open>Allowed directories\<close>

text \<open>
  What the operating system contributes: the working directory (unless it cannot be read) and
  the resolution of symbolic links (unless the path does not exist).
\<close>

record os_paths =
  os_Getwd :: "bytes option"
  os_EvalSymlinks :: "bytes \<Rightarrow> bytes option"

definition filepath_Abs :: "os_paths \<Rightarrow> bytes \<Rightarrow> bytes option" where
  "filepath_Abs os p =
     (if is_rooted p then Some (filepath_Clean p)
      else case os_Getwd os of None \<Rightarrow> None | Some wd \<Rightarrow> Some (filepath_Join wd p))"

definition resolveUploadPathAbs :: "os_paths \<Rightarrow> bytes \<Rightarrow> bytes option" where
  "resolveUploadPathAbs os p =
     (case filepath_Abs os p of
        None \<Rightarrow> None
      | Some absPath \<Rightarrow>
          let resolved = (case os_EvalSymlinks os absPath of None \<Rightarrow> absPath | Some r \<Rightarrow> r)
          in Some (filepath_Clean resolved))"

definition isSubdirOf :: "bytes \<Rightarrow> bytes \<Rightarrow> bool" where
  "isSubdirOf child parent =
     (let child = filepath_Clean child; parent = filepath_Clean parent in
      if child = parent then True else HasPrefix child (parent @ [slash]))"

fun any_allowed :: "os_paths \<Rightarrow> bytes \<Rightarrow> bytes list \<Rightarrow> bool" where
  "any_allowed os resolved [] = False"
| "any_allowed os resolved (allowed # rest) =
     (case resolveUploadPathAbs os allowed of
        None \<Rightarrow> any_allowed os resolved rest
      | Some a \<Rightarrow> if isSubdirOf resolved a then True else any_allowed os resolved rest)"

definition IsUploadDirAllowed :: "os_paths \<Rightarrow> bytes list \<Rightarrow> bytes \<Rightarrow> bytes \<Rightarrow> bool" where
  "IsUploadDirAllowed os allowedUpDirs defaultDir dir =
     (case resolveUploadPathAbs os dir of
        None \<Rightarrow> False
      | Some resolved \<Rightarrow>
          if length allowedUpDirs = 0 then
            (case resolveUploadPathAbs os defaultDir of None \<Rightarrow> False | Some d \<Rightarrow> isSubdirOf resolved d)
          else any_allowed os resolved allowedUpDirs)"

section \<open>Components\<close>

lemma split_slash_nonempty [simp]: "split_slash s \<noteq> []"
  by (cases s) (auto split: list.splits)

lemma split_slash_append: "split_slash (a @ slash # b) = split_slash a @ split_slash b"
  by (induction a) (auto split: list.splits)

lemma split_slash_plain: "slash \<notin> set s \<Longrightarrow> split_slash s = [s]"
  by (induction s) auto

lemma split_slash_parts: "p \<in> set (split_slash s) \<Longrightarrow> slash \<notin> set p"
  by (induction s arbitrary: p) (force split: if_splits list.splits)+

lemma join_slash_append: "ps \<noteq> [] \<Longrightarrow> qs \<noteq> [] \<Longrightarrow> join_slash (ps @ qs) = join_slash ps @ slash # join_slash qs"
proof (induction ps rule: join_slash.induct)
  case (2 p)
  then show ?case by (cases qs) auto
qed auto

lemma split_join: "ps \<noteq> [] \<Longrightarrow> (\<And>p. p \<in> set ps \<Longrightarrow> slash \<notin> set p) \<Longrightarrow> split_slash (join_slash ps) = ps"
  by (induction ps rule: join_slash.induct) (auto simp: split_slash_plain split_slash_append)

lemma clean_step_subset: "set (clean_step r p acc) \<subseteq> insert p (set acc)"
  by (auto simp: clean_step_def split: list.splits)

lemma clean_fold_plain:
  assumes "p \<in> set (fold (clean_step r) xs acc)" and "\<And>q. q \<in> set acc \<Longrightarrow> slash \<notin> set q \<and> q \<noteq> []"
    and "\<And>q. q \<in> set xs \<Longrightarrow> slash \<notin> set q"
  shows "slash \<notin> set p \<and> p \<noteq> []"
  using assms
proof (induction xs arbitrary: acc)
  case Nil
  then show ?case by simp
next
  case (Cons x xs)
  have "slash \<notin> set q \<and> q \<noteq> []" if "q \<in> set (clean_step r x acc)" for q
  proof (cases "x = []")
    case True
    then show ?thesis using that Cons.prems(2) by (simp add: clean_step_def)
  next
    case False
    then show ?thesis using that clean_step_subset [of r x acc] Cons.prems(2,3) by auto
  qed
  then show ?case using Cons.IH [of "clean_step r x acc"] Cons.prems(1,3) by simp
qed

lemma clean_parts_plain:
  assumes "p \<in> set (clean_parts path)"
  shows "slash \<notin> set p \<and> p \<noteq> []"
  by (rule clean_fold_plain [where r = "is_rooted path" and xs = "split_slash path" and acc = "[]"])
    (use assms split_slash_parts in \<open>auto simp: clean_parts_def\<close>)

text \<open>A plain name: one component that \<^verbatim>\<open>Clean\<close> keeps.\<close>

definition plain_name :: "bytes \<Rightarrow> bool" where
  "plain_name n \<longleftrightarrow> n \<noteq> [] \<and> n \<noteq> [dot] \<and> n \<noteq> [dot, dot] \<and> slash \<notin> set n"

lemma clean_parts_Join:
  assumes "dir \<noteq> []" and "plain_name n"
  shows "clean_parts (dir @ slash # n) = clean_parts dir @ [n]"
proof -
  have "is_rooted (dir @ slash # n) = is_rooted dir" using assms(1) by (cases dir) (auto simp: is_rooted_def)
  then show ?thesis using assms(2)
    by (simp add: clean_parts_def split_slash_append split_slash_plain plain_name_def clean_step_def)
qed

lemma Join_plain:
  assumes "dir \<noteq> []" and "plain_name n"
  shows "filepath_Join dir n = (if is_rooted dir then [slash] else []) @ join_slash (clean_parts dir @ [n])"
proof -
  have "is_rooted (dir @ slash # n) = is_rooted dir" using assms(1) by (cases dir) (auto simp: is_rooted_def)
  then show ?thesis using assms clean_parts_Join [OF assms] by (simp add: filepath_Join_def filepath_Clean_def)
qed

section \<open>Sanitised names\<close>

lemma utf8_len_bounds: "utf8_len s = Some n \<Longrightarrow> 0 < n \<and> n \<le> length s"
  by (auto simp: utf8_len_def split: list.splits if_splits)

lemma utf8_len_bytes:
  assumes "utf8_len s = Some n" and "n \<noteq> 1" and "b \<in> set (take n s)"
  shows "0x80 \<le> b"
  using assms by (auto simp: utf8_len_def word_le_nat_alt split: list.splits if_splits)

lemma rune_bytes:
  assumes "r \<in> set (range_runes k s)" and "keep_rune r" and "b \<in> set r"
  shows "32 \<le> b \<and> b \<noteq> slash \<and> b \<noteq> 92"
  using assms(1)
proof (induction k s rule: range_runes.induct)
  case (1 s)
  then show ?case by simp
next
  case (2 k s)
  have high: "32 \<le> c \<and> c \<noteq> slash \<and> c \<noteq> 92" if "0x80 \<le> c" for c :: u8
    using that by (auto simp: word_le_nat_alt)
  consider "utf8_len s = None" "r = [0xEF, 0xBF, 0xBD]" | n where "utf8_len s = Some n" "r = take n s"
    | "s \<noteq> []" "utf8_len s = None" "r \<in> set (range_runes k (drop 1 s))"
    | n where "s \<noteq> []" "utf8_len s = Some n" "r \<in> set (range_runes k (drop n s))"
    using 2(3) by (auto split: if_splits option.splits)
  then show ?case
  proof cases
    case 1
    then show ?thesis using assms(3) by auto
  next
    case (2 n)
    show ?thesis
    proof (cases "n = 1")
      case True
      then have "length r = 1" using 2 utf8_len_bounds by (metis length_take min.absorb2)
      then obtain c where "r = [c]" by (auto simp: length_Suc_conv)
      then show ?thesis using assms(2,3) by (auto simp: keep_rune_def not_less)
    next
      case False
      then show ?thesis using utf8_len_bytes [OF 2(1) False] 2(2) assms(3) high by auto
    qed
  next
    case 3
    then show ?thesis using 2(1) by blast
  next
    case (4 n)
    then show ?thesis using 2(2) by blast
  qed
qed

lemma SanitizeFilename_plain:
  assumes "SanitizeFilename name = Inr n"
  shows "plain_name n" "b \<in> set n \<Longrightarrow> 32 \<le> b \<and> b \<noteq> slash \<and> b \<noteq> 92"
proof -
  have n: "n = concat (filter keep_rune (runes (filepath_Base name)))" "n \<noteq> []" "n \<noteq> [dot]" "n \<noteq> [dot, dot]"
    using assms by (auto simp: SanitizeFilename_def Let_def split: if_splits)
  show b: "b \<in> set n \<Longrightarrow> 32 \<le> b \<and> b \<noteq> slash \<and> b \<noteq> 92" for b
    using n(1) rune_bytes by (auto simp: runes_def)
  then show "plain_name n" using n by (auto simp: plain_name_def)
qed

section \<open>Names that are free\<close>

lemma takeWhile_split: "\<exists>u. xs = takeWhile P xs @ u"
  by (rule exI [of _ "dropWhile P xs"]) simp

lemma takeWhile_split_stop: "takeWhile P xs \<noteq> xs \<Longrightarrow> \<exists>c w. xs = takeWhile P xs @ c # w \<and> \<not> P c"
  by (induction xs) (auto split: if_splits)

lemma Ext_suffix: "\<exists>b. name = b @ filepath_Ext name"
proof -
  let ?l = "takeWhile (\<lambda>c. c \<noteq> slash) (rev name)"
  let ?s = "takeWhile (\<lambda>c. c \<noteq> dot) ?l"
  show ?thesis
  proof (cases "?s = ?l")
    case True
    then show ?thesis by (simp add: filepath_Ext_def Let_def)
  next
    case False
    then obtain c w where cw: "?l = ?s @ c # w" "c = dot" using takeWhile_split_stop [of "\<lambda>c. c \<noteq> dot" ?l] by blast
    obtain u where u: "rev name = ?l @ u" using takeWhile_split by blast
    have "rev name = (?s @ c # w) @ u" by (rule trans [OF u]) (rule arg_cong [OF cw(1)])
    then have "rev (rev name) = rev ((?s @ c # w) @ u)" by (rule arg_cong)
    then have "name = rev (w @ u) @ (dot # rev ?s)" using cw(2) by simp
    moreover have "filepath_Ext name = dot # rev ?s" using False by (simp add: filepath_Ext_def Let_def)
    ultimately have "name = rev (w @ u) @ filepath_Ext name" by (simp only:)
    then show ?thesis by (rule exI)
  qed
qed

lemma candidate_name_form: "\<exists>b e. name = b @ e \<and> candidate_name name i = b @ [40] @ decimal i @ [41] @ e"
proof -
  obtain b where b: "name = b @ filepath_Ext name" using Ext_suffix by blast
  have "TrimSuffix (b @ e) e = b" for e by (simp add: TrimSuffix_def)
  then have "TrimSuffix name (filepath_Ext name) = b" using b by metis
  then show ?thesis using b by (auto simp: candidate_name_def Let_def)
qed

lemma decimal_digits: "b \<in> set (decimal n) \<Longrightarrow> 48 \<le> b \<and> b \<le> 57"
proof (induction n rule: decimal.induct)
  case (1 n)
  have d: "48 \<le> (of_nat (48 + m) :: u8) \<and> (of_nat (48 + m) :: u8) \<le> 57" if "m < 10" for m
  proof -
    have "unat (of_nat (48 + m) :: u8) = 48 + m" using that by (intro unat_of_nat_small) simp
    then show ?thesis using that by (simp add: word_le_nat_alt)
  qed
  have e: "decimal n = (if n < 10 then [of_nat (48 + n)] else decimal (n div 10) @ [of_nat (48 + n mod 10)])"
    by (rule decimal.simps)
  show ?case using 1 d [of n] d [of "n mod 10"] e by (auto split: if_splits)
qed

lemma candidate_name_plain:
  assumes "plain_name name"
  shows "plain_name (candidate_name name i)"
proof -
  obtain b e where be: "name = b @ e" "candidate_name name i = b @ [40] @ decimal i @ [41] @ e"
    using candidate_name_form by blast
  have "slash \<notin> set (decimal i)" using decimal_digits [of slash i] by (auto simp: word_le_nat_alt)
  then have "slash \<notin> set (candidate_name name i)" using assms be by (auto simp: plain_name_def)
  moreover have "(40 :: u8) \<in> set (candidate_name name i)" using be by simp
  then have "candidate_name name i \<noteq> []" "candidate_name name i \<noteq> [dot]" "candidate_name name i \<noteq> [dot, dot]" by auto
  ultimately show ?thesis by (simp add: plain_name_def)
qed

lemma unique_loop_cases:
  "unique_loop missing dir name is path = path \<and> is = [] \<or>
   (\<exists>i \<in> set is. unique_loop missing dir name is path = filepath_Join dir (candidate_name name i) \<and>
      (missing (filepath_Join dir (candidate_name name i)) \<or> (\<forall>j \<in> set is. \<not> missing (filepath_Join dir (candidate_name name j)))))"
proof (induction "is" arbitrary: path)
  case Nil
  then show ?case by simp
next
  case (Cons i js)
  show ?case
  proof (cases "missing (filepath_Join dir (candidate_name name i))")
    case True
    then show ?thesis by (simp add: Let_def)
  next
    case False
    then show ?thesis using Cons.IH [of "filepath_Join dir (candidate_name name i)"] by (auto simp: Let_def)
  qed
qed

lemma UniqueFilePath_cases:
  assumes "plain_name name"
  obtains n where "plain_name n" "UniqueFilePath missing dir name = filepath_Join dir n"
    "missing (filepath_Join dir n) \<or>
     \<not> missing (filepath_Join dir name) \<and> (\<forall>i \<in> {1..<10000}. \<not> missing (filepath_Join dir (candidate_name name i)))"
proof (cases "missing (filepath_Join dir name)")
  case True
  then show ?thesis using that [of name] assms by (simp add: UniqueFilePath_def Let_def)
next
  case False
  have u: "UniqueFilePath missing dir name = unique_loop missing dir name [1..<10000] (filepath_Join dir name)"
    using False by (simp add: UniqueFilePath_def Let_def)
  have "[1..<10000] \<noteq> ([] :: nat list)" by simp
  then obtain i where "unique_loop missing dir name [1..<10000] (filepath_Join dir name) = filepath_Join dir (candidate_name name i)"
      "missing (filepath_Join dir (candidate_name name i)) \<or>
       (\<forall>j \<in> set [1..<10000]. \<not> missing (filepath_Join dir (candidate_name name j)))"
    using unique_loop_cases [of missing dir name "[1..<10000]" "filepath_Join dir name"] by blast
  then show ?thesis using that [of "candidate_name name i"] candidate_name_plain [OF assms] u False by auto
qed

text \<open>
  Whatever name a client sends, the path the proxy creates for it is one component appended
  to the components of the upload directory. The path is not in use, unless the name and
  all 9999 variants of it are.
\<close>

lemma UniqueFilePath_parts:
  assumes "dir \<noteq> []" and "SanitizeFilename name = Inr n"
  shows "\<exists>n'. UniqueFilePath missing dir n = (if is_rooted dir then [slash] else []) @ join_slash (clean_parts dir @ [n']) \<and>
     plain_name n' \<and>
     (missing (UniqueFilePath missing dir n) \<or>
      (\<forall>i \<in> {1..<10000}. \<not> missing (filepath_Join dir (candidate_name n i))))"
proof -
  obtain n' where n': "plain_name n'" "UniqueFilePath missing dir n = filepath_Join dir n'"
      "missing (filepath_Join dir n') \<or> (\<forall>i \<in> {1..<10000}. \<not> missing (filepath_Join dir (candidate_name n i)))"
    using UniqueFilePath_cases [OF SanitizeFilename_plain(1) [OF assms(2)], of missing dir] by metis
  then show ?thesis using Join_plain [OF assms(1) n'(1)] by auto
qed

section \<open>Properties\<close>

text \<open>
  \<^verbatim>\<open>isSubdirOf\<close>, a comparison of strings, is the test that the components of the parent are a
  prefix of those of the child, for absolute paths and every parent but the root directory
  (\<open>/srv/upload\<close> is not taken for a child of \<open>/srv/up\<close>).
\<close>

lemma isSubdirOf_components:
  assumes "is_rooted child" and "is_rooted parent" and "clean_parts parent \<noteq> []"
  shows "isSubdirOf child parent \<longleftrightarrow> prefix (clean_parts parent) (clean_parts child)"
proof -
  let ?C = "clean_parts child" and ?P = "clean_parts parent"
  have pl: "slash \<notin> set q" if "q \<in> set ?C \<or> q \<in> set ?P" for q using that clean_parts_plain by blast
  have C: "?C \<noteq> [] \<Longrightarrow> split_slash (join_slash ?C) = ?C" and P: "split_slash (join_slash ?P) = ?P"
    using split_join pl assms(3) by auto
  have sub: "isSubdirOf child parent \<longleftrightarrow> join_slash ?C = join_slash ?P \<or> (\<exists>r. join_slash ?C = join_slash ?P @ slash # r)"
  proof -
    have "HasPrefix s p \<longleftrightarrow> (\<exists>r. s = p @ r)" for s p :: bytes
      unfolding HasPrefix_def by (metis append_eq_conv_conj append_take_drop_id)
    then show ?thesis using assms(1,2) by (auto simp: isSubdirOf_def filepath_Clean_def Let_def)
  qed
  show ?thesis
  proof
    assume "isSubdirOf child parent"
    then consider "join_slash ?C = join_slash ?P" | r where "join_slash ?C = join_slash ?P @ slash # r" using sub by blast
    then show "prefix ?P ?C"
    proof cases
      case 1
      have "?C \<noteq> []"
      proof
        assume "?C = []"
        then have "split_slash (join_slash ?P) = [[]]" using 1 by (metis join_slash.simps(1) split_slash.simps(1))
        then have "[] \<in> set ?P" using P by (metis list.set_intros(1))
        then show False using clean_parts_plain by blast
      qed
      then show ?thesis using 1 C P by (metis prefix_order.refl)
    next
      case (2 r)
      then have "?C \<noteq> []" by auto
      then have "?C = ?P @ split_slash r" using C P 2 split_slash_append by metis
      then show ?thesis by (rule prefixI)
    qed
  next
    assume "prefix ?P ?C"
    then obtain R where R: "?C = ?P @ R" by (auto elim: prefixE)
    then show "isSubdirOf child parent"
      using sub join_slash_append [OF assms(3)] by (cases "R = []") auto
  qed
qed

lemma isSubdirOf_components_witness:
  "isSubdirOf (str ''/srv/up/a/../b'') (str ''/srv/up/'') \<longleftrightarrow>
     prefix (clean_parts (str ''/srv/up/'')) (clean_parts (str ''/srv/up/a/../b''))"
proof (rule isSubdirOf_components)
  have "clean_parts (str ''/srv/up/'') = [str ''srv'', str ''up'']" by code_simp
  then show "clean_parts (str ''/srv/up/'') \<noteq> []" by simp
qed (simp_all add: str_def is_rooted_def)

text \<open>
  With the root directory as the parent the test fails for every other absolute path: the
  prefix that is looked for is then \<open>//\<close>, which no cleaned path has. Allowing uploads everywhere
  below \<open>/\<close> thus allows them only in \<open>/\<close> itself.
\<close>

lemma isSubdirOf_root_rejects:
  assumes "is_rooted child" and "clean_parts child \<noteq> []"
  shows "\<not> isSubdirOf child [slash]"
proof -
  have root: "filepath_Clean [slash] = [slash]" by code_simp
  obtain p ps where c: "clean_parts child = p # ps" using assms(2) by (cases "clean_parts child") auto
  then have p: "p \<noteq> []" "slash \<notin> set p" using clean_parts_plain [of p child] by auto
  then obtain a q where q: "p = a # q" "a \<noteq> slash" by (cases p) auto
  have "\<exists>t. join_slash (clean_parts child) = a # t" using c q(1) by (cases ps) auto
  then show ?thesis using q(2) assms(1) root by (auto simp: isSubdirOf_def filepath_Clean_def [of child] HasPrefix_def Let_def)
qed

text \<open>
  What the operating system promises: the working directory is an absolute path, and resolving the links of an absolute path gives
  an absolute path.
\<close>

definition os_paths_ok :: "os_paths \<Rightarrow> bool" where
  "os_paths_ok os \<longleftrightarrow> (\<forall>wd. os_Getwd os = Some wd \<longrightarrow> is_rooted wd) \<and>
     (\<forall>p r. os_EvalSymlinks os p = Some r \<longrightarrow> is_rooted p \<longrightarrow> is_rooted r)"

lemma Clean_rooted: "is_rooted p \<Longrightarrow> is_rooted (filepath_Clean p)"
  by (simp add: filepath_Clean_def) (simp add: is_rooted_def)

lemma Join_rooted: "is_rooted a \<Longrightarrow> is_rooted (filepath_Join a b)"
  using Clean_rooted [of "a @ slash # b"] by (auto simp: filepath_Join_def is_rooted_def)

lemma resolve_rooted:
  assumes "os_paths_ok os" and "resolveUploadPathAbs os p = Some r"
  shows "is_rooted r"
proof -
  obtain a where a: "filepath_Abs os p = Some a" and r: "r = filepath_Clean (case os_EvalSymlinks os a of None \<Rightarrow> a | Some r \<Rightarrow> r)"
    using assms(2) by (auto simp: resolveUploadPathAbs_def Let_def split: option.splits)
  have "is_rooted a"
    using a assms(1) Clean_rooted Join_rooted by (auto simp: filepath_Abs_def os_paths_ok_def split: if_splits option.splits)
  then show ?thesis using r assms(1) by (auto simp: os_paths_ok_def intro!: Clean_rooted split: option.split)
qed

lemma any_allowed_iff:
  "any_allowed os r dirs \<longleftrightarrow> (\<exists>allowed \<in> set dirs. \<exists>a. resolveUploadPathAbs os allowed = Some a \<and> isSubdirOf r a)"
  by (induction dirs) (auto split: option.split)

text \<open>
  A directory that passes the check lies, component by component, in one of the allowed directories, or in the default one when none are configured,
  after both have been resolved.
\<close>

lemma IsUploadDirAllowed_sound:
  assumes "os_paths_ok os" and "IsUploadDirAllowed os allowedUpDirs defaultDir dir"
  shows "\<exists>r allowed a. resolveUploadPathAbs os dir = Some r \<and>
    allowed \<in> set (if allowedUpDirs = [] then [defaultDir] else allowedUpDirs) \<and>
    resolveUploadPathAbs os allowed = Some a \<and> prefix (clean_parts a) (clean_parts r)"
proof -
  obtain r allowed a where r: "resolveUploadPathAbs os dir = Some r" "resolveUploadPathAbs os allowed = Some a" "isSubdirOf r a"
    "allowed \<in> set (if allowedUpDirs = [] then [defaultDir] else allowedUpDirs)"
    using assms(2) by (auto simp: IsUploadDirAllowed_def any_allowed_iff split: option.splits if_splits)
  have "prefix (clean_parts a) (clean_parts r)"
    using isSubdirOf_components [of r a] resolve_rooted [OF assms(1)] r(1-3) by (cases "clean_parts a = []") auto
  then show ?thesis using r by blast
qed

text \<open>
  Links are resolved only when the whole path exists. For a directory that is still to be made, below a link that leads out of an allowed
  directory, the check compares the unresolved path and accepts it; the directory is then made behind the link.
\<close>

definition linked_os :: os_paths where
  "linked_os = \<lparr>os_Getwd = None, os_EvalSymlinks = (\<lambda>p. if p = str ''/up/link'' then Some (str ''/etc'')
     else if p = str ''/up'' then Some p else None)\<rparr>"

lemma missing_directory_skips_links:
  "\<not> IsUploadDirAllowed linked_os [] (str ''/up'') (str ''/up/link'')" "IsUploadDirAllowed linked_os [] (str ''/up'') (str ''/up/link/new'')"
  by code_simp+

end
