(* ===== verification/Upload.thy ===== *)
theory Upload
  imports Rfbreader Session Paths
begin

text \<open>
  \<^verbatim>\<open>wsproxy/fileupload.go\<close> and \<^verbatim>\<open>wsproxy/clipboard.go\<close>: the extension messages of the browser that
  the proxy handles itself.
\<close>

section \<open>Files\<close>

text \<open>
  The part of the file system the uploads touch: names of files with the number of the file
  each stands for, directories, the contents, and the open handles. The configuration below gives the error
  a call of the operating system ends with, if it fails. A write that fails may have written the first bytes of its
  data; any other call that fails changes nothing.
\<close>

datatype os_call = OsMkdirAll | OsCreate | OsWriteAt | OsOpen | OsRead

record fs =
  fs_names :: "(bytes \<times> nat) list"
  fs_dirs :: "bytes list"
  fs_data :: "nat \<Rightarrow> bytes"
  fs_handles :: "(nat \<times> nat) list"
  fs_next :: nat

definition fs_missing :: "fs \<Rightarrow> bytes \<Rightarrow> bool" where
  "fs_missing f path \<longleftrightarrow> map_of (fs_names f) path = None \<and> path \<notin> set (fs_dirs f)"

definition os_MkdirAll :: "bytes \<Rightarrow> fs \<Rightarrow> fs" where
  "os_MkdirAll dir f = f\<lparr>fs_dirs := filepath_Clean dir # fs_dirs f\<rparr>"

text \<open>\<^verbatim>\<open>os.Create\<close>: a new file, or an existing one made empty; the handle is the next number.\<close>

definition os_Create :: "bytes \<Rightarrow> fs \<Rightarrow> nat \<times> fs" where
  "os_Create path f =
     (let h = fs_next f in
      case map_of (fs_names f) path of
        Some i \<Rightarrow> (h, f\<lparr>fs_data := (fs_data f)(i := []), fs_handles := (h, i) # fs_handles f, fs_next := h + 1\<rparr>)
      | None \<Rightarrow> (h, f\<lparr>fs_names := (path, h) # fs_names f, fs_data := (fs_data f)(h := []),
                     fs_handles := (h, h) # fs_handles f, fs_next := h + 1\<rparr>))"

definition write_at :: "bytes \<Rightarrow> nat \<Rightarrow> bytes \<Rightarrow> bytes" where
  "write_at xs off d =
     (if d = [] then xs
      else take off (xs @ replicate (off - length xs) 0) @ d @ drop (off + length d) xs)"

definition os_WriteAt :: "nat \<Rightarrow> bytes \<Rightarrow> int \<Rightarrow> fs \<Rightarrow> unit res \<times> fs" where
  "os_WriteAt h d off f =
     (if off < 0 then (Inl (Ext ''negative offset''), f)
      else case map_of (fs_handles f) h of
        None \<Rightarrow> (Inl (Ext ''file already closed''), f)
      | Some i \<Rightarrow> (Inr (), f\<lparr>fs_data := (fs_data f)(i := write_at (fs_data f i) (nat off) d)\<rparr>))"

definition os_Close :: "nat \<Rightarrow> fs \<Rightarrow> fs" where
  "os_Close h f = f\<lparr>fs_handles := AList.delete h (fs_handles f)\<rparr>"

definition os_Remove :: "bytes \<Rightarrow> fs \<Rightarrow> fs" where
  "os_Remove path f = f\<lparr>fs_names := AList.delete path (fs_names f)\<rparr>"

definition os_Open :: "bytes \<Rightarrow> fs \<Rightarrow> nat option" where
  "os_Open path f = map_of (fs_names f) path"

text \<open>\<^verbatim>\<open>hash/crc32\<close> with the IEEE polynomial, bit by bit.\<close>

definition crc_bit :: "u32 \<Rightarrow> u32" where
  "crc_bit c = (if c AND 1 \<noteq> 0 then drop_bit 1 c XOR 0xEDB88320 else drop_bit 1 c)"

definition crc_byte :: "u8 \<Rightarrow> u32 \<Rightarrow> u32" where
  "crc_byte b c = (crc_bit ^^ 8) (c XOR ucast b)"

definition crc32 :: "bytes \<Rightarrow> u32" where
  "crc32 bs = NOT (fold crc_byte bs 0xFFFFFFFF)"

section \<open>The proxy of a session\<close>

text \<open>
  The settings of the server the handlers read, what the operating system contributes, the
  text of an error (\<^verbatim>\<open>%v\<close>), and the state of the proxy: the session, the reader of the VNC
  side, the files, the messages written to the browser and the bytes written to the VNC server.
\<close>

record ProxyConfig =
  pcf_MaxUploadSize :: int
  pcf_DefaultUploadDir :: bytes
  pcf_allowedUpDirs :: "bytes list"
  pcf_os :: os_paths
  pcf_fail :: "os_call \<Rightarrow> bytes \<Rightarrow> goerr option"
  pcf_written :: "bytes \<Rightarrow> nat"
  pcf_text :: "goerr \<Rightarrow> bytes"

record Proxy =
  px_session :: Session
  px_rfbReader :: rfbReader
  px_authType :: u8
  px_fs :: fs
  px_ws :: "bytes list"
  px_tcp :: bytes

definition ExtSessionInit :: u8 where "ExtSessionInit = 128"
definition ExtClipboardSet :: u8 where "ExtClipboardSet = 129"
definition ExtClipboardUpdate :: u8 where "ExtClipboardUpdate = 130"
definition ExtUploadBegin :: u8 where "ExtUploadBegin = 131"
definition ExtUploadChunk :: u8 where "ExtUploadChunk = 132"
definition ExtUploadEnd :: u8 where "ExtUploadEnd = 133"
definition ExtUploadStatus :: u8 where "ExtUploadStatus = 134"
definition ExtUploadCancel :: u8 where "ExtUploadCancel = 135"

lemmas ext_defs = ExtSessionInit_def ExtClipboardSet_def ExtClipboardUpdate_def ExtUploadBegin_def
  ExtUploadChunk_def ExtUploadEnd_def ExtUploadStatus_def ExtUploadCancel_def

definition maxConcurrentUploads :: nat where "maxConcurrentUploads = 4"

text \<open>Writing to the browser: an error of the connection is only logged.\<close>

definition ws_write :: "bytes \<Rightarrow> Proxy \<Rightarrow> Proxy" where
  "ws_write msg p = p\<lparr>px_ws := px_ws p @ [msg]\<rparr>"

definition sendUploadStatus :: "u32 \<Rightarrow> u8 \<Rightarrow> u64 \<Rightarrow> bytes \<Rightarrow> Proxy \<Rightarrow> Proxy" where
  "sendUploadStatus uploadID status bytesWritten message =
     ws_write ([ExtUploadStatus] @ be32 (of_nat (4 + 1 + 8 + 2 + length message)) @ be32 uploadID @ [status] @
       be64 bytesWritten @ be16 (of_nat (length message)) @ message)"

definition sendUploadError :: "u32 \<Rightarrow> u64 \<Rightarrow> bytes \<Rightarrow> Proxy \<Rightarrow> Proxy" where
  "sendUploadError uploadID bytesWritten message = sendUploadStatus uploadID 1 bytesWritten message"

definition upd_session :: "(Session \<Rightarrow> Session) \<Rightarrow> Proxy \<Rightarrow> Proxy" where
  "upd_session f p = p\<lparr>px_session := f (px_session p)\<rparr>"

definition upd_fs :: "(fs \<Rightarrow> fs) \<Rightarrow> Proxy \<Rightarrow> Proxy" where
  "upd_fs f p = p\<lparr>px_fs := f (px_fs p)\<rparr>"

section \<open>Uploads\<close>

text \<open>The fields of an UploadBegin message: the directory and the name behind the fixed part.\<close>

definition begin_fields :: "bytes \<Rightarrow> (bytes \<times> bytes) option" where
  "begin_fields data =
     (let dirLen = unat (un16 (drop 17 data)); offset = 19 in
      if length data < offset + dirLen + 2 then None
      else
        let dir = take dirLen (drop offset data);
            offset = offset + dirLen;
            nameLen = unat (un16 (drop offset data));
            offset = offset + 2 in
        if length data < offset + nameLen then None
        else Some (dir, take nameLen (drop offset data)))"

definition too_large :: "u64 \<Rightarrow> int \<Rightarrow> bytes" where
  "too_large fileSize maxSize =
     str ''file too large: '' @ decimal (unat fileSize) @ str '' bytes (max '' @ decimal (nat maxSize) @ str '')''"

definition begin_upload :: "ProxyConfig \<Rightarrow> u32 \<Rightarrow> u64 \<Rightarrow> bytes \<Rightarrow> bytes \<Rightarrow> Proxy \<Rightarrow> Proxy" where
  "begin_upload cfg uploadID fileSize dir sanitized p =
     (case pcf_fail cfg OsMkdirAll dir of
        Some e \<Rightarrow> sendUploadError uploadID 0 (str ''cannot create directory: '' @ pcf_text cfg e) p
      | None \<Rightarrow>
          let p = upd_fs (os_MkdirAll dir) p;
              filePath = UniqueFilePath (fs_missing (px_fs p)) dir sanitized in
          case (if filePath \<in> set (fs_dirs (px_fs p)) then Some (Ext ''is a directory'') else pcf_fail cfg OsCreate filePath) of
            Some e \<Rightarrow> sendUploadError uploadID 0 (str ''cannot create file: '' @ pcf_text cfg e) p
          | None \<Rightarrow>
              (case os_Create filePath (px_fs p) of (h, f) \<Rightarrow>
                 let upload = \<lparr>us_ID = uploadID, us_FileName = filepath_Base filePath, us_FilePath = filePath,
                               us_FileSize = fileSize, us_BytesWritten = 0, us_File = h\<rparr> in
                 sendUploadStatus uploadID 0 0 (str ''upload started: '' @ us_FileName upload)
                   (upd_session (AddUpload upload) (p\<lparr>px_fs := f\<rparr>))))"

definition handleUploadBegin :: "ProxyConfig \<Rightarrow> bytes \<Rightarrow> Proxy \<Rightarrow> Proxy" where
  "handleUploadBegin cfg data p =
     (if length data < 19 then p
      else
        let uploadID = un32 (drop 5 data); fileSize = un64 (drop 9 data) in
        case begin_fields data of
          None \<Rightarrow> sendUploadError uploadID 0 (str ''message truncated'') p
        | Some (dir, fileName) \<Rightarrow>
            if ActiveUploadCount (px_session p) \<ge> maxConcurrentUploads
            then sendUploadError uploadID 0 (str ''too many concurrent uploads'') p
            else if sint fileSize > pcf_MaxUploadSize cfg
            then sendUploadError uploadID 0 (too_large fileSize (pcf_MaxUploadSize cfg)) p
            else
              let dir = if dir = [] then pcf_DefaultUploadDir cfg else dir in
              if \<not> IsUploadDirAllowed (pcf_os cfg) (pcf_allowedUpDirs cfg) (pcf_DefaultUploadDir cfg) dir
              then sendUploadError uploadID 0 (str ''directory not allowed'') p
              else case SanitizeFilename fileName of
                Inl e \<Rightarrow> sendUploadError uploadID 0 (str ''invalid filename: '' @ pcf_text cfg e) p
              | Inr sanitized \<Rightarrow>
                  if Contains sanitized [dot, dot]
                  then sendUploadError uploadID 0 (str ''invalid filename'') p
                  else begin_upload cfg uploadID fileSize dir sanitized p)"

text \<open>\<^verbatim>\<open>upload.BytesWritten = newTotal\<close>, through the pointer in the map.\<close>

definition set_upload :: "u32 \<Rightarrow> uploadState \<Rightarrow> Session \<Rightarrow> Session" where
  "set_upload i u s = s\<lparr>s_uploads := AList.update i u (s_uploads s)\<rparr>"

definition handleUploadChunk :: "ProxyConfig \<Rightarrow> bytes \<Rightarrow> Proxy \<Rightarrow> Proxy" where
  "handleUploadChunk cfg data p =
     (if length data < 17 then p
      else
        let uploadID = un32 (drop 5 data); fileOffset = un64 (drop 9 data); chunkData = drop 17 data in
        case GetUpload uploadID (px_session p) of
          None \<Rightarrow> sendUploadError uploadID 0 (str ''unknown upload ID'') p
        | Some upload \<Rightarrow>
            if fileOffset + of_nat (length chunkData) > us_FileSize upload
            then sendUploadError uploadID (us_BytesWritten upload) (str ''chunk exceeds declared file size'') p
            else
              let newTotal = us_BytesWritten upload + of_nat (length chunkData) in
              if sint newTotal > pcf_MaxUploadSize cfg
              then sendUploadError uploadID (us_BytesWritten upload) (str ''upload exceeds maximum size'') p
              else
                case (case pcf_fail cfg OsWriteAt (us_FilePath upload) of
                        Some e \<Rightarrow> (Inl e, snd (os_WriteAt (us_File upload) (take (pcf_written cfg (us_FilePath upload)) chunkData)
                          (sint fileOffset) (px_fs p)))
                      | None \<Rightarrow> os_WriteAt (us_File upload) chunkData (sint fileOffset) (px_fs p)) of
                  (Inl e, f) \<Rightarrow> sendUploadError uploadID (us_BytesWritten upload) (str ''write error: '' @ pcf_text cfg e) (p\<lparr>px_fs := f\<rparr>)
                | (Inr _, f) \<Rightarrow>
                    sendUploadStatus uploadID 0 newTotal []
                      (upd_session (set_upload uploadID (upload\<lparr>us_BytesWritten := newTotal\<rparr>)) (p\<lparr>px_fs := f\<rparr>)))"

text \<open>Eight hexadecimal digits, \<^verbatim>\<open>%08x\<close>.\<close>

definition hex_digit :: "nat \<Rightarrow> u8" where
  "hex_digit n = (if n < 10 then of_nat (48 + n) else of_nat (87 + n))"

definition hex8 :: "u32 \<Rightarrow> bytes" where
  "hex8 v = map (\<lambda>i. hex_digit (unat (drop_bit (4 * i) v AND 15))) (rev [0..<8])"

definition verify_upload :: "ProxyConfig \<Rightarrow> u32 \<Rightarrow> u32 \<Rightarrow> uploadState \<Rightarrow> Proxy \<Rightarrow> Proxy" where
  "verify_upload cfg uploadID expectedCRC upload p =
     (let path = us_FilePath upload; n = us_BytesWritten upload in
      case (case pcf_fail cfg OsOpen path of
              Some e \<Rightarrow> Inl e
            | None \<Rightarrow> (case os_Open path (px_fs p) of None \<Rightarrow> Inl (Ext ''no such file'') | Some i \<Rightarrow> Inr i)) of
        Inl e \<Rightarrow> sendUploadError uploadID n (str ''cannot open file for verification: '' @ pcf_text cfg e) p
      | Inr i \<Rightarrow>
          (case pcf_fail cfg OsRead path of
             Some e \<Rightarrow> sendUploadError uploadID n (str ''checksum computation error: '' @ pcf_text cfg e) p
           | None \<Rightarrow>
               let actualCRC = crc32 (fs_data (px_fs p) i) in
               if actualCRC \<noteq> expectedCRC
               then sendUploadError uploadID n
                      (str ''checksum mismatch: expected '' @ hex8 expectedCRC @ str '', got '' @ hex8 actualCRC)
                      (upd_fs (os_Remove path) p)
               else sendUploadStatus uploadID 0 n (str ''upload complete'') p))"

definition handleUploadEnd :: "ProxyConfig \<Rightarrow> bytes \<Rightarrow> Proxy \<Rightarrow> Proxy" where
  "handleUploadEnd cfg data p =
     (if length data < 13 then p
      else
        let uploadID = un32 (drop 5 data); expectedCRC = un32 (drop 9 data) in
        case RemoveUpload uploadID (px_session p) of
          (None, s) \<Rightarrow> sendUploadError uploadID 0 (str ''unknown upload ID'') p
        | (Some upload, s) \<Rightarrow>
            upd_fs (os_Close (us_File upload)) (verify_upload cfg uploadID expectedCRC upload (p\<lparr>px_session := s\<rparr>)))"

definition handleUploadCancel :: "bytes \<Rightarrow> Proxy \<Rightarrow> Proxy" where
  "handleUploadCancel data p =
     (if length data < 9 then p
      else
        let uploadID = un32 (drop 5 data) in
        case RemoveUpload uploadID (px_session p) of
          (None, s) \<Rightarrow> p
        | (Some upload, s) \<Rightarrow>
            sendUploadError uploadID (us_BytesWritten upload) (str ''cancelled'')
              (upd_fs (os_Remove (us_FilePath upload)) (upd_fs (os_Close (us_File upload)) (p\<lparr>px_session := s\<rparr>))))"

section \<open>Clipboard\<close>

text \<open>
  The lengths are added in 32 bits; the sum is widened to \<^verbatim>\<open>int\<close> only for the comparison. The
  slice takes the sum itself as its upper bound.
\<close>

definition handleClipboardSet :: "bytes \<Rightarrow> Proxy \<Rightarrow> Proxy res" where
  "handleClipboardSet data p =
     (if length data < 9 then Inr p
      else
        let payloadLen = un32 (drop 1 data) in
        if length data < unat (5 + payloadLen) then Inr p
        else
          let textLen = un32 (drop 5 data) in
          if length data < unat (9 + textLen) then Inr p
          else rbind (gslice 9 (unat (9 + textLen)) data) (\<lambda>t.
               Inr (p\<lparr>px_tcp := px_tcp p @ [6, 0, 0, 0] @ be32 (of_nat (length t)) @ t\<rparr>)))"

definition sendClipboardUpdate :: "bytes \<Rightarrow> Proxy \<Rightarrow> Proxy" where
  "sendClipboardUpdate t =
     ws_write ([ExtClipboardUpdate] @ be32 (of_nat (4 + length t)) @ be32 (of_nat (length t)) @ t)"

definition handleExtensionMessage :: "ProxyConfig \<Rightarrow> u8 \<Rightarrow> bytes \<Rightarrow> Proxy \<Rightarrow> Proxy res" where
  "handleExtensionMessage cfg msgType data p =
     (if msgType = ExtClipboardSet then handleClipboardSet data p
      else if msgType = ExtUploadBegin then Inr (handleUploadBegin cfg data p)
      else if msgType = ExtUploadChunk then Inr (handleUploadChunk cfg data p)
      else if msgType = ExtUploadEnd then Inr (handleUploadEnd cfg data p)
      else if msgType = ExtUploadCancel then Inr (handleUploadCancel data p)
      else Inr p)"

section \<open>The uploads stay within their limits\<close>

text \<open>The messages the browser sends, in the layout the handlers read.\<close>

definition enc_UploadBegin :: "u32 \<Rightarrow> u64 \<Rightarrow> bytes \<Rightarrow> bytes \<Rightarrow> bytes" where
  "enc_UploadBegin i sz dir name =
     [ExtUploadBegin] @ be32 (of_nat (4 + 8 + 2 + length dir + 2 + length name)) @ be32 i @ be64 sz @
     be16 (of_nat (length dir)) @ dir @ be16 (of_nat (length name)) @ name"

definition enc_UploadChunk :: "u32 \<Rightarrow> u64 \<Rightarrow> bytes \<Rightarrow> bytes" where
  "enc_UploadChunk i off d = [ExtUploadChunk] @ be32 (of_nat (4 + 8 + length d)) @ be32 i @ be64 off @ d"

definition enc_UploadEnd :: "u32 \<Rightarrow> u32 \<Rightarrow> bytes" where
  "enc_UploadEnd i crc = [ExtUploadEnd] @ be32 8 @ be32 i @ be32 crc"

lemma drop_be32_append: "drop (Suc (Suc (Suc (Suc n)))) (be32 v @ r) = drop n r"
  by (simp add: be32_def)

lemma enc_UploadBegin_fields:
  assumes "length dir < 65536" and "length name < 65536"
  shows "un32 (drop 5 (enc_UploadBegin i sz dir name)) = i"
    "un64 (drop 9 (enc_UploadBegin i sz dir name)) = sz"
    "begin_fields (enc_UploadBegin i sz dir name) = Some (dir, name)"
    "19 \<le> length (enc_UploadBegin i sz dir name)"
proof -
  have d: "drop 5 (enc_UploadBegin i sz dir name) = be32 i @ be64 sz @ be16 (of_nat (length dir)) @ dir @ be16 (of_nat (length name)) @ name"
    by (simp add: enc_UploadBegin_def)
  then show "un32 (drop 5 (enc_UploadBegin i sz dir name)) = i" by simp
  have "drop 9 (enc_UploadBegin i sz dir name) = drop 4 (drop 5 (enc_UploadBegin i sz dir name))" by simp
  then have d9: "drop 9 (enc_UploadBegin i sz dir name) = be64 sz @ be16 (of_nat (length dir)) @ dir @ be16 (of_nat (length name)) @ name"
    unfolding d by simp
  then show "un64 (drop 9 (enc_UploadBegin i sz dir name)) = sz" by simp
  have "drop 17 (enc_UploadBegin i sz dir name) = drop 8 (drop 9 (enc_UploadBegin i sz dir name))" by simp
  then have d17: "drop 17 (enc_UploadBegin i sz dir name) = be16 (of_nat (length dir)) @ dir @ be16 (of_nat (length name)) @ name"
    unfolding d9 by simp
  have "drop 19 (enc_UploadBegin i sz dir name) = drop 2 (drop 17 (enc_UploadBegin i sz dir name))" by simp
  then have d19: "drop 19 (enc_UploadBegin i sz dir name) = dir @ be16 (of_nat (length name)) @ name"
    unfolding d17 by simp
  have dn: "drop (19 + length dir) (enc_UploadBegin i sz dir name) = be16 (of_nat (length name)) @ name"
    using arg_cong [OF d19, of "drop (length dir)"] by (simp add: add.commute)
  have dn2: "drop (21 + length dir) (enc_UploadBegin i sz dir name) = name"
    using arg_cong [OF dn, of "drop 2"] by (simp add: add.commute add.left_commute)
  show l: "19 \<le> length (enc_UploadBegin i sz dir name)" by (simp add: enc_UploadBegin_def)
  have "length (enc_UploadBegin i sz dir name) = 19 + length dir + 2 + length name" by (simp add: enc_UploadBegin_def)
  then show "begin_fields (enc_UploadBegin i sz dir name) = Some (dir, name)"
    using assms by (simp add: begin_fields_def Let_def d17 d19 dn dn2 del: drop_drop)
qed

lemma enc_UploadChunk_fields:
  "un32 (drop 5 (enc_UploadChunk i off d)) = i" "un64 (drop 9 (enc_UploadChunk i off d)) = off"
  "drop 17 (enc_UploadChunk i off d) = d" "17 \<le> length (enc_UploadChunk i off d)"
proof -
  have a: "drop 5 (enc_UploadChunk i off d) = be32 i @ be64 off @ d" by (simp add: enc_UploadChunk_def)
  then show "un32 (drop 5 (enc_UploadChunk i off d)) = i" by simp
  have b: "drop 9 (enc_UploadChunk i off d) = be64 off @ d"
    using arg_cong [OF a, of "drop 4"] by simp
  then show "un64 (drop 9 (enc_UploadChunk i off d)) = off" by simp
  show "drop 17 (enc_UploadChunk i off d) = d" using arg_cong [OF b, of "drop 8"] by simp
  show "17 \<le> length (enc_UploadChunk i off d)" by (simp add: enc_UploadChunk_def)
qed

lemma enc_UploadEnd_fields:
  "un32 (drop 5 (enc_UploadEnd i crc)) = i" "un32 (drop 9 (enc_UploadEnd i crc)) = crc" "length (enc_UploadEnd i crc) = 13"
proof -
  have a: "drop 5 (enc_UploadEnd i crc) = be32 i @ be32 crc" by (simp add: enc_UploadEnd_def)
  then show "un32 (drop 5 (enc_UploadEnd i crc)) = i" by simp
  show "un32 (drop 9 (enc_UploadEnd i crc)) = crc" using arg_cong [OF a, of "drop 4"] by simp
  show "length (enc_UploadEnd i crc) = 13" by (simp add: enc_UploadEnd_def)
qed
text \<open>Signed reading of 64-bit words.\<close>

lemma sint_u64: "sint (w :: u64) = (if unat w < 9223372036854775808 then int (unat w) else int (unat w) - 18446744073709551616)"
proof -
  obtain n where n: "unat w = n" "uint w = int n" by (metis int_nat_eq uint_nat unat_eq_nat_uint)
  then have "n < 18446744073709551616" using unsigned_less [of w, where 'a = nat] by simp
  then have "n div 9223372036854775808 = (if n < 9223372036854775808 then 0 else 1)"
    by (auto intro: div_nat_eqI)
  then have "int n div 9223372036854775808 = (if n < 9223372036854775808 then 0 else 1)"
    using zdiv_int [of n 9223372036854775808] by (simp split: if_splits)
  moreover have "sint w = signed_take_bit 63 (int n)" using n by (simp add: sint_uint)
  ultimately show ?thesis
    using n \<open>n < 18446744073709551616\<close>
    by (simp add: signed_take_bit_eq_take_bit_minus bit_iff_odd take_bit_int_eq_self del: uint_nat)
qed

lemma sint_u64_small: "unat (w :: u64) < 9223372036854775808 \<Longrightarrow> sint w = int (unat w)"
  by (simp add: sint_u64)

lemma sint_u64_nonneg: "0 \<le> sint (w :: u64) \<Longrightarrow> unat w < 9223372036854775808"
proof -
  assume "0 \<le> sint w"
  moreover have "unat w < 18446744073709551616" using unsigned_less [of w] by simp
  ultimately show ?thesis by (simp add: sint_u64 split: if_splits)
qed

lemma unat_add_of_nat64:
  "unat (w :: u64) + n < 18446744073709551616 \<Longrightarrow> unat (w + of_nat n) = unat w + n"
  by (simp add: unat_word_ariths unat_of_nat_small)

lemma length_write_at: "length (write_at xs off d) \<le> max (length xs) (off + length d)"
  by (auto simp: write_at_def)
text \<open>
  The uploads of a session and the files. Keys are the identifiers of the uploads, there are at
  most four, each has a file of its own that is open, and no counter of written bytes exceeds the configured maximum. When all declared sizes
  are sizes in \<^verbatim>\<open>int64\<close>, the case \<open>b\<close>, no declared size and no file exceeds it either.
\<close>

definition upload_ok :: "bool \<Rightarrow> ProxyConfig \<Rightarrow> fs \<Rightarrow> u32 \<times> uploadState \<Rightarrow> bool" where
  "upload_ok b cfg f = (\<lambda>(k, u). us_ID u = k \<and> int (unat (us_BytesWritten u)) \<le> pcf_MaxUploadSize cfg \<and>
     (b \<longrightarrow> 0 \<le> sint (us_FileSize u) \<and> sint (us_FileSize u) \<le> pcf_MaxUploadSize cfg) \<and>
     (\<exists>i. map_of (fs_handles f) (us_File u) = Some i \<and> (b \<longrightarrow> int (length (fs_data f i)) \<le> pcf_MaxUploadSize cfg)))"

definition uploads_ok :: "bool \<Rightarrow> ProxyConfig \<Rightarrow> Session \<Rightarrow> fs \<Rightarrow> bool" where
  "uploads_ok b cfg s f \<longleftrightarrow> distinct (map fst (s_uploads s)) \<and> distinct (map (us_File \<circ> snd) (s_uploads s)) \<and>
     length (s_uploads s) \<le> maxConcurrentUploads \<and> (\<forall>h \<in> fst ` set (fs_handles f). h < fs_next f) \<and>
     (\<forall>x \<in> set (s_uploads s). upload_ok b cfg f x)"

lemma status_frame [simp]:
  "px_session (sendUploadStatus i st n m p) = px_session p" "px_fs (sendUploadStatus i st n m p) = px_fs p"
  "px_session (sendUploadError i n m p) = px_session p" "px_fs (sendUploadError i n m p) = px_fs p"
  "px_tcp (sendUploadStatus i st n m p) = px_tcp p" "px_tcp (sendUploadError i n m p) = px_tcp p"
  by (simp_all add: sendUploadStatus_def sendUploadError_def ws_write_def)

lemma upd_frame [simp]:
  "px_session (upd_session g p) = g (px_session p)" "px_fs (upd_session g p) = px_fs p"
  "px_session (upd_fs k p) = px_session p" "px_fs (upd_fs k p) = k (px_fs p)"
  "px_ws (upd_session g p) = px_ws p" "px_ws (upd_fs k p) = px_ws p"
  by (simp_all add: upd_session_def upd_fs_def)

lemma uploads_okD:
  "uploads_ok b cfg s f \<Longrightarrow> map_of (s_uploads s) k = Some u \<Longrightarrow> upload_ok b cfg f (k, u)"
  by (auto simp: uploads_ok_def dest: map_of_SomeD)

lemma uploads_ok_new_file:
  assumes "uploads_ok b cfg s f" and "os_Create path f = (h, f')" and "0 \<le> pcf_MaxUploadSize cfg"
  shows "uploads_ok b cfg s f'" "h = fs_next f" "\<exists>i. map_of (fs_handles f') h = Some i \<and> fs_data f' i = []"
    "\<And>x. x \<in> set (s_uploads s) \<Longrightarrow> us_File (snd x) < h"
proof -
  show h: "h = fs_next f" using assms(2) by (auto simp: os_Create_def Let_def split: option.splits)
  obtain j where j: "fs_handles f' = (h, j) # fs_handles f" "fs_data f' = (fs_data f)(j := [])" "fs_next f' = h + 1"
    using assms(2) h by (auto simp: os_Create_def Let_def split: option.splits)
  then show "\<exists>i. map_of (fs_handles f') h = Some i \<and> fs_data f' i = []" by simp
  show lt: "us_File (snd x) < h" if "x \<in> set (s_uploads s)" for x
  proof -
    have "upload_ok b cfg f x" using assms(1) that by (simp add: uploads_ok_def)
    then obtain i where "map_of (fs_handles f) (us_File (snd x)) = Some i" by (auto simp: upload_ok_def)
    then have "us_File (snd x) \<in> fst ` set (fs_handles f)" by (metis fst_conv image_eqI map_of_SomeD)
    then show ?thesis using assms(1) h by (auto simp: uploads_ok_def)
  qed
  have "upload_ok b cfg f' x" if "x \<in> set (s_uploads s)" for x
    using assms(1,3) that lt [OF that] j by (auto simp: uploads_ok_def upload_ok_def)
  then show "uploads_ok b cfg s f'" using assms(1) j h by (auto simp: uploads_ok_def)
qed

lemma files_update:
  assumes "distinct (map (us_File \<circ> snd) m)" and "\<And>x. x \<in> set m \<Longrightarrow> us_File (snd x) \<noteq> us_File u"
  shows "distinct (map (us_File \<circ> snd) (AList.update k u m))"
  using assms
proof (induction m)
  case (Cons x m)
  obtain a b where x: "x = (a, b)" by (cases x)
  have "us_File b \<notin> (us_File \<circ> snd) ` insert (k, u) (set m)" using Cons.prems x by force
  then have "us_File b \<notin> (us_File \<circ> snd) ` set (AList.update k u m)"
    using set_update_subset [of k u m] by blast
  moreover have "distinct (map (us_File \<circ> snd) (AList.update k u m))"
    by (rule Cons.IH) (use Cons.prems in auto)
  moreover have "us_File u \<notin> (us_File \<circ> snd) ` set m" using Cons.prems(2) by force
  ultimately show ?case using x Cons.prems(1) by (simp add: comp_def)
qed simp

lemma uploads_ok_AddUpload:
  assumes "uploads_ok b cfg s f" and "length (s_uploads s) < maxConcurrentUploads" and "upload_ok b cfg f (us_ID u, u)"
    and "\<And>x. x \<in> set (s_uploads s) \<Longrightarrow> us_File (snd x) \<noteq> us_File u"
  shows "uploads_ok b cfg (AddUpload u s) f"
proof -
  have "distinct (map (us_File \<circ> snd) (s_uploads s))" using assms(1) by (simp add: uploads_ok_def)
  then have "distinct (map (us_File \<circ> snd) (s_uploads (AddUpload u s)))"
    using files_update [OF _ assms(4)] by (simp add: AddUpload_def)
  moreover have "distinct (map fst (s_uploads (AddUpload u s)))"
    using assms(1) by (simp add: uploads_ok_def AddUpload_def distinct_update)
  moreover have "length (s_uploads (AddUpload u s)) \<le> maxConcurrentUploads"
    using assms(2) by (simp add: AddUpload_def length_update_key)
  moreover have "\<forall>x \<in> set (s_uploads (AddUpload u s)). upload_ok b cfg f x"
    using assms(1,3) set_update_subset [of "us_ID u" u "s_uploads s"] by (auto simp: uploads_ok_def AddUpload_def)
  ultimately show ?thesis using assms(1) by (simp add: uploads_ok_def)
qed
lemma uploads_ok_RemoveUpload:
  assumes "uploads_ok b cfg s f" and "RemoveUpload i s = (Some u, s')"
  shows "uploads_ok b cfg s' f" "\<And>x. x \<in> set (s_uploads s') \<Longrightarrow> us_File (snd x) \<noteq> us_File u"
proof -
  have s': "s_uploads s' = AList.delete i (s_uploads s)" and u: "map_of (s_uploads s) i = Some u"
    using assms(2) by (auto simp: RemoveUpload_def)
  have d: "distinct (map fst (s_uploads s))" "distinct (map (us_File \<circ> snd) (s_uploads s))"
    using assms(1) by (auto simp: uploads_ok_def)
  have sub: "set (s_uploads s') \<subseteq> set (s_uploads s)" using set_delete_subset s' by simp
  have "distinct (map (us_File \<circ> snd) (AList.delete i (s_uploads s)))"
    using d(2) unfolding AList.delete_eq by (rule distinct_map_filter)
  then show "uploads_ok b cfg s' f"
    using assms(1) s' sub length_delete_key [OF d(1) u] by (auto simp: uploads_ok_def distinct_delete)
  show "us_File (snd x) \<noteq> us_File u" if "x \<in> set (s_uploads s')" for x
  proof
    assume "us_File (snd x) = us_File u"
    moreover have "x \<in> set (s_uploads s)" "(i, u) \<in> set (s_uploads s)" using sub that u by (auto dest: map_of_SomeD)
    ultimately have "x = (i, u)" using d(2) by (auto simp: distinct_map inj_on_def)
    then show False using that s' by (auto simp: AList.delete_eq)
  qed
qed

lemma uploads_ok_Close:
  assumes "uploads_ok b cfg s f" and "\<And>x. x \<in> set (s_uploads s) \<Longrightarrow> us_File (snd x) \<noteq> h"
  shows "uploads_ok b cfg s (os_Close h f)"
proof -
  have "upload_ok b cfg (os_Close h f) x" if "x \<in> set (s_uploads s)" for x
  proof -
    have "upload_ok b cfg f x" using assms(1) that by (simp add: uploads_ok_def)
    then show ?thesis using assms(2) [OF that] by (auto simp: upload_ok_def os_Close_def delete_conv')
  qed
  then show ?thesis
    using assms(1) set_delete_subset [of h "fs_handles f"] by (auto simp: uploads_ok_def os_Close_def)
qed

lemma uploads_ok_names [simp]:
  "uploads_ok b cfg s (os_Remove path f) = uploads_ok b cfg s f" "uploads_ok b cfg s (os_MkdirAll dir f) = uploads_ok b cfg s f"
  by (simp_all add: uploads_ok_def upload_ok_def os_Remove_def os_MkdirAll_def)

lemma uploads_ok_set_upload:
  assumes "uploads_ok b cfg s f" and "map_of (s_uploads s) i = Some u" and "us_File u' = us_File u" and "upload_ok b cfg f (i, u')"
  shows "uploads_ok b cfg (set_upload i u' s) f"
proof -
  have files: "map (us_File \<circ> snd) (AList.update i u' m) = map (us_File \<circ> snd) m" if "map_of m i = Some u" for m
    using that assms(3) by (induction m) auto
  have "\<forall>x \<in> set (AList.update i u' (s_uploads s)). upload_ok b cfg f x"
    using assms(1,4) set_update_subset [of i u' "s_uploads s"] by (auto simp: uploads_ok_def)
  then show ?thesis
    using assms(1,2) files [OF assms(2)] by (simp add: uploads_ok_def set_upload_def distinct_update length_update_key)
qed

text \<open>A write, complete or not, leaves files within the maximum when the whole data would.\<close>

lemma uploads_ok_write:
  assumes "uploads_ok b cfg s f" and "map_of (s_uploads s) i = Some u"
    and "b \<Longrightarrow> 0 \<le> off \<Longrightarrow> off + int (length d) \<le> pcf_MaxUploadSize cfg"
  shows "uploads_ok b cfg s (snd (os_WriteAt (us_File u) d off f))"
proof (cases "off < 0")
  case False
  have "upload_ok b cfg f (i, u)" using uploads_okD [OF assms(1,2)] .
  then obtain j where j: "map_of (fs_handles f) (us_File u) = Some j" "b \<longrightarrow> int (length (fs_data f j)) \<le> pcf_MaxUploadSize cfg"
    by (auto simp: upload_ok_def)
  have len: "int (length (write_at (fs_data f j) (nat off) d)) \<le> pcf_MaxUploadSize cfg" if b
    using length_write_at [of "fs_data f j" "nat off" d] False assms(3) j(2) that by simp
  have f': "snd (os_WriteAt (us_File u) d off f) = f\<lparr>fs_data := (fs_data f)(j := write_at (fs_data f j) (nat off) d)\<rparr>"
    using False j(1) by (simp add: os_WriteAt_def)
  have "upload_ok b cfg (snd (os_WriteAt (us_File u) d off f)) x" if "x \<in> set (s_uploads s)" for x
  proof -
    obtain k w where x: "x = (k, w)" by (cases x)
    have "upload_ok b cfg f (k, w)" using assms(1) that x by (simp add: uploads_ok_def)
    then obtain i' where "map_of (fs_handles f) (us_File w) = Some i'" "b \<longrightarrow> int (length (fs_data f i')) \<le> pcf_MaxUploadSize cfg"
      by (auto simp: upload_ok_def)
    then have "\<exists>i'. map_of (fs_handles (snd (os_WriteAt (us_File u) d off f))) (us_File w) = Some i' \<and>
        (b \<longrightarrow> int (length (fs_data (snd (os_WriteAt (us_File u) d off f)) i')) \<le> pcf_MaxUploadSize cfg)"
      using len by (intro exI [of _ i']) (simp add: f')
    then show ?thesis using \<open>upload_ok b cfg f (k, w)\<close> by (simp add: x upload_ok_def)
  qed
  then show ?thesis using assms(1) f' by (simp add: uploads_ok_def)
qed (use assms(1) in \<open>simp add: os_WriteAt_def\<close>)

abbreviation proxy_ok :: "bool \<Rightarrow> ProxyConfig \<Rightarrow> Proxy \<Rightarrow> bool" where
  "proxy_ok b cfg p \<equiv> uploads_ok b cfg (px_session p) (px_fs p)"

lemma chunk_total_small:
  assumes "unat (b :: u64) + n < 9223372036854775808"
  shows "unat (b + of_nat n) = unat b + n" "sint (b + of_nat n) = int (unat b + n)"
  using assms unat_add_of_nat64 [of b n] sint_u64_small [of "b + of_nat n"] by simp_all

text \<open>The ways a handler ends: without effect, with an error status, with part of the data written, or with the work done.\<close>

lemma handleUploadChunk_cases:
  assumes "i = un32 (drop 5 data)" and "off = un64 (drop 9 data)" and "d = drop 17 data"
    and "P p" and "\<And>n m. P (sendUploadError i n m p)"
    and "\<And>u n m k. map_of (s_uploads (px_session p)) i = Some u \<Longrightarrow> off + of_nat (length d) \<le> us_FileSize u \<Longrightarrow>
       P (sendUploadError i n m (p\<lparr>px_fs := snd (os_WriteAt (us_File u) (take k d) (sint off) (px_fs p))\<rparr>))"
    and "\<And>u f. map_of (s_uploads (px_session p)) i = Some u \<Longrightarrow> off + of_nat (length d) \<le> us_FileSize u \<Longrightarrow>
       sint (us_BytesWritten u + of_nat (length d)) \<le> pcf_MaxUploadSize cfg \<Longrightarrow>
       os_WriteAt (us_File u) d (sint off) (px_fs p) = (Inr (), f) \<Longrightarrow>
       P (sendUploadStatus i 0 (us_BytesWritten u + of_nat (length d)) []
         (upd_session (set_upload i (u\<lparr>us_BytesWritten := us_BytesWritten u + of_nat (length d)\<rparr>)) (p\<lparr>px_fs := f\<rparr>)))"
  shows "P (handleUploadChunk cfg data p)"
proof -
  have whole: "P (sendUploadError i n m (p\<lparr>px_fs := f\<rparr>))" if "map_of (s_uploads (px_session p)) i = Some u"
    "off + of_nat (length d) \<le> us_FileSize u" "os_WriteAt (us_File u) d (sint off) (px_fs p) = (r, f)" for u n m r f
    using assms(6) [OF that(1,2), of n m "length d"] that(3) by simp
  show ?thesis
    using assms(4-7) whole unfolding handleUploadChunk_def GetUpload_def Let_def assms(1-3) [symmetric]
    by (simp add: not_less split: option.split sum.split prod.split)
qed

lemma proxy_ok_Chunk:
  assumes ok: "proxy_ok b cfg p" and len: "pcf_MaxUploadSize cfg + int (length data) < 9223372036854775808" and max: "0 \<le> pcf_MaxUploadSize cfg"
  shows "proxy_ok b cfg (handleUploadChunk cfg data p)"
proof -
  define i where "i = un32 (drop 5 data)"
  define off where "off = un64 (drop 9 data)"
  define d where "d = drop 17 data"
  have d: "length d \<le> length data" by (simp add: d_def)
  have small: "sint off + int (length d) \<le> pcf_MaxUploadSize cfg"
    if u: "map_of (s_uploads (px_session p)) i = Some u" and size: "off + of_nat (length d) \<le> us_FileSize u" and "b" "0 \<le> sint off" for u
  proof -
    have uok: "upload_ok b cfg (px_fs p) (i, u)" using uploads_okD [OF ok u] .
    have off: "unat off < 9223372036854775808" "sint off = int (unat off)"
      using that(4) sint_u64_nonneg sint_u64_small by blast+
    have "unat off + length d = unat (off + of_nat (length d))" using off d len max unat_add_of_nat64 [of off "length d"] by simp
    also have "\<dots> \<le> unat (us_FileSize u)" using size by (simp add: word_le_nat_alt)
    finally have "sint off + int (length d) \<le> int (unat (us_FileSize u))"
      by (simp only: off(2) of_nat_add [symmetric] of_nat_le_iff)
    also have "int (unat (us_FileSize u)) = sint (us_FileSize u)"
      using uok that(3) sint_u64_nonneg sint_u64_small by (auto simp: upload_ok_def)
    also have "\<dots> \<le> pcf_MaxUploadSize cfg" using uok that(3) by (auto simp: upload_ok_def)
    finally show ?thesis .
  qed
  show ?thesis
  proof (rule handleUploadChunk_cases [OF i_def off_def d_def, of "proxy_ok b cfg"])
    fix u n m k
    assume u: "map_of (s_uploads (px_session p)) i = Some u" and size: "off + of_nat (length d) \<le> us_FileSize u"
    have "sint off + int (length (take k d)) \<le> pcf_MaxUploadSize cfg" if b "0 \<le> sint off"
      using small [OF u size that] by simp
    then show "proxy_ok b cfg (sendUploadError i n m (p\<lparr>px_fs := snd (os_WriteAt (us_File u) (take k d) (sint off) (px_fs p))\<rparr>))"
      using uploads_ok_write [OF ok u] by simp
  next
    fix u f
    assume u: "map_of (s_uploads (px_session p)) i = Some u" and size: "off + of_nat (length d) \<le> us_FileSize u"
      and total: "sint (us_BytesWritten u + of_nat (length d)) \<le> pcf_MaxUploadSize cfg"
      and wr: "os_WriteAt (us_File u) d (sint off) (px_fs p) = (Inr (), f)"
    have f: "uploads_ok b cfg (px_session p) f" using uploads_ok_write [OF ok u small [OF u size]] wr by simp
    have "int (unat (us_BytesWritten u)) \<le> pcf_MaxUploadSize cfg" using uploads_okD [OF ok u] by (simp only: upload_ok_def prod.case)
    then have "int (unat (us_BytesWritten u) + length d) < 9223372036854775808" using d len by linarith
    then have "unat (us_BytesWritten u) + length d < 9223372036854775808" by linarith
    then have "int (unat (us_BytesWritten u + of_nat (length d))) \<le> pcf_MaxUploadSize cfg"
      using chunk_total_small [of "us_BytesWritten u" "length d"] total by simp
    then have "upload_ok b cfg f (i, u\<lparr>us_BytesWritten := us_BytesWritten u + of_nat (length d)\<rparr>)"
      using uploads_okD [OF f u] by (simp add: upload_ok_def)
    then show "proxy_ok b cfg (sendUploadStatus i 0 (us_BytesWritten u + of_nat (length d)) []
        (upd_session (set_upload i (u\<lparr>us_BytesWritten := us_BytesWritten u + of_nat (length d)\<rparr>)) (p\<lparr>px_fs := f\<rparr>)))"
      using uploads_ok_set_upload [OF f u] by simp
  qed (use ok in simp_all)
qed

lemma handleUploadBegin_cases:
  assumes "i = un32 (drop 5 data)" and "sz = un64 (drop 9 data)"
    and "P p" and "\<And>m. P (sendUploadError i 0 m p)"
    and "\<And>dir name n. length (s_uploads (px_session p)) < maxConcurrentUploads \<Longrightarrow> sint sz \<le> pcf_MaxUploadSize cfg \<Longrightarrow>
       dir \<noteq> [] \<or> dir = pcf_DefaultUploadDir cfg \<Longrightarrow>
       IsUploadDirAllowed (pcf_os cfg) (pcf_allowedUpDirs cfg) (pcf_DefaultUploadDir cfg) dir \<Longrightarrow> SanitizeFilename name = Inr n \<Longrightarrow>
       P (begin_upload cfg i sz dir n p)"
  shows "P (handleUploadBegin cfg data p)"
  using assms(3-5) unfolding handleUploadBegin_def ActiveUploadCount_def Let_def assms(1-2) [symmetric]
  by (simp add: not_le not_less split: option.split sum.split prod.split)

lemma proxy_ok_Begin:
  assumes ok: "proxy_ok b cfg p" and size: "b \<Longrightarrow> 0 \<le> sint (un64 (drop 9 data))" and max: "0 \<le> pcf_MaxUploadSize cfg"
  shows "proxy_ok b cfg (handleUploadBegin cfg data p)"
proof -
  define i where "i = un32 (drop 5 data)"
  define sz where "sz = un64 (drop 9 data)"
  have "proxy_ok b cfg (begin_upload cfg i sz dir n p)"
    if few: "length (s_uploads (px_session p)) < maxConcurrentUploads" and small: "sint sz \<le> pcf_MaxUploadSize cfg" for dir n
  proof (cases "pcf_fail cfg OsMkdirAll dir")
    case None
    define p' where "p' = upd_fs (os_MkdirAll dir) p"
    define path where "path = UniqueFilePath (fs_missing (px_fs p')) dir n"
    obtain h f where hf: "os_Create path (px_fs p') = (h, f)" by force
    define u where "u = \<lparr>us_ID = i, us_FileName = filepath_Base path, us_FilePath = path,
                         us_FileSize = sz, us_BytesWritten = 0, us_File = h\<rparr>"
    have ok': "uploads_ok b cfg (px_session p) (px_fs p')" using ok by (simp add: p'_def)
    note new = uploads_ok_new_file [OF ok' hf max]
    have "upload_ok b cfg f (us_ID u, u)" using new(3) size small max by (auto simp: upload_ok_def u_def sz_def)
    then have "uploads_ok b cfg (AddUpload u (px_session p)) f"
      using uploads_ok_AddUpload [OF new(1) few] new(4) by (force simp: u_def)
    then show ?thesis
      using ok' None hf unfolding begin_upload_def Let_def p'_def [symmetric] path_def [symmetric]
      by (simp add: u_def p'_def split: option.split)
  qed (use ok in \<open>simp add: begin_upload_def\<close>)
  then show ?thesis
    using handleUploadBegin_cases [OF i_def sz_def, of "proxy_ok b cfg"] ok by simp
qed

lemma uploads_ok_verify [simp]: "uploads_ok b cfg s (px_fs (verify_upload cfg' i crc u p)) = uploads_ok b cfg s (px_fs p)"
  by (simp add: verify_upload_def Let_def split: option.split)

lemma verify_session [simp]: "px_session (verify_upload cfg i crc u p) = px_session p"
  by (simp add: verify_upload_def Let_def split: option.split)

lemma proxy_ok_End:
  assumes "proxy_ok b cfg p"
  shows "proxy_ok b cfg (handleUploadEnd cfg data p)"
proof -
  obtain x s where x: "RemoveUpload (un32 (drop 5 data)) (px_session p) = (x, s)" by force
  show ?thesis
  proof (cases x)
    case (Some u)
    with x assms uploads_ok_RemoveUpload [of b cfg "px_session p" "px_fs p" _ u s] show ?thesis
      by (auto simp: handleUploadEnd_def Let_def intro!: uploads_ok_Close)
  qed (use x assms in \<open>simp add: handleUploadEnd_def Let_def\<close>)
qed

lemma proxy_ok_Cancel:
  assumes "proxy_ok b cfg p"
  shows "proxy_ok b cfg (handleUploadCancel data p)"
proof -
  obtain x s where x: "RemoveUpload (un32 (drop 5 data)) (px_session p) = (x, s)" by force
  show ?thesis
  proof (cases x)
    case (Some u)
    with x assms uploads_ok_RemoveUpload [of b cfg "px_session p" "px_fs p" _ u s] show ?thesis
      by (auto simp: handleUploadCancel_def Let_def intro!: uploads_ok_Close)
  qed (use x assms in \<open>simp add: handleUploadCancel_def Let_def\<close>)
qed
lemma clipboard_frame:
  "handleClipboardSet data p = Inr p' \<Longrightarrow> px_session p' = px_session p \<and> px_fs p' = px_fs p"
  by (auto simp: handleClipboardSet_def Let_def rbind_Inr_iff split: if_splits)

text \<open>
  A message that a slice can hold beside the configured maximum in \<^verbatim>\<open>int64\<close>; and a message whose declared file size, if it announces an upload, is
  a size in \<^verbatim>\<open>int64\<close>.
\<close>

definition ext_msg_ok :: "ProxyConfig \<Rightarrow> bytes \<Rightarrow> bool" where
  "ext_msg_ok cfg data \<longleftrightarrow> pcf_MaxUploadSize cfg + int (length data) < 9223372036854775808"

definition declares_size :: "bytes \<Rightarrow> bool" where
  "declares_size data \<longleftrightarrow> (hd data = ExtUploadBegin \<longrightarrow> unat (un64 (drop 9 data)) < 9223372036854775808)"

lemma proxy_ok_extension:
  assumes "proxy_ok b cfg p" and "ext_msg_ok cfg data" and "b \<Longrightarrow> declares_size data" and "0 \<le> pcf_MaxUploadSize cfg"
    and "handleExtensionMessage cfg (hd data) data p = Inr p'"
  shows "proxy_ok b cfg p'"
proof -
  have "0 \<le> sint (un64 (drop 9 data))" if b "hd data = ExtUploadBegin"
    using assms(3) that by (simp add: declares_size_def sint_u64)
  then show ?thesis
    using assms(1,2,4,5) proxy_ok_Begin [of b cfg p data] proxy_ok_Chunk [of b cfg p data] proxy_ok_End [of b cfg p data]
      proxy_ok_Cancel [of b cfg p data] clipboard_frame [of data p p']
    by (auto simp: handleExtensionMessage_def ext_msg_ok_def split: if_splits)
qed

abbreviation ext_msgs :: "ProxyConfig \<Rightarrow> bytes list \<Rightarrow> Proxy \<Rightarrow> Proxy res" where
  "ext_msgs cfg \<equiv> foldM (\<lambda>data. handleExtensionMessage cfg (hd data) data)"

text \<open>
  C11: Whatever extension messages a browser sends, in any order, of any type and with any contents, and whichever calls of the operating system fail, a session
  never has more than four uploads, each keeps an open file of its own, and no counter of
  written bytes exceeds the configured maximum. If every begin message among them declares a size below
  \<open>2 ^ 63\<close>, no uploaded file exceeds the maximum either (\<open>declared_size_wraps\<close> shows the others). The maximum and the length of a message
  together are below \<open>2 ^ 63\<close>.
\<close>

theorem upload_limits_hold:
  assumes "s_uploads (px_session p) = []" and "\<forall>h \<in> fst ` set (fs_handles (px_fs p)). h < fs_next (px_fs p)"
    and "0 \<le> pcf_MaxUploadSize cfg" and "list_all (ext_msg_ok cfg) msgs"
    and "foldM (\<lambda>data. handleExtensionMessage cfg (hd data) data) msgs p = Inr p'"
  shows "ActiveUploadCount (px_session p') \<le> 4 \<and> distinct (map (us_File \<circ> snd) (s_uploads (px_session p'))) \<and>
     (\<forall>i u. GetUpload i (px_session p') = Some u \<longrightarrow>
        us_ID u = i \<and> int (unat (us_BytesWritten u)) \<le> pcf_MaxUploadSize cfg \<and>
        (\<exists>k. map_of (fs_handles (px_fs p')) (us_File u) = Some k \<and>
          (list_all declares_size msgs \<longrightarrow> int (length (fs_data (px_fs p') k)) \<le> pcf_MaxUploadSize cfg)))"
proof -
  let ?b = "list_all declares_size msgs"
  have "proxy_ok ?b cfg p" using assms(1,2) by (simp add: uploads_ok_def)
  moreover have "proxy_ok ?b cfg r" if "data \<in> set msgs" "proxy_ok ?b cfg q" "handleExtensionMessage cfg (hd data) data q = Inr r" for data q r
    using that assms(3,4) by (intro proxy_ok_extension [of ?b cfg q data r]) (auto simp: list.pred_set)
  ultimately have "proxy_ok ?b cfg p'"
    using foldM_inv [where P = "proxy_ok ?b cfg", OF assms(5)] by blast
  then show ?thesis
    using uploads_okD [of ?b cfg "px_session p'" "px_fs p'"]
    by (simp add: uploads_ok_def ActiveUploadCount_def maxConcurrentUploads_def GetUpload_def upload_ok_def)
qed

section \<open>The uploads stay in the allowed directories\<close>

text \<open>
  \<open>confined cfg path\<close>: the path is one plain name behind the components of a directory which, resolved, lies in one of the allowed
  directories (the default one when none are configured).
\<close>

definition confined :: "ProxyConfig \<Rightarrow> bytes \<Rightarrow> bool" where
  "confined cfg path \<longleftrightarrow> (\<exists>dir n r allowed a. path = (if is_rooted dir then [slash] else []) @ join_slash (clean_parts dir @ [n]) \<and>
     n \<notin> {[], [dot], [dot, dot]} \<and> slash \<notin> set n \<and>
     resolveUploadPathAbs (pcf_os cfg) dir = Some r \<and>
     allowed \<in> set (if pcf_allowedUpDirs cfg = [] then [pcf_DefaultUploadDir cfg] else pcf_allowedUpDirs cfg) \<and>
     resolveUploadPathAbs (pcf_os cfg) allowed = Some a \<and> prefix (clean_parts a) (clean_parts r))"

lemma begin_path_confined:
  assumes "os_paths_ok (pcf_os cfg)" and "dir \<noteq> []" and "SanitizeFilename name = Inr n"
    and "IsUploadDirAllowed (pcf_os cfg) (pcf_allowedUpDirs cfg) (pcf_DefaultUploadDir cfg) dir"
  shows "confined cfg (UniqueFilePath missing dir n)"
  using UniqueFilePath_parts [OF assms(2,3), of missing] IsUploadDirAllowed_sound [OF assms(1,4)]
  unfolding confined_def plain_name_def by blast

text \<open>
  What a session that began with the files \<open>f\<close> may have touched: new files, and those that had a confined name. The invariant of the session: its uploads
  have confined paths and handles of its own, these lead to files it may touch, and other names and other contents are as they were.
\<close>

definition touchable :: "ProxyConfig \<Rightarrow> fs \<Rightarrow> nat \<Rightarrow> bool" where
  "touchable cfg f k \<longleftrightarrow> fs_next f \<le> k \<or> (\<exists>path. confined cfg path \<and> os_Open path f = Some k)"

definition session_ok :: "ProxyConfig \<Rightarrow> fs \<Rightarrow> (u32 \<times> uploadState) list \<Rightarrow> fs \<Rightarrow> bool" where
  "session_ok cfg f us g \<longleftrightarrow> fs_next f \<le> fs_next g \<and>
     (\<forall>x \<in> set us. fs_next f \<le> us_File (snd x) \<and> confined cfg (us_FilePath (snd x))) \<and>
     (\<forall>h k. (h, k) \<in> set (fs_handles g) \<longrightarrow> fs_next f \<le> h \<longrightarrow> touchable cfg f k) \<and>
     (\<forall>path. os_Open path g \<noteq> os_Open path f \<longrightarrow> confined cfg path \<and> (\<forall>k. os_Open path g = Some k \<longrightarrow> fs_next f \<le> k)) \<and>
     (\<forall>k. fs_data g k \<noteq> fs_data f k \<longrightarrow> touchable cfg f k)"

lemma session_ok_uploads:
  "session_ok cfg f us g \<Longrightarrow> set vs \<subseteq> set us \<Longrightarrow> session_ok cfg f vs g"
  "session_ok cfg f us g \<Longrightarrow> set vs \<subseteq> insert x (set us) \<Longrightarrow> fs_next f \<le> us_File (snd x) \<Longrightarrow> confined cfg (us_FilePath (snd x)) \<Longrightarrow> session_ok cfg f vs g"
  by (auto simp: session_ok_def)

lemma session_ok_Close: "session_ok cfg f us g \<Longrightarrow> session_ok cfg f us (os_Close h g)"
  using set_delete_subset [of h "fs_handles g"] by (auto simp: session_ok_def os_Close_def os_Open_def)

lemma session_ok_MkdirAll: "session_ok cfg f us (os_MkdirAll dir g) = session_ok cfg f us g"
  by (simp add: session_ok_def os_MkdirAll_def os_Open_def)

lemma session_ok_Remove: "session_ok cfg f us g \<Longrightarrow> confined cfg path \<Longrightarrow> session_ok cfg f us (os_Remove path g)"
  by (auto simp: session_ok_def os_Remove_def os_Open_def delete_conv')

lemma session_ok_Create:
  assumes "session_ok cfg f us g" and "confined cfg path" and "os_Create path g = (h, g')"
  shows "session_ok cfg f us g'" and "fs_next f \<le> h"
proof -
  have n: "fs_next f \<le> fs_next g" using assms(1) by (simp add: session_ok_def)
  show "fs_next f \<le> h" using assms(3) n by (auto simp: os_Create_def Let_def split: option.splits)
  show "session_ok cfg f us g'"
  proof (cases "os_Open path g")
    case None
    then have "g' = g\<lparr>fs_names := (path, fs_next g) # fs_names g, fs_data := (fs_data g)(fs_next g := []),
        fs_handles := (fs_next g, fs_next g) # fs_handles g, fs_next := fs_next g + 1\<rparr>"
      using assms(3) by (auto simp: os_Create_def os_Open_def Let_def)
    then show ?thesis using assms(1,2) n by (auto simp: session_ok_def os_Open_def touchable_def)
  next
    case (Some i)
    have i: "touchable cfg f i"
    proof (cases "os_Open path g = os_Open path f")
      case True
      then show ?thesis using Some assms(2) by (auto simp: touchable_def)
    next
      case False
      then have "fs_next f \<le> i" using Some assms(1) unfolding session_ok_def by metis
      then show ?thesis by (simp add: touchable_def)
    qed
    have "g' = g\<lparr>fs_data := (fs_data g)(i := []), fs_handles := (fs_next g, i) # fs_handles g, fs_next := fs_next g + 1\<rparr>"
      using assms(3) Some by (auto simp: os_Create_def os_Open_def Let_def)
    then show ?thesis using assms(1) i n by (auto simp: session_ok_def os_Open_def)
  qed
qed

lemma session_ok_WriteAt:
  assumes "session_ok cfg f us g" and "fs_next f \<le> h"
  shows "session_ok cfg f us (snd (os_WriteAt h d off g))"
proof (cases "off < 0 \<or> map_of (fs_handles g) h = None")
  case False
  then obtain i where i: "map_of (fs_handles g) h = Some i" by auto
  then have "touchable cfg f i" using assms by (auto simp: session_ok_def dest: map_of_SomeD)
  then show ?thesis using False i assms(1) by (auto simp: session_ok_def os_WriteAt_def os_Open_def)
qed (use assms(1) in \<open>auto simp: os_WriteAt_def\<close>)

abbreviation proxy_confined :: "ProxyConfig \<Rightarrow> fs \<Rightarrow> Proxy \<Rightarrow> bool" where
  "proxy_confined cfg f p \<equiv> session_ok cfg f (s_uploads (px_session p)) (px_fs p)"

lemma confined_Begin:
  assumes "os_paths_ok (pcf_os cfg)" and "pcf_DefaultUploadDir cfg \<noteq> []" and ok: "proxy_confined cfg f p"
  shows "proxy_confined cfg f (handleUploadBegin cfg data p)"
proof (rule handleUploadBegin_cases [OF refl refl, where P = "proxy_confined cfg f"])
  fix dir name n
  assume dir: "dir \<noteq> [] \<or> dir = pcf_DefaultUploadDir cfg" "SanitizeFilename name = Inr n"
    "IsUploadDirAllowed (pcf_os cfg) (pcf_allowedUpDirs cfg) (pcf_DefaultUploadDir cfg) dir"
  define g where "g = os_MkdirAll dir (px_fs p)"
  define path where "path = UniqueFilePath (fs_missing g) dir n"
  have c: "confined cfg path" using begin_path_confined [OF assms(1) _ dir(2,3)] dir(1) assms(2) by (auto simp: path_def)
  have g: "session_ok cfg f (s_uploads (px_session p)) g" using ok by (simp add: g_def session_ok_MkdirAll)
  obtain h g' where hg: "os_Create path g = (h, g')" by force
  note new = session_ok_Create [OF g c hg]
  have "session_ok cfg f (AList.update i \<lparr>us_ID = i, us_FileName = filepath_Base path, us_FilePath = path, us_FileSize = sz,
      us_BytesWritten = 0, us_File = h\<rparr> (s_uploads (px_session p))) g'" for i sz
    using session_ok_uploads(2) [OF new(1) set_update_subset] new(2) c by simp
  then show "proxy_confined cfg f (begin_upload cfg (un32 (drop 5 data)) (un64 (drop 9 data)) dir n p)"
    using ok g hg unfolding begin_upload_def Let_def
    by (simp add: AddUpload_def g_def [symmetric] path_def [symmetric] split: option.split)
qed (use ok in simp_all)

lemma confined_Chunk:
  assumes ok: "proxy_confined cfg f p"
  shows "proxy_confined cfg f (handleUploadChunk cfg data p)"
proof -
  have u: "fs_next f \<le> us_File u" "confined cfg (us_FilePath u)" if "map_of (s_uploads (px_session p)) i = Some u" for i u
    using ok that by (auto simp: session_ok_def dest!: map_of_SomeD)
  show ?thesis
  proof (rule handleUploadChunk_cases [OF refl refl refl, where P = "proxy_confined cfg f"])
    fix u g
    assume m: "map_of (s_uploads (px_session p)) (un32 (drop 5 data)) = Some u"
      and w: "os_WriteAt (us_File u) (drop 17 data) (sint (un64 (drop 9 data))) (px_fs p) = (Inr (), g)"
    have "session_ok cfg f (s_uploads (px_session p)) g"
      using session_ok_WriteAt [OF ok u(1) [OF m], of "drop 17 data" "sint (un64 (drop 9 data))"] w by simp
    then show "proxy_confined cfg f (sendUploadStatus (un32 (drop 5 data)) 0 (us_BytesWritten u + of_nat (length (drop 17 data))) []
        (upd_session (set_upload (un32 (drop 5 data)) (u\<lparr>us_BytesWritten := us_BytesWritten u + of_nat (length (drop 17 data))\<rparr>)) (p\<lparr>px_fs := g\<rparr>)))"
      using u [OF m] by (auto simp: set_upload_def intro!: session_ok_uploads(2) [OF _ set_update_subset])
  qed (use ok u session_ok_WriteAt [OF ok] in auto)
qed

lemma confined_Remove:
  assumes "proxy_confined cfg f p" and "RemoveUpload i (px_session p) = (Some u, s)"
  shows "session_ok cfg f (s_uploads s) (px_fs p)" "confined cfg (us_FilePath u)"
proof -
  have "s_uploads s = AList.delete i (s_uploads (px_session p))" "map_of (s_uploads (px_session p)) i = Some u"
    using assms(2) by (auto simp: RemoveUpload_def)
  then have s: "set (s_uploads s) \<subseteq> set (s_uploads (px_session p))" and u: "(i, u) \<in> set (s_uploads (px_session p))"
    using set_delete_subset [of i "s_uploads (px_session p)"] by (auto dest: map_of_SomeD)
  show "session_ok cfg f (s_uploads s) (px_fs p)" by (rule session_ok_uploads(1) [OF assms(1) s])
  show "confined cfg (us_FilePath u)" using assms(1) u unfolding session_ok_def by force
qed

lemma confined_verify:
  "session_ok cfg f us (px_fs p) \<Longrightarrow> confined cfg (us_FilePath u) \<Longrightarrow> session_ok cfg f us (px_fs (verify_upload cfg' i crc u p))"
  by (simp add: verify_upload_def Let_def session_ok_Remove split: option.split)

lemma confined_End:
  assumes "proxy_confined cfg f p"
  shows "proxy_confined cfg f (handleUploadEnd cfg data p)"
proof -
  obtain x s where x: "RemoveUpload (un32 (drop 5 data)) (px_session p) = (x, s)" by force
  show ?thesis
  proof (cases x)
    case (Some u)
    note u = confined_Remove [OF assms x [unfolded Some]]
    show ?thesis using x assms u Some by (simp add: handleUploadEnd_def Let_def session_ok_Close confined_verify)
  qed (use x assms in \<open>simp add: handleUploadEnd_def Let_def\<close>)
qed

lemma confined_Cancel:
  assumes "proxy_confined cfg f p"
  shows "proxy_confined cfg f (handleUploadCancel data p)"
proof -
  obtain x s where x: "RemoveUpload (un32 (drop 5 data)) (px_session p) = (x, s)" by force
  show ?thesis
  proof (cases x)
    case (Some u)
    note u = confined_Remove [OF assms x [unfolded Some]]
    show ?thesis using x assms u Some by (simp add: handleUploadCancel_def Let_def session_ok_Close session_ok_Remove)
  qed (use x assms in \<open>simp add: handleUploadCancel_def Let_def\<close>)
qed

text \<open>
  C20: Uploads stay in the allowed directories. After every sequence of extension messages of a session, whatever directories, names, identifiers and
  contents they carry and whichever calls of the operating system fail, every running upload has a path that is one plain name in an allowed directory; every
  name of the file system that was made, removed or given to another file is such a path; and every file whose contents changed is new or was
  reachable by such a path before. A directory is allowed when, after its resolution by \<^verbatim>\<open>resolveUploadPathAbs\<close>, its components extend those of a configured directory, or of the default one
  when none are configured.
\<close>

theorem upload_path_confined:
  assumes "os_paths_ok (pcf_os cfg)" and "pcf_DefaultUploadDir cfg \<noteq> []"
    and "s_uploads (px_session p) = []" and "\<forall>h \<in> fst ` set (fs_handles (px_fs p)). h < fs_next (px_fs p)"
    and "foldM (\<lambda>data. handleExtensionMessage cfg (hd data) data) msgs p = Inr p'"
  shows "(\<forall>i u. GetUpload i (px_session p') = Some u \<longrightarrow> confined cfg (us_FilePath u)) \<and>
    (\<forall>path. os_Open path (px_fs p') \<noteq> os_Open path (px_fs p) \<longrightarrow> confined cfg path) \<and>
    (\<forall>k. fs_data (px_fs p') k \<noteq> fs_data (px_fs p) k \<longrightarrow>
      fs_next (px_fs p) \<le> k \<or> (\<exists>path. confined cfg path \<and> os_Open path (px_fs p) = Some k))"
proof -
  have "proxy_confined cfg (px_fs p) p" using assms(3,4) by (force simp: session_ok_def)
  moreover have "proxy_confined cfg (px_fs p) r" if "proxy_confined cfg (px_fs p) q" "handleExtensionMessage cfg t data q = Inr r" for t data q r
    using that confined_Begin [OF assms(1,2), of "px_fs p" q data] confined_Chunk [of cfg "px_fs p" q data] confined_End [of cfg "px_fs p" q data]
      confined_Cancel [of cfg "px_fs p" q data] clipboard_frame [of data q r]
    by (auto simp: handleExtensionMessage_def split: if_splits)
  ultimately have "proxy_confined cfg (px_fs p) p'"
    using foldM_inv [where P = "proxy_confined cfg (px_fs p)", OF assms(5)] by blast
  then show ?thesis by (auto simp: session_ok_def GetUpload_def touchable_def dest!: map_of_SomeD)
qed

section \<open>An upload from its first message to its last\<close>

text \<open>What has to hold for an upload to be accepted.\<close>

definition accepts :: "ProxyConfig \<Rightarrow> Proxy \<Rightarrow> u64 \<Rightarrow> bytes \<Rightarrow> bytes \<Rightarrow> bytes \<Rightarrow> bool" where
  "accepts cfg p sz dir name n \<longleftrightarrow> length dir < 65536 \<and> length name < 65536 \<and>
     ActiveUploadCount (px_session p) < maxConcurrentUploads \<and> sint sz \<le> pcf_MaxUploadSize cfg \<and> dir \<noteq> [] \<and>
     IsUploadDirAllowed (pcf_os cfg) (pcf_allowedUpDirs cfg) (pcf_DefaultUploadDir cfg) dir \<and>
     SanitizeFilename name = Inr n \<and> \<not> Contains n [dot, dot] \<and> (\<forall>c path. pcf_fail cfg c path = None)"

definition upload_path :: "Proxy \<Rightarrow> bytes \<Rightarrow> bytes \<Rightarrow> bytes" where
  "upload_path p dir n = UniqueFilePath (fs_missing (os_MkdirAll dir (px_fs p))) dir n"

definition opened :: "bytes \<Rightarrow> bytes \<Rightarrow> fs \<Rightarrow> fs" where
  "opened dir path f = f\<lparr>fs_dirs := filepath_Clean dir # fs_dirs f, fs_names := (path, fs_next f) # fs_names f,
     fs_data := (fs_data f)(fs_next f := []), fs_handles := (fs_next f, fs_next f) # fs_handles f, fs_next := fs_next f + 1\<rparr>"

definition new_upload :: "u32 \<Rightarrow> u64 \<Rightarrow> bytes \<Rightarrow> nat \<Rightarrow> uploadState" where
  "new_upload i sz path h = \<lparr>us_ID = i, us_FileName = filepath_Base path, us_FilePath = path, us_FileSize = sz,
     us_BytesWritten = 0, us_File = h\<rparr>"

lemma handleUploadBegin_accepted:
  assumes "accepts cfg p sz dir name n" and "fs_missing (os_MkdirAll dir (px_fs p)) (upload_path p dir n)"
  shows "handleUploadBegin cfg (enc_UploadBegin i sz dir name) p =
     (let u = new_upload i sz (upload_path p dir n) (fs_next (px_fs p)) in
      sendUploadStatus i 0 0 (str ''upload started: '' @ us_FileName u)
        (upd_session (AddUpload u) (p\<lparr>px_fs := opened dir (upload_path p dir n) (px_fs p)\<rparr>)))"
proof -
  have l: "length dir < 65536" "length name < 65536" using assms(1) by (simp_all add: accepts_def)
  note fields = enc_UploadBegin_fields [OF l, where i = i and sz = sz]
  have "handleUploadBegin cfg (enc_UploadBegin i sz dir name) p = begin_upload cfg i sz dir n p"
    using assms(1) fields by (simp add: handleUploadBegin_def Let_def accepts_def not_le not_less)
  also have "\<dots> = (let u = new_upload i sz (upload_path p dir n) (fs_next (px_fs p)) in
      sendUploadStatus i 0 0 (str ''upload started: '' @ us_FileName u)
        (upd_session (AddUpload u) (p\<lparr>px_fs := opened dir (upload_path p dir n) (px_fs p)\<rparr>)))"
  proof -
    have "os_Create (upload_path p dir n) (os_MkdirAll dir (px_fs p)) = (fs_next (px_fs p), opened dir (upload_path p dir n) (px_fs p))"
      using assms(2) by (simp add: os_Create_def fs_missing_def os_MkdirAll_def opened_def Let_def)
    moreover have "upload_path p dir n \<notin> set (fs_dirs (os_MkdirAll dir (px_fs p)))"
      using assms(2) by (simp add: fs_missing_def)
    ultimately show ?thesis
      using assms(1) by (simp add: begin_upload_def accepts_def Let_def upload_path_def [symmetric] new_upload_def upd_fs_def upd_session_def)
  qed
  finally show ?thesis .
qed

fun chunk_msgs :: "u32 \<Rightarrow> nat \<Rightarrow> bytes list \<Rightarrow> bytes list" where
  "chunk_msgs i off [] = []"
| "chunk_msgs i off (d # ds) = enc_UploadChunk i (of_nat off) d # chunk_msgs i (off + length d) ds"

lemma unat_of_nat64: "n < 9223372036854775808 \<Longrightarrow> unat (of_nat n :: u64) = n"
  by (simp add: unat_of_nat_small)

text \<open>The next chunk of an upload is appended to its file.\<close>

lemma handleUploadChunk_append:
  assumes "map_of (s_uploads (px_session p)) i = Some u" and "us_BytesWritten u = of_nat (length c)"
    and "map_of (fs_handles (px_fs p)) (us_File u) = Some k" and "fs_data (px_fs p) k = c"
    and "length c + length d \<le> unat (us_FileSize u)" and "int (length c + length d) \<le> pcf_MaxUploadSize cfg"
    and "length c + length d < 9223372036854775808" and "\<forall>c path. pcf_fail cfg c path = None"
  shows "handleUploadChunk cfg (enc_UploadChunk i (of_nat (length c)) d) p =
     sendUploadStatus i 0 (of_nat (length (c @ d))) []
       (upd_session (set_upload i (u\<lparr>us_BytesWritten := of_nat (length (c @ d))\<rparr>))
         (p\<lparr>px_fs := (px_fs p)\<lparr>fs_data := (fs_data (px_fs p))(k := c @ d)\<rparr>\<rparr>))"
proof -
  have t: "unat (of_nat (length c) + of_nat (length d) :: u64) = length c + length d"
    using unat_of_nat64 [OF assms(7)] by simp
  then have "\<not> us_FileSize u < of_nat (length c) + of_nat (length d)" using assms(5) by (simp add: word_less_nat_alt)
  moreover have "sint (of_nat (length c) + of_nat (length d) :: u64) = int (length c + length d)"
    using sint_u64_small [of "of_nat (length c) + of_nat (length d)"] t assms(7) by simp
  moreover have "sint (of_nat (length c) :: u64) = int (length c)"
    using sint_u64_small [of "of_nat (length c)"] unat_of_nat64 [of "length c"] assms(7) by simp
  moreover have "\<not> length (enc_UploadChunk i (of_nat (length c)) d) < 17" using enc_UploadChunk_fields(4) by (simp add: not_less)
  moreover have "write_at c (length c) d = c @ d" by (simp add: write_at_def)
  ultimately show ?thesis
    using assms(1-4,6,8) by (simp add: handleUploadChunk_def enc_UploadChunk_fields Let_def GetUpload_def os_WriteAt_def)
qed
lemma ext_dispatch [simp]:
  "handleExtensionMessage cfg (hd (enc_UploadBegin i sz dir name)) data p = Inr (handleUploadBegin cfg data p)"
  "handleExtensionMessage cfg (hd (enc_UploadChunk i off d)) data p = Inr (handleUploadChunk cfg data p)"
  "handleExtensionMessage cfg (hd (enc_UploadEnd i crc)) data p = Inr (handleUploadEnd cfg data p)"
  by (simp_all add: handleExtensionMessage_def enc_UploadBegin_def enc_UploadChunk_def enc_UploadEnd_def ext_defs)

lemma upload_chunks:
  assumes "map_of (s_uploads (px_session p)) i = Some u" and "us_BytesWritten u = of_nat (length c)"
    and "map_of (fs_handles (px_fs p)) (us_File u) = Some k" and "fs_data (px_fs p) k = c"
    and "length (c @ concat ds) \<le> unat (us_FileSize u)" and "int (length (c @ concat ds)) \<le> pcf_MaxUploadSize cfg"
    and "length (c @ concat ds) < 9223372036854775808" and "\<forall>c path. pcf_fail cfg c path = None"
  shows "\<exists>p'. ext_msgs cfg (chunk_msgs i (length c) ds) p = Inr p' \<and>
     map_of (s_uploads (px_session p')) i = Some (u\<lparr>us_BytesWritten := of_nat (length (c @ concat ds))\<rparr>) \<and>
     AList.delete i (s_uploads (px_session p')) = AList.delete i (s_uploads (px_session p)) \<and>
     px_fs p' = (px_fs p)\<lparr>fs_data := (fs_data (px_fs p))(k := c @ concat ds)\<rparr>"
  using assms
proof (induction ds arbitrary: p u c)
  case Nil
  then have "u\<lparr>us_BytesWritten := of_nat (length c)\<rparr> = u" "(fs_data (px_fs p))(k := c) = fs_data (px_fs p)"
    by (simp_all add: fun_upd_idem)
  then show ?case using Nil by simp
next
  case (Cons d ds)
  define u1 where "u1 = u\<lparr>us_BytesWritten := of_nat (length (c @ d))\<rparr>"
  define p1 where "p1 = sendUploadStatus i 0 (of_nat (length (c @ d))) []
       (upd_session (set_upload i u1) (p\<lparr>px_fs := (px_fs p)\<lparr>fs_data := (fs_data (px_fs p))(k := c @ d)\<rparr>\<rparr>))"
  have step: "handleUploadChunk cfg (enc_UploadChunk i (of_nat (length c)) d) p = p1"
    unfolding p1_def u1_def by (rule handleUploadChunk_append) (use Cons.prems in auto)
  have "\<exists>p'. ext_msgs cfg (chunk_msgs i (length (c @ d)) ds) p1 = Inr p' \<and>
     map_of (s_uploads (px_session p')) i = Some (u1\<lparr>us_BytesWritten := of_nat (length ((c @ d) @ concat ds))\<rparr>) \<and>
     AList.delete i (s_uploads (px_session p')) = AList.delete i (s_uploads (px_session p1)) \<and>
     px_fs p' = (px_fs p1)\<lparr>fs_data := (fs_data (px_fs p1))(k := (c @ d) @ concat ds)\<rparr>"
    by (rule Cons.IH) (use Cons.prems in \<open>auto simp: p1_def u1_def set_upload_def update_conv'\<close>)
  moreover have "ext_msgs cfg (chunk_msgs i (length c) (d # ds)) p = ext_msgs cfg (chunk_msgs i (length (c @ d)) ds) p1"
    using step by simp
  moreover have "AList.delete i (s_uploads (px_session p1)) = AList.delete i (s_uploads (px_session p))"
    by (simp add: p1_def set_upload_def delete_update_same)
  moreover have "(px_fs p1)\<lparr>fs_data := (fs_data (px_fs p1))(k := (c @ d) @ concat ds)\<rparr> =
      (px_fs p)\<lparr>fs_data := (fs_data (px_fs p))(k := c @ concat (d # ds))\<rparr>"
    by (simp add: p1_def)
  ultimately show ?case by (simp add: u1_def fun_upd_def)
qed
lemma handleUploadEnd_done:
  assumes "map_of (s_uploads (px_session p)) i = Some u" and "map_of (fs_names (px_fs p)) (us_FilePath u) = Some k"
    and "\<forall>c path. pcf_fail cfg c path = None"
  shows "px_session (handleUploadEnd cfg (enc_UploadEnd i crc) p) = (px_session p)\<lparr>s_uploads := AList.delete i (s_uploads (px_session p))\<rparr>"
    and "px_fs (handleUploadEnd cfg (enc_UploadEnd i crc) p) =
       os_Close (us_File u) (if crc32 (fs_data (px_fs p) k) = crc then px_fs p else os_Remove (us_FilePath u) (px_fs p))"
    and "crc32 (fs_data (px_fs p) k) = crc \<Longrightarrow> px_ws (handleUploadEnd cfg (enc_UploadEnd i crc) p) =
       px_ws p @ [[ExtUploadStatus] @ be32 30 @ be32 i @ [0] @ be64 (us_BytesWritten u) @ be16 15 @ str ''upload complete'']"
  using assms
  by (simp_all add: handleUploadEnd_def enc_UploadEnd_fields Let_def RemoveUpload_def verify_upload_def os_Open_def
      sendUploadStatus_def ws_write_def str_def)

text \<open>Numbers of files and handles are given out in order.\<close>

definition fs_ok :: "fs \<Rightarrow> bool" where
  "fs_ok f \<longleftrightarrow> (\<forall>x \<in> set (fs_names f). snd x < fs_next f) \<and> (\<forall>x \<in> set (fs_handles f). fst x < fs_next f)"

text \<open>The state behind the three phases of an upload: its file, and everything else as before.\<close>

lemma upload_run:
  assumes "accepts cfg p (of_nat (length D)) dir name n" and "path = upload_path p dir n"
    and "fs_missing (os_MkdirAll dir (px_fs p)) path" and "fs_ok (px_fs p)" and "GetUpload i (px_session p) = None"
    and "int (length D) \<le> pcf_MaxUploadSize cfg" and "length D < 9223372036854775808" and "D = concat ds" and "h = fs_next (px_fs p)"
  shows "\<exists>p'. ext_msgs cfg (enc_UploadBegin i (of_nat (length D)) dir name # chunk_msgs i 0 ds @ [enc_UploadEnd i crc]) p = Inr p' \<and>
     s_uploads (px_session p') = s_uploads (px_session p) \<and> fs_handles (px_fs p') = fs_handles (px_fs p) \<and>
     fs_data (px_fs p') = (fs_data (px_fs p))(h := D) \<and>
     fs_names (px_fs p') = (if crc32 D = crc then (path, h) # fs_names (px_fs p) else AList.delete path (fs_names (px_fs p))) \<and>
     (crc32 D = crc \<longrightarrow> last (px_ws p') =
        [ExtUploadStatus] @ be32 30 @ be32 i @ [0] @ be64 (of_nat (length D)) @ be16 15 @ str ''upload complete'')"
proof -
  define u where "u = new_upload i (of_nat (length D)) path h"
  define p1 where "p1 = sendUploadStatus i 0 0 (str ''upload started: '' @ us_FileName u)
        (upd_session (AddUpload u) (p\<lparr>px_fs := opened dir path (px_fs p)\<rparr>))"
  have nofail: "\<forall>c path. pcf_fail cfg c path = None" using assms(1) by (simp add: accepts_def)
  have b: "handleUploadBegin cfg (enc_UploadBegin i (of_nat (length D)) dir name) p = p1"
    using handleUploadBegin_accepted [OF assms(1) assms(3) [unfolded assms(2)]]
    by (simp add: p1_def u_def assms(9) Let_def assms(2) new_upload_def)
  have p1: "s_uploads (px_session p1) = AList.update i u (s_uploads (px_session p))" "px_fs p1 = opened dir path (px_fs p)"
    by (simp_all add: p1_def AddUpload_def u_def new_upload_def)
  have "\<exists>p2. ext_msgs cfg (chunk_msgs i (length ([] :: bytes)) ds) p1 = Inr p2 \<and>
     map_of (s_uploads (px_session p2)) i = Some (u\<lparr>us_BytesWritten := of_nat (length ([] @ concat ds))\<rparr>) \<and>
     AList.delete i (s_uploads (px_session p2)) = AList.delete i (s_uploads (px_session p1)) \<and>
     px_fs p2 = (px_fs p1)\<lparr>fs_data := (fs_data (px_fs p1))(h := [] @ concat ds)\<rparr>"
    by (rule upload_chunks [where u = u and c = "[]"])
      (use assms(6-9) nofail in \<open>simp_all add: p1 update_conv' u_def new_upload_def opened_def unat_of_nat64\<close>)
  then obtain p2 where c: "ext_msgs cfg (chunk_msgs i 0 ds) p1 = Inr p2"
      "map_of (s_uploads (px_session p2)) i = Some (u\<lparr>us_BytesWritten := of_nat (length D)\<rparr>)"
      "AList.delete i (s_uploads (px_session p2)) = AList.delete i (s_uploads (px_session p1))"
      "px_fs p2 = (opened dir path (px_fs p))\<lparr>fs_data := (fs_data (opened dir path (px_fs p)))(h := D)\<rparr>"
    by (auto simp: assms(8) p1)
  have nm: "map_of (fs_names (px_fs p2)) (us_FilePath (u\<lparr>us_BytesWritten := of_nat (length D)\<rparr>)) = Some h"
    by (simp add: c(4) opened_def u_def new_upload_def assms(9))
  note e = handleUploadEnd_done [OF c(2) nm nofail, of crc]
  have "i \<notin> fst ` set (s_uploads (px_session p))" using assms(5) by (simp add: GetUpload_def map_of_eq_None_iff)
  then have ups: "s_uploads (px_session (handleUploadEnd cfg (enc_UploadEnd i crc) p2)) = s_uploads (px_session p)"
    using e(1) c(3) p1(1) by (simp add: delete_update_same)
  have "AList.delete h (fs_handles (px_fs p)) = fs_handles (px_fs p)"
    using assms(4) by (intro delete_id) (auto simp: fs_ok_def assms(9))
  then show ?thesis
    using b c(1) ups e(3)
    by (simp add: foldM_append e(2) c(4) os_Close_def os_Remove_def opened_def u_def new_upload_def assms(9))
qed

text \<open>
  C3: Round trip of an upload. When the proxy accepts it, the begin message, chunks that follow
  each other and the end message leave a new file at a path that was not in use before, which
  holds exactly the concatenated chunks, if the checksum of the end message is that of the
  data, and then the last status says so; otherwise the file is gone. No other file, no other
  upload and no other handle is touched, and the handle of the upload is closed.
\<close>

theorem upload_stores_file:
  assumes "accepts cfg p (of_nat (length (concat ds))) dir name n" and "path = upload_path p dir n"
    and "fs_missing (os_MkdirAll dir (px_fs p)) path" and "fs_ok (px_fs p)"
    and "GetUpload i (px_session p) = None" and "int (length (concat ds)) \<le> pcf_MaxUploadSize cfg"
    and "length (concat ds) < 9223372036854775808"
  shows "\<exists>p' k. ext_msgs cfg (enc_UploadBegin i (of_nat (length (concat ds))) dir name # chunk_msgs i 0 ds @ [enc_UploadEnd i crc]) p = Inr p' \<and>
     (if crc = crc32 (concat ds)
      then os_Open path (px_fs p') = Some k \<and> fs_data (px_fs p') k = concat ds \<and>
        last (px_ws p') = [ExtUploadStatus] @ be32 30 @ be32 i @ [0] @ be64 (of_nat (length (concat ds))) @ be16 15 @ str ''upload complete''
      else os_Open path (px_fs p') = None) \<and>
     (\<forall>q. q \<noteq> path \<longrightarrow> os_Open q (px_fs p') = os_Open q (px_fs p)) \<and>
     (\<forall>q j. os_Open q (px_fs p) = Some j \<longrightarrow> fs_data (px_fs p') j = fs_data (px_fs p) j) \<and>
     s_uploads (px_session p') = s_uploads (px_session p) \<and> fs_handles (px_fs p') = fs_handles (px_fs p)"
proof -
  let ?h = "fs_next (px_fs p)"
  obtain p' where p': "ext_msgs cfg (enc_UploadBegin i (of_nat (length (concat ds))) dir name # chunk_msgs i 0 ds @ [enc_UploadEnd i crc]) p = Inr p'"
    "s_uploads (px_session p') = s_uploads (px_session p)" "fs_handles (px_fs p') = fs_handles (px_fs p)"
    "fs_data (px_fs p') = (fs_data (px_fs p))(?h := concat ds)"
    "fs_names (px_fs p') = (if crc32 (concat ds) = crc then (path, ?h) # fs_names (px_fs p) else AList.delete path (fs_names (px_fs p)))"
    "crc32 (concat ds) = crc \<longrightarrow> last (px_ws p') =
        [ExtUploadStatus] @ be32 30 @ be32 i @ [0] @ be64 (of_nat (length (concat ds))) @ be16 15 @ str ''upload complete''"
    using upload_run [OF assms refl refl, of crc] by blast
  have "fs_data (px_fs p') j = fs_data (px_fs p) j" if "os_Open q (px_fs p) = Some j" for q j
    using that assms(4) p'(4) by (auto simp: os_Open_def fs_ok_def dest!: map_of_SomeD)
  moreover have "os_Open q (px_fs p') = os_Open q (px_fs p)" if "q \<noteq> path" for q
    using that p'(5) by (simp add: os_Open_def delete_conv')
  ultimately show ?thesis
    using p' by (intro exI [of _ p'] exI [of _ ?h]) (simp add: os_Open_def delete_conv')
qed
text \<open>A configuration and a session for the witnesses.\<close>

definition demo_cfg :: ProxyConfig where
  "demo_cfg = \<lparr>pcf_MaxUploadSize = 100, pcf_DefaultUploadDir = str ''/up'', pcf_allowedUpDirs = [],
     pcf_os = \<lparr>os_Getwd = None, os_EvalSymlinks = Some\<rparr>, pcf_fail = \<lambda>_ _. None, pcf_written = \<lambda>_. 0, pcf_text = \<lambda>_. []\<rparr>"

definition demo_fs :: fs where
  "demo_fs = \<lparr>fs_names = [], fs_dirs = [], fs_data = \<lambda>_. [], fs_handles = [], fs_next = 0\<rparr>"

definition demo_proxy :: Proxy where
  "demo_proxy = \<lparr>px_session = NewSession ''s'' 0 ''c'' ''t'' '''', px_rfbReader = newRFBReader 32 24 1, px_authType = 1,
     px_fs = demo_fs, px_ws = [], px_tcp = []\<rparr>"

lemmas demo_defs = demo_cfg_def demo_fs_def demo_proxy_def NewSession_def

lemma demo_checks:
  "IsUploadDirAllowed (pcf_os demo_cfg) (pcf_allowedUpDirs demo_cfg) (pcf_DefaultUploadDir demo_cfg) (str ''/up'')"
  "SanitizeFilename (str ''a'') = Inr (str ''a'')" "\<not> Contains (str ''a'') [dot, dot]"
  "filepath_Join (str ''/up'') (str ''a'') = str ''/up/a''" "filepath_Clean (str ''/up'') = str ''/up''"
  by code_simp+

lemma demo_accepts: "sint sz \<le> 100 \<Longrightarrow> accepts demo_cfg demo_proxy sz (str ''/up'') (str ''a'') (str ''a'')"
  using demo_checks(1-3)
  by (simp add: accepts_def ActiveUploadCount_def maxConcurrentUploads_def) (simp add: demo_defs str_def)

lemma demo_path:
  "upload_path demo_proxy (str ''/up'') (str ''a'') = str ''/up/a''"
  "fs_missing (os_MkdirAll (str ''/up'') (px_fs demo_proxy)) (str ''/up/a'')"
proof -
  show m: "fs_missing (os_MkdirAll (str ''/up'') (px_fs demo_proxy)) (str ''/up/a'')"
    using demo_checks(5) by (simp add: fs_missing_def os_MkdirAll_def demo_defs) (simp add: str_def)
  then show "upload_path demo_proxy (str ''/up'') (str ''a'') = str ''/up/a''"
    using demo_checks(4) by (simp add: upload_path_def UniqueFilePath_def)
qed

theorem upload_stores_file_witness:
  "\<exists>p' k. ext_msgs demo_cfg (enc_UploadBegin 7 3 (str ''/up'') (str ''a'') # chunk_msgs 7 0 [[1, 2], [3]] @
       [enc_UploadEnd 7 (crc32 [1, 2, 3])]) demo_proxy = Inr p' \<and>
     os_Open (str ''/up/a'') (px_fs p') = Some k \<and> fs_data (px_fs p') k = [1, 2, 3]"
proof -
  have "accepts demo_cfg demo_proxy (of_nat (length (concat [[1, 2], [3 :: u8]]))) (str ''/up'') (str ''a'') (str ''a'')"
    by (rule demo_accepts) (simp add: sint_u64)
  from upload_stores_file [OF this demo_path(1) [symmetric] demo_path(2), of 7 "crc32 [1, 2, 3]"] show ?thesis
    by (auto simp: fs_ok_def GetUpload_def demo_defs)
qed

text \<open>An upload in progress: begun, and two of its three bytes written.\<close>

definition demo_msgs :: "bytes list" where
  "demo_msgs = [enc_UploadBegin 7 3 (str ''/up'') (str ''a''), enc_UploadChunk 7 0 [1, 2]]"

lemma demo_run:
  "\<exists>p' u. ext_msgs demo_cfg demo_msgs demo_proxy = Inr p' \<and> GetUpload 7 (px_session p') = Some u \<and> us_BytesWritten u = 2 \<and> us_FilePath u = str ''/up/a'' \<and>
     us_File u = 0 \<and> px_fs p' = (opened (str ''/up'') (str ''/up/a'') demo_fs)\<lparr>fs_data := (\<lambda>_. [])(0 := [1, 2])\<rparr>"
proof -
  define u where "u = new_upload 7 3 (str ''/up/a'') 0"
  have acc: "accepts demo_cfg demo_proxy 3 (str ''/up'') (str ''a'') (str ''a'')" by (rule demo_accepts) (simp add: sint_u64)
  obtain p1 where p1: "handleUploadBegin demo_cfg (enc_UploadBegin 7 3 (str ''/up'') (str ''a'')) demo_proxy = p1"
      "s_uploads (px_session p1) = [(7, u)]" "px_fs p1 = opened (str ''/up'') (str ''/up/a'') demo_fs"
    using handleUploadBegin_accepted [OF acc, of 7] demo_path
    by (simp add: u_def Let_def AddUpload_def new_upload_def) (simp add: demo_defs)
  have "\<exists>p'. ext_msgs demo_cfg (chunk_msgs 7 (length ([] :: bytes)) [[1, 2]]) p1 = Inr p' \<and>
     map_of (s_uploads (px_session p')) 7 = Some (u\<lparr>us_BytesWritten := of_nat (length ([] @ concat [[1, 2 :: u8]]))\<rparr>) \<and>
     AList.delete 7 (s_uploads (px_session p')) = AList.delete 7 (s_uploads (px_session p1)) \<and>
     px_fs p' = (px_fs p1)\<lparr>fs_data := (fs_data (px_fs p1))(0 := [] @ concat [[1, 2]])\<rparr>"
    by (rule upload_chunks [where u = u and c = "[]"])
      (simp_all add: p1 u_def new_upload_def opened_def demo_fs_def demo_cfg_def)
  then show ?thesis using p1 by (auto simp: demo_msgs_def GetUpload_def u_def new_upload_def opened_def demo_fs_def fun_upd_def)
qed

theorem upload_limits_hold_witness:
  "\<exists>p' u k. ext_msgs demo_cfg demo_msgs demo_proxy = Inr p' \<and> ActiveUploadCount (px_session p') \<le> 4 \<and> GetUpload 7 (px_session p') = Some u \<and>
     map_of (fs_handles (px_fs p')) (us_File u) = Some k \<and> int (length (fs_data (px_fs p') k)) \<le> pcf_MaxUploadSize demo_cfg"
proof -
  obtain p' u where r: "ext_msgs demo_cfg demo_msgs demo_proxy = Inr p'" "GetUpload 7 (px_session p') = Some u" using demo_run by blast
  have "list_all (ext_msg_ok demo_cfg) demo_msgs" "list_all declares_size demo_msgs"
    using enc_UploadBegin_fields [of "str ''/up''" "str ''a''" 7 3]
    by (simp_all add: demo_msgs_def ext_msg_ok_def declares_size_def str_def enc_UploadChunk_def ext_defs) (simp add: enc_UploadBegin_def demo_cfg_def)
  moreover have "s_uploads (px_session demo_proxy) = []" "\<forall>h \<in> fst ` set (fs_handles (px_fs demo_proxy)). h < fs_next (px_fs demo_proxy)"
    "0 \<le> pcf_MaxUploadSize demo_cfg" by (simp_all add: demo_defs)
  ultimately show ?thesis using upload_limits_hold [where p = demo_proxy and cfg = demo_cfg and msgs = demo_msgs, OF _ _ _ _ r(1)] r by blast
qed

theorem upload_path_confined_witness:
  "\<exists>p'. ext_msgs demo_cfg demo_msgs demo_proxy = Inr p' \<and> os_Open (str ''/up/a'') (px_fs p') = Some 0 \<and>
     os_Open (str ''/up/a'') (px_fs demo_proxy) = None \<and> confined demo_cfg (str ''/up/a'')"
proof -
  obtain p' where r: "ext_msgs demo_cfg demo_msgs demo_proxy = Inr p'" "os_Open (str ''/up/a'') (px_fs p') = Some 0"
    using demo_run by (auto simp: os_Open_def opened_def demo_fs_def)
  have "os_paths_ok (pcf_os demo_cfg)" "pcf_DefaultUploadDir demo_cfg \<noteq> []" "s_uploads (px_session demo_proxy) = []"
    "\<forall>h \<in> fst ` set (fs_handles (px_fs demo_proxy)). h < fs_next (px_fs demo_proxy)" "os_Open (str ''/up/a'') (px_fs demo_proxy) = None"
    by (simp_all add: os_paths_ok_def demo_defs os_Open_def) (simp add: str_def)
  then show ?thesis using upload_path_confined [where msgs = demo_msgs, OF _ _ _ _ r(1)] r by force
qed

text \<open>
  The check of the declared size reads it as a signed number, so a size of \<open>2 ^ 63\<close> or more
  passes whatever the configured maximum is; the running total counts bytes and not offsets.
  One chunk of one byte then makes a file of any length up to \<open>2 ^ 63 - 1\<close>.
\<close>

lemma declared_size_wraps:
  assumes "accepts cfg p 0 dir name n" and "path = upload_path p dir n" and "fs_missing (os_MkdirAll dir (px_fs p)) path"
    and "9223372036854775808 \<le> unat sz" and "off + 1 < 9223372036854775808" and "1 \<le> pcf_MaxUploadSize cfg"
  shows "\<exists>p' k. ext_msgs cfg [enc_UploadBegin i sz dir name, enc_UploadChunk i (of_nat off) [b]] p = Inr p' \<and>
     os_Open path (px_fs p') = Some k \<and> length (fs_data (px_fs p') k) = off + 1"
proof -
  define h where "h = fs_next (px_fs p)"
  define u where "u = new_upload i sz path h"
  have nofail: "\<forall>c path. pcf_fail cfg c path = None" using assms(1) by (simp add: accepts_def)
  have "\<not> 0 \<le> sint sz" using assms(4) sint_u64_nonneg [of sz] by linarith
  then have acc: "accepts cfg p sz dir name n" using assms(1,6) by (simp add: accepts_def)
  obtain p1 where p1: "handleUploadBegin cfg (enc_UploadBegin i sz dir name) p = p1"
      "s_uploads (px_session p1) = AList.update i u (s_uploads (px_session p))" "px_fs p1 = opened dir path (px_fs p)"
    using handleUploadBegin_accepted [OF acc assms(3) [unfolded assms(2)]]
    by (simp add: u_def h_def Let_def assms(2) AddUpload_def new_upload_def)
  have o: "unat (of_nat off :: u64) = off" "sint (of_nat off :: u64) = int off" "unat (of_nat off + 1 :: u64) = off + 1"
    using unat_of_nat64 [of off] unat_of_nat64 [of "off + 1"] sint_u64_small [of "of_nat off"] assms(5) by (simp_all add: add.commute)
  have "\<not> sz < of_nat off + 1" using o(3) assms(4,5) by (simp add: word_less_nat_alt)
  moreover have "sint (1 :: u64) = 1" by simp
  moreover have "\<not> length (enc_UploadChunk i (of_nat off) [b]) < 17" using enc_UploadChunk_fields(4) by (simp add: not_less)
  moreover have "map_of (fs_handles (opened dir path (px_fs p))) h = Some h" "fs_data (opened dir path (px_fs p)) h = []"
    by (simp_all add: opened_def h_def)
  ultimately have "\<exists>p2. handleUploadChunk cfg (enc_UploadChunk i (of_nat off) [b]) p1 = p2 \<and>
      px_fs p2 = (px_fs p1)\<lparr>fs_data := (fs_data (px_fs p1))(h := write_at [] off [b])\<rparr>"
    using p1(2,3) nofail assms(6) o(2)
    by (simp add: handleUploadChunk_def enc_UploadChunk_fields Let_def GetUpload_def update_conv' u_def new_upload_def os_WriteAt_def)
  then show ?thesis using p1(1,3) by (auto simp: os_Open_def opened_def h_def write_at_def)
qed

lemma declared_size_wraps_witness:
  "\<exists>p' k. ext_msgs demo_cfg [enc_UploadBegin 7 9223372036854775808 (str ''/up'') (str ''a''), enc_UploadChunk 7 5000 [0]] demo_proxy = Inr p' \<and>
     os_Open (str ''/up/a'') (px_fs p') = Some k \<and> pcf_MaxUploadSize demo_cfg < int (length (fs_data (px_fs p') k))"
proof -
  have "accepts demo_cfg demo_proxy 0 (str ''/up'') (str ''a'') (str ''a'')" by (rule demo_accepts) simp
  moreover have "9223372036854775808 \<le> unat (9223372036854775808 :: u64)" "1 \<le> pcf_MaxUploadSize demo_cfg"
    by (simp_all add: demo_cfg_def)
  ultimately obtain p' k where "ext_msgs demo_cfg [enc_UploadBegin 7 9223372036854775808 (str ''/up'') (str ''a''), enc_UploadChunk 7 (of_nat 5000) [0]] demo_proxy = Inr p'"
    "os_Open (str ''/up/a'') (px_fs p') = Some k" "length (fs_data (px_fs p') k) = 5000 + 1"
    using declared_size_wraps [OF _ demo_path(1) [symmetric] demo_path(2), of demo_cfg "str ''a''" 9223372036854775808 5000 7 0] by auto
  then show ?thesis by (intro exI [of _ p'] exI [of _ k]) (simp add: demo_cfg_def)
qed

text \<open>
  A begin message with the identifier of an upload that is in progress replaces that upload
  without closing its file: the handle stays open, and no later message and not even the
  cleanup at the end of the session closes it, because the session has forgotten it. The
  number of uploads does not grow, so the limit of four does not bound the open files.
\<close>

lemma duplicate_upload_leaks_handle:
  assumes "proxy_ok b cfg p" and "GetUpload i (px_session p) = Some old" and "accepts cfg p sz dir name n"
    and "fs_missing (os_MkdirAll dir (px_fs p)) (upload_path p dir n)" and "0 \<le> pcf_MaxUploadSize cfg"
    and "p' = handleUploadBegin cfg (enc_UploadBegin i sz dir name) p"
  shows "ActiveUploadCount (px_session p') = ActiveUploadCount (px_session p) \<and>
     map_of (fs_handles (px_fs p')) (us_File old) \<noteq> None \<and> us_File old \<notin> set (fst (CleanupUploads (px_session p')))"
proof -
  define h where "h = fs_next (px_fs p)"
  define u where "u = new_upload i sz (upload_path p dir n) h"
  have p': "s_uploads (px_session p') = AList.update i u (s_uploads (px_session p))" "px_fs p' = opened dir (upload_path p dir n) (px_fs p)"
    using handleUploadBegin_accepted [OF assms(3,4)] assms(6) by (simp_all add: u_def h_def Let_def AddUpload_def new_upload_def)
  have old: "map_of (s_uploads (px_session p)) i = Some old" using assms(2) by (simp add: GetUpload_def)
  obtain k where k: "map_of (fs_handles (px_fs p)) (us_File old) = Some k"
    using uploads_okD [OF assms(1) old] by (auto simp: upload_ok_def)
  then have "us_File old \<in> fst ` set (fs_handles (px_fs p))" by (metis fst_conv image_eqI map_of_SomeD)
  then have lt: "us_File old < h" using assms(1) by (auto simp: uploads_ok_def h_def)
  have "us_File (snd x) \<noteq> us_File old" if "x \<in> set (AList.delete i (s_uploads (px_session p)))" for x
    using uploads_ok_RemoveUpload(2) [OF assms(1), of i old "(px_session p)\<lparr>s_uploads := AList.delete i (s_uploads (px_session p))\<rparr>"]
      old that by (simp add: RemoveUpload_def)
  moreover have "set (AList.update i u m) \<subseteq> insert (i, u) (set (AList.delete i m))" if "distinct (map fst m)" for m
    using that by (induction m) (auto simp: delete_id)
  then have "set (s_uploads (px_session p')) \<subseteq> insert (i, u) (set (AList.delete i (s_uploads (px_session p))))"
    using assms(1) p'(1) by (simp add: uploads_ok_def)
  moreover have "us_File u \<noteq> us_File old" using lt by (simp add: u_def new_upload_def)
  ultimately have "us_File old \<notin> (us_File \<circ> snd) ` set (s_uploads (px_session p'))" by force
  then show ?thesis
    using k lt old by (simp add: p' ActiveUploadCount_def length_update_key opened_def h_def CleanupUploads_def)
qed
definition demo_upload :: Proxy where
  "demo_upload = demo_proxy\<lparr>
     px_session := (px_session demo_proxy)\<lparr>s_uploads := [(7, new_upload 7 3 (str ''/up/b'') 0)]\<rparr>,
     px_fs := demo_fs\<lparr>fs_names := [(str ''/up/b'', 0)], fs_handles := [(0, 0)], fs_next := 1\<rparr>\<rparr>"

lemma duplicate_upload_leaks_handle_witness:
  "0 \<notin> set (fst (CleanupUploads (px_session
      (handleUploadBegin demo_cfg (enc_UploadBegin 7 3 (str ''/up'') (str ''a'')) demo_upload))))"
proof -
  have ok: "proxy_ok True demo_cfg demo_upload"
    by (simp add: uploads_ok_def upload_ok_def demo_upload_def new_upload_def maxConcurrentUploads_def demo_defs sint_u64)
  have acc: "accepts demo_cfg demo_upload 3 (str ''/up'') (str ''a'') (str ''a'')"
    using demo_checks(1-3)
    by (simp add: accepts_def ActiveUploadCount_def maxConcurrentUploads_def demo_upload_def)
      (simp add: demo_cfg_def str_def sint_u64)
  have miss: "fs_missing (os_MkdirAll (str ''/up'') (px_fs demo_upload)) (str ''/up/a'')"
    using demo_checks(5) by (simp add: fs_missing_def os_MkdirAll_def demo_upload_def demo_fs_def) (simp add: str_def)
  then have "upload_path demo_upload (str ''/up'') (str ''a'') = str ''/up/a''"
    using demo_checks(4) by (simp add: upload_path_def UniqueFilePath_def)
  then have path: "fs_missing (os_MkdirAll (str ''/up'') (px_fs demo_upload)) (upload_path demo_upload (str ''/up'') (str ''a''))"
    using miss by simp
  have old: "GetUpload 7 (px_session demo_upload) = Some (new_upload 7 3 (str ''/up/b'') 0)"
    by (simp add: GetUpload_def demo_upload_def)
  have "0 \<le> pcf_MaxUploadSize demo_cfg" by (simp add: demo_cfg_def)
  from duplicate_upload_leaks_handle [OF ok old acc path this refl] show ?thesis by (simp add: new_upload_def)
qed

section \<open>Clipboard\<close>

definition enc_ClipboardSet :: "bytes \<Rightarrow> bytes" where
  "enc_ClipboardSet t = [ExtClipboardSet] @ be32 (of_nat (4 + length t)) @ be32 (of_nat (length t)) @ t"

text \<open>
  A clipboard text of the browser reaches the VNC server as the RFB message with exactly that
  text: the bytes the proxy writes are read by \<^verbatim>\<open>ReadClientCutText\<close> as the text, up to the ten
  megabytes it accepts.
\<close>

theorem clipboard_set_forwarded:
  assumes "length t + 9 < 4294967296"
  shows "\<exists>p'. handleClipboardSet (enc_ClipboardSet t) p = Inr p' \<and> px_tcp p' = px_tcp p @ MsgClientCutText # body_CutText t \<and>
     px_session p' = px_session p \<and> px_ws p' = px_ws p \<and>
     (length t \<le> 10485760 \<longrightarrow> ReadClientCutText (live (body_CutText t @ rest) out) = (Inr t, live rest out))"
proof -
  have d: "drop 1 (enc_ClipboardSet t) = be32 (of_nat (4 + length t)) @ be32 (of_nat (length t)) @ t" by (simp add: enc_ClipboardSet_def)
  have d5: "drop 5 (enc_ClipboardSet t) = be32 (of_nat (length t)) @ t" using arg_cong [OF d, of "drop 4"] by simp
  have d9: "drop 9 (enc_ClipboardSet t) = t" using arg_cong [OF d5, of "drop 4"] by simp
  have l: "length (enc_ClipboardSet t) = 9 + length t" by (simp add: enc_ClipboardSet_def)
  have w: "5 + of_nat (4 + length t) = (of_nat (9 + length t) :: u32)" "9 + of_nat (length t) = (of_nat (9 + length t) :: u32)" by simp_all
  have "unat (of_nat (9 + length t) :: u32) = 9 + length t" by (rule unat_of_nat32) (use assms in simp)
  note n = this [folded w(1)] this [folded w(2)]
  have pl: "un32 (drop 1 (enc_ClipboardSet t)) = of_nat (4 + length t)" "un32 (drop 5 (enc_ClipboardSet t)) = of_nat (length t)"
    unfolding d d5 by simp_all
  have "handleClipboardSet (enc_ClipboardSet t) p = Inr (p\<lparr>px_tcp := px_tcp p @ MsgClientCutText # body_CutText t\<rparr>)"
  proof -
    have g: "gslice 9 (9 + length t) (enc_ClipboardSet t) = Inr t" by (simp add: gslice_def l d9)
    show ?thesis
      unfolding handleClipboardSet_def Let_def pl n l g by (simp add: body_CutText_def MsgClientCutText_def)
  qed
  then show ?thesis using client_cut_text_reader.recv_body by simp
qed

theorem clipboard_set_forwarded_witness:
  "\<exists>p'. handleClipboardSet (enc_ClipboardSet (str ''hi'')) demo_proxy = Inr p' \<and> px_tcp p' = [6, 0, 0, 0, 0, 0, 0, 2, 104, 105]"
proof -
  have "length (str ''hi'') + 9 < 4294967296" by (simp add: str_def)
  from clipboard_set_forwarded [OF this, of demo_proxy] obtain p' where
    "handleClipboardSet (enc_ClipboardSet (str ''hi'')) demo_proxy = Inr p'" "px_tcp p' = px_tcp demo_proxy @ MsgClientCutText # body_CutText (str ''hi'')" by blast
  moreover have "px_tcp demo_proxy @ MsgClientCutText # body_CutText (str ''hi'') = [6, 0, 0, 0, 0, 0, 0, 2, 104, 105]"
    by (simp add: demo_proxy_def) code_simp
  ultimately show ?thesis by simp
qed

text \<open>
  The lengths of a clipboard message are added in 32 bits. A message of nine bytes whose text
  length is one of the last nine 32-bit numbers passes both checks, and the slice behind
  them is a run-time panic of the proxy, in a goroutine that recovers from none.
\<close>

lemma clipboard_length_panics:
  assumes "9 \<le> length data" and "unat (5 + un32 (drop 1 data)) \<le> length data" and "4294967287 \<le> unat (un32 (drop 5 data))"
  shows "is_panic (handleClipboardSet data p)"
proof -
  have "unat (9 + un32 (drop 5 data)) = (9 + unat (un32 (drop 5 data))) mod 4294967296" by (simp add: unat_word_ariths)
  moreover obtain y where y: "unat (un32 (drop 5 data)) = 4294967287 + y" using assms(3) le_Suc_ex by blast
  moreover have "y < 9" using unat_u32_less [of "un32 (drop 5 data)"] y by linarith
  ultimately have "unat (9 + un32 (drop 5 data)) < 9" by simp
  then show ?thesis using assms(1,2) by (simp add: handleClipboardSet_def Let_def gslice_def)
qed

lemma clipboard_length_panics_witness:
  "is_panic (handleClipboardSet [129, 0, 0, 0, 4, 255, 255, 255, 255] demo_proxy)"
proof (rule clipboard_length_panics)
  have "un32 (drop 1 [129, 0, 0, 0, 4, 255, 255, 255, 255]) = 4" "un32 (drop 5 [129, 0, 0, 0, 4, 255, 255, 255, 255]) = 4294967295"
    by code_simp+
  then show "unat (5 + un32 (drop 1 [129, 0, 0, 0, 4, 255, 255, 255, 255])) \<le> length [129, 0, 0, 0, 4, 255, 255, 255, 255 :: u8]"
    "4294967287 \<le> unat (un32 (drop 5 [129, 0, 0, 0, 4, 255, 255, 255, 255]))" by simp_all
qed simp

end
