(* ===== verification/Ratelimit.thy ===== *)
theory Ratelimit
  imports Prelude
begin

text \<open>
  \<^verbatim>\<open>wsproxy/ratelimit.go\<close>: failed authentications per address and the lockout that follows.
  Times and durations are nanoseconds; the time an operation reads from the clock is an
  argument.
\<close>

section \<open>Model\<close>

definition time_Second :: int where "time_Second = 1000000000"
definition time_Minute :: int where "time_Minute = 60 * time_Second"
definition time_Hour :: int where "time_Hour = 60 * time_Minute"

lemmas time_defs = time_Second_def time_Minute_def time_Hour_def

record RateLimitConfig =
  rc_Enabled :: bool
  rc_Window :: int
  rc_MaxAttempts :: int
  rc_LockoutDuration :: int

definition DefaultRateLimitConfig :: RateLimitConfig where
  "DefaultRateLimitConfig =
     \<lparr>rc_Enabled = True, rc_Window = 5 * time_Minute, rc_MaxAttempts = 5, rc_LockoutDuration = 30 * time_Second\<rparr>"

record RateLimiter =
  rl_config :: RateLimitConfig
  rl_failures :: "string \<rightharpoonup> int list"
  rl_stopped :: bool

definition NewRateLimiter :: "RateLimitConfig \<Rightarrow> RateLimiter" where
  "NewRateLimiter config = \<lparr>rl_config = config, rl_failures = Map.empty, rl_stopped = False\<rparr>"

fun countRecent_loop :: "int \<Rightarrow> int list \<Rightarrow> int \<Rightarrow> int" where
  "countRecent_loop cutoff [] n = n"
| "countRecent_loop cutoff (t # ts) n = countRecent_loop cutoff ts (if cutoff < t then n + 1 else n)"

definition countRecent :: "RateLimitConfig \<Rightarrow> int list \<Rightarrow> int \<Rightarrow> int" where
  "countRecent config timestamps now = countRecent_loop (now - rc_Window config) timestamps 0"

definition lockoutDuration :: "RateLimitConfig \<Rightarrow> int \<Rightarrow> int" where
  "lockoutDuration config failCount =
     (if failCount \<ge> 20 then 1 * time_Hour
      else if failCount \<ge> 10 then 5 * time_Minute
      else rc_LockoutDuration config)"

text \<open>A missing key of the map reads as the nil slice.\<close>

definition timestamps_of :: "RateLimiter \<Rightarrow> string \<Rightarrow> int list" where
  "timestamps_of rl ip = (case rl_failures rl ip of None \<Rightarrow> [] | Some ts \<Rightarrow> ts)"

definition IsAllowed :: "int \<Rightarrow> string \<Rightarrow> RateLimiter \<Rightarrow> bool" where
  "IsAllowed now ip rl =
     (let config = rl_config rl; timestamps = timestamps_of rl ip in
      if \<not> rc_Enabled config then True
      else if length timestamps = 0 then True
      else
        let count = countRecent config timestamps now in
        if count < rc_MaxAttempts config then True
        else
          let lockout = lockoutDuration config count;
              lastFailure = timestamps ! (length timestamps - 1)
          in lastFailure + lockout < now)"

definition RecordFailure :: "int \<Rightarrow> string \<Rightarrow> RateLimiter \<Rightarrow> RateLimiter" where
  "RecordFailure now ip rl =
     (if \<not> rc_Enabled (rl_config rl) then rl
      else rl\<lparr>rl_failures := (rl_failures rl)(ip \<mapsto> timestamps_of rl ip @ [now])\<rparr>)"

definition ClearFailures :: "string \<Rightarrow> RateLimiter \<Rightarrow> RateLimiter" where
  "ClearFailures ip rl =
     (if \<not> rc_Enabled (rl_config rl) then rl else rl\<lparr>rl_failures := (rl_failures rl)(ip := None)\<rparr>)"

definition RateLimiter_Stop :: "RateLimiter \<Rightarrow> RateLimiter res" where
  "RateLimiter_Stop rl =
     (if rl_stopped rl then Inl (GoPanic ''close of closed channel'') else Inr (rl\<lparr>rl_stopped := True\<rparr>))"

text \<open>The number of entries before the first one that has not expired.\<close>

fun expired_prefix :: "int \<Rightarrow> int list \<Rightarrow> nat" where
  "expired_prefix cutoff [] = 0"
| "expired_prefix cutoff (t # ts) = (if cutoff < t then 0 else 1 + expired_prefix cutoff ts)"

definition purge_entry :: "int \<Rightarrow> int list \<Rightarrow> int list option" where
  "purge_entry cutoff timestamps =
     (let valid = expired_prefix cutoff timestamps in
      if valid = length timestamps then None
      else if 0 < valid then Some (drop valid timestamps) else Some timestamps)"

text \<open>The loop over the map treats each entry on its own, so its order does not matter.\<close>

definition purgeExpired :: "int \<Rightarrow> RateLimiter \<Rightarrow> RateLimiter" where
  "purgeExpired now rl =
     (let cutoff = now - rc_Window (rl_config rl) in
      rl\<lparr>rl_failures := (\<lambda>ip. Option.bind (rl_failures rl ip) (purge_entry cutoff))\<rparr>)"

text \<open>One tick of the cleanup goroutine; it ends with \<^verbatim>\<open>Stop\<close>.\<close>

definition cleanup_tick :: "int \<Rightarrow> RateLimiter \<Rightarrow> RateLimiter" where
  "cleanup_tick now rl = (if rl_stopped rl then rl else purgeExpired now rl)"

section \<open>Counting\<close>

lemma countRecent_loop_eq: "countRecent_loop cutoff ts n = n + int (length (filter (\<lambda>t. cutoff < t) ts))"
  by (induction ts arbitrary: n) auto

lemma countRecent_eq:
  "countRecent config ts now = int (length (filter (\<lambda>t. now - rc_Window config < t) ts))"
  by (simp add: countRecent_def countRecent_loop_eq)

lemma expired_prefix_le: "expired_prefix cutoff ts \<le> length ts"
  by (induction ts) auto

lemma drop_expired: "drop (expired_prefix cutoff ts) ts = dropWhile (\<lambda>t. t \<le> cutoff) ts"
  by (induction ts) auto

lemma purge_entry_eq:
  "purge_entry cutoff ts = (let k = dropWhile (\<lambda>t. t \<le> cutoff) ts in if k = [] then None else Some k)"
proof -
  have "(expired_prefix cutoff ts = length ts) = (dropWhile (\<lambda>t. t \<le> cutoff) ts = [])"
    using expired_prefix_le [of cutoff ts] by (auto simp flip: drop_expired)
  then show ?thesis by (auto simp: purge_entry_def Let_def simp flip: drop_expired)
qed

lemma timestamps_purge:
  "timestamps_of (purgeExpired now rl) ip =
     dropWhile (\<lambda>t. t \<le> now - rc_Window (rl_config rl)) (timestamps_of rl ip)"
  by (simp add: timestamps_of_def purgeExpired_def purge_entry_eq Let_def del: dropWhile_eq_Nil_conv split: option.split)

section \<open>A specification without forgetting\<close>

text \<open>
  What an address may do, as a function of all its failures since the last success: allowed
  while fewer than the maximum lie in the window, otherwise after the lockout.
\<close>

definition allowed_spec :: "RateLimitConfig \<Rightarrow> int list \<Rightarrow> int \<Rightarrow> bool" where
  "allowed_spec config history now \<longleftrightarrow>
     (let n = int (length (filter (\<lambda>t. now - rc_Window config < t) history)) in
      \<not> rc_Enabled config \<or> n < rc_MaxAttempts config \<or> last history + lockoutDuration config n < now)"

datatype rl_event = Failed string int | Succeeded string int | Tick int

fun event_time :: "rl_event \<Rightarrow> int" where
  "event_time (Failed ip t) = t"
| "event_time (Succeeded ip t) = t"
| "event_time (Tick t) = t"

fun rl_apply :: "rl_event \<Rightarrow> RateLimiter \<Rightarrow> RateLimiter" where
  "rl_apply (Failed ip t) = RecordFailure t ip"
| "rl_apply (Succeeded ip t) = ClearFailures ip"
| "rl_apply (Tick t) = cleanup_tick t"

fun history_after :: "string \<Rightarrow> rl_event \<Rightarrow> int list \<Rightarrow> int list" where
  "history_after ip (Failed ip' t) hs = (if ip = ip' then hs @ [t] else hs)"
| "history_after ip (Succeeded ip' t) hs = (if ip = ip' then [] else hs)"
| "history_after ip (Tick t) hs = hs"

definition history :: "string \<Rightarrow> rl_event list \<Rightarrow> int list" where
  "history ip es = fold (history_after ip) es []"

text \<open>
  The limiter keeps the failures that are newer than some cutoff in the past; as failures are
  recorded in the order of time, that is all that counts now or later.
\<close>

definition remembers :: "RateLimitConfig \<Rightarrow> int \<Rightarrow> int list \<Rightarrow> int list \<Rightarrow> bool" where
  "remembers config now hs kept \<longleftrightarrow>
     sorted hs \<and> (\<forall>t \<in> set hs. t \<le> now) \<and> (\<exists>c \<le> now - rc_Window config. kept = dropWhile (\<lambda>t. t \<le> c) hs)"

lemma filter_dropWhile:
  assumes "sorted (hs :: int list)" and "c \<le> d"
  shows "filter (\<lambda>t. d < t) (dropWhile (\<lambda>t. t \<le> c) hs) = filter (\<lambda>t. d < t) hs"
  using assms by (induction hs) auto

lemma last_dropWhile:
  "dropWhile P xs \<noteq> [] \<Longrightarrow> last (dropWhile P xs) = last xs"
  by (induction xs) (auto split: if_splits)

lemma remembers_allowed:
  assumes "remembers config now hs kept" and "0 < rc_MaxAttempts config"
    and "rl_config rl = config" and "timestamps_of rl ip = kept"
  shows "IsAllowed now ip rl = allowed_spec config hs now"
proof -
  obtain c where c: "sorted hs" "c \<le> now - rc_Window config" "kept = dropWhile (\<lambda>t. t \<le> c) hs"
    using assms(1) by (auto simp: remembers_def)
  have f: "filter (\<lambda>t. now - rc_Window config < t) kept = filter (\<lambda>t. now - rc_Window config < t) hs"
    using filter_dropWhile [OF c(1,2)] c(3) by simp
  show ?thesis
  proof (cases "kept = []")
    case True
    then have "filter (\<lambda>t. now - rc_Window config < t) hs = []" using f by simp
    then show ?thesis using True assms(2-4) by (simp add: IsAllowed_def allowed_spec_def Let_def)
  next
    case False
    then have "last kept = last hs" "kept ! (length kept - 1) = last hs"
      using c(3) last_dropWhile [of _ hs] by (auto simp: last_conv_nth)
    then show ?thesis using False f assms(3,4)
      by (auto simp: IsAllowed_def allowed_spec_def Let_def countRecent_eq)
  qed
qed

lemma remembers_later:
  assumes "remembers config now hs kept" and "now \<le> now'"
  shows "remembers config now' hs kept"
proof -
  obtain c where c: "sorted hs" "\<forall>t \<in> set hs. t \<le> now" "c \<le> now - rc_Window config" "kept = dropWhile (\<lambda>t. t \<le> c) hs"
    using assms(1) by (auto simp: remembers_def)
  have "\<forall>t \<in> set hs. t \<le> now'" using c(2) assms(2) by auto
  moreover have "c \<le> now' - rc_Window config" using c(3) assms(2) by simp
  ultimately show ?thesis using c(1,4) unfolding remembers_def by blast
qed

lemma remembers_failed:
  assumes "remembers config now hs kept" and "now \<le> t" and "0 < rc_Window config"
  shows "remembers config t (hs @ [t]) (kept @ [t])"
proof -
  obtain c where c: "sorted hs" "\<forall>t \<in> set hs. t \<le> now" "c \<le> now - rc_Window config" "kept = dropWhile (\<lambda>t. t \<le> c) hs"
    using assms(1) by (auto simp: remembers_def)
  have "sorted (hs @ [t])" using c(1,2) assms(2) by (auto simp: sorted_append)
  moreover have "\<forall>u \<in> set (hs @ [t]). u \<le> t" using c(2) assms(2) by auto
  moreover have "kept @ [t] = dropWhile (\<lambda>t. t \<le> c) (hs @ [t])"
  proof -
    have "\<not> t \<le> c" using c(3) assms(2,3) by simp
    then show ?thesis using c(4) by (simp add: dropWhile_append dropWhile_eq_Nil_conv)
  qed
  moreover have "c \<le> t - rc_Window config" using c(3) assms(2) by simp
  ultimately show ?thesis unfolding remembers_def by blast
qed

lemma dropWhile_le_twice:
  "dropWhile (\<lambda>t. t \<le> d) (dropWhile (\<lambda>t. t \<le> c) xs) = dropWhile (\<lambda>t. t \<le> max c d) (xs :: int list)"
  if "sorted xs"
  using that by (induction xs) auto

lemma remembers_tick:
  assumes "remembers config now hs kept" and "now \<le> t"
  shows "remembers config t hs (dropWhile (\<lambda>u. u \<le> t - rc_Window config) kept)"
proof -
  obtain c where c: "sorted hs" "\<forall>t \<in> set hs. t \<le> now" "c \<le> now - rc_Window config" "kept = dropWhile (\<lambda>t. t \<le> c) hs"
    using assms(1) by (auto simp: remembers_def)
  have "dropWhile (\<lambda>u. u \<le> t - rc_Window config) kept = dropWhile (\<lambda>u. u \<le> max c (t - rc_Window config)) hs"
    using dropWhile_le_twice [OF c(1)] c(4) by simp
  moreover have "\<forall>u \<in> set hs. u \<le> t" using c(2) assms(2) by auto
  moreover have "max c (t - rc_Window config) \<le> t - rc_Window config" using c(3) assms(2) by simp
  ultimately show ?thesis using c(1) unfolding remembers_def by blast
qed

lemma rl_apply_config [simp]: "rl_config (rl_apply e rl) = rl_config rl"
  by (cases e) (simp_all add: RecordFailure_def ClearFailures_def cleanup_tick_def purgeExpired_def Let_def)

lemma rl_apply_remembers:
  assumes "remembers config now hs (timestamps_of rl ip)" and "rl_config rl = config"
    and "rc_Enabled config" and "0 < rc_Window config" and "now \<le> event_time e"
  shows "remembers config (event_time e) (history_after ip e hs) (timestamps_of (rl_apply e rl) ip)"
proof (cases e)
  case (Failed ip' t)
  have "timestamps_of (RecordFailure t ip' rl) ip = (if ip = ip' then timestamps_of rl ip @ [t] else timestamps_of rl ip)"
    using assms(2,3) by (simp add: RecordFailure_def timestamps_of_def)
  then show ?thesis using Failed assms remembers_failed remembers_later by auto
next
  case (Succeeded ip' t)
  have "timestamps_of (ClearFailures ip' rl) ip = (if ip = ip' then [] else timestamps_of rl ip)"
    using assms(2,3) by (simp add: ClearFailures_def timestamps_of_def)
  moreover have "remembers config t [] []" by (auto simp: remembers_def)
  ultimately show ?thesis using Succeeded assms remembers_later by auto
next
  case (Tick t)
  then show ?thesis using assms remembers_tick remembers_later
    by (simp add: cleanup_tick_def timestamps_purge)
qed

lemma rl_events_remember:
  assumes "remembers config now hs (timestamps_of rl ip)" and "rl_config rl = config" and "rc_Enabled config"
    and "0 < rc_Window config" and "sorted (now # map event_time es)"
  shows "remembers config (last (now # map event_time es)) (fold (history_after ip) es hs)
           (timestamps_of (fold rl_apply es rl) ip) \<and> rl_config (fold rl_apply es rl) = config"
  using assms
proof (induction es arbitrary: now hs rl)
  case Nil
  then show ?case by simp
next
  case (Cons e es)
  have 1: "remembers config (event_time e) (history_after ip e hs) (timestamps_of (rl_apply e rl) ip)"
    by (rule rl_apply_remembers [OF Cons.prems(1-4)]) (use Cons.prems(5) in simp)
  show ?case using Cons.IH [OF 1] Cons.prems by simp
qed

lemma history_decides:
  assumes "rc_Enabled config" and "0 < rc_Window config" and "0 < rc_MaxAttempts config"
    and "sorted (map event_time es)" and "\<forall>e \<in> set es. event_time e \<le> now"
  shows "IsAllowed now ip (fold rl_apply es (NewRateLimiter config)) = allowed_spec config (history ip es) now"
proof -
  let ?t = "case es of [] \<Rightarrow> now | e # _ \<Rightarrow> event_time e"
  have "remembers config ?t [] (timestamps_of (NewRateLimiter config) ip)"
    by (auto simp: remembers_def timestamps_of_def NewRateLimiter_def)
  moreover have "sorted (?t # map event_time es)" using assms(4) by (cases es) auto
  ultimately have r: "remembers config (last (?t # map event_time es)) (history ip es)
      (timestamps_of (fold rl_apply es (NewRateLimiter config)) ip)"
    and c: "rl_config (fold rl_apply es (NewRateLimiter config)) = config"
    using rl_events_remember [of config ?t "[]" "NewRateLimiter config" ip es] assms(1,2)
    by (auto simp: history_def NewRateLimiter_def)
  have "last (?t # map event_time es) \<le> now"
    using assms(5) by (cases es) (auto simp: last_map)
  then show ?thesis using remembers_allowed [OF remembers_later [OF r] assms(3) c refl] by simp
qed

section \<open>Properties\<close>

text \<open>
  C6: The limiter, whose cleanup goroutine keeps forgetting old failures, decides exactly as the
  specification over the whole history: after any sequence of failures, successes and cleanup
  ticks in the order of time, \<^verbatim>\<open>IsAllowed\<close> says of every address what its failures since its last
  success imply.
\<close>

theorem IsAllowed_refines_history:
  assumes "rc_Enabled config" and "0 < rc_Window config" and "0 < rc_MaxAttempts config"
    and "sorted (map event_time es)" and "\<forall>e \<in> set es. event_time e \<le> now"
  shows "IsAllowed now ip (fold rl_apply es (NewRateLimiter config)) = allowed_spec config (history ip es) now"
  by (rule history_decides [OF assms])

definition five_failures :: "rl_event list" where
  "five_failures = map (\<lambda>i. Failed ''10.0.0.1'' i) [1, 2, 3, 4, 5] @ [Tick 6]"

theorem IsAllowed_refines_history_witness:
  "IsAllowed 7 ''10.0.0.1'' (fold rl_apply five_failures (NewRateLimiter DefaultRateLimitConfig)) =
     allowed_spec DefaultRateLimitConfig (history ''10.0.0.1'' five_failures) 7"
  by (rule IsAllowed_refines_history) (simp_all add: DefaultRateLimitConfig_def time_defs five_failures_def)

text \<open>
  Lockout: after the maximum number of failures within the window an address is not allowed
  before the lockout for that many failures has passed, whatever other addresses do and
  whenever the cleanup runs.
\<close>

lemma locked_out_after_failures:
  assumes "rc_Enabled config" and "0 < rc_Window config" and "0 < rc_MaxAttempts config"
    and "sorted (map event_time es)" and "\<forall>e \<in> set es. event_time e \<le> now"
    and "n = int (length (filter (\<lambda>t. now - rc_Window config < t) (history ip es)))" and "rc_MaxAttempts config \<le> n"
    and "now \<le> last (history ip es) + lockoutDuration config n"
  shows "\<not> IsAllowed now ip (fold rl_apply es (NewRateLimiter config))"
  using history_decides [OF assms(1-5), of ip] assms(1,6-8) by (auto simp: allowed_spec_def Let_def)

lemma locked_out_after_failures_witness:
  "\<not> IsAllowed 7 ''10.0.0.1'' (fold rl_apply five_failures (NewRateLimiter DefaultRateLimitConfig))"
  by (rule locked_out_after_failures [where n = 5])
    (simp_all add: DefaultRateLimitConfig_def time_defs five_failures_def history_def lockoutDuration_def)

text \<open>
  No lockout outlasts the window: as soon as the last failure has left the window the
  address is allowed, however many failures there were. With the default configuration the
  escalation to one hour after twenty failures therefore ends after five minutes.
\<close>

lemma lockout_ends_with_window:
  assumes "0 < rc_MaxAttempts (rl_config rl)" and "\<forall>t \<in> set (timestamps_of rl ip). t + rc_Window (rl_config rl) \<le> now"
  shows "IsAllowed now ip rl"
proof -
  have "filter (\<lambda>t. now - rc_Window (rl_config rl) < t) (timestamps_of rl ip) = []"
    using assms(2) by (auto simp: filter_empty_conv)
  then show ?thesis using assms(1) by (simp add: IsAllowed_def Let_def countRecent_eq)
qed

definition twenty_failures :: RateLimiter where
  "twenty_failures = fold rl_apply (map (\<lambda>i. Failed ''10.0.0.1'' i) [1..20]) (NewRateLimiter DefaultRateLimitConfig)"

lemma twenty_failures_eq:
  "rl_config twenty_failures = DefaultRateLimitConfig" "timestamps_of twenty_failures ''10.0.0.1'' = [1..20]"
proof -
  have f: "rl_config (fold rl_apply (map (\<lambda>i. Failed ip i) ts) rl) = rl_config rl \<and>
      timestamps_of (fold rl_apply (map (\<lambda>i. Failed ip i) ts) rl) ip = timestamps_of rl ip @ ts"
    if "rc_Enabled (rl_config rl)" for ts ip rl
    using that by (induction ts arbitrary: rl) (auto simp: RecordFailure_def timestamps_of_def)
  show "rl_config twenty_failures = DefaultRateLimitConfig" "timestamps_of twenty_failures ''10.0.0.1'' = [1..20]"
    using f [of "NewRateLimiter DefaultRateLimitConfig" "''10.0.0.1''" "[1..20]"]
    by (simp_all add: twenty_failures_def NewRateLimiter_def DefaultRateLimitConfig_def timestamps_of_def)
qed

lemma lockout_ends_with_window_witness:
  "lockoutDuration DefaultRateLimitConfig 20 = time_Hour \<and>
   IsAllowed (20 + 5 * time_Minute) ''10.0.0.1'' twenty_failures"
proof
  show "lockoutDuration DefaultRateLimitConfig 20 = time_Hour" by (simp add: lockoutDuration_def)
  show "IsAllowed (20 + 5 * time_Minute) ''10.0.0.1'' twenty_failures"
    by (rule lockout_ends_with_window) (simp_all add: twenty_failures_eq DefaultRateLimitConfig_def)
qed

end
