(* ===== verification/Relay.thy ===== *)
theory Relay
  imports Upload Ratelimit
begin

text \<open>
  \<^verbatim>\<open>wsproxy/proxy.go\<close>: the handshake of the proxy with the VNC server, the message that tells the
  browser of it, and the two relays. The VNC connection is the \<open>conn\<close> of the wire model; what the
  proxy writes to it after the handshake is \<open>px_tcp\<close>. The browser's side is the list of the
  messages it sends and the list \<open>px_ws\<close> of those it is sent.
\<close>

section \<open>Handshake\<close>

definition proxy_chooseSecurityType :: "u8 list \<Rightarrow> bytes \<Rightarrow> u8 res" where
  "proxy_chooseSecurityType available password =
     (if password \<noteq> [] \<and> SecurityVNCAuth \<in> set available then Inr SecurityVNCAuth
      else if SecurityNone \<in> set available then Inr SecurityNone
      else index available 0)"

definition proxy_security_type :: "bytes \<Rightarrow> u8 io" where
  "proxy_security_type password =
     bind_io (wrap ''read server version: %w'' (readFull 12)) (\<lambda>serverVersion.
     bind_io (wrap ''write version: %w'' (writeB VersionString3_8)) (\<lambda>_.
     bind_io (wrap ''flush version: %w'' flush) (\<lambda>_.
     bind_io (wrap ''read security type count: %w'' read_u8) (\<lambda>numTypes.
     if numTypes = 0 then
       bind_io (wrap ''read failure reason length: %w'' read_u32) (\<lambda>reasonLen.
       bind_io (wrap ''read failure reason: %w'' (readFull (unat reasonLen))) (\<lambda>reason.
       fail (ErrorfS ''server refused connection: %s'' reason)))
     else
       bind_io (replicate_io (unat numTypes) (wrap ''read security type: %w'' read_u8)) (\<lambda>secTypes.
       bind_io (lift_res (proxy_chooseSecurityType secTypes password)) (\<lambda>chosenType.
       bind_io (wrap ''write security choice: %w'' (writeB [chosenType])) (\<lambda>_.
       bind_io (wrap ''flush security choice: %w'' flush) (\<lambda>_.
       ret chosenType))))))))"

definition proxy_authenticate :: "(bytes \<Rightarrow> bytes \<Rightarrow> bytes) \<Rightarrow> bytes \<Rightarrow> u8 \<Rightarrow> unit io" where
  "proxy_authenticate des password chosenType =
     bind_io (if chosenType = SecurityNone then ret ()
              else if chosenType = SecurityVNCAuth then
                bind_io (wrap ''vnc auth: %w'' (VNCAuthClient des password)) (\<lambda>_. wrap ''flush vnc auth: %w'' flush)
              else fail (Errorf ''unsupported security type: %d'' [uint chosenType])) (\<lambda>_.
     bind_io (wrap ''read security result: %w'' read_u32) (\<lambda>secResult.
     if secResult \<noteq> 0 then
       bind_io (replace_err (Errorf ''authentication failed (cannot read reason)'' []) read_u32) (\<lambda>reasonLen.
       bind_io (replace_err (Errorf ''authentication failed (cannot read reason text)'' []) (readFull (unat reasonLen))) (\<lambda>reason.
       fail (ErrorfS ''authentication failed: %s'' reason)))
     else ret ()))"

definition proxy_read_init :: "ServerInit io" where
  "proxy_read_init =
     bind_io (wrap ''write client init: %w'' (writeB [1])) (\<lambda>_.
     bind_io (wrap ''flush client init: %w'' flush) (\<lambda>_.
     bind_io (wrap ''read width: %w'' read_u16) (\<lambda>w.
     bind_io (wrap ''read height: %w'' read_u16) (\<lambda>h.
     bind_io (wrap ''read pixel format: %w'' (readFull 16)) (\<lambda>pf.
     bind_io (wrap ''read name length: %w'' read_u32) (\<lambda>nameLen.
     if nameLen > 4096 then fail (Errorf ''server name too long: %d'' [uint nameLen])
     else
       bind_io (wrap ''read name: %w'' (readFull (unat nameLen))) (\<lambda>nameBytes.
       ret \<lparr>si_Width = w, si_Height = h, si_PixelFormat = dec_PixelFormat pf, si_NameLength = nameLen, si_Name = nameBytes\<rparr>)))))))"

text \<open>The result carries the security type that is kept in \<^verbatim>\<open>p.authType\<close>; a proxy whose handshake fails ends.\<close>

definition performHandshake :: "(bytes \<Rightarrow> bytes \<Rightarrow> bytes) \<Rightarrow> bytes \<Rightarrow> (u8 \<times> ServerInit) io" where
  "performHandshake des password =
     bind_io (proxy_security_type password) (\<lambda>chosenType.
     bind_io (proxy_authenticate des password chosenType) (\<lambda>_.
     bind_io proxy_read_init (\<lambda>init. ret (chosenType, init))))"

definition sendSessionInit :: "ServerInit \<Rightarrow> Proxy \<Rightarrow> Proxy" where
  "sendSessionInit init p =
     (let nameBytes = si_Name init; pf = si_PixelFormat init;
          payloadLen = 2 + 2 + 16 + 4 + length nameBytes + 1 in
      ws_write ([ExtSessionInit] @ be32 (of_nat payloadLen) @ be16 (si_Width init) @ be16 (si_Height init) @
        [BitsPerPixel pf, Depth pf, BigEndian pf, TrueColour pf] @ be16 (RedMax pf) @ be16 (GreenMax pf) @ be16 (BlueMax pf) @
        [RedShift pf, GreenShift pf, BlueShift pf, 0, 0, 0] @
        be32 (of_nat (length nameBytes)) @ nameBytes @ [px_authType p]) p)"

text \<open>
  \<^verbatim>\<open>Run\<close> up to the relays. \<open>dial\<close> is the connection \<^verbatim>\<open>net.DialTimeout\<close> gives, \<open>ip\<close> the address of the
  client, \<open>sent\<close> whether the browser can still be written to. The result says with which text
  the WebSocket is closed, or that the relays start, and what the limiter has recorded.
\<close>

datatype run_result =
    RunClosed string
  | RunRelay Proxy conn

definition Run_start ::
  "(bytes \<Rightarrow> bytes \<Rightarrow> bytes) \<Rightarrow> conn option \<Rightarrow> int \<Rightarrow> string \<Rightarrow> bool \<Rightarrow> Proxy \<Rightarrow> RateLimiter \<Rightarrow> run_result \<times> RateLimiter" where
  "Run_start des dial now ip sent p rl =
     (case dial of
        None \<Rightarrow> (RunClosed ''failed to connect to VNC server'', rl)
      | Some c \<Rightarrow>
          (case performHandshake des (str (s_Password (px_session p))) c of
             (Inl e, c') \<Rightarrow> (RunClosed ''VNC handshake failed'', RecordFailure now ip rl)
           | (Inr (authType, serverInit), c') \<Rightarrow>
               let rl = ClearFailures ip rl;
                   pf = si_PixelFormat serverInit;
                   p = p\<lparr>px_authType := authType, px_rfbReader := newRFBReader (BitsPerPixel pf) (Depth pf) (TrueColour pf)\<rparr> in
               if sent then (RunRelay (sendSessionInit serverInit p) c', rl)
               else (RunClosed ''failed to send session init'', rl)))"

section \<open>From the VNC server to the browser\<close>

definition count_to_client :: "int \<Rightarrow> bytes \<Rightarrow> Session \<Rightarrow> Session" where
  "count_to_client now msg s = (TouchActivity now s)\<lparr>s_BytesToClient := s_BytesToClient s + of_nat (length msg)\<rparr>"

text \<open>
  The loop of \<^verbatim>\<open>relayVNCToBrowser\<close>: the environment gives for each round the time and whether the
  browser can be written to. A round that goes on has read a byte, so more rounds than bytes
  are enough.
\<close>

fun relay_rounds :: "nat \<Rightarrow> (nat \<Rightarrow> int \<times> bool) \<Rightarrow> Proxy \<Rightarrow> conn \<Rightarrow> (Proxy \<times> conn) option" where
  "relay_rounds 0 env p c = None"
| "relay_rounds (Suc n) env p c =
     (case rfbReader_ReadMessage (px_rfbReader p) c of
        (Inl e, c') \<Rightarrow> Some (p, c')
      | (Inr msg, c') \<Rightarrow>
          let p = upd_session (count_to_client (fst (env n)) msg) p in
          if snd (env n) then relay_rounds n env (ws_write msg p) c' else Some (p, c'))"

definition relayVNCToBrowser :: "(nat \<Rightarrow> int \<times> bool) \<Rightarrow> Proxy \<Rightarrow> conn \<Rightarrow> (Proxy \<times> conn) option" where
  "relayVNCToBrowser env p c = relay_rounds (Suc (length (cin c))) env p c"

section \<open>From the browser to the VNC server\<close>

text \<open>A message the browser sends: whether it is binary, and its data.\<close>

type_synonym ws_msg = "bool \<times> bytes"

definition count_from_client :: "int \<Rightarrow> bytes \<Rightarrow> Session \<Rightarrow> Session" where
  "count_from_client now data s = (TouchActivity now s)\<lparr>s_BytesFromClient := s_BytesFromClient s + of_nat (length data)\<rparr>"

definition intercept :: "bytes \<Rightarrow> rfbReader \<Rightarrow> rfbReader" where
  "intercept data r =
     (if hd data = 0 \<and> 20 \<le> length data then UpdatePixelFormat (data ! 4) (data ! 5) (data ! 7) r else r)"

text \<open>One round: the proxy, and whether the loop goes on.\<close>

definition browser_round :: "ProxyConfig \<Rightarrow> int \<times> bool \<Rightarrow> ws_msg \<Rightarrow> Proxy \<Rightarrow> (Proxy \<times> bool) res" where
  "browser_round cfg env m p =
     (case m of (binary, data) \<Rightarrow>
        if \<not> binary then Inr (p, True)
        else if data = [] then Inr (p, True)
        else
          let p = upd_session (count_from_client (fst env) data) p; rfbType = hd data in
          if rfbType \<ge> 128 then rbind (handleExtensionMessage cfg rfbType data p) (\<lambda>p. Inr (p, True))
          else
            let p = p\<lparr>px_rfbReader := intercept data (px_rfbReader p)\<rparr> in
            if snd env then Inr (p\<lparr>px_tcp := px_tcp p @ data\<rparr>, True) else Inr (p, False))"

text \<open>The loop ends when the browser's messages end, or a write fails.\<close>

fun relayBrowserToVNC :: "ProxyConfig \<Rightarrow> (nat \<Rightarrow> int \<times> bool) \<Rightarrow> ws_msg list \<Rightarrow> Proxy \<Rightarrow> Proxy res" where
  "relayBrowserToVNC cfg env [] p = Inr p"
| "relayBrowserToVNC cfg env (m # ms) p =
     rbind (browser_round cfg (env (length ms)) m p) (\<lambda>(p, continue).
       if continue then relayBrowserToVNC cfg env ms p else Inr p)"

section \<open>The reader changes nothing\<close>

text \<open>
  \<open>echoes pre g m\<close>: when \<open>m\<close> succeeds, the bytes \<open>g x\<close> of its result are \<open>pre\<close> followed by exactly
  what it took off the input.
\<close>

definition echoes :: "bytes \<Rightarrow> ('a \<Rightarrow> bytes) \<Rightarrow> 'a io \<Rightarrow> bool" where
  "echoes pre g m \<longleftrightarrow> (\<forall>c x c'. m c = (Inr x, c') \<longrightarrow> (\<exists>ys. g x = pre @ ys \<and> cin c = ys @ cin c'))"

lemma echoesD: "echoes pre g m \<Longrightarrow> m c = (Inr x, c') \<Longrightarrow> \<exists>ys. g x = pre @ ys \<and> cin c = ys @ cin c'"
  by (simp add: echoes_def)

lemma echoes_bind: "echoes pre g m \<Longrightarrow> (\<And>x. echoes (g x) k (f x)) \<Longrightarrow> echoes pre k (bind_io m f)"
  unfolding echoes_def bind_io_Inr_iff by (metis append.assoc)

lemma echoes_ret: "k x = pre \<Longrightarrow> echoes pre k (ret x)"
  by (auto simp: echoes_def ret_def)

lemma echoes_fail: "echoes pre k (fail e)"
  by (simp add: echoes_def fail_def)

lemma echoes_readFull: "echoes pre (\<lambda>b. pre @ b) (readFull n)"
  by (auto simp: echoes_def readFull_Inr_iff)

lemma echoes_wrap: "echoes pre g m \<Longrightarrow> echoes pre g (wrap s m)"
  by (auto simp: echoes_def wrap_Inr_iff)

lemma echoes_wrapD: "echoes pre g m \<Longrightarrow> echoes pre g (wrapD s a m)"
  by (auto simp: echoes_def wrapD_Inr_iff)

lemma echoes_if: "echoes pre g a \<Longrightarrow> echoes pre g b \<Longrightarrow> echoes pre g (if P then a else b)"
  by simp

lemma echoes_readExact: "echoes pre (\<lambda>b. pre @ b) (readExact n)"
  by (auto simp: readExact_def intro: echoes_if echoes_ret echoes_readFull)

lemmas echo_intros = echoes_wrap echoes_wrapD echoes_fail echoes_if echoes_readFull echoes_readExact

lemma echoes_readRRE: "echoes pre (\<lambda>b. pre @ b) (readRRE bpp)"
  unfolding readRRE_def by (rule echoes_bind, rule echo_intros)+ (simp add: echoes_ret)

lemma echoes_readLengthPrefixed32: "echoes pre (\<lambda>b. pre @ b) readLengthPrefixed32"
  unfolding readLengthPrefixed32_def by (rule echoes_bind, rule echo_intros)+ (simp add: echoes_ret)

lemma echoes_readH264: "echoes pre (\<lambda>b. pre @ b) readH264"
  unfolding readH264_def by (rule echoes_bind, rule echo_intros)+ (simp add: echoes_ret)

lemma echoes_readCompactLength: "echoes pre (\<lambda>x. pre @ snd x) readCompactLength"
  unfolding readCompactLength_def Let_def
  by (intro echoes_bind [OF echoes_readFull] echoes_if echoes_ret) simp_all

lemma echoes_readCompactPrefixed: "echoes pre (\<lambda>b. pre @ b) readCompactPrefixed"
  unfolding readCompactPrefixed_def
  by (rule echoes_bind [OF echoes_readCompactLength]) (auto intro!: echoes_bind [OF echoes_readExact] echoes_ret)

lemma echoes_readTightFilter: "echoes pre (\<lambda>x. pre @ snd x) (readTightFilter w h cpixel filterID)"
  unfolding readTightFilter_def Let_def
  by (intro echoes_if echoes_fail echoes_bind [OF echoes_readFull] echoes_bind [OF echoes_readExact] echoes_ret) simp_all

lemma echoes_readTightBasic: "echoes pre (\<lambda>b. pre @ b) (readTightBasic w h cpixel subType)"
proof -
  have f: "echoes pre (\<lambda>f. pre @ f) (if subType AND 0x04 \<noteq> 0 then readFull 1 else ret [])"
    by (intro echoes_if echoes_readFull echoes_ret) simp
  show ?thesis
    unfolding readTightBasic_def Let_def
    by (rule echoes_bind [OF f], rule echoes_bind [OF echoes_readTightFilter])
      (auto intro!: echoes_bind [OF echoes_readExact] echoes_bind [OF echoes_readCompactPrefixed] echoes_ret)
qed

lemma echoes_readTightTileData: "echoes pre (\<lambda>b. pre @ b) (readTightTileData cpixel t)"
proof (cases t)
  case (fields tx ty w h)
  have body: "echoes q (\<lambda>d. q @ d)
      (if s = 0x08 then readExact cpixel else if s = 0x09 then readCompactPrefixed
       else if s \<le> 0x07 then readTightBasic w h cpixel s else fail e)" for q s e
    by (intro echoes_if echoes_fail echoes_readExact echoes_readCompactPrefixed echoes_readTightBasic)
  show ?thesis
    unfolding readTightTileData_def Let_def fields prod.case
    by (rule echoes_bind [OF echoes_readFull], rule echoes_bind [OF body]) (simp add: echoes_ret)
qed

lemma echoes_readTightTilesData: "echoes pre (\<lambda>b. pre @ b) (readTightTilesData cpixel ts)"
proof (induction ts arbitrary: pre)
  case (Cons t ts)
  show ?case
    unfolding readTightTilesData.simps
    by (rule echoes_bind [OF echoes_readTightTileData], rule echoes_bind [OF Cons.IH]) (simp add: echoes_ret)
qed (simp add: echoes_ret)

lemma echoes_readEncodingData: "echoes pre (\<lambda>b. pre @ b) (readEncodingData w h enc bpp cpixel)"
  unfolding readEncodingData_def readTightData_def
  by (intro echoes_if echoes_fail echoes_readExact echoes_readRRE echoes_readLengthPrefixed32 echoes_readTightTilesData
      echoes_readH264 echoes_ret) simp

lemma echoes_readRectsData: "echoes pre (\<lambda>b. pre @ b) (readRectsData bpp cpixel k i n)"
proof (induction n arbitrary: pre i)
  case (Suc n)
  show ?case
    unfolding readRectsData.simps Let_def
    by (rule echoes_bind [OF echoes_wrapD [OF echoes_readFull]],
        rule echoes_bind [OF echoes_wrapD [OF echoes_readEncodingData]], rule echoes_bind [OF Suc.IH]) (simp add: echoes_ret)
qed (simp add: echoes_ret)

text \<open>A message is the bytes that were read for it, and at least one.\<close>

lemma ReadMessage_bytes:
  assumes "rfbReader_ReadMessage r c = (Inr msg, c')"
  shows "cin c = msg @ cin c' \<and> msg \<noteq> []"
proof -
  let ?d = "c\<lparr>cin := drop 1 (cin c)\<rparr>" and ?t = "hd (cin c)"
  have one: "1 \<le> length (cin c)" using assms by (auto simp: rfbReader_ReadMessage_def bind_io_Inr_iff readFull_Inr_iff)
  then have cin: "cin c = ?t # drop 1 (cin c)" by (cases "cin c") auto
  have "readFull 1 c = (Inr [?t], ?d)"
  proof -
    have "take 1 (cin c) = [?t]" using one by (cases "cin c") auto
    then show ?thesis using one by (simp add: readFull_def)
  qed
  then have body: "(if ?t = 0 then rfbReader_readFramebufferUpdate (rr_bpp r) (rr_tightCPixel r)
     else if ?t = 1 then readSetColourMapEntries else if ?t = 2 then ret [2]
     else if ?t = 3 then rfbReader_readServerCutText
     else fail (Errorf ''unknown RFB server message type: %d'' [uint ?t])) ?d = (Inr msg, c')"
    using assms by (simp add: rfbReader_ReadMessage_def bind_io_Inr Let_def split: if_splits)
  have e0: "echoes [0] (\<lambda>m. m) (rfbReader_readFramebufferUpdate (rr_bpp r) (rr_tightCPixel r))"
    unfolding rfbReader_readFramebufferUpdate_def Let_def
    by (rule echoes_bind [OF echoes_wrap [OF echoes_readFull]], rule echoes_bind [OF echoes_readRectsData]) (simp add: echoes_ret)
  have opt: "echoes q (\<lambda>d. q @ d) (if 0 < n then readFull n else ret [])" for q and n :: nat
    by (intro echoes_if echoes_readFull echoes_ret) simp
  have e1: "echoes [1] (\<lambda>m. m) readSetColourMapEntries"
    unfolding readSetColourMapEntries_def Let_def
    by (rule echoes_bind [OF echoes_readFull], rule echoes_bind [OF opt]) (simp add: echoes_ret)
  have e3: "echoes [3] (\<lambda>m. m) rfbReader_readServerCutText"
    unfolding rfbReader_readServerCutText_def Let_def
    by (rule echoes_bind [OF echoes_readFull], rule echoes_bind [OF opt]) (simp add: echoes_ret)
  have e2: "echoes [2] (\<lambda>m. m) (ret [2])" by (simp add: echoes_ret)
  have "\<exists>ys. msg = [?t] @ ys \<and> cin ?d = ys @ cin c'"
    using body
    by (auto simp: fail_def split: if_splits dest!: echoesD [OF e0] echoesD [OF e1] echoesD [OF e2] echoesD [OF e3])
  then show ?thesis using cin by auto
qed

lemma relay_rounds_transparent:
  "length (cin c) < n \<Longrightarrow> \<exists>p' c' ms. relay_rounds n env p c = Some (p', c') \<and> px_ws p' = px_ws p @ ms \<and>
     prefix (concat ms) (cin c) \<and> px_tcp p' = px_tcp p \<and> px_fs p' = px_fs p"
proof (induction n arbitrary: p c)
  case (Suc n)
  obtain r c' where r: "rfbReader_ReadMessage (px_rfbReader p) c = (r, c')" by force
  show ?case
  proof (cases r)
    case (Inl e)
    then show ?thesis using r by (intro exI [of _ p] exI [of _ c'] exI [of _ "[]"]) simp
  next
    case (Inr msg)
    define q where "q = upd_session (count_to_client (fst (env n)) msg) p"
    have q: "px_ws q = px_ws p" "px_tcp q = px_tcp p" "px_fs q = px_fs p" by (simp_all add: q_def upd_session_def)
    have m: "cin c = msg @ cin c'" "msg \<noteq> []" using ReadMessage_bytes r Inr by blast+
    show ?thesis
    proof (cases "snd (env n)")
      case False
      then show ?thesis using r Inr q by (intro exI [of _ q] exI [of _ c'] exI [of _ "[]"]) (simp add: q_def Let_def)
    next
      case True
      have "length (cin c') < n" using Suc.prems m by (cases msg) auto
      from Suc.IH [OF this, of "ws_write msg q"] obtain p' c'' ms where
        "relay_rounds n env (ws_write msg q) c' = Some (p', c'')" "px_ws p' = px_ws p @ msg # ms" "prefix (concat ms) (cin c')"
        "px_tcp p' = px_tcp p" "px_fs p' = px_fs p" using q by (auto simp: ws_write_def)
      then show ?thesis using r Inr True m
        by (intro exI [of _ p'] exI [of _ c''] exI [of _ "msg # ms"]) (simp add: q_def Let_def)
    qed
  qed
qed simp

text \<open>
  C7: Whatever a VNC server sends, well formed or not, the relay to the browser ends with the
  stream (or with the browser), and the messages it has sent, put together, are a beginning of
  the server's bytes: nothing is changed, dropped, repeated or reordered. Nothing is written to
  the server and no file is touched.
\<close>

theorem relay_transparent:
  "\<exists>p' c' ms. relayVNCToBrowser env p c = Some (p', c') \<and> px_ws p' = px_ws p @ ms \<and> prefix (concat ms) (cin c) \<and>
     px_tcp p' = px_tcp p \<and> px_fs p' = px_fs p"
  unfolding relayVNCToBrowser_def by (rule relay_rounds_transparent) simp
lemma enc_server_out_nonempty: "0 < length (enc_server_out m)"
  by (cases m) (simp_all add: enc_FramebufferUpdate_def enc_ServerCutText_def)

lemma relay_rounds_msgs:
  assumes "\<And>m. m \<in> set ms \<Longrightarrow> framed_msg (px_rfbReader p) m" and "length ms < n" and "\<And>k. snd (env k)"
  shows "\<exists>p'. relay_rounds n env p (live (concat (map enc_server_out ms)) out) = Some (p', live [] out) \<and>
     px_ws p' = px_ws p @ map enc_server_out ms \<and>
     s_BytesToClient (px_session p') = s_BytesToClient (px_session p) + of_nat (length (concat (map enc_server_out ms)))"
  using assms
proof (induction ms arbitrary: p n)
  case Nil
  then obtain k where "n = Suc k" by (cases n) auto
  moreover have "rfbReader_ReadMessage (px_rfbReader p) (live [] out) = (Inl EOF, live [] out)"
    by (simp add: rfbReader_ReadMessage_def bind_io_def readFull_def)
  ultimately show ?case by simp
next
  case (Cons m ms)
  then obtain k where n: "n = Suc k" by (cases n) auto
  define q where "q = ws_write (enc_server_out m) (upd_session (count_to_client (fst (env k)) (enc_server_out m)) p)"
  have q: "px_rfbReader q = px_rfbReader p" "px_ws q = px_ws p @ [enc_server_out m]"
    "s_BytesToClient (px_session q) = s_BytesToClient (px_session p) + of_nat (length (enc_server_out m))"
    by (simp_all add: q_def ws_write_def upd_session_def count_to_client_def TouchActivity_def)
  have "rfbReader_ReadMessage (px_rfbReader p) (live (enc_server_out m @ concat (map enc_server_out ms)) out) =
      (Inr (enc_server_out m), live (concat (map enc_server_out ms)) out)"
    by (rule takesD [OF takes_message]) (use Cons.prems in simp)
  then have "relay_rounds n env p (live (concat (map enc_server_out (m # ms))) out) =
      relay_rounds k env q (live (concat (map enc_server_out ms)) out)"
    using n Cons.prems(3) by (simp add: q_def Let_def)
  moreover have "\<exists>p'. relay_rounds k env q (live (concat (map enc_server_out ms)) out) = Some (p', live [] out) \<and>
     px_ws p' = px_ws q @ map enc_server_out ms \<and>
     s_BytesToClient (px_session p') = s_BytesToClient (px_session q) + of_nat (length (concat (map enc_server_out ms)))"
    by (rule Cons.IH) (use Cons.prems n q(1) in auto)
  ultimately show ?case using q by (auto simp: algebra_simps)
qed

text \<open>
  A VNC server's messages reach the browser one WebSocket message each, whole and in order,
  however many there are, and the byte counter of the session is their total length
  (modulo \<open>2 ^ 64\<close>).
\<close>

lemma relay_forwards_messages:
  assumes "\<forall>m \<in> set ms. framed_msg (px_rfbReader p) m" and "\<forall>k. snd (env k)"
  shows "\<exists>p'. relayVNCToBrowser env p (live (concat (map enc_server_out ms)) out) = Some (p', live [] out) \<and>
     px_ws p' = px_ws p @ map enc_server_out ms \<and>
     s_BytesToClient (px_session p') = s_BytesToClient (px_session p) + of_nat (length (concat (map enc_server_out ms)))"
proof -
  have "length ms \<le> length (concat (map enc_server_out ms))"
  proof (induction ms)
    case (Cons m ms)
    then show ?case using enc_server_out_nonempty [of m] by (simp del: length_greater_0_conv)
  qed simp
  then show ?thesis unfolding relayVNCToBrowser_def by (intro relay_rounds_msgs) (use assms in auto)
qed

lemma relay_forwards_messages_witness:
  "\<exists>p'. relayVNCToBrowser (\<lambda>_. (0, True)) demo_proxy (live (concat (map enc_server_out [OutCutText [104], OutUpdate []])) []) =
       Some (p', live [] []) \<and> px_ws p' = map enc_server_out [OutCutText [104], OutUpdate []]"
  using relay_forwards_messages [of "[OutCutText [104], OutUpdate []]" demo_proxy "\<lambda>_. (0, True)" "[]"]
  by (auto simp: demo_proxy_def)

section \<open>What the browser sends\<close>

text \<open>The format a client message of the browser sets, if it does.\<close>

fun format_after :: "client_msg \<Rightarrow> rfbReader \<Rightarrow> rfbReader" where
  "format_after (CSetPixelFormat pf) r = newRFBReader (BitsPerPixel pf) (Depth pf) (TrueColour pf)"
| "format_after m r = r"

lemma UpdatePixelFormat_eq: "UpdatePixelFormat b d t r = newRFBReader b d t"
  by (cases r) (simp add: UpdatePixelFormat_def newRFBReader_def Let_def)

lemma intercept_client_msg: "intercept (enc_client_msg m) r = format_after m r"
  by (cases m) (simp_all add: intercept_def msg_types enc_PixelFormat_def UpdatePixelFormat_eq be16_def)

lemma client_msg_type: "\<not> 128 \<le> hd (enc_client_msg m)" "enc_client_msg m \<noteq> []"
  by (cases m; simp add: msg_types)+

lemma browser_client_msg:
  assumes "snd e"
  shows "\<exists>p'. browser_round cfg e (True, enc_client_msg m) p = Inr (p', True) \<and>
     px_tcp p' = px_tcp p @ enc_client_msg m \<and> px_rfbReader p' = format_after m (px_rfbReader p) \<and>
     px_ws p' = px_ws p \<and> px_fs p' = px_fs p"
  using assms client_msg_type [of m]
  by (simp add: browser_round_def Let_def intercept_client_msg upd_session_def)

lemma browser_client_msgs:
  assumes "\<And>k. snd (env k)"
  shows "\<exists>p'. relayBrowserToVNC cfg env (map (\<lambda>m. (True, enc_client_msg m)) ms) p = Inr p' \<and>
     px_tcp p' = px_tcp p @ concat (map enc_client_msg ms) \<and> px_rfbReader p' = fold format_after ms (px_rfbReader p) \<and>
     px_ws p' = px_ws p \<and> px_fs p' = px_fs p"
proof (induction ms arbitrary: p)
  case (Cons m ms)
  obtain q where q: "browser_round cfg (env (length ms)) (True, enc_client_msg m) p = Inr (q, True)"
     "px_tcp q = px_tcp p @ enc_client_msg m" "px_rfbReader q = format_after m (px_rfbReader p)"
     "px_ws q = px_ws p" "px_fs q = px_fs p"
    using browser_client_msg [of "env (length ms)" cfg m p] assms by auto
  from Cons.IH [of q] show ?case using q by auto
qed simp

text \<open>The reader and the server agree on the pixel format when they did before.\<close>

definition same_format :: "rfbReader \<Rightarrow> PixelFormat \<Rightarrow> bool" where
  "same_format r pf \<longleftrightarrow> r = newRFBReader (BitsPerPixel pf) (Depth pf) (TrueColour pf)"

lemma format_after_effect:
  "same_format r (cc_pixelFormat c) \<Longrightarrow> same_format (fold format_after ms r) (cc_pixelFormat (fold (client_effect scfg) ms c))"
proof (induction ms arbitrary: r c)
  case (Cons m ms)
  have "same_format (format_after m r) (cc_pixelFormat (client_effect scfg m c))"
    using Cons.prems by (cases m) (auto simp: same_format_def)
  then show ?case using Cons.IH by simp
qed simp

text \<open>
  C1: Browser, proxy and server composed: the client messages a browser sends through the proxy
  have on the server exactly the effects the messages have when sent directly, in order; none
  of them writes to a file or back to the browser; and afterwards the proxy's reader frames
  the server's answers with the pixel format the server has for this client.
\<close>

theorem browser_messages_reach_server:
  assumes "\<forall>k. snd (env k)" and "\<forall>m \<in> set ms. valid_client_msg m" and "px_tcp p = []"
    and "cc_errCh (ses_client s) = None" and "same_format (px_rfbReader p) (cc_pixelFormat (ses_client s))"
  shows "\<exists>p' s'. relayBrowserToVNC cfg env (map (\<lambda>m. (True, enc_client_msg m)) ms) p = Inr p' \<and>
     (wire s = live (px_tcp p') out \<longrightarrow>
        serveMessages s = Some (ErrorfW ''read message type: %w'' [] EOF, s') \<and>
        ses_client s' = fold (client_effect (ses_config s)) ms ((ses_client s)\<lparr>cc_conn := live [] out\<rparr>) \<and>
        same_format (px_rfbReader p') (cc_pixelFormat (ses_client s'))) \<and>
     px_ws p' = px_ws p \<and> px_fs p' = px_fs p"
proof -
  define s' where "s' = upd_client (\<lambda>c. fold (client_effect (ses_config s)) ms (c\<lparr>cc_conn := live [] out\<rparr>)) s"
  obtain p' where p': "relayBrowserToVNC cfg env (map (\<lambda>m. (True, enc_client_msg m)) ms) p = Inr p'"
     "px_tcp p' = concat (map enc_client_msg ms)" "px_rfbReader p' = fold format_after ms (px_rfbReader p)"
     "px_ws p' = px_ws p" "px_fs p' = px_fs p"
    using browser_client_msgs [of env cfg ms p] assms(1,3) by auto
  have "serveMessages s = Some (ErrorfW ''read message type: %w'' [] EOF, s')" if "wire s = live (px_tcp p') out"
    unfolding serveMessages_def s'_def
    by (rule serve_loop_msgs) (use that p'(2) assms(2,4) concat_enc_length [of ms] in auto)
  moreover have "ses_client s' = fold (client_effect (ses_config s)) ms ((ses_client s)\<lparr>cc_conn := live [] out\<rparr>)"
    by (simp add: s'_def upd_client_def)
  moreover have "same_format (px_rfbReader p') (cc_pixelFormat (ses_client s'))"
    using format_after_effect [of "px_rfbReader p" "(ses_client s)\<lparr>cc_conn := live [] out\<rparr>"] assms(5) p'(3) calculation(2)
    by simp
  ultimately show ?thesis using p' by blast
qed

text \<open>A server that reads what the proxy has passed on.\<close>

definition relayed_session :: "client_msg list \<Rightarrow> (unit, unit) session" where
  "relayed_session ms = \<lparr>ses_config = example_config, ses_client = newClientConn example_config (live (concat (map enc_client_msg ms)) [])\<rparr>"

theorem browser_messages_reach_server_witness:
  "\<exists>p' s'. relayBrowserToVNC demo_cfg (\<lambda>_. (0, True)) (map (\<lambda>m. (True, enc_client_msg m)) [CSetEncodings [EncodingRaw]]) demo_proxy = Inr p' \<and>
     serveMessages (relayed_session [CSetEncodings [EncodingRaw]]) = Some (ErrorfW ''read message type: %w'' [] EOF, s') \<and>
     cc_encodings (ses_client s') = [EncodingRaw] \<and> px_ws p' = []"
proof -
  let ?ms = "[CSetEncodings [EncodingRaw]]" and ?s = "relayed_session [CSetEncodings [EncodingRaw]]"
  have s: "same_format (px_rfbReader demo_proxy) (cc_pixelFormat (ses_client ?s))" "cc_errCh (ses_client ?s) = None" "px_tcp demo_proxy = []"
    by (simp_all add: same_format_def demo_proxy_def relayed_session_def newClientConn_def example_config_def DefaultPixelFormat_def)
  obtain q where q: "relayBrowserToVNC demo_cfg (\<lambda>_. (0, True)) (map (\<lambda>m. (True, enc_client_msg m)) ?ms) demo_proxy = Inr q"
    "px_tcp q = concat (map enc_client_msg ?ms)"
    using browser_client_msgs [of "\<lambda>_. (0, True)" demo_cfg ?ms demo_proxy] s(3) by auto
  have wire: "wire ?s = live (px_tcp q) []" by (simp add: q(2) relayed_session_def newClientConn_def)
  obtain p' s' where r: "relayBrowserToVNC demo_cfg (\<lambda>_. (0, True)) (map (\<lambda>m. (True, enc_client_msg m)) ?ms) demo_proxy = Inr p'"
    "wire ?s = live (px_tcp p') [] \<longrightarrow> serveMessages ?s = Some (ErrorfW ''read message type: %w'' [] EOF, s') \<and>
      ses_client s' = fold (client_effect (ses_config ?s)) ?ms ((ses_client ?s)\<lparr>cc_conn := live [] []\<rparr>) \<and>
      same_format (px_rfbReader p') (cc_pixelFormat (ses_client s'))" "px_ws p' = px_ws demo_proxy"
    using browser_messages_reach_server [of "\<lambda>_. (0, True)" ?ms demo_proxy ?s demo_cfg "[]"] s by auto
  have "p' = q" using q(1) r(1) by simp
  then show ?thesis using r wire by (auto simp: demo_proxy_def)
qed

section \<open>The proxy and the server agree\<close>

definition init_of :: "('t, 'h) ServerConfig \<Rightarrow> ServerInit" where
  "init_of config = \<lparr>si_Width = sc_Width config, si_Height = sc_Height config, si_PixelFormat = sc_PixelFormat config,
     si_NameLength = of_nat (length (sc_Name config)), si_Name = sc_Name config\<rparr>"

lemma proxy_read_init_live:
  assumes "length (sc_Name config) \<le> 4096"
  shows "proxy_read_init (live (enc_ServerInit (init_of config) @ r) out) = (Inr (init_of config), live r (out @ [1]))"
proof -
  have n: "unat (of_nat (length (sc_Name config)) :: u32) = length (sc_Name config)" using assms by simp
  have "\<not> (4096 :: u32) < of_nat (length (sc_Name config))" using assms n by (simp add: word_less_nat_alt)
  then show ?thesis using n
    by (simp add: proxy_read_init_def enc_ServerInit_def init_of_def conn_simps)
qed

lemma proxy_security_type_live:
  assumes "password \<noteq> []"
  shows "proxy_security_type password (live (VersionString3_8 @ [1, SecurityVNCAuth] @ r) out) =
     (Inr SecurityVNCAuth, live r (out @ VersionString3_8 @ [SecurityVNCAuth]))"
  using assms by (simp add: proxy_security_type_def conn_simps proxy_chooseSecurityType_def)
definition vnc_handler :: "(bytes \<Rightarrow> bytes \<Rightarrow> bytes) \<Rightarrow> bytes \<Rightarrow> bytes \<Rightarrow> SecurityHandler" where
  "vnc_handler des ch q = \<lparr>sh_Type = VNCAuth_Type, sh_Handshake = VNCAuth_Handshake des (Inr ch) q\<rparr>"

text \<open>The response of a client that knows the password \<open>pw\<close>.\<close>

definition vnc_response :: "(bytes \<Rightarrow> bytes \<Rightarrow> bytes) \<Rightarrow> bytes \<Rightarrow> bytes \<Rightarrow> bytes" where
  "vnc_response des ch pw = des (vncKey pw) (take 8 ch) @ des (vncKey pw) (drop 8 ch)"

lemma server_security_type_live:
  assumes "sc_Security config = [vnc_handler des ch q]"
  shows "server_security_type config (live (VersionString3_8 @ SecurityVNCAuth # r) out) =
     (Inr (vnc_handler des ch q), live r (out @ VersionString3_8 @ [1, SecurityVNCAuth]))"
  using assms
  by (simp add: server_security_type_def conn_simps find_handler_def vnc_handler_def VNCAuth_Type_def SecurityVNCAuth_def)

text \<open>
  C12: The handshakes of the proxy and of a server with VNC authentication fit together: there are
  two byte streams, each exactly what one side writes when it reads the other, on which both
  succeed when the passwords give the same response, and then the proxy has the size, the
  pixel format and the name the server was configured with; otherwise both fail, and the proxy
  reports the server's reason.
\<close>

theorem proxy_handshake_agrees:
  assumes "\<And>k b. length (des k b) = 8" and "length ch = 16" and "pw \<noteq> []"
    and "sc_Security config = [vnc_handler des ch q]" and "length (sc_Name config) \<le> 4096"
  shows "\<exists>c2s s2c. if vnc_response des ch pw = vnc_response des ch q
     then server_handshake config (live c2s []) = (Inr (), live [] s2c) \<and>
       performHandshake des pw (live s2c []) = (Inr (SecurityVNCAuth, init_of config), live [] c2s)
     else (\<exists>e. server_handshake config (live c2s []) = (Inl e, live [] s2c)) \<and>
       performHandshake des pw (live s2c []) =
         (Inl (ErrorfS ''authentication failed: %s'' (str ''authentication failed'')), live [] c2s)"
proof -
  define R where "R = vnc_response des ch pw"
  define Q where "Q = vnc_response des ch q"
  have len: "length R = 16" "length Q = 16" using assms(1) by (simp_all add: R_def Q_def vnc_response_def)
  have enc: "vncEncrypt des ch pw = Inr R" "vncEncrypt des ch q = Inr Q"
    using vncEncrypt_full [OF assms(2)] by (simp_all add: R_def Q_def vnc_response_def)
  have client: "VNCAuthClient des pw (live (ch @ r) out) = (Inr (), live r (out @ R))" for r out
    using assms(2) enc(1) by (simp add: VNCAuthClient_def conn_simps)
  note server = VNCAuth_Handshake_live [OF len(1) enc(2) len(2)]
  have v: "SecurityVNCAuth \<noteq> SecurityNone" by (simp add: SecurityVNCAuth_def SecurityNone_def)
  show ?thesis
  proof (cases "R = Q")
    case True
    let ?c2s = "VersionString3_8 @ SecurityVNCAuth # R @ [1]"
    let ?s2c = "VersionString3_8 @ [1, SecurityVNCAuth] @ ch @ be32 0 @ enc_ServerInit (init_of config)"
    have "server_handshake config (live ?c2s []) = (Inr (), live [] ?s2c)"
      using server_security_type_live [OF assms(4), of "R @ [1]" "[]"] server [of "[1]"] True
      by (simp add: server_handshake_def conn_simps run_handler_def vnc_handler_def server_init_def enc_ServerInit_def init_of_def)
    moreover have "performHandshake des pw (live ?s2c []) = (Inr (SecurityVNCAuth, init_of config), live [] ?c2s)"
      using proxy_security_type_live [OF assms(3), of "ch @ be32 0 @ enc_ServerInit (init_of config)" "[]"] client
        proxy_read_init_live [OF assms(5), of "[]"] v
      by (simp add: performHandshake_def conn_simps proxy_authenticate_def)
    ultimately show ?thesis using True unfolding R_def Q_def by (intro exI [of _ ?c2s] exI [of _ ?s2c]) (simp add: R_def)
  next
    case False
    let ?c2s = "VersionString3_8 @ SecurityVNCAuth # R"
    let ?reason = "str ''authentication failed''"
    let ?s2c = "VersionString3_8 @ [1, SecurityVNCAuth] @ ch @ be32 1 @ be32 21 @ ?reason"
    have l: "length ?reason = 21" by (simp add: str_def)
    have "server_handshake config (live ?c2s []) = (Inl (ErrorfS ''vnc auth: %s'' ?reason), live [] ?s2c)"
      using server_security_type_live [OF assms(4), of R "[]"] server [of "[]"] False
      by (simp add: server_handshake_def conn_simps run_handler_def vnc_handler_def)
    moreover have "performHandshake des pw (live ?s2c []) = (Inl (ErrorfS ''authentication failed: %s'' ?reason), live [] ?c2s)"
      using proxy_security_type_live [OF assms(3), of "ch @ be32 1 @ be32 21 @ ?reason" "[]"] client v l
      by (simp add: performHandshake_def conn_simps proxy_authenticate_def)
    ultimately show ?thesis using False unfolding R_def Q_def by (intro exI [of _ ?c2s] exI [of _ ?s2c]) (simp add: R_def)
  qed
qed

theorem proxy_handshake_agrees_witness:
  "\<exists>c2s s2c. server_handshake (example_config\<lparr>sc_Security := [vnc_handler xor_block (replicate 16 7) (str ''secret'')]\<rparr>) (live c2s []) =
       (Inr (), live [] s2c) \<and>
     performHandshake xor_block (str ''secret'') (live s2c []) =
       (Inr (SecurityVNCAuth, init_of (example_config\<lparr>sc_Security := [vnc_handler xor_block (replicate 16 7) (str ''secret'')]\<rparr>)), live [] c2s)"
  using proxy_handshake_agrees [of xor_block "replicate 16 7" "str ''secret''"
      "example_config\<lparr>sc_Security := [vnc_handler xor_block (replicate 16 7) (str ''secret'')]\<rparr>" "str ''secret''"]
  by (simp add: str_def example_config_def)

end
