(* ===== verification/Wsserver.thy ===== *)
theory Wsserver
  imports Relay
begin

text \<open>
  \<^verbatim>\<open>wsproxy/server.go\<close>: the server of the proxy, its defaults, the checks a WebSocket request passes
  before its session starts, readiness and shutdown. HTTP, TLS, signals and the upgrade itself
  are library code; a request is the data the handler reads of it.
\<close>

section \<open>Addresses\<close>

text \<open>
  \<^verbatim>\<open>net.SplitHostPort\<close>: the port is behind the last colon; a host with colons stands in brackets.
  \<open>None\<close> is the error.
\<close>

definition after_last :: "char \<Rightarrow> string \<Rightarrow> string" where
  "after_last c s = rev (takeWhile (\<lambda>x. x \<noteq> c) (rev s))"

definition SplitHostPort :: "string \<Rightarrow> (string \<times> string) option" where
  "SplitHostPort hostport =
     (if CHR '':'' \<notin> set hostport then None
      else
        let port = after_last (CHR '':'') hostport;
            before = take (length hostport - length port - 1) hostport in
        if hd hostport = CHR ''['' then
          (if CHR '']'' \<notin> set hostport then None
           else
             let host = takeWhile (\<lambda>x. x \<noteq> CHR '']'') (drop 1 hostport) in
             if before \<noteq> CHR ''['' # host @ [CHR '']''] then None
             else if CHR ''['' \<in> set (drop 1 hostport) \<or> CHR '']'' \<in> set (drop (length host + 2) hostport) then None
             else Some (host, port))
        else if CHR '':'' \<in> set before then None
        else if CHR ''['' \<in> set hostport \<or> CHR '']'' \<in> set hostport then None
        else Some (before, port))"

definition extractIP :: "string \<Rightarrow> string" where
  "extractIP remoteAddr = (case SplitHostPort remoteAddr of None \<Rightarrow> remoteAddr | Some (host, _) \<Rightarrow> host)"

section \<open>Configuration\<close>

record WsConfig =
  wc_AllowedVNCTargets :: "string list"
  wc_DefaultVNCPassword :: string
  wc_MaxConnections :: int
  wc_MaxConnectionsPerTarget :: int
  wc_DefaultUploadDir :: bytes
  wc_AllowedUploadDirs :: "bytes list"
  wc_MaxUploadSize :: int
  wc_AllowedOrigins :: "string list"
  wc_RateLimit :: RateLimitConfig
  wc_ShutdownTimeout :: int

record WsServer =
  wsv_config :: WsConfig
  wsv_connMgr :: ConnectionManager
  wsv_allowedTargets :: "string list"
  wsv_allowedOrigins :: "string list"
  wsv_allowedUpDirs :: "bytes list"
  wsv_rateLimiter :: RateLimiter
  wsv_draining :: bool

text \<open>The defaults that replace missing values; times are in nanoseconds.\<close>

definition config_defaults :: "bytes \<Rightarrow> WsConfig \<Rightarrow> WsConfig" where
  "config_defaults downloads c =
     c\<lparr>wc_MaxConnections := if wc_MaxConnections c \<le> 0 then 100 else wc_MaxConnections c,
       wc_MaxConnectionsPerTarget := if wc_MaxConnectionsPerTarget c \<le> 0 then 10 else wc_MaxConnectionsPerTarget c,
       wc_MaxUploadSize := if wc_MaxUploadSize c \<le> 0 then 100 * 1024 * 1024 else wc_MaxUploadSize c,
       wc_DefaultUploadDir := if wc_DefaultUploadDir c = [] then downloads else wc_DefaultUploadDir c,
       wc_ShutdownTimeout := if wc_ShutdownTimeout c \<le> 0 then 30 * 1000000000 else wc_ShutdownTimeout c,
       wc_RateLimit := if rc_MaxAttempts (wc_RateLimit c) = 0 then DefaultRateLimitConfig else wc_RateLimit c\<rparr>"

fun resolve_dirs :: "os_paths \<Rightarrow> bytes list \<Rightarrow> bytes list" where
  "resolve_dirs os [] = []"
| "resolve_dirs os (d # ds) =
     (case filepath_Abs os d of None \<Rightarrow> resolve_dirs os ds | Some a \<Rightarrow> a # resolve_dirs os ds)"

definition wsproxy_NewServer :: "os_paths \<Rightarrow> bytes \<Rightarrow> WsConfig \<Rightarrow> WsServer" where
  "wsproxy_NewServer os downloads config =
     (let config = config_defaults downloads config in
      \<lparr>wsv_config = config,
       wsv_connMgr = NewConnectionManager (wc_MaxConnections config) (wc_MaxConnectionsPerTarget config),
       wsv_allowedTargets = wc_AllowedVNCTargets config, wsv_allowedOrigins = wc_AllowedOrigins config,
       wsv_allowedUpDirs = resolve_dirs os (wc_AllowedUploadDirs config),
       wsv_rateLimiter = NewRateLimiter (wc_RateLimit config), wsv_draining = False\<rparr>)"

definition originPatterns :: "WsServer \<Rightarrow> string list" where
  "originPatterns s = (if wsv_allowedOrigins s = [] then [''*''] else wsv_allowedOrigins s)"

section \<open>Requests\<close>

record Request =
  rq_RemoteAddr :: string
  rq_Origin :: string
  rq_target :: string
  rq_password :: string

text \<open>The status and the error of a request that is refused, or the target and password of one that goes on.\<close>

definition handleWebSocket_checks :: "int \<Rightarrow> Request \<Rightarrow> WsServer \<Rightarrow> (nat \<times> string) + (string \<times> string)" where
  "handleWebSocket_checks now r s =
     (if wsv_draining s then Inl (503, ''server is shutting down'')
      else if \<not> IsAllowed now (extractIP (rq_RemoteAddr r)) (wsv_rateLimiter s)
      then Inl (429, ''too many failed attempts, try again later'')
      else if wsv_allowedOrigins s \<noteq> [] \<and> rq_Origin r \<noteq> '''' \<and> rq_Origin r \<notin> set (wsv_allowedOrigins s)
      then Inl (403, ''origin not allowed'')
      else if rq_target r = '''' then Inl (400, ''missing target parameter'')
      else case SplitHostPort (rq_target r) of
        None \<Rightarrow> Inl (400, ''invalid target format, expected host:port'')
      | Some (host, port) \<Rightarrow>
          if host = '''' \<or> port = '''' then Inl (400, ''invalid target format, expected host:port'')
          else if wsv_allowedTargets s \<noteq> [] \<and> rq_target r \<notin> set (wsv_allowedTargets s)
          then Inl (403, ''target not allowed'')
          else Inr (rq_target r, if rq_password r = '''' then wc_DefaultVNCPassword (wsv_config s) else rq_password r))"

definition handleReady :: "WsServer \<Rightarrow> nat \<times> string \<times> nat" where
  "handleReady s =
     (if wsv_draining s then (503, ''shutting down'', Count (wsv_connMgr s))
      else if int (Count (wsv_connMgr s)) \<ge> wc_MaxConnections (wsv_config s)
      then (503, ''at capacity'', Count (wsv_connMgr s))
      else (200, ''ready'', Count (wsv_connMgr s)))"

section \<open>The server with its handlers\<close>

text \<open>
  The handlers of requests run concurrently. \<open>pending\<close> are the sessions whose request has passed
  the checks and whose upgrade is under way, \<open>closed\<close> the identifiers of the sessions that were
  sent the close frame of a shutdown. \<^verbatim>\<open>shutdownOnce\<close> lets only the first call of \<^verbatim>\<open>Shutdown\<close> act.
\<close>

record ws_state =
  wst_server :: WsServer
  wst_pending :: "Session list"
  wst_closed :: "string set"

definition upd_mgr :: "(ConnectionManager \<Rightarrow> ConnectionManager) \<Rightarrow> WsServer \<Rightarrow> WsServer" where
  "upd_mgr f s = s\<lparr>wsv_connMgr := f (wsv_connMgr s)\<rparr>"

definition upd_limiter :: "(RateLimiter \<Rightarrow> RateLimiter) \<Rightarrow> WsServer \<Rightarrow> WsServer" where
  "upd_limiter f s = s\<lparr>wsv_rateLimiter := f (wsv_rateLimiter s)\<rparr>"

definition Shutdown :: "ws_state \<Rightarrow> ws_state" where
  "Shutdown t = t\<lparr>wst_server := (wst_server t)\<lparr>wsv_draining := True\<rparr>,
     wst_closed := s_ID ` set (All (wsv_connMgr (wst_server t)))\<rparr>"

inductive ws_step :: "ws_state \<Rightarrow> ws_state \<Rightarrow> bool" where
  accepted: "handleWebSocket_checks now r (wst_server t) = Inr (target, password) \<Longrightarrow>
     uuid \<notin> s_ID ` set (All (wsv_connMgr (wst_server t))) \<Longrightarrow> uuid \<notin> s_ID ` set (wst_pending t) \<Longrightarrow>
     ws_step t (t\<lparr>wst_pending := NewSession uuid now (rq_RemoteAddr r) target password # wst_pending t\<rparr>)"
| added: "sess \<in> set (wst_pending t) \<Longrightarrow>
     ws_step t (t\<lparr>wst_server := upd_mgr (snd \<circ> TryAdd sess) (wst_server t), wst_pending := remove1 sess (wst_pending t)\<rparr>)"
| ended: "sess \<in> set (All (wsv_connMgr (wst_server t))) \<Longrightarrow>
     ws_step t (t\<lparr>wst_server := upd_mgr (Remove sess) (wst_server t)\<rparr>)"
| handshake_failed: "ws_step t (t\<lparr>wst_server := upd_limiter (RecordFailure now ip) (wst_server t)\<rparr>)"
| handshake_done: "ws_step t (t\<lparr>wst_server := upd_limiter (ClearFailures ip) (wst_server t)\<rparr>)"
| cleaned: "ws_step t (t\<lparr>wst_server := upd_limiter (cleanup_tick now) (wst_server t)\<rparr>)"
| shut_down: "\<not> wsv_draining (wst_server t) \<Longrightarrow> ws_step t (Shutdown t)"

definition ws_init :: "WsServer \<Rightarrow> ws_state" where
  "ws_init s = \<lparr>wst_server = s, wst_pending = [], wst_closed = {}\<rparr>"

section \<open>What holds of every session\<close>

text \<open>A target that the configuration lets clients connect to.\<close>

definition target_ok :: "string list \<Rightarrow> string \<Rightarrow> bool" where
  "target_ok allowed target \<longleftrightarrow> (allowed = [] \<or> target \<in> set allowed) \<and>
     (\<exists>host port. SplitHostPort target = Some (host, port) \<and> host \<noteq> '''' \<and> port \<noteq> '''')"

lemma checks_target:
  "handleWebSocket_checks now r s = Inr (target, password) \<Longrightarrow> target_ok (wsv_allowedTargets s) target"
  by (auto simp: handleWebSocket_checks_def target_ok_def split: if_splits option.splits)

definition ws_ok :: "ws_state \<Rightarrow> bool" where
  "ws_ok t \<longleftrightarrow> cm_ok (wsv_connMgr (wst_server t)) \<and> distinct (map s_ID (wst_pending t)) \<and>
     s_ID ` set (wst_pending t) \<inter> fst ` set (cm_sessions (wsv_connMgr (wst_server t))) = {} \<and>
     (\<forall>s \<in> set (wst_pending t) \<union> set (All (wsv_connMgr (wst_server t))).
        target_ok (wsv_allowedTargets (wst_server t)) (s_Target s))"

lemma cm_ok_ids: "cm_ok cm \<Longrightarrow> s_ID ` set (All cm) = fst ` set (cm_sessions cm)"
  by (force simp: cm_ok_def All_def image_iff)

lemma upd_simps [simp]:
  "wsv_connMgr (upd_mgr f s) = f (wsv_connMgr s)" "wsv_allowedTargets (upd_mgr f s) = wsv_allowedTargets s"
  "wsv_connMgr (upd_limiter g s) = wsv_connMgr s" "wsv_allowedTargets (upd_limiter g s) = wsv_allowedTargets s"
  "wsv_config (upd_mgr f s) = wsv_config s" "wsv_config (upd_limiter g s) = wsv_config s"
  by (simp_all add: upd_mgr_def upd_limiter_def)

lemma TryAdd_sessions: "set (cm_sessions (snd (TryAdd s cm))) \<subseteq> insert (s_ID s, s) (set (cm_sessions cm))"
  using set_update_subset [of "s_ID s" s "cm_sessions cm"] by (auto simp: TryAdd_def)

lemma Remove_sessions: "set (cm_sessions (Remove s cm)) \<subseteq> set (cm_sessions cm)"
  using set_delete_subset [of "s_ID s" "cm_sessions cm"] by (auto simp: Remove_def Let_def)

lemma disjoint_insert_subset: "C \<subseteq> insert x B \<Longrightarrow> A \<inter> B = {} \<Longrightarrow> x \<notin> A \<Longrightarrow> A \<inter> C = {}"
  by auto

lemma ws_ok_added:
  assumes "ws_ok t" and "sess \<in> set (wst_pending t)"
  shows "ws_ok (t\<lparr>wst_server := upd_mgr (snd \<circ> TryAdd sess) (wst_server t), wst_pending := remove1 sess (wst_pending t)\<rparr>)"
proof -
  let ?cm = "wsv_connMgr (wst_server t)" and ?ps = "wst_pending t"
  have d: "distinct (map s_ID ?ps)" "distinct ?ps" using assms(1) by (auto simp: ws_ok_def distinct_map)
  have fresh: "map_of (cm_sessions ?cm) (s_ID sess) = None"
    using assms by (auto simp: ws_ok_def map_of_eq_None_iff)
  have ps: "set (remove1 sess ?ps) = set ?ps - {sess}" using d(2) by simp
  have ids: "s_ID s \<noteq> s_ID sess" if "s \<in> set (remove1 sess ?ps)" for s
    using d(1) assms(2) that ps by (auto simp: distinct_map inj_on_def)
  have "distinct (map s_ID (remove1 sess ?ps))"
    using d ps by (auto simp: distinct_map intro: inj_on_subset)
  moreover have "cm_ok (snd (TryAdd sess ?cm))" using cm_ok_TryAdd [OF _ fresh] assms(1) by (simp add: ws_ok_def)
  moreover have "s_ID ` set (remove1 sess ?ps) \<inter> fst ` set (cm_sessions (snd (TryAdd sess ?cm))) = {}"
  proof -
    have "fst ` set (cm_sessions (snd (TryAdd sess ?cm))) \<subseteq> insert (s_ID sess) (fst ` set (cm_sessions ?cm))"
      using image_mono [OF TryAdd_sessions [of sess ?cm], of fst] by simp
    moreover have "s_ID ` set (remove1 sess ?ps) \<inter> fst ` set (cm_sessions ?cm) = {}"
      using assms(1) ps by (auto simp: ws_ok_def)
    moreover have "s_ID sess \<notin> s_ID ` set (remove1 sess ?ps)" using ids by force
    ultimately show ?thesis by (rule disjoint_insert_subset)
  qed
  moreover have "set (All (snd (TryAdd sess ?cm))) \<subseteq> insert sess (set (All ?cm))"
    using image_mono [OF TryAdd_sessions [of sess ?cm], of snd] by (simp add: All_def)
  moreover have "target_ok (wsv_allowedTargets (wst_server t)) (s_Target s)" if "s \<in> set ?ps \<union> set (All ?cm)" for s
    using assms(1) that by (simp only: ws_ok_def)
  ultimately show ?thesis
    unfolding ws_ok_def using assms(2) ps by auto
qed

lemma ws_ok_ended:
  assumes "ws_ok t" and "sess \<in> set (All (wsv_connMgr (wst_server t)))"
  shows "ws_ok (t\<lparr>wst_server := upd_mgr (Remove sess) (wst_server t)\<rparr>)"
proof -
  let ?cm = "wsv_connMgr (wst_server t)"
  have cm: "cm_ok ?cm" using assms(1) by (simp add: ws_ok_def)
  obtain k where "(k, sess) \<in> set (cm_sessions ?cm)" using assms(2) by (auto simp: All_def)
  then have m: "(s_ID sess, sess) \<in> set (cm_sessions ?cm)" using cm by (auto simp: cm_ok_def)
  have "cm_ok (Remove sess ?cm)"
  proof (rule cm_ok_Remove [OF cm])
    fix s' assume "map_of (cm_sessions ?cm) (s_ID sess) = Some s'"
    then show "s_Target s' = s_Target sess" using m cm by (simp add: cm_ok_def)
  qed
  moreover have "set (All (Remove sess ?cm)) \<subseteq> set (All ?cm)" "fst ` set (cm_sessions (Remove sess ?cm)) \<subseteq> fst ` set (cm_sessions ?cm)"
    using Remove_sessions [of sess ?cm] by (auto simp: All_def)
  ultimately show ?thesis using assms(1) by (auto simp: ws_ok_def)
qed

lemma ws_ok_step:
  assumes "ws_step t t'" and "ws_ok t"
  shows "ws_ok t'"
  using assms
proof (cases rule: ws_step.cases)
  case (accepted now r target password uuid)
  then have "uuid \<notin> fst ` set (cm_sessions (wsv_connMgr (wst_server t)))"
    using assms(2) cm_ok_ids [of "wsv_connMgr (wst_server t)"] by (auto simp: ws_ok_def)
  then show ?thesis using accepted assms(2) checks_target [OF accepted(2)] by (auto simp: ws_ok_def NewSession_def)
next
  case (added sess)
  then show ?thesis using ws_ok_added assms(2) by simp
next
  case (ended sess)
  then show ?thesis using ws_ok_ended assms(2) by simp
next
  case shut_down
  then show ?thesis using assms(2) by (simp add: Shutdown_def ws_ok_def)
qed (simp_all add: ws_ok_def)

lemma ws_step_config:
  "ws_step t t' \<Longrightarrow> wsv_allowedTargets (wst_server t') = wsv_allowedTargets (wst_server t) \<and>
     cm_maxConnections (wsv_connMgr (wst_server t')) = cm_maxConnections (wsv_connMgr (wst_server t)) \<and>
     cm_maxPerTarget (wsv_connMgr (wst_server t')) = cm_maxPerTarget (wsv_connMgr (wst_server t))"
  by (cases rule: ws_step.cases) (auto simp: TryAdd_limits Shutdown_def)

lemma ws_reachable:
  assumes "ws_step\<^sup>*\<^sup>* (ws_init (wsproxy_NewServer os downloads config)) t"
  shows "ws_ok t \<and> wsv_allowedTargets (wst_server t) = wc_AllowedVNCTargets config \<and>
     cm_maxConnections (wsv_connMgr (wst_server t)) = (if wc_MaxConnections config \<le> 0 then 100 else wc_MaxConnections config) \<and>
     cm_maxPerTarget (wsv_connMgr (wst_server t)) =
       (if wc_MaxConnectionsPerTarget config \<le> 0 then 10 else wc_MaxConnectionsPerTarget config)"
  using assms
proof (induction rule: rtranclp_induct)
  case base
  show ?case using cm_ok_new
    by (simp add: ws_init_def wsproxy_NewServer_def config_defaults_def Let_def ws_ok_def All_def) (simp add: NewConnectionManager_def Let_def)
next
  case (step t t')
  then show ?case using ws_ok_step ws_step_config [OF step.hyps(2)] by simp
qed

section \<open>Properties\<close>

text \<open>
  In every state of the proxy server, whatever requests arrive, however their handlers
  interleave with each other, with ending sessions and with a shutdown: a session exists only
  for a target the configuration allows, in the form host and port, and the numbers of sessions
  stay within the configured limits (or the defaults).
\<close>

lemma sessions_only_to_allowed_targets:
  assumes "ws_step\<^sup>*\<^sup>* (ws_init (wsproxy_NewServer os downloads config)) t"
  shows "(\<forall>s \<in> set (All (wsv_connMgr (wst_server t))). target_ok (wc_AllowedVNCTargets config) (s_Target s)) \<and>
     int (Count (wsv_connMgr (wst_server t))) \<le> (if wc_MaxConnections config \<le> 0 then 100 else wc_MaxConnections config) \<and>
     (\<forall>target. int (sessions_to target (wsv_connMgr (wst_server t))) \<le>
        (if wc_MaxConnectionsPerTarget config \<le> 0 then 10 else wc_MaxConnectionsPerTarget config))"
proof -
  note r = ws_reachable [OF assms]
  have "\<forall>s \<in> set (All (wsv_connMgr (wst_server t))). target_ok (wc_AllowedVNCTargets config) (s_Target s)"
    using r by (auto simp: ws_ok_def)
  moreover have "cm_ok (wsv_connMgr (wst_server t))" using r by (simp add: ws_ok_def)
  then have "int (Count (wsv_connMgr (wst_server t))) \<le> cm_maxConnections (wsv_connMgr (wst_server t))"
    "\<And>target. int (sessions_to target (wsv_connMgr (wst_server t))) \<le> cm_maxPerTarget (wsv_connMgr (wst_server t))"
    by (simp_all add: cm_ok_def)
  ultimately show ?thesis using r by auto
qed

definition demo_ws :: WsServer where
  "demo_ws = wsproxy_NewServer \<lparr>os_Getwd = None, os_EvalSymlinks = Some\<rparr> []
     \<lparr>wc_AllowedVNCTargets = [''vnc:1''], wc_DefaultVNCPassword = '''', wc_MaxConnections = 0, wc_MaxConnectionsPerTarget = 0,
      wc_DefaultUploadDir = [], wc_AllowedUploadDirs = [], wc_MaxUploadSize = 0, wc_AllowedOrigins = [],
      wc_RateLimit = DefaultRateLimitConfig, wc_ShutdownTimeout = 0\<rparr>"

definition demo_session :: Session where
  "demo_session = NewSession ''s'' 0 ''c:9'' ''vnc:1'' ''''"

definition demo_request :: Request where
  "demo_request = \<lparr>rq_RemoteAddr = ''c:9'', rq_Origin = '''', rq_target = ''vnc:1'', rq_password = ''''\<rparr>"

lemma demo_checks_pass: "handleWebSocket_checks 0 demo_request demo_ws = Inr (''vnc:1'', '''')"
  by code_simp

text \<open>The request is accepted, the server shuts down, the session is added.\<close>

definition late_session :: ws_state where
  "late_session = \<lparr>wst_server = upd_mgr (snd \<circ> TryAdd demo_session) (demo_ws\<lparr>wsv_draining := True\<rparr>), wst_pending = [], wst_closed = {}\<rparr>"

lemma late_session_reachable: "ws_step\<^sup>*\<^sup>* (ws_init demo_ws) late_session"
proof -
  let ?t1 = "(ws_init demo_ws)\<lparr>wst_pending := demo_session # wst_pending (ws_init demo_ws)\<rparr>"
  have new: "All (wsv_connMgr demo_ws) = []" "\<not> wsv_draining demo_ws"
    by (simp_all add: demo_ws_def wsproxy_NewServer_def Let_def NewConnectionManager_def All_def)
  have s1: "ws_step (ws_init demo_ws) ?t1"
    using ws_step.accepted [of 0 demo_request "ws_init demo_ws" "''vnc:1''" "''''" "''s''"] demo_checks_pass new
    by (simp add: ws_init_def demo_session_def demo_request_def)
  have s2: "ws_step ?t1 (Shutdown ?t1)" using ws_step.shut_down [of ?t1] new by (simp add: ws_init_def)
  have s3: "ws_step (Shutdown ?t1) late_session"
    using ws_step.added [of demo_session "Shutdown ?t1"] new
    by (simp add: Shutdown_def ws_init_def late_session_def)
  show ?thesis
    using converse_rtranclp_into_rtranclp [of ws_step, OF s1 converse_rtranclp_into_rtranclp [of ws_step, OF s2 r_into_rtranclp [of ws_step, OF s3]]] .
qed

lemma late_session_added: "demo_session \<in> set (All (wsv_connMgr (wst_server late_session)))"
proof -
  have "All (wsv_connMgr (wst_server late_session)) = [demo_session]"
    by (simp add: late_session_def demo_ws_def wsproxy_NewServer_def config_defaults_def Let_def NewConnectionManager_def
        TryAdd_def targetCount_def All_def)
  then show ?thesis by simp
qed

lemma sessions_only_to_allowed_targets_witness: "target_ok [''vnc:1''] (s_Target demo_session)"
  using sessions_only_to_allowed_targets [OF late_session_reachable [unfolded demo_ws_def]] late_session_added by simp

text \<open>
  A shutdown does not reach every session: one whose request passed the check before the
  server started to drain, and which is added after the list of sessions was taken, runs on
  without having been sent the close frame, which a shutdown sends only once.
\<close>

lemma session_survives_shutdown:
  "\<exists>t s. ws_step\<^sup>*\<^sup>* (ws_init demo_ws) t \<and> wsv_draining (wst_server t) \<and>
     s \<in> set (All (wsv_connMgr (wst_server t))) \<and> s_ID s \<notin> wst_closed t"
proof (intro exI conjI)
  show "ws_step\<^sup>*\<^sup>* (ws_init demo_ws) late_session" by (rule late_session_reachable)
  show "wsv_draining (wst_server late_session)" by (simp add: late_session_def upd_mgr_def)
  show "demo_session \<in> set (All (wsv_connMgr (wst_server late_session)))" by (rule late_session_added)
  show "s_ID demo_session \<notin> wst_closed late_session" by (simp add: late_session_def)
qed

end
