(* ===== verification/Serverlife.thy ===== *)
theory Serverlife
  imports ServerMessages H264 Wsserver "HOL-Library.Signed_Division"
begin

text \<open>
  The life of an RFB server: \<^verbatim>\<open>rfb/portcheck.go\<close>; the pace of the framebuffer writer, \<^verbatim>\<open>handleConnection\<close>,
  \<^verbatim>\<open>ListenAndServe\<close> and \<^verbatim>\<open>Close\<close> of \<^verbatim>\<open>rfb/server.go\<close>; and the C interface of \<^verbatim>\<open>capi/exports.go\<close>. Sockets and the clock are
  arguments: what a call answers, and the times the clock shows, in nanoseconds.
\<close>

section \<open>Version and port\<close>

definition Version :: string where "Version = ''0.1.0''"

text \<open>\<^verbatim>\<open>net.JoinHostPort\<close>; \<open>dial\<close> says whether a connection to an address is established within a second.\<close>

definition JoinHostPort :: "string \<Rightarrow> string \<Rightarrow> string" where
  "JoinHostPort host port =
     (if CHR '':'' \<in> set host then CHR ''['' # host @ '']:'' @ port else host @ CHR '':'' # port)"

definition checkPortAvailable :: "(string \<Rightarrow> bool) \<Rightarrow> string \<Rightarrow> unit res" where
  "checkPortAvailable dial addr =
     (case SplitHostPort addr of
        None \<Rightarrow> Inl (ErrorfS ''invalid address %q'' (str addr))
      | Some (host, port) \<Rightarrow>
          let host = if host = [] then ''127.0.0.1'' else host in
          if \<not> dial (JoinHostPort host port) then Inr ()
          else Inl (ErrorfS ''port %s is already in use by another process'' (str addr)))"

lemma after_last_append: "c \<notin> set ys \<Longrightarrow> after_last c (xs @ c # ys) = ys"
  unfolding after_last_def by (simp, subst takeWhile_append2) auto

text \<open>An address that was taken apart is put together again.\<close>

lemma SplitHostPort_Join:
  assumes "CHR '':'' \<notin> set port" and "set (host @ port) \<inter> {CHR ''['', CHR '']''} = {}"
  shows "SplitHostPort (JoinHostPort host port) = Some (host, port)"
proof (cases "CHR '':'' \<in> set host")
  case True
  have 1: "after_last CHR '':'' (CHR ''['' # host @ CHR '']'' # CHR '':'' # port) = port"
    using after_last_append [OF assms(1), of "CHR ''['' # host @ [CHR '']'']"] by simp
  have 2: "takeWhile (\<lambda>x. x \<noteq> CHR '']'') (host @ CHR '']'' # CHR '':'' # port) = host"
    using assms(2) by (subst takeWhile_append2) auto
  show ?thesis using True assms by (auto simp: SplitHostPort_def JoinHostPort_def 1 2 Let_def)
next
  case False
  have "hd (host @ CHR '':'' # port) \<noteq> CHR ''[''" using assms(2) by (cases host) auto
  then show ?thesis using False assms by (auto simp: SplitHostPort_def JoinHostPort_def after_last_append Let_def)
qed

text \<open>With a port alone the local machine is asked, as the loopback address.\<close>

lemma checkPortAvailable_port:
  assumes "set port \<inter> {CHR '':'', CHR ''['', CHR '']''} = {}"
  shows "checkPortAvailable dial (CHR '':'' # port) =
    (if dial (''127.0.0.1:'' @ port) then Inl (ErrorfS ''port %s is already in use by another process'' (str (CHR '':'' # port))) else Inr ())"
  using SplitHostPort_Join [of port "[]"] assms by (simp add: checkPortAvailable_def JoinHostPort_def Let_def)

section \<open>The pace of the frame writer\<close>

text \<open>\<^verbatim>\<open>time.Second / time.Duration(MaxFPS)\<close>\<close>

definition minInterval :: "('t, 'h) ServerConfig \<Rightarrow> int" where
  "minInterval config = 1000000000 sdiv sc_MaxFPS config"

text \<open>How long the writer sleeps before a frame; \<open>last_frame\<close> is \<^verbatim>\<open>lastFrameTime\<close>, \<^const>\<open>None\<close> its zero value.\<close>

definition pace :: "int \<Rightarrow> int option \<Rightarrow> int \<Rightarrow> int" where
  "pace interval last_frame now =
     (case last_frame of
        None \<Rightarrow> 0
      | Some t \<Rightarrow> let elapsed = now - t in if elapsed < interval then interval - elapsed else 0)"

record frame_stats =
  st_frameCount :: int
  st_totalCapture :: int
  st_totalEncode :: int
  st_totalSend :: int
  st_lastReport :: int

definition frame_stats_new :: "int \<Rightarrow> frame_stats" where
  "frame_stats_new now = \<lparr>st_frameCount = 0, st_totalCapture = 0, st_totalEncode = 0, st_totalSend = 0, st_lastReport = now\<rparr>"

text \<open>
  What one turn of the writer meets: the times when it looks whether to sleep, starts the frame, has sent it, looks whether to
  report and has reported; the frame and the cursor; and the time for capture, encoding and sending.
\<close>

record turn =
  tu_now :: int
  tu_start :: int
  tu_end :: int
  tu_since :: int
  tu_reported :: int
  tu_capture :: capture_result
  tu_cursor :: "(nat \<times> CursorImage) option"
  tu_durations :: "int \<times> int \<times> int"

text \<open>The report: the number of frames and the averages of capture, encoding, sending and of the whole frame.\<close>

type_synonym timing_report = "int \<times> int \<times> int \<times> int \<times> int"

definition frame_timing :: "turn \<Rightarrow> frame_stats \<Rightarrow> timing_report option \<times> frame_stats" where
  "frame_timing t st = (case tu_durations t of (captureDur, encodeDur, sendDur) \<Rightarrow>
     let st = st\<lparr>st_frameCount := st_frameCount st + 1, st_totalCapture := st_totalCapture st + captureDur,
                st_totalEncode := st_totalEncode st + encodeDur, st_totalSend := st_totalSend st + sendDur\<rparr>;
         since = tu_since t - st_lastReport st in
     if since \<ge> 5 * 1000000000 then
       let n = st_frameCount st;
           avg = (\<lambda>total. if n > 0 then total sdiv n else 0) in
       (Some (n, avg (st_totalCapture st), avg (st_totalEncode st), avg (st_totalSend st),
          (st_totalCapture st + st_totalEncode st + st_totalSend st) sdiv n), frame_stats_new (tu_reported t))
     else (None, st))"

text \<open>
  The loop over the requests it receives. The result: the time it slept before each frame it began, its reports, the error it
  ends with unless the channel is closed, and the state.
\<close>

fun framebufferWriter ::
  "deflater \<Rightarrow> int \<Rightarrow> (turn \<times> FramebufferUpdateRequest) list \<Rightarrow> int option \<times> frame_stats \<Rightarrow> ('t, 'h) session \<Rightarrow>
   int list \<times> timing_report list \<times> goerr option \<times> ('t, 'h) session" where
  "framebufferWriter z interval [] st s = ([], [], None, s)"
| "framebufferWriter z interval ((t, req) # turns) (last_frame, st) s =
     (let slept = pace interval last_frame (tu_now t) in
      case handleFramebufferRequest z (tu_capture t) (tu_cursor t) req s of
        (Inl err, s') \<Rightarrow> ([slept], [], Some err, s')
      | (Inr _, s') \<Rightarrow>
          (case frame_timing t st of (report, st') \<Rightarrow>
           case framebufferWriter z interval turns (Some (tu_end t), st') s' of (sleeps, reports, r) \<Rightarrow>
             (slept # sleeps, (case report of None \<Rightarrow> [] | Some x \<Rightarrow> [x]) @ reports, r)))"

text \<open>A sleep takes at least the time asked for, and the clock does not run backwards during a frame.\<close>

definition clock_runs :: "turn list \<Rightarrow> int list \<Rightarrow> bool" where
  "clock_runs ts sleeps \<longleftrightarrow> (\<forall>i < length sleeps. tu_now (ts ! i) + sleeps ! i \<le> tu_start (ts ! i) \<and>
     tu_start (ts ! i) \<le> tu_end (ts ! i))"

lemma pace_waits: "now + pace interval (Some t) now \<le> start \<Longrightarrow> t + interval \<le> start"
  by (auto simp: pace_def Let_def split: if_splits)

lemma framebufferWriter_sleeps:
  assumes "i < length (fst (framebufferWriter z interval turns st s))"
  shows "i < length turns \<and> fst (framebufferWriter z interval turns st s) ! i =
    pace interval (if i = 0 then fst st else Some (tu_end (fst (turns ! (i - 1))))) (tu_now (fst (turns ! i)))"
  using assms
proof (induction turns arbitrary: st s i)
  case (Cons tr turns)
  obtain t req where tr: "tr = (t, req)" by (cases tr)
  obtain l w where st: "st = (l, w)" by (cases st)
  show ?case
  proof (cases i)
    case 0
    then show ?thesis by (simp add: tr st Let_def split: prod.split sum.split)
  next
    case (Suc j)
    obtain u s' where h: "handleFramebufferRequest z (tu_capture t) (tu_cursor t) req s = (Inr u, s')"
      using Cons.prems Suc by (auto simp: tr st Let_def split: prod.splits sum.splits)
    obtain rep w' where ft: "frame_timing t w = (rep, w')" by (cases "frame_timing t w")
    have "fst (framebufferWriter z interval (tr # turns) st s) =
        pace interval l (tu_now t) # fst (framebufferWriter z interval turns (Some (tu_end t), w') s')"
      by (simp add: tr st Let_def h ft split: prod.split)
    moreover from this have "j < length (fst (framebufferWriter z interval turns (Some (tu_end t), w') s'))"
      using Cons.prems Suc by simp
    ultimately show ?thesis using Cons.IH [of j "(Some (tu_end t), w')" s'] Suc by (cases j) (simp_all add: tr)
  qed
qed simp

lemma clock_runsD:
  assumes "clock_runs (map fst turns) sleeps" and "i < length sleeps" and "i < length turns"
  shows "tu_now (fst (turns ! i)) + sleeps ! i \<le> tu_start (fst (turns ! i))" and "tu_start (fst (turns ! i)) \<le> tu_end (fst (turns ! i))"
  using assms by (auto simp: clock_runs_def dest!: spec [of _ i])

text \<open>
  C27: The frames of a connection keep the pace that is configured: whatever is captured and however long a frame takes, the
  start of a frame is at least the interval of the rate after the start of the one before, so that \<open>n\<close> frames after a frame at
  least \<open>n\<close> intervals have gone by.
\<close>

theorem frames_keep_pace:
  assumes "clock_runs (map fst turns) (fst (framebufferWriter z interval turns st s))"
    and "i \<le> j" and "j < length (fst (framebufferWriter z interval turns st s))"
  shows "tu_start (fst (turns ! i)) + int (j - i) * interval \<le> tu_start (fst (turns ! j))"
  using assms(2,3)
proof (induction rule: dec_induct)
  case (step k)
  let ?sl = "fst (framebufferWriter z interval turns st s)"
  have k: "k < length ?sl" "Suc k < length ?sl" "Suc k < length turns"
    using step.prems framebufferWriter_sleeps [of "Suc k" z interval turns st s] by auto
  have p: "?sl ! Suc k = pace interval (Some (tu_end (fst (turns ! k)))) (tu_now (fst (turns ! Suc k)))"
    using framebufferWriter_sleeps [OF k(2)] by simp
  have "tu_end (fst (turns ! k)) + interval \<le> tu_start (fst (turns ! Suc k))"
    using clock_runsD(1) [OF assms(1) k(2,3)] unfolding p by (rule pace_waits)
  moreover have "tu_start (fst (turns ! k)) \<le> tu_end (fst (turns ! k))"
    by (rule clock_runsD(2) [OF assms(1) k(1)]) (use k(3) in simp)
  moreover have "tu_start (fst (turns ! i)) + int (k - i) * interval \<le> tu_start (fst (turns ! k))" using step.IH k(1) by blast
  ultimately show ?case using step.hyps by (simp add: Suc_diff_le algebra_simps)
qed simp

lemma minInterval_rate:
  assumes "0 < sc_MaxFPS config"
  shows "minInterval config * sc_MaxFPS config \<le> 1000000000 \<and> 1000000000 < (minInterval config + 1) * sc_MaxFPS config"
proof -
  define q where "q = 1000000000 div sc_MaxFPS config"
  define r where "r = 1000000000 mod sc_MaxFPS config"
  have "minInterval config = q" using assms by (simp add: minInterval_def q_def signed_divide_int_def)
  moreover have "q * sc_MaxFPS config + r = 1000000000" by (simp add: q_def r_def)
  moreover have "0 \<le> r" "r < sc_MaxFPS config" using assms by (simp_all add: r_def)
  ultimately show ?thesis by (simp add: distrib_right)
qed

definition blank_config :: "(unit, unit) ServerConfig" where
  "blank_config = example_config\<lparr>sc_hasCapturer := False\<rparr>"

definition blank_session :: "(unit, unit) session" where
  "blank_session = \<lparr>ses_config = blank_config, ses_client = newClientConn blank_config (live [] [])\<rparr>"

definition blank_request :: FramebufferUpdateRequest where
  "blank_request = \<lparr>req_Incremental = 0, req_X = 0, req_Y = 0, req_Width = 1, req_Height = 1\<rparr>"

definition demo_turn :: "int \<Rightarrow> int \<Rightarrow> int \<Rightarrow> turn" where
  "demo_turn now start t = \<lparr>tu_now = now, tu_start = start, tu_end = t, tu_since = t, tu_reported = t,
     tu_capture = \<lparr>cap_bounds = (0, 0), cap_frame = Inl EOF, cap_dirty = None\<rparr>, tu_cursor = None, tu_durations = (0, 0, 0)\<rparr>"

theorem frames_keep_pace_witness:
  "let turns = [(demo_turn 0 0 5, blank_request), (demo_turn 8 36 40, blank_request)];
       run = framebufferWriter stored 30 turns (None, frame_stats_new 0) blank_session
   in fst run = [0, 27] \<and> clock_runs (map fst turns) (fst run) \<and> tu_start (fst (turns ! 0)) + 30 \<le> tu_start (fst (turns ! 1))"
proof -
  let ?turns = "[(demo_turn 0 0 5, blank_request), (demo_turn 8 36 40, blank_request)]"
  let ?run = "framebufferWriter stored 30 ?turns (None, frame_stats_new 0) blank_session"
  have r: "fst ?run = [0, 27]" by code_simp
  then have c: "clock_runs (map fst ?turns) (fst ?run)" by (simp add: clock_runs_def demo_turn_def less_Suc_eq)
  show ?thesis using frames_keep_pace [OF c, of 0 1] r c by simp
qed

section \<open>One connection\<close>

text \<open>
  The deferred function of \<^verbatim>\<open>handleConnection\<close>: the encoders are reset and stay in place. Closing the channel ends the loop of the
  writer once it has taken the request that is still in it.
\<close>

definition reset_encoders :: "('t, 'h) session \<Rightarrow> ('t, 'h) session" where
  "reset_encoders s = upd_client (\<lambda>c. c\<lparr>
     cc_tightEnc := (case sc_NewTightEncoder (ses_config s) of None \<Rightarrow> cc_tightEnc c | Some me \<Rightarrow> map_option (me_Reset me) (cc_tightEnc c)),
     cc_h264Enc := (case sc_NewH264Encoder (ses_config s) of None \<Rightarrow> cc_h264Enc c | Some me \<Rightarrow> map_option (me_Reset me) (cc_h264Enc c))\<rparr>) s"

text \<open>
  A connection from the first byte to the last: the error it ends with, whether the writer was started, and the state. What the
  writer does meanwhile are steps of \<^const>\<open>conn_step\<close>.
\<close>

definition handleConnection :: "('t, 'h) ServerConfig \<Rightarrow> conn \<Rightarrow> (goerr \<times> bool \<times> ('t, 'h) session) option" where
  "handleConnection config conn =
     (let s = \<lparr>ses_config = config, ses_client = newClientConn config conn\<rparr> in
      case on_wire (server_handshake config) s of
        (Inl err, s) \<Rightarrow> Some (err, False, reset_encoders s)
      | (Inr _, s) \<Rightarrow> map_option (\<lambda>(err, s). (err, True, reset_encoders s)) (serveMessages s))"


section \<open>A client that goes while a frame is due\<close>

text \<open>The H.264 encoder of \<^verbatim>\<open>h264/encoder.go\<close> as the encoder of a connection; \<open>e\<close> is what \<^verbatim>\<open>NewEncoder\<close> returns.\<close>

definition h264_multi :: "'b backend \<Rightarrow> 'b H264Encoder \<Rightarrow> 'b H264Encoder MultiEncoder" where
  "h264_multi be e = \<lparr>me_new = e,
     me_EncodeMulti = (\<lambda>(x, y, w, h) pixels stride. H264_EncodeMulti be x y w h pixels stride), me_Reset = snd \<circ> H264_Reset be\<rparr>"

lemma H264_reset_encoder_panics:
  assumes "he_backend e = None"
  shows "is_panic (fst (H264_EncodeMulti be x y w h pixels stride e))"
proof (cases "unat w = he_width e \<and> unat h = he_height e")
  case True
  then have r: "H264_resize be (unat w) (unat h) e = (Inr (), e)" by (simp add: H264_resize_def)
  show ?thesis
  proof (cases "bgraToNV12 pixels (unat w) (unat h) stride (unat x) (unat y) (he_nv12Buf e)")
    case (Inl er)
    have "no_err (bgraToNV12 pixels (unat w) (unat h) stride (unat x) (unat y) (he_nv12Buf e))"
      by (auto simp: bgraToNV12_def intro!: no_err_rbind no_err_slices foldM_no_err no_err_nv12_pixel)
    then show ?thesis using Inl r by (auto simp: H264_EncodeMulti_def bind_io_def get_state_def lift_res_def no_err_def is_panic_iff)
  next
    case (Inr nv12)
    then show ?thesis
      using r assms by (simp add: H264_EncodeMulti_def bind_io_def get_state_def lift_res_def modify_def H264_encode_def)
  qed
next
  case False
  then have "H264_resize be (unat w) (unat h) e = (Inl (GoPanic ''nil pointer dereference''), e)"
    using assms by (auto simp: H264_resize_def)
  then show ?thesis by (simp add: H264_EncodeMulti_def bind_io_def)
qed

text \<open>What decides on the encoding is the same after the pseudo rectangles.\<close>

definition h264_view :: "('t, 'h) session \<Rightarrow> bool \<times> i32 \<times> 'h MultiEncoder option \<times> 'h option" where
  "h264_view s = (sc_hasCapturer (ses_config s), bestEncoding (ses_config s) (cc_encodings (ses_client s)), sc_NewH264Encoder (ses_config s),
     cc_h264Enc (ses_client s))"

lemma bestEncoding_cong:
  "sc_NewH264Encoder c = sc_NewH264Encoder d \<Longrightarrow> sc_NewTightEncoder c = sc_NewTightEncoder d \<Longrightarrow> bestEncoding c encs = bestEncoding d encs"
  by (simp add: bestEncoding_def)

lemma desktop_size_rects_view: "\<exists>rs s'. desktop_size_rects bounds s = (Inr rs, s') \<and> h264_view s' = h264_view s"
  by (auto simp: desktop_size_rects_def bind_io_def get_state_def modify_def ret_def h264_view_def intro!: bestEncoding_cong)

lemma cursor_rects_view:
  "(\<exists>rs s'. cursor_rects cursor s = (Inr rs, s') \<and> h264_view s' = h264_view s) \<or> (\<exists>p s'. cursor_rects cursor s = (Inl (GoPanic p), s'))"
proof (cases "supportsCursor (cc_encodings (ses_client s)) \<and> sc_hasCursorProvider (ses_config s)")
  case True
  show ?thesis
  proof (cases cursor)
    case (Some ai)
    then show ?thesis
      using True no_err_EncodeCursorRect [of "snd ai" "cc_pixelFormat (ses_client s)" "sc_PixelFormat (ses_config s)"]
      by (cases ai) (auto simp: cursor_rects_def bind_io_def get_state_def modify_def ret_def lift_res_def h264_view_def upd_client_def
        Let_def no_err_def is_panic_iff)
  qed (use True in \<open>auto simp: cursor_rects_def bind_io_def get_state_def ret_def Let_def\<close>)
qed (auto simp: cursor_rects_def bind_io_def get_state_def ret_def Let_def)

lemma h264_frame_panics:
  assumes "h264_view s = (True, EncodingH264, Some (h264_multi be e0), Some e)" and "he_backend e = None"
    and "encodeRegions req None \<noteq> []" and "cap_frame cap = Inr (pixels, stride)"
  shows "is_panic (fst (handleFramebufferRequest z cap cursor req s))"
proof -
  obtain rs s1 where 1: "desktop_size_rects (cap_bounds cap) s = (Inr rs, s1)" "h264_view s1 = h264_view s"
    using desktop_size_rects_view by blast
  have start: "handleFramebufferRequest z cap cursor req s =
      encodeAndSendFrame z (cap_bounds cap) cursor req pixels stride (if req_Incremental req = 0 then None else cap_dirty cap) s"
    using assms(1,4) by (simp add: handleFramebufferRequest_def bind_io_def get_state_def lift_res_def h264_view_def Let_def)
  show ?thesis
  proof (cases "fst (cursor_rects cursor s1)")
    case (Inl er)
    then have "is_panic (Inl er :: unit res)" using cursor_rects_view [of cursor s1] by auto
    then show ?thesis using Inl 1(1) by (cases "cursor_rects cursor s1") (auto simp: start encodeAndSendFrame_def bind_io_def is_panic_iff)
  next
    case (Inr cs)
    then obtain s2 where 2: "cursor_rects cursor s1 = (Inr cs, s2)" "h264_view s2 = h264_view s1"
      using cursor_rects_view [of cursor s1] by auto
    have v: "h264_view s2 = (True, EncodingH264, Some (h264_multi be e0), Some e)" using 1(2) 2(2) assms(1) by simp
    obtain p e' where p: "H264_EncodeMulti be 0 0 (fst (cap_bounds cap)) (snd (cap_bounds cap)) pixels stride e = (Inl (GoPanic p), e')"
      using H264_reset_encoder_panics [OF assms(2), of be 0 0] by (metis is_panic_iff prod.collapse)
    have "is_panic (fst (encode_regions z EncodingH264 (cap_bounds cap) pixels stride regs s2))" for regs
      using v p by (simp add: encode_regions_def bind_io_def get_state_def h264_view_def Let_def wrap_def on_h264_def h264_multi_def split_beta)
    then obtain q s3 where "encode_regions z EncodingH264 (cap_bounds cap) pixels stride (encodeRegions req None) s2 = (Inl (GoPanic q), s3)"
      by (metis is_panic_iff prod.collapse)
    then show ?thesis
      using 1(1) 2(1) v assms(3) by (simp add: start encodeAndSendFrame_def bind_io_def get_state_def h264_view_def Let_def)
  qed
qed

text \<open>
  C9: A client with H.264 that disconnects while a frame is due ends the server. The end of its connection resets the encoder,
  and the writer, which still has a request, encodes with it: it calls a method of the missing backend, whatever it has
  captured, and no one recovers.
\<close>

theorem disconnect_during_h264_panics:
  assumes "sc_NewH264Encoder (ses_config s) = Some (h264_multi be e0)" and "cc_h264Enc (ses_client s) = Some e"
    and "bestEncoding (ses_config s) (cc_encodings (ses_client s)) = EncodingH264" and "sc_hasCapturer (ses_config s)"
    and "encodeRegions req None \<noteq> []" and "cap_frame cap = Inr (pixels, stride)"
  shows "is_panic (fst (handleFramebufferRequest z cap cursor req (reset_encoders s)))"
proof (rule h264_frame_panics [OF _ _ assms(5,6)])
  show "h264_view (reset_encoders s) = (True, EncodingH264, Some (h264_multi be e0), Some (snd (H264_Reset be e)))"
    using assms by (simp add: h264_view_def reset_encoders_def upd_client_def h264_multi_def)
  show "he_backend (snd (H264_Reset be e)) = None"
    by (simp add: H264_Reset_def split: option.split)
qed


definition h264_config :: "(unit, unit H264Encoder) ServerConfig" where
  "h264_config =
     \<lparr>sc_Width = 2, sc_Height = 2, sc_Name = str ''demo'', sc_Security = [noneSecurity], sc_PixelFormat = DefaultPixelFormat,
      sc_NewTightEncoder = None,
      sc_NewH264Encoder = Some (h264_multi echo_backend echo_encoder),
      sc_hasCapturer = True, sc_hasInput = False, sc_hasClipboard = False, sc_hasCursorProvider = False, sc_MaxFPS = 30\<rparr>"

definition h264_session :: "(unit, unit H264Encoder) session" where
  "h264_session = \<lparr>ses_config = h264_config, ses_client = (newClientConn h264_config (live [] []))
     \<lparr>cc_encodings := [EncodingH264], cc_h264Enc := Some echo_encoder\<rparr>\<rparr>"

theorem disconnect_during_h264_panics_witness:
  "is_panic (fst (handleFramebufferRequest stored \<lparr>cap_bounds = (2, 2), cap_frame = Inr (replicate 16 0, 8), cap_dirty = None\<rparr> None
     \<lparr>req_Incremental = 0, req_X = 0, req_Y = 0, req_Width = 2, req_Height = 2\<rparr> (reset_encoders h264_session)))"
  by (rule disconnect_during_h264_panics)
    (simp_all add: h264_session_def h264_config_def newClientConn_def bestEncoding_def encodeRegions_def req_rect_def
      EncodingH264_def EncodingTight_def)


section \<open>The server from start to end\<close>

text \<open>
  \<open>lf_listener\<close> says whether the field is set, \<open>lf_socket\<close> whether the listening socket is open; \<open>lf_conns\<close> are the connections that were
  accepted, each with a goroutine of its own, \<open>lf_shut\<close> those whose connection is closed. \<^verbatim>\<open>Close\<close> runs in a goroutine of its caller and
  other goroutines run between its parts.
\<close>

datatype serve_phase = NotServing | Accepting | Returned "goerr option"
datatype conn_phase = Spawned | Serving | Gone
datatype close_phase = NotClosed | DoneClosed | ListenerClosed | ClientsClosed

record ('t, 'h) life =
  lf_server :: "('t, 'h) Server"
  lf_done :: bool
  lf_listener :: bool
  lf_socket :: bool
  lf_serve :: serve_phase
  lf_conns :: "nat \<Rightarrow> conn_phase option"
  lf_shut :: "nat set"
  lf_close :: close_phase

definition life_new :: "('t, 'h) ServerConfig \<Rightarrow> ('t, 'h) life" where
  "life_new config = \<lparr>lf_server = \<lparr>srv_config = config, srv_clients = (\<lambda>_. None)\<rparr>, lf_done = False, lf_listener = False, lf_socket = False,
     lf_serve = NotServing, lf_conns = (\<lambda>_. None), lf_shut = {}, lf_close = NotClosed\<rparr>"

text \<open>\<^verbatim>\<open>ListenAndServe\<close> up to its loop, with the answers of \<^verbatim>\<open>checkPortAvailable\<close> and \<^verbatim>\<open>net.Listen\<close>; a failing \<^verbatim>\<open>Accept\<close>.\<close>

definition serve_start :: "unit res \<Rightarrow> unit res \<Rightarrow> ('t, 'h) life \<Rightarrow> ('t, 'h) life" where
  "serve_start check listen s =
     (case rbind check (\<lambda>_. rwrap ''listen: %w'' [] listen) of
        Inl err \<Rightarrow> s\<lparr>lf_serve := Returned (Some err)\<rparr>
      | Inr _ \<Rightarrow> s\<lparr>lf_listener := True, lf_socket := True, lf_serve := Accepting\<rparr>)"

definition accept_failed :: "('t, 'h) life \<Rightarrow> ('t, 'h) life" where
  "accept_failed s = (if lf_done s then s\<lparr>lf_serve := Returned None\<rparr> else s)"

definition accept_conn :: "nat \<Rightarrow> ('t, 'h) life \<Rightarrow> ('t, 'h) life" where
  "accept_conn i s = s\<lparr>lf_conns := (lf_conns s)(i \<mapsto> Spawned)\<rparr>"

text \<open>The beginning of \<^verbatim>\<open>handleConnection\<close>, and its end.\<close>

definition register_conn :: "nat \<Rightarrow> conn \<Rightarrow> ('t, 'h) life \<Rightarrow> ('t, 'h) life" where
  "register_conn i d s = s\<lparr>lf_server := addClient i (newClientConn (srv_config (lf_server s)) d) (lf_server s),
     lf_conns := (lf_conns s)(i \<mapsto> Serving)\<rparr>"

definition finish_conn :: "nat \<Rightarrow> ('t, 'h) life \<Rightarrow> ('t, 'h) life" where
  "finish_conn i s = s\<lparr>lf_server := removeClient i (lf_server s), lf_shut := insert i (lf_shut s), lf_conns := (lf_conns s)(i \<mapsto> Gone)\<rparr>"

text \<open>\<^verbatim>\<open>Close\<close>: closing the channel, closing the listener when there is one, and closing the clients under the mutex.\<close>

definition close_done :: "('t, 'h) life \<Rightarrow> unit res \<times> ('t, 'h) life" where
  "close_done s = (if lf_done s then (Inl (GoPanic ''close of closed channel''), s) else (Inr (), s\<lparr>lf_done := True, lf_close := DoneClosed\<rparr>))"

definition close_listener :: "('t, 'h) life \<Rightarrow> ('t, 'h) life" where
  "close_listener s = s\<lparr>lf_socket := lf_socket s \<and> \<not> lf_listener s, lf_close := ListenerClosed\<rparr>"

definition close_clients :: "('t, 'h) life \<Rightarrow> ('t, 'h) life" where
  "close_clients s = s\<lparr>lf_shut := lf_shut s \<union> dom (srv_clients (lf_server s)), lf_close := ClientsClosed\<rparr>"

definition Server_Close :: "('t, 'h) life \<Rightarrow> unit res \<times> ('t, 'h) life" where
  "Server_Close s = (case close_done s of (Inl e, s) \<Rightarrow> (Inl e, s) | (Inr _, s) \<Rightarrow> (Inr (), close_clients (close_listener s)))"

text \<open>
  The steps of the goroutines. The flag tells the steps the server takes by itself from those that need a client, the system or the
  caller: a connection that is closed ends, an open one ends when its client goes or sends what is refused. The frame writer of a connection belongs to
  its turn here (\<open>framebufferWriter\<close> has its own steps), and the capture goroutine that \<^verbatim>\<open>NewServer\<close> starts is not among the goroutines: nothing in
  \<^verbatim>\<open>Close\<close> stops it.
\<close>

inductive life_step :: "bool \<Rightarrow> ('t, 'h) life \<Rightarrow> ('t, 'h) life \<Rightarrow> bool" where
  serve: "lf_serve s = NotServing \<Longrightarrow> life_step False s (serve_start check listen s)"
| accepts: "lf_serve s = Accepting \<Longrightarrow> lf_socket s \<Longrightarrow> lf_conns s i = None \<Longrightarrow> life_step False s (accept_conn i s)"
| accept_error: "lf_serve s = Accepting \<Longrightarrow> lf_socket s \<Longrightarrow> life_step False s (accept_failed s)"
| accept_closed: "lf_serve s = Accepting \<Longrightarrow> \<not> lf_socket s \<Longrightarrow> life_step True s (accept_failed s)"
| registers: "lf_conns s i = Some Spawned \<Longrightarrow> life_step True s (register_conn i d s)"
| goes: "lf_conns s i = Some Serving \<Longrightarrow> i \<notin> lf_shut s \<Longrightarrow> life_step False s (finish_conn i s)"
| ends: "lf_conns s i = Some Serving \<Longrightarrow> i \<in> lf_shut s \<Longrightarrow> life_step True s (finish_conn i s)"
| closes: "close_done s = (Inr u, s') \<Longrightarrow> life_step False s s'"
| closes_listener: "lf_close s = DoneClosed \<Longrightarrow> life_step True s (close_listener s)"
| closes_clients: "lf_close s = ListenerClosed \<Longrightarrow> life_step True s (close_clients s)"

inductive_cases life_stepE: "life_step k s s'"

abbreviation any_step :: "('t, 'h) life \<Rightarrow> ('t, 'h) life \<Rightarrow> bool" where
  "any_step s s' \<equiv> \<exists>k. life_step k s s'"

lemmas life_ops = serve_start_def accept_failed_def accept_conn_def register_conn_def finish_conn_def close_done_def close_listener_def
  close_clients_def addClient_def removeClient_def

text \<open>What holds in every state that is reached.\<close>

definition serve_ok :: "('t, 'h) life \<Rightarrow> bool" where
  "serve_ok s \<longleftrightarrow>
     lf_serve s \<in> (if lf_listener s then {Accepting, Returned None} else insert NotServing (range (Returned \<circ> Some))) \<and>
     (lf_socket s \<longrightarrow> lf_listener s) \<and> (lf_done s \<longleftrightarrow> lf_close s \<noteq> NotClosed) \<and> (\<not> lf_socket s \<and> lf_serve s = Accepting \<longrightarrow> lf_done s)"

definition conns_ok :: "('t, 'h) life \<Rightarrow> bool" where
  "conns_ok s \<longleftrightarrow> (\<forall>i. (srv_clients (lf_server s) i = None) = (lf_conns s i \<noteq> Some Serving)) \<and>
     (\<forall>i. (i \<in> lf_shut s \<longrightarrow> lf_conns s i = Some Serving \<or> lf_conns s i = Some Gone) \<and> (lf_conns s i = Some Gone \<longrightarrow> i \<in> lf_shut s))"

lemma serve_ok_new: "serve_ok (life_new config)"
  by (simp add: serve_ok_def life_new_def)

lemma conns_ok_new: "conns_ok (life_new config)"
  by (simp add: conns_ok_def life_new_def)

lemma serve_ok_step: "life_step k s s' \<Longrightarrow> serve_ok s \<Longrightarrow> serve_ok s'"
  by (induction rule: life_step.induct) (auto simp: serve_ok_def life_ops split: if_splits sum.splits)

lemma conns_ok_step: "life_step k s s' \<Longrightarrow> conns_ok s \<Longrightarrow> conns_ok s'"
proof (induction rule: life_step.induct)
  case (serve s check listen)
  then show ?case by (auto simp: conns_ok_def life_ops split: sum.split)
next
  case (accepts s i)
  then show ?case by (fastforce simp: conns_ok_def life_ops)
next
  case (closes_clients s)
  then show ?case by (simp add: conns_ok_def life_ops domIff)
qed (auto simp: conns_ok_def life_ops split: if_splits)


text \<open>
  After the listener has been closed nothing is accepted any more. \<open>work\<close> bounds the steps the server still takes by itself: two for a
  connection that has to be registered, one for one that ends, one for the accept loop, and the closing of the clients.
\<close>

definition closing :: "nat set \<Rightarrow> ('t, 'h) life \<Rightarrow> bool" where
  "closing conns s \<longleftrightarrow> lf_listener s \<and> \<not> lf_socket s \<and> lf_close s \<in> {ListenerClosed, ClientsClosed} \<and> dom (lf_conns s) = conns"

fun conn_work :: "conn_phase option \<Rightarrow> nat" where
  "conn_work (Some Spawned) = 2"
| "conn_work (Some Serving) = 1"
| "conn_work _ = 0"

definition work :: "nat set \<Rightarrow> ('t, 'h) life \<Rightarrow> nat" where
  "work conns s = (\<Sum>i \<in> conns. conn_work (lf_conns s i)) + (if lf_serve s = Accepting then 1 else 0) + (if lf_close s = ClientsClosed then 0 else 1)"

lemma sum_conn_work:
  assumes "finite conns" and "i \<in> conns" and "conn_work p < conn_work (f i)"
  shows "(\<Sum>j \<in> conns. conn_work ((f(i := p)) j)) < (\<Sum>j \<in> conns. conn_work (f j))"
  using assms by (intro sum_strict_mono_ex1) auto

lemma closing_step:
  assumes "life_step k s s'" and "closing conns s" and "serve_ok s" and "finite conns"
  shows "closing conns s' \<and> work conns s' \<le> work conns s \<and> (k \<longrightarrow> work conns s' < work conns s)"
  using assms
proof (induction rule: life_step.induct)
  case (registers s i d)
  then have "i \<in> conns" by (auto simp: closing_def)
  then show ?case using registers sum_conn_work [of conns i "Some Serving" "lf_conns s"]
    by (auto simp: closing_def work_def life_ops)
next
  case (goes s i)
  then have "i \<in> conns" by (auto simp: closing_def)
  then show ?case using goes sum_conn_work [of conns i "Some Gone" "lf_conns s"]
    by (auto simp: closing_def work_def life_ops)
next
  case (ends s i)
  then have "i \<in> conns" by (auto simp: closing_def)
  then show ?case using ends sum_conn_work [of conns i "Some Gone" "lf_conns s"]
    by (auto simp: closing_def work_def life_ops)
qed (auto simp: closing_def work_def life_ops serve_ok_def split: if_splits)

text \<open>A connection that is closed stays so, and a client that was registered ends.\<close>

lemma shut_grows: "life_step k s s' \<Longrightarrow> lf_shut s \<subseteq> lf_shut s'"
  by (induction rule: life_step.induct) (auto simp: life_ops split: if_splits sum.split)

lemma any_steps_shut: "any_step\<^sup>*\<^sup>* s s' \<Longrightarrow> lf_shut s \<subseteq> lf_shut s'"
  by (induction rule: rtranclp_induct) (use shut_grows in blast)+

lemma any_steps_closing:
  assumes "any_step\<^sup>*\<^sup>* s s'" and "closing conns s" and "serve_ok s" and "conns_ok s" and "finite conns"
  shows "closing conns s' \<and> serve_ok s' \<and> conns_ok s' \<and> work conns s' \<le> work conns s"
  using assms
proof (induction rule: rtranclp_induct)
  case (step y z)
  then obtain k where k: "life_step k y z" by blast
  have "closing conns y" "serve_ok y" "conns_ok y" "work conns y \<le> work conns s" using step by auto
  then show ?case using closing_step [OF k, of conns] serve_ok_step [OF k] conns_ok_step [OF k] step.prems(4) by auto
qed simp

text \<open>When the server can do nothing more by itself, its loop has returned and only clients that came too late are still served.\<close>

lemma nothing_left:
  assumes "\<And>s'. \<not> life_step True s s'" and "closing conns s" and "serve_ok s"
  shows "lf_serve s = Returned None \<and> lf_close s = ClientsClosed \<and> (\<forall>i \<in> conns. lf_conns s i = Some Gone \<or> lf_conns s i = Some Serving \<and> i \<notin> lf_shut s)"
proof (intro conjI ballI)
  show "lf_serve s = Returned None"
    using notE [OF assms(1) life_step.accept_closed] assms(2,3) by (auto simp: closing_def serve_ok_def)
  show "lf_close s = ClientsClosed" using notE [OF assms(1) life_step.closes_clients] assms(2) by (auto simp: closing_def)
  fix i
  assume "i \<in> conns"
  then obtain p where "lf_conns s i = Some p" using assms(2) by (auto simp: closing_def)
  then show "lf_conns s i = Some Gone \<or> lf_conns s i = Some Serving \<and> i \<notin> lf_shut s"
    using notE [OF assms(1) life_step.registers] notE [OF assms(1) life_step.ends] by (cases p) auto
qed

lemma finite_conns_step: "life_step k s s' \<Longrightarrow> finite (dom (lf_conns s)) \<Longrightarrow> finite (dom (lf_conns s'))"
  by (induction rule: life_step.induct) (auto simp: life_ops split: if_splits sum.split)

lemma reached_ok:
  assumes "any_step\<^sup>*\<^sup>* (life_new config) s"
  shows "serve_ok s \<and> conns_ok s \<and> finite (dom (lf_conns s))"
  using assms
proof (induction rule: rtranclp_induct)
  case base
  then show ?case by (simp add: serve_ok_new conns_ok_new) (simp add: life_new_def)
qed (use serve_ok_step conns_ok_step finite_conns_step in blast)


lemma own_steps_bounded:
  assumes "(life_step True ^^ n) s s'" and "closing conns s" and "serve_ok s" and "conns_ok s" and "finite conns"
  shows "any_step\<^sup>*\<^sup>* s s' \<and> work conns s' + n \<le> work conns s"
  using assms
proof (induction n arbitrary: s')
  case (Suc n)
  obtain t where t: "(life_step True ^^ n) s t" "life_step True t s'" using Suc.prems(1) by auto
  have "any_step\<^sup>*\<^sup>* s t" "work conns t + n \<le> work conns s" using Suc.IH [OF t(1)] Suc.prems by auto
  moreover have "closing conns t" "serve_ok t"
    using any_steps_closing [OF \<open>any_step\<^sup>*\<^sup>* s t\<close>, of conns] Suc.prems by auto
  ultimately show ?case using closing_step [OF t(2), of conns] Suc.prems(5) t(2) by (auto intro: rtranclp.rtrancl_into_rtrancl)
qed simp

lemma work_bound: "finite conns \<Longrightarrow> lf_close s = ClientsClosed \<Longrightarrow> work conns s \<le> 2 * card conns + 1"
proof -
  assume "finite conns" and "lf_close s = ClientsClosed"
  moreover have "conn_work p \<le> 2" for p by (cases p rule: conn_work.cases) auto
  then have "(\<Sum>i \<in> conns. conn_work (lf_conns s i)) \<le> 2 * card conns" using sum_bounded_above [of conns "\<lambda>i. conn_work (lf_conns s i)" 2] by simp
  ultimately show ?thesis by (simp add: work_def)
qed

text \<open>
  C8: A server that is closed winds down. Once \<^verbatim>\<open>Close\<close> has closed the listener and the clients, in every order of the goroutines and
  whatever the clients do, no connection is accepted any more; the server itself takes only as many steps as it had connections
  to end, and when it has nothing left to do \<^verbatim>\<open>ListenAndServe\<close> has returned nil and every connection has ended, except for
  connections that were accepted and not yet registered when the clients were closed.
\<close>

theorem close_winds_down:
  assumes "any_step\<^sup>*\<^sup>* (life_new config) s" and "lf_listener s" and "\<not> lf_socket s" and "lf_close s = ListenerClosed"
    and "any_step\<^sup>*\<^sup>* (close_clients s) s1" and "(life_step True ^^ n) s1 s2"
  shows "dom (lf_conns s2) = dom (lf_conns s) \<and> n \<le> 2 * card (dom (lf_conns s)) + 1 \<and>
    ((\<forall>s3. \<not> life_step True s2 s3) \<longrightarrow> lf_serve s2 = Returned None \<and>
      (\<forall>i \<in> dom (lf_conns s). lf_conns s2 i = Some Gone \<or> lf_conns s2 i = Some Serving \<and> lf_conns s i = Some Spawned))"
proof -
  let ?c = "dom (lf_conns s)"
  have ok: "serve_ok s" "conns_ok s" "finite ?c" using reached_ok [OF assms(1)] by auto
  have st: "life_step True s (close_clients s)" using assms(4) by (rule life_step.closes_clients)
  have cl: "closing ?c (close_clients s)" using assms(2-4) by (simp add: closing_def close_clients_def)
  have 1: "closing ?c s1" "serve_ok s1" "conns_ok s1" "work ?c s1 \<le> work ?c (close_clients s)"
    using any_steps_closing [OF assms(5) cl serve_ok_step [OF st ok(1)] conns_ok_step [OF st ok(2)] ok(3)] by auto
  have 2: "any_step\<^sup>*\<^sup>* s1 s2" "work ?c s2 + n \<le> work ?c s1" using own_steps_bounded [OF assms(6) 1(1-3) ok(3)] by auto
  have 3: "closing ?c s2" "serve_ok s2" using any_steps_closing [OF 2(1) 1(1-3) ok(3)] by auto
  have "work ?c (close_clients s) \<le> 2 * card ?c + 1" by (rule work_bound [OF ok(3)]) (simp add: close_clients_def)
  then have "n \<le> 2 * card ?c + 1" using 1(4) 2(2) by simp
  moreover have "lf_shut (close_clients s) \<subseteq> lf_shut s2" using any_steps_shut [OF assms(5)] any_steps_shut [OF 2(1)] by blast
  then have "lf_conns s i = Some Spawned" if "i \<in> ?c" "i \<notin> lf_shut s2" for i
  proof -
    obtain p where p: "lf_conns s i = Some p" using \<open>i \<in> ?c\<close> by blast
    moreover have "srv_clients (lf_server s) i = None" "i \<notin> lf_shut s"
      using \<open>i \<notin> lf_shut s2\<close> \<open>lf_shut (close_clients s) \<subseteq> lf_shut s2\<close> by (auto simp: close_clients_def)
    ultimately show ?thesis using ok(2) by (cases p) (auto simp: conns_ok_def)
  qed
  ultimately show ?thesis using 3(1) nothing_left [OF _ 3] by (simp add: closing_def) blast
qed

text \<open>
  When \<^verbatim>\<open>Close\<close> runs before \<^verbatim>\<open>ListenAndServe\<close> has stored the listener, nobody closes it any more: the server listens and serves for ever.
\<close>

lemma early_close_keeps_listening:
  assumes "lf_close s = ClientsClosed" and "lf_socket s" and "serve_ok s" and "any_step\<^sup>*\<^sup>* s s'"
  shows "lf_socket s' \<and> lf_close s' = ClientsClosed \<and> serve_ok s'"
  using assms(4)
proof (induction rule: rtranclp_induct)
  case (step y z)
  then obtain k where "life_step k y z" by blast
  then show ?case using step.IH serve_ok_step [of k y z]
    by (cases rule: life_step.cases) (auto simp: life_ops serve_ok_def split: if_splits sum.splits)
qed (use assms in simp)

lemma early_close_reached:
  "\<exists>s. any_step\<^sup>*\<^sup>* (life_new config) s \<and> lf_close s = ClientsClosed \<and> lf_socket s \<and> lf_serve s = Accepting"
proof -
  let ?n = "life_new config"
  define a where "a = snd (close_done ?n)"
  define b where "b = close_clients (close_listener a)"
  have 1: "any_step ?n a" by (rule exI, rule life_step.closes [where u = "()"]) (simp add: a_def close_done_def life_new_def)
  have 2: "any_step a (close_listener a)" by (rule exI, rule life_step.closes_listener) (simp add: a_def close_done_def life_new_def)
  have 3: "any_step (close_listener a) b" unfolding b_def by (rule exI, rule life_step.closes_clients) (simp add: close_listener_def)
  have 4: "any_step b (serve_start (Inr ()) (Inr ()) b)"
    by (rule exI, rule life_step.serve) (simp add: a_def b_def life_ops life_new_def)
  have "any_step\<^sup>*\<^sup>* ?n (serve_start (Inr ()) (Inr ()) b)"
    by (rule converse_rtranclp_into_rtranclp, rule 1)+
      (rule converse_rtranclp_into_rtranclp, rule 2, rule converse_rtranclp_into_rtranclp, rule 3, rule r_into_rtranclp, rule 4)
  then show ?thesis by (intro exI) (auto simp: b_def life_ops)
qed


definition served_life :: "(unit, unit) life" where
  "served_life = register_conn 1 (live [] []) (accept_conn 1 (serve_start (Inr ()) (Inr ()) (life_new example_config)))"

definition closing_life :: "(unit, unit) life" where
  "closing_life = close_listener (snd (close_done served_life))"

lemma served_life_reached: "any_step\<^sup>*\<^sup>* (life_new example_config) served_life"
proof -
  let ?a = "serve_start (Inr ()) (Inr ()) (life_new example_config)"
  have 1: "any_step (life_new example_config) ?a" by (rule exI, rule life_step.serve) (simp add: life_new_def)
  have 2: "any_step ?a (accept_conn 1 ?a)" by (rule exI, rule life_step.accepts) (simp_all add: life_ops life_new_def)
  have 3: "any_step (accept_conn 1 ?a) served_life"
    unfolding served_life_def by (rule exI, rule life_step.registers) (simp add: accept_conn_def)
  show ?thesis
    by (rule converse_rtranclp_into_rtranclp, rule 1, rule converse_rtranclp_into_rtranclp, rule 2, rule r_into_rtranclp, rule 3)
qed

lemma closing_life_reached: "any_step\<^sup>*\<^sup>* (life_new example_config) closing_life"
proof -
  have 1: "any_step served_life (snd (close_done served_life))"
    by (rule exI, rule life_step.closes [where u = "()"]) (simp add: served_life_def life_ops life_new_def)
  have 2: "any_step (snd (close_done served_life)) closing_life"
    unfolding closing_life_def by (rule exI, rule life_step.closes_listener) (simp add: served_life_def life_ops life_new_def)
  show ?thesis
    by (rule rtranclp_trans [OF served_life_reached], rule converse_rtranclp_into_rtranclp, rule 1, rule r_into_rtranclp, rule 2)
qed

theorem close_winds_down_witness:
  "let s = closing_life; s1 = close_clients s; s2 = accept_failed (finish_conn 1 s1)
   in any_step\<^sup>*\<^sup>* (life_new example_config) s \<and> (life_step True ^^ 2) s1 s2 \<and> dom (lf_conns s2) = dom (lf_conns s) \<and>
     (2 :: nat) \<le> 2 * card (dom (lf_conns s)) + 1 \<and> lf_serve s2 = Returned None \<and> lf_conns s2 1 = Some Gone"
proof -
  let ?s1 = "close_clients closing_life"
  let ?s2 = "accept_failed (finish_conn 1 ?s1)"
  note defs = closing_life_def served_life_def life_ops life_new_def
  have a: "life_step True ?s1 (finish_conn 1 ?s1)" by (rule life_step.ends) (simp_all add: defs)
  have b: "life_step True (finish_conn 1 ?s1) ?s2" by (rule life_step.accept_closed) (simp_all add: defs)
  have run: "(life_step True ^^ 2) ?s1 ?s2" using a b by (auto simp: numeral_2_eq_2)
  have "lf_listener closing_life" "\<not> lf_socket closing_life" "lf_close closing_life = ListenerClosed" by (simp_all add: defs)
  note * = close_winds_down [OF closing_life_reached this rtranclp.rtrancl_refl run]
  have "lf_serve ?s2 = Returned None" "lf_conns ?s2 1 = Some Gone" by (simp_all add: defs)
  with * run closing_life_reached show ?thesis unfolding Let_def by blast
qed

section \<open>The C interface\<close>

text \<open>
  The global variable, the servers that were made, and the goroutines that have been started and not yet run: each evaluates the global
  variable when it runs, without the lock; \<open>ca_calls\<close> are the calls of \<^verbatim>\<open>ListenAndServe\<close> they make, a server and a port. \<^const>\<open>None\<close> instead of
  a state is a crash of the process.
\<close>

record ('t, 'h) capi =
  ca_server :: "nat option"
  ca_servers :: "('t, 'h) life list"
  ca_starting :: "int list"
  ca_calls :: "(nat \<times> int) list"

definition capi_new :: "('t, 'h) capi" where
  "capi_new = \<lparr>ca_server = None, ca_servers = [], ca_starting = [], ca_calls = []\<rparr>"

text \<open>\<open>auth\<close> makes the handler of a password (\<^verbatim>\<open>security.VNCAuth\<close>); the password is \<^const>\<open>None\<close> when the pointer is null.\<close>

definition capi_config :: "(string \<Rightarrow> SecurityHandler) \<Rightarrow> string option \<Rightarrow> (unit, unit) ServerConfig" where
  "capi_config auth password =
     \<lparr>sc_Width = 1024, sc_Height = 768, sc_Name = str ''redvnc'',
      sc_Security = (case password of None \<Rightarrow> [] | Some pw \<Rightarrow> if pw \<noteq> '''' then [auth pw] else []),
      sc_PixelFormat = \<lparr>BitsPerPixel = 0, Depth = 0, BigEndian = 0, TrueColour = 0, RedMax = 0, GreenMax = 0, BlueMax = 0,
        RedShift = 0, GreenShift = 0, BlueShift = 0\<rparr>,
      sc_NewTightEncoder = None, sc_NewH264Encoder = None, sc_hasCapturer = False, sc_hasInput = False, sc_hasClipboard = False,
      sc_hasCursorProvider = False, sc_MaxFPS = 0\<rparr>"

definition RedVNC_StartServer ::
  "(string \<Rightarrow> SecurityHandler) \<Rightarrow> int \<Rightarrow> string option \<Rightarrow> (unit, unit) capi \<Rightarrow> int \<times> (unit, unit) capi" where
  "RedVNC_StartServer auth port password g =
     (if ca_server g \<noteq> None then (- 1, g)
      else (0, g\<lparr>ca_server := Some (length (ca_servers g)),
              ca_servers := ca_servers g @ [life_new (NewServer (0, 0) (capi_config auth password))], ca_starting := ca_starting g @ [port]\<rparr>))"

definition RedVNC_StopServer :: "(unit, unit) capi \<Rightarrow> (unit, unit) capi option" where
  "RedVNC_StopServer g =
     (case ca_server g of
        None \<Rightarrow> Some g
      | Some n \<Rightarrow>
          (case Server_Close (ca_servers g ! n) of
             (Inl _, _) \<Rightarrow> None
           | (Inr _, s) \<Rightarrow> Some (g\<lparr>ca_server := None, ca_servers := (ca_servers g)[n := s]\<rparr>)))"

text \<open>
  The oldest goroutine runs: \<^verbatim>\<open>server.ListenAndServe(addr)\<close>. On a nil server the port is still checked and opened, and then the receiver is
  dereferenced. On a server the call is recorded; what it does from then on are the steps of \<open>life_step\<close>, which need nothing of the C interface.
\<close>

definition capi_run :: "unit res \<Rightarrow> unit res \<Rightarrow> (unit, unit) capi \<Rightarrow> (unit, unit) capi option" where
  "capi_run check listen g =
     (case ca_starting g of
        [] \<Rightarrow> Some g
      | port # ps \<Rightarrow>
          (case ca_server g of
             None \<Rightarrow> (case rbind check (\<lambda>_. listen) of Inl _ \<Rightarrow> Some (g\<lparr>ca_starting := ps\<rparr>) | Inr _ \<Rightarrow> None)
           | Some n \<Rightarrow> Some (g\<lparr>ca_starting := ps, ca_calls := ca_calls g @ [(n, port)]\<rparr>)))"

datatype capi_call = CStart int "string option" | CStop | CRun "unit res" "unit res"

fun capi_do :: "(string \<Rightarrow> SecurityHandler) \<Rightarrow> capi_call \<Rightarrow> (unit, unit) capi \<Rightarrow> (unit, unit) capi option" where
  "capi_do auth (CStart port password) g = Some (snd (RedVNC_StartServer auth port password g))"
| "capi_do auth CStop g = RedVNC_StopServer g"
| "capi_do auth (CRun check listen) g = capi_run check listen g"

fun capi_runs :: "(string \<Rightarrow> SecurityHandler) \<Rightarrow> capi_call list \<Rightarrow> (unit, unit) capi \<Rightarrow> (unit, unit) capi option" where
  "capi_runs auth [] g = Some g"
| "capi_runs auth (c # cs) g = Option.bind (capi_do auth c g) (capi_runs auth cs)"

text \<open>Exactly the servers before the current one are closed.\<close>

definition capi_ok :: "(unit, unit) capi \<Rightarrow> bool" where
  "capi_ok g \<longleftrightarrow> (\<forall>n < length (ca_servers g). lf_done (ca_servers g ! n) \<longleftrightarrow> ca_server g \<noteq> Some n) \<and>
     (\<forall>n. ca_server g = Some n \<longrightarrow> n < length (ca_servers g))"

lemma Server_Close_once: "\<not> lf_done s \<Longrightarrow> \<exists>s'. Server_Close s = (Inr (), s') \<and> lf_done s'"
  by (simp add: Server_Close_def life_ops)

lemma Server_Close_twice: "lf_done s \<Longrightarrow> is_panic (fst (Server_Close s))"
  by (simp add: Server_Close_def close_done_def)

lemma StopServer_ok: "capi_ok g \<Longrightarrow> \<exists>g'. RedVNC_StopServer g = Some g' \<and> capi_ok g'"
proof (cases "ca_server g")
  case (Some n)
  assume ok: "capi_ok g"
  then have n: "n < length (ca_servers g)" "\<not> lf_done (ca_servers g ! n)" using Some by (auto simp: capi_ok_def)
  then obtain s' where "Server_Close (ca_servers g ! n) = (Inr (), s')" "lf_done s'" using Server_Close_once by blast
  then show ?thesis using ok n Some by (auto simp: RedVNC_StopServer_def capi_ok_def nth_list_update)
qed (simp add: RedVNC_StopServer_def)

lemma StartServer_ok: "capi_ok g \<Longrightarrow> capi_ok (snd (RedVNC_StartServer auth port password g))"
  by (auto simp: capi_ok_def RedVNC_StartServer_def life_new_def nth_append less_Suc_eq)

lemma capi_run_ok: "capi_ok g \<Longrightarrow> capi_run check listen g = Some g' \<Longrightarrow> capi_ok g'"
  by (auto simp: capi_ok_def capi_run_def split: list.splits option.splits sum.splits)

lemma capi_do_ok: "capi_ok g \<Longrightarrow> capi_do auth c g = Some g' \<Longrightarrow> capi_ok g'"
  using StopServer_ok [of g] StartServer_ok [of g auth] capi_run_ok [of g] by (cases c) auto

text \<open>
  C28: Whatever sequence of starts and stops a C program makes, and whenever the goroutines of the starts run, as long as none of
  them has crashed: stopping never panics, so that each server is closed at most once; every server but the current one is closed;
  and a start is refused exactly while there is a server that is not closed.
\<close>

theorem capi_one_server:
  assumes "capi_runs auth cs capi_new = Some g"
  shows "RedVNC_StopServer g \<noteq> None \<and> (\<forall>n < length (ca_servers g). lf_done (ca_servers g ! n) \<longleftrightarrow> ca_server g \<noteq> Some n) \<and>
    (fst (RedVNC_StartServer auth port password g) = 0 \<longleftrightarrow> (\<forall>n < length (ca_servers g). lf_done (ca_servers g ! n)))"
proof -
  have "capi_ok g" if "capi_runs auth cs g0 = Some g" "capi_ok g0" for g0
    using that by (induction cs arbitrary: g0) (auto simp: bind_eq_Some_conv dest: capi_do_ok)
  then have ok: "capi_ok g" using assms by (auto simp: capi_ok_def capi_new_def)
  then show ?thesis using StopServer_ok [OF ok] by (auto simp: capi_ok_def RedVNC_StartServer_def)
qed

theorem capi_one_server_witness:
  "let cs = [CStart 5900 None, CRun (Inr ()) (Inr ()), CStop, CStart 5901 None];
       g = the (capi_runs (\<lambda>_. noneSecurity) cs capi_new)
   in RedVNC_StopServer g \<noteq> None \<and> length (ca_servers g) = 2 \<and> lf_done (ca_servers g ! 0) \<and> \<not> lf_done (ca_servers g ! 1)"
proof -
  let ?cs = "[CStart 5900 None, CRun (Inr ()) (Inr ()), CStop, CStart 5901 None]"
  let ?g = "the (capi_runs (\<lambda>_. noneSecurity) ?cs capi_new)"
  have r: "capi_runs (\<lambda>_. noneSecurity) ?cs capi_new = Some ?g" and l: "length (ca_servers ?g) = 2" and c: "ca_server ?g = Some 1"
    by (simp_all add: capi_new_def RedVNC_StartServer_def RedVNC_StopServer_def capi_run_def Server_Close_def life_ops life_new_def)
  show ?thesis using capi_one_server [OF r] l c by (simp add: Let_def)
qed

text \<open>
  A stop right after a start: the goroutine of the start finds no server and the process crashes. With a second start after it, both goroutines
  serve the second server, the first of them on the port of the first.
\<close>

lemma start_stop_crashes: "capi_runs auth [CStart port pw, CStop, CRun (Inr ()) (Inr ())] capi_new = None"
  by (simp add: capi_new_def RedVNC_StartServer_def RedVNC_StopServer_def capi_run_def Server_Close_def life_ops life_new_def)

lemma restart_serves_old_port:
  "\<exists>g. capi_runs auth [CStart p1 w1, CStop, CStart p2 w2, CRun (Inr ()) (Inr ()), CRun (Inr ()) (Inr ())] capi_new = Some g \<and>
     ca_calls g = [(1, p1), (1, p2)]"
  by (simp add: capi_new_def RedVNC_StartServer_def RedVNC_StopServer_def capi_run_def Server_Close_def life_ops life_new_def)

text \<open>A server is protected exactly when the password is not empty.\<close>

lemma capi_security:
  "sc_Security (NewServer (0, 0) (capi_config auth password)) =
     (case password of None \<Rightarrow> [noneSecurity] | Some pw \<Rightarrow> if pw = [] then [noneSecurity] else [auth pw])"
  by (simp add: NewServer_def capi_config_def Let_def split: option.split)


end
