(* ===== verification/Gostrings.thy ===== *)
theory Gostrings
  imports Complex_Main Prelude "HOL-Library.Log_Nat" "HOL-Library.Sublist" "HOL-Library.Char_ord"
begin

text \<open>
  What the configuration code uses of Go's packages \<^verbatim>\<open>strings\<close>, \<^verbatim>\<open>strconv\<close> and \<^verbatim>\<open>time\<close>: trimming,
  case mapping, decimal numbers, double precision numbers and durations. Strings are the bytes
  of their UTF-8 encoding.
\<close>

section \<open>White space and case\<close>

text \<open>The encodings of the runes that \<^verbatim>\<open>unicode.IsSpace\<close> accepts.\<close>

definition go_spaces :: "string list" where
  "go_spaces =
     [[CHR 0x09], [CHR 0x0A], [CHR 0x0B], [CHR 0x0C], [CHR 0x0D], [CHR 0x20], [CHR 0xC2, CHR 0x85],
      [CHR 0xC2, CHR 0xA0], [CHR 0xE1, CHR 0x9A, CHR 0x80], [CHR 0xE2, CHR 0x80, CHR 0x80],
      [CHR 0xE2, CHR 0x80, CHR 0x81], [CHR 0xE2, CHR 0x80, CHR 0x82], [CHR 0xE2, CHR 0x80, CHR 0x83],
      [CHR 0xE2, CHR 0x80, CHR 0x84], [CHR 0xE2, CHR 0x80, CHR 0x85], [CHR 0xE2, CHR 0x80, CHR 0x86],
      [CHR 0xE2, CHR 0x80, CHR 0x87], [CHR 0xE2, CHR 0x80, CHR 0x88], [CHR 0xE2, CHR 0x80, CHR 0x89],
      [CHR 0xE2, CHR 0x80, CHR 0x8A], [CHR 0xE2, CHR 0x80, CHR 0xA8], [CHR 0xE2, CHR 0x80, CHR 0xA9],
      [CHR 0xE2, CHR 0x80, CHR 0xAF], [CHR 0xE2, CHR 0x81, CHR 0x9F], [CHR 0xE3, CHR 0x80, CHR 0x80]]"

function trim_prefixes :: "string list \<Rightarrow> string \<Rightarrow> string" where
  "trim_prefixes ps s =
     (case find (\<lambda>p. p \<noteq> [] \<and> prefix p s) ps of
        None \<Rightarrow> s
      | Some p \<Rightarrow> trim_prefixes ps (drop (length p) s))"
  by pat_completeness auto
termination
  by (relation "measure (length \<circ> snd)") (auto simp: find_Some_iff prefix_def)

declare trim_prefixes.simps [simp del]

definition TrimSpace :: "string \<Rightarrow> string" where
  "TrimSpace s = rev (trim_prefixes (map rev go_spaces) (rev (trim_prefixes go_spaces s)))"

definition trim_right :: "char \<Rightarrow> string \<Rightarrow> string" where
  "trim_right c s = rev (dropWhile (\<lambda>x. x = c) (rev s))"

text \<open>
  Case mapping. Of the runes outside ASCII only the dotted capital I and the Kelvin sign have a
  lower case letter in ASCII, and only the dotless i and the long s an upper case one; the other
  runes stay outside ASCII, and are left as they are here, since the program compares the result
  with ASCII words only.
\<close>

definition ascii_lower :: "char \<Rightarrow> char" where
  "ascii_lower c = (if CHR ''A'' \<le> c \<and> c \<le> CHR ''Z'' then char_of (of_char c + 32 :: nat) else c)"

definition ascii_upper :: "char \<Rightarrow> char" where
  "ascii_upper c = (if CHR ''a'' \<le> c \<and> c \<le> CHR ''z'' then char_of (of_char c - 32 :: nat) else c)"

fun ToLower :: "string \<Rightarrow> string" where
  "ToLower (a # b # c # s) =
     (if a = CHR 0xC4 \<and> b = CHR 0xB0 then CHR ''i'' # ToLower (c # s)
      else if a = CHR 0xE2 \<and> b = CHR 0x84 \<and> c = CHR 0xAA then CHR ''k'' # ToLower s
      else ascii_lower a # ToLower (b # c # s))"
| "ToLower [a, b] = (if a = CHR 0xC4 \<and> b = CHR 0xB0 then ''i'' else [ascii_lower a, ascii_lower b])"
| "ToLower [a] = [ascii_lower a]"
| "ToLower [] = []"

fun ToUpper :: "string \<Rightarrow> string" where
  "ToUpper (a # b # s) =
     (if a = CHR 0xC4 \<and> b = CHR 0xB1 then CHR ''I'' # ToUpper s
      else if a = CHR 0xC5 \<and> b = CHR 0xBF then CHR ''S'' # ToUpper s
      else ascii_upper a # ToUpper (b # s))"
| "ToUpper [a] = [ascii_upper a]"
| "ToUpper [] = []"

section \<open>Decimal numbers\<close>

definition is_digit :: "char \<Rightarrow> bool" where
  "is_digit c \<longleftrightarrow> CHR ''0'' \<le> c \<and> c \<le> CHR ''9''"

definition digit_value :: "char \<Rightarrow> int" where
  "digit_value c = of_char c - 48"

definition digits_value :: "string \<Rightarrow> int" where
  "digits_value s = foldl (\<lambda>n c. n * 10 + digit_value c) 0 s"

text \<open>\<^verbatim>\<open>strconv.Atoi\<close>, \<open>None\<close> for its error: a sign, digits, a 64-bit result.\<close>

definition Atoi :: "string \<Rightarrow> int option" where
  "Atoi s =
     (let neg = (s \<noteq> [] \<and> hd s = CHR ''-'');
          ds = (if s \<noteq> [] \<and> (hd s = CHR ''-'' \<or> hd s = CHR ''+'') then tl s else s);
          n = digits_value ds in
      if ds = [] \<or> \<not> list_all is_digit ds then None
      else if neg then (if n \<le> 2 ^ 63 then Some (- n) else None)
      else if n < 2 ^ 63 then Some n else None)"

section \<open>Double precision\<close>

text \<open>
  The nearest double precision number, ties to even, of a number that is not negative. The
  quotient by the power of two has at least 53 bits before the point; results below the normal
  range are not used by the program.
\<close>

definition round_even :: "rat \<Rightarrow> int" where
  "round_even q =
     (let n = \<lfloor>q\<rfloor>; r = q - of_int n in
      if r < 1 / 2 then n else if r > 1 / 2 then n + 1 else if even n then n else n + 1)"

definition pow2 :: "int \<Rightarrow> rat" where
  "pow2 e = (if e \<ge> 0 then 2 ^ nat e else 1 / 2 ^ nat (- e))"

definition float_exp :: "rat \<Rightarrow> int" where
  "float_exp q =
     (case quotient_of q of (a, b) \<Rightarrow>
        let e = bitlen a - bitlen b - 53 in
        if q < pow2 (e + 53) then e else e + 1)"

definition float64 :: "rat \<Rightarrow> rat" where
  "float64 q = (if q \<le> 0 then 0 else of_int (round_even (q / pow2 (float_exp q))) * pow2 (float_exp q))"

text \<open>
  \<^verbatim>\<open>strconv.ParseFloat\<close> on a string of digits and dots, which is all the program hands to it: at
  least one digit, at most one dot, and a range error for what rounds beyond the largest number.
\<close>

definition ParseFloat :: "string \<Rightarrow> rat option" where
  "ParseFloat s =
     (let whole = takeWhile is_digit s; rest = drop (length whole) s; frac = drop 1 rest in
      if \<not> list_all is_digit frac \<or> (rest \<noteq> [] \<and> hd rest \<noteq> CHR ''.'') \<or> whole @ frac = [] then None
      else
        let v = float64 (of_int (digits_value (whole @ frac)) / 10 ^ length frac) in
        if v < 2 ^ 1024 then Some v else None)"

text \<open>The conversion to \<^verbatim>\<open>int64\<close>; the result is up to the platform, the argument \<open>big\<close>, outside its range.\<close>

definition to_int64 :: "(rat \<Rightarrow> int) \<Rightarrow> rat \<Rightarrow> int" where
  "to_int64 big q = (if q < 2 ^ 63 then \<lfloor>q\<rfloor> else big q)"

section \<open>Durations\<close>

text \<open>\<^verbatim>\<open>time.ParseDuration\<close>: signed sequences of numbers with units, in nanoseconds; \<open>None\<close> for its error.\<close>

definition unit_of :: "string \<Rightarrow> int option" where
  "unit_of u =
     (if u = ''ns'' then Some 1
      else if u = ''us'' \<or> u = [CHR 0xC2, CHR 0xB5] @ ''s'' \<or> u = [CHR 0xCE, CHR 0xBC] @ ''s'' then Some 1000
      else if u = ''ms'' then Some 1000000
      else if u = ''s'' then Some 1000000000
      else if u = ''m'' then Some 60000000000
      else if u = ''h'' then Some 3600000000000
      else None)"

text \<open>The digits of a fraction that still fit, and the power of ten they are divided by.\<close>

fun leading_fraction :: "string \<Rightarrow> int \<Rightarrow> rat \<Rightarrow> int \<times> rat" where
  "leading_fraction [] x scale = (x, scale)"
| "leading_fraction (c # s) x scale =
     (if x > (2 ^ 63 - 1) div 10 then (x, scale)
      else let y = x * 10 + digit_value c in
        if y > 2 ^ 63 then (x, scale) else leading_fraction s y (float64 (scale * 10)))"

function duration_parts :: "string \<Rightarrow> int \<Rightarrow> int option" where
  "duration_parts s d =
     (if s = [] then Some d
      else
        let whole = takeWhile is_digit s; s1 = drop (length whole) s;
            dotted = (s1 \<noteq> [] \<and> hd s1 = CHR ''.'');
            frac = (if dotted then takeWhile is_digit (tl s1) else []);
            s2 = (if dotted then drop (length frac) (tl s1) else s1);
            u = takeWhile (\<lambda>c. c \<noteq> CHR ''.'' \<and> \<not> is_digit c) s2 in
        if whole @ frac = [] \<or> u = [] \<or> digits_value whole > 2 ^ 63 then None
        else case unit_of u of
          None \<Rightarrow> None
        | Some un \<Rightarrow>
            if digits_value whole > 2 ^ 63 div un then None
            else
              let (f, scale) = leading_fraction frac 0 1;
                  v = digits_value whole * un +
                      (if f > 0 then \<lfloor>float64 (float64 (of_int f) * float64 (of_int un / scale))\<rfloor> else 0) in
              if v > 2 ^ 63 \<or> d + v > 2 ^ 63 then None
              else duration_parts (drop (length u) s2) (d + v))"
  by pat_completeness auto
termination
proof (relation "measure (length \<circ> fst)")
  fix s d whole s1 dotted frac s2 u
  assume *: "s1 = drop (length whole) s" "s2 = (if dotted then drop (length frac) (tl s1) else s1)"
    "u = takeWhile (\<lambda>c. c \<noteq> CHR ''.'' \<and> \<not> is_digit c) s2" "\<not> (whole @ frac = [] \<or> u = [] \<or> digits_value whole > 2 ^ 63)"
  then have "s2 \<noteq> []" "u \<noteq> []" by auto
  moreover have "length s2 \<le> length s" using *(1,2) by auto
  ultimately show "((drop (length u) s2, d'), s, d) \<in> measure (length \<circ> fst)" for d'
    by (cases u; cases s2) auto
qed auto

declare duration_parts.simps [simp del]

definition ParseDuration :: "string \<Rightarrow> int option" where
  "ParseDuration s =
     (let neg = (s \<noteq> [] \<and> hd s = CHR ''-'');
          s1 = (if s \<noteq> [] \<and> (hd s = CHR ''-'' \<or> hd s = CHR ''+'') then tl s else s) in
      if s1 = ''0'' then Some 0
      else if s1 = [] then None
      else case duration_parts s1 0 of
        None \<Rightarrow> None
      | Some d \<Rightarrow> if neg then Some (- d) else if d < 2 ^ 63 then Some d else None)"

section \<open>Rounding is exact on what fits\<close>

lemma pow2_pos [simp]: "0 < pow2 e"
  by (simp add: pow2_def)

lemma pow2_add: "pow2 (a + b) = pow2 a * pow2 b"
proof -
  have p: "pow2 e = (2 :: rat) powi e" for e
    by (simp add: pow2_def power_int_def inverse_eq_divide power_one_over)
  show ?thesis by (simp add: p power_int_add)
qed

lemma pow2_less_iff: "pow2 a < pow2 b \<longleftrightarrow> a < b"
proof -
  have less: "pow2 a < pow2 b" if "a < b" for a b
  proof -
    have "pow2 b = pow2 a * pow2 (b - a)" using pow2_add [of a "b - a"] by simp
    moreover have "1 < pow2 (b - a)" using that by (simp add: pow2_def)
    ultimately show ?thesis using pow2_pos [of a] by simp
  qed
  show ?thesis using less [of a b] less [of b a] by (metis linorder_neqE not_less_iff_gr_or_eq)
qed

lemma round_even_int [simp]: "round_even (of_int n) = n"
  by (simp add: round_even_def Let_def)

lemma bitlen_rat:
  assumes "0 < a"
  shows "pow2 (bitlen a - 1) \<le> of_int a" and "of_int a < pow2 (bitlen a)"
proof -
  have b: "2 ^ nat (bitlen a - 1) \<le> a" "a < 2 ^ nat (bitlen a)" using bitlen_bounds [OF assms] by auto
  have "0 < bitlen a" using assms by (metis bitlen_nonneg bitlen_eq_zero_iff not_less order.not_eq_order_implies_strict)
  then show "pow2 (bitlen a - 1) \<le> of_int a" "of_int a < pow2 (bitlen a)"
    using b by (simp_all add: pow2_def)
qed

lemma float_exp_lower:
  assumes "0 < q"
  shows "pow2 (float_exp q + 52) \<le> q"
proof -
  obtain a b where ab: "quotient_of q = (a, b)" by fastforce
  then have q: "q = of_int a / of_int b" by (rule quotient_of_div)
  have b: "0 < b" using ab by (rule quotient_of_denom_pos)
  then have a: "0 < a" using assms q by (simp add: zero_less_divide_iff)
  let ?e = "bitlen a - bitlen b - 53"
  have "pow2 (?e + 52) \<le> q"
  proof -
    have "pow2 (?e + 52) * of_int b \<le> pow2 (?e + 52) * pow2 (bitlen b)"
      using bitlen_rat(2) [OF b] by (intro mult_left_mono) (auto intro: less_imp_le)
    also have "\<dots> = pow2 (bitlen a - 1)" by (simp flip: pow2_add)
    also have "\<dots> \<le> of_int a" by (rule bitlen_rat(1) [OF a])
    finally show ?thesis using b q by (simp add: pos_le_divide_eq)
  qed
  then show ?thesis by (auto simp: float_exp_def ab Let_def algebra_simps)
qed

lemma float64_exact:
  assumes "0 \<le> n" and "n < 2 ^ 53"
  shows "float64 (of_int n * pow2 k) = of_int n * pow2 k"
proof (cases "n = 0")
  case True
  then show ?thesis by (simp add: float64_def)
next
  case False
  let ?q = "of_int n * pow2 k"
  let ?e = "float_exp ?q"
  have pos: "0 < ?q" using False assms(1) by simp
  have "of_int n < (2 ^ 53 :: rat)" using assms(2) by (metis of_int_less_iff of_int_numeral of_int_power)
  then have "?q < pow2 (k + 53)" by (simp add: pow2_add mult.commute) (simp add: pow2_def)
  then have "pow2 (?e + 52) < pow2 (k + 53)" using float_exp_lower [OF pos] by linarith
  then have le: "?e \<le> k" by (simp add: pow2_less_iff)
  have "?q / pow2 ?e = of_int n * pow2 (k - ?e)" using pow2_add [of "k - ?e" ?e] by (simp add: eq_divide_eq divide_eq_eq less_imp_neq [OF pow2_pos, symmetric] mult.assoc)
  also have "\<dots> = of_int (n * 2 ^ nat (k - ?e))" using le by (simp add: pow2_def)
  finally have "round_even (?q / pow2 ?e) = n * 2 ^ nat (k - ?e)" by (simp only: round_even_int)
  moreover have "of_int (n * 2 ^ nat (k - ?e)) * pow2 ?e = ?q"
    using pow2_add [of "k - ?e" ?e] le by (simp add: pow2_def)
  ultimately show ?thesis using pos by (simp add: float64_def)
qed

section \<open>Trimming leaves printed text alone\<close>

definition is_graph :: "char \<Rightarrow> bool" where
  "is_graph c \<longleftrightarrow> CHR ''!'' \<le> c \<and> c \<le> CHR ''~''"

lemma trim_prefixes_graph:
  assumes "\<And>p. p \<in> set ps \<Longrightarrow> p = [] \<or> \<not> is_graph (hd p)" and "s = [] \<or> is_graph (hd s)"
  shows "trim_prefixes ps s = s"
proof -
  have "find (\<lambda>p. p \<noteq> [] \<and> prefix p s) ps = None"
    using assms by (fastforce simp: find_None_iff prefix_def)
  then show ?thesis by (simp add: trim_prefixes.simps)
qed

lemma TrimSpace_graph:
  assumes "s = [] \<or> is_graph (hd s) \<and> is_graph (last s)"
  shows "TrimSpace s = s"
proof -
  have sp: "list_all (\<lambda>p. p = [] \<or> \<not> is_graph (hd p)) go_spaces" "list_all (\<lambda>p. p = [] \<or> \<not> is_graph (hd p)) (map rev go_spaces)"
    by code_simp+
  have "trim_prefixes go_spaces s = s" using sp(1) assms by (intro trim_prefixes_graph) (auto simp: list_all_iff)
  moreover have "trim_prefixes (map rev go_spaces) (rev s) = rev s"
    using sp(2) assms by (intro trim_prefixes_graph) (auto simp: list_all_iff hd_rev)
  ultimately show ?thesis by (simp add: TrimSpace_def)
qed

lemma is_digit_graph: "is_digit c \<Longrightarrow> is_graph c"
  by (auto simp: is_digit_def is_graph_def less_eq_char_def)

end
