(* ===== verification/Wsconfig.thy ===== *)
theory Wsconfig
  imports Gostrings Wsserver
begin

text \<open>
  \<^verbatim>\<open>wsproxy/config.go\<close>: the configuration file of the proxy, its validation, sizes with units and
  the overrides by environment variables. Reading the file and JSON are library code.
\<close>

section \<open>The file\<close>

record TLSFileConfig =
  tf_Cert :: string
  tf_Key :: string
  tf_Require :: bool

record RateLimitFileConfig =
  rf_Enabled :: "bool option"
  rf_MaxAttempts :: int
  rf_Window :: string
  rf_Lockout :: string

record SecurityFileConfig =
  sf_AllowedVNCTargets :: "string list"
  sf_AllowAnyTarget :: bool
  sf_AllowedOrigins :: "string list"
  sf_VNCPassword :: string
  sf_VNCPasswordFile :: string
  sf_RateLimit :: "RateLimitFileConfig option"

record LimitsFileConfig =
  lf_MaxConnections :: int
  lf_MaxConnectionsPerTarget :: int
  lf_MaxUploadSize :: string

record UploadsFileConfig =
  uf_DefaultDir :: bytes
  uf_AllowedDirs :: "bytes list"

record LoggingFileConfig =
  gf_Level :: string
  gf_Format :: string

record FileConfig =
  fc_Listen :: string
  fc_TLS :: "TLSFileConfig option"
  fc_Security :: "SecurityFileConfig option"
  fc_Limits :: "LimitsFileConfig option"
  fc_Uploads :: "UploadsFileConfig option"
  fc_Logging :: "LoggingFileConfig option"
  fc_ShutdownTimeout :: string

text \<open>The zero values of the sections, which the overrides create.\<close>

definition TLSFileConfig_zero :: TLSFileConfig where
  "TLSFileConfig_zero = \<lparr>tf_Cert = '''', tf_Key = '''', tf_Require = False\<rparr>"

definition SecurityFileConfig_zero :: SecurityFileConfig where
  "SecurityFileConfig_zero = \<lparr>sf_AllowedVNCTargets = [], sf_AllowAnyTarget = False, sf_AllowedOrigins = [],
     sf_VNCPassword = '''', sf_VNCPasswordFile = '''', sf_RateLimit = None\<rparr>"

definition LimitsFileConfig_zero :: LimitsFileConfig where
  "LimitsFileConfig_zero = \<lparr>lf_MaxConnections = 0, lf_MaxConnectionsPerTarget = 0, lf_MaxUploadSize = ''''\<rparr>"

definition LoggingFileConfig_zero :: LoggingFileConfig where
  "LoggingFileConfig_zero = \<lparr>gf_Level = '''', gf_Format = ''''\<rparr>"

definition LoadFileConfig :: "(string \<Rightarrow> string res) \<Rightarrow> (string \<Rightarrow> FileConfig res) \<Rightarrow> string \<Rightarrow> FileConfig res" where
  "LoadFileConfig ReadFile Unmarshal path =
     rbind (rwrap ''read config file: %w'' [] (ReadFile path)) (\<lambda>data.
     rwrap ''parse config file: %w'' [] (Unmarshal data))"

section \<open>Sizes\<close>

definition is_number_char :: "char \<Rightarrow> bool" where
  "is_number_char c \<longleftrightarrow> is_digit c \<or> c = CHR ''.''"

definition size_multiplier :: "string \<Rightarrow> int option" where
  "size_multiplier u =
     (if u = '''' \<or> u = ''B'' then Some 1
      else if u = ''KB'' \<or> u = ''K'' then Some 1024
      else if u = ''MB'' \<or> u = ''M'' then Some (1024 * 1024)
      else if u = ''GB'' \<or> u = ''G'' then Some (1024 * 1024 * 1024)
      else None)"

definition ParseByteSize :: "(rat \<Rightarrow> int) \<Rightarrow> string \<Rightarrow> int res" where
  "ParseByteSize big s =
     (let s = TrimSpace s in
      if s = '''' then Inl (Errorf ''empty size'' [])
      else
        let numStr = takeWhile is_number_char s;
            u = ToUpper (TrimSpace (drop (length numStr) s)) in
        case ParseFloat numStr of
          None \<Rightarrow> Inl (Errorf ''invalid number in size %q'' [])
        | Some num \<Rightarrow>
            (case size_multiplier u of
               None \<Rightarrow> Inl (Errorf ''unknown size unit %q in %q'' [])
             | Some multiplier \<Rightarrow> Inr (to_int64 big (float64 (num * of_int multiplier)))))"

section \<open>Validation\<close>

text \<open>The problems, in the order in which they are appended.\<close>

datatype config_error =
    TLSRequired | TLSPair | NoTargets | BadWindow string | BadLockout string | BadUploadSize goerr
  | BadLevel string | BadFormat string | BadShutdownTimeout string

definition bad_duration :: "string \<Rightarrow> bool" where
  "bad_duration s \<longleftrightarrow> s \<noteq> '''' \<and> ParseDuration s = None"

definition validate_tls :: "TLSFileConfig \<Rightarrow> config_error list" where
  "validate_tls t =
     (if tf_Require t \<and> (tf_Cert t = '''' \<or> tf_Key t = '''') then [TLSRequired] else []) @
     (if (tf_Cert t = '''') \<noteq> (tf_Key t = '''') then [TLSPair] else [])"

definition validate_rate_limit :: "RateLimitFileConfig \<Rightarrow> config_error list" where
  "validate_rate_limit r =
     (if bad_duration (rf_Window r) then [BadWindow (rf_Window r)] else []) @
     (if bad_duration (rf_Lockout r) then [BadLockout (rf_Lockout r)] else [])"

definition validate_security :: "SecurityFileConfig \<Rightarrow> config_error list" where
  "validate_security s =
     (if sf_AllowedVNCTargets s = [] \<and> \<not> sf_AllowAnyTarget s then [NoTargets] else []) @
     (case sf_RateLimit s of None \<Rightarrow> [] | Some r \<Rightarrow> validate_rate_limit r)"

definition validate_limits :: "(rat \<Rightarrow> int) \<Rightarrow> LimitsFileConfig \<Rightarrow> config_error list" where
  "validate_limits big l =
     (if lf_MaxUploadSize l = '''' then []
      else case ParseByteSize big (lf_MaxUploadSize l) of Inl e \<Rightarrow> [BadUploadSize e] | Inr _ \<Rightarrow> [])"

definition valid_level :: "string \<Rightarrow> bool" where
  "valid_level s \<longleftrightarrow> ToLower s \<in> set [''debug'', ''info'', ''warn'', ''error'']"

definition valid_format :: "string \<Rightarrow> bool" where
  "valid_format s \<longleftrightarrow> ToLower s \<in> set [''text'', ''json'']"

definition validate_logging :: "LoggingFileConfig \<Rightarrow> config_error list" where
  "validate_logging g =
     (if gf_Level g \<noteq> '''' \<and> \<not> valid_level (gf_Level g) then [BadLevel (gf_Level g)] else []) @
     (if gf_Format g \<noteq> '''' \<and> \<not> valid_format (gf_Format g) then [BadFormat (gf_Format g)] else [])"

definition opt_list :: "('a \<Rightarrow> 'b list) \<Rightarrow> 'a option \<Rightarrow> 'b list" where
  "opt_list f x = (case x of None \<Rightarrow> [] | Some y \<Rightarrow> f y)"

definition ValidateFileConfig :: "(rat \<Rightarrow> int) \<Rightarrow> FileConfig \<Rightarrow> config_error list" where
  "ValidateFileConfig big cfg =
     opt_list validate_tls (fc_TLS cfg) @
     opt_list validate_security (fc_Security cfg) @
     opt_list (validate_limits big) (fc_Limits cfg) @
     opt_list validate_logging (fc_Logging cfg) @
     (if bad_duration (fc_ShutdownTimeout cfg) then [BadShutdownTimeout (fc_ShutdownTimeout cfg)] else [])"

section \<open>Environment\<close>

text \<open>\<^verbatim>\<open>os.Getenv\<close>: the empty string for a variable that is not set.\<close>

type_synonym env = "string \<Rightarrow> string"

definition upd_section :: "'a \<Rightarrow> ('a \<Rightarrow> 'a) \<Rightarrow> 'a option \<Rightarrow> 'a option" where
  "upd_section zero f x = Some (f (case x of None \<Rightarrow> zero | Some y \<Rightarrow> y))"

definition env_override :: "env \<Rightarrow> string \<Rightarrow> (string \<Rightarrow> FileConfig \<Rightarrow> FileConfig) \<Rightarrow> FileConfig \<Rightarrow> FileConfig" where
  "env_override env name f cfg = (if env name = '''' then cfg else f (env name) cfg)"

definition ApplyEnvOverrides :: "env \<Rightarrow> FileConfig \<Rightarrow> FileConfig" where
  "ApplyEnvOverrides env cfg =
     (let cfg = env_override env ''REDVNC_LISTEN'' (\<lambda>v c. c\<lparr>fc_Listen := v\<rparr>) cfg;
          cfg = env_override env ''REDVNC_TLS_CERT''
            (\<lambda>v c. c\<lparr>fc_TLS := upd_section TLSFileConfig_zero (\<lambda>t. t\<lparr>tf_Cert := v\<rparr>) (fc_TLS c)\<rparr>) cfg;
          cfg = env_override env ''REDVNC_TLS_KEY''
            (\<lambda>v c. c\<lparr>fc_TLS := upd_section TLSFileConfig_zero (\<lambda>t. t\<lparr>tf_Key := v\<rparr>) (fc_TLS c)\<rparr>) cfg;
          cfg = env_override env ''REDVNC_VNC_PASSWORD''
            (\<lambda>v c. c\<lparr>fc_Security := upd_section SecurityFileConfig_zero (\<lambda>s. s\<lparr>sf_VNCPassword := v\<rparr>) (fc_Security c)\<rparr>) cfg;
          cfg = env_override env ''REDVNC_MAX_CONNECTIONS''
            (\<lambda>v c. case Atoi v of None \<Rightarrow> c
               | Some n \<Rightarrow> c\<lparr>fc_Limits := upd_section LimitsFileConfig_zero (\<lambda>l. l\<lparr>lf_MaxConnections := n\<rparr>) (fc_Limits c)\<rparr>) cfg;
          cfg = env_override env ''REDVNC_MAX_UPLOAD_SIZE''
            (\<lambda>v c. c\<lparr>fc_Limits := upd_section LimitsFileConfig_zero (\<lambda>l. l\<lparr>lf_MaxUploadSize := v\<rparr>) (fc_Limits c)\<rparr>) cfg;
          cfg = env_override env ''REDVNC_LOG_LEVEL''
            (\<lambda>v c. c\<lparr>fc_Logging := upd_section LoggingFileConfig_zero (\<lambda>g. g\<lparr>gf_Level := v\<rparr>) (fc_Logging c)\<rparr>) cfg;
          cfg = env_override env ''REDVNC_LOG_FORMAT''
            (\<lambda>v c. c\<lparr>fc_Logging := upd_section LoggingFileConfig_zero (\<lambda>g. g\<lparr>gf_Format := v\<rparr>) (fc_Logging c)\<rparr>) cfg in
      env_override env ''REDVNC_SHUTDOWN_TIMEOUT'' (\<lambda>v c. c\<lparr>fc_ShutdownTimeout := v\<rparr>) cfg)"

section \<open>Sizes are what they say\<close>

text \<open>A number as it is written: digits, and a fraction behind a dot if there is one.\<close>

definition number_text :: "string \<Rightarrow> string option \<Rightarrow> string" where
  "number_text digs fr = (case fr of None \<Rightarrow> digs | Some f \<Rightarrow> digs @ CHR ''.'' # f)"

definition number_value :: "string \<Rightarrow> string option \<Rightarrow> rat" where
  "number_value digs fr =
     (let f = (case fr of None \<Rightarrow> '''' | Some f \<Rightarrow> f) in of_int (digits_value (digs @ f)) / 10 ^ length f)"

definition number_ok :: "string \<Rightarrow> string option \<Rightarrow> bool" where
  "number_ok digs fr \<longleftrightarrow>
     (let f = (case fr of None \<Rightarrow> '''' | Some f \<Rightarrow> f) in list_all is_digit (digs @ f) \<and> digs @ f \<noteq> [])"

lemma takeWhile_all_append: "list_all P xs \<Longrightarrow> takeWhile P (xs @ ys) = xs @ takeWhile P ys"
  by (induction xs) auto

lemma ParseFloat_number:
  assumes "number_ok digs fr" and "float64 (number_value digs fr) < 2 ^ 1024"
  shows "ParseFloat (number_text digs fr) = Some (float64 (number_value digs fr))"
proof (cases fr)
  case None
  then have tw: "takeWhile is_digit digs = digs" using assms(1) takeWhile_all_append [of is_digit digs "[]"] by (simp add: number_ok_def)
  show ?thesis using None assms by (simp add: tw ParseFloat_def number_text_def number_value_def number_ok_def Let_def)
next
  case (Some f)
  have tw: "takeWhile is_digit (digs @ CHR ''.'' # f) = digs"
    using Some assms(1) by (simp add: takeWhile_all_append number_ok_def is_digit_def less_eq_char_def)
  show ?thesis using Some assms by (simp add: tw ParseFloat_def number_text_def number_value_def number_ok_def Let_def)
qed

text \<open>The units in upper and lower case.\<close>

definition size_units :: "string list" where
  "size_units = ['''', ''B'', ''b'', ''KB'', ''kb'', ''Kb'', ''kB'', ''K'', ''k'', ''MB'', ''mb'', ''Mb'', ''mB'', ''M'', ''m'',
     ''GB'', ''gb'', ''Gb'', ''gB'', ''G'', ''g'']"

lemma size_units_ok:
  "list_all (\<lambda>u. (u = [] \<or> is_graph (hd u) \<and> is_graph (last u)) \<and> list_all (\<lambda>c. \<not> is_number_char c) u \<and>
     (case size_multiplier (ToUpper u) of None \<Rightarrow> False | Some m \<Rightarrow> m \<in> set [1, 1024, 1048576, 1073741824])) size_units"
  by code_simp

lemma multiplier_pow2:
  assumes "m \<in> set [1, 1024, 1048576, 1073741824 :: int]"
  shows "\<exists>j. of_int m = pow2 j"
proof -
  have "of_int m = pow2 0 \<or> of_int m = pow2 10 \<or> of_int m = pow2 20 \<or> of_int m = pow2 30" using assms by (auto simp: pow2_def)
  then show ?thesis by blast
qed

lemma number_text_chars:
  assumes "number_ok digs fr"
  shows "list_all is_number_char (number_text digs fr)" "number_text digs fr \<noteq> []"
    "is_graph (hd (number_text digs fr))" "is_graph (last (number_text digs fr))"
proof -
  have g: "is_graph c" if "is_number_char c" for c
    using that is_digit_graph [of c] by (auto simp: is_number_char_def is_graph_def less_eq_char_def)
  show all: "list_all is_number_char (number_text digs fr)" and ne: "number_text digs fr \<noteq> []"
    using assms by (auto simp: number_ok_def number_text_def is_number_char_def list_all_iff Let_def split: option.splits)
  then show "is_graph (hd (number_text digs fr))" "is_graph (last (number_text digs fr))"
    using g by (auto simp: list_all_iff)
qed

lemma ParseByteSize_number:
  assumes "number_ok digs fr" and "float64 (number_value digs fr) < 2 ^ 1024" and "u \<in> set size_units"
  shows "\<exists>m. size_multiplier (ToUpper u) = Some m \<and> m \<in> set [1, 1024, 1048576, 1073741824] \<and>
     ParseByteSize big (number_text digs fr @ u) = Inr (to_int64 big (float64 (float64 (number_value digs fr) * of_int m)))"
proof -
  let ?t = "number_text digs fr"
  note t = number_text_chars [OF assms(1)]
  have u: "u = [] \<or> is_graph (hd u) \<and> is_graph (last u)" "list_all (\<lambda>c. \<not> is_number_char c) u"
    and "\<exists>m. size_multiplier (ToUpper u) = Some m \<and> m \<in> set [1, 1024, 1048576, 1073741824]"
    using size_units_ok assms(3) by (auto simp: list_all_iff split: option.splits)
  then obtain m where m: "size_multiplier (ToUpper u) = Some m" "m \<in> set [1, 1024, 1048576, 1073741824]" by blast
  have "TrimSpace (?t @ u) = ?t @ u" using t u(1) by (intro TrimSpace_graph) (auto simp: last_append)
  moreover have "takeWhile is_number_char (?t @ u) = ?t"
    using t(1) u(2) by (cases u) (simp_all add: takeWhile_all_append list_all_iff)
  moreover have "TrimSpace u = u" using u(1) by (rule TrimSpace_graph)
  ultimately show ?thesis
    using m t(2) ParseFloat_number [OF assms(1,2)] by (intro exI [of _ m]) (simp add: ParseByteSize_def Let_def)
qed

section \<open>Properties of sizes\<close>

text \<open>
  C32: A size that is written as a number with or without a fraction and a unit in upper or lower
  case is read as exactly the number of bytes it denotes, rounded down, as long as the number
  fits into the 53 bits of a double precision number and the size into 63 bits.
\<close>

theorem ParseByteSize_exact:
  assumes "number_ok digs fr" and "number_value digs fr = of_int n * pow2 k" and "0 \<le> n" and "n < 2 ^ 53"
    and "u \<in> set size_units" and "size_multiplier (ToUpper u) = Some m" and "number_value digs fr * of_int m < 2 ^ 63"
  shows "ParseByteSize big (number_text digs fr @ u) = Inr \<lfloor>number_value digs fr * of_int m\<rfloor>"
proof -
  let ?q = "number_value digs fr"
  have f: "float64 ?q = ?q" using float64_exact [OF assms(3,4)] assms(2) by simp
  have m: "m \<in> set [1, 1024, 1048576, 1073741824]" using size_units_ok assms(5,6) by (auto simp: list_all_iff split: option.splits)
  then have "1 \<le> (of_int m :: rat)" by auto
  moreover have q: "0 \<le> ?q" using assms(2,3) less_imp_le [OF pow2_pos] by simp
  ultimately have "?q \<le> ?q * of_int m" by (metis mult.right_neutral mult_left_mono)
  then have "?q < 2 ^ 63" using assms(7) by linarith
  also have "\<dots> < (2 ^ 1024 :: rat)" by simp
  finally have "float64 ?q < 2 ^ 1024" using f by simp
  from ParseByteSize_number [OF assms(1) this assms(5)]
  have p: "ParseByteSize big (number_text digs fr @ u) = Inr (to_int64 big (float64 (?q * of_int m)))" using assms(6) f by simp
  obtain j where "of_int m = pow2 j" using multiplier_pow2 [OF m] by blast
  then have "?q * of_int m = of_int n * pow2 (k + j)" using assms(2) by (simp add: pow2_add mult.assoc)
  then have "float64 (?q * of_int m) = ?q * of_int m" using float64_exact [OF assms(3,4)] by simp
  then show ?thesis using p assms(7) by (simp add: to_int64_def)
qed

theorem ParseByteSize_exact_witness: "ParseByteSize (\<lambda>_. 0) (''1.5'' @ ''gb'') = Inr 1610612736"
proof -
  have d: "digits_value ''15'' = 15" "list_all is_digit ''15''" "''gb'' \<in> set size_units" "size_multiplier (ToUpper ''gb'') = Some 1073741824"
    by code_simp+
  have t: "number_text ''1'' (Some ''5'') = ''1.5''" "number_ok ''1'' (Some ''5'')" "number_value ''1'' (Some ''5'') = of_int 3 * pow2 (- 1)"
    using d(1,2) by (simp_all add: number_text_def number_ok_def number_value_def pow2_def)
  have "ParseByteSize (\<lambda>_. 0) (number_text ''1'' (Some ''5'') @ ''gb'') = Inr \<lfloor>number_value ''1'' (Some ''5'') * of_int 1073741824\<rfloor>"
    by (rule ParseByteSize_exact [OF t(2,3) _ _ d(3,4)]) (use t(3) in \<open>simp_all add: pow2_def\<close>)
  then show ?thesis using t by (simp add: pow2_def)
qed

end
