(* ===== verification/Proxycmd.thy ===== *)
theory Proxycmd
  imports Wsconfig
begin

text \<open>
  \<^verbatim>\<open>wsproxy/cmd/main.go\<close>: how the command line, the environment and the configuration file give the
  configuration the proxy runs with. Parsing of the command line is library code: a flag that
  was given is \<open>Some\<close> value.
\<close>

section \<open>The command line\<close>

record Flags =
  fl_config :: string
  fl_listen :: "string option"
  fl_tls_cert :: "string option"
  fl_tls_key :: "string option"
  fl_require_tls :: "bool option"
  fl_vnc_password :: "string option"
  fl_vnc_password_file :: "string option"
  fl_allow_any_target :: "bool option"
  fl_max_connections :: "int option"
  fl_max_connections_per_target :: "int option"
  fl_default_upload_dir :: "bytes option"
  fl_max_upload_size :: "int option"
  fl_log_format :: "string option"
  fl_log_level :: "string option"
  fl_shutdown_timeout :: "int option"
  fl_version :: bool
  fl_allowed_vnc_target :: "string list"
  fl_allowed_origin :: "string list"
  fl_allowed_upload_dir :: "bytes list"

text \<open>\<^verbatim>\<open>stringSlice.Set\<close>, called for every use of a repeatable flag.\<close>

definition stringSlice_Set :: "string \<Rightarrow> string list \<Rightarrow> string list" where
  "stringSlice_Set v s = s @ [v]"

text \<open>The ways the program ends before it serves, and what it serves with.\<close>

datatype main_exit =
    PrintedVersion
  | LoadFailed goerr
  | Invalid "config_error list"
  | PasswordFileFailed goerr
  | NoTargetAllowed
  | NoTLSFiles
  | BadLogLevel string
  | BadLogFormat string

datatype slog_level = LevelDebug | LevelInfo | LevelWarn | LevelError

record RunConfig =
  run_ListenAddr :: string
  run_TLSCertFile :: string
  run_TLSKeyFile :: string
  run_level :: slog_level
  run_json :: bool
  run_ws :: WsConfig

definition flag_or :: "'a \<Rightarrow> 'a option \<Rightarrow> 'a" where
  "flag_or x f = (case f of None \<Rightarrow> x | Some v \<Rightarrow> v)"

fun main_bind :: "main_exit + 'a \<Rightarrow> ('a \<Rightarrow> main_exit + 'b) \<Rightarrow> main_exit + 'b" where
  "main_bind (Inl e) f = Inl e"
| "main_bind (Inr x) f = f x"

section \<open>The steps of main\<close>

record world =
  w_ReadFile :: "string \<Rightarrow> string res"
  w_Unmarshal :: "string \<Rightarrow> FileConfig res"
  w_Getenv :: env
  w_int64 :: "rat \<Rightarrow> int"

definition load_config :: "world \<Rightarrow> Flags \<Rightarrow> main_exit + FileConfig option" where
  "load_config w fl =
     (if fl_config fl = '''' then Inr None
      else case LoadFileConfig (w_ReadFile w) (w_Unmarshal w) (fl_config fl) of
        Inl e \<Rightarrow> Inl (LoadFailed e)
      | Inr cfg \<Rightarrow>
          let cfg = ApplyEnvOverrides (w_Getenv w) cfg; errs = ValidateFileConfig (w_int64 w) cfg in
          if errs \<noteq> [] then Inl (Invalid errs) else Inr (Some cfg))"

text \<open>A value of a section of the file, if there are both.\<close>

definition in_section :: "(FileConfig \<Rightarrow> 's option) \<Rightarrow> ('s \<Rightarrow> 'a) \<Rightarrow> 'a \<Rightarrow> FileConfig option \<Rightarrow> 'a" where
  "in_section sec f d cfg = (case cfg of None \<Rightarrow> d | Some c \<Rightarrow> (case sec c of None \<Rightarrow> d | Some s \<Rightarrow> f s))"

definition final_listen :: "Flags \<Rightarrow> FileConfig option \<Rightarrow> string" where
  "final_listen fl cfg =
     flag_or (case cfg of None \<Rightarrow> '':8080'' | Some c \<Rightarrow> if fc_Listen c \<noteq> '''' then fc_Listen c else '':8080'') (fl_listen fl)"

definition final_tls_cert :: "Flags \<Rightarrow> FileConfig option \<Rightarrow> string" where
  "final_tls_cert fl cfg = flag_or (in_section fc_TLS tf_Cert '''' cfg) (fl_tls_cert fl)"

definition final_tls_key :: "Flags \<Rightarrow> FileConfig option \<Rightarrow> string" where
  "final_tls_key fl cfg = flag_or (in_section fc_TLS tf_Key '''' cfg) (fl_tls_key fl)"

definition final_require_tls :: "Flags \<Rightarrow> FileConfig option \<Rightarrow> bool" where
  "final_require_tls fl cfg = flag_or (in_section fc_TLS tf_Require False cfg) (fl_require_tls fl)"

definition first_line :: "string \<Rightarrow> string" where
  "first_line data = trim_right (CHR 0x0D) (takeWhile (\<lambda>c. c \<noteq> CHR 0x0A) data)"

definition password_file :: "world \<Rightarrow> string \<Rightarrow> main_exit + string" where
  "password_file w path = (case w_ReadFile w path of Inl e \<Rightarrow> Inl (PasswordFileFailed e) | Inr data \<Rightarrow> Inr (first_line data))"

definition file_password :: "world \<Rightarrow> FileConfig option \<Rightarrow> main_exit + string" where
  "file_password w cfg =
     (let pw = in_section fc_Security sf_VNCPassword '''' cfg;
          path = in_section fc_Security sf_VNCPasswordFile '''' cfg in
      if pw = '''' \<and> path \<noteq> '''' then password_file w path else Inr pw)"

definition vnc_password :: "world \<Rightarrow> Flags \<Rightarrow> FileConfig option \<Rightarrow> main_exit + string" where
  "vnc_password w fl cfg =
     main_bind (file_password w cfg) (\<lambda>pw.
     main_bind (case fl_vnc_password_file fl of None \<Rightarrow> Inr pw | Some path \<Rightarrow> password_file w path) (\<lambda>pw.
     let pw = flag_or pw (fl_vnc_password fl) in
     Inr (if pw = '''' then w_Getenv w ''REDVNC_VNC_PASSWORD'' else pw)))"

definition final_targets :: "Flags \<Rightarrow> FileConfig option \<Rightarrow> string list" where
  "final_targets fl cfg =
     (if fl_allowed_vnc_target fl = [] then in_section fc_Security sf_AllowedVNCTargets [] cfg else fl_allowed_vnc_target fl)"

definition final_allow_any :: "Flags \<Rightarrow> FileConfig option \<Rightarrow> bool" where
  "final_allow_any fl cfg = flag_or (in_section fc_Security sf_AllowAnyTarget False cfg) (fl_allow_any_target fl)"

definition final_origins :: "Flags \<Rightarrow> FileConfig option \<Rightarrow> string list" where
  "final_origins fl cfg =
     (if fl_allowed_origin fl = [] then in_section fc_Security sf_AllowedOrigins [] cfg else fl_allowed_origin fl)"

definition if_positive :: "int \<Rightarrow> int \<Rightarrow> int" where
  "if_positive d n = (if n > 0 then n else d)"

definition final_max_conns :: "Flags \<Rightarrow> FileConfig option \<Rightarrow> int" where
  "final_max_conns fl cfg =
     flag_or (in_section fc_Limits (if_positive 100 \<circ> lf_MaxConnections) 100 cfg) (fl_max_connections fl)"

definition final_max_per_target :: "Flags \<Rightarrow> FileConfig option \<Rightarrow> int" where
  "final_max_per_target fl cfg =
     flag_or (in_section fc_Limits (if_positive 10 \<circ> lf_MaxConnectionsPerTarget) 10 cfg) (fl_max_connections_per_target fl)"

definition final_default_dir :: "Flags \<Rightarrow> FileConfig option \<Rightarrow> bytes" where
  "final_default_dir fl cfg = flag_or (in_section fc_Uploads uf_DefaultDir [] cfg) (fl_default_upload_dir fl)"

definition final_upload_dirs :: "Flags \<Rightarrow> FileConfig option \<Rightarrow> bytes list" where
  "final_upload_dirs fl cfg =
     (if fl_allowed_upload_dir fl = [] then in_section fc_Uploads uf_AllowedDirs [] cfg else fl_allowed_upload_dir fl)"

definition final_max_upload :: "world \<Rightarrow> Flags \<Rightarrow> FileConfig option \<Rightarrow> int" where
  "final_max_upload w fl cfg =
     (let d = 100 * 1024 * 1024; size = in_section fc_Limits lf_MaxUploadSize '''' cfg in
      flag_or (if size = '''' then d else case ParseByteSize (w_int64 w) size of Inl _ \<Rightarrow> d | Inr n \<Rightarrow> n)
        (fl_max_upload_size fl))"

definition if_set :: "string \<Rightarrow> string \<Rightarrow> string" where
  "if_set d s = (if s \<noteq> '''' then s else d)"

definition final_log_level :: "Flags \<Rightarrow> FileConfig option \<Rightarrow> string" where
  "final_log_level fl cfg = flag_or (in_section fc_Logging (if_set ''info'' \<circ> gf_Level) ''info'' cfg) (fl_log_level fl)"

definition final_log_format :: "Flags \<Rightarrow> FileConfig option \<Rightarrow> string" where
  "final_log_format fl cfg = flag_or (in_section fc_Logging (if_set ''text'' \<circ> gf_Format) ''text'' cfg) (fl_log_format fl)"

definition final_shutdown_timeout :: "Flags \<Rightarrow> FileConfig option \<Rightarrow> int" where
  "final_shutdown_timeout fl cfg =
     (let d = 30 * time_Second; s = (case cfg of None \<Rightarrow> '''' | Some c \<Rightarrow> fc_ShutdownTimeout c) in
      flag_or (if s = '''' then d else case ParseDuration s of None \<Rightarrow> d | Some n \<Rightarrow> n) (fl_shutdown_timeout fl))"

definition slog_level_of :: "string \<Rightarrow> slog_level option" where
  "slog_level_of s =
     (let l = ToLower s in
      if l = ''debug'' then Some LevelDebug else if l = ''info'' then Some LevelInfo
      else if l = ''warn'' then Some LevelWarn else if l = ''error'' then Some LevelError else None)"

definition json_format :: "string \<Rightarrow> bool option" where
  "json_format s = (let f = ToLower s in if f = ''json'' then Some True else if f = ''text'' then Some False else None)"

text \<open>The zero value of \<^verbatim>\<open>RateLimitConfig\<close>, which is what \<^verbatim>\<open>main\<close> leaves in the configuration.\<close>

definition RateLimitConfig_zero :: RateLimitConfig where
  "RateLimitConfig_zero = \<lparr>rc_Enabled = False, rc_Window = 0, rc_MaxAttempts = 0, rc_LockoutDuration = 0\<rparr>"

definition proxy_main :: "world \<Rightarrow> Flags \<Rightarrow> main_exit + RunConfig" where
  "proxy_main w fl =
     (if fl_version fl then Inl PrintedVersion
      else
        main_bind (load_config w fl) (\<lambda>cfg.
        main_bind (vnc_password w fl cfg) (\<lambda>password.
        if final_targets fl cfg = [] \<and> \<not> final_allow_any fl cfg then Inl NoTargetAllowed
        else if final_require_tls fl cfg \<and> (final_tls_cert fl cfg = '''' \<or> final_tls_key fl cfg = '''') then Inl NoTLSFiles
        else case slog_level_of (final_log_level fl cfg) of
          None \<Rightarrow> Inl (BadLogLevel (final_log_level fl cfg))
        | Some level \<Rightarrow>
            (case json_format (final_log_format fl cfg) of
               None \<Rightarrow> Inl (BadLogFormat (final_log_format fl cfg))
             | Some json \<Rightarrow>
                 Inr \<lparr>run_ListenAddr = final_listen fl cfg, run_TLSCertFile = final_tls_cert fl cfg,
                      run_TLSKeyFile = final_tls_key fl cfg, run_level = level, run_json = json,
                      run_ws = \<lparr>wc_AllowedVNCTargets = final_targets fl cfg, wc_DefaultVNCPassword = password,
                        wc_MaxConnections = final_max_conns fl cfg, wc_MaxConnectionsPerTarget = final_max_per_target fl cfg,
                        wc_DefaultUploadDir = final_default_dir fl cfg, wc_AllowedUploadDirs = final_upload_dirs fl cfg,
                        wc_MaxUploadSize = final_max_upload w fl cfg, wc_AllowedOrigins = final_origins fl cfg,
                        wc_RateLimit = RateLimitConfig_zero, wc_ShutdownTimeout = final_shutdown_timeout fl cfg\<rparr>\<rparr>))))"

section \<open>What the overrides change\<close>

text \<open>An override keeps every section it does not write to.\<close>

lemma env_override_keeps:
  "(\<And>v c. sel (f v c) = sel c) \<Longrightarrow> sel (env_override env n f cfg) = sel cfg"
  by (simp add: env_override_def)

lemma env_override_sets: "sel (env_override env n f cfg) = (if env n = '''' then sel cfg else sel (f (env n) cfg))"
  by (simp add: env_override_def)

lemmas override_keeps =
  env_override_keeps [of fc_Listen] env_override_keeps [of fc_TLS] env_override_keeps [of fc_Security]
  env_override_keeps [of fc_Limits] env_override_keeps [of fc_Uploads] env_override_keeps [of fc_Logging]
  env_override_keeps [of fc_ShutdownTimeout]

lemmas override_sets =
  env_override_sets [of fc_Listen _ "''REDVNC_LISTEN''"] env_override_sets [of fc_TLS _ "''REDVNC_TLS_CERT''"]
  env_override_sets [of fc_TLS _ "''REDVNC_TLS_KEY''"] env_override_sets [of fc_Security _ "''REDVNC_VNC_PASSWORD''"]
  env_override_sets [of fc_Limits _ "''REDVNC_MAX_CONNECTIONS''"] env_override_sets [of fc_Limits _ "''REDVNC_MAX_UPLOAD_SIZE''"]
  env_override_sets [of fc_Logging _ "''REDVNC_LOG_LEVEL''"] env_override_sets [of fc_Logging _ "''REDVNC_LOG_FORMAT''"]
  env_override_sets [of fc_ShutdownTimeout _ "''REDVNC_SHUTDOWN_TIMEOUT''"]

lemma override_simps:
  "fc_Listen (ApplyEnvOverrides env cfg) = if_set (fc_Listen cfg) (env ''REDVNC_LISTEN'')"
  "fc_Security (ApplyEnvOverrides env cfg) =
     (if env ''REDVNC_VNC_PASSWORD'' = '''' then fc_Security cfg
      else upd_section SecurityFileConfig_zero (\<lambda>s. s\<lparr>sf_VNCPassword := env ''REDVNC_VNC_PASSWORD''\<rparr>) (fc_Security cfg))"
  "fc_ShutdownTimeout (ApplyEnvOverrides env cfg) = if_set (fc_ShutdownTimeout cfg) (env ''REDVNC_SHUTDOWN_TIMEOUT'')"
  "fc_Uploads (ApplyEnvOverrides env cfg) = fc_Uploads cfg"
  by (simp_all add: ApplyEnvOverrides_def Let_def override_keeps override_sets if_set_def split: option.split)

lemma in_section_Some: "in_section sec f d (Some c) = (case sec c of None \<Rightarrow> d | Some s \<Rightarrow> f s)"
  by (simp add: in_section_def)

lemma override_targets:
  "in_section fc_Security sf_AllowedVNCTargets [] (Some (ApplyEnvOverrides env cfg)) =
     in_section fc_Security sf_AllowedVNCTargets [] (Some cfg)"
  "in_section fc_Security sf_AllowAnyTarget False (Some (ApplyEnvOverrides env cfg)) =
     in_section fc_Security sf_AllowAnyTarget False (Some cfg)"
  by (auto simp: in_section_Some override_simps upd_section_def SecurityFileConfig_zero_def split: option.split)

lemma override_tls:
  "in_section fc_TLS tf_Cert '''' (Some (ApplyEnvOverrides env cfg)) =
     if_set (in_section fc_TLS tf_Cert '''' (Some cfg)) (env ''REDVNC_TLS_CERT'')"
  "in_section fc_TLS tf_Key '''' (Some (ApplyEnvOverrides env cfg)) =
     if_set (in_section fc_TLS tf_Key '''' (Some cfg)) (env ''REDVNC_TLS_KEY'')"
  by (simp_all add: in_section_Some ApplyEnvOverrides_def Let_def override_keeps override_sets if_set_def upd_section_def
      TLSFileConfig_zero_def split: option.split)

lemma override_logging:
  "in_section fc_Logging (if_set d \<circ> gf_Level) d (Some (ApplyEnvOverrides env cfg)) =
     if_set (in_section fc_Logging (if_set d \<circ> gf_Level) d (Some cfg)) (env ''REDVNC_LOG_LEVEL'')"
  "in_section fc_Logging (if_set d \<circ> gf_Format) d (Some (ApplyEnvOverrides env cfg)) =
     if_set (in_section fc_Logging (if_set d \<circ> gf_Format) d (Some cfg)) (env ''REDVNC_LOG_FORMAT'')"
  by (simp_all add: in_section_Some ApplyEnvOverrides_def Let_def override_keeps override_sets if_set_def upd_section_def
      LoggingFileConfig_zero_def split: option.split)

lemma override_max_conns:
  "in_section fc_Limits (if_positive 100 \<circ> lf_MaxConnections) 100 (Some (ApplyEnvOverrides env cfg)) =
     (case Atoi (env ''REDVNC_MAX_CONNECTIONS'') of
        None \<Rightarrow> in_section fc_Limits (if_positive 100 \<circ> lf_MaxConnections) 100 (Some cfg)
      | Some n \<Rightarrow> if_positive 100 n)"
proof -
  have "Atoi '''' = None" by (simp add: Atoi_def)
  then show ?thesis
    by (simp add: in_section_Some ApplyEnvOverrides_def Let_def override_keeps override_sets upd_section_def
        LimitsFileConfig_zero_def if_positive_def split: option.split)
qed

section \<open>What a configuration that runs comes from\<close>

text \<open>The configuration file as it is on disk, if the command line names one.\<close>

definition disk_config :: "world \<Rightarrow> Flags \<Rightarrow> FileConfig option" where
  "disk_config w fl =
     (if fl_config fl = '''' then None
      else case LoadFileConfig (w_ReadFile w) (w_Unmarshal w) (fl_config fl) of Inl _ \<Rightarrow> None | Inr cfg \<Rightarrow> Some cfg)"

lemma main_bind_Inr_iff: "main_bind r f = Inr y \<longleftrightarrow> (\<exists>x. r = Inr x \<and> f x = Inr y)"
  by (cases r) auto

lemma load_config_Inr:
  assumes "load_config w fl = Inr cfg"
  shows "cfg = map_option (ApplyEnvOverrides (w_Getenv w)) (disk_config w fl)"
    and "cfg = Some c \<Longrightarrow> ValidateFileConfig (w_int64 w) c = []"
  using assms by (auto simp: load_config_def disk_config_def Let_def split: if_splits sum.splits)

lemma proxy_main_Inr:
  assumes "proxy_main w fl = Inr run"
  obtains cfg password where
    "cfg = map_option (ApplyEnvOverrides (w_Getenv w)) (disk_config w fl)" "load_config w fl = Inr cfg"
    "vnc_password w fl cfg = Inr password" "final_targets fl cfg \<noteq> [] \<or> final_allow_any fl cfg"
    "\<not> final_require_tls fl cfg \<or> final_tls_cert fl cfg \<noteq> '''' \<and> final_tls_key fl cfg \<noteq> ''''"
    "slog_level_of (final_log_level fl cfg) = Some (run_level run)" "json_format (final_log_format fl cfg) = Some (run_json run)"
    "run_ListenAddr run = final_listen fl cfg" "run_TLSCertFile run = final_tls_cert fl cfg" "run_TLSKeyFile run = final_tls_key fl cfg"
    "run_ws run = \<lparr>wc_AllowedVNCTargets = final_targets fl cfg, wc_DefaultVNCPassword = password,
       wc_MaxConnections = final_max_conns fl cfg, wc_MaxConnectionsPerTarget = final_max_per_target fl cfg,
       wc_DefaultUploadDir = final_default_dir fl cfg, wc_AllowedUploadDirs = final_upload_dirs fl cfg,
       wc_MaxUploadSize = final_max_upload w fl cfg, wc_AllowedOrigins = final_origins fl cfg,
       wc_RateLimit = RateLimitConfig_zero, wc_ShutdownTimeout = final_shutdown_timeout fl cfg\<rparr>"
proof -
  obtain cfg password where l: "load_config w fl = Inr cfg" "vnc_password w fl cfg = Inr password"
    and r: "(if final_targets fl cfg = [] \<and> \<not> final_allow_any fl cfg then Inl NoTargetAllowed
        else if final_require_tls fl cfg \<and> (final_tls_cert fl cfg = '''' \<or> final_tls_key fl cfg = '''') then Inl NoTLSFiles
        else case slog_level_of (final_log_level fl cfg) of
          None \<Rightarrow> Inl (BadLogLevel (final_log_level fl cfg))
        | Some level \<Rightarrow>
            (case json_format (final_log_format fl cfg) of
               None \<Rightarrow> Inl (BadLogFormat (final_log_format fl cfg))
             | Some json \<Rightarrow>
                 Inr \<lparr>run_ListenAddr = final_listen fl cfg, run_TLSCertFile = final_tls_cert fl cfg,
                      run_TLSKeyFile = final_tls_key fl cfg, run_level = level, run_json = json,
                      run_ws = \<lparr>wc_AllowedVNCTargets = final_targets fl cfg, wc_DefaultVNCPassword = password,
                        wc_MaxConnections = final_max_conns fl cfg, wc_MaxConnectionsPerTarget = final_max_per_target fl cfg,
                        wc_DefaultUploadDir = final_default_dir fl cfg, wc_AllowedUploadDirs = final_upload_dirs fl cfg,
                        wc_MaxUploadSize = final_max_upload w fl cfg, wc_AllowedOrigins = final_origins fl cfg,
                        wc_RateLimit = RateLimitConfig_zero, wc_ShutdownTimeout = final_shutdown_timeout fl cfg\<rparr>\<rparr>)) = Inr run"
    using assms by (auto simp: proxy_main_def main_bind_Inr_iff split: if_split_asm)
  show ?thesis
    by (rule that [OF load_config_Inr(1) [OF l(1)] l])
      (use r in \<open>auto split: if_split_asm option.split_asm\<close>)
qed


lemma targets_from_disk:
  assumes "cfg = map_option (ApplyEnvOverrides env) disk"
  shows "final_targets fl cfg =
      (if fl_allowed_vnc_target fl = [] then in_section fc_Security sf_AllowedVNCTargets [] disk else fl_allowed_vnc_target fl)"
    and "final_allow_any fl cfg = flag_or (in_section fc_Security sf_AllowAnyTarget False disk) (fl_allow_any_target fl)"
proof -
  show "final_targets fl cfg =
      (if fl_allowed_vnc_target fl = [] then in_section fc_Security sf_AllowedVNCTargets [] disk else fl_allowed_vnc_target fl)"
    using assms override_targets(1) by (cases disk) (simp_all add: final_targets_def)
  show "final_allow_any fl cfg = flag_or (in_section fc_Security sf_AllowAnyTarget False disk) (fl_allow_any_target fl)"
    using assms override_targets(2) by (cases disk) (simp_all add: final_allow_any_def)
qed

lemma validated_sections:
  assumes "ValidateFileConfig big c = []"
  shows "fc_Limits c = Some l \<Longrightarrow> lf_MaxUploadSize l \<noteq> '''' \<Longrightarrow> \<exists>n. ParseByteSize big (lf_MaxUploadSize l) = Inr n"
    and "fc_Logging c = Some g \<Longrightarrow> gf_Level g = '''' \<or> valid_level (gf_Level g)"
    and "fc_Logging c = Some g \<Longrightarrow> gf_Format g = '''' \<or> valid_format (gf_Format g)"
    and "fc_ShutdownTimeout c \<noteq> '''' \<Longrightarrow> \<exists>n. ParseDuration (fc_ShutdownTimeout c) = Some n"
  using assms
  by (auto simp: ValidateFileConfig_def opt_list_def validate_limits_def validate_logging_def bad_duration_def
      split: sum.splits if_splits)

lemma level_known: "valid_level s \<Longrightarrow> slog_level_of s \<noteq> None"
  by (auto simp: valid_level_def slog_level_of_def Let_def)

lemma format_known: "valid_format s \<Longrightarrow> json_format s \<noteq> None"
  by (auto simp: valid_format_def json_format_def Let_def)

lemma default_level: "slog_level_of ''info'' \<noteq> None" "json_format ''text'' \<noteq> None"
  by code_simp+

section \<open>Properties\<close>

text \<open>
  C23: From the command line to the sessions: whatever the environment and the configuration file
  hold, when the proxy starts and serves any requests in any order, each of its sessions goes to
  a target that the command line lists, or that the file lists when the command line lists none,
  unless connections to any target were allowed explicitly, by the flag or by the file.
\<close>

theorem sessions_only_to_configured_targets:
  assumes "proxy_main w fl = Inr run"
    and "ws_step\<^sup>*\<^sup>* (ws_init (wsproxy_NewServer os downloads (run_ws run))) t"
    and "s \<in> set (All (wsv_connMgr (wst_server t)))"
  shows "s_Target s \<in> set (fl_allowed_vnc_target fl) \<or>
     fl_allowed_vnc_target fl = [] \<and> s_Target s \<in> set (in_section fc_Security sf_AllowedVNCTargets [] (disk_config w fl)) \<or>
     fl_allowed_vnc_target fl = [] \<and> in_section fc_Security sf_AllowedVNCTargets [] (disk_config w fl) = [] \<and>
       (fl_allow_any_target fl = Some True \<or>
        fl_allow_any_target fl = None \<and> in_section fc_Security sf_AllowAnyTarget False (disk_config w fl))"
proof -
  obtain cfg pw where c: "cfg = map_option (ApplyEnvOverrides (w_Getenv w)) (disk_config w fl)"
      "final_targets fl cfg \<noteq> [] \<or> final_allow_any fl cfg" "wc_AllowedVNCTargets (run_ws run) = final_targets fl cfg"
    by (rule proxy_main_Inr [OF assms(1)]) simp
  have "target_ok (final_targets fl cfg) (s_Target s)"
    using ws_reachable [OF assms(2)] assms(3) c(3) by (auto simp: ws_ok_def)
  then have "final_targets fl cfg = [] \<or> s_Target s \<in> set (final_targets fl cfg)" by (simp add: target_ok_def)
  then show ?thesis
    using c(2) targets_from_disk [OF c(1), of fl] by (auto simp: flag_or_def split: if_splits option.splits)
qed

definition first_set :: "string list \<Rightarrow> string" where
  "first_set xs = (case filter (\<lambda>x. x \<noteq> '''') xs of [] \<Rightarrow> '''' | x # _ \<Rightarrow> x)"

text \<open>
  Every setting comes from the first place that gives it: the command line, then the
  environment (if there is a configuration file), then the file, then the default.
\<close>

lemma settings_precedence:
  assumes "proxy_main w fl = Inr run" and "disk_config w fl = Some c"
  shows "run_ListenAddr run =
      flag_or (first_set [w_Getenv w ''REDVNC_LISTEN'', fc_Listen c, '':8080'']) (fl_listen fl) \<and>
    run_TLSCertFile run =
      flag_or (first_set [w_Getenv w ''REDVNC_TLS_CERT'', in_section fc_TLS tf_Cert '''' (Some c)]) (fl_tls_cert fl) \<and>
    run_TLSKeyFile run =
      flag_or (first_set [w_Getenv w ''REDVNC_TLS_KEY'', in_section fc_TLS tf_Key '''' (Some c)]) (fl_tls_key fl) \<and>
    Some (run_level run) = slog_level_of
      (flag_or (first_set [w_Getenv w ''REDVNC_LOG_LEVEL'', in_section fc_Logging gf_Level '''' (Some c), ''info'']) (fl_log_level fl)) \<and>
    Some (run_json run) = json_format
      (flag_or (first_set [w_Getenv w ''REDVNC_LOG_FORMAT'', in_section fc_Logging gf_Format '''' (Some c), ''text'']) (fl_log_format fl)) \<and>
    wc_MaxConnections (run_ws run) =
      flag_or (if_positive 100 (case Atoi (w_Getenv w ''REDVNC_MAX_CONNECTIONS'') of
          None \<Rightarrow> in_section fc_Limits lf_MaxConnections 100 (Some c) | Some n \<Rightarrow> n)) (fl_max_connections fl)"
proof -
  obtain cfg pw where r: "cfg = map_option (ApplyEnvOverrides (w_Getenv w)) (disk_config w fl)"
    "slog_level_of (final_log_level fl cfg) = Some (run_level run)" "json_format (final_log_format fl cfg) = Some (run_json run)"
    "run_ListenAddr run = final_listen fl cfg" "run_TLSCertFile run = final_tls_cert fl cfg" "run_TLSKeyFile run = final_tls_key fl cfg"
    "wc_MaxConnections (run_ws run) = final_max_conns fl cfg"
    by (rule proxy_main_Inr [OF assms(1)]) simp
  have cfg: "cfg = Some (ApplyEnvOverrides (w_Getenv w) c)" using r(1) assms(2) by simp
  have fs2: "first_set [a, b] = if_set b a" for a b by (auto simp: first_set_def if_set_def)
  have fs3: "first_set [a, b, d] = if_set (if_set d b) a" if "d \<noteq> ''''" for a b d
    using that by (auto simp: first_set_def if_set_def)
  have listen: "final_listen fl cfg = flag_or (if_set (if_set '':8080'' (fc_Listen c)) (w_Getenv w ''REDVNC_LISTEN'')) (fl_listen fl)"
    by (simp add: final_listen_def cfg override_simps if_set_def)
  have sec: "in_section fc_Logging (if_set d \<circ> f) d (Some c) = if_set d (in_section fc_Logging f '''' (Some c))" for d f
    by (simp add: in_section_Some if_set_def split: option.split)
  have lim: "in_section fc_Limits (if_positive 100 \<circ> lf_MaxConnections) 100 (Some c) =
      if_positive 100 (in_section fc_Limits lf_MaxConnections 100 (Some c))"
    by (simp add: in_section_Some if_positive_def split: option.split)
  have fmax: "final_max_conns fl cfg = flag_or (if_positive 100 (case Atoi (w_Getenv w ''REDVNC_MAX_CONNECTIONS'') of
      None \<Rightarrow> in_section fc_Limits lf_MaxConnections 100 (Some c) | Some n \<Rightarrow> n)) (fl_max_connections fl)"
    by (simp add: final_max_conns_def cfg override_max_conns lim split: option.split)
  have tls: "final_tls_cert fl cfg = flag_or (if_set (in_section fc_TLS tf_Cert '''' (Some c)) (w_Getenv w ''REDVNC_TLS_CERT'')) (fl_tls_cert fl)"
    "final_tls_key fl cfg = flag_or (if_set (in_section fc_TLS tf_Key '''' (Some c)) (w_Getenv w ''REDVNC_TLS_KEY'')) (fl_tls_key fl)"
    by (simp_all add: cfg final_tls_cert_def final_tls_key_def override_tls)
  have log: "final_log_level fl cfg = flag_or (if_set (if_set ''info'' (in_section fc_Logging gf_Level '''' (Some c))) (w_Getenv w ''REDVNC_LOG_LEVEL'')) (fl_log_level fl)"
    "final_log_format fl cfg = flag_or (if_set (if_set ''text'' (in_section fc_Logging gf_Format '''' (Some c))) (w_Getenv w ''REDVNC_LOG_FORMAT'')) (fl_log_format fl)"
    by (simp_all add: cfg final_log_level_def final_log_format_def override_logging sec)
  show ?thesis using r(2-7) listen fmax tls log by (simp add: fs2 fs3)
qed


text \<open>
  C30: A configuration file that passes the validation, after the overrides by the environment, has
  values of the right kind in every field that is used later: the log level and the log format
  are known words, and the size and the timeout are read as what they denote, never silently
  replaced by a default.
\<close>

theorem validated_config_typed:
  assumes "load_config w fl = Inr (Some c)"
  shows "(fl_log_level fl = None \<longrightarrow> slog_level_of (final_log_level fl (Some c)) \<noteq> None) \<and>
    (fl_log_format fl = None \<longrightarrow> json_format (final_log_format fl (Some c)) \<noteq> None) \<and>
    (fl_max_upload_size fl = None \<and> in_section fc_Limits lf_MaxUploadSize '''' (Some c) \<noteq> '''' \<longrightarrow>
       ParseByteSize (w_int64 w) (in_section fc_Limits lf_MaxUploadSize '''' (Some c)) = Inr (final_max_upload w fl (Some c))) \<and>
    (fl_shutdown_timeout fl = None \<and> fc_ShutdownTimeout c \<noteq> '''' \<longrightarrow>
       ParseDuration (fc_ShutdownTimeout c) = Some (final_shutdown_timeout fl (Some c)))"
proof -
  note v = validated_sections [OF load_config_Inr(2) [OF assms refl]]
  have "slog_level_of (in_section fc_Logging (if_set ''info'' \<circ> gf_Level) ''info'' (Some c)) \<noteq> None"
    using v(2) default_level(1) level_known by (cases "fc_Logging c") (auto simp: in_section_Some if_set_def)
  moreover have "json_format (in_section fc_Logging (if_set ''text'' \<circ> gf_Format) ''text'' (Some c)) \<noteq> None"
    using v(3) default_level(2) format_known by (cases "fc_Logging c") (auto simp: in_section_Some if_set_def)
  moreover have "ParseByteSize (w_int64 w) (in_section fc_Limits lf_MaxUploadSize '''' (Some c)) = Inr (final_max_upload w fl (Some c))"
    if "fl_max_upload_size fl = None" "in_section fc_Limits lf_MaxUploadSize '''' (Some c) \<noteq> ''''"
    using that v(1) by (cases "fc_Limits c") (auto simp: in_section_Some final_max_upload_def flag_or_def Let_def)
  moreover have "ParseDuration (fc_ShutdownTimeout c) = Some (final_shutdown_timeout fl (Some c))"
    if "fl_shutdown_timeout fl = None" "fc_ShutdownTimeout c \<noteq> ''''"
    using that v(4) by (auto simp: final_shutdown_timeout_def flag_or_def Let_def)
  ultimately show ?thesis by (simp add: final_log_level_def final_log_format_def flag_or_def)
qed

text \<open>
  The rate limits of the configuration file have no effect: whatever its \<^verbatim>\<open>rate_limit\<close> section
  says, even that limiting is off, the proxy that starts limits with the defaults.
\<close>

lemma rate_limit_section_ignored:
  assumes "proxy_main w fl = Inr run"
  shows "wsv_rateLimiter (wsproxy_NewServer os downloads (run_ws run)) = NewRateLimiter DefaultRateLimitConfig"
proof -
  have "wc_RateLimit (run_ws run) = RateLimitConfig_zero" by (rule proxy_main_Inr [OF assms]) simp
  then show ?thesis
    by (simp add: wsproxy_NewServer_def config_defaults_def Let_def RateLimitConfig_zero_def)
qed

text \<open>Without a configuration file the environment gives nothing but the password.\<close>

lemma env_ignored_without_config:
  assumes "fl_config fl = ''''" and "env ''REDVNC_VNC_PASSWORD'' = w_Getenv w ''REDVNC_VNC_PASSWORD''"
  shows "proxy_main (w\<lparr>w_Getenv := env\<rparr>) fl = proxy_main w fl"
proof -
  have l: "load_config w' fl = Inr None" for w' using assms(1) by (simp add: load_config_def)
  have "vnc_password (w\<lparr>w_Getenv := env\<rparr>) fl None = vnc_password w fl None"
    using assms(2) by (simp add: vnc_password_def file_password_def password_file_def in_section_def Let_def cong: if_cong option.case_cong)
  moreover have "final_max_upload (w\<lparr>w_Getenv := env\<rparr>) fl None = final_max_upload w fl None"
    by (simp add: final_max_upload_def Let_def)
  ultimately show ?thesis by (simp add: proxy_main_def l cong: if_cong option.case_cong)
qed

text \<open>
  A password in the environment creates the section \<^verbatim>\<open>security\<close>, and a file that has none is then
  refused for its missing targets, even if the command line lists targets.
\<close>

lemma env_password_needs_targets:
  assumes "disk_config w fl = Some c" and "fc_Security c = None" and "w_Getenv w ''REDVNC_VNC_PASSWORD'' \<noteq> ''''"
    and "\<not> fl_version fl"
  shows "\<exists>errs. proxy_main w fl = Inl (Invalid errs) \<and> NoTargets \<in> set errs"
proof -
  let ?c = "ApplyEnvOverrides (w_Getenv w) c"
  have "NoTargets \<in> set (ValidateFileConfig (w_int64 w) ?c)"
    using assms(2,3) by (simp add: ValidateFileConfig_def opt_list_def override_simps upd_section_def validate_security_def SecurityFileConfig_zero_def)
  moreover have "load_config w fl = Inl (Invalid (ValidateFileConfig (w_int64 w) ?c))"
    using assms(1) calculation by (auto simp: load_config_def disk_config_def Let_def split: if_splits sum.splits)
  ultimately show ?thesis using assms(4) by (simp add: proxy_main_def)
qed

text \<open>With a configuration file, a password in the environment replaces the one of the file.\<close>

lemma env_password_before_file:
  assumes "disk_config w fl = Some c" and "w_Getenv w ''REDVNC_VNC_PASSWORD'' \<noteq> ''''"
    and "fl_vnc_password fl = None" and "fl_vnc_password_file fl = None" and "proxy_main w fl = Inr run"
  shows "wc_DefaultVNCPassword (run_ws run) = w_Getenv w ''REDVNC_VNC_PASSWORD''"
proof -
  obtain cfg pw where r: "cfg = map_option (ApplyEnvOverrides (w_Getenv w)) (disk_config w fl)"
      "vnc_password w fl cfg = Inr pw" "wc_DefaultVNCPassword (run_ws run) = pw"
    by (rule proxy_main_Inr [OF assms(5)]) simp
  have "in_section fc_Security sf_VNCPassword '''' cfg = w_Getenv w ''REDVNC_VNC_PASSWORD''"
    using r(1) assms(1,2) by (simp add: in_section_Some override_simps upd_section_def)
  then show ?thesis using r(2,3) assms(2-4) by (simp add: vnc_password_def file_password_def Let_def flag_or_def)
qed

section \<open>Examples\<close>

definition demo_flags :: Flags where
  "demo_flags = \<lparr>fl_config = ''c'', fl_listen = None, fl_tls_cert = None, fl_tls_key = None, fl_require_tls = None,
     fl_vnc_password = None, fl_vnc_password_file = None, fl_allow_any_target = None, fl_max_connections = Some 7,
     fl_max_connections_per_target = None, fl_default_upload_dir = None, fl_max_upload_size = None, fl_log_format = None,
     fl_log_level = None, fl_shutdown_timeout = None, fl_version = False, fl_allowed_vnc_target = [],
     fl_allowed_origin = [], fl_allowed_upload_dir = []\<rparr>"

definition demo_file :: FileConfig where
  "demo_file = \<lparr>fc_Listen = '':1'', fc_TLS = None,
     fc_Security = Some \<lparr>sf_AllowedVNCTargets = [''vnc:1''], sf_AllowAnyTarget = False, sf_AllowedOrigins = [],
       sf_VNCPassword = '''', sf_VNCPasswordFile = '''',
       sf_RateLimit = Some \<lparr>rf_Enabled = Some False, rf_MaxAttempts = 0, rf_Window = '''', rf_Lockout = ''''\<rparr>\<rparr>,
     fc_Limits = None, fc_Uploads = None, fc_Logging = Some \<lparr>gf_Level = ''Warn'', gf_Format = ''''\<rparr>, fc_ShutdownTimeout = ''''\<rparr>"

definition demo_world :: world where
  "demo_world = \<lparr>w_ReadFile = (\<lambda>_. Inr ''''), w_Unmarshal = (\<lambda>_. Inr demo_file),
     w_Getenv = (\<lambda>n. if n = ''REDVNC_LISTEN'' then '':2'' else ''''), w_int64 = (\<lambda>_. 0)\<rparr>"

lemma demo_disk: "disk_config demo_world demo_flags = Some demo_file"
  by code_simp

definition demo_run :: RunConfig where
  "demo_run = \<lparr>run_ListenAddr = '':2'', run_TLSCertFile = '''', run_TLSKeyFile = '''', run_level = LevelWarn, run_json = False,
     run_ws = \<lparr>wc_AllowedVNCTargets = [''vnc:1''], wc_DefaultVNCPassword = '''', wc_MaxConnections = 7, wc_MaxConnectionsPerTarget = 10,
       wc_DefaultUploadDir = [], wc_AllowedUploadDirs = [], wc_MaxUploadSize = 104857600, wc_AllowedOrigins = [],
       wc_RateLimit = RateLimitConfig_zero, wc_ShutdownTimeout = 30000000000\<rparr>\<rparr>"

lemma demo_runs: "proxy_main demo_world demo_flags = Inr demo_run"
  by code_simp

definition run_server :: WsServer where
  "run_server = wsproxy_NewServer \<lparr>os_Getwd = None, os_EvalSymlinks = Some\<rparr> [] (run_ws demo_run)"

lemma run_checks_pass: "handleWebSocket_checks 0 demo_request run_server = Inr (''vnc:1'', '''')"
  by code_simp

definition run_session :: ws_state where
  "run_session = \<lparr>wst_server = upd_mgr (snd \<circ> TryAdd demo_session) run_server, wst_pending = [], wst_closed = {}\<rparr>"

lemma run_session_reachable: "ws_step\<^sup>*\<^sup>* (ws_init run_server) run_session"
proof -
  let ?t1 = "(ws_init run_server)\<lparr>wst_pending := demo_session # wst_pending (ws_init run_server)\<rparr>"
  have new: "All (wsv_connMgr run_server) = []"
    by (simp add: run_server_def wsproxy_NewServer_def Let_def NewConnectionManager_def All_def)
  have s1: "ws_step (ws_init run_server) ?t1"
    using ws_step.accepted [of 0 demo_request "ws_init run_server" "''vnc:1''" "''''" "''s''"] run_checks_pass new
    by (simp add: ws_init_def demo_session_def demo_request_def)
  have s2: "ws_step ?t1 run_session"
    using ws_step.added [of demo_session ?t1] by (simp add: ws_init_def run_session_def)
  show ?thesis using converse_rtranclp_into_rtranclp [of ws_step, OF s1 r_into_rtranclp [of ws_step, OF s2]] .
qed

lemma run_session_added: "demo_session \<in> set (All (wsv_connMgr (wst_server run_session)))"
proof -
  have "All (wsv_connMgr (wst_server run_session)) = [demo_session]"
    by (simp add: run_session_def run_server_def demo_run_def wsproxy_NewServer_def config_defaults_def Let_def NewConnectionManager_def
        TryAdd_def targetCount_def All_def)
  then show ?thesis by simp
qed

theorem sessions_only_to_configured_targets_witness: "s_Target demo_session \<in> set [''vnc:1'']"
  using sessions_only_to_configured_targets [OF demo_runs run_session_reachable [unfolded run_server_def] run_session_added]
  unfolding demo_disk by (simp add: demo_flags_def demo_file_def in_section_Some)

lemma settings_precedence_witness: "run_ListenAddr demo_run = '':2'' \<and> wc_MaxConnections (run_ws demo_run) = 7"
  using settings_precedence [OF demo_runs demo_disk]
  by (simp add: first_set_def demo_world_def demo_flags_def flag_or_def)

theorem validated_config_typed_witness: "slog_level_of ''Warn'' \<noteq> None"
proof -
  have "load_config demo_world demo_flags = Inr (Some (ApplyEnvOverrides (w_Getenv demo_world) demo_file))" by code_simp
  moreover have "final_log_level demo_flags (Some (ApplyEnvOverrides (w_Getenv demo_world) demo_file)) = ''Warn''" by code_simp
  ultimately show ?thesis using validated_config_typed [of demo_world demo_flags] by (auto simp: demo_flags_def)
qed

lemma rate_limit_section_ignored_witness:
  "wsv_rateLimiter (wsproxy_NewServer \<lparr>os_Getwd = None, os_EvalSymlinks = Some\<rparr> [] (run_ws demo_run)) = NewRateLimiter DefaultRateLimitConfig"
  by (rule rate_limit_section_ignored [OF demo_runs])

end
