(* ===== verification/Proxylife.thy ===== *)
theory Proxylife
  imports Serverlife Proxycmd
begin

text \<open>
  How the proxy listens, \<^verbatim>\<open>wsproxy/server.go\<close>: the check of the port, the choice between TLS and plain HTTP, the health handler and the
  default directory of uploads; and what \<^verbatim>\<open>wsproxy/cmd/main.go\<close> does with its result. The HTTP server is library code: what it
  is told to serve is the result.
\<close>

section \<open>Listening\<close>

definition wsproxy_checkPortAvailable :: "(string \<Rightarrow> bool) \<Rightarrow> string \<Rightarrow> unit res" where
  "wsproxy_checkPortAvailable dial addr =
     (case SplitHostPort addr of
        None \<Rightarrow> Inl (ErrorfS ''invalid address %q'' (str addr))
      | Some (host, port) \<Rightarrow>
          let host = if host = [] then ''127.0.0.1'' else host in
          if \<not> dial (JoinHostPort host port) then Inr ()
          else Inl (ErrorfS ''port %s is already in use by another process'' (str addr)))"

datatype http_serving = PlainHTTP string | TLS12 string string string

definition wsproxy_ListenAndServe :: "(string \<Rightarrow> bool) \<Rightarrow> string \<Rightarrow> string \<Rightarrow> string \<Rightarrow> http_serving res" where
  "wsproxy_ListenAndServe dial addr cert key =
     rbind (wsproxy_checkPortAvailable dial addr) (\<lambda>_.
     Inr (if cert \<noteq> [] \<and> key \<noteq> [] then TLS12 addr cert key else PlainHTTP addr))"

text \<open>The end of \<^verbatim>\<open>main\<close>: what the process serves, or the status it exits with.\<close>

definition serve_main :: "world \<Rightarrow> Flags \<Rightarrow> (string \<Rightarrow> bool) \<Rightarrow> main_exit + goerr + http_serving" where
  "serve_main w fl dial =
     main_bind (proxy_main w fl) (\<lambda>rc. Inr (wsproxy_ListenAndServe dial (run_ListenAddr rc) (run_TLSCertFile rc) (run_TLSKeyFile rc)))"

text \<open>Both copies of the check agree, so that what is shown for one holds for the other.\<close>

lemma port_checks_agree: "wsproxy_checkPortAvailable = checkPortAvailable"
  by (simp add: fun_eq_iff wsproxy_checkPortAvailable_def checkPortAvailable_def)

text \<open>
  C24: A proxy of which TLS is required, by its flags or by its configuration, never serves in the clear: from the settings to the
  socket, whatever files, environment and network answer, it serves with TLS 1.2 or later and both files given, or it does not serve.
\<close>

theorem required_tls_is_used:
  assumes "load_config w fl = Inr cfg" and "final_require_tls fl cfg" and "serve_main w fl dial = Inr (Inr served)"
  shows "\<exists>addr cert key. served = TLS12 addr cert key \<and> cert = final_tls_cert fl cfg \<and> cert \<noteq> [] \<and> key = final_tls_key fl cfg \<and> key \<noteq> [] \<and>
    addr = final_listen fl cfg"
proof -
  obtain rc where rc: "proxy_main w fl = Inr rc" using assms(3) by (cases "proxy_main w fl") (auto simp: serve_main_def)
  then obtain password where pw: "vnc_password w fl cfg = Inr password"
    using assms(1) by (cases "vnc_password w fl cfg") (auto simp: proxy_main_def split: if_splits)
  have "run_ListenAddr rc = final_listen fl cfg" "run_TLSCertFile rc = final_tls_cert fl cfg" "run_TLSKeyFile rc = final_tls_key fl cfg"
    and ne: "final_tls_cert fl cfg \<noteq> []" "final_tls_key fl cfg \<noteq> []"
    using rc assms(1,2) pw by (auto simp: proxy_main_def split: if_splits option.splits)
  then show ?thesis
    using assms(3) rc by (auto simp: serve_main_def wsproxy_ListenAndServe_def rbind_Inr_iff)
qed

definition tls_flags :: Flags where
  "tls_flags = demo_flags\<lparr>fl_tls_cert := Some ''c.pem'', fl_tls_key := Some ''k.pem'', fl_require_tls := Some True\<rparr>"

theorem required_tls_is_used_witness:
  "serve_main demo_world tls_flags (\<lambda>_. False) = Inr (Inr (TLS12 '':2'' ''c.pem'' ''k.pem''))"
proof -
  obtain cfg where cfg: "load_config demo_world tls_flags = Inr cfg" "final_require_tls tls_flags cfg"
      "final_tls_cert tls_flags cfg = ''c.pem''" "final_tls_key tls_flags cfg = ''k.pem''" "final_listen tls_flags cfg = '':2''"
  proof -
    let ?cfg = "Some (ApplyEnvOverrides (w_Getenv demo_world) demo_file)"
    have "load_config demo_world tls_flags = Inr ?cfg" by code_simp
    moreover have "final_require_tls tls_flags ?cfg" by code_simp
    moreover have "final_tls_cert tls_flags ?cfg = ''c.pem''" by code_simp
    moreover have "final_tls_key tls_flags ?cfg = ''k.pem''" by code_simp
    moreover have "final_listen tls_flags ?cfg = '':2''" by code_simp
    ultimately show ?thesis by (rule that)
  qed
  have "case serve_main demo_world tls_flags (\<lambda>_. False) of Inr (Inr _) \<Rightarrow> True | _ \<Rightarrow> False" by code_simp
  then obtain served where s: "serve_main demo_world tls_flags (\<lambda>_. False) = Inr (Inr served)" by (auto split: sum.splits)
  show ?thesis using required_tls_is_used [OF cfg(1,2) s] s cfg(3-5) by auto
qed

section \<open>Health and directories\<close>

definition isDraining :: "WsServer \<Rightarrow> bool" where
  "isDraining s = wsv_draining s"

text \<open>The status and the fields of the answer; it is the same while the server is shutting down.\<close>

definition handleHealth :: "nat \<times> (string \<times> string) list" where
  "handleHealth = (200, [(''status'', ''ok''), (''version'', Version)])"

text \<open>\<open>join\<close> is \<^verbatim>\<open>filepath.Join\<close> of the system, \<open>home\<close> the home directory, empty when there is none.\<close>

definition defaultDownloadsDir :: "(string \<Rightarrow> string \<Rightarrow> string) \<Rightarrow> string \<Rightarrow> env \<Rightarrow> string \<Rightarrow> string" where
  "defaultDownloadsDir join GOOS getenv home =
     (if GOOS = ''linux'' then
        (let xdgDir = getenv ''XDG_DOWNLOAD_DIR'' in if xdgDir \<noteq> [] then xdgDir else join home ''Downloads'')
      else if GOOS = ''darwin'' then join home ''Downloads''
      else if GOOS = ''windows'' then
        (let profile = getenv ''USERPROFILE'' in if profile \<noteq> [] then join profile ''Downloads'' else join home ''Downloads'')
      else join home ''Downloads'')"

lemma defaultDownloadsDir_cases:
  "defaultDownloadsDir join GOOS getenv home \<in>
     {getenv ''XDG_DOWNLOAD_DIR'', join home ''Downloads'', join (getenv ''USERPROFILE'') ''Downloads''}"
  by (simp add: defaultDownloadsDir_def Let_def)

end
