(* ===== verification/Wincursor.thy ===== *)
theory Wincursor
  imports Gdicapture H264 Tight Server
begin

unbundle bit_operations_syntax

text \<open>
  \<^verbatim>\<open>example/server/cursor_windows.go\<close>: the shape of the mouse pointer on Windows as the cursor of RFB. What the functions of Windows answer
  is an argument; the bitmaps \<^verbatim>\<open>GetIconInfo\<close> creates and the device context are references as in \<open>Gdicapture\<close>.
\<close>

section \<open>The picture\<close>

text \<open>A monochrome pointer: the mask to be anded in the first half, the mask to be xored in the second.\<close>

definition mono_pixel :: "bytes \<Rightarrow> bytes \<Rightarrow> nat \<Rightarrow> bytes res" where
  "mono_pixel andMask xorMask i =
     rbind (index andMask (i * 4)) (\<lambda>andVal.
     rbind (index xorMask (i * 4)) (\<lambda>xorVal.
     Inr (if andVal = 0 then [xorVal, xorVal, xorVal, 255]
          else if xorVal \<noteq> 0 then [255, 255, 255, 255]
          else [0, 0, 0, 0])))"

definition mono_pixels :: "nat \<Rightarrow> nat \<Rightarrow> bytes \<Rightarrow> bytes res" where
  "mono_pixels w h maskPixels =
     rbind (gslice 0 (w * h * 4) maskPixels) (\<lambda>andMask.
     rbind (gslice (w * h * 4) (length maskPixels) maskPixels) (\<lambda>xorMask.
     rbind (mapM (mono_pixel andMask xorMask) [0..<w * h]) (\<lambda>ps. Inr (concat ps))))"

text \<open>A pointer with colours: one without any alpha gets it from its mask.\<close>

definition hasAlpha :: "bytes \<Rightarrow> bool" where
  "hasAlpha pixels = list_ex (\<lambda>i. pixels ! i \<noteq> 0) (loop_steps 3 (length pixels) 4)"

definition legacy_alpha :: "nat \<Rightarrow> nat \<Rightarrow> bytes \<Rightarrow> bytes \<Rightarrow> bytes res" where
  "legacy_alpha w h maskPixels pixels =
     foldM (\<lambda>i px. rbind (index maskPixels (i * 4)) (\<lambda>andVal. set_at (i * 4 + 3) (if andVal = 0 then 255 else 0) px)) [0..<w * h] pixels"

definition cursor_pixels :: "nat \<Rightarrow> nat \<Rightarrow> bytes option \<Rightarrow> bytes \<Rightarrow> bytes res" where
  "cursor_pixels w h colour maskPixels =
     (case colour of
        None \<Rightarrow> mono_pixels w h maskPixels
      | Some pixels \<Rightarrow> if hasAlpha pixels then Inr pixels else legacy_alpha w h maskPixels pixels)"

text \<open>The mask of RFB, one bit for each pixel, from the left: \<open>0x80 >> (x % 8)\<close>.\<close>

definition mask_pixel :: "nat \<Rightarrow> nat \<Rightarrow> bytes \<Rightarrow> nat \<times> nat \<Rightarrow> bytes \<Rightarrow> bytes res" where
  "mask_pixel w maskRowBytes pixels = (\<lambda>(y, x) mask.
     rbind (index pixels ((y * w + x) * 4 + 3)) (\<lambda>alpha.
     if alpha > 128
     then rbind (index mask (y * maskRowBytes + x div 8)) (\<lambda>b.
          set_at (y * maskRowBytes + x div 8) (b OR drop_bit (x mod 8) 0x80) mask)
     else Inr mask))"

definition cursor_mask :: "nat \<Rightarrow> nat \<Rightarrow> bytes \<Rightarrow> bytes res" where
  "cursor_mask w h pixels =
     (let maskRowBytes = (w + 7) div 8 in
      foldM (mask_pixel w maskRowBytes pixels) (List.product [0..<h] [0..<w]) (replicate (maskRowBytes * h) 0))"

section \<open>The calls of Windows\<close>

record iconInfo =
  ii_XHotspot :: u32
  ii_YHotspot :: u32
  ii_HbmMask :: nat
  ii_HbmColor :: nat

text \<open>\<open>ce_GetDIBits\<close> is what is written for a bitmap, \<^const>\<open>None\<close> the failure; \<open>ce_GetObjectW\<close> the size of a bitmap.\<close>

record cursor_env =
  ce_GetIconInfo :: "nat \<Rightarrow> iconInfo option"
  ce_GetObjectW :: "nat \<Rightarrow> nat \<times> nat"
  ce_GetDC :: nat
  ce_GetDIBits :: "nat \<Rightarrow> nat \<Rightarrow> nat \<Rightarrow> bytes option"

definition getDIBits32 :: "cursor_env \<Rightarrow> nat \<Rightarrow> nat \<Rightarrow> nat \<Rightarrow> nat \<Rightarrow> (win_ref, bytes option res) own" where
  "getDIBits32 e hdc hBitmap w h =
     (if w * h * 4 = 0 then own_ret (Inl (GoPanic ''index out of range''))
      else own_seq (touch (Dc hdc)) (own_seq (touch (Bitmap hBitmap))
     (case ce_GetDIBits e hBitmap w h of
        None \<Rightarrow> own_ret (Inr None)
      | Some d \<Rightarrow> own_bind (own_lift (if length d \<le> w * h * 4 then Some (copy (replicate (w * h * 4) 0) d) else None)) (\<lambda>buf.
          own_ret (Inr (Some buf))))))"

text \<open>From the device context on: the picture of the pointer.\<close>

definition build_cursor :: "iconInfo \<Rightarrow> nat \<Rightarrow> nat \<Rightarrow> bytes option \<Rightarrow> bytes \<Rightarrow> CursorImage option res" where
  "build_cursor ii w h colour maskPixels =
     rbind (cursor_pixels w h colour maskPixels) (\<lambda>pixels.
     rbind (cursor_mask w h pixels) (\<lambda>mask.
     Inr (Some \<lparr>cur_Width = of_nat w, cur_Height = of_nat h, cur_HotspotX = ucast (ii_XHotspot ii), cur_HotspotY = ucast (ii_YHotspot ii),
       cur_Pixels = pixels, cur_Mask = mask\<rparr>)))"

definition read_mask :: "cursor_env \<Rightarrow> iconInfo \<Rightarrow> nat \<Rightarrow> nat \<Rightarrow> nat \<Rightarrow> nat \<Rightarrow> bytes option \<Rightarrow> (win_ref, CursorImage option res) own" where
  "read_mask e ii dc w h bmHeight colour =
     own_bind (getDIBits32 e dc (ii_HbmMask ii) w bmHeight) (\<lambda>r.
     case r of
       Inl err \<Rightarrow> own_ret (Inl err)
     | Inr None \<Rightarrow> own_ret (Inr None)
     | Inr (Some maskPixels) \<Rightarrow> own_ret (build_cursor ii w h colour maskPixels))"

definition read_cursor :: "cursor_env \<Rightarrow> iconInfo \<Rightarrow> nat \<Rightarrow> nat \<Rightarrow> nat \<Rightarrow> (win_ref, CursorImage option res) own" where
  "read_cursor e ii dc w bmHeight =
     (if ii_HbmColor ii \<noteq> 0
      then own_bind (getDIBits32 e dc (ii_HbmColor ii) w bmHeight) (\<lambda>r.
        case r of
          Inl err \<Rightarrow> own_ret (Inl err)
        | Inr None \<Rightarrow> own_ret (Inr None)
        | Inr (Some pixels) \<Rightarrow> read_mask e ii dc w bmHeight bmHeight (Some pixels))
      else read_mask e ii dc w (bmHeight div 2) bmHeight None)"

definition bitmap_acquire :: "nat \<Rightarrow> (win_ref, unit) own" where
  "bitmap_acquire b = (if b \<noteq> 0 then acquire (Bitmap b) else own_ret ())"

definition bitmap_delete :: "nat \<Rightarrow> (win_ref, unit) own" where
  "bitmap_delete b = (if b \<noteq> 0 then release (Bitmap b) else own_ret ())"

definition captureCursorShape :: "cursor_env \<Rightarrow> nat \<Rightarrow> (win_ref, CursorImage option res) own" where
  "captureCursorShape e hCursor =
     (case ce_GetIconInfo e hCursor of
        None \<Rightarrow> own_ret (Inr None)
      | Some ii \<Rightarrow>
          own_seq (bitmap_acquire (ii_HbmColor ii)) (own_seq (bitmap_acquire (ii_HbmMask ii))
         (own_defer (own_seq (bitmap_delete (ii_HbmColor ii)) (bitmap_delete (ii_HbmMask ii)))
         (case (if ii_HbmMask ii = 0 then (0, 0) else ce_GetObjectW e (ii_HbmMask ii)) of (w, bmHeight) \<Rightarrow>
          if w = 0 \<or> bmHeight = 0 then own_ret (Inr None)
          else if ce_GetDC e = 0 then own_ret (Inr None)
          else own_seq (acquire (Dc (ce_GetDC e))) (own_defer (release (Dc (ce_GetDC e)))
            (read_cursor e ii (ce_GetDC e) w bmHeight))))))"

section \<open>The provider\<close>

text \<open>\<open>wp_images\<close> counts the images made so far; an image is known by its number.\<close>

record winCursorProvider =
  wp_lastHandle :: nat
  wp_lastCursor :: "(nat \<times> CursorImage) option"
  wp_images :: nat

definition newWinCursorProvider :: winCursorProvider where
  "newWinCursorProvider = \<lparr>wp_lastHandle = 0, wp_lastCursor = None, wp_images = 0\<rparr>"

definition CursorImage_zero :: CursorImage where
  "CursorImage_zero = \<lparr>cur_Width = 0, cur_Height = 0, cur_HotspotX = 0, cur_HotspotY = 0, cur_Pixels = [], cur_Mask = []\<rparr>"

definition keep_image :: "nat \<Rightarrow> CursorImage \<Rightarrow> winCursorProvider \<Rightarrow> (nat \<times> CursorImage) option res \<times> winCursorProvider" where
  "keep_image h img p = (let c = (wp_images p, img) in
     (Inr (Some c), p\<lparr>wp_lastHandle := h, wp_lastCursor := Some c, wp_images := Suc (wp_images p)\<rparr>))"

text \<open>\<^verbatim>\<open>GetCursorInfo\<close> answers whether the pointer is shown, and its handle.\<close>

definition winCursor ::
  "(bool \<times> nat) option \<Rightarrow> cursor_env \<Rightarrow> winCursorProvider \<Rightarrow> (win_ref, (nat \<times> CursorImage) option res \<times> winCursorProvider) own" where
  "winCursor info e p =
     (case info of
        None \<Rightarrow> own_ret (Inr None, p)
      | Some (showing, hCursor) \<Rightarrow>
          if \<not> showing then own_ret (if wp_lastHandle p \<noteq> 0 then keep_image 0 CursorImage_zero p else (Inr None, p))
          else if hCursor = wp_lastHandle p \<and> wp_lastCursor p \<noteq> None then own_ret (Inr None, p)
          else own_bind (captureCursorShape e hCursor) (\<lambda>r.
            case r of
              Inl err \<Rightarrow> own_ret (Inl err, p)
            | Inr None \<Rightarrow> own_ret (Inr None, p)
            | Inr (Some img) \<Rightarrow> own_ret (keep_image hCursor img p)))"

section \<open>What the picture shows\<close>

text \<open>A loop that always goes on, and what it has established for the elements it has visited.\<close>

lemma foldM_visits:
  assumes "P A s" and "\<And>x A s. x \<in> set xs \<Longrightarrow> P A s \<Longrightarrow> \<exists>s'. f x s = Inr s' \<and> P (insert x A) s'"
  shows "\<exists>s'. foldM f xs s = Inr s' \<and> P (A \<union> set xs) s'"
  using assms
proof (induction xs arbitrary: A s)
  case (Cons x xs)
  obtain s1 where s1: "f x s = Inr s1" "P (insert x A) s1" using Cons.prems(2) [of x A s] Cons.prems(1) by auto
  have "\<exists>s'. foldM f xs s1 = Inr s' \<and> P (insert x A \<union> set xs) s'" by (rule Cons.IH [OF s1(2)]) (simp add: Cons.prems(2))
  then show ?case using s1(1) by simp
qed simp

text \<open>
  Byte \<open>c\<close> of pixel \<open>i\<close>: the colours of the bitmap, or black and white where the first mask is off; opaque where the alpha says so or, without
  any alpha, where the mask is off; pixels that would be inverted are white.
\<close>

definition icon_byte :: "nat \<Rightarrow> bytes option \<Rightarrow> bytes \<Rightarrow> nat \<Rightarrow> nat \<Rightarrow> u8" where
  "icon_byte n colour maskPixels i c =
     (case colour of
        None \<Rightarrow>
          let a = maskPixels ! (i * 4); x = maskPixels ! (n * 4 + i * 4) in
          if a = 0 then (if c = 3 then 255 else x) else if x \<noteq> 0 then 255 else 0
      | Some px \<Rightarrow>
          if c = 3 \<and> (\<forall>j < n. px ! (j * 4 + 3) = 0) then (if maskPixels ! (i * 4) = 0 then 255 else 0) else px ! (i * 4 + c))"

definition shows_icon :: "nat \<Rightarrow> bytes option \<Rightarrow> bytes \<Rightarrow> bytes \<Rightarrow> bool" where
  "shows_icon n colour maskPixels pixels \<longleftrightarrow>
     length pixels = n * 4 \<and> (\<forall>i < n. \<forall>c < 4. pixels ! (i * 4 + c) = icon_byte n colour maskPixels i c)"

lemma block_bound: "i < n \<Longrightarrow> c < 4 \<Longrightarrow> i * 4 + c < n * (4 :: nat)"
  by simp

lemma less_four: "c < (4 :: nat) \<longleftrightarrow> c = 0 \<or> c = 1 \<or> c = 2 \<or> c = 3"
  by auto

lemma mono_pixels_show:
  assumes "2 * (w * h * 4) \<le> length maskPixels"
  shows "\<exists>pixels. mono_pixels w h maskPixels = Inr pixels \<and> shows_icon (w * h) None maskPixels pixels"
proof -
  define n where "n = w * h"
  define f where "f = (\<lambda>i. map (icon_byte n None maskPixels i) [0..<4])"
  have "mono_pixel (take (n * 4) maskPixels) (drop (n * 4) maskPixels) i = Inr (f i)" if "i < n" for i
  proof -
    have "i * 4 < n * 4" "n * 4 + i * 4 < length maskPixels" "i * 4 < length maskPixels - n * 4" using that assms by (simp_all add: n_def)
    moreover have "[0..<4] = [0, 1, 2, 3]" by (simp add: upt_rec)
    ultimately show ?thesis by (simp add: mono_pixel_def index_def f_def icon_byte_def Let_def)
  qed
  then have m: "mapM (mono_pixel (take (n * 4) maskPixels) (drop (n * 4) maskPixels)) [0..<n] = Inr (map f [0..<n])" by (intro mapM_total) simp
  have l: "length x = 4" if "x \<in> set (map f [0..<n])" for x using that by (auto simp: f_def)
  have "shows_icon n None maskPixels (concat (map f [0..<n]))"
    using concat_const_length [of "map f [0..<n]" 4, OF l] concat_nth_block [of "map f [0..<n]" 4, OF l]
    by (auto simp: shows_icon_def f_def)
  then show ?thesis using m assms by (simp add: mono_pixels_def gslice_def n_def)
qed

lemma hasAlpha_iff: "length pixels = n * 4 \<Longrightarrow> hasAlpha pixels \<longleftrightarrow> (\<exists>j < n. pixels ! (j * 4 + 3) \<noteq> 0)"
proof -
  assume l: "length pixels = n * 4"
  have "{i. i < n * 4 \<and> i mod 4 = 3} = (\<lambda>j. j * 4 + 3) ` {..<n}"
  proof (intro set_eqI iffI)
    fix i
    assume "i \<in> {i. i < n * 4 \<and> i mod 4 = 3}"
    then have "i = i div 4 * 4 + 3" "i div 4 < n" using div_mult_mod_eq [of i 4] by auto
    then show "i \<in> (\<lambda>j. j * 4 + 3) ` {..<n}" by blast
  qed auto
  then show ?thesis using l by (auto simp: hasAlpha_def list_ex_iff alpha_steps)
qed

lemma legacy_alpha_shows:
  assumes "length px = w * h * 4" and "w * h * 4 \<le> length maskPixels" and "\<forall>j < w * h. px ! (j * 4 + 3) = 0"
  shows "\<exists>pixels. legacy_alpha w h maskPixels px = Inr pixels \<and> shows_icon (w * h) (Some px) maskPixels pixels"
proof -
  define n where "n = w * h"
  define P where "P A out \<longleftrightarrow> length out = n * 4 \<and>
    (\<forall>i < n. \<forall>c < 4. out ! (i * 4 + c) = (if c = 3 \<and> i \<in> A then if maskPixels ! (i * 4) = 0 then 255 else 0 else px ! (i * 4 + c)))" for A out
  let ?f = "\<lambda>i px. rbind (index maskPixels (i * 4)) (\<lambda>andVal. set_at (i * 4 + 3) (if andVal = 0 then 255 else 0) px)"
  have step: "\<exists>s'. ?f i s = Inr s' \<and> P (insert i A) s'" if "i \<in> set [0..<n]" "P A s" for i A s
  proof -
    have i: "i < n" using that(1) by simp
    have "i * 4 < length maskPixels" "i * 4 + 3 < length s" using i assms(2) that(2) by (simp_all add: n_def P_def)
    then have f: "?f i s = Inr (s[i * 4 + 3 := if maskPixels ! (i * 4) = 0 then 255 else 0])" by (simp add: index_def set_at_def)
    have "j * 4 + c \<noteq> i * 4 + 3" if "c < 4" "\<not> (j = i \<and> c = 3)" for j c using that by presburger
    then have "P (insert i A) (s[i * 4 + 3 := if maskPixels ! (i * 4) = 0 then 255 else 0])"
      using that(2) i by (auto simp: P_def nth_list_update)
    then show ?thesis using f by blast
  qed
  have "P {} px" using assms(1) by (simp add: P_def n_def)
  then obtain out where out: "legacy_alpha w h maskPixels px = Inr out" "P (set [0..<n]) out"
    using foldM_visits [where P = P and A = "{}" and s = px and xs = "[0..<n]" and f = ?f] step by (auto simp: legacy_alpha_def n_def)
  then show ?thesis using assms(3) by (auto simp: shows_icon_def P_def icon_byte_def n_def)
qed

lemma cursor_pixels_show:
  assumes "case colour of None \<Rightarrow> 2 * (w * h * 4) \<le> length maskPixels | Some px \<Rightarrow> length px = w * h * 4 \<and> w * h * 4 \<le> length maskPixels"
  shows "\<exists>pixels. cursor_pixels w h colour maskPixels = Inr pixels \<and> shows_icon (w * h) colour maskPixels pixels"
proof (cases colour)
  case None
  then show ?thesis using assms mono_pixels_show by (simp add: cursor_pixels_def)
next
  case (Some px)
  then show ?thesis
    using assms hasAlpha_iff [of px "w * h"] legacy_alpha_shows [of px w h maskPixels]
    by (cases "hasAlpha px") (auto simp: cursor_pixels_def shows_icon_def icon_byte_def)
qed


text \<open>Bit \<open>x\<close> of row \<open>y\<close> of a mask.\<close>

definition mask_bit :: "nat \<Rightarrow> bytes \<Rightarrow> nat \<Rightarrow> nat \<Rightarrow> bool" where
  "mask_bit w m y x = bit (m ! (y * ((w + 7) div 8) + x div 8)) (7 - x mod 8)"

lemma bit_mask_or: "n < 8 \<Longrightarrow> j < 8 \<Longrightarrow> bit (b OR drop_bit n (0x80 :: u8)) j \<longleftrightarrow> bit b j \<or> n + j = 7"
proof -
  assume "n < 8" and "j < 8"
  have e: "(0x80 :: u8) = 2 ^ 7" by simp
  have "bit (0x80 :: u8) (n + j) \<longleftrightarrow> possible_bit TYPE(u8) (n + j) \<and> n + j = 7" unfolding e by (auto simp only: bit_exp_iff)
  then have "bit (0x80 :: u8) (n + j) \<longleftrightarrow> n + j = 7" by auto
  then show ?thesis by (simp add: bit_or_iff bit_drop_bit_eq add.commute)
qed

lemma mask_place:
  assumes "x < w" and "x' < w" and "y * ((w + 7) div 8) + x div 8 = y' * ((w + 7) div 8) + x' div 8" and "x mod 8 = x' mod (8 :: nat)"
  shows "y = y' \<and> x = x'"
proof -
  have "x div 8 < (w + 7) div 8" "x' div 8 < (w + 7) div 8" using assms(1,2) by simp_all
  then have "y = y'" "x div 8 = x' div 8" using grid_inj assms(3) by blast+
  then show ?thesis using assms(4) by (metis div_mult_mod_eq)
qed

lemma cursor_mask_bits:
  assumes "length pixels = w * h * 4"
  shows "\<exists>m. cursor_mask w h pixels = Inr m \<and> length m = (w + 7) div 8 * h \<and>
    (\<forall>y < h. \<forall>x < w. mask_bit w m y x \<longleftrightarrow> pixels ! ((y * w + x) * 4 + 3) > 128)"
proof -
  define r where "r = (w + 7) div 8"
  define P where "P A m \<longleftrightarrow> length m = r * h \<and>
    (\<forall>y < h. \<forall>x < w. mask_bit w m y x \<longleftrightarrow> (y, x) \<in> A \<and> pixels ! ((y * w + x) * 4 + 3) > 128)" for A m
  have step: "\<exists>m'. mask_pixel w r pixels p m = Inr m' \<and> P (insert p A) m'" if pin: "p \<in> set (List.product [0..<h] [0..<w])" and inv: "P A m" for p A m
  proof -
    obtain y x where yx: "p = (y, x)" by (cases p)
    then have p: "p = (y, x)" "y < h" "x < w" using pin by auto
    let ?a = "pixels ! ((y * w + x) * 4 + 3)" and ?k = "y * r + x div 8"
    have "(y * w + x) * 4 + 3 < length pixels" using grid_index [OF p(3,2)] assms by simp
    then have a: "index pixels ((y * w + x) * 4 + 3) = Inr ?a" by (simp add: index_def)
    show ?thesis
    proof (cases "?a > 128")
      case False
      then show ?thesis using inv a p by (intro exI [of _ m]) (auto simp: mask_pixel_def P_def)
    next
      case True
      have k: "?k < length m" using grid_index [of "x div 8" r y h] p inv by (simp add: P_def r_def)
      let ?m = "m[?k := m ! ?k OR drop_bit (x mod 8) 0x80]"
      have "mask_bit w ?m y' x' \<longleftrightarrow> mask_bit w m y' x' \<or> (y', x') = (y, x)" if "y' < h" "x' < w" for y' x'
      proof (cases "y' * r + x' div 8 = ?k")
        case True
        have "bit (m ! ?k OR drop_bit (x mod 8) 0x80) (7 - x' mod 8) \<longleftrightarrow> bit (m ! ?k) (7 - x' mod 8) \<or> x mod 8 + (7 - x' mod 8) = 7"
          by (rule bit_mask_or) auto
        moreover have "x mod 8 + (7 - x' mod 8) = 7 \<longleftrightarrow> x mod 8 = x' mod 8" using mod_less_divisor [of 8 x'] mod_less_divisor [of 8 x] by linarith
        moreover have "x mod 8 = x' mod 8 \<longleftrightarrow> (y', x') = (y, x)" using mask_place [OF \<open>x' < w\<close> p(3), of y' y] True by (auto simp: r_def)
        ultimately show ?thesis using True k by (simp add: mask_bit_def r_def)
      next
        case False
        then show ?thesis using k by (auto simp: mask_bit_def r_def)
      qed
      then have "P (insert p A) ?m" using inv True p by (auto simp: P_def)
      moreover have "mask_pixel w r pixels p m = Inr ?m" using True a k p(1) by (simp add: mask_pixel_def index_def set_at_def)
      ultimately show ?thesis by blast
    qed
  qed
  have "P {} (replicate (r * h) 0)"
    using grid_index [of _ r _ h] by (auto simp: P_def mask_bit_def r_def)
  from foldM_visits [where P = P and A = "{}" and xs = "List.product [0..<h] [0..<w]" and f = "mask_pixel w r pixels", OF this step]
  obtain m where "cursor_mask w h pixels = Inr m" "P (set (List.product [0..<h] [0..<w])) m"
    by (auto simp: cursor_mask_def r_def Let_def)
  then show ?thesis by (intro exI [of _ m]) (auto simp: P_def r_def)
qed


section \<open>Bitmaps and device contexts\<close>

text \<open>What Windows documents of its answers: the masks have a bitmap, and a bitmap is written at the size asked for.\<close>

definition cursor_env_ok :: "cursor_env \<Rightarrow> bool" where
  "cursor_env_ok e \<longleftrightarrow> (\<forall>b w h d. ce_GetDIBits e b w h = Some d \<longrightarrow> length d = w * h * 4)"

text \<open>An image as it is sent: the bytes of the icon, and the mask bit of a pixel set exactly when it is more than half opaque.\<close>

definition cursor_shows :: "cursor_env \<Rightarrow> iconInfo \<Rightarrow> CursorImage \<Rightarrow> bool" where
  "cursor_shows e ii img \<longleftrightarrow>
     (case ce_GetObjectW e (ii_HbmMask ii) of (w, bmHeight) \<Rightarrow>
      let h = (if ii_HbmColor ii = 0 then bmHeight div 2 else bmHeight) in
      cur_Width img = of_nat w \<and> cur_Height img = of_nat h \<and> cur_HotspotX img = ucast (ii_XHotspot ii) \<and> cur_HotspotY img = ucast (ii_YHotspot ii) \<and>
      (\<exists>m. ce_GetDIBits e (ii_HbmMask ii) w bmHeight = Some m \<and>
        shows_icon (w * h) (if ii_HbmColor ii = 0 then None else ce_GetDIBits e (ii_HbmColor ii) w bmHeight) m (cur_Pixels img)) \<and>
      length (cur_Mask img) = (w + 7) div 8 * h \<and>
      (\<forall>y < h. \<forall>x < w. mask_bit w (cur_Mask img) y x \<longleftrightarrow> cur_Pixels img ! ((y * w + x) * 4 + 3) > 128))"

lemma build_cursor_shows:
  assumes "case colour of None \<Rightarrow> 2 * (w * h * 4) \<le> length maskPixels | Some px \<Rightarrow> length px = w * h * 4 \<and> w * h * 4 \<le> length maskPixels"
  shows "\<exists>img. build_cursor ii w h colour maskPixels = Inr (Some img) \<and>
    cur_Width img = of_nat w \<and> cur_Height img = of_nat h \<and> cur_HotspotX img = ucast (ii_XHotspot ii) \<and> cur_HotspotY img = ucast (ii_YHotspot ii) \<and>
    shows_icon (w * h) colour maskPixels (cur_Pixels img) \<and> length (cur_Mask img) = (w + 7) div 8 * h \<and>
    (\<forall>y < h. \<forall>x < w. mask_bit w (cur_Mask img) y x \<longleftrightarrow> cur_Pixels img ! ((y * w + x) * 4 + 3) > 128)"
proof -
  obtain px where px: "cursor_pixels w h colour maskPixels = Inr px" "shows_icon (w * h) colour maskPixels px"
    using cursor_pixels_show [OF assms] by blast
  then obtain m where "cursor_mask w h px = Inr m" "length m = (w + 7) div 8 * h"
      "\<forall>y < h. \<forall>x < w. mask_bit w m y x \<longleftrightarrow> px ! ((y * w + x) * 4 + 3) > 128"
    using cursor_mask_bits [of px w h] by (auto simp: shows_icon_def)
  then show ?thesis using px by (simp add: build_cursor_def)
qed

lemma runs_getDIBits32:
  assumes "cursor_env_ok e" and "0 < w" and "0 < h"
  shows "own_runs (getDIBits32 e dc b w h) m Q \<longleftrightarrow> Dc dc \<in># m \<and> Bitmap b \<in># m \<and> Q (Inr (ce_GetDIBits e b w h)) m"
proof -
  have "copy (replicate n 0) d = d" if "length d = n" for n and d :: bytes using that by (simp add: copy_def)
  then show ?thesis
    using assms by (auto simp: getDIBits32_def own_simps cursor_env_ok_def split: option.splits)
qed

lemma runs_read_mask:
  assumes "cursor_env_ok e" and "0 < w" and "0 < bmHeight" and "Dc dc \<in># m" and "Bitmap (ii_HbmMask ii) \<in># m"
    and "ce_GetObjectW e (ii_HbmMask ii) = (w, bmHeight)" and "h = (if ii_HbmColor ii = 0 then bmHeight div 2 else bmHeight)"
    and "colour = (if ii_HbmColor ii = 0 then None else ce_GetDIBits e (ii_HbmColor ii) w bmHeight)"
    and "ii_HbmColor ii \<noteq> 0 \<Longrightarrow> colour \<noteq> None"
  shows "own_runs (read_mask e ii dc w h bmHeight colour) m (\<lambda>r m'. m' = m \<and> (r = Inr None \<or> (\<exists>img. r = Inr (Some img) \<and> cursor_shows e ii img)))"
proof (cases "ce_GetDIBits e (ii_HbmMask ii) w bmHeight")
  case None
  then show ?thesis using assms(1-5) by (simp add: read_mask_def own_simps runs_getDIBits32)
next
  case (Some d)
  then have "length d = w * bmHeight * 4" using assms(1) by (auto simp: cursor_env_ok_def)
  moreover have "2 * (w * (bmHeight div 2) * 4) \<le> w * bmHeight * 4" using mult_le_mono2 [of "2 * (bmHeight div 2)" bmHeight "w * 4"] by (simp add: algebra_simps)
  ultimately have "case colour of None \<Rightarrow> 2 * (w * h * 4) \<le> length d | Some px \<Rightarrow> length px = w * h * 4 \<and> w * h * 4 \<le> length d"
    using assms(1,7-9) by (auto simp: cursor_env_ok_def split: if_splits option.splits)
  then obtain img where "build_cursor ii w h colour d = Inr (Some img)" "cursor_shows e ii img"
    using build_cursor_shows [of w h d colour ii] Some assms(6-8) by (auto simp: cursor_shows_def Let_def)
  then show ?thesis using Some assms(1-5) by (simp add: read_mask_def own_simps runs_getDIBits32)
qed

lemma runs_read_cursor:
  assumes "cursor_env_ok e" and "0 < w" and "0 < bmHeight" and "Dc dc \<in># m" and "Bitmap (ii_HbmMask ii) \<in># m"
    and "ii_HbmColor ii \<noteq> 0 \<Longrightarrow> Bitmap (ii_HbmColor ii) \<in># m" and "ce_GetObjectW e (ii_HbmMask ii) = (w, bmHeight)"
  shows "own_runs (read_cursor e ii dc w bmHeight) m (\<lambda>r m'. m' = m \<and> (r = Inr None \<or> (\<exists>img. r = Inr (Some img) \<and> cursor_shows e ii img)))"
proof (cases "ii_HbmColor ii = 0")
  case True
  then show ?thesis using runs_read_mask [OF assms(1-5,7)] by (simp add: read_cursor_def)
next
  case False
  then show ?thesis
    using runs_read_mask [OF assms(1-5,7), of bmHeight] assms(6)
    by (cases "ce_GetDIBits e (ii_HbmColor ii) w bmHeight") (simp_all add: read_cursor_def own_simps runs_getDIBits32 assms(1-4))
qed

lemma runs_captureCursorShape:
  assumes "cursor_env_ok e"
  shows "own_runs (captureCursorShape e hCursor) m (\<lambda>r m'. m' = m \<and>
    (r = Inr None \<or> (\<exists>ii img. ce_GetIconInfo e hCursor = Some ii \<and> r = Inr (Some img) \<and> cursor_shows e ii img)))"
proof (cases "ce_GetIconInfo e hCursor")
  case None
  then show ?thesis by (simp add: captureCursorShape_def own_simps)
next
  case (Some ii)
  define dc where "dc = ce_GetDC e"
  obtain w bmHeight where sz: "ce_GetObjectW e (ii_HbmMask ii) = (w, bmHeight)" by fastforce
  let ?ok = "\<lambda>r. r = Inr None \<or> (\<exists>img. r = Inr (Some img) \<and> cursor_shows e ii img)"
  let ?held = "add_mset (Dc dc) (add_mset (Bitmap (ii_HbmMask ii)) (m + (if ii_HbmColor ii = 0 then {#} else {#Bitmap (ii_HbmColor ii)#})))"
  show ?thesis
  proof (cases "ii_HbmMask ii = 0 \<or> w = 0 \<or> bmHeight = 0 \<or> dc = 0")
    case True
    then show ?thesis
      using Some sz by (auto simp: captureCursorShape_def own_simps bitmap_acquire_def bitmap_delete_def dc_def)
  next
    case False
    then have "own_runs (read_cursor e ii dc w bmHeight) ?held (\<lambda>r m'. m' = ?held \<and> ?ok r)"
      by (intro runs_read_cursor [OF assms _ _ _ _ _ sz]) auto
    from runs_result [OF this] obtain r where r: "read_cursor e ii dc w bmHeight ?held = Some (r, ?held)" "?ok r" by blast
    have run: "own_runs (read_cursor e ii dc w bmHeight) ?held Q \<longleftrightarrow> Q r ?held" for Q by (simp add: own_runs_def r(1))
    show ?thesis
      using Some sz False r(2) run
      by (cases "ii_HbmColor ii = 0") (auto simp: captureCursorShape_def own_simps bitmap_acquire_def bitmap_delete_def dc_def)
  qed
qed


text \<open>
  C25: A call of the cursor provider on Windows, whatever Windows answers: it never reads outside a bitmap, gives back the bitmaps and
  the device context, and returns nothing or a new image. The image is the empty one when the pointer has been hidden; else it
  has the size and the hotspot of the pointer, its colours, with masks applied as Windows does for pointers without
  alpha, and its mask bits are exactly the pixels that are more than half opaque.
\<close>

theorem winCursor_shows_pointer:
  assumes "cursor_env_ok e"
  shows "\<exists>r p'. winCursor info e p m = Some ((Inr r, p'), m) \<and>
    (r = None \<and> p' = p \<or>
     (\<exists>img. r = Some (wp_images p, img) \<and> wp_lastCursor p' = r \<and> wp_images p' = Suc (wp_images p) \<and>
       (img = CursorImage_zero \<and> (\<exists>h. info = Some (False, h)) \<or>
        (\<exists>h ii. info = Some (True, h) \<and> wp_lastHandle p' = h \<and> ce_GetIconInfo e h = Some ii \<and> cursor_shows e ii img))))"
proof (cases "\<exists>h. info = Some (True, h) \<and> \<not> (h = wp_lastHandle p \<and> wp_lastCursor p \<noteq> None)")
  case False
  then show ?thesis by (auto simp: winCursor_def own_ret_def keep_image_def Let_def split: option.split)
next
  case True
  then obtain h where h: "info = Some (True, h)" "\<not> (h = wp_lastHandle p \<and> wp_lastCursor p \<noteq> None)" by blast
  from runs_result [OF runs_captureCursorShape [OF assms, of h m]] obtain r where r: "captureCursorShape e h m = Some (r, m)"
      "r = Inr None \<or> (\<exists>ii img. ce_GetIconInfo e h = Some ii \<and> r = Inr (Some img) \<and> cursor_shows e ii img)" by blast
  then show ?thesis using h by (auto simp: winCursor_def own_bind_def own_ret_def keep_image_def Let_def)
qed

text \<open>A black dot of one pixel, given by its two masks.\<close>

definition dot_env :: cursor_env where
  "dot_env = \<lparr>ce_GetIconInfo = (\<lambda>_. Some \<lparr>ii_XHotspot = 0, ii_YHotspot = 0, ii_HbmMask = 5, ii_HbmColor = 0\<rparr>),
     ce_GetObjectW = (\<lambda>_. (1, 2)), ce_GetDC = 7, ce_GetDIBits = (\<lambda>_ w h. Some (replicate (w * h * 4) 0))\<rparr>"

theorem winCursor_shows_pointer_witness:
  "cursor_env_ok dot_env \<and> (\<exists>p'. winCursor (Some (True, 9)) dot_env newWinCursorProvider {#} =
     Some ((Inr (Some (0, \<lparr>cur_Width = 1, cur_Height = 1, cur_HotspotX = 0, cur_HotspotY = 0, cur_Pixels = [0, 0, 0, 255], cur_Mask = [0x80]\<rparr>)), p'), {#}))"
proof -
  have ok: "cursor_env_ok dot_env" by (simp add: cursor_env_ok_def dot_env_def)
  have "case winCursor (Some (True, 9)) dot_env newWinCursorProvider {#} of
      Some ((Inr (Some (_, img)), _), _) \<Rightarrow>
        img = \<lparr>cur_Width = 1, cur_Height = 1, cur_HotspotX = 0, cur_HotspotY = 0, cur_Pixels = [0, 0, 0, 255], cur_Mask = [0x80]\<rparr>
    | _ \<Rightarrow> False" by code_simp
  then show ?thesis
    using winCursor_shows_pointer [OF ok, of "Some (True, 9)" newWinCursorProvider "{#}"] ok
    by (auto simp: newWinCursorProvider_def split: option.splits sum.splits)
qed

text \<open>The image of a shape goes to the client that asks first: everyone after it gets nothing until the shape changes.\<close>

lemma only_first_client_gets_cursor:
  assumes "winCursor (Some (True, h)) e p m = Some ((Inr (Some c), p'), m')"
  shows "winCursor (Some (True, h)) e' p' m'' = Some ((Inr None, p'), m'')"
  using assms
  by (auto simp: winCursor_def own_bind_def own_ret_def keep_image_def Let_def split: option.splits sum.splits if_splits)


end
