(* ===== verification/Keysyms.thy ===== *)
theory Keysyms
  imports Prelude
begin

text \<open>
  The keyboard tables of \<^verbatim>\<open>input/\<close>: X11 keysyms to evdev key codes (\<^verbatim>\<open>keysym_evdev.go\<close>), to Windows virtual
  keys (\<^verbatim>\<open>input_windows.go\<close>) and to macOS key codes (\<^verbatim>\<open>input_darwin.go\<close>). A map of the program is the list of
  its pairs, with the keys as numbers.
\<close>

section \<open>Tables\<close>

definition keysymToEvdev :: "(int \<times> i32) list" where
  "keysymToEvdev =
    [(0x61, 30), (0x62, 48), (0x63, 46), (0x64, 32), (0x65, 18), (0x66, 33),
     (0x67, 34), (0x68, 35), (0x69, 23), (0x6a, 36), (0x6b, 37), (0x6c, 38),
     (0x6d, 50), (0x6e, 49), (0x6f, 24), (0x70, 25), (0x71, 16), (0x72, 19),
     (0x73, 31), (0x74, 20), (0x75, 22), (0x76, 47), (0x77, 17), (0x78, 45),
     (0x79, 21), (0x7a, 44), (0x41, 30), (0x42, 48), (0x43, 46), (0x44, 32),
     (0x45, 18), (0x46, 33), (0x47, 34), (0x48, 35), (0x49, 23), (0x4a, 36),
     (0x4b, 37), (0x4c, 38), (0x4d, 50), (0x4e, 49), (0x4f, 24), (0x50, 25),
     (0x51, 16), (0x52, 19), (0x53, 31), (0x54, 20), (0x55, 22), (0x56, 47),
     (0x57, 17), (0x58, 45), (0x59, 21), (0x5a, 44), (0x30, 11), (0x31, 2),
     (0x32, 3), (0x33, 4), (0x34, 5), (0x35, 6), (0x36, 7), (0x37, 8),
     (0x38, 9), (0x39, 10), (0x20, 57), (0x2d, 12), (0x3d, 13), (0x5b, 26),
     (0x5d, 27), (0x5c, 43), (0x3b, 39), (0x27, 40), (0x60, 41), (0x2c, 51),
     (0x2e, 52), (0x2f, 53), (0xff08, 14), (0xff09, 15), (0xff0d, 28), (0xff1b, 1),
     (0xffff, 111), (0xff50, 102), (0xff51, 105), (0xff52, 103), (0xff53, 106), (0xff54, 108),
     (0xff55, 104), (0xff56, 109), (0xff57, 107), (0xff63, 110), (0xffe1, 42), (0xffe2, 54),
     (0xffe3, 29), (0xffe4, 97), (0xffe9, 56), (0xffea, 100), (0xffeb, 125), (0xffec, 126),
     (0xffe5, 58), (0xff7f, 69), (0xff14, 70), (0xffbe, 59), (0xffbf, 60), (0xffc0, 61),
     (0xffc1, 62), (0xffc2, 63), (0xffc3, 64), (0xffc4, 65), (0xffc5, 66), (0xffc6, 67),
     (0xffc7, 68), (0xffc8, 87), (0xffc9, 88)]"

definition asciiToMacKeycode :: "(int \<times> u8) list" where
  "asciiToMacKeycode =
    [(0x61, 0x00), (0x41, 0x00), (0x73, 0x01), (0x53, 0x01), (0x64, 0x02), (0x44, 0x02),
     (0x66, 0x03), (0x46, 0x03), (0x68, 0x04), (0x48, 0x04), (0x67, 0x05), (0x47, 0x05),
     (0x7A, 0x06), (0x5A, 0x06), (0x78, 0x07), (0x58, 0x07), (0x63, 0x08), (0x43, 0x08),
     (0x76, 0x09), (0x56, 0x09), (0x62, 0x0B), (0x42, 0x0B), (0x71, 0x0C), (0x51, 0x0C),
     (0x77, 0x0D), (0x57, 0x0D), (0x65, 0x0E), (0x45, 0x0E), (0x72, 0x0F), (0x52, 0x0F),
     (0x79, 0x10), (0x59, 0x10), (0x74, 0x11), (0x54, 0x11), (0x31, 0x12), (0x21, 0x12),
     (0x32, 0x13), (0x40, 0x13), (0x33, 0x14), (0x23, 0x14), (0x34, 0x15), (0x24, 0x15),
     (0x36, 0x16), (0x5E, 0x16), (0x35, 0x17), (0x25, 0x17), (0x3D, 0x18), (0x2B, 0x18),
     (0x39, 0x19), (0x28, 0x19), (0x37, 0x1A), (0x26, 0x1A), (0x2D, 0x1B), (0x5F, 0x1B),
     (0x38, 0x1C), (0x2A, 0x1C), (0x30, 0x1D), (0x29, 0x1D), (0x5D, 0x1E), (0x7D, 0x1E),
     (0x6F, 0x1F), (0x4F, 0x1F), (0x75, 0x20), (0x55, 0x20), (0x5B, 0x21), (0x7B, 0x21),
     (0x69, 0x22), (0x49, 0x22), (0x70, 0x23), (0x50, 0x23), (0x6C, 0x25), (0x4C, 0x25),
     (0x6A, 0x26), (0x4A, 0x26), (0x27, 0x27), (0x22, 0x27), (0x6B, 0x28), (0x4B, 0x28),
     (0x3B, 0x29), (0x3A, 0x29), (0x5C, 0x2A), (0x7C, 0x2A), (0x2C, 0x2B), (0x3C, 0x2B),
     (0x2F, 0x2C), (0x3F, 0x2C), (0x6E, 0x2D), (0x4E, 0x2D), (0x6D, 0x2E), (0x4D, 0x2E),
     (0x2E, 0x2F), (0x3E, 0x2F), (0x60, 0x32), (0x7E, 0x32), (0x20, 0x31)]"

definition specialKeysymMap :: "(int \<times> u8) list" where
  "specialKeysymMap =
    [(0xFF08, 0x33), (0xFF09, 0x30), (0xFF0D, 0x24), (0xFF1B, 0x35), (0xFFFF, 0x75), (0xFF50, 0x73),
     (0xFF51, 0x7B), (0xFF52, 0x7E), (0xFF53, 0x7C), (0xFF54, 0x7D), (0xFF55, 0x74), (0xFF56, 0x79),
     (0xFF57, 0x77), (0xFFE1, 0x38), (0xFFE2, 0x3C), (0xFFE3, 0x3B), (0xFFE4, 0x3E), (0xFFE7, 0x37),
     (0xFFE8, 0x36), (0xFFE9, 0x3A), (0xFFEA, 0x3D), (0xFFBE, 0x7A), (0xFFBF, 0x78), (0xFFC0, 0x63),
     (0xFFC1, 0x76), (0xFFC2, 0x60), (0xFFC3, 0x61), (0xFFC4, 0x62), (0xFFC5, 0x64), (0xFFC6, 0x65),
     (0xFFC7, 0x6D), (0xFFC8, 0x67), (0xFFC9, 0x6F), (0xFF14, 0x71), (0xFFE5, 0x39)]"

text \<open>The keycode, the character for a printable key, and whether the key is known.\<close>

definition keysymToMacKeycode :: "u32 \<Rightarrow> int \<times> u16 \<times> bool" where
  "keysymToMacKeycode keysym =
     (if keysym \<ge> 0x20 \<and> keysym \<le> 0x7E then
        (let kc = (case map_of asciiToMacKeycode (uint (ucast keysym :: u8)) of None \<Rightarrow> 0 | Some kc \<Rightarrow> kc) in
         (uint kc, ucast keysym, True))
      else case map_of specialKeysymMap (uint keysym) of
        Some kc \<Rightarrow> (uint kc, 0, True)
      | None \<Rightarrow> (0, 0, False))"

text \<open>The two \<^verbatim>\<open>switch\<close> statements of the Windows mapping, case by case.\<close>

definition vk_printable :: "(int \<times> u16) list" where
  "vk_printable =
    [(0x20, 0x20), (0x21, 0x31), (0x40, 0x32), (0x23, 0x33), (0x24, 0x34), (0x25, 0x35),
     (0x5E, 0x36), (0x26, 0x37), (0x2A, 0x38), (0x28, 0x39), (0x29, 0x30), (0x2D, 0xBD),
     (0x5F, 0xBD), (0x3D, 0xBB), (0x2B, 0xBB), (0x5B, 0xDB), (0x7B, 0xDB), (0x5D, 0xDD),
     (0x7D, 0xDD), (0x5C, 0xDC), (0x7C, 0xDC), (0x3B, 0xBA), (0x3A, 0xBA), (0x27, 0xDE),
     (0x22, 0xDE), (0x2C, 0xBC), (0x3C, 0xBC), (0x2E, 0xBE), (0x3E, 0xBE), (0x2F, 0xBF),
     (0x3F, 0xBF), (0x60, 0xC0), (0x7E, 0xC0)]"

definition vk_special :: "(int \<times> u16) list" where
  "vk_special =
    [(0xFF08, 0x08), (0xFF09, 0x09), (0xFF0D, 0x0D), (0xFF1B, 0x1B), (0xFFFF, 0x2E), (0xFF50, 0x24),
     (0xFF51, 0x25), (0xFF52, 0x26), (0xFF53, 0x27), (0xFF54, 0x28), (0xFF55, 0x21), (0xFF56, 0x22),
     (0xFF57, 0x23), (0xFF63, 0x2D), (0xFFE1, 0xA0), (0xFFE2, 0xA1), (0xFFE3, 0xA2), (0xFFE4, 0xA3),
     (0xFFE9, 0xA4), (0xFFEA, 0xA5), (0xFFEB, 0x5B), (0xFFEC, 0x5C), (0xFFE5, 0x14), (0xFF7F, 0x90),
     (0xFF14, 0x91), (0xFFBE, 0x70), (0xFFBF, 0x71), (0xFFC0, 0x72), (0xFFC1, 0x73), (0xFFC2, 0x74),
     (0xFFC3, 0x75), (0xFFC4, 0x76), (0xFFC5, 0x77), (0xFFC6, 0x78), (0xFFC7, 0x79), (0xFFC8, 0x7A),
     (0xFFC9, 0x7B), (0xFF61, 0x2C), (0xFF13, 0x13), (0xFF67, 0x5D), (0xFF8D, 0x0D), (0xFFB0, 0x60),
     (0xFFB1, 0x61), (0xFFB2, 0x62), (0xFFB3, 0x63), (0xFFB4, 0x64), (0xFFB5, 0x65), (0xFFB6, 0x66),
     (0xFFB7, 0x67), (0xFFB8, 0x68), (0xFFB9, 0x69), (0xFFAA, 0x6A), (0xFFAB, 0x6B), (0xFFAD, 0x6D),
     (0xFFAE, 0x6E), (0xFFAF, 0x6F)]"

definition xkeysymToVK :: "u32 \<Rightarrow> u16" where
  "xkeysymToVK keysym =
     (if keysym \<ge> 0x20 \<and> keysym \<le> 0x7E then
        (if keysym \<ge> 0x61 \<and> keysym \<le> 0x7A then ucast (keysym - 0x61 + 0x41)
         else if keysym \<ge> 0x30 \<and> keysym \<le> 0x39 then ucast keysym
         else if keysym \<ge> 0x41 \<and> keysym \<le> 0x5A then ucast keysym
         else case map_of vk_printable (uint keysym) of Some vk \<Rightarrow> vk | None \<Rightarrow> 0)
      else case map_of vk_special (uint keysym) of Some vk \<Rightarrow> vk | None \<Rightarrow> 0)"

definition isExtendedKey :: "u16 \<Rightarrow> bool" where
  "isExtendedKey vk \<longleftrightarrow>
     vk \<in> set [0xA3, 0xA5, 0x5C, 0x2D, 0x2E, 0x24, 0x23, 0x21, 0x22, 0x25, 0x27, 0x26, 0x28, 0x2C, 0x5D, 0x6F, 0x90]"

section \<open>The tables describe the same keyboard\<close>

text \<open>The place where each value of a list occurs first.\<close>

fun first_at :: "'a \<Rightarrow> 'a list \<Rightarrow> nat" where
  "first_at x [] = 0"
| "first_at x (y # ys) = (if x = y then 0 else Suc (first_at x ys))"

definition shape :: "'a list \<Rightarrow> nat list" where
  "shape xs = map (\<lambda>x. first_at x xs) xs"

lemma first_at_nth: "x \<in> set xs \<Longrightarrow> xs ! first_at x xs = x"
  by (induction xs) auto

lemma shape_eq_iff: "i < length xs \<Longrightarrow> j < length xs \<Longrightarrow> shape xs ! i = shape xs ! j \<longleftrightarrow> xs ! i = xs ! j"
  unfolding shape_def by (metis first_at_nth nth_map nth_mem)

lemma same_shape:
  assumes "shape (map f xs) = shape (map g xs)" and "x \<in> set xs" and "y \<in> set xs"
  shows "f x = f y \<longleftrightarrow> g x = g y"
proof -
  obtain i j where "i < length xs" "xs ! i = x" "j < length xs" "xs ! j = y" using assms(2,3) by (metis in_set_conv_nth)
  then show ?thesis using shape_eq_iff [of i "map f xs" j] shape_eq_iff [of i "map g xs" j] assms(1) by simp
qed

definition printable :: "u32 list" where
  "printable = map of_nat [0x20..<0x7F]"

definition evdev_printable :: "u32 list" where
  "evdev_printable = map of_int (filter (\<lambda>k. k \<le> 0x7E) (map fst keysymToEvdev))"

lemma printable_vk:
  "map (uint \<circ> xkeysymToVK) printable =
    [32, 49, 222, 51, 52, 53, 55, 222, 57, 48, 56, 187, 188, 189, 190, 191, 48, 49, 50, 51,
     52, 53, 54, 55, 56, 57, 186, 186, 188, 187, 190, 191, 50, 65, 66, 67, 68, 69, 70, 71,
     72, 73, 74, 75, 76, 77, 78, 79, 80, 81, 82, 83, 84, 85, 86, 87, 88, 89, 90, 219,
     220, 221, 54, 189, 192, 65, 66, 67, 68, 69, 70, 71, 72, 73, 74, 75, 76, 77, 78, 79,
     80, 81, 82, 83, 84, 85, 86, 87, 88, 89, 90, 219, 220, 221, 192]"
  by code_simp

lemma printable_mac:
  "map (fst \<circ> keysymToMacKeycode) printable =
    [49, 18, 39, 20, 21, 23, 26, 39, 25, 29, 28, 24, 43, 27, 47, 44, 29, 18, 19, 20,
     21, 23, 22, 26, 28, 25, 41, 41, 43, 24, 47, 44, 19, 0, 11, 8, 2, 14, 3, 5,
     4, 34, 38, 40, 37, 46, 45, 31, 35, 12, 15, 1, 17, 32, 9, 13, 7, 16, 6, 33,
     42, 30, 22, 27, 50, 0, 11, 8, 2, 14, 3, 5, 4, 34, 38, 40, 37, 46, 45, 31,
     35, 12, 15, 1, 17, 32, 9, 13, 7, 16, 6, 33, 42, 30, 50]"
  by code_simp

lemma evdev_keys:
  "map (uint \<circ> xkeysymToVK) evdev_printable =
    [65, 66, 67, 68, 69, 70, 71, 72, 73, 74, 75, 76, 77, 78, 79, 80, 81, 82, 83, 84,
     85, 86, 87, 88, 89, 90, 65, 66, 67, 68, 69, 70, 71, 72, 73, 74, 75, 76, 77, 78,
     79, 80, 81, 82, 83, 84, 85, 86, 87, 88, 89, 90, 48, 49, 50, 51, 52, 53, 54, 55,
     56, 57, 32, 189, 187, 219, 221, 220, 186, 222, 192, 188, 190, 191]"
  "map (\<lambda>k. uint (the (map_of keysymToEvdev (uint k)))) evdev_printable =
    [30, 48, 46, 32, 18, 33, 34, 35, 23, 36, 37, 38, 50, 49, 24, 25, 16, 19, 31, 20,
     22, 47, 17, 45, 21, 44, 30, 48, 46, 32, 18, 33, 34, 35, 23, 36, 37, 38, 50, 49,
     24, 25, 16, 19, 31, 20, 22, 47, 17, 45, 21, 44, 11, 2, 3, 4, 5, 6, 7, 8,
     9, 10, 57, 12, 13, 26, 27, 43, 39, 40, 41, 51, 52, 53]"
  by code_simp+

lemma layout_shapes:
  "shape (map (uint \<circ> xkeysymToVK) printable) = shape (map (fst \<circ> keysymToMacKeycode) printable)"
  "shape (map (uint \<circ> xkeysymToVK) evdev_printable) = shape (map (\<lambda>k. uint (the (map_of keysymToEvdev (uint k)))) evdev_printable)"
  unfolding printable_vk printable_mac evdev_keys by code_simp+

lemma layouts_total: "list_all (\<lambda>k. xkeysymToVK k \<noteq> 0) (printable @ map (of_int \<circ> fst) keysymToEvdev)"
  by code_simp

lemma in_printable:
  assumes "0x20 \<le> k" and "k \<le> 0x7E"
  shows "k \<in> set printable"
proof -
  have "unat k \<in> {0x20..<0x7F}" using assms by (simp add: word_le_nat_alt)
  then have "of_nat (unat k) \<in> set printable" unfolding printable_def by (metis imageI set_map set_upt)
  then show ?thesis by simp
qed

lemma in_evdev_printable:
  assumes "map_of keysymToEvdev (uint k) \<noteq> None" and "k \<le> 0x7E"
  shows "k \<in> set evdev_printable"
proof -
  have "uint k \<in> set (map fst keysymToEvdev)" using assms(1) by (metis map_of_eq_None_iff set_map)
  moreover have "uint k \<le> 0x7E" using assms(2) by (simp add: word_le_def)
  ultimately have "of_int (uint k) \<in> set evdev_printable" unfolding evdev_printable_def set_map set_filter by blast
  then show ?thesis by simp
qed

section \<open>Properties\<close>

text \<open>
  The three tables describe one keyboard: every printable character has a key on Windows and
  on macOS, two characters share a key on Windows exactly when they share one on macOS, and so
  they do in the fallback table for Linux where it has them.
\<close>

lemma keyboard_layouts_agree:
  assumes "0x20 \<le> j" and "j \<le> 0x7E" and "0x20 \<le> k" and "k \<le> 0x7E"
  shows "xkeysymToVK j \<noteq> 0 \<and>
    (xkeysymToVK j = xkeysymToVK k \<longleftrightarrow> fst (keysymToMacKeycode j) = fst (keysymToMacKeycode k)) \<and>
    (map_of keysymToEvdev (uint j) \<noteq> None \<and> map_of keysymToEvdev (uint k) \<noteq> None \<longrightarrow>
      (xkeysymToVK j = xkeysymToVK k \<longleftrightarrow> map_of keysymToEvdev (uint j) = map_of keysymToEvdev (uint k)))"
proof -
  have p: "j \<in> set printable" "k \<in> set printable" using assms in_printable by auto
  have "xkeysymToVK j \<noteq> 0" using layouts_total p(1) by (auto simp: list_all_iff)
  moreover have "xkeysymToVK j = xkeysymToVK k \<longleftrightarrow> fst (keysymToMacKeycode j) = fst (keysymToMacKeycode k)"
    using same_shape [OF layout_shapes(1) p] by (simp add: word_uint_eq_iff)
  moreover have "xkeysymToVK j = xkeysymToVK k \<longleftrightarrow> map_of keysymToEvdev (uint j) = map_of keysymToEvdev (uint k)"
    if "map_of keysymToEvdev (uint j) \<noteq> None" "map_of keysymToEvdev (uint k) \<noteq> None"
    using same_shape [OF layout_shapes(2) in_evdev_printable in_evdev_printable] that assms by (auto simp: word_uint_eq_iff)
  ultimately show ?thesis by blast
qed

lemma keyboard_layouts_agree_witness: "xkeysymToVK 0x21 = xkeysymToVK 0x31 \<and> fst (keysymToMacKeycode 0x21) = fst (keysymToMacKeycode 0x31)"
proof -
  have "xkeysymToVK 0x21 = xkeysymToVK 0x31" by code_simp
  then show ?thesis using keyboard_layouts_agree [of "0x21" "0x31"] by simp
qed

end
