(* ===== verification/Inputs.thy ===== *)
theory Inputs
  imports Keysyms ServerMessages
begin

text \<open>
  \<^verbatim>\<open>input/\<close>: the injectors of X11 (\<^verbatim>\<open>input_linux_x11.go\<close>), Windows (\<^verbatim>\<open>input_windows.go\<close>) and macOS
  (\<^verbatim>\<open>input_darwin.go\<close>). A call returns its result, the events it hands to the system, in order, and the
  injector afterwards. What the window systems answer is an argument.
\<close>

section \<open>Buttons\<close>

text \<open>\<^verbatim>\<open>mask&(1<<i) != 0\<close>\<close>

definition has_bit :: "u8 \<Rightarrow> nat \<Rightarrow> bool" where
  "has_bit m i \<longleftrightarrow> m AND push_bit i 1 \<noteq> 0"

lemma has_bit_bit [simp]: "has_bit m i = bit m i"
  by (simp add: has_bit_def bit_iff_and_push_bit_not_eq_0)

type_synonym ('e, 's) injected = "unit res \<times> 'e list \<times> 's"

section \<open>X11\<close>

datatype x11_event = XMotion u16 u16 | XButton nat bool | XKey nat bool

record X11Input =
  xi_ctx :: bool
  xi_lastButtonMask :: u8

definition newX11Input :: X11Input where
  "newX11Input = \<lparr>xi_ctx = False, xi_lastButtonMask = 0\<rparr>"

text \<open>
  \<^verbatim>\<open>x11_input_init\<close>: the display opens and has the XTest extension. The memory for the structure, whose allocation the code does not
  check, is there.
\<close>

definition x11_input_init :: "bool \<Rightarrow> bool \<Rightarrow> bool" where
  "x11_input_init XOpenDisplay XTestQueryExtension \<longleftrightarrow> XOpenDisplay \<and> XTestQueryExtension"

definition X11Input_Init :: "bool \<Rightarrow> bool \<Rightarrow> X11Input \<Rightarrow> unit res \<times> X11Input" where
  "X11Input_Init dpy xtest x =
     (if \<not> x11_input_init dpy xtest
      then (Inl (Errorf ''failed to initialize X11 input (is DISPLAY set? is XTest available?)'' []), x)
      else (Inr (), x\<lparr>xi_ctx := True\<rparr>))"

text \<open>The result of \<^verbatim>\<open>x11_key_event\<close> and its event; \<open>keycode\<close> is \<^verbatim>\<open>XKeysymToKeycode\<close>.\<close>

definition x11_key_event :: "(u32 \<Rightarrow> nat) \<Rightarrow> bool \<Rightarrow> u32 \<Rightarrow> bool \<Rightarrow> int \<times> x11_event list" where
  "x11_key_event keycode ctx keysym down =
     (if \<not> ctx then (- 1, [])
      else if keycode keysym = 0 then (- 1, [])
      else (0, [XKey (keycode keysym) down]))"

definition X11Input_KeyEvent :: "(u32 \<Rightarrow> nat) \<Rightarrow> bool \<Rightarrow> u32 \<Rightarrow> X11Input \<Rightarrow> (x11_event, X11Input) injected" where
  "X11Input_KeyEvent keycode down key x =
     (if \<not> xi_ctx x then (Inl (Errorf ''X11 input not initialized'' []), [], x)
      else (Inr (), snd (x11_key_event keycode (xi_ctx x) key down), x))"

definition x11_button_events :: "u8 \<Rightarrow> u8 \<Rightarrow> x11_event list" where
  "x11_button_events changed buttonMask =
     concat (map (\<lambda>i. if has_bit changed i then [XButton (i + 1) (has_bit buttonMask i)] else []) [0..<5])"

definition X11Input_PointerEvent :: "u8 \<Rightarrow> u16 \<Rightarrow> u16 \<Rightarrow> X11Input \<Rightarrow> (x11_event, X11Input) injected" where
  "X11Input_PointerEvent buttonMask xPos yPos x =
     (if \<not> xi_ctx x then (Inl (Errorf ''X11 input not initialized'' []), [], x)
      else (Inr (), XMotion xPos yPos # x11_button_events (xi_lastButtonMask x XOR buttonMask) buttonMask,
            x\<lparr>xi_lastButtonMask := buttonMask\<rparr>))"

definition X11Input_Close :: "X11Input \<Rightarrow> X11Input" where
  "X11Input_Close x = (if xi_ctx x then x\<lparr>xi_ctx := False\<rparr> else x)"

section \<open>Windows\<close>

record mouseInput =
  mi_Dx :: int
  mi_Dy :: int
  mi_MouseData :: u32
  mi_Flags :: u32

record keybdInput =
  ki_Vk :: u16
  ki_Scan :: u16
  ki_Flags :: u32

datatype win_event = WMouse mouseInput | WKey keybdInput

definition mouseeventfMove :: u32 where "mouseeventfMove = 0x0001"
definition mouseeventfLeftDown :: u32 where "mouseeventfLeftDown = 0x0002"
definition mouseeventfLeftUp :: u32 where "mouseeventfLeftUp = 0x0004"
definition mouseeventfRightDown :: u32 where "mouseeventfRightDown = 0x0008"
definition mouseeventfRightUp :: u32 where "mouseeventfRightUp = 0x0010"
definition mouseeventfMiddleDown :: u32 where "mouseeventfMiddleDown = 0x0020"
definition mouseeventfMiddleUp :: u32 where "mouseeventfMiddleUp = 0x0040"
definition mouseeventfWheel :: u32 where "mouseeventfWheel = 0x0800"
definition mouseeventfAbsolute :: u32 where "mouseeventfAbsolute = 0x8000"
definition keyeventfExtendedKey :: u32 where "keyeventfExtendedKey = 0x0001"
definition keyeventfKeyUp :: u32 where "keyeventfKeyUp = 0x0002"
definition wheelDelta :: int where "wheelDelta = 120"

record WindowsInput =
  wi_lastButtonMask :: u8

definition newWindowsInput :: WindowsInput where
  "newWindowsInput = \<lparr>wi_lastButtonMask = 0\<rparr>"

text \<open>\<open>scan\<close> is \<^verbatim>\<open>MapVirtualKeyW\<close>.\<close>

definition WindowsInput_KeyEvent :: "(u16 \<Rightarrow> u16) \<Rightarrow> bool \<Rightarrow> u32 \<Rightarrow> WindowsInput \<Rightarrow> (win_event, WindowsInput) injected" where
  "WindowsInput_KeyEvent scan down key w =
     (let vk = xkeysymToVK key in
      if vk = 0 then (Inr (), [], w)
      else
        let flags = (if \<not> down then keyeventfKeyUp else 0) OR (if isExtendedKey vk then keyeventfExtendedKey else 0) in
        (Inr (), [WKey \<lparr>ki_Vk = vk, ki_Scan = scan vk, ki_Flags = flags\<rparr>], w))"

text \<open>Arithmetic in \<^verbatim>\<open>int32\<close>: results wrap, division rounds towards zero.\<close>

definition int32 :: "int \<Rightarrow> int" where
  "int32 n = (n + 2 ^ 31) mod 2 ^ 32 - 2 ^ 31"

definition quot :: "int \<Rightarrow> int \<Rightarrow> int" where
  "quot a b = (if (a < 0) = (b < 0) then \<bar>a\<bar> div \<bar>b\<bar> else - (\<bar>a\<bar> div \<bar>b\<bar>))"

definition absolute :: "u16 \<Rightarrow> nat \<Rightarrow> int" where
  "absolute pos screen =
     quot (int32 (int32 (int (unat pos) * 65535) + quot (int32 (int screen)) 2)) (int32 (int screen))"

definition sendButton :: "u32 \<Rightarrow> u32 \<Rightarrow> win_event" where
  "sendButton flags mouseData = WMouse \<lparr>mi_Dx = 0, mi_Dy = 0, mi_MouseData = mouseData, mi_Flags = flags\<rparr>"

definition sendWheelRaw :: "int \<Rightarrow> win_event" where
  "sendWheelRaw delta = WMouse \<lparr>mi_Dx = 0, mi_Dy = 0, mi_MouseData = of_int delta, mi_Flags = mouseeventfWheel\<rparr>"

definition win_button :: "u8 \<Rightarrow> u8 \<Rightarrow> nat \<Rightarrow> u32 \<Rightarrow> u32 \<Rightarrow> win_event list" where
  "win_button changed buttonMask i down up =
     (if has_bit changed i then [sendButton (if has_bit buttonMask i then down else up) 0] else [])"

text \<open>The events of a pointer event on a screen, with the last mask.\<close>

definition win_events :: "nat \<Rightarrow> nat \<Rightarrow> u8 \<Rightarrow> u8 \<Rightarrow> u16 \<Rightarrow> u16 \<Rightarrow> win_event list" where
  "win_events screenW screenH lastButtonMask buttonMask xPos yPos =
     (let changed = lastButtonMask XOR buttonMask in
      [WMouse \<lparr>mi_Dx = absolute xPos screenW, mi_Dy = absolute yPos screenH, mi_MouseData = 0,
         mi_Flags = mouseeventfAbsolute OR mouseeventfMove\<rparr>] @
      win_button changed buttonMask 0 mouseeventfLeftDown mouseeventfLeftUp @
      win_button changed buttonMask 1 mouseeventfMiddleDown mouseeventfMiddleUp @
      win_button changed buttonMask 2 mouseeventfRightDown mouseeventfRightUp @
      (if has_bit buttonMask 3 \<and> \<not> has_bit lastButtonMask 3
       then [sendButton mouseeventfWheel (of_int wheelDelta)] else []) @
      (if has_bit buttonMask 4 \<and> \<not> has_bit lastButtonMask 4 then [sendWheelRaw (- wheelDelta)] else []))"

definition WindowsInput_PointerEvent ::
  "nat \<times> nat \<Rightarrow> u8 \<Rightarrow> u16 \<Rightarrow> u16 \<Rightarrow> WindowsInput \<Rightarrow> (win_event, WindowsInput) injected" where
  "WindowsInput_PointerEvent screen buttonMask xPos yPos w =
     (case screen of (screenW, screenH) \<Rightarrow>
        if screenW = 0 \<or> screenH = 0 then (Inr (), [], w)
        else if int32 (int screenW) = 0 \<or> int32 (int screenH) = 0 then (Inl (GoPanic ''integer divide by zero''), [], w)
        else (Inr (), win_events screenW screenH (wi_lastButtonMask w) buttonMask xPos yPos,
              w\<lparr>wi_lastButtonMask := buttonMask\<rparr>))"

section \<open>macOS\<close>

datatype cg_type = LeftMouseDown | LeftMouseUp | RightMouseDown | RightMouseUp | OtherMouseDown | OtherMouseUp | MouseMoved

datatype mac_event =
    CGMouse cg_type u16 u16 nat
  | CGScroll int
  | CGKey int bool
  | CGKeyChar int bool u16

definition moveMouse :: "u16 \<Rightarrow> u16 \<Rightarrow> mac_event" where
  "moveMouse x y = CGMouse MouseMoved x y 0"

text \<open>The type of the event and the button of Core Graphics: left 0, right 1, centre 2.\<close>

definition mouseButton :: "u16 \<Rightarrow> u16 \<Rightarrow> nat \<Rightarrow> bool \<Rightarrow> mac_event" where
  "mouseButton x y button down =
     (if button = 0 then CGMouse (if down then LeftMouseDown else LeftMouseUp) x y 0
      else if button = 1 then CGMouse (if down then OtherMouseDown else OtherMouseUp) x y 2
      else if button = 2 then CGMouse (if down then RightMouseDown else RightMouseUp) x y 1
      else CGMouse (if down then OtherMouseDown else OtherMouseUp) x y button)"

record DarwinInput =
  di_lastButtonMask :: u8

definition newDarwinInput :: DarwinInput where
  "newDarwinInput = \<lparr>di_lastButtonMask = 0\<rparr>"

definition DarwinInput_KeyEvent :: "bool \<Rightarrow> u32 \<Rightarrow> DarwinInput \<Rightarrow> (mac_event, DarwinInput) injected" where
  "DarwinInput_KeyEvent down key d =
     (case keysymToMacKeycode key of (keycode, ch, ok) \<Rightarrow>
        if \<not> ok then (Inr (), [], d)
        else if ch \<noteq> 0 then (Inr (), [CGKeyChar keycode down ch], d)
        else (Inr (), [CGKey keycode down], d))"

definition mac_button_events :: "u8 \<Rightarrow> u8 \<Rightarrow> u16 \<Rightarrow> u16 \<Rightarrow> mac_event list" where
  "mac_button_events changed buttonMask x y =
     concat (map (\<lambda>i. if has_bit changed i then [mouseButton x y i (has_bit buttonMask i)] else []) [0..<3])"

definition mac_drag :: "u8 \<Rightarrow> u16 \<Rightarrow> u16 \<Rightarrow> mac_event list" where
  "mac_drag buttonMask x y =
     (if has_bit buttonMask 0 then [mouseButton x y 0 True]
      else if has_bit buttonMask 2 then [mouseButton x y 2 True]
      else if has_bit buttonMask 1 then [mouseButton x y 1 True]
      else [])"

definition DarwinInput_PointerEvent :: "u8 \<Rightarrow> u16 \<Rightarrow> u16 \<Rightarrow> DarwinInput \<Rightarrow> (mac_event, DarwinInput) injected" where
  "DarwinInput_PointerEvent buttonMask x y d =
     (let changed = di_lastButtonMask d XOR buttonMask in
      (Inr (),
       (if changed = 0 \<and> buttonMask = 0 then [moveMouse x y] else []) @
       mac_button_events changed buttonMask x y @
       (if has_bit buttonMask 3 then [CGScroll 3] else []) @
       (if has_bit buttonMask 4 then [CGScroll (- 3)] else []) @
       (if changed = 0 \<and> buttonMask \<noteq> 0 then mac_drag buttonMask x y else []),
       d\<lparr>di_lastButtonMask := buttonMask\<rparr>))"

section \<open>The system behind an injector\<close>

text \<open>
  Which buttons the system holds after some events: \<open>press e\<close> is the button of the VNC protocol
  an event is about, and whether it goes down.
\<close>

definition hold :: "('e \<Rightarrow> (nat \<times> bool) option) \<Rightarrow> 'e \<Rightarrow> (nat \<Rightarrow> bool) \<Rightarrow> nat \<Rightarrow> bool" where
  "hold press e held = (case press e of None \<Rightarrow> held | Some (i, down) \<Rightarrow> held(i := down))"

definition held_after :: "('e \<Rightarrow> (nat \<times> bool) option) \<Rightarrow> 'e list \<Rightarrow> (nat \<Rightarrow> bool) \<Rightarrow> nat \<Rightarrow> bool" where
  "held_after press es held = fold (hold press) es held"

lemma held_after_simps [simp]:
  "held_after press [] held = held"
  "held_after press (e # es) held = held_after press es (hold press e held)"
  "held_after press (es @ fs) held = held_after press fs (held_after press es held)"
  by (simp_all add: held_after_def)

text \<open>The loop over the changed buttons.\<close>

lemma held_after_loop:
  assumes "\<And>i down. i < n \<Longrightarrow> press (f i down) = Some (i, down)"
  shows "held_after press (concat (map (\<lambda>i. if has_bit changed i then [f i (has_bit m i)] else []) [0..<n])) held =
     (\<lambda>i. if i < n \<and> bit changed i then bit m i else held i)"
  using assms
proof (induction n arbitrary: held)
  case 0
  then show ?case by simp
next
  case (Suc n)
  then have "held_after press (concat (map (\<lambda>i. if has_bit changed i then [f i (has_bit m i)] else []) [0..<n])) held =
      (\<lambda>i. if i < n \<and> bit changed i then bit m i else held i)" by simp
  moreover have "press (f n (bit m n)) = Some (n, bit m n)" using Suc.prems by simp
  ultimately show ?case by (auto simp: hold_def less_Suc_eq)
qed

lemma bit_changed: "bit (a XOR b :: u8) i \<longleftrightarrow> bit a i \<noteq> bit b i"
  by (simp add: bit_xor_iff)

text \<open>
  The calls an injector gets from the connections, in order: a pointer event in a state the
  environment \<open>v\<close> answers for; calls for keys and the clipboard do not touch the buttons.
\<close>

fun run_pointer :: "('v \<Rightarrow> u8 \<Rightarrow> u16 \<Rightarrow> u16 \<Rightarrow> 's \<Rightarrow> ('e, 's) injected) \<Rightarrow> ('v \<times> input_call) list \<Rightarrow> 's \<Rightarrow> 'e list \<times> 's" where
  "run_pointer pointer [] s = ([], s)"
| "run_pointer pointer ((v, InPointer m x y) # cs) s =
     (case pointer v m x y s of (r, es, s') \<Rightarrow> case run_pointer pointer cs s' of (fs, s'') \<Rightarrow> (es @ fs, s''))"
| "run_pointer pointer ((v, InKey d k) # cs) s = run_pointer pointer cs s"
| "run_pointer pointer ((v, InClipboard t) # cs) s = run_pointer pointer cs s"

fun final_mask :: "input_call list \<Rightarrow> u8 \<Rightarrow> u8" where
  "final_mask [] m = m"
| "final_mask (InPointer m x y # cs) m' = final_mask cs m"
| "final_mask (InKey d k # cs) m = final_mask cs m"
| "final_mask (InClipboard t # cs) m = final_mask cs m"

lemma final_mask_append [simp]: "final_mask (cs @ ds) m = final_mask ds (final_mask cs m)"
  by (induction cs m rule: final_mask.induct) auto

text \<open>
  The contract of an injector: while the environment works, a pointer event succeeds, is
  remembered, and brings the system from holding the buttons of the last mask to holding those
  of the new one.
\<close>

locale pointer_injector =
  fixes pointer :: "'v \<Rightarrow> u8 \<Rightarrow> u16 \<Rightarrow> u16 \<Rightarrow> 's \<Rightarrow> ('e, 's) injected"
    and works :: "'v \<Rightarrow> bool"
    and ready :: "'s \<Rightarrow> bool"
    and last_mask :: "'s \<Rightarrow> u8"
    and press :: "'e \<Rightarrow> (nat \<times> bool) option"
    and buttons :: nat
  assumes pointer_holds:
    "works v \<Longrightarrow> ready s \<Longrightarrow> (\<And>i. i < buttons \<Longrightarrow> held i = bit (last_mask s) i) \<Longrightarrow>
       \<exists>es s'. pointer v m x y s = (Inr (), es, s') \<and> ready s' \<and> last_mask s' = m \<and>
         (\<forall>i < buttons. held_after press es held i = bit m i)"
begin

lemma run_holds:
  assumes "\<forall>c \<in> set cs. works (fst c)" and "ready s" and "\<forall>i < buttons. held i = bit (last_mask s) i"
  shows "ready (snd (run_pointer pointer cs s)) \<and>
    last_mask (snd (run_pointer pointer cs s)) = final_mask (map snd cs) (last_mask s) \<and>
    (\<forall>i < buttons. held_after press (fst (run_pointer pointer cs s)) held i = bit (final_mask (map snd cs) (last_mask s)) i)"
  using assms
proof (induction cs arbitrary: s held)
  case (Cons c cs)
  obtain v k where c: "c = (v, k)" by (cases c)
  show ?case
  proof (cases k)
    case (InPointer m x y)
    obtain es s' where p: "pointer v m x y s = (Inr (), es, s')" "ready s'" "last_mask s' = m"
      and es: "\<forall>i < buttons. held_after press es held i = bit m i"
      using pointer_holds [of v s held m x y] Cons.prems c by auto
    then show ?thesis using Cons.IH [of s' "held_after press es held"] Cons.prems c InPointer
      by (cases "run_pointer pointer cs s'") simp
  qed (use Cons c in auto)
qed simp

end

section \<open>The three injectors keep the contract\<close>

fun x11_press :: "x11_event \<Rightarrow> (nat \<times> bool) option" where
  "x11_press (XButton n down) = Some (n - 1, down)"
| "x11_press (XMotion x y) = None"
| "x11_press (XKey k down) = None"

interpretation x11: pointer_injector "\<lambda>(v :: unit). X11Input_PointerEvent" "\<lambda>v. True" xi_ctx xi_lastButtonMask x11_press 5
proof unfold_locales
  fix s :: X11Input and held :: "nat \<Rightarrow> bool" and m x y
  assume "xi_ctx s" and held: "\<And>i. i < 5 \<Longrightarrow> held i = bit (xi_lastButtonMask s) i"
  have loop: "held_after x11_press (x11_button_events (xi_lastButtonMask s XOR m) m) held =
      (\<lambda>i. if i < 5 \<and> bit (xi_lastButtonMask s XOR m) i then bit m i else held i)" for held
    unfolding x11_button_events_def by (rule held_after_loop) simp
  show "\<exists>es s'. X11Input_PointerEvent m x y s = (Inr (), es, s') \<and> xi_ctx s' \<and> xi_lastButtonMask s' = m \<and>
      (\<forall>i < 5. held_after x11_press es held i = bit m i)"
    using \<open>xi_ctx s\<close> held by (simp add: X11Input_PointerEvent_def loop hold_def bit_changed)
qed

text \<open>The flags of \<^verbatim>\<open>SendInput\<close>; a move and a wheel event press nothing.\<close>

fun win_press :: "win_event \<Rightarrow> (nat \<times> bool) option" where
  "win_press (WMouse mi) =
     (if mi_Flags mi = mouseeventfLeftDown then Some (0, True) else if mi_Flags mi = mouseeventfLeftUp then Some (0, False)
      else if mi_Flags mi = mouseeventfMiddleDown then Some (1, True) else if mi_Flags mi = mouseeventfMiddleUp then Some (1, False)
      else if mi_Flags mi = mouseeventfRightDown then Some (2, True) else if mi_Flags mi = mouseeventfRightUp then Some (2, False)
      else None)"
| "win_press (WKey ki) = None"

lemmas mouse_flags = mouseeventfMove_def mouseeventfLeftDown_def mouseeventfLeftUp_def mouseeventfRightDown_def
  mouseeventfRightUp_def mouseeventfMiddleDown_def mouseeventfMiddleUp_def mouseeventfWheel_def mouseeventfAbsolute_def

text \<open>A screen of a size \<^verbatim>\<open>int32\<close> can hold.\<close>

definition screen_ok :: "nat \<times> nat \<Rightarrow> bool" where
  "screen_ok screen \<longleftrightarrow> 0 < fst screen \<and> fst screen < 2 ^ 31 \<and> 0 < snd screen \<and> snd screen < 2 ^ 31"

lemma int32_id: "- (2 ^ 31) \<le> n \<Longrightarrow> n < 2 ^ 31 \<Longrightarrow> int32 n = n"
  by (simp add: int32_def)

lemma less_3_cases: "(i :: nat) < 3 \<Longrightarrow> i = 0 \<or> i = 1 \<or> i = 2"
  by auto

text \<open>What the events of a button do, and that the other mouse events press nothing.\<close>

lemma win_button_held:
  assumes "win_press (sendButton down 0) = Some (i, True)" and "win_press (sendButton up 0) = Some (i, False)"
  shows "held_after win_press (win_button changed m i down up) held = (if bit changed i then held(i := bit m i) else held)"
  using assms by (simp add: win_button_def hold_def)

lemma win_press_events:
  "win_press (sendButton mouseeventfLeftDown 0) = Some (0, True)"
  "win_press (sendButton mouseeventfLeftUp 0) = Some (0, False)"
  "win_press (sendButton mouseeventfMiddleDown 0) = Some (1, True)"
  "win_press (sendButton mouseeventfMiddleUp 0) = Some (1, False)"
  "win_press (sendButton mouseeventfRightDown 0) = Some (2, True)"
  "win_press (sendButton mouseeventfRightUp 0) = Some (2, False)"
  "win_press (sendButton mouseeventfWheel d) = None"
  "win_press (sendWheelRaw n) = None"
  "win_press (WMouse \<lparr>mi_Dx = dx, mi_Dy = dy, mi_MouseData = 0, mi_Flags = mouseeventfAbsolute OR mouseeventfMove\<rparr>) = None"
  by (simp_all add: sendButton_def sendWheelRaw_def mouse_flags)

lemma win_events_held:
  "held_after win_press (win_events w h old m x y) held = (\<lambda>i. if i < 3 \<and> bit (old XOR m) i then bit m i else held i)"
proof -
  note buttons = win_button_held [OF win_press_events(1,2)] win_button_held [OF win_press_events(3,4)]
    win_button_held [OF win_press_events(5,6)]
  have wheel: "held_after win_press (if b then [sendButton mouseeventfWheel d] else []) held = held"
    "held_after win_press (if b then [sendWheelRaw n] else []) held = held" for b d n held
    by (simp_all add: hold_def win_press_events del: win_press.simps)
  have "held_after win_press (win_events w h old m x y) held =
      (if bit (old XOR m) 2 then (\<lambda>held. held(2 := bit m 2)) else id)
       ((if bit (old XOR m) 1 then (\<lambda>held. held(1 := bit m 1)) else id)
         ((if bit (old XOR m) 0 then (\<lambda>held. held(0 := bit m 0)) else id) held))"
    unfolding win_events_def Let_def held_after_simps wheel buttons hold_def win_press_events by simp
  then show ?thesis by (auto simp: fun_eq_iff less_Suc_eq numeral_3_eq_3 numeral_2_eq_2)
qed

interpretation win: pointer_injector WindowsInput_PointerEvent screen_ok "\<lambda>s. True" wi_lastButtonMask win_press 3
proof unfold_locales
  fix v s m x y and held :: "nat \<Rightarrow> bool"
  assume ok: "screen_ok v" and held: "\<And>i. i < 3 \<Longrightarrow> held i = bit (wi_lastButtonMask (s :: WindowsInput)) i"
  show "\<exists>es s'. WindowsInput_PointerEvent v m x y s = (Inr (), es, s') \<and> True \<and> wi_lastButtonMask s' = m \<and>
      (\<forall>i < 3. held_after win_press es held i = bit m i)"
    using ok held
    by (cases v) (simp add: WindowsInput_PointerEvent_def screen_ok_def int32_id win_events_held bit_changed)
qed

fun mac_press :: "mac_event \<Rightarrow> (nat \<times> bool) option" where
  "mac_press (CGMouse t x y b) =
     (case t of LeftMouseDown \<Rightarrow> Some (0, True) | LeftMouseUp \<Rightarrow> Some (0, False)
      | OtherMouseDown \<Rightarrow> Some (1, True) | OtherMouseUp \<Rightarrow> Some (1, False)
      | RightMouseDown \<Rightarrow> Some (2, True) | RightMouseUp \<Rightarrow> Some (2, False) | MouseMoved \<Rightarrow> None)"
| "mac_press (CGScroll n) = None"
| "mac_press (CGKey k down) = None"
| "mac_press (CGKeyChar k down c) = None"

lemma mac_press_button: "i < 3 \<Longrightarrow> mac_press (mouseButton x y i down) = Some (i, down)"
  by (auto simp: mouseButton_def dest!: less_3_cases)

lemma mac_drag_held:
  assumes "\<forall>i < 3. held i = bit m i" and "i < 3"
  shows "held_after mac_press (mac_drag m x y) held i = bit m i"
  using assms by (auto simp: mac_drag_def mac_press_button hold_def dest!: less_3_cases)

interpretation mac: pointer_injector "\<lambda>(v :: unit). DarwinInput_PointerEvent" "\<lambda>v. True" "\<lambda>s. True" di_lastButtonMask mac_press 3
proof unfold_locales
  fix s :: DarwinInput and held :: "nat \<Rightarrow> bool" and m x y
  assume held: "\<And>i. i < 3 \<Longrightarrow> held i = bit (di_lastButtonMask s) i"
  have "held_after mac_press (mac_button_events (di_lastButtonMask s XOR m) m x y) held =
      (\<lambda>i. if i < 3 \<and> bit (di_lastButtonMask s XOR m) i then bit m i else held i)" for held
    unfolding mac_button_events_def by (rule held_after_loop) (simp add: mac_press_button)
  then show "\<exists>es s'. DarwinInput_PointerEvent m x y s = (Inr (), es, s') \<and> True \<and> di_lastButtonMask s' = m \<and>
      (\<forall>i < 3. held_after mac_press es held i = bit m i)"
    using held
    by (simp add: DarwinInput_PointerEvent_def Let_def hold_def moveMouse_def bit_changed mac_drag_held del: One_nat_def)
qed

section \<open>Absolute coordinates of Windows\<close>

lemma quot_nonneg: "0 \<le> a \<Longrightarrow> 0 < b \<Longrightarrow> quot a b = a div b"
  by (auto simp: quot_def)

lemma absolute_value:
  assumes "unat pos < W" and "W \<le> 32768"
  shows "absolute pos W = (int (unat pos) * 65535 + int W div 2) div int W"
proof -
  have W: "int (unat pos) < int W" "int W \<le> 32768" using assms by (simp_all only: of_nat_less_iff)
  have "int32 (int (unat pos) * 65535) = int (unat pos) * 65535" "int32 (int W) = int W"
    "int32 (int (unat pos) * 65535 + int W div 2) = int (unat pos) * 65535 + int W div 2"
    using W by (simp_all add: int32_id del: of_nat_unat)
  then show ?thesis using W by (simp add: absolute_def quot_nonneg del: int_nat_eq of_nat_unat)
qed

lemma int_div_less: "0 < (w :: int) \<Longrightarrow> n < k * w \<Longrightarrow> n div w < k"
  by (smt (verit) minus_mod_eq_div_mult mult_right_less_imp_less pos_mod_sign)

text \<open>Rounding \<^verbatim>\<open>(n + w/2) / w\<close> is to a nearest integer.\<close>

lemma div_nearest:
  fixes n w :: int
  assumes "0 < w"
  shows "2 * \<bar>(n + w div 2) div w * w - n\<bar> \<le> w"
proof -
  define t m h where "t = (n + w div 2) div w * w" and "m = (n + w div 2) mod w" and "h = w div 2"
  then have "t + m = n + h" by simp
  moreover have "0 \<le> m" "m < w" "2 * h \<le> w" "w \<le> 2 * h + 1" using assms by (simp_all add: m_def h_def)
  ultimately have "2 * \<bar>t - n\<bar> \<le> w" by arith
  then show ?thesis by (simp add: t_def)
qed

text \<open>
  The position a client sends is injected on Windows at the nearest normalised coordinate:
  for a screen of up to 32768 pixels the arithmetic of \<^verbatim>\<open>PointerEvent\<close> stays inside \<^verbatim>\<open>int32\<close>, the
  result lies between 0 and 65535, and scaled back to the screen it is within half a pixel of
  the one the client named.
\<close>

lemma absolute_bounds:
  assumes "unat pos < W" and "W \<le> 32768"
  shows "0 \<le> absolute pos W \<and> absolute pos W \<le> 65535 \<and>
    2 * \<bar>absolute pos W * int W - 65535 * int (unat pos)\<bar> \<le> int W"
proof -
  have W: "int (unat pos) \<le> int W - 1" "0 < int W" using assms(1) by linarith+
  note v = absolute_value [OF assms]
  have "int (unat pos) * 65535 + int W div 2 < 65536 * int W" using W by simp
  then have "absolute pos W < 65536" unfolding v by (rule int_div_less [OF W(2)])
  moreover have "0 \<le> absolute pos W" using W(2) by (simp add: v pos_imp_zdiv_nonneg_iff)
  moreover have "2 * \<bar>absolute pos W * int W - int (unat pos) * 65535\<bar> \<le> int W"
    unfolding v by (rule div_nearest [OF W(2)])
  ultimately show ?thesis by (simp add: mult.commute)
qed

lemma absolute_bounds_witness: "absolute 1919 1920 \<le> 65535 \<and> 2 * \<bar>absolute 1919 1920 * 1920 - 65535 * 1919\<bar> \<le> 1920"
  using absolute_bounds [of 1919 1920] by simp

section \<open>The clipboard of Windows\<close>

text \<open>
  Decoding of UTF-8 as the library does it: a byte that starts no valid sequence is U+FFFD and
  one byte is consumed.
\<close>

definition cont_byte :: "u8 \<Rightarrow> bool" where
  "cont_byte b \<longleftrightarrow> b AND 0xC0 = 0x80"

definition low6 :: "u8 \<Rightarrow> nat" where
  "low6 b = unat (b AND 0x3F)"

fun decode_rune :: "bytes \<Rightarrow> nat \<times> nat" where
  "decode_rune [] = (0xFFFD, 0)"
| "decode_rune (b # bs) =
     (if b < 0x80 then (unat b, 1)
      else if 0xC2 \<le> b \<and> b \<le> 0xDF \<and> 1 \<le> length bs \<and> cont_byte (bs ! 0)
      then (unat (b AND 0x1F) * 64 + low6 (bs ! 0), 2)
      else if 0xE0 \<le> b \<and> b \<le> 0xEF \<and> 2 \<le> length bs \<and> cont_byte (bs ! 0) \<and> cont_byte (bs ! 1) \<and>
        (b = 0xE0 \<longrightarrow> 0xA0 \<le> bs ! 0) \<and> (b = 0xED \<longrightarrow> bs ! 0 \<le> 0x9F)
      then (unat (b AND 0x0F) * 4096 + low6 (bs ! 0) * 64 + low6 (bs ! 1), 3)
      else if 0xF0 \<le> b \<and> b \<le> 0xF4 \<and> 3 \<le> length bs \<and> cont_byte (bs ! 0) \<and> cont_byte (bs ! 1) \<and> cont_byte (bs ! 2) \<and>
        (b = 0xF0 \<longrightarrow> 0x90 \<le> bs ! 0) \<and> (b = 0xF4 \<longrightarrow> bs ! 0 \<le> 0x8F)
      then (unat (b AND 0x07) * 262144 + low6 (bs ! 0) * 4096 + low6 (bs ! 1) * 64 + low6 (bs ! 2), 4)
      else (0xFFFD, 1))"

definition utf16_rune :: "nat \<Rightarrow> u16 list" where
  "utf16_rune r =
     (if r < 0x10000 then [of_nat r]
      else [0xD800 + of_nat ((r - 0x10000) div 1024), 0xDC00 + of_nat ((r - 0x10000) mod 1024)])"

text \<open>Windows strings may hold lone surrogates; their three bytes are taken over as they are.\<close>

definition surrogate_bytes :: "bytes \<Rightarrow> bool" where
  "surrogate_bytes bs \<longleftrightarrow> 3 \<le> length bs \<and> bs ! 0 = 0xED \<and> 0xA0 \<le> bs ! 1 \<and> bs ! 1 \<le> 0xBF \<and> 0x80 \<le> bs ! 2 \<and> bs ! 2 \<le> 0xBF"

lemma decode_rune_size: "(r, n) = decode_rune bs \<Longrightarrow> bs \<noteq> [] \<Longrightarrow> 0 < n"
  by (cases bs) (auto split: if_splits)

function encodeWTF16 :: "bytes \<Rightarrow> u16 list" where
  "encodeWTF16 bs =
     (if bs = [] then []
      else case decode_rune bs of (r, n) \<Rightarrow>
        if r = 0xFFFD \<and> surrogate_bytes bs
        then of_nat (unat (bs ! 0 AND 0x0F) * 4096 + low6 (bs ! 1) * 64 + low6 (bs ! 2)) # encodeWTF16 (drop 3 bs)
        else utf16_rune r @ encodeWTF16 (drop n bs))"
  by pat_completeness auto
termination
  by (relation "measure length") (auto dest: decode_rune_size)

declare encodeWTF16.simps [simp del]

definition UTF16FromString :: "bytes \<Rightarrow> u16 list option" where
  "UTF16FromString s = (if 0 \<in> set s then None else Some (encodeWTF16 s @ [0]))"


text \<open>
  What Windows answers to the calls of \<^verbatim>\<open>SetClipboard\<close>, and the calls themselves. The memory handle
  is the one allocated by the call.
\<close>

record win_clip =
  wc_GlobalAlloc :: bool
  wc_GlobalLock :: bool
  wc_OpenClipboard :: "string option"
  wc_EmptyClipboard :: bool
  wc_SetClipboardData :: bool

datatype clip_call =
    GlobalAlloc nat | GlobalLock | RtlMoveMemory "u16 list" nat | GlobalUnlock | GlobalFree
  | OpenClipboard | EmptyClipboard | SetClipboardData | CloseClipboard

definition WindowsInput_SetClipboard :: "win_clip \<Rightarrow> bytes \<Rightarrow> unit res \<times> clip_call list" where
  "WindowsInput_SetClipboard env text =
     (case UTF16FromString text of
        None \<Rightarrow> (Inl (ErrorfW ''clipboard: UTF16FromString: %w'' [] (Errorf ''invalid argument'' [])), [])
      | Some utf16 \<Rightarrow>
          let byteLen = length utf16 * 2 in
          if \<not> wc_GlobalAlloc env
          then (Inl (Errorf ''clipboard: GlobalAlloc failed'' []), [GlobalAlloc byteLen])
          else if \<not> wc_GlobalLock env
          then (Inl (Errorf ''clipboard: GlobalLock failed'' []), [GlobalAlloc byteLen, GlobalLock, GlobalFree])
          else
            let copied = [GlobalAlloc byteLen, GlobalLock, RtlMoveMemory utf16 byteLen, GlobalUnlock, OpenClipboard] in
            case wc_OpenClipboard env of
              Some e \<Rightarrow> (Inl (ErrorfW ''clipboard: OpenClipboard: %w'' [] (Errorf e [])), copied @ [GlobalFree])
            | None \<Rightarrow>
                let put = copied @ [EmptyClipboard, SetClipboardData, CloseClipboard] in
                if \<not> wc_SetClipboardData env
                then (Inl (Errorf ''clipboard: SetClipboardData failed'' []), put @ [GlobalFree])
                else (Inr (), put))"

text \<open>
  The clipboard and the memory behind it: who owns the allocated block, whether the clipboard is
  open, what it holds. A call the rules of the platform forbid (freeing a block twice or one the
  clipboard owns, copying into a block that is not locked or too small, touching the clipboard
  while it is not open) has no next state. Closing a clipboard that the caller has opened succeeds.
\<close>

datatype owner = Nobody | Caller | Clipboard

record win_state =
  ws_owner :: owner
  ws_size :: nat
  ws_locked :: bool
  ws_data :: "u16 list"
  ws_open :: bool
  ws_clip :: "u16 list option"

fun clip_step :: "win_clip \<Rightarrow> clip_call \<Rightarrow> win_state \<Rightarrow> win_state option" where
  "clip_step env (GlobalAlloc n) w =
     (if ws_owner w = Nobody then Some (if wc_GlobalAlloc env then w\<lparr>ws_owner := Caller, ws_size := n\<rparr> else w) else None)"
| "clip_step env GlobalLock w =
     (if ws_owner w = Caller \<and> \<not> ws_locked w then Some (w\<lparr>ws_locked := wc_GlobalLock env\<rparr>) else None)"
| "clip_step env (RtlMoveMemory d n) w =
     (if ws_owner w = Caller \<and> ws_locked w \<and> n \<le> ws_size w \<and> n = 2 * length d then Some (w\<lparr>ws_data := d\<rparr>) else None)"
| "clip_step env GlobalUnlock w = (if ws_owner w = Caller \<and> ws_locked w then Some (w\<lparr>ws_locked := False\<rparr>) else None)"
| "clip_step env GlobalFree w = (if ws_owner w = Caller \<and> \<not> ws_locked w then Some (w\<lparr>ws_owner := Nobody\<rparr>) else None)"
| "clip_step env OpenClipboard w = (if ws_open w then None else Some (w\<lparr>ws_open := (wc_OpenClipboard env = None)\<rparr>))"
| "clip_step env EmptyClipboard w = (if ws_open w then Some (if wc_EmptyClipboard env then w\<lparr>ws_clip := None\<rparr> else w) else None)"
| "clip_step env SetClipboardData w =
     (if ws_open w \<and> ws_owner w = Caller \<and> \<not> ws_locked w
      then Some (if wc_SetClipboardData env then w\<lparr>ws_owner := Clipboard, ws_clip := Some (ws_data w)\<rparr> else w) else None)"
| "clip_step env CloseClipboard w = (if ws_open w then Some (w\<lparr>ws_open := False\<rparr>) else None)"

fun clip_run :: "win_clip \<Rightarrow> clip_call list \<Rightarrow> win_state \<Rightarrow> win_state option" where
  "clip_run env [] w = Some w"
| "clip_run env (c # cs) w = Option.bind (clip_step env c w) (clip_run env cs)"

definition clip_start :: "u16 list option \<Rightarrow> win_state" where
  "clip_start c = \<lparr>ws_owner = Nobody, ws_size = 0, ws_locked = False, ws_data = [], ws_open = False, ws_clip = c\<rparr>"

text \<open>
  C37: Whatever Windows answers, \<^verbatim>\<open>SetClipboard\<close> follows the rules of the clipboard: it never frees a
  block it does not own nor copies past its end, it leaves the clipboard closed, and it leaks
  nothing: at the end the block belongs to nobody, or, exactly when the call succeeds, to the
  clipboard, which then holds the text in UTF-16 with its terminating zero. A failure before the
  clipboard is open leaves the old contents.
\<close>

theorem SetClipboard_owns_memory:
  "\<exists>w. clip_run env (snd (WindowsInput_SetClipboard env text)) (clip_start old) = Some w \<and>
     \<not> ws_open w \<and> \<not> ws_locked w \<and>
     (case fst (WindowsInput_SetClipboard env text) of
        Inr _ \<Rightarrow> ws_owner w = Clipboard \<and> ws_clip w = Some (encodeWTF16 text @ [0])
      | Inl _ \<Rightarrow> ws_owner w = Nobody \<and> (ws_clip w = old \<or> ws_clip w = None \<and> wc_OpenClipboard env = None))"
  by (simp add: WindowsInput_SetClipboard_def UTF16FromString_def clip_start_def Let_def split: option.split)

text \<open>Text in ASCII arrives as it was sent.\<close>

lemma encodeWTF16_ascii: "\<forall>b \<in> set s. b < 0x80 \<Longrightarrow> encodeWTF16 s = map ucast s"
proof (induction s)
  case Nil
  then show ?case by (simp add: encodeWTF16.simps)
next
  case (Cons b s)
  then have b: "b < 0x80" by simp
  then have "unat b < 128" by (simp add: word_less_nat_alt)
  then have "utf16_rune (unat b) = [ucast b]" "unat b \<noteq> 0xFFFD" by (simp_all add: utf16_rune_def unsigned_of_nat)
  with Cons b show ?case by (subst encodeWTF16.simps) simp
qed

end
