(* ===== verification/Clipsync.thy ===== *)
theory Clipsync
  imports Ownership Inputs
begin

text \<open>
  \<^verbatim>\<open>example/server/clipboard_windows.go\<close>: the clipboard of Windows is polled and its changes are sent to the clients. The text is
  UTF-16 there and UTF-8 here; what Windows answers is an argument, the open clipboard and the locked memory are references.
\<close>

section \<open>Text\<close>

text \<open>\<^verbatim>\<open>utf8.AppendRune\<close>, and \<^verbatim>\<open>syscall.UTF16ToString\<close>: up to the first zero, lone surrogates as three bytes.\<close>

definition utf8_rune :: "nat \<Rightarrow> bytes" where
  "utf8_rune r =
     (if r < 0x80 then [of_nat r]
      else if r < 0x800 then [of_nat (0xC0 + r div 64), of_nat (0x80 + r mod 64)]
      else if r < 0x10000 then [of_nat (0xE0 + r div 4096), of_nat (0x80 + r div 64 mod 64), of_nat (0x80 + r mod 64)]
      else [of_nat (0xF0 + r div 262144), of_nat (0x80 + r div 4096 mod 64), of_nat (0x80 + r div 64 mod 64), of_nat (0x80 + r mod 64)])"

fun decodeWTF16 :: "u16 list \<Rightarrow> bytes" where
  "decodeWTF16 [] = []"
| "decodeWTF16 (r # s) =
     (if r < 0xD800 \<or> 0xE000 \<le> r then utf8_rune (unat r) @ decodeWTF16 s
      else case s of
        [] \<Rightarrow> utf8_rune (unat r)
      | r2 # s' \<Rightarrow>
          if r < 0xDC00 \<and> 0xDC00 \<le> r2 \<and> r2 < 0xE000
          then utf8_rune ((unat r - 0xD800) * 1024 + (unat r2 - 0xDC00) + 0x10000) @ decodeWTF16 s'
          else utf8_rune (unat r) @ decodeWTF16 s)"

definition UTF16ToString :: "u16 list \<Rightarrow> bytes" where
  "UTF16ToString buf = decodeWTF16 (takeWhile (\<lambda>c. c \<noteq> 0) buf)"

section \<open>Reading the clipboard\<close>

datatype clip_ref = ClipOpen | ClipLocked nat

text \<open>The error of \<^verbatim>\<open>OpenClipboard\<close>, the handle of the text and its size, the address of the memory and the memory itself.\<close>

record clip_read =
  cr_OpenClipboard :: "goerr option"
  cr_GetClipboardData :: nat
  cr_GlobalSize :: nat
  cr_GlobalLock :: nat
  cr_memory :: bytes

fun units :: "bytes \<Rightarrow> u16 list" where
  "units (a # b # bs) = unle16 [a, b] # units bs"
| "units _ = []"

definition copy_text :: "clip_read \<Rightarrow> (clip_ref, bytes res) own" where
  "copy_text e =
     (let size' = cr_GlobalSize e; nchars = size' div 2 in
      if nchars = 0 then own_ret (Inl (GoPanic ''index out of range''))
      else own_seq (touch (ClipLocked (cr_GetClipboardData e)))
       (own_bind (own_lift (if size' \<le> nchars * 2 \<and> size' \<le> length (cr_memory e) then Some (take size' (cr_memory e)) else None)) (\<lambda>d.
        own_ret (Inr (UTF16ToString (units d))))))"

definition readWindowsClipboardText :: "clip_read \<Rightarrow> (clip_ref, bytes res) own" where
  "readWindowsClipboardText e =
     (case cr_OpenClipboard e of
        Some err \<Rightarrow> own_ret (Inl (ErrorfW ''OpenClipboard: %w'' [] err))
      | None \<Rightarrow>
          own_seq (acquire ClipOpen) (own_defer (release ClipOpen)
          (let h = cr_GetClipboardData e in
           if h = 0 then own_ret (Inr [])
           else if cr_GlobalSize e = 0 then own_ret (Inr [])
           else if cr_GlobalLock e = 0 then own_ret (Inl (Errorf ''GlobalLock failed'' []))
           else own_seq (acquire (ClipLocked h)) (own_defer (release (ClipLocked h)) (copy_text e)))))"

text \<open>The loop: the sequence number of each poll and what a read meets; the result is what \<^verbatim>\<open>SendClipboard\<close> is called with.\<close>

fun startClipboardSync :: "u32 \<Rightarrow> (u32 \<times> clip_read) list \<Rightarrow> (clip_ref, bytes list) own" where
  "startClipboardSync lastSeq [] = own_ret []"
| "startClipboardSync lastSeq ((seq, e) # polls) =
     (if seq = lastSeq then startClipboardSync lastSeq polls
      else own_bind (readWindowsClipboardText e) (\<lambda>r.
        case r of
          Inl _ \<Rightarrow> startClipboardSync seq polls
        | Inr text \<Rightarrow>
            if text = [] then startClipboardSync seq polls
            else own_bind (startClipboardSync seq polls) (\<lambda>sent. own_ret (text # sent))))"

section \<open>Runes\<close>

definition valid_rune :: "nat \<Rightarrow> bool" where
  "valid_rune r \<longleftrightarrow> r < 0x110000 \<and> \<not> (0xD800 \<le> r \<and> r < 0xE000)"

lemma cont_bytes: "list_all (\<lambda>k. cont_byte (of_nat (0x80 + k)) \<and> low6 (of_nat (0x80 + k)) = k) [0..<64]"
  by code_simp

lemma cont_of_nat: "k < 64 \<Longrightarrow> cont_byte (of_nat (0x80 + k)) \<and> low6 (of_nat (0x80 + k)) = k"
  using cont_bytes by (simp add: list_all_iff)

lemma lead_bytes:
  "list_all (\<lambda>k. unat (of_nat (0xC0 + k) AND (0x1F :: u8)) = k) [0..<32]"
  "list_all (\<lambda>k. unat (of_nat (0xE0 + k) AND (0x0F :: u8)) = k) [0..<16]"
  "list_all (\<lambda>k. unat (of_nat (0xF0 + k) AND (0x07 :: u8)) = k) [0..<8]"
  by code_simp+

lemma lead_of_nat:
  "k < 32 \<Longrightarrow> unat (of_nat (0xC0 + k) AND (0x1F :: u8)) = k"
  "k < 16 \<Longrightarrow> unat (of_nat (0xE0 + k) AND (0x0F :: u8)) = k"
  "k < 8 \<Longrightarrow> unat (of_nat (0xF0 + k) AND (0x07 :: u8)) = k"
  using lead_bytes by (simp_all add: list_all_iff)

lemma unat_of_byte: "k < 256 \<Longrightarrow> unat (of_nat k :: u8) = k"
  by (simp add: unat_of_nat)

lemma byte_le: "k < 256 \<Longrightarrow> (of_nat k :: u8) \<le> b \<longleftrightarrow> k \<le> unat b" "k < 256 \<Longrightarrow> b \<le> (of_nat k :: u8) \<longleftrightarrow> unat b \<le> k"
  "k < 256 \<Longrightarrow> (of_nat k :: u8) < b \<longleftrightarrow> k < unat b" "k < 256 \<Longrightarrow> (of_nat k :: u8) = b \<longleftrightarrow> k = unat b"
  by (auto simp: word_le_nat_alt word_less_nat_alt unat_of_byte)

text \<open>The branches of \<^const>\<open>decode_rune\<close>, by the number of the first byte.\<close>

lemma decode_rune_2:
  "0xC2 \<le> unat b \<Longrightarrow> unat b \<le> 0xDF \<Longrightarrow> cont_byte c \<Longrightarrow> decode_rune (b # c # rest) = (unat (b AND 0x1F) * 64 + low6 c, 2)"
  by (simp add: word_le_nat_alt word_less_nat_alt)

lemma decode_rune_3:
  "0xE0 \<le> unat b \<Longrightarrow> unat b \<le> 0xEF \<Longrightarrow> cont_byte c \<Longrightarrow> cont_byte d \<Longrightarrow> (unat b = 0xE0 \<Longrightarrow> 0xA0 \<le> unat c) \<Longrightarrow>
   (unat b = 0xED \<Longrightarrow> unat c \<le> 0x9F) \<Longrightarrow>
   decode_rune (b # c # d # rest) = (unat (b AND 0x0F) * 4096 + low6 c * 64 + low6 d, 3)"
  by (auto simp: word_le_nat_alt word_less_nat_alt)

lemma decode_rune_4:
  "0xF0 \<le> unat b \<Longrightarrow> unat b \<le> 0xF4 \<Longrightarrow> cont_byte c \<Longrightarrow> cont_byte d \<Longrightarrow> cont_byte f \<Longrightarrow> (unat b = 0xF0 \<Longrightarrow> 0x90 \<le> unat c) \<Longrightarrow>
   (unat b = 0xF4 \<Longrightarrow> unat c \<le> 0x8F) \<Longrightarrow>
   decode_rune (b # c # d # f # rest) = (unat (b AND 0x07) * 262144 + low6 c * 4096 + low6 d * 64 + low6 f, 4)"
  by (auto simp: word_le_nat_alt word_less_nat_alt)

lemma unat_cont: "k < 64 \<Longrightarrow> unat (of_nat (0x80 + k) :: u8) = 0x80 + k"
  by (rule unat_of_byte) simp

lemmas cont_simps = conjunct1 [OF cont_of_nat] conjunct2 [OF cont_of_nat] unat_cont lead_of_nat

lemma decode_rune_utf8:
  assumes "valid_rune r"
  shows "decode_rune (utf8_rune r @ rest) = (r, length (utf8_rune r))"
proof -
  consider "r < 0x80" | "0x80 \<le> r" "r < 0x800" | "0x800 \<le> r" "r < 0x10000" | "0x10000 \<le> r" by linarith
  then show ?thesis
  proof cases
    case 1
    then show ?thesis by (simp add: utf8_rune_def byte_le unat_of_byte)
  next
    case 2
    then have "2 \<le> r div 64" "r div 64 < 32" by auto
    moreover have "unat (of_nat (0xC0 + r div 64) :: u8) = 0xC0 + r div 64" using 2 by (intro unat_of_byte) simp
    ultimately show ?thesis using 2 by (simp add: utf8_rune_def decode_rune_2 cont_simps del: of_nat_add decode_rune.simps)
  next
    case 3
    have a: "r div 4096 < 16" "r div 64 mod 64 < 64" "r mod 64 < 64" "r div 4096 \<le> 15" using 3 by auto
    have u: "unat (of_nat (0xE0 + r div 4096) :: u8) = 0xE0 + r div 4096" using a(1) by (intro unat_of_byte) simp
    have d: "r div 4096 * 64 + r div 64 mod 64 = r div 64" using div_mult_mod_eq [of "r div 64" 64] by (simp add: div_mult2_eq [symmetric])
    then have s: "r div 4096 * 4096 + r div 64 mod 64 * 64 + r mod 64 = r" using div_mult_mod_eq [of r 64] by linarith
    have e: "r div 4096 = 0 \<Longrightarrow> 32 \<le> r div 64 mod 64" "r div 4096 = 13 \<Longrightarrow> r div 64 mod 64 \<le> 31"
      using 3 assms s a(3) unfolding valid_rune_def by linarith+
    have "decode_rune (of_nat (0xE0 + r div 4096) # of_nat (0x80 + r div 64 mod 64) # of_nat (0x80 + r mod 64) # rest) =
        (r div 4096 * 4096 + r div 64 mod 64 * 64 + r mod 64, 3)"
      using e by (subst decode_rune_3) (simp_all add: u cont_simps a del: of_nat_add)
    then show ?thesis using 3 s by (simp add: utf8_rune_def del: of_nat_add decode_rune.simps)
  next
    case 4
    have r: "r < 0x110000" using assms by (simp add: valid_rune_def)
    have a: "r div 262144 < 5" "r div 4096 mod 64 < 64" "r div 64 mod 64 < 64" "r mod 64 < 64" "r div 262144 \<le> 4" "r div 262144 < 8"
      using r by auto
    have u: "unat (of_nat (0xF0 + r div 262144) :: u8) = 0xF0 + r div 262144" using a(1) by (intro unat_of_byte) simp
    have "r div 4096 * 64 + r div 64 mod 64 = r div 64" using div_mult_mod_eq [of "r div 64" 64] by (simp add: div_mult2_eq [symmetric])
    moreover have "r div 262144 * 64 + r div 4096 mod 64 = r div 4096"
      using div_mult_mod_eq [of "r div 4096" 64] by (simp add: div_mult2_eq [symmetric])
    ultimately have s: "r div 262144 * 262144 + r div 4096 mod 64 * 4096 + r div 64 mod 64 * 64 + r mod 64 = r"
      using div_mult_mod_eq [of r 64] by linarith
    have e: "r div 262144 = 0 \<Longrightarrow> 16 \<le> r div 4096 mod 64" "r div 262144 = 4 \<Longrightarrow> r div 4096 mod 64 \<le> 15"
      using 4 r s a(3,4) by linarith+
    have "decode_rune (of_nat (0xF0 + r div 262144) # of_nat (0x80 + r div 4096 mod 64) # of_nat (0x80 + r div 64 mod 64) #
        of_nat (0x80 + r mod 64) # rest) = (r div 262144 * 262144 + r div 4096 mod 64 * 4096 + r div 64 mod 64 * 64 + r mod 64, 4)"
      using e by (subst decode_rune_4) (simp_all add: u cont_simps a del: of_nat_add)
    then show ?thesis using 4 s by (simp add: utf8_rune_def del: of_nat_add decode_rune.simps)
  qed
qed

text \<open>Both encodings of a rune are decoded to it, whatever follows.\<close>

lemma decode_unit:
  assumes "valid_rune r"
  shows "decodeWTF16 (utf16_rune r @ s) = utf8_rune r @ decodeWTF16 s"
proof (cases "r < 0x10000")
  case True
  then have "unat (of_nat r :: u16) = r" by (simp add: unat_of_nat)
  then show ?thesis using True assms by (auto simp: utf16_rune_def valid_rune_def word_le_nat_alt word_less_nat_alt)
next
  case False
  define q where "q = (r - 0x10000) div 1024"
  define p where "p = (r - 0x10000) mod 1024"
  have b: "q < 1024" "p < 1024" "q * 1024 + p + 0x10000 = r" using False assms by (auto simp: q_def p_def valid_rune_def)
  have "unat (0xD800 + of_nat q :: u16) = 0xD800 + q" "unat (0xDC00 + of_nat p :: u16) = 0xDC00 + p"
    using b by (simp_all add: unat_word_ariths unat_of_nat)
  then show ?thesis using False b by (simp add: utf16_rune_def q_def [symmetric] p_def [symmetric] word_le_nat_alt word_less_nat_alt)
qed


lemma utf8_rune_nonempty: "utf8_rune r \<noteq> []"
  by (simp add: utf8_rune_def)

lemma no_surrogate_bytes: "valid_rune r \<Longrightarrow> r = 0xFFFD \<Longrightarrow> \<not> surrogate_bytes (utf8_rune r @ rest)"
  by (simp add: utf8_rune_def surrogate_bytes_def)

lemma encode_text:
  assumes "\<forall>r \<in> set rs. valid_rune r"
  shows "encodeWTF16 (concat (map utf8_rune rs)) = concat (map utf16_rune rs)"
  using assms
proof (induction rs)
  case Nil
  then show ?case by (simp add: encodeWTF16.simps)
next
  case (Cons r rs)
  then show ?case
    using no_surrogate_bytes [of r] utf8_rune_nonempty [of r]
    by (subst encodeWTF16.simps) (auto simp: decode_rune_utf8 simp del: decode_rune.simps)
qed

lemma decode_text: "\<forall>r \<in> set rs. valid_rune r \<Longrightarrow> decodeWTF16 (concat (map utf16_rune rs)) = concat (map utf8_rune rs)"
  by (induction rs) (auto simp: decode_unit)

lemma utf16_nonzero:
  assumes "valid_rune r" and "r \<noteq> 0" and "u \<in> set (utf16_rune r)"
  shows "u \<noteq> 0"
proof (cases "r < 0x10000")
  case True
  then have "unat (of_nat r :: u16) = r" by (simp add: unat_of_nat)
  then have "(of_nat r :: u16) \<noteq> 0" using assms(2) by (metis unat_0)
  then show ?thesis using True assms(3) by (simp add: utf16_rune_def)
next
  case False
  define q where "q = (r - 0x10000) div 1024"
  define p where "p = (r - 0x10000) mod 1024"
  have b: "q < 1024" "p < 1024" using False assms by (auto simp: q_def p_def valid_rune_def)
  have "unat (0xD800 + of_nat q :: u16) = 0xD800 + q" "unat (0xDC00 + of_nat p :: u16) = 0xDC00 + p"
    using b by (simp_all add: unat_word_ariths unat_of_nat)
  then have "(0xD800 + of_nat q :: u16) \<noteq> 0" "(0xDC00 + of_nat p :: u16) \<noteq> 0" by (metis add_is_0 unat_0 zero_neq_numeral)+
  then show ?thesis using False assms(3) by (auto simp: utf16_rune_def q_def [symmetric] p_def [symmetric])
qed

lemma UTF16ToString_text:
  assumes "\<forall>r \<in> set rs. valid_rune r \<and> r \<noteq> 0"
  shows "UTF16ToString (encodeWTF16 (concat (map utf8_rune rs)) @ 0 # junk) = concat (map utf8_rune rs)"
proof -
  have "takeWhile (\<lambda>c. c \<noteq> 0) (concat (map utf16_rune rs) @ 0 # junk) = concat (map utf16_rune rs)"
    using assms utf16_nonzero by (subst takeWhile_append2) auto
  then show ?thesis using assms by (simp add: UTF16ToString_def encode_text decode_text)
qed

lemma units_le16: "units (concat (map le16 us) @ junk) = us @ units junk"
proof (induction us)
  case (Cons u us)
  obtain a b where "le16 u = [a, b]" by (simp add: le16_def be16_def)
  moreover have "unle16 (le16 u) = u" by (simp add: unle16_def le16_def)
  ultimately show ?case using Cons by simp
qed simp

text \<open>
  C26: The clipboard of a Windows host keeps text. When a client's text, any UTF-8 text without a zero, has been put on the clipboard by
  \<^verbatim>\<open>SetClipboard\<close>, the monitor reads exactly this text from it, also when the block of memory is larger than what was asked for;
  the clipboard is closed and the memory unlocked again.
\<close>

theorem clipboard_text_survives:
  assumes "\<forall>r \<in> set rs. valid_rune r \<and> r \<noteq> 0" and "text = concat (map utf8_rune rs)"
    and "WindowsInput_SetClipboard env text = (Inr (), calls)" and "clip_run env calls (clip_start old) = Some w" and "ws_clip w = Some us"
    and "cr_OpenClipboard e = None" and "cr_GetClipboardData e \<noteq> 0" and "cr_GlobalLock e \<noteq> 0" and "even (cr_GlobalSize e)"
    and "take (cr_GlobalSize e) (cr_memory e) = concat (map le16 us) @ junk" and "cr_GlobalSize e \<le> length (cr_memory e)"
  shows "readWindowsClipboardText e m = Some (Inr text, m)"
proof -
  have "us = encodeWTF16 text @ [0]"
    using assms(3-5) by (auto simp: WindowsInput_SetClipboard_def UTF16FromString_def clip_start_def Let_def split: option.splits if_splits)
  moreover have "units (take (cr_GlobalSize e) (cr_memory e)) = us @ units junk" unfolding assms(10) by (rule units_le16)
  ultimately have read: "UTF16ToString (units (take (cr_GlobalSize e) (cr_memory e))) = text" and "us \<noteq> []"
    using UTF16ToString_text [OF assms(1)] assms(2) by auto
  then have "concat (map le16 us) \<noteq> []" by (cases us) (auto simp: le16_def be16_def)
  then have "cr_GlobalSize e \<noteq> 0" using assms(10) by (metis append_is_Nil_conv take0)
  moreover from this have "cr_GlobalSize e div 2 \<noteq> 0" "cr_GlobalSize e \<le> cr_GlobalSize e div 2 * 2" using assms(9) by (auto elim: evenE)
  ultimately show ?thesis
    using assms(6-8,11) read
    by (simp add: readWindowsClipboardText_def copy_text_def own_seq_def own_bind_def own_ret_def own_lift_def own_defer_def acquire_def release_def
      touch_def Let_def)
qed

definition euro_memory :: bytes where
  "euro_memory = [0x41, 0, 0xAC, 0x20, 0, 0, 7, 7]"

theorem clipboard_text_survives_witness:
  "readWindowsClipboardText \<lparr>cr_OpenClipboard = None, cr_GetClipboardData = 3, cr_GlobalSize = 8, cr_GlobalLock = 4, cr_memory = euro_memory\<rparr> {#} =
     Some (Inr [0x41, 0xE2, 0x82, 0xAC], {#})"
proof -
  let ?env = "\<lparr>wc_GlobalAlloc = True, wc_GlobalLock = True, wc_OpenClipboard = None, wc_EmptyClipboard = True, wc_SetClipboardData = True\<rparr>"
  let ?text = "concat (map utf8_rune [0x41, 0x20AC])"
  have enc: "encodeWTF16 ?text = [0x41, 0x20AC]" by (subst encode_text) (simp_all add: valid_rune_def utf16_rune_def)
  have t: "?text = [0x41, 0xE2, 0x82, 0xAC]" by (simp add: utf8_rune_def)
  have "\<exists>calls w. WindowsInput_SetClipboard ?env ?text = (Inr (), calls) \<and> clip_run ?env calls (clip_start None) = Some w \<and> ws_clip w = Some [0x41, 0x20AC, 0]"
    unfolding WindowsInput_SetClipboard_def UTF16FromString_def enc by (simp add: utf8_rune_def clip_start_def Let_def)
  then obtain calls w where c: "WindowsInput_SetClipboard ?env ?text = (Inr (), calls)" "clip_run ?env calls (clip_start None) = Some w"
    "ws_clip w = Some [0x41, 0x20AC, 0]" by blast
  show ?thesis
    unfolding t [symmetric]
    by (rule clipboard_text_survives [OF _ refl c, where junk = "[7, 7]"])
      (simp_all add: valid_rune_def euro_memory_def le16_def be16_def)
qed

text \<open>A changed clipboard that cannot be opened at the time of the poll is never read: its number is remembered before.\<close>

lemma busy_clipboard_missed:
  assumes "cr_OpenClipboard e = Some err"
  shows "startClipboardSync n ((seq, e) # (seq, e') # polls) m = startClipboardSync seq polls m \<or> seq = n"
  using assms by (simp add: readWindowsClipboardText_def own_bind_def own_ret_def)

text \<open>A block of an odd size is copied past the end of the buffer, and one of a single byte has no buffer at all.\<close>

lemma odd_clipboard_overruns:
  assumes "cr_OpenClipboard e = None" and "cr_GetClipboardData e \<noteq> 0" and "cr_GlobalLock e \<noteq> 0" and "odd (cr_GlobalSize e)" and "cr_GlobalSize e \<noteq> 1"
  shows "readWindowsClipboardText e m = None"
proof -
  have "cr_GlobalSize e \<noteq> 0" "cr_GlobalSize e div 2 \<noteq> 0" "\<not> cr_GlobalSize e \<le> cr_GlobalSize e div 2 * 2" using assms(4,5) by (auto elim!: oddE)
  then show ?thesis
    using assms(1-3)
    by (simp add: readWindowsClipboardText_def copy_text_def own_seq_def own_bind_def own_ret_def own_lift_def own_defer_def acquire_def
      touch_def Let_def)
qed


end
