(* ===== verification/Portal.thy ===== *)
theory Portal
  imports Gostrings Wire
begin

text \<open>
  \<^verbatim>\<open>internal/portal\<close>: sessions with the desktop portal over D-Bus. What the portal does is an
  argument: to every method call, given the calls made before it, it answers with a reply, and
  \<^verbatim>\<open>Response\<close> signals reach the listener goroutine before the caller has handled the reply or
  afterwards, while it waits. The functions of the D-Bus library that decode variants, the random
  source and the file that keeps the restore token are arguments, too.
\<close>

section \<open>Messages of the bus\<close>

datatype variant =
    VString string | VObjectPath string | VUint32 u32 | VInt32 i32 | VBool bool | VDouble rat
  | VDict "(string \<times> variant) list" | VLib nat

record dbus_call =
  dc_object :: string
  dc_method :: string
  dc_args :: "variant list"

record dbus_signal =
  sg_path :: string
  sg_name :: string
  sg_body :: "variant list"

record responseSignal =
  rs_code :: u32
  rs_results :: "string \<rightharpoonup> variant"

text \<open>
  The answer of the portal to a call: signals the listener handles before the caller sees the
  reply, the reply (for a request the path of its request object), and the signals handled
  afterwards, before the time limit of the call.
\<close>

record outcome =
  oc_early :: "dbus_signal list"
  oc_reply :: "string res"
  oc_late :: "dbus_signal list"

record portal_world =
  pw_bus :: "dbus_call list \<Rightarrow> dbus_call \<Rightarrow> outcome"
  pw_connect :: "string res"
  pw_match :: "unit res"
  pw_rand :: "nat \<Rightarrow> bytes"
  pw_streams :: "variant \<Rightarrow> (u32 \<times> (string \<rightharpoonup> variant)) list option"
  pw_size :: "variant \<Rightarrow> i32 \<times> i32"
  pw_write :: "string \<Rightarrow> string option"

section \<open>Constants, options and the session\<close>

definition busName :: string where "busName = ''org.freedesktop.portal.Desktop''"
definition objectPath :: string where "objectPath = ''/org/freedesktop/portal/desktop''"
definition ifaceScreenCast :: string where "ifaceScreenCast = ''org.freedesktop.portal.ScreenCast''"
definition ifaceRemoteDesktop :: string where "ifaceRemoteDesktop = ''org.freedesktop.portal.RemoteDesktop''"
definition ifaceRequest :: string where "ifaceRequest = ''org.freedesktop.portal.Request''"
definition ifaceSession :: string where "ifaceSession = ''org.freedesktop.portal.Session''"

definition SourceTypeMonitor :: u32 where "SourceTypeMonitor = 1"
definition CursorModeEmbedded :: u32 where "CursorModeEmbedded = 2"
definition DeviceKeyboard :: u32 where "DeviceKeyboard = 1"
definition DevicePointer :: u32 where "DevicePointer = 2"
definition PersistModeUntilRevoked :: u32 where "PersistModeUntilRevoked = 2"

text \<open>Durations in nanoseconds.\<close>

definition second :: int where "second = 1000000000"

record SessionOpts =
  so_Capture :: bool
  so_Input :: bool
  so_SourceTypes :: u32
  so_CursorMode :: u32
  so_Devices :: u32
  so_RestoreTokenPath :: string
  so_StartTimeout :: int

record Stream =
  st_NodeID :: u32
  st_Width :: i32
  st_Height :: i32

text \<open>
  The session. A response channel is a number; \<open>ps_chans\<close> has what waits in its buffer of one
  value, \<open>ps_made\<close> counts the channels made. The listener goroutine is \<open>ps_stuck\<close> when it blocks
  on a channel that is full. \<open>ps_calls\<close> records the method calls, \<open>ps_rands\<close> the random tokens
  drawn, \<open>ps_file\<close> the file of the restore token.
\<close>

record PortalSession =
  ps_opts :: SessionOpts
  ps_senderToken :: string
  ps_sessionHandle :: string
  ps_resps :: "string \<rightharpoonup> nat"
  ps_chans :: "nat \<rightharpoonup> responseSignal"
  ps_made :: nat
  ps_stuck :: bool
  ps_streams :: "Stream list"
  ps_restoreToken :: string
  ps_closed :: bool
  ps_calls :: "dbus_call list"
  ps_rands :: nat
  ps_file :: "string option"

type_synonym 'a portal = "PortalSession \<Rightarrow> 'a res \<times> PortalSession"

section \<open>Tokens and paths\<close>

definition TrimPrefix :: "string \<Rightarrow> string \<Rightarrow> string" where
  "TrimPrefix p s = (if take (length p) s = p then drop (length p) s else s)"

definition senderToken :: "string \<Rightarrow> string" where
  "senderToken name = map (\<lambda>c. if c = CHR ''.'' then CHR ''_'' else c) (TrimPrefix '':'' name)"

definition hex_char :: "nat \<Rightarrow> char" where
  "hex_char n = ''0123456789abcdef'' ! (n mod 16)"

definition EncodeToString :: "bytes \<Rightarrow> string" where
  "EncodeToString bs = concat (map (\<lambda>b. [hex_char (unat b div 16), hex_char (unat b)]) bs)"

definition randomToken :: "portal_world \<Rightarrow> string \<Rightarrow> string portal" where
  "randomToken w pre s = (Inr (pre @ EncodeToString (pw_rand w (ps_rands s))), s\<lparr>ps_rands := ps_rands s + 1\<rparr>)"

definition requestPath :: "string \<Rightarrow> PortalSession \<Rightarrow> string" where
  "requestPath token s = ''/org/freedesktop/portal/desktop/request/'' @ ps_senderToken s @ ''/'' @ token"

definition sessionPath :: "string \<Rightarrow> PortalSession \<Rightarrow> string" where
  "sessionPath token s = ''/org/freedesktop/portal/desktop/session/'' @ ps_senderToken s @ ''/'' @ token"

section \<open>Responses\<close>

text \<open>Type assertions that ignore their second result: another type gives the zero value.\<close>

fun as_uint32 :: "variant \<Rightarrow> u32" where
  "as_uint32 (VUint32 n) = n"
| "as_uint32 _ = 0"

fun as_dict :: "variant \<Rightarrow> string \<rightharpoonup> variant" where
  "as_dict (VDict d) = map_of d"
| "as_dict _ = (\<lambda>k. None)"

definition is_response :: "dbus_signal \<Rightarrow> bool" where
  "is_response g \<longleftrightarrow> sg_name g = ifaceRequest @ ''.Response'' \<and> length (sg_body g) = 2"

definition response_of :: "dbus_signal \<Rightarrow> responseSignal" where
  "response_of g = \<lparr>rs_code = as_uint32 (sg_body g ! 0), rs_results = as_dict (sg_body g ! 1)\<rparr>"

text \<open>One turn of the listener: the registration goes, then the response is put into the channel.\<close>

definition listen :: "dbus_signal \<Rightarrow> PortalSession \<Rightarrow> PortalSession" where
  "listen g s =
     (if ps_stuck s \<or> \<not> is_response g then s
      else case ps_resps s (sg_path g) of
        None \<Rightarrow> s
      | Some ch \<Rightarrow>
          (let s' = s\<lparr>ps_resps := (ps_resps s)(sg_path g := None)\<rparr> in
           if ps_chans s' ch \<noteq> None then s'\<lparr>ps_stuck := True\<rparr>
           else s'\<lparr>ps_chans := (ps_chans s')(ch \<mapsto> response_of g)\<rparr>))"

definition make_chan :: "nat portal" where
  "make_chan s = (Inr (ps_made s), s\<lparr>ps_chans := (ps_chans s)(ps_made s := None), ps_made := ps_made s + 1\<rparr>)"

definition register :: "string \<Rightarrow> nat \<Rightarrow> PortalSession \<Rightarrow> PortalSession" where
  "register path ch s = s\<lparr>ps_resps := (ps_resps s)(path \<mapsto> ch)\<rparr>"

definition unregister :: "string \<Rightarrow> PortalSession \<Rightarrow> PortalSession" where
  "unregister path s = s\<lparr>ps_resps := (ps_resps s)(path := None)\<rparr>"

definition expectResponse :: "string \<Rightarrow> nat portal" where
  "expectResponse path =
     bind_io make_chan (\<lambda>ch.
     bind_io (modify (register path ch)) (\<lambda>_. ret ch))"

text \<open>A method call: its reply, after the signals that come first.\<close>

definition Call :: "portal_world \<Rightarrow> dbus_call \<Rightarrow> string portal" where
  "Call w c s =
     (let o' = pw_bus w (ps_calls s) c in
      (oc_reply o', fold listen (oc_early o') (s\<lparr>ps_calls := ps_calls s @ [c]\<rparr>)))"

text \<open>Waiting: the signals that arrive within the time limit are handled.\<close>

definition wait_response :: "outcome \<Rightarrow> nat \<Rightarrow> responseSignal option portal" where
  "wait_response o' ch s =
     (let s' = fold listen (oc_late o') s in (Inr (ps_chans s' ch), s'\<lparr>ps_chans := (ps_chans s')(ch := None)\<rparr>))"

definition deferred :: "(PortalSession \<Rightarrow> PortalSession) \<Rightarrow> 'a portal \<Rightarrow> 'a portal" where
  "deferred cleanup m s = (case m s of (r, s') \<Rightarrow> (r, cleanup s'))"

text \<open>The call and the waiting, once the response is expected on \<open>respCh\<close>.\<close>

definition make_request ::
  "portal_world \<Rightarrow> string \<Rightarrow> int \<Rightarrow> string \<Rightarrow> dbus_call \<Rightarrow> outcome \<Rightarrow> nat \<Rightarrow> (string \<rightharpoonup> variant) portal" where
  "make_request w meth timeout expected call answer respCh =
     bind_io (wrap (''portal: '' @ meth @ '': %w'') (Call w call)) (\<lambda>actual.
     bind_io (if actual \<noteq> expected
              then bind_io (modify (unregister expected)) (\<lambda>_. expectResponse actual)
              else ret respCh) (\<lambda>ch.
     bind_io (wait_response answer ch) (\<lambda>r.
     case r of
       Some resp \<Rightarrow>
         if rs_code resp \<noteq> 0
         then fail (Errorf (''portal: '' @ meth @ '' response code %d'') [uint (rs_code resp)])
         else ret (rs_results resp)
     | None \<Rightarrow>
         fail (Errorf (''portal: '' @ meth @ '' timed out after %s'')
           [if timeout \<le> 0 then 30 * second else timeout]))))"

definition portalCall ::
  "portal_world \<Rightarrow> string \<Rightarrow> string \<Rightarrow> int \<Rightarrow> string \<Rightarrow> variant list \<Rightarrow> (string \<rightharpoonup> variant) portal" where
  "portalCall w iface meth timeout handleToken args s =
     (let expected = requestPath handleToken s;
          call = \<lparr>dc_object = objectPath, dc_method = iface @ ''.'' @ meth, dc_args = args\<rparr> in
      bind_io (expectResponse expected) (\<lambda>respCh.
        deferred (unregister expected)
          (make_request w meth timeout expected call (pw_bus w (ps_calls s) call) respCh)) s)"

section \<open>The steps of a session\<close>

definition opt_string :: "variant option \<Rightarrow> string option" where
  "opt_string v = (case v of Some (VString t) \<Rightarrow> Some t | _ \<Rightarrow> None)"

definition session_iface :: "PortalSession \<Rightarrow> string" where
  "session_iface s = (if so_Input (ps_opts s) then ifaceRemoteDesktop else ifaceScreenCast)"

definition createSession :: "portal_world \<Rightarrow> unit portal" where
  "createSession w =
     bind_io (randomToken w ''redvnc_req_'') (\<lambda>handleToken.
     bind_io (randomToken w ''redvnc_sess_'') (\<lambda>sessionToken.
     bind_io get_state (\<lambda>s.
     bind_io (portalCall w (session_iface s) ''CreateSession'' (30 * second) handleToken
        [VDict [(''handle_token'', VString handleToken), (''session_handle_token'', VString sessionToken)]]) (\<lambda>results.
     case opt_string (results ''session_handle'') of
       Some handle \<Rightarrow>
         modify (\<lambda>s. s\<lparr>ps_sessionHandle := (if handle = [] then sessionPath sessionToken s else handle)\<rparr>)
     | None \<Rightarrow> modify (\<lambda>s. s\<lparr>ps_sessionHandle := sessionPath sessionToken s\<rparr>)))))"

definition selectDevices :: "portal_world \<Rightarrow> unit portal" where
  "selectDevices w =
     bind_io (randomToken w ''redvnc_req_'') (\<lambda>handleToken.
     bind_io get_state (\<lambda>s.
     bind_io (portalCall w ifaceRemoteDesktop ''SelectDevices'' (30 * second) handleToken
        [VObjectPath (ps_sessionHandle s),
         VDict [(''handle_token'', VString handleToken), (''types'', VUint32 (so_Devices (ps_opts s)))]]) (\<lambda>_.
     ret ())))"

definition loadRestoreToken :: "PortalSession \<Rightarrow> string" where
  "loadRestoreToken s =
     (if so_RestoreTokenPath (ps_opts s) = [] then []
      else case ps_file s of None \<Rightarrow> [] | Some data \<Rightarrow> TrimSpace data)"

definition saveRestoreToken :: "portal_world \<Rightarrow> string \<Rightarrow> PortalSession \<Rightarrow> PortalSession" where
  "saveRestoreToken w token s =
     (if so_RestoreTokenPath (ps_opts s) = [] then s else s\<lparr>ps_file := pw_write w token\<rparr>)"

definition source_options :: "string \<Rightarrow> PortalSession \<Rightarrow> (string \<times> variant) list" where
  "source_options handleToken s =
     [(''handle_token'', VString handleToken), (''types'', VUint32 (so_SourceTypes (ps_opts s))),
      (''multiple'', VBool False), (''cursor_mode'', VUint32 (so_CursorMode (ps_opts s))),
      (''persist_mode'', VUint32 PersistModeUntilRevoked)] @
     (if loadRestoreToken s \<noteq> [] then [(''restore_token'', VString (loadRestoreToken s))] else [])"

definition selectSources :: "portal_world \<Rightarrow> unit portal" where
  "selectSources w =
     bind_io (randomToken w ''redvnc_req_'') (\<lambda>handleToken.
     bind_io get_state (\<lambda>s.
     bind_io (portalCall w ifaceScreenCast ''SelectSources'' (30 * second) handleToken
        [VObjectPath (ps_sessionHandle s), VDict (source_options handleToken s)]) (\<lambda>_.
     ret ())))"

text \<open>The streams of the answer; a size that is missing or does not decode stays 0.\<close>

definition stream_of :: "portal_world \<Rightarrow> u32 \<times> (string \<rightharpoonup> variant) \<Rightarrow> Stream" where
  "stream_of w r =
     (case snd r ''size'' of
        Some sz \<Rightarrow> (case pw_size w sz of (x, y) \<Rightarrow> \<lparr>st_NodeID = fst r, st_Width = x, st_Height = y\<rparr>)
      | None \<Rightarrow> \<lparr>st_NodeID = fst r, st_Width = 0, st_Height = 0\<rparr>)"

definition take_token :: "portal_world \<Rightarrow> (string \<rightharpoonup> variant) \<Rightarrow> PortalSession \<Rightarrow> PortalSession" where
  "take_token w results s =
     (case opt_string (results ''restore_token'') of
        Some rt \<Rightarrow> if rt \<noteq> [] then saveRestoreToken w rt (s\<lparr>ps_restoreToken := rt\<rparr>) else s
      | None \<Rightarrow> s)"

definition take_streams :: "portal_world \<Rightarrow> (string \<rightharpoonup> variant) \<Rightarrow> PortalSession \<Rightarrow> PortalSession" where
  "take_streams w results s =
     (case results ''streams'' of
        Some raw \<Rightarrow>
          (case pw_streams w raw of
             Some streams \<Rightarrow> s\<lparr>ps_streams := ps_streams s @ map (stream_of w) streams\<rparr>
           | None \<Rightarrow> s)
      | None \<Rightarrow> s)"

definition start :: "portal_world \<Rightarrow> unit portal" where
  "start w =
     bind_io (randomToken w ''redvnc_req_'') (\<lambda>handleToken.
     bind_io get_state (\<lambda>s.
     bind_io (portalCall w (session_iface s) ''Start'' (so_StartTimeout (ps_opts s)) handleToken
        [VObjectPath (ps_sessionHandle s), VString [], VDict [(''handle_token'', VString handleToken)]]) (\<lambda>results.
     bind_io (modify (take_token w results)) (\<lambda>_.
     modify (take_streams w results)))))"

definition close_call :: "PortalSession \<Rightarrow> dbus_call" where
  "close_call s = \<lparr>dc_object = ps_sessionHandle s, dc_method = ifaceSession @ ''.Close'', dc_args = []\<rparr>"

definition Session_Close :: "portal_world \<Rightarrow> PortalSession \<Rightarrow> PortalSession" where
  "Session_Close w s =
     (if ps_closed s then s
      else
        let s' = s\<lparr>ps_closed := True\<rparr> in
        if ps_sessionHandle s' \<noteq> [] then snd (Call w (close_call s') s') else s')"

section \<open>Opening a session\<close>

definition default_opts :: "SessionOpts \<Rightarrow> SessionOpts" where
  "default_opts o' =
     o'\<lparr>so_SourceTypes := (if so_SourceTypes o' = 0 then SourceTypeMonitor else so_SourceTypes o'),
       so_CursorMode := (if so_CursorMode o' = 0 then CursorModeEmbedded else so_CursorMode o'),
       so_Devices := (if so_Devices o' = 0 then DeviceKeyboard OR DevicePointer else so_Devices o'),
       so_StartTimeout := (if so_StartTimeout o' = 0 then 2 * 60 * second else so_StartTimeout o')\<rparr>"

definition newSession :: "SessionOpts \<Rightarrow> string \<Rightarrow> string option \<Rightarrow> PortalSession" where
  "newSession opts name file =
     \<lparr>ps_opts = opts, ps_senderToken = senderToken name, ps_sessionHandle = [], ps_resps = Map.empty, ps_chans = Map.empty,
      ps_made = 0, ps_stuck = False, ps_streams = [], ps_restoreToken = [], ps_closed = False, ps_calls = [],
      ps_rands = 0, ps_file = file\<rparr>"

definition session_steps :: "portal_world \<Rightarrow> SessionOpts \<Rightarrow> unit portal" where
  "session_steps w opts =
     bind_io (createSession w) (\<lambda>_.
     bind_io (if so_Input opts then selectDevices w else ret ()) (\<lambda>_.
     bind_io (if so_Capture opts then selectSources w else ret ()) (\<lambda>_.
     start w)))"

text \<open>
  \<^verbatim>\<open>New\<close>, with the file of the restore token as it is found. The second component is the session
  object, which the caller gets only on success; without a connection to the bus there is none.
\<close>

definition New :: "portal_world \<Rightarrow> SessionOpts \<Rightarrow> string option \<Rightarrow> unit res \<times> PortalSession option" where
  "New w opts0 file =
     (if \<not> so_Capture opts0 \<and> \<not> so_Input opts0
      then (Inl (Errorf ''portal session requires at least one of Capture or Input'' []), None)
      else
        let opts = default_opts opts0 in
        case pw_connect w of
          Inl e \<Rightarrow> (Inl (ErrorfW ''portal: connect to session bus: %w'' [] e), None)
        | Inr name \<Rightarrow>
            let s = newSession opts name file in
            case pw_match w of
              Inl e \<Rightarrow> (Inl (ErrorfW ''portal: AddMatchSignal: %w'' [] e), Some s)
            | Inr _ \<Rightarrow>
                (case session_steps w opts s of
                   (Inl e, s') \<Rightarrow> (Inl e, Some (Session_Close w s'))
                 | (Inr _, s') \<Rightarrow> (Inr (), Some s')))"

definition PipeWireNodeID :: "PortalSession \<Rightarrow> u32 \<times> bool" where
  "PipeWireNodeID s = (case ps_streams s of [] \<Rightarrow> (0, False) | st # _ \<Rightarrow> (st_NodeID st, True))"

text \<open>The descriptor is what the library decodes from the reply.\<close>

definition OpenPipeWireRemote :: "portal_world \<Rightarrow> (string \<Rightarrow> int res) \<Rightarrow> PortalSession \<Rightarrow> int res \<times> PortalSession" where
  "OpenPipeWireRemote w store_fd s =
     (let c = \<lparr>dc_object = objectPath, dc_method = ifaceScreenCast @ ''.OpenPipeWireRemote'',
                dc_args = [VObjectPath (ps_sessionHandle s), VDict []]\<rparr> in
      bind_io (wrap ''portal: OpenPipeWireRemote: %w'' (bind_io (Call w c) (\<lambda>r. lift_res (store_fd r)))) ret s)"

section \<open>Input\<close>

definition KeyStateReleased :: u32 where "KeyStateReleased = 0"
definition KeyStatePressed :: u32 where "KeyStatePressed = 1"
definition ButtonStateReleased :: u32 where "ButtonStateReleased = 0"
definition ButtonStatePressed :: u32 where "ButtonStatePressed = 1"
definition BtnLeft :: i32 where "BtnLeft = 0x110"
definition BtnRight :: i32 where "BtnRight = 0x111"
definition BtnMiddle :: i32 where "BtnMiddle = 0x112"
definition AxisVertical :: u32 where "AxisVertical = 1"

definition checkInputSession :: "unit portal" where
  "checkInputSession =
     bind_io get_state (\<lambda>s.
     if \<not> so_Input (ps_opts s) then fail (Errorf ''portal: input not enabled on this session'' [])
     else if ps_sessionHandle s = [] then fail (Errorf ''portal: session not started'' [])
     else ret ())"

definition notify_call :: "string \<Rightarrow> variant list \<Rightarrow> PortalSession \<Rightarrow> dbus_call" where
  "notify_call meth args s =
     \<lparr>dc_object = objectPath, dc_method = ifaceRemoteDesktop @ meth,
      dc_args = VObjectPath (ps_sessionHandle s) # VDict [] # args\<rparr>"

text \<open>The common shape of the five methods.\<close>

definition notify :: "portal_world \<Rightarrow> string \<Rightarrow> variant list \<Rightarrow> unit portal" where
  "notify w meth args =
     bind_io checkInputSession (\<lambda>_.
     bind_io get_state (\<lambda>s.
     bind_io (Call w (notify_call meth args s)) (\<lambda>_. ret ())))"

definition NotifyKeyboardKeycode :: "portal_world \<Rightarrow> i32 \<Rightarrow> u32 \<Rightarrow> unit portal" where
  "NotifyKeyboardKeycode w keycode state = notify w ''.NotifyKeyboardKeycode'' [VInt32 keycode, VUint32 state]"

definition NotifyKeyboardKeysym :: "portal_world \<Rightarrow> i32 \<Rightarrow> u32 \<Rightarrow> unit portal" where
  "NotifyKeyboardKeysym w keysym state = notify w ''.NotifyKeyboardKeysym'' [VInt32 keysym, VUint32 state]"

definition NotifyPointerMotionAbsolute :: "portal_world \<Rightarrow> u32 \<Rightarrow> rat \<Rightarrow> rat \<Rightarrow> unit portal" where
  "NotifyPointerMotionAbsolute w streamNodeID x y =
     notify w ''.NotifyPointerMotionAbsolute'' [VUint32 streamNodeID, VDouble x, VDouble y]"

definition NotifyPointerButton :: "portal_world \<Rightarrow> i32 \<Rightarrow> u32 \<Rightarrow> unit portal" where
  "NotifyPointerButton w button state = notify w ''.NotifyPointerButton'' [VInt32 button, VUint32 state]"

definition NotifyPointerAxisDiscrete :: "portal_world \<Rightarrow> u32 \<Rightarrow> i32 \<Rightarrow> unit portal" where
  "NotifyPointerAxisDiscrete w axis steps = notify w ''.NotifyPointerAxisDiscrete'' [VUint32 axis, VInt32 steps]"

section \<open>The registry of response channels\<close>

text \<open>
  Every registered channel was made, is empty and is registered under one path only, so the
  listener never blocks.
\<close>

definition reg_ok :: "PortalSession \<Rightarrow> bool" where
  "reg_ok s \<longleftrightarrow> \<not> ps_stuck s \<and> (\<forall>p q ch. ps_resps s p = Some ch \<longrightarrow> ps_resps s q = Some ch \<longrightarrow> p = q) \<and>
     (\<forall>p ch. ps_resps s p = Some ch \<longrightarrow> ch < ps_made s \<and> ps_chans s ch = None)"

text \<open>What requests and signals leave alone.\<close>

definition core :: "PortalSession \<Rightarrow> SessionOpts \<times> string \<times> string \<times> Stream list \<times> string \<times> bool \<times> nat \<times> string option" where
  "core s = (ps_opts s, ps_senderToken s, ps_sessionHandle s, ps_streams s, ps_restoreToken s, ps_closed s, ps_rands s, ps_file s)"

text \<open>The first response for a path.\<close>

definition first_response :: "string \<Rightarrow> dbus_signal list \<Rightarrow> responseSignal option" where
  "first_response p gs = map_option response_of (find (\<lambda>g. is_response g \<and> sg_path g = p) gs)"

lemma first_response_simps [simp]:
  "first_response p [] = None"
  "first_response p (g # gs) = (if is_response g \<and> sg_path g = p then Some (response_of g) else first_response p gs)"
  by (simp_all add: first_response_def)

lemma first_response_append:
  "first_response p (gs @ hs) = (case first_response p gs of None \<Rightarrow> first_response p hs | Some r \<Rightarrow> Some r)"
  by (induction gs) auto

lemma listen_frame [simp]:
  "core (listen g s) = core s" "ps_calls (listen g s) = ps_calls s" "ps_made (listen g s) = ps_made s"
  by (auto simp: listen_def core_def Let_def split: option.split)

lemma listen_fold_frame [simp]:
  "core (fold listen gs s) = core s" "ps_calls (fold listen gs s) = ps_calls s" "ps_made (fold listen gs s) = ps_made s"
  by (induction gs arbitrary: s) simp_all

lemma reg_ok_listen: "reg_ok s \<Longrightarrow> reg_ok (listen g s)"
  by (auto simp: listen_def reg_ok_def Let_def split: option.split)

lemma reg_ok_fold_listen: "reg_ok s \<Longrightarrow> reg_ok (fold listen gs s)"
  by (induction gs arbitrary: s) (simp_all add: reg_ok_listen)

lemma listen_resps: "ps_resps (listen g s) p \<in> {None, ps_resps s p}"
  by (simp add: listen_def Let_def split: option.split)

lemma fold_listen_resps: "ps_resps (fold listen gs s) p \<in> {None, ps_resps s p}"
proof (induction gs arbitrary: s)
  case (Cons g gs)
  have "ps_resps (fold listen gs (listen g s)) p \<in> {None, ps_resps (listen g s) p}" by (rule Cons)
  then show ?case using listen_resps [of g s p] by auto
qed simp

lemma fold_listen_dom: "dom (ps_resps (fold listen gs s)) \<subseteq> dom (ps_resps s)"
proof
  fix p
  assume "p \<in> dom (ps_resps (fold listen gs s))"
  then show "p \<in> dom (ps_resps s)" using fold_listen_resps [of gs s p] by (auto simp: dom_def)
qed

lemma calls_frame [simp]:
  "reg_ok (s\<lparr>ps_calls := c\<rparr>) = reg_ok s" "core (s\<lparr>ps_calls := c\<rparr>) = core s"
  by (simp_all add: reg_ok_def core_def)

text \<open>A registered channel gets the first response for its path, another one nothing.\<close>

lemma listen_registered:
  assumes "reg_ok s" and "ps_resps s p = Some ch"
  shows "if is_response g \<and> sg_path g = p
    then ps_resps (listen g s) p = None \<and> ps_chans (listen g s) ch = Some (response_of g)
    else ps_resps (listen g s) p = Some ch \<and> ps_chans (listen g s) ch = None"
  using assms by (auto simp: listen_def reg_ok_def Let_def split: option.split)

lemma listen_unregistered:
  assumes "ch \<notin> ran (ps_resps s)"
  shows "ps_chans (listen g s) ch = ps_chans s ch \<and> ch \<notin> ran (ps_resps (listen g s))"
  using assms by (auto simp: listen_def Let_def ran_def split: option.split if_splits)

lemma fold_listen_unregistered:
  "ch \<notin> ran (ps_resps s) \<Longrightarrow> ps_chans (fold listen gs s) ch = ps_chans s ch \<and> ch \<notin> ran (ps_resps (fold listen gs s))"
proof (induction gs arbitrary: s)
  case (Cons g gs)
  then show ?case using listen_unregistered [of ch s g] by simp
qed simp

lemma not_ran_after:
  assumes "reg_ok s" and "ps_resps s p = Some ch" and "ps_resps (listen g s) p = None"
  shows "ch \<notin> ran (ps_resps (listen g s))"
proof
  assume "ch \<in> ran (ps_resps (listen g s))"
  then obtain q where "ps_resps (listen g s) q = Some ch" by (auto simp: ran_def)
  moreover from this have "ps_resps s q = Some ch" using listen_resps [of g s q] by auto
  ultimately have "q = p" using assms by (auto simp: reg_ok_def)
  then show False using assms(3) \<open>ps_resps (listen g s) q = Some ch\<close> by simp
qed

lemma fold_listen_registered:
  assumes "reg_ok s" and "ps_resps s p = Some ch"
  shows "ps_chans (fold listen gs s) ch = first_response p gs \<and>
    ps_resps (fold listen gs s) p = (if first_response p gs = None then Some ch else None)"
  using assms
proof (induction gs arbitrary: s)
  case Nil
  then show ?case by (simp add: reg_ok_def)
next
  case (Cons g gs)
  note l = listen_registered [OF Cons.prems, of g]
  show ?case
  proof (cases "is_response g \<and> sg_path g = p")
    case True
    then have "ch \<notin> ran (ps_resps (listen g s))" using l not_ran_after [OF Cons.prems] by simp
    then show ?thesis using True l fold_listen_unregistered [of ch "listen g s" gs] fold_listen_resps [of gs "listen g s" p]
      by simp
  next
    case False
    then show ?thesis using l Cons.IH [OF reg_ok_listen [OF Cons.prems(1)]] by auto
  qed
qed

text \<open>Registering a new channel.\<close>

lemma expectResponse_value:
  "expectResponse path s = (Inr (ps_made s), register path (ps_made s)
     (s\<lparr>ps_chans := (ps_chans s)(ps_made s := None), ps_made := ps_made s + 1\<rparr>))"
  by (simp add: expectResponse_def make_chan_def bind_io_def modify_def ret_def)

lemma expectResponse_ok:
  assumes "reg_ok s" and "expectResponse path s = (Inr ch, s')"
  shows "reg_ok s' \<and> ps_resps s' = (ps_resps s)(path \<mapsto> ch) \<and> core s' = core s \<and> ps_calls s' = ps_calls s"
  using assms
  by (fastforce simp: expectResponse_value register_def reg_ok_def core_def split: if_splits)

lemma reg_ok_unregister: "reg_ok s \<Longrightarrow> reg_ok (unregister p s)"
  by (auto simp: reg_ok_def unregister_def)

lemma unregister_frame [simp]:
  "core (unregister p s) = core s" "ps_calls (unregister p s) = ps_calls s"
  "ps_resps (unregister p s) = (ps_resps s)(p := None)"
  by (simp_all add: unregister_def core_def)


section \<open>A request\<close>

text \<open>What a request returns, given the answer of the portal.\<close>

definition request_result :: "string \<Rightarrow> int \<Rightarrow> string \<Rightarrow> outcome \<Rightarrow> (string \<rightharpoonup> variant) res" where
  "request_result meth timeout expected o' =
     (case oc_reply o' of
        Inl e \<Rightarrow> Inl (wrap_err (''portal: '' @ meth @ '': %w'') [] e)
      | Inr actual \<Rightarrow>
          (case first_response actual (if actual = expected then oc_early o' @ oc_late o' else oc_late o') of
             None \<Rightarrow> Inl (Errorf (''portal: '' @ meth @ '' timed out after %s'') [if timeout \<le> 0 then 30 * second else timeout])
           | Some r \<Rightarrow>
               if rs_code r = 0 then Inr (rs_results r)
               else Inl (Errorf (''portal: '' @ meth @ '' response code %d'') [uint (rs_code r)])))"

text \<open>The registration a request leaves behind: that of a path it did not expect, unanswered.\<close>

definition left_over :: "string \<Rightarrow> outcome \<Rightarrow> string set" where
  "left_over expected o' =
     (case oc_reply o' of
        Inl e \<Rightarrow> {}
      | Inr actual \<Rightarrow> if actual \<noteq> expected \<and> first_response actual (oc_late o') = None then {actual} else {})"

lemma reg_ok_clear: "reg_ok s \<Longrightarrow> reg_ok (s\<lparr>ps_chans := (ps_chans s)(ch := None)\<rparr>)"
  by (auto simp: reg_ok_def)

lemma wait_response_ok:
  assumes "reg_ok s" and "ps_resps s p = Some ch" and "wait_response o' ch s = (r, s')"
  shows "r = Inr (first_response p (oc_late o')) \<and> reg_ok s' \<and> core s' = core s \<and> ps_calls s' = ps_calls s \<and>
    ps_resps s' p = (if first_response p (oc_late o') = None then Some ch else None) \<and>
    dom (ps_resps s') \<subseteq> dom (ps_resps s)"
proof -
  let ?t = "fold listen (oc_late o') s"
  have "reg_ok (?t\<lparr>ps_chans := (ps_chans ?t)(ch := None)\<rparr>)" using reg_ok_clear reg_ok_fold_listen assms(1) by blast
  moreover have "dom (ps_resps ?t) \<subseteq> dom (ps_resps s)" by (rule fold_listen_dom)
  moreover have "core (?t\<lparr>ps_chans := (ps_chans ?t)(ch := None)\<rparr>) = core ?t" by (simp add: core_def)
  ultimately show ?thesis using assms(3) fold_listen_registered [OF assms(1,2), of "oc_late o'"]
    by (clarsimp simp: wait_response_def Let_def)
qed

text \<open>Signals handled before the reply and signals handled after it are one sequence to a channel.\<close>

lemma wait_response_early:
  assumes "reg_ok s" and "ps_resps s p = Some ch" and "wait_response o' ch (fold listen gs s) = (r, s')"
  shows "r = Inr (first_response p (gs @ oc_late o')) \<and> reg_ok s' \<and> core s' = core s \<and> ps_calls s' = ps_calls s \<and>
    dom (ps_resps s') \<subseteq> dom (ps_resps s)"
proof -
  have "wait_response (o'\<lparr>oc_late := gs @ oc_late o'\<rparr>) ch s = (r, s')"
    using assms(3) by (simp add: wait_response_def)
  from wait_response_ok [OF assms(1,2) this] show ?thesis by simp
qed

lemma portalCall_spec:
  fixes w :: portal_world and iface meth handleToken :: string and timeout :: int and args :: "variant list" and s :: PortalSession
  assumes "reg_ok s"
  defines "expected \<equiv> requestPath handleToken s"
    and "call \<equiv> \<lparr>dc_object = objectPath, dc_method = iface @ ''.'' @ meth, dc_args = args\<rparr>"
  defines "o' \<equiv> pw_bus w (ps_calls s) call"
  obtains s' where "portalCall w iface meth timeout handleToken args s = (request_result meth timeout expected o', s')"
    and "reg_ok s'" and "core s' = core s" and "ps_calls s' = ps_calls s @ [call]"
    and "dom (ps_resps s') \<subseteq> dom (ps_resps s) \<union> left_over expected o'" and "left_over expected o' \<subseteq> dom (ps_resps s')"
proof -
  obtain s1 where e1: "expectResponse expected s = (Inr (ps_made s), s1)" by (simp add: expectResponse_value)
  note ok1 = expectResponse_ok [OF assms(1) e1]
  define s2 where "s2 = s1\<lparr>ps_calls := ps_calls s1 @ [call]\<rparr>"
  have ok2: "reg_ok s2" "ps_resps s2 expected = Some (ps_made s)" "core s2 = core s" "ps_calls s2 = ps_calls s @ [call]"
    "dom (ps_resps s2) = insert expected (dom (ps_resps s))"
    using ok1 by (simp_all add: s2_def)
  have call: "Call w call s1 = (oc_reply o', fold listen (oc_early o') s2)"
    using ok1 by (simp add: Call_def o'_def s2_def Let_def)
  have pc: "portalCall w iface meth timeout handleToken args s =
      (case make_request w meth timeout expected call o' (ps_made s) s1 of (r, s') \<Rightarrow> (r, unregister expected s'))"
    by (simp add: portalCall_def expected_def [symmetric] call_def [symmetric, simplified] o'_def [symmetric] bind_io_def e1
        deferred_def Let_def)
  note unfolded = pc make_request_def bind_io_def wrap_def call ret_def fail_def modify_def
  show thesis
  proof (cases "oc_reply o'")
    case (Inl e)
    let ?s' = "unregister expected (fold listen (oc_early o') s2)"
    have "dom (ps_resps ?s') \<subseteq> dom (ps_resps s)"
      using fold_listen_dom [of "oc_early o'" s2] ok2(5) by auto
    then show ?thesis
      by (intro that [of ?s']) (use Inl ok2 in \<open>auto simp: unfolded request_result_def left_over_def intro: reg_ok_unregister reg_ok_fold_listen\<close>)
  next
    case (Inr actual)
    show ?thesis
    proof (cases "actual = expected")
      case True
      obtain r s3 where w: "wait_response o' (ps_made s) (fold listen (oc_early o') s2) = (r, s3)" by fastforce
      note ok3 = wait_response_early [OF ok2(1,2) w]
      show ?thesis
        by (rule that [of "unregister expected s3"])
          (use Inr True w ok3 ok2 in \<open>auto simp: unfolded request_result_def left_over_def intro: reg_ok_unregister split: option.splits\<close>)
    next
      case False
      define u where "u = unregister expected (fold listen (oc_early o') s2)"
      have u: "reg_ok u" "core u = core s" "ps_calls u = ps_calls s @ [call]" "dom (ps_resps u) \<subseteq> dom (ps_resps s)"
        using ok2 fold_listen_dom [of "oc_early o'" s2] by (auto simp: u_def intro: reg_ok_unregister reg_ok_fold_listen)
      obtain ch s3 where e3: "expectResponse actual u = (Inr ch, s3)" by (simp add: expectResponse_value)
      note ok3 = expectResponse_ok [OF u(1) e3]
      obtain r s4 where w: "wait_response o' ch s3 = (r, s4)" by fastforce
      have "ps_resps s3 actual = Some ch" using ok3 by simp
      note ok4 = wait_response_ok [OF _ this w]
      have "dom (ps_resps (unregister expected s4)) \<subseteq> dom (ps_resps s) \<union> left_over expected o'"
      proof -
        have "dom (ps_resps s4) \<subseteq> insert actual (dom (ps_resps s))" using ok3 ok4 u(4) by simp blast
        moreover have "actual \<notin> dom (ps_resps s4)" if "first_response actual (oc_late o') \<noteq> None"
          using ok3 ok4 that by (simp add: domIff)
        ultimately have "dom (ps_resps s4) \<subseteq> dom (ps_resps s) \<union> left_over expected o'"
          using Inr False by (cases "first_response actual (oc_late o') = None") (simp_all add: left_over_def, blast?)
        then show ?thesis by auto
      qed
      moreover have "left_over expected o' \<subseteq> dom (ps_resps (unregister expected s4))"
        using ok3 ok4 Inr False by (auto simp: left_over_def)
      ultimately show ?thesis
        by (intro that [of "unregister expected s4"])
          (use Inr False w ok3 ok4 u e3 in \<open>auto simp del: unregister_frame(3) simp: unfolded u_def [symmetric] request_result_def
             intro: reg_ok_unregister split: option.splits\<close>)
    qed
  qed
qed


text \<open>The registrations of other requests while this one runs: each still gets the first response for its own path.\<close>

definition handled :: "outcome \<Rightarrow> dbus_signal list" where
  "handled o' = oc_early o' @ (case oc_reply o' of Inl e \<Rightarrow> [] | Inr actual \<Rightarrow> oc_late o')"

lemma not_ran_fold:
  assumes "reg_ok s" and "ps_resps s p = Some ch" and "ps_resps (fold listen gs s) p = None"
  shows "ch \<notin> ran (ps_resps (fold listen gs s))"
proof
  assume "ch \<in> ran (ps_resps (fold listen gs s))"
  then obtain q where q: "ps_resps (fold listen gs s) q = Some ch" by (auto simp: ran_def)
  moreover from this have "ps_resps s q = Some ch" using fold_listen_resps [of gs s q] by auto
  ultimately have "q = p" using assms by (auto simp: reg_ok_def)
  then show False using assms(3) q by simp
qed

text \<open>A new registration under another path, made between two runs of the listener, does not matter to it.\<close>

lemma fold_listen_across:
  assumes "reg_ok s" and "ps_resps s q = Some ch" and "expected \<noteq> q" and "actual \<noteq> q"
    and "expectResponse actual (unregister expected (fold listen gs s)) = (Inr new, t)"
  shows "ps_chans (fold listen hs t) ch = first_response q (gs @ hs) \<and>
    ps_resps (fold listen hs t) q = (if first_response q (gs @ hs) = None then Some ch else None) \<and> ch < new"
proof -
  define u where "u = unregister expected (fold listen gs s)"
  note early = fold_listen_registered [OF assms(1,2), of gs]
  have u: "reg_ok u" "ps_chans u ch = first_response q gs" "ps_resps u q = (if first_response q gs = None then Some ch else None)"
    using assms(1,3) early by (auto simp: u_def unregister_def intro: reg_ok_fold_listen reg_ok_unregister [unfolded unregister_def])
  have ch: "ch < ps_made s" "ps_made u = ps_made s" using assms(1,2) by (auto simp: reg_ok_def u_def unregister_def)
  have t: "t = register actual (ps_made s) (u\<lparr>ps_chans := (ps_chans u)(ps_made s := None), ps_made := ps_made s + 1\<rparr>)" and new: "new = ps_made s"
    using assms(5) ch(2) by (auto simp: expectResponse_value u_def [symmetric])
  have ok: "reg_ok t" using expectResponse_ok [OF u(1)] assms(5) by (simp add: u_def)
  show ?thesis
  proof (cases "first_response q gs")
    case None
    then have "ps_resps t q = Some ch" using u(3) assms(4) by (simp add: t register_def)
    then show ?thesis using fold_listen_registered [OF ok, of q ch hs] None ch new by (simp add: first_response_append)
  next
    case (Some r)
    have "ch \<notin> ran (ps_resps (fold listen gs s))" using not_ran_fold [OF assms(1,2)] early Some by simp
    then have "ch \<notin> ran (ps_resps u)" by (auto simp: u_def unregister_def ran_def)
    then have "ch \<notin> ran (ps_resps t)" using ch by (auto simp: t register_def ran_def split: if_splits)
    moreover have "ps_chans t ch = Some r" using u(2) Some ch by (simp add: t register_def)
    moreover have "ps_resps t q = None" using u(3) Some assms(4) by (simp add: t register_def)
    ultimately show ?thesis using fold_listen_unregistered [of ch t hs] fold_listen_resps [of hs t q] Some ch new by (simp add: first_response_append)
  qed
qed

lemma portalCall_others:
  fixes w :: portal_world and iface meth handleToken :: string and timeout :: int and args :: "variant list" and s :: PortalSession
  assumes "reg_ok s"
  defines "expected \<equiv> requestPath handleToken s"
    and "call \<equiv> \<lparr>dc_object = objectPath, dc_method = iface @ ''.'' @ meth, dc_args = args\<rparr>"
  defines "o' \<equiv> pw_bus w (ps_calls s) call"
  assumes "portalCall w iface meth timeout handleToken args s = (r, s')" and "q \<noteq> expected" and "oc_reply o' \<noteq> Inr q" and "ps_resps s q = Some ch"
  shows "ps_chans s' ch = first_response q (handled o') \<and>
    ps_resps s' q = (if first_response q (handled o') = None then Some ch else None)"
proof -
  obtain s1 where e1: "expectResponse expected s = (Inr (ps_made s), s1)" by (simp add: expectResponse_value)
  note ok1 = expectResponse_ok [OF assms(1) e1]
  define s2 where "s2 = s1\<lparr>ps_calls := ps_calls s1 @ [call]\<rparr>"
  have ok2: "reg_ok s2" "ps_resps s2 q = Some ch" using ok1 assms(6,8) by (simp_all add: s2_def)
  have lt: "ch < ps_made s" using assms(1,8) by (auto simp: reg_ok_def)
  have call: "Call w call s1 = (oc_reply o', fold listen (oc_early o') s2)"
    using ok1 by (simp add: Call_def o'_def s2_def Let_def)
  have pc: "portalCall w iface meth timeout handleToken args s =
      (case make_request w meth timeout expected call o' (ps_made s) s1 of (r, s') \<Rightarrow> (r, unregister expected s'))"
    by (simp add: portalCall_def expected_def [symmetric] call_def [symmetric, simplified] o'_def [symmetric] bind_io_def e1
        deferred_def Let_def)
  note unfolded = pc make_request_def bind_io_def wrap_def call ret_def fail_def modify_def
  show ?thesis
  proof (cases "oc_reply o'")
    case (Inl e)
    then have "s' = unregister expected (fold listen (oc_early o') s2)" using assms(5) by (simp add: unfolded)
    then show ?thesis using fold_listen_registered [OF ok2, of "oc_early o'"] assms(6) Inl by (simp add: unregister_def handled_def)
  next
    case (Inr actual)
    show ?thesis
    proof (cases "actual = expected")
      case True
      let ?t = "fold listen (oc_late o') (fold listen (oc_early o') s2)"
      have "s' = unregister expected (?t\<lparr>ps_chans := (ps_chans ?t)(ps_made s := None)\<rparr>)"
        using assms(5) Inr True by (auto simp: unfolded wait_response_def Let_def split: option.splits if_splits)
      then show ?thesis using fold_listen_registered [OF ok2, of "oc_early o' @ oc_late o'"] assms(6) Inr lt by (simp add: unregister_def handled_def)
    next
      case False
      obtain new t where t: "expectResponse actual (unregister expected (fold listen (oc_early o') s2)) = (Inr new, t)"
        by (simp add: expectResponse_value)
      let ?t = "fold listen (oc_late o') t"
      have s': "s' = unregister expected (?t\<lparr>ps_chans := (ps_chans ?t)(new := None)\<rparr>)"
        using assms(5) Inr False t by (auto simp: unfolded wait_response_def Let_def split: option.splits if_splits)
      have "actual \<noteq> q" using assms(7) Inr by simp
      from fold_listen_across [OF ok2 assms(6) [symmetric] this t, of "oc_late o'"] show ?thesis
        using assms(6) Inr by (simp add: s' unregister_def handled_def)
    qed
  qed
qed

text \<open>
  C16: A request of the portal returns what the portal answers, although replies and signals race. \<^verbatim>\<open>portalCall\<close> returns the first response
  signal for the path of the reply: when that path is the expected one, wherever the signal comes, before or after the reply; when it is another one, the first that
  comes after the reply (an earlier one is lost, although the comment in the code says otherwise). A code other
  than 0, a failed call and the absence of such a response within the time limit are errors. The
  listener never blocks. The registration of every other request keeps its channel: this channel gets exactly the first response for its own
  path among the signals of both phases, and the registration ends exactly when that has come. No path is registered afterwards that was not before, but for an
  unexpected path of the reply that stays without an answer.
\<close>

theorem portalCall_routes:
  assumes "reg_ok s"
  shows "let expected = requestPath handleToken s;
             call = \<lparr>dc_object = objectPath, dc_method = iface @ ''.'' @ meth, dc_args = args\<rparr>;
             answer = pw_bus w (ps_calls s) call;
             (r, s') = portalCall w iface meth timeout handleToken args s
         in r = request_result meth timeout expected answer \<and> \<not> ps_stuck s' \<and> ps_calls s' = ps_calls s @ [call] \<and>
            (\<forall>q ch. q \<noteq> expected \<and> oc_reply answer \<noteq> Inr q \<and> ps_resps s q = Some ch \<longrightarrow>
              ps_chans s' ch = first_response q (handled answer) \<and>
              ps_resps s' q = (if first_response q (handled answer) = None then Some ch else None)) \<and>
            dom (ps_resps s') \<subseteq> dom (ps_resps s) \<union> left_over expected answer \<and> left_over expected answer \<subseteq> dom (ps_resps s')"
proof -
  define call where "call = \<lparr>dc_object = objectPath, dc_method = iface @ ''.'' @ meth, dc_args = args\<rparr>"
  obtain s' where s': "portalCall w iface meth timeout handleToken args s =
      (request_result meth timeout (requestPath handleToken s) (pw_bus w (ps_calls s) call), s')" "reg_ok s'" "ps_calls s' = ps_calls s @ [call]"
    "dom (ps_resps s') \<subseteq> dom (ps_resps s) \<union> left_over (requestPath handleToken s) (pw_bus w (ps_calls s) call)"
    "left_over (requestPath handleToken s) (pw_bus w (ps_calls s) call) \<subseteq> dom (ps_resps s')"
    by (rule portalCall_spec [OF assms, where w = w and iface = iface and meth = meth and timeout = timeout
      and handleToken = handleToken and args = args, folded call_def])
  have "\<not> ps_stuck s'" using s'(2) by (simp add: reg_ok_def)
  moreover have "\<forall>q ch. q \<noteq> requestPath handleToken s \<and> oc_reply (pw_bus w (ps_calls s) call) \<noteq> Inr q \<and> ps_resps s q = Some ch \<longrightarrow>
      ps_chans s' ch = first_response q (handled (pw_bus w (ps_calls s) call)) \<and>
      ps_resps s' q = (if first_response q (handled (pw_bus w (ps_calls s) call)) = None then Some ch else None)"
    using portalCall_others [OF assms s'(1), folded call_def] by blast
  ultimately show ?thesis unfolding Let_def call_def [symmetric] s'(1) prod.case using s'(3-5) by blast
qed

section \<open>The protocol of a session\<close>

definition protocol_methods :: "SessionOpts \<Rightarrow> string list" where
  "protocol_methods opts =
     (let iface = if so_Input opts then ifaceRemoteDesktop else ifaceScreenCast in
      [iface @ ''.CreateSession''] @
      (if so_Input opts then [ifaceRemoteDesktop @ ''.SelectDevices''] else []) @
      (if so_Capture opts then [ifaceScreenCast @ ''.SelectSources''] else []) @
      [iface @ ''.Start''])"

text \<open>
  A call on the session \<open>h\<close>; the selection of the sources hands over the token found in the file.
\<close>

definition stored_token :: "SessionOpts \<Rightarrow> string option \<Rightarrow> string" where
  "stored_token opts file =
     (if so_RestoreTokenPath opts = [] then [] else case file of None \<Rightarrow> [] | Some data \<Rightarrow> TrimSpace data)"

definition call_ok :: "SessionOpts \<Rightarrow> string \<Rightarrow> string option \<Rightarrow> dbus_call \<Rightarrow> bool" where
  "call_ok opts h file c \<longleftrightarrow> hd (dc_args c) = VObjectPath h \<and>
     (dc_method c = ifaceScreenCast @ ''.SelectSources'' \<longrightarrow>
        (\<exists>d. dc_args c = [VObjectPath h, VDict d] \<and>
           map_of d ''restore_token'' = (if stored_token opts file = [] then None else Some (VString (stored_token opts file)))))"

text \<open>
  A program that makes the calls \<open>ms\<close> on the session \<open>h\<close>, in order, or fails in one of them. It
  may use what it knows of the options and of the file.
\<close>

definition performs :: "SessionOpts \<Rightarrow> string \<Rightarrow> string option \<Rightarrow> bool \<Rightarrow> string list \<Rightarrow> unit portal \<Rightarrow> bool" where
  "performs opts h file keep ms m \<longleftrightarrow>
     (\<forall>s. reg_ok s \<and> ps_opts s = opts \<and> ps_sessionHandle s = h \<and> ps_file s = file \<longrightarrow>
        (\<exists>r s' cs. m s = (r, s') \<and> reg_ok s' \<and> ps_opts s' = opts \<and> ps_sessionHandle s' = h \<and> ps_closed s' = ps_closed s \<and> (keep \<longrightarrow> ps_file s' = file) \<and>
           ps_calls s' = ps_calls s @ cs \<and> (\<forall>c \<in> set cs. call_ok opts h file c) \<and>
           (case r of Inr _ \<Rightarrow> map dc_method cs = ms
            | Inl _ \<Rightarrow> \<exists>n. 0 < n \<and> n \<le> length ms \<and> map dc_method cs = take n ms)))"

lemma performs_ret: "performs opts h file keep [] (ret ())"
  by (auto simp: performs_def ret_def)

lemma performs_bind:
  assumes "performs opts h file True ms m" and "performs opts h file keep ns k"
  shows "performs opts h file keep (ms @ ns) (bind_io m (\<lambda>_. k))"
  unfolding performs_def
proof (intro allI impI)
  fix s
  assume s: "reg_ok s \<and> ps_opts s = opts \<and> ps_sessionHandle s = h \<and> ps_file s = file"
  then obtain r s1 cs where m: "m s = (r, s1)" "reg_ok s1" "ps_opts s1 = opts" "ps_sessionHandle s1 = h"
      "ps_closed s1 = ps_closed s" "ps_file s1 = file" "ps_calls s1 = ps_calls s @ cs" "\<forall>c \<in> set cs. call_ok opts h file c"
      "case r of Inr _ \<Rightarrow> map dc_method cs = ms | Inl _ \<Rightarrow> \<exists>n. 0 < n \<and> n \<le> length ms \<and> map dc_method cs = take n ms"
    using assms(1) unfolding performs_def by blast
  show "\<exists>r s' cs. bind_io m (\<lambda>_. k) s = (r, s') \<and> reg_ok s' \<and> ps_opts s' = opts \<and> ps_sessionHandle s' = h \<and>
      ps_closed s' = ps_closed s \<and> (keep \<longrightarrow> ps_file s' = file) \<and> ps_calls s' = ps_calls s @ cs \<and> (\<forall>c \<in> set cs. call_ok opts h file c) \<and>
      (case r of Inr _ \<Rightarrow> map dc_method cs = ms @ ns
       | Inl _ \<Rightarrow> \<exists>n. 0 < n \<and> n \<le> length (ms @ ns) \<and> map dc_method cs = take n (ms @ ns))"
  proof (cases r)
    case (Inl e)
    then have "\<exists>n. 0 < n \<and> n \<le> length (ms @ ns) \<and> map dc_method cs = take n (ms @ ns)" using m(9) by fastforce
    then show ?thesis using m Inl by (auto simp: bind_io_def)
  next
    case (Inr u)
    obtain r' s2 ds where k: "k s1 = (r', s2)" "reg_ok s2" "ps_opts s2 = opts" "ps_sessionHandle s2 = h"
        "ps_closed s2 = ps_closed s1" "keep \<longrightarrow> ps_file s2 = file" "ps_calls s2 = ps_calls s1 @ ds" "\<forall>c \<in> set ds. call_ok opts h file c"
        "case r' of Inr _ \<Rightarrow> map dc_method ds = ns | Inl _ \<Rightarrow> \<exists>n. 0 < n \<and> n \<le> length ns \<and> map dc_method ds = take n ns"
      using assms(2) m(2-4,6) unfolding performs_def by blast
    have "case r' of Inr _ \<Rightarrow> map dc_method (cs @ ds) = ms @ ns
        | Inl _ \<Rightarrow> \<exists>n. 0 < n \<and> n \<le> length (ms @ ns) \<and> map dc_method (cs @ ds) = take n (ms @ ns)"
    proof (cases r')
      case (Inl e)
      then obtain n where "0 < n" "n \<le> length ns" "map dc_method ds = take n ns" using k(9) by auto
      then show ?thesis using Inl m(9) Inr by (auto intro!: exI [of _ "length ms + n"])
    qed (use k(9) m(9) Inr in auto)
    then show ?thesis using m k Inr by (intro exI [of _ r'] exI [of _ s2] exI [of _ "cs @ ds"]) (auto simp: bind_io_def)
  qed
qed

lemma core_fields:
  "core s' = core s \<Longrightarrow> ps_opts s' = ps_opts s \<and> ps_sessionHandle s' = ps_sessionHandle s \<and> ps_closed s' = ps_closed s \<and>
     ps_senderToken s' = ps_senderToken s \<and> ps_file s' = ps_file s"
  by (simp add: core_def)

lemma randomToken_ok:
  "reg_ok s \<Longrightarrow> \<exists>t s'. randomToken w p s = (Inr t, s') \<and> reg_ok s' \<and> ps_opts s' = ps_opts s \<and>
     ps_sessionHandle s' = ps_sessionHandle s \<and> ps_closed s' = ps_closed s \<and> ps_calls s' = ps_calls s \<and> ps_file s' = ps_file s \<and>
     ps_senderToken s' = ps_senderToken s"
  by (simp add: randomToken_def reg_ok_def)

text \<open>A step of the protocol: a token, a request on the session, and changes to neither of them.\<close>

lemma performs_request:
  assumes "\<And>t s. ps_opts s = opts \<Longrightarrow> ps_sessionHandle s = h \<Longrightarrow> ps_file s = file \<Longrightarrow>
      iface s @ ''.'' @ meth = name \<and> call_ok opts h file \<lparr>dc_object = objectPath, dc_method = name, dc_args = args t s\<rparr>"
    and "\<And>x s. reg_ok (f x s) = reg_ok s \<and> ps_opts (f x s) = ps_opts s \<and> ps_sessionHandle (f x s) = ps_sessionHandle s \<and>
      ps_closed (f x s) = ps_closed s \<and> ps_calls (f x s) = ps_calls s \<and> (keep \<longrightarrow> ps_file (f x s) = ps_file s)"
  shows "performs opts h file keep [name]
    (bind_io (randomToken w p) (\<lambda>t.
     bind_io get_state (\<lambda>s.
     bind_io (portalCall w (iface s) meth (timeout s) t (args t s)) (\<lambda>x. modify (f x)))))"
  unfolding performs_def
proof (intro allI impI)
  fix s
  assume s: "reg_ok s \<and> ps_opts s = opts \<and> ps_sessionHandle s = h \<and> ps_file s = file"
  then obtain t s1 where t: "randomToken w p s = (Inr t, s1)" and ok: "reg_ok s1"
    and same: "ps_opts s1 = opts" "ps_sessionHandle s1 = h" "ps_closed s1 = ps_closed s" "ps_calls s1 = ps_calls s" "ps_file s1 = file"
    using randomToken_ok [of s w p] by auto
  let ?c = "\<lparr>dc_object = objectPath, dc_method = iface s1 @ ''.'' @ meth, dc_args = args t s1\<rparr>"
  obtain r s2 where pc: "portalCall w (iface s1) meth (timeout s1) t (args t s1) s1 = (r, s2)"
    and s2: "reg_ok s2" "core s2 = core s1" "ps_calls s2 = ps_calls s1 @ [?c]"
    by (rule portalCall_spec [OF ok, where w = w and iface = "iface s1" and meth = meth
        and timeout = "timeout s1" and handleToken = t and args = "args t s1"]) (auto simp: fun_eq_iff)
  note f = core_fields [OF s2(2)]
  show "\<exists>r s' cs. bind_io (randomToken w p) (\<lambda>t. bind_io get_state (\<lambda>s.
        bind_io (portalCall w (iface s) meth (timeout s) t (args t s)) (\<lambda>x. modify (f x)))) s = (r, s') \<and>
      reg_ok s' \<and> ps_opts s' = opts \<and> ps_sessionHandle s' = h \<and> ps_closed s' = ps_closed s \<and> (keep \<longrightarrow> ps_file s' = file) \<and>
      ps_calls s' = ps_calls s @ cs \<and> (\<forall>c \<in> set cs. call_ok opts h file c) \<and>
      (case r of Inr _ \<Rightarrow> map dc_method cs = [name]
       | Inl _ \<Rightarrow> \<exists>n. 0 < n \<and> n \<le> length [name] \<and> map dc_method cs = take n [name])"
  proof (cases r)
    case (Inl e)
    show ?thesis
      by (rule exI [of _ "Inl e"], rule exI [of _ s2], rule exI [of _ "[?c]"])
        (use Inl t pc s2 f same assms(1) [OF same(1,2,5), of t] in \<open>auto simp: bind_io_def get_state_def intro!: exI [of _ 1]\<close>)
  next
    case (Inr x)
    show ?thesis
      by (rule exI [of _ "Inr ()"], rule exI [of _ "f x s2"], rule exI [of _ "[?c]"])
        (use Inr t pc s2 f same assms(1) [OF same(1,2,5), of t] assms(2) in \<open>auto simp: bind_io_def get_state_def modify_def\<close>)
  qed
qed

lemma ret_modify: "ret () = modify (\<lambda>s. s)"
  by (rule ext) (simp add: conn_simps)

lemma modify_modify: "bind_io (modify f) (\<lambda>_. modify g) = modify (\<lambda>s. g (f s))"
  by (rule ext) (simp add: bind_io_def modify_def)

lemma performs_selectDevices: "performs opts h file True [ifaceRemoteDesktop @ ''.SelectDevices''] (selectDevices w)"
  unfolding selectDevices_def ret_modify
  by (rule performs_request) (auto simp: call_ok_def ifaceRemoteDesktop_def ifaceScreenCast_def)

lemma performs_selectSources: "performs opts h file True [ifaceScreenCast @ ''.SelectSources''] (selectSources w)"
  unfolding selectSources_def ret_modify
  by (rule performs_request) (auto simp: call_ok_def source_options_def loadRestoreToken_def stored_token_def)

lemma take_results_frame:
  "reg_ok (take_streams w x (take_token w x s)) = reg_ok s \<and> ps_opts (take_streams w x (take_token w x s)) = ps_opts s \<and>
   ps_sessionHandle (take_streams w x (take_token w x s)) = ps_sessionHandle s \<and>
   ps_closed (take_streams w x (take_token w x s)) = ps_closed s \<and> ps_calls (take_streams w x (take_token w x s)) = ps_calls s"
  by (simp add: take_streams_def take_token_def saveRestoreToken_def reg_ok_def split: option.split)

lemma performs_start:
  "performs opts h file False [(if so_Input opts then ifaceRemoteDesktop else ifaceScreenCast) @ ''.Start''] (start w)"
  unfolding start_def modify_modify
  by (rule performs_request)
    (simp_all add: call_ok_def ifaceRemoteDesktop_def ifaceScreenCast_def session_iface_def take_results_frame)

lemma performs_rest:
  "performs opts h file False (tl (protocol_methods opts))
    (bind_io (if so_Input opts then selectDevices w else ret ()) (\<lambda>_.
     bind_io (if so_Capture opts then selectSources w else ret ()) (\<lambda>_. start w)))"
proof -
  have "performs opts h file False
      ((if so_Input opts then [ifaceRemoteDesktop @ ''.SelectDevices''] else []) @
       (if so_Capture opts then [ifaceScreenCast @ ''.SelectSources''] else []) @
       [(if so_Input opts then ifaceRemoteDesktop else ifaceScreenCast) @ ''.Start''])
      (bind_io (if so_Input opts then selectDevices w else ret ()) (\<lambda>_.
       bind_io (if so_Capture opts then selectSources w else ret ()) (\<lambda>_. start w)))"
    by (intro performs_bind performs_start) (auto intro: performs_selectDevices performs_selectSources performs_ret)
  then show ?thesis by (simp add: protocol_methods_def Let_def)
qed

lemma createSession_ok:
  assumes "reg_ok s" and "ps_sessionHandle s = []"
  obtains r s' c where "createSession w s = (r, s')" and "reg_ok s'" and "ps_opts s' = ps_opts s" and "ps_closed s' = ps_closed s"
    and "ps_file s' = ps_file s" and "ps_calls s' = ps_calls s @ [c]" and "dc_method c = session_iface s @ ''.CreateSession''"
    and "case r of Inr _ \<Rightarrow> ps_sessionHandle s' \<noteq> [] | Inl _ \<Rightarrow> ps_sessionHandle s' = []"
proof -
  obtain t s1 where t: "randomToken w ''redvnc_req_'' s = (Inr t, s1)" and ok1: "reg_ok s1"
    and same1: "ps_opts s1 = ps_opts s" "ps_sessionHandle s1 = []" "ps_closed s1 = ps_closed s" "ps_calls s1 = ps_calls s" "ps_file s1 = ps_file s"
    using randomToken_ok [OF assms(1)] assms(2) by metis
  obtain u s2 where u: "randomToken w ''redvnc_sess_'' s1 = (Inr u, s2)" and ok2: "reg_ok s2"
    and same2: "ps_opts s2 = ps_opts s" "ps_sessionHandle s2 = []" "ps_closed s2 = ps_closed s" "ps_calls s2 = ps_calls s" "ps_file s2 = ps_file s"
    using randomToken_ok [OF ok1] same1 by metis
  have iface: "session_iface s2 = session_iface s" by (simp add: session_iface_def same2)
  let ?args = "[VDict [(''handle_token'', VString t), (''session_handle_token'', VString u)]]"
  let ?c = "\<lparr>dc_object = objectPath, dc_method = session_iface s @ ''.'' @ ''CreateSession'', dc_args = ?args\<rparr>"
  obtain r s3 where pc: "portalCall w (session_iface s) ''CreateSession'' (30 * second) t ?args s2 = (r, s3)"
    and s3: "reg_ok s3" "core s3 = core s2" "ps_calls s3 = ps_calls s2 @ [?c]"
    by (rule portalCall_spec [OF ok2, where w = w and iface = "session_iface s" and meth = "''CreateSession''"
        and timeout = "30 * second" and handleToken = t and args = ?args]) auto
  note f = core_fields [OF s3(2)]
  note run = createSession_def bind_io_def get_state_def t u iface pc modify_def
  show thesis
  proof (cases r)
    case (Inl e)
    show ?thesis by (rule that [of "Inl e" s3 ?c]) (use Inl s3 f same2 in \<open>auto simp: run\<close>)
  next
    case (Inr x)
    define h where "h = (case opt_string (x ''session_handle'') of
      Some handle \<Rightarrow> if handle = [] then sessionPath u s3 else handle | None \<Rightarrow> sessionPath u s3)"
    have "h \<noteq> []" by (auto simp: h_def sessionPath_def split: option.split)
    moreover have "createSession w s = (Inr (), s3\<lparr>ps_sessionHandle := h\<rparr>)"
      using Inr by (auto simp: run h_def split: option.split)
    moreover have "reg_ok (s3\<lparr>ps_sessionHandle := h\<rparr>)" using s3(1) by (simp add: reg_ok_def)
    ultimately show ?thesis by (intro that [of "Inr ()" "s3\<lparr>ps_sessionHandle := h\<rparr>" ?c]) (use s3 f same2 in auto)
  qed
qed


section \<open>Opening a session\<close>

lemma reg_ok_newSession: "reg_ok (newSession opts name file)"
  by (simp add: reg_ok_def newSession_def)

lemma protocol_hd: "protocol_methods opts = ((if so_Input opts then ifaceRemoteDesktop else ifaceScreenCast) @ ''.CreateSession'') # tl (protocol_methods opts)"
  by (simp add: protocol_methods_def Let_def)

text \<open>How far the calls of a session got.\<close>

definition progress :: "SessionOpts \<Rightarrow> string option \<Rightarrow> dbus_call list \<Rightarrow> unit res \<Rightarrow> PortalSession \<Rightarrow> bool" where
  "progress opts file cs r s \<longleftrightarrow> (\<forall>c \<in> set (tl cs). call_ok opts (ps_sessionHandle s) file c) \<and>
     (case r of
        Inr _ \<Rightarrow> map dc_method cs = protocol_methods opts \<and> ps_sessionHandle s \<noteq> []
      | Inl _ \<Rightarrow> \<exists>n. 0 < n \<and> n \<le> length (protocol_methods opts) \<and> map dc_method cs = take n (protocol_methods opts) \<and>
          (ps_sessionHandle s = [] \<longleftrightarrow> n = 1))"

lemma session_steps_ok:
  assumes "reg_ok s" and "ps_opts s = opts" and "ps_sessionHandle s = []" and "ps_file s = file" and "ps_calls s = []"
  obtains r s' where "session_steps w opts s = (r, s')" and "reg_ok s'" and "ps_closed s' = ps_closed s"
    and "progress opts file (ps_calls s') r s'"
proof -
  obtain r1 s1 c where c: "createSession w s = (r1, s1)" and s1: "reg_ok s1" "ps_opts s1 = opts" "ps_closed s1 = ps_closed s"
      "ps_file s1 = file" "ps_calls s1 = [c]"
    and m: "dc_method c = session_iface s @ ''.CreateSession''"
    and h: "case r1 of Inr _ \<Rightarrow> ps_sessionHandle s1 \<noteq> [] | Inl _ \<Rightarrow> ps_sessionHandle s1 = []"
    by (rule createSession_ok [OF assms(1,3), of w]) (use assms(2,4,5) in simp)
  have hd: "protocol_methods opts = dc_method c # tl (protocol_methods opts)"
    using protocol_hd [of opts] m assms(2) by (simp add: session_iface_def)
  show thesis
  proof (cases r1)
    case (Inl e)
    have "map dc_method [c] = take 1 (protocol_methods opts)" using hd by (cases "protocol_methods opts") auto
    then have "progress opts file (ps_calls s1) (Inl e) s1"
      using s1(5) h Inl hd unfolding progress_def by (auto intro!: exI [of _ 1] simp: Suc_le_eq)
    then show ?thesis using that [of "Inl e" s1] c Inl s1 by (simp add: session_steps_def bind_io_def)
  next
    case (Inr u)
    obtain r s2 cs where rest: "bind_io (if so_Input opts then selectDevices w else ret ()) (\<lambda>_.
         bind_io (if so_Capture opts then selectSources w else ret ()) (\<lambda>_. start w)) s1 = (r, s2)"
      and s2: "reg_ok s2" "ps_sessionHandle s2 = ps_sessionHandle s1" "ps_closed s2 = ps_closed s1" "ps_calls s2 = c # cs"
      and cs: "\<forall>c \<in> set cs. call_ok opts (ps_sessionHandle s1) file c"
      and r: "case r of Inr _ \<Rightarrow> map dc_method cs = tl (protocol_methods opts)
        | Inl _ \<Rightarrow> \<exists>n. 0 < n \<and> n \<le> length (tl (protocol_methods opts)) \<and> map dc_method cs = take n (tl (protocol_methods opts))"
      using performs_rest [of opts "ps_sessionHandle s1" "file" w,
        unfolded performs_def, rule_format, of s1] s1 by auto
    have "progress opts file (ps_calls s2) r s2"
    proof (cases r)
      case (Inl e)
      then obtain n where n: "0 < n" "n \<le> length (tl (protocol_methods opts))" "map dc_method cs = take n (tl (protocol_methods opts))"
        using r by auto
      then have "map dc_method (c # cs) = take (Suc n) (protocol_methods opts)" "Suc n \<le> length (protocol_methods opts)"
        by (subst hd, simp)+
      then show ?thesis using Inl n s2 h Inr cs unfolding progress_def by (auto intro!: exI [of _ "Suc n"])
    qed (use r s2 h Inr hd cs in \<open>auto simp: progress_def\<close>)
    then show ?thesis using that [of r s2] c Inr rest s1 s2 by (simp add: session_steps_def bind_io_def)
  qed
qed

lemma protocol_default [simp]: "protocol_methods (default_opts opts) = protocol_methods opts"
  by (simp add: protocol_methods_def default_opts_def)

lemma New_cases:
  assumes "New w opts file = (r, Some s)" and "pw_match w = Inr ()"
  obtains s' name where "session_steps w (default_opts opts) (newSession (default_opts opts) name file) = (r, s')"
    and "s = (case r of Inr _ \<Rightarrow> s' | Inl _ \<Rightarrow> Session_Close w s')"
proof -
  obtain name where "so_Capture opts \<or> so_Input opts" and name: "pw_connect w = Inr name"
    using assms(1) by (auto simp: New_def Let_def split: if_splits sum.splits)
  moreover obtain r' s' where "session_steps w (default_opts opts) (newSession (default_opts opts) name file) = (r', s')"
    by fastforce
  ultimately show thesis using assms(1) that [of name s'] by (cases r') (auto simp: New_def Let_def assms(2))
qed

lemma Session_Close_core:
  "\<not> ps_closed s \<Longrightarrow> ps_closed (Session_Close w s) \<and> ps_sessionHandle (Session_Close w s) = ps_sessionHandle s \<and>
     ps_calls (Session_Close w s) = ps_calls s @ (if ps_sessionHandle s = [] then [] else [close_call s])"
  using listen_fold_frame(1) [of _ "s\<lparr>ps_closed := True, ps_calls := ps_calls s @ [close_call s]\<rparr>"]
  by (auto simp: Session_Close_def Call_def Let_def core_def close_call_def)

text \<open>
  C18: \<^verbatim>\<open>New\<close> follows the portal's protocol whatever the portal answers: the session is created, devices
  are selected when input is asked for, then sources when capture is, then the session is started;
  all requests after the first name the session created, and with input the session belongs to
  \<^verbatim>\<open>RemoteDesktop\<close>. It succeeds exactly after all of them; when a request fails nothing more is asked
  except that a session that was created is closed, once, as the last call.
\<close>

theorem New_protocol:
  assumes "New w opts file = (r, Some s)" and "pw_match w = Inr ()"
  shows "\<exists>cs. (\<forall>c \<in> set (tl cs). hd (dc_args c) = VObjectPath (ps_sessionHandle s)) \<and>
    (case r of
       Inr _ \<Rightarrow> ps_calls s = cs \<and> map dc_method cs = protocol_methods opts \<and> ps_sessionHandle s \<noteq> [] \<and> \<not> ps_closed s
     | Inl _ \<Rightarrow> ps_closed s \<and> (\<exists>n. 0 < n \<and> n \<le> length (protocol_methods opts) \<and>
         map dc_method cs = take n (protocol_methods opts) \<and> ps_calls s = cs @ (if n = 1 then [] else [close_call s])))"
proof -
  obtain s' name where steps: "session_steps w (default_opts opts) (newSession (default_opts opts) name file) = (r, s')"
    and s: "s = (case r of Inr _ \<Rightarrow> s' | Inl _ \<Rightarrow> Session_Close w s')"
    by (rule New_cases [OF assms])
  have "\<not> ps_closed s'" and p: "progress (default_opts opts) file (ps_calls s') r s'"
    using session_steps_ok [OF reg_ok_newSession [of "default_opts opts" name "file"] refl, of "file" w] steps
    by (auto simp: newSession_def)
  note closed = Session_Close_core [OF this(1), of w]
  have "close_call s = close_call s'" if "r = Inl e" for e using s closed that by (simp add: close_call_def)
  then show ?thesis using p s closed \<open>\<not> ps_closed s'\<close>
    by (intro exI [of _ "ps_calls s'"]) (auto simp: progress_def call_ok_def split: sum.splits)
qed


section \<open>The restore token\<close>

text \<open>The token of the session is the one in the file.\<close>

definition token_kept :: "portal_world \<Rightarrow> SessionOpts \<Rightarrow> PortalSession \<Rightarrow> bool" where
  "token_kept w opts s \<longleftrightarrow> ps_opts s = opts \<and> (ps_restoreToken s \<noteq> [] \<and> so_RestoreTokenPath opts \<noteq> [] \<longrightarrow> ps_file s = pw_write w (ps_restoreToken s))"

definition keeps_token :: "portal_world \<Rightarrow> SessionOpts \<Rightarrow> 'a portal \<Rightarrow> bool" where
  "keeps_token w opts m \<longleftrightarrow> (\<forall>s. reg_ok s \<and> token_kept w opts s \<longrightarrow> reg_ok (snd (m s)) \<and> token_kept w opts (snd (m s)))"

lemma keeps_token_bind: "keeps_token w opts m \<Longrightarrow> (\<And>x. keeps_token w opts (f x)) \<Longrightarrow> keeps_token w opts (bind_io m f)"
  unfolding keeps_token_def bind_io_def by (clarsimp split: prod.split sum.split) (metis snd_conv)

lemma keeps_token_portalCall: "keeps_token w opts (portalCall w iface meth timeout t args)"
  unfolding keeps_token_def
proof (intro allI impI)
  fix s
  assume s: "reg_ok s \<and> token_kept w opts s"
  obtain s' where "snd (portalCall w iface meth timeout t args s) = s'" "reg_ok s'" "core s' = core s"
    by (rule portalCall_spec [OF conjunct1 [OF s], where w = w and iface = iface and meth = meth and timeout = timeout
      and handleToken = t and args = args]) simp
  then show "reg_ok (snd (portalCall w iface meth timeout t args s)) \<and> token_kept w opts (snd (portalCall w iface meth timeout t args s))"
    using s by (simp add: token_kept_def core_def)
qed

lemma keeps_token_simple:
  "keeps_token w opts (randomToken w p)" "keeps_token w opts get_state" "keeps_token w opts (ret y)"
  "keeps_token w opts (modify (\<lambda>s. s\<lparr>ps_sessionHandle := h s\<rparr>))" "keeps_token w opts (modify (take_token w x))"
  "keeps_token w opts (modify (take_streams w x))"
  by (auto simp: keeps_token_def randomToken_def get_state_def ret_def modify_def token_kept_def reg_ok_def take_token_def
      take_streams_def saveRestoreToken_def split: option.split)

lemma keeps_token_steps: "keeps_token w opts (session_steps w opts)"
  unfolding session_steps_def createSession_def selectDevices_def selectSources_def start_def
  by (intro keeps_token_bind keeps_token_simple keeps_token_portalCall)
    (auto split: option.split if_split intro!: keeps_token_bind keeps_token_simple keeps_token_portalCall)

lemma progress_hd: "progress opts file cs r s \<Longrightarrow> cs \<noteq> [] \<and> dc_method (hd cs) = hd (protocol_methods opts)"
proof -
  assume p: "progress opts file cs r s"
  obtain n where "0 < n" "map dc_method cs = take n (protocol_methods opts)"
  proof (cases r)
    case (Inr u)
    moreover have "protocol_methods opts \<noteq> []" using protocol_hd [of opts] by (metis list.distinct(1))
    ultimately show thesis using that [of "length (protocol_methods opts)"] p by (simp add: progress_def)
  qed (use that p in \<open>auto simp: progress_def\<close>)
  moreover obtain x xs where "protocol_methods opts = x # xs" using protocol_hd [of opts] by metis
  ultimately show ?thesis by (cases n; cases cs) auto
qed

text \<open>
  A user who has agreed once is not asked again: the restore token a session got from the portal
  is what the next session, started with the same file, hands over when it selects its sources,
  provided the file keeps what was written and the token is a printable string.
\<close>

lemma restore_token_reused:
  assumes "New w opts old = (Inr (), Some s)" and "pw_match w = Inr ()"
    and "ps_restoreToken s = rt" and "rt \<noteq> []" and "list_all is_graph rt" and "pw_write w rt = Some rt"
    and "New w' opts' (ps_file s) = (r', Some s')" and "pw_match w' = Inr ()"
    and "so_RestoreTokenPath opts \<noteq> []" and "so_RestoreTokenPath opts' = so_RestoreTokenPath opts"
    and "c \<in> set (ps_calls s')" and "dc_method c = ifaceScreenCast @ ''.SelectSources''"
  shows "\<exists>h d. dc_args c = [VObjectPath h, VDict d] \<and> map_of d ''restore_token'' = Some (VString rt)"
proof -
  have path: "so_RestoreTokenPath (default_opts o') = so_RestoreTokenPath o'" for o' by (simp add: default_opts_def)
  obtain name where s: "session_steps w (default_opts opts) (newSession (default_opts opts) name old) = (Inr (), s)"
    by (rule New_cases [OF assms(1,2)]) simp
  have "token_kept w (default_opts opts) (newSession (default_opts opts) name old)" by (simp add: token_kept_def newSession_def)
  then have "token_kept w (default_opts opts) s"
    using keeps_token_steps [of w "default_opts opts"] s reg_ok_newSession [of "default_opts opts" name old]
    unfolding keeps_token_def by (metis snd_conv)
  then have f: "ps_file s = Some rt" using assms(3,4,6,9) path by (simp add: token_kept_def)
  obtain t name' where t: "session_steps w' (default_opts opts') (newSession (default_opts opts') name' (ps_file s)) = (r', t)"
    and s': "s' = (case r' of Inr _ \<Rightarrow> t | Inl _ \<Rightarrow> Session_Close w' t)"
    by (rule New_cases [OF assms(7,8)])
  have p: "\<not> ps_closed t" "progress (default_opts opts') (ps_file s) (ps_calls t) r' t"
    using session_steps_ok [OF reg_ok_newSession [of "default_opts opts'" name' "ps_file s"] refl, of "ps_file s" w'] t
    by (auto simp: newSession_def)
  have "set (ps_calls s') \<subseteq> insert (close_call t) (set (ps_calls t))"
    using s' Session_Close_core [OF p(1), of w'] by (auto split: sum.splits)
  moreover have "dc_method (close_call t) \<noteq> dc_method c"
    unfolding assms(12) by (simp add: close_call_def ifaceSession_def ifaceScreenCast_def)
  ultimately have c: "c \<in> set (ps_calls t)" using assms(11) by auto
  obtain c0 cs where calls: "ps_calls t = c0 # cs" and "dc_method c0 = hd (protocol_methods opts')"
    using progress_hd [OF p(2)] by (cases "ps_calls t") auto
  then have "c0 \<noteq> c" using assms(12)
    by (auto simp: protocol_methods_def Let_def ifaceRemoteDesktop_def ifaceScreenCast_def split: if_splits)
  then have "c \<in> set (tl (ps_calls t))" using c calls by auto
  then have "call_ok (default_opts opts') (ps_sessionHandle t) (Some rt) c" using p(2) f by (simp add: progress_def)
  moreover have "stored_token (default_opts opts') (Some rt) = rt"
    using assms(4,5,9,10) TrimSpace_graph [of rt] by (simp add: stored_token_def path list_all_iff)
  ultimately show ?thesis using assms(4,12) by (auto simp: call_ok_def)
qed


section \<open>A portal that answers\<close>

text \<open>The token of a request, which is the last of its options.\<close>

definition token_of :: "dbus_call \<Rightarrow> string" where
  "token_of c =
     (case dc_args c of
        [] \<Rightarrow> []
      | args \<Rightarrow> (case last args of VDict d \<Rightarrow> (case map_of d ''handle_token'' of Some (VString t) \<Rightarrow> t | _ \<Rightarrow> []) | _ \<Rightarrow> []))"

text \<open>
  The documented behaviour of the portal when the user agrees: a request object at the path made
  of the sender and the token, and a response with code 0 from it. \<open>results\<close> is what the response
  to a call carries.
\<close>

definition answering :: "portal_world \<Rightarrow> string \<Rightarrow> (dbus_call \<Rightarrow> string \<rightharpoonup> variant) \<Rightarrow> bool" where
  "answering w sender results \<longleftrightarrow>
     (\<forall>cs c. let path = ''/org/freedesktop/portal/desktop/request/'' @ sender @ ''/'' @ token_of c; a = pw_bus w cs c in
        oc_reply a = Inr path \<and>
        first_response path (oc_early a @ oc_late a) = Some \<lparr>rs_code = 0, rs_results = results c\<rparr>)"

lemma portalCall_answered:
  assumes "answering w (ps_senderToken s) results" and "reg_ok s"
    and "c = \<lparr>dc_object = objectPath, dc_method = iface @ ''.'' @ meth, dc_args = args\<rparr>" and "token_of c = t"
  obtains s' where "portalCall w iface meth timeout t args s = (Inr (results c), s')" and "reg_ok s'" and "core s' = core s"
proof -
  let ?a = "pw_bus w (ps_calls s) c"
  have "oc_reply ?a = Inr (requestPath t s)"
    "first_response (requestPath t s) (oc_early ?a @ oc_late ?a) = Some \<lparr>rs_code = 0, rs_results = results c\<rparr>"
    using assms(1,4) unfolding answering_def requestPath_def Let_def by auto
  then have "request_result meth timeout (requestPath t s) ?a = Inr (results c)" by (simp add: request_result_def)
  then show thesis
    using portalCall_spec [OF assms(2), where w = w and iface = iface and meth = meth and timeout = timeout
      and handleToken = t and args = args] that assms(3) by metis
qed

lemma token_of_simps [simp]:
  "token_of \<lparr>dc_object = p, dc_method = m, dc_args = [VDict ((''handle_token'', VString t) # d)]\<rparr> = t"
  "token_of \<lparr>dc_object = p, dc_method = m, dc_args = [x, VDict ((''handle_token'', VString t) # d)]\<rparr> = t"
  "token_of \<lparr>dc_object = p, dc_method = m, dc_args = [x, y, VDict ((''handle_token'', VString t) # d)]\<rparr> = t"
  by (simp_all add: token_of_def)

text \<open>A step that succeeds, and keeps what the result of the session depends on.\<close>

definition runs :: "portal_world \<Rightarrow> (dbus_call \<Rightarrow> string \<rightharpoonup> variant) \<Rightarrow> unit portal \<Rightarrow> bool" where
  "runs w results m \<longleftrightarrow> (\<forall>s. reg_ok s \<and> answering w (ps_senderToken s) results \<longrightarrow>
     (\<exists>s'. m s = (Inr (), s') \<and> reg_ok s' \<and> ps_senderToken s' = ps_senderToken s \<and> ps_opts s' = ps_opts s \<and>
        ps_streams s' = ps_streams s \<and> ps_restoreToken s' = ps_restoreToken s))"

lemma core_same:
  "core s' = core s \<Longrightarrow> ps_streams s' = ps_streams s \<and> ps_restoreToken s' = ps_restoreToken s"
  by (simp add: core_def)

lemma runs_request:
  assumes "\<And>t s. token_of \<lparr>dc_object = objectPath, dc_method = iface s @ ''.'' @ meth, dc_args = args t s\<rparr> = t"
  shows "runs w results
    (bind_io (randomToken w p) (\<lambda>t.
     bind_io get_state (\<lambda>s.
     bind_io (portalCall w (iface s) meth timeout t (args t s)) (\<lambda>x. ret ()))))"
  unfolding runs_def
proof (intro allI impI)
  fix s
  assume s: "reg_ok s \<and> answering w (ps_senderToken s) results"
  define t s1 where "t = p @ EncodeToString (pw_rand w (ps_rands s))" and "s1 = s\<lparr>ps_rands := ps_rands s + 1\<rparr>"
  have rt: "randomToken w p s = (Inr t, s1)" by (simp add: randomToken_def t_def s1_def)
  have same: "ps_opts s1 = ps_opts s" "ps_senderToken s1 = ps_senderToken s" "ps_streams s1 = ps_streams s"
    "ps_restoreToken s1 = ps_restoreToken s" by (simp_all add: s1_def)
  have ok: "reg_ok s1" "answering w (ps_senderToken s1) results" using s by (simp_all add: s1_def reg_ok_def)
  obtain x s2 where "portalCall w (iface s1) meth timeout t (args t s1) s1 = (Inr x, s2)" "reg_ok s2" "core s2 = core s1"
    by (rule portalCall_answered [OF ok(2,1) refl, where iface = "iface s1" and meth = meth and t = t
        and args = "args t s1" and timeout = timeout]) (use assms in auto)
  then show "\<exists>s'. bind_io (randomToken w p) (\<lambda>t. bind_io get_state (\<lambda>s.
      bind_io (portalCall w (iface s) meth timeout t (args t s)) (\<lambda>x. ret ()))) s = (Inr (), s') \<and>
      reg_ok s' \<and> ps_senderToken s' = ps_senderToken s \<and> ps_opts s' = ps_opts s \<and>
      ps_streams s' = ps_streams s \<and> ps_restoreToken s' = ps_restoreToken s"
    using core_fields [of s2 s1] core_same [of s2 s1] same by (simp add: bind_io_def get_state_def rt ret_def)
qed

lemma runs_steps: "runs w results (selectDevices w)" "runs w results (selectSources w)" "runs w results (ret ())"
  unfolding selectDevices_def selectSources_def
  by (rule runs_request, simp, rule runs_request, simp add: source_options_def, simp add: runs_def ret_def)

lemma createSession_runs: "runs w results (createSession w)"
  unfolding runs_def
proof (intro allI impI)
  fix s
  assume s: "reg_ok s \<and> answering w (ps_senderToken s) results"
  define t u where "t = ''redvnc_req_'' @ EncodeToString (pw_rand w (ps_rands s))"
    and "u = ''redvnc_sess_'' @ EncodeToString (pw_rand w (ps_rands s + 1))"
  define s0 s1 where "s0 = s\<lparr>ps_rands := ps_rands s + 1\<rparr>" and "s1 = s0\<lparr>ps_rands := ps_rands s0 + 1\<rparr>"
  have rt: "randomToken w ''redvnc_req_'' s = (Inr t, s0)" "randomToken w ''redvnc_sess_'' s0 = (Inr u, s1)"
    by (simp_all add: randomToken_def t_def u_def s0_def s1_def)
  have same: "ps_opts s1 = ps_opts s" "ps_senderToken s1 = ps_senderToken s" "ps_streams s1 = ps_streams s"
    "ps_restoreToken s1 = ps_restoreToken s" by (simp_all add: s0_def s1_def)
  have ok: "reg_ok s1" "answering w (ps_senderToken s1) results" using s by (simp_all add: s0_def s1_def reg_ok_def)
  obtain x s2 where pc: "portalCall w (session_iface s1) ''CreateSession'' (30 * second) t
      [VDict [(''handle_token'', VString t), (''session_handle_token'', VString u)]] s1 = (Inr x, s2)"
    and s2: "reg_ok s2" "core s2 = core s1"
    by (rule portalCall_answered [OF ok(2,1) refl, where iface = "session_iface s1" and meth = "''CreateSession''" and t = t
        and args = "[VDict [(''handle_token'', VString t), (''session_handle_token'', VString u)]]" and timeout = "30 * second"]) simp
  obtain h where "createSession w s = (Inr (), s2\<lparr>ps_sessionHandle := h\<rparr>)"
    using pc by (cases "opt_string (x ''session_handle'')") (auto simp: createSession_def bind_io_def get_state_def rt modify_def)
  moreover have "reg_ok (s2\<lparr>ps_sessionHandle := h\<rparr>)" using s2(1) by (simp add: reg_ok_def)
  ultimately show "\<exists>s'. createSession w s = (Inr (), s') \<and> reg_ok s' \<and> ps_senderToken s' = ps_senderToken s \<and>
      ps_opts s' = ps_opts s \<and> ps_streams s' = ps_streams s \<and> ps_restoreToken s' = ps_restoreToken s"
    using core_fields [OF s2(2)] core_same [OF s2(2)] same by simp
qed


text \<open>What the answer to the last request says.\<close>

definition answered_token :: "(string \<rightharpoonup> variant) \<Rightarrow> string" where
  "answered_token x = (case opt_string (x ''restore_token'') of Some rt \<Rightarrow> rt | None \<Rightarrow> [])"

definition answered_streams :: "portal_world \<Rightarrow> (string \<rightharpoonup> variant) \<Rightarrow> Stream list" where
  "answered_streams w x =
     (case x ''streams'' of
        Some raw \<Rightarrow> (case pw_streams w raw of Some streams \<Rightarrow> map (stream_of w) streams | None \<Rightarrow> [])
      | None \<Rightarrow> [])"

lemma start_runs:
  assumes "reg_ok s" and "answering w (ps_senderToken s) results" and "ps_streams s = []" and "ps_restoreToken s = []"
  obtains s' c where "start w s = (Inr (), s')" and "dc_method c = session_iface s @ ''.Start''"
    and "ps_restoreToken s' = answered_token (results c)" and "ps_streams s' = answered_streams w (results c)"
proof -
  define t s1 where "t = ''redvnc_req_'' @ EncodeToString (pw_rand w (ps_rands s))" and "s1 = s\<lparr>ps_rands := ps_rands s + 1\<rparr>"
  have rt: "randomToken w ''redvnc_req_'' s = (Inr t, s1)" by (simp add: randomToken_def t_def s1_def)
  have iface: "session_iface s1 = session_iface s" by (simp add: s1_def session_iface_def)
  have ok: "reg_ok s1" "answering w (ps_senderToken s1) results" using assms(1,2) by (simp_all add: s1_def reg_ok_def)
  let ?args = "[VObjectPath (ps_sessionHandle s1), VString [], VDict [(''handle_token'', VString t)]]"
  let ?c = "\<lparr>dc_object = objectPath, dc_method = session_iface s @ ''.'' @ ''Start'', dc_args = ?args\<rparr>"
  obtain s2 where pc: "portalCall w (session_iface s) ''Start'' (so_StartTimeout (ps_opts s1)) t ?args s1 = (Inr (results ?c), s2)"
    and s2: "core s2 = core s1"
    by (rule portalCall_answered [OF ok(2,1) refl, where iface = "session_iface s" and meth = "''Start''" and t = t
        and args = ?args and timeout = "so_StartTimeout (ps_opts s1)"]) simp
  have empty: "ps_streams s2 = []" "ps_restoreToken s2 = []" using core_same [OF s2] assms(3,4) by (simp_all add: s1_def)
  show thesis
  proof (rule that)
    show "start w s = (Inr (), take_streams w (results ?c) (take_token w (results ?c) s2))"
      using pc by (simp add: start_def bind_io_def get_state_def rt iface modify_def)
    show "dc_method ?c = session_iface s @ ''.Start''" by simp
    show "ps_restoreToken (take_streams w (results ?c) (take_token w (results ?c) s2)) = answered_token (results ?c)"
      and "ps_streams (take_streams w (results ?c) (take_token w (results ?c) s2)) = answered_streams w (results ?c)"
      using empty by (auto simp: take_streams_def take_token_def saveRestoreToken_def answered_token_def answered_streams_def
          split: option.split)
  qed
qed

lemma runs_bind:
  assumes "runs w results m" and "reg_ok s" and "answering w (ps_senderToken s) results"
  obtains s' where "bind_io m (\<lambda>_. k) s = k s'" and "reg_ok s'" and "answering w (ps_senderToken s') results"
    and "ps_opts s' = ps_opts s" and "ps_streams s' = ps_streams s" and "ps_restoreToken s' = ps_restoreToken s"
  using assms unfolding runs_def by (metis bind_io_Inr)

lemma New_answered:
  assumes "so_Capture opts \<or> so_Input opts" and "pw_connect w = Inr name" and "pw_match w = Inr ()"
    and "answering w (senderToken name) results"
  shows "\<exists>s c. New w opts old = (Inr (), Some s) \<and>
    dc_method c = (if so_Input opts then ifaceRemoteDesktop else ifaceScreenCast) @ ''.Start'' \<and>
    ps_restoreToken s = answered_token (results c) \<and> ps_streams s = answered_streams w (results c)"
proof -
  let ?o = "default_opts opts"
  let ?s = "newSession ?o name old"
  note n = reg_ok_newSession [of ?o name old]
  have a: "answering w (ps_senderToken ?s) results" using assms(4) by (simp add: newSession_def)
  obtain s1 where s1: "session_steps w ?o ?s = bind_io (if so_Input ?o then selectDevices w else ret ()) (\<lambda>_.
       bind_io (if so_Capture ?o then selectSources w else ret ()) (\<lambda>_. start w)) s1"
    "reg_ok s1" "answering w (ps_senderToken s1) results" "ps_opts s1 = ?o" "ps_streams s1 = []" "ps_restoreToken s1 = []"
    unfolding session_steps_def
    by (rule runs_bind [OF createSession_runs n a]) (simp add: newSession_def)
  obtain s2 where s2: "session_steps w ?o ?s = bind_io (if so_Capture ?o then selectSources w else ret ()) (\<lambda>_. start w) s2"
    "reg_ok s2" "answering w (ps_senderToken s2) results" "ps_opts s2 = ?o" "ps_streams s2 = []" "ps_restoreToken s2 = []"
    by (rule runs_bind [of w results "if so_Input ?o then selectDevices w else ret ()", OF _ s1(2,3)])
      (use s1 runs_steps in auto)
  obtain s3 where s3: "session_steps w ?o ?s = start w s3"
    "reg_ok s3" "answering w (ps_senderToken s3) results" "ps_opts s3 = ?o" "ps_streams s3 = []" "ps_restoreToken s3 = []"
    by (rule runs_bind [of w results "if so_Capture ?o then selectSources w else ret ()", OF _ s2(2,3)])
      (use s2 runs_steps in auto)
  obtain s4 c where "start w s3 = (Inr (), s4)" "dc_method c = session_iface s3 @ ''.Start''"
    "ps_restoreToken s4 = answered_token (results c)" "ps_streams s4 = answered_streams w (results c)"
    by (rule start_runs [OF s3(2,3,5,6)])
  moreover have "session_iface s3 = (if so_Input opts then ifaceRemoteDesktop else ifaceScreenCast)"
    using s3(4) by (simp add: session_iface_def default_opts_def)
  ultimately show ?thesis using assms(1-3) s3(1) by (auto simp: New_def Let_def)
qed

text \<open>
  When the portal behaves as documented and the user agrees, a session opens: \<^verbatim>\<open>New\<close> returns a
  session with the streams and the restore token of the answer to \<^verbatim>\<open>Start\<close>, whatever mixture of
  capture and input was asked for and in whatever order replies and responses arrive.
\<close>

lemma New_succeeds:
  assumes "so_Capture opts \<or> so_Input opts" and "pw_connect w = Inr name" and "pw_match w = Inr ()"
    and "answering w (senderToken name) results"
  shows "\<exists>s c. New w opts old = (Inr (), Some s) \<and>
    dc_method c = (if so_Input opts then ifaceRemoteDesktop else ifaceScreenCast) @ ''.Start'' \<and>
    ps_restoreToken s = answered_token (results c) \<and> ps_streams s = answered_streams w (results c)"
  by (rule New_answered [OF assms])

text \<open>
  A response that arrives before the reply is lost when the portal's request path is not the
  one computed from the token: the caller registers the new path only afterwards, waits for the
  whole time limit, reports a time-out although the portal has answered, and the registration
  stays.
\<close>

lemma unexpected_path_loses_response:
  assumes "reg_ok s" and "call = \<lparr>dc_object = objectPath, dc_method = iface @ ''.'' @ meth, dc_args = args\<rparr>"
    and "answer = pw_bus w (ps_calls s) call" and "oc_reply answer = Inr actual"
    and "actual \<noteq> requestPath t s" and "first_response actual (oc_early answer) = Some \<lparr>rs_code = 0, rs_results = x\<rparr>"
    and "first_response actual (oc_late answer) = None"
  shows "\<exists>s'. portalCall w iface meth timeout t args s =
      (Inl (Errorf (''portal: '' @ meth @ '' timed out after %s'') [if timeout \<le> 0 then 30 * second else timeout]), s') \<and>
    actual \<in> dom (ps_resps s')"
  by (rule portalCall_spec [OF assms(1), where w = w and iface = iface and meth = meth and timeout = timeout
      and handleToken = t and args = args, folded assms(2), folded assms(3)])
    (use assms(4,5,7) in \<open>auto simp: request_result_def left_over_def\<close>)

section \<open>Two portals\<close>

text \<open>
  A portal that answers every request at the path it is expected to use, and one that uses other
  paths and answers before its reply is read.
\<close>

definition demo_signal :: "string \<Rightarrow> dbus_signal" where
  "demo_signal path =
     \<lparr>sg_path = path, sg_name = ifaceRequest @ ''.Response'', sg_body = [VUint32 0, VDict [(''restore_token'', VString ''tok'')]]\<rparr>"

definition demo_bus :: "dbus_call list \<Rightarrow> dbus_call \<Rightarrow> outcome" where
  "demo_bus cs c =
     (let path = ''/org/freedesktop/portal/desktop/request/'' @ ''1_42'' @ ''/'' @ token_of c in
      \<lparr>oc_early = [], oc_reply = Inr path, oc_late = [demo_signal path]\<rparr>)"

definition hasty_bus :: "dbus_call list \<Rightarrow> dbus_call \<Rightarrow> outcome" where
  "hasty_bus cs c = \<lparr>oc_early = [demo_signal ''/x''], oc_reply = Inr ''/x'', oc_late = []\<rparr>"

definition demo_portal :: "(dbus_call list \<Rightarrow> dbus_call \<Rightarrow> outcome) \<Rightarrow> portal_world" where
  "demo_portal bus =
     \<lparr>pw_bus = bus, pw_connect = Inr '':1.42'', pw_match = Inr (), pw_rand = (\<lambda>n. [of_nat n]),
      pw_streams = (\<lambda>v. None), pw_size = (\<lambda>v. (0, 0)), pw_write = Some\<rparr>"

definition demo_opts :: SessionOpts where
  "demo_opts =
     \<lparr>so_Capture = True, so_Input = True, so_SourceTypes = 0, so_CursorMode = 0, so_Devices = 0,
      so_RestoreTokenPath = ''/home/u/token'', so_StartTimeout = 0\<rparr>"

lemma demo_response: "first_response p [demo_signal p] = Some \<lparr>rs_code = 0, rs_results = [''restore_token'' \<mapsto> VString ''tok'']\<rparr>"
  by (simp add: demo_signal_def is_response_def response_of_def)

lemma demo_answering: "answering (demo_portal demo_bus) ''1_42'' (\<lambda>c. [''restore_token'' \<mapsto> VString ''tok''])"
  unfolding answering_def Let_def demo_bus_def demo_portal_def
  by (simp del: first_response_simps append.simps(2) add: demo_response append.simps(1))

lemma demo_token: "senderToken '':1.42'' = ''1_42''"
  by (simp add: senderToken_def TrimPrefix_def)

lemma demo_New:
  obtains s where "New (demo_portal demo_bus) demo_opts old = (Inr (), Some s)" and "ps_restoreToken s = ''tok''"
  using New_answered [of demo_opts "demo_portal demo_bus" "'':1.42''" "\<lambda>c. [''restore_token'' \<mapsto> VString ''tok'']" old]
    demo_answering
  by (auto simp: demo_opts_def demo_token answered_token_def opt_string_def demo_portal_def)

lemma New_succeeds_witness:
  "\<exists>s. New (demo_portal demo_bus) demo_opts None = (Inr (), Some s) \<and> ps_restoreToken s = ''tok''"
  using New_succeeds [of demo_opts "demo_portal demo_bus" "'':1.42''" "\<lambda>c. [''restore_token'' \<mapsto> VString ''tok'']" None]
    demo_answering
  by (auto simp: demo_opts_def demo_token answered_token_def opt_string_def demo_portal_def)

theorem New_protocol_witness:
  "\<exists>s. New (demo_portal demo_bus) demo_opts None = (Inr (), Some s) \<and> map dc_method (ps_calls s) = protocol_methods demo_opts"
proof -
  obtain s where s: "New (demo_portal demo_bus) demo_opts None = (Inr (), Some s)" by (rule demo_New)
  show ?thesis using New_protocol [OF s] s by (auto simp: demo_portal_def)
qed

text \<open>Two requests wait while a third is made; the answers to the first and to the third come before the reply.\<close>

definition busy_session :: PortalSession where
  "busy_session = (newSession demo_opts '':1.42'' None)\<lparr>ps_resps := [''/a'' \<mapsto> 0, ''/b'' \<mapsto> 1], ps_made := 2\<rparr>"

definition crossing_bus :: "dbus_call list \<Rightarrow> dbus_call \<Rightarrow> outcome" where
  "crossing_bus cs c =
     (let path = ''/org/freedesktop/portal/desktop/request/1_42/t'' in
      \<lparr>oc_early = [demo_signal ''/a'', demo_signal path], oc_reply = Inr path, oc_late = []\<rparr>)"

theorem portalCall_routes_witness:
  "let (r, s') = portalCall (demo_portal crossing_bus) ifaceScreenCast ''Start'' 0 ''t'' [] busy_session
   in r = Inr [''restore_token'' \<mapsto> VString ''tok''] \<and>
      ps_resps s' ''/a'' = None \<and> ps_chans s' 0 = Some \<lparr>rs_code = 0, rs_results = [''restore_token'' \<mapsto> VString ''tok'']\<rparr> \<and>
      ps_resps s' ''/b'' = Some 1 \<and> ps_chans s' 1 = None"
proof -
  let ?path = "''/org/freedesktop/portal/desktop/request/1_42/t''"
  have ok: "reg_ok busy_session" by (simp add: busy_session_def reg_ok_def newSession_def)
  have bus: "pw_bus (demo_portal crossing_bus) cs c = \<lparr>oc_early = [demo_signal ''/a'', demo_signal ?path], oc_reply = Inr ?path, oc_late = []\<rparr>" for cs c
    by (simp add: demo_portal_def crossing_bus_def Let_def)
  have path: "requestPath ''t'' busy_session = ?path"
    by (simp add: requestPath_def busy_session_def newSession_def senderToken_def TrimPrefix_def)
  have resps: "ps_resps busy_session ''/a'' = Some 0" "ps_resps busy_session ''/b'' = Some 1" by (simp_all add: busy_session_def)
  have result: "request_result ''Start'' 0 ?path \<lparr>oc_early = [demo_signal ''/a'', demo_signal ?path], oc_reply = Inr ?path, oc_late = []\<rparr> =
      Inr [''restore_token'' \<mapsto> VString ''tok'']"
    by (simp add: request_result_def demo_signal_def is_response_def response_of_def)
  have routed: "first_response ''/a'' (handled \<lparr>oc_early = [demo_signal ''/a'', demo_signal ?path], oc_reply = Inr ?path, oc_late = []\<rparr>) =
      Some \<lparr>rs_code = 0, rs_results = [''restore_token'' \<mapsto> VString ''tok'']\<rparr>"
    "first_response ''/b'' (handled \<lparr>oc_early = [demo_signal ''/a'', demo_signal ?path], oc_reply = Inr ?path, oc_late = []\<rparr>) = None"
    by (simp_all add: handled_def demo_signal_def is_response_def response_of_def)
  obtain r s' where pc: "portalCall (demo_portal crossing_bus) ifaceScreenCast ''Start'' 0 ''t'' [] busy_session = (r, s')" by fastforce
  note routes = portalCall_routes [OF ok, of "''t''" ifaceScreenCast "''Start''" "[]" "demo_portal crossing_bus" 0, unfolded Let_def bus path pc prod.case
      result outcome.select_convs]
  then have "\<forall>q ch. q \<noteq> ?path \<and> Inr ?path \<noteq> (Inr q :: string res) \<and> ps_resps busy_session q = Some ch \<longrightarrow>
      ps_chans s' ch = first_response q (handled \<lparr>oc_early = [demo_signal ''/a'', demo_signal ?path], oc_reply = Inr ?path, oc_late = []\<rparr>) \<and>
      ps_resps s' q = (if first_response q (handled \<lparr>oc_early = [demo_signal ''/a'', demo_signal ?path], oc_reply = Inr ?path, oc_late = []\<rparr>) = None
        then Some ch else None)" by blast
  from this [rule_format, of "''/a''" 0] this [rule_format, of "''/b''" 1] routes show ?thesis by (simp add: pc resps routed)
qed

lemma restore_token_reused_witness:
  "\<exists>s s' c h d. New (demo_portal demo_bus) demo_opts None = (Inr (), Some s) \<and>
     New (demo_portal demo_bus) demo_opts (ps_file s) = (Inr (), Some s') \<and> c \<in> set (ps_calls s') \<and>
     dc_args c = [VObjectPath h, VDict d] \<and> map_of d ''restore_token'' = Some (VString ''tok'')"
proof -
  obtain s where s: "New (demo_portal demo_bus) demo_opts None = (Inr (), Some s)" "ps_restoreToken s = ''tok''" by (rule demo_New)
  obtain s' where s': "New (demo_portal demo_bus) demo_opts (ps_file s) = (Inr (), Some s')" by (rule demo_New)
  obtain t name where t: "session_steps (demo_portal demo_bus) (default_opts demo_opts)
      (newSession (default_opts demo_opts) name (ps_file s)) = (Inr (), t)" "s' = t"
    by (rule New_cases [OF s']) (simp_all add: demo_portal_def)
  have "map dc_method (ps_calls s') = protocol_methods demo_opts"
    using session_steps_ok [OF reg_ok_newSession [of "default_opts demo_opts" name "ps_file s"] refl, of "ps_file s" "demo_portal demo_bus"] t
    by (auto simp: progress_def newSession_def)
  then have "ifaceScreenCast @ ''.SelectSources'' \<in> dc_method ` set (ps_calls s')"
    by (simp add: protocol_methods_def demo_opts_def flip: set_map)
  then obtain c where c: "c \<in> set (ps_calls s')" "dc_method c = ifaceScreenCast @ ''.SelectSources''" by auto
  have "\<exists>h d. dc_args c = [VObjectPath h, VDict d] \<and> map_of d ''restore_token'' = Some (VString ''tok'')"
    by (rule restore_token_reused [OF s(1) _ s(2) _ _ _ s' _ _ _ c])
      (simp_all add: demo_portal_def demo_opts_def is_graph_def less_eq_char_def)
  then show ?thesis using s s' c by blast
qed

lemma unexpected_path_loses_response_witness:
  "\<exists>s'. portalCall (demo_portal hasty_bus) ifaceScreenCast ''Start'' 0 ''t'' [] (newSession demo_opts '':1.42'' None) =
     (Inl (Errorf ''portal: Start timed out after %s'' [30 * second]), s') \<and> ''/x'' \<in> dom (ps_resps s')"
  using unexpected_path_loses_response [OF reg_ok_newSession refl refl, of "demo_portal hasty_bus" demo_opts "'':1.42''" None
      ifaceScreenCast "''Start''" "[]" "''/x''" "''t''" _ 0]
  by (simp add: demo_portal_def hasty_bus_def requestPath_def demo_response del: first_response_simps(2))

end
