(* ===== verification/Waylandinput.thy ===== *)
theory Waylandinput
  imports Portal Inputs
begin

text \<open>
  \<^verbatim>\<open>input_linux_wayland.go\<close>: input through the remote desktop portal, and the choice between it and X11
  (\<^verbatim>\<open>detect_linux.go\<close>, \<^verbatim>\<open>input_linux.go\<close>, \<^verbatim>\<open>capture_linux.go\<close>). The method calls are those of the portal
  session. Which error values carry a D-Bus error, and its name, is an argument.
\<close>

section \<open>The display server\<close>

definition detectDisplayServer :: "(string \<Rightarrow> string) \<Rightarrow> string" where
  "detectDisplayServer Getenv =
     (if Getenv ''XDG_SESSION_TYPE'' = ''wayland'' then ''wayland''
      else if Getenv ''XDG_SESSION_TYPE'' = ''x11'' then ''x11''
      else if Getenv ''WAYLAND_DISPLAY'' \<noteq> '''' then ''wayland''
      else if Getenv ''DISPLAY'' \<noteq> '''' then ''x11''
      else ''unknown'')"

datatype backend_kind = Wayland | X11

text \<open>\<open>tag\<close>: the build has the \<^verbatim>\<open>wayland\<close> tag; without it the constructors of the stubs fail.\<close>

definition newWaylandInput :: "bool \<Rightarrow> backend_kind res" where
  "newWaylandInput tag =
     (if tag then Inr Wayland
      else Inl (Errorf ''wayland input backend not compiled in (build with -tags wayland)'' []))"

definition newWaylandCapture :: "bool \<Rightarrow> backend_kind res" where
  "newWaylandCapture tag =
     (if tag then Inr Wayland
      else Inl (Errorf ''wayland capture backend not compiled in (build with -tags wayland)'' []))"

definition NewInputInjector :: "bool \<Rightarrow> (string \<Rightarrow> string) \<Rightarrow> backend_kind" where
  "NewInputInjector tag Getenv =
     (if detectDisplayServer Getenv = ''wayland''
      then (case newWaylandInput tag of Inr i \<Rightarrow> i | Inl e \<Rightarrow> X11)
      else X11)"

definition NewScreenCapture :: "bool \<Rightarrow> (string \<Rightarrow> string) \<Rightarrow> backend_kind" where
  "NewScreenCapture tag Getenv =
     (if detectDisplayServer Getenv = ''wayland''
      then (case newWaylandCapture tag of Inr c \<Rightarrow> c | Inl e \<Rightarrow> X11)
      else X11)"

lemma same_backend:
  "NewInputInjector tag Getenv = NewScreenCapture tag Getenv \<and>
   (NewInputInjector tag Getenv = Wayland \<longleftrightarrow>
      tag \<and> (Getenv ''XDG_SESSION_TYPE'' = ''wayland'' \<or>
        Getenv ''XDG_SESSION_TYPE'' \<noteq> ''x11'' \<and> Getenv ''WAYLAND_DISPLAY'' \<noteq> ''''))"
  by (simp add: NewInputInjector_def NewScreenCapture_def newWaylandInput_def newWaylandCapture_def detectDisplayServer_def)

section \<open>The injector\<close>

record WaylandInput =
  wl_session :: "PortalSession option"
  wl_ownSession :: bool
  wl_streamNode :: u32
  wl_streamW :: int
  wl_streamH :: int
  wl_lastButtonMask :: u8
  wl_keysymUnsupported :: bool

definition WaylandInput_zero :: WaylandInput where
  "WaylandInput_zero =
     \<lparr>wl_session = None, wl_ownSession = False, wl_streamNode = 0, wl_streamW = 0, wl_streamH = 0,
      wl_lastButtonMask = 0, wl_keysymUnsupported = False\<rparr>"

definition NewWaylandInputWithSession :: "PortalSession option \<Rightarrow> WaylandInput res" where
  "NewWaylandInputWithSession s =
     (case s of
        None \<Rightarrow> Inl (Errorf ''wayland input: nil portal session'' [])
      | Some s' \<Rightarrow> Inr (WaylandInput_zero\<lparr>wl_session := Some s', wl_ownSession := False\<rparr>))"

type_synonym 'a wayland = "WaylandInput \<Rightarrow> 'a res \<times> WaylandInput"

text \<open>A call on the session; without one the program panics.\<close>

definition on_session :: "'a portal \<Rightarrow> 'a wayland" where
  "on_session m w =
     (case wl_session w of
        None \<Rightarrow> (Inl (GoPanic ''invalid memory address or nil pointer dereference''), w)
      | Some s \<Rightarrow> (case m s of (r, s') \<Rightarrow> (r, w\<lparr>wl_session := Some s'\<rparr>)))"

definition input_opts :: "string \<Rightarrow> SessionOpts" where
  "input_opts path =
     \<lparr>so_Capture = True, so_Input = True, so_SourceTypes = 0, so_CursorMode = 0, so_Devices = 0,
      so_RestoreTokenPath = path, so_StartTimeout = 0\<rparr>"

definition open_session :: "portal_world \<Rightarrow> string \<Rightarrow> string option \<Rightarrow> unit wayland" where
  "open_session pw path tokens w =
     (case wl_session w of
        Some s \<Rightarrow> (Inr (), w)
      | None \<Rightarrow>
          (case New pw (input_opts path) tokens of
             (Inr _, s) \<Rightarrow> (Inr (), w\<lparr>wl_session := s, wl_ownSession := True\<rparr>)
           | (Inl e, s) \<Rightarrow> (Inl (ErrorfW ''wayland input: create portal session: %w'' [] e), w)))"

definition take_stream :: "WaylandInput \<Rightarrow> WaylandInput" where
  "take_stream w =
     (case wl_session w of
        None \<Rightarrow> w
      | Some s \<Rightarrow>
          (case ps_streams s of
             [] \<Rightarrow> w
           | st # _ \<Rightarrow> w\<lparr>wl_streamNode := st_NodeID st, wl_streamW := sint (st_Width st), wl_streamH := sint (st_Height st)\<rparr>))"

definition WaylandInput_Init :: "portal_world \<Rightarrow> string \<Rightarrow> string option \<Rightarrow> unit wayland" where
  "WaylandInput_Init pw path tokens =
     bind_io (open_session pw path tokens) (\<lambda>_. modify take_stream)"

definition contains :: "string \<Rightarrow> string \<Rightarrow> bool" where
  "contains s sub \<longleftrightarrow> list_ex (\<lambda>i. take (length sub) (drop i s) = sub) [0..<Suc (length s)]"

definition isNotSupported :: "(goerr \<Rightarrow> string option) \<Rightarrow> goerr \<Rightarrow> bool" where
  "isNotSupported as_dbus err =
     (case as_dbus err of
        Some n \<Rightarrow> contains n ''UnknownMethod'' \<or> contains n ''NotSupported'' \<or> contains n ''NotImplemented''
      | None \<Rightarrow> False)"

text \<open>Lookup in the table of evdev codes.\<close>

definition evdev_code :: "u32 \<Rightarrow> i32 option" where
  "evdev_code key = map_of keysymToEvdev (uint key)"

definition send_keycode :: "portal_world \<Rightarrow> u32 \<Rightarrow> u32 \<Rightarrow> unit wayland" where
  "send_keycode pw key state =
     (case evdev_code key of
        None \<Rightarrow> ret ()
      | Some code \<Rightarrow> on_session (NotifyKeyboardKeycode pw code state))"

definition WaylandInput_KeyEvent :: "portal_world \<Rightarrow> (goerr \<Rightarrow> string option) \<Rightarrow> bool \<Rightarrow> u32 \<Rightarrow> unit wayland" where
  "WaylandInput_KeyEvent pw as_dbus down key w =
     (if wl_session w = None then (Inl (Errorf ''wayland input: not initialized'' []), w)
      else
        let state = (if down then KeyStatePressed else KeyStateReleased) in
        if \<not> wl_keysymUnsupported w
        then (case on_session (NotifyKeyboardKeysym pw key state) w of
                (Inr _, w') \<Rightarrow> (Inr (), w')
              | (Inl err, w') \<Rightarrow>
                  if \<not> isNotSupported as_dbus err then (Inl err, w')
                  else send_keycode pw key state (w'\<lparr>wl_keysymUnsupported := True\<rparr>))
        else send_keycode pw key state w)"

definition wl_buttons :: "i32 list" where
  "wl_buttons = [BtnLeft, BtnMiddle, BtnRight]"

text \<open>The loop over the buttons, which a failing call leaves.\<close>

fun send_buttons :: "portal_world \<Rightarrow> u8 \<Rightarrow> u8 \<Rightarrow> nat list \<Rightarrow> unit wayland" where
  "send_buttons pw changed buttonMask [] = ret ()"
| "send_buttons pw changed buttonMask (i # is) =
     bind_io (if has_bit changed i
              then on_session (NotifyPointerButton pw (wl_buttons ! i)
                     (if has_bit buttonMask i then ButtonStatePressed else ButtonStateReleased))
              else ret ()) (\<lambda>_.
     send_buttons pw changed buttonMask is)"

definition send_axis :: "portal_world \<Rightarrow> bool \<Rightarrow> i32 \<Rightarrow> unit wayland" where
  "send_axis pw b steps w =
     (if b then (Inr (), snd (on_session (NotifyPointerAxisDiscrete pw AxisVertical steps) w)) else (Inr (), w))"

definition WaylandInput_PointerEvent :: "portal_world \<Rightarrow> u8 \<Rightarrow> u16 \<Rightarrow> u16 \<Rightarrow> unit wayland" where
  "WaylandInput_PointerEvent pw buttonMask x y w =
     (if wl_session w = None then (Inl (Errorf ''wayland input: not initialized'' []), w)
      else
        let changed = wl_lastButtonMask w XOR buttonMask in
        bind_io (if wl_streamW w > 0 \<and> wl_streamH w > 0
                 then on_session (NotifyPointerMotionAbsolute pw (wl_streamNode w) (of_nat (unat x)) (of_nat (unat y)))
                 else ret ()) (\<lambda>_.
        bind_io (send_buttons pw changed buttonMask [0..<3]) (\<lambda>_.
        bind_io (send_axis pw (has_bit changed 3 \<and> has_bit buttonMask 3) (- 1)) (\<lambda>_.
        bind_io (send_axis pw (has_bit changed 4 \<and> has_bit buttonMask 4) 1) (\<lambda>_.
        modify (\<lambda>w. w\<lparr>wl_lastButtonMask := buttonMask\<rparr>))))) w)"

text \<open>The session that was closed is returned, too.\<close>

definition WaylandInput_Close :: "portal_world \<Rightarrow> WaylandInput \<Rightarrow> WaylandInput \<times> PortalSession option" where
  "WaylandInput_Close pw w =
     (case wl_session w of
        Some s \<Rightarrow> if wl_ownSession w then (w\<lparr>wl_session := None\<rparr>, Some (Session_Close pw s)) else (w, None)
      | None \<Rightarrow> (w, None))"

section \<open>Calls on a session\<close>

definition wl_ready :: "WaylandInput \<Rightarrow> bool" where
  "wl_ready w \<longleftrightarrow> (case wl_session w of None \<Rightarrow> False | Some s \<Rightarrow> so_Input (ps_opts s) \<and> ps_sessionHandle s \<noteq> [])"

definition wl_calls :: "WaylandInput \<Rightarrow> dbus_call list" where
  "wl_calls w = (case wl_session w of None \<Rightarrow> [] | Some s \<Rightarrow> ps_calls s)"

definition wl_core :: "WaylandInput \<Rightarrow> bool \<times> u32 \<times> int \<times> int \<times> u8 \<times> bool" where
  "wl_core w = (wl_ownSession w, wl_streamNode w, wl_streamW w, wl_streamH w, wl_lastButtonMask w, wl_keysymUnsupported w)"

text \<open>Method and arguments of a call, without the session and the empty options.\<close>

definition shape_of :: "dbus_call \<Rightarrow> string \<times> variant list" where
  "shape_of c = (dc_method c, drop 2 (dc_args c))"

definition reply_to :: "portal_world \<Rightarrow> string \<Rightarrow> variant list \<Rightarrow> PortalSession \<Rightarrow> string res" where
  "reply_to pw meth args s = oc_reply (pw_bus pw (ps_calls s) (notify_call meth args s))"

text \<open>One method call: it is recorded, its reply is the result, nothing else changes.\<close>

lemma on_session_notify:
  assumes "wl_ready w"
  obtains s w' where "wl_session w = Some s"
    and "on_session (notify pw meth args) w = (rbind (reply_to pw meth args s) (\<lambda>_. Inr ()), w')"
    and "wl_ready w'" and "wl_core w' = wl_core w" and "wl_calls w' = wl_calls w @ [notify_call meth args s]"
proof -
  obtain s where s: "wl_session w = Some s" "so_Input (ps_opts s)" "ps_sessionHandle s \<noteq> []"
    using assms by (auto simp: wl_ready_def split: option.splits)
  define s' where "s' = fold listen (oc_early (pw_bus pw (ps_calls s) (notify_call meth args s)))
      (s\<lparr>ps_calls := ps_calls s @ [notify_call meth args s]\<rparr>)"
  have "core s' = core s" "ps_calls s' = ps_calls s @ [notify_call meth args s]" by (simp_all add: s'_def)
  moreover have "on_session (notify pw meth args) w =
      (rbind (reply_to pw meth args s) (\<lambda>_. Inr ()), w\<lparr>wl_session := Some s'\<rparr>)"
    using s by (cases "reply_to pw meth args s")
      (auto simp: on_session_def notify_def checkInputSession_def bind_io_def get_state_def ret_def Call_def Let_def s'_def
        reply_to_def)
  ultimately show thesis using s core_fields [of s' s]
    by (intro that [of s "w\<lparr>wl_session := Some s'\<rparr>"]) (auto simp: wl_ready_def wl_core_def wl_calls_def)
qed

text \<open>A program that makes some calls, in order, and changes nothing else; \<open>P\<close> is what it needs of the portal.\<close>

definition sends :: "(string \<times> variant list) list \<Rightarrow> unit wayland \<Rightarrow> bool" where
  "sends shapes m \<longleftrightarrow> (\<forall>w. wl_ready w \<longrightarrow>
     (\<exists>w' cs. m w = (Inr (), w') \<and> wl_ready w' \<and> wl_core w' = wl_core w \<and> wl_calls w' = wl_calls w @ cs \<and> map shape_of cs = shapes))"

definition portal_works :: "portal_world \<Rightarrow> bool" where
  "portal_works pw \<longleftrightarrow> (\<forall>cs c. \<exists>p. oc_reply (pw_bus pw cs c) = Inr p)"

lemma sends_ret: "sends [] (ret ())"
  by (simp add: sends_def ret_def)

lemma sends_notify:
  assumes "portal_works pw"
  shows "sends [(ifaceRemoteDesktop @ meth, args)] (on_session (notify pw meth args))"
  unfolding sends_def
proof (intro allI impI)
  fix w
  assume "wl_ready w"
  then obtain s w' where n: "on_session (notify pw meth args) w = (rbind (reply_to pw meth args s) (\<lambda>_. Inr ()), w')"
    "wl_ready w'" "wl_core w' = wl_core w" "wl_calls w' = wl_calls w @ [notify_call meth args s]"
    by (rule on_session_notify)
  have "rbind (reply_to pw meth args s) (\<lambda>_. Inr ()) = Inr ()"
    using assms unfolding portal_works_def reply_to_def by (metis rbind.simps(2))
  then show "\<exists>w' cs. on_session (notify pw meth args) w = (Inr (), w') \<and> wl_ready w' \<and> wl_core w' = wl_core w \<and>
      wl_calls w' = wl_calls w @ cs \<and> map shape_of cs = [(ifaceRemoteDesktop @ meth, args)]"
    using n by (auto simp: shape_of_def notify_call_def)
qed

lemma sends_bind: "sends a m \<Longrightarrow> sends b k \<Longrightarrow> sends (a @ b) (bind_io m (\<lambda>_. k))"
  unfolding sends_def bind_io_def
proof (intro allI impI)
  fix w
  assume m: "\<forall>w. wl_ready w \<longrightarrow> (\<exists>w' cs. m w = (Inr (), w') \<and> wl_ready w' \<and> wl_core w' = wl_core w \<and>
      wl_calls w' = wl_calls w @ cs \<and> map shape_of cs = a)"
    and k: "\<forall>w. wl_ready w \<longrightarrow> (\<exists>w' cs. k w = (Inr (), w') \<and> wl_ready w' \<and> wl_core w' = wl_core w \<and>
      wl_calls w' = wl_calls w @ cs \<and> map shape_of cs = b)" and "wl_ready w"
  then obtain w1 cs where 1: "m w = (Inr (), w1)" "wl_ready w1" "wl_core w1 = wl_core w" "wl_calls w1 = wl_calls w @ cs" "map shape_of cs = a"
    by blast
  then obtain w2 ds where "k w1 = (Inr (), w2)" "wl_ready w2" "wl_core w2 = wl_core w1" "wl_calls w2 = wl_calls w1 @ ds" "map shape_of ds = b"
    using k by blast
  with 1 show "\<exists>w' cs. (case m w of (Inl e, c') \<Rightarrow> (Inl e, c') | (Inr x, c') \<Rightarrow> k c') = (Inr (), w') \<and> wl_ready w' \<and>
      wl_core w' = wl_core w \<and> wl_calls w' = wl_calls w @ cs \<and> map shape_of cs = a @ b"
    by (intro exI [of _ w2] exI [of _ "cs @ ds"]) simp
qed

lemma sends_if: "(b \<Longrightarrow> sends a m) \<Longrightarrow> sends (if b then a else []) (if b then m else ret ())"
  by (simp add: sends_ret)

section \<open>The pointer\<close>

definition button_shape :: "nat \<Rightarrow> bool \<Rightarrow> string \<times> variant list" where
  "button_shape i down = (ifaceRemoteDesktop @ ''.NotifyPointerButton'',
     [VInt32 (wl_buttons ! i), VUint32 (if down then ButtonStatePressed else ButtonStateReleased)])"

lemma sends_buttons:
  "portal_works pw \<Longrightarrow> sends (concat (map (\<lambda>i. if has_bit changed i then [button_shape i (has_bit m i)] else []) is))
     (send_buttons pw changed m is)"
proof (induction "is")
  case (Cons i "is")
  have "sends ((if has_bit changed i then [button_shape i (has_bit m i)] else []) @
      concat (map (\<lambda>i. if has_bit changed i then [button_shape i (has_bit m i)] else []) is)) (send_buttons pw changed m (i # is))"
    unfolding send_buttons.simps button_shape_def [of i] NotifyPointerButton_def
    by (intro sends_bind sends_if sends_notify Cons)
  then show ?case by simp
qed (simp add: sends_ret)

lemma sends_axis:
  assumes "portal_works pw"
  shows "sends (if b then [(ifaceRemoteDesktop @ ''.NotifyPointerAxisDiscrete'', [VUint32 AxisVertical, VInt32 n])] else []) (send_axis pw b n)"
proof -
  have "sends [(ifaceRemoteDesktop @ ''.NotifyPointerAxisDiscrete'', [VUint32 AxisVertical, VInt32 n])]
      (on_session (NotifyPointerAxisDiscrete pw AxisVertical n))"
    unfolding NotifyPointerAxisDiscrete_def by (rule sends_notify [OF assms])
  then show ?thesis unfolding sends_def send_axis_def by (cases b) (fastforce simp: ret_def)+
qed

text \<open>The button a call is about.\<close>

fun shape_press :: "string \<times> variant list \<Rightarrow> (nat \<times> bool) option" where
  "shape_press (meth, [VInt32 b, VUint32 state]) =
     (if meth \<noteq> ifaceRemoteDesktop @ ''.NotifyPointerButton'' then None
      else if b = BtnLeft then Some (0, state = ButtonStatePressed)
      else if b = BtnMiddle then Some (1, state = ButtonStatePressed)
      else if b = BtnRight then Some (2, state = ButtonStatePressed)
      else None)"
| "shape_press _ = None"

definition wl_press :: "dbus_call \<Rightarrow> (nat \<times> bool) option" where
  "wl_press c = shape_press (shape_of c)"

lemma held_after_map: "held_after wl_press cs held = held_after shape_press (map shape_of cs) held"
  by (induction cs arbitrary: held) (simp_all add: hold_def wl_press_def)

lemma shape_press_button: "i < 3 \<Longrightarrow> shape_press (button_shape i down) = Some (i, down)"
  by (auto simp: button_shape_def wl_buttons_def BtnLeft_def BtnMiddle_def BtnRight_def ButtonStatePressed_def
      ButtonStateReleased_def dest!: less_3_cases)

lemma shape_press_other: "shape_press (ifaceRemoteDesktop @ ''.NotifyPointerAxisDiscrete'', args) = None"
  by (cases "(ifaceRemoteDesktop @ ''.NotifyPointerAxisDiscrete'', args)" rule: shape_press.cases) auto

text \<open>All calls of a pointer event.\<close>

definition pointer_shapes :: "WaylandInput \<Rightarrow> u8 \<Rightarrow> u16 \<Rightarrow> u16 \<Rightarrow> (string \<times> variant list) list" where
  "pointer_shapes w m x y =
     (let changed = wl_lastButtonMask w XOR m; axis = ifaceRemoteDesktop @ ''.NotifyPointerAxisDiscrete'' in
      (if wl_streamW w > 0 \<and> wl_streamH w > 0
       then [(ifaceRemoteDesktop @ ''.NotifyPointerMotionAbsolute'',
              [VUint32 (wl_streamNode w), VDouble (of_nat (unat x)), VDouble (of_nat (unat y))])] else []) @
      concat (map (\<lambda>i. if has_bit changed i then [button_shape i (has_bit m i)] else []) [0..<3]) @
      (if has_bit changed 3 \<and> has_bit m 3 then [(axis, [VUint32 AxisVertical, VInt32 (- 1)])] else []) @
      (if has_bit changed 4 \<and> has_bit m 4 then [(axis, [VUint32 AxisVertical, VInt32 1])] else []))"

lemma bind_modify: "bind_io m (\<lambda>_. modify f) w = (case m w of (Inl e, w') \<Rightarrow> (Inl e, w') | (Inr _, w') \<Rightarrow> (Inr (), f w'))"
  by (auto simp: bind_io_def modify_def split: prod.split sum.split)

lemma PointerEvent_sends:
  assumes "portal_works pw" and "wl_ready w"
  obtains w' cs where "WaylandInput_PointerEvent pw m x y w = (Inr (), w')" and "wl_ready w'" and "wl_lastButtonMask w' = m"
    and "wl_calls w' = wl_calls w @ cs" and "map shape_of cs = pointer_shapes w m x y"
proof -
  let ?changed = "wl_lastButtonMask w XOR m"
  define body where "body =
     bind_io (if wl_streamW w > 0 \<and> wl_streamH w > 0
              then on_session (NotifyPointerMotionAbsolute pw (wl_streamNode w) (of_nat (unat x)) (of_nat (unat y)))
              else ret ()) (\<lambda>_.
     bind_io (send_buttons pw ?changed m [0..<3]) (\<lambda>_.
     bind_io (send_axis pw (has_bit ?changed 3 \<and> has_bit m 3) (- 1)) (\<lambda>_.
     send_axis pw (has_bit ?changed 4 \<and> has_bit m 4) 1)))"
  have "sends (pointer_shapes w m x y) body"
    unfolding pointer_shapes_def body_def Let_def NotifyPointerMotionAbsolute_def
    by (intro sends_bind sends_if sends_notify sends_buttons sends_axis assms(1))
  then obtain w1 cs where b: "body w = (Inr (), w1)" "wl_ready w1" "wl_calls w1 = wl_calls w @ cs"
    "map shape_of cs = pointer_shapes w m x y"
    using assms(2) unfolding sends_def by blast
  have "wl_session w \<noteq> None" using assms(2) by (auto simp: wl_ready_def split: option.splits)
  then have "WaylandInput_PointerEvent pw m x y w = bind_io body (\<lambda>_. modify (\<lambda>w. w\<lparr>wl_lastButtonMask := m\<rparr>)) w"
    by (auto simp: WaylandInput_PointerEvent_def body_def bind_io_assoc Let_def)
  then show thesis using b
    by (intro that [of "w1\<lparr>wl_lastButtonMask := m\<rparr>" cs]) (simp_all add: bind_modify wl_ready_def wl_calls_def)
qed

lemma pointer_shapes_held:
  "held_after shape_press (pointer_shapes w m x y) held =
     (\<lambda>i. if i < 3 \<and> bit (wl_lastButtonMask w XOR m) i then bit m i else held i)"
proof -
  have "held_after shape_press (concat (map (\<lambda>i. if has_bit c i then [button_shape i (has_bit m i)] else []) [0..<3])) held =
      (\<lambda>i. if i < 3 \<and> bit c i then bit m i else held i)" for c held
    by (rule held_after_loop) (simp add: shape_press_button)
  then show ?thesis
    by (simp add: pointer_shapes_def Let_def hold_def shape_press_other del: upt_rec_numeral has_bit_bit)
qed

text \<open>The calls of one event, as the events of an injector.\<close>

definition wl_pointer :: "portal_world \<Rightarrow> u8 \<Rightarrow> u16 \<Rightarrow> u16 \<Rightarrow> WaylandInput \<Rightarrow> (dbus_call, WaylandInput) injected" where
  "wl_pointer pw m x y w =
     (case WaylandInput_PointerEvent pw m x y w of (r, w') \<Rightarrow> (r, drop (length (wl_calls w)) (wl_calls w'), w'))"

interpretation wayland: pointer_injector wl_pointer portal_works wl_ready wl_lastButtonMask wl_press 3
proof unfold_locales
  fix pw and w :: WaylandInput and held :: "nat \<Rightarrow> bool" and m x y
  assume ok: "portal_works pw" "wl_ready w" and held: "\<And>i. i < 3 \<Longrightarrow> held i = bit (wl_lastButtonMask w) i"
  obtain w' cs where "WaylandInput_PointerEvent pw m x y w = (Inr (), w')" "wl_ready w'" "wl_lastButtonMask w' = m"
    "wl_calls w' = wl_calls w @ cs" "map shape_of cs = pointer_shapes w m x y"
    by (rule PointerEvent_sends [OF ok])
  then show "\<exists>es w'. wl_pointer pw m x y w = (Inr (), es, w') \<and> wl_ready w' \<and> wl_lastButtonMask w' = m \<and>
      (\<forall>i < 3. held_after wl_press es held i = bit m i)"
    using held by (simp add: wl_pointer_def held_after_map pointer_shapes_held bit_changed)
qed

section \<open>From the client to the desktop\<close>

text \<open>The mask of the last pointer message.\<close>

fun last_pointer :: "client_msg list \<Rightarrow> u8 \<Rightarrow> u8" where
  "last_pointer [] m = m"
| "last_pointer (CPointer p # ms) m = last_pointer ms (ptr_ButtonMask p)"
| "last_pointer (_ # ms) m = last_pointer ms m"

lemma final_mask_effects:
  assumes "sc_hasInput cfg"
  shows "final_mask (cc_input (fold (client_effect cfg) ms c)) 0 = last_pointer ms (final_mask (cc_input c) 0)"
proof (induction ms arbitrary: c)
  case (Cons m ms)
  then show ?case using assms by (cases m) simp_all
qed simp

text \<open>
  C14: What a client presses is what the desktop holds, on every platform. When the server has
  processed any sequence of well-formed messages of a client, and the events it passed on have
  been injected, in order, by the X11, the Windows, the macOS or the Wayland injector, exactly the buttons of
  the client's last pointer message are down: no press is lost or left behind, whatever
  keys and clipboard messages came in between. (The three mouse buttons; X11 also has the two
  wheel buttons.) For Wayland the method calls of the portal have to succeed.
\<close>

theorem client_buttons_held:
  assumes "wire s = live (concat (map enc_client_msg ms)) out" and "cc_errCh (ses_client s) = None"
    and "\<And>m. m \<in> set ms \<Longrightarrow> valid_client_msg m" and "sc_hasInput (ses_config s)" and "cc_input (ses_client s) = []"
    and "screen_ok screen" and "portal_works pw" and "wl_ready w" and "wl_lastButtonMask w = 0"
  shows "\<exists>e s'. serveMessages s = Some (e, s') \<and>
    (let calls = cc_input (ses_client s'); mask = last_pointer ms 0; none = (\<lambda>i :: nat. False);
         xs = fst (run_pointer (\<lambda>v. X11Input_PointerEvent) (map (Pair ()) calls) (snd (X11Input_Init True True newX11Input)));
         ws = fst (run_pointer WindowsInput_PointerEvent (map (Pair screen) calls) newWindowsInput);
         ds = fst (run_pointer (\<lambda>v. DarwinInput_PointerEvent) (map (Pair ()) calls) newDarwinInput);
         ps = fst (run_pointer wl_pointer (map (Pair pw) calls) w)
     in (\<forall>i < 5. held_after x11_press xs none i = bit mask i) \<and>
        (\<forall>i < 3. held_after win_press ws none i = bit mask i \<and> held_after mac_press ds none i = bit mask i \<and>
           held_after wl_press ps none i = bit mask i))"
proof -
  define s' where "s' = upd_client (\<lambda>c. fold (client_effect (ses_config s)) ms (c\<lparr>cc_conn := live [] out\<rparr>)) s"
  have run: "serveMessages s = Some (ErrorfW ''read message type: %w'' [] EOF, s')"
    unfolding serveMessages_def s'_def
    by (rule serve_loop_msgs [OF assms(1-3)]) (use assms(1) concat_enc_length [of ms] in \<open>auto simp: less_Suc_eq_le simp del: length_concat\<close>)
  have mask: "final_mask (map snd (map (Pair v) (cc_input (ses_client s')))) 0 = last_pointer ms 0" for v :: 'v
    using final_mask_effects [OF assms(4), of ms] assms(5) by (simp add: s'_def upd_client_def comp_def)
  have init: "snd (X11Input_Init True True newX11Input) = \<lparr>xi_ctx = True, xi_lastButtonMask = 0\<rparr>"
    by (simp add: X11Input_Init_def x11_input_init_def newX11Input_def)
  show ?thesis unfolding run Let_def init
    using x11.run_holds [where cs = "map (Pair ()) (cc_input (ses_client s'))" and s = "\<lparr>xi_ctx = True, xi_lastButtonMask = 0\<rparr>" and held = "\<lambda>i. False"]
      win.run_holds [where cs = "map (Pair screen) (cc_input (ses_client s'))" and s = newWindowsInput and held = "\<lambda>i. False"]
      mac.run_holds [where cs = "map (Pair ()) (cc_input (ses_client s'))" and s = newDarwinInput and held = "\<lambda>i. False"]
      wayland.run_holds [where cs = "map (Pair pw) (cc_input (ses_client s'))" and s = w and held = "\<lambda>i. False"] assms(6-9)
    unfolding newWindowsInput_def newDarwinInput_def by (simp add: mask [simplified])
qed

section \<open>The keyboard\<close>

definition key_shape :: "bool \<Rightarrow> u32 \<Rightarrow> (string \<times> variant list) list" where
  "key_shape down key =
     (case evdev_code key of
        None \<Rightarrow> []
      | Some code \<Rightarrow> [(ifaceRemoteDesktop @ ''.NotifyKeyboardKeycode'',
          [VInt32 code, VUint32 (if down then KeyStatePressed else KeyStateReleased)])])"

definition keysym_shape :: "bool \<Rightarrow> u32 \<Rightarrow> string \<times> variant list" where
  "keysym_shape down key = (ifaceRemoteDesktop @ ''.NotifyKeyboardKeysym'',
     [VInt32 key, VUint32 (if down then KeyStatePressed else KeyStateReleased)])"

text \<open>A portal without the method for keysyms, as older backends are, in which the other calls succeed.\<close>

definition lacks_keysyms :: "portal_world \<Rightarrow> (goerr \<Rightarrow> string option) \<Rightarrow> bool" where
  "lacks_keysyms pw as_dbus \<longleftrightarrow>
     (\<forall>cs c. if dc_method c = ifaceRemoteDesktop @ ''.NotifyKeyboardKeysym''
        then \<exists>e. oc_reply (pw_bus pw cs c) = Inl e \<and> isNotSupported as_dbus e
        else \<exists>p. oc_reply (pw_bus pw cs c) = Inr p)"

text \<open>Key events one after the other: the results and the injector afterwards.\<close>

fun run_keys :: "portal_world \<Rightarrow> (goerr \<Rightarrow> string option) \<Rightarrow> (bool \<times> u32) list \<Rightarrow> WaylandInput \<Rightarrow> unit res list \<times> WaylandInput" where
  "run_keys pw as_dbus [] w = ([], w)"
| "run_keys pw as_dbus ((down, key) # ks) w =
     (case WaylandInput_KeyEvent pw as_dbus down key w of (r, w') \<Rightarrow>
        case run_keys pw as_dbus ks w' of (rs, w'') \<Rightarrow> (r # rs, w''))"

lemma send_keycode_sends:
  assumes "lacks_keysyms pw as_dbus" and "wl_ready w"
  obtains w' cs where "send_keycode pw key (if down then KeyStatePressed else KeyStateReleased) w = (Inr (), w')" and "wl_ready w'"
    and "wl_core w' = wl_core w" and "wl_calls w' = wl_calls w @ cs" and "map shape_of cs = key_shape down key"
proof (cases "evdev_code key")
  case None
  then show thesis using that [of w "[]"] assms(2) by (simp add: send_keycode_def ret_def key_shape_def)
next
  case (Some code)
  let ?args = "[VInt32 code, VUint32 (if down then KeyStatePressed else KeyStateReleased)]"
  obtain s w' where n: "on_session (notify pw ''.NotifyKeyboardKeycode'' ?args) w =
      (rbind (reply_to pw ''.NotifyKeyboardKeycode'' ?args s) (\<lambda>_. Inr ()), w')"
    "wl_ready w'" "wl_core w' = wl_core w" "wl_calls w' = wl_calls w @ [notify_call ''.NotifyKeyboardKeycode'' ?args s]"
    by (rule on_session_notify [OF assms(2)])
  have "dc_method (notify_call ''.NotifyKeyboardKeycode'' ?args s) \<noteq> ifaceRemoteDesktop @ ''.NotifyKeyboardKeysym''"
    by (simp add: notify_call_def)
  then obtain p where "reply_to pw ''.NotifyKeyboardKeycode'' ?args s = Inr p"
    using assms(1) unfolding lacks_keysyms_def reply_to_def by metis
  then show thesis using that [of w'] n Some
    by (simp add: send_keycode_def NotifyKeyboardKeycode_def key_shape_def shape_of_def notify_call_def)
qed

lemma KeyEvent_fallback:
  assumes "lacks_keysyms pw as_dbus" and "wl_ready w"
  obtains w' cs where "WaylandInput_KeyEvent pw as_dbus down key w = (Inr (), w')" and "wl_ready w'" and "wl_keysymUnsupported w'"
    and "wl_calls w' = wl_calls w @ cs"
    and "map shape_of cs = (if wl_keysymUnsupported w then [] else [keysym_shape down key]) @ key_shape down key"
proof -
  have some: "wl_session w \<noteq> None" using assms(2) by (auto simp: wl_ready_def split: option.splits)
  let ?st = "if down then KeyStatePressed else KeyStateReleased"
  show thesis
  proof (cases "wl_keysymUnsupported w")
    case True
    obtain w' cs where "send_keycode pw key ?st w = (Inr (), w')" "wl_ready w'" "wl_core w' = wl_core w"
      "wl_calls w' = wl_calls w @ cs" "map shape_of cs = key_shape down key"
      by (rule send_keycode_sends [OF assms])
    then show ?thesis using that [of w' cs] True some by (auto simp: WaylandInput_KeyEvent_def wl_core_def Let_def)
  next
    case False
    let ?args = "[VInt32 key, VUint32 ?st]"
    obtain s w1 where n: "on_session (notify pw ''.NotifyKeyboardKeysym'' ?args) w =
        (rbind (reply_to pw ''.NotifyKeyboardKeysym'' ?args s) (\<lambda>_. Inr ()), w1)"
      "wl_ready w1" "wl_core w1 = wl_core w" "wl_calls w1 = wl_calls w @ [notify_call ''.NotifyKeyboardKeysym'' ?args s]"
      by (rule on_session_notify [OF assms(2)])
    obtain e where e: "reply_to pw ''.NotifyKeyboardKeysym'' ?args s = Inl e" "isNotSupported as_dbus e"
      using assms(1) unfolding lacks_keysyms_def reply_to_def by (metis notify_call_def dbus_call.simps(2))
    have "wl_ready (w1\<lparr>wl_keysymUnsupported := True\<rparr>)" using n(2) by (simp add: wl_ready_def)
    then obtain w2 cs where "send_keycode pw key ?st (w1\<lparr>wl_keysymUnsupported := True\<rparr>) = (Inr (), w2)" "wl_ready w2"
      "wl_core w2 = wl_core (w1\<lparr>wl_keysymUnsupported := True\<rparr>)" "wl_calls w2 = wl_calls (w1\<lparr>wl_keysymUnsupported := True\<rparr>) @ cs"
      "map shape_of cs = key_shape down key"
      by (rule send_keycode_sends [OF assms(1)])
    then show ?thesis
      using that [of w2 "notify_call ''.NotifyKeyboardKeysym'' ?args s # cs"] n e False some
      by (auto simp: WaylandInput_KeyEvent_def NotifyKeyboardKeysym_def Let_def wl_core_def wl_calls_def keysym_shape_def
          shape_of_def notify_call_def)
  qed
qed

lemma run_keys_unsupported:
  assumes "lacks_keysyms pw as_dbus" and "wl_ready w" and "wl_keysymUnsupported w"
  obtains w' cs where "run_keys pw as_dbus ks w = (replicate (length ks) (Inr ()), w')"
    and "wl_calls w' = wl_calls w @ cs" and "map shape_of cs = concat (map (\<lambda>(down, key). key_shape down key) ks)"
  using assms(2,3)
proof (induction ks arbitrary: w thesis)
  case Nil
  then show ?case by simp
next
  case (Cons k ks)
  obtain down key where k: "k = (down, key)" by (cases k)
  obtain w1 cs where 1: "WaylandInput_KeyEvent pw as_dbus down key w = (Inr (), w1)" "wl_ready w1" "wl_keysymUnsupported w1"
    "wl_calls w1 = wl_calls w @ cs" "map shape_of cs = key_shape down key"
    using KeyEvent_fallback [OF assms(1) Cons.prems(2), of down key] Cons.prems(3) by auto
  obtain w2 ds where "run_keys pw as_dbus ks w1 = (replicate (length ks) (Inr ()), w2)"
    "wl_calls w2 = wl_calls w1 @ ds" "map shape_of ds = concat (map (\<lambda>(down, key). key_shape down key) ks)"
    by (rule Cons.IH [OF _ 1(2,3)])
  then show ?case using Cons.prems(1) [of w2 "cs @ ds"] 1 k by simp
qed

text \<open>
  On a portal without \<^verbatim>\<open>NotifyKeyboardKeysym\<close> no key is lost: the method is tried once, with the
  first key; this key and all later ones that the evdev table knows are injected by their
  key codes, in order, presses and releases alike, and every event succeeds.
\<close>

lemma keycode_fallback:
  assumes "lacks_keysyms pw as_dbus" and "wl_ready w" and "\<not> wl_keysymUnsupported w"
  shows "\<exists>w' cs. run_keys pw as_dbus ((down, key) # ks) w = (replicate (Suc (length ks)) (Inr ()), w') \<and>
    wl_calls w' = wl_calls w @ cs \<and>
    map shape_of cs = keysym_shape down key # concat (map (\<lambda>(down, key). key_shape down key) ((down, key) # ks))"
proof -
  obtain w1 cs where 1: "WaylandInput_KeyEvent pw as_dbus down key w = (Inr (), w1)" "wl_ready w1" "wl_keysymUnsupported w1"
    "wl_calls w1 = wl_calls w @ cs" "map shape_of cs = keysym_shape down key # key_shape down key"
    using KeyEvent_fallback [OF assms(1,2), of down key] assms(3) by auto
  obtain w2 ds where "run_keys pw as_dbus ks w1 = (replicate (length ks) (Inr ()), w2)"
    "wl_calls w2 = wl_calls w1 @ ds" "map shape_of ds = concat (map (\<lambda>(down, key). key_shape down key) ks)"
    by (rule run_keys_unsupported [OF assms(1) 1(2,3)])
  then show ?thesis using 1 by (intro exI [of _ w2] exI [of _ "cs @ ds"]) simp
qed


section \<open>Portals without a meth, and with a failing call\<close>

definition ext_name :: "goerr \<Rightarrow> string option" where
  "ext_name e = (case e of Ext n \<Rightarrow> Some n | _ \<Rightarrow> None)"

definition keyless_bus :: "dbus_call list \<Rightarrow> dbus_call \<Rightarrow> outcome" where
  "keyless_bus cs c =
     \<lparr>oc_early = [],
      oc_reply = (if dc_method c = ifaceRemoteDesktop @ ''.NotifyKeyboardKeysym''
                  then Inl (Ext ''org.freedesktop.DBus.Error.UnknownMethod'') else Inr []),
      oc_late = []\<rparr>"

text \<open>A portal that rejects one press of the right button.\<close>

definition failing_bus :: "dbus_call list \<Rightarrow> dbus_call \<Rightarrow> outcome" where
  "failing_bus cs c =
     \<lparr>oc_early = [],
      oc_reply = (if dc_args c = [VObjectPath ''/s'', VDict [], VInt32 BtnRight, VUint32 1] then Inl (Ext ''busy'') else Inr []),
      oc_late = []\<rparr>"

definition demo_injector :: WaylandInput where
  "demo_injector =
     WaylandInput_zero\<lparr>wl_session := Some ((newSession demo_opts '':1.42'' None)\<lparr>ps_sessionHandle := ''/s''\<rparr>)\<rparr>"

lemma demo_injector_ready: "wl_ready demo_injector" "\<not> wl_keysymUnsupported demo_injector" "wl_lastButtonMask demo_injector = 0"
  by (simp_all add: demo_injector_def wl_ready_def newSession_def demo_opts_def WaylandInput_zero_def)

lemma keyless_lacks: "lacks_keysyms (demo_portal keyless_bus) ext_name"
proof -
  have "contains ''org.freedesktop.DBus.Error.UnknownMethod'' ''UnknownMethod''" by code_simp
  then show ?thesis by (simp add: lacks_keysyms_def demo_portal_def keyless_bus_def isNotSupported_def ext_name_def)
qed

lemma keycode_fallback_witness:
  "\<exists>w' cs. run_keys (demo_portal keyless_bus) ext_name [(True, 0x61), (False, 0x61)] demo_injector = (replicate 2 (Inr ()), w') \<and>
    wl_calls w' = wl_calls demo_injector @ cs \<and>
    map shape_of cs = keysym_shape True 0x61 # key_shape True 0x61 @ key_shape False 0x61"
  using keycode_fallback [OF keyless_lacks demo_injector_ready(1,2), of True "0x61" "[(False, 0x61)]"]
  by (simp add: numeral_2_eq_2)

text \<open>
  A failing call can leave a button down. When the press of the right button fails after the
  press of the left one, \<^verbatim>\<open>PointerEvent\<close> returns without remembering that the left button is down;
  the event that releases both then changes nothing, and the desktop goes on holding the left button.
\<close>

lemma failed_button_sticks:
  "let (r1, es1, w1) = wl_pointer (demo_portal failing_bus) 5 0 0 demo_injector;
       (r2, es2, w2) = wl_pointer (demo_portal failing_bus) 0 0 0 w1
   in r1 = Inl (Ext ''busy'') \<and> r2 = Inr () \<and> es2 = [] \<and> wl_lastButtonMask w2 = 0 \<and>
      held_after wl_press (es1 @ es2) (\<lambda>i. False) 0"
  by (simp add: wl_pointer_def WaylandInput_PointerEvent_def demo_injector_def WaylandInput_zero_def newSession_def demo_opts_def
      demo_portal_def failing_bus_def bind_io_def ret_def upt_rec send_axis_def modify_def on_session_def NotifyPointerButton_def
      notify_def checkInputSession_def get_state_def Call_def notify_call_def wl_buttons_def Let_def wl_calls_def hold_def wl_press_def
      shape_of_def BtnLeft_def BtnRight_def BtnMiddle_def ButtonStatePressed_def ButtonStateReleased_def bit_xor_iff)


lemma demo_portal_works: "portal_works (demo_portal demo_bus)"
  by (simp add: portal_works_def demo_portal_def demo_bus_def Let_def)

theorem client_buttons_held_witness:
  "let p = \<lparr>ptr_ButtonMask = 5, ptr_X = 3, ptr_Y = 4\<rparr>;
       s = \<lparr>ses_config = example_config, ses_client = newClientConn example_config (live (concat (map enc_client_msg [CPointer p])) [])\<rparr>
   in \<exists>e s'. serveMessages s = Some (e, s') \<and>
        held_after win_press (fst (run_pointer WindowsInput_PointerEvent (map (Pair (1920, 1080)) (cc_input (ses_client s'))) newWindowsInput))
          (\<lambda>i. False) 2 \<and>
        \<not> held_after wl_press (fst (run_pointer wl_pointer (map (Pair (demo_portal demo_bus)) (cc_input (ses_client s'))) demo_injector))
          (\<lambda>i. False) 1"
proof -
  let ?p = "\<lparr>ptr_ButtonMask = 5, ptr_X = 3, ptr_Y = 4\<rparr>"
  let ?s = "\<lparr>ses_config = example_config, ses_client = newClientConn example_config (live (concat (map enc_client_msg [CPointer ?p])) [])\<rparr>"
  obtain e s' where run: "serveMessages ?s = Some (e, s')"
    and held: "\<forall>i < 3. held_after win_press (fst (run_pointer WindowsInput_PointerEvent (map (Pair (1920, 1080)) (cc_input (ses_client s'))) newWindowsInput))
          (\<lambda>i. False) i = bit (5 :: u8) i \<and>
        held_after wl_press (fst (run_pointer wl_pointer (map (Pair (demo_portal demo_bus)) (cc_input (ses_client s'))) demo_injector))
          (\<lambda>i. False) i = bit (5 :: u8) i"
    using client_buttons_held [of ?s "[CPointer ?p]" "[]" "(1920, 1080)" "demo_portal demo_bus" demo_injector]
    by (auto simp: newClientConn_def screen_ok_def demo_portal_works demo_injector_ready example_config_def Let_def)
  then show ?thesis unfolding Let_def by (intro exI [of _ e] exI [of _ s'] conjI) (simp_all only: run held, simp_all)
qed

end
