(* ===== verification/Waylandcapture.thy ===== *)
theory Waylandcapture
  imports Portal Memory
begin

text \<open>
  \<^verbatim>\<open>capture_linux_wayland.go\<close>: screen capture through PipeWire. The C part keeps the latest frame in a
  buffer under a lock; its callbacks run on PipeWire's thread, the reader is the Go side. An access
  outside a memory block is the result \<^const>\<open>None\<close>. Sizes are those of the negotiated format, at most 8192 in
  both directions, so the arithmetic in \<^verbatim>\<open>int\<close> does not overflow and they are natural numbers. Video
  buffers, the memory allocator and the results of PipeWire's functions are arguments.
\<close>

section \<open>The display server\<close>

definition capture_detectDisplayServer :: "(string \<Rightarrow> string) \<Rightarrow> string" where
  "capture_detectDisplayServer Getenv =
     (if Getenv ''XDG_SESSION_TYPE'' = ''wayland'' then ''wayland''
      else if Getenv ''XDG_SESSION_TYPE'' = ''x11'' then ''x11''
      else if Getenv ''WAYLAND_DISPLAY'' \<noteq> [] then ''wayland''
      else if Getenv ''DISPLAY'' \<noteq> [] then ''x11''
      else ''unknown'')"

section \<open>The stream\<close>

record pw_capture =
  pc_width :: nat
  pc_height :: nat
  pc_stride :: nat
  pc_format :: nat
  pc_frame :: "bytes option"
  pc_ready :: bool
  pc_fatal :: bool

definition pw_capture_zero :: pw_capture where
  "pw_capture_zero =
     \<lparr>pc_width = 0, pc_height = 0, pc_stride = 0, pc_format = 0, pc_frame = None, pc_ready = False, pc_fatal = False\<rparr>"

definition frame_cap :: "pw_capture \<Rightarrow> nat" where
  "frame_cap c = (case pc_frame c of None \<Rightarrow> 0 | Some f \<Rightarrow> length f)"

definition on_stream_state_changed :: "bool \<Rightarrow> pw_capture \<Rightarrow> pw_capture" where
  "on_stream_state_changed is_error c = (if is_error then c\<lparr>pc_fatal := True\<rparr> else c)"

text \<open>
  \<^verbatim>\<open>on_stream_param_changed\<close>, for a format that parses as raw video: the fields are written first,
  without the lock, then, with it, the frame is allocated anew when it is too small.
\<close>

definition set_format :: "nat \<Rightarrow> nat \<Rightarrow> nat \<Rightarrow> pw_capture \<Rightarrow> pw_capture" where
  "set_format fmt w h c = c\<lparr>pc_format := fmt, pc_width := w, pc_height := h, pc_stride := w * 4\<rparr>"

definition resize_frame :: "(nat \<Rightarrow> bytes option) \<Rightarrow> pw_capture \<Rightarrow> pw_capture" where
  "resize_frame malloc c =
     (let needed = pc_stride c * pc_height c in
      (if needed > frame_cap c then c\<lparr>pc_frame := malloc needed\<rparr> else c)\<lparr>pc_ready := False\<rparr>)"

definition on_stream_param_changed :: "(nat \<Rightarrow> bytes option) \<Rightarrow> (nat \<times> nat \<times> nat) option \<Rightarrow> pw_capture \<Rightarrow> pw_capture" where
  "on_stream_param_changed malloc parsed c =
     (case parsed of None \<Rightarrow> c | Some (fmt, w, h) \<Rightarrow> resize_frame malloc (set_format fmt w h c))"

text \<open>The first data block of a buffer: its memory, if any, and the offset and stride of its chunk.\<close>

record pw_data =
  pd_data :: "bytes option"
  pd_offset :: nat
  pd_stride :: int

definition src_stride :: "pw_data \<Rightarrow> pw_capture \<Rightarrow> nat" where
  "src_stride d c = (if pd_stride d > 0 then nat (pd_stride d) else pc_stride c)"

definition on_stream_process :: "pw_data option \<Rightarrow> pw_capture \<Rightarrow> pw_capture option" where
  "on_stream_process b c =
     (case b of
        None \<Rightarrow> Some c
      | Some d \<Rightarrow>
          (case (pd_data d, pc_frame c) of
             (Some src, Some f) \<Rightarrow>
               if pc_width c > 0 \<and> pc_height c > 0
               then map_option (\<lambda>f'. c\<lparr>pc_frame := Some f', pc_ready := True\<rparr>)
                 (if src_stride d c = pc_stride c
                  then memcpy 0 src (pd_offset d) (pc_stride c * pc_height c) f
                  else copy_rows (pc_stride c) src (pd_offset d) (src_stride d c) (min (src_stride d c) (pc_stride c)) (pc_height c) f)
               else Some c
           | _ \<Rightarrow> Some c))"

definition pw_capture_get_size :: "pw_capture \<Rightarrow> (nat \<times> nat \<times> nat) option" where
  "pw_capture_get_size c =
     (if pc_width c > 0 \<and> pc_height c > 0 then Some (pc_width c, pc_height c, pc_stride c) else None)"

text \<open>The result code and the destination afterwards.\<close>

definition pw_capture_read :: "pw_capture \<Rightarrow> bytes \<Rightarrow> nat \<Rightarrow> nat \<Rightarrow> (int \<times> bytes) option" where
  "pw_capture_read c dst dst_w dst_h =
     (if pc_fatal c then Some (- 1, dst)
      else case pc_frame c of
        None \<Rightarrow> Some (1, dst)
      | Some f \<Rightarrow>
          if \<not> pc_ready c then Some (1, dst)
          else
            let rows = min dst_h (pc_height c); row_bytes = min (dst_w * 4) (pc_stride c) in
            Option.bind
              (if row_bytes = pc_stride c \<and> dst_w * 4 = pc_stride c
               then memcpy 0 f 0 (row_bytes * rows) dst
               else copy_rows (dst_w * 4) f 0 (pc_stride c) row_bytes rows dst) (\<lambda>d.
            map_option (Pair 0) (set_alpha (dst_w * 4 * rows) d)))"

section \<open>The reader and the frame\<close>

text \<open>The frame has room for the picture of the negotiated format.\<close>

definition frame_fits :: "pw_capture \<Rightarrow> bool" where
  "frame_fits c \<longleftrightarrow> (\<forall>f. pc_frame c = Some f \<longrightarrow> pc_stride c * pc_height c \<le> length f)"

text \<open>What a successful read yields.\<close>

lemma read_nth:
  assumes "frame_fits c" and "pc_frame c = Some f" and "pc_ready c" and "\<not> pc_fatal c"
    and "0 < dst_w" and "length dst = dst_w * 4 * dst_h"
  obtains d where "pw_capture_read c dst dst_w dst_h = Some (0, d)" and "length d = length dst"
    and "\<And>i. i < length dst \<Longrightarrow> d ! i =
      (if i div (dst_w * 4) < min dst_h (pc_height c) \<and> i mod 4 = 3 then 255
       else if i div (dst_w * 4) < min dst_h (pc_height c) \<and> i mod (dst_w * 4) < min (dst_w * 4) (pc_stride c)
       then f ! (i div (dst_w * 4) * pc_stride c + i mod (dst_w * 4)) else dst ! i)"
proof -
  let ?w = "dst_w * 4" and ?rows = "min dst_h (pc_height c)" and ?n = "min (dst_w * 4) (pc_stride c)"
  have w: "0 < ?w" using assms(5) by simp
  have fits: "pc_stride c * pc_height c \<le> length f" using assms(1,2) by (simp add: frame_fits_def)
  have in_dst: "?w * ?rows \<le> length dst" using assms(6) by simp
  have in_f: "y * pc_stride c + ?n \<le> length f" if "y < ?rows" for y
  proof -
    have "y * pc_stride c + ?n \<le> pc_stride c * pc_height c" by (rule row_in) (use that in auto)
    then show ?thesis using fits by simp
  qed
  have row_dst: "y * ?w + ?n \<le> length dst" if "y < ?rows" for y
  proof -
    have "y * ?w + ?n \<le> ?w * dst_h" by (rule row_in) (use that in auto)
    then show ?thesis using assms(6) by simp
  qed
  obtain d where d: "(if ?n = pc_stride c \<and> ?w = pc_stride c then memcpy 0 f 0 (?n * ?rows) dst
      else copy_rows ?w f 0 (pc_stride c) ?n ?rows dst) = Some d" "length d = length dst"
    "\<And>i. i < length dst \<Longrightarrow> d ! i =
      (if i div ?w < ?rows \<and> i mod ?w < ?n then f ! (i div ?w * pc_stride c + i mod ?w) else dst ! i)"
  proof (cases "?w = pc_stride c")
    case True
    have "?w * ?rows \<le> pc_stride c * pc_height c" using True by simp
    then have "0 + ?w * ?rows \<le> length f" using fits by simp
    from memcpy_rows_nth [OF w in_dst this] obtain d where "memcpy 0 f 0 (?w * ?rows) dst = Some d" "length d = length dst"
      "\<And>i. i < length dst \<Longrightarrow> d ! i = (if i div ?w < ?rows \<and> i mod ?w < ?w then f ! (0 + i div ?w * ?w + i mod ?w) else dst ! i)"
      by blast
    then show thesis by (intro that [of d]) (simp_all only: True min.idem simp_thms if_True add_0)
  next
    case False
    have "0 + y * pc_stride c + ?n \<le> length f" if "y < ?rows" for y using in_f [OF that] by simp
    then obtain d where "copy_rows ?w f 0 (pc_stride c) ?n ?rows dst = Some d" "length d = length dst"
      "\<And>i. i < length dst \<Longrightarrow> d ! i =
        (if i div ?w < ?rows \<and> i mod ?w < ?n then f ! (0 + i div ?w * pc_stride c + i mod ?w) else dst ! i)"
      using copy_rows_nth [of ?n ?w ?rows dst 0 "pc_stride c" f] w row_dst by (metis min.cobounded1)
    then show thesis using False by (intro that [of d]) simp_all
  qed
  obtain e where e: "set_alpha (?w * ?rows) d = Some e" "length e = length d"
    "\<And>i. i < length d \<Longrightarrow> e ! i = (if i < ?w * ?rows \<and> i mod 4 = 3 then 255 else d ! i)"
    using set_alpha_nth [of "?w * ?rows" d] in_dst d(2) by auto
  have rows: "i < ?w * ?rows \<longleftrightarrow> i div ?w < ?rows" for i
    unfolding div_less_iff_less_mult [OF w] by (simp only: mult.commute)
  show thesis
  proof (rule that)
    show "pw_capture_read c dst dst_w dst_h = Some (0, e)"
      using assms(2-4) d(1) e(1) by (simp add: pw_capture_read_def Let_def)
  qed (use d(2,3) e(2,3) rows in auto)
qed


text \<open>A buffer holds the rows of the picture at its own stride.\<close>

definition buffer_ok :: "pw_data \<Rightarrow> pw_capture \<Rightarrow> bool" where
  "buffer_ok d c \<longleftrightarrow> (case pd_data d of None \<Rightarrow> True | Some src \<Rightarrow> pd_offset d + src_stride d c * pc_height c \<le> length src)"

lemma process_nth:
  assumes "frame_fits c" and "pc_frame c = Some f" and "0 < pc_width c" and "0 < pc_height c" and "pc_stride c = pc_width c * 4"
    and "buffer_ok d c" and "pd_data d = Some src"
  obtains f' where "on_stream_process (Some d) c = Some (c\<lparr>pc_frame := Some f', pc_ready := True\<rparr>)" and "length f' = length f"
    and "\<And>i. i < length f \<Longrightarrow> f' ! i =
      (if i div pc_stride c < pc_height c \<and> i mod pc_stride c < min (src_stride d c) (pc_stride c)
       then src ! (pd_offset d + i div pc_stride c * src_stride d c + i mod pc_stride c) else f ! i)"
proof -
  let ?s = "pc_stride c" and ?h = "pc_height c" and ?t = "src_stride d c" and ?o = "pd_offset d"
  have s: "0 < ?s" using assms(3,5) by simp
  have fits: "?s * ?h \<le> length f" and src: "?o + ?t * ?h \<le> length src"
    using assms(1,2,6,7) by (simp_all add: frame_fits_def buffer_ok_def)
  obtain f' where "(if ?t = ?s then memcpy 0 src ?o (?s * ?h) f else copy_rows ?s src ?o ?t (min ?t ?s) ?h f) = Some f'"
    "length f' = length f" "\<And>i. i < length f \<Longrightarrow> f' ! i =
      (if i div ?s < ?h \<and> i mod ?s < min ?t ?s then src ! (?o + i div ?s * ?t + i mod ?s) else f ! i)"
    using copy_picture_nth [OF s fits src] by blast
  then show thesis using that [of f'] assms(2-4,7) by (simp add: on_stream_process_def)
qed

section \<open>Callbacks and the reader\<close>

text \<open>
  The callbacks run one after the other on PipeWire's thread. A change of format consists of the
  write of the fields and, with the lock, the new frame; in between, a reader may run: the second
  component says that the change is at this point.
\<close>

inductive pw_step :: "(nat \<Rightarrow> bytes option) \<Rightarrow> pw_capture \<times> bool \<Rightarrow> pw_capture \<times> bool \<Rightarrow> bool" for malloc where
  set_fields: "pw_step malloc (c, False) (set_format fmt w h c, True)"
| new_frame: "pw_step malloc (c, True) (resize_frame malloc c, False)"
| process: "on_stream_process b c = Some c' \<Longrightarrow> pw_step malloc (c, False) (c', False)"
| error: "pw_step malloc (c, p) (on_stream_state_changed True c, p)"

inductive pw_reach :: "(nat \<Rightarrow> bytes option) \<Rightarrow> pw_capture \<times> bool \<Rightarrow> bool" for malloc where
  init: "pw_reach malloc (pw_capture_zero, False)"
| step: "pw_reach malloc s \<Longrightarrow> pw_step malloc s t \<Longrightarrow> pw_reach malloc t"

inductive_cases pw_stepE: "pw_step malloc s t"

definition pw_inv :: "pw_capture \<times> bool \<Rightarrow> bool" where
  "pw_inv s \<longleftrightarrow> (\<not> snd s \<longrightarrow> frame_fits (fst s)) \<and> pc_stride (fst s) = pc_width (fst s) * 4"

lemma process_frame:
  assumes "on_stream_process b c = Some c'"
  shows "c' = c \<or> (\<exists>f f'. pc_frame c = Some f \<and> length f' = length f \<and> c' = c\<lparr>pc_frame := Some f', pc_ready := True\<rparr>)"
proof (cases "\<exists>d src f. b = Some d \<and> pd_data d = Some src \<and> pc_frame c = Some f \<and> pc_width c > 0 \<and> pc_height c > 0")
  case True
  then obtain d src f where d: "b = Some d" "pd_data d = Some src" "pc_frame c = Some f" "pc_width c > 0" "pc_height c > 0" by blast
  then obtain f' where "c' = c\<lparr>pc_frame := Some f', pc_ready := True\<rparr>"
    and f': "(if src_stride d c = pc_stride c then memcpy 0 src (pd_offset d) (pc_stride c * pc_height c) f
      else copy_rows (pc_stride c) src (pd_offset d) (src_stride d c) (min (src_stride d c) (pc_stride c)) (pc_height c) f) = Some f'"
    using assms by (auto simp: on_stream_process_def)
  moreover have "length f' = length f" using f' memcpy_length copy_rows_length by (metis (full_types))
  ultimately show ?thesis using d(3) by blast
next
  case False
  then show ?thesis using assms by (auto simp: on_stream_process_def split: option.splits if_splits)
qed

lemma pw_inv_step:
  assumes "pw_step malloc s t" and "pw_inv s" and "\<And>n b. malloc n = Some b \<Longrightarrow> length b = n"
  shows "pw_inv t"
  using assms(1)
proof cases
  case (new_frame c)
  then show ?thesis using assms(2,3)
    by (auto simp: pw_inv_def frame_fits_def resize_frame_def Let_def frame_cap_def not_less split: option.splits)
next
  case (process b c c')
  then show ?thesis using assms(2) process_frame [OF process(3)] by (auto simp: pw_inv_def frame_fits_def)
qed (use assms(2) in \<open>auto simp: pw_inv_def frame_fits_def set_format_def on_stream_state_changed_def\<close>)

lemma pw_inv_reach:
  assumes "pw_reach malloc s" and "\<And>n b. malloc n = Some b \<Longrightarrow> length b = n"
  shows "pw_inv s"
  using assms(1)
proof induction
  case init
  then show ?case by (simp add: pw_inv_def frame_fits_def pw_capture_zero_def)
qed (use pw_inv_step assms(2) in blast)

text \<open>
  Outside the change of a format the frame store of the Wayland capturer is memory-safe: in
  every state the callbacks can reach, a read into a buffer of the size the caller gives accesses
  neither the frame nor the buffer outside its bounds, for any picture size on either side, and
  neither does storing a video buffer that holds the rows it announces, at any stride.
\<close>

lemma frame_store_safe:
  assumes "\<And>n b. malloc n = Some b \<Longrightarrow> length b = n" and "pw_reach malloc (c, False)"
  shows "(0 < dst_w \<and> length dst = dst_w * 4 * dst_h \<longrightarrow>
      (\<exists>rc d. pw_capture_read c dst dst_w dst_h = Some (rc, d) \<and> length d = length dst \<and>
        rc = (if pc_fatal c then - 1 else if pc_ready c \<and> pc_frame c \<noteq> None then 0 else 1))) \<and>
    (buffer_ok d c \<longrightarrow> on_stream_process (Some d) c \<noteq> None)"
proof -
  have inv: "frame_fits c" "pc_stride c = pc_width c * 4" using pw_inv_reach [OF assms(2,1)] by (simp_all add: pw_inv_def)
  have "\<exists>rc d. pw_capture_read c dst dst_w dst_h = Some (rc, d) \<and> length d = length dst \<and>
      rc = (if pc_fatal c then - 1 else if pc_ready c \<and> pc_frame c \<noteq> None then 0 else 1)"
    if "0 < dst_w" "length dst = dst_w * 4 * dst_h"
  proof (cases "pc_fatal c \<or> \<not> pc_ready c \<or> pc_frame c = None")
    case True
    then show ?thesis by (auto simp: pw_capture_read_def split: option.split)
  next
    case False
    then obtain f where "pc_frame c = Some f" by auto
    then show ?thesis using read_nth [OF inv(1) _ _ _ that] False by (metis option.distinct(1))
  qed
  moreover have "on_stream_process (Some d) c \<noteq> None" if "buffer_ok d c"
  proof (cases "pd_data d = None \<or> pc_frame c = None \<or> pc_width c = 0 \<or> pc_height c = 0")
    case True
    then show ?thesis by (auto simp: on_stream_process_def split: option.split)
  next
    case False
    then obtain src f where "pd_data d = Some src" "pc_frame c = Some f" by auto
    then show ?thesis using process_nth [OF inv(1) _ _ _ inv(2) that] False by (metis gr0I option.distinct(1))
  qed
  ultimately show ?thesis by blast
qed


definition calloc :: "nat \<Rightarrow> bytes option" where
  "calloc n = Some (replicate n 0)"

text \<open>A stream of 2 by 2 pixels whose first buffer has been stored.\<close>

definition demo_data :: pw_data where
  "demo_data = \<lparr>pd_data = Some (map of_nat [0..<16]), pd_offset = 0, pd_stride = 8\<rparr>"

definition demo_stream :: pw_capture where
  "demo_stream = \<lparr>pc_width = 2, pc_height = 2, pc_stride = 8, pc_format = 0, pc_frame = Some (map of_nat [0..<16]),
     pc_ready = True, pc_fatal = False\<rparr>"

lemma demo_stream_reach: "pw_reach calloc (demo_stream, False)"
proof -
  let ?c1 = "set_format 0 2 2 pw_capture_zero"
  let ?c2 = "resize_frame calloc ?c1"
  have "pw_reach calloc (?c1, True)" by (rule pw_reach.step [OF pw_reach.init pw_step.set_fields])
  then have r: "pw_reach calloc (?c2, False)" by (rule pw_reach.step [OF _ pw_step.new_frame])
  have "on_stream_process (Some demo_data) ?c2 = Some demo_stream"
    by (simp add: demo_data_def demo_stream_def resize_frame_def set_format_def pw_capture_zero_def on_stream_process_def
        frame_cap_def calloc_def memcpy_def src_stride_def Let_def)
  from pw_reach.step [OF r pw_step.process [OF this]] show ?thesis .
qed

lemma frame_store_safe_witness:
  "\<exists>d. pw_capture_read demo_stream (replicate 16 0) 2 2 = Some (0, d) \<and> length d = 16"
  using frame_store_safe [OF _ demo_stream_reach, of 2 "replicate 16 0" 2]
  by (auto simp: calloc_def demo_stream_def)

text \<open>
  During the change of a format the lock does not protect the reader: the new width and stride
  are visible before the frame has its new size. After a change from 2 by 2 to 8 by 2 pixels, a
  capture that runs at this moment reads past the end of the old frame.
\<close>

lemma format_change_races:
  "\<exists>c dst. pw_reach calloc (c, True) \<and> length dst = 2 * 4 * 2 \<and> pw_capture_read c dst 2 2 = None"
proof (intro exI conjI)
  show "pw_reach calloc (set_format 0 8 2 demo_stream, True)"
    by (rule pw_reach.step [OF demo_stream_reach pw_step.set_fields])
  show "length (replicate 16 (0 :: u8)) = 2 * 4 * 2" by simp
  show "pw_capture_read (set_format 0 8 2 demo_stream) (replicate 16 0) 2 2 = None"
    by (simp add: pw_capture_read_def set_format_def demo_stream_def Let_def numeral_2_eq_2 memcpy_def)
qed

text \<open>
  A captured picture is the one PipeWire delivered: when a video buffer of the negotiated size,
  at any offset and with any padding of its rows, has been stored, the next read of that size
  returns its pixels, the first three bytes of each unchanged and the fourth set to 255, whatever
  the format of the stream. (For a stream in the offered format RGBx red and blue are thus exchanged.)
\<close>

lemma capture_shows_frame:
  assumes "frame_fits c" and "pc_frame c = Some f" and "\<not> pc_fatal c"
    and "0 < pc_width c" and "0 < pc_height c" and "pc_stride c = pc_width c * 4"
    and "pd_data d = Some src" and "buffer_ok d c" and "pc_stride c \<le> src_stride d c"
    and "length dst = pc_width c * 4 * pc_height c"
  shows "\<exists>c' p. on_stream_process (Some d) c = Some c' \<and> pw_capture_read c' dst (pc_width c) (pc_height c) = Some (0, p) \<and>
    length p = length dst \<and>
    (\<forall>y < pc_height c. \<forall>x < pc_width c. \<forall>k < 4.
       p ! (y * (pc_width c * 4) + x * 4 + k) = (if k = 3 then 255 else src ! (pd_offset d + y * src_stride d c + x * 4 + k)))"
proof -
  let ?w = "pc_width c * 4" and ?h = "pc_height c"
  obtain f' where f': "on_stream_process (Some d) c = Some (c\<lparr>pc_frame := Some f', pc_ready := True\<rparr>)" "length f' = length f"
    "\<And>i. i < length f \<Longrightarrow> f' ! i = (if i div pc_stride c < ?h \<and> i mod pc_stride c < min (src_stride d c) (pc_stride c)
       then src ! (pd_offset d + i div pc_stride c * src_stride d c + i mod pc_stride c) else f ! i)"
    using process_nth [OF assms(1,2,4-6,8,7)] by blast
  let ?c = "c\<lparr>pc_frame := Some f', pc_ready := True\<rparr>"
  have fits: "frame_fits ?c" using assms(1,2) f'(2) by (simp add: frame_fits_def)
  have same: "pc_stride ?c = ?w" "pc_height ?c = ?h" using assms(6) by simp_all
  have now: "pc_frame ?c = Some f'" "pc_ready ?c" "\<not> pc_fatal ?c" using assms(3) by simp_all
  obtain p where p: "pw_capture_read ?c dst (pc_width c) ?h = Some (0, p)" "length p = length dst"
    "\<And>i. i < length dst \<Longrightarrow> p ! i = (if i div ?w < ?h \<and> i mod 4 = 3 then 255
       else if i div ?w < ?h \<and> i mod ?w < ?w then f' ! (i div ?w * ?w + i mod ?w) else dst ! i)"
    using read_nth [OF fits now assms(4,10), unfolded same min.idem] by blast
  have "p ! (y * ?w + x * 4 + k) = (if k = 3 then 255 else src ! (pd_offset d + y * src_stride d c + x * 4 + k))"
    if "y < ?h" "x < pc_width c" "k < 4" for x y k
  proof -
    let ?i = "y * ?w + (x * 4 + k)"
    have xk: "x * 4 + k < ?w" using that by linarith
    then have div: "?i div ?w = y" "?i mod ?w = x * 4 + k" by simp_all
    have "?i + 1 \<le> ?w * ?h" using row_in [OF that(1), of "x * 4 + k + 1" ?w] xk by simp
    then have i: "?i < length dst" "?i < length f" using assms(1,2,6,10) by (simp_all add: frame_fits_def)
    have m4: "?i mod 4 = k" using that(3) by (metis add.assoc mod_mult_self3 mod_less mult.assoc mod_mult_self4 mult.commute)
    have "p ! ?i = (if k = 3 then 255 else f' ! ?i)"
      using p(3) [OF i(1)] div m4 xk that(1) by simp
    moreover have "f' ! ?i = src ! (pd_offset d + y * src_stride d c + (x * 4 + k))"
      using f'(3) [OF i(2)] div xk that(1) assms(6,9) by simp
    ultimately show ?thesis by (simp add: add.assoc)
  qed
  then show ?thesis using f'(1) p(1,2) by blast
qed

lemma capture_shows_frame_witness:
  "\<exists>c' p. on_stream_process (Some demo_data) demo_stream = Some c' \<and> pw_capture_read c' (replicate 16 0) 2 2 = Some (0, p) \<and>
     p ! 12 = 12 \<and> p ! 15 = 255"
proof -
  let ?src = "map of_nat [0..<16] :: bytes"
  have size: "pc_width demo_stream = 2" "pc_height demo_stream = 2" "src_stride demo_data demo_stream = 8" "pd_offset demo_data = 0"
    by (simp_all add: demo_stream_def demo_data_def src_stride_def)
  have ok: "frame_fits demo_stream" "pc_frame demo_stream = Some ?src" "pd_data demo_data = Some ?src" "buffer_ok demo_data demo_stream"
    by (simp_all add: demo_stream_def demo_data_def frame_fits_def buffer_ok_def src_stride_def)
  obtain c' p where c: "on_stream_process (Some demo_data) demo_stream = Some c'"
      "pw_capture_read c' (replicate 16 0) 2 2 = Some (0, p)"
    and p: "\<forall>y < 2. \<forall>x < 2. \<forall>k < 4. p ! (y * (2 * 4) + x * 4 + k) = (if k = 3 then 255 else ?src ! (0 + y * 8 + x * 4 + k))"
    using capture_shows_frame [OF ok(1,2) _ _ _ _ ok(3,4), of "replicate 16 0", unfolded size]
    by (auto simp: demo_stream_def)
  have "p ! 12 = 12" "p ! 15 = 255" using p [rule_format, of 1 1 0] p [rule_format, of 1 1 3] by simp_all
  then show ?thesis using c by blast
qed


section \<open>Connecting the stream\<close>

text \<open>
  Which calls of \<^verbatim>\<open>pw_capture_init\<close> succeed, and what it holds. Connecting the context takes over
  the file descriptor, also when it fails.
\<close>

record pw_init_env =
  pi_calloc :: bool
  pi_loop :: bool
  pi_context :: bool
  pi_core :: bool
  pi_stream :: bool
  pi_connect :: bool
  pi_start :: bool

datatype pw_resource = RFd | RStruct | RMutex | RLoop | RContext | RCore | RStream

definition pw_fail :: "pw_resource set \<Rightarrow> pw_resource set" where
  "pw_fail held = held - {RStream, RCore, RContext, RLoop, RMutex, RStruct}"

definition pw_capture_init :: "pw_init_env \<Rightarrow> int \<Rightarrow> bool \<times> pw_resource set" where
  "pw_capture_init env pw_fd =
     (let fd = (if pw_fd \<ge> 0 then {RFd} else {}); base = {RStruct, RMutex} in
      if \<not> pi_calloc env then (False, fd - {RFd})
      else if \<not> pi_loop env then (False, pw_fail (fd \<union> base))
      else if \<not> pi_context env then (False, pw_fail (fd \<union> base \<union> {RLoop}))
      else if \<not> pi_core env then (False, pw_fail (base \<union> {RLoop, RContext}))
      else if \<not> pi_stream env then (False, pw_fail (base \<union> {RLoop, RContext, RCore}))
      else if \<not> pi_connect env then (False, pw_fail (base \<union> {RLoop, RContext, RCore, RStream}))
      else if \<not> pi_start env then (False, pw_fail (base \<union> {RLoop, RContext, RCore, RStream}))
      else (True, base \<union> {RLoop, RContext, RCore, RStream}))"

definition pw_capture_close :: "pw_resource set \<Rightarrow> pw_resource set" where
  "pw_capture_close held = held - {RStream} - {RCore} - {RContext} - {RLoop} - {RMutex, RStruct}"

text \<open>
  A failed connection leaves nothing behind except the descriptor, when the loop or the context
  cannot be made; a closed stream leaves nothing.
\<close>

lemma pw_capture_init_resources:
  "pw_capture_init env fd = (ok, held) \<Longrightarrow>
     (if ok then pw_capture_close held = {}
      else held = (if fd \<ge> 0 \<and> pi_calloc env \<and> (\<not> pi_loop env \<or> \<not> pi_context env) then {RFd} else {}))"
  by (auto simp: pw_capture_init_def pw_capture_close_def pw_fail_def Let_def split: if_splits)

section \<open>The capturer\<close>

record WaylandCapture =
  wc_session :: "PortalSession option"
  wc_ownSession :: bool
  wc_ctx :: "pw_capture option"
  wc_width :: u16
  wc_height :: u16
  wc_stride :: nat
  wc_pixels :: bytes

definition WaylandCapture_zero :: WaylandCapture where
  "WaylandCapture_zero =
     \<lparr>wc_session = None, wc_ownSession = False, wc_ctx = None, wc_width = 0, wc_height = 0, wc_stride = 0, wc_pixels = []\<rparr>"

definition NewWaylandCaptureWithSession :: "PortalSession option \<Rightarrow> WaylandCapture res" where
  "NewWaylandCaptureWithSession s =
     (case s of
        None \<Rightarrow> Inl (Errorf ''wayland capture: nil portal session'' [])
      | Some s' \<Rightarrow> Inr (WaylandCapture_zero\<lparr>wc_session := Some s', wc_ownSession := False\<rparr>))"

definition capture_opts :: "string \<Rightarrow> SessionOpts" where
  "capture_opts path =
     \<lparr>so_Capture = True, so_Input = False, so_SourceTypes = 0, so_CursorMode = 0, so_Devices = 0,
      so_RestoreTokenPath = path, so_StartTimeout = 0\<rparr>"

text \<open>
  What \<^verbatim>\<open>Init\<close> depends on: the portal, the file of the token, the decoding of the descriptor, the calls of
  PipeWire, and the states of the stream at the polls of the five seconds.
\<close>

record capture_world =
  cw_portal :: portal_world
  cw_path :: string
  cw_tokens :: "string option"
  cw_store_fd :: "string \<Rightarrow> int res"
  cw_pipewire :: pw_init_env
  cw_polls :: "pw_capture list"

definition capture_session :: "capture_world \<Rightarrow> WaylandCapture \<Rightarrow> unit res \<times> WaylandCapture" where
  "capture_session v w =
     (case wc_session w of
        Some s \<Rightarrow> (Inr (), w)
      | None \<Rightarrow>
          (case New (cw_portal v) (capture_opts (cw_path v)) (cw_tokens v) of
             (Inr _, s) \<Rightarrow> (Inr (), w\<lparr>wc_session := s, wc_ownSession := True\<rparr>)
           | (Inl e, s) \<Rightarrow> (Inl (ErrorfW ''wayland capture: create portal session: %w'' [] e), w)))"

definition connect_stream :: "capture_world \<Rightarrow> PortalSession \<Rightarrow> WaylandCapture \<Rightarrow> unit res \<times> WaylandCapture" where
  "connect_stream v s w =
     (case PipeWireNodeID s of (nodeID, ok) \<Rightarrow>
        if \<not> ok then (Inl (Errorf ''wayland capture: portal session has no PipeWire streams'' []), w)
        else case OpenPipeWireRemote (cw_portal v) (cw_store_fd v) s of
          (Inl e, s') \<Rightarrow> (Inl (wrap_err ''wayland capture: OpenPipeWireRemote: %w'' [] e), w\<lparr>wc_session := Some s'\<rparr>)
        | (Inr fd, s') \<Rightarrow>
            if \<not> fst (pw_capture_init (cw_pipewire v) fd)
            then (Inl (Errorf ''wayland capture: pw_capture_init failed'' []), w\<lparr>wc_session := Some s'\<rparr>)
            else (Inr (), w\<lparr>wc_session := Some s', wc_ctx := Some pw_capture_zero\<rparr>))"

text \<open>The polls until the size is known.\<close>

fun wait_size :: "pw_capture list \<Rightarrow> (pw_capture \<times> nat \<times> nat \<times> nat) option" where
  "wait_size [] = None"
| "wait_size (c # cs) = (case pw_capture_get_size c of Some sz \<Rightarrow> Some (c, sz) | None \<Rightarrow> wait_size cs)"

definition negotiate :: "capture_world \<Rightarrow> WaylandCapture \<Rightarrow> unit res \<times> WaylandCapture" where
  "negotiate v w =
     (case wait_size (cw_polls v) of
        None \<Rightarrow> (Inl (Errorf ''wayland capture: format negotiation timed out'' []), w\<lparr>wc_ctx := None\<rparr>)
      | Some (c, cw, ch, cstride) \<Rightarrow>
          (Inr (), w\<lparr>wc_ctx := Some c, wc_width := of_nat cw, wc_height := of_nat ch, wc_stride := cstride,
             wc_pixels := replicate (cw * ch * 4) 0\<rparr>))"

definition WaylandCapture_Init :: "capture_world \<Rightarrow> WaylandCapture \<Rightarrow> unit res \<times> WaylandCapture" where
  "WaylandCapture_Init v =
     bind_io (capture_session v) (\<lambda>_.
     bind_io (\<lambda>w. case wc_session w of None \<Rightarrow> (Inl (GoPanic ''nil pointer dereference''), w) | Some s \<Rightarrow> connect_stream v s w) (\<lambda>_.
     negotiate v))"

definition WaylandCapture_Bounds :: "WaylandCapture \<Rightarrow> u16 \<times> u16" where
  "WaylandCapture_Bounds w = (wc_width w, wc_height w)"

text \<open>The pixels and the stride; \<^const>\<open>None\<close> is an access outside a block.\<close>

definition WaylandCapture_Capture :: "WaylandCapture \<Rightarrow> ((bytes \<times> nat) res \<times> WaylandCapture) option" where
  "WaylandCapture_Capture w =
     (case wc_ctx w of
        None \<Rightarrow> Some (Inl (Errorf ''wayland capture: not initialized'' []), w)
      | Some c \<Rightarrow>
          if wc_pixels w = [] then Some (Inl (GoPanic ''index out of range''), w)
          else map_option (\<lambda>(rc, p).
              (if rc = 0 \<or> rc = 1 then Inr (p, wc_stride w) else Inl (Errorf ''wayland capture: stream failed'' []),
               w\<lparr>wc_pixels := p\<rparr>))
            (pw_capture_read c (wc_pixels w) (unat (wc_width w)) (unat (wc_height w))))"

definition WaylandCapture_Close :: "capture_world \<Rightarrow> WaylandCapture \<Rightarrow> WaylandCapture \<times> PortalSession option" where
  "WaylandCapture_Close v w =
     (let w' = (if wc_ctx w \<noteq> None then w\<lparr>wc_ctx := None\<rparr> else w) in
      case wc_session w' of
        Some s \<Rightarrow> if wc_ownSession w' then (w'\<lparr>wc_session := None\<rparr>, Some (Session_Close (cw_portal v) s)) else (w', None)
      | None \<Rightarrow> (w', None))"

text \<open>The size of the buffer a capturer gives to the reader.\<close>

definition buffer_sized :: "WaylandCapture \<Rightarrow> bool" where
  "buffer_sized w \<longleftrightarrow> 0 < unat (wc_width w) \<and> 0 < unat (wc_height w) \<and> wc_stride w = unat (wc_width w) * 4 \<and>
     length (wc_pixels w) = unat (wc_width w) * 4 * unat (wc_height w)"

lemma wait_size_polls: "wait_size cs = Some (c, sz) \<Longrightarrow> c \<in> set cs \<and> pw_capture_get_size c = Some sz"
  by (induction cs) (auto split: option.splits)

lemma Init_sized:
  assumes "WaylandCapture_Init v w0 = (Inr (), w)"
    and "\<forall>c \<in> set (cw_polls v). pc_stride c = pc_width c * 4 \<and> pc_width c \<le> 8192 \<and> pc_height c \<le> 8192"
  shows "buffer_sized w"
proof -
  obtain w1 where "negotiate v w1 = (Inr (), w)"
    using assms(1) by (auto simp: WaylandCapture_Init_def bind_io_def split: prod.splits sum.splits option.splits)
  then obtain c cw ch cs where s: "wait_size (cw_polls v) = Some (c, cw, ch, cs)" and w: "w = w1\<lparr>wc_ctx := Some c, wc_width := of_nat cw,
      wc_height := of_nat ch, wc_stride := cs, wc_pixels := replicate (cw * ch * 4) 0\<rparr>"
    by (auto simp: negotiate_def split: option.splits)
  have "c \<in> set (cw_polls v)" "pw_capture_get_size c = Some (cw, ch, cs)" using wait_size_polls [OF s] by auto
  then have "0 < cw" "0 < ch" "cw \<le> 8192" "ch \<le> 8192" "cs = cw * 4"
    using assms(2) by (auto simp: pw_capture_get_size_def split: if_splits)
  then show ?thesis by (simp add: buffer_sized_def w)
qed

text \<open>
  C21: A Wayland capturer that has been initialised delivers pictures of the size it announces: as
  long as no format change is under way, every capture of a stream in any state its callbacks can
  reach, also one whose size has changed since, stays inside its buffers and returns a picture of exactly
  the announced height at the announced stride, four bytes per announced pixel, or reports the
  failure of the stream; the same holds for the next capture.
\<close>

theorem wayland_capture_sized:
  assumes "WaylandCapture_Init v w0 = (Inr (), w)"
    and "\<forall>c \<in> set (cw_polls v). pc_stride c = pc_width c * 4 \<and> pc_width c \<le> 8192 \<and> pc_height c \<le> 8192"
    and "pw_reach malloc (c, False)" and "\<And>n b. malloc n = Some b \<Longrightarrow> length b = n"
    and "length p = length (wc_pixels w)"
  shows "\<exists>r w'. WaylandCapture_Capture (w\<lparr>wc_ctx := Some c, wc_pixels := p\<rparr>) = Some (r, w') \<and>
    length (wc_pixels w') = length (wc_pixels w) \<and>
    (case r of
       Inr (pixels, stride) \<Rightarrow> \<not> pc_fatal c \<and> (case WaylandCapture_Bounds w of (width, height) \<Rightarrow>
         stride = unat width * 4 \<and> length pixels = stride * unat height)
     | Inl e \<Rightarrow> pc_fatal c)"
proof -
  have sized: "buffer_sized w" by (rule Init_sized [OF assms(1,2)])
  let ?W = "unat (wc_width w)" and ?H = "unat (wc_height w)"
  have len: "0 < ?W" "length p = ?W * 4 * ?H" "p \<noteq> []" using sized assms(5) by (auto simp: buffer_sized_def)
  have inv: "frame_fits c" using pw_inv_reach [OF assms(3,4)] by (simp add: pw_inv_def)
  have "\<exists>rc d. pw_capture_read c p ?W ?H = Some (rc, d) \<and> length d = length p \<and> (rc = 0 \<or> rc = 1 \<longleftrightarrow> \<not> pc_fatal c)"
  proof (cases "pc_fatal c \<or> \<not> pc_ready c \<or> pc_frame c = None")
    case True
    then show ?thesis by (auto simp: pw_capture_read_def split: option.split)
  next
    case False
    then obtain f where "pc_frame c = Some f" by auto
    then show ?thesis using read_nth [OF inv _ _ _ len(1,2)] False by metis
  qed
  then obtain rc d where rd: "pw_capture_read c p ?W ?H = Some (rc, d)" "length d = length p" "rc = 0 \<or> rc = 1 \<longleftrightarrow> \<not> pc_fatal c"
    by blast
  let ?w' = "w\<lparr>wc_ctx := Some c, wc_pixels := d\<rparr>"
  have "WaylandCapture_Capture (w\<lparr>wc_ctx := Some c, wc_pixels := p\<rparr>) =
      Some (if rc = 0 \<or> rc = 1 then Inr (d, wc_stride w) else Inl (Errorf ''wayland capture: stream failed'' []), ?w')"
    using rd(1) len(3) by (simp add: WaylandCapture_Capture_def)
  then show ?thesis using rd(2,3) sized len(2) assms(5)
    by (cases "pc_fatal c") (auto simp: WaylandCapture_Bounds_def buffer_sized_def)
qed

text \<open>A world in which a capturer with a session of the portal starts.\<close>

definition demo_capture_world :: capture_world where
  "demo_capture_world =
     \<lparr>cw_portal = demo_portal demo_bus, cw_path = [], cw_tokens = None, cw_store_fd = (\<lambda>p. Inr 3),
      cw_pipewire = \<lparr>pi_calloc = True, pi_loop = True, pi_context = True, pi_core = True, pi_stream = True, pi_connect = True, pi_start = True\<rparr>,
      cw_polls = [pw_capture_zero, demo_stream]\<rparr>"

definition demo_capturer :: WaylandCapture where
  "demo_capturer =
     WaylandCapture_zero\<lparr>wc_session := Some ((newSession demo_opts '':1.42'' None)\<lparr>ps_streams := [\<lparr>st_NodeID = 7, st_Width = 2, st_Height = 2\<rparr>]\<rparr>)\<rparr>"

theorem wayland_capture_sized_witness:
  "\<exists>w r w'. WaylandCapture_Init demo_capture_world demo_capturer = (Inr (), w) \<and>
     WaylandCapture_Capture (w\<lparr>wc_ctx := Some demo_stream, wc_pixels := replicate 16 0\<rparr>) = Some (r, w') \<and> length (wc_pixels w') = 16"
proof -
  have init: "fst (WaylandCapture_Init demo_capture_world demo_capturer) = Inr () \<and>
      length (wc_pixels (snd (WaylandCapture_Init demo_capture_world demo_capturer))) = 16"
    by (simp add: WaylandCapture_Init_def bind_io_def capture_session_def connect_stream_def negotiate_def demo_capture_world_def
        demo_capturer_def WaylandCapture_zero_def PipeWireNodeID_def newSession_def OpenPipeWireRemote_def Call_def ret_def wrap_def
        lift_res_def demo_portal_def demo_bus_def Let_def pw_capture_init_def pw_capture_get_size_def pw_capture_zero_def demo_stream_def)
  then obtain w where w: "WaylandCapture_Init demo_capture_world demo_capturer = (Inr (), w)" "length (wc_pixels w) = 16"
    by (cases "WaylandCapture_Init demo_capture_world demo_capturer") auto
  show ?thesis
    using wayland_capture_sized [OF w(1) _ demo_stream_reach, of "replicate 16 0"] w
    by (auto simp: demo_capture_world_def pw_capture_zero_def demo_stream_def calloc_def)
qed

end
