(* ===== verification/Exampleserver.thy ===== *)
theory Exampleserver
  imports Ownership Waylandinput Waylandcapture Serverlife Display
begin

text \<open>
  The example programs: the set-up of capture and input on each platform with the adapters of \<^verbatim>\<open>example/server/platform_*.go\<close>, the
  configuration and the demonstration picture of \<^verbatim>\<open>example/server/main.go\<close>, and the picture file of \<^verbatim>\<open>example/client/main.go\<close>.
\<close>

section \<open>Platforms\<close>

datatype platform_ref = TheCapturer | TheInjector

text \<open>The results of the constructors and of \<^verbatim>\<open>Init\<close>; a capturer that is initialised has to be closed.\<close>

record platform_env =
  pe_NewScreenCapture :: "unit res"
  pe_capture_Init :: "unit res"
  pe_NewInputInjector :: "unit res"
  pe_input_Init :: "unit res"

definition setup_capture_and_input :: "platform_env \<Rightarrow> (platform_ref, unit res) own" where
  "setup_capture_and_input e =
     (case rbind (pe_NewScreenCapture e) (\<lambda>_. pe_capture_Init e) of
        Inl err \<Rightarrow> own_ret (Inl err)
      | Inr _ \<Rightarrow>
          own_seq (acquire TheCapturer)
         (case pe_NewInputInjector e of
            Inl err \<Rightarrow> own_seq (release TheCapturer) (own_ret (Inl err))
          | Inr _ \<Rightarrow>
             (case pe_input_Init e of
                Inl err \<Rightarrow> own_seq (release TheCapturer) (own_ret (Inl err))
              | Inr _ \<Rightarrow> own_seq (acquire TheInjector) (own_ret (Inr ())))))"

text \<open>The platforms: whether there is a provider of cursors, too.\<close>

definition setup_linux :: "platform_env \<Rightarrow> (platform_ref, bool res) own" where
  "setup_linux e = own_bind (setup_capture_and_input e) (\<lambda>r. own_ret (rbind r (\<lambda>_. Inr False)))"

definition setup_darwin :: "platform_env \<Rightarrow> (platform_ref, bool res) own" where
  "setup_darwin e = own_bind (setup_capture_and_input e) (\<lambda>r. own_ret (rbind r (\<lambda>_. Inr False)))"

definition setup_windows :: "platform_env \<Rightarrow> (platform_ref, bool res) own" where
  "setup_windows e = own_bind (setup_capture_and_input e) (\<lambda>r. own_ret (rbind r (\<lambda>_. Inr True)))"

definition setup_other :: "(platform_ref, bool res) own" where
  "setup_other = own_ret (Inl (Errorf ''real screen capture not supported on this platform'' []))"

text \<open>A set-up that fails leaves nothing open; one that succeeds leaves both open.\<close>

lemma setup_no_leak:
  "own_runs (setup_capture_and_input e) m (\<lambda>r m'. case r of Inl _ \<Rightarrow> m' = m | Inr _ \<Rightarrow> m' = m + {#TheCapturer, TheInjector#})"
  by (simp add: setup_capture_and_input_def own_simps split: sum.split)

text \<open>The adapter of the injectors: the error of an event goes to the log, the events and the state stay.\<close>

definition adapter_event :: "('e, 's) injected \<Rightarrow> 'e list \<times> 's" where
  "adapter_event r = snd r"

section \<open>Clipboards\<close>

definition isWaylandSession :: "(string \<Rightarrow> string) \<Rightarrow> bool" where
  "isWaylandSession Getenv = (if Getenv ''XDG_SESSION_TYPE'' = ''wayland'' then True else Getenv ''WAYLAND_DISPLAY'' \<noteq> [])"

definition clipboardCandidates :: "(string \<Rightarrow> string) \<Rightarrow> string list list" where
  "clipboardCandidates Getenv =
     (let wayland = [[''wl-copy'']]; x11 = [[''xclip'', ''-sel'', ''clip''], [''xsel'', ''--clipboard'', ''--input'']] in
      if isWaylandSession Getenv then wayland @ x11 else x11 @ wayland)"

text \<open>\<open>run\<close> says whether a command succeeds; the result is the commands that were run.\<close>

fun try_commands :: "(string list \<Rightarrow> bool) \<Rightarrow> string list list \<Rightarrow> string list list" where
  "try_commands run [] = []"
| "try_commands run (c # cs) = (if run c then [c] else c # try_commands run cs)"

definition linux_SetClipboard :: "(string \<Rightarrow> string) \<Rightarrow> (string list \<Rightarrow> bool) \<Rightarrow> unit res \<times> string list list" where
  "linux_SetClipboard Getenv run = (Inr (), try_commands run (clipboardCandidates Getenv))"

fun mac_keys :: "(bool \<times> u32) list \<Rightarrow> DarwinInput \<Rightarrow> mac_event list \<times> DarwinInput" where
  "mac_keys [] d = ([], d)"
| "mac_keys ((down, key) # ks) d =
     (case DarwinInput_KeyEvent down key d of (_, evs, d) \<Rightarrow>
      case mac_keys ks d of (evs', d) \<Rightarrow> (evs @ evs', d))"

definition mac_SetClipboard :: "unit res \<Rightarrow> DarwinInput \<Rightarrow> (mac_event, DarwinInput) injected" where
  "mac_SetClipboard pbcopy d =
     (case pbcopy of
        Inl err \<Rightarrow> (Inl (ErrorfW ''pbcopy: %w'' [] err), [], d)
      | Inr _ \<Rightarrow> (case mac_keys [(True, 0xFFE7), (True, 0x76), (False, 0x76), (False, 0xFFE7)] d of (evs, d) \<Rightarrow> (Inr (), evs, d)))"

definition windows_SetClipboard :: "win_clip \<Rightarrow> bytes \<Rightarrow> unit res \<times> clip_call list" where
  "windows_SetClipboard env text = WindowsInput_SetClipboard env text"

text \<open>
  Capture and input choose the display server alike, each with its own copy of the function; the session test of the example differs from
  them when the type of the session is X11 and a Wayland display is set, too.
\<close>

lemma detect_copies_agree: "capture_detectDisplayServer = detectDisplayServer"
  by (simp add: fun_eq_iff capture_detectDisplayServer_def detectDisplayServer_def)

lemma isWaylandSession_iff:
  "isWaylandSession Getenv \<longleftrightarrow>
     detectDisplayServer Getenv = ''wayland'' \<or> Getenv ''XDG_SESSION_TYPE'' = ''x11'' \<and> Getenv ''WAYLAND_DISPLAY'' \<noteq> []"
  by (auto simp: isWaylandSession_def detectDisplayServer_def)

text \<open>The first command that succeeds is the last one that is run, and the tool of the session comes first.\<close>

lemma try_commands_stops: "run c \<Longrightarrow> c \<in> set cs \<Longrightarrow> \<exists>done c'. try_commands run cs = done @ [c'] \<and> run c' \<and> (\<forall>d \<in> set done. \<not> run d)"
proof (induction cs)
  case (Cons a cs)
  show ?case
  proof (cases "run a")
    case True
    then show ?thesis by simp
  next
    case False
    then obtain dn c' where "try_commands run cs = dn @ [c']" "run c'" "\<forall>d \<in> set dn. \<not> run d" using Cons by auto
    then show ?thesis using False by (intro exI [of _ "a # dn"] exI [of _ c']) simp
  qed
qed simp

text \<open>On macOS the paste keys are all released again.\<close>

lemma mac_paste_keys: "fst (snd (mac_SetClipboard (Inr ()) d)) = [CGKey 0x37 True, CGKeyChar 9 True 0x76, CGKeyChar 9 False 0x76, CGKey 0x37 False]"
proof -
  have "keysymToMacKeycode 0xFFE7 = (0x37, 0, True)" by code_simp
  moreover have "keysymToMacKeycode 0x76 = (9, 0x76, True)" by code_simp
  ultimately show ?thesis by (simp add: mac_SetClipboard_def DarwinInput_KeyEvent_def)
qed

section \<open>The server program\<close>

text \<open>
  The demonstration picture: \<open>wave\<close> is the colour value of a coordinate in a frame, \<open>slant\<close> that of a sum of coordinates (the sine of the
  source, on numbers of the library).
\<close>

record gradientCapturer =
  gc_width :: u16
  gc_height :: u16
  gc_frame :: nat

definition gradient_Bounds :: "gradientCapturer \<Rightarrow> u16 \<times> u16" where
  "gradient_Bounds g = (gc_width g, gc_height g)"

definition gradient_Capture ::
  "(nat \<Rightarrow> nat \<Rightarrow> u8) \<Rightarrow> (nat \<Rightarrow> nat \<Rightarrow> u8) \<Rightarrow> gradientCapturer \<Rightarrow> (bytes \<times> nat) res \<times> gradientCapturer" where
  "gradient_Capture wave slant g =
     (let frame = gc_frame g + 1; w = unat (gc_width g); h = unat (gc_height g) in
      (Inr (concat (map (\<lambda>(y, x). [slant frame (x + y), wave frame y, wave frame x, 255]) (List.product [0..<h] [0..<w])), w * 4),
       g\<lparr>gc_frame := frame\<rparr>))"

lemma gradient_size: "\<exists>pixels. fst (gradient_Capture wave slant g) = Inr (pixels, unat (gc_width g) * 4) \<and>
    length pixels = unat (gc_height g) * (unat (gc_width g) * 4)"
proof -
  have "length (concat (map (\<lambda>(y, x). [f x y, b y, c x, d]) ps)) = length ps * 4" for f :: "nat \<Rightarrow> nat \<Rightarrow> u8" and b c d ps
    by (induction ps) auto
  then show ?thesis by (simp add: gradient_Capture_def Let_def)
qed

text \<open>
  The encoders: a first encoder tests whether H.264 is available and is reset; a connection then gets its own, or Tight when
  this fails.
\<close>

definition tight_factory :: "deflater \<Rightarrow> jpeg_encoder \<Rightarrow> Tight MultiEncoder" where
  "tight_factory z jpeg = \<lparr>me_new = NewTight 75, me_EncodeMulti = EncodeMulti z jpeg, me_Reset = snd \<circ> Tight_Reset z\<rparr>"

definition h264_or_tight :: "'b backend \<Rightarrow> nat \<Rightarrow> nat \<Rightarrow> Tight MultiEncoder \<Rightarrow> ('b H264Encoder + Tight) MultiEncoder" where
  "h264_or_tight be w h tight =
     \<lparr>me_new = (case H264_NewEncoder be w h of Inl _ \<Rightarrow> Inr (me_new tight) | Inr enc \<Rightarrow> Inl enc),
      me_EncodeMulti = (\<lambda>area pixels stride e.
        case e of
          Inl enc \<Rightarrow> (case me_EncodeMulti (h264_multi be enc) area pixels stride enc of (r, enc) \<Rightarrow> (r, Inl enc))
        | Inr t \<Rightarrow> (case me_EncodeMulti tight area pixels stride t of (r, t) \<Rightarrow> (r, Inr t))),
      me_Reset = (\<lambda>e. case e of Inl enc \<Rightarrow> Inl (me_Reset (h264_multi be enc) enc) | Inr t \<Rightarrow> Inr (me_Reset tight t))\<rparr>"

record example_flags =
  ef_port :: int
  ef_password :: string
  ef_width :: int
  ef_height :: int
  ef_demo :: bool

text \<open>
  The configuration: \<open>platform\<close> is what the set-up returns, the bounds of the capturer and whether there are cursors and a clipboard; without
  it, and with \<^verbatim>\<open>-demo\<close>, the demonstration picture is shown.
\<close>

definition example_server_config ::
  "'b backend \<Rightarrow> deflater \<Rightarrow> jpeg_encoder \<Rightarrow> (string \<Rightarrow> SecurityHandler) \<Rightarrow> ((u16 \<times> u16) \<times> bool \<times> bool) res \<Rightarrow> example_flags \<Rightarrow>
   (u16 \<times> u16) \<times> (Tight, 'b H264Encoder + Tight) ServerConfig" where
  "example_server_config be z jpeg auth platform fl =
     (let demo = ((of_int (ef_width fl), of_int (ef_height fl)), False, False);
          (bounds, cursors, clipboard) = (if ef_demo fl then demo else case platform of Inl _ \<Rightarrow> demo | Inr p \<Rightarrow> p);
          w = unat (fst bounds); h = unat (snd bounds) in
      (bounds,
       \<lparr>sc_Width = 0, sc_Height = 0, sc_Name = str ''redvnc'',
        sc_Security = (if ef_password fl \<noteq> [] then [auth (ef_password fl)] else []),
        sc_PixelFormat = \<lparr>BitsPerPixel = 0, Depth = 0, BigEndian = 0, TrueColour = 0, RedMax = 0, GreenMax = 0, BlueMax = 0,
          RedShift = 0, GreenShift = 0, BlueShift = 0\<rparr>,
        sc_NewTightEncoder = Some (tight_factory z jpeg),
        sc_NewH264Encoder = (case H264_NewEncoder be w h of Inl _ \<Rightarrow> None | Inr _ \<Rightarrow> Some (h264_or_tight be w h (tight_factory z jpeg))),
        sc_hasCapturer = True, sc_hasInput = True, sc_hasClipboard = clipboard, sc_hasCursorProvider = cursors, sc_MaxFPS = 0\<rparr>))"

text \<open>The server that comes of it: the password decides on the security types, the capturer on the size, and it runs at thirty frames.\<close>

lemma example_server_runs:
  fixes be :: "'b backend"
  assumes "example_server_config be z jpeg auth platform fl = (bounds, config)" and "fst bounds \<noteq> 0" and "snd bounds \<noteq> 0"
  defines "c \<equiv> NewServer bounds config"
  shows "sc_Security c = (if ef_password fl = [] then [noneSecurity] else [auth (ef_password fl)])"
    and "(sc_Width c, sc_Height c) = bounds" and "sc_PixelFormat c = DefaultPixelFormat" and "minInterval c = 33333333"
  using assms(2,3) assms(1)
  by (auto simp: c_def NewServer_def example_server_config_def Let_def minInterval_def signed_divide_int_def str_def split: if_splits prod.splits sum.splits)

section \<open>The client program\<close>

text \<open>
  The picture file, written like a connection; \<open>created\<close> is the error of \<^verbatim>\<open>os.Create\<close>. Three bytes for each pixel, black where the data
  ends early.
\<close>

definition ppm_header :: "nat \<Rightarrow> nat \<Rightarrow> bytes" where
  "ppm_header width height = str ''P6'' @ [10] @ decimal width @ [32] @ decimal height @ [10] @ str ''255'' @ [10]"

definition ppm_pixel :: "bytes \<Rightarrow> nat \<Rightarrow> bytes" where
  "ppm_pixel data off = (if off + 2 \<ge> length data then [0, 0, 0] else [data ! (off + 2), data ! (off + 1), data ! off])"

definition writePPM :: "goerr option \<Rightarrow> bytes \<Rightarrow> nat \<Rightarrow> nat \<Rightarrow> unit io" where
  "writePPM created data width height =
     (case created of
        Some err \<Rightarrow> fail err
      | None \<Rightarrow>
          bind_io (writeB (ppm_header width height)) (\<lambda>_.
          seq_io (map (\<lambda>(y, x). writeB (ppm_pixel data ((y * width + x) * 4))) (List.product [0..<height] [0..<width]))))"

lemma writeB_seq: "seq_io (map (\<lambda>p. writeB (f p)) ps) (live i out) = (Inr (), live i (out @ concat (map f ps)))"
  by (induction ps arbitrary: out) (auto simp: bind_io_def ret_def writeB_def)

lemma writePPM_file:
  "writePPM None data width height (live i []) =
     (Inr (), live i (ppm_header width height @
       concat (map (\<lambda>(y, x). ppm_pixel data ((y * width + x) * 4)) (List.product [0..<height] [0..<width]))))"
  using writeB_seq [of "\<lambda>(y, x). ppm_pixel data ((y * width + x) * 4)" "List.product [0..<height] [0..<width]" i "ppm_header width height"]
  by (simp add: writePPM_def bind_io_def writeB_def split_def)

end
