(* ===== verification/X11capture.thy ===== *)
theory X11capture
  imports Ownership Memory
begin

text \<open>
  \<^verbatim>\<open>capture_linux_x11.go\<close>: screen capture through X11, with the extension for shared memory when the server has it. What the X server
  and the system answer is an argument: an environment for the initialisation and the contents of the
  screen for every capture. References are the connection, the structure of the capturer, images, the segment of shared memory,
  its mapping and its registration with the server. Sizes are those of the root window: positive and
  below \<open>2 ^ 15\<close> in the protocol of X11, so they are natural numbers.
\<close>

section \<open>The C part\<close>

datatype x_ref = XDisplay nat | XCtx nat | XImage nat | ShmSegment int | ShmMap int | ShmAttached int

text \<open>An image: its address, its layout, and what its memory holds when it is read.\<close>

record ximage =
  xi_addr :: nat
  xi_bytes_per_line :: nat
  xi_bits_per_pixel :: nat

record x11_env =
  xe_XOpenDisplay :: nat
  xe_calloc :: nat
  xe_attrs :: "nat \<times> nat"
  xe_XShmQueryExtension :: bool
  xe_XShmCreateImage :: "ximage option"
  xe_shmget :: int
  xe_shmat :: int
  xe_XShmAttach :: bool

record x11_capture_t =
  xc_addr :: nat
  xc_dpy :: nat
  xc_width :: nat
  xc_height :: nat
  xc_useShm :: bool
  xc_shmid :: int
  xc_shmaddr :: int
  xc_shmImage :: "ximage option"
  xc_fallbackImage :: "ximage option"

text \<open>\<^verbatim>\<open>shmat\<close> returns \<open>-1\<close> when it fails, \<^verbatim>\<open>shmdt\<close> of that address fails.\<close>

definition shm_map :: "int \<Rightarrow> (x_ref, unit) own" where
  "shm_map addr = (if addr = - 1 then own_ret () else acquire (ShmMap addr))"

definition shm_unmap :: "int \<Rightarrow> (x_ref, unit) own" where
  "shm_unmap addr = (if addr = - 1 then own_ret () else release (ShmMap addr))"

definition XDestroyImage :: "ximage \<Rightarrow> (x_ref, unit) own" where
  "XDestroyImage img = release (XImage (xi_addr img))"

definition x11_init_shm :: "x11_env \<Rightarrow> x11_capture_t \<Rightarrow> (x_ref, x11_capture_t) own" where
  "x11_init_shm e ctx =
     (case xe_XShmCreateImage e of
        None \<Rightarrow> own_ret (ctx\<lparr>xc_shmImage := None\<rparr>)
      | Some img \<Rightarrow>
          own_seq (acquire (XImage (xi_addr img)))
          (let shmid = xe_shmget e in
           if shmid \<ge> 0
           then own_seq (acquire (ShmSegment shmid))
             (own_seq (shm_map (xe_shmat e))
             (let ctx = ctx\<lparr>xc_shmImage := Some img, xc_shmid := shmid, xc_shmaddr := xe_shmat e\<rparr> in
              own_seq (touch (XDisplay (xc_dpy ctx)))
              (if xe_XShmAttach e
               then own_seq (acquire (ShmAttached shmid)) (own_seq (release (ShmSegment shmid)) (own_ret (ctx\<lparr>xc_useShm := True\<rparr>)))
               else own_seq (shm_unmap (xe_shmat e)) (own_seq (release (ShmSegment shmid))
                 (own_seq (XDestroyImage img) (own_ret (ctx\<lparr>xc_shmImage := None\<rparr>)))))))
           else own_seq (XDestroyImage img) (own_ret (ctx\<lparr>xc_shmid := shmid, xc_shmImage := None\<rparr>))))"

definition x11_capture_init :: "x11_env \<Rightarrow> (x_ref, x11_capture_t option) own" where
  "x11_capture_init e =
     (let dpy = xe_XOpenDisplay e in
      if dpy = 0 then own_ret None
      else own_seq (acquire (XDisplay dpy))
      (own_bind (own_lift (if xe_calloc e = 0 then None else Some (xe_calloc e))) (\<lambda>addr.
       own_seq (acquire (XCtx addr))
      (let ctx = \<lparr>xc_addr = addr, xc_dpy = dpy, xc_width = fst (xe_attrs e), xc_height = snd (xe_attrs e), xc_useShm = False, xc_shmid = 0,
                  xc_shmaddr = 0, xc_shmImage = None, xc_fallbackImage = None\<rparr> in
       own_bind (if xe_XShmQueryExtension e then x11_init_shm e ctx else own_ret ctx) (\<lambda>ctx. own_ret (Some ctx))))))"

text \<open>
  The screen at a capture: what \<^verbatim>\<open>XShmGetImage\<close> leaves in the shared memory, and the image of \<^verbatim>\<open>XGetImage\<close> with its memory.
\<close>

record x11_frame =
  xf_shm :: bytes
  xf_image :: "(ximage \<times> bytes) option"

definition x11_grab :: "x11_frame \<Rightarrow> x11_capture_t \<Rightarrow> (x_ref, (ximage \<times> bytes) option \<times> x11_capture_t) own" where
  "x11_grab fr ctx =
     (case (xc_useShm ctx, xc_shmImage ctx) of
        (True, Some img) \<Rightarrow>
          own_seq (touch (XDisplay (xc_dpy ctx))) (own_seq (touch (XImage (xi_addr img))) (own_seq (touch (ShmMap (xc_shmaddr ctx)))
            (own_ret (Some (img, xf_shm fr), ctx))))
      | _ \<Rightarrow>
          own_bind (case xc_fallbackImage ctx of
             Some img \<Rightarrow> own_seq (XDestroyImage img) (own_ret (ctx\<lparr>xc_fallbackImage := None\<rparr>)) | None \<Rightarrow> own_ret ctx) (\<lambda>ctx.
          own_seq (touch (XDisplay (xc_dpy ctx)))
          (case xf_image fr of
             None \<Rightarrow> own_ret (None, ctx)
           | Some (img, data) \<Rightarrow>
               own_seq (acquire (XImage (xi_addr img))) (own_ret (Some (img, data), ctx\<lparr>xc_fallbackImage := Some img\<rparr>)))))"

definition x11_copy :: "ximage \<Rightarrow> bytes \<Rightarrow> nat \<Rightarrow> nat \<Rightarrow> nat \<Rightarrow> bytes \<Rightarrow> bytes option" where
  "x11_copy img data height dst_width dst_height dst =
     (let src_stride = xi_bytes_per_line img; dst_stride = dst_width * 4; rows = min dst_height height in
      Option.bind
        (if src_stride = dst_stride then memcpy 0 data 0 (dst_stride * rows) dst
         else copy_rows dst_stride data 0 src_stride (min src_stride dst_stride) rows dst) (\<lambda>d.
      if xi_bits_per_pixel img = 32 then set_alpha (dst_stride * rows) d else Some d))"

definition x11_capture_frame_into :: "x11_frame \<Rightarrow> x11_capture_t \<Rightarrow> bytes \<Rightarrow> nat \<Rightarrow> nat \<Rightarrow> (x_ref, int \<times> bytes \<times> x11_capture_t) own" where
  "x11_capture_frame_into fr ctx dst dst_width dst_height =
     own_bind (x11_grab fr ctx) (\<lambda>(img, ctx).
     case img of
       None \<Rightarrow> own_ret (- 1, dst, ctx)
     | Some (img, data) \<Rightarrow>
         own_bind (own_lift (x11_copy img data (xc_height ctx) dst_width dst_height dst)) (\<lambda>dst. own_ret (0, dst, ctx)))"

definition x11_capture_close :: "x11_capture_t \<Rightarrow> (x_ref, unit) own" where
  "x11_capture_close ctx =
     own_seq (case xc_fallbackImage ctx of Some img \<Rightarrow> XDestroyImage img | None \<Rightarrow> own_ret ())
     (own_seq (case (xc_useShm ctx, xc_shmImage ctx) of
        (True, Some img) \<Rightarrow>
          own_seq (touch (XDisplay (xc_dpy ctx))) (own_seq (release (ShmAttached (xc_shmid ctx)))
            (own_seq (shm_unmap (xc_shmaddr ctx)) (XDestroyImage img)))
      | _ \<Rightarrow> own_ret ())
     (own_seq (release (XDisplay (xc_dpy ctx))) (release (XCtx (xc_addr ctx)))))"

section \<open>The Go part\<close>

record X11Capture =
  x1_ctx :: "x11_capture_t option"
  x1_width :: u16
  x1_height :: u16
  x1_pixels :: bytes
  x1_stride :: nat

definition X11Capture_zero :: X11Capture where
  "X11Capture_zero = \<lparr>x1_ctx = None, x1_width = 0, x1_height = 0, x1_pixels = [], x1_stride = 0\<rparr>"

definition X11Capture_Init :: "x11_env \<Rightarrow> X11Capture \<Rightarrow> (x_ref, unit res \<times> X11Capture) own" where
  "X11Capture_Init e x =
     own_bind (x11_capture_init e) (\<lambda>ctx.
     case ctx of
       None \<Rightarrow> own_ret (Inl (Errorf ''failed to open X11 display (is DISPLAY set?)'' []), x)
     | Some c \<Rightarrow>
         own_ret (Inr (), x\<lparr>x1_ctx := Some c, x1_width := of_nat (xc_width c), x1_height := of_nat (xc_height c),
           x1_stride := xc_width c * 4, x1_pixels := replicate (xc_width c * xc_height c * 4) 0\<rparr>))"

definition X11Capture_Bounds :: "X11Capture \<Rightarrow> u16 \<times> u16" where
  "X11Capture_Bounds x = (x1_width x, x1_height x)"

definition X11Capture_Capture :: "x11_frame \<Rightarrow> X11Capture \<Rightarrow> (x_ref, (bytes \<times> nat) res \<times> X11Capture) own" where
  "X11Capture_Capture fr x =
     (case x1_ctx x of
        None \<Rightarrow> own_ret (Inl (Errorf ''X11 capture not initialized'' []), x)
      | Some ctx \<Rightarrow>
          if x1_pixels x = [] then own_ret (Inl (GoPanic ''index out of range''), x)
          else own_bind (x11_capture_frame_into fr ctx (x1_pixels x) (unat (x1_width x)) (unat (x1_height x))) (\<lambda>(rc, p, ctx).
            let x = x\<lparr>x1_ctx := Some ctx, x1_pixels := p\<rparr> in
            own_ret (if rc \<noteq> 0 then Inl (Errorf ''X11 screen capture failed'' []) else Inr (p, x1_stride x), x)))"

definition X11Capture_Close :: "X11Capture \<Rightarrow> (x_ref, X11Capture) own" where
  "X11Capture_Close x =
     (case x1_ctx x of
        None \<Rightarrow> own_ret x
      | Some ctx \<Rightarrow> own_seq (x11_capture_close ctx) (own_ret (x\<lparr>x1_ctx := None\<rparr>)))"

section \<open>What it holds\<close>

definition image_ref :: "ximage option \<Rightarrow> x_ref multiset" where
  "image_ref i = (case i of None \<Rightarrow> {#} | Some img \<Rightarrow> {#XImage (xi_addr img)#})"

definition ctx_held :: "x11_capture_t \<Rightarrow> x_ref multiset" where
  "ctx_held c = {#XDisplay (xc_dpy c), XCtx (xc_addr c)#} + image_ref (xc_fallbackImage c) + image_ref (xc_shmImage c) +
     (if xc_useShm c then {#ShmAttached (xc_shmid c), ShmMap (xc_shmaddr c)#} else {#})"

definition x11_held :: "X11Capture \<Rightarrow> x_ref multiset" where
  "x11_held x = (case x1_ctx x of None \<Rightarrow> {#} | Some c \<Rightarrow> ctx_held c)"

text \<open>The image that captures will use after an initialisation: the shared one when it could be set up.\<close>

definition x11_shared :: "x11_env \<Rightarrow> ximage option" where
  "x11_shared e = (if xe_XShmQueryExtension e \<and> xe_shmget e \<ge> 0 \<and> xe_XShmAttach e then xe_XShmCreateImage e else None)"

text \<open>
  The size of the root window is positive and has 16 bits. \<open>x11_env_ok\<close> adds that the two calls whose results the code does not look at
  succeed when they are made: \<^verbatim>\<open>calloc\<close> once the display is open, and \<^verbatim>\<open>shmat\<close> when the segment is then used.
\<close>

definition x11_screen_ok :: "x11_env \<Rightarrow> bool" where
  "x11_screen_ok e \<longleftrightarrow> 0 < fst (xe_attrs e) \<and> fst (xe_attrs e) < 65536 \<and> 0 < snd (xe_attrs e) \<and> snd (xe_attrs e) < 65536"

definition x11_env_ok :: "x11_env \<Rightarrow> bool" where
  "x11_env_ok e \<longleftrightarrow> (xe_XOpenDisplay e \<noteq> 0 \<longrightarrow> xe_calloc e \<noteq> 0) \<and> (x11_shared e \<noteq> None \<longrightarrow> xe_shmat e \<noteq> - 1) \<and> x11_screen_ok e"

definition ctx_ok :: "x11_capture_t \<Rightarrow> bool" where
  "ctx_ok c \<longleftrightarrow> (xc_useShm c \<longleftrightarrow> xc_shmImage c \<noteq> None) \<and> (xc_useShm c \<longrightarrow> xc_shmaddr c \<noteq> - 1)"

definition x11_ready :: "X11Capture \<Rightarrow> bool" where
  "x11_ready x \<longleftrightarrow>
     (case x1_ctx x of
        None \<Rightarrow> True
      | Some c \<Rightarrow> ctx_ok c \<and> 0 < unat (x1_width x) \<and> 0 < unat (x1_height x) \<and> unat (x1_width x) = xc_width c \<and> unat (x1_height x) = xc_height c \<and>
          x1_stride x = unat (x1_width x) * 4 \<and> length (x1_pixels x) = unat (x1_width x) * 4 * unat (x1_height x))"

text \<open>An image has the rows of the screen.\<close>

definition x11_image_of :: "x11_frame \<Rightarrow> X11Capture \<Rightarrow> (ximage \<times> bytes) option" where
  "x11_image_of fr x =
     (case x1_ctx x of None \<Rightarrow> None
      | Some c \<Rightarrow> (case xc_shmImage c of Some img \<Rightarrow> if xc_useShm c then Some (img, xf_shm fr) else xf_image fr | None \<Rightarrow> xf_image fr))"

definition x11_use_ok :: "x11_frame \<Rightarrow> X11Capture \<Rightarrow> bool" where
  "x11_use_ok fr x \<longleftrightarrow>
     (case x11_image_of fr x of None \<Rightarrow> True | Some (img, data) \<Rightarrow> xi_bytes_per_line img * unat (x1_height x) \<le> length data)"

lemma x11_init_owns:
  assumes "x11_env_ok e"
  shows "own_runs (X11Capture_Init e X11Capture_zero) m (\<lambda>(r, x) m'. m' = m + x11_held x \<and>
    (case r of Inl _ \<Rightarrow> x11_held x = {#} | Inr _ \<Rightarrow> x11_ready x \<and> x1_ctx x \<noteq> None \<and>
      X11Capture_Bounds x = (of_nat (fst (xe_attrs e)), of_nat (snd (xe_attrs e)))))"
  using assms
  by (auto simp: X11Capture_Init_def x11_capture_init_def X11Capture_zero_def x11_init_shm_def own_simps Let_def shm_map_def shm_unmap_def
      XDestroyImage_def x11_held_def ctx_held_def image_ref_def x11_env_ok_def x11_screen_ok_def x11_shared_def x11_ready_def ctx_ok_def
      X11Capture_Bounds_def
      split: option.splits)

section \<open>Captures\<close>

text \<open>The picture of an image: its rows as far as they go, opaque when it has 32 bits per pixel.\<close>

lemma x11_copy_nth:
  assumes "0 < w" and "xi_bytes_per_line img * h \<le> length data" and "length dst = w * 4 * h"
  obtains d where "x11_copy img data h w h dst = Some d" and "length d = length dst"
    and "\<And>i. i < length dst \<Longrightarrow> d ! i =
      (if xi_bits_per_pixel img = 32 \<and> i mod 4 = 3 then 255
       else if i mod (w * 4) < xi_bytes_per_line img then data ! (i div (w * 4) * xi_bytes_per_line img + i mod (w * 4)) else dst ! i)"
proof -
  let ?s = "w * 4" and ?t = "xi_bytes_per_line img"
  have s: "0 < ?s" "?s * h \<le> length dst" "0 + ?t * h \<le> length data" using assms by simp_all
  obtain d where d: "(if ?t = ?s then memcpy 0 data 0 (?s * h) dst else copy_rows ?s data 0 ?t (min ?t ?s) h dst) = Some d"
    "length d = length dst" "\<And>i. i < length dst \<Longrightarrow> d ! i =
      (if i div ?s < h \<and> i mod ?s < min ?t ?s then data ! (0 + i div ?s * ?t + i mod ?s) else dst ! i)"
    using copy_picture_nth [OF s] by blast
  have row: "i div ?s < h \<and> i mod ?s < ?s" if "i < length dst" for i
  proof -
    have "i < h * ?s" using that assms(3) by (simp add: mult.commute)
    then show ?thesis using s(1) by (simp add: less_mult_imp_div_less)
  qed
  obtain e where e: "set_alpha (?s * h) d = Some e" "length e = length d"
    "\<And>i. i < length d \<Longrightarrow> e ! i = (if i < ?s * h \<and> i mod 4 = 3 then 255 else d ! i)"
    using set_alpha_nth [of "?s * h" d] d(2) assms(3) by auto
  show thesis
  proof (cases "xi_bits_per_pixel img = 32")
    case True
    show thesis
    proof (rule that [of e])
      show "x11_copy img data h w h dst = Some e" using True d(1) e(1) by (simp add: x11_copy_def Let_def)
    qed (use True d e row assms(3) in simp_all)
  next
    case False
    show thesis
    proof (rule that [of d])
      show "x11_copy img data h w h dst = Some d" using False d(1) by (simp add: x11_copy_def Let_def)
    qed (use False d row in simp_all)
  qed
qed

lemma x11_grab_runs:
  assumes "ctx_ok c" and "x1_ctx x = Some c"
  shows "own_runs (x11_grab fr c) (m + ctx_held c) (\<lambda>(img, c') m'. m' = m + ctx_held c' \<and> img = x11_image_of fr x \<and> ctx_ok c' \<and>
    xc_width c' = xc_width c \<and> xc_height c' = xc_height c \<and> xc_useShm c' = xc_useShm c \<and> xc_shmImage c' = xc_shmImage c)"
proof (cases "xc_useShm c")
  case True
  then obtain img where "xc_shmImage c = Some img" using assms(1) by (auto simp: ctx_ok_def)
  then show ?thesis using True assms by (simp add: x11_grab_def own_simps ctx_held_def image_ref_def x11_image_of_def)
next
  case False
  then have "xc_shmImage c = None" using assms(1) by (auto simp: ctx_ok_def)
  then show ?thesis using False assms
    by (auto simp: x11_grab_def own_simps ctx_held_def image_ref_def x11_image_of_def XDestroyImage_def ctx_ok_def split: option.split)
qed

lemma X11_Capture_runs:
  assumes "x11_ready x" and "x11_use_ok fr x" and "x1_ctx x = Some c"
  shows "own_runs (X11Capture_Capture fr x) (m + x11_held x) (\<lambda>(r, x') m'. m' = m + x11_held x' \<and> x11_ready x' \<and>
    X11Capture_Bounds x' = X11Capture_Bounds x \<and> (\<forall>fr. x11_image_of fr x' = x11_image_of fr x) \<and>
    (case r of
       Inl _ \<Rightarrow> x11_image_of fr x = None
     | Inr (pixels, stride) \<Rightarrow> stride = unat (x1_width x) * 4 \<and> length pixels = stride * unat (x1_height x) \<and>
         (\<exists>img data. x11_image_of fr x = Some (img, data) \<and> (\<forall>i < length pixels. pixels ! i =
           (if xi_bits_per_pixel img = 32 \<and> i mod 4 = 3 then 255
            else if i mod stride < xi_bytes_per_line img then data ! (i div stride * xi_bytes_per_line img + i mod stride) else x1_pixels x ! i)))))"
proof -
  have rdy: "ctx_ok c" "0 < unat (x1_width x)" "0 < unat (x1_height x)" "unat (x1_width x) = xc_width c" "unat (x1_height x) = xc_height c"
    "x1_stride x = unat (x1_width x) * 4" "length (x1_pixels x) = unat (x1_width x) * 4 * unat (x1_height x)"
    using assms(1,3) by (simp_all add: x11_ready_def)
  then have ne: "x1_pixels x \<noteq> []" by auto
  have held: "x11_held x = ctx_held c" using assms(3) by (simp add: x11_held_def)
  from runs_result [OF x11_grab_runs [OF rdy(1) assms(3), of fr m]] obtain c' where
    g: "x11_grab fr c (m + ctx_held c) = Some ((x11_image_of fr x, c'), m + ctx_held c')" and c': "ctx_ok c'" "xc_width c' = xc_width c"
      "xc_height c' = xc_height c" "xc_useShm c' = xc_useShm c" "xc_shmImage c' = xc_shmImage c" by auto
  have g: "own_runs (x11_grab fr c) (m + ctx_held c) Q \<longleftrightarrow> Q (x11_image_of fr x, c') (m + ctx_held c')" for Q by (simp add: own_runs_def g)
  have img: "x11_image_of fr' (x\<lparr>x1_ctx := Some c', x1_pixels := p\<rparr>) = x11_image_of fr' x"
    "x11_image_of fr' (x\<lparr>x1_ctx := Some c'\<rparr>) = x11_image_of fr' x" for fr' p
    using assms(3) c' by (simp_all add: x11_image_of_def split: option.split)
  show ?thesis
  proof (cases "x11_image_of fr x")
    case None
    then show ?thesis using assms(3) ne rdy c' img None held
      by (simp add: X11Capture_Capture_def x11_capture_frame_into_def own_runs_bind runs_ret g x11_held_def x11_ready_def X11Capture_Bounds_def Let_def)
  next
    case (Some a)
    obtain im data where a: "a = (im, data)" by (cases a)
    have "xi_bytes_per_line im * unat (x1_height x) \<le> length data" using assms(2) Some a by (simp add: x11_use_ok_def)
    from x11_copy_nth [OF rdy(2) this rdy(7)] obtain d where
      d: "x11_copy im data (unat (x1_height x)) (unat (x1_width x)) (unat (x1_height x)) (x1_pixels x) = Some d" "length d = length (x1_pixels x)"
      "\<And>i. i < length (x1_pixels x) \<Longrightarrow> d ! i =
        (if xi_bits_per_pixel im = 32 \<and> i mod 4 = 3 then 255
         else if i mod (unat (x1_width x) * 4) < xi_bytes_per_line im
         then data ! (i div (unat (x1_width x) * 4) * xi_bytes_per_line im + i mod (unat (x1_width x) * 4)) else x1_pixels x ! i)" by blast
    have "own_runs (X11Capture_Capture fr x) (m + x11_held x) Q \<longleftrightarrow>
        Q (Inr (d, x1_stride x), x\<lparr>x1_ctx := Some c', x1_pixels := d\<rparr>) (m + ctx_held c')" for Q
      using assms(3) ne rdy(5) c'(3) Some a d(1) held
      by (simp add: X11Capture_Capture_def x11_capture_frame_into_def own_runs_bind runs_ret runs_lift g Let_def)
    then show ?thesis using rdy c' img d(2,3) Some a
      by (simp add: x11_held_def x11_ready_def X11Capture_Bounds_def)
  qed
qed

lemma X11_close_law: "x11_ready x \<Longrightarrow> own_runs (X11Capture_Close x) (m + x11_held x) (\<lambda>x' m'. m' = m \<and> x11_held x' = {#})"
  by (auto simp: X11Capture_Close_def x11_capture_close_def own_simps x11_held_def ctx_held_def image_ref_def XDestroyImage_def shm_unmap_def
      x11_ready_def ctx_ok_def split: option.splits)

interpretation x11: lifecycle_owner x11_held x11_env_ok x11_use_ok x11_ready X11Capture_Init X11Capture_Capture X11Capture_Close X11Capture_zero
proof
  show "x11_held X11Capture_zero = {#}" by (simp add: x11_held_def X11Capture_zero_def)
  show "x11_env_ok e \<Longrightarrow> own_runs (X11Capture_Init e X11Capture_zero) m (\<lambda>(r, s) m'. m' = m + x11_held s \<and>
      (case r of Inl _ \<Rightarrow> x11_held s = {#} | Inr _ \<Rightarrow> x11_ready s))" for e m
    by (rule runs_mono [OF x11_init_owns]) (auto split: sum.splits)
  show "own_runs (X11Capture_Capture u x) (m + x11_held x) (\<lambda>(a, x') m'. m' = m + x11_held x' \<and> x11_ready x' \<and>
      (\<forall>u. x11_use_ok u x' \<longleftrightarrow> x11_use_ok u x))" if "x11_ready x" "x11_use_ok u x" for u x m
  proof (cases "x1_ctx x")
    case None
    then show ?thesis using that by (simp add: X11Capture_Capture_def own_simps)
  next
    case (Some c)
    show ?thesis by (rule runs_mono [OF X11_Capture_runs [OF that Some]]) (auto simp: x11_use_ok_def X11Capture_Bounds_def split: option.splits)
  qed
qed (rule X11_close_law)


section \<open>Properties\<close>

definition x11_image :: "x11_env \<Rightarrow> x11_frame \<Rightarrow> (ximage \<times> bytes) option" where
  "x11_image e fr = (case x11_shared e of Some img \<Rightarrow> Some (img, xf_shm fr) | None \<Rightarrow> xf_image fr)"

text \<open>Images have the rows of the screen and at least four bytes for each of its pixels.\<close>

definition x11_frame_ok :: "x11_env \<Rightarrow> x11_frame \<Rightarrow> bool" where
  "x11_frame_ok e fr \<longleftrightarrow>
     (case x11_image e fr of None \<Rightarrow> True | Some (img, data) \<Rightarrow> xi_bytes_per_line img * snd (xe_attrs e) \<le> length data)"

lemma x11_init_image:
  assumes "x11_env_ok e" and "X11Capture_Init e X11Capture_zero m = Some ((Inr (), x), m')"
  shows "x11_image_of fr x = x11_image e fr" and "unat (x1_height x) = snd (xe_attrs e)" and "unat (x1_width x) = fst (xe_attrs e)"
    and "x11_ready x" and "x1_ctx x \<noteq> None" and "m' = m + x11_held x"
proof -
  have "own_runs (X11Capture_Init e X11Capture_zero) m (\<lambda>(r, x) m'. r = Inr () \<longrightarrow> x11_image_of fr x = x11_image e fr)"
    using assms(1) by (auto simp: X11Capture_Init_def x11_capture_init_def X11Capture_zero_def x11_init_shm_def own_simps Let_def shm_map_def
        shm_unmap_def XDestroyImage_def x11_env_ok_def x11_screen_ok_def x11_image_of_def x11_image_def x11_shared_def split: option.splits)
  then show "x11_image_of fr x = x11_image e fr" using assms(2) by (simp add: own_runs_def)
  have "m' = m + x11_held x \<and> x11_ready x \<and> x1_ctx x \<noteq> None \<and> X11Capture_Bounds x = (of_nat (fst (xe_attrs e)), of_nat (snd (xe_attrs e)))"
    using x11_init_owns [OF assms(1), of m] assms(2) by (simp add: own_runs_def)
  then show "unat (x1_height x) = snd (xe_attrs e)" "unat (x1_width x) = fst (xe_attrs e)" "x11_ready x" "x1_ctx x \<noteq> None" "m' = m + x11_held x"
    using assms(1) by (auto simp: X11Capture_Bounds_def x11_env_ok_def x11_screen_ok_def)
qed

text \<open>With the two unchecked calls answered, nothing is lost.\<close>

lemma x11_ok_no_leak:
  assumes "x11_env_ok e" and "\<forall>fr \<in> set frs. x11_frame_ok e fr"
  shows "\<exists>r x. lifecycle X11Capture_Init X11Capture_Capture X11Capture_Close e frs X11Capture_zero m = Some ((r, x), m)"
proof -
  have "own_runs (lifecycle X11Capture_Init X11Capture_Capture X11Capture_Close e frs X11Capture_zero) m (\<lambda>(r, s) m'. m' = m \<and> x11_held s = {#})"
  proof (rule x11.no_leak [OF assms(1)])
    fix r x m'
    assume i: "X11Capture_Init e X11Capture_zero m = Some ((r, x), m')"
    show "\<forall>u \<in> set frs. x11_use_ok u x"
    proof (cases r)
      case (Inl err)
      then have "x1_ctx x = None" using x11_init_owns [OF assms(1), of m] i
        by (auto simp: own_runs_def x11_held_def ctx_held_def split: option.splits)
      then show ?thesis by (simp add: x11_use_ok_def x11_image_of_def)
    next
      case (Inr u)
      then have "X11Capture_Init e X11Capture_zero m = Some ((Inr (), x), m')" using i by simp
      from x11_init_image(1,2) [OF assms(1) this] show ?thesis using assms(2) by (auto simp: x11_use_ok_def x11_frame_ok_def split: option.splits)
    qed
  qed
  from runs_result [OF this] show ?thesis by auto
qed

text \<open>
  The two calls that are not checked: without memory the first write to the structure ends the program, and with a segment that is
  registered but not mapped the first capture does.
\<close>

lemma x11_calloc_crash:
  assumes "xe_XOpenDisplay e \<noteq> 0" and "xe_calloc e = 0"
  shows "X11Capture_Init e X11Capture_zero m = None"
  using assms by (simp add: X11Capture_Init_def x11_capture_init_def own_seq_def own_bind_def acquire_def own_lift_def)

lemma x11_unmapped_init:
  assumes "xe_XOpenDisplay e \<noteq> 0" and "xe_calloc e \<noteq> 0" and "x11_shared e = Some img" and "xe_shmat e = - 1" and "x11_screen_ok e"
  shows "\<exists>x c. X11Capture_Init e X11Capture_zero m =
      Some ((Inr (), x), m + {#XDisplay (xc_dpy c), XCtx (xc_addr c), XImage (xi_addr img), ShmAttached (xc_shmid c)#}) \<and>
    x1_ctx x = Some c \<and> xc_useShm c \<and> xc_shmImage c = Some img \<and> xc_shmaddr c = - 1 \<and> xc_fallbackImage c = None \<and> x1_pixels x \<noteq> []"
proof -
  have "own_runs (X11Capture_Init e X11Capture_zero) m (\<lambda>(r, x) m'. r = Inr () \<and> (\<exists>c. m' =
      m + {#XDisplay (xc_dpy c), XCtx (xc_addr c), XImage (xi_addr img), ShmAttached (xc_shmid c)#} \<and>
    x1_ctx x = Some c \<and> xc_useShm c \<and> xc_shmImage c = Some img \<and> xc_shmaddr c = - 1 \<and> xc_fallbackImage c = None \<and> x1_pixels x \<noteq> []))"
    using assms by (auto simp: X11Capture_Init_def x11_capture_init_def x11_init_shm_def own_simps Let_def shm_map_def
        x11_screen_ok_def x11_shared_def split: if_splits)
  from runs_result [OF this] show ?thesis by auto
qed

lemma x11_unmapped_capture:
  assumes "x1_ctx x = Some c" and "xc_useShm c" and "xc_shmImage c = Some img" and "xc_shmaddr c = - 1" and "x1_pixels x \<noteq> []"
    and "ShmMap (- 1) \<notin># m"
  shows "X11Capture_Capture fr x m = None"
  using assms by (auto simp: X11Capture_Capture_def x11_capture_frame_into_def x11_grab_def own_seq_def own_bind_def touch_def split: option.splits)

lemma x11_unmapped_lifecycle:
  assumes "xe_XOpenDisplay e \<noteq> 0" and "xe_calloc e \<noteq> 0" and "x11_shared e = Some img" and "xe_shmat e = - 1" and "x11_screen_ok e"
    and "ShmMap (- 1) \<notin># m"
  shows "case lifecycle X11Capture_Init X11Capture_Capture X11Capture_Close e frs X11Capture_zero m of
      None \<Rightarrow> frs \<noteq> [] | Some (_, m') \<Rightarrow> frs = [] \<and> m' = m"
proof -
  obtain x c where i: "X11Capture_Init e X11Capture_zero m =
      Some ((Inr (), x), m + {#XDisplay (xc_dpy c), XCtx (xc_addr c), XImage (xi_addr img), ShmAttached (xc_shmid c)#})"
    and c: "x1_ctx x = Some c" "xc_useShm c" "xc_shmImage c = Some img" "xc_shmaddr c = - 1" "xc_fallbackImage c = None" "x1_pixels x \<noteq> []"
    using x11_unmapped_init [OF assms(1-5)] by blast
  show ?thesis
  proof (cases frs)
    case Nil
    have "own_runs (X11Capture_Close x) (m + {#XDisplay (xc_dpy c), XCtx (xc_addr c), XImage (xi_addr img), ShmAttached (xc_shmid c)#}) (\<lambda>_ m'. m' = m)"
      using c by (simp add: X11Capture_Close_def x11_capture_close_def own_simps XDestroyImage_def shm_unmap_def)
    from runs_result [OF this] show ?thesis using i Nil by (auto simp: lifecycle_def own_bind_def own_ret_def)
  next
    case (Cons fr rest)
    then show ?thesis using x11_unmapped_capture [OF c(1-4,6)] assms(6) i by (simp add: lifecycle_def own_bind_def)
  qed
qed

definition x11_survives :: "x11_env \<Rightarrow> x11_frame list \<Rightarrow> bool" where
  "x11_survives e frs \<longleftrightarrow> xe_XOpenDisplay e = 0 \<or> (xe_calloc e \<noteq> 0 \<and> (xe_shmat e \<noteq> - 1 \<or> x11_shared e = None \<or> frs = []))"

text \<open>
  C39: Screen capture on X11 neither leaks nor misuses what it holds, whichever calls of the initialisation fail (the display, the memory for the
  structure, the extension, the image, the segment, its mapping or its registration) and whether captures use the shared image or a
  new one each time: a session of initialisation, captures and close runs to its end exactly when the two calls whose results
  the code ignores did not fail where it needs them (\<^verbatim>\<open>calloc\<close> once the display is open; \<^verbatim>\<open>shmat\<close> when a capture uses the registered segment), and
  a session that runs to its end has used nothing it did not hold, has accessed no memory outside its block, and has given back the connection, the structure, every image, the segment and
  its mapping exactly once: what is held afterwards is what was held before. A session in which one of the two failed ends with an access to
  memory it does not have.
\<close>

theorem x11_no_leak:
  assumes "x11_screen_ok e" and "\<forall>fr \<in> set frs. x11_frame_ok e fr" and "ShmMap (- 1) \<notin># m"
  shows "case lifecycle X11Capture_Init X11Capture_Capture X11Capture_Close e frs X11Capture_zero m of
      None \<Rightarrow> \<not> x11_survives e frs
    | Some (_, m') \<Rightarrow> x11_survives e frs \<and> m' = m"
proof -
  consider (ok) "x11_env_ok e" | (calloc) "xe_XOpenDisplay e \<noteq> 0" "xe_calloc e = 0"
    | (shmat) img where "xe_XOpenDisplay e \<noteq> 0" "xe_calloc e \<noteq> 0" "x11_shared e = Some img" "xe_shmat e = - 1"
    | (closed) "xe_XOpenDisplay e = 0"
    using assms(1) by (auto simp: x11_env_ok_def)
  then show ?thesis
  proof cases
    case ok
    then show ?thesis using x11_ok_no_leak [OF ok assms(2), of m] by (auto simp: x11_env_ok_def x11_survives_def)
  next
    case calloc
    then show ?thesis using x11_calloc_crash [OF calloc, of m] by (simp add: lifecycle_def own_bind_def x11_survives_def)
  next
    case (shmat img)
    then show ?thesis using x11_unmapped_lifecycle [OF shmat assms(1,3), of frs] by (auto simp: x11_survives_def split: option.splits)
  next
    case closed
    then show ?thesis by (simp add: lifecycle_def X11Capture_Init_def x11_capture_init_def own_bind_def own_ret_def x11_survives_def)
  qed
qed

definition demo_x11 :: "bool \<Rightarrow> x11_env" where
  "demo_x11 attach =
     \<lparr>xe_XOpenDisplay = 1, xe_calloc = 2, xe_attrs = (2, 1), xe_XShmQueryExtension = True, xe_XShmCreateImage =
        Some \<lparr>xi_addr = 3, xi_bytes_per_line = 12, xi_bits_per_pixel = 32\<rparr>, xe_shmget = 4, xe_shmat = 5, xe_XShmAttach = attach\<rparr>"

definition demo_screen :: x11_frame where
  "demo_screen =
     \<lparr>xf_shm = map of_nat [0..<12], xf_image = Some (\<lparr>xi_addr = 6, xi_bytes_per_line = 8, xi_bits_per_pixel = 32\<rparr>, map of_nat [0..<8])\<rparr>"

lemma demo_x11_ok: "x11_env_ok (demo_x11 a)" "x11_frame_ok (demo_x11 a) demo_screen"
  by (simp_all add: x11_env_ok_def x11_screen_ok_def x11_frame_ok_def demo_x11_def demo_screen_def x11_image_def x11_shared_def)

theorem x11_no_leak_witness:
  "(case lifecycle X11Capture_Init X11Capture_Capture X11Capture_Close (demo_x11 False) [demo_screen, demo_screen] X11Capture_zero {#} of
      None \<Rightarrow> False | Some (_, m') \<Rightarrow> m' = {#}) \<and>
   lifecycle X11Capture_Init X11Capture_Capture X11Capture_Close (demo_x11 True\<lparr>xe_shmat := - 1\<rparr>) [demo_screen] X11Capture_zero {#} = None"
  using x11_no_leak [of "demo_x11 False" "[demo_screen, demo_screen]" "{#}"] x11_no_leak [of "demo_x11 True\<lparr>xe_shmat := - 1\<rparr>" "[demo_screen]" "{#}"]
  by (auto simp: x11_screen_ok_def x11_frame_ok_def x11_survives_def x11_image_def x11_shared_def demo_x11_def demo_screen_def split: option.splits)

text \<open>
  C40: A capture on X11 shows the screen: after an initialisation that succeeded, with or without shared memory, and whenever the server returns an image with 32 bits per pixel and
  rows at least as long as those of the screen, a capture
  succeeds and returns a picture of the announced size at four bytes per pixel in which the byte \<open>k\<close> of the
  pixel in column \<open>x\<close> and row \<open>y\<close> is that byte of the image of the server, whatever the padding of its rows, and the
  fourth byte is 255. The mapping of the shared segment, when it is used, has succeeded.
\<close>

theorem x11_capture_shows_screen:
  assumes "x11_env_ok e" and "X11Capture_Init e X11Capture_zero m = Some ((Inr (), x0), m')" and "xe_attrs e = (w, h)"
    and "x11_image e fr = Some (img, data)" and "xi_bytes_per_line img * h \<le> length data" and "w * 4 \<le> xi_bytes_per_line img"
    and "xi_bits_per_pixel img = 32"
  shows "\<exists>pixels x1 m1. X11Capture_Capture fr x0 m' = Some ((Inr (pixels, w * 4), x1), m1) \<and>
    X11Capture_Bounds x0 = (of_nat w, of_nat h) \<and> length pixels = w * 4 * h \<and>
    (\<forall>x y k. x < w \<longrightarrow> y < h \<longrightarrow> k < 4 \<longrightarrow>
      pixels ! (y * (w * 4) + x * 4 + k) = (if k = 3 then 255 else data ! (y * xi_bytes_per_line img + x * 4 + k)))"
proof -
  note i = x11_init_image [OF assms(1,2)]
  have dims: "unat (x1_width x0) = w" "unat (x1_height x0) = h" using i(2,3) assms(3) by simp_all
  obtain c where c: "x1_ctx x0 = Some c" using i(5) by auto
  have im: "x11_image_of fr x0 = Some (img, data)" using i(1) assms(4) by simp
  then have ok: "x11_use_ok fr x0" using assms(5) dims by (simp add: x11_use_ok_def)
  have "own_runs (X11Capture_Capture fr x0) m' (\<lambda>(r, x') m'. \<exists>pixels. r = Inr (pixels, w * 4) \<and> length pixels = w * 4 * h \<and>
      (\<forall>i < length pixels. pixels ! i = (if i mod 4 = 3 then 255 else if i mod (w * 4) < xi_bytes_per_line img
          then data ! (i div (w * 4) * xi_bytes_per_line img + i mod (w * 4)) else x1_pixels x0 ! i)))"
    unfolding i(6) by (rule runs_mono [OF X11_Capture_runs [OF i(4) ok c]]) (use im dims assms(7) in \<open>auto split: sum.splits\<close>)
  from runs_result [OF this] obtain pixels x1 m1 where
    cap: "X11Capture_Capture fr x0 m' = Some ((Inr (pixels, w * 4), x1), m1)" and len: "length pixels = w * 4 * h"
    and px: "\<And>i. i < length pixels \<Longrightarrow> pixels ! i = (if i mod 4 = 3 then 255 else if i mod (w * 4) < xi_bytes_per_line img
          then data ! (i div (w * 4) * xi_bytes_per_line img + i mod (w * 4)) else x1_pixels x0 ! i)"
    by auto
  have "pixels ! (y * (w * 4) + x * 4 + k) = (if k = 3 then 255 else data ! (y * xi_bytes_per_line img + x * 4 + k))"
    if "x < w" "y < h" "k < 4" for x y k
  proof -
    have in_row: "x * 4 + k < w * 4" using that by simp
    then have dm: "(y * (w * 4) + (x * 4 + k)) div (w * 4) = y" "(y * (w * 4) + (x * 4 + k)) mod (w * 4) = x * 4 + k"
      by simp_all
    have "y * (w * 4) + w * 4 \<le> w * 4 * h" by (rule row_in [OF that(2)]) simp
    then have "y * (w * 4) + (x * 4 + k) < length pixels" using in_row len by linarith
    moreover have "(y * (w * 4) + (x * 4 + k)) mod 4 = k" using that(3) by (simp add: mod_add_eq mult.assoc [symmetric])
    ultimately show ?thesis using px [of "y * (w * 4) + (x * 4 + k)"] dm in_row assms(6) by (simp add: add.assoc)
  qed
  then show ?thesis using cap len dims by (auto simp: X11Capture_Bounds_def)
qed

theorem x11_capture_shows_screen_witness:
  "\<exists>x0 m' pixels x1 m1. X11Capture_Init (demo_x11 True) X11Capture_zero {#} = Some ((Inr (), x0), m') \<and>
     X11Capture_Capture demo_screen x0 m' = Some ((Inr (pixels, 8), x1), m1) \<and> pixels ! 4 = 4 \<and> pixels ! 7 = 255"
proof -
  have "own_runs (X11Capture_Init (demo_x11 True) X11Capture_zero) {#} (\<lambda>(r, x) m'. r = Inr ())"
    by (simp add: X11Capture_Init_def x11_capture_init_def x11_init_shm_def own_simps Let_def shm_map_def demo_x11_def)
  from runs_result [OF this] obtain x0 m' where i: "X11Capture_Init (demo_x11 True) X11Capture_zero {#} = Some ((Inr (), x0), m')" by auto
  have prem: "xe_attrs (demo_x11 True) = (2, 1)" "x11_image (demo_x11 True) demo_screen =
      Some (\<lparr>xi_addr = 3, xi_bytes_per_line = 12, xi_bits_per_pixel = 32\<rparr>, map of_nat [0..<12])"
    "xi_bytes_per_line \<lparr>xi_addr = 3, xi_bytes_per_line = 12, xi_bits_per_pixel = 32\<rparr> * 1 \<le> length (map of_nat [0..<12] :: bytes)"
    "2 * 4 \<le> xi_bytes_per_line \<lparr>xi_addr = 3, xi_bytes_per_line = 12, xi_bits_per_pixel = 32\<rparr>"
    "xi_bits_per_pixel \<lparr>xi_addr = 3, xi_bytes_per_line = 12, xi_bits_per_pixel = 32\<rparr> = 32"
    by (simp_all add: demo_x11_def demo_screen_def x11_image_def x11_shared_def)
  obtain pixels x1 m1 where c: "X11Capture_Capture demo_screen x0 m' = Some ((Inr (pixels, 2 * 4), x1), m1)" and
    p: "\<forall>x y k. x < 2 \<longrightarrow> y < 1 \<longrightarrow> k < 4 \<longrightarrow> pixels ! (y * (2 * 4) + x * 4 + k) =
      (if k = 3 then 255 else map of_nat [0..<12] ! (y * xi_bytes_per_line \<lparr>xi_addr = 3, xi_bytes_per_line = 12, xi_bits_per_pixel = 32\<rparr> + x * 4 + k))"
    using x11_capture_shows_screen [OF demo_x11_ok(1) i prem] by (elim exE conjE) (rule that)
  have "pixels ! 4 = 4" "pixels ! 7 = 255" using p [rule_format, of 1 0 0] p [rule_format, of 1 0 3] by simp_all
  moreover have "X11Capture_Capture demo_screen x0 m' = Some ((Inr (pixels, 8), x1), m1)" using c by simp
  ultimately show ?thesis using i by blast
qed


end
