(* ===== verification/Cgcapture.thy ===== *)
theory Cgcapture
  imports Ownership
begin

text \<open>
  \<^verbatim>\<open>capture_darwin.go\<close>: screen capture on macOS. The functions of \<^verbatim>\<open>screencapture_darwin.m\<close> (Objective-C) are an argument through their
  results: the context they allocate with its size, stride and buffer, and for each capture the result code and
  the bytes in that buffer. The slice of the capturer is a view of the buffer, not a copy.
\<close>

datatype sckit_ref = SckitCtx nat

record sckit_ctx =
  sk_addr :: nat
  sk_width :: nat
  sk_height :: nat
  sk_stride :: nat

record CGCapture =
  cg_ctx :: "sckit_ctx option"
  cg_size :: nat
  cg_width :: u16
  cg_height :: u16
  cg_stride :: nat

definition CGCapture_zero :: CGCapture where
  "CGCapture_zero = \<lparr>cg_ctx = None, cg_size = 0, cg_width = 0, cg_height = 0, cg_stride = 0\<rparr>"

definition CGCapture_Init :: "sckit_ctx option \<Rightarrow> CGCapture \<Rightarrow> (sckit_ref, unit res \<times> CGCapture) own" where
  "CGCapture_Init answer c =
     (case answer of
        None \<Rightarrow> own_ret (Inl (Errorf ''sckit_init failed: check Screen Recording permission in System Settings'' []), c)
      | Some ctx \<Rightarrow>
          own_seq (acquire (SckitCtx (sk_addr ctx)))
          (let height = of_nat (sk_height ctx) in
           own_ret (Inr (), c\<lparr>cg_ctx := Some ctx, cg_width := of_nat (sk_width ctx), cg_height := height, cg_stride := sk_stride ctx,
             cg_size := sk_stride ctx * unat height\<rparr>)))"

text \<open>The stream belongs to the context, which stops it when it is destroyed.\<close>

definition CGCapture_StartStream :: "int \<Rightarrow> CGCapture \<Rightarrow> (sckit_ref, unit res \<times> CGCapture) own" where
  "CGCapture_StartStream rc c =
     (case cg_ctx c of
        None \<Rightarrow> own_ret (Inl (Errorf ''CGCapture not initialized'' []), c)
      | Some ctx \<Rightarrow>
          own_seq (touch (SckitCtx (sk_addr ctx)))
          (own_ret (if rc \<noteq> 0 then Inl (Errorf ''sckit_stream_start failed (rc=%d)'' [rc]) else Inr (), c)))"

definition CGCapture_Bounds :: "CGCapture \<Rightarrow> u16 \<times> u16" where
  "CGCapture_Bounds c = (cg_width c, cg_height c)"

definition CGCapture_Capture :: "int \<times> bytes \<Rightarrow> CGCapture \<Rightarrow> (sckit_ref, (bytes \<times> nat) res \<times> CGCapture) own" where
  "CGCapture_Capture answer c =
     (case cg_ctx c of
        None \<Rightarrow> own_ret (Inl (Errorf ''CGCapture not initialized'' []), c)
      | Some ctx \<Rightarrow>
          own_seq (touch (SckitCtx (sk_addr ctx)))
          (case answer of (rc, buf) \<Rightarrow>
           if rc \<noteq> 0 then own_ret (Inl (Errorf ''screen capture failed (rc=%d)'' [rc]), c)
           else own_bind (own_lift (if cg_size c \<le> length buf then Some (take (cg_size c) buf) else None)) (\<lambda>pixels.
             own_ret (Inr (pixels, cg_stride c), c))))"

definition CGCapture_Close :: "CGCapture \<Rightarrow> (sckit_ref, CGCapture) own" where
  "CGCapture_Close c =
     (case cg_ctx c of
        None \<Rightarrow> own_ret c
      | Some ctx \<Rightarrow> own_seq (release (SckitCtx (sk_addr ctx))) (own_ret (c\<lparr>cg_ctx := None, cg_size := 0\<rparr>)))"

definition cg_held :: "CGCapture \<Rightarrow> sckit_ref multiset" where
  "cg_held c = (case cg_ctx c of None \<Rightarrow> {#} | Some ctx \<Rightarrow> {#SckitCtx (sk_addr ctx)#})"

text \<open>The buffer has the rows of the display.\<close>

definition cg_use_ok :: "int \<times> bytes \<Rightarrow> CGCapture \<Rightarrow> bool" where
  "cg_use_ok answer c \<longleftrightarrow> (fst answer = 0 \<longrightarrow> cg_size c \<le> length (snd answer))"

interpretation cg: lifecycle_owner cg_held "\<lambda>_. True" cg_use_ok "\<lambda>_. True" CGCapture_Init CGCapture_Capture CGCapture_Close CGCapture_zero
  by unfold_locales
    (auto simp: cg_held_def CGCapture_zero_def CGCapture_Init_def CGCapture_Capture_def CGCapture_Close_def cg_use_ok_def own_simps Let_def
      split: option.splits)

text \<open>The context is destroyed exactly once, and it is not used after that.\<close>

lemma cg_no_leak:
  assumes "\<And>r c m'. CGCapture_Init e CGCapture_zero m = Some ((r, c), m') \<Longrightarrow> \<forall>u \<in> set us. cg_use_ok u c"
  shows "\<exists>r c. lifecycle CGCapture_Init CGCapture_Capture CGCapture_Close e us CGCapture_zero m = Some ((r, c), m)"
proof -
  have "own_runs (lifecycle CGCapture_Init CGCapture_Capture CGCapture_Close e us CGCapture_zero) m (\<lambda>(r, c) m'. m' = m \<and> cg_held c = {#})"
    by (rule cg.no_leak [OF TrueI]) (rule assms)
  from runs_result [OF this] show ?thesis by auto
qed

end
