(* ===== verification/Spec2Isabelle.thy ===== *)
theory Spec2Isabelle
  imports ServerLimits Screenflow Zrle Mfbackend X264 Proxylife Wincursor Clipsync Exampleserver
  X11capture Cgcapture
begin

text \<open>
  A verification library for redvnc: a VNC (RFB 3.8) server library in Go with its platform code
  for capture and input, a client, and a WebSocket proxy that connects browsers to VNC servers and
  adds uploads and clipboard messages.

  \<^bold>\<open>How the program is put together.\<close> A capturer delivers frames (\<^verbatim>\<open>capture/\<close>,
  \<^verbatim>\<open>rfb/pipelined_capturer.go\<close>), a differ finds the tiles that changed (\<^verbatim>\<open>capture/diff.go\<close>), the
  server (\<^verbatim>\<open>rfb/server.go\<close>) answers the requests of its clients with rectangles in the best
  encoding a client supports (\<^verbatim>\<open>rfb/encodings/\<close>), converted to the client's pixel format
  (\<^verbatim>\<open>rfb/pixconv.go\<close>), after a handshake with a security type (\<^verbatim>\<open>rfb/security/\<close>). The messages are
  those of \<^verbatim>\<open>rfb/protocol.go\<close>; \<^verbatim>\<open>rfb/client.go\<close> is the other end. The proxy (\<^verbatim>\<open>wsproxy/\<close>) admits
  WebSocket requests (\<^verbatim>\<open>server.go\<close>, \<^verbatim>\<open>ratelimit.go\<close>, \<^verbatim>\<open>session.go\<close>), speaks the handshake for the
  browser, and relays messages (\<^verbatim>\<open>proxy.go\<close>, \<^verbatim>\<open>rfbreader.go\<close>), keeping the extension messages for
  itself (\<^verbatim>\<open>fileupload.go\<close>, \<^verbatim>\<open>clipboard.go\<close>); its command (\<^verbatim>\<open>cmd/main.go\<close>, \<^verbatim>\<open>config.go\<close>) collects the
  settings. Below the server, the injectors of \<^verbatim>\<open>input/\<close> hand the client's keys and pointer events to the
  system; on Wayland these and the capturer of \<^verbatim>\<open>capture/\<close> use a session of the desktop portal
  (\<^verbatim>\<open>internal/portal/\<close>).

  \<^bold>\<open>Conventions.\<close> Structs are records, message kinds datatypes, fixed width integers words that
  wrap; Go's \<^verbatim>\<open>int\<close> is \<^typ>\<open>nat\<close> or \<^typ>\<open>int\<close> where it cannot overflow. A function that can fail
  returns \<open>goerr + 'a\<close>; run-time panics are the error \<open>GoPanic\<close>, which no handler catches. A
  program over a connection is a state transformer over the record \<open>conn\<close>: the bytes still to
  read, the bytes written, and how many more the connection takes before it breaks. Goroutines
  are steps of an inductive relation, or schedules that are quantified over. Library code that
  is not part of the repository (deflate and inflate, JPEG, DES, random numbers, H.264, the
  operating system) is an argument of the definitions; what is assumed of it is a premise of the
  theorems, for instance that inflate undoes deflate, and every such premise has a witness.

  \<^bold>\<open>Theories, from the bottom.\<close>
  \<^item> \<open>Prelude\<close>: words, errors as values, loops that may fail, checked slices, loop ranges.
    \<open>Wire\<close>: byte order codecs, connections, symbolic execution and inversion of connection programs.
  \<^item> \<open>Protocol\<close>: every reader and writer of \<^verbatim>\<open>protocol.go\<close>; the locale \<open>message_codec\<close>, interpreted
    for each message kind there and in \<open>Client\<close>, says that what one side sends the other receives.
  \<^item> \<open>Pixconv\<close>: \<^verbatim>\<open>ConvertPixels\<close> against a specification of channel scaling. \<open>Security\<close>: the handshakes
    and the locale \<open>security_handler\<close>. \<open>Geometry\<close>: image rectangles and tilings.
  \<^item> \<open>Client\<close>: handshake, requests and decoders of \<^verbatim>\<open>client.go\<close>.
  \<^item> \<open>Diff\<close>: the frame differ, and that a viewer who copies only the reported tiles shows the frame.
    \<open>Encodings\<close>, \<open>Tight\<close>: the encoders, the viewer that keeps its decompressors in step with
    them, and \<^verbatim>\<open>EncodeMulti\<close> with its tasks, one per stream, in any order. \<open>Zrle\<close>: the
    ZRLE encoder with its bit packing, and a decoder that undoes it. \<open>H264\<close>: the H.264 encoder around
    its backend, and what its NV12 buffer holds.
  \<^item> \<open>Server\<close>: configuration, handshake, message loop, answers in every encoding and broadcasts.
    \<open>ServerMessages\<close>: the effects of client messages, termination of the message loop, and
    the order of the messages of a connection's writers. \<open>ServerFrames\<close>: which regions are encoded.
    \<open>Display\<close>: an answer as the client sees it, in the Raw, Zlib and Tight encodings.
    \<open>ServerLimits\<close>: requests on which the server panics. \<open>Serverlife\<close>: the port check, the pace of the frames, a connection from
    its beginning to its end, the server from \<^verbatim>\<open>ListenAndServe\<close> to \<^verbatim>\<open>Close\<close> as a step relation, and the C interface (\<^verbatim>\<open>capi/\<close>).
  \<^item> \<open>Pipelined\<close>: the double buffered capturer with its goroutine and its callers. \<open>Screenflow\<close>: whole sessions in which
    the capture goroutine, the frame writer of a connection and its client work together; the locale \<open>answering_server\<close>
    is interpreted for Tight and for Zlib.
  \<^item> \<open>Ratelimit\<close>: the limiter refines one that keeps the whole history of failures.
    \<open>Session\<close>: sessions, and the connection limits as an invariant. \<open>Paths\<close>: file names and upload
    directories, with the links a path may contain. \<open>Rfbreader\<close>: cutting the stream of a VNC server into messages.
  \<^item> \<open>Upload\<close>: uploads on a model of files and handles, and the clipboard messages; that the handlers keep the limits
    and write only below the allowed directories. \<open>Relay\<close>: the
    proxy's handshake and relays, and the browser, the proxy and the server composed.
    \<open>Wsserver\<close>: admission of requests, sessions and shutdown as a step relation.
  \<^item> \<open>Gostrings\<close>: what the sources use of Go's \<^verbatim>\<open>strings\<close>, \<^verbatim>\<open>strconv\<close> and \<^verbatim>\<open>time\<close>, float64 included. \<open>Wsconfig\<close>:
    configuration files, their validation, sizes with units, environment variables. \<open>Proxycmd\<close>: the
    command from its flags to the running server. \<open>Proxylife\<close>: how the proxy listens.
  \<^item> \<open>Keysyms\<close>: the key tables. \<open>Inputs\<close>: the injectors of X11, Windows and macOS as the events they send,
    with the locale \<open>pointer_injector\<close>, which \<open>Waylandinput\<close> interprets, too, and the Windows clipboard.
    \<open>Portal\<close>: portal sessions; a reply and the response signals before and after it, the steps of a session, the restore
    token. \<open>Waylandinput\<close>: input through the portal, and the way from a client's messages to the
    buttons the desktop holds.
  \<^item> \<open>Memory\<close>: block copies, copies between strides, opaque pictures. \<open>Waylandcapture\<close>: the frame store of the
    PipeWire capturer, its callbacks and its reader. \<open>Ownership\<close>: programs that hold references to
    foreign objects, their weakest preconditions, and the locale \<open>lifecycle_owner\<close> of objects that are
    initialised, used and closed; its interpretations are the capturers of \<open>Gdicapture\<close> and \<open>Dxgicapture\<close>
    (Windows), \<open>X11capture\<close> and \<open>Cgcapture\<close> (macOS), and the H.264 backends of \<open>Mfbackend\<close> (Media
    Foundation, with the start and the shutdown of the platform) and \<open>X264\<close>.
  \<^item> \<open>Wincursor\<close>: the pointer shape of Windows. \<open>Clipsync\<close>: the clipboard monitor of Windows, with UTF-8 and UTF-16.
    \<open>Exampleserver\<close>: the platforms, the configuration and the pictures of the example programs (\<^verbatim>\<open>example/\<close>).

  \<^bold>\<open>What the properties show.\<close> The picture: a client shows the last frame after any run of frames
  (Zlib exactly, Tight up to the loss of JPEG), any run of updates is decoded (ZRLE in its three colour bytes), the streams
  of both ends stay in step. The wire: the relay forwards a beginning of the server's bytes whatever they are, and each framed message as one
  message; client messages have the same effect through the proxy as directly. Security:
  authentication succeeds exactly for the right response, the proxy and the server agree on the
  outcome, lockout follows the history of failures, uploads stay below the allowed directories and within
  their limits, sessions go only to the targets of the command line or of the configuration. The desktop: the
  buttons a client holds are those the system holds, on four platforms; no key is lost when the portal lacks
  a method; a captured picture is the one delivered, of the announced size, on every platform; the capturers of Windows and X11
  give back every reference they take, whatever fails (on X11 unless one of the two calls the code does not check fails,
  and then the program crashes); the H.264 backends hand over every frame as it is and
  return all that is encoded; the pointer shape is the one of the system and clipboard text survives its way through Windows; portal sessions follow their protocol,
  open when the user agrees and are closed when they fail. Settings: their precedence, that validated values are
  used as they are written, and that TLS is used where it is required. The life of a server: its frames keep their pace, and a server that is closed
  winds down. Limits of the code, proved as such (some as lemmas of their theories): requests
  and messages that panic, sizes that wrap, handles that leak, a session that outlives a
  shutdown, a client that misses a change, a button that stays down, a format change that races with a
  reader, a response that is lost, an encoder that takes the platform away from another,
  a disconnect that ends the server, a server that cannot be closed.

  \<^bold>\<open>Bounds and fuel.\<close> Loops over input take more rounds than there are bytes, and the theorems show
  that this is enough (\<open>serveMessages_terminates\<close>, \<open>relay_transparent\<close>): a round that goes on has
  read a byte. \<open>bitLen\<close> runs 17 rounds on a 16-bit value. \<open>runes\<close> has as many rounds as bytes.
  Everything else is structural recursion or has a termination proof.

  \<^bold>\<open>Not modelled.\<close> Library code that the sources only call: sockets, TLS, HTTP, signals, the parsing of
  command lines and of JSON; what it answers is an argument. Logging has no counterpart, and with it the helpers
  of log lines (\<^verbatim>\<open>boolToAction\<close>, \<^verbatim>\<open>previewText\<close>) and the sequence of calls of the example client. The Objective-C and C
  files behind \<^verbatim>\<open>capture_darwin.go\<close> are arguments through their results. Time is
  an argument where the code reads a clock. Reads from a connection that never ends are outside the model: an input is finite.
\<close>

end
